(* ===== verification/VCU_Prelude.thy ===== *)
theory VCU_Prelude
  imports Main "HOL-Library.Word" "HOL-Library.Monad_Syntax" "HOL-Library.Multiset"
begin

unbundle bit_operations_syntax

text \<open>
  Shared vocabulary of the development: machine-word types, C arrays whose accesses outside
  their bounds are failures, ring buffers read through a head position, and the arithmetic
  lemmas the components share.

  Conventions. A C function that may hit undefined behaviour (an access outside an array, a
  failed \<open>Rtos_Assert\<close>, a loop that does not end) returns an \<open>option\<close>, \<^const>\<open>None\<close> being that
  failure. A function that the C code lets fail gracefully returns its C result value.
\<close>

section \<open>Machine integers\<close>

type_synonym u8 = "8 word"
type_synonym u32 = "32 word"

text \<open>\<open>AL_TIndex\<close> is \<open>int32_t\<close>; \<open>AL_BAD_INDEX\<close> is \<open>-1\<close> and every index above it is valid.\<close>

type_synonym index = int

definition AL_BAD_INDEX :: index where
  "AL_BAD_INDEX = -1"

definition AL_IS_VALID_INDEX :: "index \<Rightarrow> bool" where
  "AL_IS_VALID_INDEX i \<longleftrightarrow> AL_BAD_INDEX < i"

lemma valid_index_iff [simp]: "AL_IS_VALID_INDEX i \<longleftrightarrow> 0 \<le> i"
  by (auto simp: AL_IS_VALID_INDEX_def AL_BAD_INDEX_def)

lemma bad_index_neg [simp]: "AL_BAD_INDEX < 0" "\<not> 0 \<le> AL_BAD_INDEX"
  by (simp_all add: AL_BAD_INDEX_def)

text \<open>C pointers to opaque objects are addresses; \<open>NULL\<close> is 0.\<close>

type_synonym ptr = nat

definition NULL :: ptr where
  "NULL = 0"

section \<open>Named theorem collections\<close>

named_theorems fifo_simps \<open>abstract effect of the queue operations\<close>
named_theorems bit_simps \<open>bit-level reading of the byte operations\<close>
named_theorems dpb_simps \<open>field projections of the decoded picture buffer operations\<close>

section \<open>C arrays\<close>

text \<open>An array access with a C index: \<^const>\<open>None\<close> outside the array.\<close>

definition arr_get :: "'a list \<Rightarrow> int \<Rightarrow> 'a option" where
  "arr_get xs i = (if 0 \<le> i \<and> nat i < length xs then Some (xs ! nat i) else None)"

definition arr_set :: "'a list \<Rightarrow> int \<Rightarrow> 'a \<Rightarrow> 'a list option" where
  "arr_set xs i x = (if 0 \<le> i \<and> nat i < length xs then Some (xs[nat i := x]) else None)"

lemma arr_get_Some [simp]: "0 \<le> i \<Longrightarrow> nat i < length xs \<Longrightarrow> arr_get xs i = Some (xs ! nat i)"
  by (simp add: arr_get_def)

lemma arr_set_Some [simp]: "0 \<le> i \<Longrightarrow> nat i < length xs \<Longrightarrow> arr_set xs i x = Some (xs[nat i := x])"
  by (simp add: arr_set_def)

lemma arr_get_eq_Some_iff: "arr_get xs i = Some x \<longleftrightarrow> 0 \<le> i \<and> nat i < length xs \<and> x = xs ! nat i"
  by (auto simp: arr_get_def)

lemma arr_set_eq_Some_iff:
  "arr_set xs i x = Some ys \<longleftrightarrow> 0 \<le> i \<and> nat i < length xs \<and> ys = xs[nat i := x]"
  by (auto simp: arr_set_def)

section \<open>Ring buffers\<close>

text \<open>
  The \<open>k\<close> elements of the circular array \<open>xs\<close> that follow position \<open>h\<close>. The queues of the
  code differ in how they record \<open>h\<close> and \<open>k\<close>; all read and write the array this way.
\<close>

definition ring :: "'a list \<Rightarrow> nat \<Rightarrow> nat \<Rightarrow> 'a list" where
  "ring xs h k = map (\<lambda>i. xs ! ((h + i) mod length xs)) [0..<k]"

lemma length_ring [simp]: "length (ring xs h k) = k"
  by (simp add: ring_def)

lemma ring_0 [simp]: "ring xs h 0 = []"
  by (simp add: ring_def)

lemma ring_nth [simp]: "i < k \<Longrightarrow> ring xs h k ! i = xs ! ((h + i) mod length xs)"
  by (simp add: ring_def)

lemma ring_Suc: "ring xs h (Suc k) = ring xs h k @ [xs ! ((h + k) mod length xs)]"
  by (simp add: ring_def)

lemma ring_head_mod: "ring xs (h mod length xs) k = ring xs h k"
  by (simp add: ring_def mod_add_left_eq)

lemma ring_Cons:
  "ring xs h (Suc k) = xs ! (h mod length xs) # ring xs (Suc h mod length xs) k"
  by (rule nth_equalityI) (auto simp: nth_Cons mod_add_left_eq split: nat.split)

text \<open>Two positions less than a whole turn apart are different slots.\<close>

lemma ring_slots_inj:
  assumes "i < n" "j < n" "(h + i) mod n = (h + j) mod (n :: nat)"
  shows "i = j"
proof -
  have "(int h + int i) mod int n = (int h + int j) mod int n"
    using assms(3) by (metis of_nat_add zmod_int)
  then have "(int i - int j) mod int n = 0"
    by (simp add: mod_eq_dvd_iff)
  moreover have "\<bar>int i - int j\<bar> < int n"
    using assms(1,2) by auto
  ultimately show ?thesis
    using dvd_imp_le_int [of "int i - int j" "int n"] by (auto simp: mod_eq_0_iff_dvd)
qed

lemma ring_update_outside:
  assumes "j < length xs" "k \<le> j"
  shows "ring (xs[(h + j) mod length xs := x]) h k = ring xs h k"
proof (rule nth_equalityI)
  fix i assume "i < length (ring (xs[(h + j) mod length xs := x]) h k)"
  then have "i < k" by simp
  then have "(h + i) mod length xs \<noteq> (h + j) mod length xs"
    using ring_slots_inj [of i "length xs" j h] assms by auto
  then show "ring (xs[(h + j) mod length xs := x]) h k ! i = ring xs h k ! i"
    using \<open>i < k\<close> by simp
qed simp

lemma ring_snoc:
  assumes "k < length xs"
  shows "ring (xs[(h + k) mod length xs := x]) h (Suc k) = ring xs h k @ [x]"
proof -
  have "(h + k) mod length xs < length xs"
    using assms by (intro mod_less_divisor) auto
  then show ?thesis
    using assms by (simp add: ring_Suc ring_update_outside)
qed

section \<open>Lists\<close>

lemma takeWhile_dropWhile_index:
  "P (xs ! length (takeWhile (Not \<circ> P) xs))" if "\<exists>x\<in>set xs. P x"
  using that by (induction xs) auto

section \<open>Loops over a list that may fail\<close>

fun foldM :: "('a \<Rightarrow> 's \<Rightarrow> 's option) \<Rightarrow> 'a list \<Rightarrow> 's \<Rightarrow> 's option" where
  "foldM f [] s = Some s"
| "foldM f (x # xs) s = do { s' \<leftarrow> f x s; foldM f xs s' }"

lemma foldM_append: "foldM f (xs @ ys) s = do { s' \<leftarrow> foldM f xs s; foldM f ys s' }"
  by (induction xs arbitrary: s) (simp_all add: bind_assoc split: Option.bind_split)

lemma foldM_Some: "foldM (\<lambda>x s. Some (f x s)) xs s = Some (fold f xs s)"
  by (induction xs arbitrary: s) auto

end
