(* ===== verification/Fifo.thy ===== *)
theory Fifo
  imports VCU_Prelude
begin

text \<open>
  The bounded queues of \<open>lib_common\<close>: \<open>StaticFifo.c\<close>, \<open>IntFifo.c\<close> and the blocking
  \<open>Fifo.c\<close>, with the queue contract the rest of the code relies on (locale \<open>bounded_fifo\<close>)
  and its interpretation by each of the three implementations.
\<close>

section \<open>The contract of a bounded queue\<close>

text \<open>
  \<open>nil\<close> is the value the C dequeue returns on an empty queue (\<open>NULL\<close>, \<open>INTFIFO_INVALID\<close>):
  the contract speaks of elements different from it, as every caller uses.
\<close>

locale bounded_fifo =
  fixes inv :: "'q \<Rightarrow> bool"
    and cap :: "'q \<Rightarrow> nat"
    and contents :: "'q \<Rightarrow> 'a list"
    and nil :: 'a
    and enq :: "'q \<Rightarrow> 'a \<Rightarrow> bool \<times> 'q"
    and deq :: "'q \<Rightarrow> 'a \<times> 'q"
  assumes bounded: "inv q \<Longrightarrow> length (contents q) \<le> cap q"
    and enq_space: "inv q \<Longrightarrow> length (contents q) < cap q \<Longrightarrow> x \<noteq> nil \<Longrightarrow>
      fst (enq q x) \<and> contents (snd (enq q x)) = contents q @ [x]"
    and enq_full: "inv q \<Longrightarrow> length (contents q) = cap q \<Longrightarrow> enq q x = (False, q)"
    and enq_inv: "inv q \<Longrightarrow> x \<noteq> nil \<Longrightarrow> inv (snd (enq q x)) \<and> cap (snd (enq q x)) = cap q"
    and deq_empty: "inv q \<Longrightarrow> contents q = [] \<Longrightarrow> deq q = (nil, q)"
    and deq_first: "inv q \<Longrightarrow> contents q = x # xs \<Longrightarrow> fst (deq q) = x \<and> contents (snd (deq q)) = xs"
    and deq_inv: "inv q \<Longrightarrow> inv (snd (deq q)) \<and> cap (snd (deq q)) = cap q"

text \<open>A client's sequence of calls, and what it observes.\<close>

datatype 'a fifo_op = Enq 'a | Deq
datatype 'a fifo_obs = EnqRet bool | DeqRet 'a

fun fifo_run :: "('q \<Rightarrow> 'a \<Rightarrow> bool \<times> 'q) \<Rightarrow> ('q \<Rightarrow> 'a \<times> 'q) \<Rightarrow> 'q \<Rightarrow> 'a fifo_op list \<Rightarrow>
    'a fifo_obs list \<times> 'q" where
  "fifo_run enq deq q [] = ([], q)"
| "fifo_run enq deq q (Enq x # ops) =
     (let (ok, q') = enq q x; (obs, q'') = fifo_run enq deq q' ops in (EnqRet ok # obs, q''))"
| "fifo_run enq deq q (Deq # ops) =
     (let (x, q') = deq q; (obs, q'') = fifo_run enq deq q' ops in (DeqRet x # obs, q''))"

text \<open>The abstract queue: a list that takes an element while it is shorter than its capacity.\<close>

fun queue_spec :: "nat \<Rightarrow> 'a \<Rightarrow> 'a list \<Rightarrow> 'a fifo_op list \<Rightarrow> 'a fifo_obs list \<times> 'a list" where
  "queue_spec c nil xs [] = ([], xs)"
| "queue_spec c nil xs (Enq x # ops) =
     (let ok = length xs < c; (obs, ys) = queue_spec c nil (if ok then xs @ [x] else xs) ops
      in (EnqRet ok # obs, ys))"
| "queue_spec c nil [] (Deq # ops) =
     (let (obs, ys) = queue_spec c nil [] ops in (DeqRet nil # obs, ys))"
| "queue_spec c nil (x # xs) (Deq # ops) =
     (let (obs, ys) = queue_spec c nil xs ops in (DeqRet x # obs, ys))"

context bounded_fifo
begin

lemma run_refines_spec:
  assumes "inv q" "Enq nil \<notin> set ops"
  shows "fst (fifo_run enq deq q ops) = fst (queue_spec (cap q) nil (contents q) ops)
    \<and> contents (snd (fifo_run enq deq q ops)) = snd (queue_spec (cap q) nil (contents q) ops)
    \<and> inv (snd (fifo_run enq deq q ops))"
  using assms
proof (induction ops arbitrary: q)
  case Nil
  then show ?case by simp
next
  case (Cons op ops)
  show ?case
  proof (cases op)
    case (Enq x)
    then have x: "x \<noteq> nil" using Cons.prems by auto
    let ?q = "snd (enq q x)"
    have inv: "inv ?q" "cap ?q = cap q"
      using enq_inv [OF Cons.prems(1) x] by auto
    have ok: "fst (enq q x) = (length (contents q) < cap q)"
      and cont: "contents ?q = (if length (contents q) < cap q then contents q @ [x] else contents q)"
      using enq_space [OF Cons.prems(1) _ x] enq_full [OF Cons.prems(1)] bounded [OF Cons.prems(1)]
      by (cases "length (contents q) < cap q"; simp)+
    show ?thesis
      using Cons.IH [OF inv(1)] Cons.prems(2) inv(2) ok cont Enq
      by (auto simp: Let_def split: prod.splits)
  next
    case Deq
    let ?q = "snd (deq q)"
    have inv: "inv ?q" "cap ?q = cap q"
      using deq_inv [OF Cons.prems(1)] by auto
    have IH: "fst (fifo_run enq deq ?q ops) = fst (queue_spec (cap q) nil (contents ?q) ops)
      \<and> contents (snd (fifo_run enq deq ?q ops)) = snd (queue_spec (cap q) nil (contents ?q) ops)
      \<and> inv (snd (fifo_run enq deq ?q ops))"
      using Cons.IH [OF inv(1)] Cons.prems(2) inv(2) by auto
    show ?thesis
    proof (cases "contents q")
      case Nil
      then have "deq q = (nil, q)" using deq_empty [OF Cons.prems(1)] by simp
      then show ?thesis using Deq IH Nil by (auto simp: Let_def split: prod.splits)
    next
      case (Cons y ys)
      then have "fst (deq q) = y" "contents ?q = ys"
        using deq_first [OF \<open>inv q\<close>] by auto
      then show ?thesis using Deq IH Cons by (auto simp: Let_def split: prod.splits)
    qed
  qed
qed

end

section \<open>StaticFifo.c\<close>

text \<open>
  The \<open>int32_t\<close> fields are never negative (\<open>Init\<close> clears the positions, every update reduces
  them modulo the size) and are kept as naturals.
\<close>

record StaticFifo =
  sf_elements :: "ptr list"
  sf_head :: nat
  sf_tail :: nat
  sf_total :: nat

text \<open>
  \<open>self\<close> and the element array may be \<open>NULL\<close> (\<^const>\<open>None\<close>); the result is the returned
  flag and the initialised queue.
\<close>

definition StaticFifo_Init :: "StaticFifo option \<Rightarrow> ptr list option \<Rightarrow> int \<Rightarrow> bool \<times> StaticFifo option" where
  "StaticFifo_Init self elements n =
     (case self of None \<Rightarrow> (False, None)
      | Some s \<Rightarrow> (case elements of None \<Rightarrow> (False, Some s)
      | Some es \<Rightarrow> if n < 1 then (False, Some s)
         else (True, Some (s\<lparr>sf_head := 0, sf_tail := 0, sf_total := nat n, sf_elements := es\<rparr>))))"

definition StaticFifo_Empty :: "StaticFifo \<Rightarrow> bool" where
  "StaticFifo_Empty s \<longleftrightarrow> sf_head s = sf_tail s"

definition StaticFifo_Size :: "StaticFifo \<Rightarrow> nat" where
  "StaticFifo_Size s = (sf_tail s + sf_total s - sf_head s) mod sf_total s"

definition StaticFifo_Enqueue :: "StaticFifo \<Rightarrow> ptr \<Rightarrow> bool \<times> StaticFifo" where
  "StaticFifo_Enqueue s x =
     (if (sf_tail s + 1) mod sf_total s = sf_head s then (False, s)
      else (True, s\<lparr>sf_elements := (sf_elements s)[sf_tail s := x],
                    sf_tail := (sf_tail s + 1) mod sf_total s\<rparr>))"

definition StaticFifo_Dequeue :: "StaticFifo \<Rightarrow> ptr \<times> StaticFifo" where
  "StaticFifo_Dequeue s =
     (if StaticFifo_Empty s then (NULL, s)
      else (sf_elements s ! sf_head s, s\<lparr>sf_head := (sf_head s + 1) mod sf_total s\<rparr>))"

definition StaticFifo_At :: "StaticFifo \<Rightarrow> nat \<Rightarrow> ptr" where
  "StaticFifo_At s off =
     (if StaticFifo_Size s \<le> off then NULL
      else sf_elements s ! ((sf_head s + off) mod sf_total s))"

definition StaticFifo_Front :: "StaticFifo \<Rightarrow> ptr" where
  "StaticFifo_Front s = StaticFifo_At s 0"

text \<open>The scan of \<open>IsIn\<close>, with the number of slots as fuel.\<close>

fun StaticFifo_scan :: "nat \<Rightarrow> StaticFifo \<Rightarrow> nat \<Rightarrow> ptr \<Rightarrow> bool option" where
  "StaticFifo_scan 0 s i x = None"
| "StaticFifo_scan (Suc f) s i x =
     (if i = sf_tail s then Some False
      else if x = sf_elements s ! i then Some True
      else StaticFifo_scan f s ((i + 1) mod sf_total s) x)"

definition StaticFifo_IsIn :: "StaticFifo \<Rightarrow> ptr \<Rightarrow> bool option" where
  "StaticFifo_IsIn s x =
     (if StaticFifo_Empty s then Some False
      else StaticFifo_scan (Suc (sf_total s)) s (sf_head s) x)"

text \<open>The invariant, and the queue as a list: one slot always stays free.\<close>

definition static_inv :: "StaticFifo \<Rightarrow> bool" where
  "static_inv s \<longleftrightarrow> 0 < sf_total s \<and> length (sf_elements s) = sf_total s
     \<and> sf_head s < sf_total s \<and> sf_tail s < sf_total s"

definition static_contents :: "StaticFifo \<Rightarrow> ptr list" where
  "static_contents s = ring (sf_elements s) (sf_head s) (StaticFifo_Size s)"

definition static_cap :: "StaticFifo \<Rightarrow> nat" where
  "static_cap s = sf_total s - 1"

text \<open>Positions of a circular array: the tail is the head advanced by the size.\<close>

lemma mod_gap:
  assumes "h < n" "t < (n :: nat)"
  shows "(h + (t + n - h) mod n) mod n = t"
proof -
  have "(h + (t + n - h) mod n) mod n = (h + (t + n - h)) mod n"
    by (rule mod_add_right_eq)
  also have "h + (t + n - h) = t + n" using assms by simp
  finally show ?thesis using assms by simp
qed

lemma gap_unique:
  assumes "k < n" "(h + k) mod n = t" "h < (n :: nat)"
  shows "(t + n - h) mod n = k"
proof -
  have t: "t < n" using assms by auto
  have "(h + (t + n - h) mod n) mod n = (h + k) mod n"
    using mod_gap [OF assms(3) t] assms(2) by simp
  then show ?thesis
    using ring_slots_inj [of "(t + n - h) mod n" n k h] assms(1) by simp
qed

lemma static_size_props:
  assumes "static_inv s"
  shows "StaticFifo_Size s < sf_total s"
    and "(sf_head s + StaticFifo_Size s) mod sf_total s = sf_tail s"
  using assms mod_gap [of "sf_head s" "sf_total s" "sf_tail s"]
  by (auto simp: static_inv_def StaticFifo_Size_def)

lemma static_sizeI:
  assumes "static_inv s" "k < sf_total s" "(sf_head s + k) mod sf_total s = sf_tail s"
  shows "StaticFifo_Size s = k"
  using gap_unique [OF assms(2,3)] assms(1) by (simp add: static_inv_def StaticFifo_Size_def)

lemma static_empty_iff: "static_inv s \<Longrightarrow> StaticFifo_Empty s \<longleftrightarrow> static_contents s = []"
proof -
  assume inv: "static_inv s"
  have "StaticFifo_Empty s \<longleftrightarrow> StaticFifo_Size s = 0"
  proof
    assume "StaticFifo_Empty s"
    then show "StaticFifo_Size s = 0"
      using static_sizeI [OF inv, of 0] inv by (simp add: StaticFifo_Empty_def static_inv_def)
  next
    assume "StaticFifo_Size s = 0"
    then show "StaticFifo_Empty s"
      using static_size_props(2) [OF inv] inv by (simp add: StaticFifo_Empty_def static_inv_def)
  qed
  then show ?thesis by (metis length_0_conv length_ring static_contents_def)
qed

lemma static_full_iff:
  assumes "static_inv s"
  shows "(sf_tail s + 1) mod sf_total s = sf_head s \<longleftrightarrow> length (static_contents s) = static_cap s"
proof -
  let ?n = "sf_total s" and ?k = "StaticFifo_Size s"
  have n: "0 < ?n" "sf_head s < ?n" using assms by (auto simp: static_inv_def)
  have k: "?k < ?n" and t: "(sf_head s + ?k) mod ?n = sf_tail s"
    using static_size_props [OF assms] by auto
  have step: "(sf_tail s + 1) mod ?n = (sf_head s + Suc ?k) mod ?n"
    using t by (metis Suc_eq_plus1 add_Suc_right mod_Suc_eq)
  show ?thesis
  proof
    assume full: "(sf_tail s + 1) mod ?n = sf_head s"
    show "length (static_contents s) = static_cap s"
    proof (rule ccontr)
      assume "length (static_contents s) \<noteq> static_cap s"
      then have "Suc ?k < ?n" using k by (simp add: static_contents_def static_cap_def)
      moreover have "(sf_head s + Suc ?k) mod ?n = (sf_head s + 0) mod ?n"
        using full step n by simp
      ultimately show False
        using ring_slots_inj [of "Suc ?k" ?n 0 "sf_head s"] n by simp
    qed
  next
    assume "length (static_contents s) = static_cap s"
    then have "Suc ?k = ?n" using n by (simp add: static_contents_def static_cap_def)
    then show "(sf_tail s + 1) mod ?n = sf_head s" using step n by simp
  qed
qed

lemma static_enqueue:
  assumes "static_inv s" "length (static_contents s) < static_cap s"
  shows "fst (StaticFifo_Enqueue s x) \<and> static_contents (snd (StaticFifo_Enqueue s x)) = static_contents s @ [x]"
    and "static_inv (snd (StaticFifo_Enqueue s x))"
proof -
  let ?s = "snd (StaticFifo_Enqueue s x)" and ?k = "StaticFifo_Size s"
  have notfull: "(sf_tail s + 1) mod sf_total s \<noteq> sf_head s"
    using static_full_iff [OF assms(1)] assms(2) by simp
  have t: "(sf_head s + ?k) mod sf_total s = sf_tail s"
    using static_size_props(2) [OF assms(1)] .
  have len: "length (sf_elements s) = sf_total s" using assms(1) by (simp add: static_inv_def)
  show inv: "static_inv ?s"
    using assms(1) notfull by (auto simp: static_inv_def StaticFifo_Enqueue_def)
  have "Suc ?k < sf_total s" using assms(2) by (simp add: static_contents_def static_cap_def)
  then have size: "StaticFifo_Size ?s = Suc ?k"
    using static_sizeI [OF inv, of "Suc ?k"] t notfull
    by (auto simp: StaticFifo_Enqueue_def mod_Suc_eq) (metis add_Suc_right mod_Suc_eq)
  have "static_contents ?s = ring ((sf_elements s)[sf_tail s := x]) (sf_head s) (Suc ?k)"
    using size notfull by (simp add: static_contents_def StaticFifo_Enqueue_def)
  also have "\<dots> = static_contents s @ [x]"
    using ring_snoc [of ?k "sf_elements s" "sf_head s" x] static_size_props(1) [OF assms(1)] len t
    by (simp add: static_contents_def)
  finally show "fst (StaticFifo_Enqueue s x) \<and> static_contents ?s = static_contents s @ [x]"
    using notfull by (simp add: StaticFifo_Enqueue_def)
qed

lemma static_dequeue:
  assumes "static_inv s" "static_contents s = x # xs"
  shows "fst (StaticFifo_Dequeue s) = x \<and> static_contents (snd (StaticFifo_Dequeue s)) = xs"
    and "static_inv (snd (StaticFifo_Dequeue s))"
proof -
  let ?s = "snd (StaticFifo_Dequeue s)" and ?k = "length xs"
  have ne: "\<not> StaticFifo_Empty s" using static_empty_iff [OF assms(1)] assms(2) by simp
  have size: "StaticFifo_Size s = Suc ?k"
    using assms(2) by (metis length_Cons length_ring static_contents_def)
  have len: "length (sf_elements s) = sf_total s" and h: "sf_head s < sf_total s"
    using assms(1) by (auto simp: static_inv_def)
  have t: "(sf_head s + Suc ?k) mod sf_total s = sf_tail s"
    using static_size_props(2) [OF assms(1)] size by simp
  show inv: "static_inv ?s"
    using assms(1) ne by (auto simp: static_inv_def StaticFifo_Dequeue_def)
  have "StaticFifo_Size ?s = ?k"
  proof (rule static_sizeI [OF inv])
    show "?k < sf_total ?s"
      using static_size_props(1) [OF assms(1)] size ne by (simp add: StaticFifo_Dequeue_def)
    show "(sf_head ?s + ?k) mod sf_total ?s = sf_tail ?s"
      using t ne by (simp add: StaticFifo_Dequeue_def mod_add_left_eq add.commute)
        (metis add_Suc_right mod_add_right_eq add.commute Suc_eq_plus1)
  qed
  then have "static_contents ?s = ring (sf_elements s) (Suc (sf_head s) mod sf_total s) ?k"
    using ne by (simp add: static_contents_def StaticFifo_Dequeue_def)
  moreover have "x # xs = sf_elements s ! sf_head s # ring (sf_elements s) (Suc (sf_head s) mod sf_total s) ?k"
    using assms(2) size len h by (simp add: static_contents_def ring_Cons)
  ultimately show "fst (StaticFifo_Dequeue s) = x \<and> static_contents ?s = xs"
    using ne by (simp add: StaticFifo_Dequeue_def)
qed

interpretation static: bounded_fifo static_inv static_cap static_contents NULL
    StaticFifo_Enqueue StaticFifo_Dequeue
proof unfold_locales
  fix s :: StaticFifo and x y :: ptr and xs
  show "static_inv s \<Longrightarrow> length (static_contents s) \<le> static_cap s"
    using static_size_props(1) [of s] by (simp add: static_contents_def static_cap_def)
  show "static_inv s \<Longrightarrow> length (static_contents s) < static_cap s \<Longrightarrow> x \<noteq> NULL \<Longrightarrow>
      fst (StaticFifo_Enqueue s x) \<and> static_contents (snd (StaticFifo_Enqueue s x)) = static_contents s @ [x]"
    by (rule static_enqueue)
  show "static_inv s \<Longrightarrow> length (static_contents s) = static_cap s \<Longrightarrow> StaticFifo_Enqueue s x = (False, s)"
    by (simp add: static_full_iff StaticFifo_Enqueue_def flip: static_full_iff)
  show "static_inv s \<Longrightarrow> x \<noteq> NULL \<Longrightarrow>
      static_inv (snd (StaticFifo_Enqueue s x)) \<and> static_cap (snd (StaticFifo_Enqueue s x)) = static_cap s"
    by (auto simp: static_inv_def static_cap_def StaticFifo_Enqueue_def)
  show "static_inv s \<Longrightarrow> static_contents s = [] \<Longrightarrow> StaticFifo_Dequeue s = (NULL, s)"
    by (simp add: StaticFifo_Dequeue_def static_empty_iff)
  show "static_inv s \<Longrightarrow> static_contents s = x # xs \<Longrightarrow>
      fst (StaticFifo_Dequeue s) = x \<and> static_contents (snd (StaticFifo_Dequeue s)) = xs"
    by (rule static_dequeue)
  show "static_inv s \<Longrightarrow>
      static_inv (snd (StaticFifo_Dequeue s)) \<and> static_cap (snd (StaticFifo_Dequeue s)) = static_cap s"
    by (auto simp: static_inv_def static_cap_def StaticFifo_Dequeue_def)
qed

lemma static_init:
  assumes "StaticFifo_Init (Some s0) (Some es) n = (True, Some s)" "int (length es) = n"
  shows "static_inv s" "static_contents s = []" "static_cap s = length es - 1"
  using assms
  by (auto simp: StaticFifo_Init_def static_inv_def static_contents_def static_cap_def
      StaticFifo_Size_def split: if_splits)

lemma static_at:
  assumes "static_inv s"
  shows "StaticFifo_At s k = (if k < length (static_contents s) then static_contents s ! k else NULL)"
  using assms by (auto simp: StaticFifo_At_def static_contents_def static_inv_def)

lemma static_scan:
  assumes "static_inv s" "j \<le> StaticFifo_Size s" "StaticFifo_Size s - j < f"
  shows "StaticFifo_scan f s ((sf_head s + j) mod sf_total s) x = Some (x \<in> set (drop j (static_contents s)))"
  using assms(2,3)
proof (induction f arbitrary: j)
  case 0
  then show ?case by simp
next
  case (Suc f)
  let ?n = "sf_total s" and ?k = "StaticFifo_Size s"
  have kn: "?k < ?n" and tl: "(sf_head s + ?k) mod ?n = sf_tail s"
    using static_size_props [OF assms(1)] by auto
  show ?case
  proof (cases "j = ?k")
    case True
    then show ?thesis using tl by (simp add: static_contents_def)
  next
    case False
    then have j: "j < ?k" using Suc.prems by simp
    have ne: "(sf_head s + j) mod ?n \<noteq> sf_tail s"
      using ring_slots_inj [of j ?n ?k "sf_head s"] j kn tl by auto
    have step: "((sf_head s + j) mod ?n + 1) mod ?n = (sf_head s + Suc j) mod ?n"
      by (metis Suc_eq_plus1 add_Suc_right mod_Suc_eq)
    have dr: "drop j (static_contents s) =
        sf_elements s ! ((sf_head s + j) mod ?n) # drop (Suc j) (static_contents s)"
      using j assms(1) by (simp add: static_contents_def static_inv_def flip: Cons_nth_drop_Suc)
    have "StaticFifo_scan f s ((sf_head s + Suc j) mod ?n) x = Some (x \<in> set (drop (Suc j) (static_contents s)))"
      using Suc.IH [of "Suc j"] Suc.prems j by simp
    then show ?thesis using ne step dr by simp
  qed
qed

lemma static_isin:
  assumes "static_inv s"
  shows "StaticFifo_IsIn s x = Some (x \<in> set (static_contents s))"
proof -
  have "StaticFifo_scan (Suc (sf_total s)) s (sf_head s) x = Some (x \<in> set (static_contents s))"
    using static_scan [OF assms, of 0 "Suc (sf_total s)" x] static_size_props(1) [OF assms] assms
    by (simp add: static_inv_def del: StaticFifo_scan.simps)
  then show ?thesis
    using static_empty_iff [OF assms] by (simp add: StaticFifo_IsIn_def del: StaticFifo_scan.simps)
qed

section \<open>IntFifo.c\<close>

text \<open>Here both positions are \<open>AL_BAD_INDEX\<close> while the queue is empty, so every slot is usable.\<close>

record IntFifo =
  if_elements :: "int list"
  if_head :: index
  if_tail :: index
  if_total :: int

definition INTFIFO_INVALID :: int where
  "INTFIFO_INVALID = -1"

definition IntFifo_Init :: "IntFifo option \<Rightarrow> int list option \<Rightarrow> int \<Rightarrow> bool \<times> IntFifo option" where
  "IntFifo_Init self elements n =
     (case self of None \<Rightarrow> (False, None)
      | Some s \<Rightarrow> (case elements of None \<Rightarrow> (False, Some s)
      | Some es \<Rightarrow> if n < 1 then (False, Some s)
         else (True, Some (s\<lparr>if_head := AL_BAD_INDEX, if_tail := AL_BAD_INDEX,
                             if_total := n, if_elements := es\<rparr>))))"

definition IntFifo_Empty :: "IntFifo \<Rightarrow> bool" where
  "IntFifo_Empty s \<longleftrightarrow> \<not> AL_IS_VALID_INDEX (if_tail s)"

definition IntFifo_Size :: "IntFifo \<Rightarrow> int" where
  "IntFifo_Size s =
     (if IntFifo_Empty s then 0
      else (if_tail s + if_total s - if_head s) mod if_total s + 1)"

definition IntFifo_Queue :: "IntFifo \<Rightarrow> int \<Rightarrow> bool \<times> IntFifo" where
  "IntFifo_Queue s x =
     (if IntFifo_Size s = if_total s then (False, s)
      else if IntFifo_Empty s then
        (True, s\<lparr>if_tail := if_tail s + 1, if_head := if_head s + 1,
                 if_elements := (if_elements s)[nat (if_tail s + 1) := x]\<rparr>)
      else let t = (if_tail s + 1) mod if_total s in
        (True, s\<lparr>if_tail := t, if_elements := (if_elements s)[nat t := x]\<rparr>))"

definition IntFifo_Dequeue :: "IntFifo \<Rightarrow> int \<times> IntFifo" where
  "IntFifo_Dequeue s =
     (if IntFifo_Empty s then (INTFIFO_INVALID, s)
      else (if_elements s ! nat (if_head s),
        if IntFifo_Size s = 1 then s\<lparr>if_tail := AL_BAD_INDEX, if_head := AL_BAD_INDEX\<rparr>
        else s\<lparr>if_head := (if_head s + 1) mod if_total s\<rparr>))"

definition IntFifo_Peek :: "IntFifo \<Rightarrow> int" where
  "IntFifo_Peek s = (if IntFifo_Empty s then INTFIFO_INVALID else if_elements s ! nat (if_head s))"

text \<open>Either both positions are bad, or both are slots of the array.\<close>

definition int_inv :: "IntFifo \<Rightarrow> bool" where
  "int_inv s \<longleftrightarrow> 0 < if_total s \<and> int (length (if_elements s)) = if_total s
     \<and> (if_head s = AL_BAD_INDEX \<and> if_tail s = AL_BAD_INDEX
        \<or> 0 \<le> if_head s \<and> if_head s < if_total s \<and> 0 \<le> if_tail s \<and> if_tail s < if_total s)"

definition int_contents :: "IntFifo \<Rightarrow> int list" where
  "int_contents s = ring (if_elements s) (nat (if_head s)) (nat (IntFifo_Size s))"

definition int_cap :: "IntFifo \<Rightarrow> nat" where
  "int_cap s = nat (if_total s)"

lemma int_mod_gap:
  assumes "0 \<le> h" "h < n" "0 \<le> t" "t < (n :: int)"
  shows "(h + (t + n - h) mod n) mod n = t"
  using assms by (simp add: mod_add_right_eq)

lemma int_size_props:
  assumes "int_inv s"
  shows "0 \<le> IntFifo_Size s" "IntFifo_Size s \<le> if_total s"
    and "IntFifo_Size s = 0 \<longleftrightarrow> IntFifo_Empty s"
    and "\<not> IntFifo_Empty s \<Longrightarrow> (if_head s + (IntFifo_Size s - 1)) mod if_total s = if_tail s"
proof -
  have n: "0 < if_total s" using assms by (simp add: int_inv_def)
  let ?g = "(if_tail s + if_total s - if_head s) mod if_total s"
  have g: "0 \<le> ?g" "?g < if_total s" using n by auto
  show "0 \<le> IntFifo_Size s" "IntFifo_Size s \<le> if_total s" "IntFifo_Size s = 0 \<longleftrightarrow> IntFifo_Empty s"
  proof -
    obtain g where "0 \<le> g" "g < if_total s" "IntFifo_Size s = (if IntFifo_Empty s then 0 else g + 1)"
      using g n by (metis IntFifo_Size_def)
    then show "0 \<le> IntFifo_Size s" "IntFifo_Size s \<le> if_total s" "IntFifo_Size s = 0 \<longleftrightarrow> IntFifo_Empty s"
      using n by auto
  qed
  assume "\<not> IntFifo_Empty s"
  then show "(if_head s + (IntFifo_Size s - 1)) mod if_total s = if_tail s"
    using assms int_mod_gap by (auto simp: int_inv_def IntFifo_Empty_def IntFifo_Size_def AL_BAD_INDEX_def)
qed

lemma int_sizeI:
  assumes "int_inv s" "0 < k" "k \<le> if_total s" "\<not> IntFifo_Empty s"
    and "(if_head s + (k - 1)) mod if_total s = if_tail s"
  shows "IntFifo_Size s = k"
proof -
  have "(if_tail s + if_total s - if_head s) mod if_total s
      = ((if_head s + (k - 1)) mod if_total s + if_total s - if_head s) mod if_total s"
    by (simp only: assms(5))
  also have "\<dots> = ((if_head s + (k - 1)) mod if_total s - if_head s) mod if_total s"
    by (simp add: diff_add_eq [symmetric])
  also have "\<dots> = (k - 1) mod if_total s"
    by (simp add: mod_diff_left_eq)
  also have "\<dots> = k - 1" using assms(2,3) by simp
  finally show ?thesis using assms(4) by (simp add: IntFifo_Size_def)
qed

lemma int_inv_length: "int_inv s \<Longrightarrow> nat (if_total s) = length (if_elements s)"
  by (auto simp: int_inv_def)

lemma int_slot:
  assumes "int_inv s" "0 \<le> i" "0 \<le> if_head s"
  shows "nat ((if_head s + i) mod if_total s) = (nat (if_head s) + nat i) mod length (if_elements s)"
  using assms by (simp add: nat_mod_distrib nat_add_distrib int_inv_length [symmetric] int_inv_def)

lemma int_empty_iff: "int_inv s \<Longrightarrow> IntFifo_Empty s \<longleftrightarrow> int_contents s = []"
  using int_size_props(1,3) [of s] by (auto simp: int_contents_def simp flip: length_0_conv)

lemma int_length: "int_inv s \<Longrightarrow> int (length (int_contents s)) = IntFifo_Size s"
  using int_size_props(1) [of s] by (simp add: int_contents_def)

lemma int_queue:
  assumes "int_inv s" "length (int_contents s) < int_cap s"
  shows "fst (IntFifo_Queue s x) \<and> int_contents (snd (IntFifo_Queue s x)) = int_contents s @ [x]"
    and "int_inv (snd (IntFifo_Queue s x))"
proof -
  let ?s = "snd (IntFifo_Queue s x)"
  have notfull: "IntFifo_Size s \<noteq> if_total s" and lt: "IntFifo_Size s < if_total s"
    using assms int_length [OF assms(1)] by (auto simp: int_cap_def)
  have "fst (IntFifo_Queue s x) \<and> int_contents ?s = int_contents s @ [x] \<and> int_inv ?s"
  proof (cases "IntFifo_Empty s")
    case True
    then have bad: "if_head s = -1" "if_tail s = -1"
      using assms(1) by (auto simp: int_inv_def IntFifo_Empty_def AL_BAD_INDEX_def)
    have s: "?s = s\<lparr>if_tail := 0, if_head := 0, if_elements := (if_elements s)[0 := x]\<rparr>"
      using True notfull bad by (simp add: IntFifo_Queue_def)
    have inv: "int_inv ?s" using assms(1) unfolding s by (auto simp: int_inv_def)
    have nonempty: "0 < length (if_elements s)" using assms(1) by (auto simp: int_inv_def)
    have "IntFifo_Size ?s = 1" unfolding s by (simp add: IntFifo_Size_def IntFifo_Empty_def)
    then have "int_contents ?s = [x]"
      using assms(1) nonempty unfolding int_contents_def s by (simp add: ring_def)
    then show ?thesis using True int_empty_iff [OF assms(1)] notfull inv by (simp add: IntFifo_Queue_def Let_def)
  next
    case False
    let ?k = "IntFifo_Size s"
    have h: "0 \<le> if_head s" "if_head s < if_total s"
      using False assms(1) by (auto simp: int_inv_def IntFifo_Empty_def AL_BAD_INDEX_def)
    have k: "0 < ?k" using int_size_props(1,3) [OF assms(1)] False by linarith
    have n: "0 < if_total s" "int (length (if_elements s)) = if_total s"
      using assms(1) by (auto simp: int_inv_def)
    have t: "(if_tail s + 1) mod if_total s = (if_head s + ?k) mod if_total s"
      using int_size_props(4) [OF assms(1) False, symmetric] by (simp add: mod_simps)
    have s: "?s = s\<lparr>if_tail := (if_head s + ?k) mod if_total s,
        if_elements := (if_elements s)[nat ((if_head s + ?k) mod if_total s) := x]\<rparr>"
      using False notfull by (simp add: IntFifo_Queue_def Let_def t)
    have inv: "int_inv ?s" using h n unfolding s by (simp add: int_inv_def)
    have "IntFifo_Size ?s = ?k + 1"
    proof (rule int_sizeI [OF inv])
      show "\<not> IntFifo_Empty ?s" using n unfolding s by (simp add: IntFifo_Empty_def)
    qed (use k lt in \<open>auto simp: s\<close>)
    then have "int_contents ?s = ring ((if_elements s)[nat ((if_head s + ?k) mod if_total s) := x])
        (nat (if_head s)) (Suc (nat ?k))"
      using k unfolding int_contents_def s by (simp add: nat_add_distrib)
    also have "\<dots> = int_contents s @ [x]"
      using ring_snoc [of "nat ?k" "if_elements s" "nat (if_head s)" x] lt n k h(1)
        int_slot [OF assms(1) _ h(1), of ?k]
      by (simp add: int_contents_def)
    finally show ?thesis using False notfull inv by (simp add: IntFifo_Queue_def Let_def)
  qed
  then show "fst (IntFifo_Queue s x) \<and> int_contents ?s = int_contents s @ [x]" "int_inv ?s"
    by auto
qed

lemma int_dequeue:
  assumes "int_inv s" "int_contents s = x # xs"
  shows "fst (IntFifo_Dequeue s) = x \<and> int_contents (snd (IntFifo_Dequeue s)) = xs"
    and "int_inv (snd (IntFifo_Dequeue s))"
proof -
  let ?s = "snd (IntFifo_Dequeue s)" and ?k = "IntFifo_Size s"
  have ne: "\<not> IntFifo_Empty s" using int_empty_iff [OF assms(1)] assms(2) by simp
  have h: "0 \<le> if_head s" "if_head s < if_total s"
    using ne assms(1) by (auto simp: int_inv_def IntFifo_Empty_def AL_BAD_INDEX_def)
  have n: "0 < if_total s" "int (length (if_elements s)) = if_total s"
    using assms(1) by (auto simp: int_inv_def)
  have k: "?k = int (length xs) + 1" using int_length [OF assms(1)] assms(2) by simp
  have next_slot: "Suc (nat (if_head s)) mod length (if_elements s) = nat ((if_head s + 1) mod if_total s)"
    using int_slot [OF assms(1) _ h(1), of 1] by simp
  have cont: "x # xs = if_elements s ! nat (if_head s)
      # ring (if_elements s) (nat ((if_head s + 1) mod if_total s)) (length xs)"
    using assms(2) k h n ring_Cons [of "if_elements s" "nat (if_head s)" "length xs"] next_slot
    by (simp add: int_contents_def nat_add_distrib)
  have "int_inv ?s \<and> int_contents ?s = xs"
  proof (cases "?k = 1")
    case True
    then have "?s = s\<lparr>if_tail := AL_BAD_INDEX, if_head := AL_BAD_INDEX\<rparr>"
      using ne by (simp add: IntFifo_Dequeue_def)
    then show ?thesis using n k True
      by (simp add: int_inv_def int_contents_def IntFifo_Size_def IntFifo_Empty_def)
  next
    case False
    then have s: "?s = s\<lparr>if_head := (if_head s + 1) mod if_total s\<rparr>"
      using ne by (simp add: IntFifo_Dequeue_def)
    have inv: "int_inv ?s" using assms(1) h n ne unfolding s
      by (auto simp: int_inv_def IntFifo_Empty_def AL_BAD_INDEX_def)
    have "IntFifo_Size ?s = int (length xs)"
    proof (rule int_sizeI [OF inv])
      show "0 < int (length xs)" using False k by simp
      show "int (length xs) \<le> if_total ?s" using int_size_props(2) [OF assms(1)] k by (simp add: s)
      show "\<not> IntFifo_Empty ?s" using ne by (simp add: s IntFifo_Empty_def)
      show "(if_head ?s + (int (length xs) - 1)) mod if_total ?s = if_tail ?s"
        using int_size_props(4) [OF assms(1) ne] k by (simp add: s mod_simps)
    qed
    then show ?thesis using inv cont by (simp add: int_contents_def s)
  qed
  then show "fst (IntFifo_Dequeue s) = x \<and> int_contents ?s = xs" "int_inv ?s"
    using cont ne by (auto simp: IntFifo_Dequeue_def)
qed

interpretation intf: bounded_fifo int_inv int_cap int_contents INTFIFO_INVALID
    IntFifo_Queue IntFifo_Dequeue
proof unfold_locales
  fix s :: IntFifo and x y :: int and xs
  show "int_inv s \<Longrightarrow> length (int_contents s) \<le> int_cap s"
    using int_size_props(2) [of s] int_length [of s] by (simp add: int_cap_def)
  show "int_inv s \<Longrightarrow> length (int_contents s) < int_cap s \<Longrightarrow> x \<noteq> INTFIFO_INVALID \<Longrightarrow>
      fst (IntFifo_Queue s x) \<and> int_contents (snd (IntFifo_Queue s x)) = int_contents s @ [x]"
    by (rule int_queue)
  show full: "IntFifo_Queue s x = (False, s)" if "int_inv s" "length (int_contents s) = int_cap s" for x
    using that int_length [of s] by (auto simp: IntFifo_Queue_def int_cap_def int_inv_def)
  show "int_inv s \<Longrightarrow> x \<noteq> INTFIFO_INVALID \<Longrightarrow>
      int_inv (snd (IntFifo_Queue s x)) \<and> int_cap (snd (IntFifo_Queue s x)) = int_cap s"
    using int_queue(2) [of s x] full [of x] int_size_props(2) [of s] int_length [of s]
    by (cases "length (int_contents s) < int_cap s") (auto simp: int_cap_def IntFifo_Queue_def Let_def)
  show "int_inv s \<Longrightarrow> int_contents s = [] \<Longrightarrow> IntFifo_Dequeue s = (INTFIFO_INVALID, s)"
    by (simp add: IntFifo_Dequeue_def int_empty_iff)
  show "int_inv s \<Longrightarrow> int_contents s = x # xs \<Longrightarrow>
      fst (IntFifo_Dequeue s) = x \<and> int_contents (snd (IntFifo_Dequeue s)) = xs"
    by (rule int_dequeue)
  show "int_inv s \<Longrightarrow>
      int_inv (snd (IntFifo_Dequeue s)) \<and> int_cap (snd (IntFifo_Dequeue s)) = int_cap s"
    using int_dequeue(2) [of s] int_empty_iff [of s]
    by (cases "int_contents s") (auto simp: int_cap_def IntFifo_Dequeue_def)
qed

lemma int_init:
  assumes "IntFifo_Init (Some s0) (Some es) n = (True, Some s)" "int (length es) = n"
  shows "int_inv s" "int_contents s = []" "int_cap s = length es"
  using assms
  by (auto simp: IntFifo_Init_def int_inv_def int_contents_def int_cap_def
      IntFifo_Size_def IntFifo_Empty_def split: if_splits)

lemma int_peek: "int_inv s \<Longrightarrow> IntFifo_Peek s = fst (IntFifo_Dequeue s)"
  by (simp add: IntFifo_Peek_def IntFifo_Dequeue_def)

section \<open>Fifo.c: the blocking queue\<close>

text \<open>
  Two counting semaphores guard the ring: \<open>hSpaceSem\<close> counts free slots, \<open>hCountSem\<close> counts
  elements. A semaphore is its count; \<open>Rtos_GetSemaphore\<close> with \<open>AL_NO_WAIT\<close> is \<open>sem_trywait\<close>.
\<close>

type_synonym semaphore = nat

definition Rtos_GetSemaphore :: "semaphore \<Rightarrow> bool \<times> semaphore" where
  "Rtos_GetSemaphore c = (if c = 0 then (False, c) else (True, c - 1))"

definition Rtos_ReleaseSemaphore :: "semaphore \<Rightarrow> semaphore" where
  "Rtos_ReleaseSemaphore c = Suc c"

record AL_Fifo =
  zMaxElem :: nat
  zTail :: nat
  zHead :: nat
  ElemBuffer :: "ptr list"
  hCountSem :: semaphore
  hSpaceSem :: semaphore

text \<open>
  \<open>AL_Fifo_Init\<close> makes four allocations, each of which may fail, and undoes the earlier ones
  through its \<open>goto\<close> chain. The model takes the four outcomes and returns the flag, the queue and
  the resources still held. The buffer is filled with the pattern \<open>0xCD\<close>.
\<close>

datatype fifo_resource = ElemBufferMem | CountSem | SpaceSem | FifoMutex

definition FIFO_FILL :: ptr where
  "FIFO_FILL = 0xCDCDCDCDCDCDCDCD"

definition AL_Fifo_Init :: "bool \<Rightarrow> bool \<Rightarrow> bool \<Rightarrow> bool \<Rightarrow> nat \<Rightarrow> bool \<times> AL_Fifo option \<times> fifo_resource set" where
  "AL_Fifo_Init bufOk countOk spaceOk mutexOk n =
     (if \<not> bufOk then (False, None, {})
      else let held = {ElemBufferMem} in
      if \<not> countOk then (False, None, held - {ElemBufferMem})
      else let held = insert CountSem held in
      if \<not> spaceOk then (False, None, held - {CountSem} - {ElemBufferMem})
      else let held = insert SpaceSem held in
      if \<not> mutexOk then (False, None, held - {SpaceSem} - {CountSem} - {ElemBufferMem})
      else (True, Some \<lparr>zMaxElem = n + 1, zTail = 0, zHead = 0, ElemBuffer = replicate (n + 1) FIFO_FILL,
                       hCountSem = 0, hSpaceSem = n\<rparr>, insert FifoMutex held))"

text \<open>The critical sections of \<open>Queue\<close> and \<open>Dequeue\<close>, each run under the mutex.\<close>

definition fifo_push :: "AL_Fifo \<Rightarrow> ptr \<Rightarrow> AL_Fifo" where
  "fifo_push q x = q\<lparr>ElemBuffer := (ElemBuffer q)[zTail q := x], zTail := (zTail q + 1) mod zMaxElem q\<rparr>"

definition fifo_pop :: "AL_Fifo \<Rightarrow> ptr \<times> AL_Fifo" where
  "fifo_pop q =
     (if zHead q \<noteq> zTail q
      then (ElemBuffer q ! zHead q, q\<lparr>zHead := (zHead q + 1) mod zMaxElem q\<rparr>)
      else (NULL, q))"

text \<open>The calls themselves when they run alone and do not wait.\<close>

definition AL_Fifo_Queue :: "AL_Fifo \<Rightarrow> ptr \<Rightarrow> bool \<times> AL_Fifo" where
  "AL_Fifo_Queue q x =
     (case Rtos_GetSemaphore (hSpaceSem q) of
        (False, _) \<Rightarrow> (False, q)
      | (True, c) \<Rightarrow> (let q = fifo_push (q\<lparr>hSpaceSem := c\<rparr>) x
          in (True, q\<lparr>hCountSem := Rtos_ReleaseSemaphore (hCountSem q)\<rparr>)))"

definition AL_Fifo_Dequeue :: "AL_Fifo \<Rightarrow> ptr \<times> AL_Fifo" where
  "AL_Fifo_Dequeue q =
     (case Rtos_GetSemaphore (hCountSem q) of
        (False, _) \<Rightarrow> (NULL, q)
      | (True, c) \<Rightarrow> (let (x, q) = fifo_pop (q\<lparr>hCountSem := c\<rparr>)
          in (x, if x \<noteq> NULL then q\<lparr>hSpaceSem := Rtos_ReleaseSemaphore (hSpaceSem q)\<rparr> else q)))"

text \<open>The ring part is a static fifo; its laws carry over.\<close>

definition as_static :: "AL_Fifo \<Rightarrow> StaticFifo" where
  "as_static q = \<lparr>sf_elements = ElemBuffer q, sf_head = zHead q, sf_tail = zTail q, sf_total = zMaxElem q\<rparr>"

definition fifo_contents :: "AL_Fifo \<Rightarrow> ptr list" where
  "fifo_contents q = static_contents (as_static q)"

definition fifo_cap :: "AL_Fifo \<Rightarrow> nat" where
  "fifo_cap q = zMaxElem q - 1"

definition ring_ok :: "AL_Fifo \<Rightarrow> bool" where
  "ring_ok q \<longleftrightarrow> static_inv (as_static q) \<and> NULL \<notin> set (fifo_contents q)"

definition fifo_inv :: "AL_Fifo \<Rightarrow> bool" where
  "fifo_inv q \<longleftrightarrow> ring_ok q \<and> hCountSem q = length (fifo_contents q)
     \<and> hSpaceSem q + length (fifo_contents q) = fifo_cap q"

lemma as_static_sem [simp]:
  "as_static (q\<lparr>hCountSem := c\<rparr>) = as_static q" "as_static (q\<lparr>hSpaceSem := c\<rparr>) = as_static q"
  by (simp_all add: as_static_def)

lemma fifo_contents_sem [simp]:
  "fifo_contents (q\<lparr>hCountSem := c\<rparr>) = fifo_contents q" "fifo_contents (q\<lparr>hSpaceSem := c\<rparr>) = fifo_contents q"
  "ring_ok (q\<lparr>hCountSem := c\<rparr>) = ring_ok q" "ring_ok (q\<lparr>hSpaceSem := c\<rparr>) = ring_ok q"
  "fifo_cap (q\<lparr>hCountSem := c\<rparr>) = fifo_cap q" "fifo_cap (q\<lparr>hSpaceSem := c\<rparr>) = fifo_cap q"
  by (simp_all add: fifo_contents_def ring_ok_def fifo_cap_def)

lemma fifo_push:
  assumes "ring_ok q" "length (fifo_contents q) < fifo_cap q" "x \<noteq> NULL"
  shows "fifo_contents (fifo_push q x) = fifo_contents q @ [x]" "ring_ok (fifo_push q x)"
    "fifo_cap (fifo_push q x) = fifo_cap q" "hCountSem (fifo_push q x) = hCountSem q"
    "hSpaceSem (fifo_push q x) = hSpaceSem q"
proof -
  have inv: "static_inv (as_static q)" and lt: "length (static_contents (as_static q)) < static_cap (as_static q)"
    using assms by (auto simp: ring_ok_def fifo_contents_def fifo_cap_def static_cap_def as_static_def)
  then have "snd (StaticFifo_Enqueue (as_static q) x) = as_static (fifo_push q x)"
    using static_full_iff [OF inv] by (auto simp: StaticFifo_Enqueue_def fifo_push_def as_static_def)
  then show c: "fifo_contents (fifo_push q x) = fifo_contents q @ [x]" and "ring_ok (fifo_push q x)"
    using static_enqueue [OF inv lt, of x] assms by (auto simp: fifo_contents_def ring_ok_def)
qed (simp_all add: fifo_push_def fifo_cap_def)

lemma fifo_pop:
  assumes "ring_ok q" "fifo_contents q = x # xs"
  shows "fst (fifo_pop q) = x" "fifo_contents (snd (fifo_pop q)) = xs" "ring_ok (snd (fifo_pop q))"
    "fifo_cap (snd (fifo_pop q)) = fifo_cap q" "hCountSem (snd (fifo_pop q)) = hCountSem q"
    "hSpaceSem (snd (fifo_pop q)) = hSpaceSem q" "x \<noteq> NULL"
proof -
  have inv: "static_inv (as_static q)" and c: "static_contents (as_static q) = x # xs"
    using assms by (auto simp: ring_ok_def fifo_contents_def)
  then have "fst (StaticFifo_Dequeue (as_static q)) = fst (fifo_pop q)"
    "snd (StaticFifo_Dequeue (as_static q)) = as_static (snd (fifo_pop q))"
    using static_empty_iff [OF inv]
    by (auto simp: StaticFifo_Dequeue_def StaticFifo_Empty_def fifo_pop_def as_static_def)
  then show "fst (fifo_pop q) = x" "fifo_contents (snd (fifo_pop q)) = xs" "ring_ok (snd (fifo_pop q))"
    using static_dequeue [OF inv c] assms by (auto simp: fifo_contents_def ring_ok_def)
qed (use assms in \<open>auto simp: fifo_pop_def fifo_cap_def ring_ok_def\<close>)

interpretation fifo: bounded_fifo fifo_inv fifo_cap fifo_contents NULL AL_Fifo_Queue AL_Fifo_Dequeue
proof unfold_locales
  fix q :: AL_Fifo and x :: ptr and xs
  show "fifo_inv q \<Longrightarrow> length (fifo_contents q) \<le> fifo_cap q"
    by (simp add: fifo_inv_def)
  show "fifo_inv q \<Longrightarrow> length (fifo_contents q) < fifo_cap q \<Longrightarrow> x \<noteq> NULL \<Longrightarrow>
      fst (AL_Fifo_Queue q x) \<and> fifo_contents (snd (AL_Fifo_Queue q x)) = fifo_contents q @ [x]"
    using fifo_push [of "q\<lparr>hSpaceSem := hSpaceSem q - 1\<rparr>" x]
    by (auto simp: AL_Fifo_Queue_def Rtos_GetSemaphore_def fifo_inv_def Let_def)
  show "fifo_inv q \<Longrightarrow> length (fifo_contents q) = fifo_cap q \<Longrightarrow> AL_Fifo_Queue q x = (False, q)"
    by (simp add: AL_Fifo_Queue_def Rtos_GetSemaphore_def fifo_inv_def)
  show "fifo_inv q \<Longrightarrow> x \<noteq> NULL \<Longrightarrow>
      fifo_inv (snd (AL_Fifo_Queue q x)) \<and> fifo_cap (snd (AL_Fifo_Queue q x)) = fifo_cap q"
    using fifo_push [of "q\<lparr>hSpaceSem := hSpaceSem q - 1\<rparr>" x]
    by (auto simp: AL_Fifo_Queue_def Rtos_GetSemaphore_def Rtos_ReleaseSemaphore_def fifo_inv_def Let_def)
  show "fifo_inv q \<Longrightarrow> fifo_contents q = [] \<Longrightarrow> AL_Fifo_Dequeue q = (NULL, q)"
    by (simp add: AL_Fifo_Dequeue_def Rtos_GetSemaphore_def fifo_inv_def)
  show "fifo_inv q \<Longrightarrow> fifo_contents q = x # xs \<Longrightarrow>
      fst (AL_Fifo_Dequeue q) = x \<and> fifo_contents (snd (AL_Fifo_Dequeue q)) = xs"
    using fifo_pop [of "q\<lparr>hCountSem := hCountSem q - 1\<rparr>" x xs]
    by (auto simp: AL_Fifo_Dequeue_def Rtos_GetSemaphore_def fifo_inv_def Let_def split: prod.splits)
  show "fifo_inv q \<Longrightarrow>
      fifo_inv (snd (AL_Fifo_Dequeue q)) \<and> fifo_cap (snd (AL_Fifo_Dequeue q)) = fifo_cap q"
    using fifo_pop [of "q\<lparr>hCountSem := hCountSem q - 1\<rparr>" "hd (fifo_contents q)" "tl (fifo_contents q)"]
    by (cases "fifo_contents q")
      (auto simp: AL_Fifo_Dequeue_def Rtos_GetSemaphore_def Rtos_ReleaseSemaphore_def fifo_inv_def
        Let_def split: prod.splits)
qed

lemma fifo_init_cases:
  "AL_Fifo_Init b c sp m n =
     (if b \<and> c \<and> sp \<and> m
      then (True, Some \<lparr>zMaxElem = n + 1, zTail = 0, zHead = 0, ElemBuffer = replicate (n + 1) FIFO_FILL,
              hCountSem = 0, hSpaceSem = n\<rparr>, {ElemBufferMem, CountSem, SpaceSem, FifoMutex})
      else (False, None, {}))"
  by (auto simp: AL_Fifo_Init_def Let_def)

lemma fifo_init_inv:
  assumes "AL_Fifo_Init b c sp m n = (True, Some q, res)"
  shows "fifo_inv q" "fifo_contents q = []" "fifo_cap q = n"
  using assms
  by (auto simp: fifo_init_cases fifo_inv_def ring_ok_def fifo_contents_def fifo_cap_def as_static_def
      static_inv_def static_contents_def StaticFifo_Size_def split: if_splits)

section \<open>Several threads on one blocking queue\<close>

text \<open>
  \<open>Queue\<close> and \<open>Dequeue\<close> each make three separate moves: take a token from one semaphore, run
  the critical section under the mutex, give a token to the other semaphore. Any number of threads
  may stand between two moves. \<open>logIn\<close> and \<open>logOut\<close> record the elements in the order of the
  critical sections.
\<close>

datatype fifo_pc = Idle | HasSpace ptr | Pushed | HasCount | Popped ptr

record fifo_sys =
  fs_q :: AL_Fifo
  fs_pc :: "nat \<Rightarrow> fifo_pc"
  fs_logIn :: "ptr list"
  fs_logOut :: "ptr list"

inductive fifo_step :: "nat \<Rightarrow> fifo_sys \<Rightarrow> fifo_sys \<Rightarrow> bool" for n where
  get_space: "t < n \<Longrightarrow> fs_pc s t = Idle \<Longrightarrow> x \<noteq> NULL \<Longrightarrow>
     Rtos_GetSemaphore (hSpaceSem (fs_q s)) = (True, c) \<Longrightarrow>
     fifo_step n s (s\<lparr>fs_q := (fs_q s)\<lparr>hSpaceSem := c\<rparr>, fs_pc := (fs_pc s)(t := HasSpace x)\<rparr>)"
| push: "t < n \<Longrightarrow> fs_pc s t = HasSpace x \<Longrightarrow>
     fifo_step n s (s\<lparr>fs_q := fifo_push (fs_q s) x, fs_pc := (fs_pc s)(t := Pushed),
                      fs_logIn := fs_logIn s @ [x]\<rparr>)"
| release_count: "t < n \<Longrightarrow> fs_pc s t = Pushed \<Longrightarrow>
     fifo_step n s (s\<lparr>fs_q := (fs_q s)\<lparr>hCountSem := Rtos_ReleaseSemaphore (hCountSem (fs_q s))\<rparr>,
                      fs_pc := (fs_pc s)(t := Idle)\<rparr>)"
| get_count: "t < n \<Longrightarrow> fs_pc s t = Idle \<Longrightarrow>
     Rtos_GetSemaphore (hCountSem (fs_q s)) = (True, c) \<Longrightarrow>
     fifo_step n s (s\<lparr>fs_q := (fs_q s)\<lparr>hCountSem := c\<rparr>, fs_pc := (fs_pc s)(t := HasCount)\<rparr>)"
| pop: "t < n \<Longrightarrow> fs_pc s t = HasCount \<Longrightarrow> fifo_pop (fs_q s) = (x, q) \<Longrightarrow>
     fifo_step n s (s\<lparr>fs_q := q, fs_pc := (fs_pc s)(t := Popped x),
                      fs_logOut := fs_logOut s @ [x]\<rparr>)"
| release_space: "t < n \<Longrightarrow> fs_pc s t = Popped x \<Longrightarrow>
     fifo_step n s (s\<lparr>fs_q := (if x \<noteq> NULL
         then (fs_q s)\<lparr>hSpaceSem := Rtos_ReleaseSemaphore (hSpaceSem (fs_q s))\<rparr> else fs_q s),
                      fs_pc := (fs_pc s)(t := Idle)\<rparr>)"

definition fifo_start :: "AL_Fifo \<Rightarrow> fifo_sys" where
  "fifo_start q = \<lparr>fs_q = q, fs_pc = (\<lambda>_. Idle), fs_logIn = [], fs_logOut = []\<rparr>"

inductive fifo_reach :: "nat \<Rightarrow> AL_Fifo \<Rightarrow> fifo_sys \<Rightarrow> bool" for n q where
  start: "fifo_reach n q (fifo_start q)"
| step: "fifo_reach n q s \<Longrightarrow> fifo_step n s s' \<Longrightarrow> fifo_reach n q s'"

text \<open>Threads at a given kind of place.\<close>

definition at_pc :: "(fifo_pc \<Rightarrow> bool) \<Rightarrow> nat \<Rightarrow> (nat \<Rightarrow> fifo_pc) \<Rightarrow> nat" where
  "at_pc P n f = (\<Sum>t<n. if P (f t) then 1 else 0)"

lemma at_pc_upd:
  assumes "t < n"
  shows "at_pc P n (f(t := p)) + (if P (f t) then 1 else 0) = at_pc P n f + (if P p then 1 else 0)"
proof -
  have "at_pc P n g = (if P (g t) then 1 else 0) + (\<Sum>u\<in>{..<n} - {t}. if P (g u) then 1 else 0)" for g
    using assms by (simp add: at_pc_def sum.remove)
  moreover have "(\<Sum>u\<in>{..<n} - {t}. if P ((f(t := p)) u) then 1 else 0) =
      (\<Sum>u\<in>{..<n} - {t}. if P (f u) then 1 else (0::nat))"
    by (rule sum.cong) auto
  ultimately show ?thesis by simp
qed

lemma at_pc_pos: "t < n \<Longrightarrow> P (f t) \<Longrightarrow> 0 < at_pc P n f"
  unfolding at_pc_def by (rule sum_pos2 [of _ t]) auto

definition isHasSpace :: "fifo_pc \<Rightarrow> bool" where "isHasSpace p = (\<exists>x. p = HasSpace x)"
definition isPopped :: "fifo_pc \<Rightarrow> bool" where "isPopped p = (\<exists>x. p = Popped x)"

lemma is_pc_simps [simp]:
  "isHasSpace (HasSpace x)" "\<not> isHasSpace Idle" "\<not> isHasSpace Pushed" "\<not> isHasSpace HasCount"
  "\<not> isHasSpace (Popped x)" "isPopped (Popped x)" "\<not> isPopped Idle" "\<not> isPopped Pushed"
  "\<not> isPopped HasCount" "\<not> isPopped (HasSpace x)"
  by (auto simp: isHasSpace_def isPopped_def)

text \<open>Every token is somewhere: in a semaphore, in the hands of a thread, or in the ring.\<close>

definition fifo_sys_inv :: "nat \<Rightarrow> fifo_sys \<Rightarrow> bool" where
  "fifo_sys_inv n s \<longleftrightarrow>
     (let q = fs_q s; f = fs_pc s; k = length (fifo_contents q) in
        ring_ok q \<and> (\<forall>t x. f t = HasSpace x \<or> f t = Popped x \<longrightarrow> x \<noteq> NULL)
        \<and> hSpaceSem q + at_pc isHasSpace n f + k + at_pc isPopped n f = fifo_cap q
        \<and> hCountSem q + at_pc ((=) HasCount) n f + at_pc ((=) Pushed) n f = k
        \<and> fs_logIn s = fs_logOut s @ fifo_contents q)"

inductive_cases fifo_stepE: "fifo_step n s s'"

lemma fifo_sys_has_space:
  "fifo_sys_inv n s \<Longrightarrow> t < n \<Longrightarrow> fs_pc s t = HasSpace x \<Longrightarrow>
   length (fifo_contents (fs_q s)) < fifo_cap (fs_q s)"
  using at_pc_pos [of t n isHasSpace "fs_pc s"] by (auto simp: fifo_sys_inv_def Let_def)

lemma fifo_sys_has_count:
  "fifo_sys_inv n s \<Longrightarrow> t < n \<Longrightarrow> fs_pc s t = HasCount \<Longrightarrow> fifo_contents (fs_q s) \<noteq> []"
  using at_pc_pos [of t n "(=) HasCount" "fs_pc s"] by (auto simp: fifo_sys_inv_def Let_def)

lemma fifo_step_inv:
  assumes "fifo_step n s s'" "fifo_sys_inv n s"
  shows "fifo_sys_inv n s'"
  using assms
proof (cases rule: fifo_step.cases)
  case (get_space t x c)
  then show ?thesis
    using assms(2) at_pc_upd [of t n isHasSpace "fs_pc s" "HasSpace x"]
      at_pc_upd [of t n isPopped "fs_pc s" "HasSpace x"]
      at_pc_upd [of t n "(=) HasCount" "fs_pc s" "HasSpace x"]
      at_pc_upd [of t n "(=) Pushed" "fs_pc s" "HasSpace x"]
    by (auto simp: fifo_sys_inv_def Let_def Rtos_GetSemaphore_def split: if_splits)
next
  case (push t x)
  then have "x \<noteq> NULL" using assms(2) by (auto simp: fifo_sys_inv_def Let_def)
  with push show ?thesis
    using assms(2) at_pc_upd [of t n isHasSpace "fs_pc s" Pushed]
      at_pc_upd [of t n isPopped "fs_pc s" Pushed]
      at_pc_upd [of t n "(=) HasCount" "fs_pc s" Pushed]
      at_pc_upd [of t n "(=) Pushed" "fs_pc s" Pushed]
      fifo_push [of "fs_q s" x] fifo_sys_has_space [OF assms(2)]
    by (auto simp: fifo_sys_inv_def Let_def)
next
  case (release_count t)
  then show ?thesis
    using assms(2) at_pc_upd [of t n isHasSpace "fs_pc s" Idle]
      at_pc_upd [of t n isPopped "fs_pc s" Idle]
      at_pc_upd [of t n "(=) HasCount" "fs_pc s" Idle]
      at_pc_upd [of t n "(=) Pushed" "fs_pc s" Idle]
    by (auto simp: fifo_sys_inv_def Let_def Rtos_ReleaseSemaphore_def)
next
  case (get_count t c)
  then show ?thesis
    using assms(2) at_pc_upd [of t n isHasSpace "fs_pc s" HasCount]
      at_pc_upd [of t n isPopped "fs_pc s" HasCount]
      at_pc_upd [of t n "(=) HasCount" "fs_pc s" HasCount]
      at_pc_upd [of t n "(=) Pushed" "fs_pc s" HasCount]
    by (auto simp: fifo_sys_inv_def Let_def Rtos_GetSemaphore_def split: if_splits)
next
  case (pop t x q)
  then obtain y ys where ys: "fifo_contents (fs_q s) = y # ys"
    using fifo_sys_has_count [OF assms(2)] by (meson list.exhaust)
  have "ring_ok (fs_q s)" using assms(2) by (auto simp: fifo_sys_inv_def Let_def)
  from fifo_pop [OF this ys] pop ys show ?thesis
    using assms(2) at_pc_upd [of t n isHasSpace "fs_pc s" "Popped x"]
      at_pc_upd [of t n isPopped "fs_pc s" "Popped x"]
      at_pc_upd [of t n "(=) HasCount" "fs_pc s" "Popped x"]
      at_pc_upd [of t n "(=) Pushed" "fs_pc s" "Popped x"]
    by (auto simp: fifo_sys_inv_def Let_def)
next
  case (release_space t x)
  then have "x \<noteq> NULL" using assms(2) by (auto simp: fifo_sys_inv_def Let_def)
  with release_space show ?thesis
    using assms(2) at_pc_upd [of t n isHasSpace "fs_pc s" Idle]
      at_pc_upd [of t n isPopped "fs_pc s" Idle]
      at_pc_upd [of t n "(=) HasCount" "fs_pc s" Idle]
      at_pc_upd [of t n "(=) Pushed" "fs_pc s" Idle]
    by (auto simp: fifo_sys_inv_def Let_def Rtos_ReleaseSemaphore_def)
qed

lemma fifo_start_inv: "fifo_inv q \<Longrightarrow> fifo_contents q = [] \<Longrightarrow> fifo_sys_inv n (fifo_start q)"
  by (auto simp: fifo_sys_inv_def fifo_start_def fifo_inv_def Let_def at_pc_def)

lemma fifo_reach_inv:
  assumes "fifo_reach n q s" "fifo_inv q" "fifo_contents q = []"
  shows "fifo_sys_inv n s"
  using assms by (induction rule: fifo_reach.induct) (auto intro: fifo_start_inv fifo_step_inv)

section \<open>Properties\<close>

text \<open>
  C6 The three queues are the same abstract queue. For every sequence of calls with valid
  elements, a \<open>StaticFifo\<close> over \<open>n + 1\<close> slots, an \<open>IntFifo\<close> over \<open>n\<close> slots and an \<open>AL_Fifo\<close> of
  capacity \<open>n\<close>, each as its \<open>Init\<close> leaves it, return exactly what a list of capacity \<open>n\<close> returns:
  elements leave in the order they entered, a full queue refuses, an empty one says so.
\<close>

theorem queues_refine_list_queue:
  assumes "StaticFifo_Init (Some s0) (Some es) (int (length es)) = (True, Some s)" "length es = Suc n"
    and "IntFifo_Init (Some i0) (Some is) (int (length is)) = (True, Some i)" "length is = n"
    and "AL_Fifo_Init bufOk countOk spaceOk mutexOk n = (True, Some q, held)"
    and "Enq NULL \<notin> set ops" "Enq INTFIFO_INVALID \<notin> set iops"
  shows "fst (fifo_run StaticFifo_Enqueue StaticFifo_Dequeue s ops) = fst (queue_spec n NULL [] ops)
    \<and> fst (fifo_run AL_Fifo_Queue AL_Fifo_Dequeue q ops) = fst (queue_spec n NULL [] ops)
    \<and> fst (fifo_run IntFifo_Queue IntFifo_Dequeue i iops) = fst (queue_spec n INTFIFO_INVALID [] iops)"
  using static.run_refines_spec [OF static_init(1) [OF assms(1) refl] assms(6)] static_init [OF assms(1) refl]
    intf.run_refines_spec [OF int_init(1) [OF assms(3) refl] assms(7)] int_init [OF assms(3) refl]
    fifo.run_refines_spec [OF fifo_init_inv(1) [OF assms(5)] assms(6)] fifo_init_inv [OF assms(5)]
    assms(2,4)
  by simp

theorem queues_refine_list_queue_witness:
  "fst (fifo_run StaticFifo_Enqueue StaticFifo_Dequeue
      \<lparr>sf_elements = [0, 0, 0], sf_head = 0, sf_tail = 0, sf_total = 3\<rparr> [Enq 5, Enq 6, Enq 7, Deq])
    = [EnqRet True, EnqRet True, EnqRet False, DeqRet 5]"
proof -
  let ?z = "\<lparr>sf_elements = [], sf_head = 0, sf_tail = 0, sf_total = 0\<rparr>"
  let ?i = "\<lparr>if_elements = [], if_head = 0, if_tail = 0, if_total = 0\<rparr>"
  have "StaticFifo_Init (Some ?z) (Some [0, 0, 0]) (int (length [0, 0, 0 :: ptr])) =
      (True, Some \<lparr>sf_elements = [0, 0, 0], sf_head = 0, sf_tail = 0, sf_total = 3\<rparr>)"
    by (simp add: StaticFifo_Init_def)
  moreover have "IntFifo_Init (Some ?i) (Some [0, 0]) (int (length [0, 0 :: int])) =
      (True, Some \<lparr>if_elements = [0, 0], if_head = AL_BAD_INDEX, if_tail = AL_BAD_INDEX, if_total = 2\<rparr>)"
    by (simp add: IntFifo_Init_def)
  moreover have "AL_Fifo_Init True True True True 2 = (True, Some \<lparr>zMaxElem = 3, zTail = 0, zHead = 0,
      ElemBuffer = replicate 3 FIFO_FILL, hCountSem = 0, hSpaceSem = 2\<rparr>,
      {ElemBufferMem, CountSem, SpaceSem, FifoMutex})"
    by (simp add: fifo_init_cases)
  ultimately show ?thesis
    using queues_refine_list_queue [where n = 2 and ops = "[Enq 5, Enq 6, Enq 7, Deq]" and iops = "[]"]
    by (auto simp: NULL_def)
qed

text \<open>
  C4 The blocking queue is safe for any number of threads, whatever their interleaving: a thread
  that holds a space token never overwrites an element, a thread that holds a count token never finds
  the ring empty (so \<open>Dequeue\<close> returns \<open>NULL\<close> only on a timeout), and the elements taken so far are
  exactly the first ones put in, in order, the rest being in the ring.
\<close>

theorem fifo_threads_safe:
  assumes "fifo_reach n q0 s" "fifo_inv q0" "fifo_contents q0 = []"
  shows "(\<forall>t < n. \<forall>x. fs_pc s t = HasSpace x \<longrightarrow> length (fifo_contents (fs_q s)) < fifo_cap (fs_q s))
    \<and> (\<forall>t < n. fs_pc s t = HasCount \<longrightarrow> fst (fifo_pop (fs_q s)) \<noteq> NULL)
    \<and> fs_logIn s = fs_logOut s @ fifo_contents (fs_q s)
    \<and> length (fifo_contents (fs_q s)) \<le> fifo_cap (fs_q s)"
proof -
  have inv: "fifo_sys_inv n s" by (rule fifo_reach_inv [OF assms])
  have "fst (fifo_pop (fs_q s)) \<noteq> NULL" if t: "t < n" "fs_pc s t = HasCount" for t
  proof -
    obtain y ys where ys: "fifo_contents (fs_q s) = y # ys"
      using fifo_sys_has_count [OF inv t] by (meson list.exhaust)
    have "ring_ok (fs_q s)" using inv by (auto simp: fifo_sys_inv_def Let_def)
    from fifo_pop [OF this ys] show ?thesis by simp
  qed
  then show ?thesis
    using fifo_sys_has_space [OF inv] inv by (auto simp: fifo_sys_inv_def Let_def)
qed

theorem fifo_threads_safe_witness:
  "let q = \<lparr>zMaxElem = 2, zTail = 0, zHead = 0, ElemBuffer = [FIFO_FILL, FIFO_FILL], hCountSem = 0, hSpaceSem = 1\<rparr>
   in \<exists>s. fifo_reach 2 q s \<and> fs_pc s 0 = HasSpace 7 \<and> length (fifo_contents (fs_q s)) < fifo_cap (fs_q s)"
proof -
  let ?q = "\<lparr>zMaxElem = 2, zTail = 0, zHead = 0, ElemBuffer = [FIFO_FILL, FIFO_FILL], hCountSem = 0, hSpaceSem = 1\<rparr>"
  let ?s = "(fifo_start ?q)\<lparr>fs_q := ?q\<lparr>hSpaceSem := 0\<rparr>, fs_pc := (\<lambda>_. Idle)(0 := HasSpace 7)\<rparr>"
  have init: "AL_Fifo_Init True True True True 1 = (True, Some ?q, {ElemBufferMem, CountSem, SpaceSem, FifoMutex})"
    by (simp add: fifo_init_cases numeral_2_eq_2)
  have "fifo_step 2 (fifo_start ?q) ?s"
    using fifo_step.get_space [of 0 2 "fifo_start ?q" 7 0]
    by (simp add: fifo_start_def Rtos_GetSemaphore_def NULL_def)
  then have reach: "fifo_reach 2 ?q ?s"
    by (rule fifo_reach.step [OF fifo_reach.start])
  have "length (fifo_contents (fs_q ?s)) < fifo_cap (fs_q ?s)"
    using fifo_threads_safe [OF reach fifo_init_inv(1,2) [OF init], THEN conjunct1, rule_format, of 0 7]
    by simp
  then have "fifo_reach 2 ?q ?s \<and> fs_pc ?s 0 = HasSpace 7
      \<and> length (fifo_contents (fs_q ?s)) < fifo_cap (fs_q ?s)"
    using reach by (intro conjI) simp_all
  then show ?thesis unfolding Let_def by (rule exI)
qed

end
