(* ===== verification/Links.thy ===== *)
theory Links
  imports VCU_Prelude
begin

text \<open>
  Doubly linked lists threaded through the entries of an array by index fields, as the work pool
  (\<open>WorkPool.c\<close>) and the decoded picture buffer (\<open>DPB.c\<close>) keep them: what it means that a list
  of indices is linked, the effect of the pointer updates the code makes, and loops along a list.
\<close>

section \<open>Index fields of an array\<close>

text \<open>The value of field \<open>g\<close> in entry \<open>i\<close>, seen as a function of the index.\<close>

definition fld :: "('n \<Rightarrow> index) \<Rightarrow> 'n list \<Rightarrow> index \<Rightarrow> index" where
  "fld g ns i = (if 0 \<le> i \<and> nat i < length ns then g (ns ! nat i) else AL_BAD_INDEX)"

lemma fld_at: "0 \<le> i \<Longrightarrow> nat i < length ns \<Longrightarrow> g (ns ! nat i) = fld g ns i"
  by (simp add: fld_def)

lemma fld_upd:
  assumes "0 \<le> i" "nat i < length ns"
  shows "fld g (ns[nat i := n]) = (fld g ns)(i := g n)"
proof
  fix j show "fld g (ns[nat i := n]) j = ((fld g ns)(i := g n)) j"
    using assms by (cases "0 \<le> j") (auto simp: fld_def nth_list_update)
qed

lemma fld_upd_same:
  assumes "g n = g (ns ! nat i)"
  shows "fld g (ns[nat i := n]) = fld g ns"
proof (cases "nat i < length ns")
  case True
  show ?thesis
  proof
    fix j show "fld g (ns[nat i := n]) j = fld g ns j"
      using assms True by (auto simp: fld_def nth_list_update)
  qed
qed (simp add: list_update_beyond)

section \<open>Linked segments\<close>

text \<open>
  From \<open>h\<close>, whose predecessor is \<open>p\<close>, the next-fields run through \<open>xs\<close> and end at \<open>e\<close>; the
  previous-fields run back.
\<close>

fun seg :: "(index \<Rightarrow> index) \<Rightarrow> (index \<Rightarrow> index) \<Rightarrow> index \<Rightarrow> index \<Rightarrow> index list \<Rightarrow> index \<Rightarrow> bool" where
  "seg nx pv p h [] e \<longleftrightarrow> h = e"
| "seg nx pv p h (x # xs) e \<longleftrightarrow> h = x \<and> 0 \<le> x \<and> pv x = p \<and> seg nx pv x (nx x) xs e"

definition hd_or :: "'a list \<Rightarrow> 'a \<Rightarrow> 'a" where
  "hd_or xs e = (case xs of [] \<Rightarrow> e | x # _ \<Rightarrow> x)"

definition last_or :: "'a list \<Rightarrow> 'a \<Rightarrow> 'a" where
  "last_or xs e = (if xs = [] then e else last xs)"

lemma hd_or_simps [simp]: "hd_or [] e = e" "hd_or (x # xs) e = x"
  by (simp_all add: hd_or_def)

lemma hd_or_append: "hd_or (xs @ ys) e = hd_or xs (hd_or ys e)"
  by (cases xs) simp_all

lemma last_or_simps [simp]: "last_or [] e = e" "last_or (xs @ [x]) e = x"
  "last_or (x # xs) e = last_or xs x"
  by (auto simp: last_or_def)

lemma last_or_nonempty: "xs \<noteq> [] \<Longrightarrow> last_or xs e = last xs"
  by (simp add: last_or_def)

lemma last_or_append: "last_or (xs @ ys) e = last_or ys (last_or xs e)"
  by (auto simp: last_or_def)

lemma seg_head: "seg nx pv p h xs e \<Longrightarrow> h = hd_or xs e"
  by (cases xs) auto

lemma seg_append:
  "seg nx pv p h (xs @ ys) e \<longleftrightarrow>
     seg nx pv p h xs (hd_or ys e) \<and> seg nx pv (last_or xs p) (hd_or ys e) ys e"
  by (induction xs arbitrary: p h) (auto dest: seg_head)

lemma seg_nonneg: "seg nx pv p h xs e \<Longrightarrow> x \<in> set xs \<Longrightarrow> 0 \<le> x"
  by (induction xs arbitrary: p h) auto

lemma seg_nx_outside [simp]: "x \<notin> set xs \<Longrightarrow> seg (nx(x := a)) pv p h xs e = seg nx pv p h xs e"
  by (induction xs arbitrary: p h) auto

lemma seg_pv_outside [simp]: "x \<notin> set xs \<Longrightarrow> seg nx (pv(x := a)) p h xs e = seg nx pv p h xs e"
  by (induction xs arbitrary: p h) auto

lemma seg_last_next:
  assumes "seg nx pv p h (xs @ [x]) e" "x \<notin> set xs"
  shows "seg (nx(x := e')) pv p h (xs @ [x]) e'"
  using assms by (auto simp: seg_append)

lemma seg_first_prev:
  assumes "seg nx pv p h (x # xs) e" "x \<notin> set xs"
  shows "seg nx (pv(x := p')) p' h (x # xs) e"
  using assms by auto

section \<open>Whole lists\<close>

definition dll :: "(index \<Rightarrow> index) \<Rightarrow> (index \<Rightarrow> index) \<Rightarrow> index \<Rightarrow> index list \<Rightarrow> bool" where
  "dll nx pv h xs \<longleftrightarrow> distinct xs \<and> seg nx pv AL_BAD_INDEX h xs AL_BAD_INDEX"

lemma dll_head: "dll nx pv h xs \<Longrightarrow> h = hd_or xs AL_BAD_INDEX"
  by (auto simp: dll_def dest: seg_head)

lemma dll_head_bad: "dll nx pv h xs \<Longrightarrow> h = AL_BAD_INDEX \<longleftrightarrow> xs = []"
  by (cases xs) (auto simp: dll_def)

lemma dll_nonneg: "dll nx pv h xs \<Longrightarrow> x \<in> set xs \<Longrightarrow> 0 \<le> x"
  by (auto simp: dll_def dest: seg_nonneg)

lemma dll_distinct: "dll nx pv h xs \<Longrightarrow> distinct xs"
  by (simp add: dll_def)

lemma dll_Nil [simp]: "dll nx pv h [] \<longleftrightarrow> h = AL_BAD_INDEX"
  by (simp add: dll_def)

lemma dll_at:
  assumes "dll nx pv h (xs @ x # ys)"
  shows "nx x = hd_or ys AL_BAD_INDEX" "pv x = last_or xs AL_BAD_INDEX" "0 \<le> x"
    "x \<notin> set xs" "x \<notin> set ys" "set xs \<inter> set ys = {}" "distinct xs" "distinct ys"
  using assms by (auto simp: dll_def seg_append dest: seg_head)

lemma hd_or_valid: "(\<And>x. x \<in> set ys \<Longrightarrow> 0 \<le> x) \<Longrightarrow> 0 \<le> hd_or ys AL_BAD_INDEX \<longleftrightarrow> ys \<noteq> []"
  by (cases ys) auto

lemma last_or_valid: "(\<And>x. x \<in> set ys \<Longrightarrow> 0 \<le> x) \<Longrightarrow> 0 \<le> last_or ys AL_BAD_INDEX \<longleftrightarrow> ys \<noteq> []"
  by (auto simp: last_or_def)

text \<open>Unlinking an entry.\<close>

lemma dll_unlink:
  assumes "dll nx pv h (xs @ x # ys)"
  shows "dll (if 0 \<le> pv x then nx(pv x := nx x) else nx) (if 0 \<le> nx x then pv(nx x := pv x) else pv)
    (if h = x then nx x else h) (xs @ ys)"
proof -
  note at = dll_at [OF assms]
  have nn: "\<And>z. z \<in> set xs \<union> set ys \<Longrightarrow> 0 \<le> z"
    using assms by (auto dest: dll_nonneg)
  have bad: "AL_BAD_INDEX \<notin> set xs \<union> set ys"
    using nn bad_index_neg(2) by blast
  have v: "0 \<le> pv x \<longleftrightarrow> xs \<noteq> []" "0 \<le> nx x \<longleftrightarrow> ys \<noteq> []"
    using at(1,2) nn by (simp_all add: hd_or_valid last_or_valid)
  have s1: "seg nx pv AL_BAD_INDEX h xs x" and s2: "seg nx pv x (nx x) ys AL_BAD_INDEX"
    using assms by (auto simp: dll_def seg_append)
  have h: "h = x \<longleftrightarrow> xs = []"
    using dll_head [OF assms] at(4) by (cases xs) auto
  let ?nx = "if 0 \<le> pv x then nx(pv x := nx x) else nx"
  let ?pv = "if 0 \<le> nx x then pv(nx x := pv x) else pv"
  have a: "seg ?nx ?pv AL_BAD_INDEX (if h = x then nx x else h) xs (nx x)"
  proof (cases xs rule: rev_cases)
    case Nil
    then show ?thesis using h by simp
  next
    case (snoc as a)
    have "nx x \<notin> set xs" using at(1,6) bad by (cases ys) auto
    moreover have "pv x = a" using at(2) snoc by simp
    moreover have "a \<notin> set as" using at(7) snoc by simp
    ultimately show ?thesis
      using seg_last_next [of nx pv AL_BAD_INDEX h as a x "nx x"] s1 snoc h v by auto
  qed
  have b: "seg ?nx ?pv (last_or xs AL_BAD_INDEX) (nx x) ys AL_BAD_INDEX"
  proof (cases ys)
    case Nil
    then show ?thesis using s2 by simp
  next
    case (Cons b bs)
    have "pv x \<notin> set ys" using at(2,6) bad by (cases xs rule: rev_cases) auto
    moreover have "nx x = b" using at(1) Cons by simp
    moreover have "b \<notin> set bs" using at(8) Cons by simp
    ultimately show ?thesis
      using seg_first_prev [of nx pv x "nx x" b bs AL_BAD_INDEX "pv x"] s2 Cons v at(2) by auto
  qed
  have hy: "hd_or ys AL_BAD_INDEX = nx x" using at(1) by simp
  show ?thesis
    using a b at unfolding dll_def seg_append hy by auto
qed

text \<open>Inserting an entry before another one, and after the last one.\<close>

lemma dll_insert_before:
  assumes "dll nx pv h (xs @ c # ys)" "y \<notin> set (xs @ c # ys)" "0 \<le> y"
  shows "dll (if 0 \<le> pv c then nx(y := c, pv c := y) else nx(y := c)) (pv(y := pv c, c := y))
    (if c = h then y else h) (xs @ y # c # ys)"
proof -
  note at = dll_at [OF assms(1)]
  have v: "0 \<le> pv c \<longleftrightarrow> xs \<noteq> []"
    using at(2) assms(1) by (simp add: last_or_valid dll_nonneg)
  have s1: "seg nx pv AL_BAD_INDEX h xs c" and s2: "seg nx pv c (nx c) ys AL_BAD_INDEX"
    using assms(1) by (auto simp: dll_def seg_append)
  have h: "c = h \<longleftrightarrow> xs = []" using dll_head [OF assms(1)] at(4) by (cases xs) auto
  let ?nx = "if 0 \<le> pv c then nx(y := c, pv c := y) else nx(y := c)"
  let ?pv = "pv(y := pv c, c := y)"
  have a: "seg ?nx ?pv AL_BAD_INDEX (if c = h then y else h) xs y"
  proof (cases xs rule: rev_cases)
    case Nil
    then show ?thesis using h by simp
  next
    case (snoc as a)
    have "pv c = a" using at(2) snoc by simp
    moreover have "a \<notin> set as" using at(7) snoc by simp
    ultimately show ?thesis
      using seg_last_next [of nx pv AL_BAD_INDEX h as a c y] s1 snoc h v assms(2) at(4)
      by (auto simp: fun_upd_twist)
  qed
  have "pv c \<notin> set ys" "pv c \<noteq> c" "pv c \<noteq> y" if "0 \<le> pv c"
    using at assms(2) v that by (cases xs rule: rev_cases; auto)+
  moreover have "seg nx pv c (nx c) ys AL_BAD_INDEX" by (rule s2)
  ultimately have b: "seg ?nx ?pv (last_or xs AL_BAD_INDEX) y (y # c # ys) AL_BAD_INDEX"
    using at assms(2,3) by auto
  show ?thesis
    using a b at assms(2) unfolding dll_def seg_append by auto
qed

lemma dll_append:
  assumes "dll nx pv h (xs @ [c])" "y \<notin> set (xs @ [c])" "0 \<le> y"
  shows "dll (nx(y := AL_BAD_INDEX, c := y)) (pv(y := c)) h (xs @ [c, y])"
proof -
  note at = dll_at [OF assms(1)]
  have "seg nx pv AL_BAD_INDEX h (xs @ [c]) AL_BAD_INDEX" using assms(1) by (simp add: dll_def)
  then have "seg (nx(c := y)) pv AL_BAD_INDEX h (xs @ [c]) y" using seg_last_next at(4) by blast
  then show ?thesis
    using assms at by (auto simp: dll_def seg_append)
qed

lemma dll_singleton: "0 \<le> y \<Longrightarrow> dll (nx(y := AL_BAD_INDEX)) (pv(y := AL_BAD_INDEX)) y [y]"
  by (simp add: dll_def)

text \<open>Adding an entry at the end of a list that may be empty, as a queue with a tail index does.\<close>

lemma dll_enqueue:
  assumes "dll nx pv h xs" "y \<notin> set xs" "0 \<le> y"
  shows "dll (if last_or xs AL_BAD_INDEX \<noteq> AL_BAD_INDEX then nx(y := AL_BAD_INDEX, last_or xs AL_BAD_INDEX := y)
              else nx(y := AL_BAD_INDEX))
    (pv(y := last_or xs AL_BAD_INDEX)) (if h = AL_BAD_INDEX then y else h) (xs @ [y])"
proof (cases xs rule: rev_cases)
  case Nil
  then show ?thesis using assms dll_singleton [of y nx pv] by simp
next
  case (snoc as c)
  have "c \<noteq> AL_BAD_INDEX" using assms(1) snoc dll_nonneg bad_index_neg(2) by fastforce
  moreover have "h \<noteq> AL_BAD_INDEX" using dll_head_bad [OF assms(1)] snoc by simp
  ultimately show ?thesis using dll_append [of nx pv h as c y] assms snoc by simp
qed

lemma dll_nx_outside: "x \<notin> set xs \<Longrightarrow> dll (nx(x := a)) pv h xs = dll nx pv h xs"
  by (simp add: dll_def)

lemma dll_pv_outside: "x \<notin> set xs \<Longrightarrow> dll nx (pv(x := a)) h xs = dll nx pv h xs"
  by (simp add: dll_def)

text \<open>Entries chained in index order.\<close>

lemma seg_upt:
  assumes "a < n" "\<And>i. a \<le> i \<Longrightarrow> i < n \<Longrightarrow> nx (int i) = (if Suc i = n then e else int (Suc i))"
    "\<And>i. a < i \<Longrightarrow> i < n \<Longrightarrow> pv (int i) = int i - 1" "pv (int a) = p"
  shows "seg nx pv p (int a) (map int [a..<n]) e"
  using assms
proof (induction "n - a" arbitrary: a p)
  case 0
  then show ?case by simp
next
  case (Suc k)
  show ?case
  proof (cases "Suc a = n")
    case True
    then have "[a..<n] = [a]" by auto
    then show ?thesis using Suc.prems True by simp
  next
    case False
    then have "seg nx pv (int a) (int (Suc a)) (map int [Suc a..<n]) e"
      using Suc.prems Suc.prems(3) [of "Suc a"] False by (intro Suc.hyps(1)) (use Suc.hyps(2) in auto)
    then show ?thesis using Suc.prems False by (simp add: upt_conv_Cons)
  qed
qed

section \<open>Loops along a list\<close>

text \<open>
  \<open>while(valid(t)) { body; t = next(t); }\<close>, where the next index is read after the body ran. The
  fuel counts the iterations; \<^const>\<open>None\<close> is a body that failed or a list longer than the fuel.
\<close>

fun walk :: "nat \<Rightarrow> ('s \<Rightarrow> index \<Rightarrow> index option) \<Rightarrow> (index \<Rightarrow> 's \<Rightarrow> 's option) \<Rightarrow> index \<Rightarrow> 's \<Rightarrow> 's option" where
  "walk f nx body t s =
     (if \<not> AL_IS_VALID_INDEX t then Some s
      else case f of 0 \<Rightarrow> None
      | Suc f \<Rightarrow> do { s' \<leftarrow> body t s; t' \<leftarrow> nx s' t; walk f nx body t' s' })"

declare walk.simps [simp del]

text \<open>
  A loop whose body keeps the links (\<open>R\<close> holds between the start and every later state, and keeps
  the next-field) visits the list once.
\<close>

lemma walk_foldM:
  assumes "seg nx pv p t xs AL_BAD_INDEX" "length xs \<le> f" "I s"
    and "\<And>s x s'. I s \<Longrightarrow> x \<in> set xs \<Longrightarrow> body x s = Some s' \<Longrightarrow> I s'"
    and "\<And>s x. I s \<Longrightarrow> x \<in> set xs \<Longrightarrow> next s x = Some (nx x)"
  shows "walk f next body t s = foldM body xs s"
  using assms
proof (induction xs arbitrary: f p t s)
  case Nil
  then show ?case by (simp add: walk.simps)
next
  case (Cons x xs)
  from Cons.prems(2) obtain g where f: "f = Suc g" by (cases f) auto
  have t: "t = x" "0 \<le> x" and rest: "seg nx pv x (nx x) xs AL_BAD_INDEX"
    using Cons.prems(1) by auto
  show ?case
  proof (cases "body x s")
    case None
    then show ?thesis using t(2) unfolding t(1) f by (subst walk.simps) simp
  next
    case (Some s')
    have "I s'" by (rule Cons.prems(4) [OF Cons.prems(3) _ Some]) simp
    have "walk g next body (nx x) s' = foldM body xs s'"
      by (rule Cons.IH [OF rest _ \<open>I s'\<close>])
        (use Cons.prems(2) f in simp, erule Cons.prems(4), simp_all, erule Cons.prems(5), simp)
    moreover have "next s' x = Some (nx x)" by (rule Cons.prems(5) [OF \<open>I s'\<close>]) simp
    ultimately show ?thesis using t(2) Some unfolding t(1) f by (subst walk.simps) simp
  qed
qed

text \<open>
  \<open>while(valid(t)) { if(P(t)) break; t = next(t); }\<close>: the first entry that satisfies \<open>P\<close>, or the
  invalid index at the end.
\<close>

fun find_along :: "nat \<Rightarrow> (index \<Rightarrow> index option) \<Rightarrow> (index \<Rightarrow> bool option) \<Rightarrow> index \<Rightarrow> index option" where
  "find_along f nx P t =
     (if \<not> AL_IS_VALID_INDEX t then Some t
      else do {
        b \<leftarrow> P t;
        if b then Some t
        else case f of 0 \<Rightarrow> None | Suc f \<Rightarrow> do { t' \<leftarrow> nx t; find_along f nx P t' } })"

declare find_along.simps [simp del]

lemma find_along_seg:
  assumes "seg nx pv p t xs AL_BAD_INDEX" "length xs \<le> f"
    and "\<And>x. x \<in> set xs \<Longrightarrow> next x = Some (nx x)" "\<And>x. x \<in> set xs \<Longrightarrow> test x = Some (P x)"
  shows "find_along f next test t = Some (hd_or (dropWhile (\<lambda>x. \<not> P x) xs) AL_BAD_INDEX)"
  using assms
proof (induction xs arbitrary: f p t)
  case Nil
  then show ?case by (simp add: find_along.simps)
next
  case (Cons x xs)
  from Cons.prems(2) obtain g where f: "f = Suc g" by (cases f) auto
  have "find_along g next test (nx x) = Some (hd_or (dropWhile (\<lambda>x. \<not> P x) xs) AL_BAD_INDEX)"
    using Cons.prems f by (intro Cons.IH [of x]) auto
  then show ?case using Cons.prems unfolding f by (subst find_along.simps) auto
qed

end
