(* ===== verification/Work_Pool.thy ===== *)
theory Work_Pool
  imports Links
begin

text \<open>
  \<open>lib_common/WorkPool.c\<close>: a fixed array of entries threaded by two doubly linked lists, the free
  entries and the filled ones, so that a buffer can be removed from the middle in place.
\<close>

section \<open>State and operations\<close>

record WorkPoolElem =
  wp_buf :: ptr
  wp_prev :: index
  wp_next :: index

record WorkPool =
  wp_elems :: "WorkPoolElem list"
  wp_spaceAvailable :: bool
  wp_freeHead :: index
  wp_freeQueue :: index
  wp_filledHead :: index
  wp_filledQueue :: index
  wp_capacity :: int

definition INVALID_BUF_POS :: index where
  "INVALID_BUF_POS = -1"

lemma invalid_buf_pos [simp]: "INVALID_BUF_POS = AL_BAD_INDEX"
  by (simp add: INVALID_BUF_POS_def AL_BAD_INDEX_def)

text \<open>Field updates of one entry.\<close>

definition set_prev :: "WorkPoolElem list \<Rightarrow> index \<Rightarrow> index \<Rightarrow> WorkPoolElem list option" where
  "set_prev es i v = do { e \<leftarrow> arr_get es i; arr_set es i (e\<lparr>wp_prev := v\<rparr>) }"

definition set_next :: "WorkPoolElem list \<Rightarrow> index \<Rightarrow> index \<Rightarrow> WorkPoolElem list option" where
  "set_next es i v = do { e \<leftarrow> arr_get es i; arr_set es i (e\<lparr>wp_next := v\<rparr>) }"

text \<open>
  \<open>AL_WorkPool_Init\<close>, given the outcome of its three allocations. The malloced entries
  \<open>raw\<close> hold anything; \<open>elems[0]\<close> and \<open>elems[capacity - 1]\<close> are written for every size, so
  the call is undefined for an empty pool.
\<close>

definition AL_WorkPool_Init :: "bool \<Rightarrow> bool \<Rightarrow> bool \<Rightarrow> int \<Rightarrow> (bool \<times> WorkPool option) option" where
  "AL_WorkPool_Init elemsOk lockOk eventOk n =
     (if \<not> elemsOk then Some (False, None)
      else if \<not> lockOk then Some (False, None)
      else if \<not> eventOk then Some (False, None)
      else do {
        let es = map (\<lambda>i. \<lparr>wp_buf = NULL, wp_prev = int i - 1, wp_next = int i + 1\<rparr>) [0..<nat n];
        es \<leftarrow> set_prev es 0 INVALID_BUF_POS;
        es \<leftarrow> set_next es (n - 1) INVALID_BUF_POS;
        Some (True, Some \<lparr>wp_elems = es, wp_spaceAvailable = False, wp_freeHead = 0, wp_freeQueue = n - 1,
               wp_filledHead = INVALID_BUF_POS, wp_filledQueue = INVALID_BUF_POS, wp_capacity = n\<rparr>)
      })"

definition AL_WorkPool_IsEmpty :: "WorkPool \<Rightarrow> bool" where
  "AL_WorkPool_IsEmpty pool \<longleftrightarrow> wp_filledHead pool = INVALID_BUF_POS"

definition AL_WorkPool_IsFull :: "WorkPool \<Rightarrow> bool" where
  "AL_WorkPool_IsFull pool \<longleftrightarrow> wp_freeHead pool = INVALID_BUF_POS"

text \<open>The search of \<open>Remove\<close>: \<open>while(iPos != INVALID && elems[iPos].buf != pBuf) iPos = next\<close>.\<close>

fun find_buf :: "nat \<Rightarrow> WorkPoolElem list \<Rightarrow> index \<Rightarrow> ptr \<Rightarrow> index option" where
  "find_buf f es i b =
     (if i = INVALID_BUF_POS then Some i
      else case f of 0 \<Rightarrow> None
      | Suc f \<Rightarrow> do {
          e \<leftarrow> arr_get es i;
          if wp_buf e = b then Some i else find_buf f es (wp_next e) b })"

declare find_buf.simps [simp del]

definition AL_WorkPool_Remove :: "WorkPool \<Rightarrow> ptr \<Rightarrow> WorkPool option" where
  "AL_WorkPool_Remove pool b = do {
     pos \<leftarrow> find_buf (length (wp_elems pool)) (wp_elems pool) (wp_filledHead pool) b;
     if pos = INVALID_BUF_POS then None else do {
     e \<leftarrow> arr_get (wp_elems pool) pos;
     pool \<leftarrow> (if wp_prev e \<noteq> INVALID_BUF_POS
        then do { es \<leftarrow> set_next (wp_elems pool) (wp_prev e) (wp_next e); Some (pool\<lparr>wp_elems := es\<rparr>) }
        else Some (pool\<lparr>wp_filledHead := wp_next e\<rparr>));
     pool \<leftarrow> (if wp_next e \<noteq> INVALID_BUF_POS
        then do { es \<leftarrow> set_prev (wp_elems pool) (wp_next e) (wp_prev e); Some (pool\<lparr>wp_elems := es\<rparr>) }
        else Some (pool\<lparr>wp_filledQueue := wp_prev e\<rparr>));
     es \<leftarrow> arr_set (wp_elems pool) pos
        \<lparr>wp_buf = NULL, wp_prev = wp_freeQueue pool, wp_next = INVALID_BUF_POS\<rparr>;
     es \<leftarrow> (if wp_freeQueue pool \<noteq> INVALID_BUF_POS then set_next es (wp_freeQueue pool) pos else Some es);
     Some (pool\<lparr>wp_elems := es, wp_freeQueue := pos,
        wp_freeHead := (if wp_freeHead pool = INVALID_BUF_POS then pos else wp_freeHead pool),
        wp_spaceAvailable := True\<rparr>) } }"

text \<open>
  The part of \<open>PushBack\<close> after its wait loop. While the pool is full the caller waits on
  \<open>spaceAvailable\<close>: the model then returns the flag \<^const>\<open>False\<close> and the pool as it was.
\<close>

definition AL_WorkPool_PushBack :: "WorkPool \<Rightarrow> ptr \<Rightarrow> (bool \<times> WorkPool) option" where
  "AL_WorkPool_PushBack pool b =
     (if AL_WorkPool_IsFull pool then Some (False, pool)
      else do {
        let pos = wp_freeHead pool;
        e \<leftarrow> arr_get (wp_elems pool) pos;
        pool \<leftarrow> (if wp_next e \<noteq> INVALID_BUF_POS
          then do { es \<leftarrow> set_prev (wp_elems pool) (wp_next e) INVALID_BUF_POS; Some (pool\<lparr>wp_elems := es\<rparr>) }
          else Some (pool\<lparr>wp_freeQueue := INVALID_BUF_POS\<rparr>));
        let pool = pool\<lparr>wp_freeHead := wp_next e\<rparr>;
        es \<leftarrow> arr_set (wp_elems pool) pos
          \<lparr>wp_buf = b, wp_prev = wp_filledQueue pool, wp_next = INVALID_BUF_POS\<rparr>;
        es \<leftarrow> (if wp_filledQueue pool \<noteq> INVALID_BUF_POS then set_next es (wp_filledQueue pool) pos else Some es);
        Some (True, pool\<lparr>wp_elems := es, wp_filledQueue := pos,
          wp_filledHead := (if wp_filledHead pool = INVALID_BUF_POS then pos else wp_filledHead pool)\<rparr>)
      })"

definition AL_WorkPool_GetSize :: "WorkPool \<Rightarrow> nat option" where
  "AL_WorkPool_GetSize pool =
     walk (length (wp_elems pool)) (\<lambda>_ i. map_option wp_next (arr_get (wp_elems pool) i))
       (\<lambda>_ n. Some (Suc n)) (wp_filledHead pool) 0"

section \<open>The two lists\<close>

abbreviation wnx :: "WorkPoolElem list \<Rightarrow> index \<Rightarrow> index" where "wnx \<equiv> fld wp_next"
abbreviation wpv :: "WorkPoolElem list \<Rightarrow> index \<Rightarrow> index" where "wpv \<equiv> fld wp_prev"

definition wp_lists :: "WorkPool \<Rightarrow> index list \<Rightarrow> index list \<Rightarrow> bool" where
  "wp_lists pool fr fl \<longleftrightarrow>
     dll (wnx (wp_elems pool)) (wpv (wp_elems pool)) (wp_freeHead pool) fr
     \<and> dll (wnx (wp_elems pool)) (wpv (wp_elems pool)) (wp_filledHead pool) fl
     \<and> wp_freeQueue pool = last_or fr AL_BAD_INDEX \<and> wp_filledQueue pool = last_or fl AL_BAD_INDEX
     \<and> set fr \<inter> set fl = {} \<and> set fr \<union> set fl = {0..<wp_capacity pool}
     \<and> int (length (wp_elems pool)) = wp_capacity pool"

definition wp_bufs :: "WorkPool \<Rightarrow> index list \<Rightarrow> ptr list" where
  "wp_bufs pool fl = map (\<lambda>i. wp_buf (wp_elems pool ! nat i)) fl"

text \<open>What the pool stands for: the buffers in the order they were pushed.\<close>

definition wp_holds :: "WorkPool \<Rightarrow> ptr list \<Rightarrow> bool" where
  "wp_holds pool bs \<longleftrightarrow> (\<exists>fr fl. wp_lists pool fr fl \<and> wp_bufs pool fl = bs)"

lemma set_prev_Some:
  "0 \<le> i \<Longrightarrow> nat i < length es \<Longrightarrow> set_prev es i v = Some (es[nat i := (es ! nat i)\<lparr>wp_prev := v\<rparr>])"
  by (simp add: set_prev_def)

lemma set_next_Some:
  "0 \<le> i \<Longrightarrow> nat i < length es \<Longrightarrow> set_next es i v = Some (es[nat i := (es ! nat i)\<lparr>wp_next := v\<rparr>])"
  by (simp add: set_next_def)

lemma wp_lists_range:
  assumes "wp_lists pool fr fl" "i \<in> set fr \<union> set fl"
  shows "0 \<le> i" "nat i < length (wp_elems pool)"
proof -
  have "i \<in> {0..<wp_capacity pool}" using assms by (simp add: wp_lists_def)
  then show "0 \<le> i" "nat i < length (wp_elems pool)" using assms(1) by (auto simp: wp_lists_def)
qed

lemma wp_lists_lengths:
  assumes "wp_lists pool fr fl"
  shows "length fr + length fl = length (wp_elems pool)"
proof -
  have "distinct fr" "distinct fl" and dis: "set fr \<inter> set fl = {}"
    using assms by (auto simp: wp_lists_def dll_def)
  then have "length fr + length fl = card (set fr) + card (set fl)"
    by (simp add: distinct_card)
  also have "\<dots> = card (set fr \<union> set fl)"
    using dis by (simp add: card_Un_disjoint)
  also have "set fr \<union> set fl = {0..<int (length (wp_elems pool))}" using assms by (simp add: wp_lists_def)
  also have "card \<dots> = length (wp_elems pool)" by simp
  finally show ?thesis .
qed

lemma wp_capacity_eq: "wp_holds pool bs \<Longrightarrow> length bs \<le> nat (wp_capacity pool)"
  using wp_lists_lengths by (fastforce simp: wp_holds_def wp_bufs_def wp_lists_def)

lemma wp_empty_iff: "wp_holds pool bs \<Longrightarrow> AL_WorkPool_IsEmpty pool \<longleftrightarrow> bs = []"
  by (auto simp: wp_holds_def AL_WorkPool_IsEmpty_def wp_lists_def wp_bufs_def dest: dll_head_bad)

lemma wp_full_iff:
  assumes "wp_holds pool bs"
  shows "AL_WorkPool_IsFull pool \<longleftrightarrow> int (length bs) = wp_capacity pool"
proof -
  obtain fr fl where l: "wp_lists pool fr fl" "bs = wp_bufs pool fl"
    using assms by (auto simp: wp_holds_def)
  have "AL_WorkPool_IsFull pool \<longleftrightarrow> fr = []"
    using l(1) dll_head_bad by (auto simp: AL_WorkPool_IsFull_def wp_lists_def)
  also have "\<dots> \<longleftrightarrow> int (length bs) = wp_capacity pool"
  proof -
    have "length bs = length fl" using l(2) by (simp add: wp_bufs_def)
    moreover have "int (length (wp_elems pool)) = wp_capacity pool" using l(1) by (simp add: wp_lists_def)
    ultimately show ?thesis using wp_lists_lengths [OF l(1)] by (cases fr) auto
  qed
  finally show ?thesis .
qed

text \<open>The search ends at the first entry that holds the buffer.\<close>

lemma find_buf_seg:
  assumes "seg (wnx es) pv p h xs AL_BAD_INDEX" "length xs \<le> f" "\<And>x. x \<in> set xs \<Longrightarrow> nat x < length es"
  shows "find_buf f es h b = Some (hd_or (dropWhile (\<lambda>i. wp_buf (es ! nat i) \<noteq> b) xs) AL_BAD_INDEX)"
  using assms
proof (induction xs arbitrary: f p h)
  case Nil
  then show ?case by (simp add: find_buf.simps)
next
  case (Cons x xs)
  from Cons.prems(2) obtain g where f: "f = Suc g" by (cases f) auto
  have x: "h = x" "0 \<le> x" "nat x < length es" and rest: "seg (wnx es) pv x (wnx es x) xs AL_BAD_INDEX"
    using Cons.prems by auto
  have nx: "wp_next (es ! nat x) = wnx es x" using x by (simp add: fld_def)
  have "x \<noteq> AL_BAD_INDEX" using x(2) bad_index_neg(2) by blast
  moreover have "find_buf g es (wnx es x) b =
      Some (hd_or (dropWhile (\<lambda>i. wp_buf (es ! nat i) \<noteq> b) xs) AL_BAD_INDEX)"
    using Cons.IH [OF rest, of g] Cons.prems(2,3) f by simp
  ultimately show ?case using x nx unfolding f by (subst find_buf.simps) simp
qed

lemma dropWhile_split:
  assumes "dropWhile P xs = y # ys"
  shows "xs = takeWhile P xs @ y # ys" "\<not> P y" "\<forall>x \<in> set (takeWhile P xs). P x"
  using assms by (metis takeWhile_dropWhile_id) (use assms in \<open>auto dest: dropWhile_eq_Cons_conv [THEN iffD1] set_takeWhileD\<close>)

lemma bufs_upd:
  "map wp_buf (es[i := (es ! i)\<lparr>wp_prev := v\<rparr>]) = map wp_buf es"
  "map wp_buf (es[i := (es ! i)\<lparr>wp_next := v\<rparr>]) = map wp_buf es"
  "map wp_buf (es[i := \<lparr>wp_buf = b, wp_prev = p, wp_next = n\<rparr>]) = (map wp_buf es)[i := b]"
  by (cases "i < length es"; auto intro!: nth_equalityI simp: nth_list_update)+

lemma wp_pushback:
  assumes "wp_lists pool fr fl" "fr = x # fr'"
  obtains pool' where "AL_WorkPool_PushBack pool b = Some (True, pool')"
    "wp_lists pool' fr' (fl @ [x])" "wp_bufs pool' (fl @ [x]) = wp_bufs pool fl @ [b]"
    "wp_capacity pool' = wp_capacity pool"
proof -
  let ?es = "wp_elems pool" and ?n = "wnx (wp_elems pool) x" and ?q = "wp_filledQueue pool"
  let ?es1 = "if ?n \<noteq> AL_BAD_INDEX then ?es[nat ?n := (?es ! nat ?n)\<lparr>wp_prev := AL_BAD_INDEX\<rparr>] else ?es"
  let ?es2 = "?es1[nat x := \<lparr>wp_buf = b, wp_prev = ?q, wp_next = AL_BAD_INDEX\<rparr>]"
  let ?es3 = "if ?q \<noteq> AL_BAD_INDEX then ?es2[nat ?q := (?es2 ! nat ?q)\<lparr>wp_next := x\<rparr>] else ?es2"
  have free: "dll (wnx ?es) (wpv ?es) (wp_freeHead pool) (x # fr')"
    and filled: "dll (wnx ?es) (wpv ?es) (wp_filledHead pool) fl"
    and q: "?q = last_or fl AL_BAD_INDEX" and dis: "set fr \<inter> set fl = {}"
    using assms by (auto simp: wp_lists_def)
  have rng: "0 \<le> i \<and> nat i < length ?es" if "i \<in> set fr \<union> set fl" for i
    using wp_lists_range [OF assms(1) that] by simp
  have x: "0 \<le> x" "nat x < length ?es" and hx: "wp_freeHead pool = x" "x \<noteq> AL_BAD_INDEX"
    using rng [of x] assms(2) dll_head [OF free] by auto
  have at: "?n = hd_or fr' AL_BAD_INDEX" "wpv ?es x = AL_BAD_INDEX" "x \<notin> set fr'"
    using dll_at [of "wnx ?es" "wpv ?es" "wp_freeHead pool" "[]" x fr'] free by auto
  have n: "?n \<noteq> AL_BAD_INDEX \<longleftrightarrow> fr' \<noteq> []" "fr' \<noteq> [] \<Longrightarrow> ?n \<in> set fr'"
    using at(1) rng assms(2) by (cases fr'; force)+
  have qv: "?q \<noteq> AL_BAD_INDEX \<longleftrightarrow> fl \<noteq> []" "fl \<noteq> [] \<Longrightarrow> ?q \<in> set fl"
    using q rng by (cases fl rule: rev_cases; force)+
  have nr: "?n \<noteq> AL_BAD_INDEX \<Longrightarrow> 0 \<le> ?n \<and> nat ?n < length ?es"
    using n rng assms(2) by auto
  have qr: "?q \<noteq> AL_BAD_INDEX \<Longrightarrow> 0 \<le> ?q \<and> nat ?q < length ?es"
    using qv rng by auto
  obtain es' where es': "es' = ?es3" by simp
  let ?pool = "pool\<lparr>wp_elems := es', wp_freeHead := ?n,
      wp_freeQueue := (if ?n \<noteq> AL_BAD_INDEX then wp_freeQueue pool else AL_BAD_INDEX),
      wp_filledQueue := x, wp_filledHead := (if wp_filledHead pool = AL_BAD_INDEX then x else wp_filledHead pool)\<rparr>"
  have run: "AL_WorkPool_PushBack pool b = Some (True, ?pool)"
    using x hx nr qr
    by (auto simp: es' AL_WorkPool_PushBack_def AL_WorkPool_IsFull_def Let_def set_prev_Some set_next_Some fld_at)
  have nx: "wnx es' = (if ?q \<noteq> AL_BAD_INDEX then (wnx ?es)(x := AL_BAD_INDEX, ?q := x) else (wnx ?es)(x := AL_BAD_INDEX))"
    using x nr qr by (simp add: es' fld_upd fld_at)
  have pv: "wpv es' = (if ?n \<noteq> AL_BAD_INDEX then (wpv ?es)(?n := AL_BAD_INDEX) else wpv ?es)(x := ?q)"
    using x nr qr by (auto simp: es' fld_upd fld_at fun_eq_iff)
  have len: "length es' = length ?es" by (simp add: es')
  have bufs: "map wp_buf es' = (map wp_buf ?es)[nat x := b]"
    by (simp add: es' bufs_upd)
  have buf: "wp_buf (es' ! nat i) = (if i = x then b else wp_buf (?es ! nat i))" if "i \<in> set (fl @ [x])" for i
    using arg_cong [OF bufs, of "\<lambda>l. l ! nat i"] rng [of i] that assms(2) x len
    by (auto simp: nth_list_update eq_nat_nat_iff)
  show thesis
  proof (rule that [OF run])
    show "wp_capacity ?pool = wp_capacity pool" by simp
    have "dll (wnx es') (wpv es') ?n fr'"
    proof -
      have "dll (wnx ?es) (if 0 \<le> ?n then (wpv ?es)(?n := AL_BAD_INDEX) else wpv ?es) ?n fr'"
        using dll_unlink [of "wnx ?es" "wpv ?es" "wp_freeHead pool" "[]" x fr'] free hx at(2)
        by (auto split: if_splits)
      moreover have "0 \<le> ?n \<longleftrightarrow> ?n \<noteq> AL_BAD_INDEX" using nr bad_index_neg(2) by metis
      moreover have "?q \<notin> set fr'" if "?q \<noteq> AL_BAD_INDEX" using qv that dis assms(2) by auto
      ultimately show ?thesis unfolding nx pv using at(3)
        by (auto simp: dll_nx_outside dll_pv_outside split: if_splits)
    qed
    moreover have "dll (wnx es') (wpv es') (if wp_filledHead pool = AL_BAD_INDEX then x else wp_filledHead pool) (fl @ [x])"
    proof -
      have xf: "x \<notin> set fl" using dis assms(2) by auto
      have "?n \<notin> set (fl @ [x])" if "?n \<noteq> AL_BAD_INDEX" using n that dis assms(2) at(3) by auto
      then have "dll (wnx ?es) (if ?n \<noteq> AL_BAD_INDEX then (wpv ?es)(?n := AL_BAD_INDEX) else wpv ?es) (wp_filledHead pool) fl"
        using filled by (simp add: dll_pv_outside)
      from dll_enqueue [OF this xf x(1), folded q] show ?thesis unfolding nx pv .
    qed
    ultimately show "wp_lists ?pool fr' (fl @ [x])"
      using assms n at(3) len by (auto simp: wp_lists_def last_or_append last_or_nonempty split: if_splits)
    show "wp_bufs ?pool (fl @ [x]) = wp_bufs pool fl @ [b]"
      using dis assms(2) buf by (auto simp: wp_bufs_def)
  qed
qed

lemma wp_remove:
  assumes "wp_lists pool fr fl" "fl = xs @ x # ys" "wp_buf (wp_elems pool ! nat x) = b"
    and "\<forall>i \<in> set xs. wp_buf (wp_elems pool ! nat i) \<noteq> b"
  obtains pool' where "AL_WorkPool_Remove pool b = Some pool'"
    "wp_lists pool' (fr @ [x]) (xs @ ys)" "wp_bufs pool' (xs @ ys) = wp_bufs pool (xs @ ys)"
    "wp_capacity pool' = wp_capacity pool"
proof -
  let ?es = "wp_elems pool" and ?n = "wnx (wp_elems pool) x" and ?p = "wpv (wp_elems pool) x"
    and ?q = "wp_freeQueue pool"
  let ?es1 = "if ?p \<noteq> AL_BAD_INDEX then ?es[nat ?p := (?es ! nat ?p)\<lparr>wp_next := ?n\<rparr>] else ?es"
  let ?es2 = "if ?n \<noteq> AL_BAD_INDEX then ?es1[nat ?n := (?es1 ! nat ?n)\<lparr>wp_prev := ?p\<rparr>] else ?es1"
  let ?es3 = "?es2[nat x := \<lparr>wp_buf = NULL, wp_prev = ?q, wp_next = AL_BAD_INDEX\<rparr>]"
  let ?es4 = "if ?q \<noteq> AL_BAD_INDEX then ?es3[nat ?q := (?es3 ! nat ?q)\<lparr>wp_next := x\<rparr>] else ?es3"
  have free: "dll (wnx ?es) (wpv ?es) (wp_freeHead pool) fr"
    and filled: "dll (wnx ?es) (wpv ?es) (wp_filledHead pool) (xs @ x # ys)"
    and q: "?q = last_or fr AL_BAD_INDEX" and dis: "set fr \<inter> set fl = {}"
    and fq: "wp_filledQueue pool = last_or fl AL_BAD_INDEX"
    using assms(1,2) by (auto simp: wp_lists_def)
  have rng: "0 \<le> i \<and> nat i < length ?es" if "i \<in> set fr \<union> set fl" for i
    using wp_lists_range [OF assms(1) that] by simp
  have x: "0 \<le> x" "nat x < length ?es" using rng [of x] assms(2) by auto
  note at = dll_at [OF filled]
  have n: "?n \<noteq> AL_BAD_INDEX \<longleftrightarrow> ys \<noteq> []" "ys \<noteq> [] \<Longrightarrow> ?n \<in> set ys"
    using at(1) rng assms(2) by (cases ys; force)+
  have p: "?p \<noteq> AL_BAD_INDEX \<longleftrightarrow> xs \<noteq> []" "xs \<noteq> [] \<Longrightarrow> ?p \<in> set xs"
    using at(2) rng assms(2) by (cases xs rule: rev_cases; force)+
  have qv: "?q \<noteq> AL_BAD_INDEX \<longleftrightarrow> fr \<noteq> []" "fr \<noteq> [] \<Longrightarrow> ?q \<in> set fr"
    using q rng by (cases fr rule: rev_cases; force)+
  have nr: "?n \<noteq> AL_BAD_INDEX \<Longrightarrow> 0 \<le> ?n \<and> nat ?n < length ?es" using n rng assms(2) by auto
  have pr: "?p \<noteq> AL_BAD_INDEX \<Longrightarrow> 0 \<le> ?p \<and> nat ?p < length ?es" using p rng assms(2) by auto
  have qr: "?q \<noteq> AL_BAD_INDEX \<Longrightarrow> 0 \<le> ?q \<and> nat ?q < length ?es" using qv rng by auto
  have find: "find_buf (length ?es) ?es (wp_filledHead pool) b = Some x"
  proof -
    have "find_buf (length ?es) ?es (wp_filledHead pool) b =
        Some (hd_or (dropWhile (\<lambda>i. wp_buf (?es ! nat i) \<noteq> b) fl) AL_BAD_INDEX)"
      using find_buf_seg [of ?es "wpv ?es" AL_BAD_INDEX "wp_filledHead pool" fl "length ?es" b]
        filled assms(2) rng wp_lists_lengths [OF assms(1)] by (auto simp: dll_def)
    also have "dropWhile (\<lambda>i. wp_buf (?es ! nat i) \<noteq> b) fl = x # ys"
      using assms(2-4) by (simp add: dropWhile_append3)
    finally show ?thesis by simp
  qed
  obtain es' where es': "es' = ?es4" by simp
  let ?pool = "pool\<lparr>wp_elems := es',
      wp_filledHead := (if ?p \<noteq> AL_BAD_INDEX then wp_filledHead pool else ?n),
      wp_filledQueue := (if ?n \<noteq> AL_BAD_INDEX then wp_filledQueue pool else ?p),
      wp_freeQueue := x, wp_freeHead := (if wp_freeHead pool = AL_BAD_INDEX then x else wp_freeHead pool),
      wp_spaceAvailable := True\<rparr>"
  have xb: "x \<noteq> AL_BAD_INDEX" using x(1) bad_index_neg(2) by blast
  have run: "AL_WorkPool_Remove pool b = Some ?pool"
    using x xb nr pr qr find
    by (auto simp: es' AL_WorkPool_Remove_def Let_def set_prev_Some set_next_Some fld_at)
  have ne: "?p \<noteq> x" "?n \<noteq> x" "?q \<noteq> x"
    using p n qv at(4,5) dis assms(2) xb by (metis, metis, auto)
  have nx: "wnx es' = (if ?q \<noteq> AL_BAD_INDEX
      then (if ?p \<noteq> AL_BAD_INDEX then (wnx ?es)(?p := ?n) else wnx ?es)(x := AL_BAD_INDEX, ?q := x)
      else (if ?p \<noteq> AL_BAD_INDEX then (wnx ?es)(?p := ?n) else wnx ?es)(x := AL_BAD_INDEX))"
    using x nr pr qr by (auto simp: es' fld_upd fld_at fun_eq_iff)
  have pv: "wpv es' = (if ?n \<noteq> AL_BAD_INDEX then (wpv ?es)(?n := ?p) else wpv ?es)(x := ?q)"
    using x nr pr qr by (auto simp: es' fld_upd fld_at fun_eq_iff)
  have len: "length es' = length ?es" by (simp add: es')
  have bufs: "map wp_buf es' = (map wp_buf ?es)[nat x := NULL]"
    by (simp add: es' bufs_upd)
  have buf: "wp_buf (es' ! nat i) = wp_buf (?es ! nat i)" if "i \<in> set (xs @ ys)" for i
    using arg_cong [OF bufs, of "\<lambda>l. l ! nat i"] rng [of i] that assms(2) x at(4,5) len
    by (auto simp: nth_list_update eq_nat_nat_iff)
  show thesis
  proof (rule that [OF run])
    show "wp_capacity ?pool = wp_capacity pool" by simp
    have pp: "0 \<le> ?p \<longleftrightarrow> ?p \<noteq> AL_BAD_INDEX" "0 \<le> ?n \<longleftrightarrow> ?n \<noteq> AL_BAD_INDEX"
      using pr nr bad_index_neg(2) by metis+
    have hx: "wp_filledHead pool = x \<longleftrightarrow> ?p = AL_BAD_INDEX"
      using dll_head [OF filled] p(1) at(4) by (cases xs) auto
    have "dll (wnx es') (wpv es') (if ?p \<noteq> AL_BAD_INDEX then wp_filledHead pool else ?n) (xs @ ys)"
    proof -
      have "dll (if ?p \<noteq> AL_BAD_INDEX then (wnx ?es)(?p := ?n) else wnx ?es)
        (if ?n \<noteq> AL_BAD_INDEX then (wpv ?es)(?n := ?p) else wpv ?es)
        (if ?p \<noteq> AL_BAD_INDEX then wp_filledHead pool else ?n) (xs @ ys)"
        using dll_unlink [OF filled] hx unfolding pp by (simp split: if_splits)
      moreover have "?q \<notin> set (xs @ ys)" if "?q \<noteq> AL_BAD_INDEX" using qv that dis assms(2) by auto
      ultimately show ?thesis unfolding nx pv using at(4,5)
        by (auto simp: dll_nx_outside dll_pv_outside split: if_splits)
    qed
    moreover have "dll (wnx es') (wpv es') (if wp_freeHead pool = AL_BAD_INDEX then x else wp_freeHead pool) (fr @ [x])"
    proof -
      have xf: "x \<notin> set fr" using dis assms(2) by auto
      have "?p \<notin> set fr" if "?p \<noteq> AL_BAD_INDEX" using p that dis assms(2) by auto
      moreover have "?n \<notin> set fr" if "?n \<noteq> AL_BAD_INDEX" using n that dis assms(2) by auto
      ultimately have "dll (if ?p \<noteq> AL_BAD_INDEX then (wnx ?es)(?p := ?n) else wnx ?es)
        (if ?n \<noteq> AL_BAD_INDEX then (wpv ?es)(?n := ?p) else wpv ?es) (wp_freeHead pool) fr"
        using free by (simp add: dll_pv_outside dll_nx_outside)
      from dll_enqueue [OF this xf x(1), folded q] show ?thesis unfolding nx pv .
    qed
    moreover have "(if ?n \<noteq> AL_BAD_INDEX then wp_filledQueue pool else ?p) = last_or (xs @ ys) AL_BAD_INDEX"
      using n fq assms(2) at(2) by (cases ys rule: rev_cases) (auto simp: last_or_append)
    ultimately show "wp_lists ?pool (fr @ [x]) (xs @ ys)"
      using assms(1,2) dis at(4,5) len by (auto simp: wp_lists_def last_or_append last_or_nonempty split: if_splits)
    show "wp_bufs ?pool (xs @ ys) = wp_bufs pool (xs @ ys)"
      using buf by (auto simp: wp_bufs_def)
  qed
qed

section \<open>The operations on the abstract list\<close>

lemma wp_pushback_holds:
  assumes "wp_holds pool bs"
  shows "\<exists>pool'. AL_WorkPool_PushBack pool b = Some (int (length bs) < wp_capacity pool, pool')
    \<and> wp_holds pool' (if int (length bs) < wp_capacity pool then bs @ [b] else bs)
    \<and> wp_capacity pool' = wp_capacity pool"
proof -
  obtain fr fl where l: "wp_lists pool fr fl" "bs = wp_bufs pool fl"
    using assms by (auto simp: wp_holds_def)
  have len: "int (length bs) \<le> wp_capacity pool"
    using wp_lists_lengths [OF l(1)] l by (simp add: wp_lists_def wp_bufs_def)
  show ?thesis
  proof (cases fr)
    case Nil
    then have "AL_WorkPool_IsFull pool"
      using l(1) by (simp add: wp_lists_def AL_WorkPool_IsFull_def)
    then show ?thesis
      using wp_full_iff [OF assms] assms by (simp add: AL_WorkPool_PushBack_def)
  next
    case (Cons x fr')
    then have "\<not> AL_WorkPool_IsFull pool"
      using l(1) dll_head_bad by (fastforce simp: wp_lists_def AL_WorkPool_IsFull_def)
    then have "int (length bs) < wp_capacity pool"
      using wp_full_iff [OF assms] len by simp
    then show ?thesis
      using wp_pushback [OF l(1) Cons] l(2) by (metis wp_holds_def)
  qed
qed

lemma wp_remove_holds:
  assumes "wp_holds pool bs" "b \<in> set bs"
  shows "\<exists>pool'. AL_WorkPool_Remove pool b = Some pool' \<and> wp_holds pool' (remove1 b bs)
    \<and> wp_capacity pool' = wp_capacity pool"
proof -
  obtain fr fl where l: "wp_lists pool fr fl" "bs = wp_bufs pool fl"
    using assms by (auto simp: wp_holds_def)
  let ?b = "\<lambda>i. wp_buf (wp_elems pool ! nat i)"
  have "b \<in> ?b ` set fl" using assms(2) l(2) by (auto simp: wp_bufs_def)
  then obtain xs x ys where s: "fl = xs @ x # ys" "?b x = b" "\<forall>i \<in> set xs. ?b i \<noteq> b"
    using split_list_first_prop [of fl "\<lambda>i. ?b i = b"] by auto
  have "b \<notin> set (map ?b xs)" using s(3) by auto
  then have "remove1 b bs = wp_bufs pool (xs @ ys)"
    using l(2) s(1,2) by (simp add: wp_bufs_def remove1_append)
  then show ?thesis
    using wp_remove [OF l(1) s] by (metis wp_holds_def)
qed

lemma wp_remove_absent:
  assumes "wp_holds pool bs" "b \<notin> set bs"
  shows "AL_WorkPool_Remove pool b = None"
proof -
  obtain fr fl where l: "wp_lists pool fr fl" "bs = wp_bufs pool fl"
    using assms by (auto simp: wp_holds_def)
  have "dropWhile (\<lambda>i. wp_buf (wp_elems pool ! nat i) \<noteq> b) fl = []"
    using assms(2) l(2) by (auto simp: wp_bufs_def)
  moreover have "find_buf (length (wp_elems pool)) (wp_elems pool) (wp_filledHead pool) b =
      Some (hd_or (dropWhile (\<lambda>i. wp_buf (wp_elems pool ! nat i) \<noteq> b) fl) AL_BAD_INDEX)"
    by (rule find_buf_seg [where pv = "wpv (wp_elems pool)" and p = AL_BAD_INDEX])
      (use l(1) wp_lists_range [OF l(1)] wp_lists_lengths [OF l(1)] in \<open>auto simp: dll_def wp_lists_def\<close>)
  ultimately have "find_buf (length (wp_elems pool)) (wp_elems pool) (wp_filledHead pool) b = Some AL_BAD_INDEX"
    by (metis hd_or_simps(1))
  then show ?thesis by (simp add: AL_WorkPool_Remove_def)
qed

lemma wp_getsize_holds:
  assumes "wp_holds pool bs"
  shows "AL_WorkPool_GetSize pool = Some (length bs)"
proof -
  obtain fr fl where l: "wp_lists pool fr fl" "bs = wp_bufs pool fl"
    using assms by (auto simp: wp_holds_def)
  let ?es = "wp_elems pool"
  have "AL_WorkPool_GetSize pool = foldM (\<lambda>_ n. Some (Suc n)) fl 0"
    unfolding AL_WorkPool_GetSize_def
    by (rule walk_foldM [where nx = "wnx ?es" and pv = "wpv ?es" and p = AL_BAD_INDEX and I = "\<lambda>_. True"])
      (use l(1) wp_lists_range [OF l(1)] wp_lists_lengths [OF l(1)] in
        \<open>auto simp: wp_lists_def dll_def fld_at\<close>)
  also have "\<dots> = Some (length bs)"
  proof -
    have "fold (\<lambda>_. Suc) fl n = n + length fl" for n by (induction fl arbitrary: n) auto
    then show ?thesis using l(2) by (simp add: foldM_Some wp_bufs_def)
  qed
  finally show ?thesis .
qed

lemma wp_init_holds:
  assumes "AL_WorkPool_Init elemsOk lockOk eventOk n = Some (True, Some pool)"
  shows "wp_holds pool []" "wp_capacity pool = n" "0 < n"
proof -
  show n: "0 < n"
    using assms by (cases "0 < n") (auto simp: AL_WorkPool_Init_def set_prev_def arr_get_def split: if_splits)
  obtain k where k: "n = int (Suc k)" using n by (metis gr0_implies_Suc pos_int_cases)
  let ?raw = "map (\<lambda>i. \<lparr>wp_buf = NULL, wp_prev = int i - 1, wp_next = int i + 1\<rparr>) [0..<Suc k]"
  let ?one = "?raw[0 := (?raw ! 0)\<lparr>wp_prev := AL_BAD_INDEX\<rparr>]"
  let ?fin = "?one[k := (?one ! k)\<lparr>wp_next := AL_BAD_INDEX\<rparr>]"
  have at: "?fin ! i = \<lparr>wp_buf = NULL, wp_prev = int i - 1, wp_next = (if i = k then -1 else int i + 1)\<rparr>"
    if "i < Suc k" for i
    using that by (cases "i = k"; cases "i = 0") (simp_all add: AL_BAD_INDEX_def nth_append del: upt_Suc)
  have p1: "set_prev ?raw 0 AL_BAD_INDEX = Some ?one" using set_prev_Some [of 0 ?raw AL_BAD_INDEX] by (simp del: upt_Suc)
  have p2: "set_next ?one (int k) AL_BAD_INDEX = Some ?fin" using set_next_Some [of "int k" ?one AL_BAD_INDEX] by (simp del: upt_Suc)
  have "AL_WorkPool_Init True True True n = Some (True, Some \<lparr>wp_elems = ?fin, wp_spaceAvailable = False,
      wp_freeHead = 0, wp_freeQueue = n - 1, wp_filledHead = AL_BAD_INDEX, wp_filledQueue = AL_BAD_INDEX,
      wp_capacity = n\<rparr>)"
    using p1 p2 unfolding AL_WorkPool_Init_def k by (simp add: Let_def nat_add_distrib del: upt_Suc)
  then have pool: "pool = \<lparr>wp_elems = ?fin, wp_spaceAvailable = False,
      wp_freeHead = 0, wp_freeQueue = n - 1, wp_filledHead = AL_BAD_INDEX, wp_filledQueue = AL_BAD_INDEX,
      wp_capacity = n\<rparr>"
    using assms by (auto simp: AL_WorkPool_Init_def split: if_splits)
  show "wp_capacity pool = n" by (simp add: pool)
  obtain es where es: "es = ?fin" by simp
  have len: "length es = Suc k" by (simp add: es)
  let ?fr = "map int [0..<Suc k]"
  have "seg (wnx es) (wpv es) AL_BAD_INDEX (int 0) ?fr AL_BAD_INDEX"
    by (rule seg_upt) (use len at [folded es] in \<open>auto simp: fld_def AL_BAD_INDEX_def\<close>)
  moreover have "set ?fr = {0..<n}" unfolding k using image_int_atLeastLessThan [of 0 "Suc k"]
    by (simp add: add.commute del: upt_Suc)
  moreover have "last_or ?fr AL_BAD_INDEX = n - 1" by (simp add: last_or_def k)
  ultimately have "wp_lists pool ?fr []"
    using len unfolding pool es [symmetric] by (simp add: wp_lists_def dll_def distinct_map k del: upt_Suc)
  then show "wp_holds pool []" by (auto simp: wp_holds_def wp_bufs_def)
qed

section \<open>Refinement\<close>

text \<open>
  A sequence of calls on a pool and on the list it stands for. A \<open>PushBack\<close> that would block is
  observed as \<^const>\<open>False\<close>; taking out a buffer that is not there is the assertion failure.
\<close>

datatype wp_op = WpPush ptr | WpRemove ptr | WpSize | WpEmpty | WpFull
datatype wp_obs = WpPushed bool | WpRemoved | WpCount nat | WpFlag bool

fun wp_run :: "WorkPool \<Rightarrow> wp_op list \<Rightarrow> wp_obs list option" where
  "wp_run pool [] = Some []"
| "wp_run pool (WpPush b # ops) = do {
     (ok, pool) \<leftarrow> AL_WorkPool_PushBack pool b; obs \<leftarrow> wp_run pool ops; Some (WpPushed ok # obs) }"
| "wp_run pool (WpRemove b # ops) = do {
     pool \<leftarrow> AL_WorkPool_Remove pool b; obs \<leftarrow> wp_run pool ops; Some (WpRemoved # obs) }"
| "wp_run pool (WpSize # ops) = do {
     n \<leftarrow> AL_WorkPool_GetSize pool; obs \<leftarrow> wp_run pool ops; Some (WpCount n # obs) }"
| "wp_run pool (WpEmpty # ops) = do {
     obs \<leftarrow> wp_run pool ops; Some (WpFlag (AL_WorkPool_IsEmpty pool) # obs) }"
| "wp_run pool (WpFull # ops) = do {
     obs \<leftarrow> wp_run pool ops; Some (WpFlag (AL_WorkPool_IsFull pool) # obs) }"

fun wp_spec :: "int \<Rightarrow> ptr list \<Rightarrow> wp_op list \<Rightarrow> wp_obs list option" where
  "wp_spec c bs [] = Some []"
| "wp_spec c bs (WpPush b # ops) = (let ok = int (length bs) < c in
     do { obs \<leftarrow> wp_spec c (if ok then bs @ [b] else bs) ops; Some (WpPushed ok # obs) })"
| "wp_spec c bs (WpRemove b # ops) = (if b \<in> set bs
     then do { obs \<leftarrow> wp_spec c (remove1 b bs) ops; Some (WpRemoved # obs) } else None)"
| "wp_spec c bs (WpSize # ops) = do { obs \<leftarrow> wp_spec c bs ops; Some (WpCount (length bs) # obs) }"
| "wp_spec c bs (WpEmpty # ops) = do { obs \<leftarrow> wp_spec c bs ops; Some (WpFlag (bs = []) # obs) }"
| "wp_spec c bs (WpFull # ops) = do { obs \<leftarrow> wp_spec c bs ops; Some (WpFlag (int (length bs) = c) # obs) }"

lemma wp_run_spec: "wp_holds pool bs \<Longrightarrow> wp_run pool ops = wp_spec (wp_capacity pool) bs ops"
proof (induction ops arbitrary: pool bs)
  case Nil
  then show ?case by simp
next
  case (Cons op ops)
  show ?case
  proof (cases op)
    case (WpPush b)
    obtain pool' where p: "AL_WorkPool_PushBack pool b = Some (int (length bs) < wp_capacity pool, pool')"
      "wp_holds pool' (if int (length bs) < wp_capacity pool then bs @ [b] else bs)"
      "wp_capacity pool' = wp_capacity pool"
      using wp_pushback_holds [OF Cons.prems] by blast
    show ?thesis using Cons.IH [OF p(2)] p(1,3) WpPush by (simp add: Let_def split: if_splits)
  next
    case (WpRemove b)
    show ?thesis
    proof (cases "b \<in> set bs")
      case True
      then obtain pool' where p: "AL_WorkPool_Remove pool b = Some pool'" "wp_holds pool' (remove1 b bs)"
        "wp_capacity pool' = wp_capacity pool"
        using wp_remove_holds [OF Cons.prems] by blast
      show ?thesis using Cons.IH [OF p(2)] p(1,3) WpRemove True by simp
    qed (use wp_remove_absent [OF Cons.prems] WpRemove in simp)
  qed (use Cons wp_getsize_holds wp_empty_iff wp_full_iff in auto)
qed

text \<open>
  C5 The work pool is a bounded list with in-place removal. After \<open>AL_WorkPool_Init\<close> for \<open>n\<close>
  buffers, every sequence of calls observes exactly what a list of capacity \<open>n\<close> shows: \<open>PushBack\<close>
  appends (and blocks exactly when \<open>n\<close> buffers are held), \<open>Remove\<close> takes the first occurrence out of
  any position, the size and the two flags are those of the list. The code never reads or writes outside
  its array, its search terminates, and the assertion fails exactly when the buffer is absent.
\<close>

theorem workpool_refines_list:
  assumes "AL_WorkPool_Init elemsOk lockOk eventOk n = Some (True, Some pool)"
  shows "wp_run pool ops = wp_spec n [] ops"
  using wp_run_spec [OF wp_init_holds(1) [OF assms]] wp_init_holds(2) [OF assms] by simp

theorem workpool_refines_list_witness:
  "\<exists>pool. AL_WorkPool_Init True True True 2 = Some (True, Some pool) \<and>
     wp_run pool [WpPush 5, WpPush 6, WpPush 7, WpRemove 5, WpPush 7, WpSize, WpRemove 7, WpRemove 6, WpEmpty]
     = Some [WpPushed True, WpPushed True, WpPushed False, WpRemoved, WpPushed True, WpCount 2, WpRemoved,
             WpRemoved, WpFlag True]"
proof -
  obtain pool where p: "AL_WorkPool_Init True True True 2 = Some (True, Some pool)"
    by (simp add: AL_WorkPool_Init_def set_prev_def set_next_def Let_def numeral_2_eq_2)
  show ?thesis by (intro exI conjI, rule p, subst workpool_refines_list [OF p]) (simp add: Let_def)
qed

end
