(* ===== verification/Bit_Stream.thy ===== *)
theory Bit_Stream
  imports VCU_Prelude
begin

text \<open>
  The bit writer \<open>lib_bitstream/BitStreamLite.c\<close>: a byte buffer filled most significant bit
  first. The development reads the buffer as a list of bits; every writer function is shown to
  append the bits it stands for.
\<close>

section \<open>Bits of bytes and words\<close>

text \<open>The \<open>n\<close> low bits of \<open>v\<close>, most significant first: what \<open>PutBits(n, v)\<close> stands for.\<close>

definition nbits :: "nat \<Rightarrow> 'a::len word \<Rightarrow> bool list" where
  "nbits n v = map (\<lambda>i. bit v (n - 1 - i)) [0..<n]"

definition byte_bits :: "u8 \<Rightarrow> bool list" where
  "byte_bits b = nbits 8 b"

definition bytes_bits :: "u8 list \<Rightarrow> bool list" where
  "bytes_bits bs = concat (map byte_bits bs)"

lemma length_nbits [simp]: "length (nbits n v) = n"
  by (simp add: nbits_def)

lemma nbits_nth [simp]: "i < n \<Longrightarrow> nbits n v ! i = bit v (n - 1 - i)"
  by (simp add: nbits_def)

lemma nbits_0 [simp]: "nbits 0 v = []"
  by (simp add: nbits_def)

lemma length_byte_bits [simp]: "length (byte_bits b) = 8"
  by (simp add: byte_bits_def)

lemma byte_bits_nth: "i < 8 \<Longrightarrow> byte_bits b ! i = bit b (7 - i)"
  by (simp add: byte_bits_def)

lemma length_bytes_bits [simp]: "length (bytes_bits bs) = 8 * length bs"
  by (induction bs) (simp_all add: bytes_bits_def)

lemma bytes_bits_simps [simp]: "bytes_bits [] = []" "bytes_bits (b # bs) = byte_bits b @ bytes_bits bs"
  "bytes_bits (as @ bs) = bytes_bits as @ bytes_bits bs"
  by (simp_all add: bytes_bits_def)

lemma bytes_bits_nth:
  "i < 8 * length bs \<Longrightarrow> bytes_bits bs ! i = bit (bs ! (i div 8)) (7 - i mod 8)"
proof (induction bs arbitrary: i)
  case (Cons b bs)
  show ?case
  proof (cases "i < 8")
    case True
    then show ?thesis by (simp add: nth_append byte_bits_nth)
  next
    case False
    then have "i div 8 = Suc ((i - 8) div 8)" "i mod 8 = (i - 8) mod 8"
      by (simp_all add: le_div_geq le_mod_geq)
    then show ?thesis using False Cons by (simp add: nth_append)
  qed
qed simp

lemma byte_bits_inj: "byte_bits a = byte_bits b \<Longrightarrow> a = b"
proof (rule bit_eqI)
  fix j assume ab: "byte_bits a = byte_bits b" "possible_bit TYPE(u8) j"
  then have "j < 8" by (simp add: possible_bit_def)
  then have "byte_bits a ! (7 - j) = bit a j" "byte_bits b ! (7 - j) = bit b j"
    by (simp_all add: byte_bits_nth)
  then show "bit a j = bit b j" using ab(1) by simp
qed

lemma bytes_bits_inj: "bytes_bits as = bytes_bits bs \<Longrightarrow> as = bs"
proof (induction as arbitrary: bs)
  case (Cons a as)
  then obtain b bs' where bs: "bs = b # bs'" by (cases bs) (auto dest: arg_cong [where f = length])
  have "byte_bits a = byte_bits b" "bytes_bits as = bytes_bits bs'" using Cons.prems bs by simp_all
  then show ?case using Cons.IH bs byte_bits_inj by blast
qed (auto dest: arg_cong [where f = length])

text \<open>Splitting a field, dropping its higher bits, and moving it between word sizes.\<close>

lemma nbits_append:
  fixes v :: "'a::len word"
  shows "nbits (m + n) v = nbits m (drop_bit n v) @ nbits n v"
  by (rule nth_equalityI) (auto simp: nth_append bit_drop_bit_eq Suc_diff_Suc intro!: arg_cong [where f = "bit v"])

lemma nbits_split:
  fixes v :: "'a::len word"
  assumes "k \<le> n"
  shows "nbits n v = nbits k (drop_bit (n - k) v) @ nbits (n - k) v"
  using nbits_append [of k "n - k" v] assms by simp

lemma nbits_cong: "(\<And>i. i < n \<Longrightarrow> bit v i = bit w i) \<Longrightarrow> nbits n v = nbits n w"
  by (rule nth_equalityI) simp_all

lemma nbits_mask:
  fixes v :: "'a::len word"
  assumes "\<And>i. i < n \<Longrightarrow> bit m i"
  shows "nbits n (v AND m) = nbits n v"
  by (rule nbits_cong) (simp add: bit_and_iff assms)

lemma nbits_ucast:
  fixes v :: "'a::len word"
  assumes "n \<le> LENGTH('b::len)"
  shows "nbits n (ucast v :: 'b word) = nbits n v"
  by (rule nbits_cong) (use assms in \<open>simp add: bit_ucast_iff\<close>)

section \<open>BitStreamLite.c: state\<close>

text \<open>
  The bit counters are \<open>int32_t\<close> and never negative; streams are far below 2^31 bits, so they
  are naturals. \<open>pData\<close> is the whole buffer behind the pointer.
\<close>

record BitStreamLite =
  bs_pData :: "u8 list"
  bs_iBitCount :: nat
  bs_iMaxBits :: nat
  bs_isOverflow :: bool

definition AL_BitStreamLite_Init :: "u8 list \<Rightarrow> nat \<Rightarrow> BitStreamLite" where
  "AL_BitStreamLite_Init pBuf iMaxSize =
     \<lparr>bs_pData = pBuf, bs_iBitCount = 0, bs_iMaxBits = iMaxSize * 8, bs_isOverflow = False\<rparr>"

definition AL_BitStreamLite_Deinit :: "BitStreamLite \<Rightarrow> BitStreamLite" where
  "AL_BitStreamLite_Deinit bs = bs\<lparr>bs_pData := [], bs_iBitCount := 0\<rparr>"

definition AL_BitStreamLite_Reset :: "BitStreamLite \<Rightarrow> BitStreamLite" where
  "AL_BitStreamLite_Reset bs = bs\<lparr>bs_iBitCount := 0\<rparr>"

definition AL_BitStreamLite_GetData :: "BitStreamLite \<Rightarrow> u8 list" where
  "AL_BitStreamLite_GetData bs = bs_pData bs"

text \<open>A pointer into the buffer is the rest of the buffer from that byte on.\<close>

definition AL_BitStreamLite_GetCurData :: "BitStreamLite \<Rightarrow> u8 list" where
  "AL_BitStreamLite_GetCurData bs = drop (bs_iBitCount bs div 8) (bs_pData bs)"

definition AL_BitStreamLite_GetBitsCount :: "BitStreamLite \<Rightarrow> nat" where
  "AL_BitStreamLite_GetBitsCount bs = bs_iBitCount bs"

section \<open>BitStreamLite.c: writing\<close>

definition writeData :: "BitStreamLite \<Rightarrow> nat \<Rightarrow> u32 \<Rightarrow> BitStreamLite option" where
  "writeData bs iNumBits uValue =
     (let byteNum = bs_iBitCount bs div 8; byteOffset = bs_iBitCount bs mod 8 in
      if \<not> byteOffset + iNumBits \<le> 8 then None
      else if \<not> byteNum < length (bs_pData bs) then None
      else if byteOffset = 0
      then Some (bs\<lparr>bs_pData := (bs_pData bs)[byteNum := ucast (push_bit (8 - iNumBits) uValue)]\<rparr>)
      else let bitsLeft = 8 - byteOffset in
        Some (bs\<lparr>bs_pData := (bs_pData bs)
          [byteNum := bs_pData bs ! byteNum + ucast (push_bit (bitsLeft - iNumBits) uValue)]\<rparr>))"

definition PutInByte :: "BitStreamLite \<Rightarrow> nat \<Rightarrow> u32 \<Rightarrow> BitStreamLite option" where
  "PutInByte bs iNumBits uValue = do {
     bs \<leftarrow> (if bs_iBitCount bs + iNumBits \<le> bs_iMaxBits bs then writeData bs iNumBits uValue
           else Some (bs\<lparr>bs_isOverflow := True\<rparr>));
     Some (bs\<lparr>bs_iBitCount := bs_iBitCount bs + iNumBits\<rparr>) }"

text \<open>The loop of \<open>PutBits\<close>: one byte is completed per turn. \<open>byteValue\<close> is a \<open>uint8_t\<close>.\<close>

function PutBits_loop :: "BitStreamLite \<Rightarrow> nat \<Rightarrow> u32 \<Rightarrow> BitStreamLite option" where
  "PutBits_loop bs iNumBits uValue =
     (let numBitsToWrite = 8 - bs_iBitCount bs mod 8 in
      if numBitsToWrite < iNumBits
      then do {
        let byteValue = (ucast (drop_bit (iNumBits - numBitsToWrite) uValue) :: u8);
        bs \<leftarrow> PutInByte bs numBitsToWrite (ucast byteValue);
        PutBits_loop bs (iNumBits - numBitsToWrite)
          (uValue AND drop_bit numBitsToWrite 0xffffffff) }
      else PutInByte bs iNumBits uValue)"
  by pat_completeness auto
termination by (relation "measure (\<lambda>(bs, n, v). n)") auto

declare PutBits_loop.simps [simp del]

definition AL_BitStreamLite_PutBits :: "BitStreamLite \<Rightarrow> nat \<Rightarrow> u32 \<Rightarrow> BitStreamLite option" where
  "AL_BitStreamLite_PutBits bs iNumBits uValue =
     (if 32 < iNumBits then None
      else if iNumBits = 32 \<or> drop_bit iNumBits uValue = 0 then PutBits_loop bs iNumBits uValue
      else None)"

definition AL_BitStreamLite_PutBit :: "BitStreamLite \<Rightarrow> u8 \<Rightarrow> BitStreamLite option" where
  "AL_BitStreamLite_PutBit bs iBit =
     (if iBit = 0 \<or> iBit = 1 then AL_BitStreamLite_PutBits bs 1 (ucast iBit) else None)"

definition AL_BitStreamLite_PutU :: "BitStreamLite \<Rightarrow> nat \<Rightarrow> u32 \<Rightarrow> BitStreamLite option" where
  "AL_BitStreamLite_PutU bs iNumBits uValue = AL_BitStreamLite_PutBits bs iNumBits uValue"

text \<open>At most seven turns reach the next byte.\<close>

fun AlignWithBits_loop :: "nat \<Rightarrow> BitStreamLite \<Rightarrow> u8 \<Rightarrow> BitStreamLite option" where
  "AlignWithBits_loop f bs iBit =
     (if bs_iBitCount bs mod 8 \<noteq> 0
      then (case f of 0 \<Rightarrow> None
        | Suc f \<Rightarrow> do { bs \<leftarrow> AL_BitStreamLite_PutBit bs iBit; AlignWithBits_loop f bs iBit })
      else Some bs)"

declare AlignWithBits_loop.simps [simp del]

definition AL_BitStreamLite_AlignWithBits :: "BitStreamLite \<Rightarrow> u8 \<Rightarrow> BitStreamLite option" where
  "AL_BitStreamLite_AlignWithBits bs iBit = AlignWithBits_loop 8 bs iBit"

definition AL_BitStreamLite_EndOfSEIPayload :: "BitStreamLite \<Rightarrow> BitStreamLite option" where
  "AL_BitStreamLite_EndOfSEIPayload bs =
     (if bs_iBitCount bs mod 8 \<noteq> 0
      then do { bs \<leftarrow> AL_BitStreamLite_PutBits bs 1 1; AL_BitStreamLite_AlignWithBits bs 0 }
      else Some bs)"

definition AL_BitStreamLite_SkipBits :: "BitStreamLite \<Rightarrow> nat \<Rightarrow> BitStreamLite" where
  "AL_BitStreamLite_SkipBits bs numBits =
     (let bs = bs\<lparr>bs_iBitCount := bs_iBitCount bs + numBits\<rparr> in
      if bs_iMaxBits bs < bs_iBitCount bs then bs\<lparr>bs_isOverflow := True\<rparr> else bs)"

text \<open>
  \<open>PutI\<close>: two's complement of \<open>iValue\<close> on \<open>iNumBits\<close> bits. The assertion is the code's: it lets
  \<open>-2^iNumBits\<close> through, one bit more than the field holds.
\<close>

definition AL_BitStreamLite_PutI :: "BitStreamLite \<Rightarrow> nat \<Rightarrow> int \<Rightarrow> BitStreamLite option" where
  "AL_BitStreamLite_PutI bs iNumBits iValue =
     (if 0 \<le> iValue then AL_BitStreamLite_PutBits bs iNumBits (word_of_int iValue)
      else let uValue = (word_of_int (- iValue) :: u32) in
        if \<not> (iNumBits = 32 \<or> drop_bit iNumBits (uValue - 1) = 0) then None
        else let uValue = NOT uValue + 1;
                 uValue = (if iNumBits \<noteq> 32 then uValue AND (push_bit iNumBits 1 - 1) else uValue) in
          AL_BitStreamLite_PutBits bs iNumBits uValue)"

text \<open>Exp-Golomb codes. \<open>31 - __builtin_clz(NN)\<close> is the index of the highest set bit.\<close>

fun msb_below :: "nat \<Rightarrow> u32 \<Rightarrow> nat" where
  "msb_below 0 v = 0"
| "msb_below (Suc n) v = (if bit v n then n else msb_below n v)"

definition bit_scan_reverse :: "u32 \<Rightarrow> nat option" where
  "bit_scan_reverse v = (if v = 0 then None else Some (msb_below 32 v))"

definition putVclBits :: "BitStreamLite \<Rightarrow> nat \<Rightarrow> u32 \<Rightarrow> BitStreamLite option" where
  "putVclBits bs uCodeLength uValue =
     (if uCodeLength = 1 then AL_BitStreamLite_PutU bs 1 1
      else do {
        let uInfoLength = (uCodeLength - 1) div 2;
        let iBits = uValue + 1 - push_bit uInfoLength 1;
        bs \<leftarrow> AL_BitStreamLite_PutBits bs uInfoLength 0;
        bs \<leftarrow> AL_BitStreamLite_PutBits bs 1 1;
        AL_BitStreamLite_PutBits bs uInfoLength iBits })"

definition AL_BitStreamLite_PutUE :: "BitStreamLite \<Rightarrow> u32 \<Rightarrow> BitStreamLite option" where
  "AL_BitStreamLite_PutUE bs uValue = do {
     k \<leftarrow> bit_scan_reverse (uValue + 1);
     putVclBits bs (1 + 2 * k) uValue }"

text \<open>The argument is computed in \<open>int32_t\<close>, which overflows from 2^30 on.\<close>

definition AL_BitStreamLite_PutSE :: "BitStreamLite \<Rightarrow> int \<Rightarrow> BitStreamLite option" where
  "AL_BitStreamLite_PutSE bs iValue =
     (if 2 ^ 30 \<le> \<bar>iValue\<bar> then None
      else AL_BitStreamLite_PutUE bs
        (word_of_int (2 * (if 0 < iValue then iValue else - iValue) - (if 0 < iValue then 1 else 0))))"

section \<open>The buffer as bits\<close>

definition bs_bits :: "BitStreamLite \<Rightarrow> bool list" where
  "bs_bits bs = take (min (bs_iBitCount bs) (bs_iMaxBits bs)) (bytes_bits (bs_pData bs))"

text \<open>The bits of the current byte that are not written yet are clear: \<open>+=\<close> then appends.\<close>

definition bs_wf :: "BitStreamLite \<Rightarrow> bool" where
  "bs_wf bs \<longleftrightarrow> bs_iMaxBits bs \<le> 8 * length (bs_pData bs) \<and> bs_iMaxBits bs mod 8 = 0
     \<and> (bs_iBitCount bs < bs_iMaxBits bs \<longrightarrow> bs_iBitCount bs mod 8 \<noteq> 0 \<longrightarrow>
         (\<forall>j < 8 - bs_iBitCount bs mod 8. \<not> bit (bs_pData bs ! (bs_iBitCount bs div 8)) j))
     \<and> (bs_isOverflow bs \<longleftrightarrow> bs_iMaxBits bs < bs_iBitCount bs)"

lemma drop_bit_0_bit: "drop_bit n v = 0 \<Longrightarrow> bit v i \<Longrightarrow> i < n" for v :: "'a::len word"
  by (metis bit_0_eq bit_drop_bit_eq bot_apply bot_bool_def comp_apply le_add_diff_inverse not_le)

lemma bit_or_byte:
  fixes b :: u8 and v :: u32
  assumes "\<And>j. j < k + n \<Longrightarrow> \<not> bit b j" "drop_bit n v = 0" "j < 8"
  shows "bit (b + ucast (push_bit k v)) j = (if k + n \<le> j then bit b j else k \<le> j \<and> bit v (j - k))"
proof -
  have dis: "\<not> bit b i \<or> \<not> bit (ucast (push_bit k v) :: u8) i" for i
    using assms(1) [of i] drop_bit_0_bit [OF assms(2), of "i - k"]
    by (auto simp: bit_ucast_iff bit_push_bit_iff less_diff_conv2)
  have "bit (b + ucast (push_bit k v)) j = (bit b j \<or> bit (ucast (push_bit k v) :: u8) j)"
    by (subst disjunctive_add_eq_or) (use dis in \<open>auto simp: bit_eq_iff bit_and_iff bit_or_iff\<close>)
  then show ?thesis
    using assms(1) [of j] drop_bit_0_bit [OF assms(2), of "j - k"] assms(3)
    by (auto simp: bit_ucast_iff bit_push_bit_iff bit_imp_le_length)
qed

lemma bit_position:
  assumes "m < 8" "q < 8" "q + n \<le> (8::nat)" "8 * k + m < 8 * k + q + n"
  shows "8 - q \<le> 7 - m \<longleftrightarrow> 8 * k + m < 8 * k + q"
    and "\<not> 8 * k + m < 8 * k + q \<Longrightarrow> 8 - q - n \<le> 7 - m \<and> 7 - m - (8 - q - n) = n - 1 - (8 * k + m - (8 * k + q))"
  using assms by arith+

lemma byte_index:
  assumes "i < c + n" "c mod 8 + n \<le> 8" "i div 8 \<noteq> c div 8"
  shows "i < (c::nat)"
proof (rule ccontr)
  assume "\<not> i < c"
  then have "c div 8 \<le> i div 8" by (intro div_le_mono) simp
  moreover have "i < Suc (c div 8) * 8"
  proof -
    obtain k m where "c div 8 = k" "c mod 8 = m" "c = 8 * k + m" by (metis mult_div_mod_eq)
    then show ?thesis using assms(1,2) by (simp add: mult.commute)
  qed
  then have "i div 8 < Suc (c div 8)" by (rule less_mult_imp_div_less)
  ultimately show False using assms(3) by simp
qed

lemma writeData_bits:
  assumes wf: "bs_wf bs" and fit: "bs_iBitCount bs mod 8 + n \<le> 8" "bs_iBitCount bs + n \<le> bs_iMaxBits bs"
    "bs_iBitCount bs < bs_iMaxBits bs"
    and v: "bs_iBitCount bs mod 8 = 0 \<or> drop_bit n v = 0"
  obtains d where "writeData bs n v = Some (bs\<lparr>bs_pData := d\<rparr>)" "length d = length (bs_pData bs)"
    "take (bs_iBitCount bs + n) (bytes_bits d) = take (bs_iBitCount bs) (bytes_bits (bs_pData bs)) @ nbits n v"
    "\<And>j. j < 8 - bs_iBitCount bs mod 8 - n \<Longrightarrow> \<not> bit (d ! (bs_iBitCount bs div 8)) j"
proof -
  let ?c = "bs_iBitCount bs" and ?d = "bs_pData bs"
  let ?k = "?c div 8" and ?o = "?c mod 8"
  have k: "?k < length ?d" using wf fit(3) by (auto simp: bs_wf_def)
  let ?b = "if ?o = 0 then ucast (push_bit (8 - n) v) else ?d ! ?k + ucast (push_bit (8 - ?o - n) v)"
  have run: "writeData bs n v = Some (bs\<lparr>bs_pData := ?d[?k := ?b]\<rparr>)"
    using fit(1) k by (simp add: writeData_def Let_def)
  have b: "bit ?b j = (if 8 - ?o \<le> j then bit (?d ! ?k) j else 8 - ?o - n \<le> j \<and> bit v (j - (8 - ?o - n)))"
    if "j < 8" for j
  proof (cases "?o = 0")
    case True
    then show ?thesis using that by (auto simp: bit_ucast_iff bit_push_bit_iff bit_imp_le_length)
  next
    case False
    have "bit (?d ! ?k + ucast (push_bit (8 - ?o - n) v)) j =
        (if 8 - ?o - n + n \<le> j then bit (?d ! ?k) j else 8 - ?o - n \<le> j \<and> bit v (j - (8 - ?o - n)))"
      by (rule bit_or_byte) (use wf fit v False that in \<open>auto simp: bs_wf_def\<close>)
    then show ?thesis using False fit(1) by simp
  qed
  show thesis
  proof (rule that [OF run])
    show "length (?d[?k := ?b]) = length ?d" by simp
    show "\<not> bit (?d[?k := ?b] ! ?k) j" if "j < 8 - ?o - n" for j
      using b [of j] that k by auto
    have lim: "?c + n \<le> 8 * length ?d" using wf fit(2) by (simp add: bs_wf_def)
    show "take (?c + n) (bytes_bits (?d[?k := ?b])) = take ?c (bytes_bits ?d) @ nbits n v"
    proof (rule nth_equalityI)
      show "length (take (?c + n) (bytes_bits (?d[?k := ?b]))) = length (take ?c (bytes_bits ?d) @ nbits n v)"
        using lim by simp
      fix i assume "i < length (take (?c + n) (bytes_bits (?d[?k := ?b])))"
      then have i: "i < ?c + n" "i < 8 * length ?d" using lim by auto
      have cs: "?c = 8 * ?k + ?o" by simp
      show "take (?c + n) (bytes_bits (?d[?k := ?b])) ! i = (take ?c (bytes_bits ?d) @ nbits n v) ! i"
      proof (cases "i div 8 = ?k")
        case True
        then have r: "i = 8 * ?k + i mod 8" by (metis mult_div_mod_eq)
        have "bytes_bits (?d[?k := ?b]) ! i = bit ?b (7 - i mod 8)"
          using bytes_bits_nth [of i "?d[?k := ?b]"] i(2) True k by simp
        also have "\<dots> = (if i < ?c then bit (?d ! ?k) (7 - i mod 8) else bit v (n - 1 - (i - ?c)))"
        proof -
          have p: "i mod 8 < 8" "?o < 8" "?o + n \<le> 8" "8 * ?k + i mod 8 < 8 * ?k + ?o + n"
            using i(1) fit(1) r cs by auto
          note bp = bit_position [OF p, folded r, unfolded mult_div_mod_eq]
          have "bit ?b (7 - i mod 8) = (if 8 - ?o \<le> 7 - i mod 8 then bit (?d ! ?k) (7 - i mod 8)
              else 8 - ?o - n \<le> 7 - i mod 8 \<and> bit v (7 - i mod 8 - (8 - ?o - n)))"
            by (rule b) simp
          then show ?thesis using bp by (cases "i < ?c") simp_all
        qed
        finally show ?thesis using i True bytes_bits_nth [of i ?d] lim by (simp add: nth_append)
      next
        case False
        then have "i < ?c" by (rule byte_index [OF i(1) fit(1)])
        then show ?thesis
          using i False bytes_bits_nth [of i ?d] bytes_bits_nth [of i "?d[?k := ?b]"] lim by (simp add: nth_append)
      qed
    qed
  qed
qed

section \<open>What the writers append\<close>

text \<open>
  \<open>appends bs xs bs'\<close>: the bits \<open>xs\<close> follow those of \<open>bs\<close>, as far as the buffer goes. Past
  the end the position still advances, so that the caller learns the size it would have needed.
\<close>

definition appends :: "BitStreamLite \<Rightarrow> bool list \<Rightarrow> BitStreamLite \<Rightarrow> bool" where
  "appends bs xs bs' \<longleftrightarrow> bs_wf bs' \<and> length (bs_pData bs') = length (bs_pData bs)
     \<and> bs_iMaxBits bs' = bs_iMaxBits bs \<and> bs_iBitCount bs' = bs_iBitCount bs + length xs
     \<and> bs_bits bs' = take (bs_iMaxBits bs) (bs_bits bs @ xs)"

lemma length_bs_bits: "bs_wf bs \<Longrightarrow> length (bs_bits bs) = min (bs_iBitCount bs) (bs_iMaxBits bs)"
  by (auto simp: bs_bits_def bs_wf_def)

lemma appends_refl: "bs_wf bs \<Longrightarrow> appends bs [] bs"
  by (auto simp: appends_def length_bs_bits)

lemma appends_wf: "appends bs xs bs' \<Longrightarrow> bs_wf bs'"
  by (simp add: appends_def)

lemma appends_count: "appends bs xs bs' \<Longrightarrow> bs_iBitCount bs' = bs_iBitCount bs + length xs"
  by (simp add: appends_def)

lemma appends_max: "appends bs xs bs' \<Longrightarrow> bs_iMaxBits bs' = bs_iMaxBits bs"
  by (simp add: appends_def)

lemma take_take_append: "take m (take m xs @ ys) = take m (xs @ ys)"
  by (cases "length xs \<le> m") auto

lemma appends_trans:
  assumes "appends bs xs bs1" "appends bs1 ys bs2"
  shows "appends bs (xs @ ys) bs2"
  using assms take_take_append [of "bs_iMaxBits bs" "bs_bits bs @ xs" ys] by (auto simp: appends_def)

lemma complete_byte: "(c + (8 - c mod 8)) mod 8 = (0 :: nat)"
proof -
  obtain k m where km: "c mod 8 = m" "c = 8 * k + m" "m < 8"
    by (metis mod_less_divisor mult_div_mod_eq zero_less_numeral)
  then have "c + (8 - c mod 8) = 8 * Suc k" by simp
  then show ?thesis by (metis mod_mult_self1_is_0)
qed

lemma whole_bytes: "c mod 8 + n \<le> 8 \<Longrightarrow> (m::nat) mod 8 = 0 \<Longrightarrow> c < m \<Longrightarrow> c + n \<le> m"
  by presburger

lemma PutInByte_appends:
  assumes wf: "bs_wf bs" and n: "0 < n \<or> bs_iBitCount bs \<noteq> bs_iMaxBits bs"
    and fit: "bs_iBitCount bs mod 8 + n \<le> 8"
    and v: "bs_iBitCount bs mod 8 = 0 \<or> drop_bit n v = 0"
  shows "\<exists>bs'. PutInByte bs n v = Some bs' \<and> appends bs (nbits n v) bs'"
proof -
  let ?c = "bs_iBitCount bs" and ?m = "bs_iMaxBits bs"
  have m8: "?m mod 8 = 0" using wf by (simp add: bs_wf_def)
  show ?thesis
  proof (cases "?c + n \<le> ?m")
    case True
    then have c: "?c < ?m" using n by auto
    obtain d where d: "writeData bs n v = Some (bs\<lparr>bs_pData := d\<rparr>)" "length d = length (bs_pData bs)"
      "take (?c + n) (bytes_bits d) = take ?c (bytes_bits (bs_pData bs)) @ nbits n v"
      "\<And>j. j < 8 - ?c mod 8 - n \<Longrightarrow> \<not> bit (d ! (?c div 8)) j"
      using writeData_bits [OF wf fit True c v] by blast
    let ?bs = "bs\<lparr>bs_pData := d, bs_iBitCount := ?c + n\<rparr>"
    have run: "PutInByte bs n v = Some ?bs" using d(1) True by (simp add: PutInByte_def)
    have same: "(?c + n) mod 8 = ?c mod 8 + n \<and> (?c + n) div 8 = ?c div 8" if "(?c + n) mod 8 \<noteq> 0"
    proof -
      have "?c mod 8 + n \<noteq> 8" using that by (metis mod_add_left_eq mod_self)
      then have "?c mod 8 + n < 8" using fit by simp
      then show ?thesis using mod_add_left_eq [of ?c 8 n] div_add1_eq [of ?c n 8] by simp
    qed
    have "bs_wf ?bs"
      using wf d(2,4) same True by (auto simp: bs_wf_def)
    moreover have "bs_bits ?bs = take ?m (bs_bits bs @ nbits n v)"
      using d(3) True c wf by (simp add: bs_bits_def bs_wf_def)
    ultimately show ?thesis using run d(2) by (auto simp: appends_def)
  next
    case False
    then have c: "\<not> ?c < ?m" using whole_bytes [OF fit m8] by auto
    let ?bs = "bs\<lparr>bs_isOverflow := True, bs_iBitCount := ?c + n\<rparr>"
    have run: "PutInByte bs n v = Some ?bs" using False by (simp add: PutInByte_def)
    have "bs_wf ?bs" using wf False by (auto simp: bs_wf_def)
    moreover have "bs_bits ?bs = take ?m (bs_bits bs @ nbits n v)"
      using c wf length_bs_bits [OF wf] by (auto simp: bs_bits_def min_def)
    ultimately show ?thesis using run by (auto simp: appends_def)
  qed
qed

lemma PutBits_loop_appends:
  assumes "bs_wf bs" "0 < n \<or> bs_iBitCount bs \<noteq> bs_iMaxBits bs" "n \<le> 32"
    "bs_iBitCount bs mod 8 = 0 \<or> drop_bit n v = 0"
  shows "\<exists>bs'. PutBits_loop bs n v = Some bs' \<and> appends bs (nbits n v) bs'"
  using assms
proof (induction n arbitrary: bs v rule: less_induct)
  case (less n)
  let ?w = "8 - bs_iBitCount bs mod 8"
  show ?case
  proof (cases "?w < n")
    case False
    have "bs_iBitCount bs mod 8 < 8" by simp
    then have "bs_iBitCount bs mod 8 + n \<le> 8" using False by linarith
    from PutInByte_appends [OF less.prems(1,2) this less.prems(4)] show ?thesis
      using False by (subst PutBits_loop.simps) (simp add: Let_def)
  next
    case True
    let ?x = "ucast (ucast (drop_bit (n - ?w) v) :: u8) :: u32"
    have w: "0 < ?w" "?w \<le> 8" "bs_iBitCount bs mod 8 + ?w \<le> 8" by simp_all
    have small: "bs_iBitCount bs mod 8 = 0 \<or> drop_bit ?w ?x = 0"
    proof (cases "bs_iBitCount bs mod 8 = 0")
      case False
      then have "drop_bit n v = 0" using less.prems(4) by simp
      then have "\<not> bit v (n + i)" for i using drop_bit_0_bit [of n v] by fastforce
      then have "drop_bit ?w ?x = 0"
        using True by (auto simp: bit_eq_iff bit_drop_bit_eq bit_ucast_iff)
      then show ?thesis by simp
    qed simp
    have "0 < ?w \<or> bs_iBitCount bs \<noteq> bs_iMaxBits bs" using w(1) by blast
    from PutInByte_appends [OF less.prems(1) this w(3) small]
    obtain bs1 where bs1: "PutInByte bs ?w ?x = Some bs1" "appends bs (nbits ?w ?x) bs1" by blast
    have c1: "bs_iBitCount bs1 = bs_iBitCount bs + ?w" using bs1(2) by (simp add: appends_def)
    have r: "n - ?w < n" "0 < n - ?w \<or> bs_iBitCount bs1 \<noteq> bs_iMaxBits bs1" "n - ?w \<le> 32"
      using True w(1) less.prems(3) by linarith+
    have al: "bs_iBitCount bs1 mod 8 = 0" unfolding c1 by (rule complete_byte)
    from less.IH [OF r(1) appends_wf [OF bs1(2)] r(2,3) disjI1 [OF al], of "v AND drop_bit ?w 0xffffffff"]
    obtain bs2 where bs2:
      "PutBits_loop bs1 (n - ?w) (v AND drop_bit ?w 0xffffffff) = Some bs2"
      "appends bs1 (nbits (n - ?w) (v AND drop_bit ?w 0xffffffff)) bs2"
      by (elim exE conjE)
    have mask: "(0xffffffff :: u32) = -1" by simp
    have "nbits (n - ?w) (v AND drop_bit ?w 0xffffffff) = nbits (n - ?w) v"
      by (rule nbits_mask) (use less.prems(3) True in \<open>auto simp: mask bit_mask_iff\<close>)
    moreover have "nbits ?w ?x = nbits ?w (drop_bit (n - ?w) v)"
      using w(2) by (simp add: nbits_ucast)
    ultimately have "appends bs (nbits n v) bs2"
      using appends_trans [OF bs1(2) bs2(2)] nbits_split [of ?w n v] True by simp
    moreover have "PutBits_loop bs n v = Some bs2"
      using True bs1(1) bs2(1) by (subst PutBits_loop.simps) (simp add: Let_def)
    ultimately show ?thesis by blast
  qed
qed

lemma PutBits_appends:
  assumes "bs_wf bs" "0 < n" "n \<le> 32" "drop_bit n v = 0"
  shows "\<exists>bs'. AL_BitStreamLite_PutBits bs n v = Some bs' \<and> appends bs (nbits n v) bs'"
  using PutBits_loop_appends [of bs n v] assms by (simp add: AL_BitStreamLite_PutBits_def)

text \<open>
  A writer and the bits it stands for, which may depend on the position (alignment). Writers
  compose as the bits concatenate.
\<close>

definition writes :: "(BitStreamLite \<Rightarrow> BitStreamLite option) \<Rightarrow> (nat \<Rightarrow> bool list) \<Rightarrow> bool" where
  "writes f X \<longleftrightarrow> (\<forall>bs. bs_wf bs \<longrightarrow> (\<exists>bs'. f bs = Some bs' \<and> appends bs (X (bs_iBitCount bs)) bs'))"

lemma writesD: "writes f X \<Longrightarrow> bs_wf bs \<Longrightarrow> \<exists>bs'. f bs = Some bs' \<and> appends bs (X (bs_iBitCount bs)) bs'"
  by (simp add: writes_def)

lemma writesE:
  assumes "writes f X" "bs_wf bs"
  obtains bs' where "f bs = Some bs'" "appends bs (X (bs_iBitCount bs)) bs'"
  using writesD [OF assms] by blast

lemma writes_Some: "writes Some (\<lambda>_. [])"
  by (simp add: writes_def appends_refl)

lemma writes_bind:
  assumes "writes f X" "writes g Y"
  shows "writes (\<lambda>bs. do { bs \<leftarrow> f bs; g bs }) (\<lambda>c. X c @ Y (c + length (X c)))"
  unfolding writes_def
proof (intro allI impI)
  fix bs assume "bs_wf bs"
  then obtain bs1 where 1: "f bs = Some bs1" "appends bs (X (bs_iBitCount bs)) bs1"
    using writesE [OF assms(1)] by blast
  then obtain bs2 where 2: "g bs1 = Some bs2" "appends bs1 (Y (bs_iBitCount bs1)) bs2"
    using writesE [OF assms(2) appends_wf] by blast
  then show "\<exists>bs'. do { bs \<leftarrow> f bs; g bs } = Some bs' \<and>
      appends bs (X (bs_iBitCount bs) @ Y (bs_iBitCount bs + length (X (bs_iBitCount bs)))) bs'"
    using 1 appends_trans [OF 1(2) 2(2)] by (simp add: appends_count)
qed

lemma writes_cong: "writes f X \<Longrightarrow> (\<And>c. X c = Y c) \<Longrightarrow> writes f Y"
  by (metis writes_def)

lemma writes_bits:
  "0 < n \<Longrightarrow> n \<le> 32 \<Longrightarrow> drop_bit n v = 0 \<Longrightarrow> writes (\<lambda>bs. AL_BitStreamLite_PutBits bs n v) (\<lambda>_. nbits n v)"
  by (simp add: writes_def PutBits_appends)

lemma writes_u:
  "0 < n \<Longrightarrow> n \<le> 32 \<Longrightarrow> drop_bit n v = 0 \<Longrightarrow> writes (\<lambda>bs. AL_BitStreamLite_PutU bs n v) (\<lambda>_. nbits n v)"
  by (simp add: writes_bits AL_BitStreamLite_PutU_def)

lemma nbits_1: "nbits (Suc 0) v = [bit v 0]"
  by (simp add: nbits_def)

lemma writes_bit: "b = 0 \<or> b = 1 \<Longrightarrow> writes (\<lambda>bs. AL_BitStreamLite_PutBit bs b) (\<lambda>_. [b = 1])"
  using writes_bits [of 1 "ucast b"] by (auto simp: AL_BitStreamLite_PutBit_def nbits_1)

text \<open>Alignment.\<close>

definition align_bits :: "bool \<Rightarrow> nat \<Rightarrow> bool list" where
  "align_bits b c = (if c mod 8 = 0 then [] else replicate (8 - c mod 8) b)"

lemma align_bits_0 [simp]: "c mod 8 = 0 \<Longrightarrow> align_bits b c = []"
  by (simp add: align_bits_def)

lemma align_bits_Cons: "c mod 8 \<noteq> 0 \<Longrightarrow> align_bits b c = b # align_bits b (Suc c)"
proof -
  assume c: "c mod 8 \<noteq> 0"
  have "8 - c mod 8 = Suc (7 - c mod 8)" using mod_less_divisor [of 8 c] by linarith
  then show ?thesis using c by (simp add: align_bits_def mod_Suc)
qed

lemma length_align_bits: "length (align_bits b c) \<le> 8"
  by (simp add: align_bits_def)

lemma align_aligned: "(c + length (align_bits b c)) mod 8 = 0"
  using complete_byte by (simp add: align_bits_def)

lemma AlignWithBits_loop_appends:
  assumes "bs_wf bs" "b = 0 \<or> b = 1" "length (align_bits (b = 1) (bs_iBitCount bs)) \<le> f"
  shows "\<exists>bs'. AlignWithBits_loop f bs b = Some bs' \<and> appends bs (align_bits (b = 1) (bs_iBitCount bs)) bs'"
  using assms
proof (induction f arbitrary: bs)
  case 0
  then have "bs_iBitCount bs mod 8 = 0"
    using mod_less_divisor [of 8 "bs_iBitCount bs"] by (auto simp: align_bits_def split: if_splits)
  then show ?case using 0 by (subst AlignWithBits_loop.simps) (simp add: appends_refl)
next
  case (Suc f)
  show ?case
  proof (cases "bs_iBitCount bs mod 8 = 0")
    case True
    then show ?thesis using Suc.prems by (subst AlignWithBits_loop.simps) (simp add: appends_refl)
  next
    case False
    obtain bs1 where 1: "AL_BitStreamLite_PutBit bs b = Some bs1" "appends bs [b = 1] bs1"
      using writesE [OF writes_bit [OF assms(2)] Suc.prems(1)] by blast
    note c = align_bits_Cons [OF False, of "b = 1"]
    obtain bs2 where 2: "AlignWithBits_loop f bs1 b = Some bs2"
      "appends bs1 (align_bits (b = 1) (bs_iBitCount bs1)) bs2"
      using Suc.IH [OF appends_wf [OF 1(2)] assms(2)] Suc.prems(3) appends_count [OF 1(2)] c by auto
    have "appends bs (align_bits (b = 1) (bs_iBitCount bs)) bs2"
      using appends_trans [OF 1(2) 2(2)] appends_count [OF 1(2)] c by simp
    then show ?thesis using False 1(1) 2(1) by (subst AlignWithBits_loop.simps) simp
  qed
qed

lemma writes_align: "b = 0 \<or> b = 1 \<Longrightarrow> writes (\<lambda>bs. AL_BitStreamLite_AlignWithBits bs b) (align_bits (b = 1))"
  unfolding writes_def AL_BitStreamLite_AlignWithBits_def
  using AlignWithBits_loop_appends length_align_bits by blast

definition sei_end_bits :: "nat \<Rightarrow> bool list" where
  "sei_end_bits c = (if c mod 8 = 0 then [] else True # align_bits False (Suc c))"

lemma writes_EndOfSEIPayload: "writes AL_BitStreamLite_EndOfSEIPayload sei_end_bits"
proof -
  have "writes (\<lambda>bs. do { bs \<leftarrow> AL_BitStreamLite_PutBits bs 1 1; AL_BitStreamLite_AlignWithBits bs 0 })
      (\<lambda>c. True # align_bits False (Suc c))"
    by (rule writes_cong [OF writes_bind [OF writes_bits [of 1 1] writes_align [of 0]]])
      (simp_all add: nbits_1 drop_bit_Suc)
  then show ?thesis
    by (auto simp: writes_def AL_BitStreamLite_EndOfSEIPayload_def sei_end_bits_def appends_refl)
qed

section \<open>Exp-Golomb codes\<close>

lemma msb_below_spec:
  assumes "\<exists>i<n. bit v i"
  shows "msb_below n v < n \<and> bit v (msb_below n v) \<and> (\<forall>i. msb_below n v < i \<longrightarrow> i < n \<longrightarrow> \<not> bit v i)"
  using assms by (induction n) (auto simp: less_Suc_eq)

lemma msb_32:
  fixes v :: u32
  assumes "v \<noteq> 0"
  shows "msb_below 32 v < 32" "bit v (msb_below 32 v)" "msb_below 32 v < i \<Longrightarrow> \<not> bit v i"
proof -
  have "\<exists>j<32. bit v j" using assms bit_imp_le_length [of v] by (auto simp: bit_eq_iff)
  note s = msb_below_spec [OF this]
  show "msb_below 32 v < 32" "bit v (msb_below 32 v)" using s by auto
  show "\<not> bit v i" if "msb_below 32 v < i" using s that bit_imp_le_length [of v i] by auto
qed

text \<open>The number of leading zeros repeats the number of bits that follow the leading one.\<close>

definition ue_bits :: "u32 \<Rightarrow> bool list" where
  "ue_bits v = (let k = msb_below 32 (v + 1) in replicate k False @ True # nbits k (v + 1))"

lemma msb_minus:
  fixes x :: u32
  assumes "bit x k" "\<And>i. k < i \<Longrightarrow> \<not> bit x i"
  shows "x - push_bit k 1 = take_bit k x"
proof -
  have k: "k < 32" using bit_imp_le_length [OF assms(1)] by simp
  have "push_bit k 1 + take_bit k x = (push_bit k 1 OR take_bit k x :: u32)"
    by (rule disjunctive_add_eq_or) (rule bit_eqI, auto simp: bit_and_iff bit_push_bit_iff bit_take_bit_iff bit_1_iff bit_exp_iff)
  also have "\<dots> = x"
  proof (rule bit_eqI)
    fix j show "bit (push_bit k 1 OR take_bit k x) j = bit x j"
      using assms k by (cases j k rule: linorder_cases)
        (auto simp: bit_or_iff bit_push_bit_iff bit_take_bit_iff bit_1_iff bit_exp_iff)
  qed
  finally show ?thesis by (metis add_diff_cancel_left')
qed

lemma nbits_zero: "nbits n (0 :: 'a::len word) = replicate n False"
  by (rule nth_equalityI) simp_all

lemma writes_ue:
  assumes "v + 1 \<noteq> 0"
  shows "writes (\<lambda>bs. AL_BitStreamLite_PutUE bs v) (\<lambda>_. ue_bits v)"
proof -
  let ?x = "v + 1"
  let ?k = "msb_below 32 ?x"
  note k = msb_32 [OF assms]
  have scan: "bit_scan_reverse ?x = Some ?k" using assms by (simp add: bit_scan_reverse_def)
  show ?thesis
  proof (cases "?k = 0")
    case True
    have "writes (\<lambda>bs. AL_BitStreamLite_PutU bs 1 1) (\<lambda>_. nbits 1 (1 :: u32))"
      by (rule writes_u) (simp_all add: drop_bit_Suc)
    moreover have "ue_bits v = nbits 1 (1 :: u32)" using True by (simp add: ue_bits_def Let_def nbits_1)
    ultimately show ?thesis using True scan by (simp add: AL_BitStreamLite_PutUE_def putVclBits_def)
  next
    case False
    have low: "?x - push_bit ?k 1 = take_bit ?k ?x" using msb_minus k(2,3) by blast
    have "writes (\<lambda>bs. do { bs \<leftarrow> AL_BitStreamLite_PutBits bs ?k 0; bs \<leftarrow> AL_BitStreamLite_PutBits bs 1 1;
        AL_BitStreamLite_PutBits bs ?k (take_bit ?k ?x) }) (\<lambda>_. ue_bits v)"
    proof (rule writes_cong [OF writes_bind [OF writes_bits writes_bind [OF writes_bits writes_bits]]])
      show "drop_bit ?k (take_bit ?k ?x) = 0" by (rule bit_eqI) (simp add: bit_drop_bit_eq bit_take_bit_iff)
      have "nbits ?k (take_bit ?k ?x) = nbits ?k ?x" by (rule nbits_cong) (simp add: bit_take_bit_iff)
      then show "nbits ?k (0 :: u32) @ nbits 1 (1 :: u32) @ nbits ?k (take_bit ?k ?x) = ue_bits v" for c :: nat
        by (simp add: ue_bits_def Let_def nbits_1 nbits_zero)
    qed (use False k(1) in \<open>simp_all add: drop_bit_Suc\<close>)
    then show ?thesis
      using False scan low by (simp add: AL_BitStreamLite_PutUE_def putVclBits_def Let_def)
  qed
qed

text \<open>Signed codes: 1, -1, 2, -2, ... are numbered 1, 2, 3, 4, ...\<close>

definition se_code :: "int \<Rightarrow> int" where
  "se_code i = (if 0 < i then 2 * i - 1 else - 2 * i)"

lemma writes_se:
  assumes "\<bar>i\<bar> < 2 ^ 30"
  shows "writes (\<lambda>bs. AL_BitStreamLite_PutSE bs i) (\<lambda>_. ue_bits (word_of_int (se_code i)))"
proof -
  have "0 \<le> se_code i" "se_code i < 2 ^ 32 - 1" using assms by (auto simp: se_code_def)
  then have "(word_of_int (se_code i + 1) :: u32) \<noteq> 0"
    by (subst word_of_int_eq_0_iff) (auto dest: zdvd_imp_le)
  then have "(word_of_int (se_code i) + 1 :: u32) \<noteq> 0" by simp
  from writes_ue [OF this] show ?thesis
    using assms by (simp add: writes_def AL_BitStreamLite_PutSE_def se_code_def split: if_splits)
qed

text \<open>\<open>PutI\<close> writes the low bits of the two's complement.\<close>

lemma writes_i:
  assumes "0 < n" "n \<le> 32" "- (2 ^ (n - 1)) \<le> i" "i < 2 ^ (n - 1)"
  shows "writes (\<lambda>bs. AL_BitStreamLite_PutI bs n i) (\<lambda>_. nbits n (word_of_int i :: u32))"
proof (cases "0 \<le> i")
  case True
  have "drop_bit n (word_of_int i :: u32) = 0"
  proof (rule bit_eqI)
    fix j assume "possible_bit TYPE(u32) j"
    have "i < 2 ^ (n + j)"
      using assms(4) power_increasing [of "n - 1" "n + j" "2 :: int"] by linarith
    then have "\<not> bit i (n + j)" using True by (simp add: bit_iff_odd)
    then show "bit (drop_bit n (word_of_int i :: u32)) j = bit (0 :: u32) j"
      by (simp add: bit_drop_bit_eq bit_word_of_int_iff)
  qed
  then show ?thesis using writes_bits [OF assms(1,2)] True by (simp add: AL_BitStreamLite_PutI_def)
next
  case False
  let ?u = "word_of_int (- i) :: u32"
  have neg: "NOT ?u + 1 = (word_of_int i :: u32)" by (simp flip: minus_eq_not_plus_1)
  have "drop_bit n (?u - 1) = 0"
  proof (rule bit_eqI)
    fix j assume "possible_bit TYPE(u32) j"
    have "- i - 1 < 2 ^ (n + j)"
      using assms(3) power_increasing [of "n - 1" "n + j" "2 :: int"] by linarith
    then have "\<not> bit (- i - 1) (n + j)" using False by (simp add: bit_iff_odd)
    moreover have "?u - 1 = word_of_int (- i - 1)" by simp
    ultimately show "bit (drop_bit n (?u - 1)) j = bit (0 :: u32) j"
      by (simp only: bit_drop_bit_eq bit_word_of_int_iff comp_def) simp
  qed
  moreover have "writes (\<lambda>bs. AL_BitStreamLite_PutBits bs n
      (if n \<noteq> 32 then word_of_int i AND (push_bit n 1 - 1) else word_of_int i)) (\<lambda>_. nbits n (word_of_int i :: u32))"
  proof (cases "n = 32")
    case True
    then show ?thesis using writes_bits [of 32 "word_of_int i"] by simp
  next
    case False
    have m: "(push_bit n 1 - 1 :: u32) = mask n" by (simp add: mask_eq_exp_minus_1 push_bit_eq_mult)
    have "drop_bit n (word_of_int i AND mask n :: u32) = 0"
      by (rule bit_eqI) (simp add: bit_drop_bit_eq bit_and_iff bit_mask_iff)
    moreover have "nbits n (word_of_int i AND mask n :: u32) = nbits n (word_of_int i :: u32)"
      by (rule nbits_mask) (use assms(2) in \<open>simp add: bit_mask_iff\<close>)
    ultimately show ?thesis
      using writes_bits [OF assms(1,2), of "word_of_int i AND mask n"] False m by simp
  qed
  ultimately show ?thesis using False neg by (simp add: AL_BitStreamLite_PutI_def Let_def)
qed

section \<open>Properties\<close>

text \<open>
  C8 \<open>AL_BitStreamLite_PutBits\<close> appends the \<open>n\<close> bits of its value, most significant first,
  whatever the position in the current byte, and touches no bit written before. At the end of the
  buffer it writes what still fits, never beyond, keeps counting, and sets \<open>isOverflow\<close> exactly when
  the bits did not fit.
\<close>

theorem putbits_appends:
  assumes "bs_wf bs" "0 < n" "n \<le> 32" "drop_bit n v = 0"
  shows "\<exists>bs'. AL_BitStreamLite_PutBits bs n v = Some bs' \<and> bs_wf bs'
    \<and> bs_bits bs' = take (bs_iMaxBits bs) (bs_bits bs @ nbits n v)
    \<and> bs_iBitCount bs' = bs_iBitCount bs + n
    \<and> (bs_isOverflow bs' \<longleftrightarrow> bs_iMaxBits bs < bs_iBitCount bs + n)
    \<and> length (bs_pData bs') = length (bs_pData bs)"
  using PutBits_appends [OF assms] by (fastforce simp: appends_def bs_wf_def)

theorem putbits_appends_witness:
  "\<exists>bs'. AL_BitStreamLite_PutBits (AL_BitStreamLite_Init [0, 0] 2) 12 0xabc = Some bs'
     \<and> bs_bits bs' = nbits 12 (0xabc :: u32)"
proof -
  have "bs_wf (AL_BitStreamLite_Init [0, 0] 2)" by (simp add: bs_wf_def AL_BitStreamLite_Init_def)
  from putbits_appends [OF this, of 12 "0xabc"] show ?thesis
    by (auto simp: AL_BitStreamLite_Init_def bs_bits_def)
qed

text \<open>
  C7 The variable-length writers append their code: \<open>PutUE\<close> the exp-Golomb code of every value
  below 2^32 - 1, \<open>PutSE\<close> the code of the signed value mapped to 1, -1, 2, -2, ..., \<open>PutI\<close> the
  two's complement on \<open>n\<close> bits, \<open>AlignWithBits\<close> up to seven copies of its bit, and the end of a
  supplemental payload a one and zeros up to the next byte, or nothing when aligned.
\<close>

theorem variable_writers_append:
  assumes "v + 1 \<noteq> 0" "\<bar>i\<bar> < 2 ^ 30" "0 < n" "n \<le> 32" "- (2 ^ (n - 1)) \<le> k" "k < 2 ^ (n - 1)"
    and "b = 0 \<or> b = 1"
  shows "writes (\<lambda>bs. AL_BitStreamLite_PutUE bs v) (\<lambda>_. ue_bits v)
    \<and> writes (\<lambda>bs. AL_BitStreamLite_PutSE bs i) (\<lambda>_. ue_bits (word_of_int (se_code i)))
    \<and> writes (\<lambda>bs. AL_BitStreamLite_PutI bs n k) (\<lambda>_. nbits n (word_of_int k :: u32))
    \<and> writes (\<lambda>bs. AL_BitStreamLite_AlignWithBits bs b) (align_bits (b = 1))
    \<and> writes AL_BitStreamLite_EndOfSEIPayload sei_end_bits"
  using writes_ue [OF assms(1)] writes_se [OF assms(2)] writes_i [OF assms(3-6)] writes_align [OF assms(7)]
    writes_EndOfSEIPayload by blast

theorem variable_writers_append_witness:
  "\<exists>bs'. AL_BitStreamLite_PutSE (AL_BitStreamLite_Init [0] 1) (-3) = Some bs'
     \<and> bs_bits bs' = [False, False, True, True, True]"
proof -
  have wf: "bs_wf (AL_BitStreamLite_Init [0] 1)" by (simp add: bs_wf_def AL_BitStreamLite_Init_def)
  have "writes (\<lambda>bs. AL_BitStreamLite_PutSE bs (-3)) (\<lambda>_. ue_bits (word_of_int (se_code (-3))))"
    using variable_writers_append [of 0 "-3" 1 0 0] by simp
  from writesD [OF this wf] show ?thesis
    by (auto simp: appends_def AL_BitStreamLite_Init_def bs_bits_def se_code_def ue_bits_def nbits_def
        numeral_eq_Suc Let_def)
qed

end
