(* ===== verification/Nal_Stream.thy ===== *)
theory Nal_Stream
  imports Bit_Stream
begin

text \<open>
  NAL units on the wire: the start codes of the two writers (\<open>AVC_RbspEncod.c\<close>,
  \<open>HEVC_RbspEncod.c\<close>), the emulation prevention of \<open>lib_encode/IP_Stream.c\<close>, filler data, and
  \<open>WriteNal\<close> of \<open>ITU_Section.c\<close>; the escape code read back by the automaton of the decoder's
  \<open>RbspParser.c\<close>.
\<close>

section \<open>Start codes\<close>

datatype AL_EStartCodeBytesAlignedMode =
  AL_START_CODE_AUTO | AL_START_CODE_3_BYTES | AL_START_CODE_4_BYTES | AL_START_CODE_MAX_ENUM

definition AVC_isForce4BytesCode :: "AL_EStartCodeBytesAlignedMode \<Rightarrow> nat \<Rightarrow> bool" where
  "AVC_isForce4BytesCode eMode nut =
     (case eMode of AL_START_CODE_AUTO \<Rightarrow> 6 \<le> nut \<and> nut < 24
      | AL_START_CODE_3_BYTES \<Rightarrow> False
      | AL_START_CODE_4_BYTES \<Rightarrow> True
      | _ \<Rightarrow> 6 \<le> nut \<and> nut < 24)"

definition HEVC_isForce4BytesCode :: "AL_EStartCodeBytesAlignedMode \<Rightarrow> nat \<Rightarrow> bool" where
  "HEVC_isForce4BytesCode eMode nut =
     (case eMode of AL_START_CODE_AUTO \<Rightarrow> 32 \<le> nut \<and> nut \<le> 40
      | AL_START_CODE_3_BYTES \<Rightarrow> False
      | AL_START_CODE_4_BYTES \<Rightarrow> True
      | _ \<Rightarrow> 32 \<le> nut \<and> nut \<le> 40)"

definition put_start_code :: "bool \<Rightarrow> BitStreamLite \<Rightarrow> BitStreamLite option" where
  "put_start_code four bs = do {
     bs \<leftarrow> (if four then AL_BitStreamLite_PutBits bs 8 0 else Some bs);
     bs \<leftarrow> AL_BitStreamLite_PutBits bs 8 0;
     bs \<leftarrow> AL_BitStreamLite_PutBits bs 8 0;
     AL_BitStreamLite_PutBits bs 8 1 }"

definition AVC_writeStartCode :: "BitStreamLite \<Rightarrow> nat \<Rightarrow> AL_EStartCodeBytesAlignedMode \<Rightarrow> BitStreamLite option" where
  "AVC_writeStartCode bs nut mode = put_start_code (AVC_isForce4BytesCode mode nut) bs"

definition HEVC_writeStartCode :: "BitStreamLite \<Rightarrow> nat \<Rightarrow> AL_EStartCodeBytesAlignedMode \<Rightarrow> BitStreamLite option" where
  "HEVC_writeStartCode bs nut mode = put_start_code (HEVC_isForce4BytesCode mode nut) bs"

definition start_code :: "bool \<Rightarrow> u8 list" where
  "start_code four = (if four then [0, 0, 0, 1] else [0, 0, 1])"

section \<open>IP\_Stream.c\<close>

definition BitsToBytes :: "nat \<Rightarrow> nat" where
  "BitsToBytes uBits = ((uBits + 8 - 1) div 8) * 8 div 8"

definition BytesToBits :: "nat \<Rightarrow> nat" where
  "BytesToBits uBytes = uBytes * 8"

definition writeByte :: "BitStreamLite \<Rightarrow> u8 \<Rightarrow> BitStreamLite option" where
  "writeByte bs uByte = AL_BitStreamLite_PutBits bs 8 (ucast uByte)"

text \<open>\<open>Matches(pData)\<close>, the pointer being an index into the payload.\<close>

definition Matches :: "u8 list \<Rightarrow> nat \<Rightarrow> bool" where
  "Matches d p \<longleftrightarrow> \<not> (d ! p AND 0xFF \<noteq> 0 \<or> d ! (p + 1) AND 0xFF \<noteq> 0 \<or> d ! (p + 2) AND 0xFC \<noteq> 0)"

text \<open>The loop of \<open>AntiEmul\<close>; \<open>p\<close> is \<open>pData\<close>. The result carries the final \<open>iByte\<close> and \<open>pData\<close>.\<close>

function AntiEmul_loop :: "u8 list \<Rightarrow> nat \<Rightarrow> nat \<Rightarrow> nat \<Rightarrow> BitStreamLite \<Rightarrow> (BitStreamLite \<times> nat \<times> nat) option" where
  "AntiEmul_loop d iNumBytes iByte p bs =
     (if iByte < iNumBytes
      then do {
        bs \<leftarrow> writeByte bs (d ! p);
        if Matches d p
        then do {
          bs \<leftarrow> writeByte bs (d ! (p + 1));
          bs \<leftarrow> writeByte bs 0x03;
          AntiEmul_loop d iNumBytes (iByte + 2) (p + 2) bs }
        else AntiEmul_loop d iNumBytes (iByte + 1) (p + 1) bs }
      else Some (bs, iByte, p))"
  by pat_completeness auto
termination by (relation "measure (\<lambda>(d, n, i, p, bs). n - i)") auto

declare AntiEmul_loop.simps [simp del]

text \<open>All accesses are to the bytes below \<open>iNumBytes\<close> (at least one is read): the guard says they exist.\<close>

definition AntiEmul :: "BitStreamLite \<Rightarrow> u8 list \<Rightarrow> nat \<Rightarrow> BitStreamLite option" where
  "AntiEmul bs d iNumBytes = (if length d < max 1 iNumBytes then None else do {
     (bs, iByte, p) \<leftarrow> AntiEmul_loop d iNumBytes 2 0 bs;
     (bs, p) \<leftarrow> (if iByte \<le> iNumBytes then do { bs \<leftarrow> writeByte bs (d ! p); Some (bs, p + 1) } else Some (bs, p));
     writeByte bs (d ! p) })"

record AL_TNalHeader =
  nh_bytes :: "u8 list"
  nh_size :: nat

type_synonym start_code_writer = "BitStreamLite \<Rightarrow> nat \<Rightarrow> AL_EStartCodeBytesAlignedMode \<Rightarrow> BitStreamLite option"

definition put_header :: "AL_TNalHeader \<Rightarrow> BitStreamLite \<Rightarrow> BitStreamLite option" where
  "put_header h bs =
     foldM (\<lambda>i bs. do { b \<leftarrow> arr_get (nh_bytes h) (int i); writeByte bs b }) [0..<nh_size h] bs"

definition FlushNAL :: "start_code_writer \<Rightarrow> BitStreamLite \<Rightarrow> nat \<Rightarrow> AL_TNalHeader \<Rightarrow> u8 list option \<Rightarrow>
    nat \<Rightarrow> AL_EStartCodeBytesAlignedMode \<Rightarrow> BitStreamLite option" where
  "FlushNAL WriteStartCode bs uNUT hdr pDataInNAL iBitsInNAL mode = do {
     bs \<leftarrow> WriteStartCode bs uNUT mode;
     bs \<leftarrow> put_header hdr bs;
     let iBytesInNAL = BitsToBytes iBitsInNAL;
     case pDataInNAL of None \<Rightarrow> Some bs
     | Some d \<Rightarrow> if iBytesInNAL \<noteq> 0 then AntiEmul bs d iBytesInNAL else Some bs }"

text \<open>
  \<open>WriteFillerData\<close>. The \<open>0xFF\<close> bytes go straight into the buffer; with \<open>bDontFill\<close> only the
  first one does and the application writes the rest.
\<close>

definition memset_ff :: "u8 list \<Rightarrow> nat \<Rightarrow> nat \<Rightarrow> u8 list" where
  "memset_ff d p n = take p d @ replicate n 0xFF @ drop (p + n) d"

definition WriteFillerData :: "start_code_writer \<Rightarrow> BitStreamLite \<Rightarrow> nat \<Rightarrow> AL_TNalHeader \<Rightarrow> int \<Rightarrow> bool \<Rightarrow>
    AL_EStartCodeBytesAlignedMode \<Rightarrow> BitStreamLite option" where
  "WriteFillerData WriteStartCode bs uNUT hdr iBytesCount bDontFill mode = do {
     let bookmark = bs_iBitCount bs;
     bs \<leftarrow> WriteStartCode bs uNUT mode;
     bs \<leftarrow> put_header hdr bs;
     let headerInBytes = int ((bs_iBitCount bs - bookmark) div 8);
     let bytesToWrite = iBytesCount - headerInBytes;
     let spaceRemainingInBytes = int (BitsToBytes (bs_iMaxBits bs)) - int (BitsToBytes (bs_iBitCount bs));
     let bytesToWrite = min spaceRemainingInBytes bytesToWrite - 1;
     let p = bs_iBitCount bs div 8;
     bs \<leftarrow> (if 0 < bytesToWrite
        then let n = (if bDontFill then 1 else nat bytesToWrite) in
          if length (bs_pData bs) < p + n then None
          else Some (AL_BitStreamLite_SkipBits (bs\<lparr>bs_pData := memset_ff (bs_pData bs) p n\<rparr>)
                 (BytesToBits (nat bytesToWrite)))
        else Some bs);
     writeByte bs 0x80 }"

section \<open>ITU\_Section.c: one NAL unit\<close>

definition AL_ENC_MAX_HEADER_SIZE :: nat where
  "AL_ENC_MAX_HEADER_SIZE = 2 * 1024 + 10 * 1024"

text \<open>\<open>-1\<close> is overflow; the buffer is returned beside the size in bits.\<close>

definition writeNalInBuffer :: "(BitStreamLite \<Rightarrow> BitStreamLite option) \<Rightarrow> u8 list \<Rightarrow> nat \<Rightarrow> (int \<times> u8 list) option" where
  "writeNalInBuffer Write buffer bufSize = do {
     bs \<leftarrow> Write (AL_BitStreamLite_Init buffer bufSize);
     if bs_isOverflow bs then Some (-1, bs_pData bs)
     else Some (int (AL_BitStreamLite_GetBitsCount bs), bs_pData bs) }"

definition getBytesOffset :: "BitStreamLite \<Rightarrow> nat" where
  "getBytesOffset bs = AL_BitStreamLite_GetBitsCount bs div 8"

definition WriteNal :: "start_code_writer \<Rightarrow> (BitStreamLite \<Rightarrow> BitStreamLite option) \<Rightarrow> u8 list \<Rightarrow> BitStreamLite \<Rightarrow>
    nat \<Rightarrow> nat \<Rightarrow> AL_TNalHeader \<Rightarrow> AL_EStartCodeBytesAlignedMode \<Rightarrow> (int \<times> BitStreamLite) option" where
  "WriteNal WriteStartCode Write tmpBuffer bs bitstreamSize nut hdr mode = do {
     (sizeInBits, tmpBuffer) \<leftarrow> writeNalInBuffer Write tmpBuffer bitstreamSize;
     if sizeInBits < 0 then Some (-1, bs)
     else do {
       let start = getBytesOffset bs;
       bs \<leftarrow> FlushNAL WriteStartCode bs nut hdr (Some tmpBuffer) (nat sizeInBits) mode;
       let end = getBytesOffset bs;
       if bs_isOverflow bs then Some (-1, bs) else Some (int end - int start, bs) } }"

section \<open>The escape code\<close>

text \<open>A byte of value 0 to 3 after two zeros is preceded by the byte 3.\<close>

fun escape :: "u8 list \<Rightarrow> u8 list" where
  "escape (a # b # c # r) =
     (if a = 0 \<and> b = 0 \<and> c \<le> 3 then a # b # 3 # escape (c # r) else a # escape (b # c # r))"
| "escape d = d"

text \<open>
  The automaton of \<open>fetch_data\<close> (\<open>RbspParser.c\<close>): \<open>z\<close> counts the zeros seen (a \<open>uint8_t\<close>),
  \<open>sc\<close> the start codes; the second start code ends the unit.
\<close>

fun unescape :: "u8 \<Rightarrow> u8 \<Rightarrow> u8 list \<Rightarrow> u8 list" where
  "unescape z sc [] = []"
| "unescape z sc (x # xs) =
     (if z = 2 \<and> x = 3 then unescape 0 sc xs
      else if 2 \<le> z \<and> x = 1
      then (if sc + 1 = 2 then [] else x # unescape 0 (sc + 1) xs)
      else x # unescape (if x = 0 then z + 1 else 0) sc xs)"

subsection \<open>Emulation prevention\<close>

lemma writes_byte: "writes (\<lambda>bs. writeByte bs b) (\<lambda>_. byte_bits b)"
proof -
  have "drop_bit 8 (ucast b :: u32) = 0"
    by (rule bit_eqI) (auto simp: bit_drop_bit_eq bit_ucast_iff bit_imp_le_length dest: bit_imp_le_length)
  from writes_bits [OF _ _ this] show ?thesis
    by (simp add: writeByte_def byte_bits_def nbits_ucast writes_def)
qed

lemma writeByte_appends:
  "bs_wf bs \<Longrightarrow> \<exists>bs'. writeByte bs b = Some bs' \<and> appends bs (byte_bits b) bs' \<and> bs_wf bs'"
  using writesD [OF writes_byte] appends_wf by blast

lemma Matches_iff: "Matches d p \<longleftrightarrow> d ! p = 0 \<and> d ! (p + 1) = 0 \<and> d ! (p + 2) \<le> 3"
proof -
  have "(0xFF :: u8) = -1" by simp
  then have "x AND 0xFF = x" for x :: u8 by (metis and.right_neutral)
  moreover have "x AND 0xFC = 0 \<longleftrightarrow> x \<le> 3" for x :: u8
  proof -
    have fc: "(0xFC :: u8) = NOT (mask 2)" by (simp add: mask_eq_exp_minus_1)
    have "x AND 0xFC = 0 \<longleftrightarrow> take_bit 2 x = x"
      unfolding fc by (auto simp: bit_eq_iff bit_and_iff bit_not_iff bit_mask_iff bit_take_bit_iff)
    also have "\<dots> \<longleftrightarrow> x < 4"
      by (auto simp: take_bit_eq_mod word_unat_eq_iff unat_mod word_less_nat_alt)
    also have "\<dots> \<longleftrightarrow> x \<le> 3" by (simp add: word_less_nat_alt word_le_nat_alt) linarith
    finally show ?thesis .
  qed
  ultimately show ?thesis by (auto simp: Matches_def)
qed

text \<open>The loop of \<open>AntiEmul\<close> and the one or two bytes after it write the escaped rest.\<close>

definition AntiEmul_tail :: "u8 list \<Rightarrow> nat \<Rightarrow> BitStreamLite \<times> nat \<times> nat \<Rightarrow> BitStreamLite option" where
  "AntiEmul_tail d n r = (case r of (bs, iByte, p) \<Rightarrow> do {
     (bs, p) \<leftarrow> (if iByte \<le> n then do { bs \<leftarrow> writeByte bs (d ! p); Some (bs, p + 1) } else Some (bs, p));
     writeByte bs (d ! p) })"

lemma drop_take_Cons: "p < n \<Longrightarrow> n \<le> length d \<Longrightarrow> drop p (take n d) = d ! p # drop (Suc p) (take n d)"
  by (metis Cons_nth_drop_Suc length_take min.absorb2 nth_take)

lemma AntiEmul_loop_appends:
  assumes "bs_wf bs" "p < n" "n \<le> length d" "iByte = p + 2"
  shows "\<exists>bs'. do { r \<leftarrow> AntiEmul_loop d n iByte p bs; AntiEmul_tail d n r } = Some bs'
    \<and> appends bs (bytes_bits (escape (drop p (take n d)))) bs'"
  using assms
proof (induction d n iByte p bs rule: AntiEmul_loop.induct)
  case (1 d n iByte p bs)
  show ?case
  proof (cases "iByte < n")
    case True
    let ?r = "drop (p + 2) (take n d)"
    have lt: "p < n" "p + 1 < n" "p + 2 < n" using True "1.prems"(4) by auto
    have r: "?r = d ! (p + 2) # drop (Suc (p + 2)) (take n d)"
      by (rule drop_take_Cons [OF lt(3) "1.prems"(3)])
    have r1: "drop (p + 1) (take n d) = d ! (p + 1) # ?r"
      using drop_take_Cons [OF lt(2) "1.prems"(3)] by simp
    have r0: "drop p (take n d) = d ! p # drop (p + 1) (take n d)"
      using drop_take_Cons [OF lt(1) "1.prems"(3)] by simp
    obtain b1 where b1: "writeByte bs (d ! p) = Some b1" "appends bs (byte_bits (d ! p)) b1" "bs_wf b1"
      using writeByte_appends [OF "1.prems"(1)] by blast
    show ?thesis
    proof (cases "Matches d p")
      case True
      obtain b2 where b2: "writeByte b1 (d ! (p + 1)) = Some b2" "appends b1 (byte_bits (d ! (p + 1))) b2" "bs_wf b2"
        using writeByte_appends [OF b1(3)] by blast
      obtain b3 where b3: "writeByte b2 3 = Some b3" "appends b2 (byte_bits 3) b3" "bs_wf b3"
        using writeByte_appends [OF b2(3)] by blast
      obtain bs' where bs': "do { r \<leftarrow> AntiEmul_loop d n (iByte + 2) (p + 2) b3; AntiEmul_tail d n r } = Some bs'"
        "appends b3 (bytes_bits (escape ?r)) bs'"
        using "1.IH"(1) [OF \<open>iByte < n\<close> b1(1) True b2(1) b3(1) b3(3)] "1.prems"(2-4) \<open>iByte < n\<close> by auto
      have "escape (drop p (take n d)) = d ! p # d ! (p + 1) # 3 # escape ?r"
        using True unfolding r0 r1 r by (simp add: Matches_iff)
      moreover have "do { r \<leftarrow> AntiEmul_loop d n iByte p bs; AntiEmul_tail d n r } = Some bs'"
        using True \<open>iByte < n\<close> b1(1) b2(1) b3(1) bs'(1) by (subst AntiEmul_loop.simps) simp
      ultimately show ?thesis
        using appends_trans [OF b1(2) appends_trans [OF b2(2) appends_trans [OF b3(2) bs'(2)]]] by simp
    next
      case False
      obtain bs' where bs': "do { r \<leftarrow> AntiEmul_loop d n (iByte + 1) (p + 1) b1; AntiEmul_tail d n r } = Some bs'"
        "appends b1 (bytes_bits (escape (drop (p + 1) (take n d)))) bs'"
        using "1.IH"(2) [OF \<open>iByte < n\<close> b1(1) False b1(3)] "1.prems"(2-4) \<open>iByte < n\<close> by auto
      have "escape (drop p (take n d)) = d ! p # escape (drop (p + 1) (take n d))"
        using False unfolding r0 r1 r by (auto simp: Matches_iff)
      moreover have "do { r \<leftarrow> AntiEmul_loop d n iByte p bs; AntiEmul_tail d n r } = Some bs'"
        using False \<open>iByte < n\<close> b1(1) bs'(1) by (subst AntiEmul_loop.simps) simp
      ultimately show ?thesis using appends_trans [OF b1(2) bs'(2)] by simp
    qed
  next
    case False
    have e: "escape [a] = [a]" "escape [a, b] = [a, b]" for a b by simp_all
    have "drop p (take n d) = (if iByte \<le> n then [d ! p, d ! (p + 1)] else [d ! p])"
      using False "1.prems"(2-4) drop_take_Cons [of p n d] drop_take_Cons [of "p + 1" n d] by auto
    moreover obtain b1 where b1: "writeByte bs (d ! p) = Some b1" "appends bs (byte_bits (d ! p)) b1" "bs_wf b1"
      using writeByte_appends [OF "1.prems"(1)] by blast
    moreover obtain b2 where "writeByte b1 (d ! (p + 1)) = Some b2" "appends b1 (byte_bits (d ! (p + 1))) b2"
      using writeByte_appends [OF b1(3)] by blast
    ultimately show ?thesis
      using False appends_trans
      by (subst AntiEmul_loop.simps) (cases "iByte \<le> n"; auto simp: AntiEmul_tail_def e)
  qed
qed

lemma writes_AntiEmul:
  assumes "0 < n" "n \<le> length d"
  shows "writes (\<lambda>bs. AntiEmul bs d n) (\<lambda>_. bytes_bits (escape (take n d)))"
  using AntiEmul_loop_appends [of _ 0 n d 2] assms
  by (auto simp: writes_def AntiEmul_def AntiEmul_tail_def)

subsection \<open>Whole units\<close>

lemma nbits_8_byte: "nbits 8 (ucast b :: u32) = byte_bits b"
  by (simp add: byte_bits_def nbits_ucast)

lemma writes_start_code: "writes (put_start_code four) (\<lambda>_. bytes_bits (start_code four))"
proof -
  have z: "writes (\<lambda>bs. AL_BitStreamLite_PutBits bs 8 0) (\<lambda>_. byte_bits 0)"
    using writes_bits [of 8 0] nbits_8_byte [of 0] by simp
  have o: "writes (\<lambda>bs. AL_BitStreamLite_PutBits bs 8 1) (\<lambda>_. byte_bits 1)"
    using writes_bits [of 8 1] nbits_8_byte [of 1] by (simp add: drop_bit_Suc numeral_eq_Suc)
  have "writes (\<lambda>bs. if four then AL_BitStreamLite_PutBits bs 8 0 else Some bs)
      (\<lambda>_. if four then byte_bits 0 else [])"
    using z writes_Some by simp
  from writes_bind [OF this writes_bind [OF z writes_bind [OF z o]]] show ?thesis
    unfolding put_start_code_def by (rule writes_cong) (simp add: start_code_def)
qed

lemma writes_foldM:
  assumes "\<And>x. x \<in> set xs \<Longrightarrow> writes (f x) (\<lambda>_. Y x)"
  shows "writes (foldM f xs) (\<lambda>_. concat (map Y xs))"
  using assms
proof (induction xs)
  case Nil
  then show ?case using writes_Some by simp
next
  case (Cons x xs)
  have "writes (\<lambda>bs. do { bs \<leftarrow> f x bs; foldM f xs bs }) (\<lambda>_. Y x @ concat (map Y xs))"
    by (rule writes_bind) (use Cons in auto)
  then show ?case by simp
qed

lemma writes_header:
  assumes "nh_size h \<le> length (nh_bytes h)"
  shows "writes (put_header h) (\<lambda>_. bytes_bits (take (nh_size h) (nh_bytes h)))"
proof -
  have "writes (\<lambda>bs. do { b \<leftarrow> arr_get (nh_bytes h) (int i); writeByte bs b }) (\<lambda>_. byte_bits (nh_bytes h ! i))"
    if "i \<in> set [0..<nh_size h]" for i
    using writes_byte that assms by simp
  then have "writes (put_header h) (\<lambda>_. concat (map (\<lambda>i. byte_bits (nh_bytes h ! i)) [0..<nh_size h]))"
    unfolding put_header_def by (rule writes_foldM)
  moreover have "map (\<lambda>i. byte_bits (nh_bytes h ! i)) [0..<nh_size h] = map byte_bits (take (nh_size h) (nh_bytes h))"
    by (rule nth_equalityI) (use assms in auto)
  ultimately show ?thesis by (simp add: bytes_bits_def)
qed

lemma BitsToBytes_mult [simp]: "BitsToBytes (8 * n) = n"
  by (simp add: BitsToBytes_def)

lemma writes_FlushNAL:
  assumes "writes (\<lambda>bs. wsc bs nut mode) (\<lambda>_. bytes_bits sc)"
    and "nh_size h \<le> length (nh_bytes h)" "0 < n" "n \<le> length d"
  shows "writes (\<lambda>bs. FlushNAL wsc bs nut h (Some d) (8 * n) mode)
    (\<lambda>_. bytes_bits (sc @ take (nh_size h) (nh_bytes h) @ escape (take n d)))"
  using writes_cong [OF writes_bind [OF assms(1) writes_bind [OF writes_header [OF assms(2)]
        writes_AntiEmul [OF assms(3,4)]]]] assms(3)
  by (simp add: FlushNAL_def)

subsection \<open>The escape code\<close>

text \<open>
  Going through the escaped payload, the automaton has seen \<open>z\<close> zeros just before; the escape
  code has looked at them too, so what follows does not complete a triple.
\<close>

definition no_match :: "u8 \<Rightarrow> u8 list \<Rightarrow> bool" where
  "no_match z d \<longleftrightarrow> z = 0 \<or> (z = 1 \<and> (case d of a # b # _ \<Rightarrow> \<not> (a = 0 \<and> b \<le> 3) | _ \<Rightarrow> True))
     \<or> (z = 2 \<and> (case d of a # _ \<Rightarrow> \<not> a \<le> 3 | _ \<Rightarrow> True))"

lemma word_u8_small: "(a :: u8) \<le> 3 \<longleftrightarrow> a = 0 \<or> a = 1 \<or> a = 2 \<or> a = 3"
proof
  assume "a \<le> 3"
  then have "unat a \<le> 3" by (simp add: word_le_nat_alt)
  then have "unat a = 0 \<or> unat a = 1 \<or> unat a = 2 \<or> unat a = 3" by arith
  then show "a = 0 \<or> a = 1 \<or> a = 2 \<or> a = 3" by (auto simp: word_unat_eq_iff)
qed auto

lemma unescape_escape_aux:
  "no_match z d \<Longrightarrow> unescape z 1 (escape d) = d"
proof (induction d arbitrary: z rule: escape.induct)
  case (1 a b c r)
  have z: "z = 0 \<or> z = 1 \<or> z = 2" using "1.prems" by (auto simp: no_match_def)
  show ?case
  proof (cases "a = 0 \<and> b = 0 \<and> c \<le> 3")
    case True
    then have "z = 0" using "1.prems" z by (auto simp: no_match_def)
    moreover have "unescape 0 1 (escape (c # r)) = c # r"
      using "1.IH"(1) [OF True, of 0] by (simp add: no_match_def)
    ultimately show ?thesis using True by simp
  next
    case False
    have "unescape (if a = 0 then z + 1 else 0) 1 (escape (b # c # r)) = b # c # r"
      by (rule "1.IH"(2) [OF False]) (use False "1.prems" in \<open>auto simp: no_match_def\<close>)
    moreover have "\<not> (z = 2 \<and> a = 3)" "\<not> (2 \<le> z \<and> a = 1)"
      using "1.prems" by (auto simp: no_match_def word_le_nat_alt)
    moreover have "escape (a # b # c # r) = a # escape (b # c # r)"
      by (simp only: escape.simps(1) False if_False)
    ultimately show ?thesis by (auto simp del: escape.simps)
  qed
next
  case "2_1"
  then show ?case by simp
next
  case "2_2"
  then show ?case by (auto simp: no_match_def word_le_nat_alt)
next
  case "2_3"
  then show ?case by (auto simp: no_match_def word_u8_small word_le_nat_alt)
qed

text \<open>No three bytes \<open>0, 0, x\<close> with \<open>x\<close> below 3: a start code cannot appear.\<close>

definition emulation_free :: "u8 list \<Rightarrow> bool" where
  "emulation_free xs \<longleftrightarrow> (\<forall>i. i + 2 < length xs \<longrightarrow> \<not> (xs ! i = 0 \<and> xs ! (i + 1) = 0 \<and> xs ! (i + 2) < 3))"

lemma emulation_free_short: "length xs < 3 \<Longrightarrow> emulation_free xs"
  by (simp add: emulation_free_def)

lemma emulation_free_Cons:
  "emulation_free (a # xs) \<longleftrightarrow> emulation_free xs
     \<and> (case xs of b # c # _ \<Rightarrow> \<not> (a = 0 \<and> b = 0 \<and> c < 3) | _ \<Rightarrow> True)"
proof -
  have split: "(\<forall>i. P i) \<longleftrightarrow> P 0 \<and> (\<forall>i. P (Suc i))" for P by (metis not0_implies_Suc)
  have "emulation_free (a # xs) \<longleftrightarrow>
      (2 < Suc (length xs) \<longrightarrow> \<not> (a = 0 \<and> xs ! 0 = 0 \<and> xs ! 1 < 3)) \<and> emulation_free xs"
    unfolding emulation_free_def
    by (subst split) simp
  then show ?thesis by (auto split: list.split)
qed

lemma escape_head: "escape (b # d) = b # tl (escape (b # d))"
  by (cases d rule: list.exhaust; simp) (rename_tac x xs, case_tac xs; simp)

lemma escape_emulation_free: "emulation_free (escape d)"
proof (induction d rule: escape.induct)
  case (1 a b c r)
  have e: "escape (c # r) = c # tl (escape (c # r))" by (rule escape_head)
  have 3: "\<not> (3 :: u8) < 3" by simp
  show ?case
  proof (cases "a = 0 \<and> b = 0 \<and> c \<le> 3")
    case True
    then have "emulation_free (c # tl (escape (c # r)))" using "1.IH"(1) e by simp
    then show ?thesis using True e by (simp add: emulation_free_Cons split: list.split)
  next
    case False
    have free: "emulation_free (escape (b # c # r))" by (rule "1.IH"(2) [OF False])
    have step: "escape (a # b # c # r) = a # escape (b # c # r)"
      by (simp only: escape.simps(1) False if_False)
    have h: "escape (b # c # r) = b # tl (escape (b # c # r))" by (rule escape_head)
    have "escape (b # c # r) = b # c # tl (escape (c # r))" if "\<not> c \<le> 3"
      using e that by (cases r) auto
    moreover have "\<not> c \<le> 3 \<Longrightarrow> \<not> c < 3" by (simp add: word_le_nat_alt word_less_nat_alt)
    ultimately have "\<not> (a = 0 \<and> b = 0) \<or> (\<exists>y ys. escape (b # c # r) = b # y # ys \<and> \<not> y < 3)"
      using False by blast
    then show ?thesis
      using free h unfolding step by (auto simp: emulation_free_Cons split: list.splits)
  qed
qed (simp_all add: emulation_free_short)

section \<open>WriteNal\<close>

lemma bytes_bits_take: "k \<le> length d \<Longrightarrow> bytes_bits (take k d) = take (8 * k) (bytes_bits d)"
  by (induction d arbitrary: k) (auto simp: take_Cons' diff_mult_distrib2)

lemma init_wf: "n \<le> length d \<Longrightarrow> bs_wf (AL_BitStreamLite_Init d n)"
  by (simp add: bs_wf_def AL_BitStreamLite_Init_def)

lemma writeNalInBuffer_cases:
  assumes "writes Write X" "sz \<le> length tmp"
  obtains (fits) tmp' where "length (X 0) \<le> 8 * sz" "length tmp' = length tmp"
      "writeNalInBuffer Write tmp sz = Some (int (length (X 0)), tmp')"
      "take (length (X 0)) (bytes_bits tmp') = X 0"
  | (overflow) tmp' where "8 * sz < length (X 0)" "writeNalInBuffer Write tmp sz = Some (-1, tmp')"
proof -
  let ?bs = "AL_BitStreamLite_Init tmp sz"
  have c0: "bs_iBitCount ?bs = 0" "bs_iMaxBits ?bs = 8 * sz" "bs_bits ?bs = []" "bs_pData ?bs = tmp"
    by (simp_all add: AL_BitStreamLite_Init_def bs_bits_def)
  obtain bs where bs: "Write ?bs = Some bs" "appends ?bs (X 0) bs"
    using writesE [OF assms(1) init_wf [OF assms(2)]] c0(1) by auto
  have f: "bs_isOverflow bs \<longleftrightarrow> 8 * sz < length (X 0)" "bs_iBitCount bs = length (X 0)"
    "bs_bits bs = take (8 * sz) (X 0)" "bs_iMaxBits bs = 8 * sz" "length (bs_pData bs) = length tmp"
    using bs(2) c0 by (auto simp: appends_def bs_wf_def)
  show thesis
  proof (cases "8 * sz < length (X 0)")
    case True
    then show ?thesis using bs(1) f(1) by (intro overflow) (auto simp: writeNalInBuffer_def)
  next
    case False
    then have "writeNalInBuffer Write tmp sz = Some (int (length (X 0)), bs_pData bs)"
      using bs(1) f(1,2) by (simp add: writeNalInBuffer_def AL_BitStreamLite_GetBitsCount_def)
    then show ?thesis
      using False f by (intro fits [of "bs_pData bs"]) (auto simp: bs_bits_def min_def)
  qed
qed

text \<open>The bytes of a unit.\<close>

definition nal_bytes :: "bool \<Rightarrow> AL_TNalHeader \<Rightarrow> u8 list \<Rightarrow> u8 list" where
  "nal_bytes four h d = start_code four @ take (nh_size h) (nh_bytes h) @ escape d"

lemma WriteNal_result:
  assumes Write: "writes Write X" "X 0 = bytes_bits d" "d \<noteq> []" "sz \<le> length tmp"
    and sc: "\<And>bs. wsc bs nut mode = put_start_code four bs"
    and h: "nh_size h \<le> length (nh_bytes h)"
    and bs: "bs_wf bs" "bs_iBitCount bs mod 8 = 0" "\<not> bs_isOverflow bs"
  shows "\<exists>bs'. WriteNal wsc Write tmp bs sz nut h mode =
      Some (if sz < length d then (-1, bs)
            else if bs_iMaxBits bs < bs_iBitCount bs + 8 * length (nal_bytes four h d) then (-1, bs')
            else (int (length (nal_bytes four h d)), bs'))
    \<and> appends bs (bytes_bits (nal_bytes four h d)) bs'"
proof (cases rule: writeNalInBuffer_cases [OF Write(1,4)])
  case (2 tmp')
  note overflow = 2
  have "writes (\<lambda>bs. FlushNAL wsc bs nut h (Some d) (8 * length d) mode) (\<lambda>_. bytes_bits (nal_bytes four h d))"
    unfolding nal_bytes_def
    using writes_FlushNAL [of wsc nut mode "start_code four" h "length d" d] writes_start_code sc h Write(3) by simp
  from writesD [OF this bs(1)] show ?thesis
    using overflow Write(2) by (auto simp: WriteNal_def)
next
  case (1 tmp')
  note fits = 1
  have k: "length d \<le> sz" "length d \<le> length tmp'" using fits(1,2) Write(2,4) by auto
  have d: "bytes_bits (take (length d) tmp') = bytes_bits d"
    using fits(4) Write(2) k(2) by (simp add: bytes_bits_take)
  have "take (length d) tmp' = d" by (rule bytes_bits_inj [OF d])
  then have "writes (\<lambda>bs. FlushNAL wsc bs nut h (Some tmp') (8 * length d) mode) (\<lambda>_. bytes_bits (nal_bytes four h d))"
    unfolding nal_bytes_def
    using writes_FlushNAL [of wsc nut mode "start_code four" h "length d" tmp'] writes_start_code sc h Write(3) k
    by simp
  then obtain bs' where bs': "FlushNAL wsc bs nut h (Some tmp') (8 * length d) mode = Some bs'"
    "appends bs (bytes_bits (nal_bytes four h d)) bs'"
    using writesE bs(1) by blast
  let ?n = "length (nal_bytes four h d)"
  have c: "bs_iBitCount bs' = bs_iBitCount bs + 8 * ?n"
    "bs_isOverflow bs' \<longleftrightarrow> bs_iMaxBits bs < bs_iBitCount bs + 8 * ?n"
    using bs'(2) by (auto simp: appends_def bs_wf_def)
  have "int (bs_iBitCount bs' div 8) - int (bs_iBitCount bs div 8) = int ?n"
    unfolding c(1) by simp
  moreover have "nat (8 * int (length d)) = 8 * length d" by (simp add: nat_mult_distrib)
  ultimately show ?thesis
    using fits(3) bs' c(2) k(1) Write(2)
    by (auto simp: WriteNal_def getBytesOffset_def AL_BitStreamLite_GetBitsCount_def)
qed

section \<open>Properties\<close>

text \<open>
  C3 Emulation prevention. For every payload, \<open>AntiEmul\<close> appends an escaped copy in which no
  \<open>0, 0, x\<close> with \<open>x < 3\<close> occurs (no start code can appear inside a unit), it reads each payload
  byte once and nothing else, and the decoder's automaton gives exactly the payload back.
\<close>

theorem antiemul_roundtrip:
  assumes "0 < n" "n \<le> length d"
  shows "\<exists>xs. writes (\<lambda>bs. AntiEmul bs d n) (\<lambda>_. bytes_bits xs)
    \<and> emulation_free xs \<and> unescape 0 1 xs = take n d"
  using writes_AntiEmul [OF assms] escape_emulation_free unescape_escape_aux [of 0 "take n d"]
  by (auto simp: no_match_def)

theorem antiemul_roundtrip_witness:
  "\<exists>xs. writes (\<lambda>bs. AntiEmul bs [0, 0, 1, 0, 0, 0, 128] 7) (\<lambda>_. bytes_bits xs)
     \<and> unescape 0 1 xs = [0, 0, 1, 0, 0, 0, 128]"
  using antiemul_roundtrip [of 7 "[0, 0, 1, 0, 0, 0, 128]"] by auto

text \<open>
  C2 \<open>WriteNal\<close>: when the payload fits the scratch buffer, the unit appended to the stream is the
  start code, the header and the escaped payload, and the size returned is its number of bytes; the
  result is \<open>-1\<close> exactly when the payload overflows the scratch buffer (the stream is then untouched)
  or the unit overflows the stream.
\<close>

theorem writenal_correct:
  assumes "writes Write X" "X 0 = bytes_bits d" "d \<noteq> []" "sz \<le> length tmp"
    and "wsc = AVC_writeStartCode \<and> four = AVC_isForce4BytesCode mode nut
      \<or> wsc = HEVC_writeStartCode \<and> four = HEVC_isForce4BytesCode mode nut"
    and "nh_size h \<le> length (nh_bytes h)"
    and "bs_wf bs" "bs_iBitCount bs mod 8 = 0" "\<not> bs_isOverflow bs"
  shows "\<exists>bs'. WriteNal wsc Write tmp bs sz nut h mode =
      Some (if sz < length d then (-1, bs)
            else if bs_iMaxBits bs < bs_iBitCount bs + 8 * length (nal_bytes four h d) then (-1, bs')
            else (int (length (nal_bytes four h d)), bs'))
    \<and> appends bs (bytes_bits (nal_bytes four h d)) bs'"
  by (rule WriteNal_result [OF assms(1-4) _ assms(6-9)])
    (use assms(5) in \<open>auto simp: AVC_writeStartCode_def HEVC_writeStartCode_def\<close>)

theorem writenal_correct_witness:
  "\<exists>bs'. WriteNal AVC_writeStartCode (\<lambda>bs. writeByte bs 0x80) [7] (AL_BitStreamLite_Init [9, 9, 9, 9, 9, 9] 6) 1 9
      \<lparr>nh_bytes = [9, 0], nh_size = 1\<rparr> AL_START_CODE_AUTO = Some (6, bs')
     \<and> bs_bits bs' = bytes_bits [0, 0, 0, 1, 9, 0x80]"
proof -
  let ?h = "\<lparr>nh_bytes = [9, 0], nh_size = 1\<rparr>"
  let ?bs = "AL_BitStreamLite_Init [9, 9, 9, 9, 9, 9] 6"
  have w: "writes (\<lambda>bs. writeByte bs 0x80) (\<lambda>_. bytes_bits [0x80])" using writes_byte [of "0x80"] by simp
  have "bs_wf ?bs" by (simp add: init_wf)
  moreover have "bs_iBitCount ?bs mod 8 = 0" "\<not> bs_isOverflow ?bs"
    by (simp_all add: AL_BitStreamLite_Init_def)
  ultimately obtain bs' where bs': "WriteNal AVC_writeStartCode (\<lambda>bs. writeByte bs 0x80) [7] ?bs 1 9 ?h AL_START_CODE_AUTO =
      Some (if 1 < length [0x80 :: u8] then (-1, ?bs)
        else if bs_iMaxBits ?bs < bs_iBitCount ?bs + 8 * length (nal_bytes True ?h [0x80]) then (-1, bs')
        else (int (length (nal_bytes True ?h [0x80])), bs'))"
    "appends ?bs (bytes_bits (nal_bytes True ?h [0x80])) bs'"
    using writenal_correct [OF w refl, of 1 "[7]" AVC_writeStartCode True AL_START_CODE_AUTO 9 ?h ?bs]
    by (auto simp: AVC_isForce4BytesCode_def)
  then show ?thesis
    by (auto simp: nal_bytes_def start_code_def AL_BitStreamLite_Init_def appends_def bs_bits_def)
qed

end
