(* ===== verification/Rbsp_Parser.thy ===== *)
theory Rbsp_Parser
  imports Nal_Stream
begin

text \<open>
  The bit reader of the decoder, \<open>lib_common_dec/RbspParser.c\<close>: it fetches a NAL unit from the
  circular stream buffer in chunks of 32 bytes, removes the emulation prevention bytes on the way,
  stops at the next start code, finds the stop bit, and reads fixed and variable length codes.
\<close>

section \<open>State\<close>

text \<open>
  The \<open>uint32_t\<close> bit indices are naturals (buffers are far below 2^29 bytes); the one subtraction
  that can go below zero wraps, as in C. \<open>pBuffer\<close> is the destination buffer, or without start
  codes the stream buffer from the offset on; \<open>pByte\<close> is an index into it.
\<close>

record AL_TRbspParser =
  rp_iTrailingBitOneIndex :: nat
  rp_iCurrentBitIndex :: nat
  rp_iTotalBitIndex :: nat
  rp_iTrailingBitOneIndexConceal :: nat
  rp_uNumScDetect :: u8
  rp_uZeroBytesCount :: u8
  rp_pBuffer :: "u8 list"
  rp_iBufOutSize :: nat
  rp_pByte :: nat
  rp_pBufIn :: "u8 list"
  rp_iBufInSize :: nat
  rp_iBufInOffset :: nat
  rp_iBufInAvailSize :: nat
  rp_bHasStartCodes :: bool

record AL_TCircBuffer =
  cb_pVirtualAddr :: "u8 list"
  cb_uSize :: nat
  cb_iOffset :: nat
  cb_iAvailSize :: nat

definition ANTI_EMUL_GRANULARITY :: nat where "ANTI_EMUL_GRANULARITY = 32"
definition NON_VCL_NAL_SIZE :: nat where "NON_VCL_NAL_SIZE = 5248"

definition sub32 :: "nat \<Rightarrow> nat \<Rightarrow> nat" where
  "sub32 a b = (a + 2 ^ 32 - b) mod 2 ^ 32"

definition InitRbspParser :: "AL_TCircBuffer \<Rightarrow> u8 list \<Rightarrow> nat \<Rightarrow> bool \<Rightarrow> AL_TRbspParser" where
  "InitRbspParser s pNoAEBuffer iNoAESize bHasStartCodes =
     (let iSize = min (cb_uSize s - cb_iOffset s) (cb_iAvailSize s);
          t = (if bHasStartCodes then 0 else iSize * 8) in
      \<lparr>rp_iTrailingBitOneIndex = t, rp_iCurrentBitIndex = 0, rp_iTotalBitIndex = 0,
       rp_iTrailingBitOneIndexConceal = t, rp_uNumScDetect = 0, rp_uZeroBytesCount = 0,
       rp_pBuffer = (if bHasStartCodes then pNoAEBuffer else drop (cb_iOffset s) (cb_pVirtualAddr s)),
       rp_iBufOutSize = (if bHasStartCodes then iNoAESize else iSize),
       rp_pByte = 0, rp_pBufIn = cb_pVirtualAddr s, rp_iBufInSize = cb_uSize s, rp_iBufInOffset = cb_iOffset s,
       rp_iBufInAvailSize = (if bHasStartCodes then cb_iAvailSize s else cb_iAvailSize s - iSize),
       rp_bHasStartCodes = bHasStartCodes\<rparr>)"

section \<open>Fetching\<close>

definition finished_fetching :: "AL_TRbspParser \<Rightarrow> bool" where
  "finished_fetching rp \<longleftrightarrow> rp_uNumScDetect rp = 2 \<or> rp_iBufInAvailSize rp = 0"

text \<open>
  \<open>read_bit\<close>, \<open>remove_trailing_bits\<close> and \<open>fetch_data\<close> call each other; the first two take the
  fetch function they call as an argument, and \<open>fetch_data_at\<close> bounds the depth of the calls.
\<close>

definition read_bit_with :: "(AL_TRbspParser \<Rightarrow> (bool \<times> AL_TRbspParser) option) \<Rightarrow> AL_TRbspParser \<Rightarrow> nat \<Rightarrow>
    (u8 \<times> AL_TRbspParser) option" where
  "read_bit_with fetch rp iBitIndex = do {
     rp \<leftarrow> (if rp_iTrailingBitOneIndex rp < rp_iCurrentBitIndex rp + 1
           then map_option snd (fetch rp) else Some rp);
     b \<leftarrow> arr_get (rp_pBuffer rp) (int (iBitIndex div 8));
     Some (b AND push_bit (7 - iBitIndex mod 8) 1, rp) }"

text \<open>\<open>while(read_bit(i) == 0 && i >= 1) --i\<close>\<close>

primrec trailing_loop :: "(AL_TRbspParser \<Rightarrow> (bool \<times> AL_TRbspParser) option) \<Rightarrow> nat \<Rightarrow> AL_TRbspParser \<Rightarrow>
    (nat \<times> AL_TRbspParser) option" where
  "trailing_loop fetch 0 rp = do { (b, rp) \<leftarrow> read_bit_with fetch rp 0; Some (0, rp) }"
| "trailing_loop fetch (Suc i) rp = do {
     (b, rp) \<leftarrow> read_bit_with fetch rp (Suc i);
     if b = 0 then trailing_loop fetch i rp else Some (Suc i, rp) }"

definition remove_trailing_bits_with :: "(AL_TRbspParser \<Rightarrow> (bool \<times> AL_TRbspParser) option) \<Rightarrow> AL_TRbspParser \<Rightarrow>
    AL_TRbspParser option" where
  "remove_trailing_bits_with fetch rp = do {
     (i, rp) \<leftarrow> trailing_loop fetch (sub32 (rp_iTrailingBitOneIndex rp) 1) rp;
     let t = (if i < rp_iCurrentBitIndex rp then rp_iCurrentBitIndex rp else i);
     Some (rp\<lparr>rp_iTrailingBitOneIndex := t, rp_iTrailingBitOneIndexConceal := (t + 8) div 8 * 8\<rparr>) }"

text \<open>The copy loop: \<open>n\<close> is \<open>uEnd - uRead\<close>, \<open>o\<close> is \<open>byte_offset\<close>.\<close>

primrec fetch_loop :: "nat \<Rightarrow> nat \<Rightarrow> nat \<Rightarrow> nat \<Rightarrow> AL_TRbspParser \<Rightarrow> AL_TRbspParser option" where
  "fetch_loop 0 uRead uWrite byte_offset rp = Some rp"
| "fetch_loop (Suc n) uRead uWrite byte_offset rp =
     (if \<not> (0 < rp_iBufInAvailSize rp \<and> uWrite + byte_offset < rp_iBufOutSize rp) then Some rp
      else do {
        let rp = rp\<lparr>rp_iBufInOffset := (rp_iBufInOffset rp + 1) mod rp_iBufInSize rp,
                    rp_iBufInAvailSize := rp_iBufInAvailSize rp - 1\<rparr>;
        x \<leftarrow> arr_get (rp_pBufIn rp) (int (uRead mod rp_iBufInSize rp));
        if rp_bHasStartCodes rp \<and> rp_uZeroBytesCount rp = 2 \<and> x = 3
        then fetch_loop n (uRead + 1) uWrite byte_offset (rp\<lparr>rp_uZeroBytesCount := 0\<rparr>)
        else let
          rp = (if rp_bHasStartCodes rp \<and> 2 \<le> rp_uZeroBytesCount rp \<and> x = 1
            then rp\<lparr>rp_uNumScDetect := rp_uNumScDetect rp + 1\<rparr> else rp) in
          if rp_bHasStartCodes rp \<and> 2 \<le> rp_uZeroBytesCount rp \<and> x = 1 \<and> rp_uNumScDetect rp = 2
          then Some rp
          else do {
            let rp = (if rp_bHasStartCodes rp
              then rp\<lparr>rp_uZeroBytesCount := (if x = 0 then rp_uZeroBytesCount rp + 1 else 0)\<rparr> else rp);
            out \<leftarrow> arr_set (rp_pBuffer rp) (int (byte_offset + uWrite)) x;
            fetch_loop n (uRead + 1) (uWrite + 1) byte_offset
              (rp\<lparr>rp_iTrailingBitOneIndex := rp_iTrailingBitOneIndex rp + 8,
                  rp_iTrailingBitOneIndexConceal := rp_iTrailingBitOneIndexConceal rp + 8,
                  rp_pBuffer := out\<rparr>) } })"

primrec fetch_data_at :: "nat \<Rightarrow> AL_TRbspParser \<Rightarrow> (bool \<times> AL_TRbspParser) option" where
  "fetch_data_at 0 rp = None"
| "fetch_data_at (Suc depth) rp =
     (if \<not> rp_bHasStartCodes rp
      then Some (if rp_iBufInAvailSize rp \<noteq> 0
        then (True, rp\<lparr>rp_pBuffer := rp_pBufIn rp,
          rp_iTotalBitIndex := rp_iTotalBitIndex rp + rp_iCurrentBitIndex rp, rp_iCurrentBitIndex := 0,
          rp_iTrailingBitOneIndex := rp_iBufInAvailSize rp * 8,
          rp_iTrailingBitOneIndexConceal := rp_iBufInAvailSize rp * 8,
          rp_iBufInOffset := 0, rp_iBufInAvailSize := 0, rp_pByte := 0\<rparr>)
        else (False, rp))
      else if finished_fetching rp then Some (False, rp)
      else
        let byte_offset = rp_iTrailingBitOneIndex rp div 8 in
        if rp_iBufOutSize rp \<le> byte_offset then Some (False, rp)
        else do {
          let uOffset = rp_iBufInOffset rp;
          rp \<leftarrow> fetch_loop (min ANTI_EMUL_GRANULARITY NON_VCL_NAL_SIZE) uOffset 0 byte_offset rp;
          if finished_fetching rp
          then do { rp \<leftarrow> remove_trailing_bits_with (fetch_data_at depth) rp; Some (True, rp) }
          else Some (True, rp) })"

text \<open>The fetch inside \<open>remove_trailing_bits\<close> finds the fetching finished: depth 2 is enough.\<close>

definition fetch_data :: "AL_TRbspParser \<Rightarrow> (bool \<times> AL_TRbspParser) option" where
  "fetch_data = fetch_data_at 2"

definition read_bit :: "AL_TRbspParser \<Rightarrow> nat \<Rightarrow> (u8 \<times> AL_TRbspParser) option" where
  "read_bit = read_bit_with fetch_data"

definition remove_trailing_bits :: "AL_TRbspParser \<Rightarrow> AL_TRbspParser option" where
  "remove_trailing_bits = remove_trailing_bits_with fetch_data"

section \<open>Positions\<close>

definition get_avail_size :: "AL_TRbspParser \<Rightarrow> nat" where
  "get_avail_size rp = sub32 (8 * rp_iBufInAvailSize rp + rp_iTrailingBitOneIndex rp) (rp_iCurrentBitIndex rp)"

definition get_cur_pos :: "AL_TRbspParser \<Rightarrow> nat" where
  "get_cur_pos rp = (rp_iBufInOffset rp + rp_iCurrentBitIndex rp div 8) mod rp_iBufInSize rp"

definition rbsp_offset :: "AL_TRbspParser \<Rightarrow> nat" where
  "rbsp_offset rp = rp_iTotalBitIndex rp + rp_iCurrentBitIndex rp"

definition byte_aligned :: "AL_TRbspParser \<Rightarrow> bool" where
  "byte_aligned rp \<longleftrightarrow> rp_iCurrentBitIndex rp mod 8 = 0"

definition more_rbsp_data :: "AL_TRbspParser \<Rightarrow> (bool \<times> AL_TRbspParser) option" where
  "more_rbsp_data rp = do {
     (_, rp) \<leftarrow> fetch_data rp;
     Some (rp_iCurrentBitIndex rp < rp_iTrailingBitOneIndex rp, rp) }"

definition more_rbsp_data_conceal :: "AL_TRbspParser \<Rightarrow> bool" where
  "more_rbsp_data_conceal rp \<longleftrightarrow> rp_iCurrentBitIndex rp \<le> rp_iTrailingBitOneIndexConceal rp"

section \<open>Reading\<close>

definition UINT8_MAX :: u32 where "UINT8_MAX = 255"

definition get_next_bit :: "AL_TRbspParser \<Rightarrow> (u32 \<times> AL_TRbspParser) option" where
  "get_next_bit rp = do {
     (ok, rp) \<leftarrow> (if rp_iTrailingBitOneIndex rp < rp_iCurrentBitIndex rp + 1 then fetch_data rp else Some (True, rp));
     if \<not> ok then Some (UINT8_MAX, rp)
     else do {
       let bit_offset = rp_iCurrentBitIndex rp mod 8;
       b \<leftarrow> arr_get (rp_pBuffer rp) (int (rp_pByte rp));
       let v = (if b AND drop_bit bit_offset 0x80 \<noteq> 0 then 1 else 0);
       Some (v, rp\<lparr>rp_iCurrentBitIndex := rp_iCurrentBitIndex rp + 1,
                   rp_pByte := (if bit_offset = 7 then rp_pByte rp + 1 else rp_pByte rp)\<rparr>) } }"

text \<open>Four bytes at the current position; without start codes they wrap around the stream buffer.\<close>

definition get_cache_24 :: "AL_TRbspParser \<Rightarrow> (u32 \<times> AL_TRbspParser) option" where
  "get_cache_24 rp = do {
     let byte_offset = rp_iCurrentBitIndex rp div 8;
     let short = sub32 (rp_iTrailingBitOneIndex rp) (rp_iCurrentBitIndex rp) < 32;
     (_, rp) \<leftarrow> (if short \<and> rp_bHasStartCodes rp then fetch_data rp else Some (True, rp));
     let rd = (if short \<and> \<not> rp_bHasStartCodes rp
       then (\<lambda>i. arr_get (rp_pBufIn rp) (int ((byte_offset + rp_iBufInOffset rp + i) mod rp_iBufInSize rp)))
       else (\<lambda>i. arr_get (rp_pBuffer rp) (int (byte_offset + i))));
     b0 \<leftarrow> rd 0; b1 \<leftarrow> rd 1; b2 \<leftarrow> rd 2; b3 \<leftarrow> rd 3;
     let aligned = push_bit 24 (ucast b0) OR push_bit 16 (ucast b1) OR push_bit 8 (ucast b2) OR (ucast b3 :: u32);
     let bit_offset = rp_iCurrentBitIndex rp mod 8;
     Some (drop_bit (8 - bit_offset) aligned AND 0x00FFFFFF, rp) }"

text \<open>The loop of \<open>skip\<close>. Each successful fetch takes input, so the available size bounds the turns.\<close>

fun skip_loop :: "nat \<Rightarrow> nat \<Rightarrow> AL_TRbspParser \<Rightarrow> (bool \<times> AL_TRbspParser) option" where
  "skip_loop 0 iNumBits rp = None"
| "skip_loop (Suc f) iNumBits rp = do {
     (bRes, rp) \<leftarrow> fetch_data rp;
     if bRes \<and> sub32 (rp_iTrailingBitOneIndex rp) (rp_iCurrentBitIndex rp) < iNumBits
     then skip_loop f iNumBits rp else Some (bRes, rp) }"

definition skip :: "AL_TRbspParser \<Rightarrow> nat \<Rightarrow> AL_TRbspParser option" where
  "skip rp iNumBits = do {
     let iRemainingBits = sub32 (rp_iTrailingBitOneIndex rp) (rp_iCurrentBitIndex rp);
     (bRes, iNumBits, rp) \<leftarrow> (if iRemainingBits < iNumBits
        then do {
          let iNumBits = iNumBits - iRemainingBits;
          (bRes, rp) \<leftarrow> skip_loop (rp_iBufInAvailSize rp + 1) iNumBits
            (rp\<lparr>rp_iCurrentBitIndex := rp_iCurrentBitIndex rp + iRemainingBits\<rparr>);
          Some (bRes, iNumBits, rp) }
        else Some (True, iNumBits, rp));
     let cur = (if bRes then rp_iCurrentBitIndex rp + iNumBits else rp_iTrailingBitOneIndex rp);
     Some (rp\<lparr>rp_iCurrentBitIndex := cur, rp_pByte := cur div 8\<rparr>) }"

primrec append_bits :: "nat \<Rightarrow> u32 \<Rightarrow> AL_TRbspParser \<Rightarrow> (u32 \<times> AL_TRbspParser) option" where
  "append_bits 0 val rp = Some (val, rp)"
| "append_bits (Suc k) val rp = do {
     (b, rp) \<leftarrow> get_next_bit rp;
     append_bits k (push_bit 1 val OR b) rp }"

definition u :: "AL_TRbspParser \<Rightarrow> nat \<Rightarrow> (u32 \<times> AL_TRbspParser) option" where
  "u rp uNumBits =
     (if \<not> more_rbsp_data_conceal rp then Some (0, rp)
      else if uNumBits = 1 then get_next_bit rp
      else if uNumBits \<le> 24
      then do {
        (c, rp) \<leftarrow> get_cache_24 rp;
        let val2 = drop_bit (24 - uNumBits) c AND (push_bit uNumBits 1 - 1);
        rp \<leftarrow> skip rp uNumBits;
        Some (val2, rp) }
      else do {
        (val, rp) \<leftarrow> get_cache_24 rp;
        rp \<leftarrow> skip rp 24;
        append_bits (uNumBits - 24) val rp })"

definition i_code :: "AL_TRbspParser \<Rightarrow> nat \<Rightarrow> (int \<times> AL_TRbspParser) option" where
  "i_code rp uNumBits = do {
     let mask = (if 0 < uNumBits then push_bit (uNumBits - 1) 1 - 1 else (0 :: u32));
     (val_u, rp) \<leftarrow> u rp uNumBits;
     let abs_val = sint (val_u AND mask);
     if val_u AND NOT mask \<noteq> 0
     then Some (sint (- ((NOT val_u AND mask) + 1)), rp)
     else Some (abs_val, rp) }"

text \<open>\<open>al_log2\<close>, with its table of 256 entries.\<close>

definition tab_log2 :: "nat list" where
  "tab_log2 = [0, 0] @ replicate 2 1 @ replicate 4 2 @ replicate 8 3 @ replicate 16 4 @ replicate 32 5
     @ replicate 64 6 @ replicate 128 7"

definition al_log2 :: "u32 \<Rightarrow> nat" where
  "al_log2 v =
     (if v AND 0xFF000000 \<noteq> 0 then 24 + tab_log2 ! unat (drop_bit 24 v)
      else if v AND 0x00FF0000 \<noteq> 0 then 16 + tab_log2 ! unat (drop_bit 16 v)
      else if v AND 0x0000FF00 \<noteq> 0 then 8 + tab_log2 ! unat (drop_bit 8 v)
      else tab_log2 ! unat v)"

text \<open>The bit by bit fallback: the number of zeros before a one, or nothing when the data ends.\<close>

fun count_zeros :: "nat \<Rightarrow> nat \<Rightarrow> AL_TRbspParser \<Rightarrow> (nat option \<times> AL_TRbspParser) option" where
  "count_zeros 0 n rp = None"
| "count_zeros (Suc f) n rp = do {
     (b, rp) \<leftarrow> get_next_bit rp;
     if b = 1 then Some (Some n, rp)
     else if b = 255 then Some (None, rp)
     else count_zeros f (n + 1) rp }"

text \<open>Every turn consumes a bit of the input that is left.\<close>

definition bits_left :: "AL_TRbspParser \<Rightarrow> nat" where
  "bits_left rp = 8 * length (rp_pBuffer rp) + 8 * rp_iBufInAvailSize rp + 2"

definition ue :: "AL_TRbspParser \<Rightarrow> (u32 \<times> AL_TRbspParser) option" where
  "ue rp =
     (if \<not> more_rbsp_data_conceal rp then Some (0, rp)
      else do {
        (c, rp) \<leftarrow> get_cache_24 rp;
        let n = 23 - al_log2 c;
        (n, rp) \<leftarrow> (if n = 23 then count_zeros (bits_left rp) 0 rp
                   else do { rp \<leftarrow> skip rp (n + 1); Some (Some n, rp) });
        case n of None \<Rightarrow> Some (0, rp)
        | Some n \<Rightarrow> if n \<noteq> 0
            then (if 32 \<le> n then Some (0, rp)
              else do { (v, rp) \<leftarrow> u rp n; Some (push_bit n 1 - 1 + v, rp) })
            else Some (0, rp) })"

definition se :: "AL_TRbspParser \<Rightarrow> (int \<times> AL_TRbspParser) option" where
  "se rp =
     (if \<not> more_rbsp_data_conceal rp then Some (0, rp)
      else do {
        (k, rp) \<leftarrow> ue rp;
        let iValue = sint (drop_bit 1 (k + 1));
        Some (if even (uint (k + 1)) then iValue else - iValue, rp) })"

section \<open>Alignment and the end of a unit\<close>

fun simple_byte_alignment_loop :: "nat \<Rightarrow> AL_TRbspParser \<Rightarrow> u32 \<Rightarrow> (bool \<times> AL_TRbspParser) option" where
  "simple_byte_alignment_loop f rp expected_bit =
     (if byte_aligned rp then Some (True, rp)
      else case f of 0 \<Rightarrow> None
      | Suc f \<Rightarrow> do {
          (b, rp) \<leftarrow> u rp 1;
          if b \<noteq> expected_bit then Some (False, rp) else simple_byte_alignment_loop f rp expected_bit })"

declare simple_byte_alignment_loop.simps [simp del]

definition simple_byte_alignment :: "AL_TRbspParser \<Rightarrow> u32 \<Rightarrow> (bool \<times> AL_TRbspParser) option" where
  "simple_byte_alignment rp expected_bit = simple_byte_alignment_loop 8 rp expected_bit"

definition byte_alignment :: "AL_TRbspParser \<Rightarrow> (bool \<times> AL_TRbspParser) option" where
  "byte_alignment rp = do {
     (b, rp) \<leftarrow> u rp 1;
     if b \<noteq> 1 \<or> b = UINT8_MAX then Some (False, rp) else simple_byte_alignment rp 0 }"

definition rbsp_trailing_bits :: "AL_TRbspParser \<Rightarrow> (bool \<times> AL_TRbspParser) option" where
  "rbsp_trailing_bits rp = do {
     rp \<leftarrow> remove_trailing_bits rp;
     if rp_iCurrentBitIndex rp \<noteq> rp_iTrailingBitOneIndex rp then Some (False, rp)
     else do {
       let rp = rp\<lparr>rp_iTrailingBitOneIndex := rp_iTrailingBitOneIndexConceal rp\<rparr>;
       (b, rp) \<leftarrow> u rp 1;
       if b = 0 \<or> b = UINT8_MAX then Some (False, rp)
       else simple_byte_alignment_loop 8 rp 0 } }"

definition getbyte :: "AL_TRbspParser \<Rightarrow> (u8 \<times> AL_TRbspParser) option" where
  "getbyte rp =
     (if \<not> byte_aligned rp then None
      else do {
        (ok, rp) \<leftarrow> (if rp_iTrailingBitOneIndex rp < rp_iCurrentBitIndex rp + 8 then fetch_data rp else Some (True, rp));
        if \<not> ok
        then let cur = rp_iTrailingBitOneIndexConceal rp in
          Some (0, rp\<lparr>rp_iCurrentBitIndex := cur, rp_pByte := cur div 8\<rparr>)
        else if \<not> rp_iCurrentBitIndex rp \<le> rp_iTrailingBitOneIndex rp then None
        else do {
          b \<leftarrow> arr_get (rp_pBuffer rp) (int (rp_iCurrentBitIndex rp div 8));
          Some (b, rp\<lparr>rp_iCurrentBitIndex := rp_iCurrentBitIndex rp + 8, rp_pByte := rp_pByte rp + 1\<rparr>) } })"

fun skipAllZeros_loop :: "nat \<Rightarrow> AL_TRbspParser \<Rightarrow> AL_TRbspParser option" where
  "skipAllZeros_loop 0 rp = None"
| "skipAllZeros_loop (Suc f) rp = do {
     (b, rp) \<leftarrow> u rp 8;
     if b = 0 then skipAllZeros_loop f rp else Some rp }"

definition skipAllZerosAndTheNextByte :: "AL_TRbspParser \<Rightarrow> AL_TRbspParser option" where
  "skipAllZerosAndTheNextByte rp = skipAllZeros_loop (bits_left rp) rp"

section \<open>What a parser stands for\<close>

text \<open>
  With start codes, the parser reads a unit of bytes \<open>B\<close>: those fetched so far and what the
  automaton makes of the input that is left. \<open>S\<close> is the position of the stop bit, the last bit
  set; the payload is what comes before.
\<close>

definition rp_input :: "AL_TRbspParser \<Rightarrow> u8 list" where
  "rp_input rp = ring (rp_pBufIn rp) (rp_iBufInOffset rp) (rp_iBufInAvailSize rp)"

definition rp_rest :: "AL_TRbspParser \<Rightarrow> u8 list" where
  "rp_rest rp = (if rp_uNumScDetect rp = 2 then []
     else unescape (rp_uZeroBytesCount rp) (rp_uNumScDetect rp) (rp_input rp))"

definition stop_bit :: "u8 list \<Rightarrow> nat \<Rightarrow> bool" where
  "stop_bit B S \<longleftrightarrow> S < 8 * length B \<and> bytes_bits B ! S \<and> (\<forall>i. S < i \<longrightarrow> i < 8 * length B \<longrightarrow> \<not> bytes_bits B ! i)"

text \<open>\<open>k\<close> bytes fetched, the rest still to come.\<close>

definition fetched :: "u8 list \<Rightarrow> nat \<Rightarrow> AL_TRbspParser \<Rightarrow> bool" where
  "fetched B k rp \<longleftrightarrow> k \<le> length B \<and> take k (rp_pBuffer rp) = take k B \<and> drop k B = rp_rest rp"

definition rp_buffers :: "u8 list \<Rightarrow> AL_TRbspParser \<Rightarrow> bool" where
  "rp_buffers B rp \<longleftrightarrow> rp_bHasStartCodes rp \<and> 0 < rp_iBufInSize rp \<and> rp_iBufInSize rp = length (rp_pBufIn rp)
     \<and> length B + 4 \<le> rp_iBufOutSize rp \<and> rp_iBufOutSize rp \<le> length (rp_pBuffer rp)
     \<and> length B + 4 < 2 ^ 28 \<and> rp_iTotalBitIndex rp = 0"

definition rp_at :: "u8 list \<Rightarrow> nat \<Rightarrow> AL_TRbspParser \<Rightarrow> bool" where
  "rp_at B S rp \<longleftrightarrow> rp_buffers B rp \<and> stop_bit B S \<and> rp_iCurrentBitIndex rp \<le> S
     \<and> (if finished_fetching rp
        then take (length B) (rp_pBuffer rp) = B \<and> rp_iTrailingBitOneIndex rp = S
          \<and> rp_iTrailingBitOneIndexConceal rp = (S + 8) div 8 * 8
        else \<exists>k. fetched B k rp \<and> rp_iTrailingBitOneIndex rp = 8 * k \<and> rp_iTrailingBitOneIndexConceal rp = 8 * k
          \<and> rp_iCurrentBitIndex rp \<le> 8 * k)"

definition rp_ok :: "u8 list \<Rightarrow> nat \<Rightarrow> AL_TRbspParser \<Rightarrow> bool" where
  "rp_ok B S rp \<longleftrightarrow> rp_at B S rp \<and> rp_pByte rp = rp_iCurrentBitIndex rp div 8"

text \<open>The fields the fetch loop leaves alone.\<close>

definition same_reader :: "AL_TRbspParser \<Rightarrow> AL_TRbspParser \<Rightarrow> bool" where
  "same_reader rp rp' \<longleftrightarrow> rp_iCurrentBitIndex rp' = rp_iCurrentBitIndex rp \<and> rp_pByte rp' = rp_pByte rp
     \<and> rp_iTotalBitIndex rp' = rp_iTotalBitIndex rp \<and> rp_pBufIn rp' = rp_pBufIn rp
     \<and> rp_iBufInSize rp' = rp_iBufInSize rp \<and> rp_iBufOutSize rp' = rp_iBufOutSize rp
     \<and> rp_bHasStartCodes rp' = rp_bHasStartCodes rp \<and> length (rp_pBuffer rp') = length (rp_pBuffer rp)
     \<and> rp_iBufInAvailSize rp' \<le> rp_iBufInAvailSize rp"

lemma same_reader_refl [simp]: "same_reader rp rp"
  by (simp add: same_reader_def)

lemma same_reader_trans: "same_reader a b \<Longrightarrow> same_reader b c \<Longrightarrow> same_reader a c"
  by (auto simp: same_reader_def)

lemma same_reader_buffers: "same_reader rp rp' \<Longrightarrow> rp_buffers B rp \<Longrightarrow> rp_buffers B rp'"
  by (auto simp: same_reader_def rp_buffers_def)

lemma rp_input_Cons:
  assumes "0 < rp_iBufInAvailSize rp" "rp_iBufInSize rp = length (rp_pBufIn rp)"
  shows "rp_input rp = rp_pBufIn rp ! (rp_iBufInOffset rp mod rp_iBufInSize rp)
    # rp_input (rp\<lparr>rp_iBufInOffset := (rp_iBufInOffset rp + 1) mod rp_iBufInSize rp,
                  rp_iBufInAvailSize := rp_iBufInAvailSize rp - 1\<rparr>)"
proof -
  obtain n where "rp_iBufInAvailSize rp = Suc n" using assms(1) by (cases "rp_iBufInAvailSize rp") auto
  then show ?thesis using assms(2) by (simp add: rp_input_def ring_Cons)
qed

text \<open>
  One chunk. A removed byte is preceded by two kept ones, so of \<open>n\<close> bytes read at least two
  thirds are kept; \<open>zcredit\<close> is what the zeros seen before the chunk allow.
\<close>

definition zcredit :: "u8 \<Rightarrow> nat" where
  "zcredit z = (if z = 2 then 2 else if z = 1 then 1 else 0)"

lemma zcredit_step: "zcredit (if x = 0 then z + 1 else 0) \<le> zcredit z + 1"
proof -
  have "z + 1 = 2 \<longleftrightarrow> z = 1" "z + 1 = 1 \<longleftrightarrow> z = 0" by (metis add_diff_cancel_right' one_add_one diff_add_cancel, simp)
  then show ?thesis by (auto simp: zcredit_def)
qed

lemma zcredit_le: "zcredit z \<le> 2"
  by (simp add: zcredit_def)

lemma fetched_next:
  assumes "fetched B k rp" "rp_rest rp = x # rp_rest rp'" "rp_pBuffer rp' = (rp_pBuffer rp)[k := x]"
    "length B \<le> length (rp_pBuffer rp)"
  shows "fetched B (Suc k) rp'"
proof -
  have d: "drop k B = x # rp_rest rp'" using assms(1,2) by (simp add: fetched_def)
  then have k: "k < length B" by (metis drop_eq_Nil linorder_not_less list.discI)
  have x: "B ! k = x" "drop (Suc k) B = rp_rest rp'" using d k by (metis Cons_nth_drop_Suc list.inject)+
  have "take (Suc k) (rp_pBuffer rp') = take (Suc k) B"
    using assms k x(1) by (simp add: take_Suc_conv_app_nth fetched_def)
  then show ?thesis using k x(2) by (simp add: fetched_def)
qed

lemma fetch_loop_correct:
  assumes "rp_buffers B rp" "fetched B (uWrite + off) rp" "rp_iTrailingBitOneIndex rp = 8 * (uWrite + off)"
    "rp_iTrailingBitOneIndexConceal rp = 8 * (uWrite + off)" "rp_uNumScDetect rp \<noteq> 2"
    "uRead mod rp_iBufInSize rp = rp_iBufInOffset rp mod rp_iBufInSize rp"
  shows "\<exists>rp' k. fetch_loop n uRead uWrite off rp = Some rp' \<and> same_reader rp rp' \<and> fetched B k rp'
    \<and> rp_iTrailingBitOneIndex rp' = 8 * k \<and> rp_iTrailingBitOneIndexConceal rp' = 8 * k \<and> uWrite + off \<le> k
    \<and> (finished_fetching rp' \<or> 2 * n + 3 * (uWrite + off) \<le> 3 * k + zcredit (rp_uZeroBytesCount rp))
    \<and> (0 < n \<longrightarrow> 0 < rp_iBufInAvailSize rp \<longrightarrow> rp_iBufInAvailSize rp' < rp_iBufInAvailSize rp)"
  using assms
proof (induction n arbitrary: uRead uWrite rp)
  case 0
  then show ?case by (intro exI [of _ rp] exI [of _ "uWrite + off"]) simp
next
  case (Suc n)
  let ?k = "uWrite + off"
  have buf: "rp_bHasStartCodes rp" "0 < rp_iBufInSize rp" "rp_iBufInSize rp = length (rp_pBufIn rp)"
    "length B < rp_iBufOutSize rp" "length B < length (rp_pBuffer rp)"
    using Suc.prems(1) by (auto simp: rp_buffers_def)
  have k: "?k \<le> length B" using Suc.prems(2) by (simp add: fetched_def)
  show ?case
  proof (cases "rp_iBufInAvailSize rp = 0")
    case True
    then show ?thesis
      using Suc.prems by (intro exI [of _ rp] exI [of _ ?k]) (simp add: finished_fetching_def)
  next
    case False
    let ?x = "rp_pBufIn rp ! (uRead mod rp_iBufInSize rp)"
    let ?z = "rp_uZeroBytesCount rp" and ?sc = "rp_uNumScDetect rp"
    let ?rp1 = "rp\<lparr>rp_iBufInOffset := (rp_iBufInOffset rp + 1) mod rp_iBufInSize rp,
                  rp_iBufInAvailSize := rp_iBufInAvailSize rp - 1\<rparr>"
    have x: "arr_get (rp_pBufIn rp) (int (uRead mod rp_iBufInSize rp)) = Some ?x"
      using buf(2,3) by simp
    have inp: "rp_input rp = ?x # rp_input ?rp1"
      using rp_input_Cons [of rp] False buf(3) Suc.prems(6) by simp
    have nxt: "(uRead + 1) mod rp_iBufInSize rp = ((rp_iBufInOffset rp + 1) mod rp_iBufInSize rp) mod rp_iBufInSize rp"
      using Suc.prems(6) by (metis mod_add_left_eq mod_mod_trivial)
    have go: "\<not> \<not> (0 < rp_iBufInAvailSize rp \<and> ?k < rp_iBufOutSize rp)"
      using False buf(4) k by simp
    consider (skip3) "?z = 2 \<and> ?x = 3" | (stop) "\<not> (?z = 2 \<and> ?x = 3)" "2 \<le> ?z \<and> ?x = 1 \<and> ?sc + 1 = 2"
      | (keep) "\<not> (?z = 2 \<and> ?x = 3)" "\<not> (2 \<le> ?z \<and> ?x = 1 \<and> ?sc + 1 = 2)" by blast
    then show ?thesis
    proof cases
      case skip3
      let ?rp = "?rp1\<lparr>rp_uZeroBytesCount := 0\<rparr>"
      have run: "fetch_loop (Suc n) uRead uWrite off rp = fetch_loop n (uRead + 1) uWrite off ?rp"
        using go x skip3 buf(1) by (simp add: Let_def)
      have "rp_rest rp = rp_rest ?rp"
        using Suc.prems(5) inp skip3 by (simp add: rp_rest_def rp_input_def)
      then have "fetched B ?k ?rp" using Suc.prems(2) by (simp add: fetched_def)
      then obtain rp' k where r: "fetch_loop n (uRead + 1) uWrite off ?rp = Some rp'" "same_reader ?rp rp'"
        "fetched B k rp'" "rp_iTrailingBitOneIndex rp' = 8 * k" "rp_iTrailingBitOneIndexConceal rp' = 8 * k" "?k \<le> k"
        "finished_fetching rp' \<or> 2 * n + 3 * ?k \<le> 3 * k + zcredit 0"
        using Suc.IH [of ?rp uWrite "uRead + 1"] Suc.prems nxt by (auto simp: rp_buffers_def)
      have "same_reader rp rp'" "rp_iBufInAvailSize rp' < rp_iBufInAvailSize rp"
        using r(2) False by (auto simp: same_reader_def)
      moreover have "zcredit ?z = 2" "zcredit 0 = 0" using skip3 by (simp_all add: zcredit_def)
      ultimately show ?thesis
        using r run by (intro exI [of _ rp'] exI [of _ k]) auto
    next
      case stop
      let ?rp = "?rp1\<lparr>rp_uNumScDetect := ?sc + 1\<rparr>"
      have run: "fetch_loop (Suc n) uRead uWrite off rp = Some ?rp"
        using go x stop buf(1) by (simp add: Let_def)
      have "rp_rest rp = []" using Suc.prems(5) inp stop by (auto simp: rp_rest_def)
      then have "fetched B ?k ?rp" using Suc.prems(2) stop by (simp add: fetched_def rp_rest_def)
      moreover have "finished_fetching ?rp" using stop by (simp add: finished_fetching_def)
      moreover have "same_reader rp ?rp" by (simp add: same_reader_def)
      ultimately show ?thesis
        using run Suc.prems(3,4) False by (intro exI [of _ ?rp] exI [of _ ?k]) simp
    next
      case keep
      let ?sc' = "if 2 \<le> ?z \<and> ?x = 1 then ?sc + 1 else ?sc" and ?z' = "if ?x = 0 then ?z + 1 else 0"
      let ?rp = "?rp1\<lparr>rp_uNumScDetect := ?sc', rp_uZeroBytesCount := ?z',
        rp_iTrailingBitOneIndex := rp_iTrailingBitOneIndex rp + 8,
        rp_iTrailingBitOneIndexConceal := rp_iTrailingBitOneIndexConceal rp + 8,
        rp_pBuffer := (rp_pBuffer rp)[?k := ?x]\<rparr>"
      have sc': "?sc' \<noteq> 2" using keep Suc.prems(5) by auto
      have out: "arr_set (rp_pBuffer rp) (int (off + uWrite)) ?x = Some ((rp_pBuffer rp)[?k := ?x])"
        using k buf(5) unfolding arr_set_def nat_int by (simp add: add.commute)
      have run: "fetch_loop (Suc n) uRead uWrite off rp = fetch_loop n (uRead + 1) (uWrite + 1) off ?rp"
        using go x keep buf(1) out Suc.prems(5) by (cases "2 \<le> ?z \<and> ?x = 1") (auto simp: Let_def)
      have "rp_rest rp = ?x # rp_rest ?rp"
        using Suc.prems(5) inp keep sc' by (auto simp: rp_rest_def rp_input_def)
      then have "fetched B (Suc ?k) ?rp"
        using fetched_next [OF Suc.prems(2), of ?x ?rp] buf(5) by simp
      moreover have "rp_buffers B ?rp" using Suc.prems(1) by (auto simp: rp_buffers_def)
      ultimately obtain rp' k where r: "fetch_loop n (uRead + 1) (uWrite + 1) off ?rp = Some rp'" "same_reader ?rp rp'"
        "fetched B k rp'" "rp_iTrailingBitOneIndex rp' = 8 * k" "rp_iTrailingBitOneIndexConceal rp' = 8 * k"
        "Suc ?k \<le> k" "finished_fetching rp' \<or> 2 * n + 3 * Suc ?k \<le> 3 * k + zcredit ?z'"
        using Suc.IH [of ?rp "uWrite + 1" "uRead + 1"] Suc.prems(3,4) sc' nxt by auto
      have "same_reader rp rp'" "rp_iBufInAvailSize rp' < rp_iBufInAvailSize rp"
        using r(2) False by (auto simp: same_reader_def)
      then show ?thesis
        using r run zcredit_step [of ?x ?z] by (intro exI [of _ rp'] exI [of _ k]) auto
    qed
  qed
qed

lemma trailing_loop_finds:
  assumes "rp_iCurrentBitIndex rp < rp_iTrailingBitOneIndex rp" "take (length B) (rp_pBuffer rp) = B"
    "stop_bit B S" "S \<le> i" "i < 8 * length B"
  shows "trailing_loop fetch i rp = Some (S, rp)"
  using assms
proof (induction i)
  case (Suc i)
  have rd: "read_bit_with fetch rp j = Some (B ! (j div 8) AND push_bit (7 - j mod 8) 1, rp)
      \<and> (B ! (j div 8) AND push_bit (7 - j mod 8) 1 = 0 \<longleftrightarrow> \<not> bytes_bits B ! j)" if "j < 8 * length B" for j
  proof -
    have "j div 8 < length B" using that by simp
    moreover then have "j div 8 < length (rp_pBuffer rp)" "rp_pBuffer rp ! (j div 8) = B ! (j div 8)"
      using assms(2) by (metis length_take min_less_iff_conj) (metis assms(2) nth_take \<open>j div 8 < length B\<close>)
    ultimately show ?thesis
      using assms(1) that bytes_bits_nth [OF that] by (simp add: read_bit_with_def bit_iff_and_push_bit_not_eq_0)
  qed
  show ?case
  proof (cases "S = Suc i")
    case True
    then show ?thesis using rd [of "Suc i"] Suc.prems by (auto simp: stop_bit_def)
  next
    case False
    then have "\<not> bytes_bits B ! Suc i" using Suc.prems by (auto simp: stop_bit_def)
    then show ?thesis using rd [of "Suc i"] Suc False by simp
  qed
next
  case 0
  then have "0 < length B" by simp
  then have "0 < length (rp_pBuffer rp)" using assms(2) by (metis length_take min_less_iff_conj)
  then show ?case using 0 assms(1) by (simp add: read_bit_with_def)
qed

lemma fetch_data_finished: "rp_bHasStartCodes rp \<Longrightarrow> finished_fetching rp \<Longrightarrow> fetch_data rp = Some (False, rp)"
  by (simp add: fetch_data_def numeral_2_eq_2)

lemma fetched_finished:
  "fetched B k rp \<Longrightarrow> finished_fetching rp \<Longrightarrow> k = length B \<and> take (length B) (rp_pBuffer rp) = B"
proof -
  assume f: "fetched B k rp" "finished_fetching rp"
  then have "rp_rest rp = []"
    by (cases "rp_uNumScDetect rp = 2") (auto simp: finished_fetching_def rp_rest_def rp_input_def)
  then show ?thesis using f(1) by (auto simp: fetched_def)
qed

lemma fetch_data_correct:
  assumes "rp_at B S rp" "\<not> finished_fetching rp"
  shows "\<exists>rp'. fetch_data rp = Some (True, rp') \<and> rp_at B S rp' \<and> same_reader rp rp'
    \<and> (finished_fetching rp' \<or> rp_iTrailingBitOneIndex rp + 160 \<le> rp_iTrailingBitOneIndex rp')
    \<and> rp_iBufInAvailSize rp' < rp_iBufInAvailSize rp"
proof -
  have buf: "rp_buffers B rp" and st: "stop_bit B S" and cur: "rp_iCurrentBitIndex rp \<le> S"
    using assms(1) by (auto simp: rp_at_def)
  obtain k where k: "fetched B k rp" "rp_iTrailingBitOneIndex rp = 8 * k"
    "rp_iTrailingBitOneIndexConceal rp = 8 * k" "rp_iCurrentBitIndex rp \<le> 8 * k"
    using assms by (auto simp: rp_at_def)
  have sc: "rp_uNumScDetect rp \<noteq> 2" "0 < rp_iBufInAvailSize rp" "rp_bHasStartCodes rp"
    using assms(2) buf by (auto simp: finished_fetching_def rp_buffers_def)
  obtain rp1 k1 where r: "fetch_loop 32 (rp_iBufInOffset rp) 0 k rp = Some rp1" "same_reader rp rp1"
    "fetched B k1 rp1" "rp_iTrailingBitOneIndex rp1 = 8 * k1" "rp_iTrailingBitOneIndexConceal rp1 = 8 * k1" "k \<le> k1"
    "finished_fetching rp1 \<or> 2 * 32 + 3 * k \<le> 3 * k1 + zcredit (rp_uZeroBytesCount rp)"
    "rp_iBufInAvailSize rp1 < rp_iBufInAvailSize rp"
    using fetch_loop_correct [of B rp 0 k "rp_iBufInOffset rp" 32] buf k sc by auto
  have start: "fetch_data rp = (if finished_fetching rp1
      then do { rp \<leftarrow> remove_trailing_bits_with (fetch_data_at 1) rp1; Some (True, rp) } else Some (True, rp1))"
    using assms(2) sc k buf r(1)
    by (auto simp: fetch_data_def numeral_2_eq_2 Let_def rp_buffers_def fetched_def ANTI_EMUL_GRANULARITY_def
        NON_VCL_NAL_SIZE_def)
  have buf1: "rp_buffers B rp1" by (rule same_reader_buffers [OF r(2) buf])
  have same: "rp_iCurrentBitIndex rp1 = rp_iCurrentBitIndex rp"
    using r(2) by (simp_all add: same_reader_def)
  show ?thesis
  proof (cases "finished_fetching rp1")
    case False
    then have "2 * 32 + 3 * k \<le> 3 * k1 + 2" using r(7) zcredit_le [of "rp_uZeroBytesCount rp"] by simp
    then have "k + 20 \<le> k1" by simp
    moreover have "rp_at B S rp1"
      using False r(3-6) buf1 st cur same k(4) by (auto simp: rp_at_def)
    ultimately show ?thesis using False start r(2,4,8) k(2) by auto
  next
    case True
    have all: "k1 = length B" "take (length B) (rp_pBuffer rp1) = B"
      using fetched_finished [OF r(3) True] by auto
    have S: "S < 8 * length B" using st by (simp add: stop_bit_def)
    have "8 * length B < 2 ^ 32" using buf by (simp add: rp_buffers_def)
    then have "sub32 (8 * length B) 1 = 8 * length B - 1" using S by (cases B) (auto simp: sub32_def mod_if)
    moreover have "trailing_loop (fetch_data_at 1) (8 * length B - 1) rp1 = Some (S, rp1)"
      by (rule trailing_loop_finds) (use S cur same r(4) all st in auto)
    ultimately have rtb: "remove_trailing_bits_with (fetch_data_at 1) rp1 =
        Some (rp1\<lparr>rp_iTrailingBitOneIndex := S, rp_iTrailingBitOneIndexConceal := (S + 8) div 8 * 8\<rparr>)"
      using r(4) all(1) cur same by (simp add: remove_trailing_bits_with_def Let_def)
    let ?rp = "rp1\<lparr>rp_iTrailingBitOneIndex := S, rp_iTrailingBitOneIndexConceal := (S + 8) div 8 * 8\<rparr>"
    have "fetch_data rp = Some (True, ?rp)" using start True rtb by simp
    moreover have fin: "finished_fetching ?rp" using True by (simp add: finished_fetching_def)
    moreover have "rp_at B S ?rp"
      using fin buf1 st cur same all by (auto simp: rp_at_def rp_buffers_def)
    moreover have "same_reader rp ?rp" using r(2) by (simp add: same_reader_def)
    ultimately show ?thesis using r(8) by (intro exI [of _ ?rp]) simp
  qed
qed

lemma rp_ok_at: "rp_ok B S rp \<Longrightarrow> rp_at B S rp"
  by (simp add: rp_ok_def)

lemma rp_at_finished: "rp_at B S rp \<Longrightarrow> finished_fetching rp \<Longrightarrow> rp_iTrailingBitOneIndex rp = S"
  by (simp add: rp_at_def)

lemma rp_at_bounds:
  assumes "rp_at B S rp"
  shows "rp_iCurrentBitIndex rp \<le> S" "S < 8 * length B" "rp_iCurrentBitIndex rp \<le> rp_iTrailingBitOneIndex rp"
    "rp_iTrailingBitOneIndex rp < 2 ^ 32" "length B + 4 \<le> length (rp_pBuffer rp)" "rp_bHasStartCodes rp"
  using assms by (auto simp: rp_at_def rp_buffers_def stop_bit_def fetched_def split: if_splits)

lemma rp_at_sub32:
  assumes "rp_at B S rp"
  shows "sub32 (rp_iTrailingBitOneIndex rp) (rp_iCurrentBitIndex rp) = rp_iTrailingBitOneIndex rp - rp_iCurrentBitIndex rp"
proof -
  have "rp_iTrailingBitOneIndex rp - rp_iCurrentBitIndex rp < 2 ^ 32" using rp_at_bounds(4) [OF assms] by simp
  moreover have "rp_iTrailingBitOneIndex rp + 2 ^ 32 - rp_iCurrentBitIndex rp =
      rp_iTrailingBitOneIndex rp - rp_iCurrentBitIndex rp + 2 ^ 32"
    using rp_at_bounds(3) [OF assms] by simp
  ultimately show ?thesis unfolding sub32_def by (metis mod_add_self2 mod_less)
qed

lemma rp_at_byte:
  assumes "rp_at B S rp" "j < length B" "finished_fetching rp \<or> 8 * j < rp_iTrailingBitOneIndex rp"
  shows "rp_pBuffer rp ! j = B ! j"
proof -
  have "\<exists>k. take k (rp_pBuffer rp) = take k B \<and> j < k"
  proof (cases "finished_fetching rp")
    case True
    then show ?thesis using assms by (intro exI [of _ "length B"]) (simp add: rp_at_def)
  next
    case False
    then show ?thesis using assms by (auto simp: rp_at_def fetched_def)
  qed
  then show ?thesis by (metis nth_take)
qed

lemma rp_at_conceal: "rp_at B S rp \<Longrightarrow> more_rbsp_data_conceal rp"
  by (auto simp: rp_at_def more_rbsp_data_conceal_def split: if_splits)

lemma rp_at_move:
  assumes "rp_at B S rp" "c \<le> S" "c \<le> rp_iTrailingBitOneIndex rp"
  shows "rp_at B S (rp\<lparr>rp_iCurrentBitIndex := c\<rparr>)"
  using assms by (auto simp: rp_at_def finished_fetching_def rp_buffers_def fetched_def rp_rest_def
      rp_input_def split: if_splits)

lemma rp_ok_move:
  assumes "rp_at B S rp" "c \<le> S" "c \<le> rp_iTrailingBitOneIndex rp"
  shows "rp_ok B S (rp\<lparr>rp_iCurrentBitIndex := c, rp_pByte := c div 8\<rparr>)"
  using assms by (auto simp: rp_ok_def rp_at_def finished_fetching_def rp_buffers_def fetched_def rp_rest_def
      rp_input_def split: if_splits)

section \<open>Single bits\<close>

lemma drop_bit_0x80:
  assumes "m < 8"
  shows "drop_bit m 0x80 = (push_bit (7 - m) 1 :: u8)"
proof (rule bit_eqI)
  fix j assume j: "possible_bit TYPE(u8) j"
  have "bit (drop_bit m (push_bit 7 1) :: u8) j = (m + j = 7)"
    using assms by (auto simp only: bit_drop_bit_eq comp_def bit_push_bit_iff bit_1_iff possible_bit_word) simp
  moreover have "bit (push_bit (7 - m) 1 :: u8) j = (m + j = 7)"
    using assms j by (auto simp only: bit_push_bit_iff bit_1_iff possible_bit_word)
  ultimately show "bit (drop_bit m 0x80 :: u8) j = bit (push_bit (7 - m) 1 :: u8) j" by simp
qed

lemma get_next_bit_correct:
  assumes "rp_ok B S rp" "rp_iCurrentBitIndex rp < S"
  shows "\<exists>rp'. get_next_bit rp = Some (if bytes_bits B ! rp_iCurrentBitIndex rp then 1 else 0, rp')
    \<and> rp_ok B S rp' \<and> rp_iCurrentBitIndex rp' = rp_iCurrentBitIndex rp + 1"
proof -
  let ?c = "rp_iCurrentBitIndex rp"
  have "\<exists>rp1. (if rp_iTrailingBitOneIndex rp < ?c + 1 then fetch_data rp else Some (True, rp)) = Some (True, rp1)
    \<and> rp_at B S rp1 \<and> rp_iCurrentBitIndex rp1 = ?c \<and> rp_pByte rp1 = ?c div 8 \<and> ?c < rp_iTrailingBitOneIndex rp1"
  proof (cases "rp_iTrailingBitOneIndex rp < ?c + 1")
    case True
    then have "\<not> finished_fetching rp" using rp_at_finished [OF rp_ok_at [OF assms(1)]] assms(2) by auto
    from fetch_data_correct [OF rp_ok_at [OF assms(1)] this] obtain rp1 where rp1:
      "fetch_data rp = Some (True, rp1)" "rp_at B S rp1" "same_reader rp rp1"
      "finished_fetching rp1 \<or> rp_iTrailingBitOneIndex rp + 160 \<le> rp_iTrailingBitOneIndex rp1" by blast
    have "?c < rp_iTrailingBitOneIndex rp1"
      using rp1(4) rp_at_finished [OF rp1(2)] assms(2) rp_at_bounds(3) [OF rp_ok_at [OF assms(1)]] by auto
    then show ?thesis using rp1 True assms(1) by (auto simp: same_reader_def rp_ok_def)
  qed (use assms in \<open>auto simp: rp_ok_def\<close>)
  then obtain rp1 where rp1: "(if rp_iTrailingBitOneIndex rp < ?c + 1 then fetch_data rp else Some (True, rp)) = Some (True, rp1)"
    "rp_at B S rp1" "rp_iCurrentBitIndex rp1 = ?c" "rp_pByte rp1 = ?c div 8" "?c < rp_iTrailingBitOneIndex rp1"
    by blast
  have c: "?c < 8 * length B" "?c div 8 < length B" using assms(2) rp_at_bounds(2) [OF rp1(2)] by auto
  have "8 * (?c div 8) \<le> ?c" by simp
  then have byte: "rp_pBuffer rp1 ! (?c div 8) = B ! (?c div 8)"
    using rp_at_byte [OF rp1(2) c(2)] rp1(5) by linarith
  have get: "arr_get (rp_pBuffer rp1) (int (?c div 8)) = Some (B ! (?c div 8))"
    using byte c(2) rp_at_bounds(5) [OF rp1(2)] by (simp add: arr_get_def)
  have "drop_bit (?c mod 8) 0x80 = (push_bit (7 - ?c mod 8) 1 :: u8)" by (rule drop_bit_0x80) simp
  then have tst: "B ! (?c div 8) AND drop_bit (?c mod 8) 0x80 \<noteq> 0 \<longleftrightarrow> bytes_bits B ! ?c"
    using bytes_bits_nth [OF c(1)] by (simp add: bit_iff_and_push_bit_not_eq_0)
  let ?rp = "rp1\<lparr>rp_iCurrentBitIndex := ?c + 1, rp_pByte := (?c + 1) div 8\<rparr>"
  have "(if ?c mod 8 = 7 then ?c div 8 + 1 else ?c div 8) = (?c + 1) div 8" by (simp add: div_Suc mod_Suc)
  then have "get_next_bit rp = Some (if bytes_bits B ! ?c then 1 else 0, ?rp)"
    using rp1(1,3,4) get tst by (auto simp: get_next_bit_def Let_def)
  moreover have "rp_ok B S ?rp" by (rule rp_ok_move [OF rp1(2)]) (use assms(2) rp1(5) in auto)
  ultimately show ?thesis by (intro exI [of _ ?rp]) simp
qed

section \<open>The cache of 24 bits\<close>

lemma be_bytes_bit:
  fixes b0 b1 b2 b3 :: u8
  assumes "j < 32"
  shows "bit (push_bit 24 (ucast b0) OR push_bit 16 (ucast b1) OR push_bit 8 (ucast b2) OR ucast b3 :: u32) (31 - j)
    \<longleftrightarrow> bit ([b0, b1, b2, b3] ! (j div 8)) (7 - j mod 8)"
proof -
  have l: "bit b i \<Longrightarrow> i < 8" for b :: u8 and i using bit_imp_le_length by fastforce
  have high: "\<not> bit b (8 + i)" "\<not> bit b (16 + i)" "\<not> bit b (24 + i)" for b :: u8 and i using l by force+
  obtain k m where km: "j div 8 = k" "j mod 8 = m" "j = 8 * k + m" "m < 8" "k < 4"
    using assms by (metis mult_div_mod_eq mod_less_divisor less_mult_imp_div_less zero_less_numeral
        mult_numeral_left_semiring_numeral num_double numeral_times_numeral)
  obtain i where i: "7 - m = i" "31 - j = 8 * (3 - k) + i" "i < 8" using km by auto
  have "k = 0 \<or> k = 1 \<or> k = 2 \<or> k = 3" using km(5) by linarith
  then show ?thesis
    unfolding km(1,2) i(1,2)
    using i(3) by (elim disjE; simp add: bit_or_iff bit_push_bit_iff bit_ucast_iff high)
qed

lemma mask_bit: "i < n \<Longrightarrow> n \<le> 32 \<Longrightarrow> bit (drop_bit k w AND mask n) i = bit w (i + k)" for w :: u32
  by (simp add: bit_and_iff bit_drop_bit_eq bit_mask_iff add.commute)

lemma four_nth: "k < 4 \<Longrightarrow> [f 0, f 1, f 2, f 3] ! k = f (k :: nat)"
  by (auto simp: less_Suc_eq numeral_eq_Suc)

lemma mask_small: "drop_bit n (w AND mask n) = 0" for w :: u32
  by (rule bit_eqI) (simp add: bit_drop_bit_eq bit_and_iff bit_mask_iff)

lemma get_cache_24_correct:
  assumes "rp_ok B S rp"
  shows "\<exists>c rp'. get_cache_24 rp = Some (c, rp') \<and> rp_ok B S rp'
    \<and> rp_iCurrentBitIndex rp' = rp_iCurrentBitIndex rp \<and> drop_bit 24 c = 0
    \<and> (\<forall>i < 24. rp_iCurrentBitIndex rp + i < 8 * length B \<longrightarrow>
        bit c (23 - i) = bytes_bits B ! (rp_iCurrentBitIndex rp + i))
    \<and> length (rp_pBuffer rp') = length (rp_pBuffer rp)"
proof -
  let ?c = "rp_iCurrentBitIndex rp" and ?t = "rp_iTrailingBitOneIndex rp"
  let ?q = "?c div 8" and ?m = "?c mod 8"
  note at = rp_ok_at [OF assms]
  note bd = rp_at_bounds [OF at]
  let ?short = "?t - ?c < 32"
  have "\<exists>ok rp1. (if ?short then fetch_data rp else Some (True, rp)) = Some (ok, rp1)
    \<and> rp_ok B S rp1 \<and> rp_iCurrentBitIndex rp1 = ?c \<and> length (rp_pBuffer rp1) = length (rp_pBuffer rp)
    \<and> (finished_fetching rp1 \<or> ?c + 32 \<le> rp_iTrailingBitOneIndex rp1)"
  proof (cases "?short")
    case False
    then show ?thesis using assms by (intro exI [of _ True] exI [of _ rp]) auto
  next
    case True
    show ?thesis
    proof (cases "finished_fetching rp")
      case fin: True
      then show ?thesis
        using True assms fetch_data_finished [OF bd(6) fin] by (intro exI [of _ False] exI [of _ rp]) auto
    next
      case False
      from fetch_data_correct [OF at this] show ?thesis
        using True assms bd(3) by (auto simp: same_reader_def rp_ok_def)
    qed
  qed
  then obtain ok rp1 where rp1: "(if ?short then fetch_data rp else Some (True, rp)) = Some (ok, rp1)"
    "rp_ok B S rp1" "rp_iCurrentBitIndex rp1 = ?c" "length (rp_pBuffer rp1) = length (rp_pBuffer rp)"
    "finished_fetching rp1 \<or> ?c + 32 \<le> rp_iTrailingBitOneIndex rp1" by blast
  note at1 = rp_ok_at [OF rp1(2)]
  have q: "?q < length B" using bd(1,2) by auto
  have get: "arr_get (rp_pBuffer rp1) (int (?q + k)) = Some (rp_pBuffer rp1 ! (?q + k))" if "k < 4" for k
    using that q rp_at_bounds(5) [OF at1] unfolding arr_get_def nat_int by simp
  let ?b = "\<lambda>k. rp_pBuffer rp1 ! (?q + k)"
  let ?al = "push_bit 24 (ucast (?b 0)) OR push_bit 16 (ucast (?b 1)) OR push_bit 8 (ucast (?b 2)) OR ucast (?b 3) :: u32"
  let ?r = "drop_bit (8 - ?m) ?al AND 0x00FFFFFF"
  have run: "get_cache_24 rp = Some (?r, rp1)"
    using rp1(1,3) get [of 0] get [of 1] get [of 2] get [of 3] rp_at_sub32 [OF at] bd(6) rp_at_bounds(6) [OF at1]
    by (simp add: get_cache_24_def Let_def add.commute)
  have mask: "(0x00FFFFFF :: u32) = mask 24" by (simp add: mask_eq_exp_minus_1)
  have "bit ?r (23 - i) = bytes_bits B ! (?c + i)" if i: "i < 24" "?c + i < 8 * length B" for i
  proof -
    obtain j where j: "j = ?m + i" by simp
    have jl: "j < 32" using j i(1) mod_less_divisor [of 8 ?c] by linarith
    have cj: "?c + i = 8 * ?q + j" using j by simp
    have dj: "(?c + i) div 8 = ?q + j div 8" "(?c + i) mod 8 = j mod 8" unfolding cj by simp_all
    have eq: "23 - i + (8 - ?m) = 31 - j" using j i(1) mod_less_divisor [of 8 ?c] by linarith
    have "bit ?r (23 - i) = bit ?al (23 - i + (8 - ?m))" unfolding mask by (rule mask_bit) (use i(1) in simp_all)
    also have "\<dots> = bit ?al (31 - j)" unfolding eq ..
    also have "\<dots> = bit (?b (j div 8)) (7 - j mod 8)"
    proof -
      have "j div 8 < 4" using jl by simp
      then have "[?b 0, ?b 1, ?b 2, ?b 3] ! (j div 8) = ?b (j div 8)" by (rule four_nth)
      then show ?thesis using be_bytes_bit [OF jl] by simp
    qed
    also have "?b (j div 8) = B ! (?q + j div 8)"
    proof (rule rp_at_byte [OF at1])
      show "?q + j div 8 < length B" using i(2) dj(1) by (metis div_less_iff_less_mult mult.commute zero_less_numeral)
      have "8 * (?q + j div 8) \<le> ?c + i" by (metis dj(1) mult_div_mod_eq le_add1)
      then show "finished_fetching rp1 \<or> 8 * (?q + j div 8) < rp_iTrailingBitOneIndex rp1"
        using rp1(5) i(1) by linarith
    qed
    finally show ?thesis using bytes_bits_nth [OF i(2)] dj by simp
  qed
  moreover have "drop_bit 24 ?r = 0" unfolding mask by (rule mask_small)
  ultimately show ?thesis using run rp1(2-4) by blast
qed

section \<open>Skipping and fixed-length fields\<close>

lemma skip_loop_correct:
  assumes "rp_at B S rp" "rp_iTrailingBitOneIndex rp - rp_iCurrentBitIndex rp < m" "rp_iCurrentBitIndex rp + m \<le> S"
    "rp_iBufInAvailSize rp < f"
  shows "\<exists>rp'. skip_loop f m rp = Some (True, rp') \<and> rp_at B S rp' \<and> same_reader rp rp'
    \<and> rp_iCurrentBitIndex rp + m \<le> rp_iTrailingBitOneIndex rp'"
  using assms
proof (induction f arbitrary: rp)
  case (Suc f)
  have "\<not> finished_fetching rp" using Suc.prems rp_at_finished by fastforce
  from fetch_data_correct [OF Suc.prems(1) this] obtain rp1 where rp1: "fetch_data rp = Some (True, rp1)"
    "rp_at B S rp1" "same_reader rp rp1" "rp_iBufInAvailSize rp1 < rp_iBufInAvailSize rp" by blast
  have c1: "rp_iCurrentBitIndex rp1 = rp_iCurrentBitIndex rp" using rp1(3) by (simp add: same_reader_def)
  show ?case
  proof (cases "rp_iTrailingBitOneIndex rp1 - rp_iCurrentBitIndex rp1 < m")
    case True
    obtain rp2 where "skip_loop f m rp1 = Some (True, rp2)" "rp_at B S rp2" "same_reader rp1 rp2"
      "rp_iCurrentBitIndex rp1 + m \<le> rp_iTrailingBitOneIndex rp2"
      using Suc.IH [OF rp1(2) True] Suc.prems(3,4) rp1(4) c1 by auto
    then show ?thesis
      using True rp1(1) rp_at_sub32 [OF rp1(2)] same_reader_trans [OF rp1(3)] c1 by auto
  next
    case False
    then show ?thesis using rp1 rp_at_sub32 [OF rp1(2)] c1 rp_at_bounds(3) [OF rp1(2)] by auto
  qed
qed simp

lemma skip_correct:
  assumes "rp_ok B S rp" "rp_iCurrentBitIndex rp + n \<le> S"
  shows "\<exists>rp'. skip rp n = Some rp' \<and> rp_ok B S rp' \<and> rp_iCurrentBitIndex rp' = rp_iCurrentBitIndex rp + n
    \<and> length (rp_pBuffer rp') = length (rp_pBuffer rp)"
proof -
  let ?c = "rp_iCurrentBitIndex rp" and ?t = "rp_iTrailingBitOneIndex rp"
  note at = rp_ok_at [OF assms(1)]
  note bd = rp_at_bounds [OF at]
  show ?thesis
  proof (cases "?t - ?c < n")
    case False
    then have run: "skip rp n = Some (rp\<lparr>rp_iCurrentBitIndex := ?c + n, rp_pByte := (?c + n) div 8\<rparr>)"
      using rp_at_sub32 [OF at] by (simp add: skip_def Let_def)
    have "rp_ok B S (rp\<lparr>rp_iCurrentBitIndex := ?c + n, rp_pByte := (?c + n) div 8\<rparr>)"
      by (rule rp_ok_move [OF at assms(2)]) (use False bd(3) in linarith)
    then show ?thesis unfolding run by simp
  next
    case True
    let ?m = "n - (?t - ?c)"
    let ?rp = "rp\<lparr>rp_iCurrentBitIndex := ?t\<rparr>"
    have tS: "?t \<le> S" using True assms(2) bd(3) by linarith
    have at': "rp_at B S ?rp" by (rule rp_at_move [OF at tS]) simp
    have "\<exists>rp'. skip_loop (rp_iBufInAvailSize rp + 1) ?m ?rp = Some (True, rp') \<and> rp_at B S rp' \<and> same_reader ?rp rp'
        \<and> rp_iCurrentBitIndex ?rp + ?m \<le> rp_iTrailingBitOneIndex rp'"
      by (rule skip_loop_correct [OF at']) (use True assms(2) bd(3) in auto)
    then obtain rp1 where rp1: "skip_loop (rp_iBufInAvailSize rp + 1) ?m ?rp = Some (True, rp1)" "rp_at B S rp1"
      "same_reader ?rp rp1" "?t + ?m \<le> rp_iTrailingBitOneIndex rp1" by auto
    have tm: "?t + ?m = ?c + n" using True bd(3) by simp
    have c1: "rp_iCurrentBitIndex rp1 = ?t" "length (rp_pBuffer rp1) = length (rp_pBuffer rp)"
      using rp1(3) by (simp_all add: same_reader_def)
    have run: "skip rp n = Some (rp1\<lparr>rp_iCurrentBitIndex := ?c + n, rp_pByte := (?c + n) div 8\<rparr>)"
      using True rp1(1) rp_at_sub32 [OF at] c1(1) tm bd(3)
      by (simp add: skip_def Let_def del: skip_loop.simps)
    have "rp_ok B S (rp1\<lparr>rp_iCurrentBitIndex := ?c + n, rp_pByte := (?c + n) div 8\<rparr>)"
      by (rule rp_ok_move [OF rp1(2) assms(2)]) (use rp1(4) tm in simp)
    then show ?thesis using c1(2) unfolding run by simp
  qed
qed

definition slice :: "u8 list \<Rightarrow> nat \<Rightarrow> nat \<Rightarrow> bool list" where
  "slice B c n = take n (drop c (bytes_bits B))"

lemma slice_nth: "c + n \<le> 8 * length B \<Longrightarrow> i < n \<Longrightarrow> slice B c n ! i = bytes_bits B ! (c + i)"
  by (simp add: slice_def)

lemma length_slice: "c + n \<le> 8 * length B \<Longrightarrow> length (slice B c n) = n"
  by (simp add: slice_def)

lemma slice_add: "slice B c (m + n) = slice B c m @ slice B (c + m) n"
  by (simp add: slice_def take_add add.commute)

lemma slice_0 [simp]: "slice B c 0 = []"
  by (simp add: slice_def)

lemma nbits_slice:
  assumes "c + n \<le> 8 * length B" "\<And>i. i < n \<Longrightarrow> bit v (n - 1 - i) = bytes_bits B ! (c + i)"
  shows "nbits n v = slice B c n"
  by (rule nth_equalityI) (use assms in \<open>auto simp: length_slice slice_nth\<close>)

lemma bit_shift1:
  "bit (push_bit 1 v OR (if b then 1 else 0)) i \<longleftrightarrow> (if i = 0 then b else i < 32 \<and> bit v (i - 1))" for v :: u32
proof -
  have one: "bit (if b then 1 else 0 :: u32) i \<longleftrightarrow> b \<and> i = 0" by (simp add: bit_1_iff)
  have shift: "bit (push_bit 1 v) i \<longleftrightarrow> 0 < i \<and> i < 32 \<and> bit v (i - 1)"
    by (simp only: bit_push_bit_iff possible_bit_word) auto
  show ?thesis unfolding bit_or_iff one shift by auto
qed

lemma nbits_snoc: "nbits (Suc n) (push_bit 1 v OR (if b then 1 else 0)) = nbits n v @ [b]"
  if "n < 32" for v :: u32
proof (rule nth_equalityI)
  fix i assume "i < length (nbits (Suc n) (push_bit 1 v OR (if b then 1 else 0)))"
  then have i: "i < Suc n" by simp
  show "nbits (Suc n) (push_bit 1 v OR (if b then 1 else 0)) ! i = (nbits n v @ [b]) ! i"
  proof (cases "i = n")
    case True
    then show ?thesis by (simp only: nbits_nth) (simp only: bit_shift1 nth_append, simp)
  next
    case False
    then have "i < n" using i by simp
    then show ?thesis
      using that i by (simp only: nbits_nth bit_shift1 nth_append) auto
  qed
qed simp

lemma append_bits_correct:
  assumes "rp_ok B S rp" "rp_iCurrentBitIndex rp + k \<le> S" "m + k \<le> 32" "drop_bit m val = 0"
  shows "\<exists>v rp'. append_bits k val rp = Some (v, rp') \<and> rp_ok B S rp'
    \<and> rp_iCurrentBitIndex rp' = rp_iCurrentBitIndex rp + k
    \<and> nbits (m + k) v = nbits m val @ slice B (rp_iCurrentBitIndex rp) k \<and> drop_bit (m + k) v = 0"
  using assms
proof (induction k arbitrary: rp val m)
  case 0
  then show ?case by simp
next
  case (Suc k)
  let ?c = "rp_iCurrentBitIndex rp" and ?b = "bytes_bits B ! rp_iCurrentBitIndex rp"
  let ?v = "push_bit 1 val OR (if ?b then 1 else 0)"
  obtain rp1 where rp1: "get_next_bit rp = Some (if ?b then 1 else 0, rp1)" "rp_ok B S rp1"
    "rp_iCurrentBitIndex rp1 = ?c + 1"
    using get_next_bit_correct [OF Suc.prems(1)] Suc.prems(2) by auto
  have small: "drop_bit (Suc m) ?v = 0"
  proof (rule bit_eqI)
    fix j show "bit (drop_bit (Suc m) ?v) j = bit (0 :: u32) j"
      using drop_bit_0_bit [OF Suc.prems(4), of "m + j"]
      by (simp only: bit_drop_bit_eq comp_def bit_shift1) auto
  qed
  obtain v rp' where v: "append_bits k ?v rp1 = Some (v, rp')" "rp_ok B S rp'" "rp_iCurrentBitIndex rp' = ?c + 1 + k"
    "nbits (Suc m + k) v = nbits (Suc m) ?v @ slice B (?c + 1) k" "drop_bit (Suc m + k) v = 0"
    using Suc.IH [OF rp1(2), of "Suc m" ?v] Suc.prems(2,3) rp1(3) small by auto
  have "slice B ?c (Suc k) = ?b # slice B (?c + 1) k"
    using Suc.prems(2) rp_at_bounds(2) [OF rp_ok_at [OF Suc.prems(1)]]
    by (simp add: slice_def flip: Cons_nth_drop_Suc)
  then show ?case
    using v rp1(1) nbits_snoc [of m val ?b] Suc.prems(3) by simp
qed

lemma u_correct:
  assumes "rp_ok B S rp" "rp_iCurrentBitIndex rp + n \<le> S" "n \<le> 32"
  shows "\<exists>v rp'. u rp n = Some (v, rp') \<and> rp_ok B S rp' \<and> rp_iCurrentBitIndex rp' = rp_iCurrentBitIndex rp + n
    \<and> nbits n v = slice B (rp_iCurrentBitIndex rp) n \<and> drop_bit n v = 0"
proof -
  let ?c = "rp_iCurrentBitIndex rp"
  note bd = rp_at_bounds [OF rp_ok_at [OF assms(1)]]
  have cons: "more_rbsp_data_conceal rp" by (rule rp_at_conceal [OF rp_ok_at [OF assms(1)]])
  obtain c rp1 where c: "get_cache_24 rp = Some (c, rp1)" "rp_ok B S rp1" "rp_iCurrentBitIndex rp1 = ?c"
    "drop_bit 24 c = 0" "\<And>i. i < 24 \<Longrightarrow> ?c + i < 8 * length B \<Longrightarrow> bit c (23 - i) = bytes_bits B ! (?c + i)"
    using get_cache_24_correct [OF assms(1)] by blast
  consider "n = 1" | "n \<noteq> 1" "n \<le> 24" | "24 < n" by linarith
  then show ?thesis
  proof cases
    case 1
    let ?b = "bytes_bits B ! ?c"
    obtain rp' where rp': "get_next_bit rp = Some (if ?b then 1 else 0, rp')" "rp_ok B S rp'"
      "rp_iCurrentBitIndex rp' = ?c + 1"
      using get_next_bit_correct [OF assms(1)] assms(2) 1 by auto
    have "nbits 1 (if ?b then 1 else 0 :: u32) = slice B ?c 1"
      by (rule nbits_slice) (use assms(2) 1 bd(2) in auto)
    then show ?thesis using 1 rp' cons by (auto simp: u_def drop_bit_Suc)
  next
    case 2
    let ?v = "drop_bit (24 - n) c AND (push_bit n 1 - 1)"
    have m: "(push_bit n 1 - 1 :: u32) = mask n" by (simp add: mask_eq_exp_minus_1 push_bit_eq_mult)
    obtain rp' where rp': "skip rp1 n = Some rp'" "rp_ok B S rp'" "rp_iCurrentBitIndex rp' = ?c + n"
      using skip_correct [OF c(2)] assms(2) c(3) by auto
    have "nbits n ?v = slice B ?c n"
    proof (rule nbits_slice)
      fix i assume i: "i < n"
      then have eq: "n - 1 - i + (24 - n) = 23 - i" using 2(2) by linarith
      have "bit ?v (n - 1 - i) = bit c (n - 1 - i + (24 - n))"
        unfolding m by (rule mask_bit) (use i assms(3) in simp_all)
      also have "\<dots> = bytes_bits B ! (?c + i)"
        unfolding eq using c(5) [of i] i 2(2) assms(2) bd(2) by simp
      finally show "bit ?v (n - 1 - i) = bytes_bits B ! (?c + i)" .
    qed (use assms(2) bd(2) in simp)
    moreover have "drop_bit n ?v = 0" unfolding m by (rule mask_small)
    moreover have "u rp n = Some (?v, rp')"
      using 2 cons c(1) rp'(1) by (simp add: u_def Let_def)
    ultimately show ?thesis using rp'(2,3) by blast
  next
    case 3
    obtain rp2 where rp2: "skip rp1 24 = Some rp2" "rp_ok B S rp2" "rp_iCurrentBitIndex rp2 = ?c + 24"
      using skip_correct [OF c(2), of 24] assms(2) c(3) 3 by auto
    have "nbits 24 c = slice B ?c 24"
    proof (rule nbits_slice)
      fix i assume "i < (24::nat)"
      then show "bit c (24 - 1 - i) = bytes_bits B ! (?c + i)"
        using c(5) [of i] 3 assms(2) bd(2) by simp
    qed (use assms(2) bd(2) 3 in simp)
    moreover obtain v rp' where v: "append_bits (n - 24) c rp2 = Some (v, rp')" "rp_ok B S rp'"
      "rp_iCurrentBitIndex rp' = ?c + 24 + (n - 24)"
      "nbits (24 + (n - 24)) v = nbits 24 c @ slice B (?c + 24) (n - 24)" "drop_bit (24 + (n - 24)) v = 0"
      using append_bits_correct [OF rp2(2), of "n - 24" 24 c] rp2(3) assms(2,3) 3 c(4) by auto
    moreover have n: "24 + (n - 24) = n" using 3 by simp
    ultimately have "nbits n v = slice B ?c n" using slice_add [of B ?c 24 "n - 24"] by simp
    moreover have "u rp n = Some (v, rp')"
      using 3 cons c(1) rp2(1) v(1) by (simp add: u_def Let_def)
    ultimately show ?thesis using v(2,3,5) n by auto
  qed
qed

lemma u_reads:
  assumes "rp_ok B S rp" "rp_iCurrentBitIndex rp + n \<le> S" "n \<le> 32"
    "slice B (rp_iCurrentBitIndex rp) n = nbits n w" "drop_bit n w = 0"
  shows "\<exists>rp'. u rp n = Some (w, rp') \<and> rp_ok B S rp' \<and> rp_iCurrentBitIndex rp' = rp_iCurrentBitIndex rp + n"
proof -
  obtain v rp' where v: "u rp n = Some (v, rp')" "rp_ok B S rp'" "rp_iCurrentBitIndex rp' = rp_iCurrentBitIndex rp + n"
    "nbits n v = nbits n w" "drop_bit n v = 0"
    using u_correct [OF assms(1-3)] assms(4) by auto
  have "v = w"
  proof (rule bit_eqI)
    fix j
    show "bit v j = bit w j"
    proof (cases "j < n")
      case True
      then have "nbits n v ! (n - 1 - j) = bit v j" "nbits n w ! (n - 1 - j) = bit w j" by simp_all
      then show ?thesis using v(4) by simp
    next
      case False
      then show ?thesis using drop_bit_0_bit [OF v(5)] drop_bit_0_bit [OF assms(5)] by blast
    qed
  qed
  then show ?thesis using v by blast
qed

section \<open>Exp-Golomb codes\<close>

lemma tab_log2_nth:
  assumes "2 ^ j \<le> x" "x < 2 ^ Suc j" "j < 8"
  shows "tab_log2 ! x = j"
proof -
  have "j = 0 \<or> j = 1 \<or> j = 2 \<or> j = 3 \<or> j = 4 \<or> j = 5 \<or> j = 6 \<or> j = 7" using assms(3) by linarith
  then show ?thesis
    using assms(1,2) unfolding tab_log2_def
    by (elim disjE) (simp_all add: nth_append nth_Cons' less_diff_conv2)
qed

lemma msb_unat:
  fixes v :: u32
  assumes "bit v m" "\<And>i. m < i \<Longrightarrow> \<not> bit v i"
  shows "2 ^ m \<le> unat v" "unat v < 2 ^ Suc m"
proof -
  have n: "uint v = int (unat v)" by (rule uint_nat)
  have "bit (uint v) m" using assms(1) bit_imp_le_length [of v m] by (simp add: bit_uint_iff)
  then have "uint v div 2 ^ m \<noteq> 0" by (auto simp: bit_iff_odd)
  then have "2 ^ m \<le> uint v" by (metis div_pos_pos_trivial not_le uint_lt_0 uint_ge_0)
  then show "2 ^ m \<le> unat v" unfolding n by (metis of_nat_le_iff of_nat_numeral of_nat_power)
  have "take_bit (Suc m) (uint v) = uint v"
  proof (rule bit_eqI)
    fix j show "bit (take_bit (Suc m) (uint v)) j = bit (uint v) j"
      using assms(2) [of j] by (cases "j \<le> m") (auto simp: bit_take_bit_iff bit_uint_iff)
  qed
  then have "uint v < 2 ^ Suc m" by (simp only: take_bit_int_eq_self_iff)
  then show "unat v < 2 ^ Suc m" unfolding n by (metis of_nat_less_iff of_nat_numeral of_nat_power)
qed

lemma byte_field:
  fixes v :: u32
  assumes "k + 8 \<le> 32"
  shows "v AND push_bit k (mask 8) = 0 \<longleftrightarrow> (\<forall>i. k \<le> i \<longrightarrow> i < k + 8 \<longrightarrow> \<not> bit v i)"
proof -
  have b: "bit (v AND push_bit k (mask 8)) i \<longleftrightarrow> bit v i \<and> k \<le> i \<and> i < k + 8" for i
    using assms by (auto simp only: bit_and_iff bit_push_bit_iff bit_mask_iff possible_bit_word) simp_all
  show ?thesis
  proof
    assume "v AND push_bit k (mask 8) = 0"
    then show "\<forall>i. k \<le> i \<longrightarrow> i < k + 8 \<longrightarrow> \<not> bit v i" using b by auto
  next
    assume "\<forall>i. k \<le> i \<longrightarrow> i < k + 8 \<longrightarrow> \<not> bit v i"
    then show "v AND push_bit k (mask 8) = 0" using b by (intro bit_eqI) auto
  qed
qed

lemma al_log2_24:
  assumes "drop_bit 24 v = 0" "bit v m" "\<And>i. m < i \<Longrightarrow> \<not> bit v i"
  shows "al_log2 v = m"
proof -
  have m: "m < 24" using drop_bit_0_bit [OF assms(1,2)] .
  note r = msb_unat [OF assms(2,3)]
  have shift: "tab_log2 ! unat (drop_bit k v) = m - k" if "k \<le> m" "m < k + 8" for k
  proof (rule tab_log2_nth)
    have u: "unat (drop_bit k v) = unat v div 2 ^ k" unfolding unat_drop_bit_eq by (simp add: drop_bit_eq_div)
    have "2 ^ m = 2 ^ k * (2 ^ (m - k) :: nat)" "2 ^ Suc m = 2 ^ k * (2 ^ Suc (m - k) :: nat)"
      using that(1) by (simp_all flip: power_add)
    then show "2 ^ (m - k) \<le> unat (drop_bit k v)" "unat (drop_bit k v) < 2 ^ Suc (m - k)"
      using r unfolding u by (simp_all add: less_eq_div_iff_mult_less_eq div_less_iff_less_mult mult.commute)
  qed (use that in simp)
  have f: "(0xFF000000 :: u32) = push_bit 24 (mask 8)" "(0x00FF0000 :: u32) = push_bit 16 (mask 8)"
    "(0x0000FF00 :: u32) = push_bit 8 (mask 8)"
    by (simp_all add: mask_eq_exp_minus_1 push_bit_eq_mult)
  have top: "v AND 0xFF000000 = 0" unfolding f(1) using m assms(3) by (subst byte_field) auto
  consider "16 \<le> m" | "8 \<le> m" "m < 16" | "m < 8" by linarith
  then show ?thesis
  proof cases
    case 1
    then have "v AND 0x00FF0000 \<noteq> 0" unfolding f(2) using m assms(2) by (subst byte_field) auto
    then show ?thesis using top shift [of 16] 1 m by (simp add: al_log2_def)
  next
    case 2
    then have "v AND 0x00FF0000 = 0" "v AND 0x0000FF00 \<noteq> 0"
      unfolding f(2,3) using assms(2,3) by (subst byte_field; force)+
    then show ?thesis using top shift [of 8] 2 by (simp add: al_log2_def)
  next
    case 3
    then have "v AND 0x00FF0000 = 0" "v AND 0x0000FF00 = 0"
      unfolding f(2,3) using assms(3) by (subst byte_field; force)+
    then show ?thesis using top shift [of 0] 3 by (simp add: al_log2_def)
  qed
qed

lemma al_log2_zero: "al_log2 0 = 0" "al_log2 1 = 0"
proof -
  show "al_log2 0 = 0" by (simp add: al_log2_def tab_log2_def)
  show "al_log2 1 = 0" by (rule al_log2_24) (auto simp: bit_1_iff drop_bit_eq_div intro: bit_eqI)
qed

lemma count_zeros_correct:
  assumes "rp_ok B S rp" "rp_iCurrentBitIndex rp + k < S" "k < f"
    "\<And>i. i < k \<Longrightarrow> \<not> bytes_bits B ! (rp_iCurrentBitIndex rp + i)" "bytes_bits B ! (rp_iCurrentBitIndex rp + k)"
  shows "\<exists>rp'. count_zeros f n rp = Some (Some (n + k), rp') \<and> rp_ok B S rp'
    \<and> rp_iCurrentBitIndex rp' = rp_iCurrentBitIndex rp + k + 1"
  using assms
proof (induction k arbitrary: f n rp)
  case 0
  then obtain g where f: "f = Suc g" by (cases f) auto
  obtain rp' where "get_next_bit rp = Some (1, rp')" "rp_ok B S rp'"
    "rp_iCurrentBitIndex rp' = rp_iCurrentBitIndex rp + 1"
    using get_next_bit_correct [OF 0(1)] 0(2,5) by auto
  then show ?case by (simp add: f)
next
  case (Suc k)
  then obtain g where f: "f = Suc g" by (cases f) auto
  have "\<not> bytes_bits B ! rp_iCurrentBitIndex rp" using Suc.prems(4) [of 0] by simp
  then obtain rp1 where rp1: "get_next_bit rp = Some (0, rp1)" "rp_ok B S rp1"
    "rp_iCurrentBitIndex rp1 = rp_iCurrentBitIndex rp + 1"
    using get_next_bit_correct [OF Suc.prems(1)] Suc.prems(2) by auto
  have "\<not> bytes_bits B ! (rp_iCurrentBitIndex rp1 + i)" if "i < k" for i
    using Suc.prems(4) [of "Suc i"] that rp1(3) by simp
  then obtain rp' where "count_zeros g (n + 1) rp1 = Some (Some (n + 1 + k), rp')" "rp_ok B S rp'"
    "rp_iCurrentBitIndex rp' = rp_iCurrentBitIndex rp1 + k + 1"
    using Suc.IH [OF rp1(2), of g "n + 1"] Suc.prems(2,3,5) rp1(3) f by auto
  then show ?case using rp1 by (simp add: f)
qed

lemma ue_bits_slice:
  assumes "slice B c (length (ue_bits v)) = ue_bits v" "c + length (ue_bits v) \<le> 8 * length B"
    "k = msb_below 32 (v + 1)"
  shows "length (ue_bits v) = 2 * k + 1" "\<And>i. i < k \<Longrightarrow> \<not> bytes_bits B ! (c + i)" "bytes_bits B ! (c + k)"
    "slice B (c + k + 1) k = nbits k (v + 1)"
proof -
  have ue: "ue_bits v = replicate k False @ True # nbits k (v + 1)" by (simp add: ue_bits_def assms(3) Let_def)
  then show len: "length (ue_bits v) = 2 * k + 1" by simp
  have at: "bytes_bits B ! (c + i) = ue_bits v ! i" if "i < 2 * k + 1" for i
    using slice_nth [OF assms(2), of i] that assms(1) len by simp
  show "\<not> bytes_bits B ! (c + i)" if "i < k" for i using at [of i] that ue by (simp add: nth_append)
  show "bytes_bits B ! (c + k)" using at [of k] ue by (simp add: nth_append)
  have "slice B c (k + 1 + k) = slice B c (k + 1) @ slice B (c + (k + 1)) k" by (rule slice_add)
  moreover have "k + 1 + k = length (ue_bits v)" using len by simp
  ultimately have "(replicate k False @ [True]) @ nbits k (v + 1) = slice B c (k + 1) @ slice B (c + (k + 1)) k"
    using assms(1) ue by simp
  moreover have "length (slice B c (k + 1)) = k + 1"
    using assms(2) len by (intro length_slice) simp
  ultimately show "slice B (c + k + 1) k = nbits k (v + 1)"
    by (subst (asm) append_eq_append_conv) (simp_all add: add.assoc)
qed

lemma ue_reads:
  assumes "rp_ok B S rp" "v + 1 \<noteq> 0" "rp_iCurrentBitIndex rp + length (ue_bits v) \<le> S"
    "slice B (rp_iCurrentBitIndex rp) (length (ue_bits v)) = ue_bits v"
  shows "\<exists>rp'. ue rp = Some (v, rp') \<and> rp_ok B S rp'
    \<and> rp_iCurrentBitIndex rp' = rp_iCurrentBitIndex rp + length (ue_bits v)"
proof -
  let ?c = "rp_iCurrentBitIndex rp" and ?x = "v + 1"
  let ?k = "msb_below 32 ?x"
  note msb = msb_32 [OF assms(2)]
  note bd = rp_at_bounds [OF rp_ok_at [OF assms(1)]]
  have lim: "?c + length (ue_bits v) \<le> 8 * length B" using assms(3) bd(2) by simp
  note sl = ue_bits_slice [OF assms(4) lim refl]
  have cons: "more_rbsp_data_conceal rp" by (rule rp_at_conceal [OF rp_ok_at [OF assms(1)]])
  obtain c rp1 where c: "get_cache_24 rp = Some (c, rp1)" "rp_ok B S rp1" "rp_iCurrentBitIndex rp1 = ?c"
    "drop_bit 24 c = 0" "\<And>i. i < 24 \<Longrightarrow> ?c + i < 8 * length B \<Longrightarrow> bit c (23 - i) = bytes_bits B ! (?c + i)"
    "length (rp_pBuffer rp1) = length (rp_pBuffer rp)"
    using get_cache_24_correct [OF assms(1)] by blast
  have top: "bit c i \<Longrightarrow> i < 24" for i using drop_bit_0_bit [OF c(4)] .
  have zeros: "\<not> bit c (23 - i)" if "i < ?k" "i < 24" for i
    using c(5) [of i] sl(2) [of i] that lim sl(1) by simp
  obtain rp2 where rp2: "(if 23 - al_log2 c = 23 then count_zeros (bits_left rp1) 0 rp1
      else do { rp \<leftarrow> skip rp1 (23 - al_log2 c + 1); Some (Some (23 - al_log2 c), rp) }) = Some (Some ?k, rp2)"
    "rp_ok B S rp2" "rp_iCurrentBitIndex rp2 = ?c + ?k + 1"
  proof (cases "?k < 23")
    case True
    have "bit c (23 - ?k)" using c(5) [of ?k] sl(3) True lim sl(1) by simp
    moreover have "\<not> bit c i" if "23 - ?k < i" for i
    proof (cases "i < 24")
      case True
      then show ?thesis using zeros [of "23 - i"] that by simp
    qed (use top in blast)
    ultimately have "al_log2 c = 23 - ?k" by (rule al_log2_24 [OF c(4)])
    then have n: "23 - al_log2 c = ?k" using True by simp
    obtain rp2 where "skip rp1 (?k + 1) = Some rp2" "rp_ok B S rp2" "rp_iCurrentBitIndex rp2 = ?c + (?k + 1)"
      using skip_correct [OF c(2), of "?k + 1"] c(3) assms(3) sl(1) by auto
    then show thesis using that n True by simp
  next
    case False
    have "c = 0 \<or> c = 1"
    proof -
      have "\<not> bit c i" if "0 < i" for i
      proof (cases "i < 24")
        case True
        then show ?thesis using zeros [of "23 - i"] that False by simp
      qed (use top in blast)
      then have "bit c j = bit (if bit c 0 then 1 else 0 :: u32) j" for j
        by (cases "j = 0") (auto simp: bit_1_iff)
      then have "c = (if bit c 0 then 1 else 0)" by (intro bit_eqI) blast
      then show ?thesis by metis
    qed
    then have n: "23 - al_log2 c = 23" using al_log2_zero by auto
    have "?k < bits_left rp1" using assms(3) sl(1) bd(2,5) c(6) by (simp add: bits_left_def)
    then obtain rp2 where "count_zeros (bits_left rp1) 0 rp1 = Some (Some (0 + ?k), rp2)" "rp_ok B S rp2"
      "rp_iCurrentBitIndex rp2 = ?c + ?k + 1"
      using count_zeros_correct [OF c(2), of ?k "bits_left rp1" 0] c(3) assms(3) sl by auto
    then show thesis using that n by simp
  qed
  show ?thesis
  proof (cases "?k = 0")
    case True
    have "v = 0"
    proof -
      have "?x - push_bit 0 1 = take_bit 0 ?x" using msb_minus [of ?x 0] msb(2,3) True by simp
      then show ?thesis by simp
    qed
    then show ?thesis
      using True cons c(1) rp2 sl(1) by (simp add: ue_def Let_def)
  next
    case False
    let ?w = "take_bit ?k ?x"
    have "slice B (rp_iCurrentBitIndex rp2) ?k = nbits ?k ?w"
      unfolding rp2(3) sl(4) by (rule nbits_cong) (simp add: bit_take_bit_iff)
    moreover have "drop_bit ?k ?w = 0" by (rule bit_eqI) (simp add: bit_drop_bit_eq bit_take_bit_iff)
    ultimately obtain rp3 where rp3: "u rp2 ?k = Some (?w, rp3)" "rp_ok B S rp3"
      "rp_iCurrentBitIndex rp3 = rp_iCurrentBitIndex rp2 + ?k"
      using u_reads [OF rp2(2), of ?k ?w] rp2(3) assms(3) sl(1) msb(1) by auto
    have "push_bit ?k 1 - 1 + ?w = v" using msb_minus [OF msb(2,3)] by (simp add: algebra_simps)
    then show ?thesis
      using False cons c(1) rp2 rp3 sl(1) msb(1) by (simp add: ue_def Let_def)
  qed
qed

lemma se_reads:
  assumes "rp_ok B S rp" "\<bar>i\<bar> < 2 ^ 30"
    and "rp_iCurrentBitIndex rp + length (ue_bits (word_of_int (se_code i))) \<le> S"
    "slice B (rp_iCurrentBitIndex rp) (length (ue_bits (word_of_int (se_code i)))) = ue_bits (word_of_int (se_code i))"
  shows "\<exists>rp'. se rp = Some (i, rp') \<and> rp_ok B S rp'
    \<and> rp_iCurrentBitIndex rp' = rp_iCurrentBitIndex rp + length (ue_bits (word_of_int (se_code i)))"
proof -
  let ?v = "word_of_int (se_code i) :: u32"
  have rng: "0 \<le> se_code i" "se_code i + 1 < 2 ^ 32" using assms(2) by (auto simp: se_code_def)
  have u1: "uint (?v + 1) = se_code i + 1"
  proof -
    have "?v + 1 = word_of_int (se_code i + 1)" by simp
    then show ?thesis using rng by (simp only: uint_word_of_int) simp
  qed
  then have "?v + 1 \<noteq> 0" using rng(1) by (metis add.commute uint_0_iff zle_add1_eq_le not_less zless_add1_eq le_less_trans less_le_not_le zero_less_one add_0)
  from ue_reads [OF assms(1) this assms(3,4)] obtain rp' where rp': "ue rp = Some (?v, rp')" "rp_ok B S rp'"
    "rp_iCurrentBitIndex rp' = rp_iCurrentBitIndex rp + length (ue_bits ?v)" by blast
  have half: "sint (drop_bit 1 (?v + 1)) = (se_code i + 1) div 2"
  proof -
    have "uint (drop_bit 1 (?v + 1)) = (se_code i + 1) div 2"
      using u1 rng by (simp add: drop_bit_eq_div uint_div_distrib)
    moreover have "(se_code i + 1) div 2 < 2 ^ 31" "0 \<le> (se_code i + 1) div 2" using rng by auto
    ultimately show ?thesis by (simp add: sint_uint signed_take_bit_int_eq_self)
  qed
  have "(if even (uint (?v + 1)) then (se_code i + 1) div 2 else - ((se_code i + 1) div 2)) = i"
    unfolding u1 by (auto simp: se_code_def)
  then show ?thesis
    using rp' half rp_at_conceal [OF rp_ok_at [OF assms(1)]]
    by (auto simp: se_def Let_def split: if_splits)
qed

lemma i_reads:
  assumes "rp_ok B S rp" "0 < n" "n \<le> 32" "- (2 ^ (n - 1)) \<le> k" "k < 2 ^ (n - 1)"
    "rp_iCurrentBitIndex rp + n \<le> S" "slice B (rp_iCurrentBitIndex rp) n = nbits n (word_of_int k :: u32)"
  shows "\<exists>rp'. i_code rp n = Some (k, rp') \<and> rp_ok B S rp' \<and> rp_iCurrentBitIndex rp' = rp_iCurrentBitIndex rp + n"
proof -
  let ?w = "take_bit n (word_of_int k) :: u32"
  have "slice B (rp_iCurrentBitIndex rp) n = nbits n ?w"
    unfolding assms(7) by (rule nbits_cong) (simp add: bit_take_bit_iff)
  moreover have "drop_bit n ?w = 0" by (rule bit_eqI) (simp add: bit_drop_bit_eq bit_take_bit_iff)
  ultimately obtain rp' where rp': "u rp n = Some (?w, rp')" "rp_ok B S rp'"
    "rp_iCurrentBitIndex rp' = rp_iCurrentBitIndex rp + n"
    using u_reads [OF assms(1,6,3)] by blast
  have m: "(push_bit (n - 1) 1 - 1 :: u32) = mask (n - 1)" by (simp add: mask_eq_exp_minus_1 push_bit_eq_mult)
  have bk: "bit (word_of_int k :: u32) j \<longleftrightarrow> j < 32 \<and> bit k j" for j by (simp add: bit_word_of_int_iff)
  have w: "bit ?w j \<longleftrightarrow> j < n \<and> bit k j" for j using assms(3) by (auto simp: bit_take_bit_iff bk)
  have hi: "bit x j = False" if "0 \<le> x" "x < 2 ^ (n - 1)" "n - 1 \<le> j" for x :: int and j
  proof -
    have "x < 2 ^ j" using that(2) power_increasing [OF that(3), of "2 :: int"] by linarith
    then show ?thesis using that(1) by (simp add: bit_iff_odd)
  qed
  have sint_k: "sint (word_of_int k :: u32) = k"
  proof -
    have "(2 :: int) ^ (n - 1) \<le> 2 ^ 31" using assms(3) by (intro power_increasing) auto
    then have "- (2 ^ 31) \<le> k" "k < 2 ^ 31" using assms(4,5) by linarith+
    then show ?thesis by (simp add: sint_sbintrunc' signed_take_bit_int_eq_self)
  qed
  have code: "i_code rp n = Some (if ?w AND NOT (mask (n - 1)) \<noteq> 0 then sint (- ((NOT ?w AND mask (n - 1)) + 1))
      else sint (?w AND mask (n - 1)), rp')"
    using rp'(1) assms(2) unfolding i_code_def m by (simp add: Let_def)
  have nb: "bit (?w AND NOT (mask (n - 1))) j \<longleftrightarrow> j = n - 1 \<and> bit k j" for j
    using assms(2,3) by (auto simp: bit_and_iff bit_not_iff bit_mask_iff w)
  show ?thesis
  proof (cases "0 \<le> k")
    case True
    have "?w AND NOT (mask (n - 1)) = 0"
      by (rule bit_eqI) (use nb hi [OF True assms(5)] in auto)
    moreover have "?w AND mask (n - 1) = word_of_int k"
    proof (rule bit_eqI)
      fix j show "bit (?w AND mask (n - 1)) j = bit (word_of_int k :: u32) j"
        using hi [OF True assms(5), of j] assms(3)
        by (cases "j < n - 1") (auto simp: bit_and_iff bit_mask_iff w bk not_less)
    qed
    ultimately show ?thesis using code sint_k rp'(2,3) by simp
  next
    case False
    let ?m = "- k - 1"
    have m': "0 \<le> ?m" "?m < 2 ^ (n - 1)" using False assms(4) by auto
    have bm: "bit k j \<longleftrightarrow> \<not> bit ?m j" for j by (metis bit_not_int_iff' )
    have "bit (?w AND NOT (mask (n - 1))) (n - 1)" using nb bm hi [OF m', of "n - 1"] by simp
    then have "?w AND NOT (mask (n - 1)) \<noteq> 0" by auto
    moreover have nm: "NOT ?w AND mask (n - 1) = word_of_int ?m"
    proof (rule bit_eqI)
      fix j
      have "bit (word_of_int ?m :: u32) j \<longleftrightarrow> j < 32 \<and> bit ?m j" by (simp only: bit_word_of_int_iff) simp
      then show "bit (NOT ?w AND mask (n - 1)) j = bit (word_of_int ?m :: u32) j"
        using hi [OF m', of j] assms(3) bm [of j]
        by (cases "j < n - 1") (auto simp: bit_and_iff bit_not_iff bit_mask_iff w not_less simp del: of_int_diff)
    qed
    moreover have "- ((NOT ?w AND mask (n - 1)) + 1) = word_of_int k" unfolding nm by simp
    ultimately show ?thesis using code sint_k rp'(2,3) by simp
  qed
qed

section \<open>From the writer to the parser\<close>

lemma ring_map_rotate: "k \<le> length xs \<Longrightarrow> ring xs 0 k = take k xs"
  by (rule nth_equalityI) simp_all

text \<open>
  A parser initialised on a circular buffer holding the unit \<open>xs\<close>: it stands for what the
  automaton makes of \<open>xs\<close>, provided the destination has four bytes more.
\<close>

lemma InitRbspParser_ok:
  assumes "xs = ring (cb_pVirtualAddr s) (cb_iOffset s) (cb_iAvailSize s)" "0 < cb_uSize s"
    "cb_uSize s = length (cb_pVirtualAddr s)" "xs \<noteq> []"
    and "unescape 0 0 xs = B" "stop_bit B S" "length B + 4 \<le> sz" "sz \<le> length buf" "sz < 2 ^ 28"
  shows "rp_ok B S (InitRbspParser s buf sz True)"
proof -
  let ?rp = "InitRbspParser s buf sz True"
  have "0 < cb_iAvailSize s" using assms(1,4) by (cases "cb_iAvailSize s") auto
  then have "\<not> finished_fetching ?rp" by (simp add: finished_fetching_def InitRbspParser_def Let_def)
  moreover have "fetched B 0 ?rp"
    using assms(1,5) by (simp add: fetched_def rp_rest_def rp_input_def InitRbspParser_def Let_def)
  ultimately show ?thesis
    using assms by (auto simp: rp_ok_def rp_at_def rp_buffers_def InitRbspParser_def Let_def)
qed

text \<open>
  The unit starts with its start code, so the automaton has seen one when the payload begins. The
  start code of the next unit ends it; the zeros before it are kept.
\<close>

lemma unescape_escape_more:
  "no_match z d \<Longrightarrow> d \<noteq> [] \<Longrightarrow> last d \<noteq> 0 \<Longrightarrow> unescape z 1 (escape d @ ys) = d @ unescape 0 1 ys"
proof (induction d arbitrary: z rule: escape.induct)
  case (1 a b c r)
  have z: "z = 0 \<or> z = 1 \<or> z = 2" using "1.prems" by (auto simp: no_match_def)
  show ?case
  proof (cases "a = 0 \<and> b = 0 \<and> c \<le> 3")
    case True
    then have "z = 0" using "1.prems"(1) z by (auto simp: no_match_def)
    moreover have "unescape 0 1 (escape (c # r) @ ys) = c # r @ unescape 0 1 ys"
      using "1.IH"(1) [OF True, of 0] "1.prems" by (simp add: no_match_def)
    ultimately show ?thesis using True by simp
  next
    case False
    have "unescape (if a = 0 then z + 1 else 0) 1 (escape (b # c # r) @ ys) = (b # c # r) @ unescape 0 1 ys"
      by (rule "1.IH"(2) [OF False]) (use False "1.prems" in \<open>auto simp: no_match_def\<close>)
    moreover have "\<not> (z = 2 \<and> a = 3)" "\<not> (2 \<le> z \<and> a = 1)"
      using "1.prems"(1) by (auto simp: no_match_def word_le_nat_alt)
    moreover have "escape (a # b # c # r) = a # escape (b # c # r)"
      by (simp only: escape.simps(1) False if_False)
    ultimately show ?thesis by (auto simp del: escape.simps)
  qed
next
  case "2_1"
  then show ?case by simp
next
  case "2_2"
  then show ?case by (auto simp: no_match_def word_le_nat_alt)
next
  case "2_3"
  then show ?case by (auto simp: no_match_def word_u8_small word_le_nat_alt)
qed

lemma u8_facts: "(2 :: u8) \<noteq> 1" "(3 :: u8) \<noteq> 2" "\<not> (2 :: u8) \<le> 0" "\<not> (2 :: u8) \<le> 1" "(2 :: u8) \<le> 3"
  by (simp_all add: word_le_nat_alt)

definition next_unit :: "u8 list \<Rightarrow> bool" where
  "next_unit rest \<longleftrightarrow> rest = [] \<or> (\<exists>four more. rest = start_code four @ more)"

lemma unescape_next: "next_unit rest \<Longrightarrow> \<exists>k. k \<le> 3 \<and> k \<le> length rest \<and> unescape 0 1 rest = replicate k 0"
proof -
  assume "next_unit rest"
  then consider "rest = []" | four more where "rest = start_code four @ more" by (auto simp: next_unit_def)
  then show ?thesis
  proof cases
    case 2
    have "replicate 3 0 = [0, 0, 0 :: u8]" "replicate 2 0 = [0, 0 :: u8]"
      by (simp_all add: numeral_2_eq_2 numeral_3_eq_3)
    then show ?thesis using 2 u8_facts
      by (intro exI [of _ "if four then 3 else 2"]) (simp add: start_code_def)
  qed simp
qed

lemma unescape_nal:
  assumes "\<forall>b \<in> set hdr. b \<noteq> 0" "d \<noteq> []" "last d \<noteq> 0" "next_unit rest"
  shows "\<exists>k. k \<le> 3 \<and> k \<le> length rest \<and> unescape 0 0 (start_code four @ hdr @ escape d @ rest) = start_code four @ hdr @ d @ replicate k 0"
proof -
  obtain k where k: "k \<le> 3" "k \<le> length rest" "unescape 0 1 rest = replicate k 0"
    using unescape_next [OF assms(4)] by auto
  have step: "unescape 0 1 (hs @ escape d @ rest) = hs @ d @ replicate k 0" if "\<forall>b \<in> set hs. b \<noteq> 0" for hs
    using that by (induction hs) (use assms k(3) in \<open>auto simp: unescape_escape_more no_match_def\<close>)
  show ?thesis
    using step [OF assms(1)] k(1,2) u8_facts by (intro exI [of _ k]) (simp add: start_code_def)
qed

lemma length_escape: "length d \<le> length (escape d)"
  by (induction d rule: escape.induct) auto

text \<open>Syntax elements, written by \<open>BitStreamLite.c\<close> and read by \<open>RbspParser.c\<close>.\<close>

datatype syn = SU nat u32 | SUE u32 | SSE int | SI nat int

fun syn_ok :: "syn \<Rightarrow> bool" where
  "syn_ok (SU n v) \<longleftrightarrow> 0 < n \<and> n \<le> 32 \<and> drop_bit n v = 0"
| "syn_ok (SUE v) \<longleftrightarrow> v + 1 \<noteq> 0"
| "syn_ok (SSE i) \<longleftrightarrow> \<bar>i\<bar> < 2 ^ 30"
| "syn_ok (SI n i) \<longleftrightarrow> 0 < n \<and> n \<le> 32 \<and> - (2 ^ (n - 1)) \<le> i \<and> i < 2 ^ (n - 1)"

fun put_syn :: "syn \<Rightarrow> BitStreamLite \<Rightarrow> BitStreamLite option" where
  "put_syn (SU n v) bs = AL_BitStreamLite_PutU bs n v"
| "put_syn (SUE v) bs = AL_BitStreamLite_PutUE bs v"
| "put_syn (SSE i) bs = AL_BitStreamLite_PutSE bs i"
| "put_syn (SI n i) bs = AL_BitStreamLite_PutI bs n i"

fun get_syn :: "syn \<Rightarrow> AL_TRbspParser \<Rightarrow> (syn \<times> AL_TRbspParser) option" where
  "get_syn (SU n _) rp = do { (v, rp) \<leftarrow> u rp n; Some (SU n v, rp) }"
| "get_syn (SUE _) rp = do { (v, rp) \<leftarrow> ue rp; Some (SUE v, rp) }"
| "get_syn (SSE _) rp = do { (i, rp) \<leftarrow> se rp; Some (SSE i, rp) }"
| "get_syn (SI n _) rp = do { (i, rp) \<leftarrow> i_code rp n; Some (SI n i, rp) }"

fun syn_bits :: "syn \<Rightarrow> bool list" where
  "syn_bits (SU n v) = nbits n v"
| "syn_bits (SUE v) = ue_bits v"
| "syn_bits (SSE i) = ue_bits (word_of_int (se_code i))"
| "syn_bits (SI n i) = nbits n (word_of_int i :: u32)"

text \<open>A list of elements and the trailing bits; reading gives the elements back.\<close>

definition put_rbsp :: "syn list \<Rightarrow> BitStreamLite \<Rightarrow> BitStreamLite option" where
  "put_rbsp fs bs = do {
     bs \<leftarrow> foldM put_syn fs bs;
     bs \<leftarrow> AL_BitStreamLite_PutU bs 1 1;
     AL_BitStreamLite_AlignWithBits bs 0 }"

fun get_syns :: "syn list \<Rightarrow> AL_TRbspParser \<Rightarrow> (syn list \<times> AL_TRbspParser) option" where
  "get_syns [] rp = Some ([], rp)"
| "get_syns (f # fs) rp = do { (x, rp) \<leftarrow> get_syn f rp; (xs, rp) \<leftarrow> get_syns fs rp; Some (x # xs, rp) }"

text \<open>How the parsers open a unit: the start code is skipped, then the header.\<close>

definition get_nal :: "nat \<Rightarrow> syn list \<Rightarrow> AL_TRbspParser \<Rightarrow> (syn list \<times> AL_TRbspParser) option" where
  "get_nal hdr_size fs rp = do {
     rp \<leftarrow> skipAllZerosAndTheNextByte rp;
     rp \<leftarrow> skip rp (8 * hdr_size);
     get_syns fs rp }"

lemma put_syn_fun:
  "put_syn (SU n v) = (\<lambda>bs. AL_BitStreamLite_PutU bs n v)" "put_syn (SUE v) = (\<lambda>bs. AL_BitStreamLite_PutUE bs v)"
  "put_syn (SSE i) = (\<lambda>bs. AL_BitStreamLite_PutSE bs i)" "put_syn (SI n i) = (\<lambda>bs. AL_BitStreamLite_PutI bs n i)"
  by (simp_all add: fun_eq_iff)

lemma writes_syn: "syn_ok f \<Longrightarrow> writes (put_syn f) (\<lambda>_. syn_bits f)"
  using writes_u writes_ue writes_se writes_i by (cases f) (auto simp: put_syn_fun)

definition rbsp_bits :: "syn list \<Rightarrow> bool list" where
  "rbsp_bits fs = (let xs = concat (map syn_bits fs) in xs @ True # align_bits False (Suc (length xs)))"

lemma writes_rbsp:
  assumes "\<forall>f \<in> set fs. syn_ok f"
  shows "\<exists>X. writes (put_rbsp fs) X \<and> X 0 = rbsp_bits fs"
proof -
  have "writes (foldM put_syn fs) (\<lambda>_. concat (map syn_bits fs))"
    by (rule writes_foldM) (use assms writes_syn in auto)
  moreover have "writes (\<lambda>bs. AL_BitStreamLite_PutU bs 1 1) (\<lambda>_. nbits 1 (1 :: u32))"
    using writes_u [of 1 1] by (simp add: drop_bit_Suc)
  moreover have "writes (\<lambda>bs. AL_BitStreamLite_AlignWithBits bs 0) (align_bits False)"
    using writes_align [of 0] by simp
  ultimately have "writes (put_rbsp fs) (\<lambda>c. concat (map syn_bits fs) @ nbits 1 (1 :: u32)
      @ align_bits False (c + length (concat (map syn_bits fs)) + length (nbits 1 (1 :: u32))))"
    unfolding put_rbsp_def by (rule writes_bind [OF _ writes_bind])
  then show ?thesis
    by (intro exI conjI, assumption) (simp add: rbsp_bits_def nbits_1 Let_def)
qed

lemma length_rbsp_bits: "length (rbsp_bits fs) mod 8 = 0"
  using align_aligned [of "Suc (length (concat (map syn_bits fs)))" False] by (simp add: rbsp_bits_def Let_def)

lemma bits_bytes: "length xs = 8 * n \<Longrightarrow> \<exists>d. bytes_bits d = xs"
proof (induction n arbitrary: xs)
  case 0
  then show ?case by (intro exI [of _ "[]"]) simp
next
  case (Suc n)
  let ?b = "word_of_int (horner_sum of_bool 2 (rev (take 8 xs))) :: u8"
  have "byte_bits ?b = take 8 xs"
  proof (rule nth_equalityI)
    show "length (byte_bits ?b) = length (take 8 xs)" using Suc.prems by simp
    fix i assume "i < length (byte_bits ?b)"
    then have i: "i < 8" by simp
    then show "byte_bits ?b ! i = take 8 xs ! i"
      using Suc.prems by (auto simp: byte_bits_nth bit_word_of_int_iff bit_horner_sum_bit_iff rev_nth)
  qed
  moreover obtain d where "bytes_bits d = drop 8 xs" using Suc.IH [of "drop 8 xs"] Suc.prems by auto
  ultimately have "bytes_bits (?b # d) = xs" by simp
  then show ?case by blast
qed

lemma bytes_bits_drop: "bytes_bits (drop k d) = drop (8 * k) (bytes_bits d)"
  by (induction d arbitrary: k) (auto simp: drop_Cons' diff_mult_distrib2)

lemma slice_app:
  assumes "bytes_bits B = P @ X @ R"
  shows "slice B (length P) (length X) = X"
  using assms by (simp add: slice_def)

lemma slice_byte: "j < length B \<Longrightarrow> slice B (8 * j) 8 = byte_bits (B ! j)"
  by (rule nth_equalityI) (auto simp: length_slice slice_nth bytes_bits_nth byte_bits_nth)

lemma drop_8_byte: "drop_bit 8 (ucast b :: u32) = 0" for b :: u8
  by (rule bit_eqI) (auto simp: bit_drop_bit_eq bit_ucast_iff dest: bit_imp_le_length)

lemma byte_zero: "(ucast b :: u32) = 0 \<longleftrightarrow> b = 0" for b :: u8
proof
  assume z: "(ucast b :: u32) = 0"
  show "b = 0"
  proof (rule bit_eqI)
    fix i assume i: "possible_bit TYPE(u8) i"
    have "bit (ucast b :: u32) i \<longleftrightarrow> bit b i" using i by (auto simp: bit_ucast_iff)
    then show "bit b i = bit 0 i" using z by simp
  qed
qed simp

lemma get_syn_reads:
  assumes "syn_ok f" "rp_ok B S rp" "rp_iCurrentBitIndex rp + length (syn_bits f) \<le> S"
    "slice B (rp_iCurrentBitIndex rp) (length (syn_bits f)) = syn_bits f"
  shows "\<exists>rp'. get_syn f rp = Some (f, rp') \<and> rp_ok B S rp'
    \<and> rp_iCurrentBitIndex rp' = rp_iCurrentBitIndex rp + length (syn_bits f)"
proof (cases f)
  case (SU n v)
  then show ?thesis using u_reads [OF assms(2), of n v] assms by auto
next
  case (SUE v)
  then show ?thesis using ue_reads [OF assms(2), of v] assms by auto
next
  case (SSE i)
  then show ?thesis using se_reads [OF assms(2), of i] assms by auto
next
  case (SI n i)
  then show ?thesis using i_reads [OF assms(2), of n i] assms by auto
qed

lemma get_syns_reads:
  assumes "\<forall>f \<in> set fs. syn_ok f" "rp_ok B S rp" "bytes_bits B = P @ concat (map syn_bits fs) @ R"
    "rp_iCurrentBitIndex rp = length P" "length P + length (concat (map syn_bits fs)) \<le> S"
  shows "\<exists>rp'. get_syns fs rp = Some (fs, rp') \<and> rp_ok B S rp'
    \<and> rp_iCurrentBitIndex rp' = length P + length (concat (map syn_bits fs))"
  using assms
proof (induction fs arbitrary: rp P)
  case Nil
  then show ?case by simp
next
  case (Cons f fs)
  have "bytes_bits B = P @ syn_bits f @ (concat (map syn_bits fs) @ R)" using Cons.prems(3) by simp
  from slice_app [OF this]
  obtain rp1 where rp1: "get_syn f rp = Some (f, rp1)" "rp_ok B S rp1"
    "rp_iCurrentBitIndex rp1 = length (P @ syn_bits f)"
    using get_syn_reads [of f B S rp] Cons.prems by auto
  obtain rp' where "get_syns fs rp1 = Some (fs, rp')" "rp_ok B S rp'"
    "rp_iCurrentBitIndex rp' = length (P @ syn_bits f) + length (concat (map syn_bits fs))"
    using Cons.IH [OF _ rp1(2) _ rp1(3)] Cons.prems by auto
  then show ?case using rp1(1) by simp
qed

lemma skipAllZeros_reads:
  assumes "rp_ok B S rp" "rp_iCurrentBitIndex rp = 8 * j" "\<And>i. i < k \<Longrightarrow> B ! (j + i) = 0" "B ! (j + k) \<noteq> 0"
    "8 * (j + k + 1) \<le> S" "k < f"
  shows "\<exists>rp'. skipAllZeros_loop f rp = Some rp' \<and> rp_ok B S rp' \<and> rp_iCurrentBitIndex rp' = 8 * (j + k + 1)"
  using assms
proof (induction k arbitrary: f rp j)
  case 0
  then obtain g where f: "f = Suc g" by (cases f) auto
  have j: "j < length B" using 0 rp_at_bounds(2) [OF rp_ok_at [OF 0(1)]] by simp
  have "slice B (8 * j) 8 = nbits 8 (ucast (B ! j) :: u32)" by (simp only: slice_byte [OF j] nbits_8_byte)
  then obtain rp' where rp': "u rp 8 = Some (ucast (B ! j), rp')" "rp_ok B S rp'" "rp_iCurrentBitIndex rp' = 8 * j + 8"
    using u_reads [OF 0(1), of 8 "ucast (B ! j)"] 0(2,5) drop_8_byte by auto
  have "(ucast (B ! j) :: u32) \<noteq> 0" using 0(4) drop_8_byte byte_zero by simp
  then show ?case using rp' by (simp add: f)
next
  case (Suc k)
  then obtain g where f: "f = Suc g" by (cases f) auto
  have j: "j < length B" using Suc.prems(5) rp_at_bounds(2) [OF rp_ok_at [OF Suc.prems(1)]] by simp
  have z: "B ! j = 0" using Suc.prems(3) [of 0] by simp
  obtain rp1 where rp1: "u rp 8 = Some (0, rp1)" "rp_ok B S rp1" "rp_iCurrentBitIndex rp1 = 8 * (j + 1)"
    using u_reads [OF Suc.prems(1), of 8 0] Suc.prems(2,5) slice_byte [OF j] nbits_8_byte [of 0] z by auto
  have "B ! (j + 1 + i) = 0" if "i < k" for i using Suc.prems(3) [of "Suc i"] that by simp
  then show ?case
    using Suc.IH [OF rp1(2,3), of g] Suc.prems(4-6) rp1(1) by (simp add: f)
qed

text \<open>A whole unit: start code, header, syntax elements and trailing bits.\<close>

lemma get_nal_reads:
  assumes "rp_ok B S rp" "rp_iCurrentBitIndex rp = 0" "\<forall>f \<in> set fs. syn_ok f"
    and B: "B = start_code four @ hdr @ d @ zs" "bytes_bits d = rbsp_bits fs"
    and S: "S = 8 * length (start_code four @ hdr) + length (concat (map syn_bits fs))"
  shows "\<exists>rp'. get_nal (length hdr) fs rp = Some (fs, rp') \<and> rp_iCurrentBitIndex rp' = S"
proof -
  let ?z = "length (start_code four) - 1"
  note bd = rp_at_bounds [OF rp_ok_at [OF assms(1)]]
  have z: "B ! i = 0" if "i < ?z" for i
    using that B by (auto simp: start_code_def nth_append nth_Cons split: nat.split if_splits)
  have one: "B ! ?z \<noteq> 0" using B by (auto simp: start_code_def nth_append)
  have len: "length (start_code four) = ?z + 1" by (simp add: start_code_def)
  obtain rp1 where rp1: "skipAllZerosAndTheNextByte rp = Some rp1" "rp_ok B S rp1"
    "rp_iCurrentBitIndex rp1 = 8 * length (start_code four)"
    using skipAllZeros_reads [OF assms(1), of 0 ?z "bits_left rp"] z one S bd assms(2) len B(1)
    by (auto simp: skipAllZerosAndTheNextByte_def bits_left_def)
  obtain rp2 where rp2: "skip rp1 (8 * length hdr) = Some rp2" "rp_ok B S rp2"
    "rp_iCurrentBitIndex rp2 = length (bytes_bits (start_code four @ hdr))"
    using skip_correct [OF rp1(2), of "8 * length hdr"] rp1(3) S by auto
  have "bytes_bits B = bytes_bits (start_code four @ hdr) @ concat (map syn_bits fs)
      @ True # align_bits False (Suc (length (concat (map syn_bits fs)))) @ bytes_bits zs"
    using B by (simp add: rbsp_bits_def Let_def)
  from get_syns_reads [OF assms(3) rp2(2) this rp2(3)] show ?thesis
    using rp1(1) rp2(1) S by (auto simp: get_nal_def)
qed

lemma rbsp_stop_bit:
  assumes "bytes_bits B = P @ rbsp_bits fs @ replicate n False"
  shows "stop_bit B (length P + length (concat (map syn_bits fs)))"
proof -
  let ?xs = "concat (map syn_bits fs)"
  let ?Z = "align_bits False (Suc (length ?xs)) @ replicate n False"
  have eq: "bytes_bits B = (P @ ?xs) @ True # ?Z"
    using assms by (simp add: rbsp_bits_def Let_def)
  have len: "8 * length B = length P + length ?xs + 1 + length ?Z"
    using arg_cong [OF eq, of length] by simp
  have "\<not> bytes_bits B ! i" if lt: "length (P @ ?xs) < i" "i < 8 * length B" for i
  proof -
    obtain j where j: "i = length (P @ ?xs) + Suc j" using less_imp_Suc_add [OF lt(1)] by (metis add_Suc_right)
    then have "bytes_bits B ! i = ?Z ! j"
      unfolding eq by (simp only: nth_append_length_plus nth_Cons_Suc)
    moreover have "j < length ?Z" using lt(2) len j by simp
    ultimately show ?thesis by (simp add: align_bits_def nth_append split: if_splits)
  qed
  moreover have "bytes_bits B ! (length P + length ?xs)" unfolding eq by (simp add: nth_append)
  ultimately show ?thesis using len by (simp add: stop_bit_def)
qed

lemma rbsp_payload: "\<exists>d. bytes_bits d = rbsp_bits fs \<and> d \<noteq> []"
proof -
  obtain n where "length (rbsp_bits fs) = 8 * n" using length_rbsp_bits by (metis mod_0_imp_dvd dvdE)
  then obtain d where "bytes_bits d = rbsp_bits fs" using bits_bytes by blast
  then show ?thesis by (intro exI [of _ d]) (auto simp: rbsp_bits_def Let_def)
qed

text \<open>The bytes of the stream written by an operation that started and ended on a byte boundary.\<close>

lemma appends_bytes:
  assumes "appends bs (bytes_bits xs) bs'" "bs_iBitCount bs = 8 * k" "bs_iBitCount bs' \<le> bs_iMaxBits bs'" "bs_wf bs"
  shows "take (length xs) (drop k (bs_pData bs')) = xs"
proof (rule bytes_bits_inj)
  have wf: "bs_wf bs'" "bs_iMaxBits bs' \<le> 8 * length (bs_pData bs')"
    "bs_iBitCount bs' = 8 * k + 8 * length xs" "bs_iMaxBits bs' = bs_iMaxBits bs"
    using assms(1,2) by (auto simp: appends_def bs_wf_def)
  have "bs_bits bs' = bs_bits bs @ bytes_bits xs"
    using assms(1,3) wf length_bs_bits [OF assms(4)] assms(2) by (simp add: appends_def)
  moreover have "bs_bits bs' = take (8 * k + 8 * length xs) (bytes_bits (bs_pData bs'))"
    using assms(3) wf by (simp add: bs_bits_def)
  moreover have "length (bs_bits bs) = 8 * k" using length_bs_bits [OF assms(4)] assms(2,3) wf by simp
  ultimately have "bytes_bits xs = drop (8 * k) (take (8 * k + 8 * length xs) (bytes_bits (bs_pData bs')))"
    by (metis append_eq_conv_conj)
  then show "bytes_bits (take (length xs) (drop k (bs_pData bs'))) = bytes_bits xs"
    using assms(3) wf by (simp add: bytes_bits_take bytes_bits_drop drop_take)
qed

lemma rbsp_last:
  assumes "bytes_bits d = rbsp_bits fs" "d \<noteq> []"
  shows "last d \<noteq> 0"
proof -
  let ?S = "length (concat (map syn_bits fs))"
  have st: "stop_bit d ?S" using rbsp_stop_bit [of d "[]" fs 0] assms(1) by simp
  have "8 * length d = ?S + 1 + length (align_bits False (Suc ?S))"
    using arg_cong [OF assms(1), of length] by (simp add: rbsp_bits_def Let_def)
  moreover have "length (align_bits False (Suc ?S)) < 8" by (auto simp: align_bits_def)
  ultimately have "?S div 8 = length d - 1" using assms(2) by (cases d) auto
  then have "last d = d ! (?S div 8)" using assms(2) by (simp add: last_conv_nth)
  moreover have "bit (d ! (?S div 8)) (7 - ?S mod 8)" using st bytes_bits_nth [of ?S d] unfolding stop_bit_def by blast
  ultimately show ?thesis by auto
qed

section \<open>Properties\<close>

text \<open>
  A circular buffer \<open>s\<close> holding the bytes \<open>xs\<close> from its read position on, wherever that is, and a
  destination buffer of \<open>sz\<close> bytes that can take them.
\<close>

definition holds_unit :: "AL_TCircBuffer \<Rightarrow> u8 list \<Rightarrow> u8 list \<Rightarrow> nat \<Rightarrow> bool" where
  "holds_unit s xs buf sz \<longleftrightarrow> ring (cb_pVirtualAddr s) (cb_iOffset s) (cb_iAvailSize s) = xs
     \<and> 0 < cb_uSize s \<and> cb_uSize s = length (cb_pVirtualAddr s) \<and> length xs + 4 \<le> sz \<and> sz \<le> length buf \<and> sz < 2 ^ 28"

lemma parse_unit:
  assumes "holds_unit s (start_code four @ hdr @ escape d @ rest) buf sz" "next_unit rest"
    and "\<forall>b \<in> set hdr. b \<noteq> 0" "\<forall>f \<in> set fs. syn_ok f" "bytes_bits d = rbsp_bits fs" "d \<noteq> []"
  shows "\<exists>rp. get_nal (length hdr) fs (InitRbspParser s buf sz True) = Some (fs, rp)"
proof -
  obtain k where k: "k \<le> 3" "k \<le> length rest" "unescape 0 0 (start_code four @ hdr @ escape d @ rest) = start_code four @ hdr @ d @ replicate k 0"
    using unescape_nal [OF assms(3,6) rbsp_last [OF assms(5,6)] assms(2)] by blast
  let ?B = "start_code four @ hdr @ d @ replicate k 0"
  let ?S = "8 * length (start_code four @ hdr) + length (concat (map syn_bits fs))"
  have z: "bytes_bits (replicate k 0) = replicate (8 * k) False"
    by (rule nth_equalityI) (auto simp: bytes_bits_nth nth_replicate div_less_iff_less_mult mult.commute)
  have "stop_bit ?B (length (bytes_bits (start_code four @ hdr)) + length (concat (map syn_bits fs)))"
    by (rule rbsp_stop_bit [of _ _ _ "8 * k"]) (simp add: assms(5) z)
  then have st: "stop_bit ?B ?S" by simp
  have "rp_ok ?B ?S (InitRbspParser s buf sz True)"
    by (rule InitRbspParser_ok [OF _ _ _ _ k(3) st])
      (use assms(1) k(2) length_escape [of d] in \<open>auto simp: holds_unit_def start_code_def\<close>)
  moreover have "rp_iCurrentBitIndex (InitRbspParser s buf sz True) = 0"
    by (simp add: InitRbspParser_def Let_def)
  ultimately show ?thesis using get_nal_reads [OF _ _ assms(4) refl assms(5) refl] by blast
qed

text \<open>
  C1 The writer and the parser agree. For every list of syntax elements (fixed length codes, signed
  codes, \<open>ue\<close> and \<open>se\<close> codes) that fits the scratch buffer, \<open>WriteNal\<close> appends a unit such that,
  wherever it is put in the circular buffer of the decoder and whatever start code follows it, the
  parser skips its start code and its header and reads exactly these elements, across fetches of
  32 bytes and emulation prevention bytes. The only failure is a stream that is too small, and
  then \<open>WriteNal\<close> returns -1.
\<close>

theorem nal_roundtrip:
  assumes "\<forall>f \<in> set fs. syn_ok f" "length (rbsp_bits fs) \<le> 8 * sz" "sz \<le> length tmp"
    and "wsc = AVC_writeStartCode \<or> wsc = HEVC_writeStartCode"
    and "nh_size h \<le> length (nh_bytes h)" "\<forall>b \<in> set (take (nh_size h) (nh_bytes h)). b \<noteq> 0"
    and "bs_wf bs" "bs_iBitCount bs = 8 * k" "\<not> bs_isOverflow bs"
  shows "\<exists>n bs'. WriteNal wsc (put_rbsp fs) tmp bs sz nut h mode = Some (n, bs')
    \<and> (n = -1 \<longleftrightarrow> bs_isOverflow bs')
    \<and> (n \<noteq> -1 \<longrightarrow> (\<forall>s buf sz' rest. next_unit rest \<longrightarrow>
          holds_unit s (take (nat n) (drop k (bs_pData bs')) @ rest) buf sz' \<longrightarrow>
          (\<exists>rp. get_nal (nh_size h) fs (InitRbspParser s buf sz' True) = Some (fs, rp))))"
proof -
  obtain d where d: "bytes_bits d = rbsp_bits fs" "d \<noteq> []" using rbsp_payload by blast
  obtain X where X: "writes (put_rbsp fs) X" "X 0 = rbsp_bits fs" using writes_rbsp [OF assms(1)] by blast
  have X0: "X 0 = bytes_bits d" using X(2) d(1) by simp
  have ld: "\<not> sz < length d" using arg_cong [OF d(1), of length] assms(2) by simp
  obtain four where four: "\<And>bs. wsc bs nut mode = put_start_code four bs"
    using assms(4) by (auto simp: AVC_writeStartCode_def HEVC_writeStartCode_def)
  have al: "bs_iBitCount bs mod 8 = 0" using assms(8) by simp
  let ?xs = "nal_bytes four h d" and ?hdr = "take (nh_size h) (nh_bytes h)"
  obtain bs' where bs': "WriteNal wsc (put_rbsp fs) tmp bs sz nut h mode =
      Some (if bs_iMaxBits bs < bs_iBitCount bs + 8 * length ?xs then -1 else int (length ?xs), bs')"
    "appends bs (bytes_bits ?xs) bs'"
    using WriteNal_result [where wsc = wsc and nut = nut and mode = mode and four = four,
        OF X(1) X0 d(2) assms(3) four assms(5,7) al assms(9)] ld by (auto split: if_splits)
  have ov: "bs_isOverflow bs' \<longleftrightarrow> bs_iMaxBits bs < bs_iBitCount bs + 8 * length ?xs"
    using bs'(2) by (auto simp: appends_def bs_wf_def)
  have "\<exists>rp. get_nal (nh_size h) fs (InitRbspParser s buf sz' True) = Some (fs, rp)"
    if fit: "\<not> bs_isOverflow bs'" and r: "next_unit rest"
      and s: "holds_unit s (take (length ?xs) (drop k (bs_pData bs')) @ rest) buf sz'" for s buf sz' rest
  proof -
    have "take (length ?xs) (drop k (bs_pData bs')) = ?xs"
      by (rule appends_bytes [OF bs'(2) assms(8) _ assms(7)])
        (use fit bs'(2) in \<open>auto simp: appends_def bs_wf_def\<close>)
    then have "holds_unit s (start_code four @ ?hdr @ escape d @ rest) buf sz'"
      using s by (simp add: nal_bytes_def)
    from parse_unit [OF this r assms(6,1) d] assms(5) show ?thesis by simp
  qed
  then show ?thesis using bs'(1) ov by auto
qed

theorem nal_roundtrip_witness:
  "\<exists>n bs'. WriteNal AVC_writeStartCode (put_rbsp [SU 3 5, SUE 2, SSE (- 1), SI 4 (- 8)]) (replicate 8 0)
      (AL_BitStreamLite_Init (replicate 32 9) 32) 8 7 \<lparr>nh_bytes = [0x67], nh_size = 1\<rparr> AL_START_CODE_AUTO = Some (n, bs')
    \<and> (n = -1 \<longleftrightarrow> bs_isOverflow bs')
    \<and> (n \<noteq> -1 \<longrightarrow> (\<forall>s buf sz' rest. next_unit rest \<longrightarrow>
          holds_unit s (take (nat n) (drop 0 (bs_pData bs')) @ rest) buf sz' \<longrightarrow>
          (\<exists>rp. get_nal 1 [SU 3 5, SUE 2, SSE (- 1), SI 4 (- 8)] (InitRbspParser s buf sz' True) =
             Some ([SU 3 5, SUE 2, SSE (- 1), SI 4 (- 8)], rp))))"
proof -
  let ?fs = "[SU 3 5, SUE 2, SSE (- 1), SI 4 (- 8)]"
  let ?h = "\<lparr>nh_bytes = [0x67], nh_size = 1\<rparr>" and ?bs = "AL_BitStreamLite_Init (replicate 32 9) 32"
  have ok: "\<forall>f \<in> set ?fs. syn_ok f" by (simp add: drop_bit_eq_div)
  have "length (rbsp_bits ?fs) \<le> 8 * 8" by code_simp
  from nal_roundtrip [OF ok this, of "replicate 8 0" AVC_writeStartCode ?h ?bs 0 7 AL_START_CODE_AUTO] init_wf [of 32 "replicate 32 9"]
  show ?thesis by (simp add: AL_BitStreamLite_Init_def)
qed

end
