(* ===== verification/Dpb_State.thy ===== *)
theory Dpb_State
  imports Links
begin

text \<open>
  The decoded picture buffer, \<open>lib_parsing/DPB.c\<close>: the nodes and the three lists threaded through
  them, the picture identifiers, the display queue, insertion, removal, display and clean-up. The
  marking process is in \<open>Dpb_Marking\<close>, the reference lists in \<open>Dpb_RefList\<close>.

  The C functions take the recursive mutex of the buffer for their whole body, so each is one step
  here. The \<open>uint8_t\<close> counters are naturals below 256 that wrap; an access outside an array
  is \<^const>\<open>None\<close>. The callbacks to the picture manager are recorded in order in a log.
\<close>

section \<open>Data\<close>

definition AL_MAX_REF :: nat where "AL_MAX_REF = 16"
definition AL_REF_MNGR_MAX_BUF_SIZE :: nat where "AL_REF_MNGR_MAX_BUF_SIZE = 16 + 16 + 1 + 1"
definition AL_REFMNGR_MAX_POOL_SIZE :: nat where "AL_REFMNGR_MAX_POOL_SIZE = AL_REF_MNGR_MAX_BUF_SIZE + AL_MAX_REF"
definition INT32_MAX :: int where "INT32_MAX = 2147483647"
definition INT32_MIN :: int where "INT32_MIN = - 2147483648"
definition AL_NUT_ERR :: int where "AL_NUT_ERR = -1"

text \<open>The value of an \<open>int32_t\<close> that receives \<open>z\<close> modulo 2^32.\<close>

definition to_int32 :: "int \<Rightarrow> int" where
  "to_int32 z = (z + 2147483648) mod 4294967296 - 2147483648"

definition inc8 :: "nat \<Rightarrow> nat" where "inc8 n = (n + 1) mod 256"
definition dec8 :: "nat \<Rightarrow> nat" where "dec8 n = (n + 255) mod 256"

datatype AL_EPicStatus = AL_NOT_NEEDED_FOR_OUTPUT | AL_NOT_READY_FOR_OUTPUT | AL_READY_FOR_OUTPUT
datatype AL_EMarkingRef = SHORT_TERM_REF | LONG_TERM_REF | UNUSED_FOR_REF | NON_EXISTING_REF
datatype AL_EDpbMode = AL_DPB_NORMAL | AL_DPB_NO_REORDERING

record AL_TDispFifo =
  df_pFrmIDs :: "index list"
  df_pPicLatency :: "nat list"
  df_pFrmStatus :: "AL_EPicStatus list"
  df_tFirstFrmID :: nat
  df_uNumFrm :: nat

record AL_TDpbNode =
  nd_tNodeID :: index
  nd_tFrameID :: index
  nd_tMvID :: index
  nd_tPicID :: index
  nd_tPrevPOCNodeID :: index
  nd_tNextPOCNodeID :: index
  nd_tPrevPocLsbNodeID :: index
  nd_tNextPocLsbNodeID :: index
  nd_tPrevDecOrderNodeID :: index
  nd_tNextDecOrderNodeID :: index
  nd_iFramePOC :: int
  nd_ePicStruct :: int
  nd_slice_pic_order_cnt_lsb :: int
  nd_eMarkingFlag :: AL_EMarkingRef
  nd_iFrameNumber :: int
  nd_iSliceFrameNumber :: int
  nd_iFrameNumberWrap :: int
  nd_iLongTermFrameIdx :: int
  nd_iLongTermPicNum :: int
  nd_iPicNum :: int
  nd_bPicOutputFlag :: bool
  nd_bIsReset :: bool
  nd_bIsDisplayed :: bool
  nd_uPicLatency :: nat
  nd_bNonExisting :: bool
  nd_eNUT :: int
  nd_bSubpicFlag :: bool

record AL_TDpbInsertParam =
  ip_iFramePOC :: int
  ip_ePicStruct :: int
  ip_iPocLsb :: int
  ip_bPicOutputFlag :: bool
  ip_eMarkingFlag :: AL_EMarkingRef
  ip_bNonExisting :: bool
  ip_eNUT :: int
  ip_bSubpicFlag :: bool

text \<open>The calls made to the picture manager.\<close>

datatype dpb_event = IncrementFrmBuf index | DecrementFrmBuf index | OutputFrmBuf index
  | IncrementAnnexBuf index | DecrementAnnexBuf index

text \<open>
  The fields of \<open>AL_TDpb\<close> that \<open>DPB.c\<close> uses; the HEVC reference picture sets and the running data
  of the POC computation belong to the picture managers of the codecs.
\<close>

record AL_TDpb =
  dp_Nodes :: "AL_TDpbNode list"
  dp_DispFifo :: AL_TDispFifo
  dp_PicId2NodeId :: "index list"
  dp_PicId2FrmId :: "index list"
  dp_PicId2MvId :: "index list"
  dp_FreePicIDs :: "index list"
  dp_FreePicIdCnt :: nat
  dp_bPicWaiting :: bool
  dp_tNodeWaitingID :: index
  dp_tFrmWaitingID :: index
  dp_tMvWaitingID :: index
  dp_pDeletedFrmIDLst :: "index list"
  dp_pDeletedMvIDLst :: "index list"
  dp_iDeletedFrmLstHead :: nat
  dp_iDeletedFrmLstTail :: nat
  dp_iDeletedMvLstHead :: nat
  dp_iDeletedMvLstTail :: nat
  dp_iNumDeletedPic :: nat
  dp_iLastDisplayedPOC :: int
  dp_uNumOutputPic :: nat
  dp_uNumRef :: nat
  dp_tHeadPOCNodeID :: index
  dp_tHeadPocLsbNodeID :: index
  dp_tLastPOCNodeID :: index
  dp_tHeadDecOrderNodeID :: index
  dp_tCurRefNodeID :: index
  dp_uCountRef :: nat
  dp_uCountPic :: nat
  dp_iMaxLongTermFrameIdx :: int
  dp_bLastHasMMCO5 :: bool
  dp_eMode :: AL_EDpbMode
  dp_iCurFramePOC :: int
  dp_log :: "dpb_event list"

definition call :: "dpb_event \<Rightarrow> AL_TDpb \<Rightarrow> AL_TDpb" where
  "call e d = d\<lparr>dp_log := dp_log d @ [e]\<rparr>"

text \<open>Access to a node.\<close>

definition node :: "AL_TDpb \<Rightarrow> index \<Rightarrow> AL_TDpbNode option" where
  "node d i = arr_get (dp_Nodes d) i"

definition upd_node :: "AL_TDpb \<Rightarrow> index \<Rightarrow> (AL_TDpbNode \<Rightarrow> AL_TDpbNode) \<Rightarrow> AL_TDpb option" where
  "upd_node d i g = do { n \<leftarrow> node d i; Some (d\<lparr>dp_Nodes := (dp_Nodes d)[nat i := g n]\<rparr>) }"

text \<open>\<open>if(IS_NODE_VALID(i)) Nodes[i] ...\<close>\<close>

definition upd_valid :: "AL_TDpb \<Rightarrow> index \<Rightarrow> (AL_TDpbNode \<Rightarrow> AL_TDpbNode) \<Rightarrow> AL_TDpb option" where
  "upd_valid d i g = (if AL_IS_VALID_INDEX i then upd_node d i g else Some d)"

definition next_poc :: "AL_TDpb \<Rightarrow> index \<Rightarrow> index option" where
  "next_poc d i = map_option nd_tNextPOCNodeID (node d i)"

definition next_lsb :: "AL_TDpb \<Rightarrow> index \<Rightarrow> index option" where
  "next_lsb d i = map_option nd_tNextPocLsbNodeID (node d i)"

definition next_dec :: "AL_TDpb \<Rightarrow> index \<Rightarrow> index option" where
  "next_dec d i = map_option nd_tNextDecOrderNodeID (node d i)"

section \<open>The display queue\<close>

definition DispFifo_Init :: "AL_TDispFifo \<Rightarrow> AL_TDispFifo" where
  "DispFifo_Init f = f\<lparr>df_pFrmIDs := replicate AL_REFMNGR_MAX_POOL_SIZE AL_BAD_INDEX,
     df_pFrmStatus := replicate AL_REFMNGR_MAX_POOL_SIZE AL_NOT_NEEDED_FOR_OUTPUT,
     df_tFirstFrmID := 0, df_uNumFrm := 0\<rparr>"

definition DispFifo_IsEmpty :: "AL_TDispFifo \<Rightarrow> bool" where
  "DispFifo_IsEmpty f =
     (let uEnd = (df_tFirstFrmID f + df_uNumFrm f) mod AL_REFMNGR_MAX_POOL_SIZE; uBegin = df_tFirstFrmID f in
      uBegin = uEnd \<and> df_uNumFrm f \<noteq> AL_REFMNGR_MAX_POOL_SIZE)"

definition DispFifo_Queue :: "AL_TDispFifo \<Rightarrow> index \<Rightarrow> nat \<Rightarrow> AL_TDispFifo option" where
  "DispFifo_Queue f tFrameID uPicLatency = do {
     let uID = (df_tFirstFrmID f + df_uNumFrm f) mod 256;
     ids \<leftarrow> arr_set (df_pFrmIDs f) (int (uID mod AL_REFMNGR_MAX_POOL_SIZE)) tFrameID;
     lat \<leftarrow> arr_set (df_pPicLatency f) tFrameID uPicLatency;
     Some (f\<lparr>df_pFrmIDs := ids, df_pPicLatency := lat, df_uNumFrm := inc8 (df_uNumFrm f)\<rparr>) }"

definition DispFifo_Peek :: "AL_TDispFifo \<Rightarrow> index option" where
  "DispFifo_Peek f = arr_get (df_pFrmIDs f) (int (df_tFirstFrmID f))"

definition DispFifo_Dequeue :: "AL_TDispFifo \<Rightarrow> (index \<times> AL_TDispFifo) option" where
  "DispFifo_Dequeue f = do {
     tFrameID \<leftarrow> arr_get (df_pFrmIDs f) (int (df_tFirstFrmID f));
     if AL_IS_VALID_INDEX tFrameID
     then do {
       ids \<leftarrow> arr_set (df_pFrmIDs f) (int (df_tFirstFrmID f)) AL_BAD_INDEX;
       st \<leftarrow> arr_set (df_pFrmStatus f) tFrameID AL_NOT_NEEDED_FOR_OUTPUT;
       Some (tFrameID, f\<lparr>df_pFrmIDs := ids,
         df_tFirstFrmID := (df_tFirstFrmID f + 1) mod AL_REFMNGR_MAX_POOL_SIZE,
         df_uNumFrm := dec8 (df_uNumFrm f), df_pFrmStatus := st\<rparr>) }
     else Some (tFrameID, f) }"

definition DispFifo_GetStatus :: "AL_TDispFifo \<Rightarrow> index \<Rightarrow> AL_EPicStatus option" where
  "DispFifo_GetStatus f tFrameID = arr_get (df_pFrmStatus f) tFrameID"

definition DispFifo_SetStatus :: "AL_TDispFifo \<Rightarrow> index \<Rightarrow> AL_EPicStatus \<Rightarrow> AL_TDispFifo option" where
  "DispFifo_SetStatus f tFrameID eStatus = do {
     st \<leftarrow> arr_set (df_pFrmStatus f) tFrameID eStatus;
     Some (f\<lparr>df_pFrmStatus := st\<rparr>) }"

section \<open>Nodes and picture identifiers\<close>

definition AL_Dpb_sResetWaiting :: "AL_TDpb \<Rightarrow> AL_TDpb" where
  "AL_Dpb_sResetWaiting d = d\<lparr>dp_tNodeWaitingID := AL_BAD_INDEX, dp_tFrmWaitingID := AL_BAD_INDEX,
     dp_tMvWaitingID := AL_BAD_INDEX, dp_bPicWaiting := False\<rparr>"

text \<open>The fields \<open>AL_Dpb_sResetNodeInfo\<close> writes; \<open>tPicID\<close>, \<open>ePicStruct\<close>, \<open>iFrameNumber\<close> and
  \<open>bSubpicFlag\<close> keep their values.\<close>

definition reset_node :: "AL_TDpbNode \<Rightarrow> AL_TDpbNode" where
  "reset_node n = n\<lparr>nd_iFramePOC := -1, nd_slice_pic_order_cnt_lsb := -1, nd_tNodeID := AL_BAD_INDEX,
     nd_tPrevPOCNodeID := AL_BAD_INDEX, nd_tNextPOCNodeID := AL_BAD_INDEX,
     nd_tPrevPocLsbNodeID := AL_BAD_INDEX, nd_tNextPocLsbNodeID := AL_BAD_INDEX,
     nd_tPrevDecOrderNodeID := AL_BAD_INDEX, nd_tNextDecOrderNodeID := AL_BAD_INDEX,
     nd_tFrameID := AL_BAD_INDEX, nd_tMvID := AL_BAD_INDEX, nd_eMarkingFlag := UNUSED_FOR_REF,
     nd_bIsReset := True, nd_bPicOutputFlag := False, nd_bIsDisplayed := False, nd_uPicLatency := 0,
     nd_iPicNum := INT32_MAX, nd_iFrameNumberWrap := INT32_MAX, nd_iLongTermPicNum := INT32_MAX,
     nd_iLongTermFrameIdx := INT32_MAX, nd_iSliceFrameNumber := INT32_MAX, nd_bNonExisting := False,
     nd_eNUT := AL_NUT_ERR\<rparr>"

definition AL_Dpb_sResetNodeInfo :: "AL_TDpb \<Rightarrow> index \<Rightarrow> AL_TDpb option" where
  "AL_Dpb_sResetNodeInfo d t = do {
     n \<leftarrow> node d t;
     let d = (if nd_tNodeID n = dp_tNodeWaitingID d then AL_Dpb_sResetWaiting d else d);
     upd_node d t reset_node }"

definition AL_Dpb_sReleasePicID :: "AL_TDpb \<Rightarrow> index \<Rightarrow> AL_TDpb option" where
  "AL_Dpb_sReleasePicID d tPicID =
     (if AL_IS_VALID_INDEX tPicID
      then do {
        m \<leftarrow> arr_set (dp_PicId2NodeId d) tPicID AL_BAD_INDEX;
        fr \<leftarrow> arr_set (dp_FreePicIDs d) (int (dp_FreePicIdCnt d)) tPicID;
        Some (d\<lparr>dp_PicId2NodeId := m, dp_FreePicIDs := fr, dp_FreePicIdCnt := inc8 (dp_FreePicIdCnt d)\<rparr>) }
      else Some d)"

text \<open>\<open>tPicID = FreePicIDs[--FreePicIdCnt]\<close>\<close>

definition pop_pic_id :: "AL_TDpb \<Rightarrow> (index \<times> AL_TDpb) option" where
  "pop_pic_id d = do {
     let d = d\<lparr>dp_FreePicIdCnt := dec8 (dp_FreePicIdCnt d)\<rparr>;
     i \<leftarrow> arr_get (dp_FreePicIDs d) (int (dp_FreePicIdCnt d));
     Some (i, d) }"

definition bind_pic_id :: "AL_TDpb \<Rightarrow> index \<Rightarrow> index \<Rightarrow> index \<Rightarrow> index \<Rightarrow> AL_TDpb option" where
  "bind_pic_id d tPicID tNodeID tFrameID tMvID = do {
     m \<leftarrow> arr_set (dp_PicId2NodeId d) tPicID tNodeID;
     f \<leftarrow> arr_set (dp_PicId2FrmId d) tPicID tFrameID;
     v \<leftarrow> arr_set (dp_PicId2MvId d) tPicID tMvID;
     Some (d\<lparr>dp_PicId2NodeId := m, dp_PicId2FrmId := f, dp_PicId2MvId := v\<rparr>) }"

definition AL_Dpb_sFillWaitingPicture :: "AL_TDpb \<Rightarrow> AL_TDpb option" where
  "AL_Dpb_sFillWaitingPicture d = do {
     n \<leftarrow> node d (dp_tNodeWaitingID d);
     (tPicID, d) \<leftarrow> (if nd_bNonExisting n then Some (AL_BAD_INDEX, d) else pop_pic_id d);
     d \<leftarrow> upd_node d (dp_tNodeWaitingID d) (\<lambda>n. n\<lparr>nd_tPicID := tPicID\<rparr>);
     d \<leftarrow> (if AL_IS_VALID_INDEX tPicID
          then bind_pic_id d tPicID (dp_tNodeWaitingID d) (dp_tFrmWaitingID d) (dp_tMvWaitingID d) else Some d);
     Some (AL_Dpb_sResetWaiting d) }"

definition AL_Dpb_sBeginNewSeq :: "AL_TDpb \<Rightarrow> AL_TDpb" where
  "AL_Dpb_sBeginNewSeq d = d\<lparr>dp_iLastDisplayedPOC := INT32_MIN\<rparr>"

section \<open>Display\<close>

definition AL_Dpb_sAddToDisplayList :: "AL_TDpb \<Rightarrow> index \<Rightarrow> AL_TDpb option" where
  "AL_Dpb_sAddToDisplayList d tNodeID = do {
     n \<leftarrow> node d tNodeID;
     f \<leftarrow> DispFifo_Queue (dp_DispFifo d) (nd_tFrameID n) (nd_uPicLatency n);
     Some (call (OutputFrmBuf (nd_tFrameID n)) (call (IncrementFrmBuf (nd_tFrameID n)) (d\<lparr>dp_DispFifo := f\<rparr>))) }"

text \<open>The end of \<open>AL_Dpb_Display\<close>: the node itself.\<close>

definition display_node :: "AL_TDpb \<Rightarrow> index \<Rightarrow> AL_TDpb option" where
  "display_node d tNodeID = do {
     n \<leftarrow> node d tNodeID;
     if nd_bPicOutputFlag n
     then do {
       d \<leftarrow> (if nd_bNonExisting n then Some d
            else do {
              d \<leftarrow> AL_Dpb_sAddToDisplayList d tNodeID;
              Some (d\<lparr>dp_iLastDisplayedPOC := nd_iFramePOC n\<rparr>) });
       d \<leftarrow> upd_node d tNodeID (\<lambda>n. n\<lparr>nd_bIsDisplayed := True, nd_bPicOutputFlag := False\<rparr>);
       Some (d\<lparr>dp_uNumOutputPic := dec8 (dp_uNumOutputPic d)\<rparr>) }
     else Some d }"

text \<open>Its loop over the anterior pictures; \<open>disp\<close> is the recursive call.\<close>

fun display_loop :: "(AL_TDpb \<Rightarrow> index \<Rightarrow> AL_TDpb option) \<Rightarrow> nat \<Rightarrow> index \<Rightarrow> index \<Rightarrow> AL_TDpb \<Rightarrow> AL_TDpb option" where
  "display_loop disp f tNodeID t d =
     (if t = tNodeID then Some d
      else case f of 0 \<Rightarrow> None
      | Suc f \<Rightarrow> do {
          n \<leftarrow> node d t;
          d \<leftarrow> (if nd_bPicOutputFlag n then disp d t else Some d);
          display_loop disp f tNodeID (nd_tNextPOCNodeID n) d })"

declare display_loop.simps [simp del]

primrec display_at :: "nat \<Rightarrow> AL_TDpb \<Rightarrow> index \<Rightarrow> AL_TDpb option" where
  "display_at 0 d tNodeID = None"
| "display_at (Suc k) d tNodeID = do {
     d \<leftarrow> display_loop (display_at k) AL_REF_MNGR_MAX_BUF_SIZE tNodeID (dp_tHeadPOCNodeID d) d;
     display_node d tNodeID }"

text \<open>The depth of the recursion is bounded by the number of nodes.\<close>

definition AL_Dpb_Display :: "AL_TDpb \<Rightarrow> index \<Rightarrow> AL_TDpb option" where
  "AL_Dpb_Display = display_at (AL_REF_MNGR_MAX_BUF_SIZE + 1)"

end
