(* ===== verification/Dpb_Ops.thy ===== *)
theory Dpb_Ops
  imports Dpb_State
begin

text \<open>
  The operations of the decoded picture buffer (\<open>lib_parsing/DPB.c\<close>): initialisation, accessors,
  insertion, removal, clean-up, flush and the end of the decoding of a frame.
\<close>

section \<open>Initialisation and termination\<close>

text \<open>
  \<open>sApiInit\<close> on the allocated buffer \<open>d\<close>, whose fields hold anything but the mode and the number of
  references. \<open>mutex\<close> is the outcome of the creation of the mutex.
\<close>

definition reset_all_nodes :: "AL_TDpb \<Rightarrow> AL_TDpb option" where
  "reset_all_nodes d = foldM (\<lambda>i d. do {
      d \<leftarrow> upd_node d (int i) (\<lambda>n. n\<lparr>nd_tNodeID := AL_BAD_INDEX\<rparr>);
      AL_Dpb_sResetNodeInfo d (int i) }) [0..<AL_REF_MNGR_MAX_BUF_SIZE] d"

definition sApiInit :: "bool \<Rightarrow> AL_TDpb \<Rightarrow> (bool \<times> AL_TDpb) option" where
  "sApiInit mutex d =
     (if \<not> mutex then Some (False, d)
      else do {
        let d = d\<lparr>dp_FreePicIDs := map int [0..<AL_MAX_REF], dp_PicId2NodeId := replicate AL_MAX_REF AL_BAD_INDEX,
          dp_PicId2FrmId := replicate AL_MAX_REF AL_BAD_INDEX, dp_PicId2MvId := replicate AL_MAX_REF AL_BAD_INDEX,
          dp_FreePicIdCnt := AL_MAX_REF\<rparr>;
        d \<leftarrow> reset_all_nodes (AL_Dpb_sResetWaiting d);
        let d = d\<lparr>dp_tHeadDecOrderNodeID := AL_BAD_INDEX, dp_tHeadPOCNodeID := AL_BAD_INDEX,
          dp_tLastPOCNodeID := AL_BAD_INDEX, dp_tHeadPocLsbNodeID := AL_BAD_INDEX,
          dp_uCountRef := 0, dp_uCountPic := 0, dp_tCurRefNodeID := 0, dp_uNumOutputPic := 0,
          dp_iLastDisplayedPOC := INT32_MIN,
          dp_iDeletedFrmLstHead := 0, dp_iDeletedFrmLstTail := 0, dp_iDeletedMvLstHead := 0,
          dp_iDeletedMvLstTail := 0, dp_iNumDeletedPic := 0, dp_iCurFramePOC := 0\<rparr>;
        Some (True, d\<lparr>dp_DispFifo := DispFifo_Init (dp_DispFifo d)\<rparr>) })"

text \<open>The frames and motion vectors of the removed pictures are given back.\<close>

primrec release_unused_loop :: "nat \<Rightarrow> AL_TDpb \<Rightarrow> AL_TDpb option" where
  "release_unused_loop 0 d = Some d"
| "release_unused_loop (Suc iNum) d = do {
     fr \<leftarrow> arr_get (dp_pDeletedFrmIDLst d) (int (dp_iDeletedFrmLstHead d));
     mv \<leftarrow> arr_get (dp_pDeletedMvIDLst d) (int (dp_iDeletedMvLstHead d));
     let d = call (DecrementAnnexBuf mv) (call (DecrementFrmBuf fr) d);
     release_unused_loop iNum
       (d\<lparr>dp_iDeletedFrmLstHead := (dp_iDeletedFrmLstHead d + 1) mod AL_REFMNGR_MAX_POOL_SIZE,
          dp_iDeletedMvLstHead := (dp_iDeletedMvLstHead d + 1) mod AL_REF_MNGR_MAX_BUF_SIZE,
          dp_iNumDeletedPic := dp_iNumDeletedPic d - 1\<rparr>) }"

definition AL_Dpb_sReleaseUnusedBuf :: "AL_TDpb \<Rightarrow> AL_TDpb option" where
  "AL_Dpb_sReleaseUnusedBuf d =
     (if dp_iNumDeletedPic d = 0 then Some d else release_unused_loop (dp_iNumDeletedPic d) d)"

definition sApiTerminate :: "AL_TDpb \<Rightarrow> AL_TDpb option" where
  "sApiTerminate d = AL_Dpb_sReleaseUnusedBuf d"

section \<open>Accessors\<close>

definition sIsEmpty :: "AL_TDpb \<Rightarrow> bool" where
  "sIsEmpty d \<longleftrightarrow> dp_uCountPic d = 0"

definition AL_Dpb_GetRefCount :: "AL_TDpb \<Rightarrow> nat" where "AL_Dpb_GetRefCount d = dp_uCountRef d"
definition AL_Dpb_GetPicCount :: "AL_TDpb \<Rightarrow> nat" where "AL_Dpb_GetPicCount d = dp_uCountPic d"
definition AL_Dpb_GetHeadPOC :: "AL_TDpb \<Rightarrow> index" where "AL_Dpb_GetHeadPOC d = dp_tHeadPOCNodeID d"
definition AL_Dpb_GetNumRef :: "AL_TDpb \<Rightarrow> nat" where "AL_Dpb_GetNumRef d = dp_uNumRef d"

definition AL_Dpb_SetNumRef :: "AL_TDpb \<Rightarrow> nat \<Rightarrow> AL_TDpb" where
  "AL_Dpb_SetNumRef d uMaxRef = d\<lparr>dp_uNumRef := uMaxRef\<rparr>"

text \<open>The accessors of a node assert the upper bound; a negative identifier is out of bounds too.\<close>

definition AL_Dpb_GetNextPOC :: "AL_TDpb \<Rightarrow> index \<Rightarrow> index option" where
  "AL_Dpb_GetNextPOC d t = next_poc d t"

definition AL_Dpb_GetOutputFlag :: "AL_TDpb \<Rightarrow> index \<Rightarrow> bool option" where
  "AL_Dpb_GetOutputFlag d t = map_option nd_bPicOutputFlag (node d t)"

definition AL_Dpb_GetMarkingFlag :: "AL_TDpb \<Rightarrow> index \<Rightarrow> AL_EMarkingRef option" where
  "AL_Dpb_GetMarkingFlag d t = map_option nd_eMarkingFlag (node d t)"

definition sGetPicLatency_FromNode :: "AL_TDpb \<Rightarrow> index \<Rightarrow> nat option" where
  "sGetPicLatency_FromNode d t = map_option nd_uPicLatency (node d t)"

definition AL_Dpb_GetPicID_FromNode :: "AL_TDpb \<Rightarrow> index \<Rightarrow> index option" where
  "AL_Dpb_GetPicID_FromNode d t =
     (if \<not> AL_IS_VALID_INDEX t then Some AL_BAD_INDEX else map_option nd_tPicID (node d t))"

definition AL_Dpb_GetMvID_FromNode :: "AL_TDpb \<Rightarrow> index \<Rightarrow> index option" where
  "AL_Dpb_GetMvID_FromNode d t =
     (if \<not> AL_IS_VALID_INDEX t then Some AL_BAD_INDEX else map_option nd_tMvID (node d t))"

definition AL_Dpb_GetFrmID_FromNode :: "AL_TDpb \<Rightarrow> index \<Rightarrow> index option" where
  "AL_Dpb_GetFrmID_FromNode d t =
     (if \<not> AL_IS_VALID_INDEX t then Some AL_BAD_INDEX else map_option nd_tFrameID (node d t))"

definition AL_Dpb_GetPicStruct_FromNode :: "AL_TDpb \<Rightarrow> index \<Rightarrow> int option" where
  "AL_Dpb_GetPicStruct_FromNode d t =
     (if \<not> AL_IS_VALID_INDEX t then Some AL_BAD_INDEX else map_option nd_ePicStruct (node d t))"

definition sApiGetLastPicID :: "AL_TDpb \<Rightarrow> index option" where
  "sApiGetLastPicID d = walk AL_REF_MNGR_MAX_BUF_SIZE (\<lambda>_. next_poc d)
     (\<lambda>t tRetID. do { n \<leftarrow> node d t; Some (if AL_IS_VALID_INDEX (nd_tPicID n) then nd_tPicID n else tRetID) })
     (dp_tHeadPOCNodeID d) AL_BAD_INDEX"

definition AL_Dpb_SetMarkingFlag :: "AL_TDpb \<Rightarrow> index \<Rightarrow> AL_EMarkingRef \<Rightarrow> AL_TDpb option" where
  "AL_Dpb_SetMarkingFlag d t eMarkingFlag = do {
     n \<leftarrow> node d t;
     let d = (if nd_eMarkingFlag n \<noteq> UNUSED_FOR_REF \<and> eMarkingFlag = UNUSED_FOR_REF
         then d\<lparr>dp_uCountRef := dec8 (dp_uCountRef d)\<rparr>
       else if nd_eMarkingFlag n = UNUSED_FOR_REF \<and> eMarkingFlag \<noteq> UNUSED_FOR_REF
         then d\<lparr>dp_uCountRef := inc8 (dp_uCountRef d)\<rparr> else d);
     upd_node d t (\<lambda>n. n\<lparr>nd_eMarkingFlag := eMarkingFlag\<rparr>) }"

definition AL_Dpb_IncrementPicLatency :: "AL_TDpb \<Rightarrow> index \<Rightarrow> AL_TDpb option" where
  "AL_Dpb_IncrementPicLatency d t = do {
     n \<leftarrow> node d t;
     if dp_iCurFramePOC d < nd_iFramePOC n
     then upd_node d t (\<lambda>n. n\<lparr>nd_uPicLatency := (nd_uPicLatency n + 1) mod 2 ^ 32\<rparr>) else Some d }"

definition AL_Dpb_sNodeIsReset :: "AL_TDpb \<Rightarrow> index \<Rightarrow> bool option" where
  "AL_Dpb_sNodeIsReset d t = map_option nd_bIsReset (node d t)"

definition AL_Dpb_LastHasMMCO5 :: "AL_TDpb \<Rightarrow> bool" where "AL_Dpb_LastHasMMCO5 d = dp_bLastHasMMCO5 d"

definition AL_Dpb_ResetMMCO5 :: "AL_TDpb \<Rightarrow> AL_TDpb" where
  "AL_Dpb_ResetMMCO5 d = d\<lparr>dp_bLastHasMMCO5 := False\<rparr>"

definition AL_Dpb_ConvertPicIDToNodeID :: "AL_TDpb \<Rightarrow> index \<Rightarrow> index option" where
  "AL_Dpb_ConvertPicIDToNodeID d tPicID = arr_get (dp_PicId2NodeId d) tPicID"

definition AL_Dpb_sGetNextFreeNode :: "AL_TDpb \<Rightarrow> index" where
  "AL_Dpb_sGetNextFreeNode d =
     (case find (\<lambda>i. nd_eMarkingFlag (dp_Nodes d ! i) = UNUSED_FOR_REF \<and> \<not> nd_bPicOutputFlag (dp_Nodes d ! i))
        [0..<AL_REF_MNGR_MAX_BUF_SIZE] of
        None \<Rightarrow> AL_BAD_INDEX | Some i \<Rightarrow> int i)"

definition AL_Dpb_SearchPocLsb :: "AL_TDpb \<Rightarrow> int \<Rightarrow> index option" where
  "AL_Dpb_SearchPocLsb d poc_lsb = find_along AL_REF_MNGR_MAX_BUF_SIZE (next_lsb d)
     (\<lambda>t. do { n \<leftarrow> node d t; Some (nd_slice_pic_order_cnt_lsb n = poc_lsb \<and> nd_eMarkingFlag n \<noteq> UNUSED_FOR_REF) })
     (dp_tHeadPocLsbNodeID d)"

definition AL_Dpb_SearchPOC :: "AL_TDpb \<Rightarrow> int \<Rightarrow> index option" where
  "AL_Dpb_SearchPOC d iPOC = find_along AL_REF_MNGR_MAX_BUF_SIZE (next_poc d)
     (\<lambda>t. do { n \<leftarrow> node d t;
        Some (nd_iFramePOC n = iPOC \<and> nd_eMarkingFlag n \<noteq> UNUSED_FOR_REF \<and> \<not> nd_bNonExisting n) })
     (dp_tHeadPOCNodeID d)"

section \<open>Removal\<close>

definition RemoveFromPocList :: "AL_TDpb \<Rightarrow> index \<Rightarrow> AL_TDpb option" where
  "RemoveFromPocList d tNodeID = do {
     n \<leftarrow> node d tNodeID;
     let tPrev = nd_tPrevPOCNodeID n;
     let tNext = nd_tNextPOCNodeID n;
     let d = (if dp_tHeadPOCNodeID d = tNodeID then d\<lparr>dp_tHeadPOCNodeID := tNext\<rparr> else d);
     d \<leftarrow> upd_valid d tPrev (\<lambda>n. n\<lparr>nd_tNextPOCNodeID := tNext\<rparr>);
     if AL_IS_VALID_INDEX tNext then upd_node d tNext (\<lambda>n. n\<lparr>nd_tPrevPOCNodeID := tPrev\<rparr>)
     else Some (d\<lparr>dp_tLastPOCNodeID := tPrev\<rparr>) }"

definition RemoveFromPocLsbList :: "AL_TDpb \<Rightarrow> index \<Rightarrow> AL_TDpb option" where
  "RemoveFromPocLsbList d tNodeID = do {
     n \<leftarrow> node d tNodeID;
     let tPrev = nd_tPrevPocLsbNodeID n;
     let tNext = nd_tNextPocLsbNodeID n;
     let d = (if dp_tHeadPocLsbNodeID d = tNodeID then d\<lparr>dp_tHeadPocLsbNodeID := tNext\<rparr> else d);
     d \<leftarrow> upd_valid d tPrev (\<lambda>n. n\<lparr>nd_tNextPocLsbNodeID := tNext\<rparr>);
     upd_valid d tNext (\<lambda>n. n\<lparr>nd_tPrevPocLsbNodeID := tPrev\<rparr>) }"

definition RemoveFromDecOrderList :: "AL_TDpb \<Rightarrow> index \<Rightarrow> AL_TDpb option" where
  "RemoveFromDecOrderList d tNodeID = do {
     n \<leftarrow> node d tNodeID;
     let tPrev = nd_tPrevDecOrderNodeID n;
     let tNext = nd_tNextDecOrderNodeID n;
     let d = (if dp_tHeadDecOrderNodeID d = tNodeID then d\<lparr>dp_tHeadDecOrderNodeID := tNext\<rparr> else d);
     d \<leftarrow> upd_valid d tPrev (\<lambda>n. n\<lparr>nd_tNextDecOrderNodeID := tNext\<rparr>);
     upd_valid d tNext (\<lambda>n. n\<lparr>nd_tPrevDecOrderNodeID := tPrev\<rparr>) }"

text \<open>The frame and the motion vectors of a removed picture wait for the end of a decoding.\<close>

definition push_deleted :: "AL_TDpb \<Rightarrow> index \<Rightarrow> index \<Rightarrow> AL_TDpb option" where
  "push_deleted d tFrameID tMvID = do {
     fr \<leftarrow> arr_set (dp_pDeletedFrmIDLst d) (int (dp_iDeletedFrmLstTail d)) tFrameID;
     mv \<leftarrow> arr_set (dp_pDeletedMvIDLst d) (int (dp_iDeletedMvLstTail d)) tMvID;
     Some (d\<lparr>dp_pDeletedFrmIDLst := fr, dp_pDeletedMvIDLst := mv,
       dp_iDeletedFrmLstTail := (dp_iDeletedFrmLstTail d + 1) mod AL_REFMNGR_MAX_POOL_SIZE,
       dp_iDeletedMvLstTail := (dp_iDeletedMvLstTail d + 1) mod AL_REF_MNGR_MAX_BUF_SIZE,
       dp_iNumDeletedPic := dp_iNumDeletedPic d + 1\<rparr>) }"

definition AL_Dpb_Remove :: "AL_TDpb \<Rightarrow> index \<Rightarrow> (index \<times> AL_TDpb) option" where
  "AL_Dpb_Remove d tNodeID =
     (if \<not> AL_IS_VALID_INDEX tNodeID then Some (AL_BAD_INDEX, d)
      else do {
        n \<leftarrow> node d tNodeID;
        d \<leftarrow> RemoveFromPocList d tNodeID;
        d \<leftarrow> RemoveFromPocLsbList d tNodeID;
        d \<leftarrow> RemoveFromDecOrderList d tNodeID;
        d \<leftarrow> AL_Dpb_sReleasePicID d (nd_tPicID n);
        let d = (if nd_eMarkingFlag n \<noteq> UNUSED_FOR_REF then d\<lparr>dp_uCountRef := dec8 (dp_uCountRef d)\<rparr> else d);
        let d = d\<lparr>dp_uCountPic := dec8 (dp_uCountPic d)\<rparr>;
        d \<leftarrow> AL_Dpb_sResetNodeInfo d tNodeID;
        d \<leftarrow> (if dp_bPicWaiting d \<and> 0 < dp_FreePicIdCnt d then AL_Dpb_sFillWaitingPicture d else Some d);
        d \<leftarrow> (if nd_bNonExisting n then Some d else push_deleted d (nd_tFrameID n) (nd_tMvID n));
        Some (nd_tFrameID n, d) })"

definition AL_Dpb_RemoveHead :: "AL_TDpb \<Rightarrow> (index \<times> AL_TDpb) option" where
  "AL_Dpb_RemoveHead d = do {
     b \<leftarrow> AL_Dpb_GetOutputFlag d (dp_tHeadPOCNodeID d);
     d \<leftarrow> (if b then AL_Dpb_Display d (dp_tHeadPOCNodeID d) else Some d);
     AL_Dpb_Remove d (dp_tHeadPOCNodeID d) }"

fun flush_loop :: "nat \<Rightarrow> AL_TDpb \<Rightarrow> AL_TDpb option" where
  "flush_loop f d =
     (if \<not> AL_IS_VALID_INDEX (dp_tHeadPOCNodeID d) then Some d
      else case f of 0 \<Rightarrow> None
      | Suc f \<Rightarrow> do { (_, d) \<leftarrow> AL_Dpb_RemoveHead d; flush_loop f d })"

declare flush_loop.simps [simp del]

definition sApiFlush :: "AL_TDpb \<Rightarrow> AL_TDpb option" where
  "sApiFlush d = do { d \<leftarrow> flush_loop AL_REF_MNGR_MAX_BUF_SIZE d; Some (AL_Dpb_sBeginNewSeq d) }"

definition AL_Dpb_ClearOutput :: "AL_TDpb \<Rightarrow> AL_TDpb option" where
  "AL_Dpb_ClearOutput d = do {
     d \<leftarrow> walk AL_REF_MNGR_MAX_BUF_SIZE next_poc
       (\<lambda>t d. upd_node d t (\<lambda>n. n\<lparr>nd_bPicOutputFlag := False\<rparr>)) (dp_tHeadPOCNodeID d) d;
     Some (d\<lparr>dp_uNumOutputPic := 0\<rparr>) }"

section \<open>Clean-up\<close>

fun hevc_cleanup_loop :: "nat \<Rightarrow> nat \<Rightarrow> nat \<Rightarrow> index \<Rightarrow> AL_TDpb \<Rightarrow> AL_TDpb option" where
  "hevc_cleanup_loop f uMaxLatency MaxNumOutput t d =
     (if \<not> AL_IS_VALID_INDEX t then Some d
      else case f of 0 \<Rightarrow> None
      | Suc f \<Rightarrow> do {
          out \<leftarrow> AL_Dpb_GetOutputFlag d t;
          lat \<leftarrow> sGetPicLatency_FromNode d t;
          d \<leftarrow> (if out \<and> (uMaxLatency \<le> lat \<or> MaxNumOutput < dp_uNumOutputPic d)
               then AL_Dpb_Display d t else Some d);
          n \<leftarrow> node d t;
          if nd_eMarkingFlag n = UNUSED_FOR_REF \<and> \<not> nd_bPicOutputFlag n
          then do {
            (_, d) \<leftarrow> AL_Dpb_Remove d t;
            hevc_cleanup_loop f uMaxLatency MaxNumOutput (nd_tNextPOCNodeID n) d }
          else hevc_cleanup_loop f uMaxLatency MaxNumOutput (nd_tNextPOCNodeID n) d })"

declare hevc_cleanup_loop.simps [simp del]

definition AL_Dpb_HEVC_Cleanup :: "AL_TDpb \<Rightarrow> nat \<Rightarrow> nat \<Rightarrow> AL_TDpb option" where
  "AL_Dpb_HEVC_Cleanup d uMaxLatency MaxNumOutput =
     hevc_cleanup_loop AL_REF_MNGR_MAX_BUF_SIZE uMaxLatency MaxNumOutput (dp_tHeadPOCNodeID d) d"

fun avc_cleanup_unused :: "nat \<Rightarrow> index \<Rightarrow> AL_TDpb \<Rightarrow> AL_TDpb option" where
  "avc_cleanup_unused f t d =
     (if \<not> AL_IS_VALID_INDEX t then Some d
      else case f of 0 \<Rightarrow> None
      | Suc f \<Rightarrow> do {
          n \<leftarrow> node d t;
          d \<leftarrow> (if nd_eMarkingFlag n = UNUSED_FOR_REF \<and> \<not> nd_bPicOutputFlag n
               then map_option snd (AL_Dpb_Remove d t) else Some d);
          avc_cleanup_unused f (nd_tNextPOCNodeID n) d })"

declare avc_cleanup_unused.simps [simp del]

fun avc_cleanup_full :: "nat \<Rightarrow> index \<Rightarrow> AL_TDpb \<Rightarrow> AL_TDpb option" where
  "avc_cleanup_full f t d =
     (if \<not> (AL_IS_VALID_INDEX t \<and> (AL_Dpb_GetNumRef d < AL_Dpb_GetRefCount d \<or> AL_Dpb_GetNumRef d < AL_Dpb_GetPicCount d))
      then Some d
      else case f of 0 \<Rightarrow> None
      | Suc f \<Rightarrow> do {
          n \<leftarrow> node d t;
          d \<leftarrow> (if nd_eMarkingFlag n = UNUSED_FOR_REF
               then do { d \<leftarrow> AL_Dpb_Display d t; map_option snd (AL_Dpb_Remove d t) } else Some d);
          avc_cleanup_full f (nd_tNextPOCNodeID n) d })"

declare avc_cleanup_full.simps [simp del]

definition AL_Dpb_AVC_Cleanup :: "AL_TDpb \<Rightarrow> AL_TDpb option" where
  "AL_Dpb_AVC_Cleanup d = do {
     d \<leftarrow> avc_cleanup_unused AL_REF_MNGR_MAX_BUF_SIZE (dp_tHeadPOCNodeID d) d;
     d \<leftarrow> avc_cleanup_full AL_REF_MNGR_MAX_BUF_SIZE (dp_tHeadPOCNodeID d) d;
     if dp_bPicWaiting d \<and> 0 < dp_FreePicIdCnt d then AL_Dpb_sFillWaitingPicture d else Some d }"

section \<open>Insertion\<close>

text \<open>The place in the list in order of \<open>iFramePOC\<close>: before the first greater one, or at the end.\<close>

fun insert_poc :: "nat \<Rightarrow> index \<Rightarrow> int \<Rightarrow> index \<Rightarrow> AL_TDpb \<Rightarrow> AL_TDpb option" where
  "insert_poc f tNodeID poc cur d = (case f of 0 \<Rightarrow> None
     | Suc f \<Rightarrow> do {
         c \<leftarrow> node d cur;
         if poc < nd_iFramePOC c
         then do {
           let tPrev = nd_tPrevPOCNodeID c;
           d \<leftarrow> upd_node d tNodeID (\<lambda>n. n\<lparr>nd_tPrevPOCNodeID := tPrev, nd_tNextPOCNodeID := cur\<rparr>);
           d \<leftarrow> upd_node d cur (\<lambda>n. n\<lparr>nd_tPrevPOCNodeID := tNodeID\<rparr>);
           d \<leftarrow> upd_valid d tPrev (\<lambda>n. n\<lparr>nd_tNextPOCNodeID := tNodeID\<rparr>);
           Some (if cur = dp_tHeadPOCNodeID d then d\<lparr>dp_tHeadPOCNodeID := tNodeID\<rparr> else d) }
         else if \<not> AL_IS_VALID_INDEX (nd_tNextPOCNodeID c)
         then do {
           d \<leftarrow> upd_node d tNodeID (\<lambda>n. n\<lparr>nd_tNextPOCNodeID := AL_BAD_INDEX, nd_tPrevPOCNodeID := cur\<rparr>);
           d \<leftarrow> upd_node d cur (\<lambda>n. n\<lparr>nd_tNextPOCNodeID := tNodeID\<rparr>);
           Some (d\<lparr>dp_tLastPOCNodeID := tNodeID\<rparr>) }
         else insert_poc f tNodeID poc (nd_tNextPOCNodeID c) d })"

declare insert_poc.simps [simp del]

fun insert_lsb :: "nat \<Rightarrow> index \<Rightarrow> int \<Rightarrow> index \<Rightarrow> AL_TDpb \<Rightarrow> AL_TDpb option" where
  "insert_lsb f tNodeID lsb cur d = (case f of 0 \<Rightarrow> None
     | Suc f \<Rightarrow> do {
         c \<leftarrow> node d cur;
         if lsb < nd_slice_pic_order_cnt_lsb c
         then do {
           let tPrev = nd_tPrevPocLsbNodeID c;
           d \<leftarrow> upd_node d tNodeID (\<lambda>n. n\<lparr>nd_tPrevPocLsbNodeID := tPrev, nd_tNextPocLsbNodeID := cur\<rparr>);
           d \<leftarrow> upd_node d cur (\<lambda>n. n\<lparr>nd_tPrevPocLsbNodeID := tNodeID\<rparr>);
           d \<leftarrow> upd_valid d tPrev (\<lambda>n. n\<lparr>nd_tNextPocLsbNodeID := tNodeID\<rparr>);
           Some (if cur = dp_tHeadPocLsbNodeID d then d\<lparr>dp_tHeadPocLsbNodeID := tNodeID\<rparr> else d) }
         else if \<not> AL_IS_VALID_INDEX (nd_tNextPocLsbNodeID c)
         then do {
           d \<leftarrow> upd_node d tNodeID (\<lambda>n. n\<lparr>nd_tNextPocLsbNodeID := AL_BAD_INDEX, nd_tPrevPocLsbNodeID := cur\<rparr>);
           upd_node d cur (\<lambda>n. n\<lparr>nd_tNextPocLsbNodeID := tNodeID\<rparr>) }
         else insert_lsb f tNodeID lsb (nd_tNextPocLsbNodeID c) d })"

declare insert_lsb.simps [simp del]

text \<open>The end of the list in decoding order.\<close>

fun last_dec :: "nat \<Rightarrow> index \<Rightarrow> AL_TDpb \<Rightarrow> index option" where
  "last_dec f cur d = do {
     nx \<leftarrow> next_dec d cur;
     if AL_IS_VALID_INDEX nx then (case f of 0 \<Rightarrow> None | Suc f \<Rightarrow> last_dec f nx d) else Some cur }"

declare last_dec.simps [simp del]

definition insert_dec :: "index \<Rightarrow> index \<Rightarrow> AL_TDpb \<Rightarrow> AL_TDpb option" where
  "insert_dec tNodeID cur d = do {
     cur \<leftarrow> last_dec AL_REF_MNGR_MAX_BUF_SIZE cur d;
     d \<leftarrow> upd_node d tNodeID (\<lambda>n. n\<lparr>nd_tPrevDecOrderNodeID := cur, nd_tNextDecOrderNodeID := AL_BAD_INDEX\<rparr>);
     upd_node d cur (\<lambda>n. n\<lparr>nd_tNextDecOrderNodeID := tNodeID\<rparr>) }"

definition link_node :: "index \<Rightarrow> AL_TDpbInsertParam \<Rightarrow> AL_TDpb \<Rightarrow> AL_TDpb option" where
  "link_node tNodeID pParam d =
     (if \<not> AL_IS_VALID_INDEX (dp_tHeadPOCNodeID d)
      then do {
        d \<leftarrow> upd_node d tNodeID (\<lambda>n. n\<lparr>nd_tPrevPOCNodeID := AL_BAD_INDEX, nd_tNextPOCNodeID := AL_BAD_INDEX,
          nd_tPrevPocLsbNodeID := AL_BAD_INDEX, nd_tNextPocLsbNodeID := AL_BAD_INDEX,
          nd_tPrevDecOrderNodeID := AL_BAD_INDEX, nd_tNextDecOrderNodeID := AL_BAD_INDEX\<rparr>);
        Some (d\<lparr>dp_tHeadPOCNodeID := tNodeID, dp_tLastPOCNodeID := tNodeID, dp_tHeadPocLsbNodeID := tNodeID,
          dp_tHeadDecOrderNodeID := tNodeID\<rparr>) }
      else do {
        let headLsb = dp_tHeadPocLsbNodeID d;
        let headDec = dp_tHeadDecOrderNodeID d;
        d \<leftarrow> insert_poc AL_REF_MNGR_MAX_BUF_SIZE tNodeID (ip_iFramePOC pParam) (dp_tHeadPOCNodeID d) d;
        d \<leftarrow> insert_lsb AL_REF_MNGR_MAX_BUF_SIZE tNodeID (ip_iPocLsb pParam) headLsb d;
        insert_dec tNodeID headDec d })"

text \<open>A picture without identifier when none is free waits for one.\<close>

definition assign_pic_id :: "AL_TDpb \<Rightarrow> AL_TDpbInsertParam \<Rightarrow> index \<Rightarrow> index \<Rightarrow> index \<Rightarrow> (index \<times> AL_TDpb) option" where
  "assign_pic_id d pParam tNodeID tFrameID tMvID =
     (if ip_bNonExisting pParam then Some (AL_BAD_INDEX, d)
      else if 0 < dp_FreePicIdCnt d
      then do {
        (tPicID, d) \<leftarrow> pop_pic_id d;
        d \<leftarrow> bind_pic_id d tPicID tNodeID tFrameID tMvID;
        Some (tPicID, d) }
      else Some (AL_BAD_INDEX, d\<lparr>dp_bPicWaiting := True, dp_tNodeWaitingID := tNodeID,
        dp_tFrmWaitingID := tFrameID, dp_tMvWaitingID := tMvID\<rparr>))"

definition fill_node :: "AL_TDpbInsertParam \<Rightarrow> index \<Rightarrow> index \<Rightarrow> index \<Rightarrow> index \<Rightarrow> AL_TDpbNode \<Rightarrow> AL_TDpbNode" where
  "fill_node pParam tNodeID tFrameID tMvID tPicID n = n\<lparr>nd_iFramePOC := ip_iFramePOC pParam,
     nd_ePicStruct := ip_ePicStruct pParam, nd_slice_pic_order_cnt_lsb := ip_iPocLsb pParam,
     nd_tFrameID := tFrameID, nd_tMvID := tMvID, nd_tPicID := tPicID,
     nd_eMarkingFlag := ip_eMarkingFlag pParam, nd_tNodeID := tNodeID,
     nd_bPicOutputFlag := ip_bPicOutputFlag pParam, nd_bIsReset := False,
     nd_bNonExisting := ip_bNonExisting pParam, nd_eNUT := ip_eNUT pParam, nd_bSubpicFlag := ip_bSubpicFlag pParam\<rparr>"

definition sApiInsert :: "AL_TDpb \<Rightarrow> index \<Rightarrow> index \<Rightarrow> AL_TDpbInsertParam \<Rightarrow> AL_TDpb option" where
  "sApiInsert d tFrameID tMvID pParam =
     (let tNodeID = AL_Dpb_sGetNextFreeNode d in
      if \<not> AL_IS_VALID_INDEX tNodeID then Some d
      else do {
        r \<leftarrow> AL_Dpb_sNodeIsReset d tNodeID;
        d \<leftarrow> (if \<not> r then map_option snd (AL_Dpb_Remove d tNodeID) else Some d);
        (tPicID, d) \<leftarrow> assign_pic_id d pParam tNodeID tFrameID tMvID;
        d \<leftarrow> upd_node (d\<lparr>dp_tCurRefNodeID := tNodeID\<rparr>) tNodeID (fill_node pParam tNodeID tFrameID tMvID tPicID);
        d \<leftarrow> (if AL_IS_VALID_INDEX tFrameID
             then do {
               f \<leftarrow> DispFifo_SetStatus (dp_DispFifo d) tFrameID
                 (if ip_bPicOutputFlag pParam then AL_NOT_READY_FOR_OUTPUT else AL_NOT_NEEDED_FOR_OUTPUT);
               Some (d\<lparr>dp_DispFifo := f\<rparr>) }
             else Some d);
        d \<leftarrow> link_node tNodeID pParam d;
        let d = (if ip_eMarkingFlag pParam \<noteq> UNUSED_FOR_REF then d\<lparr>dp_uCountRef := inc8 (dp_uCountRef d)\<rparr> else d);
        let d = d\<lparr>dp_uCountPic := inc8 (dp_uCountPic d)\<rparr>;
        let d = (if ip_bPicOutputFlag pParam then d\<lparr>dp_uNumOutputPic := inc8 (dp_uNumOutputPic d)\<rparr> else d);
        let d = (if AL_IS_VALID_INDEX tFrameID then call (IncrementFrmBuf tFrameID) d else d);
        Some (if AL_IS_VALID_INDEX tMvID then call (IncrementAnnexBuf tMvID) d else d) })"

section \<open>Output\<close>

definition sApiGetDisplayBuffer :: "AL_TDpb \<Rightarrow> index option" where
  "sApiGetDisplayBuffer d =
     (if DispFifo_IsEmpty (dp_DispFifo d) then Some AL_BAD_INDEX
      else do {
        tFrameID \<leftarrow> DispFifo_Peek (dp_DispFifo d);
        st \<leftarrow> DispFifo_GetStatus (dp_DispFifo d) tFrameID;
        Some (if st \<noteq> AL_READY_FOR_OUTPUT then AL_BAD_INDEX else tFrameID) })"

definition sApiReleaseDisplayBuffer :: "AL_TDpb \<Rightarrow> (index \<times> AL_TDpb) option" where
  "sApiReleaseDisplayBuffer d = do {
     (tFrameID, f) \<leftarrow> DispFifo_Dequeue (dp_DispFifo d);
     let d = d\<lparr>dp_DispFifo := f\<rparr>;
     Some (tFrameID, if AL_IS_VALID_INDEX tFrameID then call (DecrementFrmBuf tFrameID) d else d) }"

definition AL_Dpb_sIsNoReordering :: "AL_TDpb \<Rightarrow> bool" where
  "AL_Dpb_sIsNoReordering d \<longleftrightarrow> dp_eMode d = AL_DPB_NO_REORDERING"

definition Dpb_GetNodeFromFrmID :: "AL_TDpb \<Rightarrow> index \<Rightarrow> index option" where
  "Dpb_GetNodeFromFrmID d tFrameID = find_along AL_REF_MNGR_MAX_BUF_SIZE (next_dec d)
     (\<lambda>t. do { n \<leftarrow> node d t; Some (nd_tFrameID n = tFrameID) }) (dp_tHeadDecOrderNodeID d)"

definition sApiEndDecoding :: "AL_TDpb \<Rightarrow> index \<Rightarrow> AL_TDpb option" where
  "sApiEndDecoding d tFrameID = do {
     d \<leftarrow> AL_Dpb_sReleaseUnusedBuf d;
     st \<leftarrow> DispFifo_GetStatus (dp_DispFifo d) tFrameID;
     if st = AL_NOT_READY_FOR_OUTPUT
     then do {
       f \<leftarrow> DispFifo_SetStatus (dp_DispFifo d) tFrameID AL_READY_FOR_OUTPUT;
       let d = d\<lparr>dp_DispFifo := f\<rparr>;
       if AL_Dpb_sIsNoReordering d
       then do {
         tNodeID \<leftarrow> Dpb_GetNodeFromFrmID d tFrameID;
         if AL_IS_VALID_INDEX tNodeID
         then do {
           b \<leftarrow> AL_Dpb_GetOutputFlag d tNodeID;
           if b then AL_Dpb_Display d tNodeID else Some d }
         else Some d }
       else Some d }
     else Some d }"

text \<open>The tables given to the hardware: frame and annex of every picture identifier.\<close>

definition reflist_entry :: "AL_TDpb \<Rightarrow> bool \<Rightarrow> index \<Rightarrow> nat \<Rightarrow> (index \<times> index \<times> bool) option" where
  "reflist_entry d bConceal tConcealPicID iPicID = do {
     tNodeID \<leftarrow> AL_Dpb_ConvertPicIDToNodeID d (int iPicID);
     (tNodeID, c) \<leftarrow> (if \<not> AL_IS_VALID_INDEX tNodeID \<and> bConceal \<and> \<not> sIsEmpty d
        then do { t \<leftarrow> AL_Dpb_ConvertPicIDToNodeID d tConcealPicID; Some (t, True) }
        else Some (tNodeID, False));
     if AL_IS_VALID_INDEX tNodeID
     then do {
       tFrameID \<leftarrow> AL_Dpb_GetFrmID_FromNode d tNodeID;
       tMvID \<leftarrow> AL_Dpb_GetMvID_FromNode d tNodeID;
       Some (tFrameID, tMvID, c) }
     else Some (AL_BAD_INDEX, AL_BAD_INDEX, c) }"

definition sApiGetReflistIds :: "AL_TDpb \<Rightarrow> bool \<Rightarrow> index \<Rightarrow> (index \<times> index \<times> bool) list option" where
  "sApiGetReflistIds d bConceal tConcealPicID =
     foldM (\<lambda>i es. do { e \<leftarrow> reflist_entry d bConceal tConcealPicID i; Some (es @ [e]) }) [0..<AL_MAX_REF] []"

definition sApiGetAnnexIdFromReferenceId :: "AL_TDpb \<Rightarrow> index \<Rightarrow> index option" where
  "sApiGetAnnexIdFromReferenceId d tRefId = do {
     tNodeID \<leftarrow> AL_Dpb_ConvertPicIDToNodeID d tRefId;
     AL_Dpb_GetMvID_FromNode d tNodeID }"

text \<open>The arrays read by the hardware: POC, long term, available and sub-picture flags per identifier.\<close>

record TBufferPOC =
  bp_list :: "int list"
  bp_longterm :: "16 word"
  bp_available :: "16 word"
  bp_subpic :: "32 word"

definition AL_Dpb_sFillList :: "AL_TDpb \<Rightarrow> TBufferPOC \<Rightarrow> TBufferPOC option" where
  "AL_Dpb_sFillList d b = walk AL_REF_MNGR_MAX_BUF_SIZE (\<lambda>_. next_poc d)
     (\<lambda>t b. do {
        n \<leftarrow> node d t;
        if AL_IS_VALID_INDEX (nd_tPicID n) \<and> \<not> nd_bNonExisting n \<and> nd_tPicID n < int AL_MAX_REF
        then do {
          l \<leftarrow> arr_set (bp_list b) (nd_tPicID n) (nd_iFramePOC n);
          let bit = push_bit (nat (nd_tPicID n)) 1;
          Some (b\<lparr>bp_list := l,
            bp_longterm := (if nd_eMarkingFlag n = LONG_TERM_REF then bp_longterm b OR bit else bp_longterm b),
            bp_available := bp_available b OR bit,
            bp_subpic := bp_subpic b OR push_bit (nat (nd_tPicID n)) (if nd_bSubpicFlag n then 1 else 0)\<rparr>) }
        else Some b })
     (dp_tHeadPOCNodeID d) b"

text \<open>\<^const>\<open>None\<close> as argument is a buffer that is not mapped.\<close>

definition AL_Dpb_FillPocAndLongtermLists :: "AL_TDpb \<Rightarrow> TBufferPOC option \<Rightarrow> nat \<Rightarrow> TBufferPOC option option" where
  "AL_Dpb_FillPocAndLongtermLists d pPoc uFirstLcuSliceSegment = (case pPoc of None \<Rightarrow> Some None
     | Some b \<Rightarrow> do {
         let b = (if uFirstLcuSliceSegment = 0
           then b\<lparr>bp_list := replicate AL_MAX_REF (-1), bp_longterm := 0, bp_available := 0, bp_subpic := 0\<rparr> else b);
         b \<leftarrow> AL_Dpb_sFillList d b;
         Some (Some b) })"

end
