(* ===== verification/Dpb_Lists.thy ===== *)
theory Dpb_Lists
  imports Dpb_Ops
begin

text \<open>
  The three linked lists of the decoded picture buffer (\<open>DPB.c\<close>): what it means that they are linked,
  and the effect on them of the removals and insertions, which change nothing but the links.
\<close>

section \<open>Nodes\<close>

definition nd :: "AL_TDpb \<Rightarrow> index \<Rightarrow> AL_TDpbNode" where
  "nd d x = dp_Nodes d ! nat x"

definition in_range :: "AL_TDpb \<Rightarrow> index \<Rightarrow> bool" where
  "in_range d x \<longleftrightarrow> 0 \<le> x \<and> nat x < length (dp_Nodes d)"

definition set_nd :: "AL_TDpb \<Rightarrow> index \<Rightarrow> (AL_TDpbNode \<Rightarrow> AL_TDpbNode) \<Rightarrow> AL_TDpb" where
  "set_nd d x g = d\<lparr>dp_Nodes := (dp_Nodes d)[nat x := g (nd d x)]\<rparr>"

lemma node_Some [simp]: "in_range d x \<Longrightarrow> node d x = Some (nd d x)"
  by (simp add: node_def in_range_def nd_def)

lemma upd_node_Some [simp]: "in_range d x \<Longrightarrow> upd_node d x g = Some (set_nd d x g)"
  by (simp add: upd_node_def set_nd_def)

lemma upd_valid_Some:
  "(0 \<le> x \<Longrightarrow> in_range d x) \<Longrightarrow> upd_valid d x g = Some (if 0 \<le> x then set_nd d x g else d)"
  by (simp add: upd_valid_def)

lemma nd_set_nd [simp]:
  "in_range d x \<Longrightarrow> 0 \<le> y \<Longrightarrow> nd (set_nd d x g) y = (if y = x then g (nd d x) else nd d y)"
  by (auto simp: nd_def set_nd_def in_range_def nth_list_update)

lemma length_set_nd [simp]: "length (dp_Nodes (set_nd d x g)) = length (dp_Nodes d)"
  by (simp add: set_nd_def)

lemma in_range_set_nd [simp]: "in_range (set_nd d x g) y = in_range d y"
  by (simp add: in_range_def)

lemma in_range_upd [simp]:
  "in_range (d\<lparr>dp_DispFifo := v0\<rparr>) x = in_range d x"
  "in_range (d\<lparr>dp_PicId2NodeId := v1\<rparr>) x = in_range d x"
  "in_range (d\<lparr>dp_PicId2FrmId := v2\<rparr>) x = in_range d x"
  "in_range (d\<lparr>dp_PicId2MvId := v3\<rparr>) x = in_range d x"
  "in_range (d\<lparr>dp_FreePicIDs := v4\<rparr>) x = in_range d x"
  "in_range (d\<lparr>dp_FreePicIdCnt := v5\<rparr>) x = in_range d x"
  "in_range (d\<lparr>dp_bPicWaiting := v6\<rparr>) x = in_range d x"
  "in_range (d\<lparr>dp_tNodeWaitingID := v7\<rparr>) x = in_range d x"
  "in_range (d\<lparr>dp_tFrmWaitingID := v8\<rparr>) x = in_range d x"
  "in_range (d\<lparr>dp_tMvWaitingID := v9\<rparr>) x = in_range d x"
  "in_range (d\<lparr>dp_pDeletedFrmIDLst := v10\<rparr>) x = in_range d x"
  "in_range (d\<lparr>dp_pDeletedMvIDLst := v11\<rparr>) x = in_range d x"
  "in_range (d\<lparr>dp_iDeletedFrmLstHead := v12\<rparr>) x = in_range d x"
  "in_range (d\<lparr>dp_iDeletedFrmLstTail := v13\<rparr>) x = in_range d x"
  "in_range (d\<lparr>dp_iDeletedMvLstHead := v14\<rparr>) x = in_range d x"
  "in_range (d\<lparr>dp_iDeletedMvLstTail := v15\<rparr>) x = in_range d x"
  "in_range (d\<lparr>dp_iNumDeletedPic := v16\<rparr>) x = in_range d x"
  "in_range (d\<lparr>dp_iLastDisplayedPOC := v17\<rparr>) x = in_range d x"
  "in_range (d\<lparr>dp_uNumOutputPic := v18\<rparr>) x = in_range d x"
  "in_range (d\<lparr>dp_uNumRef := v19\<rparr>) x = in_range d x"
  "in_range (d\<lparr>dp_tHeadPOCNodeID := v20\<rparr>) x = in_range d x"
  "in_range (d\<lparr>dp_tHeadPocLsbNodeID := v21\<rparr>) x = in_range d x"
  "in_range (d\<lparr>dp_tLastPOCNodeID := v22\<rparr>) x = in_range d x"
  "in_range (d\<lparr>dp_tHeadDecOrderNodeID := v23\<rparr>) x = in_range d x"
  "in_range (d\<lparr>dp_tCurRefNodeID := v24\<rparr>) x = in_range d x"
  "in_range (d\<lparr>dp_uCountRef := v25\<rparr>) x = in_range d x"
  "in_range (d\<lparr>dp_uCountPic := v26\<rparr>) x = in_range d x"
  "in_range (d\<lparr>dp_iMaxLongTermFrameIdx := v27\<rparr>) x = in_range d x"
  "in_range (d\<lparr>dp_bLastHasMMCO5 := v28\<rparr>) x = in_range d x"
  "in_range (d\<lparr>dp_iCurFramePOC := v29\<rparr>) x = in_range d x"
  "in_range (d\<lparr>dp_log := v30\<rparr>) x = in_range d x"
  by (simp_all add: in_range_def)

lemma nd_upd [simp]:
  "nd (d\<lparr>dp_DispFifo := v0\<rparr>) x = nd d x" "nd (d\<lparr>dp_PicId2NodeId := v1\<rparr>) x = nd d x"
  "nd (d\<lparr>dp_PicId2FrmId := v2\<rparr>) x = nd d x" "nd (d\<lparr>dp_PicId2MvId := v3\<rparr>) x = nd d x"
  "nd (d\<lparr>dp_FreePicIDs := v4\<rparr>) x = nd d x" "nd (d\<lparr>dp_FreePicIdCnt := v5\<rparr>) x = nd d x"
  "nd (d\<lparr>dp_bPicWaiting := v6\<rparr>) x = nd d x" "nd (d\<lparr>dp_tNodeWaitingID := v7\<rparr>) x = nd d x"
  "nd (d\<lparr>dp_tFrmWaitingID := v8\<rparr>) x = nd d x" "nd (d\<lparr>dp_tMvWaitingID := v9\<rparr>) x = nd d x"
  "nd (d\<lparr>dp_pDeletedFrmIDLst := v10\<rparr>) x = nd d x"
  "nd (d\<lparr>dp_pDeletedMvIDLst := v11\<rparr>) x = nd d x"
  "nd (d\<lparr>dp_iDeletedFrmLstHead := v12\<rparr>) x = nd d x"
  "nd (d\<lparr>dp_iDeletedFrmLstTail := v13\<rparr>) x = nd d x"
  "nd (d\<lparr>dp_iDeletedMvLstHead := v14\<rparr>) x = nd d x"
  "nd (d\<lparr>dp_iDeletedMvLstTail := v15\<rparr>) x = nd d x"
  "nd (d\<lparr>dp_iNumDeletedPic := v16\<rparr>) x = nd d x"
  "nd (d\<lparr>dp_iLastDisplayedPOC := v17\<rparr>) x = nd d x"
  "nd (d\<lparr>dp_uNumOutputPic := v18\<rparr>) x = nd d x" "nd (d\<lparr>dp_uNumRef := v19\<rparr>) x = nd d x"
  "nd (d\<lparr>dp_tHeadPOCNodeID := v20\<rparr>) x = nd d x"
  "nd (d\<lparr>dp_tHeadPocLsbNodeID := v21\<rparr>) x = nd d x"
  "nd (d\<lparr>dp_tLastPOCNodeID := v22\<rparr>) x = nd d x"
  "nd (d\<lparr>dp_tHeadDecOrderNodeID := v23\<rparr>) x = nd d x"
  "nd (d\<lparr>dp_tCurRefNodeID := v24\<rparr>) x = nd d x" "nd (d\<lparr>dp_uCountRef := v25\<rparr>) x = nd d x"
  "nd (d\<lparr>dp_uCountPic := v26\<rparr>) x = nd d x"
  "nd (d\<lparr>dp_iMaxLongTermFrameIdx := v27\<rparr>) x = nd d x"
  "nd (d\<lparr>dp_bLastHasMMCO5 := v28\<rparr>) x = nd d x"
  "nd (d\<lparr>dp_iCurFramePOC := v29\<rparr>) x = nd d x" "nd (d\<lparr>dp_log := v30\<rparr>) x = nd d x"
  by (simp_all add: nd_def)

lemma set_nd_fields [simp]:
  "dp_DispFifo (set_nd d x g) = dp_DispFifo d" "dp_PicId2NodeId (set_nd d x g) = dp_PicId2NodeId d"
  "dp_PicId2FrmId (set_nd d x g) = dp_PicId2FrmId d" "dp_PicId2MvId (set_nd d x g) = dp_PicId2MvId d"
  "dp_FreePicIDs (set_nd d x g) = dp_FreePicIDs d" "dp_FreePicIdCnt (set_nd d x g) = dp_FreePicIdCnt d"
  "dp_bPicWaiting (set_nd d x g) = dp_bPicWaiting d" "dp_tNodeWaitingID (set_nd d x g) = dp_tNodeWaitingID d"
  "dp_tFrmWaitingID (set_nd d x g) = dp_tFrmWaitingID d" "dp_tMvWaitingID (set_nd d x g) = dp_tMvWaitingID d"
  "dp_pDeletedFrmIDLst (set_nd d x g) = dp_pDeletedFrmIDLst d"
  "dp_pDeletedMvIDLst (set_nd d x g) = dp_pDeletedMvIDLst d"
  "dp_iDeletedFrmLstHead (set_nd d x g) = dp_iDeletedFrmLstHead d"
  "dp_iDeletedFrmLstTail (set_nd d x g) = dp_iDeletedFrmLstTail d"
  "dp_iDeletedMvLstHead (set_nd d x g) = dp_iDeletedMvLstHead d"
  "dp_iDeletedMvLstTail (set_nd d x g) = dp_iDeletedMvLstTail d"
  "dp_iNumDeletedPic (set_nd d x g) = dp_iNumDeletedPic d"
  "dp_iLastDisplayedPOC (set_nd d x g) = dp_iLastDisplayedPOC d"
  "dp_uNumOutputPic (set_nd d x g) = dp_uNumOutputPic d" "dp_uNumRef (set_nd d x g) = dp_uNumRef d"
  "dp_tHeadPOCNodeID (set_nd d x g) = dp_tHeadPOCNodeID d"
  "dp_tHeadPocLsbNodeID (set_nd d x g) = dp_tHeadPocLsbNodeID d"
  "dp_tLastPOCNodeID (set_nd d x g) = dp_tLastPOCNodeID d"
  "dp_tHeadDecOrderNodeID (set_nd d x g) = dp_tHeadDecOrderNodeID d"
  "dp_tCurRefNodeID (set_nd d x g) = dp_tCurRefNodeID d" "dp_uCountRef (set_nd d x g) = dp_uCountRef d"
  "dp_uCountPic (set_nd d x g) = dp_uCountPic d" "dp_iMaxLongTermFrameIdx (set_nd d x g) = dp_iMaxLongTermFrameIdx d"
  "dp_bLastHasMMCO5 (set_nd d x g) = dp_bLastHasMMCO5 d" "dp_iCurFramePOC (set_nd d x g) = dp_iCurFramePOC d"
  "dp_log (set_nd d x g) = dp_log d" "dp_eMode (set_nd d x g) = dp_eMode d"
  by (simp_all add: set_nd_def)

lemma fld_set_nd: "in_range d x \<Longrightarrow> fld F (dp_Nodes (set_nd d x g)) = (fld F (dp_Nodes d))(x := F (g (nd d x)))"
  by (auto simp: in_range_def set_nd_def fld_upd)

lemma fld_set_nd_same:
  "(\<And>n. F (g n) = F n) \<Longrightarrow> fld F (dp_Nodes (set_nd d x g)) = fld F (dp_Nodes d)"
  by (simp add: set_nd_def fld_upd_same nd_def)

lemma fld_nd: "in_range d x \<Longrightarrow> fld F (dp_Nodes d) x = F (nd d x)"
  by (simp add: fld_def in_range_def nd_def)

section \<open>The same data behind other links\<close>

definition nolink :: "AL_TDpbNode \<Rightarrow> AL_TDpbNode" where
  "nolink n = n\<lparr>nd_tPrevPOCNodeID := 0, nd_tNextPOCNodeID := 0, nd_tPrevPocLsbNodeID := 0,
     nd_tNextPocLsbNodeID := 0, nd_tPrevDecOrderNodeID := 0, nd_tNextDecOrderNodeID := 0\<rparr>"

definition nohead :: "AL_TDpb \<Rightarrow> AL_TDpb" where
  "nohead d = d\<lparr>dp_Nodes := [], dp_tHeadPOCNodeID := 0, dp_tHeadPocLsbNodeID := 0, dp_tLastPOCNodeID := 0,
     dp_tHeadDecOrderNodeID := 0\<rparr>"

definition same_data :: "AL_TDpb \<Rightarrow> AL_TDpb \<Rightarrow> bool" where
  "same_data d d' \<longleftrightarrow> nohead d' = nohead d \<and> map nolink (dp_Nodes d') = map nolink (dp_Nodes d)"

lemma same_data_refl [simp]: "same_data d d"
  by (simp add: same_data_def)

lemma same_data_trans [trans]: "same_data a b \<Longrightarrow> same_data b c \<Longrightarrow> same_data a c"
  by (simp add: same_data_def)

lemma same_data_set_nd: "(\<And>n. nolink (g n) = nolink n) \<Longrightarrow> same_data d (set_nd d x g)"
proof -
  assume g: "\<And>n. nolink (g n) = nolink n"
  have "map nolink ((dp_Nodes d)[nat x := g (nd d x)]) = map nolink (dp_Nodes d)"
  proof (rule nth_equalityI)
    fix i assume i: "i < length (map nolink ((dp_Nodes d)[nat x := g (nd d x)]))"
    then show "map nolink ((dp_Nodes d)[nat x := g (nd d x)]) ! i = map nolink (dp_Nodes d) ! i"
      by (cases "i = nat x") (simp_all add: g nd_def)
  qed simp
  then show ?thesis by (simp add: same_data_def set_nd_def nohead_def)
qed

lemma same_data_head:
  "nohead d' = nohead d \<Longrightarrow> dp_Nodes d' = dp_Nodes d \<Longrightarrow> same_data d d'"
  by (simp add: same_data_def)

lemma same_data_length: "same_data d d' \<Longrightarrow> length (dp_Nodes d') = length (dp_Nodes d)"
  unfolding same_data_def by (metis length_map)

lemma same_data_range: "same_data d d' \<Longrightarrow> in_range d' x = in_range d x"
  by (simp add: in_range_def same_data_length)

lemma same_data_node:
  assumes "same_data d d'" "in_range d x"
  shows "nolink (nd d' x) = nolink (nd d x)"
proof -
  have "map nolink (dp_Nodes d') ! nat x = map nolink (dp_Nodes d) ! nat x"
    using assms(1) by (simp add: same_data_def)
  then show ?thesis using assms same_data_length [OF assms(1)] by (simp add: in_range_def nd_def)
qed

lemma nolink_fields:
  assumes "nolink a = nolink b"
  shows "nd_tNodeID a = nd_tNodeID b" "nd_tFrameID a = nd_tFrameID b" "nd_tMvID a = nd_tMvID b"
    "nd_tPicID a = nd_tPicID b" "nd_iFramePOC a = nd_iFramePOC b"
    "nd_slice_pic_order_cnt_lsb a = nd_slice_pic_order_cnt_lsb b" "nd_eMarkingFlag a = nd_eMarkingFlag b"
    "nd_bPicOutputFlag a = nd_bPicOutputFlag b" "nd_bIsReset a = nd_bIsReset b"
    "nd_bNonExisting a = nd_bNonExisting b" "nd_uPicLatency a = nd_uPicLatency b"
  using assms by (auto simp: nolink_def dest: arg_cong [where f = nd_tNodeID] arg_cong [where f = nd_tFrameID]
      arg_cong [where f = nd_tMvID] arg_cong [where f = nd_tPicID] arg_cong [where f = nd_iFramePOC]
      arg_cong [where f = nd_slice_pic_order_cnt_lsb] arg_cong [where f = nd_eMarkingFlag]
      arg_cong [where f = nd_bPicOutputFlag] arg_cong [where f = nd_bIsReset]
      arg_cong [where f = nd_bNonExisting] arg_cong [where f = nd_uPicLatency])

section \<open>The lists\<close>

definition poc_list :: "AL_TDpb \<Rightarrow> index list \<Rightarrow> bool" where
  "poc_list d P \<longleftrightarrow> dll (fld nd_tNextPOCNodeID (dp_Nodes d)) (fld nd_tPrevPOCNodeID (dp_Nodes d)) (dp_tHeadPOCNodeID d) P
     \<and> dp_tLastPOCNodeID d = last_or P AL_BAD_INDEX \<and> (\<forall>x \<in> set P. in_range d x)"

definition lsb_list :: "AL_TDpb \<Rightarrow> index list \<Rightarrow> bool" where
  "lsb_list d L \<longleftrightarrow> dll (fld nd_tNextPocLsbNodeID (dp_Nodes d)) (fld nd_tPrevPocLsbNodeID (dp_Nodes d))
       (dp_tHeadPocLsbNodeID d) L
     \<and> (\<forall>x \<in> set L. in_range d x)"

definition dec_list :: "AL_TDpb \<Rightarrow> index list \<Rightarrow> bool" where
  "dec_list d D \<longleftrightarrow> dll (fld nd_tNextDecOrderNodeID (dp_Nodes d)) (fld nd_tPrevDecOrderNodeID (dp_Nodes d))
       (dp_tHeadDecOrderNodeID d) D
     \<and> (\<forall>x \<in> set D. in_range d x)"

definition lists_ok :: "AL_TDpb \<Rightarrow> index list \<Rightarrow> index list \<Rightarrow> index list \<Rightarrow> bool" where
  "lists_ok d P L D \<longleftrightarrow> poc_list d P \<and> lsb_list d L \<and> dec_list d D \<and> set L = set P \<and> set D = set P"

text \<open>An update that keeps the links of a list keeps the list.\<close>

definition same_poc :: "AL_TDpb \<Rightarrow> AL_TDpb \<Rightarrow> bool" where
  "same_poc d d' \<longleftrightarrow> fld nd_tNextPOCNodeID (dp_Nodes d') = fld nd_tNextPOCNodeID (dp_Nodes d)
     \<and> fld nd_tPrevPOCNodeID (dp_Nodes d') = fld nd_tPrevPOCNodeID (dp_Nodes d)
     \<and> dp_tHeadPOCNodeID d' = dp_tHeadPOCNodeID d \<and> dp_tLastPOCNodeID d' = dp_tLastPOCNodeID d
     \<and> length (dp_Nodes d') = length (dp_Nodes d)"

definition same_lsb :: "AL_TDpb \<Rightarrow> AL_TDpb \<Rightarrow> bool" where
  "same_lsb d d' \<longleftrightarrow> fld nd_tNextPocLsbNodeID (dp_Nodes d') = fld nd_tNextPocLsbNodeID (dp_Nodes d)
     \<and> fld nd_tPrevPocLsbNodeID (dp_Nodes d') = fld nd_tPrevPocLsbNodeID (dp_Nodes d)
     \<and> dp_tHeadPocLsbNodeID d' = dp_tHeadPocLsbNodeID d \<and> length (dp_Nodes d') = length (dp_Nodes d)"

definition same_dec :: "AL_TDpb \<Rightarrow> AL_TDpb \<Rightarrow> bool" where
  "same_dec d d' \<longleftrightarrow> fld nd_tNextDecOrderNodeID (dp_Nodes d') = fld nd_tNextDecOrderNodeID (dp_Nodes d)
     \<and> fld nd_tPrevDecOrderNodeID (dp_Nodes d') = fld nd_tPrevDecOrderNodeID (dp_Nodes d)
     \<and> dp_tHeadDecOrderNodeID d' = dp_tHeadDecOrderNodeID d \<and> length (dp_Nodes d') = length (dp_Nodes d)"

lemma same_poc_list: "same_poc d d' \<Longrightarrow> poc_list d' P = poc_list d P"
  by (simp add: same_poc_def poc_list_def in_range_def)

lemma same_lsb_list: "same_lsb d d' \<Longrightarrow> lsb_list d' L = lsb_list d L"
  by (simp add: same_lsb_def lsb_list_def in_range_def)

lemma same_dec_list: "same_dec d d' \<Longrightarrow> dec_list d' D = dec_list d D"
  by (simp add: same_dec_def dec_list_def in_range_def)

lemma same_trans [trans]:
  "same_poc a b \<Longrightarrow> same_poc b c \<Longrightarrow> same_poc a c" "same_lsb a b \<Longrightarrow> same_lsb b c \<Longrightarrow> same_lsb a c"
  "same_dec a b \<Longrightarrow> same_dec b c \<Longrightarrow> same_dec a c"
  by (simp_all add: same_poc_def same_lsb_def same_dec_def)

lemma same_refl [simp]: "same_poc d d" "same_lsb d d" "same_dec d d"
  by (simp_all add: same_poc_def same_lsb_def same_dec_def)

lemma same_set_nd:
  "(\<And>n. nd_tNextPOCNodeID (g n) = nd_tNextPOCNodeID n) \<Longrightarrow> (\<And>n. nd_tPrevPOCNodeID (g n) = nd_tPrevPOCNodeID n) \<Longrightarrow>
     same_poc d (set_nd d x g)"
  "(\<And>n. nd_tNextPocLsbNodeID (g n) = nd_tNextPocLsbNodeID n) \<Longrightarrow> (\<And>n. nd_tPrevPocLsbNodeID (g n) = nd_tPrevPocLsbNodeID n) \<Longrightarrow>
     same_lsb d (set_nd d x g)"
  "(\<And>n. nd_tNextDecOrderNodeID (g n) = nd_tNextDecOrderNodeID n) \<Longrightarrow> (\<And>n. nd_tPrevDecOrderNodeID (g n) = nd_tPrevDecOrderNodeID n) \<Longrightarrow>
     same_dec d (set_nd d x g)"
  unfolding same_poc_def same_lsb_def same_dec_def
  by (simp_all add: fld_set_nd_same)

lemma lists_lengths:
  assumes "lists_ok d P L D"
  shows "length L = length P" "length D = length P" "distinct P" "distinct L" "distinct D"
    "length P \<le> length (dp_Nodes d)"
proof -
  show di: "distinct P" "distinct L" "distinct D"
    using assms by (auto simp: lists_ok_def poc_list_def lsb_list_def dec_list_def dll_distinct)
  show "length L = length P" "length D = length P"
    using assms di distinct_card by (metis lists_ok_def)+
  have rng: "0 \<le> x \<and> nat x < length (dp_Nodes d)" if "x \<in> set P" for x
    using assms that by (auto simp: lists_ok_def poc_list_def in_range_def)
  then have "inj_on nat (set P)" "nat ` set P \<subseteq> {..<length (dp_Nodes d)}"
    by (auto simp: inj_on_def eq_nat_nat_iff)
  then have "card (set P) \<le> card {..<length (dp_Nodes d)}"
    using card_image card_mono by (metis finite_lessThan)
  then show "length P \<le> length (dp_Nodes d)" using di(1) by (simp add: distinct_card)
qed

section \<open>Unlinking\<close>

lemma valid_neighbours:
  assumes "dll nx pv h (xs @ x # ys)" "\<forall>y \<in> set (xs @ x # ys). in_range d y"
  shows "0 \<le> nx x \<Longrightarrow> in_range d (nx x)" "0 \<le> pv x \<Longrightarrow> in_range d (pv x)"
proof -
  note at = dll_at(1,2) [OF assms(1)]
  show "in_range d (nx x)" if "0 \<le> nx x" using at(1) assms(2) that by (cases ys) auto
  show "in_range d (pv x)" if "0 \<le> pv x" using at(2) assms(2) that by (cases xs rule: rev_cases) auto
qed

lemma RemoveFromPocList_ok:
  assumes "poc_list d (xs @ x # ys)"
  shows "\<exists>d'. RemoveFromPocList d x = Some d' \<and> poc_list d' (xs @ ys) \<and> same_data d d' \<and> same_lsb d d' \<and> same_dec d d'"
proof -
  let ?nx = "fld nd_tNextPOCNodeID (dp_Nodes d)" and ?pv = "fld nd_tPrevPOCNodeID (dp_Nodes d)"
  have dl: "dll ?nx ?pv (dp_tHeadPOCNodeID d) (xs @ x # ys)" and rng: "\<forall>y \<in> set (xs @ x # ys). in_range d y"
    using assms by (auto simp: poc_list_def)
  have x: "in_range d x" using rng by simp
  note at = dll_at [OF dl]
  note vn = valid_neighbours [OF dl rng]
  have f: "nd_tNextPOCNodeID (nd d x) = ?nx x" "nd_tPrevPOCNodeID (nd d x) = ?pv x" using x by (simp_all add: fld_nd)
  let ?d1 = "if dp_tHeadPOCNodeID d = x then d\<lparr>dp_tHeadPOCNodeID := ?nx x\<rparr> else d"
  let ?d2 = "if 0 \<le> ?pv x then set_nd ?d1 (?pv x) (\<lambda>n. n\<lparr>nd_tNextPOCNodeID := ?nx x\<rparr>) else ?d1"
  let ?d3 = "if 0 \<le> ?nx x then set_nd ?d2 (?nx x) (\<lambda>n. n\<lparr>nd_tPrevPOCNodeID := ?pv x\<rparr>)
    else ?d2\<lparr>dp_tLastPOCNodeID := ?pv x\<rparr>"
  have r1: "in_range ?d1 y = in_range d y" "in_range ?d2 y = in_range d y" for y by (simp_all add: in_range_def)
  have run: "RemoveFromPocList d x = Some ?d3"
    using x vn r1 by (simp add: RemoveFromPocList_def f Let_def upd_valid_Some)
  have nx: "fld nd_tNextPOCNodeID (dp_Nodes ?d3) = (if 0 \<le> ?pv x then ?nx(?pv x := ?nx x) else ?nx)"
    using vn by (simp add: fld_set_nd_same) (simp add: fld_set_nd_same fld_set_nd)
  have pv: "fld nd_tPrevPOCNodeID (dp_Nodes ?d3) = (if 0 \<le> ?nx x then ?pv(?nx x := ?pv x) else ?pv)"
    using vn by (simp add: fld_set_nd_same) (simp add: fld_set_nd_same fld_set_nd)
  have hd: "dp_tHeadPOCNodeID ?d3 = (if dp_tHeadPOCNodeID d = x then ?nx x else dp_tHeadPOCNodeID d)"
    by (simp add: set_nd_def)
  have la: "dp_tLastPOCNodeID ?d3 = last_or (xs @ ys) AL_BAD_INDEX"
    using at(1,2) assms rng by (cases ys) (auto simp: set_nd_def poc_list_def last_or_append in_range_def)
  have r3: "in_range ?d3 y = in_range d y" for y by (simp add: in_range_def)
  have lst: "poc_list ?d3 (xs @ ys)"
    unfolding poc_list_def nx pv hd la r3 using dll_unlink [OF dl] rng by simp
  have "same_data d ?d3"
  proof -
    have "same_data d ?d1" by (rule same_data_head) (simp_all add: nohead_def)
    also have "same_data ?d1 ?d2" by (simp add: same_data_set_nd nolink_def)
    also have "same_data ?d2 ?d3"
      by (cases "0 \<le> ?nx x") (simp_all add: same_data_set_nd nolink_def, simp add: same_data_def nohead_def)
    finally show ?thesis .
  qed
  moreover have "same_lsb d ?d3" "same_dec d ?d3"
    unfolding same_lsb_def same_dec_def by (simp_all add: fld_set_nd_same)
  ultimately show ?thesis
    using run lst by blast
qed

lemma RemoveFromPocLsbList_ok:
  assumes "lsb_list d (xs @ x # ys)"
  shows "\<exists>d'. RemoveFromPocLsbList d x = Some d' \<and> lsb_list d' (xs @ ys) \<and> same_data d d' \<and> same_poc d d' \<and> same_dec d d'"
proof -
  let ?nx = "fld nd_tNextPocLsbNodeID (dp_Nodes d)" and ?pv = "fld nd_tPrevPocLsbNodeID (dp_Nodes d)"
  have dl: "dll ?nx ?pv (dp_tHeadPocLsbNodeID d) (xs @ x # ys)" and rng: "\<forall>y \<in> set (xs @ x # ys). in_range d y"
    using assms by (auto simp: lsb_list_def)
  have x: "in_range d x" using rng by simp
  note vn = valid_neighbours [OF dl rng]
  have f: "nd_tNextPocLsbNodeID (nd d x) = ?nx x" "nd_tPrevPocLsbNodeID (nd d x) = ?pv x" using x by (simp_all add: fld_nd)
  let ?d1 = "if dp_tHeadPocLsbNodeID d = x then d\<lparr>dp_tHeadPocLsbNodeID := ?nx x\<rparr> else d"
  let ?d2 = "if 0 \<le> ?pv x then set_nd ?d1 (?pv x) (\<lambda>n. n\<lparr>nd_tNextPocLsbNodeID := ?nx x\<rparr>) else ?d1"
  let ?d3 = "if 0 \<le> ?nx x then set_nd ?d2 (?nx x) (\<lambda>n. n\<lparr>nd_tPrevPocLsbNodeID := ?pv x\<rparr>) else ?d2"
  have r1: "in_range ?d1 y = in_range d y" "in_range ?d2 y = in_range d y" for y by (simp_all add: in_range_def)
  have run: "RemoveFromPocLsbList d x = Some ?d3"
    using x vn r1 by (simp add: RemoveFromPocLsbList_def f Let_def upd_valid_Some)
  have nx: "fld nd_tNextPocLsbNodeID (dp_Nodes ?d3) = (if 0 \<le> ?pv x then ?nx(?pv x := ?nx x) else ?nx)"
    using vn by (simp add: fld_set_nd_same) (simp add: fld_set_nd_same fld_set_nd)
  have pv: "fld nd_tPrevPocLsbNodeID (dp_Nodes ?d3) = (if 0 \<le> ?nx x then ?pv(?nx x := ?pv x) else ?pv)"
    using vn by (simp add: fld_set_nd_same) (simp add: fld_set_nd_same fld_set_nd)
  have hd: "dp_tHeadPocLsbNodeID ?d3 = (if dp_tHeadPocLsbNodeID d = x then ?nx x else dp_tHeadPocLsbNodeID d)"
    by (simp add: set_nd_def)
  have r3: "in_range ?d3 y = in_range d y" for y by (simp add: in_range_def)
  have lst: "lsb_list ?d3 (xs @ ys)"
    unfolding lsb_list_def nx pv hd r3 using dll_unlink [OF dl] rng by simp
  have "same_data d ?d3"
  proof -
    have "same_data d ?d1" by (rule same_data_head) (simp_all add: nohead_def)
    also have "same_data ?d1 ?d2" by (simp add: same_data_set_nd nolink_def)
    also have "same_data ?d2 ?d3" by (simp add: same_data_set_nd nolink_def)
    finally show ?thesis .
  qed
  moreover have "same_poc d ?d3" "same_dec d ?d3"
    unfolding same_poc_def same_dec_def by (simp_all add: fld_set_nd_same)
  ultimately show ?thesis
    using run lst by blast
qed

lemma RemoveFromDecOrderList_ok:
  assumes "dec_list d (xs @ x # ys)"
  shows "\<exists>d'. RemoveFromDecOrderList d x = Some d' \<and> dec_list d' (xs @ ys) \<and> same_data d d' \<and> same_poc d d' \<and> same_lsb d d'"
proof -
  let ?nx = "fld nd_tNextDecOrderNodeID (dp_Nodes d)" and ?pv = "fld nd_tPrevDecOrderNodeID (dp_Nodes d)"
  have dl: "dll ?nx ?pv (dp_tHeadDecOrderNodeID d) (xs @ x # ys)" and rng: "\<forall>y \<in> set (xs @ x # ys). in_range d y"
    using assms by (auto simp: dec_list_def)
  have x: "in_range d x" using rng by simp
  note vn = valid_neighbours [OF dl rng]
  have f: "nd_tNextDecOrderNodeID (nd d x) = ?nx x" "nd_tPrevDecOrderNodeID (nd d x) = ?pv x" using x by (simp_all add: fld_nd)
  let ?d1 = "if dp_tHeadDecOrderNodeID d = x then d\<lparr>dp_tHeadDecOrderNodeID := ?nx x\<rparr> else d"
  let ?d2 = "if 0 \<le> ?pv x then set_nd ?d1 (?pv x) (\<lambda>n. n\<lparr>nd_tNextDecOrderNodeID := ?nx x\<rparr>) else ?d1"
  let ?d3 = "if 0 \<le> ?nx x then set_nd ?d2 (?nx x) (\<lambda>n. n\<lparr>nd_tPrevDecOrderNodeID := ?pv x\<rparr>) else ?d2"
  have r1: "in_range ?d1 y = in_range d y" "in_range ?d2 y = in_range d y" for y by (simp_all add: in_range_def)
  have run: "RemoveFromDecOrderList d x = Some ?d3"
    using x vn r1 by (simp add: RemoveFromDecOrderList_def f Let_def upd_valid_Some)
  have nx: "fld nd_tNextDecOrderNodeID (dp_Nodes ?d3) = (if 0 \<le> ?pv x then ?nx(?pv x := ?nx x) else ?nx)"
    using vn by (simp add: fld_set_nd_same) (simp add: fld_set_nd_same fld_set_nd)
  have pv: "fld nd_tPrevDecOrderNodeID (dp_Nodes ?d3) = (if 0 \<le> ?nx x then ?pv(?nx x := ?pv x) else ?pv)"
    using vn by (simp add: fld_set_nd_same) (simp add: fld_set_nd_same fld_set_nd)
  have hd: "dp_tHeadDecOrderNodeID ?d3 = (if dp_tHeadDecOrderNodeID d = x then ?nx x else dp_tHeadDecOrderNodeID d)"
    by (simp add: set_nd_def)
  have r3: "in_range ?d3 y = in_range d y" for y by (simp add: in_range_def)
  have lst: "dec_list ?d3 (xs @ ys)"
    unfolding dec_list_def nx pv hd r3 using dll_unlink [OF dl] rng by simp
  have "same_data d ?d3"
  proof -
    have "same_data d ?d1" by (rule same_data_head) (simp_all add: nohead_def)
    also have "same_data ?d1 ?d2" by (simp add: same_data_set_nd nolink_def)
    also have "same_data ?d2 ?d3" by (simp add: same_data_set_nd nolink_def)
    finally show ?thesis .
  qed
  moreover have "same_poc d ?d3" "same_lsb d ?d3"
    unfolding same_poc_def same_lsb_def by (simp_all add: fld_set_nd_same)
  ultimately show ?thesis
    using run lst by blast
qed

section \<open>Linking\<close>

text \<open>A new node goes before the first one with a greater key.\<close>

lemma insert_poc_ok:
  assumes "poc_list d (as @ xs)" "xs \<noteq> []" "length xs \<le> f" "in_range d y" "y \<notin> set (as @ xs)"
  shows "\<exists>d'. insert_poc f y v (hd xs) d = Some d'
    \<and> poc_list d' (as @ takeWhile (\<lambda>x. nd_iFramePOC (nd d x) \<le> v) xs @ y # dropWhile (\<lambda>x. nd_iFramePOC (nd d x) \<le> v) xs)
    \<and> same_data d d' \<and> same_lsb d d' \<and> same_dec d d'"
  using assms
proof (induction xs arbitrary: as f)
  case Nil
  then show ?case by simp
next
  case (Cons cur bs)
  let ?nx = "fld nd_tNextPOCNodeID (dp_Nodes d)" and ?pv = "fld nd_tPrevPOCNodeID (dp_Nodes d)"
  obtain g where f: "f = Suc g" using Cons.prems(3) by (cases f) auto
  have dl: "dll ?nx ?pv (dp_tHeadPOCNodeID d) (as @ cur # bs)" and rng: "\<forall>z \<in> set (as @ cur # bs). in_range d z"
    using Cons.prems(1) by (auto simp: poc_list_def)
  have y: "in_range d y" "0 \<le> y" "y \<notin> set (as @ cur # bs)" "y \<noteq> cur"
    using Cons.prems(4,5) by (auto simp: in_range_def)
  have c: "in_range d cur" "0 \<le> cur" using rng by (auto simp: in_range_def)
  note at = dll_at [OF dl]
  note vn = valid_neighbours [OF dl rng]
  have fl: "nd_tNextPOCNodeID (nd d cur) = ?nx cur" "nd_tPrevPOCNodeID (nd d cur) = ?pv cur" using c by (simp_all add: fld_nd)
  have nvalid: "0 \<le> ?nx cur \<longleftrightarrow> bs \<noteq> []" using at(1) rng by (simp add: hd_or_valid in_range_def)
  show ?case
  proof (cases "v < nd_iFramePOC (nd d cur)")
    case True
    let ?d1 = "set_nd d y (\<lambda>n. n\<lparr>nd_tPrevPOCNodeID := ?pv cur, nd_tNextPOCNodeID := cur\<rparr>)"
    let ?d2 = "set_nd ?d1 cur (\<lambda>n. n\<lparr>nd_tPrevPOCNodeID := y\<rparr>)"
    let ?d3 = "if 0 \<le> ?pv cur then set_nd ?d2 (?pv cur) (\<lambda>n. n\<lparr>nd_tNextPOCNodeID := y\<rparr>) else ?d2"
    let ?d4 = "if cur = dp_tHeadPOCNodeID d then ?d3\<lparr>dp_tHeadPOCNodeID := y\<rparr> else ?d3"
    have h3: "dp_tHeadPOCNodeID ?d3 = dp_tHeadPOCNodeID d" by (simp add: set_nd_def)
    have run: "insert_poc f y v cur d = Some ?d4"
      using True c y vn(2) h3 unfolding f by (subst insert_poc.simps) (simp add: fl Let_def upd_valid_Some)
    have n4: "dp_Nodes ?d4 = dp_Nodes ?d3" by simp
    have nx: "fld nd_tNextPOCNodeID (dp_Nodes ?d4) = (if 0 \<le> ?pv cur then ?nx(y := cur, ?pv cur := y) else ?nx(y := cur))"
      unfolding n4 using vn(2) y c by (simp add: fld_set_nd_same) (simp add: fld_set_nd_same fld_set_nd)
    have pv: "fld nd_tPrevPOCNodeID (dp_Nodes ?d4) = ?pv(y := ?pv cur, cur := y)"
      unfolding n4 using y c by (simp add: fld_set_nd_same) (simp add: fld_set_nd_same fld_set_nd)
    have hd: "dp_tHeadPOCNodeID ?d4 = (if cur = dp_tHeadPOCNodeID d then y else dp_tHeadPOCNodeID d)" using h3 by simp
      have la: "dp_tLastPOCNodeID ?d4 = last_or (as @ y # cur # bs) AL_BAD_INDEX"
        using Cons.prems(1) by (simp add: set_nd_def poc_list_def last_or_append)
    have r4: "in_range ?d4 z = in_range d z" for z by (simp add: in_range_def)
    have lst: "poc_list ?d4 (as @ y # cur # bs)"
      unfolding poc_list_def nx pv hd la r4 using dll_insert_before [OF dl y(3,2)] rng y(1) by simp
    have "same_data d ?d4"
    proof -
      have "same_data d ?d1" by (simp add: same_data_set_nd nolink_def)
      also have "same_data ?d1 ?d2" by (simp add: same_data_set_nd nolink_def)
      also have "same_data ?d2 ?d3" by (simp add: same_data_set_nd nolink_def)
      also have "same_data ?d3 ?d4" by (simp add: same_data_def nohead_def)
      finally show ?thesis .
    qed
    moreover have "same_lsb d ?d4" "same_dec d ?d4"
      unfolding same_lsb_def same_dec_def by (simp_all add: fld_set_nd_same)
    ultimately show ?thesis using True run lst by auto
  next
    case False
    show ?thesis
    proof (cases bs)
      case Nil
      let ?e1 = "set_nd d y (\<lambda>n. n\<lparr>nd_tNextPOCNodeID := AL_BAD_INDEX, nd_tPrevPOCNodeID := cur\<rparr>)"
      let ?e2 = "set_nd ?e1 cur (\<lambda>n. n\<lparr>nd_tNextPOCNodeID := y\<rparr>)"
      let ?e3 = "?e2\<lparr>dp_tLastPOCNodeID := y\<rparr>"
      have run: "insert_poc f y v cur d = Some ?e3"
        using False c y nvalid Nil unfolding f by (subst insert_poc.simps) (simp add: fl Let_def)
      have nx: "fld nd_tNextPOCNodeID (dp_Nodes ?e3) = ?nx(y := AL_BAD_INDEX, cur := y)"
        using y c by (simp add: fld_set_nd_same) (simp add: fld_set_nd_same fld_set_nd)
      have pv: "fld nd_tPrevPOCNodeID (dp_Nodes ?e3) = ?pv(y := cur)"
        using y c by (simp add: fld_set_nd_same) (simp add: fld_set_nd_same fld_set_nd)
      have hd: "dp_tHeadPOCNodeID ?e3 = dp_tHeadPOCNodeID d" by (simp add: set_nd_def)
      have la: "dp_tLastPOCNodeID ?e3 = last_or (as @ [cur, y]) AL_BAD_INDEX"
        by (simp add: last_or_append)
      have r4: "in_range ?e3 z = in_range d z" for z by (simp add: in_range_def)
      have lst: "poc_list ?e3 (as @ [cur, y])"
        unfolding poc_list_def nx pv hd la r4 using dll_append [of ?nx ?pv "dp_tHeadPOCNodeID d" as cur y] dl y rng Nil by simp
      have "same_data d ?e3"
      proof -
        have "same_data d ?e1" by (simp add: same_data_set_nd nolink_def)
        also have "same_data ?e1 ?e2" by (simp add: same_data_set_nd nolink_def)
        also have "same_data ?e2 ?e3" by (rule same_data_head) (simp_all add: nohead_def)
        finally show ?thesis .
      qed
      moreover have "same_lsb d ?e3" "same_dec d ?e3"
        unfolding same_lsb_def same_dec_def by (simp_all add: fld_set_nd_same)
      ultimately show ?thesis using False run lst Nil by auto
    next
      case (Cons b bs')
      have "insert_poc f y v cur d = insert_poc g y v b d"
        using False c nvalid at(1) Cons unfolding f by (subst insert_poc.simps) (simp add: fl)
      moreover have "poc_list d ((as @ [cur]) @ bs)" using Cons.prems(1) by simp
      ultimately show ?thesis
        using Cons.IH [of "as @ [cur]" g] Cons.prems False Cons f by auto
    qed
  qed
qed

lemma insert_lsb_ok:
  assumes "lsb_list d (as @ xs)" "xs \<noteq> []" "length xs \<le> f" "in_range d y" "y \<notin> set (as @ xs)"
  shows "\<exists>d'. insert_lsb f y v (hd xs) d = Some d'
    \<and> lsb_list d' (as @ takeWhile (\<lambda>x. nd_slice_pic_order_cnt_lsb (nd d x) \<le> v) xs @ y # dropWhile (\<lambda>x. nd_slice_pic_order_cnt_lsb (nd d x) \<le> v) xs)
    \<and> same_data d d' \<and> same_poc d d' \<and> same_dec d d'"
  using assms
proof (induction xs arbitrary: as f)
  case Nil
  then show ?case by simp
next
  case (Cons cur bs)
  let ?nx = "fld nd_tNextPocLsbNodeID (dp_Nodes d)" and ?pv = "fld nd_tPrevPocLsbNodeID (dp_Nodes d)"
  obtain g where f: "f = Suc g" using Cons.prems(3) by (cases f) auto
  have dl: "dll ?nx ?pv (dp_tHeadPocLsbNodeID d) (as @ cur # bs)" and rng: "\<forall>z \<in> set (as @ cur # bs). in_range d z"
    using Cons.prems(1) by (auto simp: lsb_list_def)
  have y: "in_range d y" "0 \<le> y" "y \<notin> set (as @ cur # bs)" "y \<noteq> cur"
    using Cons.prems(4,5) by (auto simp: in_range_def)
  have c: "in_range d cur" "0 \<le> cur" using rng by (auto simp: in_range_def)
  note at = dll_at [OF dl]
  note vn = valid_neighbours [OF dl rng]
  have fl: "nd_tNextPocLsbNodeID (nd d cur) = ?nx cur" "nd_tPrevPocLsbNodeID (nd d cur) = ?pv cur" using c by (simp_all add: fld_nd)
  have nvalid: "0 \<le> ?nx cur \<longleftrightarrow> bs \<noteq> []" using at(1) rng by (simp add: hd_or_valid in_range_def)
  show ?case
  proof (cases "v < nd_slice_pic_order_cnt_lsb (nd d cur)")
    case True
    let ?d1 = "set_nd d y (\<lambda>n. n\<lparr>nd_tPrevPocLsbNodeID := ?pv cur, nd_tNextPocLsbNodeID := cur\<rparr>)"
    let ?d2 = "set_nd ?d1 cur (\<lambda>n. n\<lparr>nd_tPrevPocLsbNodeID := y\<rparr>)"
    let ?d3 = "if 0 \<le> ?pv cur then set_nd ?d2 (?pv cur) (\<lambda>n. n\<lparr>nd_tNextPocLsbNodeID := y\<rparr>) else ?d2"
    let ?d4 = "if cur = dp_tHeadPocLsbNodeID d then ?d3\<lparr>dp_tHeadPocLsbNodeID := y\<rparr> else ?d3"
    have h3: "dp_tHeadPocLsbNodeID ?d3 = dp_tHeadPocLsbNodeID d" by (simp add: set_nd_def)
    have run: "insert_lsb f y v cur d = Some ?d4"
      using True c y vn(2) h3 unfolding f by (subst insert_lsb.simps) (simp add: fl Let_def upd_valid_Some)
    have n4: "dp_Nodes ?d4 = dp_Nodes ?d3" by simp
    have nx: "fld nd_tNextPocLsbNodeID (dp_Nodes ?d4) = (if 0 \<le> ?pv cur then ?nx(y := cur, ?pv cur := y) else ?nx(y := cur))"
      unfolding n4 using vn(2) y c by (simp add: fld_set_nd_same) (simp add: fld_set_nd_same fld_set_nd)
    have pv: "fld nd_tPrevPocLsbNodeID (dp_Nodes ?d4) = ?pv(y := ?pv cur, cur := y)"
      unfolding n4 using y c by (simp add: fld_set_nd_same) (simp add: fld_set_nd_same fld_set_nd)
    have hd: "dp_tHeadPocLsbNodeID ?d4 = (if cur = dp_tHeadPocLsbNodeID d then y else dp_tHeadPocLsbNodeID d)" using h3 by simp
    have r4: "in_range ?d4 z = in_range d z" for z by (simp add: in_range_def)
    have lst: "lsb_list ?d4 (as @ y # cur # bs)"
      unfolding lsb_list_def nx pv hd r4 using dll_insert_before [OF dl y(3,2)] rng y(1) by simp
    have "same_data d ?d4"
    proof -
      have "same_data d ?d1" by (simp add: same_data_set_nd nolink_def)
      also have "same_data ?d1 ?d2" by (simp add: same_data_set_nd nolink_def)
      also have "same_data ?d2 ?d3" by (simp add: same_data_set_nd nolink_def)
      also have "same_data ?d3 ?d4" by (simp add: same_data_def nohead_def)
      finally show ?thesis .
    qed
    moreover have "same_poc d ?d4" "same_dec d ?d4"
      unfolding same_poc_def same_dec_def by (simp_all add: fld_set_nd_same)
    ultimately show ?thesis using True run lst by auto
  next
    case False
    show ?thesis
    proof (cases bs)
      case Nil
      let ?e1 = "set_nd d y (\<lambda>n. n\<lparr>nd_tNextPocLsbNodeID := AL_BAD_INDEX, nd_tPrevPocLsbNodeID := cur\<rparr>)"
      let ?e2 = "set_nd ?e1 cur (\<lambda>n. n\<lparr>nd_tNextPocLsbNodeID := y\<rparr>)"
      let ?e3 = "?e2"
      have run: "insert_lsb f y v cur d = Some ?e3"
        using False c y nvalid Nil unfolding f by (subst insert_lsb.simps) (simp add: fl Let_def)
      have nx: "fld nd_tNextPocLsbNodeID (dp_Nodes ?e3) = ?nx(y := AL_BAD_INDEX, cur := y)"
        using y c by (simp add: fld_set_nd_same) (simp add: fld_set_nd_same fld_set_nd)
      have pv: "fld nd_tPrevPocLsbNodeID (dp_Nodes ?e3) = ?pv(y := cur)"
        using y c by (simp add: fld_set_nd_same) (simp add: fld_set_nd_same fld_set_nd)
      have hd: "dp_tHeadPocLsbNodeID ?e3 = dp_tHeadPocLsbNodeID d" by (simp add: set_nd_def)
        have r4: "in_range ?e3 z = in_range d z" for z by (simp add: in_range_def)
      have lst: "lsb_list ?e3 (as @ [cur, y])"
        unfolding lsb_list_def nx pv hd r4 using dll_append [of ?nx ?pv "dp_tHeadPocLsbNodeID d" as cur y] dl y rng Nil by simp
      have "same_data d ?e3"
      proof -
        have "same_data d ?e1" by (simp add: same_data_set_nd nolink_def)
        also have "same_data ?e1 ?e2" by (simp add: same_data_set_nd nolink_def)
        finally show ?thesis .
      qed
      moreover have "same_poc d ?e3" "same_dec d ?e3"
        unfolding same_poc_def same_dec_def by (simp_all add: fld_set_nd_same)
      ultimately show ?thesis using False run lst Nil by auto
    next
      case (Cons b bs')
      have "insert_lsb f y v cur d = insert_lsb g y v b d"
        using False c nvalid at(1) Cons unfolding f by (subst insert_lsb.simps) (simp add: fl)
      moreover have "lsb_list d ((as @ [cur]) @ bs)" using Cons.prems(1) by simp
      ultimately show ?thesis
        using Cons.IH [of "as @ [cur]" g] Cons.prems False Cons f by auto
    qed
  qed
qed

lemma last_dec_ok:
  assumes "dec_list d (as @ xs)" "xs \<noteq> []" "length xs \<le> Suc f"
  shows "last_dec f (hd xs) d = Some (last xs)"
  using assms
proof (induction xs arbitrary: as f)
  case (Cons x xs)
  have dl: "dll (fld nd_tNextDecOrderNodeID (dp_Nodes d)) (fld nd_tPrevDecOrderNodeID (dp_Nodes d)) (dp_tHeadDecOrderNodeID d) (as @ x # xs)"
    and rng: "\<forall>z \<in> set (as @ x # xs). in_range d z"
    using Cons.prems(1) by (auto simp: dec_list_def)
  have nx: "next_dec d x = Some (hd_or xs AL_BAD_INDEX)"
    using dll_at(1) [OF dl] rng by (simp add: next_dec_def flip: fld_nd)
  show ?case
  proof (cases xs)
    case Nil
    then show ?thesis using nx by (subst last_dec.simps) simp
  next
    case Cons2: (Cons b bs)
    obtain g where f: "f = Suc g" using Cons.prems(3) Cons2 by (cases f) auto
    have "0 \<le> b" using rng Cons2 by (simp add: in_range_def)
    moreover have "last_dec g (hd xs) d = Some (last xs)"
      using Cons.IH [of "as @ [x]" g] Cons.prems Cons2 f by auto
    ultimately show ?thesis using nx Cons2 f by (subst last_dec.simps) simp
  qed
qed simp

lemma insert_dec_ok:
  assumes "dec_list d D" "D \<noteq> []" "length D \<le> AL_REF_MNGR_MAX_BUF_SIZE" "in_range d y" "y \<notin> set D"
  shows "\<exists>d'. insert_dec y (hd D) d = Some d' \<and> dec_list d' (D @ [y]) \<and> same_data d d' \<and> same_poc d d' \<and> same_lsb d d'"
proof -
  let ?nx = "fld nd_tNextDecOrderNodeID (dp_Nodes d)" and ?pv = "fld nd_tPrevDecOrderNodeID (dp_Nodes d)"
  obtain as cur where D: "D = as @ [cur]" using assms(2) by (cases D rule: rev_cases) auto
  have dl: "dll ?nx ?pv (dp_tHeadDecOrderNodeID d) (as @ [cur])" and rng: "\<forall>z \<in> set D. in_range d z"
    using assms(1) D by (auto simp: dec_list_def)
  have c: "in_range d cur" "0 \<le> cur" "0 \<le> y" "y \<noteq> cur" using rng D assms(4,5) by (auto simp: in_range_def)
  let ?d1 = "set_nd d y (\<lambda>n. n\<lparr>nd_tPrevDecOrderNodeID := cur, nd_tNextDecOrderNodeID := AL_BAD_INDEX\<rparr>)"
  let ?d2 = "set_nd ?d1 cur (\<lambda>n. n\<lparr>nd_tNextDecOrderNodeID := y\<rparr>)"
  have "last_dec AL_REF_MNGR_MAX_BUF_SIZE (hd D) d = Some cur"
    using last_dec_ok [of d "[]" D] assms(1-3) D by simp
  then have run: "insert_dec y (hd D) d = Some ?d2"
    using c assms(4) by (simp add: insert_dec_def)
  have nx: "fld nd_tNextDecOrderNodeID (dp_Nodes ?d2) = ?nx(y := AL_BAD_INDEX, cur := y)"
    using assms(4) c by (simp add: fld_set_nd)
  have pv: "fld nd_tPrevDecOrderNodeID (dp_Nodes ?d2) = ?pv(y := cur)"
    using assms(4) c by (simp add: fld_set_nd_same) (simp add: fld_set_nd_same fld_set_nd)
  have hd: "dp_tHeadDecOrderNodeID ?d2 = dp_tHeadDecOrderNodeID d" by (simp add: set_nd_def)
  have r: "in_range ?d2 z = in_range d z" for z by (simp add: in_range_def)
  have lst: "dec_list ?d2 (D @ [y])"
    unfolding dec_list_def nx pv hd r D using dll_append [OF dl] c rng assms(4,5) D by simp
  have "same_data d ?d2"
  proof -
    have "same_data d ?d1" by (simp add: same_data_set_nd nolink_def)
    also have "same_data ?d1 ?d2" by (simp add: same_data_set_nd nolink_def)
    finally show ?thesis .
  qed
  moreover have "same_poc d ?d2" "same_lsb d ?d2"
    unfolding same_poc_def same_lsb_def by (simp_all add: fld_set_nd_same)
  ultimately show ?thesis using run lst by blast
qed

text \<open>The place of a new node in a list ordered by the key \<open>k\<close>.\<close>

definition place :: "(index \<Rightarrow> int) \<Rightarrow> int \<Rightarrow> index \<Rightarrow> index list \<Rightarrow> index list" where
  "place k v y xs = takeWhile (\<lambda>x. k x \<le> v) xs @ y # dropWhile (\<lambda>x. k x \<le> v) xs"

lemma place_mset [simp]: "mset (place k v y xs) = add_mset y (mset xs)"
proof -
  have "mset (takeWhile (\<lambda>x. k x \<le> v) xs) + mset (dropWhile (\<lambda>x. k x \<le> v) xs) = mset xs"
    by (simp only: takeWhile_dropWhile_id flip: mset_append)
  then show ?thesis by (simp add: place_def)
qed

lemma place_set [simp]: "set (place k v y xs) = insert y (set xs)"
  by (metis place_mset set_mset_add_mset_insert set_mset_mset)

lemma place_length [simp]: "length (place k v y xs) = Suc (length xs)"
  by (metis place_mset size_add_mset size_mset)

lemma place_Nil [simp]: "place k v y [] = [y]"
  by (simp add: place_def)

lemma place_cong: "(\<And>x. x \<in> set xs \<Longrightarrow> k x = k' x) \<Longrightarrow> place k v y xs = place k' v y xs"
  by (simp add: place_def cong: takeWhile_cong dropWhile_cong)

lemma place_sorted:
  assumes "sorted (map k xs)" "k y = v"
  shows "sorted (map k (place k v y xs))"
  using assms(1)
proof (induction xs)
  case (Cons x xs)
  then show ?case
    using assms(2) place_set [of k v y xs] by (cases "k x \<le> v") (auto simp: place_def)
qed (simp add: place_def)

lemma link_node_ok:
  assumes "lists_ok d P L D" "length (dp_Nodes d) = AL_REF_MNGR_MAX_BUF_SIZE" "in_range d y" "y \<notin> set P"
  shows "\<exists>d'. link_node y p d = Some d' \<and> same_data d d'
    \<and> lists_ok d' (place (\<lambda>x. nd_iFramePOC (nd d x)) (ip_iFramePOC p) y P)
        (place (\<lambda>x. nd_slice_pic_order_cnt_lsb (nd d x)) (ip_iPocLsb p) y L) (D @ [y])"
proof (cases "P = []")
  case True
  then have e: "L = []" "D = []" using assms(1) by (auto simp: lists_ok_def)
  have h: "dp_tHeadPOCNodeID d = AL_BAD_INDEX" using assms(1) True by (auto simp: lists_ok_def poc_list_def)
  let ?d1 = "set_nd d y (\<lambda>n. n\<lparr>nd_tPrevPOCNodeID := AL_BAD_INDEX, nd_tNextPOCNodeID := AL_BAD_INDEX,
          nd_tPrevPocLsbNodeID := AL_BAD_INDEX, nd_tNextPocLsbNodeID := AL_BAD_INDEX,
          nd_tPrevDecOrderNodeID := AL_BAD_INDEX, nd_tNextDecOrderNodeID := AL_BAD_INDEX\<rparr>)"
  let ?d2 = "?d1\<lparr>dp_tHeadPOCNodeID := y, dp_tLastPOCNodeID := y, dp_tHeadPocLsbNodeID := y, dp_tHeadDecOrderNodeID := y\<rparr>"
  have y: "0 \<le> y" using assms(3) by (simp add: in_range_def)
  have "link_node y p d = Some ?d2" using assms(3) h by (simp add: link_node_def)
  moreover have "same_data d ?d2"
  proof -
    have "same_data d ?d1" by (simp add: same_data_set_nd nolink_def)
    also have "same_data ?d1 ?d2" by (rule same_data_head) (simp_all add: nohead_def)
    finally show ?thesis .
  qed
  moreover have "lists_ok ?d2 [y] [y] [y]"
    using assms(3) y dll_singleton [OF y]
    by (simp add: lists_ok_def poc_list_def lsb_list_def dec_list_def fld_set_nd)
  ultimately show ?thesis using True e by auto
next
  case False
  have l: "poc_list d P" "lsb_list d L" "dec_list d D" "set L = set P" "set D = set P"
    using assms(1) by (simp_all add: lists_ok_def)
  have ne: "L \<noteq> []" "D \<noteq> []" using False l(4,5) by auto
  note len = lists_lengths [OF assms(1)]
  have hp: "dp_tHeadPOCNodeID d = hd P" "dp_tHeadPocLsbNodeID d = hd L" "dp_tHeadDecOrderNodeID d = hd D"
    using l(1-3) False ne by (auto simp: poc_list_def lsb_list_def dec_list_def hd_or_def dest!: dll_head split: list.splits)
  have v: "0 \<le> hd P" using l(1) False by (auto simp: poc_list_def in_range_def)
  obtain d1 where d1: "insert_poc AL_REF_MNGR_MAX_BUF_SIZE y (ip_iFramePOC p) (hd P) d = Some d1"
    "poc_list d1 (place (\<lambda>x. nd_iFramePOC (nd d x)) (ip_iFramePOC p) y P)" "same_data d d1" "same_lsb d d1" "same_dec d d1"
    using insert_poc_ok [of d "[]" P AL_REF_MNGR_MAX_BUF_SIZE y "ip_iFramePOC p"] l False assms len by (auto simp: place_def)
  obtain d2 where d2: "insert_lsb AL_REF_MNGR_MAX_BUF_SIZE y (ip_iPocLsb p) (hd L) d1 = Some d2"
    "lsb_list d2 (place (\<lambda>x. nd_slice_pic_order_cnt_lsb (nd d1 x)) (ip_iPocLsb p) y L)" "same_data d1 d2" "same_poc d1 d2" "same_dec d1 d2"
    using insert_lsb_ok [of d1 "[]" L AL_REF_MNGR_MAX_BUF_SIZE y "ip_iPocLsb p"] l ne assms len
      same_lsb_list [OF d1(4)] same_data_range [OF d1(3)] by (auto simp: place_def)
  obtain d3 where d3: "insert_dec y (hd D) d2 = Some d3" "dec_list d3 (D @ [y])" "same_data d2 d3" "same_poc d2 d3" "same_lsb d2 d3"
    using insert_dec_ok [of d2 D y] l ne assms len same_dec_list [OF d1(5)] same_dec_list [OF d2(5)]
      same_data_range [OF d1(3)] same_data_range [OF d2(3)] by auto
  have key: "place (\<lambda>x. nd_slice_pic_order_cnt_lsb (nd d1 x)) (ip_iPocLsb p) y L
      = place (\<lambda>x. nd_slice_pic_order_cnt_lsb (nd d x)) (ip_iPocLsb p) y L"
  proof (rule place_cong)
    fix x assume "x \<in> set L"
    then have "in_range d x" using l(2) by (simp add: lsb_list_def)
    from same_data_node [OF d1(3) this] show "nd_slice_pic_order_cnt_lsb (nd d1 x) = nd_slice_pic_order_cnt_lsb (nd d x)"
      by (rule nolink_fields)
  qed
  have "link_node y p d = Some d3" using d1(1) d2(1) d3(1) hp v by (simp add: link_node_def Let_def)
  moreover have "same_data d d3" using d1(3) d2(3) d3(3) same_data_trans by blast
  ultimately show ?thesis
    using d1(2) d2(2) d3(2) same_poc_list [OF d2(4)] same_poc_list [OF d3(4)] same_lsb_list [OF d3(5)] l(4,5) key
    by (auto simp: lists_ok_def)
qed

section \<open>The removals share a contract\<close>

text \<open>
  Each of the lists is left by a node without a trace in the data of the nodes or in the other two
  lists (\<open>others\<close>).
\<close>

locale node_list =
  fixes is_list :: "AL_TDpb \<Rightarrow> index list \<Rightarrow> bool"
    and remove :: "AL_TDpb \<Rightarrow> index \<Rightarrow> AL_TDpb option"
    and others :: "AL_TDpb \<Rightarrow> AL_TDpb \<Rightarrow> bool"
  assumes is_list_distinct: "is_list d xs \<Longrightarrow> distinct xs"
    and remove_at: "is_list d (xs @ x # ys) \<Longrightarrow>
      \<exists>d'. remove d x = Some d' \<and> is_list d' (xs @ ys) \<and> same_data d d' \<and> others d d'"
    and others_trans: "others a b \<Longrightarrow> others b c \<Longrightarrow> others a c"
    and others_refl: "others a a"
begin

lemma remove_in:
  assumes "is_list d xs" "x \<in> set xs"
  shows "\<exists>d'. remove d x = Some d' \<and> is_list d' (removeAll x xs) \<and> same_data d d' \<and> others d d'"
proof -
  obtain as bs where xs: "xs = as @ x # bs" using assms(2) by (meson split_list)
  have "removeAll x xs = as @ bs" using is_list_distinct [OF assms(1)] xs by simp
  then show ?thesis using remove_at [of d as x bs] assms(1) xs by simp
qed

lemma remove_all_in:
  assumes "is_list d xs" "set ys \<subseteq> set xs" "distinct ys"
  shows "\<exists>d'. foldM (\<lambda>x d. remove d x) ys d = Some d' \<and> is_list d' (filter (\<lambda>x. x \<notin> set ys) xs)
    \<and> same_data d d' \<and> others d d'"
  using assms
proof (induction ys arbitrary: d xs)
  case Nil
  then show ?case using others_refl by simp
next
  case (Cons y ys)
  obtain d1 where d1: "remove d y = Some d1" "is_list d1 (removeAll y xs)" "same_data d d1" "others d d1"
    using remove_in [OF Cons.prems(1), of y] Cons.prems(2) by auto
  obtain d2 where d2: "foldM (\<lambda>x d. remove d x) ys d1 = Some d2" "is_list d2 (filter (\<lambda>x. x \<notin> set ys) (removeAll y xs))"
    "same_data d1 d2" "others d1 d2"
    using Cons.IH [OF d1(2)] Cons.prems(2,3) by auto
  have "filter (\<lambda>x. x \<notin> set ys) (removeAll y xs) = filter (\<lambda>x. x \<notin> set (y # ys)) xs"
    by (auto simp: removeAll_filter_not_eq intro!: filter_cong)
  then show ?case using d1 d2 same_data_trans others_trans by auto
qed

end

lemma list_distinct:
  "poc_list d xs \<Longrightarrow> distinct xs" "lsb_list d xs \<Longrightarrow> distinct xs" "dec_list d xs \<Longrightarrow> distinct xs"
  by (auto simp: poc_list_def lsb_list_def dec_list_def dest: dll_distinct)

interpretation pocl: node_list poc_list RemoveFromPocList "\<lambda>d d'. same_lsb d d' \<and> same_dec d d'"
  by unfold_locales (auto dest: list_distinct RemoveFromPocList_ok intro: same_trans)

interpretation lsbl: node_list lsb_list RemoveFromPocLsbList "\<lambda>d d'. same_poc d d' \<and> same_dec d d'"
  by unfold_locales (auto dest: list_distinct RemoveFromPocLsbList_ok intro: same_trans)

interpretation decl: node_list dec_list RemoveFromDecOrderList "\<lambda>d d'. same_poc d d' \<and> same_lsb d d'"
  by unfold_locales (auto dest: list_distinct RemoveFromDecOrderList_ok intro: same_trans)

end
