(* ===== verification/Dpb_Inv.thy ===== *)
theory Dpb_Inv
  imports Dpb_Lists
begin

text \<open>
  The invariant of the decoded picture buffer (\<open>DPB.c\<close>) and its preservation by insertion, removal,
  display, clean-up and flush: the lists are linked and ordered, the counters count, the picture
  identifiers are conserved, and every buffer reference taken from the picture manager is held
  by exactly one place until it is given back.
\<close>

section \<open>The invariant\<close>

definition marked :: "AL_TDpb \<Rightarrow> index \<Rightarrow> bool" where "marked d x \<longleftrightarrow> nd_eMarkingFlag (nd d x) \<noteq> UNUSED_FOR_REF"
definition outp :: "AL_TDpb \<Rightarrow> index \<Rightarrow> bool" where "outp d x \<longleftrightarrow> nd_bPicOutputFlag (nd d x)"
definition absent :: "AL_TDpb \<Rightarrow> index \<Rightarrow> bool" where "absent d x \<longleftrightarrow> nd_bNonExisting (nd d x)"

definition node_in :: "AL_TDpb \<Rightarrow> index \<Rightarrow> bool" where
  "node_in d x \<longleftrightarrow> \<not> nd_bIsReset (nd d x) \<and> nd_tNodeID (nd d x) = x
     \<and> (if absent d x then \<not> outp d x \<and> nd_tFrameID (nd d x) = AL_BAD_INDEX \<and> nd_tMvID (nd d x) = AL_BAD_INDEX
          \<and> nd_tPicID (nd d x) = AL_BAD_INDEX
        else 0 \<le> nd_tFrameID (nd d x) \<and> nat (nd_tFrameID (nd d x)) < AL_REFMNGR_MAX_POOL_SIZE \<and> 0 \<le> nd_tMvID (nd d x))"

definition node_out :: "AL_TDpb \<Rightarrow> index \<Rightarrow> bool" where
  "node_out d x \<longleftrightarrow> nd_bIsReset (nd d x) \<and> \<not> marked d x \<and> \<not> outp d x \<and> nd_tNodeID (nd d x) = AL_BAD_INDEX"

definition nodes_ok :: "AL_TDpb \<Rightarrow> index list \<Rightarrow> bool" where
  "nodes_ok d P \<longleftrightarrow> length (dp_Nodes d) = AL_REF_MNGR_MAX_BUF_SIZE
     \<and> (\<forall>x. in_range d x \<longrightarrow> (if x \<in> set P then node_in d x else node_out d x))"

definition counts_ok :: "AL_TDpb \<Rightarrow> index list \<Rightarrow> bool" where
  "counts_ok d P \<longleftrightarrow> dp_uCountPic d = length P \<and> dp_uCountRef d = length (filter (marked d) P)
     \<and> dp_uNumOutputPic d = length (filter (outp d) P)"

text \<open>Picture identifiers: free or held by one node, and the tables of the held ones.\<close>

definition held_ids :: "AL_TDpb \<Rightarrow> index list \<Rightarrow> index list" where
  "held_ids d P = filter (\<lambda>i. 0 \<le> i) (map (\<lambda>x. nd_tPicID (nd d x)) P)"

definition ids_ok :: "AL_TDpb \<Rightarrow> index list \<Rightarrow> bool" where
  "ids_ok d P \<longleftrightarrow> dp_FreePicIdCnt d \<le> AL_MAX_REF \<and> length (dp_FreePicIDs d) = AL_MAX_REF
     \<and> length (dp_PicId2NodeId d) = AL_MAX_REF \<and> length (dp_PicId2FrmId d) = AL_MAX_REF
     \<and> length (dp_PicId2MvId d) = AL_MAX_REF
     \<and> mset (take (dp_FreePicIdCnt d) (dp_FreePicIDs d)) + mset (held_ids d P) = mset (map int [0..<AL_MAX_REF])
     \<and> (\<forall>i \<in> set (take (dp_FreePicIdCnt d) (dp_FreePicIDs d)). dp_PicId2NodeId d ! nat i = AL_BAD_INDEX)
     \<and> (\<forall>x \<in> set P. 0 \<le> nd_tPicID (nd d x) \<longrightarrow> dp_PicId2NodeId d ! nat (nd_tPicID (nd d x)) = x
          \<and> dp_PicId2FrmId d ! nat (nd_tPicID (nd d x)) = nd_tFrameID (nd d x)
          \<and> dp_PicId2MvId d ! nat (nd_tPicID (nd d x)) = nd_tMvID (nd d x))"

definition waiting_ok :: "AL_TDpb \<Rightarrow> index list \<Rightarrow> bool" where
  "waiting_ok d P \<longleftrightarrow> (if dp_bPicWaiting d
     then dp_tNodeWaitingID d \<in> set P \<and> \<not> absent d (dp_tNodeWaitingID d)
       \<and> nd_tPicID (nd d (dp_tNodeWaitingID d)) = AL_BAD_INDEX
       \<and> dp_tFrmWaitingID d = nd_tFrameID (nd d (dp_tNodeWaitingID d))
       \<and> dp_tMvWaitingID d = nd_tMvID (nd d (dp_tNodeWaitingID d))
     else dp_tNodeWaitingID d = AL_BAD_INDEX)"

text \<open>The rings of the deleted pictures and the display queue.\<close>

definition deleted_frms :: "AL_TDpb \<Rightarrow> index list" where
  "deleted_frms d = ring (dp_pDeletedFrmIDLst d) (dp_iDeletedFrmLstHead d) (dp_iNumDeletedPic d)"

definition deleted_mvs :: "AL_TDpb \<Rightarrow> index list" where
  "deleted_mvs d = ring (dp_pDeletedMvIDLst d) (dp_iDeletedMvLstHead d) (dp_iNumDeletedPic d)"

definition deleted_ok :: "AL_TDpb \<Rightarrow> bool" where
  "deleted_ok d \<longleftrightarrow> length (dp_pDeletedFrmIDLst d) = AL_REFMNGR_MAX_POOL_SIZE
     \<and> length (dp_pDeletedMvIDLst d) = AL_REF_MNGR_MAX_BUF_SIZE
     \<and> dp_iDeletedFrmLstHead d < AL_REFMNGR_MAX_POOL_SIZE \<and> dp_iDeletedMvLstHead d < AL_REF_MNGR_MAX_BUF_SIZE
     \<and> dp_iDeletedFrmLstTail d = (dp_iDeletedFrmLstHead d + dp_iNumDeletedPic d) mod AL_REFMNGR_MAX_POOL_SIZE
     \<and> dp_iDeletedMvLstTail d = (dp_iDeletedMvLstHead d + dp_iNumDeletedPic d) mod AL_REF_MNGR_MAX_BUF_SIZE"

definition df_frms :: "AL_TDispFifo \<Rightarrow> index list" where
  "df_frms f = ring (df_pFrmIDs f) (df_tFirstFrmID f) (df_uNumFrm f)"

definition df_ok :: "AL_TDispFifo \<Rightarrow> bool" where
  "df_ok f \<longleftrightarrow> length (df_pFrmIDs f) = AL_REFMNGR_MAX_POOL_SIZE \<and> length (df_pPicLatency f) = AL_REFMNGR_MAX_POOL_SIZE
     \<and> length (df_pFrmStatus f) = AL_REFMNGR_MAX_POOL_SIZE \<and> df_tFirstFrmID f < AL_REFMNGR_MAX_POOL_SIZE
     \<and> df_uNumFrm f \<le> AL_REFMNGR_MAX_POOL_SIZE
     \<and> (\<forall>x \<in> set (df_frms f). 0 \<le> x \<and> nat x < AL_REFMNGR_MAX_POOL_SIZE)
     \<and> (\<forall>j. df_uNumFrm f \<le> j \<longrightarrow> j < AL_REFMNGR_MAX_POOL_SIZE \<longrightarrow>
          df_pFrmIDs f ! ((df_tFirstFrmID f + j) mod AL_REFMNGR_MAX_POOL_SIZE) = AL_BAD_INDEX)"

text \<open>
  Room. A removed picture keeps its motion vectors until they are given back, and an output picture
  its frame until it is displayed: what is in the lists fits the rings.
\<close>

definition room_ok :: "AL_TDpb \<Rightarrow> index list \<Rightarrow> bool" where
  "room_ok d P \<longleftrightarrow> dp_iNumDeletedPic d + length P \<le> AL_REF_MNGR_MAX_BUF_SIZE
     \<and> df_uNumFrm (dp_DispFifo d) + length (filter (outp d) P) \<le> AL_REFMNGR_MAX_POOL_SIZE"

text \<open>References: what the log has taken is what it has given back and what is held.\<close>

fun inc_frm :: "dpb_event \<Rightarrow> index list" where
  "inc_frm (IncrementFrmBuf f) = [f]" | "inc_frm _ = []"
fun dec_frm :: "dpb_event \<Rightarrow> index list" where
  "dec_frm (DecrementFrmBuf f) = [f]" | "dec_frm _ = []"
fun inc_mv :: "dpb_event \<Rightarrow> index list" where
  "inc_mv (IncrementAnnexBuf m) = [m]" | "inc_mv _ = []"
fun dec_mv :: "dpb_event \<Rightarrow> index list" where
  "dec_mv (DecrementAnnexBuf m) = [m]" | "dec_mv _ = []"
fun out_frm :: "dpb_event \<Rightarrow> index list" where
  "out_frm (OutputFrmBuf f) = [f]" | "out_frm _ = []"

definition events :: "(dpb_event \<Rightarrow> index list) \<Rightarrow> AL_TDpb \<Rightarrow> index list" where
  "events k d = concat (map k (dp_log d))"

definition frames :: "AL_TDpb \<Rightarrow> index list \<Rightarrow> index list" where
  "frames d P = map (\<lambda>x. nd_tFrameID (nd d x)) (filter (\<lambda>x. \<not> absent d x) P)"

definition mvs :: "AL_TDpb \<Rightarrow> index list \<Rightarrow> index list" where
  "mvs d P = map (\<lambda>x. nd_tMvID (nd d x)) (filter (\<lambda>x. \<not> absent d x) P)"

definition log_ok :: "AL_TDpb \<Rightarrow> index list \<Rightarrow> bool" where
  "log_ok d P \<longleftrightarrow> mset (events inc_frm d)
       = mset (events dec_frm d) + mset (frames d P) + mset (deleted_frms d) + mset (df_frms (dp_DispFifo d))
     \<and> mset (events inc_mv d) = mset (events dec_mv d) + mset (mvs d P) + mset (deleted_mvs d)"

definition ordered :: "AL_TDpb \<Rightarrow> index list \<Rightarrow> index list \<Rightarrow> bool" where
  "ordered d P L \<longleftrightarrow> sorted (map (\<lambda>x. nd_iFramePOC (nd d x)) P)
     \<and> sorted (map (\<lambda>x. nd_slice_pic_order_cnt_lsb (nd d x)) L)"

definition data_ok :: "AL_TDpb \<Rightarrow> index list \<Rightarrow> bool" where
  "data_ok d P \<longleftrightarrow> nodes_ok d P \<and> counts_ok d P \<and> ids_ok d P \<and> waiting_ok d P \<and> deleted_ok d
     \<and> df_ok (dp_DispFifo d) \<and> room_ok d P \<and> log_ok d P"

definition dpb_ok :: "AL_TDpb \<Rightarrow> index list \<Rightarrow> index list \<Rightarrow> index list \<Rightarrow> bool" where
  "dpb_ok d P L D \<longleftrightarrow> lists_ok d P L D \<and> ordered d P L \<and> data_ok d P"

section \<open>Links do not matter for the data\<close>

lemma same_data_fields:
  assumes "same_data d d'"
  shows
    "dp_DispFifo d' = dp_DispFifo d" "dp_PicId2NodeId d' = dp_PicId2NodeId d" "dp_PicId2FrmId d' = dp_PicId2FrmId d"
    "dp_PicId2MvId d' = dp_PicId2MvId d" "dp_FreePicIDs d' = dp_FreePicIDs d"
    "dp_FreePicIdCnt d' = dp_FreePicIdCnt d" "dp_bPicWaiting d' = dp_bPicWaiting d"
    "dp_tNodeWaitingID d' = dp_tNodeWaitingID d" "dp_tFrmWaitingID d' = dp_tFrmWaitingID d"
    "dp_tMvWaitingID d' = dp_tMvWaitingID d" "dp_pDeletedFrmIDLst d' = dp_pDeletedFrmIDLst d"
    "dp_pDeletedMvIDLst d' = dp_pDeletedMvIDLst d" "dp_iDeletedFrmLstHead d' = dp_iDeletedFrmLstHead d"
    "dp_iDeletedFrmLstTail d' = dp_iDeletedFrmLstTail d" "dp_iDeletedMvLstHead d' = dp_iDeletedMvLstHead d"
    "dp_iDeletedMvLstTail d' = dp_iDeletedMvLstTail d" "dp_iNumDeletedPic d' = dp_iNumDeletedPic d"
    "dp_iLastDisplayedPOC d' = dp_iLastDisplayedPOC d" "dp_uNumOutputPic d' = dp_uNumOutputPic d"
    "dp_uNumRef d' = dp_uNumRef d" "dp_tCurRefNodeID d' = dp_tCurRefNodeID d" "dp_uCountRef d' = dp_uCountRef d"
    "dp_uCountPic d' = dp_uCountPic d" "dp_log d' = dp_log d"
proof -
  have h: "nohead d' = nohead d" using assms by (simp add: same_data_def)
  show "dp_DispFifo d' = dp_DispFifo d" using arg_cong [OF h, of dp_DispFifo] by (simp add: nohead_def)
  show "dp_PicId2NodeId d' = dp_PicId2NodeId d" using arg_cong [OF h, of dp_PicId2NodeId] by (simp add: nohead_def)
  show "dp_PicId2FrmId d' = dp_PicId2FrmId d" using arg_cong [OF h, of dp_PicId2FrmId] by (simp add: nohead_def)
  show "dp_PicId2MvId d' = dp_PicId2MvId d" using arg_cong [OF h, of dp_PicId2MvId] by (simp add: nohead_def)
  show "dp_FreePicIDs d' = dp_FreePicIDs d" using arg_cong [OF h, of dp_FreePicIDs] by (simp add: nohead_def)
  show "dp_FreePicIdCnt d' = dp_FreePicIdCnt d" using arg_cong [OF h, of dp_FreePicIdCnt] by (simp add: nohead_def)
  show "dp_bPicWaiting d' = dp_bPicWaiting d" using arg_cong [OF h, of dp_bPicWaiting] by (simp add: nohead_def)
  show "dp_tNodeWaitingID d' = dp_tNodeWaitingID d" using arg_cong [OF h, of dp_tNodeWaitingID] by (simp add: nohead_def)
  show "dp_tFrmWaitingID d' = dp_tFrmWaitingID d" using arg_cong [OF h, of dp_tFrmWaitingID] by (simp add: nohead_def)
  show "dp_tMvWaitingID d' = dp_tMvWaitingID d" using arg_cong [OF h, of dp_tMvWaitingID] by (simp add: nohead_def)
  show "dp_pDeletedFrmIDLst d' = dp_pDeletedFrmIDLst d" using arg_cong [OF h, of dp_pDeletedFrmIDLst] by (simp add: nohead_def)
  show "dp_pDeletedMvIDLst d' = dp_pDeletedMvIDLst d" using arg_cong [OF h, of dp_pDeletedMvIDLst] by (simp add: nohead_def)
  show "dp_iDeletedFrmLstHead d' = dp_iDeletedFrmLstHead d" using arg_cong [OF h, of dp_iDeletedFrmLstHead] by (simp add: nohead_def)
  show "dp_iDeletedFrmLstTail d' = dp_iDeletedFrmLstTail d" using arg_cong [OF h, of dp_iDeletedFrmLstTail] by (simp add: nohead_def)
  show "dp_iDeletedMvLstHead d' = dp_iDeletedMvLstHead d" using arg_cong [OF h, of dp_iDeletedMvLstHead] by (simp add: nohead_def)
  show "dp_iDeletedMvLstTail d' = dp_iDeletedMvLstTail d" using arg_cong [OF h, of dp_iDeletedMvLstTail] by (simp add: nohead_def)
  show "dp_iNumDeletedPic d' = dp_iNumDeletedPic d" using arg_cong [OF h, of dp_iNumDeletedPic] by (simp add: nohead_def)
  show "dp_iLastDisplayedPOC d' = dp_iLastDisplayedPOC d" using arg_cong [OF h, of dp_iLastDisplayedPOC] by (simp add: nohead_def)
  show "dp_uNumOutputPic d' = dp_uNumOutputPic d" using arg_cong [OF h, of dp_uNumOutputPic] by (simp add: nohead_def)
  show "dp_uNumRef d' = dp_uNumRef d" using arg_cong [OF h, of dp_uNumRef] by (simp add: nohead_def)
  show "dp_tCurRefNodeID d' = dp_tCurRefNodeID d" using arg_cong [OF h, of dp_tCurRefNodeID] by (simp add: nohead_def)
  show "dp_uCountRef d' = dp_uCountRef d" using arg_cong [OF h, of dp_uCountRef] by (simp add: nohead_def)
  show "dp_uCountPic d' = dp_uCountPic d" using arg_cong [OF h, of dp_uCountPic] by (simp add: nohead_def)
  show "dp_log d' = dp_log d" using arg_cong [OF h, of dp_log] by (simp add: nohead_def)
qed

lemma same_data_nd:
  assumes "same_data d d'" "in_range d x"
  shows "nd_tNodeID (nd d' x) = nd_tNodeID (nd d x)" "nd_tFrameID (nd d' x) = nd_tFrameID (nd d x)"
    "nd_tMvID (nd d' x) = nd_tMvID (nd d x)" "nd_tPicID (nd d' x) = nd_tPicID (nd d x)"
    "nd_iFramePOC (nd d' x) = nd_iFramePOC (nd d x)"
    "nd_slice_pic_order_cnt_lsb (nd d' x) = nd_slice_pic_order_cnt_lsb (nd d x)"
    "nd_bIsReset (nd d' x) = nd_bIsReset (nd d x)"
    "marked d' x = marked d x" "outp d' x = outp d x" "absent d' x = absent d x"
  using nolink_fields [OF same_data_node [OF assms]] by (simp_all add: marked_def outp_def absent_def)

text \<open>The data of the nodes of a list under any change that keeps the fields read.\<close>

lemma list_data_cong:
  assumes "\<And>x. x \<in> set P \<Longrightarrow> nd_tPicID (nd d' x) = nd_tPicID (nd d x)"
    "\<And>x. x \<in> set P \<Longrightarrow> nd_tFrameID (nd d' x) = nd_tFrameID (nd d x)"
    "\<And>x. x \<in> set P \<Longrightarrow> nd_tMvID (nd d' x) = nd_tMvID (nd d x)"
    "\<And>x. x \<in> set P \<Longrightarrow> absent d' x = absent d x"
  shows "held_ids d' P = held_ids d P" "frames d' P = frames d P" "mvs d' P = mvs d P"
proof -
  show "held_ids d' P = held_ids d P"
    unfolding held_ids_def using assms(1) by (metis (no_types, lifting) map_eq_conv)
  have "filter (\<lambda>x. \<not> absent d' x) P = filter (\<lambda>x. \<not> absent d x) P"
    by (rule filter_cong) (simp_all add: assms(4))
  then show "frames d' P = frames d P" "mvs d' P = mvs d P"
    using assms(2,3) by (simp_all add: frames_def mvs_def)
qed

lemma same_data_ok:
  assumes "same_data d d'" "\<forall>x \<in> set P. in_range d x"
  shows "data_ok d' P = data_ok d P"
proof -
  note f = same_data_fields [OF assms(1)]
  note n = same_data_nd [OF assms(1)]
  have r: "in_range d' x = in_range d x" for x by (rule same_data_range [OF assms(1)])
  have P: "x \<in> set P \<Longrightarrow> in_range d x" for x using assms(2) by blast
  have io: "node_in d' x = node_in d x" "node_out d' x = node_out d x" if "in_range d x" for x
    using n [OF that] by (simp_all add: node_in_def node_out_def)
  have "nodes_ok d' P = nodes_ok d P"
  proof -
    have "(if x \<in> set P then node_in d' x else node_out d' x) = (if x \<in> set P then node_in d x else node_out d x)"
      if "in_range d x" for x
      by (simp only: io [OF that])
    then show ?thesis unfolding nodes_ok_def r same_data_length [OF assms(1)] by blast
  qed
  moreover have fl: "filter (marked d') P = filter (marked d) P" "filter (outp d') P = filter (outp d) P"
    by (rule filter_cong; simp add: n P)+
  moreover have c: "held_ids d' P = held_ids d P" "frames d' P = frames d P" "mvs d' P = mvs d P"
    by (rule list_data_cong; simp add: n P)+
  moreover have "ids_ok d' P = ids_ok d P" unfolding ids_ok_def c f by (simp add: n P cong: ball_cong)
  moreover have "waiting_ok d' P = waiting_ok d P" unfolding waiting_ok_def f by (simp add: n P cong: conj_cong)
  moreover have "events k d' = events k d" for k by (simp add: events_def f)
  ultimately show ?thesis
    by (simp add: data_ok_def counts_ok_def room_ok_def log_ok_def deleted_ok_def deleted_frms_def deleted_mvs_def f)
qed

section \<open>Taking a node out of a list\<close>

lemma mset_removeAll:
  "distinct P \<Longrightarrow> x \<in> set P \<Longrightarrow> mset P = add_mset x (mset (removeAll x P))"
  by (metis distinct_remove1_removeAll mset_remove1 insert_DiffM set_mset_mset)

lemma filter_removeAll_length:
  assumes "distinct P" "x \<in> set P"
  shows "length (filter f P) = length (filter f (removeAll x P)) + (if f x then 1 else 0)"
proof -
  have "size (filter_mset f (mset P)) = size (filter_mset f (mset (removeAll x P))) + (if f x then 1 else 0)"
    by (subst mset_removeAll [OF assms]) simp
  then show ?thesis by (simp flip: mset_filter)
qed

lemma map_filter_removeAll:
  assumes "distinct P" "x \<in> set P"
  shows "mset (map g (filter f P)) = mset (map g (filter f (removeAll x P))) + (if f x then {#g x#} else {#})"
  unfolding mset_map mset_filter by (subst mset_removeAll [OF assms]) simp

lemma held_ids_alt: "held_ids d P = map (\<lambda>x. nd_tPicID (nd d x)) (filter (\<lambda>x. 0 \<le> nd_tPicID (nd d x)) P)"
  by (simp add: held_ids_def filter_map o_def)

lemma ids_bound:
  assumes "ids_ok d P" "x \<in> set P" "0 \<le> nd_tPicID (nd d x)"
  shows "nat (nd_tPicID (nd d x)) < AL_MAX_REF"
proof -
  have "nd_tPicID (nd d x) \<in># mset (held_ids d P)" using assms(2,3) by (auto simp: held_ids_def)
  then have "nd_tPicID (nd d x) \<in># mset (map int [0..<AL_MAX_REF])"
    using assms(1) by (metis ids_ok_def union_iff)
  then show ?thesis by auto
qed

lemma ids_distinct:
  assumes "ids_ok d P"
  shows "distinct (take (dp_FreePicIdCnt d) (dp_FreePicIDs d) @ held_ids d P)"
proof -
  have "mset (take (dp_FreePicIdCnt d) (dp_FreePicIDs d) @ held_ids d P) = mset (map int [0..<AL_MAX_REF])"
    using assms by (simp add: ids_ok_def)
  then show ?thesis by (rule mset_eq_imp_distinct_iff [THEN iffD2]) (simp add: distinct_map)
qed

lemma ids_unique:
  assumes "ids_ok d P" "distinct P" "x \<in> set P" "y \<in> set P" "x \<noteq> y" "0 \<le> nd_tPicID (nd d x)"
  shows "nd_tPicID (nd d x) \<noteq> nd_tPicID (nd d y)"
proof
  assume eq: "nd_tPicID (nd d x) = nd_tPicID (nd d y)"
  let ?Q = "filter (\<lambda>x. 0 \<le> nd_tPicID (nd d x)) P"
  have "inj_on (\<lambda>x. nd_tPicID (nd d x)) (set ?Q)"
    using ids_distinct [OF assms(1)] by (simp add: held_ids_alt distinct_map)
  then show False using assms eq by (auto dest: inj_onD)
qed

lemma ids_sizes:
  assumes "ids_ok d P"
  shows "dp_FreePicIdCnt d + length (held_ids d P) = AL_MAX_REF"
proof -
  have "size (mset (take (dp_FreePicIdCnt d) (dp_FreePicIDs d)) + mset (held_ids d P)) = AL_MAX_REF"
    using assms by (simp only: ids_ok_def) simp
  then show ?thesis using assms by (simp add: ids_ok_def)
qed

lemma ids_free_bound:
  assumes "ids_ok d P" "i \<in> set (take (dp_FreePicIdCnt d) (dp_FreePicIDs d))"
  shows "0 \<le> i" "nat i < AL_MAX_REF"
proof -
  have "i \<in># mset (take (dp_FreePicIdCnt d) (dp_FreePicIDs d)) + mset (held_ids d P)" using assms(2) by simp
  then have "i \<in># mset (map int [0..<AL_MAX_REF])" using assms(1) by (simp only: ids_ok_def)
  then show "0 \<le> i" "nat i < AL_MAX_REF" by auto
qed

text \<open>The fields of the nodes in \<open>A\<close> and the state that removal and identifiers leave alone.\<close>

definition keeps :: "index set \<Rightarrow> AL_TDpb \<Rightarrow> AL_TDpb \<Rightarrow> bool" where
  "keeps A d d' \<longleftrightarrow> (\<forall>y \<in> A. nd_tNodeID (nd d' y) = nd_tNodeID (nd d y) \<and> nd_tFrameID (nd d' y) = nd_tFrameID (nd d y)
       \<and> nd_tMvID (nd d' y) = nd_tMvID (nd d y) \<and> nd_iFramePOC (nd d' y) = nd_iFramePOC (nd d y)
       \<and> nd_slice_pic_order_cnt_lsb (nd d' y) = nd_slice_pic_order_cnt_lsb (nd d y)
       \<and> nd_eMarkingFlag (nd d' y) = nd_eMarkingFlag (nd d y) \<and> outp d' y = outp d y
       \<and> absent d' y = absent d y \<and> nd_bIsReset (nd d' y) = nd_bIsReset (nd d y)
       \<and> nd_uPicLatency (nd d' y) = nd_uPicLatency (nd d y))
     \<and> dp_DispFifo d' = dp_DispFifo d \<and> dp_log d' = dp_log d \<and> dp_uNumRef d' = dp_uNumRef d
     \<and> dp_eMode d' = dp_eMode d \<and> dp_tCurRefNodeID d' = dp_tCurRefNodeID d"

definition keeps_deleted :: "AL_TDpb \<Rightarrow> AL_TDpb \<Rightarrow> bool" where
  "keeps_deleted d d' \<longleftrightarrow> dp_pDeletedFrmIDLst d' = dp_pDeletedFrmIDLst d \<and> dp_pDeletedMvIDLst d' = dp_pDeletedMvIDLst d
     \<and> dp_iDeletedFrmLstHead d' = dp_iDeletedFrmLstHead d \<and> dp_iDeletedFrmLstTail d' = dp_iDeletedFrmLstTail d
     \<and> dp_iDeletedMvLstHead d' = dp_iDeletedMvLstHead d \<and> dp_iDeletedMvLstTail d' = dp_iDeletedMvLstTail d
     \<and> dp_iNumDeletedPic d' = dp_iNumDeletedPic d"

lemma keeps_trans: "keeps A a b \<Longrightarrow> keeps A b c \<Longrightarrow> keeps A a c"
  by (simp add: keeps_def)

lemma keeps_deleted_trans: "keeps_deleted a b \<Longrightarrow> keeps_deleted b c \<Longrightarrow> keeps_deleted a c"
  by (simp add: keeps_deleted_def)

lemma keeps_mono: "keeps A d d' \<Longrightarrow> B \<subseteq> A \<Longrightarrow> keeps B d d'"
  by (auto simp: keeps_def)

lemma keeps_refl [simp]: "keeps A d d" "keeps_deleted d d"
  by (simp_all add: keeps_def keeps_deleted_def)

lemma keepsD:
  assumes "keeps A d d'" "y \<in> A"
  shows "nd_tFrameID (nd d' y) = nd_tFrameID (nd d y)" "nd_tMvID (nd d' y) = nd_tMvID (nd d y)"
    "nd_iFramePOC (nd d' y) = nd_iFramePOC (nd d y)"
    "nd_slice_pic_order_cnt_lsb (nd d' y) = nd_slice_pic_order_cnt_lsb (nd d y)"
    "marked d' y = marked d y" "outp d' y = outp d y" "absent d' y = absent d y"
    "nd_tNodeID (nd d' y) = nd_tNodeID (nd d y)" "nd_bIsReset (nd d' y) = nd_bIsReset (nd d y)"
  using assms by (simp_all add: keeps_def marked_def)

lemma keeps_filters:
  assumes "keeps A d d'" "set P \<subseteq> A"
  shows "filter (marked d') P = filter (marked d) P" "filter (outp d') P = filter (outp d) P"
    "frames d' P = frames d P" "mvs d' P = mvs d P"
proof -
  have A: "x \<in> set P \<Longrightarrow> x \<in> A" for x using assms(2) by blast
  note k = keepsD [OF assms(1) A]
  show "filter (marked d') P = filter (marked d) P" by (rule filter_cong) (simp_all add: k)
  show "filter (outp d') P = filter (outp d) P" by (rule filter_cong) (simp_all add: k)
  have "filter (\<lambda>x. \<not> absent d' x) P = filter (\<lambda>x. \<not> absent d x) P" by (rule filter_cong) (simp_all add: k)
  then show "frames d' P = frames d P" "mvs d' P = mvs d P" by (simp_all add: frames_def mvs_def k)
qed

lemma same_data_keeps:
  assumes "same_data d d'" "\<forall>x \<in> A. in_range d x"
  shows "keeps A d d'" "keeps_deleted d d'"
proof -
  note f = same_data_fields [OF assms(1)]
  have A: "x \<in> A \<Longrightarrow> in_range d x" for x using assms(2) by blast
  note n = nolink_fields [OF same_data_node [OF assms(1) A]]
  have "dp_eMode d' = dp_eMode d"
    using assms(1) by (auto simp: same_data_def nohead_def dest: arg_cong [where f = dp_eMode])
  then show "keeps A d d'" unfolding keeps_def f by (simp add: n outp_def absent_def)
  show "keeps_deleted d d'" by (simp add: keeps_deleted_def f)
qed

section \<open>Picture identifiers\<close>

definition pics_ok :: "AL_TDpb \<Rightarrow> index list \<Rightarrow> bool" where
  "pics_ok d P \<longleftrightarrow> nodes_ok d P \<and> counts_ok d P \<and> ids_ok d P \<and> waiting_ok d P"

definition same_links :: "AL_TDpb \<Rightarrow> AL_TDpb \<Rightarrow> bool" where
  "same_links d d' \<longleftrightarrow> same_poc d d' \<and> same_lsb d d' \<and> same_dec d d'"

lemma same_links_lists: "same_links d d' \<Longrightarrow> lists_ok d' P L D = lists_ok d P L D"
  unfolding same_links_def lists_ok_def using same_poc_list same_lsb_list same_dec_list by metis

lemma same_links_trans: "same_links a b \<Longrightarrow> same_links b c \<Longrightarrow> same_links a c"
  unfolding same_links_def using same_trans by blast

lemma same_links_refl [simp]: "same_links d d"
  by (simp add: same_links_def)

lemma held_ids_cong:
  "(\<And>x. x \<in> set P \<Longrightarrow> nd_tPicID (nd d' x) = nd_tPicID (nd d x)) \<Longrightarrow> held_ids d' P = held_ids d P"
  unfolding held_ids_def by (metis (no_types, lifting) map_eq_conv)

lemma held_ids_split:
  assumes "distinct P" "x \<in> set P"
  shows "mset (held_ids d P) = mset (held_ids d (removeAll x P))
    + (if 0 \<le> nd_tPicID (nd d x) then {#nd_tPicID (nd d x)#} else {#})"
  unfolding held_ids_alt by (rule map_filter_removeAll [OF assms])

text \<open>Giving an identifier to a node that has none.\<close>

lemma pop_bind_ok:
  assumes "ids_ok d P" "distinct P" "x \<in> set P" "in_range d x" "\<forall>y \<in> set P. 0 \<le> y"
    "nd_tPicID (nd d x) = AL_BAD_INDEX" "0 < dp_FreePicIdCnt d" "f = nd_tFrameID (nd d x)" "m = nd_tMvID (nd d x)"
  shows "\<exists>i d2. pop_pic_id d = Some (i, d\<lparr>dp_FreePicIdCnt := dp_FreePicIdCnt d - 1\<rparr>) \<and> 0 \<le> i \<and> nat i < AL_MAX_REF
    \<and> bind_pic_id (set_nd (d\<lparr>dp_FreePicIdCnt := dp_FreePicIdCnt d - 1\<rparr>) x (\<lambda>n. n\<lparr>nd_tPicID := i\<rparr>)) i x f m = Some d2
    \<and> d2 = (set_nd d x (\<lambda>n. n\<lparr>nd_tPicID := i\<rparr>))\<lparr>dp_FreePicIdCnt := dp_FreePicIdCnt d - 1,
        dp_PicId2NodeId := (dp_PicId2NodeId d)[nat i := x], dp_PicId2FrmId := (dp_PicId2FrmId d)[nat i := f],
        dp_PicId2MvId := (dp_PicId2MvId d)[nat i := m]\<rparr>
    \<and> ids_ok d2 P"
proof -
  let ?c = "dp_FreePicIdCnt d - 1" and ?Q = "removeAll x P"
  let ?i = "dp_FreePicIDs d ! ?c"
  have ids: "dp_FreePicIdCnt d \<le> AL_MAX_REF" "length (dp_FreePicIDs d) = AL_MAX_REF" "length (dp_PicId2NodeId d) = AL_MAX_REF"
    "length (dp_PicId2FrmId d) = AL_MAX_REF" "length (dp_PicId2MvId d) = AL_MAX_REF"
    "mset (take (dp_FreePicIdCnt d) (dp_FreePicIDs d)) + mset (held_ids d P) = mset (map int [0..<AL_MAX_REF])"
    using assms(1) by (simp_all add: ids_ok_def)
  have tk: "take (dp_FreePicIdCnt d) (dp_FreePicIDs d) = take ?c (dp_FreePicIDs d) @ [?i]"
    using ids(1,2) assms(7) by (simp flip: take_Suc_conv_app_nth)
  have i: "0 \<le> ?i" "nat ?i < AL_MAX_REF"
    using ids_free_bound [OF assms(1)] tk by (metis in_set_conv_decomp)+
  have dc: "dec8 (dp_FreePicIdCnt d) = ?c" using assms(7) ids(1) by (simp add: dec8_def AL_MAX_REF_def mod_if)
  note di = ids_distinct [OF assms(1), unfolded tk]
  let ?d1 = "d\<lparr>dp_FreePicIdCnt := ?c\<rparr>"
  let ?d2 = "(set_nd d x (\<lambda>n. n\<lparr>nd_tPicID := ?i\<rparr>))\<lparr>dp_FreePicIdCnt := ?c,
        dp_PicId2NodeId := (dp_PicId2NodeId d)[nat ?i := x], dp_PicId2FrmId := (dp_PicId2FrmId d)[nat ?i := f],
        dp_PicId2MvId := (dp_PicId2MvId d)[nat ?i := m]\<rparr>"
  have "nat (int ?c) < length (dp_FreePicIDs d)" using assms(7) ids(1,2) by linarith
  then have "arr_get (dp_FreePicIDs d) (int ?c) = Some ?i" by (simp only: arr_get_def nat_int) simp
  then have pop: "pop_pic_id d = Some (?i, ?d1)" by (simp add: pop_pic_id_def Let_def dc del: of_nat_diff)
  have bind: "bind_pic_id (set_nd ?d1 x (\<lambda>n. n\<lparr>nd_tPicID := ?i\<rparr>)) ?i x f m = Some ?d2"
    using i ids by (simp add: bind_pic_id_def) (simp add: set_nd_def)
  have pic: "nd_tPicID (nd ?d2 y) = (if y = x then ?i else nd_tPicID (nd d y))" if "y \<in> set P" for y
    using assms(4,5) that by simp
  have hQ: "held_ids ?d2 ?Q = held_ids d ?Q" by (rule held_ids_cong) (use assms(4,5) in auto)
  have h: "mset (held_ids ?d2 P) = add_mset ?i (mset (held_ids d P))"
    using held_ids_split [OF assms(2,3), of ?d2] held_ids_split [OF assms(2,3), of d] hQ pic [OF assms(3)] i assms(6)
    by simp
  have free: "j \<noteq> ?i" if "j \<in> set (take ?c (dp_FreePicIDs d))" for j using di that by auto
  have held: "nd_tPicID (nd d y) \<noteq> ?i" if "y \<in> set P" "0 \<le> nd_tPicID (nd d y)" for y
  proof -
    have "nd_tPicID (nd d y) \<in> set (held_ids d P)" using that by (auto simp: held_ids_def)
    then show ?thesis using di by auto
  qed
  have tabs: "\<forall>j \<in> set (take (dp_FreePicIdCnt d) (dp_FreePicIDs d)). dp_PicId2NodeId d ! nat j = AL_BAD_INDEX"
    "\<forall>y \<in> set P. 0 \<le> nd_tPicID (nd d y) \<longrightarrow> dp_PicId2NodeId d ! nat (nd_tPicID (nd d y)) = y
          \<and> dp_PicId2FrmId d ! nat (nd_tPicID (nd d y)) = nd_tFrameID (nd d y)
          \<and> dp_PicId2MvId d ! nat (nd_tPicID (nd d y)) = nd_tMvID (nd d y)"
    using assms(1) by (simp_all add: ids_ok_def)
  have fb: "0 \<le> j" if "j \<in> set (take ?c (dp_FreePicIDs d))" for j
    using ids_free_bound(1) [OF assms(1), of j] that tk by simp
  have "dp_PicId2NodeId ?d2 ! nat j = AL_BAD_INDEX" if "j \<in> set (take ?c (dp_FreePicIDs d))" for j
    using tabs(1) that tk free [OF that] fb [OF that] i(1) by (simp add: nth_list_update_neq nat_eq_iff)
  moreover have "dp_PicId2NodeId ?d2 ! nat (nd_tPicID (nd ?d2 y)) = y
      \<and> dp_PicId2FrmId ?d2 ! nat (nd_tPicID (nd ?d2 y)) = nd_tFrameID (nd ?d2 y)
      \<and> dp_PicId2MvId ?d2 ! nat (nd_tPicID (nd ?d2 y)) = nd_tMvID (nd ?d2 y)"
    if "y \<in> set P" "0 \<le> nd_tPicID (nd ?d2 y)" for y
  proof (cases "y = x")
    case True
    then show ?thesis using i ids assms(3-5,8,9) by simp
  next
    case False
    then have v: "0 \<le> nd_tPicID (nd d y)" using that pic by simp
    then have "nat (nd_tPicID (nd d y)) \<noteq> nat ?i" using held [OF that(1) v] i(1) by (simp add: nat_eq_iff)
    then show ?thesis using tabs(2) that(1) v False pic [OF that(1)] assms(4,5) by (simp add: nth_list_update_neq)
  qed
  moreover have "mset (take ?c (dp_FreePicIDs d)) + mset (held_ids ?d2 P) = mset (map int [0..<AL_MAX_REF])"
    using ids(6) h tk by simp
  ultimately have "ids_ok ?d2 P"
    unfolding ids_ok_def using ids(1-5) by simp
  then show ?thesis using pop bind i by blast
qed

lemma ids_ok_cong:
  assumes "dp_FreePicIdCnt d' = dp_FreePicIdCnt d" "dp_FreePicIDs d' = dp_FreePicIDs d"
    "dp_PicId2NodeId d' = dp_PicId2NodeId d" "dp_PicId2FrmId d' = dp_PicId2FrmId d"
    "dp_PicId2MvId d' = dp_PicId2MvId d"
    "\<And>y. y \<in> set P \<Longrightarrow> nd_tPicID (nd d' y) = nd_tPicID (nd d y) \<and> nd_tFrameID (nd d' y) = nd_tFrameID (nd d y)
      \<and> nd_tMvID (nd d' y) = nd_tMvID (nd d y)"
  shows "ids_ok d' P = ids_ok d P"
proof -
  have "held_ids d' P = held_ids d P" by (rule held_ids_cong) (simp add: assms(6))
  then show ?thesis unfolding ids_ok_def assms(1-5) by (simp add: assms(6) cong: ball_cong)
qed

text \<open>Taking the identifier of a node back.\<close>

lemma release_pic_ok:
  assumes "ids_ok d P" "distinct P" "x \<in> set P"
  shows "\<exists>m fr c. AL_Dpb_sReleasePicID d (nd_tPicID (nd d x))
      = Some (d\<lparr>dp_PicId2NodeId := m, dp_FreePicIDs := fr, dp_FreePicIdCnt := c\<rparr>)
    \<and> ids_ok (d\<lparr>dp_PicId2NodeId := m, dp_FreePicIDs := fr, dp_FreePicIdCnt := c\<rparr>) (removeAll x P)"
proof (cases "0 \<le> nd_tPicID (nd d x)")
  case False
  then have "held_ids d (removeAll x P) = filter (\<lambda>i. 0 \<le> i) (map (\<lambda>x. nd_tPicID (nd d x)) (removeAll x P))"
    by (simp add: held_ids_def)
  moreover have "mset (held_ids d (removeAll x P)) = mset (held_ids d P)"
    using held_ids_split [OF assms(2,3), of d] False by simp
  ultimately have "ids_ok d (removeAll x P)" using assms(1) by (simp add: ids_ok_def)
  then have "ids_ok (d\<lparr>dp_PicId2NodeId := dp_PicId2NodeId d, dp_FreePicIDs := dp_FreePicIDs d,
      dp_FreePicIdCnt := dp_FreePicIdCnt d\<rparr>) (removeAll x P)" by simp
  moreover have "AL_Dpb_sReleasePicID d (nd_tPicID (nd d x)) = Some (d\<lparr>dp_PicId2NodeId := dp_PicId2NodeId d,
      dp_FreePicIDs := dp_FreePicIDs d, dp_FreePicIdCnt := dp_FreePicIdCnt d\<rparr>)"
    using False by (simp add: AL_Dpb_sReleasePicID_def)
  ultimately show ?thesis by blast
next
  case True
  let ?i = "nd_tPicID (nd d x)" and ?c = "dp_FreePicIdCnt d" and ?Q = "removeAll x P"
  have ids: "length (dp_FreePicIDs d) = AL_MAX_REF" "length (dp_PicId2NodeId d) = AL_MAX_REF"
    "length (dp_PicId2FrmId d) = AL_MAX_REF" "length (dp_PicId2MvId d) = AL_MAX_REF"
    "mset (take ?c (dp_FreePicIDs d)) + mset (held_ids d P) = mset (map int [0..<AL_MAX_REF])"
    "\<forall>i \<in> set (take ?c (dp_FreePicIDs d)). dp_PicId2NodeId d ! nat i = AL_BAD_INDEX"
    using assms(1) by (simp_all add: ids_ok_def)
  have i: "nat ?i < AL_MAX_REF" by (rule ids_bound [OF assms(1,3) True])
  have split: "mset (held_ids d P) = add_mset ?i (mset (held_ids d ?Q))"
    using held_ids_split [OF assms(2,3), of d] True by simp
  have c: "?c < AL_MAX_REF"
    using ids_sizes [OF assms(1)] arg_cong [OF split, of size] by simp
  let ?d = "d\<lparr>dp_PicId2NodeId := (dp_PicId2NodeId d)[nat ?i := AL_BAD_INDEX],
    dp_FreePicIDs := (dp_FreePicIDs d)[?c := ?i], dp_FreePicIdCnt := Suc ?c\<rparr>"
  have inc: "inc8 ?c = Suc ?c" using c by (simp add: inc8_def AL_MAX_REF_def)
  have "AL_Dpb_sReleasePicID d ?i = Some ?d"
    using True i c ids(1,2) inc by (simp add: AL_Dpb_sReleasePicID_def)
  moreover have "ids_ok ?d ?Q"
  proof -
    have tk: "take (Suc ?c) ((dp_FreePicIDs d)[?c := ?i]) = take ?c (dp_FreePicIDs d) @ [?i]"
      using c ids(1) by (simp add: take_Suc_conv_app_nth)
    have "held_ids ?d ?Q = held_ids d ?Q" by (rule held_ids_cong) simp
    then have m: "mset (take (Suc ?c) ((dp_FreePicIDs d)[?c := ?i])) + mset (held_ids ?d ?Q) = mset (map int [0..<AL_MAX_REF])"
      unfolding tk using ids(5) split by simp
    have f: "(dp_PicId2NodeId d)[nat ?i := AL_BAD_INDEX] ! nat j = AL_BAD_INDEX"
      if "j \<in> set (take ?c (dp_FreePicIDs d))" for j
      using ids(6) that i ids(2) by (cases "nat j = nat ?i") (simp_all add: nth_list_update)
    have h: "(dp_PicId2NodeId d)[nat ?i := AL_BAD_INDEX] ! nat (nd_tPicID (nd d y)) = dp_PicId2NodeId d ! nat (nd_tPicID (nd d y))"
      if "y \<in> set ?Q" "0 \<le> nd_tPicID (nd d y)" for y
      using ids_unique [OF assms(1,2,3), of y] that True by (simp add: nth_list_update_neq nat_eq_iff)
    have "\<forall>i \<in> set (take (Suc ?c) ((dp_FreePicIDs d)[?c := ?i])). (dp_PicId2NodeId d)[nat ?i := AL_BAD_INDEX] ! nat i = AL_BAD_INDEX"
      unfolding tk using f i ids(2) by simp
    then show ?thesis
      using assms(1) m c ids h unfolding ids_ok_def by simp
  qed
  ultimately show ?thesis by blast
qed

text \<open>A node outside the lists can be changed at will.\<close>

lemma lists_ok_outside:
  assumes "lists_ok d Q L D" "x \<notin> set Q" "in_range d x"
  shows "lists_ok (set_nd d x g) Q L D"
  using assms unfolding lists_ok_def poc_list_def lsb_list_def dec_list_def
  by (simp add: fld_set_nd dll_nx_outside dll_pv_outside)

lemma nodes_ok_range: "nodes_ok d P \<Longrightarrow> in_range d x \<longleftrightarrow> 0 \<le> x \<and> nat x < AL_REF_MNGR_MAX_BUF_SIZE"
  by (simp add: nodes_ok_def in_range_def)

end
