(* ===== verification/Dpb_Remove.thy ===== *)
theory Dpb_Remove
  imports Dpb_Inv
begin

text \<open>
  Removal from the decoded picture buffer (\<open>AL_Dpb_Remove\<close> of \<open>DPB.c\<close>): the picture leaves the
  lists, its identifier goes to a waiting picture, its buffers to the rings of the deleted ones.
\<close>

section \<open>The node and its identifier\<close>

lemma nodes_okI:
  assumes "length (dp_Nodes d) = AL_REF_MNGR_MAX_BUF_SIZE"
    "\<And>y. in_range d y \<Longrightarrow> y \<in> set P \<Longrightarrow> node_in d y" "\<And>y. in_range d y \<Longrightarrow> y \<notin> set P \<Longrightarrow> node_out d y"
  shows "nodes_ok d P"
  using assms by (simp add: nodes_ok_def)

lemma dec8_Suc: "0 < n \<Longrightarrow> n < 256 \<Longrightarrow> dec8 n = n - 1"
  by (cases n) (simp_all add: dec8_def mod_if)

lemma inc8_less: "n < 255 \<Longrightarrow> inc8 n = Suc n"
  by (simp add: inc8_def)

lemma reset_node_fields [simp]:
  "nd_tNodeID (reset_node n) = AL_BAD_INDEX" "nd_bIsReset (reset_node n)" "nd_tPicID (reset_node n) = nd_tPicID n"
  "nd_eMarkingFlag (reset_node n) = UNUSED_FOR_REF" "\<not> nd_bPicOutputFlag (reset_node n)"
  "\<not> nd_bNonExisting (reset_node n)"
  by (simp_all add: reset_node_def)

lemma reset_waiting_nd [simp]:
  "in_range (AL_Dpb_sResetWaiting d) x = in_range d x" "nd (AL_Dpb_sResetWaiting d) x = nd d x"
  by (simp_all add: AL_Dpb_sResetWaiting_def)

text \<open>What \<open>AL_Dpb_Remove\<close> does between the lists and the waiting picture.\<close>

definition drop_node :: "AL_TDpb \<Rightarrow> index \<Rightarrow> AL_TDpb option" where
  "drop_node d x = do {
     let n = nd d x;
     d \<leftarrow> AL_Dpb_sReleasePicID d (nd_tPicID n);
     let d = (if nd_eMarkingFlag n \<noteq> UNUSED_FOR_REF then d\<lparr>dp_uCountRef := dec8 (dp_uCountRef d)\<rparr> else d);
     let d = d\<lparr>dp_uCountPic := dec8 (dp_uCountPic d)\<rparr>;
     AL_Dpb_sResetNodeInfo d x }"

lemma nodes_okD:
  assumes "nodes_ok d P" "in_range d x"
  shows "x \<in> set P \<Longrightarrow> node_in d x" "x \<notin> set P \<Longrightarrow> node_out d x"
  using assms unfolding nodes_ok_def by presburger+

lemma drop_node_ok:
  assumes ok: "pics_ok d P" and P: "distinct P" "x \<in> set P" "length P < 256" "\<forall>y \<in> set P. in_range d y"
    and out: "\<not> outp d x" and lists: "lists_ok d (removeAll x P) L D"
  shows "\<exists>d'. drop_node d x = Some d' \<and> pics_ok d' (removeAll x P) \<and> keeps (set (removeAll x P)) d d'
    \<and> keeps_deleted d d' \<and> lists_ok d' (removeAll x P) L D"
proof -
  let ?Q = "removeAll x P"
  have n: "nodes_ok d P" "counts_ok d P" "ids_ok d P" "waiting_ok d P" using ok by (simp_all add: pics_ok_def)
  obtain m fr c where rel: "AL_Dpb_sReleasePicID d (nd_tPicID (nd d x))
      = Some (d\<lparr>dp_PicId2NodeId := m, dp_FreePicIDs := fr, dp_FreePicIdCnt := c\<rparr>)"
    and ids: "ids_ok (d\<lparr>dp_PicId2NodeId := m, dp_FreePicIDs := fr, dp_FreePicIdCnt := c\<rparr>) ?Q"
    using release_pic_ok [OF n(3) P(1,2)] by blast
  let ?d1 = "d\<lparr>dp_PicId2NodeId := m, dp_FreePicIDs := fr, dp_FreePicIdCnt := c\<rparr>"
  let ?d2 = "?d1\<lparr>dp_uCountRef := length (filter (marked d) ?Q), dp_uCountPic := length ?Q\<rparr>"
  have x: "in_range d x" "0 \<le> x" using P(2,4) by (auto simp: in_range_def)
  have nodeid: "nd_tNodeID (nd d x) = x"
    using nodes_okD(1) [OF n(1) x(1) P(2)] by (simp add: node_in_def)
  have lP: "length P = Suc (length ?Q)" using filter_removeAll_length [OF P(1,2), of "\<lambda>_. True"] by simp
  have lM: "length (filter (marked d) P) = length (filter (marked d) ?Q) + (if marked d x then 1 else 0)"
    by (rule filter_removeAll_length [OF P(1,2)])
  have lM2: "length (filter (marked d) P) < 256" using P(3) le_less_trans [OF length_filter_le] by blast
  have cp: "dec8 (dp_uCountPic d) = length ?Q"
    using n(2) lP P(3) by (simp add: counts_ok_def dec8_Suc)
  have cr: "(if marked d x then dec8 (dp_uCountRef d) else dp_uCountRef d) = length (filter (marked d) ?Q)"
    using n(2) lM lM2 by (cases "marked d x") (simp_all add: counts_ok_def dec8_Suc)
  let ?w = "if x = dp_tNodeWaitingID d then AL_Dpb_sResetWaiting ?d2 else ?d2"
  let ?d3 = "set_nd ?w x reset_node"
  have rx: "in_range ?w y = in_range d y" for y by simp
  have "drop_node d x = AL_Dpb_sResetNodeInfo ?d2 x"
  proof (cases "marked d x")
    case True
    then have "dec8 (dp_uCountRef d) = length (filter (marked d) ?Q)" using cr by simp
    then show ?thesis using True by (simp add: drop_node_def rel Let_def cp flip: marked_def)
  next
    case False
    then have "?d1 = ?d1\<lparr>dp_uCountRef := length (filter (marked d) ?Q)\<rparr>" using cr by simp
    then show ?thesis using False by (simp add: drop_node_def rel Let_def cp flip: marked_def)
  qed
  moreover have "upd_node ?w x reset_node = Some ?d3" using rx x(1) by (intro upd_node_Some) simp
  then have "AL_Dpb_sResetNodeInfo ?d2 x = Some ?d3"
    using x(1) nodeid by (simp only: AL_Dpb_sResetNodeInfo_def Let_def node_Some in_range_upd nd_upd bind.bind_lunit) simp
  ultimately have "drop_node d x = Some ?d3" by simp
  moreover have nd3: "nd ?d3 y = (if y = x then reset_node (nd d x) else nd d y)" if "0 \<le> y" for y
    using x(1) that rx by (simp add: AL_Dpb_sResetWaiting_def)
  have f3: "marked ?d3 y = marked d y" "outp ?d3 y = outp d y" "absent ?d3 y = absent d y" if "0 \<le> y" "y \<noteq> x" for y
    using that by (simp_all add: marked_def outp_def absent_def nd3)
  have q0: "0 \<le> y" "y \<noteq> x" if "y \<in> set ?Q" for y using that P(4) by (auto simp: in_range_def)
  have k: "keeps (set ?Q) d ?d3" "keeps_deleted d ?d3"
    using q0 by (simp_all add: keeps_def keeps_deleted_def nd3 outp_def absent_def AL_Dpb_sResetWaiting_def)
  moreover have "pics_ok ?d3 ?Q"
    unfolding pics_ok_def
  proof (intro conjI)
    have out3: "node_out ?d3 x" by (simp add: node_out_def nd3 x(2) marked_def outp_def)
    have o: "node_out ?d3 y = node_out d y" "node_in ?d3 y = node_in d y" if "0 \<le> y" "y \<noteq> x" for y
      using f3 [OF that] nd3 that by (simp_all add: node_out_def node_in_def)
    show "nodes_ok ?d3 ?Q"
    proof (rule nodes_okI)
      show "length (dp_Nodes ?d3) = AL_REF_MNGR_MAX_BUF_SIZE"
        using n(1) by (simp add: nodes_ok_def AL_Dpb_sResetWaiting_def)
      fix y assume "in_range ?d3 y"
      then have y: "in_range d y" "0 \<le> y" using rx by (simp, simp add: in_range_def)
      show "node_in ?d3 y" if "y \<in> set ?Q" using nodes_okD(1) [OF n(1) y(1)] o(2) [OF y(2)] that by simp
      show "node_out ?d3 y" if "y \<notin> set ?Q"
        using nodes_okD(2) [OF n(1) y(1)] o(1) [OF y(2)] that out3 by (cases "y = x") simp_all
    qed
    have "length (filter (outp d) P) = length (filter (outp d) ?Q)"
      using filter_removeAll_length [OF P(1,2), of "outp d"] out by simp
    then show "counts_ok ?d3 ?Q"
      using keeps_filters(1,2) [OF k(1) subset_refl] n(2)
      by (simp add: counts_ok_def AL_Dpb_sResetWaiting_def)
    show "ids_ok ?d3 ?Q"
      by (subst ids_ok_cong [OF _ _ _ _ _ _, where d = ?d1]) (use ids q0 nd3 in \<open>auto simp: AL_Dpb_sResetWaiting_def\<close>)
    show "waiting_ok ?d3 ?Q"
    proof (cases "x = dp_tNodeWaitingID d")
      case True
      then show ?thesis by (simp add: waiting_ok_def AL_Dpb_sResetWaiting_def)
    next
      case False
      have "0 \<le> dp_tNodeWaitingID d" if "dp_bPicWaiting d"
        using n(4) that P(4) by (auto simp: waiting_ok_def in_range_def)
      then show ?thesis using False n(4) nd3 f3(3) by (auto simp: waiting_ok_def)
    qed
  qed
  moreover have "lists_ok ?d3 ?Q L D"
  proof (rule lists_ok_outside)
    have "same_links d ?w"
      by (simp add: same_links_def same_poc_def same_lsb_def same_dec_def AL_Dpb_sResetWaiting_def)
    then show "lists_ok ?w ?Q L D" using lists same_links_lists by blast
  qed (simp_all add: rx x)
  ultimately show ?thesis by blast
qed

text \<open>States with the same nodes.\<close>

lemma same_nd:
  assumes "\<And>x. nd d' x = nd d x"
  shows "marked d' = marked d" "outp d' = outp d" "absent d' = absent d" "node_in d' = node_in d"
    "node_out d' = node_out d" "frames d' = frames d" "mvs d' = mvs d" "held_ids d' = held_ids d"
proof -
  show *: "marked d' = marked d" "outp d' = outp d" "absent d' = absent d"
    by (simp_all add: fun_eq_iff marked_def outp_def absent_def assms)
  show "node_in d' = node_in d" "node_out d' = node_out d" "frames d' = frames d" "mvs d' = mvs d"
    "held_ids d' = held_ids d"
    by (simp_all add: fun_eq_iff node_in_def node_out_def frames_def mvs_def held_ids_def * assms)
qed

section \<open>The waiting picture\<close>

text \<open>A change of the fields that the lists and the counters do not read.\<close>

lemma pics_ok_keep:
  assumes "pics_ok d P" "length (dp_Nodes d') = length (dp_Nodes d)"
    "\<And>y. in_range d y \<Longrightarrow> node_in d y \<Longrightarrow> node_in d' y" "\<And>y. in_range d y \<Longrightarrow> node_out d y \<Longrightarrow> node_out d' y"
    "filter (marked d') P = filter (marked d) P" "filter (outp d') P = filter (outp d) P"
    "dp_uCountPic d' = dp_uCountPic d" "dp_uCountRef d' = dp_uCountRef d" "dp_uNumOutputPic d' = dp_uNumOutputPic d"
    "ids_ok d' P" "waiting_ok d' P"
  shows "pics_ok d' P"
proof -
  have n: "nodes_ok d P" "counts_ok d P" using assms(1) by (simp_all add: pics_ok_def)
  have "nodes_ok d' P"
  proof (rule nodes_okI)
    show "length (dp_Nodes d') = AL_REF_MNGR_MAX_BUF_SIZE" using n(1) assms(2) by (simp add: nodes_ok_def)
    fix y assume "in_range d' y"
    then have y: "in_range d y" using assms(2) by (simp add: in_range_def)
    show "node_in d' y" if "y \<in> set P" using nodes_okD(1) [OF n(1) y that] assms(3) y by blast
    show "node_out d' y" if "y \<notin> set P" using nodes_okD(2) [OF n(1) y that] assms(4) y by blast
  qed
  moreover have "counts_ok d' P" using n(2) assms(5-9) by (simp add: counts_ok_def)
  ultimately show ?thesis using assms(10,11) by (simp add: pics_ok_def)
qed

lemma fill_waiting_ok:
  assumes ok: "pics_ok d P" and P: "distinct P" "\<forall>y \<in> set P. in_range d y"
    and w: "dp_bPicWaiting d" "0 < dp_FreePicIdCnt d"
  shows "\<exists>d'. AL_Dpb_sFillWaitingPicture d = Some d' \<and> pics_ok d' P \<and> keeps (set P) d d' \<and> keeps_deleted d d'
    \<and> same_links d d'"
proof -
  let ?w = "dp_tNodeWaitingID d"
  have n: "ids_ok d P" "waiting_ok d P" using ok by (simp_all add: pics_ok_def)
  have x: "?w \<in> set P" "\<not> absent d ?w" "nd_tPicID (nd d ?w) = AL_BAD_INDEX"
    "dp_tFrmWaitingID d = nd_tFrameID (nd d ?w)" "dp_tMvWaitingID d = nd_tMvID (nd d ?w)"
    using n(2) w(1) by (simp_all add: waiting_ok_def)
  have r: "in_range d ?w" "0 \<le> ?w" and P0: "\<forall>y \<in> set P. 0 \<le> y" using x(1) P(2) by (auto simp: in_range_def)
  let ?d1 = "d\<lparr>dp_FreePicIdCnt := dp_FreePicIdCnt d - 1\<rparr>"
  obtain i d2 where pop: "pop_pic_id d = Some (i, ?d1)" and i: "0 \<le> i"
    and bind: "bind_pic_id (set_nd ?d1 ?w (\<lambda>n. n\<lparr>nd_tPicID := i\<rparr>)) i ?w (dp_tFrmWaitingID d) (dp_tMvWaitingID d) = Some d2"
    and d2: "d2 = (set_nd d ?w (\<lambda>n. n\<lparr>nd_tPicID := i\<rparr>))\<lparr>dp_FreePicIdCnt := dp_FreePicIdCnt d - 1,
        dp_PicId2NodeId := (dp_PicId2NodeId d)[nat i := ?w], dp_PicId2FrmId := (dp_PicId2FrmId d)[nat i := dp_tFrmWaitingID d],
        dp_PicId2MvId := (dp_PicId2MvId d)[nat i := dp_tMvWaitingID d]\<rparr>"
    and ids: "ids_ok d2 P"
    using pop_bind_ok [OF n(1) P(1) x(1) r(1) P0 x(3) w(2) x(4,5)] by blast
  let ?d3 = "AL_Dpb_sResetWaiting d2"
  have nx: "\<not> nd_bNonExisting (nd d ?w)" using x(2) by (simp add: absent_def)
  have "AL_Dpb_sFillWaitingPicture d = Some ?d3"
    using nx pop r(1) i bind by (simp add: AL_Dpb_sFillWaitingPicture_def)
  moreover have nd3: "nd ?d3 y = (if y = ?w then (nd d ?w)\<lparr>nd_tPicID := i\<rparr> else nd d y)" if "0 \<le> y" for y
    using that r(1) by (simp add: d2)
  have k: "keeps (set P) d ?d3" "keeps_deleted d ?d3"
    using P0 nd3 by (simp_all add: keeps_def keeps_deleted_def outp_def absent_def AL_Dpb_sResetWaiting_def d2)
  moreover have "same_links d ?d3"
    unfolding same_links_def same_poc_def same_lsb_def same_dec_def
    by (simp add: AL_Dpb_sResetWaiting_def d2 fld_set_nd_same)
  moreover have "pics_ok ?d3 P"
  proof (rule pics_ok_keep [OF ok])
    show "length (dp_Nodes ?d3) = length (dp_Nodes d)" by (simp add: d2 AL_Dpb_sResetWaiting_def)
    show "node_in ?d3 y" if "in_range d y" "node_in d y" for y
      using that nd3 [of y] x(2) by (auto simp: in_range_def node_in_def absent_def outp_def)
    show "node_out ?d3 y" if "in_range d y" "node_out d y" for y
      using that nd3 [of y] by (auto simp: in_range_def node_out_def marked_def outp_def)
    show "filter (marked ?d3) P = filter (marked d) P" "filter (outp ?d3) P = filter (outp d) P"
      by (rule keeps_filters(1,2) [OF k(1) subset_refl])+
    show "ids_ok ?d3 P" by (subst ids_ok_cong [where d = d2]) (simp_all add: AL_Dpb_sResetWaiting_def ids)
    show "waiting_ok ?d3 P" by (simp add: waiting_ok_def AL_Dpb_sResetWaiting_def)
  qed (simp_all add: d2 AL_Dpb_sResetWaiting_def)
  ultimately show ?thesis by blast
qed

section \<open>The rings of the deleted pictures\<close>

lemma push_deleted_ok:
  assumes "deleted_ok d" "dp_iNumDeletedPic d < AL_REF_MNGR_MAX_BUF_SIZE"
  shows "\<exists>fr mv ft mt. push_deleted d f m = Some (d\<lparr>dp_pDeletedFrmIDLst := fr, dp_pDeletedMvIDLst := mv,
      dp_iDeletedFrmLstTail := ft, dp_iDeletedMvLstTail := mt, dp_iNumDeletedPic := Suc (dp_iNumDeletedPic d)\<rparr>)
    \<and> deleted_ok (d\<lparr>dp_pDeletedFrmIDLst := fr, dp_pDeletedMvIDLst := mv,
      dp_iDeletedFrmLstTail := ft, dp_iDeletedMvLstTail := mt, dp_iNumDeletedPic := Suc (dp_iNumDeletedPic d)\<rparr>)
    \<and> ring fr (dp_iDeletedFrmLstHead d) (Suc (dp_iNumDeletedPic d)) = deleted_frms d @ [f]
    \<and> ring mv (dp_iDeletedMvLstHead d) (Suc (dp_iNumDeletedPic d)) = deleted_mvs d @ [m]"
proof -
  let ?F = "dp_pDeletedFrmIDLst d" and ?M = "dp_pDeletedMvIDLst d" and ?n = "dp_iNumDeletedPic d"
  let ?ft = "dp_iDeletedFrmLstTail d" and ?mt = "dp_iDeletedMvLstTail d"
  have ok: "length ?F = AL_REFMNGR_MAX_POOL_SIZE" "length ?M = AL_REF_MNGR_MAX_BUF_SIZE"
    "?ft = (dp_iDeletedFrmLstHead d + ?n) mod AL_REFMNGR_MAX_POOL_SIZE"
    "?mt = (dp_iDeletedMvLstHead d + ?n) mod AL_REF_MNGR_MAX_BUF_SIZE"
    using assms(1) by (simp_all add: deleted_ok_def)
  have sz: "AL_REF_MNGR_MAX_BUF_SIZE < AL_REFMNGR_MAX_POOL_SIZE" "0 < AL_REF_MNGR_MAX_BUF_SIZE"
    by (simp_all add: AL_REFMNGR_MAX_POOL_SIZE_def AL_REF_MNGR_MAX_BUF_SIZE_def AL_MAX_REF_def)
  have t: "?ft < length ?F" "?mt < length ?M"
    unfolding ok(1,2) unfolding ok(3,4) using sz by (auto intro: mod_less_divisor)
  have "ring (?F[?ft := f]) (dp_iDeletedFrmLstHead d) (Suc ?n) = deleted_frms d @ [f]"
    "ring (?M[?mt := m]) (dp_iDeletedMvLstHead d) (Suc ?n) = deleted_mvs d @ [m]"
    using ring_snoc [of ?n ?F "dp_iDeletedFrmLstHead d" f] ring_snoc [of ?n ?M "dp_iDeletedMvLstHead d" m]
      ok assms(2) sz by (simp_all add: deleted_frms_def deleted_mvs_def)
  moreover have "push_deleted d f m = Some (d\<lparr>dp_pDeletedFrmIDLst := ?F[?ft := f], dp_pDeletedMvIDLst := ?M[?mt := m],
      dp_iDeletedFrmLstTail := (?ft + 1) mod AL_REFMNGR_MAX_POOL_SIZE,
      dp_iDeletedMvLstTail := (?mt + 1) mod AL_REF_MNGR_MAX_BUF_SIZE, dp_iNumDeletedPic := Suc ?n\<rparr>)"
    using t by (simp add: push_deleted_def)
  moreover have "deleted_ok (d\<lparr>dp_pDeletedFrmIDLst := ?F[?ft := f], dp_pDeletedMvIDLst := ?M[?mt := m],
      dp_iDeletedFrmLstTail := (?ft + 1) mod AL_REFMNGR_MAX_POOL_SIZE,
      dp_iDeletedMvLstTail := (?mt + 1) mod AL_REF_MNGR_MAX_BUF_SIZE, dp_iNumDeletedPic := Suc ?n\<rparr>)"
    using assms(1) unfolding deleted_ok_def by (simp add: mod_Suc_eq)
  ultimately show ?thesis by blast
qed

section \<open>Removal\<close>

lemma lists_dist:
  assumes "lists_ok d P L D"
  shows "distinct P" "distinct L" "distinct D" "set L = set P" "set D = set P" "\<forall>y \<in> set P. in_range d y"
  using assms by (auto simp: lists_ok_def poc_list_def lsb_list_def dec_list_def dest: dll_distinct)

text \<open>The links go first, and nothing else.\<close>

lemma unlink_ok:
  assumes "lists_ok d P L D" "x \<in> set P"
  shows "\<exists>d'. (do { d \<leftarrow> RemoveFromPocList d x; d \<leftarrow> RemoveFromPocLsbList d x; RemoveFromDecOrderList d x }) = Some d'
    \<and> same_data d d' \<and> lists_ok d' (removeAll x P) (removeAll x L) (removeAll x D)"
proof -
  note ds = lists_dist [OF assms(1)]
  have ok: "poc_list d P" "lsb_list d L" "dec_list d D" using assms(1) by (simp_all add: lists_ok_def)
  obtain d1 where d1: "RemoveFromPocList d x = Some d1" "poc_list d1 (removeAll x P)" "same_data d d1" "same_lsb d d1" "same_dec d d1"
    using pocl.remove_in [OF ok(1) assms(2)] by blast
  have "lsb_list d1 L" "dec_list d1 D" using ok(2,3) same_lsb_list [OF d1(4)] same_dec_list [OF d1(5)] by blast+
  then obtain d2 where d2: "RemoveFromPocLsbList d1 x = Some d2" "lsb_list d2 (removeAll x L)" "same_data d1 d2" "same_poc d1 d2" "same_dec d1 d2"
    using lsbl.remove_in [of d1 L x] ds(4) assms(2) by blast
  have "dec_list d2 D" using \<open>dec_list d1 D\<close> same_dec_list [OF d2(5)] by blast
  then obtain d3 where d3: "RemoveFromDecOrderList d2 x = Some d3" "dec_list d3 (removeAll x D)" "same_data d2 d3" "same_poc d2 d3" "same_lsb d2 d3"
    using decl.remove_in [of d2 D x] ds(5) assms(2) by blast
  have "poc_list d3 (removeAll x P)" using d1(2) same_poc_list [OF d2(4)] same_poc_list [OF d3(4)] by blast
  moreover have "lsb_list d3 (removeAll x L)" using d2(2) same_lsb_list [OF d3(5)] by blast
  ultimately have "lists_ok d3 (removeAll x P) (removeAll x L) (removeAll x D)"
    using d3(2) ds(4,5) unfolding lists_ok_def by (metis set_removeAll)
  then show ?thesis using d1(1,3) d2(1,3) d3(1,3) by (auto intro: same_data_trans)
qed

lemma AL_Dpb_Remove_alt:
  assumes "in_range d x"
    "(do { d \<leftarrow> RemoveFromPocList d x; d \<leftarrow> RemoveFromPocLsbList d x; RemoveFromDecOrderList d x }) = Some d3" "same_data d d3"
  shows "AL_Dpb_Remove d x = do {
    d \<leftarrow> drop_node d3 x;
    d \<leftarrow> (if dp_bPicWaiting d \<and> 0 < dp_FreePicIdCnt d then AL_Dpb_sFillWaitingPicture d else Some d);
    d \<leftarrow> (if absent d3 x then Some d else push_deleted d (nd_tFrameID (nd d3 x)) (nd_tMvID (nd d3 x)));
    Some (nd_tFrameID (nd d3 x), d) }"
proof -
  have x: "0 \<le> x" using assms(1) by (simp add: in_range_def)
  note nf = nolink_fields [OF same_data_node [OF assms(3,1)]]
  obtain d1 d2 where rm: "RemoveFromPocList d x = Some d1" "RemoveFromPocLsbList d1 x = Some d2"
    "RemoveFromDecOrderList d2 x = Some d3"
    using assms(2) by (auto split: bind_splits)
  show ?thesis
    using x by (simp add: AL_Dpb_Remove_def node_Some [OF assms(1)] rm drop_node_def Let_def nf absent_def bind_assoc cong: if_cong)
qed

lemma sorted_removeAll:
  assumes "sorted (map f xs)" "\<And>y. y \<in> set (removeAll x xs) \<Longrightarrow> g y = f y"
  shows "sorted (map g (removeAll x xs))"
proof -
  have "map g (removeAll x xs) = map f (removeAll x xs)" using assms(2) by (rule map_cong [OF refl])
  then show ?thesis by (simp only:) (simp add: removeAll_filter_not_eq sorted_filter [OF assms(1)])
qed

lemma data_ok_pics: "data_ok d P \<longleftrightarrow> pics_ok d P \<and> deleted_ok d \<and> df_ok (dp_DispFifo d) \<and> room_ok d P \<and> log_ok d P"
  by (auto simp: data_ok_def pics_ok_def)

lemma keeps_deleted_frms:
  assumes "keeps_deleted d d'"
  shows "deleted_frms d' = deleted_frms d" "deleted_mvs d' = deleted_mvs d" "deleted_ok d' = deleted_ok d"
  using assms by (simp_all add: keeps_deleted_def deleted_frms_def deleted_mvs_def deleted_ok_def)

text \<open>What is left to a picture that lost its node: its buffers are with the deleted ones.\<close>

definition parted :: "index option \<Rightarrow> index \<Rightarrow> AL_TDpb \<Rightarrow> AL_TDpb \<Rightarrow> bool" where
  "parted f m d d' \<longleftrightarrow> deleted_frms d' = deleted_frms d @ (case f of None \<Rightarrow> [] | Some f \<Rightarrow> [f])
     \<and> deleted_mvs d' = deleted_mvs d @ (case f of None \<Rightarrow> [] | Some _ \<Rightarrow> [m])
     \<and> deleted_ok d' \<and> dp_iNumDeletedPic d' = dp_iNumDeletedPic d + (case f of None \<Rightarrow> 0 | Some _ \<Rightarrow> 1)"

lemma push_deleted_data:
  assumes "pics_ok d Q" "deleted_ok d" "dp_iNumDeletedPic d < AL_REF_MNGR_MAX_BUF_SIZE" "lists_ok d Q L D"
  shows "\<exists>d'. push_deleted d f m = Some d' \<and> pics_ok d' Q \<and> lists_ok d' Q L D \<and> keeps A d d'
    \<and> parted (Some f) m d d'"
proof -
  obtain fr mv ft mt where push: "push_deleted d f m = Some (d\<lparr>dp_pDeletedFrmIDLst := fr, dp_pDeletedMvIDLst := mv,
      dp_iDeletedFrmLstTail := ft, dp_iDeletedMvLstTail := mt, dp_iNumDeletedPic := Suc (dp_iNumDeletedPic d)\<rparr>)"
    and ok: "deleted_ok (d\<lparr>dp_pDeletedFrmIDLst := fr, dp_pDeletedMvIDLst := mv,
      dp_iDeletedFrmLstTail := ft, dp_iDeletedMvLstTail := mt, dp_iNumDeletedPic := Suc (dp_iNumDeletedPic d)\<rparr>)"
    and r: "ring fr (dp_iDeletedFrmLstHead d) (Suc (dp_iNumDeletedPic d)) = deleted_frms d @ [f]"
      "ring mv (dp_iDeletedMvLstHead d) (Suc (dp_iNumDeletedPic d)) = deleted_mvs d @ [m]"
    using push_deleted_ok [OF assms(2,3)] by blast
  let ?d = "d\<lparr>dp_pDeletedFrmIDLst := fr, dp_pDeletedMvIDLst := mv,
      dp_iDeletedFrmLstTail := ft, dp_iDeletedMvLstTail := mt, dp_iNumDeletedPic := Suc (dp_iNumDeletedPic d)\<rparr>"
  have "same_links d ?d" by (simp add: same_links_def same_poc_def same_lsb_def same_dec_def)
  then have "lists_ok ?d Q L D" using same_links_lists assms(4) by blast
  moreover have sn: "nd ?d y = nd d y" for y by simp
  note f = same_nd [of ?d d, OF sn]
  have "pics_ok ?d Q"
  proof (rule pics_ok_keep [OF assms(1)])
    show "ids_ok ?d Q" by (subst ids_ok_cong [where d = d]) (use assms(1) in \<open>simp_all add: pics_ok_def\<close>)
    show "waiting_ok ?d Q" using assms(1) by (simp add: pics_ok_def waiting_ok_def f)
  qed (simp_all add: f)
  moreover have "keeps A d ?d" by (simp add: keeps_def f)
  moreover have "parted (Some f) m d ?d"
    using ok r by (simp add: parted_def deleted_frms_def deleted_mvs_def)
  ultimately show ?thesis using push by blast
qed

lemma AL_Dpb_Remove_ok:
  assumes ok: "dpb_ok d P L D" and x: "x \<in> set P" "\<not> outp d x"
  shows "\<exists>d'. AL_Dpb_Remove d x = Some (nd_tFrameID (nd d x), d')
    \<and> dpb_ok d' (removeAll x P) (removeAll x L) (removeAll x D) \<and> keeps (set (removeAll x P)) d d'
    \<and> parted (if absent d x then None else Some (nd_tFrameID (nd d x))) (nd_tMvID (nd d x)) d d'"
proof -
  let ?Q = "removeAll x P" and ?L = "removeAll x L" and ?D = "removeAll x D"
  have ls: "lists_ok d P L D" "ordered d P L" and dt: "data_ok d P" using ok by (simp_all add: dpb_ok_def)
  note ds = lists_dist [OF ls(1)]
  have r: "in_range d x" using ds(6) x(1) by blast
  have lP: "length P = Suc (length ?Q)" using filter_removeAll_length [OF ds(1) x(1), of "\<lambda>_. True"] by simp
  have room: "dp_iNumDeletedPic d + length P \<le> AL_REF_MNGR_MAX_BUF_SIZE"
    using dt by (simp add: data_ok_def room_ok_def)
  have P256: "length P < 256" using room by (simp add: AL_REF_MNGR_MAX_BUF_SIZE_def)
  obtain d3 where un: "(do { d \<leftarrow> RemoveFromPocList d x; d \<leftarrow> RemoveFromPocLsbList d x; RemoveFromDecOrderList d x }) = Some d3"
    and s3: "same_data d d3" and l3: "lists_ok d3 ?Q ?L ?D"
    using unlink_ok [OF ls(1) x(1)] by blast
  have dt3: "data_ok d3 P" using same_data_ok [OF s3 ds(6)] dt by simp
  note n3 = same_data_nd [OF s3 r]
  have k3: "keeps (set P) d d3" "keeps_deleted d d3" using same_data_keeps [OF s3 ds(6)] by blast+
  have rng3: "\<forall>y \<in> set P. in_range d3 y" using ds(6) same_data_range [OF s3] by simp
  obtain d4 where d4: "drop_node d3 x = Some d4" "pics_ok d4 ?Q" "keeps (set ?Q) d3 d4" "keeps_deleted d3 d4" "lists_ok d4 ?Q ?L ?D"
    using drop_node_ok [of d3 P x ?L ?D] dt3 ds(1) x P256 rng3 l3 n3(9) by (auto simp: data_ok_pics)
  have rng4: "\<forall>y \<in> set ?Q. in_range d4 y" using lists_dist(6) [OF d4(5)] .
  obtain d5 where d5: "(if dp_bPicWaiting d4 \<and> 0 < dp_FreePicIdCnt d4 then AL_Dpb_sFillWaitingPicture d4 else Some d4) = Some d5"
      "pics_ok d5 ?Q" "keeps (set ?Q) d4 d5" "keeps_deleted d4 d5" "lists_ok d5 ?Q ?L ?D"
  proof (cases "dp_bPicWaiting d4 \<and> 0 < dp_FreePicIdCnt d4")
    case True
    then obtain d' where "AL_Dpb_sFillWaitingPicture d4 = Some d'" "pics_ok d' ?Q" "keeps (set ?Q) d4 d'"
      "keeps_deleted d4 d'" "same_links d4 d'"
      using fill_waiting_ok [OF d4(2) _ rng4] ds(1) by (meson distinct_removeAll)
    then show ?thesis using that [of d'] True d4(5) same_links_lists [of d4 d'] by simp
  next
    case False
    then have e: "(if dp_bPicWaiting d4 \<and> 0 < dp_FreePicIdCnt d4 then AL_Dpb_sFillWaitingPicture d4 else Some d4) = Some d4"
      by (rule if_not_P)
    show ?thesis by (rule that [OF e]) (use d4 in simp_all)
  qed
  have k5: "keeps (set ?Q) d d5" "keeps_deleted d d5"
    using keeps_trans [OF keeps_trans [OF keeps_mono [OF k3(1)] d4(3)] d5(3)]
      keeps_deleted_trans [OF keeps_deleted_trans [OF k3(2) d4(4)] d5(4)] by auto
  have del: "deleted_ok d5" "dp_iNumDeletedPic d5 = dp_iNumDeletedPic d"
    using keeps_deleted_frms(3) [OF k5(2)] k5(2) dt by (simp_all add: data_ok_def keeps_deleted_def)
  let ?f = "nd_tFrameID (nd d x)" and ?m = "nd_tMvID (nd d x)"
  let ?r = "if absent d x then None else Some ?f"
  obtain d6 where d6: "(if absent d3 x then Some d5 else push_deleted d5 (nd_tFrameID (nd d3 x)) (nd_tMvID (nd d3 x))) = Some d6"
      "pics_ok d6 ?Q" "lists_ok d6 ?Q ?L ?D" "keeps (set ?Q) d5 d6" "parted ?r ?m d5 d6"
  proof (cases "absent d x")
    case True
    then show ?thesis using that [of d5] d5 n3(10) del by (simp add: parted_def)
  next
    case False
    have "dp_iNumDeletedPic d5 < AL_REF_MNGR_MAX_BUF_SIZE" using del(2) room lP by simp
    then show ?thesis using push_deleted_data [OF d5(2) del(1) _ d5(5)] that False n3 by auto
  qed
  have k6: "keeps (set ?Q) d d6" by (rule keeps_trans [OF k5(1) d6(4)])
  have pd: "parted ?r ?m d d6"
    using d6(5) keeps_deleted_frms [OF k5(2)] del(2) by (simp add: parted_def)
  note kd = keepsD [OF k6]
  have "ordered d6 ?Q ?L"
    unfolding ordered_def
  proof (intro conjI sorted_removeAll)
    show "sorted (map (\<lambda>x. nd_iFramePOC (nd d x)) P)" "sorted (map (\<lambda>x. nd_slice_pic_order_cnt_lsb (nd d x)) L)"
      using ls(2) by (simp_all add: ordered_def)
  qed (use kd ds(4) in auto)
  moreover have "room_ok d6 ?Q"
  proof -
    have "length (filter (outp d) ?Q) \<le> length (filter (outp d) P)"
      using filter_removeAll_length [OF ds(1) x(1), of "outp d"] by simp
    moreover have "dp_iNumDeletedPic d6 + length ?Q \<le> dp_iNumDeletedPic d + length P"
      using pd lP by (simp add: parted_def split: option.splits)
    ultimately show ?thesis
      using dt k6 keeps_filters(2) [OF k6 subset_refl] by (simp add: data_ok_def room_ok_def keeps_def)
  qed
  moreover have "log_ok d6 ?Q"
  proof -
    have "mset (frames d P) = mset (frames d ?Q) + (if absent d x then {#} else {#?f#})"
      "mset (mvs d P) = mset (mvs d ?Q) + (if absent d x then {#} else {#?m#})"
      unfolding frames_def mvs_def by (subst map_filter_removeAll [OF ds(1) x(1)], simp)+
    moreover have "mset (deleted_frms d6) = mset (deleted_frms d) + (if absent d x then {#} else {#?f#})"
      "mset (deleted_mvs d6) = mset (deleted_mvs d) + (if absent d x then {#} else {#?m#})"
      using pd by (auto simp: parted_def)
    moreover have "events k d6 = events k d" for k using k6 by (simp add: events_def keeps_def)
    moreover have "dp_DispFifo d6 = dp_DispFifo d" using k6 by (simp add: keeps_def)
    ultimately show ?thesis
      using dt keeps_filters(3,4) [OF k6 subset_refl] by (simp add: data_ok_def log_ok_def)
  qed
  ultimately have "dpb_ok d6 ?Q ?L ?D"
    using d6(2,3) pd dt k6 by (simp add: dpb_ok_def data_ok_pics parted_def keeps_def)
  moreover have "AL_Dpb_Remove d x = Some (?f, d6)"
    using d4(1) d5(1) d6(1) n3(2) by (simp add: AL_Dpb_Remove_alt [OF r un s3])
  ultimately show ?thesis using k6 pd by blast
qed

end
