(* ===== verification/Dpb_Display.thy ===== *)
theory Dpb_Display
  imports Dpb_Remove
begin

text \<open>
  Output from the decoded picture buffer (\<open>AL_Dpb_Display\<close>, \<open>DispFifo\<close> of \<open>DPB.c\<close>): displaying a
  picture first displays the ones before it in picture order that are still to be output.
\<close>

section \<open>The display queue\<close>

lemma pool_sizes [simp]:
  "AL_REF_MNGR_MAX_BUF_SIZE < AL_REFMNGR_MAX_POOL_SIZE" "0 < AL_REF_MNGR_MAX_BUF_SIZE" "0 < AL_REFMNGR_MAX_POOL_SIZE"
  "AL_REFMNGR_MAX_POOL_SIZE < 128"
  by (simp_all add: AL_REFMNGR_MAX_POOL_SIZE_def AL_REF_MNGR_MAX_BUF_SIZE_def AL_MAX_REF_def)

lemma DispFifo_Queue_ok:
  assumes ok: "df_ok f" and room: "df_uNumFrm f < AL_REFMNGR_MAX_POOL_SIZE"
    and x: "0 \<le> x" "nat x < AL_REFMNGR_MAX_POOL_SIZE"
  shows "\<exists>f'. DispFifo_Queue f x l = Some f' \<and> df_ok f' \<and> df_frms f' = df_frms f @ [x]
    \<and> df_uNumFrm f' = Suc (df_uNumFrm f)"
proof -
  let ?h = "df_tFirstFrmID f" and ?n = "df_uNumFrm f" and ?xs = "df_pFrmIDs f"
  let ?s = "(?h + ?n) mod AL_REFMNGR_MAX_POOL_SIZE"
  have lens: "length ?xs = AL_REFMNGR_MAX_POOL_SIZE" "length (df_pPicLatency f) = AL_REFMNGR_MAX_POOL_SIZE"
    "?h < AL_REFMNGR_MAX_POOL_SIZE"
    using ok by (simp_all add: df_ok_def)
  have small: "?h + ?n < 256" using lens(3) room pool_sizes(4) by linarith
  have s: "?s < AL_REFMNGR_MAX_POOL_SIZE" by (simp add: mod_less_divisor)
  let ?f = "f\<lparr>df_pFrmIDs := ?xs[?s := x], df_pPicLatency := (df_pPicLatency f)[nat x := l], df_uNumFrm := Suc ?n\<rparr>"
  have i: "inc8 ?n = Suc ?n" using room pool_sizes(4) by (intro inc8_less) linarith
  have "arr_set ?xs (int ?s) x = Some (?xs[?s := x])" using s lens(1) by (simp add: arr_set_def)
  then have "DispFifo_Queue f x l = Some ?f"
    using x lens(2) small i by (simp add: DispFifo_Queue_def Let_def)
  moreover have fr: "df_frms ?f = df_frms f @ [x]"
    using ring_snoc [of ?n ?xs ?h x] lens(1) room by (simp add: df_frms_def)
  moreover have "df_ok ?f"
  proof -
    have "?xs[?s := x] ! ((?h + j) mod AL_REFMNGR_MAX_POOL_SIZE) = AL_BAD_INDEX"
      if "Suc ?n \<le> j" "j < AL_REFMNGR_MAX_POOL_SIZE" for j
    proof -
      have "(?h + j) mod AL_REFMNGR_MAX_POOL_SIZE \<noteq> ?s"
        using ring_slots_inj [of j AL_REFMNGR_MAX_POOL_SIZE ?n ?h] that room by auto
      then show ?thesis using ok that by (simp add: df_ok_def)
    qed
    moreover have "\<forall>y \<in> set (df_frms ?f). 0 \<le> y \<and> nat y < AL_REFMNGR_MAX_POOL_SIZE"
      unfolding fr using ok x by (auto simp: df_ok_def)
    ultimately show ?thesis using ok room by (simp add: df_ok_def)
  qed
  ultimately show ?thesis by (intro exI [of _ ?f]) simp
qed

section \<open>One picture\<close>

text \<open>The pictures of \<open>xs\<close> were displayed, in this order, if they were to be.\<close>

definition to_show :: "AL_TDpb \<Rightarrow> index list \<Rightarrow> index list" where
  "to_show d xs = map (\<lambda>x. nd_tFrameID (nd d x)) (filter (outp d) xs)"

definition display_calls :: "index list \<Rightarrow> dpb_event list" where
  "display_calls fs = concat (map (\<lambda>f. [IncrementFrmBuf f, OutputFrmBuf f]) fs)"

definition displayed :: "index list \<Rightarrow> index list \<Rightarrow> AL_TDpb \<Rightarrow> AL_TDpb \<Rightarrow> bool" where
  "displayed P xs d d' \<longleftrightarrow>
     (\<forall>y \<in> set P. nd_tFrameID (nd d' y) = nd_tFrameID (nd d y) \<and> nd_tMvID (nd d' y) = nd_tMvID (nd d y)
       \<and> nd_iFramePOC (nd d' y) = nd_iFramePOC (nd d y)
       \<and> nd_slice_pic_order_cnt_lsb (nd d' y) = nd_slice_pic_order_cnt_lsb (nd d y)
       \<and> nd_tPicID (nd d' y) = nd_tPicID (nd d y) \<and> nd_uPicLatency (nd d' y) = nd_uPicLatency (nd d y)
       \<and> nd_bIsReset (nd d' y) = nd_bIsReset (nd d y) \<and> nd_tNodeID (nd d' y) = nd_tNodeID (nd d y)
       \<and> marked d' y = marked d y \<and> absent d' y = absent d y \<and> outp d' y = (outp d y \<and> y \<notin> set xs))
     \<and> dp_log d' = dp_log d @ display_calls (to_show d xs)
     \<and> df_frms (dp_DispFifo d') = df_frms (dp_DispFifo d) @ to_show d xs
     \<and> df_uNumFrm (dp_DispFifo d') = df_uNumFrm (dp_DispFifo d) + length (to_show d xs)
     \<and> dp_uNumOutputPic d = dp_uNumOutputPic d' + length (to_show d xs)
     \<and> keeps_deleted d d' \<and> same_links d d' \<and> dp_uNumRef d' = dp_uNumRef d \<and> dp_eMode d' = dp_eMode d
     \<and> dp_uCountRef d' = dp_uCountRef d \<and> dp_uCountPic d' = dp_uCountPic d
     \<and> dp_bPicWaiting d' = dp_bPicWaiting d \<and> dp_FreePicIdCnt d' = dp_FreePicIdCnt d"

lemma to_show_simps [simp]:
  "to_show d [] = []" "to_show d (x # xs) = (if outp d x then nd_tFrameID (nd d x) # to_show d xs else to_show d xs)"
  "to_show d (xs @ ys) = to_show d xs @ to_show d ys"
  by (simp_all add: to_show_def)

lemma display_calls_simps [simp]:
  "display_calls [] = []" "display_calls (f # fs) = IncrementFrmBuf f # OutputFrmBuf f # display_calls fs"
  "display_calls (fs @ gs) = display_calls fs @ display_calls gs"
  by (simp_all add: display_calls_def)

lemma displayed_Nil [simp]: "displayed P [] d d"
  by (simp add: displayed_def)

lemma displayed_none: "\<not> outp d x \<Longrightarrow> displayed P [x] d d"
  by (auto simp: displayed_def)

lemma displayed_append:
  assumes "displayed P xs a b" "displayed P ys b c" "set ys \<subseteq> set P" "set xs \<inter> set ys = {}"
  shows "displayed P (xs @ ys) a c"
proof -
  have "filter (outp b) ys = filter (outp a) ys"
    using assms(1,3,4) by (intro filter_cong) (auto simp: displayed_def)
  moreover have "map (\<lambda>x. nd_tFrameID (nd b x)) (filter (outp a) ys) = map (\<lambda>x. nd_tFrameID (nd a x)) (filter (outp a) ys)"
    using assms(1,3) by (intro map_cong) (auto simp: displayed_def)
  ultimately have s: "to_show b ys = to_show a ys" by (simp add: to_show_def)
  have "keeps_deleted a c" "same_links a c"
    using assms(1,2) keeps_deleted_trans same_links_trans by (auto simp: displayed_def)
  then show ?thesis using assms(1,2) unfolding displayed_def s by auto
qed

lemma ordered_keep:
  assumes "ordered d P L" "set L = set P" "\<And>y. y \<in> set P \<Longrightarrow> nd_iFramePOC (nd d' y) = nd_iFramePOC (nd d y)
    \<and> nd_slice_pic_order_cnt_lsb (nd d' y) = nd_slice_pic_order_cnt_lsb (nd d y)"
  shows "ordered d' P L"
proof -
  have "map (\<lambda>x. nd_iFramePOC (nd d' x)) P = map (\<lambda>x. nd_iFramePOC (nd d x)) P"
    "map (\<lambda>x. nd_slice_pic_order_cnt_lsb (nd d' x)) L = map (\<lambda>x. nd_slice_pic_order_cnt_lsb (nd d x)) L"
    using assms(2,3) by simp_all
  then show ?thesis using assms(1) unfolding ordered_def by (simp only:)
qed

lemma events_append: "dp_log d' = dp_log d @ es \<Longrightarrow> events k d' = events k d @ concat (map k es)"
  by (simp add: events_def)

lemma display_node_ok:
  assumes ok: "dpb_ok d P L D" and x: "x \<in> set P"
  shows "\<exists>d'. display_node d x = Some d' \<and> dpb_ok d' P L D \<and> displayed P [x] d d'"
proof (cases "outp d x")
  case False
  have "in_range d x" using ok x lists_dist(6) by (auto simp: dpb_ok_def)
  then have "display_node d x = Some d" using False by (simp add: display_node_def outp_def)
  then show ?thesis using displayed_none [OF False] ok by blast
next
  case True
  have ls: "lists_ok d P L D" "ordered d P L" and dt: "data_ok d P" using ok by (simp_all add: dpb_ok_def)
  note ds = lists_dist [OF ls(1)]
  have n: "nodes_ok d P" "counts_ok d P" "ids_ok d P" "waiting_ok d P" "df_ok (dp_DispFifo d)" "room_ok d P" "log_ok d P" "deleted_ok d"
    using dt by (simp_all add: data_ok_def)
  have r: "in_range d x" "0 \<le> x" using ds(6) x by (auto simp: in_range_def)
  have P0: "0 \<le> y" if "y \<in> set P" for y using that ds(6) by (simp add: in_range_def)
  have ni: "node_in d x" by (rule nodes_okD(1) [OF n(1) r(1) x])
  then have ex: "\<not> absent d x" using True by (auto simp: node_in_def)
  let ?f = "nd_tFrameID (nd d x)"
  have fr: "0 \<le> ?f" "nat ?f < AL_REFMNGR_MAX_POOL_SIZE" using ni ex by (simp_all add: node_in_def)
  have split: "length (filter (outp d) P) = Suc (length (filter (outp d) (removeAll x P)))"
    using filter_removeAll_length [OF ds(1) x, of "outp d"] True by simp
  then have "df_uNumFrm (dp_DispFifo d) < AL_REFMNGR_MAX_POOL_SIZE" using n(6) by (simp add: room_ok_def)
  then obtain f' where q: "DispFifo_Queue (dp_DispFifo d) ?f (nd_uPicLatency (nd d x)) = Some f'" "df_ok f'"
    "df_frms f' = df_frms (dp_DispFifo d) @ [?f]" "df_uNumFrm f' = Suc (df_uNumFrm (dp_DispFifo d))"
    using DispFifo_Queue_ok [OF n(5) _ fr] by blast
  let ?d1 = "call (OutputFrmBuf ?f) (call (IncrementFrmBuf ?f) (d\<lparr>dp_DispFifo := f'\<rparr>))\<lparr>dp_iLastDisplayedPOC := nd_iFramePOC (nd d x)\<rparr>"
  let ?d' = "(set_nd ?d1 x (\<lambda>n. n\<lparr>nd_bIsDisplayed := True, nd_bPicOutputFlag := False\<rparr>))
      \<lparr>dp_uNumOutputPic := length (filter (outp d) (removeAll x P))\<rparr>"
  have P256: "length P < 256"
    using lists_lengths(6) [OF ls(1)] n(1) by (simp add: nodes_ok_def AL_REF_MNGR_MAX_BUF_SIZE_def)
  have "length (filter (outp d) P) < 256" using P256 le_less_trans [OF length_filter_le] by blast
  then have dec: "dec8 (dp_uNumOutputPic d) = length (filter (outp d) (removeAll x P))"
    using n(2) split by (simp add: counts_ok_def dec8_Suc)
  have r1: "in_range ?d1 x" using r(1) by (simp add: call_def)
  have run: "display_node d x = Some ?d'"
    using True ex r(1) r1 q(1) dec
    by (simp add: display_node_def AL_Dpb_sAddToDisplayList_def absent_def outp_def) (simp add: call_def)
  have nd: "nd ?d' y = (if y = x then (nd d x)\<lparr>nd_bIsDisplayed := True, nd_bPicOutputFlag := False\<rparr> else nd d y)" if "0 \<le> y" for y
    using that r1 by (simp add: call_def)
  have fl: "marked ?d' y = marked d y" "absent ?d' y = absent d y" "outp ?d' y = (outp d y \<and> y \<noteq> x)" if "0 \<le> y" for y
    using nd [OF that] by (simp_all add: marked_def absent_def outp_def)
  have "same_links d ?d'"
    unfolding same_links_def same_poc_def same_lsb_def same_dec_def by (simp add: call_def fld_set_nd_same)
  then have ls': "lists_ok ?d' P L D" and sl: "same_links d ?d'" using ls(1) same_links_lists by blast+
  have dsp: "displayed P [x] d ?d'"
    unfolding displayed_def using nd fl P0 q(3,4) True n(2) split sl
    by (simp add: counts_ok_def keeps_deleted_def call_def)
  have pk: "nd_tPicID (nd ?d' y) = nd_tPicID (nd d y)" "nd_tFrameID (nd ?d' y) = nd_tFrameID (nd d y)"
    "nd_tMvID (nd ?d' y) = nd_tMvID (nd d y)" if "y \<in> set P" for y
    using nd [OF P0 [OF that]] by simp_all
  note lc = list_data_cong [OF pk fl(2) [OF P0], of P, simplified]
  have fo: "filter (outp ?d') P = filter (outp d) (removeAll x P)"
  proof -
    have "filter (outp ?d') P = filter (\<lambda>y. outp d y \<and> y \<noteq> x) P" by (rule filter_cong) (use fl(3) P0 in auto)
    also have "\<dots> = filter (outp d) (removeAll x P)" by (auto simp: removeAll_filter_not_eq intro!: filter_cong)
    finally show ?thesis .
  qed
  have "nodes_ok ?d' P"
  proof (rule nodes_okI)
    show "length (dp_Nodes ?d') = AL_REF_MNGR_MAX_BUF_SIZE" using n(1) by (simp add: nodes_ok_def call_def)
    fix y assume "in_range ?d' y"
    then have y: "in_range d y" "0 \<le> y" by (simp_all add: call_def in_range_def)
    show "node_in ?d' y" if "y \<in> set P"
      using nodes_okD(1) [OF n(1) y(1) that] fl(2,3) [OF y(2)] nd [OF y(2)] by (auto simp: node_in_def)
    show "node_out ?d' y" if "y \<notin> set P"
      using nodes_okD(2) [OF n(1) y(1) that] fl [OF y(2)] nd [OF y(2)] by (auto simp: node_out_def)
  qed
  moreover have "counts_ok ?d' P"
  proof -
    have "filter (marked ?d') P = filter (marked d) P" by (rule filter_cong) (use fl(1) P0 in auto)
    then show ?thesis using n(2) unfolding counts_ok_def fo by (simp add: call_def)
  qed
  moreover have "ids_ok ?d' P" by (subst ids_ok_cong [where d = d]) (use pk n(3) in \<open>simp_all add: call_def\<close>)
  moreover have "waiting_ok ?d' P"
    using n(4) pk fl(2) P0 by (auto simp: waiting_ok_def call_def)
  moreover have "deleted_ok ?d'" using n(8) by (simp add: deleted_ok_def call_def)
  moreover have "df_ok (dp_DispFifo ?d')" using q(2) by (simp add: call_def)
  moreover have "room_ok ?d' P"
    using n(6) q(4) split unfolding room_ok_def fo by (simp add: call_def)
  moreover have "log_ok ?d' P"
  proof -
    have "dp_log ?d' = dp_log d @ [IncrementFrmBuf ?f, OutputFrmBuf ?f]" by (simp add: call_def)
    note ev = events_append [OF this]
    show ?thesis using n(7) unfolding log_ok_def ev lc
      using q(3) by (simp add: call_def deleted_frms_def deleted_mvs_def)
  qed
  ultimately have "data_ok ?d' P" by (simp add: data_ok_def)
  moreover have "ordered ?d' P L"
    by (rule ordered_keep [OF ls(2) ds(4)]) (use nd P0 in simp)
  ultimately show ?thesis using run ls' dsp by (auto simp: dpb_ok_def)
qed

section \<open>All the pictures up to one\<close>

lemma foldM_one: "foldM f [x] s = f x s"
  by (cases "f x s") simp_all

lemma foldM_display:
  assumes "dpb_ok d P L D" "set xs \<subseteq> set P" "distinct xs"
  shows "\<exists>d'. foldM (\<lambda>x d. display_node d x) xs d = Some d' \<and> dpb_ok d' P L D \<and> displayed P xs d d'"
  using assms
proof (induction xs arbitrary: d)
  case (Cons x xs)
  obtain d1 where d1: "display_node d x = Some d1" "dpb_ok d1 P L D" "displayed P [x] d d1"
    using display_node_ok [OF Cons.prems(1), of x] Cons.prems(2) by auto
  obtain d2 where d2: "foldM (\<lambda>x d. display_node d x) xs d1 = Some d2" "dpb_ok d2 P L D" "displayed P xs d1 d2"
    using Cons.IH [OF d1(2)] Cons.prems(2,3) by auto
  have "displayed P ([x] @ xs) d d2"
    using Cons.prems(2,3) by (intro displayed_append [OF d1(3) d2(3)]) auto
  then show ?case using d1(1) d2(1,2) by simp
qed simp

text \<open>The links lead from a picture of the list to the next one.\<close>

lemma poc_list_links:
  assumes "poc_list d (as @ z # bs)"
  shows "nd_tNextPOCNodeID (nd d z) = hd_or bs AL_BAD_INDEX" "in_range d z" "0 \<le> z"
    "nd_tPrevPOCNodeID (nd d z) = last_or as AL_BAD_INDEX"
proof -
  have dl: "dll (fld nd_tNextPOCNodeID (dp_Nodes d)) (fld nd_tPrevPOCNodeID (dp_Nodes d)) (dp_tHeadPOCNodeID d) (as @ z # bs)"
    and z: "in_range d z"
    using assms by (simp_all add: poc_list_def)
  show "nd_tNextPOCNodeID (nd d z) = hd_or bs AL_BAD_INDEX" "nd_tPrevPOCNodeID (nd d z) = last_or as AL_BAD_INDEX"
    using dll_at(1,2) [OF dl] fld_nd [OF z] by metis+
  show "in_range d z" "0 \<le> z" using z by (simp_all add: in_range_def)
qed

lemma poc_list_head: "poc_list d P \<Longrightarrow> dp_tHeadPOCNodeID d = hd_or P AL_BAD_INDEX"
  unfolding poc_list_def using dll_head by blast

lemma display_loop_run:
  assumes "dpb_ok d P L D" "P = as @ zs @ x # ys" "length zs \<le> f" "\<forall>a \<in> set as. \<not> outp d a"
    and disp: "\<And>d z zs'. dpb_ok d P L D \<Longrightarrow> zs' @ [z] = [] \<or> (\<exists>us. P = zs' @ z # us) \<Longrightarrow> \<forall>a \<in> set zs'. \<not> outp d a \<Longrightarrow>
      outp d z \<Longrightarrow> disp d z = display_node d z"
  shows "display_loop disp f x (hd_or zs x) d = foldM (\<lambda>x d. display_node d x) zs d"
  using assms(1-4)
proof (induction zs arbitrary: as d f)
  case Nil
  then show ?case by (simp add: display_loop.simps)
next
  case (Cons z zs)
  obtain g where f: "f = Suc g" using Cons.prems(3) by (cases f) auto
  have ls: "lists_ok d P L D" using Cons.prems(1) by (simp add: dpb_ok_def)
  have dist: "distinct P" by (rule lists_dist(1) [OF ls])
  have zx: "z \<noteq> x" using dist Cons.prems(2) by auto
  have pl: "poc_list d (as @ z # (zs @ x # ys))" using ls Cons.prems(2) by (simp add: lists_ok_def)
  have nx: "nd_tNextPOCNodeID (nd d z) = hd_or zs x"
    using poc_list_links(1) [OF pl] by (cases zs) auto
  obtain d1 where d1: "display_node d z = Some d1" "dpb_ok d1 P L D" "displayed P [z] d d1"
    using display_node_ok [OF Cons.prems(1), of z] Cons.prems(2) by auto
  have "(if outp d z then disp d z else Some d) = Some d1"
  proof (cases "outp d z")
    case True
    then show ?thesis using disp [OF Cons.prems(1), of as z] Cons.prems(2,4) d1(1) by auto
  next
    case False
    then show ?thesis using d1(1) poc_list_links(2) [OF pl] by (simp add: display_node_def outp_def)
  qed
  moreover have "\<forall>a \<in> set (as @ [z]). \<not> outp d1 a"
    using Cons.prems(2,4) d1(3) by (auto simp: displayed_def)
  then have "display_loop disp g x (hd_or zs x) d1 = foldM (\<lambda>x d. display_node d x) zs d1"
    using Cons.prems(2,3) f by (intro Cons.IH [OF d1(2), of "as @ [z]"]) auto
  ultimately show ?case
    using zx nx d1(1) poc_list_links(2) [OF pl] unfolding f
    by (subst display_loop.simps) (cases "outp d z"; simp add: outp_def)
qed

text \<open>Two levels of recursion: everything before a picture displayed by the loop has been displayed.\<close>

lemma display_at_one:
  assumes "dpb_ok d P L D" "P = xs @ x # ys" "\<forall>a \<in> set xs. \<not> outp d a"
  shows "display_at (Suc k) d x = display_node d x"
proof -
  have ls: "lists_ok d P L D" and n: "nodes_ok d P" using assms(1) by (simp_all add: dpb_ok_def data_ok_def)
  have len: "length P \<le> AL_REF_MNGR_MAX_BUF_SIZE" using lists_lengths(6) [OF ls] n by (simp add: nodes_ok_def)
  have hd: "dp_tHeadPOCNodeID d = hd_or xs x"
    using poc_list_head [of d P] ls assms(2) by (cases xs) (auto simp: lists_ok_def)
  have quiet: "display_loop (display_at k) f x (hd_or zs x) d = Some d"
    if "P = as @ zs @ x # ys" "length zs \<le> f" "\<forall>a \<in> set zs. \<not> outp d a" for as zs f
    using that
  proof (induction zs arbitrary: as f)
    case Nil
    then show ?case by (simp add: display_loop.simps)
  next
    case (Cons z zs)
    obtain g where f: "f = Suc g" using Cons.prems(2) by (cases f) auto
    have pl: "poc_list d (as @ z # (zs @ x # ys))" using ls Cons.prems(1) by (simp add: lists_ok_def)
    have nx: "nd_tNextPOCNodeID (nd d z) = hd_or zs x" using poc_list_links(1) [OF pl] by (cases zs) auto
    have zx: "z \<noteq> x" using lists_dist(1) [OF ls] Cons.prems(1) by auto
    have "display_loop (display_at k) g x (hd_or zs x) d = Some d"
      using Cons.prems f by (intro Cons.IH [of "as @ [z]"]) auto
    then show ?case using zx nx poc_list_links(2) [OF pl] Cons.prems(3)
      unfolding f by (subst display_loop.simps) (simp add: outp_def)
  qed
  show ?thesis using quiet [of "[]" xs] assms(2,3) len hd by simp
qed

theorem AL_Dpb_Display_alt:
  assumes "dpb_ok d P L D" "P = xs @ x # ys"
  shows "AL_Dpb_Display d x = foldM (\<lambda>x d. display_node d x) (xs @ [x]) d"
proof -
  have ls: "lists_ok d P L D" and n: "nodes_ok d P" using assms(1) by (simp_all add: dpb_ok_def data_ok_def)
  have len: "length P \<le> AL_REF_MNGR_MAX_BUF_SIZE" using lists_lengths(6) [OF ls] n by (simp add: nodes_ok_def)
  have hd: "dp_tHeadPOCNodeID d = hd_or xs x"
    using poc_list_head [of d P] ls assms(2) by (cases xs) (auto simp: lists_ok_def)
  obtain k where k: "AL_REF_MNGR_MAX_BUF_SIZE = Suc k" using pool_sizes(2) by (cases AL_REF_MNGR_MAX_BUF_SIZE) auto
  have "display_loop (display_at (Suc k)) AL_REF_MNGR_MAX_BUF_SIZE x (hd_or xs x) d = foldM (\<lambda>x d. display_node d x) xs d"
    by (rule display_loop_run [OF assms(1), of "[]" _ _ ys])
      (use assms(2) len display_at_one in auto)
  then show ?thesis
    by (simp add: AL_Dpb_Display_def hd foldM_append foldM_one k del: foldM.simps)
qed

lemma AL_Dpb_Display_ok:
  assumes "dpb_ok d P L D" "P = xs @ x # ys"
  shows "\<exists>d'. AL_Dpb_Display d x = Some d' \<and> dpb_ok d' P L D \<and> displayed P (xs @ [x]) d d'"
  unfolding AL_Dpb_Display_alt [OF assms]
  using assms lists_dist(1) [of d P L D] by (intro foldM_display) (auto simp: dpb_ok_def)

end
