(* ===== verification/Dpb_Cleanup.thy ===== *)
theory Dpb_Cleanup
  imports Dpb_Display
begin

text \<open>
  Clean-up and flush of the decoded picture buffer (\<open>AL_Dpb_HEVC_Cleanup\<close>, \<open>AL_Dpb_AVC_Cleanup\<close>,
  \<open>AL_Dpb_RemoveHead\<close>, \<open>sApiFlush\<close> of \<open>DPB.c\<close>): pictures leave in picture order, no reference is lost
  by a clean-up, a flush leaves nothing.
\<close>

section \<open>What a clean-up may do\<close>

text \<open>
  \<open>S\<close> is the sequence of frames output on the way; what was to be output before is \<open>S\<close> followed by what
  is still to be output.
\<close>

definition cleaned :: "index list \<Rightarrow> index list \<Rightarrow> AL_TDpb \<Rightarrow> AL_TDpb \<Rightarrow> bool" where
  "cleaned P Q d d' \<longleftrightarrow> (\<exists>S. dp_log d' = dp_log d @ display_calls S
       \<and> df_frms (dp_DispFifo d') = df_frms (dp_DispFifo d) @ S \<and> to_show d P = S @ to_show d' Q)
     \<and> filter (marked d') Q = filter (marked d) P \<and> set Q \<subseteq> set P
     \<and> (\<forall>y \<in> set Q. nd_uPicLatency (nd d' y) = nd_uPicLatency (nd d y) \<and> nd_tFrameID (nd d' y) = nd_tFrameID (nd d y)
         \<and> nd_iFramePOC (nd d' y) = nd_iFramePOC (nd d y) \<and> marked d' y = marked d y \<and> (outp d' y \<longrightarrow> outp d y))
     \<and> dp_uNumRef d' = dp_uNumRef d \<and> dp_eMode d' = dp_eMode d"

lemma cleaned_refl [simp]: "cleaned P P d d"
  by (auto simp: cleaned_def intro!: exI [of _ "[]"])

lemma cleaned_trans:
  assumes "cleaned P Q a b" "cleaned Q R b c"
  shows "cleaned P R a c"
proof -
  obtain S T where "dp_log b = dp_log a @ display_calls S" "df_frms (dp_DispFifo b) = df_frms (dp_DispFifo a) @ S"
      "to_show a P = S @ to_show b Q"
    "dp_log c = dp_log b @ display_calls T" "df_frms (dp_DispFifo c) = df_frms (dp_DispFifo b) @ T"
      "to_show b Q = T @ to_show c R"
    using assms by (auto simp: cleaned_def)
  then have "\<exists>S. dp_log c = dp_log a @ display_calls S
       \<and> df_frms (dp_DispFifo c) = df_frms (dp_DispFifo a) @ S \<and> to_show a P = S @ to_show c R"
    by (intro exI [of _ "S @ T"]) simp
  moreover have "set R \<subseteq> set Q" "set Q \<subseteq> set P" using assms by (auto simp: cleaned_def)
  ultimately show ?thesis using assms unfolding cleaned_def by fastforce
qed

lemma to_show_cong:
  assumes "\<And>y. y \<in> set xs \<Longrightarrow> nd_tFrameID (nd d' y) = nd_tFrameID (nd d y)" "\<And>y. y \<in> set xs \<Longrightarrow> outp d' y = outp d y"
  shows "to_show d' xs = to_show d xs"
proof -
  have "filter (outp d') xs = filter (outp d) xs" by (rule filter_cong) (simp_all add: assms)
  then show ?thesis using assms(1) by (simp add: to_show_def)
qed

lemma to_show_none: "(\<And>y. y \<in> set xs \<Longrightarrow> \<not> outp d y) \<Longrightarrow> to_show d xs = []"
  by (simp add: to_show_def)

lemma displayed_cleaned:
  assumes "displayed P (xs @ [x]) d d'" "P = xs @ x # ys" "distinct P"
  shows "cleaned P P d d'"
proof -
  have "to_show d' ys = to_show d ys"
    using assms by (intro to_show_cong) (auto simp: displayed_def)
  moreover have "to_show d' (xs @ [x]) = []"
    using assms by (intro to_show_none) (auto simp: displayed_def)
  ultimately have "to_show d P = to_show d (xs @ [x]) @ to_show d' P"
    using assms(2) by (auto split: if_splits)
  moreover have "filter (marked d') P = filter (marked d) P"
    using assms(1) by (intro filter_cong) (auto simp: displayed_def)
  ultimately show ?thesis
    using assms(1) unfolding cleaned_def by (auto simp: displayed_def)
qed

lemma removed_cleaned:
  assumes "keeps (set (removeAll x P)) d d'" "\<not> marked d x" "\<not> outp d x"
  shows "cleaned P (removeAll x P) d d'"
proof -
  note k = keepsD [OF assms(1)]
  have o: "filter (marked d) (removeAll x P) = filter (marked d) P" "filter (outp d) (removeAll x P) = filter (outp d) P"
    using assms(2,3) by (auto simp: removeAll_filter_not_eq intro!: filter_cong)
  have "to_show d' (removeAll x P) = to_show d (removeAll x P)"
    using k by (intro to_show_cong) simp_all
  then have "to_show d P = to_show d' (removeAll x P)" using o(2) by (simp add: to_show_def)
  moreover have "filter (marked d') (removeAll x P) = filter (marked d) P"
    using keeps_filters(1) [OF assms(1) subset_refl] o(1) by simp
  ultimately show ?thesis
    using assms(1) k unfolding cleaned_def by (auto simp: keeps_def intro!: exI [of _ "[]"])
qed

lemma Remove_cleaned:
  assumes "dpb_ok d P L D" "x \<in> set P" "\<not> marked d x" "\<not> outp d x"
  shows "\<exists>f d'. AL_Dpb_Remove d x = Some (f, d')
    \<and> dpb_ok d' (removeAll x P) (removeAll x L) (removeAll x D) \<and> cleaned P (removeAll x P) d d'
    \<and> keeps (set (removeAll x P)) d d'"
  using AL_Dpb_Remove_ok [OF assms(1,2,4)] removed_cleaned [OF _ assms(3,4)] by fastforce

lemma Display_cleaned:
  assumes "dpb_ok d P L D" "P = xs @ x # ys"
  shows "\<exists>d'. AL_Dpb_Display d x = Some d' \<and> dpb_ok d' P L D \<and> displayed P (xs @ [x]) d d' \<and> cleaned P P d d'"
  using AL_Dpb_Display_ok [OF assms] displayed_cleaned [OF _ assms(2)] lists_dist(1) [of d P L D] assms(1)
  by (fastforce simp: dpb_ok_def)

text \<open>Facts the loops use.\<close>

lemma dpb_ok_parts:
  assumes "dpb_ok d P L D"
  shows "poc_list d P" "distinct P" "length P \<le> AL_REF_MNGR_MAX_BUF_SIZE"
    "dp_uNumOutputPic d = length (filter (outp d) P)" "dp_uCountPic d = length P"
    "dp_uCountRef d = length (filter (marked d) P)" "x \<in> set P \<Longrightarrow> in_range d x" "nodes_ok d P"
proof -
  have ls: "lists_ok d P L D" and dt: "data_ok d P" using assms by (simp_all add: dpb_ok_def)
  show "poc_list d P" using ls by (simp add: lists_ok_def)
  show "distinct P" "x \<in> set P \<Longrightarrow> in_range d x" using lists_dist [OF ls] by blast+
  show "nodes_ok d P" using dt by (simp add: data_ok_def)
  then show "length P \<le> AL_REF_MNGR_MAX_BUF_SIZE" using lists_lengths(6) [OF ls] by (simp add: nodes_ok_def)
  show "dp_uNumOutputPic d = length (filter (outp d) P)" "dp_uCountPic d = length P"
    "dp_uCountRef d = length (filter (marked d) P)"
    using dt by (simp_all add: data_ok_def counts_ok_def)
qed

section \<open>HEVC\<close>

lemma hevc_cleanup_loop_ok:
  assumes "dpb_ok d (as @ zs) L D" "length zs \<le> f"
    "M < dp_uNumOutputPic d \<Longrightarrow> \<forall>y \<in> set as. \<not> outp d y" "\<forall>y \<in> set as. outp d y \<longrightarrow> nd_uPicLatency (nd d y) < u"
  shows "\<exists>d' Q L' D'. hevc_cleanup_loop f u M (hd_or zs AL_BAD_INDEX) d = Some d' \<and> dpb_ok d' Q L' D'
    \<and> cleaned (as @ zs) Q d d' \<and> dp_uNumOutputPic d' \<le> M
    \<and> (\<forall>y \<in> set Q. outp d' y \<longrightarrow> nd_uPicLatency (nd d' y) < u)"
  using assms
proof (induction zs arbitrary: as d f L D)
  case Nil
  have "dp_uNumOutputPic d \<le> M"
  proof (rule ccontr)
    assume "\<not> dp_uNumOutputPic d \<le> M"
    then show False using Nil.prems(3) dpb_ok_parts(4) [OF Nil.prems(1)] by simp
  qed
  moreover have "hevc_cleanup_loop f u M (hd_or [] AL_BAD_INDEX) d = Some d" by (simp add: hevc_cleanup_loop.simps)
  ultimately show ?case using Nil.prems by (intro exI [of _ d] exI [of _ as] exI [of _ L] exI [of _ D]) simp
next
  case (Cons t zs)
  obtain g where f: "f = Suc g" using Cons.prems(2) by (cases f) auto
  note pt = dpb_ok_parts [OF Cons.prems(1)]
  note ln = poc_list_links [OF pt(1)]
  let ?P = "as @ t # zs"
  let ?c = "outp d t \<and> (u \<le> nd_uPicLatency (nd d t) \<or> M < dp_uNumOutputPic d)"
  have "\<exists>d1. (if ?c then AL_Dpb_Display d t else Some d) = Some d1 \<and> dpb_ok d1 ?P L D \<and> cleaned ?P ?P d d1
    \<and> (M < dp_uNumOutputPic d1 \<longrightarrow> (\<forall>y \<in> set (as @ [t]). \<not> outp d1 y))
    \<and> (\<forall>y \<in> set (as @ [t]). outp d1 y \<longrightarrow> nd_uPicLatency (nd d1 y) < u)"
  proof (cases ?c)
    case True
    obtain d1 where d1: "AL_Dpb_Display d t = Some d1" "dpb_ok d1 ?P L D" "displayed ?P (as @ [t]) d d1" "cleaned ?P ?P d d1"
      using Display_cleaned [OF Cons.prems(1) refl] by blast
    then show ?thesis using True by (auto simp: displayed_def)
  next
    case False
    then have e: "(if ?c then AL_Dpb_Display d t else Some d) = Some d" by (rule if_not_P)
    show ?thesis unfolding e using Cons.prems(1,3,4) False by auto
  qed
  then obtain d1 where d1: "(if ?c then AL_Dpb_Display d t else Some d) = Some d1" "dpb_ok d1 ?P L D" "cleaned ?P ?P d d1"
    "M < dp_uNumOutputPic d1 \<Longrightarrow> \<forall>y \<in> set (as @ [t]). \<not> outp d1 y"
    "\<forall>y \<in> set (as @ [t]). outp d1 y \<longrightarrow> nd_uPicLatency (nd d1 y) < u"
    by blast
  note pt1 = dpb_ok_parts [OF d1(2)]
  note ln1 = poc_list_links [OF pt1(1)]
  have step: "hevc_cleanup_loop f u M t d =
      (if \<not> marked d1 t \<and> \<not> outp d1 t
       then do { (_, d) \<leftarrow> AL_Dpb_Remove d1 t; hevc_cleanup_loop g u M (hd_or zs AL_BAD_INDEX) d }
       else hevc_cleanup_loop g u M (hd_or zs AL_BAD_INDEX) d1)"
    unfolding f using ln(2,3) ln1(1,2) d1(1)
    by (subst hevc_cleanup_loop.simps)
      (simp add: AL_Dpb_GetOutputFlag_def sGetPicLatency_FromNode_def outp_def marked_def)
  show ?case
  proof (cases "\<not> marked d1 t \<and> \<not> outp d1 t")
    case True
    obtain f' d2 where d2: "AL_Dpb_Remove d1 t = Some (f', d2)" "dpb_ok d2 (removeAll t ?P) (removeAll t L) (removeAll t D)"
      "cleaned ?P (removeAll t ?P) d1 d2" "keeps (set (removeAll t ?P)) d1 d2"
      using Remove_cleaned [OF d1(2), of t] True by auto
    have rm: "removeAll t ?P = as @ zs" using pt(2) by simp
    note k = keepsD [OF d2(4)[unfolded rm]]
    have n2: "dp_uNumOutputPic d2 = dp_uNumOutputPic d1"
      using dpb_ok_parts(4) [OF d2(2)] pt1(4) True arg_cong [OF keeps_filters(2) [OF d2(4) subset_refl], of length]
      unfolding rm by simp
    have "nd_uPicLatency (nd d2 y) = nd_uPicLatency (nd d1 y)" if "y \<in> set (as @ zs)" for y
      using d2(4) that unfolding rm by (simp add: keeps_def)
    then obtain d' Q L' D' where r: "hevc_cleanup_loop g u M (hd_or zs AL_BAD_INDEX) d2 = Some d'" "dpb_ok d' Q L' D'"
      "cleaned (as @ zs) Q d2 d'" "dp_uNumOutputPic d' \<le> M" "\<forall>y \<in> set Q. outp d' y \<longrightarrow> nd_uPicLatency (nd d' y) < u"
      using Cons.IH [of d2 as "removeAll t L" "removeAll t D" g] d2(2) Cons.prems(2) f d1(4,5) n2 k(6) rm by auto
    have "cleaned ?P Q d d'" using cleaned_trans [OF cleaned_trans [OF d1(3) d2(3)]] r(3) rm by simp
    then show ?thesis using r step True d2(1) by auto
  next
    case False
    then obtain d' Q L' D' where r: "hevc_cleanup_loop g u M (hd_or zs AL_BAD_INDEX) d1 = Some d'" "dpb_ok d' Q L' D'"
      "cleaned ?P Q d1 d'" "dp_uNumOutputPic d' \<le> M" "\<forall>y \<in> set Q. outp d' y \<longrightarrow> nd_uPicLatency (nd d' y) < u"
      using Cons.IH [of d1 "as @ [t]" L D g] d1(2,4,5) Cons.prems(2) f by auto
    have "cleaned ?P Q d d'" using cleaned_trans [OF d1(3) r(3)] .
    then show ?thesis using r step False by auto
  qed
qed

lemma AL_Dpb_HEVC_Cleanup_ok:
  assumes "dpb_ok d P L D"
  shows "\<exists>d' Q L' D'. AL_Dpb_HEVC_Cleanup d u M = Some d' \<and> dpb_ok d' Q L' D' \<and> cleaned P Q d d'
    \<and> dp_uNumOutputPic d' \<le> M \<and> (\<forall>y \<in> set Q. outp d' y \<longrightarrow> nd_uPicLatency (nd d' y) < u)"
  using hevc_cleanup_loop_ok [of d "[]" P L D AL_REF_MNGR_MAX_BUF_SIZE M u] assms dpb_ok_parts(1,3) [OF assms] poc_list_head
  by (simp add: AL_Dpb_HEVC_Cleanup_def)

section \<open>AVC\<close>

lemma avc_cleanup_unused_ok:
  assumes "dpb_ok d (as @ zs) L D" "length zs \<le> f" "\<forall>y \<in> set as. marked d y \<or> outp d y"
  shows "\<exists>d' Q L' D'. avc_cleanup_unused f (hd_or zs AL_BAD_INDEX) d = Some d' \<and> dpb_ok d' Q L' D'
    \<and> cleaned (as @ zs) Q d d' \<and> dp_log d' = dp_log d \<and> (\<forall>y \<in> set Q. marked d' y \<or> outp d' y)"
  using assms
proof (induction zs arbitrary: as d f L D)
  case Nil
  then show ?case
    by (intro exI [of _ d] exI [of _ as] exI [of _ L] exI [of _ D]) (simp add: avc_cleanup_unused.simps)
next
  case (Cons t zs)
  obtain g where f: "f = Suc g" using Cons.prems(2) by (cases f) auto
  note pt = dpb_ok_parts [OF Cons.prems(1)]
  note ln = poc_list_links [OF pt(1)]
  let ?P = "as @ t # zs"
  show ?case
  proof (cases "\<not> marked d t \<and> \<not> outp d t")
    case True
    obtain f' d2 where d2: "AL_Dpb_Remove d t = Some (f', d2)" "dpb_ok d2 (removeAll t ?P) (removeAll t L) (removeAll t D)"
      "cleaned ?P (removeAll t ?P) d d2" "keeps (set (removeAll t ?P)) d d2"
      using Remove_cleaned [OF Cons.prems(1), of t] True by auto
    have rm: "removeAll t ?P = as @ zs" using pt(2) by simp
    note k = keepsD [OF d2(4)[unfolded rm]]
    obtain d' Q L' D' where r: "avc_cleanup_unused g (hd_or zs AL_BAD_INDEX) d2 = Some d'" "dpb_ok d' Q L' D'"
      "cleaned (as @ zs) Q d2 d'" "dp_log d' = dp_log d2" "\<forall>y \<in> set Q. marked d' y \<or> outp d' y"
      using Cons.IH [of d2 as "removeAll t L" "removeAll t D" g] d2(2) Cons.prems(2,3) f k rm by auto
    have "cleaned ?P Q d d'" using cleaned_trans [OF d2(3)] r(3) rm by simp
    moreover have "avc_cleanup_unused f t d = avc_cleanup_unused g (hd_or zs AL_BAD_INDEX) d2"
      unfolding f using ln(1-3) True d2(1) by (subst avc_cleanup_unused.simps) (simp add: marked_def outp_def)
    moreover have "dp_log d' = dp_log d" using r(4) d2(4) by (simp add: keeps_def)
    ultimately show ?thesis using r by auto
  next
    case False
    then obtain d' Q L' D' where r: "avc_cleanup_unused g (hd_or zs AL_BAD_INDEX) d = Some d'" "dpb_ok d' Q L' D'"
      "cleaned ?P Q d d'" "dp_log d' = dp_log d" "\<forall>y \<in> set Q. marked d' y \<or> outp d' y"
      using Cons.IH [of d "as @ [t]" L D g] Cons.prems f by auto
    moreover have "avc_cleanup_unused f t d = avc_cleanup_unused g (hd_or zs AL_BAD_INDEX) d"
      unfolding f using ln(1-3) False by (subst avc_cleanup_unused.simps) (auto simp: marked_def outp_def)
    ultimately show ?thesis by auto
  qed
qed

lemma avc_cleanup_full_ok:
  assumes "dpb_ok d (as @ zs) L D" "length zs \<le> f" "\<forall>y \<in> set as. marked d y"
  shows "\<exists>d' Q L' D'. avc_cleanup_full f (hd_or zs AL_BAD_INDEX) d = Some d' \<and> dpb_ok d' Q L' D'
    \<and> cleaned (as @ zs) Q d d'
    \<and> ((dp_uCountPic d' \<le> dp_uNumRef d' \<and> dp_uCountRef d' \<le> dp_uNumRef d') \<or> (\<forall>y \<in> set Q. marked d' y))"
  using assms
proof (induction zs arbitrary: as d f L D)
  case Nil
  then show ?case
    by (intro exI [of _ d] exI [of _ as] exI [of _ L] exI [of _ D]) (simp add: avc_cleanup_full.simps)
next
  case (Cons t zs)
  obtain g where f: "f = Suc g" using Cons.prems(2) by (cases f) auto
  note pt = dpb_ok_parts [OF Cons.prems(1)]
  note ln = poc_list_links [OF pt(1)]
  let ?P = "as @ t # zs"
  show ?case
  proof (cases "dp_uNumRef d < dp_uCountRef d \<or> dp_uNumRef d < dp_uCountPic d")
    case False
    then have "avc_cleanup_full f t d = Some d"
      by (subst avc_cleanup_full.simps) (auto simp: AL_Dpb_GetNumRef_def AL_Dpb_GetRefCount_def AL_Dpb_GetPicCount_def)
    then show ?thesis using Cons.prems(1) False by (intro exI [of _ d] exI [of _ ?P] exI [of _ L] exI [of _ D]) auto
  next
    case full: True
    show ?thesis
    proof (cases "marked d t")
      case True
      then obtain d' Q L' D' where r: "avc_cleanup_full g (hd_or zs AL_BAD_INDEX) d = Some d'" "dpb_ok d' Q L' D'"
        "cleaned ?P Q d d'" "(dp_uCountPic d' \<le> dp_uNumRef d' \<and> dp_uCountRef d' \<le> dp_uNumRef d') \<or> (\<forall>y \<in> set Q. marked d' y)"
        using Cons.IH [of d "as @ [t]" L D g] Cons.prems f by auto
      moreover have "avc_cleanup_full f t d = avc_cleanup_full g (hd_or zs AL_BAD_INDEX) d"
        unfolding f using ln(1-3) True full
        by (subst avc_cleanup_full.simps)
          (auto simp: marked_def AL_Dpb_GetNumRef_def AL_Dpb_GetRefCount_def AL_Dpb_GetPicCount_def)
      ultimately show ?thesis by auto
    next
      case False
      obtain d1 where d1: "AL_Dpb_Display d t = Some d1" "dpb_ok d1 ?P L D" "displayed ?P (as @ [t]) d d1" "cleaned ?P ?P d d1"
        using Display_cleaned [OF Cons.prems(1) refl] by blast
      have m1: "\<not> marked d1 t" "\<not> outp d1 t" "\<forall>y \<in> set as. marked d1 y"
        using d1(3) False Cons.prems(3) by (auto simp: displayed_def)
      obtain f' d2 where d2: "AL_Dpb_Remove d1 t = Some (f', d2)" "dpb_ok d2 (removeAll t ?P) (removeAll t L) (removeAll t D)"
        "cleaned ?P (removeAll t ?P) d1 d2" "keeps (set (removeAll t ?P)) d1 d2"
        using Remove_cleaned [OF d1(2) _ m1(1,2)] by auto
      have rm: "removeAll t ?P = as @ zs" using pt(2) by simp
      note k = keepsD [OF d2(4)[unfolded rm]]
      obtain d' Q L' D' where r: "avc_cleanup_full g (hd_or zs AL_BAD_INDEX) d2 = Some d'" "dpb_ok d' Q L' D'"
        "cleaned (as @ zs) Q d2 d'" "(dp_uCountPic d' \<le> dp_uNumRef d' \<and> dp_uCountRef d' \<le> dp_uNumRef d') \<or> (\<forall>y \<in> set Q. marked d' y)"
        using Cons.IH [of d2 as "removeAll t L" "removeAll t D" g] d2(2) Cons.prems(2) m1(3) f k rm by auto
      have "cleaned ?P Q d d'" using cleaned_trans [OF cleaned_trans [OF d1(4) d2(3)]] r(3) rm by simp
      moreover have "avc_cleanup_full f t d = avc_cleanup_full g (hd_or zs AL_BAD_INDEX) d2"
        unfolding f using ln(1-3) False full d1(1) d2(1)
        by (subst avc_cleanup_full.simps)
          (auto simp: marked_def AL_Dpb_GetNumRef_def AL_Dpb_GetRefCount_def AL_Dpb_GetPicCount_def)
      ultimately show ?thesis using r by auto
    qed
  qed
qed

lemma fill_waiting_cleaned:
  assumes "dpb_ok d P L D" "dp_bPicWaiting d" "0 < dp_FreePicIdCnt d"
  shows "\<exists>d'. AL_Dpb_sFillWaitingPicture d = Some d' \<and> dpb_ok d' P L D \<and> cleaned P P d d' \<and> keeps (set P) d d'
    \<and> dp_uCountPic d' = dp_uCountPic d \<and> dp_uCountRef d' = dp_uCountRef d"
proof -
  have ls: "lists_ok d P L D" "ordered d P L" and dt: "data_ok d P" using assms(1) by (simp_all add: dpb_ok_def)
  note ds = lists_dist [OF ls(1)]
  obtain d' where d': "AL_Dpb_sFillWaitingPicture d = Some d'" "pics_ok d' P" "keeps (set P) d d'" "keeps_deleted d d'"
    "same_links d d'"
    using fill_waiting_ok [of d P] dt ds(1,6) assms(2,3) by (auto simp: data_ok_pics)
  note k = keepsD [OF d'(3)] and kf = keeps_filters [OF d'(3) subset_refl]
  have "ordered d' P L" by (rule ordered_keep [OF ls(2) ds(4)]) (simp add: k)
  moreover have "lists_ok d' P L D" using ls(1) same_links_lists [OF d'(5)] by blast
  moreover have "deleted_ok d'" "df_ok (dp_DispFifo d')" "room_ok d' P"
    using dt keeps_deleted_frms [OF d'(4)] d'(3,4) kf(2)
    by (simp_all add: data_ok_def keeps_def keeps_deleted_def room_ok_def)
  moreover have "log_ok d' P"
    using dt d'(3) keeps_deleted_frms [OF d'(4)] kf(3,4)
    by (simp add: data_ok_def log_ok_def keeps_def events_def)
  ultimately have ok: "dpb_ok d' P L D" using d'(2) by (simp add: dpb_ok_def data_ok_pics)
  have "to_show d' P = to_show d P" by (rule to_show_cong) (simp_all add: k)
  then have "cleaned P P d d'"
    using d'(3) kf(1) k unfolding cleaned_def by (auto simp: keeps_def intro!: exI [of _ "[]"])
  then show ?thesis
    using d'(1,3) ok dpb_ok_parts(5,6) [OF ok] dpb_ok_parts(5,6) [OF assms(1)] kf(1) by auto
qed

lemma AL_Dpb_AVC_Cleanup_ok:
  assumes "dpb_ok d P L D"
  shows "\<exists>d' Q L' D'. AL_Dpb_AVC_Cleanup d = Some d' \<and> dpb_ok d' Q L' D' \<and> cleaned P Q d d'
    \<and> (dp_uCountPic d' \<le> dp_uNumRef d' \<or> (\<forall>y \<in> set Q. marked d' y))"
proof -
  note pt = dpb_ok_parts [OF assms]
  obtain d1 Q1 L1 D1 where d1: "avc_cleanup_unused AL_REF_MNGR_MAX_BUF_SIZE (dp_tHeadPOCNodeID d) d = Some d1"
    "dpb_ok d1 Q1 L1 D1" "cleaned P Q1 d d1"
    using avc_cleanup_unused_ok [of d "[]" P] assms pt(1,3) poc_list_head by fastforce
  note pt1 = dpb_ok_parts [OF d1(2)]
  obtain d2 Q2 L2 D2 where d2: "avc_cleanup_full AL_REF_MNGR_MAX_BUF_SIZE (dp_tHeadPOCNodeID d1) d1 = Some d2"
    "dpb_ok d2 Q2 L2 D2" "cleaned Q1 Q2 d1 d2" "dp_uCountPic d2 \<le> dp_uNumRef d2 \<or> (\<forall>y \<in> set Q2. marked d2 y)"
    using avc_cleanup_full_ok [of d1 "[]" Q1] d1(2) pt1(1,3) poc_list_head by fastforce
  note c = cleaned_trans [OF d1(3) d2(3)]
  show ?thesis
  proof (cases "dp_bPicWaiting d2 \<and> 0 < dp_FreePicIdCnt d2")
    case True
    then obtain d3 where d3: "AL_Dpb_sFillWaitingPicture d2 = Some d3" "dpb_ok d3 Q2 L2 D2" "cleaned Q2 Q2 d2 d3"
      "keeps (set Q2) d2 d3" "dp_uCountPic d3 = dp_uCountPic d2"
      using fill_waiting_cleaned [OF d2(2)] by blast
    have "AL_Dpb_AVC_Cleanup d = Some d3" using d1(1) d2(1) d3(1) True by (simp add: AL_Dpb_AVC_Cleanup_def)
    moreover have "dp_uNumRef d3 = dp_uNumRef d2" using d3(4) by (simp add: keeps_def)
    ultimately show ?thesis
      using d3 d2(4) cleaned_trans [OF c d3(3)] keepsD(5) [OF d3(4)]
      by (intro exI [of _ d3] exI [of _ Q2] exI [of _ L2] exI [of _ D2]) auto
  next
    case False
    then have "AL_Dpb_AVC_Cleanup d = Some d2" using d1(1) d2(1) by (auto simp: AL_Dpb_AVC_Cleanup_def)
    then show ?thesis using c d2(2,4) by blast
  qed
qed

section \<open>Flush\<close>

lemma AL_Dpb_RemoveHead_ok:
  assumes "dpb_ok d (t # P) L D"
  shows "\<exists>d'. AL_Dpb_RemoveHead d = Some (nd_tFrameID (nd d t), d') \<and> dpb_ok d' P (removeAll t L) (removeAll t D)
    \<and> dp_log d' = dp_log d @ display_calls (to_show d [t])
    \<and> df_frms (dp_DispFifo d') = df_frms (dp_DispFifo d) @ to_show d [t] \<and> to_show d' P = to_show d P"
proof -
  note pt = dpb_ok_parts [OF assms]
  have hd: "dp_tHeadPOCNodeID d = t" using poc_list_head [OF pt(1)] by simp
  obtain d1 where d1: "(if outp d t then AL_Dpb_Display d t else Some d) = Some d1" "dpb_ok d1 (t # P) L D" "displayed (t # P) [t] d d1"
  proof (cases "outp d t")
    case True
    then show ?thesis using AL_Dpb_Display_ok [OF assms, of "[]" t P] that by auto
  next
    case False
    then show ?thesis using that [of d] assms displayed_none by auto
  qed
  have hd1: "dp_tHeadPOCNodeID d1 = t" using poc_list_head [OF dpb_ok_parts(1) [OF d1(2)]] by simp
  have "\<not> outp d1 t" using d1(3) by (simp add: displayed_def)
  then obtain d2 where d2: "AL_Dpb_Remove d1 t = Some (nd_tFrameID (nd d1 t), d2)"
    "dpb_ok d2 (removeAll t (t # P)) (removeAll t L) (removeAll t D)" "keeps (set (removeAll t (t # P))) d1 d2"
    using AL_Dpb_Remove_ok [OF d1(2), of t] by auto
  have rm: "removeAll t (t # P) = P" using pt(2) by simp
  note k = keepsD [OF d2(3)[unfolded rm]]
  have "AL_Dpb_RemoveHead d = Some (nd_tFrameID (nd d t), d2)"
  proof -
    have "AL_Dpb_GetOutputFlag d t = Some (outp d t)"
      using pt(7) [of t] by (simp add: AL_Dpb_GetOutputFlag_def outp_def)
    moreover have "nd_tFrameID (nd d1 t) = nd_tFrameID (nd d t)" using d1(3) by (simp add: displayed_def)
    ultimately show ?thesis
      by (simp only: AL_Dpb_RemoveHead_def hd bind.bind_lunit d1(1) hd1 d2(1))
  qed
  moreover have "to_show d2 P = to_show d P"
    using d1(3) pt(2) k by (intro to_show_cong) (auto simp: displayed_def)
  ultimately show ?thesis using d2(2,3) d1(3) rm by (simp add: keeps_def displayed_def)
qed

lemma flush_loop_ok:
  assumes "dpb_ok d P L D" "length P \<le> f"
  shows "\<exists>d'. flush_loop f d = Some d' \<and> dpb_ok d' [] [] [] \<and> dp_log d' = dp_log d @ display_calls (to_show d P)
    \<and> df_frms (dp_DispFifo d') = df_frms (dp_DispFifo d) @ to_show d P"
  using assms
proof (induction P arbitrary: d f L D)
  case Nil
  have "L = []" "D = []" using Nil.prems(1) lists_dist(4,5) [of d "[]" L D] by (simp_all add: dpb_ok_def)
  moreover have "flush_loop f d = Some d"
    using poc_list_head [OF dpb_ok_parts(1) [OF Nil.prems(1)]] by (simp add: flush_loop.simps)
  ultimately show ?case using Nil.prems(1) by simp
next
  case (Cons t P)
  obtain g where f: "f = Suc g" using Cons.prems(2) by (cases f) auto
  note pt = dpb_ok_parts [OF Cons.prems(1)]
  have hd: "dp_tHeadPOCNodeID d = t" "0 \<le> t" using poc_list_head [OF pt(1)] pt(7) [of t] by (simp_all add: in_range_def)
  obtain d1 where d1: "AL_Dpb_RemoveHead d = Some (nd_tFrameID (nd d t), d1)" "dpb_ok d1 P (removeAll t L) (removeAll t D)"
    "dp_log d1 = dp_log d @ display_calls (to_show d [t])"
    "df_frms (dp_DispFifo d1) = df_frms (dp_DispFifo d) @ to_show d [t]" "to_show d1 P = to_show d P"
    using AL_Dpb_RemoveHead_ok [OF Cons.prems(1)] by blast
  obtain d2 where d2: "flush_loop g d1 = Some d2" "dpb_ok d2 [] [] []" "dp_log d2 = dp_log d1 @ display_calls (to_show d1 P)"
    "df_frms (dp_DispFifo d2) = df_frms (dp_DispFifo d1) @ to_show d1 P"
    using Cons.IH [OF d1(2)] Cons.prems(2) f by auto
  have "flush_loop f d = Some d2" unfolding f using hd d1(1) d2(1) by (subst flush_loop.simps) simp
  moreover have "to_show d (t # P) = to_show d [t] @ to_show d P" by simp
  ultimately show ?case using d2(2-4) d1(3-5) by (simp del: to_show_simps(2))
qed

end
