(* ===== verification/Dpb_Insert.thy ===== *)
theory Dpb_Insert
  imports Dpb_Cleanup
begin

text \<open>
  Insertion into the decoded picture buffer (\<open>sApiInsert\<close> of \<open>DPB.c\<close>): the new picture takes a free
  node, an identifier or the waiting place, its position in the three lists, and one reference on
  each of its buffers.
\<close>

section \<open>What is asked of the caller\<close>

text \<open>
  An existing picture comes with a frame of the pool and its motion vectors, one that does not exist
  with neither and is not for output. The pools have a free motion vector buffer and a free frame
  when a picture is inserted, so the rings have room.
\<close>

definition insert_args :: "AL_TDpbInsertParam \<Rightarrow> index \<Rightarrow> index \<Rightarrow> bool" where
  "insert_args p f m \<longleftrightarrow> (if ip_bNonExisting p then f = AL_BAD_INDEX \<and> m = AL_BAD_INDEX \<and> \<not> ip_bPicOutputFlag p
     else 0 \<le> f \<and> nat f < AL_REFMNGR_MAX_POOL_SIZE \<and> 0 \<le> m)"

definition insert_room :: "AL_TDpb \<Rightarrow> bool" where
  "insert_room d \<longleftrightarrow> dp_iNumDeletedPic d + dp_uCountPic d < AL_REF_MNGR_MAX_BUF_SIZE
     \<and> df_uNumFrm (dp_DispFifo d) + dp_uNumOutputPic d < AL_REFMNGR_MAX_POOL_SIZE"

section \<open>The order of the list does not matter for the data\<close>

lemma mset_filter_len: "mset P = mset Q \<Longrightarrow> length (filter g P) = length (filter g Q)"
  by (metis mset_filter size_mset)

lemma data_ok_mset:
  assumes "mset P = mset Q"
  shows "data_ok d P = data_ok d Q"
proof -
  have s: "set P = set Q" and l: "length P = length Q"
    using assms mset_eq_setD mset_eq_length by blast+
  have "mset (held_ids d P) = mset (held_ids d Q)" "mset (frames d P) = mset (frames d Q)" "mset (mvs d P) = mset (mvs d Q)"
    using assms by (simp_all add: held_ids_def frames_def mvs_def)
  then show ?thesis
    using s l mset_filter_len [OF assms]
    by (simp add: data_ok_def nodes_ok_def counts_ok_def ids_ok_def waiting_ok_def room_ok_def log_ok_def)
qed

section \<open>The identifier\<close>

lemma fill_node_fields [simp]:
  "nd_iFramePOC (fill_node p x f m i n) = ip_iFramePOC p" "nd_slice_pic_order_cnt_lsb (fill_node p x f m i n) = ip_iPocLsb p"
  "nd_tFrameID (fill_node p x f m i n) = f" "nd_tMvID (fill_node p x f m i n) = m" "nd_tPicID (fill_node p x f m i n) = i"
  "nd_eMarkingFlag (fill_node p x f m i n) = ip_eMarkingFlag p" "nd_tNodeID (fill_node p x f m i n) = x"
  "nd_bPicOutputFlag (fill_node p x f m i n) = ip_bPicOutputFlag p" "\<not> nd_bIsReset (fill_node p x f m i n)"
  "nd_bNonExisting (fill_node p x f m i n) = ip_bNonExisting p"
  "(fill_node p x f m i n)\<lparr>nd_tPicID := j\<rparr> = fill_node p x f m j n"
  by (simp_all add: fill_node_def)

lemma held_ids_Cons: "held_ids d (x # P) = (if 0 \<le> nd_tPicID (nd d x) then nd_tPicID (nd d x) # held_ids d P else held_ids d P)"
  by (simp add: held_ids_def)

lemma ids_ok_fresh:
  assumes "ids_ok d P" "x \<notin> set P" "in_range d x" "\<forall>y \<in> set P. 0 \<le> y" "\<And>n. nd_tPicID (g n) = AL_BAD_INDEX"
  shows "ids_ok (set_nd d x g) (x # P)"
proof -
  have n: "nd (set_nd d x g) y = nd d y" if "y \<in> set P" for y using that assms(2-4) by auto
  have "held_ids (set_nd d x g) (x # P) = held_ids d P"
    using assms(3,5) held_ids_cong [of P "set_nd d x g" d] n by (simp add: held_ids_Cons in_range_def)
  then show ?thesis
    using assms(1,3,5) n unfolding ids_ok_def by (simp add: in_range_def cong: ball_cong)
qed

text \<open>The state after the identifier was chosen differs from the one before in these fields.\<close>

definition with_ids :: "AL_TDpb \<Rightarrow> AL_TDpb \<Rightarrow> bool" where
  "with_ids d d1 \<longleftrightarrow> (\<exists>a b c n w t fw mw. d1 = d\<lparr>dp_PicId2NodeId := a, dp_PicId2FrmId := b, dp_PicId2MvId := c,
     dp_FreePicIdCnt := n, dp_bPicWaiting := w, dp_tNodeWaitingID := t, dp_tFrmWaitingID := fw, dp_tMvWaitingID := mw\<rparr>)"

lemma waiting_ok_fresh:
  assumes "waiting_ok d P" "x \<notin> set P" "in_range d x" "\<forall>y \<in> set P. 0 \<le> y"
  shows "waiting_ok (set_nd d x g) (x # P)"
proof -
  have n: "nd (set_nd d x g) y = nd d y" if "y \<in> set P" for y using that assms(2-4) by auto
  then show ?thesis using assms(1,2) by (auto simp: waiting_ok_def absent_def)
qed

lemma assign_pic_id_ok:
  assumes ids: "ids_ok d P" "waiting_ok d P" and P: "distinct P" "x \<notin> set P" "in_range d x" "\<forall>y \<in> set P. 0 \<le> y"
    and args: "insert_args p f m"
  shows "\<exists>i d1. assign_pic_id d p x f m = Some (i, d1) \<and> with_ids d d1
    \<and> ids_ok (set_nd d1 x (fill_node p x f m i)) (x # P) \<and> waiting_ok (set_nd d1 x (fill_node p x f m i)) (x # P)
    \<and> (ip_bNonExisting p \<longrightarrow> i = AL_BAD_INDEX)"
proof -
  have fresh: "ids_ok (set_nd d x (fill_node p x f m AL_BAD_INDEX)) (x # P)"
    by (rule ids_ok_fresh [OF ids(1) P(2-4)]) simp
  have x0: "0 \<le> x" using P(3) by (simp add: in_range_def)
  have self: "with_ids d d"
    unfolding with_ids_def by (intro exI [of _ "dp_PicId2NodeId d"] exI [of _ "dp_PicId2FrmId d"] exI [of _ "dp_PicId2MvId d"]
      exI [of _ "dp_FreePicIdCnt d"] exI [of _ "dp_bPicWaiting d"] exI [of _ "dp_tNodeWaitingID d"]
      exI [of _ "dp_tFrmWaitingID d"] exI [of _ "dp_tMvWaitingID d"]) simp
  consider "ip_bNonExisting p" | "\<not> ip_bNonExisting p" "0 < dp_FreePicIdCnt d" | "\<not> ip_bNonExisting p" "dp_FreePicIdCnt d = 0"
    by auto
  then show ?thesis
  proof cases
    case 1
    then have "assign_pic_id d p x f m = Some (AL_BAD_INDEX, d)" by (simp add: assign_pic_id_def)
    then show ?thesis using fresh self waiting_ok_fresh [OF ids(2) P(2-4)] by blast
  next
    case 2
    let ?d0 = "set_nd d x (fill_node p x f m AL_BAD_INDEX)"
    obtain i d2 where pop: "pop_pic_id ?d0 = Some (i, ?d0\<lparr>dp_FreePicIdCnt := dp_FreePicIdCnt ?d0 - 1\<rparr>)"
      and i: "0 \<le> i" "nat i < AL_MAX_REF"
      and d2: "d2 = (set_nd ?d0 x (\<lambda>n. n\<lparr>nd_tPicID := i\<rparr>))\<lparr>dp_FreePicIdCnt := dp_FreePicIdCnt ?d0 - 1,
        dp_PicId2NodeId := (dp_PicId2NodeId ?d0)[nat i := x], dp_PicId2FrmId := (dp_PicId2FrmId ?d0)[nat i := f],
        dp_PicId2MvId := (dp_PicId2MvId ?d0)[nat i := m]\<rparr>" and ids2: "ids_ok d2 (x # P)"
      using pop_bind_ok [of ?d0 "x # P" x f m] fresh P x0 2(2) by auto
    have pop': "pop_pic_id d = Some (i, d\<lparr>dp_FreePicIdCnt := dp_FreePicIdCnt d - 1\<rparr>)"
    proof -
      have "dec8 (dp_FreePicIdCnt d) = dp_FreePicIdCnt d - 1"
        using 2(2) ids(1) by (intro dec8_Suc) (simp_all add: ids_ok_def AL_MAX_REF_def)
      then show ?thesis using pop by (auto simp: pop_pic_id_def Let_def arr_get_def split: if_splits)
    qed
    let ?d1 = "d\<lparr>dp_FreePicIdCnt := dp_FreePicIdCnt d - 1, dp_PicId2NodeId := (dp_PicId2NodeId d)[nat i := x],
      dp_PicId2FrmId := (dp_PicId2FrmId d)[nat i := f], dp_PicId2MvId := (dp_PicId2MvId d)[nat i := m]\<rparr>"
    have lens: "length (dp_PicId2NodeId d) = AL_MAX_REF" "length (dp_PicId2FrmId d) = AL_MAX_REF" "length (dp_PicId2MvId d) = AL_MAX_REF"
      using ids(1) by (simp_all add: ids_ok_def)
    have "assign_pic_id d p x f m = Some (i, ?d1)"
      using 2 pop' i lens by (simp add: assign_pic_id_def bind_pic_id_def)
    moreover have "with_ids d ?d1"
      unfolding with_ids_def by (intro exI [of _ "(dp_PicId2NodeId d)[nat i := x]"] exI [of _ "(dp_PicId2FrmId d)[nat i := f]"]
        exI [of _ "(dp_PicId2MvId d)[nat i := m]"] exI [of _ "dp_FreePicIdCnt d - 1"] exI [of _ "dp_bPicWaiting d"]
        exI [of _ "dp_tNodeWaitingID d"] exI [of _ "dp_tFrmWaitingID d"] exI [of _ "dp_tMvWaitingID d"]) simp
    moreover have "ids_ok (set_nd ?d1 x (fill_node p x f m i)) (x # P)"
      by (subst ids_ok_cong [where d = d2]) (use P x0 ids2 in \<open>auto simp: d2\<close>)
    moreover have "waiting_ok ?d1 P" using ids(2) same_nd(3) [of ?d1 d] by (simp add: waiting_ok_def)
    then have "waiting_ok (set_nd ?d1 x (fill_node p x f m i)) (x # P)"
      using P(2-4) by (intro waiting_ok_fresh) simp_all
    ultimately show ?thesis using 2(1) by blast
  next
    case 3
    let ?d1 = "d\<lparr>dp_bPicWaiting := True, dp_tNodeWaitingID := x, dp_tFrmWaitingID := f, dp_tMvWaitingID := m\<rparr>"
    have "assign_pic_id d p x f m = Some (AL_BAD_INDEX, ?d1)" using 3 by (simp add: assign_pic_id_def)
    moreover have "with_ids d ?d1"
      unfolding with_ids_def by (intro exI [of _ "dp_PicId2NodeId d"] exI [of _ "dp_PicId2FrmId d"] exI [of _ "dp_PicId2MvId d"]
        exI [of _ "dp_FreePicIdCnt d"] exI [of _ True] exI [of _ x] exI [of _ f] exI [of _ m]) simp
    moreover have "ids_ok (set_nd ?d1 x (fill_node p x f m AL_BAD_INDEX)) (x # P)"
      by (subst ids_ok_cong [where d = "set_nd d x (fill_node p x f m AL_BAD_INDEX)"]) (use P x0 fresh in auto)
    moreover have "waiting_ok (set_nd ?d1 x (fill_node p x f m AL_BAD_INDEX)) (x # P)"
      using 3(1) P(3) x0 by (simp add: waiting_ok_def absent_def)
    ultimately show ?thesis by blast
  qed
qed

section \<open>The insertion\<close>

text \<open>The counters and the references, once the node is linked.\<close>

definition count_in :: "AL_TDpbInsertParam \<Rightarrow> index \<Rightarrow> index \<Rightarrow> AL_TDpb \<Rightarrow> AL_TDpb" where
  "count_in p f m d = (
     let d = (if ip_eMarkingFlag p \<noteq> UNUSED_FOR_REF then d\<lparr>dp_uCountRef := inc8 (dp_uCountRef d)\<rparr> else d);
         d = d\<lparr>dp_uCountPic := inc8 (dp_uCountPic d)\<rparr>;
         d = (if ip_bPicOutputFlag p then d\<lparr>dp_uNumOutputPic := inc8 (dp_uNumOutputPic d)\<rparr> else d);
         d = (if AL_IS_VALID_INDEX f then call (IncrementFrmBuf f) d else d)
     in if AL_IS_VALID_INDEX m then call (IncrementAnnexBuf m) d else d)"

definition insert_calls :: "AL_TDpbInsertParam \<Rightarrow> index \<Rightarrow> index \<Rightarrow> dpb_event list" where
  "insert_calls p f m = (if ip_bNonExisting p then [] else [IncrementFrmBuf f, IncrementAnnexBuf m])"

lemma count_in_eq:
  "count_in p f m d = d\<lparr>dp_uCountRef := (if ip_eMarkingFlag p \<noteq> UNUSED_FOR_REF then inc8 (dp_uCountRef d) else dp_uCountRef d),
     dp_uCountPic := inc8 (dp_uCountPic d),
     dp_uNumOutputPic := (if ip_bPicOutputFlag p then inc8 (dp_uNumOutputPic d) else dp_uNumOutputPic d),
     dp_log := dp_log d @ (if 0 \<le> f then [IncrementFrmBuf f] else []) @ (if 0 \<le> m then [IncrementAnnexBuf m] else [])\<rparr>"
  by (simp add: count_in_def Let_def call_def)

lemma count_in_same_data:
  assumes "same_data d d'"
  shows "same_data (count_in p f m d) (count_in p f m d')"
proof -
  have h: "nohead d' = nohead d" and n: "map nolink (dp_Nodes d') = map nolink (dp_Nodes d)"
    using assms by (simp_all add: same_data_def)
  note f = same_data_fields [OF assms]
  have "nohead (count_in p f m d') = count_in p f m (nohead d')" for d' by (simp add: nohead_def count_in_eq)
  then have "nohead (count_in p f m d') = nohead (count_in p f m d)" using h by simp
  moreover have "dp_Nodes (count_in p f m d) = dp_Nodes d" for d by (simp add: count_in_eq)
  ultimately show ?thesis using n by (simp add: same_data_def)
qed

lemma DispFifo_SetStatus_ok:
  assumes "df_ok F" "0 \<le> f" "nat f < AL_REFMNGR_MAX_POOL_SIZE"
  shows "\<exists>s. DispFifo_SetStatus F f e = Some (F\<lparr>df_pFrmStatus := s\<rparr>) \<and> df_ok (F\<lparr>df_pFrmStatus := s\<rparr>)
    \<and> s = (df_pFrmStatus F)[nat f := e]"
  using assms by (auto simp: DispFifo_SetStatus_def df_ok_def df_frms_def)

text \<open>
  The node filled and counted, not yet linked: the data already are those of a list with the new
  picture.
\<close>

lemma filled_ok:
  assumes ok: "dpb_ok d P L D" and x: "x \<notin> set P" "in_range d x" and args: "insert_args p f m" and room: "insert_room d"
    and i: "with_ids d d1" "ids_ok (set_nd d1 x (fill_node p x f m i)) (x # P)"
      "waiting_ok (set_nd d1 x (fill_node p x f m i)) (x # P)" "ip_bNonExisting p \<longrightarrow> i = AL_BAD_INDEX"
    and F: "df_ok F" "df_frms F = df_frms (dp_DispFifo d)" "df_uNumFrm F = df_uNumFrm (dp_DispFifo d)"
  defines "d2 \<equiv> (set_nd (d1\<lparr>dp_tCurRefNodeID := x\<rparr>) x (fill_node p x f m i))\<lparr>dp_DispFifo := F\<rparr>"
  shows "data_ok (count_in p f m d2) (x # P)" "lists_ok d2 P L D"
    "\<And>y. y \<in> set P \<Longrightarrow> nd d2 y = nd d y" "nd d2 x = fill_node p x f m i (nd d x)"
    "dp_log (count_in p f m d2) = dp_log d @ insert_calls p f m" "length (dp_Nodes d2) = length (dp_Nodes d)"
proof -
  have ls: "lists_ok d P L D" and dt: "data_ok d P" using ok by (simp_all add: dpb_ok_def)
  note ds = lists_dist [OF ls] and pt = dpb_ok_parts [OF ok]
  have x0: "0 \<le> x" using x(2) by (simp add: in_range_def)
  have P0: "0 \<le> y" "y \<noteq> x" if "y \<in> set P" for y using that ds(6) x(1) by (auto simp: in_range_def)
  have fld1: "nd d1 y = nd d y" "in_range d1 y = in_range d y" "dp_log d1 = dp_log d" "dp_DispFifo d1 = dp_DispFifo d"
    "dp_uCountRef d1 = dp_uCountRef d" "dp_uCountPic d1 = dp_uCountPic d" "dp_uNumOutputPic d1 = dp_uNumOutputPic d"
    "keeps_deleted d d1" "same_links d d1" "length (dp_Nodes d1) = length (dp_Nodes d)" for y
    using i(1) by (auto simp: with_ids_def keeps_deleted_def same_links_def same_poc_def same_lsb_def same_dec_def)
  have nd2: "nd d2 y = (if y = x then fill_node p x f m i (nd d x) else nd d y)" if "0 \<le> y" for y
    using that x(2) by (simp add: d2_def fld1)
  show "nd d2 y = nd d y" if "y \<in> set P" for y using nd2 P0 [OF that] by simp
  show "nd d2 x = fill_node p x f m i (nd d x)" using nd2 x0 by simp
  show "length (dp_Nodes d2) = length (dp_Nodes d)" by (simp add: d2_def fld1)
  show lg: "dp_log (count_in p f m d2) = dp_log d @ insert_calls p f m"
    using args by (auto simp: count_in_eq d2_def fld1 insert_args_def insert_calls_def split: if_splits)
  show "lists_ok d2 P L D"
  proof -
    have "lists_ok (d1\<lparr>dp_tCurRefNodeID := x, dp_DispFifo := F\<rparr>) P L D"
      using ls fld1(9) by (simp add: lists_ok_def poc_list_def lsb_list_def dec_list_def same_links_def
          same_poc_def same_lsb_def same_dec_def in_range_def)
    moreover have "d2 = set_nd (d1\<lparr>dp_tCurRefNodeID := x, dp_DispFifo := F\<rparr>) x (fill_node p x f m i)"
      by (simp add: d2_def set_nd_def nd_def)
    ultimately show ?thesis using x lists_ok_outside by (simp add: fld1)
  qed
  let ?d3 = "count_in p f m d2"
  have nd3: "nd ?d3 y = nd d2 y" "in_range ?d3 y = in_range d y" for y by (simp_all add: count_in_eq d2_def fld1)
  have fl: "marked ?d3 y = marked d y" "outp ?d3 y = outp d y" "absent ?d3 y = absent d y" if "0 \<le> y" "y \<noteq> x" for y
    using nd2 [OF that(1)] that(2) by (simp_all add: marked_def outp_def absent_def nd3)
  have flx: "marked ?d3 x = (ip_eMarkingFlag p \<noteq> UNUSED_FOR_REF)" "outp ?d3 x = ip_bPicOutputFlag p" "absent ?d3 x = ip_bNonExisting p"
    using nd2 [OF x0] by (simp_all add: marked_def outp_def absent_def nd3)
  have ff: "filter (marked ?d3) P = filter (marked d) P" "filter (outp ?d3) P = filter (outp d) P"
    by (rule filter_cong; simp add: fl P0)+
  have n: "nodes_ok d P" "counts_ok d P" "deleted_ok d" "room_ok d P" "log_ok d P" using dt by (simp_all add: data_ok_def)
  have "nodes_ok ?d3 (x # P)"
  proof (rule nodes_okI)
    show "length (dp_Nodes ?d3) = AL_REF_MNGR_MAX_BUF_SIZE"
      using n(1) by (simp add: nodes_ok_def count_in_eq d2_def fld1)
    fix y assume "in_range ?d3 y"
    then have y: "in_range d y" by (simp only: nd3)
    then have "0 \<le> y" by (simp add: in_range_def)
    note y = y this
    show "node_in ?d3 y" if "y \<in> set (x # P)"
    proof (cases "y = x")
      case True
      have "node_in ?d3 x"
        unfolding node_in_def flx nd3 using args i(4) nd2 [OF x0] by (simp add: insert_args_def split: if_splits)
      then show ?thesis using True by simp
    next
      case False
      then show ?thesis using that nodes_okD(1) [OF n(1) y(1)] fl [OF y(2) False] nd2 [OF y(2)]
        by (simp add: node_in_def nd3)
    qed
    show "node_out ?d3 y" if "y \<notin> set (x # P)"
      using that nodes_okD(2) [OF n(1) y(1)] fl [OF y(2)] nd2 [OF y(2)] by (simp add: node_out_def nd3)
  qed
  moreover have "counts_ok ?d3 (x # P)"
  proof -
    have small: "length P < 255" using pt(3) by (simp add: AL_REF_MNGR_MAX_BUF_SIZE_def)
    then have "length (filter (marked d) P) < 255" "length (filter (outp d) P) < 255"
      using le_less_trans [OF length_filter_le] by blast+
    moreover have "dp_uCountPic ?d3 = inc8 (dp_uCountPic d)"
      "dp_uCountRef ?d3 = (if ip_eMarkingFlag p \<noteq> UNUSED_FOR_REF then inc8 (dp_uCountRef d) else dp_uCountRef d)"
      "dp_uNumOutputPic ?d3 = (if ip_bPicOutputFlag p then inc8 (dp_uNumOutputPic d) else dp_uNumOutputPic d)"
      by (simp_all add: count_in_eq d2_def fld1)
    ultimately show ?thesis using n(2) small flx ff by (simp add: counts_ok_def inc8_less)
  qed
  moreover have "ids_ok ?d3 (x # P)"
    by (subst ids_ok_cong [where d = "set_nd d1 x (fill_node p x f m i)"])
      (use i(2) x P0 nd2 x0 in \<open>auto simp: count_in_eq d2_def fld1\<close>)
  moreover have "waiting_ok ?d3 (x # P)"
  proof -
    have "nd ?d3 y = nd (set_nd d1 x (fill_node p x f m i)) y" if "y \<in> set (x # P)" for y
      using that x P0 x0 nd2 by (auto simp: nd3 fld1)
    moreover have "dp_bPicWaiting ?d3 = dp_bPicWaiting d1" "dp_tNodeWaitingID ?d3 = dp_tNodeWaitingID d1"
      "dp_tFrmWaitingID ?d3 = dp_tFrmWaitingID d1" "dp_tMvWaitingID ?d3 = dp_tMvWaitingID d1"
      by (simp_all add: count_in_eq d2_def)
    ultimately show ?thesis using i(3) by (auto simp: waiting_ok_def absent_def split: if_splits)
  qed
  moreover have dl: "deleted_ok ?d3" "deleted_frms ?d3 = deleted_frms d" "deleted_mvs ?d3 = deleted_mvs d"
    "dp_iNumDeletedPic ?d3 = dp_iNumDeletedPic d"
    using keeps_deleted_frms [OF fld1(8)] n(3) fld1(8)
    by (simp_all add: count_in_eq d2_def deleted_ok_def deleted_frms_def deleted_mvs_def keeps_deleted_def)
  moreover have fifo: "dp_DispFifo ?d3 = F" by (simp add: count_in_eq d2_def)
  moreover have "room_ok ?d3 (x # P)"
    using room n(4) flx ff F(3) dl(4) fifo pt(4,5) by (simp add: room_ok_def insert_room_def)
  moreover have "log_ok ?d3 (x # P)"
  proof -
    note ev = events_append [OF lg]
    have fr: "frames ?d3 P = frames d P" "mvs ?d3 P = mvs d P"
      by (rule list_data_cong; simp add: nd3 nd2 P0 fl)+
    have "frames ?d3 (x # P) = (if ip_bNonExisting p then [] else [f]) @ frames d P"
      "mvs ?d3 (x # P) = (if ip_bNonExisting p then [] else [m]) @ mvs d P"
      using fr flx(3) nd2 [OF x0] by (simp_all add: frames_def mvs_def nd3)
    then show ?thesis
      using n(5) F(2) dl fifo unfolding log_ok_def ev by (auto simp: insert_calls_def)
  qed
  ultimately show "data_ok ?d3 (x # P)" using F(1) by (simp add: data_ok_def)
qed

text \<open>The free node, cleared if it still holds a picture that is neither reference nor to be output.\<close>

lemma find_free_node:
  assumes "nodes_ok d P" "AL_IS_VALID_INDEX (AL_Dpb_sGetNextFreeNode d)"
  shows "in_range d (AL_Dpb_sGetNextFreeNode d)" "\<not> marked d (AL_Dpb_sGetNextFreeNode d)"
    "\<not> outp d (AL_Dpb_sGetNextFreeNode d)"
proof -
  obtain i where i: "AL_Dpb_sGetNextFreeNode d = int i" "i < AL_REF_MNGR_MAX_BUF_SIZE"
    "nd_eMarkingFlag (dp_Nodes d ! i) = UNUSED_FOR_REF" "\<not> nd_bPicOutputFlag (dp_Nodes d ! i)"
    using assms(2) unfolding AL_Dpb_sGetNextFreeNode_def
    by (auto simp: find_Some_iff AL_BAD_INDEX_def split: option.splits)
  then show "in_range d (AL_Dpb_sGetNextFreeNode d)" "\<not> marked d (AL_Dpb_sGetNextFreeNode d)"
    "\<not> outp d (AL_Dpb_sGetNextFreeNode d)"
    using assms(1) by (simp_all add: in_range_def nodes_ok_def marked_def outp_def nd_def)
qed

definition same_pic :: "AL_TDpb \<Rightarrow> AL_TDpb \<Rightarrow> index \<Rightarrow> bool" where
  "same_pic d d' y \<longleftrightarrow> nd_tFrameID (nd d' y) = nd_tFrameID (nd d y) \<and> nd_iFramePOC (nd d' y) = nd_iFramePOC (nd d y)
     \<and> nd_slice_pic_order_cnt_lsb (nd d' y) = nd_slice_pic_order_cnt_lsb (nd d y)
     \<and> marked d' y = marked d y \<and> outp d' y = outp d y \<and> absent d' y = absent d y"

text \<open>What an insertion did: the new list in picture order and the new picture.\<close>

definition inserted :: "AL_TDpbInsertParam \<Rightarrow> index \<Rightarrow> index list \<Rightarrow> AL_TDpb \<Rightarrow> AL_TDpb \<Rightarrow> index list \<Rightarrow> bool" where
  "inserted p f P d d' P' \<longleftrightarrow> (\<exists>x. P' = place (\<lambda>y. nd_iFramePOC (nd d y)) (ip_iFramePOC p) x (removeAll x P)
     \<and> (x \<in> set P \<longrightarrow> \<not> marked d x \<and> \<not> outp d x)
     \<and> nd_iFramePOC (nd d' x) = ip_iFramePOC p \<and> nd_tFrameID (nd d' x) = f \<and> marked d' x = (ip_eMarkingFlag p \<noteq> UNUSED_FOR_REF)
     \<and> outp d' x = ip_bPicOutputFlag p \<and> absent d' x = ip_bNonExisting p
     \<and> (\<forall>y \<in> set P. y \<noteq> x \<longrightarrow> same_pic d d' y))"

lemma clear_free_node:
  assumes ok: "dpb_ok d P L D" and x: "in_range d x" "\<not> marked d x" "\<not> outp d x" and room: "insert_room d"
  shows "\<exists>d1. (do { r \<leftarrow> AL_Dpb_sNodeIsReset d x; if \<not> r then map_option snd (AL_Dpb_Remove d x) else Some d }) = Some d1
    \<and> dpb_ok d1 (removeAll x P) (removeAll x L) (removeAll x D) \<and> insert_room d1 \<and> dp_log d1 = dp_log d
    \<and> df_frms (dp_DispFifo d1) = df_frms (dp_DispFifo d) \<and> in_range d1 x
    \<and> (\<forall>y \<in> set P. y \<noteq> x \<longrightarrow> same_pic d d1 y)"
proof (cases "x \<in> set P")
  case True
  note pt = dpb_ok_parts [OF ok]
  have nr: "AL_Dpb_sNodeIsReset d x = Some False"
    using nodes_okD(1) [OF pt(8) x(1) True] x(1) by (simp add: AL_Dpb_sNodeIsReset_def node_in_def)
  obtain d1 where d1: "AL_Dpb_Remove d x = Some (nd_tFrameID (nd d x), d1)"
    "dpb_ok d1 (removeAll x P) (removeAll x L) (removeAll x D)" "keeps (set (removeAll x P)) d d1"
    "parted (if absent d x then None else Some (nd_tFrameID (nd d x))) (nd_tMvID (nd d x)) d d1"
    using AL_Dpb_Remove_ok [OF ok True x(3)] by blast
  note pt1 = dpb_ok_parts [OF d1(2)]
  have len: "length P = Suc (length (removeAll x P))"
    using filter_removeAll_length [OF pt(2) True, of "\<lambda>_. True"] by simp
  have "length (filter (outp d1) (removeAll x P)) = length (filter (outp d) P)"
    using keeps_filters(2) [OF d1(3) subset_refl] filter_removeAll_length [OF pt(2) True, of "outp d"] x(3) by simp
  moreover have "dp_iNumDeletedPic d1 \<le> Suc (dp_iNumDeletedPic d)"
    using d1(4) by (auto simp: parted_def split: option.splits)
  ultimately have "insert_room d1"
    using room pt(4,5) pt1(4,5) len d1(3) by (simp add: insert_room_def keeps_def)
  moreover have "in_range d1 x"
    using x(1) pt(8) pt1(8) by (simp add: in_range_def nodes_ok_def)
  moreover have "\<forall>y \<in> set P. y \<noteq> x \<longrightarrow> same_pic d d1 y"
    using keepsD [OF d1(3)] by (simp add: same_pic_def)
  ultimately show ?thesis using nr d1 by (simp add: keeps_def)
next
  case False
  have "AL_Dpb_sNodeIsReset d x = Some True"
    using nodes_okD(2) [OF dpb_ok_parts(8) [OF ok] x(1) False] x(1) by (simp add: AL_Dpb_sNodeIsReset_def node_out_def)
  moreover have "removeAll x P = P" "removeAll x L = L" "removeAll x D = D"
    using False lists_dist(4,5) [of d P L D] ok by (simp_all add: dpb_ok_def removeAll_id)
  ultimately show ?thesis using ok room x(1) by (simp add: same_pic_def)
qed

lemma sApiInsert_ok:
  assumes ok: "dpb_ok d P L D" and args: "insert_args p f m" and room: "insert_room d"
  shows "\<exists>d'. sApiInsert d f m p = Some d' \<and>
    (if AL_IS_VALID_INDEX (AL_Dpb_sGetNextFreeNode d)
     then \<exists>P' L' D'. dpb_ok d' P' L' D' \<and> inserted p f P d d' P' \<and> dp_log d' = dp_log d @ insert_calls p f m
       \<and> df_frms (dp_DispFifo d') = df_frms (dp_DispFifo d)
     else d' = d)"
proof (cases "AL_IS_VALID_INDEX (AL_Dpb_sGetNextFreeNode d)")
  case False
  then show ?thesis by (simp add: sApiInsert_def Let_def)
next
  case valid: True
  let ?x = "AL_Dpb_sGetNextFreeNode d"
  let ?P = "removeAll ?x P" and ?L = "removeAll ?x L" and ?D = "removeAll ?x D"
  note free = find_free_node [OF dpb_ok_parts(8) [OF ok] valid]
  obtain d1 where d1: "(do { r \<leftarrow> AL_Dpb_sNodeIsReset d ?x; if \<not> r then map_option snd (AL_Dpb_Remove d ?x) else Some d }) = Some d1"
    "dpb_ok d1 ?P ?L ?D" "insert_room d1" "dp_log d1 = dp_log d" "df_frms (dp_DispFifo d1) = df_frms (dp_DispFifo d)" "in_range d1 ?x"
    "\<forall>y \<in> set P. y \<noteq> ?x \<longrightarrow> same_pic d d1 y"
    using clear_free_node [OF ok free room] by blast
  have ls: "lists_ok d1 ?P ?L ?D" and dt: "data_ok d1 ?P" and od: "ordered d1 ?P ?L" using d1(2) by (simp_all add: dpb_ok_def)
  note ds = lists_dist [OF ls]
  have P0: "\<forall>y \<in> set ?P. 0 \<le> y" using ds(6) by (auto simp: in_range_def)
  have x0: "0 \<le> ?x" using d1(6) by (simp add: in_range_def)
  obtain i d2 where d2: "assign_pic_id d1 p ?x f m = Some (i, d2)" "with_ids d1 d2"
    "ids_ok (set_nd d2 ?x (fill_node p ?x f m i)) (?x # ?P)" "waiting_ok (set_nd d2 ?x (fill_node p ?x f m i)) (?x # ?P)"
    "ip_bNonExisting p \<longrightarrow> i = AL_BAD_INDEX"
    using assign_pic_id_ok [of d1 ?P ?x p f m] dt ds(1) d1(6) P0 args by (auto simp: data_ok_def)
  let ?e = "if ip_bPicOutputFlag p then AL_NOT_READY_FOR_OUTPUT else AL_NOT_NEEDED_FOR_OUTPUT"
  let ?d3 = "set_nd (d2\<lparr>dp_tCurRefNodeID := ?x\<rparr>) ?x (fill_node p ?x f m i)"
  have fifo: "dp_DispFifo d2 = dp_DispFifo d1" "in_range d2 ?x" using d2(2) d1(6) by (auto simp: with_ids_def)
  have dfok: "df_ok (dp_DispFifo d1)" using dt by (simp add: data_ok_def)
  obtain F where F: "df_ok F" "df_frms F = df_frms (dp_DispFifo d1)" "df_uNumFrm F = df_uNumFrm (dp_DispFifo d1)"
    and st: "(if AL_IS_VALID_INDEX f
             then do { F \<leftarrow> DispFifo_SetStatus (dp_DispFifo ?d3) f ?e; Some (?d3\<lparr>dp_DispFifo := F\<rparr>) }
             else Some ?d3) = Some (?d3\<lparr>dp_DispFifo := F\<rparr>)"
  proof (cases "0 \<le> f")
    case True
    then have "nat f < AL_REFMNGR_MAX_POOL_SIZE" using args by (auto simp: insert_args_def split: if_splits)
    then obtain s where "DispFifo_SetStatus (dp_DispFifo d1) f ?e = Some ((dp_DispFifo d1)\<lparr>df_pFrmStatus := s\<rparr>)"
      "df_ok ((dp_DispFifo d1)\<lparr>df_pFrmStatus := s\<rparr>)"
      using DispFifo_SetStatus_ok [OF dfok True] by blast
    then show ?thesis using that [of "(dp_DispFifo d1)\<lparr>df_pFrmStatus := s\<rparr>"] True fifo by (simp add: df_frms_def)
  next
    case False
    have "?d3 = ?d3\<lparr>dp_DispFifo := dp_DispFifo d1\<rparr>" using fifo by simp
    then show ?thesis using that [of "dp_DispFifo d1"] False dfok by simp
  qed
  let ?d4 = "?d3\<lparr>dp_DispFifo := F\<rparr>"
  have xP: "?x \<notin> set ?P" by simp
  note fo = filled_ok [OF d1(2) xP d1(6) args d1(3) d2(2-5) F]
  have len: "length (dp_Nodes d1) = AL_REF_MNGR_MAX_BUF_SIZE" using dpb_ok_parts(8) [OF d1(2)] by (simp add: nodes_ok_def)
  have r4: "in_range ?d4 ?x" using fifo(2) by simp
  let ?pk = "\<lambda>d y. nd_iFramePOC (nd d y)" and ?lk = "\<lambda>d y. nd_slice_pic_order_cnt_lsb (nd d y)"
  obtain d5 where d5: "link_node ?x p ?d4 = Some d5" "same_data ?d4 d5"
    "lists_ok d5 (place (?pk ?d4) (ip_iFramePOC p) ?x ?P) (place (?lk ?d4) (ip_iPocLsb p) ?x ?L) (?D @ [?x])"
    using link_node_ok [OF fo(2) _ r4 xP, of p] len fo(6) by auto
  let ?P' = "place (?pk ?d4) (ip_iFramePOC p) ?x ?P" and ?L' = "place (?lk ?d4) (ip_iPocLsb p) ?x ?L"
  let ?d' = "count_in p f m d5"
  have sd: "same_data (count_in p f m ?d4) ?d'" by (rule count_in_same_data [OF d5(2)])
  have nd': "nd ?d' y = nd d5 y" "nd (count_in p f m ?d4) y = nd ?d4 y" "in_range (count_in p f m ?d4) y = in_range d1 y" for y
    using fo(6) by (simp_all add: count_in_eq in_range_def nd_def)
  have rng: "in_range d1 y" if "y \<in> set (?x # ?P)" for y using that d1(6) ds(6) by auto
  note sn = same_data_nd [OF sd, unfolded nd', OF rng]
  have run: "sApiInsert d f m p = Some ?d'"
  proof -
    obtain r where r: "AL_Dpb_sNodeIsReset d ?x = Some r" "(if \<not> r then map_option snd (AL_Dpb_Remove d ?x) else Some d) = Some d1"
      using d1(1) by (auto split: bind_splits)
    have up: "upd_node (d2\<lparr>dp_tCurRefNodeID := ?x\<rparr>) ?x (fill_node p ?x f m i) = Some ?d3"
      by (rule upd_node_Some) (simp add: fifo(2))
    show ?thesis
      by (simp only: sApiInsert_def Let_def valid not_True_eq_False if_False bind.bind_lunit r d2(1) prod.case up st d5(1)
          count_in_def)
  qed
  have "data_ok ?d' (?x # ?P)"
    using same_data_ok [OF sd] fo(1) rng nd'(3) by blast
  then have "data_ok ?d' ?P'" by (subst data_ok_mset [where Q = "?x # ?P"]) simp_all
  moreover have "lists_ok ?d' ?P' ?L' (?D @ [?x])"
    using d5(3) by (simp add: count_in_eq lists_ok_def poc_list_def lsb_list_def dec_list_def in_range_def)
  moreover have "ordered ?d' ?P' ?L'"
  proof -
    have k: "?pk ?d' y = ?pk ?d4 y" "?lk ?d' y = ?lk ?d4 y" if "y \<in> set (?x # ?P)" for y
      using sn(5,6) [OF that] by (simp_all add: nd')
    have o: "map (?pk ?d4) ?P = map (?pk d1) ?P" "map (?lk ?d4) ?L = map (?lk d1) ?L"
      using fo(3) ds(4) by simp_all
    have "sorted (map (?pk ?d4) ?P')" "sorted (map (?lk ?d4) ?L')"
      by (rule place_sorted; use od o fo(4) in \<open>simp add: ordered_def del: map_eq_conv\<close>)+
    moreover have "map (?pk ?d') ?P' = map (?pk ?d4) ?P'" "map (?lk ?d') ?L' = map (?lk ?d4) ?L'"
      using k ds(4) by (auto intro!: map_cong)
    ultimately show ?thesis unfolding ordered_def by (simp only:)
  qed
  ultimately have "dpb_ok ?d' ?P' ?L' (?D @ [?x])" by (simp add: dpb_ok_def)
  moreover have "inserted p f P d ?d' ?P'"
    unfolding inserted_def
  proof (intro exI [of _ ?x] conjI ballI impI)
    have "?pk ?d4 y = ?pk d y" if "y \<in> set ?P" for y
      using fo(3) [OF that] d1(7) that by (simp add: same_pic_def)
    then show "?P' = place (?pk d) (ip_iFramePOC p) ?x ?P" by (rule place_cong)
    have xs: "?x \<in> set (?x # ?P)" by simp
    show "nd_iFramePOC (nd ?d' ?x) = ip_iFramePOC p" "nd_tFrameID (nd ?d' ?x) = f"
      using sn(5,2) [OF xs] fo(4) by (simp_all add: nd')
    have fl: "marked (count_in p f m ?d4) y = marked ?d4 y" "outp (count_in p f m ?d4) y = outp ?d4 y"
      "absent (count_in p f m ?d4) y = absent ?d4 y" for y
      by (simp_all add: marked_def outp_def absent_def nd')
    have "marked ?d4 ?x = (ip_eMarkingFlag p \<noteq> UNUSED_FOR_REF)" "outp ?d4 ?x = ip_bPicOutputFlag p"
      "absent ?d4 ?x = ip_bNonExisting p"
      unfolding marked_def outp_def absent_def fo(4) by simp_all
    then show "marked ?d' ?x = (ip_eMarkingFlag p \<noteq> UNUSED_FOR_REF)" "outp ?d' ?x = ip_bPicOutputFlag p"
      "absent ?d' ?x = ip_bNonExisting p"
      using sn(8-10) [OF xs] fl by (simp_all only:)
    fix y assume y: "y \<in> set P" "y \<noteq> ?x"
    then have "y \<in> set (?x # ?P)" "y \<in> set ?P" by simp_all
    moreover have "marked ?d4 y = marked d1 y" "outp ?d4 y = outp d1 y" "absent ?d4 y = absent d1 y"
      using fo(3) [OF \<open>y \<in> set ?P\<close>] by (simp_all add: marked_def outp_def absent_def)
    ultimately have "same_pic d1 ?d' y"
      using sn [OF \<open>y \<in> set (?x # ?P)\<close>] fo(3) fl by (simp add: same_pic_def nd')
    then show "same_pic d ?d' y" using d1(7) y by (simp add: same_pic_def)
  qed (use free in auto)
  moreover have "dp_log ?d' = dp_log d @ insert_calls p f m" "df_frms (dp_DispFifo ?d') = df_frms (dp_DispFifo d)"
    using same_data_fields(1,24) [OF sd] fo(5) d1(4,5) F(2) by (simp_all add: count_in_eq)
  ultimately show ?thesis using run valid by auto
qed

end
