(* ===== verification/Dpb_System.thy ===== *)
theory Dpb_System
  imports Dpb_Insert
begin

text \<open>
  The decoded picture buffer as a system (\<open>DPB.c\<close>): initialisation, the end of a decoding, the marking
  and the display of the pictures as steps, the states they reach, and what holds in all of them.
\<close>

section \<open>Initialisation\<close>

text \<open>The memory of a buffer before \<open>sApiInit\<close>: arrays of the sizes of \<open>AL_TDpb\<close> and anything in them.\<close>

definition dpb_alloc :: "AL_TDpb \<Rightarrow> bool" where
  "dpb_alloc d \<longleftrightarrow> length (dp_Nodes d) = AL_REF_MNGR_MAX_BUF_SIZE
     \<and> length (df_pPicLatency (dp_DispFifo d)) = AL_REFMNGR_MAX_POOL_SIZE
     \<and> length (dp_pDeletedFrmIDLst d) = AL_REFMNGR_MAX_POOL_SIZE
     \<and> length (dp_pDeletedMvIDLst d) = AL_REF_MNGR_MAX_BUF_SIZE \<and> dp_log d = []"

lemma reset_all_nodes_ok:
  assumes "length (dp_Nodes d) = AL_REF_MNGR_MAX_BUF_SIZE" "AL_Dpb_sResetWaiting d = d"
  shows "reset_all_nodes d = Some (d\<lparr>dp_Nodes := map reset_node (dp_Nodes d)\<rparr>)"
proof -
  let ?f = "\<lambda>i d. do { d \<leftarrow> upd_node d (int i) (\<lambda>n. n\<lparr>nd_tNodeID := AL_BAD_INDEX\<rparr>); AL_Dpb_sResetNodeInfo d (int i) }"
  have w: "dp_tNodeWaitingID d = AL_BAD_INDEX" "dp_tFrmWaitingID d = AL_BAD_INDEX" "dp_tMvWaitingID d = AL_BAD_INDEX"
    "\<not> dp_bPicWaiting d"
    using assms(2) by (auto simp: AL_Dpb_sResetWaiting_def AL_TDpb.equality dest: arg_cong [where f = dp_tNodeWaitingID]
      arg_cong [where f = dp_tFrmWaitingID] arg_cong [where f = dp_tMvWaitingID] arg_cong [where f = dp_bPicWaiting])
  have "k \<le> AL_REF_MNGR_MAX_BUF_SIZE \<Longrightarrow>
      foldM ?f [0..<k] d = Some (d\<lparr>dp_Nodes := map reset_node (take k (dp_Nodes d)) @ drop k (dp_Nodes d)\<rparr>)" for k
  proof (induction k)
    case 0
    then show ?case by simp
  next
    case (Suc k)
    let ?N = "map reset_node (take k (dp_Nodes d)) @ drop k (dp_Nodes d)"
    let ?d = "d\<lparr>dp_Nodes := ?N\<rparr>"
    have k: "k < length (dp_Nodes d)" "k < length ?N" using Suc.prems assms(1) by simp_all
    have nk: "?N ! k = dp_Nodes d ! k" using k by (simp add: nth_append)
    have r: "in_range ?d (int k)" using k by (simp add: in_range_def)
    have "?f k ?d = Some (d\<lparr>dp_Nodes := ?N[k := reset_node (dp_Nodes d ! k)]\<rparr>)"
    proof -
      let ?d1 = "set_nd ?d (int k) (\<lambda>n. n\<lparr>nd_tNodeID := AL_BAD_INDEX\<rparr>)"
      have "AL_Dpb_sResetWaiting ?d1 = ?d1" using w by (simp add: AL_Dpb_sResetWaiting_def set_nd_def)
      moreover have "set_nd ?d1 (int k) reset_node = d\<lparr>dp_Nodes := ?N[k := reset_node (dp_Nodes d ! k)]\<rparr>"
        using k nk by (simp add: set_nd_def nd_def reset_node_def)
      ultimately show ?thesis using r w(1) by (simp add: AL_Dpb_sResetNodeInfo_def)
    qed
    moreover have "?N[k := reset_node (dp_Nodes d ! k)] = map reset_node (take (Suc k) (dp_Nodes d)) @ drop (Suc k) (dp_Nodes d)"
      using k(1) by (simp add: take_Suc_conv_app_nth list_update_append flip: Cons_nth_drop_Suc)
    ultimately have "?f k ?d = Some (d\<lparr>dp_Nodes := map reset_node (take (Suc k) (dp_Nodes d)) @ drop (Suc k) (dp_Nodes d)\<rparr>)"
      by simp
    moreover have "foldM ?f [0..<k] d = Some ?d" using Suc by simp
    ultimately show ?case by (simp only: upt_Suc_append foldM_append foldM_one bind.bind_lunit le0)
  qed
  from this [of AL_REF_MNGR_MAX_BUF_SIZE] show ?thesis using assms(1) by (simp add: reset_all_nodes_def)
qed

lemma sApiInit_ok:
  assumes "dpb_alloc d"
  shows "\<exists>d'. sApiInit True d = Some (True, d') \<and> dpb_ok d' [] [] []"
proof -
  have a: "length (dp_Nodes d) = AL_REF_MNGR_MAX_BUF_SIZE"
     "length (df_pPicLatency (dp_DispFifo d)) = AL_REFMNGR_MAX_POOL_SIZE"
     "length (dp_pDeletedFrmIDLst d) = AL_REFMNGR_MAX_POOL_SIZE"
     "length (dp_pDeletedMvIDLst d) = AL_REF_MNGR_MAX_BUF_SIZE" "dp_log d = []"
    using assms by (simp_all add: dpb_alloc_def)
  let ?d1 = "AL_Dpb_sResetWaiting (d\<lparr>dp_FreePicIDs := map int [0..<AL_MAX_REF], dp_PicId2NodeId := replicate AL_MAX_REF AL_BAD_INDEX,
          dp_PicId2FrmId := replicate AL_MAX_REF AL_BAD_INDEX, dp_PicId2MvId := replicate AL_MAX_REF AL_BAD_INDEX,
          dp_FreePicIdCnt := AL_MAX_REF\<rparr>)"
  let ?d2 = "(?d1\<lparr>dp_Nodes := map reset_node (dp_Nodes d)\<rparr>)\<lparr>dp_tHeadDecOrderNodeID := AL_BAD_INDEX, dp_tHeadPOCNodeID := AL_BAD_INDEX,
          dp_tLastPOCNodeID := AL_BAD_INDEX, dp_tHeadPocLsbNodeID := AL_BAD_INDEX,
          dp_uCountRef := 0, dp_uCountPic := 0, dp_tCurRefNodeID := 0, dp_uNumOutputPic := 0,
          dp_iLastDisplayedPOC := INT32_MIN,
          dp_iDeletedFrmLstHead := 0, dp_iDeletedFrmLstTail := 0, dp_iDeletedMvLstHead := 0,
          dp_iDeletedMvLstTail := 0, dp_iNumDeletedPic := 0, dp_iCurFramePOC := 0, dp_DispFifo := DispFifo_Init (dp_DispFifo d)\<rparr>"
  have "reset_all_nodes ?d1 = Some (?d1\<lparr>dp_Nodes := map reset_node (dp_Nodes ?d1)\<rparr>)"
    by (rule reset_all_nodes_ok) (simp_all add: a AL_Dpb_sResetWaiting_def)
  then have "sApiInit True d = Some (True, ?d2)"
    by (simp add: sApiInit_def Let_def AL_Dpb_sResetWaiting_def)
  moreover have "dpb_ok ?d2 [] [] []"
  proof -
    have nd: "nd ?d2 x = reset_node (dp_Nodes d ! nat x)" if "in_range ?d2 x" for x
      using that by (simp add: nd_def in_range_def)
    have "nodes_ok ?d2 []"
    proof (rule nodes_okI)
      fix y assume y: "in_range ?d2 y"
      show "node_out ?d2 y" unfolding node_out_def marked_def outp_def nd [OF y] by simp
    qed (simp_all add: a)
    moreover have "counts_ok ?d2 []" "waiting_ok ?d2 []" "deleted_ok ?d2" "room_ok ?d2 []"
      by (simp_all add: counts_ok_def waiting_ok_def deleted_ok_def room_ok_def a AL_Dpb_sResetWaiting_def DispFifo_Init_def)
    moreover have "ids_ok ?d2 []"
      by (auto simp: ids_ok_def held_ids_def AL_Dpb_sResetWaiting_def AL_MAX_REF_def)
    moreover have "df_ok (dp_DispFifo ?d2)"
      by (simp add: df_ok_def df_frms_def DispFifo_Init_def a)
    moreover have "log_ok ?d2 []"
      by (simp add: log_ok_def events_def a frames_def mvs_def deleted_frms_def deleted_mvs_def df_frms_def
          AL_Dpb_sResetWaiting_def DispFifo_Init_def)
    moreover have "lists_ok ?d2 [] [] []" "ordered ?d2 [] []"
      by (simp_all add: lists_ok_def poc_list_def lsb_list_def dec_list_def dll_def ordered_def)
    ultimately show ?thesis by (simp add: dpb_ok_def data_ok_def)
  qed
  ultimately show ?thesis by blast
qed

section \<open>The end of a decoding\<close>

definition given_back :: "nat \<Rightarrow> AL_TDpb \<Rightarrow> dpb_event list" where
  "given_back n d = concat (map (\<lambda>(f, m). [DecrementFrmBuf f, DecrementAnnexBuf m])
     (zip (take n (deleted_frms d)) (take n (deleted_mvs d))))"

definition drop_deleted :: "nat \<Rightarrow> AL_TDpb \<Rightarrow> AL_TDpb" where
  "drop_deleted n d = d\<lparr>dp_log := dp_log d @ given_back n d,
     dp_iDeletedFrmLstHead := (dp_iDeletedFrmLstHead d + n) mod AL_REFMNGR_MAX_POOL_SIZE,
     dp_iDeletedMvLstHead := (dp_iDeletedMvLstHead d + n) mod AL_REF_MNGR_MAX_BUF_SIZE,
     dp_iNumDeletedPic := dp_iNumDeletedPic d - n\<rparr>"

lemma release_unused_loop_ok:
  assumes "deleted_ok d" "n \<le> dp_iNumDeletedPic d"
  shows "release_unused_loop n d = Some (drop_deleted n d)"
  using assms
proof (induction n arbitrary: d)
  case 0
  have "dp_iDeletedFrmLstHead d mod AL_REFMNGR_MAX_POOL_SIZE = dp_iDeletedFrmLstHead d"
    "dp_iDeletedMvLstHead d mod AL_REF_MNGR_MAX_BUF_SIZE = dp_iDeletedMvLstHead d"
    using 0 by (simp_all add: deleted_ok_def)
  then show ?case by (simp add: drop_deleted_def given_back_def)
next
  case (Suc n)
  let ?F = "dp_pDeletedFrmIDLst d" and ?M = "dp_pDeletedMvIDLst d"
  let ?h = "dp_iDeletedFrmLstHead d" and ?g = "dp_iDeletedMvLstHead d"
  obtain k where k: "dp_iNumDeletedPic d = Suc k" using Suc.prems(2) by (cases "dp_iNumDeletedPic d") auto
  have sz: "length ?F = AL_REFMNGR_MAX_POOL_SIZE" "length ?M = AL_REF_MNGR_MAX_BUF_SIZE" "?h < length ?F" "?g < length ?M"
    using Suc.prems(1) by (simp_all add: deleted_ok_def)
  let ?d = "d\<lparr>dp_log := dp_log d @ [DecrementFrmBuf (?F ! ?h), DecrementAnnexBuf (?M ! ?g)],
     dp_iDeletedFrmLstHead := (?h + 1) mod AL_REFMNGR_MAX_POOL_SIZE, dp_iDeletedMvLstHead := (?g + 1) mod AL_REF_MNGR_MAX_BUF_SIZE,
     dp_iNumDeletedPic := k\<rparr>"
  have fr: "deleted_frms d = (?F ! ?h) # deleted_frms ?d" "deleted_mvs d = (?M ! ?g) # deleted_mvs ?d"
    using sz k by (simp_all add: deleted_frms_def deleted_mvs_def ring_Cons)
  have t: "(a + Suc j) mod n = ((a + 1) mod n + j) mod n" for a j n :: nat by (simp add: mod_add_left_eq)
  have "deleted_ok ?d"
  proof -
    have "dp_iDeletedFrmLstTail d = (?h + Suc k) mod AL_REFMNGR_MAX_POOL_SIZE"
      "dp_iDeletedMvLstTail d = (?g + Suc k) mod AL_REF_MNGR_MAX_BUF_SIZE"
      using Suc.prems(1) k by (simp_all only: deleted_ok_def)
    note t' = this [unfolded t]
    show ?thesis unfolding deleted_ok_def using sz t' by simp
  qed
  then have ih: "release_unused_loop n ?d = Some (drop_deleted n ?d)"
    by (rule Suc.IH) (use Suc.prems(2) k in simp)
  have "release_unused_loop (Suc n) d = release_unused_loop n ?d"
    using sz k by (simp add: call_def)
  moreover have "given_back (Suc n) d = [DecrementFrmBuf (?F ! ?h), DecrementAnnexBuf (?M ! ?g)] @ given_back n ?d"
    using fr by (simp add: given_back_def)
  ultimately show ?case using ih k t [of ?h n] t [of ?g n] by (simp add: drop_deleted_def)
qed

lemma AL_Dpb_sReleaseUnusedBuf_ok:
  assumes "dpb_ok d P L D"
  shows "\<exists>d'. AL_Dpb_sReleaseUnusedBuf d = Some d' \<and> dpb_ok d' P L D \<and> dp_iNumDeletedPic d' = 0
    \<and> deleted_frms d' = [] \<and> deleted_mvs d' = []
    \<and> events dec_frm d' = events dec_frm d @ deleted_frms d \<and> events dec_mv d' = events dec_mv d @ deleted_mvs d
    \<and> (\<forall>k. k \<in> {inc_frm, inc_mv, out_frm} \<longrightarrow> events k d' = events k d) \<and> dp_Nodes d' = dp_Nodes d
    \<and> dp_DispFifo d' = dp_DispFifo d \<and> dp_eMode d' = dp_eMode d"
proof -
  have ls: "lists_ok d P L D" "ordered d P L" and dt: "data_ok d P" using assms by (simp_all add: dpb_ok_def)
  have n: "nodes_ok d P" "counts_ok d P" "ids_ok d P" "waiting_ok d P" "deleted_ok d" "room_ok d P" "log_ok d P" "df_ok (dp_DispFifo d)"
    using dt by (simp_all add: data_ok_def)
  let ?n = "dp_iNumDeletedPic d"
  have len: "length (deleted_frms d) = ?n" "length (deleted_mvs d) = ?n" by (simp_all add: deleted_frms_def deleted_mvs_def)
  let ?es = "concat (map (\<lambda>(f, m). [DecrementFrmBuf f, DecrementAnnexBuf m]) (zip (deleted_frms d) (deleted_mvs d)))"
  let ?d = "d\<lparr>dp_log := dp_log d @ ?es, dp_iDeletedFrmLstHead := (dp_iDeletedFrmLstHead d + ?n) mod AL_REFMNGR_MAX_POOL_SIZE,
    dp_iDeletedMvLstHead := (dp_iDeletedMvLstHead d + ?n) mod AL_REF_MNGR_MAX_BUF_SIZE, dp_iNumDeletedPic := 0\<rparr>"
  have "drop_deleted ?n d = ?d" using len by (simp add: drop_deleted_def given_back_def)
  then have loop: "release_unused_loop ?n d = Some ?d"
    using release_unused_loop_ok [OF n(5) order_refl] by simp
  have "AL_Dpb_sReleaseUnusedBuf d = Some ?d"
  proof (cases "?n = 0")
    case True
    then show ?thesis using loop by (simp add: AL_Dpb_sReleaseUnusedBuf_def)
  qed (simp add: AL_Dpb_sReleaseUnusedBuf_def loop)
  moreover have sn: "nd ?d y = nd d y" for y by simp
  note f = same_nd [of ?d d, OF sn]
  have zip: "concat (map (\<lambda>(f, m). [f]) (zip xs ys)) = xs" "concat (map (\<lambda>(f, m). [m]) (zip xs ys)) = ys"
    if "length xs = length ys" for xs ys :: "index list"
    using that by (induction xs ys rule: list_induct2) auto
  have ev: "concat (map k (concat (map (\<lambda>(f, m). [DecrementFrmBuf f, DecrementAnnexBuf m]) zs)))
      = concat (map (\<lambda>(f, m). k (DecrementFrmBuf f) @ k (DecrementAnnexBuf m)) zs)" for k zs
    by (induction zs) auto
  have lg: "events k ?d = events k d @ concat (map k ?es)" for k by (rule events_append) simp
  have evs: "events dec_frm ?d = events dec_frm d @ deleted_frms d" "events dec_mv ?d = events dec_mv d @ deleted_mvs d"
    "events inc_frm ?d = events inc_frm d" "events inc_mv ?d = events inc_mv d" "events out_frm ?d = events out_frm d"
    unfolding lg ev using zip [of "deleted_frms d" "deleted_mvs d"] len by (simp_all add: case_prod_beta')
  moreover have dl: "deleted_frms ?d = []" "deleted_mvs ?d = []" by (simp_all add: deleted_frms_def deleted_mvs_def)
  moreover have "dpb_ok ?d P L D"
  proof -
    have "lists_ok ?d P L D" using ls(1) same_links_lists [of d ?d]
      by (simp add: same_links_def same_poc_def same_lsb_def same_dec_def)
    moreover have "ordered ?d P L" using ls(2) by (simp add: ordered_def)
    moreover have "nodes_ok ?d P" using n(1) by (simp add: nodes_ok_def f)
    moreover have "counts_ok ?d P" using n(2) by (simp add: counts_ok_def f)
    moreover have "ids_ok ?d P" by (subst ids_ok_cong [where d = d]) (simp_all add: n(3))
    moreover have "waiting_ok ?d P" using n(4) by (simp add: waiting_ok_def f)
    moreover have "deleted_ok ?d" using n(5) by (simp add: deleted_ok_def)
    moreover have "room_ok ?d P" using n(6) by (simp add: room_ok_def f)
    moreover have "log_ok ?d P" using n(7) unfolding log_ok_def evs dl by (simp add: f)
    ultimately show ?thesis using n(8) by (simp add: dpb_ok_def data_ok_def)
  qed
  ultimately show ?thesis by (intro exI [of _ ?d]) auto
qed

section \<open>Changes of flags\<close>

lemma dpb_ok_change_gen:
  assumes ok: "dpb_ok d P L D" and sl: "same_links d d'" and kd: "keeps_deleted d d'"
    and ids: "dp_FreePicIdCnt d' = dp_FreePicIdCnt d" "dp_FreePicIDs d' = dp_FreePicIDs d"
      "dp_PicId2NodeId d' = dp_PicId2NodeId d" "dp_PicId2FrmId d' = dp_PicId2FrmId d" "dp_PicId2MvId d' = dp_PicId2MvId d"
    and wait: "dp_bPicWaiting d' = dp_bPicWaiting d" "dp_tNodeWaitingID d' = dp_tNodeWaitingID d"
      "dp_tFrmWaitingID d' = dp_tFrmWaitingID d" "dp_tMvWaitingID d' = dp_tMvWaitingID d"
    and nd: "\<And>y. in_range d y \<Longrightarrow> nd_tNodeID (nd d' y) = nd_tNodeID (nd d y) \<and> nd_tFrameID (nd d' y) = nd_tFrameID (nd d y)
      \<and> nd_tMvID (nd d' y) = nd_tMvID (nd d y) \<and> nd_tPicID (nd d' y) = nd_tPicID (nd d y)
      \<and> nd_bIsReset (nd d' y) = nd_bIsReset (nd d y) \<and> absent d' y = absent d y"
    and ord: "ordered d' P L"
    and fl: "\<And>y. in_range d y \<Longrightarrow> outp d' y \<Longrightarrow> outp d y" "\<And>y. in_range d y \<Longrightarrow> y \<notin> set P \<Longrightarrow> \<not> marked d' y"
    and cnt: "dp_uCountPic d' = dp_uCountPic d" "dp_uCountRef d' = length (filter (marked d') P)"
      "dp_uNumOutputPic d' = length (filter (outp d') P)"
    and df: "df_ok (dp_DispFifo d')" "df_frms (dp_DispFifo d') = df_frms (dp_DispFifo d)"
      "df_uNumFrm (dp_DispFifo d') = df_uNumFrm (dp_DispFifo d)" and log: "dp_log d' = dp_log d"
  shows "dpb_ok d' P L D"
proof -
  have ls: "lists_ok d P L D" "ordered d P L" and dt: "data_ok d P" using ok by (simp_all add: dpb_ok_def)
  note ds = lists_dist [OF ls(1)]
  have n: "nodes_ok d P" "counts_ok d P" "ids_ok d P" "waiting_ok d P" "deleted_ok d" "room_ok d P" "log_ok d P"
    using dt by (simp_all add: data_ok_def)
  have rP: "in_range d y" if "y \<in> set P" for y using ds(6) that by blast
  note ndP = nd [OF rP]
  have rng: "in_range d' y = in_range d y" for y using sl by (simp add: in_range_def same_links_def same_poc_def)
  have "lists_ok d' P L D" using ls(1) same_links_lists [OF sl] by blast
  moreover note ord
  moreover have "nodes_ok d' P"
  proof (rule nodes_okI)
    show "length (dp_Nodes d') = AL_REF_MNGR_MAX_BUF_SIZE"
      using n(1) sl by (simp add: nodes_ok_def same_links_def same_poc_def)
    fix y assume "in_range d' y"
    then have y: "in_range d y" by (simp add: rng)
    show "node_in d' y" if "y \<in> set P"
      using nodes_okD(1) [OF n(1) y that] nd [OF y] fl(1) [OF y] by (auto simp: node_in_def)
    show "node_out d' y" if "y \<notin> set P"
      using nodes_okD(2) [OF n(1) y that] nd [OF y] fl(1) [OF y] fl(2) [OF y that] by (auto simp: node_out_def)
  qed
  moreover have "counts_ok d' P" using n(2) cnt by (simp add: counts_ok_def)
  moreover have "ids_ok d' P" by (subst ids_ok_cong [OF ids]) (simp_all add: ndP n(3))
  moreover have "waiting_ok d' P"
    using n(4) unfolding waiting_ok_def wait by (simp add: ndP cong: conj_cong)
  moreover have "deleted_ok d'" "deleted_frms d' = deleted_frms d" "deleted_mvs d' = deleted_mvs d"
    using keeps_deleted_frms [OF kd] n(5) by simp_all
  moreover have "room_ok d' P"
  proof -
    have "length (filter (outp d') P) \<le> length (filter (outp d) P)"
      using fl(1) rP by (induction P) auto
    then show ?thesis using n(6) kd df(3) by (simp add: room_ok_def keeps_deleted_def)
  qed
  moreover have "log_ok d' P"
  proof -
    have "frames d' P = frames d P" "mvs d' P = mvs d P" by (rule list_data_cong; simp add: ndP)+
    then show ?thesis using n(7) keeps_deleted_frms [OF kd] df(2) log by (simp add: log_ok_def events_def)
  qed
  ultimately show ?thesis using df(1) by (simp add: dpb_ok_def data_ok_def)
qed

lemma dpb_ok_change:
  assumes ok: "dpb_ok d P L D" and sl: "same_links d d'" and kd: "keeps_deleted d d'"
    and ids: "dp_FreePicIdCnt d' = dp_FreePicIdCnt d" "dp_FreePicIDs d' = dp_FreePicIDs d"
      "dp_PicId2NodeId d' = dp_PicId2NodeId d" "dp_PicId2FrmId d' = dp_PicId2FrmId d" "dp_PicId2MvId d' = dp_PicId2MvId d"
    and wait: "dp_bPicWaiting d' = dp_bPicWaiting d" "dp_tNodeWaitingID d' = dp_tNodeWaitingID d"
      "dp_tFrmWaitingID d' = dp_tFrmWaitingID d" "dp_tMvWaitingID d' = dp_tMvWaitingID d"
    and nd: "\<And>y. in_range d y \<Longrightarrow> nd_tNodeID (nd d' y) = nd_tNodeID (nd d y) \<and> nd_tFrameID (nd d' y) = nd_tFrameID (nd d y)
      \<and> nd_tMvID (nd d' y) = nd_tMvID (nd d y) \<and> nd_tPicID (nd d' y) = nd_tPicID (nd d y)
      \<and> nd_iFramePOC (nd d' y) = nd_iFramePOC (nd d y)
      \<and> nd_slice_pic_order_cnt_lsb (nd d' y) = nd_slice_pic_order_cnt_lsb (nd d y)
      \<and> nd_bIsReset (nd d' y) = nd_bIsReset (nd d y) \<and> absent d' y = absent d y"
    and fl: "\<And>y. in_range d y \<Longrightarrow> outp d' y \<Longrightarrow> outp d y" "\<And>y. in_range d y \<Longrightarrow> y \<notin> set P \<Longrightarrow> \<not> marked d' y"
    and cnt: "dp_uCountPic d' = dp_uCountPic d" "dp_uCountRef d' = length (filter (marked d') P)"
      "dp_uNumOutputPic d' = length (filter (outp d') P)"
    and df: "df_ok (dp_DispFifo d')" "df_frms (dp_DispFifo d') = df_frms (dp_DispFifo d)"
      "df_uNumFrm (dp_DispFifo d') = df_uNumFrm (dp_DispFifo d)" and log: "dp_log d' = dp_log d"
  shows "dpb_ok d' P L D"
proof (rule dpb_ok_change_gen [OF ok sl kd ids wait _ _ fl cnt df log])
  have ls: "lists_ok d P L D" "ordered d P L" using ok by (simp_all add: dpb_ok_def)
  note ds = lists_dist [OF ls(1)]
  have "in_range d y" if "y \<in> set P" for y using ds(6) that by blast
  from nd [OF this] show "ordered d' P L" by (intro ordered_keep [OF ls(2) ds(4)]) simp
qed (use nd in blast)+

text \<open>Marking.\<close>

lemma AL_Dpb_SetMarkingFlag_ok:
  assumes ok: "dpb_ok d P L D" and t: "in_range d t" "t \<in> set P \<or> e = UNUSED_FOR_REF"
  shows "\<exists>d'. AL_Dpb_SetMarkingFlag d t e = Some d' \<and> dpb_ok d' P L D
    \<and> (\<forall>y. 0 \<le> y \<longrightarrow> nd d' y = (if y = t then (nd d t)\<lparr>nd_eMarkingFlag := e\<rparr> else nd d y))
    \<and> dp_log d' = dp_log d \<and> dp_DispFifo d' = dp_DispFifo d"
proof -
  note pt = dpb_ok_parts [OF ok]
  let ?c = "if marked d t \<and> e = UNUSED_FOR_REF then dec8 (dp_uCountRef d)
    else if \<not> marked d t \<and> e \<noteq> UNUSED_FOR_REF then inc8 (dp_uCountRef d) else dp_uCountRef d"
  let ?d = "(set_nd d t (\<lambda>n. n\<lparr>nd_eMarkingFlag := e\<rparr>))\<lparr>dp_uCountRef := ?c\<rparr>"
  have t0: "0 \<le> t" using t(1) by (simp add: in_range_def)
  have P0: "0 \<le> y" if "y \<in> set P" for y using pt(7) [OF that] by (simp add: in_range_def)
  have run: "AL_Dpb_SetMarkingFlag d t e = Some ?d"
    using t(1) by (auto simp: AL_Dpb_SetMarkingFlag_def marked_def Let_def) (simp_all add: set_nd_def nd_def)
  have nd: "nd ?d y = (if y = t then (nd d t)\<lparr>nd_eMarkingFlag := e\<rparr> else nd d y)" if "0 \<le> y" for y
    using t(1) that by simp
  have mk: "marked ?d y = (if y = t then e \<noteq> UNUSED_FOR_REF else marked d y)" "outp ?d y = outp d y" "absent ?d y = absent d y"
    if "0 \<le> y" for y
    using nd [OF that] by (simp_all add: marked_def outp_def absent_def)
  have "dpb_ok ?d P L D"
  proof (rule dpb_ok_change [OF ok])
    show "same_links d ?d" unfolding same_links_def same_poc_def same_lsb_def same_dec_def by (simp add: fld_set_nd_same)
    show "dp_uCountRef ?d = length (filter (marked ?d) P)"
    proof (cases "t \<in> set P")
      case True
      have "filter (marked ?d) (removeAll t P) = filter (marked d) (removeAll t P)"
        by (rule filter_cong) (use P0 mk in auto)
      then have l: "length (filter (marked ?d) P) = length (filter (marked d) (removeAll t P)) + (if e \<noteq> UNUSED_FOR_REF then 1 else 0)"
        "length (filter (marked d) P) = length (filter (marked d) (removeAll t P)) + (if marked d t then 1 else 0)"
        using filter_removeAll_length [OF pt(2) True, of "marked ?d"] filter_removeAll_length [OF pt(2) True, of "marked d"]
          mk(1) [OF t0] by simp_all
      have "length (filter (marked d) P) < 255"
        using pt(3) length_filter_le [of "marked d" P] unfolding AL_REF_MNGR_MAX_BUF_SIZE_def by linarith
      then show ?thesis using l pt(6) by (auto simp: dec8_Suc inc8_less)
    next
      case False
      then have "\<not> marked d t" using nodes_okD(2) [OF pt(8) t(1)] by (simp add: node_out_def)
      moreover have "filter (marked ?d) P = filter (marked d) P" by (rule filter_cong) (use P0 mk False in auto)
      ultimately show ?thesis using t(2) False pt(6) by simp
    qed
    have "filter (outp ?d) P = filter (outp d) P" by (rule filter_cong) (use P0 mk in auto)
    then show "dp_uNumOutputPic ?d = length (filter (outp ?d) P)" using pt(4) by simp
    show "df_ok (dp_DispFifo ?d)" using ok by (simp add: dpb_ok_def data_ok_def)
    fix y assume y: "in_range d y"
    then have y0: "0 \<le> y" by (simp add: in_range_def)
    show "outp ?d y \<Longrightarrow> outp d y" using mk(2) [OF y0] by simp
    show "\<not> marked ?d y" if "y \<notin> set P"
      using nodes_okD(2) [OF pt(8) y that] mk(1) [OF y0] t(2) that by (auto simp: node_out_def)
    show "nd_tNodeID (nd ?d y) = nd_tNodeID (nd d y) \<and> nd_tFrameID (nd ?d y) = nd_tFrameID (nd d y)
      \<and> nd_tMvID (nd ?d y) = nd_tMvID (nd d y) \<and> nd_tPicID (nd ?d y) = nd_tPicID (nd d y)
      \<and> nd_iFramePOC (nd ?d y) = nd_iFramePOC (nd d y)
      \<and> nd_slice_pic_order_cnt_lsb (nd ?d y) = nd_slice_pic_order_cnt_lsb (nd d y)
      \<and> nd_bIsReset (nd ?d y) = nd_bIsReset (nd d y) \<and> absent ?d y = absent d y"
      using nd [OF y0] mk(3) [OF y0] by simp
  qed (simp_all add: keeps_deleted_def)
  then show ?thesis using run nd by auto
qed

text \<open>Changes of a state component the invariant does not read, or of a latency.\<close>

lemma same_nodes_ok:
  assumes ok: "dpb_ok d P L D" and nodes: "dp_Nodes d' = dp_Nodes d"
    and heads: "dp_tHeadPOCNodeID d' = dp_tHeadPOCNodeID d" "dp_tHeadPocLsbNodeID d' = dp_tHeadPocLsbNodeID d"
      "dp_tLastPOCNodeID d' = dp_tLastPOCNodeID d" "dp_tHeadDecOrderNodeID d' = dp_tHeadDecOrderNodeID d"
    and kd: "keeps_deleted d d'"
    and ids: "dp_FreePicIdCnt d' = dp_FreePicIdCnt d" "dp_FreePicIDs d' = dp_FreePicIDs d"
      "dp_PicId2NodeId d' = dp_PicId2NodeId d" "dp_PicId2FrmId d' = dp_PicId2FrmId d" "dp_PicId2MvId d' = dp_PicId2MvId d"
    and wait: "dp_bPicWaiting d' = dp_bPicWaiting d" "dp_tNodeWaitingID d' = dp_tNodeWaitingID d"
      "dp_tFrmWaitingID d' = dp_tFrmWaitingID d" "dp_tMvWaitingID d' = dp_tMvWaitingID d"
    and cnt: "dp_uCountPic d' = dp_uCountPic d" "dp_uCountRef d' = dp_uCountRef d" "dp_uNumOutputPic d' = dp_uNumOutputPic d"
    and df: "df_ok (dp_DispFifo d')" "df_frms (dp_DispFifo d') = df_frms (dp_DispFifo d)"
      "df_uNumFrm (dp_DispFifo d') = df_uNumFrm (dp_DispFifo d)" and log: "dp_log d' = dp_log d"
  shows "dpb_ok d' P L D"
proof -
  note pt = dpb_ok_parts [OF ok]
  have sn: "nd d' y = nd d y" for y by (simp add: nd_def nodes)
  note f = same_nd [OF sn]
  show ?thesis
  proof (rule dpb_ok_change [OF ok _ kd ids wait _ _ _ _ _ _ df log])
    show "same_links d d'" by (simp add: same_links_def same_poc_def same_lsb_def same_dec_def nodes heads)
    show "\<not> marked d' y" if "in_range d y" "y \<notin> set P" for y
      using nodes_okD(2) [OF pt(8) that] f by (simp add: node_out_def)
  qed (simp_all add: sn f cnt pt(4-6))
qed

lemma AL_Dpb_IncrementPicLatency_ok:
  assumes ok: "dpb_ok d P L D" and t: "in_range d t"
  shows "\<exists>d'. AL_Dpb_IncrementPicLatency d t = Some d' \<and> dpb_ok d' P L D"
proof (cases "dp_iCurFramePOC d < nd_iFramePOC (nd d t)")
  case False
  then have "AL_Dpb_IncrementPicLatency d t = Some d" using t by (simp add: AL_Dpb_IncrementPicLatency_def)
  then show ?thesis using ok by simp
next
  case True
  note pt = dpb_ok_parts [OF ok]
  let ?g = "\<lambda>n. n\<lparr>nd_uPicLatency := (nd_uPicLatency n + 1) mod 2 ^ 32\<rparr>"
  let ?d = "set_nd d t ?g"
  have run: "AL_Dpb_IncrementPicLatency d t = Some ?d" using t True by (simp add: AL_Dpb_IncrementPicLatency_def)
  have nd: "nd ?d y = (if y = t then ?g (nd d t) else nd d y)" if "0 \<le> y" for y using t that by simp
  have fl: "marked ?d y = marked d y" "outp ?d y = outp d y" "absent ?d y = absent d y" if "0 \<le> y" for y
    using nd [OF that] by (simp_all add: marked_def outp_def absent_def)
  have P0: "0 \<le> y" if "y \<in> set P" for y using pt(7) [OF that] by (simp add: in_range_def)
  have ff: "filter (marked ?d) P = filter (marked d) P" "filter (outp ?d) P = filter (outp d) P"
    by (rule filter_cong; simp only: fl P0)+
  have "dpb_ok ?d P L D"
  proof (rule dpb_ok_change [OF ok])
    show "same_links d ?d" unfolding same_links_def same_poc_def same_lsb_def same_dec_def by (simp add: fld_set_nd_same)
    show "dp_uCountRef ?d = length (filter (marked ?d) P)" "dp_uNumOutputPic ?d = length (filter (outp ?d) P)"
      unfolding ff using pt(4,6) by simp_all
    show "df_ok (dp_DispFifo ?d)" using ok by (simp add: dpb_ok_def data_ok_def)
    fix y assume y: "in_range d y"
    then have y0: "0 \<le> y" by (simp add: in_range_def)
    show "outp ?d y \<Longrightarrow> outp d y" using fl(2) [OF y0] by simp
    show "\<not> marked ?d y" if "y \<notin> set P"
      using nodes_okD(2) [OF pt(8) y that] fl(1) [OF y0] by (auto simp: node_out_def)
    show "nd_tNodeID (nd ?d y) = nd_tNodeID (nd d y) \<and> nd_tFrameID (nd ?d y) = nd_tFrameID (nd d y)
      \<and> nd_tMvID (nd ?d y) = nd_tMvID (nd d y) \<and> nd_tPicID (nd ?d y) = nd_tPicID (nd d y)
      \<and> nd_iFramePOC (nd ?d y) = nd_iFramePOC (nd d y)
      \<and> nd_slice_pic_order_cnt_lsb (nd ?d y) = nd_slice_pic_order_cnt_lsb (nd d y)
      \<and> nd_bIsReset (nd ?d y) = nd_bIsReset (nd d y) \<and> absent ?d y = absent d y"
      using nd [OF y0] fl(3) [OF y0] by simp
  qed (simp_all add: keeps_deleted_def)
  then show ?thesis using run by blast
qed

section \<open>No output\<close>

text \<open>The nodes of \<open>xs\<close> lose their output flag.\<close>

definition unflag :: "index list \<Rightarrow> AL_TDpb \<Rightarrow> AL_TDpb" where
  "unflag xs d = d\<lparr>dp_Nodes := map (\<lambda>i. if int i \<in> set xs then (dp_Nodes d ! i)\<lparr>nd_bPicOutputFlag := False\<rparr>
     else dp_Nodes d ! i) [0..<length (dp_Nodes d)]\<rparr>"

lemma unflag_nd:
  "in_range d y \<Longrightarrow> nd (unflag xs d) y = (if y \<in> set xs then (nd d y)\<lparr>nd_bPicOutputFlag := False\<rparr> else nd d y)"
  by (simp add: unflag_def nd_def in_range_def)

lemma unflag_Cons:
  assumes "in_range d x"
  shows "unflag xs (set_nd d x (\<lambda>n. n\<lparr>nd_bPicOutputFlag := False\<rparr>)) = unflag (x # xs) d"
proof -
  have "map (\<lambda>i. if int i \<in> set xs then ((dp_Nodes d)[nat x := (nd d x)\<lparr>nd_bPicOutputFlag := False\<rparr>] ! i)\<lparr>nd_bPicOutputFlag := False\<rparr>
        else (dp_Nodes d)[nat x := (nd d x)\<lparr>nd_bPicOutputFlag := False\<rparr>] ! i) [0..<length (dp_Nodes d)]
    = map (\<lambda>i. if int i \<in> set (x # xs) then (dp_Nodes d ! i)\<lparr>nd_bPicOutputFlag := False\<rparr> else dp_Nodes d ! i)
        [0..<length (dp_Nodes d)]"
    by (rule map_cong) (use assms in \<open>auto simp: nth_list_update nd_def in_range_def nat_eq_iff\<close>)
  then show ?thesis by (simp add: unflag_def set_nd_def del: map_eq_conv cong: if_cong)
qed

lemma unflag_Nil: "unflag [] d = d"
  by (simp add: unflag_def map_nth)

lemma unflag_foldM:
  assumes "\<forall>x \<in> set xs. in_range d x"
  shows "foldM (\<lambda>t d. upd_node d t (\<lambda>n. n\<lparr>nd_bPicOutputFlag := False\<rparr>)) xs d = Some (unflag xs d)"
  using assms
proof (induction xs arbitrary: d)
  case (Cons x xs)
  then show ?case using unflag_Cons [of d x xs] by simp
qed (simp add: unflag_Nil)

lemma unflag_fld: "(\<And>n. F (n\<lparr>nd_bPicOutputFlag := False\<rparr>) = F n) \<Longrightarrow> fld F (dp_Nodes (unflag xs d)) = fld F (dp_Nodes d)"
  by (auto simp: fun_eq_iff fld_def unflag_def)

lemma AL_Dpb_ClearOutput_ok:
  assumes ok: "dpb_ok d P L D"
  shows "\<exists>d'. AL_Dpb_ClearOutput d = Some d' \<and> dpb_ok d' P L D \<and> dp_log d' = dp_log d \<and> to_show d' P = []
    \<and> dp_DispFifo d' = dp_DispFifo d"
proof -
  note pt = dpb_ok_parts [OF ok]
  let ?nx = "fld nd_tNextPOCNodeID (dp_Nodes d)"
  let ?body = "\<lambda>t d. upd_node d t (\<lambda>n. n\<lparr>nd_bPicOutputFlag := False\<rparr>)"
  have dl: "dll ?nx (fld nd_tPrevPOCNodeID (dp_Nodes d)) (dp_tHeadPOCNodeID d) P" using pt(1) by (simp add: poc_list_def)
  let ?I = "\<lambda>s :: AL_TDpb. length (dp_Nodes s) = length (dp_Nodes d) \<and> fld nd_tNextPOCNodeID (dp_Nodes s) = ?nx"
  have "walk AL_REF_MNGR_MAX_BUF_SIZE next_poc ?body (dp_tHeadPOCNodeID d) d = foldM ?body P d"
  proof (rule walk_foldM [where I = ?I])
    show "seg ?nx (fld nd_tPrevPOCNodeID (dp_Nodes d)) AL_BAD_INDEX (dp_tHeadPOCNodeID d) P AL_BAD_INDEX"
      using dl by (simp add: dll_def)
    fix s x assume s: "?I s" and x: "x \<in> set P"
    then have r: "in_range s x" using pt(7) [OF x] by (simp add: in_range_def)
    show "next_poc s x = Some (?nx x)" using r s fld_nd [OF r, of nd_tNextPOCNodeID] by (simp add: next_poc_def)
    fix s' assume "?body x s = Some s'"
    then show "?I s'" using r s by (auto simp: fld_set_nd_same)
  qed (use pt(3) in simp_all)
  then have w: "walk AL_REF_MNGR_MAX_BUF_SIZE next_poc ?body (dp_tHeadPOCNodeID d) d = Some (unflag P d)"
    using unflag_foldM [of P d] pt(7) by simp
  let ?d = "(unflag P d)\<lparr>dp_uNumOutputPic := 0\<rparr>"
  have run: "AL_Dpb_ClearOutput d = Some ?d" using w by (simp add: AL_Dpb_ClearOutput_def)
  have nd: "nd ?d y = (if y \<in> set P then (nd d y)\<lparr>nd_bPicOutputFlag := False\<rparr> else nd d y)" if "in_range d y" for y
    using unflag_nd [OF that] by simp
  have fl: "marked ?d y = marked d y" "outp ?d y = (outp d y \<and> y \<notin> set P)" "absent ?d y = absent d y" if "in_range d y" for y
    using nd [OF that] by (simp_all add: marked_def outp_def absent_def)
  have none: "\<not> outp ?d y" if "y \<in> set P" for y using fl(2) [OF pt(7) [OF that]] that by simp
  have ff: "filter (marked ?d) P = filter (marked d) P" "filter (outp ?d) P = []"
    by (rule filter_cong, simp, simp only: fl pt(7)) (use none in simp)
  have "dpb_ok ?d P L D"
  proof (rule dpb_ok_change [OF ok])
    show "same_links d ?d" unfolding same_links_def same_poc_def same_lsb_def same_dec_def
      by (simp add: unflag_fld) (simp add: unflag_def)
    show "dp_uCountRef ?d = length (filter (marked ?d) P)" "dp_uNumOutputPic ?d = length (filter (outp ?d) P)"
      unfolding ff using pt(6) by (simp_all add: unflag_def)
    show "df_ok (dp_DispFifo ?d)" using ok by (simp add: dpb_ok_def data_ok_def unflag_def)
    fix y assume y: "in_range d y"
    show "outp ?d y \<Longrightarrow> outp d y" using fl(2) [OF y] by simp
    show "\<not> marked ?d y" if "y \<notin> set P"
      using nodes_okD(2) [OF pt(8) y that] fl(1) [OF y] by (auto simp: node_out_def)
    show "nd_tNodeID (nd ?d y) = nd_tNodeID (nd d y) \<and> nd_tFrameID (nd ?d y) = nd_tFrameID (nd d y)
      \<and> nd_tMvID (nd ?d y) = nd_tMvID (nd d y) \<and> nd_tPicID (nd ?d y) = nd_tPicID (nd d y)
      \<and> nd_iFramePOC (nd ?d y) = nd_iFramePOC (nd d y)
      \<and> nd_slice_pic_order_cnt_lsb (nd ?d y) = nd_slice_pic_order_cnt_lsb (nd d y)
      \<and> nd_bIsReset (nd ?d y) = nd_bIsReset (nd d y) \<and> absent ?d y = absent d y"
      using nd [OF y] fl(3) [OF y] by simp
  qed (simp_all add: keeps_deleted_def unflag_def)
  moreover have "to_show ?d P = []" by (rule to_show_none) (rule none)
  ultimately show ?thesis using run by (intro exI [of _ ?d]) (simp add: unflag_def)
qed

section \<open>The display queue and the end of a frame\<close>

lemma DispFifo_Dequeue_ok:
  assumes ok: "df_ok f"
  shows "\<exists>x f'. DispFifo_Dequeue f = Some (x, f') \<and> df_ok f'
    \<and> (case df_frms f of [] \<Rightarrow> \<not> AL_IS_VALID_INDEX x \<and> f' = f
       | y # ys \<Rightarrow> x = y \<and> AL_IS_VALID_INDEX x \<and> df_frms f' = ys \<and> df_uNumFrm f = Suc (df_uNumFrm f'))"
proof -
  let ?h = "df_tFirstFrmID f" and ?n = "df_uNumFrm f" and ?xs = "df_pFrmIDs f"
  have sz: "length ?xs = AL_REFMNGR_MAX_POOL_SIZE" "?h < AL_REFMNGR_MAX_POOL_SIZE" "?n \<le> AL_REFMNGR_MAX_POOL_SIZE"
    "length (df_pFrmStatus f) = AL_REFMNGR_MAX_POOL_SIZE"
    using ok by (simp_all add: df_ok_def)
  have get: "arr_get ?xs (int ?h) = Some (?xs ! ?h)" using sz by (simp add: arr_get_def)
  show ?thesis
  proof (cases ?n)
    case 0
    then have fr: "df_frms f = []" by (simp add: df_frms_def)
    have free: "?xs ! ((?h + 0) mod AL_REFMNGR_MAX_POOL_SIZE) = AL_BAD_INDEX"
      using ok 0 unfolding df_ok_def by (metis le_refl pool_sizes(3))
    then have "?xs ! ?h = AL_BAD_INDEX" using sz(2) by simp
    then have "DispFifo_Dequeue f = Some (AL_BAD_INDEX, f)" by (simp add: DispFifo_Dequeue_def get)
    then show ?thesis using ok fr by simp
  next
    case (Suc k)
    let ?x = "?xs ! ?h"
    let ?f = "f\<lparr>df_pFrmIDs := ?xs[?h := AL_BAD_INDEX], df_tFirstFrmID := (?h + 1) mod AL_REFMNGR_MAX_POOL_SIZE,
      df_uNumFrm := k, df_pFrmStatus := (df_pFrmStatus f)[nat ?x := AL_NOT_NEEDED_FOR_OUTPUT]\<rparr>"
    have fr: "df_frms f = ?x # ring ?xs (Suc ?h mod AL_REFMNGR_MAX_POOL_SIZE) k"
      using Suc sz by (simp add: df_frms_def ring_Cons)
    then have x: "0 \<le> ?x" "nat ?x < AL_REFMNGR_MAX_POOL_SIZE" using ok by (auto simp: df_ok_def)
    have "?n < 256" using sz(3) pool_sizes(4) by linarith
    then have dec: "dec8 ?n = k" using Suc dec8_Suc [of ?n] by simp
    have set: "arr_set ?xs (int ?h) AL_BAD_INDEX = Some (?xs[?h := AL_BAD_INDEX])" using sz by (simp add: arr_set_def)
    have run: "DispFifo_Dequeue f = Some (?x, ?f)"
      using x sz(4) dec by (simp add: DispFifo_Dequeue_def get set)
    have slot: "(Suc ?h mod AL_REFMNGR_MAX_POOL_SIZE + j) mod AL_REFMNGR_MAX_POOL_SIZE = (?h + Suc j) mod AL_REFMNGR_MAX_POOL_SIZE" for j
      by (simp add: mod_add_left_eq)
    have ne: "(?h + Suc j) mod AL_REFMNGR_MAX_POOL_SIZE \<noteq> ?h" if "Suc j < AL_REFMNGR_MAX_POOL_SIZE" for j
      using ring_slots_inj [of "Suc j" AL_REFMNGR_MAX_POOL_SIZE 0 ?h] that sz(2) by auto
    have k: "k < AL_REFMNGR_MAX_POOL_SIZE" using Suc sz(3) by simp
    have fr': "df_frms ?f = ring ?xs (Suc ?h mod AL_REFMNGR_MAX_POOL_SIZE) k"
    proof (rule nth_equalityI)
      fix i assume "i < length (df_frms ?f)"
      then have i: "i < k" by (simp add: df_frms_def)
      then show "df_frms ?f ! i = ring ?xs (Suc ?h mod AL_REFMNGR_MAX_POOL_SIZE) k ! i"
        using ne [of i] k Suc sz(1,3) slot [of i] by (simp add: df_frms_def)
    qed (simp add: df_frms_def)
    have "df_ok ?f"
    proof -
      have "?xs[?h := AL_BAD_INDEX] ! ((Suc ?h mod AL_REFMNGR_MAX_POOL_SIZE + j) mod AL_REFMNGR_MAX_POOL_SIZE) = AL_BAD_INDEX"
        if "k \<le> j" "j < AL_REFMNGR_MAX_POOL_SIZE" for j
      proof (cases "Suc j = AL_REFMNGR_MAX_POOL_SIZE")
        case True
        then have "(?h + Suc j) mod AL_REFMNGR_MAX_POOL_SIZE = ?h" using sz(2) by simp
        then show ?thesis unfolding slot using sz(1,2) by simp
      next
        case False
        then have j: "Suc j < AL_REFMNGR_MAX_POOL_SIZE" using that by simp
        have "?xs ! ((?h + i) mod AL_REFMNGR_MAX_POOL_SIZE) = AL_BAD_INDEX"
          if "Suc k \<le> i" "i < AL_REFMNGR_MAX_POOL_SIZE" for i
          using ok that Suc by (simp add: df_ok_def)
        from this [of "Suc j"] have "?xs ! ((?h + Suc j) mod AL_REFMNGR_MAX_POOL_SIZE) = AL_BAD_INDEX"
          using that j by simp
        then show ?thesis unfolding slot using ne [OF j] by simp
      qed
      moreover have "\<forall>y \<in> set (df_frms ?f). 0 \<le> y \<and> nat y < AL_REFMNGR_MAX_POOL_SIZE"
        unfolding fr' using ok fr by (auto simp: df_ok_def)
      ultimately show ?thesis using ok k by (simp add: df_ok_def)
    qed
    then show ?thesis using run fr fr' x Suc by (intro exI [of _ ?x] exI [of _ ?f]) simp
  qed
qed

text \<open>The queue and its references change, nothing else.\<close>

lemma fifo_change:
  assumes ok: "dpb_ok d P L D" and df: "df_ok F" "df_uNumFrm F \<le> df_uNumFrm (dp_DispFifo d)"
    and bal: "mset (concat (map inc_frm es)) + mset (df_frms (dp_DispFifo d)) = mset (concat (map dec_frm es)) + mset (df_frms F)"
    "concat (map inc_mv es) = []" "concat (map dec_mv es) = []"
  shows "dpb_ok (d\<lparr>dp_DispFifo := F, dp_log := dp_log d @ es\<rparr>) P L D" (is "dpb_ok ?d P L D")
proof -
  have n: "lists_ok d P L D" "ordered d P L" "nodes_ok d P" "counts_ok d P" "ids_ok d P" "waiting_ok d P" "deleted_ok d"
    "room_ok d P" "log_ok d P"
    using ok by (simp_all add: dpb_ok_def data_ok_def)
  have sn: "nd ?d y = nd d y" for y by simp
  note f = same_nd [of ?d d, OF sn]
  have "lists_ok ?d P L D" using n(1) same_links_lists [of d ?d]
    by (simp add: same_links_def same_poc_def same_lsb_def same_dec_def)
  moreover have "ids_ok ?d P" by (subst ids_ok_cong [where d = d]) (simp_all add: n(5))
  moreover have "log_ok ?d P"
  proof -
    have "events k ?d = events k d @ concat (map k es)" for k by (rule events_append) simp
    moreover have "deleted_frms ?d = deleted_frms d" "deleted_mvs ?d = deleted_mvs d"
      by (simp_all add: deleted_frms_def deleted_mvs_def)
    moreover have "mset (events inc_frm d) + mset (concat (map inc_frm es)) = mset (events dec_frm d) + mset (frames d P)
      + mset (deleted_frms d) + (mset (concat (map inc_frm es)) + mset (df_frms (dp_DispFifo d)))"
      using n(9) by (simp add: log_ok_def ac_simps)
    note this [unfolded bal(1)]
    ultimately show ?thesis
      using n(9) unfolding log_ok_def by (simp add: f(6,7) bal(2,3) ac_simps del: concat_eq_Nil_conv)
  qed
  ultimately show ?thesis using n df f
    by (simp add: dpb_ok_def data_ok_def ordered_def nodes_ok_def counts_ok_def waiting_ok_def deleted_ok_def room_ok_def)
qed

lemma sApiReleaseDisplayBuffer_ok:
  assumes ok: "dpb_ok d P L D"
  shows "\<exists>x d'. sApiReleaseDisplayBuffer d = Some (x, d') \<and> dpb_ok d' P L D
    \<and> (case df_frms (dp_DispFifo d) of [] \<Rightarrow> \<not> AL_IS_VALID_INDEX x \<and> d' = d
       | y # ys \<Rightarrow> x = y \<and> df_frms (dp_DispFifo d') = ys \<and> dp_log d' = dp_log d @ [DecrementFrmBuf y]
         \<and> dp_Nodes d' = dp_Nodes d \<and> keeps_deleted d d')"
proof -
  have dfok: "df_ok (dp_DispFifo d)" using ok by (simp add: dpb_ok_def data_ok_def)
  obtain x F where dq: "DispFifo_Dequeue (dp_DispFifo d) = Some (x, F)" "df_ok F"
    "case df_frms (dp_DispFifo d) of [] \<Rightarrow> \<not> AL_IS_VALID_INDEX x \<and> F = dp_DispFifo d
       | y # ys \<Rightarrow> x = y \<and> AL_IS_VALID_INDEX x \<and> df_frms F = ys \<and> df_uNumFrm (dp_DispFifo d) = Suc (df_uNumFrm F)"
    using DispFifo_Dequeue_ok [OF dfok] by blast
  show ?thesis
  proof (cases "df_frms (dp_DispFifo d)")
    case Nil
    then have "sApiReleaseDisplayBuffer d = Some (x, d)"
      using dq by (simp add: sApiReleaseDisplayBuffer_def)
    then show ?thesis using ok Nil dq(3) by simp
  next
    case (Cons y ys)
    let ?d = "d\<lparr>dp_DispFifo := F, dp_log := dp_log d @ [DecrementFrmBuf y]\<rparr>"
    have "sApiReleaseDisplayBuffer d = Some (y, ?d)"
      using dq Cons by (simp add: sApiReleaseDisplayBuffer_def call_def)
    moreover have "dpb_ok ?d P L D" by (rule fifo_change [OF ok dq(2)]) (use dq(3) Cons in simp_all)
    ultimately show ?thesis using dq(3) Cons by (simp add: keeps_deleted_def)
  qed
qed

lemma sApiGetDisplayBuffer_ok:
  assumes ok: "dpb_ok d P L D"
  shows "sApiGetDisplayBuffer d = Some (case df_frms (dp_DispFifo d) of [] \<Rightarrow> AL_BAD_INDEX
    | x # _ \<Rightarrow> if df_pFrmStatus (dp_DispFifo d) ! nat x = AL_READY_FOR_OUTPUT then x else AL_BAD_INDEX)"
proof -
  let ?f = "dp_DispFifo d"
  have dfok: "df_ok ?f" using ok by (simp add: dpb_ok_def data_ok_def)
  have empty: "DispFifo_IsEmpty ?f \<longleftrightarrow> df_frms ?f = []"
  proof (cases "df_uNumFrm ?f < AL_REFMNGR_MAX_POOL_SIZE")
    case True
    then have "(df_tFirstFrmID ?f + df_uNumFrm ?f) mod AL_REFMNGR_MAX_POOL_SIZE = df_tFirstFrmID ?f \<longleftrightarrow> df_uNumFrm ?f = 0"
      using ring_slots_inj [of "df_uNumFrm ?f" AL_REFMNGR_MAX_POOL_SIZE 0 "df_tFirstFrmID ?f"] dfok by (auto simp: df_ok_def)
    then show ?thesis using True by (auto simp: DispFifo_IsEmpty_def Let_def df_frms_def ring_def)
  next
    case False
    then have n: "df_uNumFrm ?f = AL_REFMNGR_MAX_POOL_SIZE" using dfok by (simp add: df_ok_def)
    then have "df_frms ?f \<noteq> []" using pool_sizes(3) by (simp add: df_frms_def ring_def del: pool_sizes)
    then show ?thesis using n by (simp add: DispFifo_IsEmpty_def Let_def)
  qed
  show ?thesis
  proof (cases "df_frms ?f")
    case Nil
    then show ?thesis using empty by (simp add: sApiGetDisplayBuffer_def)
  next
    case (Cons x xs)
    then obtain k where k: "df_uNumFrm ?f = Suc k" by (cases "df_uNumFrm ?f") (auto simp: df_frms_def)
    have x: "x = df_pFrmIDs ?f ! df_tFirstFrmID ?f" "0 \<le> x" "nat x < length (df_pFrmStatus ?f)"
      "df_tFirstFrmID ?f < length (df_pFrmIDs ?f)"
      using Cons dfok k by (auto simp: df_frms_def df_ok_def ring_Cons)
    then have "DispFifo_Peek ?f = Some x" by (simp add: DispFifo_Peek_def)
    then show ?thesis using empty Cons x(2,3) by (simp add: sApiGetDisplayBuffer_def DispFifo_GetStatus_def)
  qed
qed

lemma hd_dropWhile_in: "AL_IS_VALID_INDEX (hd_or (dropWhile Q xs) AL_BAD_INDEX) \<Longrightarrow> hd_or (dropWhile Q xs) AL_BAD_INDEX \<in> set xs"
  by (induction xs) (auto split: if_splits)

lemma Dpb_GetNodeFromFrmID_ok:
  assumes ok: "dpb_ok d P L D"
  shows "Dpb_GetNodeFromFrmID d f = Some (hd_or (dropWhile (\<lambda>x. nd_tFrameID (nd d x) \<noteq> f) D) AL_BAD_INDEX)"
  unfolding Dpb_GetNodeFromFrmID_def
proof -
  have ls: "lists_ok d P L D" using ok by (simp add: dpb_ok_def)
  have dl: "dll (fld nd_tNextDecOrderNodeID (dp_Nodes d)) (fld nd_tPrevDecOrderNodeID (dp_Nodes d)) (dp_tHeadDecOrderNodeID d) D"
    and rng: "\<forall>x \<in> set D. in_range d x"
    using ls by (simp_all add: lists_ok_def dec_list_def)
  have len: "length D \<le> AL_REF_MNGR_MAX_BUF_SIZE" using lists_lengths(2) [OF ls] dpb_ok_parts(3) [OF ok] by simp
  show "find_along AL_REF_MNGR_MAX_BUF_SIZE (next_dec d) (\<lambda>t. do { n \<leftarrow> node d t; Some (nd_tFrameID n = f) })
      (dp_tHeadDecOrderNodeID d) = Some (hd_or (dropWhile (\<lambda>x. nd_tFrameID (nd d x) \<noteq> f) D) AL_BAD_INDEX)"
    by (rule find_along_seg [where P = "\<lambda>x. nd_tFrameID (nd d x) = f" and nx = "fld nd_tNextDecOrderNodeID (dp_Nodes d)"
        and pv = "fld nd_tPrevDecOrderNodeID (dp_Nodes d)" and p = AL_BAD_INDEX, OF _ len])
      (use dl rng in \<open>auto simp: dll_def next_dec_def fld_nd\<close>)
qed

lemma sApiEndDecoding_ok:
  assumes ok: "dpb_ok d P L D" and f: "0 \<le> f" "nat f < AL_REFMNGR_MAX_POOL_SIZE"
  shows "\<exists>d'. sApiEndDecoding d f = Some d' \<and> dpb_ok d' P L D \<and> dp_iNumDeletedPic d' = 0"
proof -
  obtain d1 where d1: "AL_Dpb_sReleaseUnusedBuf d = Some d1" "dpb_ok d1 P L D" "dp_iNumDeletedPic d1 = 0"
    using AL_Dpb_sReleaseUnusedBuf_ok [OF ok] by blast
  have dfok: "df_ok (dp_DispFifo d1)" using d1(2) by (simp add: dpb_ok_def data_ok_def)
  have st: "DispFifo_GetStatus (dp_DispFifo d1) f = Some (df_pFrmStatus (dp_DispFifo d1) ! nat f)"
    using f dfok by (simp add: DispFifo_GetStatus_def df_ok_def)
  show ?thesis
  proof (cases "df_pFrmStatus (dp_DispFifo d1) ! nat f = AL_NOT_READY_FOR_OUTPUT")
    case False
    then have "sApiEndDecoding d f = Some d1" by (simp add: sApiEndDecoding_def d1(1) st)
    then show ?thesis using d1 by blast
  next
    case True
    obtain s where s: "DispFifo_SetStatus (dp_DispFifo d1) f AL_READY_FOR_OUTPUT = Some ((dp_DispFifo d1)\<lparr>df_pFrmStatus := s\<rparr>)"
      "df_ok ((dp_DispFifo d1)\<lparr>df_pFrmStatus := s\<rparr>)"
      using DispFifo_SetStatus_ok [OF dfok f] by blast
    let ?d2 = "d1\<lparr>dp_DispFifo := (dp_DispFifo d1)\<lparr>df_pFrmStatus := s\<rparr>\<rparr>"
    have ok2: "dpb_ok ?d2 P L D"
      by (rule same_nodes_ok [OF d1(2)]) (use s(2) in \<open>simp_all add: keeps_deleted_def df_frms_def\<close>)
    let ?t = "hd_or (dropWhile (\<lambda>x. nd_tFrameID (nd ?d2 x) \<noteq> f) D) AL_BAD_INDEX"
    note gn = Dpb_GetNodeFromFrmID_ok [OF ok2, of f]
    have "\<exists>d'. (if AL_Dpb_sIsNoReordering ?d2 then do {
         tNodeID \<leftarrow> Dpb_GetNodeFromFrmID ?d2 f;
         if AL_IS_VALID_INDEX tNodeID
         then do { b \<leftarrow> AL_Dpb_GetOutputFlag ?d2 tNodeID; if b then AL_Dpb_Display ?d2 tNodeID else Some ?d2 }
         else Some ?d2 } else Some ?d2) = Some d' \<and> dpb_ok d' P L D \<and> dp_iNumDeletedPic d' = 0"
    proof (cases "AL_Dpb_sIsNoReordering ?d2 \<and> AL_IS_VALID_INDEX ?t")
      case t: True
      then have "?t \<in> set D" using hd_dropWhile_in by blast
      then have tP: "?t \<in> set P" using lists_dist(5) [of ?d2 P L D] ok2 by (simp add: dpb_ok_def)
      then obtain xs ys where P: "P = xs @ ?t # ys" by (meson split_list)
      obtain d3 where d3: "AL_Dpb_Display ?d2 ?t = Some d3" "dpb_ok d3 P L D" "displayed P (xs @ [?t]) ?d2 d3"
        using AL_Dpb_Display_ok [OF ok2 P] by blast
      have of: "AL_Dpb_GetOutputFlag ?d2 ?t = Some (outp ?d2 ?t)"
        using dpb_ok_parts(7) [OF ok2 tP] by (simp add: AL_Dpb_GetOutputFlag_def outp_def)
      have "dp_iNumDeletedPic d3 = 0" using d3(3) d1(3) by (simp add: displayed_def keeps_deleted_def)
      then show ?thesis using t gn of d3 ok2 d1(3) by (cases "outp ?d2 ?t") simp_all
    next
      case False
      then show ?thesis using gn ok2 d1(3) by auto
    qed
    then show ?thesis by (simp add: sApiEndDecoding_def Let_def d1(1) st True s(1))
  qed
qed

lemma sApiFlush_ok:
  assumes ok: "dpb_ok d P L D"
  shows "\<exists>d'. sApiFlush d = Some d' \<and> dpb_ok d' [] [] [] \<and> dp_log d' = dp_log d @ display_calls (to_show d P)
    \<and> df_frms (dp_DispFifo d') = df_frms (dp_DispFifo d) @ to_show d P"
proof -
  obtain d1 where d1: "flush_loop AL_REF_MNGR_MAX_BUF_SIZE d = Some d1" "dpb_ok d1 [] [] []"
    "dp_log d1 = dp_log d @ display_calls (to_show d P)"
    "df_frms (dp_DispFifo d1) = df_frms (dp_DispFifo d) @ to_show d P"
    using flush_loop_ok [OF ok dpb_ok_parts(3) [OF ok]] by blast
  have "dpb_ok (AL_Dpb_sBeginNewSeq d1) [] [] []"
    by (rule same_nodes_ok [OF d1(2)])
      (use d1(2) in \<open>simp_all add: AL_Dpb_sBeginNewSeq_def keeps_deleted_def dpb_ok_def data_ok_def\<close>)
  then show ?thesis using d1 by (simp add: sApiFlush_def AL_Dpb_sBeginNewSeq_def)
qed

end
