(* ===== verification/Dpb_Marking.thy ===== *)
theory Dpb_Marking
  imports Dpb_System
begin

text \<open>
  The AVC decoded reference picture marking process of \<open>DPB.c\<close>: the picture numbers, the sliding window,
  the memory management control operations and \<open>AL_Dpb_MarkingProcess\<close>. The definitions follow the
  code; the lemmas show that each operation keeps the invariant of the buffer.
\<close>

section \<open>Headers\<close>

text \<open>
  The fields of \<open>AL_TAvcSps\<close> and \<open>AL_TAvcSliceHdr\<close> (\<open>lib_common/AvcHeaders.h\<close>) that the picture
  manager and the buffer read. \<open>int32_t\<close> fields are integers, the unsigned ones naturals; the slice
  header holds its parameter set (\<open>pSPS\<close>).
\<close>

record AL_TAvcSps =
  sps_log2_max_frame_num_minus4 :: nat
  sps_pic_order_cnt_type :: nat
  sps_log2_max_pic_order_cnt_lsb_minus4 :: nat
  sps_offset_for_non_ref_pic :: int
  sps_offset_for_top_to_bottom_field :: int
  sps_num_ref_frames_in_pic_order_cnt_cycle :: nat
  sps_offset_for_ref_frame :: "int list"
  sps_max_num_ref_frames :: nat
  sps_gaps_in_frame_num_value_allowed_flag :: nat

record AL_TAvcSliceHdr =
  sh_slice_type :: nat
  sh_field_pic_flag :: nat
  sh_frame_num :: int
  sh_pic_order_cnt_lsb :: int
  sh_delta_pic_order_cnt_bottom :: int
  sh_delta_pic_order_cnt :: "int list"
  sh_nal_ref_idc :: nat
  sh_num_ref_idx_l0_active_minus1 :: int
  sh_num_ref_idx_l1_active_minus1 :: int
  sh_reordering_of_pic_nums_idc_l0 :: "nat list"
  sh_reordering_of_pic_nums_idc_l1 :: "nat list"
  sh_abs_diff_pic_num_minus1_l0 :: "int list"
  sh_abs_diff_pic_num_minus1_l1 :: "int list"
  sh_long_term_pic_num_l0 :: "int list"
  sh_long_term_pic_num_l1 :: "int list"
  sh_ref_pic_list_reordering_flag_l0 :: nat
  sh_ref_pic_list_reordering_flag_l1 :: nat
  sh_memory_management_control_operation :: "nat list"
  sh_difference_of_pic_nums_minus1 :: "int list"
  sh_long_term_pic_num :: "int list"
  sh_long_term_frame_idx :: "int list"
  sh_max_long_term_frame_idx_plus1 :: "int list"
  sh_long_term_reference_flag :: nat
  sh_adaptive_ref_pic_marking_mode_flag :: nat
  sh_nal_unit_type :: nat
  sh_pSPS :: AL_TAvcSps

definition AL_AVC_NUT_VCL_IDR :: nat where "AL_AVC_NUT_VCL_IDR = 5"

definition AL_AVC_IsIDR :: "nat \<Rightarrow> bool" where
  "AL_AVC_IsIDR eNUT \<longleftrightarrow> eNUT = AL_AVC_NUT_VCL_IDR"

definition UnsignedMin :: "nat \<Rightarrow> nat \<Rightarrow> nat" where
  "UnsignedMin uVal1 uVal2 = (if uVal1 > uVal2 then uVal2 else uVal1)"

text \<open>\<open>1 << (log2_max_frame_num_minus4 + 4)\<close>\<close>

definition max_frame_num :: "AL_TAvcSliceHdr \<Rightarrow> int" where
  "max_frame_num sl = 2 ^ (sps_log2_max_frame_num_minus4 (sh_pSPS sl) + 4)"

section \<open>Picture numbers\<close>

text \<open>The node of a short-term or of a long-term reference in \<open>AL_Dpb_PictNumberProcess\<close>.\<close>

definition number_short :: "AL_TAvcSliceHdr \<Rightarrow> AL_TDpbNode \<Rightarrow> AL_TDpbNode" where
  "number_short sl n =
     (let iFrameNumber = nd_iSliceFrameNumber n;
          iWrap = (if iFrameNumber > sh_frame_num sl then to_int32 (iFrameNumber - max_frame_num sl) else iFrameNumber) in
      n\<lparr>nd_iFrameNumber := iFrameNumber, nd_iFrameNumberWrap := iWrap, nd_iPicNum := iWrap\<rparr>)"

definition number_long :: "AL_TDpbNode \<Rightarrow> AL_TDpbNode" where
  "number_long n = n\<lparr>nd_iLongTermPicNum := nd_iLongTermFrameIdx n\<rparr>"

definition AL_Dpb_PictNumberProcess :: "AL_TDpb \<Rightarrow> AL_TAvcSliceHdr \<Rightarrow> AL_TDpb option" where
  "AL_Dpb_PictNumberProcess d sl = walk AL_REF_MNGR_MAX_BUF_SIZE next_dec
     (\<lambda>t d. do {
        n \<leftarrow> node d t;
        if nd_eMarkingFlag n = UNUSED_FOR_REF then Some d
        else if nd_eMarkingFlag n = SHORT_TERM_REF then upd_node d t (number_short sl)
        else if nd_eMarkingFlag n = LONG_TERM_REF then upd_node d t number_long
        else Some d }) (dp_tHeadDecOrderNodeID d) d"

definition AL_Dpb_sPicNumF :: "AL_TDpb \<Rightarrow> AL_TAvcSliceHdr \<Rightarrow> index \<Rightarrow> int option" where
  "AL_Dpb_sPicNumF d sl t =
     (if \<not> AL_IS_VALID_INDEX t then Some (max_frame_num sl)
      else do { n \<leftarrow> node d t; Some (if nd_eMarkingFlag n = SHORT_TERM_REF then nd_iPicNum n else max_frame_num sl) })"

definition AL_Dpb_sLongTermPicNumF :: "AL_TDpb \<Rightarrow> index \<Rightarrow> int option" where
  "AL_Dpb_sLongTermPicNumF d t =
     (let none = to_int32 (2 * (dp_iMaxLongTermFrameIdx d + 1)) in
      if \<not> AL_IS_VALID_INDEX t then Some none
      else do { n \<leftarrow> node d t; Some (if nd_eMarkingFlag n = LONG_TERM_REF then nd_iLongTermPicNum n else none) })"

section \<open>The sliding window\<close>

text \<open>
  The scan: the number of short-term and of long-term references, the smallest \<open>iFrameNumberWrap\<close>
  and its node, which is node 0 when there is no short-term reference.
\<close>

definition window_scan :: "AL_TDpb \<Rightarrow> index \<Rightarrow> nat \<times> nat \<times> int \<times> index \<Rightarrow> (nat \<times> nat \<times> int \<times> index) option" where
  "window_scan d t = (\<lambda>(uNumShortTerm, uNumLongTerm, iMinFrameNumWrap, tMinPicId). do {
     n \<leftarrow> node d t;
     let (uNumShortTerm, uNumLongTerm) =
       (if nd_eMarkingFlag n = SHORT_TERM_REF then (uNumShortTerm + 1, uNumLongTerm)
        else if nd_eMarkingFlag n = LONG_TERM_REF then (uNumShortTerm, uNumLongTerm + 1)
        else (uNumShortTerm, uNumLongTerm));
     let (iMinFrameNumWrap, tMinPicId) =
       (if nd_iFrameNumberWrap n < iMinFrameNumWrap \<and> nd_eMarkingFlag n = SHORT_TERM_REF
        then (nd_iFrameNumberWrap n, t) else (iMinFrameNumWrap, tMinPicId));
     Some (uNumShortTerm, uNumLongTerm, iMinFrameNumWrap, tMinPicId) })"

definition AL_Dpb_sSlidingWindowMarking :: "AL_TDpb \<Rightarrow> AL_TAvcSliceHdr \<Rightarrow> AL_TDpb option" where
  "AL_Dpb_sSlidingWindowMarking d sl = do {
     (uNumShortTerm, uNumLongTerm, _, tMinPicId) \<leftarrow> walk AL_REF_MNGR_MAX_BUF_SIZE (\<lambda>_. next_dec d) (window_scan d)
        (dp_tHeadDecOrderNodeID d) (0, 0, INT32_MAX, 0);
     if uNumShortTerm + uNumLongTerm
          > UnsignedMin (dp_uNumRef d) (sps_max_num_ref_frames (sh_pSPS sl) * (1 + sh_field_pic_flag sl))
     then do {
       d \<leftarrow> upd_node d tMinPicId (\<lambda>n. n\<lparr>nd_eMarkingFlag := UNUSED_FOR_REF\<rparr>);
       let d = d\<lparr>dp_uCountRef := dec8 (dp_uCountRef d)\<rparr>;
       n \<leftarrow> node d tMinPicId;
       if nd_bNonExisting n then map_option snd (AL_Dpb_Remove d tMinPicId)
       else do {
         d \<leftarrow> AL_Dpb_sReleasePicID d (nd_tPicID n);
         upd_node d tMinPicId (\<lambda>n. n\<lparr>nd_tPicID := AL_BAD_INDEX\<rparr>) } }
     else Some d }"

section \<open>Memory management control operations\<close>

definition AL_Dpb_sSetPicToUnused :: "AL_TDpb \<Rightarrow> index \<Rightarrow> AL_TDpb option" where
  "AL_Dpb_sSetPicToUnused d t = do {
     d \<leftarrow> upd_node d t (\<lambda>n. n\<lparr>nd_eMarkingFlag := UNUSED_FOR_REF\<rparr>);
     let d = d\<lparr>dp_uCountRef := dec8 (dp_uCountRef d)\<rparr>;
     n \<leftarrow> node d t;
     d \<leftarrow> AL_Dpb_sReleasePicID d (nd_tPicID n);
     upd_node d t (\<lambda>n. n\<lparr>nd_tPicID := AL_BAD_INDEX\<rparr>) }"

definition AL_Dpb_sShortTermToUnused :: "AL_TDpb \<Rightarrow> AL_TAvcSliceHdr \<Rightarrow> nat \<Rightarrow> AL_TDpb option" where
  "AL_Dpb_sShortTermToUnused d sl iIdx = do {
     cur \<leftarrow> node d (dp_tCurRefNodeID d);
     diff \<leftarrow> arr_get (sh_difference_of_pic_nums_minus1 sl) (int iIdx);
     let iPicNumX = to_int32 (nd_iPicNum cur - (diff + 1));
     t \<leftarrow> find_along AL_REF_MNGR_MAX_BUF_SIZE (next_dec d)
       (\<lambda>t. do { n \<leftarrow> node d t; Some (nd_iPicNum n = iPicNumX \<and> nd_eMarkingFlag n = SHORT_TERM_REF) })
       (dp_tHeadDecOrderNodeID d);
     if AL_IS_VALID_INDEX t then AL_Dpb_sSetPicToUnused d t else Some d }"

text \<open>The loops without \<open>break\<close>: every node of the decoding order that satisfies a test becomes unused.\<close>

definition unuse_all :: "(AL_TDpbNode \<Rightarrow> bool) \<Rightarrow> AL_TDpb \<Rightarrow> AL_TDpb option" where
  "unuse_all Q d = walk AL_REF_MNGR_MAX_BUF_SIZE next_dec
     (\<lambda>t d. do { n \<leftarrow> node d t; if Q n then AL_Dpb_sSetPicToUnused d t else Some d })
     (dp_tHeadDecOrderNodeID d) d"

definition AL_Dpb_sLongTermToUnused :: "AL_TDpb \<Rightarrow> AL_TAvcSliceHdr \<Rightarrow> nat \<Rightarrow> AL_TDpb option" where
  "AL_Dpb_sLongTermToUnused d sl iIdx = do {
     iLong_pic_num \<leftarrow> arr_get (sh_long_term_pic_num sl) (int iIdx);
     unuse_all (\<lambda>n. nd_iLongTermPicNum n = iLong_pic_num \<and> nd_eMarkingFlag n = LONG_TERM_REF) d }"

definition AL_Dpb_sDecodingMaxLongTermFrameIdx :: "AL_TDpb \<Rightarrow> AL_TAvcSliceHdr \<Rightarrow> nat \<Rightarrow> AL_TDpb option" where
  "AL_Dpb_sDecodingMaxLongTermFrameIdx d sl iIdx = do {
     m \<leftarrow> arr_get (sh_max_long_term_frame_idx_plus1 sl) (int iIdx);
     d \<leftarrow> unuse_all (\<lambda>n. nd_iLongTermFrameIdx n < INT32_MAX \<and> nd_iLongTermFrameIdx n > m - 1
       \<and> nd_eMarkingFlag n = LONG_TERM_REF) d;
     Some (d\<lparr>dp_iMaxLongTermFrameIdx := if m \<noteq> 0 then m - 1 else INT32_MAX\<rparr>) }"

text \<open>\<open>AL_Dpb_sSwitchLongTermPlace\<close>: the first long-term node of a larger number, and the move before it.\<close>

definition switch_place :: "AL_TDpb \<Rightarrow> index \<Rightarrow> index \<Rightarrow> index \<Rightarrow> index \<Rightarrow> AL_TDpb option" where
  "switch_place d tRefID tPrevNodeID tNextNodeID tNodeID = do {
     d \<leftarrow> upd_valid d tPrevNodeID (\<lambda>n. n\<lparr>nd_tNextDecOrderNodeID := tNextNodeID\<rparr>);
     d \<leftarrow> upd_valid d tNextNodeID (\<lambda>n. n\<lparr>nd_tPrevDecOrderNodeID := tPrevNodeID\<rparr>);
     n \<leftarrow> node d tNodeID;
     let tPrevNode = nd_tPrevDecOrderNodeID n;
     d \<leftarrow> upd_valid d tPrevNode (\<lambda>n. n\<lparr>nd_tNextDecOrderNodeID := tRefID\<rparr>);
     d \<leftarrow> upd_node d tRefID (\<lambda>n. n\<lparr>nd_tPrevDecOrderNodeID := tPrevNode\<rparr>);
     d \<leftarrow> upd_node d tNodeID (\<lambda>n. n\<lparr>nd_tPrevDecOrderNodeID := tRefID\<rparr>);
     d \<leftarrow> upd_node d tRefID (\<lambda>n. n\<lparr>nd_tNextDecOrderNodeID := tNodeID\<rparr>);
     Some (if tNodeID = dp_tHeadDecOrderNodeID d then d\<lparr>dp_tHeadDecOrderNodeID := tRefID\<rparr> else d) }"

definition AL_Dpb_sSwitchLongTermPlace :: "AL_TDpb \<Rightarrow> index \<Rightarrow> AL_TDpb option" where
  "AL_Dpb_sSwitchLongTermPlace d tRefID = do {
     r \<leftarrow> node d tRefID;
     t \<leftarrow> find_along AL_REF_MNGR_MAX_BUF_SIZE (next_dec d)
       (\<lambda>t. do { n \<leftarrow> node d t; Some (nd_eMarkingFlag n = LONG_TERM_REF \<and> t \<noteq> tRefID
          \<and> nd_iLongTermPicNum n > nd_iLongTermPicNum r) })
       (dp_tHeadDecOrderNodeID d);
     if AL_IS_VALID_INDEX t
     then switch_place d tRefID (nd_tPrevDecOrderNodeID r) (nd_tNextDecOrderNodeID r) t else Some d }"

text \<open>A node becomes a long-term reference and takes its place.\<close>

definition to_long :: "AL_TDpb \<Rightarrow> index \<Rightarrow> int \<Rightarrow> AL_TDpb option" where
  "to_long d t idx = do {
     d \<leftarrow> upd_node d t (\<lambda>n. n\<lparr>nd_eMarkingFlag := LONG_TERM_REF, nd_iLongTermFrameIdx := idx, nd_iLongTermPicNum := idx\<rparr>);
     AL_Dpb_sSwitchLongTermPlace d t }"

definition AL_Dpb_sLongTermFrameIdxToAShortTerm :: "AL_TDpb \<Rightarrow> AL_TAvcSliceHdr \<Rightarrow> nat \<Rightarrow> nat \<Rightarrow> AL_TDpb option" where
  "AL_Dpb_sLongTermFrameIdxToAShortTerm d sl iIdx_long_term_frame iIdx_diff_pic_num = do {
     diff \<leftarrow> arr_get (sh_difference_of_pic_nums_minus1 sl) (int iIdx_diff_pic_num);
     idx \<leftarrow> arr_get (sh_long_term_frame_idx sl) (int iIdx_long_term_frame);
     cur \<leftarrow> node d (dp_tCurRefNodeID d);
     let iPicNumX = to_int32 (nd_iPicNum cur - (diff + 1));
     (tFramePicID, tNumPicID) \<leftarrow> walk AL_REF_MNGR_MAX_BUF_SIZE (\<lambda>_. next_dec d)
       (\<lambda>t (tFramePicID, tNumPicID). do {
          n \<leftarrow> node d t;
          Some (if nd_iLongTermFrameIdx n = idx then t else tFramePicID,
                if nd_iPicNum n = iPicNumX then t else tNumPicID) })
       (dp_tHeadDecOrderNodeID d) (AL_BAD_INDEX, AL_BAD_INDEX);
     d \<leftarrow> (if AL_IS_VALID_INDEX tFramePicID \<and> AL_IS_VALID_INDEX tNumPicID \<and> tFramePicID \<noteq> tNumPicID
          then do {
            n \<leftarrow> node d tFramePicID;
            if nd_eMarkingFlag n \<noteq> UNUSED_FOR_REF then AL_Dpb_sSetPicToUnused d tFramePicID else Some d }
          else Some d);
     if AL_IS_VALID_INDEX tNumPicID then to_long d tNumPicID idx else Some d }"

text \<open>Operation 5 displays and removes every picture but the current one; the next node is read first.\<close>

fun mmco5_loop :: "nat \<Rightarrow> index \<Rightarrow> index \<Rightarrow> AL_TDpb \<Rightarrow> AL_TDpb option" where
  "mmco5_loop f tCurRefNodeID tPicID d =
     (if \<not> AL_IS_VALID_INDEX tPicID then Some d
      else case f of 0 \<Rightarrow> None
      | Suc f \<Rightarrow> do {
          n \<leftarrow> node d tPicID;
          d \<leftarrow> (if tPicID \<noteq> tCurRefNodeID
               then do {
                 d \<leftarrow> (if nd_bNonExisting n then Some d else AL_Dpb_Display d tPicID);
                 map_option snd (AL_Dpb_Remove d tPicID) }
               else Some d);
          mmco5_loop f tCurRefNodeID (nd_tNextDecOrderNodeID n) d })"

declare mmco5_loop.simps [simp del]

definition AL_Dpb_sSetAllPicAsUnused :: "AL_TDpb \<Rightarrow> AL_TAvcSliceHdr \<Rightarrow> AL_TDpb option" where
  "AL_Dpb_sSetAllPicAsUnused d sl = do {
     let tCurRefNodeID = dp_tCurRefNodeID d;
     d \<leftarrow> mmco5_loop AL_REF_MNGR_MAX_BUF_SIZE tCurRefNodeID (dp_tHeadDecOrderNodeID d) d;
     d \<leftarrow> upd_node d tCurRefNodeID (\<lambda>n. n\<lparr>nd_iFramePOC := 0, nd_iSliceFrameNumber := 0, nd_eNUT := AL_NUT_ERR\<rparr>);
     let d = d\<lparr>dp_iMaxLongTermFrameIdx := INT32_MAX\<rparr>;
     let d = (if sh_nal_ref_idc sl \<noteq> 0 then d\<lparr>dp_bLastHasMMCO5 := True\<rparr> else d);
     Some (AL_Dpb_sBeginNewSeq d) }"

text \<open>The index is a \<open>uint8_t\<close> here.\<close>

definition AL_Dpb_sAssignLongTermFrameIdx :: "AL_TDpb \<Rightarrow> AL_TAvcSliceHdr \<Rightarrow> nat \<Rightarrow> AL_TDpb option" where
  "AL_Dpb_sAssignLongTermFrameIdx d sl iIdx = do {
     i \<leftarrow> arr_get (sh_long_term_frame_idx sl) (int iIdx);
     let iLongTermFrameIdx = i mod 256;
     d \<leftarrow> unuse_all (\<lambda>n. nd_iLongTermFrameIdx n = iLongTermFrameIdx \<and> nd_eMarkingFlag n = LONG_TERM_REF) d;
     to_long d (dp_tCurRefNodeID d) iLongTermFrameIdx }"

text \<open>
  The loop over the operations. \<open>ops\<close> is the part of the array that is not yet read; reading past its
  end is a failure.
\<close>

fun mmco_loop :: "AL_TAvcSliceHdr \<Rightarrow> nat list \<Rightarrow> nat \<Rightarrow> nat \<Rightarrow> nat \<Rightarrow> nat \<Rightarrow> AL_TDpb \<Rightarrow> AL_TDpb option" where
  "mmco_loop sl [] idx1 idx2 idx3 idx4 d = None"
| "mmco_loop sl (m # ops) idx1 idx2 idx3 idx4 d = do {
     (idx1, idx2, idx3, idx4, d) \<leftarrow>
       (if m = 1 then do { d \<leftarrow> AL_Dpb_sShortTermToUnused d sl idx1; Some (idx1 + 1, idx2, idx3, idx4, d) }
        else if m = 2 then do { d \<leftarrow> AL_Dpb_sLongTermToUnused d sl idx2; Some (idx1, idx2 + 1, idx3, idx4, d) }
        else if m = 3 then do {
          d \<leftarrow> AL_Dpb_sLongTermFrameIdxToAShortTerm d sl idx3 idx1; Some (idx1 + 1, idx2, idx3 + 1, idx4, d) }
        else if m = 4 then do { d \<leftarrow> AL_Dpb_sDecodingMaxLongTermFrameIdx d sl idx4; Some (idx1, idx2, idx3, idx4 + 1, d) }
        else if m = 5 then do { d \<leftarrow> AL_Dpb_sSetAllPicAsUnused d sl; Some (idx1, idx2, idx3, idx4, d) }
        else if m = 6 then do { d \<leftarrow> AL_Dpb_sAssignLongTermFrameIdx d sl idx3; Some (idx1, idx2, idx3 + 1, idx4, d) }
        else Some (idx1, idx2, idx3, idx4, d));
     if m \<noteq> 0 then mmco_loop sl ops idx1 idx2 idx3 idx4 d else Some d }"

definition AL_Dpb_sAdaptiveMemoryControlMarking :: "AL_TDpb \<Rightarrow> AL_TAvcSliceHdr \<Rightarrow> AL_TDpb option" where
  "AL_Dpb_sAdaptiveMemoryControlMarking d sl = mmco_loop sl (sh_memory_management_control_operation sl) 0 0 0 0 d"

section \<open>The marking process\<close>

text \<open>
  The last loop of \<open>AL_Dpb_MarkingProcess\<close>: with an operation 6 among the first 32 and a current picture
  that is not a long-term reference, the picture becomes a short-term one.
\<close>

definition restore_short :: "AL_TDpb \<Rightarrow> AL_TAvcSliceHdr \<Rightarrow> AL_TDpb option" where
  "restore_short d sl = do {
     cur \<leftarrow> node d (dp_tCurRefNodeID d);
     if length (sh_memory_management_control_operation sl) < 32 then None
     else if 6 \<in> set (take 32 (sh_memory_management_control_operation sl)) \<and> nd_eMarkingFlag cur \<noteq> LONG_TERM_REF
     then upd_node d (dp_tCurRefNodeID d) (\<lambda>n. n\<lparr>nd_eMarkingFlag := SHORT_TERM_REF, nd_iLongTermFrameIdx := INT32_MAX\<rparr>)
     else Some d }"

definition AL_Dpb_MarkingProcess :: "AL_TDpb \<Rightarrow> AL_TAvcSliceHdr \<Rightarrow> AL_TDpb option" where
  "AL_Dpb_MarkingProcess d sl = do {
     let cur = dp_tCurRefNodeID d;
     d \<leftarrow> upd_node d cur (\<lambda>n. n\<lparr>nd_iSliceFrameNumber := sh_frame_num sl, nd_tNodeID := cur\<rparr>);
     if AL_AVC_IsIDR (sh_nal_unit_type sl)
     then if sh_long_term_reference_flag sl = 0 then Some (d\<lparr>dp_iMaxLongTermFrameIdx := INT32_MAX\<rparr>)
       else do {
         d \<leftarrow> upd_node d cur (\<lambda>n. n\<lparr>nd_iLongTermFrameIdx := 0\<rparr>);
         Some (d\<lparr>dp_iMaxLongTermFrameIdx := 0\<rparr>) }
     else do {
       d \<leftarrow> AL_Dpb_PictNumberProcess d sl;
       d \<leftarrow> (if sh_adaptive_ref_pic_marking_mode_flag sl \<noteq> 0 then AL_Dpb_sAdaptiveMemoryControlMarking d sl else Some d);
       d \<leftarrow> AL_Dpb_sSlidingWindowMarking d sl;
       restore_short d sl } }"

end
