(* ===== verification/Dpb_MarkOk.thy ===== *)
theory Dpb_MarkOk
  imports Dpb_Marking
begin

text \<open>
  The marking operations of \<open>DPB.c\<close> keep the invariant of the buffer, and what each of them changes:
  which pictures become unused for reference, and the order of the decoding list.
\<close>

section \<open>Loops in decoding order\<close>

lemma dec_list_links:
  assumes "dec_list d (as @ z # bs)"
  shows "nd_tNextDecOrderNodeID (nd d z) = hd_or bs AL_BAD_INDEX" "in_range d z" "0 \<le> z"
    "nd_tPrevDecOrderNodeID (nd d z) = last_or as AL_BAD_INDEX"
proof -
  have dl: "dll (fld nd_tNextDecOrderNodeID (dp_Nodes d)) (fld nd_tPrevDecOrderNodeID (dp_Nodes d)) (dp_tHeadDecOrderNodeID d) (as @ z # bs)"
    and z: "in_range d z"
    using assms by (simp_all add: dec_list_def)
  show "nd_tNextDecOrderNodeID (nd d z) = hd_or bs AL_BAD_INDEX" "nd_tPrevDecOrderNodeID (nd d z) = last_or as AL_BAD_INDEX"
    using dll_at(1,2) [OF dl] fld_nd [OF z] by metis+
  show "in_range d z" "0 \<le> z" using z by (simp_all add: in_range_def)
qed

lemma dpb_ok_dec:
  assumes "dpb_ok d P L D"
  shows "dec_list d D" "distinct D" "set D = set P" "length D \<le> AL_REF_MNGR_MAX_BUF_SIZE" "x \<in> set D \<Longrightarrow> in_range d x"
proof -
  have ls: "lists_ok d P L D" using assms by (simp add: dpb_ok_def)
  show "dec_list d D" using ls by (simp add: lists_ok_def)
  show "distinct D" "set D = set P" "x \<in> set D \<Longrightarrow> in_range d x" using lists_dist [OF ls] by auto
  show "length D \<le> AL_REF_MNGR_MAX_BUF_SIZE" using lists_lengths(2) [OF ls] dpb_ok_parts(3) [OF assms] by simp
qed

lemma dec_seg:
  assumes "dpb_ok d P L D"
  shows "seg (fld nd_tNextDecOrderNodeID (dp_Nodes d)) (fld nd_tPrevDecOrderNodeID (dp_Nodes d)) AL_BAD_INDEX
    (dp_tHeadDecOrderNodeID d) D AL_BAD_INDEX"
  using dpb_ok_dec(1) [OF assms] by (simp add: dec_list_def dll_def)

lemma next_dec_same:
  assumes "dec_list d D" "dec_list s D" "x \<in> set D"
  shows "next_dec s x = Some (fld nd_tNextDecOrderNodeID (dp_Nodes d) x)"
proof -
  obtain as bs where D: "D = as @ x # bs" using split_list [OF assms(3)] by blast
  show ?thesis
    using dec_list_links [OF assms(1) [unfolded D]] dec_list_links [OF assms(2) [unfolded D]]
    by (simp add: next_dec_def fld_nd)
qed

text \<open>A loop whose body keeps the list visits it once, in order.\<close>

lemma dec_walk:
  assumes "dpb_ok d P L D"
    and "\<And>s x s'. dpb_ok s P L D \<Longrightarrow> x \<in> set D \<Longrightarrow> body x s = Some s' \<Longrightarrow> dpb_ok s' P L D"
  shows "walk AL_REF_MNGR_MAX_BUF_SIZE next_dec body (dp_tHeadDecOrderNodeID d) d = foldM body D d"
  by (rule walk_foldM [where I = "\<lambda>s. dpb_ok s P L D", OF dec_seg [OF assms(1)] dpb_ok_dec(4) [OF assms(1)] assms(1)])
    (use assms(2) next_dec_same [OF dpb_ok_dec(1) [OF assms(1)] dpb_ok_dec(1)] in blast)+

lemma dec_read:
  assumes "dpb_ok d P L D"
  shows "walk AL_REF_MNGR_MAX_BUF_SIZE (\<lambda>_. next_dec d) body (dp_tHeadDecOrderNodeID d) s = foldM body D s"
  by (rule walk_foldM [where I = "\<lambda>_. True", OF dec_seg [OF assms] dpb_ok_dec(4) [OF assms] TrueI TrueI])
    (use next_dec_same [OF dpb_ok_dec(1) [OF assms] dpb_ok_dec(1) [OF assms]] in blast)

lemma dec_find:
  assumes "dpb_ok d P L D" "\<And>x. x \<in> set D \<Longrightarrow> test x = Some (Q x)"
  shows "find_along AL_REF_MNGR_MAX_BUF_SIZE (next_dec d) test (dp_tHeadDecOrderNodeID d)
    = Some (hd_or (dropWhile (\<lambda>x. \<not> Q x) D) AL_BAD_INDEX)"
  by (rule find_along_seg [OF dec_seg [OF assms(1)] dpb_ok_dec(4) [OF assms(1)]])
    (use assms(2) next_dec_same [OF dpb_ok_dec(1) [OF assms(1)] dpb_ok_dec(1) [OF assms(1)]] in blast)+

lemma hd_dropWhile_sat:
  assumes "\<forall>x \<in> set xs. 0 \<le> (x :: index)" "0 \<le> hd_or (dropWhile (\<lambda>x. \<not> Q x) xs) AL_BAD_INDEX"
  shows "Q (hd_or (dropWhile (\<lambda>x. \<not> Q x) xs) AL_BAD_INDEX)" "hd_or (dropWhile (\<lambda>x. \<not> Q x) xs) AL_BAD_INDEX \<in> set xs"
proof -
  obtain y ys where e: "dropWhile (\<lambda>x. \<not> Q x) xs = y # ys"
    using assms(2) by (cases "dropWhile (\<lambda>x. \<not> Q x) xs") auto
  have "y \<in> set xs" using set_dropWhileD [of y "\<lambda>x. \<not> Q x" xs] e by simp
  moreover have "Q y" using hd_dropWhile [of "\<lambda>x. \<not> Q x" xs] e by simp
  ultimately show "Q (hd_or (dropWhile (\<lambda>x. \<not> Q x) xs) AL_BAD_INDEX)" "hd_or (dropWhile (\<lambda>x. \<not> Q x) xs) AL_BAD_INDEX \<in> set xs"
    using e by simp_all
qed

lemma hd_dropWhile_none:
  assumes "\<forall>x \<in> set xs. 0 \<le> (x :: index)" "\<not> 0 \<le> hd_or (dropWhile (\<lambda>x. \<not> Q x) xs) AL_BAD_INDEX"
  shows "\<forall>x \<in> set xs. \<not> Q x"
proof (cases "dropWhile (\<lambda>x. \<not> Q x) xs")
  case (Cons y ys)
  then have "y \<in> set xs" using set_dropWhileD [of y "\<lambda>x. \<not> Q x" xs] by simp
  then show ?thesis using assms Cons by auto
qed (auto simp: dropWhile_eq_Nil_conv)

section \<open>Becoming unused\<close>

text \<open>The pictures of \<open>T\<close> become unused for reference and lose their identifiers; nothing else changes.\<close>

definition unused_in :: "index set \<Rightarrow> AL_TDpb \<Rightarrow> AL_TDpb \<Rightarrow> bool" where
  "unused_in T d d' \<longleftrightarrow> (\<forall>y. 0 \<le> y \<longrightarrow> nd d' y = (if y \<in> T
       then (nd d y)\<lparr>nd_eMarkingFlag := UNUSED_FOR_REF, nd_tPicID := AL_BAD_INDEX\<rparr> else nd d y))
     \<and> dp_log d' = dp_log d \<and> dp_DispFifo d' = dp_DispFifo d \<and> dp_uNumRef d' = dp_uNumRef d \<and> dp_eMode d' = dp_eMode d
     \<and> dp_tCurRefNodeID d' = dp_tCurRefNodeID d \<and> dp_bLastHasMMCO5 d' = dp_bLastHasMMCO5 d"

lemma unused_in_refl [simp]: "unused_in {} d d"
  by (simp add: unused_in_def)

lemma unused_in_trans: "unused_in S a b \<Longrightarrow> unused_in T b c \<Longrightarrow> unused_in (S \<union> T) a c"
  by (auto simp: unused_in_def)

lemma drop_pic_id_ok:
  assumes ok: "dpb_ok d P L D" and t: "t \<in> set P"
  shows "\<exists>d'. (do { d \<leftarrow> AL_Dpb_sReleasePicID d (nd_tPicID (nd d t)); upd_node d t (\<lambda>n. n\<lparr>nd_tPicID := AL_BAD_INDEX\<rparr>) }) = Some d'
    \<and> dpb_ok d' P L D \<and> (\<forall>y. 0 \<le> y \<longrightarrow> nd d' y = (if y = t then (nd d t)\<lparr>nd_tPicID := AL_BAD_INDEX\<rparr> else nd d y))
    \<and> dp_log d' = dp_log d \<and> dp_DispFifo d' = dp_DispFifo d \<and> dp_uNumRef d' = dp_uNumRef d \<and> dp_eMode d' = dp_eMode d
     \<and> dp_tCurRefNodeID d' = dp_tCurRefNodeID d \<and> dp_bLastHasMMCO5 d' = dp_bLastHasMMCO5 d"
proof -
  note pt = dpb_ok_parts [OF ok]
  have ls: "lists_ok d P L D" "ordered d P L" and dt: "data_ok d P" using ok by (simp_all add: dpb_ok_def)
  have n: "pics_ok d P" "deleted_ok d" "df_ok (dp_DispFifo d)" "room_ok d P" "log_ok d P" and ids: "ids_ok d P" "waiting_ok d P"
    using dt by (simp_all add: data_ok_pics pics_ok_def)
  obtain m fr c where rel: "AL_Dpb_sReleasePicID d (nd_tPicID (nd d t))
      = Some (d\<lparr>dp_PicId2NodeId := m, dp_FreePicIDs := fr, dp_FreePicIdCnt := c\<rparr>)"
    and io: "ids_ok (d\<lparr>dp_PicId2NodeId := m, dp_FreePicIDs := fr, dp_FreePicIdCnt := c\<rparr>) (removeAll t P)"
    using release_pic_ok [OF ids(1) pt(2) t] by blast
  let ?e = "d\<lparr>dp_PicId2NodeId := m, dp_FreePicIDs := fr, dp_FreePicIdCnt := c\<rparr>"
  let ?d = "set_nd ?e t (\<lambda>n. n\<lparr>nd_tPicID := AL_BAD_INDEX\<rparr>)"
  have r: "in_range d t" by (rule pt(7) [OF t])
  have nd: "nd ?d y = (if y = t then (nd d t)\<lparr>nd_tPicID := AL_BAD_INDEX\<rparr> else nd d y)" if "0 \<le> y" for y
    using r that by simp
  have P0: "0 \<le> y" if "y \<in> set P" for y using pt(7) [OF that] by (simp add: in_range_def)
  note ndP = nd [OF P0]
  have fl: "marked ?d y = marked d y" "outp ?d y = outp d y" "absent ?d y = absent d y" if "0 \<le> y" for y
    using nd [OF that] by (simp_all add: marked_def outp_def absent_def)
  have sl: "same_links d ?d" unfolding same_links_def same_poc_def same_lsb_def same_dec_def by (simp add: fld_set_nd_same)
  have ids': "ids_ok ?d P"
  proof -
    have e: "ids_ok ?d (removeAll t P)"
      by (subst ids_ok_cong [where d = ?e]) (use P0 nd io in \<open>simp_all add: nd_def set_nd_def\<close>)
    have "mset (held_ids ?d P) = mset (held_ids ?d (removeAll t P))"
      using held_ids_split [OF pt(2) t, of ?d] ndP [OF t] by simp
    then show ?thesis using e ndP [OF t] by (auto simp: ids_ok_def)
  qed
  have pk: "pics_ok ?d P"
  proof (rule pics_ok_keep [OF n(1)])
    show "node_in ?d y" if "in_range d y" "node_in d y" for y
      using that nd [of y] fl [of y] by (auto simp: in_range_def node_in_def)
    show "node_out ?d y" if "in_range d y" "node_out d y" for y
      using that nd [of y] fl [of y] by (auto simp: in_range_def node_out_def)
    show "filter (marked ?d) P = filter (marked d) P" "filter (outp ?d) P = filter (outp d) P"
      by (rule filter_cong; simp only: fl P0)+
    show "ids_ok ?d P" by (rule ids')
    show "waiting_ok ?d P" using ids(2) by (simp add: waiting_ok_def ndP fl(3) P0 cong: conj_cong)
  qed simp_all
  have kd: "keeps_deleted d ?d" by (simp add: keeps_deleted_def)
  have ff: "filter (outp ?d) P = filter (outp d) P" by (rule filter_cong; simp only: fl P0)
  have "frames ?d P = frames d P" "mvs ?d P = mvs d P"
  proof -
    have "filter (\<lambda>x. \<not> absent ?d x) P = filter (\<lambda>x. \<not> absent d x) P" by (rule filter_cong; simp only: fl P0)
    then show "frames ?d P = frames d P" "mvs ?d P = mvs d P" by (simp_all add: frames_def mvs_def ndP del: nd_set_nd)
  qed
  then have "log_ok ?d P" using n(5) by (simp add: log_ok_def events_def keeps_deleted_frms [OF kd])
  moreover have "room_ok ?d P" using n(4) unfolding room_ok_def ff by simp
  moreover have "deleted_ok ?d" using keeps_deleted_frms(3) [OF kd] n(2) by simp
  ultimately have "data_ok ?d P" using pk n(3) by (simp add: data_ok_pics)
  moreover have "ordered ?d P L" by (rule ordered_keep [OF ls(2)]) (use lists_dist(4) [OF ls(1)] ndP in auto)
  ultimately have "dpb_ok ?d P L D" using ls(1) same_links_lists [OF sl] by (simp add: dpb_ok_def)
  moreover have "(do { d \<leftarrow> AL_Dpb_sReleasePicID d (nd_tPicID (nd d t)); upd_node d t (\<lambda>n. n\<lparr>nd_tPicID := AL_BAD_INDEX\<rparr>) }) = Some ?d"
    using rel r by simp
  ultimately show ?thesis using nd by (intro exI [of _ ?d]) auto
qed

lemma AL_Dpb_sSetPicToUnused_ok:
  assumes ok: "dpb_ok d P L D" and t: "t \<in> set P" "marked d t"
  shows "\<exists>d'. AL_Dpb_sSetPicToUnused d t = Some d' \<and> dpb_ok d' P L D \<and> unused_in {t} d d'"
proof -
  have r: "in_range d t" by (rule dpb_ok_parts(7) [OF ok t(1)])
  let ?d = "(set_nd d t (\<lambda>n. n\<lparr>nd_eMarkingFlag := UNUSED_FOR_REF\<rparr>))\<lparr>dp_uCountRef := dec8 (dp_uCountRef d)\<rparr>"
  have "set_nd (d\<lparr>dp_uCountRef := dec8 (dp_uCountRef d)\<rparr>) t (\<lambda>n. n\<lparr>nd_eMarkingFlag := UNUSED_FOR_REF\<rparr>) = ?d"
    by (simp add: set_nd_def nd_def)
  then have "AL_Dpb_SetMarkingFlag d t UNUSED_FOR_REF = Some ?d"
    using t(2) r by (simp add: AL_Dpb_SetMarkingFlag_def marked_def)
  then have ok1: "dpb_ok ?d P L D" using AL_Dpb_SetMarkingFlag_ok [OF ok r, of UNUSED_FOR_REF] by auto
  have run: "AL_Dpb_sSetPicToUnused d t = (do { d \<leftarrow> AL_Dpb_sReleasePicID ?d (nd_tPicID (nd ?d t));
      upd_node d t (\<lambda>n. n\<lparr>nd_tPicID := AL_BAD_INDEX\<rparr>) })"
    using r by (simp add: AL_Dpb_sSetPicToUnused_def)
  show ?thesis
    unfolding run using drop_pic_id_ok [OF ok1 t(1)] r by (auto simp: unused_in_def in_range_def)
qed

section \<open>Operations 1, 2 and 4\<close>

lemma unuse_fold:
  assumes Q: "\<And>n. Q n \<Longrightarrow> nd_eMarkingFlag n \<noteq> UNUSED_FOR_REF"
    and "dpb_ok d P L D" "distinct xs" "set xs \<subseteq> set P"
  shows "\<exists>d'. foldM (\<lambda>t d. do { n \<leftarrow> node d t; if Q n then AL_Dpb_sSetPicToUnused d t else Some d }) xs d = Some d'
    \<and> dpb_ok d' P L D \<and> unused_in {x \<in> set xs. Q (nd d x)} d d'"
  using assms(2-)
proof (induction xs arbitrary: d)
  case Nil
  then show ?case by simp
next
  case (Cons x xs)
  let ?T = "if Q (nd d x) then {x} else {}"
  have r: "in_range d x" using dpb_ok_parts(7) [OF Cons.prems(1)] Cons.prems(3) by simp
  obtain e where e: "(if Q (nd d x) then AL_Dpb_sSetPicToUnused d x else Some d) = Some e" "dpb_ok e P L D" "unused_in ?T d e"
  proof (cases "Q (nd d x)")
    case True
    then have "marked d x" using Q by (simp add: marked_def)
    then show ?thesis using AL_Dpb_sSetPicToUnused_ok [OF Cons.prems(1), of x] Cons.prems(3) True that by auto
  qed (use Cons.prems(1) that in auto)
  have k: "nd e y = nd d y" if "y \<in> set xs" for y
  proof -
    have "0 \<le> y" using that Cons.prems(3) dpb_ok_parts(7) [OF Cons.prems(1)] by (auto simp: in_range_def)
    moreover have "y \<notin> ?T" using that Cons.prems(2) by auto
    ultimately show ?thesis using e(3) by (simp add: unused_in_def)
  qed
  have S: "{x \<in> set xs. Q (nd e x)} = {x \<in> set xs. Q (nd d x)}" using k by auto
  obtain d' where d': "foldM (\<lambda>t d. do { n \<leftarrow> node d t; if Q n then AL_Dpb_sSetPicToUnused d t else Some d }) xs e = Some d'"
    "dpb_ok d' P L D" "unused_in {x \<in> set xs. Q (nd e x)} e d'"
    using Cons.IH [OF e(2)] Cons.prems(2,3) by auto
  have "?T \<union> {x \<in> set xs. Q (nd d x)} = {y \<in> set (x # xs). Q (nd d y)}" by auto
  then have "unused_in {y \<in> set (x # xs). Q (nd d y)} d d'" using unused_in_trans [OF e(3) d'(3)] S by simp
  then show ?case using e(1) d'(1,2) r by (intro exI [of _ d']) simp
qed

lemma unuse_all_ok:
  assumes Q: "\<And>n. Q n \<Longrightarrow> nd_eMarkingFlag n \<noteq> UNUSED_FOR_REF" and ok: "dpb_ok d P L D"
  shows "\<exists>d'. unuse_all Q d = Some d' \<and> dpb_ok d' P L D \<and> unused_in {x \<in> set P. Q (nd d x)} d d'"
proof -
  let ?f = "\<lambda>t d. do { n \<leftarrow> node d t; if Q n then AL_Dpb_sSetPicToUnused d t else Some d }"
  note dd = dpb_ok_dec [OF ok]
  have "unuse_all Q d = foldM ?f D d"
    unfolding unuse_all_def
  proof (rule dec_walk [OF ok])
    fix s x s' assume s: "dpb_ok s P L D" "x \<in> set D" "?f x s = Some s'"
    have "in_range s x" by (rule dpb_ok_dec(5) [OF s(1,2)])
    then show "dpb_ok s' P L D"
      using s AL_Dpb_sSetPicToUnused_ok [OF s(1), of x] Q [of "nd s x"] dd(3) by (auto simp: marked_def split: if_splits)
  qed
  then show ?thesis using unuse_fold [OF Q ok dd(2)] dd(3) by simp
qed

lemma AL_Dpb_sLongTermToUnused_ok:
  assumes "dpb_ok d P L D" "i < length (sh_long_term_pic_num sl)"
  shows "\<exists>d'. AL_Dpb_sLongTermToUnused d sl i = Some d' \<and> dpb_ok d' P L D
    \<and> unused_in {x \<in> set P. nd_iLongTermPicNum (nd d x) = sh_long_term_pic_num sl ! i \<and> nd_eMarkingFlag (nd d x) = LONG_TERM_REF} d d'"
  using unuse_all_ok [OF _ assms(1), of "\<lambda>n. nd_iLongTermPicNum n = sh_long_term_pic_num sl ! i \<and> nd_eMarkingFlag n = LONG_TERM_REF"] assms(2)
  by (simp add: AL_Dpb_sLongTermToUnused_def)

lemma marking_context:
  assumes "dpb_ok d P L D"
  shows "dpb_ok (d\<lparr>dp_iMaxLongTermFrameIdx := m\<rparr>) P L D" "unused_in T e d \<Longrightarrow> unused_in T e (d\<lparr>dp_iMaxLongTermFrameIdx := m\<rparr>)"
proof -
  have "df_ok (dp_DispFifo d)" using assms by (simp add: dpb_ok_def data_ok_def)
  then show "dpb_ok (d\<lparr>dp_iMaxLongTermFrameIdx := m\<rparr>) P L D" by (intro same_nodes_ok [OF assms]) (simp_all add: keeps_deleted_def)
  show "unused_in T e (d\<lparr>dp_iMaxLongTermFrameIdx := m\<rparr>)" if "unused_in T e d" using that by (simp add: unused_in_def)
qed

lemma AL_Dpb_sDecodingMaxLongTermFrameIdx_ok:
  assumes "dpb_ok d P L D" "i < length (sh_max_long_term_frame_idx_plus1 sl)"
  shows "\<exists>d'. AL_Dpb_sDecodingMaxLongTermFrameIdx d sl i = Some d' \<and> dpb_ok d' P L D
    \<and> unused_in {x \<in> set P. nd_iLongTermFrameIdx (nd d x) < INT32_MAX
        \<and> nd_iLongTermFrameIdx (nd d x) > sh_max_long_term_frame_idx_plus1 sl ! i - 1
        \<and> nd_eMarkingFlag (nd d x) = LONG_TERM_REF} d d'"
proof -
  let ?m = "sh_max_long_term_frame_idx_plus1 sl ! i"
  obtain e where e: "unuse_all (\<lambda>n. nd_iLongTermFrameIdx n < INT32_MAX \<and> nd_iLongTermFrameIdx n > ?m - 1
       \<and> nd_eMarkingFlag n = LONG_TERM_REF) d = Some e" "dpb_ok e P L D"
     "unused_in {x \<in> set P. nd_iLongTermFrameIdx (nd d x) < INT32_MAX \<and> nd_iLongTermFrameIdx (nd d x) > ?m - 1
        \<and> nd_eMarkingFlag (nd d x) = LONG_TERM_REF} d e"
    using unuse_all_ok [OF _ assms(1), of "\<lambda>n. nd_iLongTermFrameIdx n < INT32_MAX \<and> nd_iLongTermFrameIdx n > ?m - 1
       \<and> nd_eMarkingFlag n = LONG_TERM_REF"] by auto
  then show ?thesis using assms(2) marking_context [OF e(2)] by (simp add: AL_Dpb_sDecodingMaxLongTermFrameIdx_def)
qed

lemma AL_Dpb_sShortTermToUnused_ok:
  assumes ok: "dpb_ok d P L D" and "i < length (sh_difference_of_pic_nums_minus1 sl)" "in_range d (dp_tCurRefNodeID d)"
  defines "X \<equiv> to_int32 (nd_iPicNum (nd d (dp_tCurRefNodeID d)) - (sh_difference_of_pic_nums_minus1 sl ! i + 1))"
  shows "\<exists>d' T. AL_Dpb_sShortTermToUnused d sl i = Some d' \<and> dpb_ok d' P L D \<and> unused_in T d d'
    \<and> T \<subseteq> {x \<in> set P. nd_iPicNum (nd d x) = X \<and> nd_eMarkingFlag (nd d x) = SHORT_TERM_REF} \<and> card T \<le> 1
    \<and> (T = {} \<longrightarrow> \<not> (\<exists>x \<in> set P. nd_iPicNum (nd d x) = X \<and> nd_eMarkingFlag (nd d x) = SHORT_TERM_REF))"
proof -
  let ?Q = "\<lambda>x. nd_iPicNum (nd d x) = X \<and> nd_eMarkingFlag (nd d x) = SHORT_TERM_REF"
  let ?t = "hd_or (dropWhile (\<lambda>x. \<not> ?Q x) D) AL_BAD_INDEX"
  note dd = dpb_ok_dec [OF ok]
  have P0: "\<forall>x \<in> set D. 0 \<le> x" using dd(5) by (auto simp: in_range_def)
  have "find_along AL_REF_MNGR_MAX_BUF_SIZE (next_dec d)
       (\<lambda>t. do { n \<leftarrow> node d t; Some (nd_iPicNum n = X \<and> nd_eMarkingFlag n = SHORT_TERM_REF) })
       (dp_tHeadDecOrderNodeID d) = Some ?t"
    by (rule dec_find [OF ok]) (simp add: dd(5))
  then have run: "AL_Dpb_sShortTermToUnused d sl i = (if 0 \<le> ?t then AL_Dpb_sSetPicToUnused d ?t else Some d)"
    using assms(2,3) by (simp add: AL_Dpb_sShortTermToUnused_def X_def)
  show ?thesis
  proof (cases "0 \<le> ?t")
    case True
    have t: "?Q ?t" "?t \<in> set P" using hd_dropWhile_sat [OF P0 True] dd(3) by blast+
    then have "marked d ?t" by (simp add: marked_def)
    from AL_Dpb_sSetPicToUnused_ok [OF ok t(2) this] obtain d' where
      "AL_Dpb_sSetPicToUnused d ?t = Some d'" "dpb_ok d' P L D" "unused_in {?t} d d'" by blast
    then show ?thesis using t run True by (intro exI [of _ d'] exI [of _ "{?t}"]) auto
  next
    case False
    then have "\<not> (\<exists>x \<in> set P. ?Q x)" using hd_dropWhile_none [OF P0 False] dd(3) by blast
    then show ?thesis using run False ok by (intro exI [of _ d] exI [of _ "{}"]) auto
  qed
qed

section \<open>Picture numbers\<close>

text \<open>What the marking process does not change in a node: everything but its numbers and its unit type.\<close>

definition core :: "AL_TDpbNode \<Rightarrow> AL_TDpbNode" where
  "core n = n\<lparr>nd_iFrameNumber := 0, nd_iSliceFrameNumber := 0, nd_iFrameNumberWrap := 0, nd_iLongTermFrameIdx := 0,
     nd_iLongTermPicNum := 0, nd_iPicNum := 0, nd_eNUT := 0\<rparr>"

lemma core_fields:
  assumes "core m = core n"
  shows "nd_tNodeID m = nd_tNodeID n" "nd_tFrameID m = nd_tFrameID n" "nd_tMvID m = nd_tMvID n" "nd_tPicID m = nd_tPicID n"
    "nd_iFramePOC m = nd_iFramePOC n" "nd_slice_pic_order_cnt_lsb m = nd_slice_pic_order_cnt_lsb n"
    "nd_eMarkingFlag m = nd_eMarkingFlag n" "nd_bPicOutputFlag m = nd_bPicOutputFlag n" "nd_bIsReset m = nd_bIsReset n"
    "nd_bNonExisting m = nd_bNonExisting n" "nd_uPicLatency m = nd_uPicLatency n"
    "nd_tNextPOCNodeID m = nd_tNextPOCNodeID n" "nd_tPrevPOCNodeID m = nd_tPrevPOCNodeID n"
    "nd_tNextPocLsbNodeID m = nd_tNextPocLsbNodeID n" "nd_tPrevPocLsbNodeID m = nd_tPrevPocLsbNodeID n"
    "nd_tNextDecOrderNodeID m = nd_tNextDecOrderNodeID n" "nd_tPrevDecOrderNodeID m = nd_tPrevDecOrderNodeID n"
  using assms by (cases m; cases n; simp add: core_def)+

definition renumbered :: "(index \<Rightarrow> AL_TDpbNode \<Rightarrow> AL_TDpbNode) \<Rightarrow> AL_TDpb \<Rightarrow> AL_TDpb \<Rightarrow> bool" where
  "renumbered g d d' \<longleftrightarrow> (\<exists>N. length N = length (dp_Nodes d) \<and> d' = d\<lparr>dp_Nodes := N\<rparr>
     \<and> (\<forall>y. in_range d y \<longrightarrow> N ! nat y = g y (nd d y)))"

lemma renumbered_set_nd:
  "in_range d t \<Longrightarrow> renumbered (\<lambda>y n. if y = t then g n else n) d (set_nd d t g)"
  unfolding renumbered_def set_nd_def nd_def in_range_def by (intro exI conjI) (auto simp: nth_list_update nat_eq_iff)

lemma renumbered_trans:
  "renumbered g a b \<Longrightarrow> renumbered h b c \<Longrightarrow> renumbered (\<lambda>y n. h y (g y n)) a c"
  by (auto simp: renumbered_def nd_def in_range_def)

lemma renumbered_nd: "renumbered g d d' \<Longrightarrow> in_range d y \<Longrightarrow> nd d' y = g y (nd d y)"
  by (auto simp: renumbered_def nd_def)

lemma renumbered_fields:
  assumes "renumbered g d d'"
  shows "dp_log d' = dp_log d" "dp_DispFifo d' = dp_DispFifo d" "dp_uNumRef d' = dp_uNumRef d" "dp_eMode d' = dp_eMode d"
    "dp_tCurRefNodeID d' = dp_tCurRefNodeID d" "dp_bLastHasMMCO5 d' = dp_bLastHasMMCO5 d" "in_range d' y = in_range d y"
  using assms by (auto simp: renumbered_def in_range_def)

lemma renumbered_ok:
  assumes ok: "dpb_ok d P L D" and r: "renumbered g d d'" and g: "\<And>y. in_range d y \<Longrightarrow> core (g y (nd d y)) = core (nd d y)"
  shows "dpb_ok d' P L D"
proof -
  note pt = dpb_ok_parts [OF ok]
  obtain N where N: "length N = length (dp_Nodes d)" "d' = d\<lparr>dp_Nodes := N\<rparr>"
    and at: "\<And>y. in_range d y \<Longrightarrow> N ! nat y = g y (nd d y)"
    using r by (auto simp: renumbered_def)
  have nd: "nd d' y = g y (nd d y)" if "in_range d y" for y using at [OF that] by (simp add: nd_def N(2))
  have c: "core (nd d' y) = core (nd d y)" if "in_range d y" for y using g [OF that] nd [OF that] by simp
  note f = core_fields [OF c]
  have fl: "marked d' y = marked d y" "outp d' y = outp d y" "absent d' y = absent d y" if "in_range d y" for y
    by (simp_all add: marked_def outp_def absent_def f [OF that])
  have fd: "fld F N = fld F (dp_Nodes d)" if "\<And>m n. core m = core n \<Longrightarrow> F m = F n" for F
  proof
    fix y
    show "fld F N y = fld F (dp_Nodes d) y"
    proof (cases "in_range d y")
      case True
      then show ?thesis using that [OF c [OF True]] N by (simp add: fld_def in_range_def nd_def)
    qed (use N(1) in \<open>auto simp: fld_def in_range_def\<close>)
  qed
  have ff: "filter (marked d') P = filter (marked d) P" "filter (outp d') P = filter (outp d) P"
    by (rule filter_cong; simp only: fl pt(7))+
  show ?thesis
  proof (rule dpb_ok_change [OF ok])
    show "same_links d d'" unfolding same_links_def same_poc_def same_lsb_def same_dec_def N(2)
      by (simp add: N(1)) (intro conjI fd core_fields; assumption)
    show "dp_uCountRef d' = length (filter (marked d') P)" "dp_uNumOutputPic d' = length (filter (outp d') P)"
      unfolding ff using pt(4,6) by (simp_all add: N(2))
    show "df_ok (dp_DispFifo d')" using ok by (simp add: dpb_ok_def data_ok_def N(2))
    fix y assume y: "in_range d y"
    show "outp d' y \<Longrightarrow> outp d y" using fl(2) [OF y] by simp
    show "\<not> marked d' y" if "y \<notin> set P" using nodes_okD(2) [OF pt(8) y that] fl(1) [OF y] by (simp add: node_out_def)
    show "nd_tNodeID (nd d' y) = nd_tNodeID (nd d y) \<and> nd_tFrameID (nd d' y) = nd_tFrameID (nd d y)
      \<and> nd_tMvID (nd d' y) = nd_tMvID (nd d y) \<and> nd_tPicID (nd d' y) = nd_tPicID (nd d y)
      \<and> nd_iFramePOC (nd d' y) = nd_iFramePOC (nd d y)
      \<and> nd_slice_pic_order_cnt_lsb (nd d' y) = nd_slice_pic_order_cnt_lsb (nd d y)
      \<and> nd_bIsReset (nd d' y) = nd_bIsReset (nd d y) \<and> absent d' y = absent d y"
      using f [OF y] fl(3) [OF y] by simp
  qed (simp_all add: N(2) keeps_deleted_def)
qed

text \<open>The numbers of one node, 8.2.4.1.\<close>

definition numbered :: "AL_TAvcSliceHdr \<Rightarrow> AL_TDpbNode \<Rightarrow> AL_TDpbNode" where
  "numbered sl n = (case nd_eMarkingFlag n of SHORT_TERM_REF \<Rightarrow> number_short sl n | LONG_TERM_REF \<Rightarrow> number_long n | _ \<Rightarrow> n)"

lemma core_numbered: "core (numbered sl n) = core n"
  by (simp add: core_def numbered_def number_short_def number_long_def Let_def split: AL_EMarkingRef.split)

lemma renumbered_cong:
  "renumbered g d d' \<Longrightarrow> (\<And>y. in_range d y \<Longrightarrow> g y (nd d y) = h y (nd d y)) \<Longrightarrow> renumbered h d d'"
  by (auto simp: renumbered_def)

lemma AL_Dpb_PictNumberProcess_ok:
  assumes ok: "dpb_ok d P L D"
  shows "\<exists>d'. AL_Dpb_PictNumberProcess d sl = Some d' \<and> dpb_ok d' P L D
    \<and> renumbered (\<lambda>y n. if y \<in> set P then numbered sl n else n) d d'"
proof -
  let ?f = "\<lambda>t d. do {
        n \<leftarrow> node d t;
        if nd_eMarkingFlag n = UNUSED_FOR_REF then Some d
        else if nd_eMarkingFlag n = SHORT_TERM_REF then upd_node d t (number_short sl)
        else if nd_eMarkingFlag n = LONG_TERM_REF then upd_node d t number_long
        else Some d }"
  note dd = dpb_ok_dec [OF ok]
  have step: "\<exists>s'. ?f x s = Some s' \<and> renumbered (\<lambda>y n. if y = x then numbered sl n else n) s s'" if "in_range s x" for s x
  proof -
    have c: "renumbered (\<lambda>y n. if y = x then numbered sl n else n) s (set_nd s x g)" if "g (nd s x) = numbered sl (nd s x)" for g
      by (rule renumbered_cong [OF renumbered_set_nd [OF \<open>in_range s x\<close>, of g]]) (simp add: that)
    have i: "set_nd s x (\<lambda>n. n) = s" using that by (simp add: set_nd_def nd_def in_range_def)
    show ?thesis
      using that c [of "number_short sl"] c [of number_long] c [of "\<lambda>n. n", unfolded i]
      by (cases "nd_eMarkingFlag (nd s x)") (simp_all add: numbered_def)
  qed
  have keep: "dpb_ok s' P L D" if "dpb_ok s P L D" "renumbered (\<lambda>y n. if y = x then numbered sl n else n) s s'" for s s' x
    by (rule renumbered_ok [OF that]) (simp add: core_numbered)
  have loop: "walk AL_REF_MNGR_MAX_BUF_SIZE next_dec ?f (dp_tHeadDecOrderNodeID d) d = foldM ?f D d"
  proof (rule dec_walk [OF ok])
    fix s x s' assume s: "dpb_ok s P L D" "x \<in> set D" and e: "?f x s = Some s'"
    have "in_range s x" by (rule dpb_ok_dec(5) [OF s])
    then obtain s2 where s2: "?f x s = Some s2" "renumbered (\<lambda>y n. if y = x then numbered sl n else n) s s2" using step by blast
    have "s2 = s'" using e s2(1) by (simp only: option.inject)
    then show "dpb_ok s' P L D" using keep [OF s(1)] s2(2) by blast
  qed
  have each: "\<exists>e. foldM ?f xs d = Some e \<and> dpb_ok e P L D \<and> renumbered (\<lambda>y n. if y \<in> set xs then numbered sl n else n) d e"
    if "distinct xs" "set xs \<subseteq> set D" "dpb_ok d P L D" for xs d
    using that
  proof (induction xs arbitrary: d)
    case Nil
    then show ?case by (auto simp: renumbered_def nd_def intro!: exI [of _ "dp_Nodes d"])
  next
    case (Cons x xs)
    have r: "in_range d x" using dpb_ok_dec(5) [OF Cons.prems(3)] Cons.prems(2) by simp
    obtain s where s: "?f x d = Some s" "renumbered (\<lambda>y n. if y = x then numbered sl n else n) d s" using step [OF r] by blast
    have sk: "dpb_ok s P L D" by (rule keep [OF Cons.prems(3) s(2)])
    obtain e where e: "foldM ?f xs s = Some e" "dpb_ok e P L D" "renumbered (\<lambda>y n. if y \<in> set xs then numbered sl n else n) s e"
      using Cons.IH [OF _ _ sk] Cons.prems(1,2) by auto
    have "renumbered (\<lambda>y n. if y \<in> set (x # xs) then numbered sl n else n) d e"
      by (rule renumbered_cong [OF renumbered_trans [OF s(2) e(3)]]) (use Cons.prems(1) in auto)
    moreover have "foldM ?f (x # xs) d = Some e" unfolding foldM.simps s(1) using e(1) by simp
    ultimately show ?case using e(2) by blast
  qed

  obtain e where "foldM ?f D d = Some e" "dpb_ok e P L D" "renumbered (\<lambda>y n. if y \<in> set D then numbered sl n else n) d e"
    using each [OF dd(2) subset_refl ok] by blast
  then show ?thesis using loop dd(3) unfolding AL_Dpb_PictNumberProcess_def by (intro exI [of _ e]) simp
qed

section \<open>Operation 5\<close>

lemma bind_SomeE:
  assumes "Option.bind m f = Some y"
  obtains x where "m = Some x" "f x = Some y"
  using assms by (cases m) auto

lemma display_node_cur: "display_node d t = Some d' \<Longrightarrow> dp_tCurRefNodeID d' = dp_tCurRefNodeID d"
  by (auto simp: display_node_def AL_Dpb_sAddToDisplayList_def upd_node_def call_def elim!: bind_SomeE split: if_splits)

lemma display_loop_cur:
  assumes "\<And>d t d'. disp d t = Some d' \<Longrightarrow> dp_tCurRefNodeID d' = dp_tCurRefNodeID d"
  shows "display_loop disp f n t d = Some d' \<Longrightarrow> dp_tCurRefNodeID d' = dp_tCurRefNodeID d"
proof (induction f arbitrary: t d)
  case 0
  then show ?case by (subst (asm) display_loop.simps) (auto split: if_splits)
next
  case (Suc f)
  from Suc.prems show ?case
    by (subst (asm) display_loop.simps) (auto split: if_splits elim!: bind_SomeE dest!: Suc.IH assms)
qed

lemma AL_Dpb_Display_cur: "AL_Dpb_Display d t = Some d' \<Longrightarrow> dp_tCurRefNodeID d' = dp_tCurRefNodeID d"
proof -
  have "display_at k d t = Some d' \<Longrightarrow> dp_tCurRefNodeID d' = dp_tCurRefNodeID d" for k d t d'
  proof (induction k arbitrary: d t d')
    case 0
    then show ?case by simp
  next
    case (Suc k)
    then show ?case using display_loop_cur [OF Suc.IH] display_node_cur by (fastforce elim!: bind_SomeE)
  qed
  then show "AL_Dpb_Display d t = Some d' \<Longrightarrow> dp_tCurRefNodeID d' = dp_tCurRefNodeID d"
    unfolding AL_Dpb_Display_def by blast
qed

text \<open>Pictures were output in order and removed: what \<open>P\<close> had to show is what was shown and what is left in \<open>Q\<close>.\<close>

definition drained :: "index list \<Rightarrow> index list \<Rightarrow> AL_TDpb \<Rightarrow> AL_TDpb \<Rightarrow> bool" where
  "drained P Q d d' \<longleftrightarrow> (\<exists>S. dp_log d' = dp_log d @ display_calls S
       \<and> df_frms (dp_DispFifo d') = df_frms (dp_DispFifo d) @ S \<and> to_show d P = S @ to_show d' Q)
     \<and> set Q \<subseteq> set P
     \<and> (\<forall>y \<in> set Q. nd_tFrameID (nd d' y) = nd_tFrameID (nd d y) \<and> marked d' y = marked d y \<and> (outp d' y \<longrightarrow> outp d y))
     \<and> dp_uNumRef d' = dp_uNumRef d \<and> dp_eMode d' = dp_eMode d \<and> dp_tCurRefNodeID d' = dp_tCurRefNodeID d"

lemma drained_refl [simp]: "drained P P d d"
  by (auto simp: drained_def intro!: exI [of _ "[]"])

lemma drained_trans:
  assumes "drained P Q a b" "drained Q R b c"
  shows "drained P R a c"
proof -
  obtain S T where "dp_log b = dp_log a @ display_calls S" "df_frms (dp_DispFifo b) = df_frms (dp_DispFifo a) @ S"
      "to_show a P = S @ to_show b Q"
    "dp_log c = dp_log b @ display_calls T" "df_frms (dp_DispFifo c) = df_frms (dp_DispFifo b) @ T"
      "to_show b Q = T @ to_show c R"
    using assms by (auto simp: drained_def)
  then have "\<exists>S. dp_log c = dp_log a @ display_calls S
       \<and> df_frms (dp_DispFifo c) = df_frms (dp_DispFifo a) @ S \<and> to_show a P = S @ to_show c R"
    by (intro exI [of _ "S @ T"]) simp
  moreover have "set R \<subseteq> set Q" "set Q \<subseteq> set P" using assms by (auto simp: drained_def)
  ultimately show ?thesis using assms unfolding drained_def by fastforce
qed

lemma cleaned_drained: "cleaned P Q d d' \<Longrightarrow> dp_tCurRefNodeID d' = dp_tCurRefNodeID d \<Longrightarrow> drained P Q d d'"
  by (auto simp: cleaned_def drained_def)

lemma removed_drained:
  assumes "keeps (set (removeAll x P)) d d'" "\<not> outp d x"
  shows "drained P (removeAll x P) d d'"
proof -
  note k = keepsD [OF assms(1)]
  have "filter (outp d) (removeAll x P) = filter (outp d) P"
    using assms(2) by (auto simp: removeAll_filter_not_eq intro!: filter_cong)
  moreover have "to_show d' (removeAll x P) = to_show d (removeAll x P)"
    using k by (intro to_show_cong) simp_all
  ultimately have "to_show d P = to_show d' (removeAll x P)" by (simp add: to_show_def)
  then show ?thesis
    using assms(1) k unfolding drained_def by (auto simp: keeps_def intro!: exI [of _ "[]"])
qed

lemma show_and_remove:
  assumes ok: "dpb_ok d P L D" and x: "x \<in> set P"
  shows "\<exists>d'. (do { d \<leftarrow> (if nd_bNonExisting (nd d x) then Some d else AL_Dpb_Display d x); map_option snd (AL_Dpb_Remove d x) }) = Some d'
    \<and> dpb_ok d' (removeAll x P) (removeAll x L) (removeAll x D) \<and> drained P (removeAll x P) d d'"
proof -
  obtain as bs where P: "P = as @ x # bs" using split_list [OF x] by blast
  obtain e where e: "(if nd_bNonExisting (nd d x) then Some d else AL_Dpb_Display d x) = Some e" "dpb_ok e P L D"
    "drained P P d e" "\<not> outp e x"
  proof (cases "absent d x")
    case True
    then have "\<not> outp d x" using nodes_okD(1) [OF dpb_ok_parts(8) [OF ok] dpb_ok_parts(7) [OF ok x] x] by (simp add: node_in_def)
    then show ?thesis using True ok that [of d] by (simp add: absent_def)
  next
    case False
    obtain e where e: "AL_Dpb_Display d x = Some e" "dpb_ok e P L D" "displayed P (as @ [x]) d e" "cleaned P P d e"
      using Display_cleaned [OF ok P] by blast
    have "drained P P d e" using cleaned_drained [OF e(4) AL_Dpb_Display_cur [OF e(1)]] .
    moreover have "\<not> outp e x" using e(3) x by (auto simp: displayed_def)
    ultimately show ?thesis using e(1,2) False that [of e] by (simp add: absent_def)
  qed
  obtain d' where "AL_Dpb_Remove e x = Some (nd_tFrameID (nd e x), d')"
    "dpb_ok d' (removeAll x P) (removeAll x L) (removeAll x D)" "keeps (set (removeAll x P)) e d'"
    using AL_Dpb_Remove_ok [OF e(2) x e(4)] by blast
  then show ?thesis using e(1) drained_trans [OF e(3) removed_drained [OF _ e(4)]] by (intro exI [of _ d']) simp
qed

lemma mmco5_loop_ok:
  assumes "dpb_ok d P L (ys @ xs)" "length xs \<le> f" "cur \<notin> set ys \<longrightarrow> cur \<in> set xs"
  shows "\<exists>d' P' L'. mmco5_loop f cur (hd_or xs AL_BAD_INDEX) d = Some d' \<and> dpb_ok d' P' L' (ys @ filter ((=) cur) xs)
    \<and> drained P P' d d'"
  using assms
proof (induction xs arbitrary: f d P L ys)
  case Nil
  then show ?case by (subst mmco5_loop.simps) auto
next
  case (Cons x xs)
  obtain g where f: "f = Suc g" using Cons.prems(2) by (cases f) auto
  note dd = dpb_ok_dec [OF Cons.prems(1)]
  note lk = dec_list_links [OF dd(1)]
  have step: "mmco5_loop f cur x d = (do {
      d \<leftarrow> (if x \<noteq> cur then do { d \<leftarrow> (if nd_bNonExisting (nd d x) then Some d else AL_Dpb_Display d x);
        map_option snd (AL_Dpb_Remove d x) } else Some d);
      mmco5_loop g cur (hd_or xs AL_BAD_INDEX) d })"
    unfolding f by (subst mmco5_loop.simps) (simp add: lk)
  show ?case
  proof (cases "x = cur")
    case True
    then have "mmco5_loop f cur x d = mmco5_loop g cur (hd_or xs AL_BAD_INDEX) d" unfolding step by simp
    moreover have "cur \<notin> set xs" using dd(2) True by auto
    then have "filter ((=) cur) xs = []" by (auto simp: filter_empty_conv)
    moreover obtain d' P' L' where "mmco5_loop g cur (hd_or xs AL_BAD_INDEX) d = Some d'"
      "dpb_ok d' P' L' ((ys @ [x]) @ filter ((=) cur) xs)" "drained P P' d d'"
      using Cons.IH [of d P L "ys @ [x]" g] Cons.prems f True by auto
    ultimately show ?thesis using True by (intro exI [of _ d'] exI [of _ P'] exI [of _ L']) simp
  next
    case False
    have x: "x \<in> set P" using dd(3) by auto
    obtain e where e: "(do { d \<leftarrow> (if nd_bNonExisting (nd d x) then Some d else AL_Dpb_Display d x); map_option snd (AL_Dpb_Remove d x) }) = Some e"
      "dpb_ok e (removeAll x P) (removeAll x L) (removeAll x (ys @ x # xs))" "drained P (removeAll x P) d e"
      using show_and_remove [OF Cons.prems(1) x] by blast
    have "removeAll x (ys @ x # xs) = ys @ xs" using dd(2) by simp
    then obtain d' P' L' where d': "mmco5_loop g cur (hd_or xs AL_BAD_INDEX) e = Some d'"
      "dpb_ok d' P' L' (ys @ filter ((=) cur) xs)" "drained (removeAll x P) P' e d'"
      using Cons.IH [of e "removeAll x P" "removeAll x L" ys g] e(2) Cons.prems(2,3) f False by auto
    have "mmco5_loop f cur x d = Some d'" unfolding step using e(1) d'(1) False by simp
    then show ?thesis using d' drained_trans [OF e(3) d'(3)] False by (intro exI [of _ d'] exI [of _ P'] exI [of _ L']) simp
  qed
qed

lemma mmco5_fields_ok:
  assumes ok: "dpb_ok d [c] [c] [c]" and g: "g = (\<lambda>n. n\<lparr>nd_iFramePOC := 0, nd_iSliceFrameNumber := 0, nd_eNUT := AL_NUT_ERR\<rparr>)"
  shows "dpb_ok (set_nd d c g) [c] [c] [c]" "marked (set_nd d c g) c = marked d c"
proof -
  note pt = dpb_ok_parts [OF ok]
  let ?d = "set_nd d c g"
  have c: "in_range d c" "0 \<le> c" using pt(7) [of c] by (simp_all add: in_range_def)
  have nd: "nd ?d y = (if y = c then g (nd d c) else nd d y)" if "0 \<le> y" for y using c(1) that by simp
  have fl: "marked ?d y = marked d y" "outp ?d y = outp d y" "absent ?d y = absent d y" if "0 \<le> y" for y
    using nd [OF that] by (simp_all add: marked_def outp_def absent_def g)
  show "marked ?d c = marked d c" using fl(1) [OF c(2)] .
  show "dpb_ok ?d [c] [c] [c]"
  proof (rule dpb_ok_change_gen [OF ok])
    show "same_links d ?d" unfolding same_links_def same_poc_def same_lsb_def same_dec_def g by (simp add: fld_set_nd_same)
    show "ordered ?d [c] [c]" by (simp add: ordered_def)
    show "dp_uCountRef ?d = length (filter (marked ?d) [c])" "dp_uNumOutputPic ?d = length (filter (outp ?d) [c])"
      using pt(4,6) fl [OF c(2)] by simp_all
    show "df_ok (dp_DispFifo ?d)" using ok by (simp add: dpb_ok_def data_ok_def)
    fix y assume y: "in_range d y"
    then have y0: "0 \<le> y" by (simp add: in_range_def)
    show "outp ?d y \<Longrightarrow> outp d y" using fl(2) [OF y0] by simp
    show "\<not> marked ?d y" if "y \<notin> set [c]"
      using nodes_okD(2) [OF pt(8) y that] fl(1) [OF y0] by (auto simp: node_out_def)
    show "nd_tNodeID (nd ?d y) = nd_tNodeID (nd d y) \<and> nd_tFrameID (nd ?d y) = nd_tFrameID (nd d y)
      \<and> nd_tMvID (nd ?d y) = nd_tMvID (nd d y) \<and> nd_tPicID (nd ?d y) = nd_tPicID (nd d y)
      \<and> nd_bIsReset (nd ?d y) = nd_bIsReset (nd d y) \<and> absent ?d y = absent d y"
      using nd [OF y0] fl(3) [OF y0] by (simp add: g)
  qed (simp_all add: keeps_deleted_def)
qed

lemma AL_Dpb_sSetAllPicAsUnused_ok:
  assumes ok: "dpb_ok d P L D" and c: "c = dp_tCurRefNodeID d" "c \<in> set P"
  shows "\<exists>d'. AL_Dpb_sSetAllPicAsUnused d sl = Some d' \<and> dpb_ok d' [c] [c] [c] \<and> drained P [c] d d'
    \<and> nd_iFramePOC (nd d' c) = 0 \<and> nd_iSliceFrameNumber (nd d' c) = 0 \<and> dp_iMaxLongTermFrameIdx d' = INT32_MAX
    \<and> (sh_nal_ref_idc sl \<noteq> 0 \<longrightarrow> dp_bLastHasMMCO5 d')"
proof -
  note dd = dpb_ok_dec [OF ok]
  have f: "filter ((=) c) D = [c]"
  proof -
    obtain as bs where D: "D = as @ c # bs" using split_list [of c D] c(2) dd(3) by blast
    moreover have "\<forall>x \<in> set as. c \<noteq> x" "\<forall>x \<in> set bs. c \<noteq> x" using dd(2) D by auto
    then have "filter ((=) c) as = []" "filter ((=) c) bs = []" by (simp_all add: filter_False)
    ultimately show ?thesis by simp
  qed
  have hd: "dp_tHeadDecOrderNodeID d = hd_or D AL_BAD_INDEX"
    using dd(1) by (auto simp: dec_list_def dest: dll_head)
  obtain e P' L' where e: "mmco5_loop AL_REF_MNGR_MAX_BUF_SIZE c (dp_tHeadDecOrderNodeID d) d = Some e" "dpb_ok e P' L' [c]"
    "drained P P' d e"
    using mmco5_loop_ok [of d P L "[]" D AL_REF_MNGR_MAX_BUF_SIZE c] ok c(2) dd(3,4) f hd by auto
  have ls: "lists_ok e P' L' [c]" using e(2) by (simp add: dpb_ok_def)
  have "P' = [c]" "L' = [c]"
    using lists_lengths(1,2) [OF ls] lists_dist(4,5) [OF ls] by (cases P'; cases L'; auto)+
  then have ok1: "dpb_ok e [c] [c] [c]" and dr: "drained P [c] d e" using e(2,3) by simp_all
  let ?g = "\<lambda>n. n\<lparr>nd_iFramePOC := 0, nd_iSliceFrameNumber := 0, nd_eNUT := AL_NUT_ERR\<rparr>"
  let ?e = "set_nd e c ?g"
  have r: "in_range e c" "0 \<le> c" using dpb_ok_parts(7) [OF ok1, of c] by (simp_all add: in_range_def)
  note ok2 = mmco5_fields_ok [OF ok1 refl]
  let ?h = "\<lambda>b. ?e\<lparr>dp_iMaxLongTermFrameIdx := INT32_MAX, dp_bLastHasMMCO5 := b, dp_iLastDisplayedPOC := INT32_MIN\<rparr>"
  have "df_ok (dp_DispFifo ?e)" using ok2(1) by (simp add: dpb_ok_def data_ok_def)
  then have ok3: "dpb_ok (?h b) [c] [c] [c]" for b by (intro same_nodes_ok [OF ok2(1)]) (simp_all add: keeps_deleted_def)
  have nd: "nd (?h b) c = ?g (nd e c)" for b using r by simp
  have "drained [c] [c] e (?h b)" for b
  proof -
    have "to_show (?h b) [c] = to_show e [c]" using nd [of b] by (simp add: outp_def)
    moreover have "marked (?h b) c = marked e c" "outp (?h b) c = outp e c" using nd [of b] by (simp_all add: marked_def outp_def)
    ultimately show ?thesis unfolding drained_def using nd [of b] by (auto intro!: exI [of _ "[]"])
  qed
  note dr2 = drained_trans [OF dr this]
  have run: "AL_Dpb_sSetAllPicAsUnused d sl = Some (?h (sh_nal_ref_idc sl \<noteq> 0 \<or> dp_bLastHasMMCO5 e))"
  proof -
    have "?e\<lparr>dp_iMaxLongTermFrameIdx := INT32_MAX, dp_iLastDisplayedPOC := INT32_MIN\<rparr> = ?h (dp_bLastHasMMCO5 e)"
      by (rule AL_TDpb.equality) simp_all
    then show ?thesis using e(1) r(1)
      by (simp add: AL_Dpb_sSetAllPicAsUnused_def c(1) [symmetric] AL_Dpb_sBeginNewSeq_def Let_def)
  qed
  show ?thesis unfolding run using ok3 dr2 nd by (intro exI [of _ "?h (sh_nal_ref_idc sl \<noteq> 0 \<or> dp_bLastHasMMCO5 e)"]) simp
qed

section \<open>The sliding window\<close>

definition refs :: "AL_TDpb \<Rightarrow> index set" where "refs d = {y. in_range d y \<and> marked d y}"
definition shorts :: "AL_TDpb \<Rightarrow> index set" where "shorts d = {y. in_range d y \<and> nd_eMarkingFlag (nd d y) = SHORT_TERM_REF}"
definition longs :: "AL_TDpb \<Rightarrow> index set" where "longs d = {y. in_range d y \<and> nd_eMarkingFlag (nd d y) = LONG_TERM_REF}"

lemma refs_finite [simp]: "finite (refs d)" "finite (shorts d)" "finite (longs d)"
proof -
  have "{y. in_range d y} \<subseteq> int ` {..<length (dp_Nodes d)}"
    by (auto simp: in_range_def image_iff intro!: bexI [of _ "nat _"])
  then have "finite {y. in_range d y}" by (rule finite_subset) simp
  then show "finite (refs d)" "finite (shorts d)" "finite (longs d)"
    by (auto simp: refs_def shorts_def longs_def elim: rev_finite_subset)
qed

lemma refs_listed:
  assumes "dpb_ok d P L D"
  shows "refs d = {y \<in> set P. marked d y}" "shorts d \<subseteq> refs d" "longs d \<subseteq> refs d" "card (refs d) = dp_uCountRef d"
proof -
  note pt = dpb_ok_parts [OF assms]
  show r: "refs d = {y \<in> set P. marked d y}"
    using pt(7) nodes_okD(2) [OF pt(8)] by (auto simp: refs_def node_out_def)
  show "shorts d \<subseteq> refs d" "longs d \<subseteq> refs d" by (auto simp: shorts_def longs_def refs_def marked_def)
  have "refs d = set (filter (marked d) P)" unfolding r by auto
  then show "card (refs d) = dp_uCountRef d" using pt(2,6) distinct_card [of "filter (marked d) P"] by simp
qed

lemma window_fold:
  assumes "distinct xs" "\<And>x. x \<in> set xs \<Longrightarrow> in_range d x"
  shows "\<exists>m' t'. foldM (window_scan d) xs (s, l, m, t)
      = Some (s + card (shorts d \<inter> set xs), l + card (longs d \<inter> set xs), m', t')
    \<and> (\<forall>y \<in> shorts d \<inter> set xs. m' \<le> nd_iFrameNumberWrap (nd d y)) \<and> m' \<le> m
    \<and> (m' < m \<longrightarrow> t' \<in> shorts d \<inter> set xs \<and> nd_iFrameNumberWrap (nd d t') = m') \<and> (m' = m \<longrightarrow> t' = t)"
  using assms
proof (induction xs arbitrary: s l m t)
  case Nil
  then show ?case by simp
next
  case (Cons x xs)
  have r: "in_range d x" using Cons.prems(2) by simp
  let ?s = "if x \<in> shorts d then s + 1 else s" and ?l = "if x \<in> longs d then l + 1 else l"
  let ?b = "nd_iFrameNumberWrap (nd d x) < m \<and> x \<in> shorts d"
  let ?m = "if ?b then nd_iFrameNumberWrap (nd d x) else m" and ?t = "if ?b then x else t"
  have one: "window_scan d x (s, l, m, t) = Some (?s, ?l, ?m, ?t)"
    using r by (cases "nd_eMarkingFlag (nd d x)") (auto simp: window_scan_def shorts_def longs_def)
  obtain m' t' where ih: "foldM (window_scan d) xs (?s, ?l, ?m, ?t)
      = Some (?s + card (shorts d \<inter> set xs), ?l + card (longs d \<inter> set xs), m', t')"
    "\<forall>y \<in> shorts d \<inter> set xs. m' \<le> nd_iFrameNumberWrap (nd d y)" "m' \<le> ?m"
    "m' < ?m \<longrightarrow> t' \<in> shorts d \<inter> set xs \<and> nd_iFrameNumberWrap (nd d t') = m'" "m' = ?m \<longrightarrow> t' = ?t"
    using Cons.IH [of ?s ?l ?m ?t] Cons.prems by fastforce
  have x: "x \<notin> set xs" using Cons.prems(1) by simp
  have c: "card (A \<inter> set (x # xs)) = (if x \<in> A then 1 else 0) + card (A \<inter> set xs)" if "finite A" for A
    using x that by (auto simp: Int_insert_right)
  have cs: "?s + card (shorts d \<inter> set xs) = s + card (shorts d \<inter> set (x # xs))"
    "?l + card (longs d \<inter> set xs) = l + card (longs d \<inter> set (x # xs))"
    using c [of "shorts d"] c [of "longs d"] by simp_all
  have "foldM (window_scan d) (x # xs) (s, l, m, t)
      = Some (s + card (shorts d \<inter> set (x # xs)), l + card (longs d \<inter> set (x # xs)), m', t')"
    unfolding foldM.simps one using ih(1) unfolding cs by simp
  moreover have "\<forall>y \<in> shorts d \<inter> set (x # xs). m' \<le> nd_iFrameNumberWrap (nd d y)" "m' \<le> m"
    "m' < m \<longrightarrow> t' \<in> shorts d \<inter> set (x # xs) \<and> nd_iFrameNumberWrap (nd d t') = m'" "m' = m \<longrightarrow> t' = t"
    using ih(2-) by (auto split: if_splits)
  ultimately show ?case by blast
qed

definition ref_limit :: "AL_TDpb \<Rightarrow> AL_TAvcSliceHdr \<Rightarrow> nat" where
  "ref_limit d sl = UnsignedMin (dp_uNumRef d) (sps_max_num_ref_frames (sh_pSPS sl) * (1 + sh_field_pic_flag sl))"

text \<open>
  The oldest short-term reference goes when there are more references than the limit, and only then.
  A picture that does not exist also leaves the buffer.
\<close>

lemma AL_Dpb_sSlidingWindowMarking_ok:
  assumes ok: "dpb_ok d P L D"
    and few: "ref_limit d sl < card (shorts d) + card (longs d) \<longrightarrow> shorts d \<noteq> {}"
    and num: "\<forall>y \<in> shorts d. nd_iFrameNumberWrap (nd d y) < INT32_MAX"
  shows "\<exists>d' Q L' D'. AL_Dpb_sSlidingWindowMarking d sl = Some d' \<and> dpb_ok d' Q L' D'
    \<and> dp_uNumRef d' = dp_uNumRef d \<and> dp_tCurRefNodeID d' = dp_tCurRefNodeID d \<and> length (dp_Nodes d') = length (dp_Nodes d)
    \<and> (if card (shorts d) + card (longs d) \<le> ref_limit d sl then d' = d \<and> Q = P
       else \<exists>t \<in> shorts d. (\<forall>y \<in> shorts d. nd_iFrameNumberWrap (nd d t) \<le> nd_iFrameNumberWrap (nd d y))
         \<and> refs d' = refs d - {t} \<and> set Q = (if absent d t then set P - {t} else set P)
         \<and> (\<forall>y \<in> refs d'. nd_eMarkingFlag (nd d' y) = nd_eMarkingFlag (nd d y)))"
proof -
  note dd = dpb_ok_dec [OF ok] and pt = dpb_ok_parts [OF ok] and rl = refs_listed [OF ok]
  have inD: "shorts d \<inter> set D = shorts d" "longs d \<inter> set D = longs d" using rl dd(3) by auto
  obtain m t where w: "foldM (window_scan d) D (0, 0, INT32_MAX, 0) = Some (card (shorts d), card (longs d), m, t)"
    and t: "\<forall>y \<in> shorts d. m \<le> nd_iFrameNumberWrap (nd d y)" "m \<le> INT32_MAX"
      "m < INT32_MAX \<longrightarrow> t \<in> shorts d \<and> nd_iFrameNumberWrap (nd d t) = m"
    using window_fold [OF dd(2,5), of 0 0 INT32_MAX 0] unfolding inD by auto
  let ?rest = "do {
       d \<leftarrow> upd_node d t (\<lambda>n. n\<lparr>nd_eMarkingFlag := UNUSED_FOR_REF\<rparr>);
       let d = d\<lparr>dp_uCountRef := dec8 (dp_uCountRef d)\<rparr>;
       n \<leftarrow> node d t;
       if nd_bNonExisting n then map_option snd (AL_Dpb_Remove d t)
       else do {
         d \<leftarrow> AL_Dpb_sReleasePicID d (nd_tPicID n);
         upd_node d t (\<lambda>n. n\<lparr>nd_tPicID := AL_BAD_INDEX\<rparr>) } }"
  have run: "AL_Dpb_sSlidingWindowMarking d sl = (if card (shorts d) + card (longs d) > ref_limit d sl then ?rest else Some d)"
    unfolding AL_Dpb_sSlidingWindowMarking_def ref_limit_def dec_read [OF ok] w by simp
  show ?thesis
  proof (cases "card (shorts d) + card (longs d) \<le> ref_limit d sl")
    case True
    then show ?thesis using run ok by (intro exI [of _ d] exI [of _ P] exI [of _ L] exI [of _ D]) simp
  next
    case False
    then obtain s where "s \<in> shorts d" using few by auto
    then have "m < INT32_MAX" using t(1) num by force
    then have ts: "t \<in> shorts d" and tm: "nd_iFrameNumberWrap (nd d t) = m" using t(3) by simp_all
    then have tP: "t \<in> set P" "marked d t" using rl by auto
    note many = False
    have oldest: "\<exists>t \<in> shorts d. (\<forall>y \<in> shorts d. nd_iFrameNumberWrap (nd d t) \<le> nd_iFrameNumberWrap (nd d y))
         \<and> refs e = refs d - {t} \<and> set Q = (if absent d t then set P - {t} else set P)
         \<and> (\<forall>y \<in> refs e. nd_eMarkingFlag (nd e y) = nd_eMarkingFlag (nd d y))"
      if "refs e = refs d - {t}" "set Q = (if absent d t then set P - {t} else set P)"
        "\<forall>y \<in> refs e. nd_eMarkingFlag (nd e y) = nd_eMarkingFlag (nd d y)" for e Q
      using that t(1) tm by (intro bexI [OF _ ts] conjI) simp_all
    have r: "in_range d t" by (rule pt(7) [OF tP(1)])
    have t0: "0 \<le> t" using r by (simp add: in_range_def)
    let ?d = "(set_nd d t (\<lambda>n. n\<lparr>nd_eMarkingFlag := UNUSED_FOR_REF\<rparr>))\<lparr>dp_uCountRef := dec8 (dp_uCountRef d)\<rparr>"
    have nd: "nd ?d y = (if y = t then (nd d t)\<lparr>nd_eMarkingFlag := UNUSED_FOR_REF\<rparr> else nd d y)" if "0 \<le> y" for y
      using r that by simp
    show ?thesis
    proof (cases "absent d t")
      case False
      then have "?rest = AL_Dpb_sSetPicToUnused d t"
        using r t0 by (simp add: AL_Dpb_sSetPicToUnused_def absent_def Let_def)
      moreover obtain d' where d': "AL_Dpb_sSetPicToUnused d t = Some d'" "dpb_ok d' P L D" "unused_in {t} d d'"
        using AL_Dpb_sSetPicToUnused_ok [OF ok tP] by blast
      have n': "nd d' y = (if y = t then (nd d y)\<lparr>nd_eMarkingFlag := UNUSED_FOR_REF, nd_tPicID := AL_BAD_INDEX\<rparr> else nd d y)"
        if "0 \<le> y" for y using d'(3) that by (simp add: unused_in_def)
      have "refs d' = refs d - {t}"
        unfolding refs_listed(1) [OF d'(2)] rl(1) using n' pt(7) by (auto simp: marked_def in_range_def split: if_splits)
      moreover have "length (dp_Nodes d') = length (dp_Nodes d)"
        using dpb_ok_parts(8) [OF d'(2)] pt(8) by (simp add: nodes_ok_def)
      moreover have "\<forall>y \<in> refs d'. nd_eMarkingFlag (nd d' y) = nd_eMarkingFlag (nd d y)"
        using n' by (auto simp: refs_def in_range_def marked_def split: if_splits)
      ultimately show ?thesis using d'(1,2) False num many run oldest [of d' P]
        by (intro exI [of _ d'] exI [of _ P] exI [of _ L] exI [of _ D]) (simp add: unused_in_def [of _ _ d', THEN iffD1, OF d'(3)])
    next
      case True
      have "set_nd (d\<lparr>dp_uCountRef := dec8 (dp_uCountRef d)\<rparr>) t (\<lambda>n. n\<lparr>nd_eMarkingFlag := UNUSED_FOR_REF\<rparr>) = ?d"
        by (simp add: set_nd_def nd_def)
      then have "AL_Dpb_SetMarkingFlag d t UNUSED_FOR_REF = Some ?d"
        using tP(2) r by (simp add: AL_Dpb_SetMarkingFlag_def marked_def)
      then have ok1: "dpb_ok ?d P L D" using AL_Dpb_SetMarkingFlag_ok [OF ok r, of UNUSED_FOR_REF] by auto
      have "\<not> outp ?d t"
        using nodes_okD(1) [OF pt(8) r tP(1)] True r t0 by (simp add: node_in_def outp_def)
      then obtain d' where d': "AL_Dpb_Remove ?d t = Some (nd_tFrameID (nd ?d t), d')"
        "dpb_ok d' (removeAll t P) (removeAll t L) (removeAll t D)" "keeps (set (removeAll t P)) ?d d'"
        using AL_Dpb_Remove_ok [OF ok1 tP(1)] by blast
      have rest: "?rest = Some d'" using r t0 d'(1) True by (simp add: absent_def Let_def)
      have k: "nd_eMarkingFlag (nd d' y) = nd_eMarkingFlag (nd d y)" if "y \<in> set P" "y \<noteq> t" for y
        using d'(3) that nd [of y] pt(7) [OF that(1)] by (simp add: keeps_def in_range_def)
      have "refs d' = refs d - {t}"
        unfolding refs_listed(1) [OF d'(2)] rl(1) using k by (auto simp: marked_def)
      moreover have "\<forall>y \<in> refs d'. nd_eMarkingFlag (nd d' y) = nd_eMarkingFlag (nd d y)"
        unfolding refs_listed(1) [OF d'(2)] using k by auto
      moreover have "length (dp_Nodes d') = length (dp_Nodes d)"
        using dpb_ok_parts(8) [OF d'(2)] pt(8) by (simp add: nodes_ok_def)
      moreover have "dp_uNumRef d' = dp_uNumRef d" "dp_tCurRefNodeID d' = dp_tCurRefNodeID d"
        using d'(3) by (simp_all add: keeps_def)
      ultimately show ?thesis using rest d'(2) True many run oldest [of d' "removeAll t P"]
        by (intro exI [of _ d'] exI [of _ "removeAll t P"] exI [of _ "removeAll t L"] exI [of _ "removeAll t D"]) simp
    qed
  qed
qed

end
