(* ===== verification/Dpb_MarkProc.thy ===== *)
theory Dpb_MarkProc
  imports Dpb_MarkOk
begin

text \<open>
  The whole AVC marking process of \<open>DPB.c\<close>: the loop over the memory management control operations and
  \<open>AL_Dpb_MarkingProcess\<close> keep the invariant and leave no more references than the limit.
\<close>

section \<open>The operations in sequence\<close>

text \<open>
  What holds between two operations, against the state \<open>z\<close> they started from: the current picture \<open>c\<close>
  is still there, no picture became a reference, and either the references keep their kind and their
  number or at most one is left (after operation 5).
\<close>

definition marking :: "AL_TDpb \<Rightarrow> index \<Rightarrow> AL_TDpb \<Rightarrow> bool" where
  "marking z c d \<longleftrightarrow> (\<exists>P L D. dpb_ok d P L D \<and> c \<in> set P \<and> dp_tCurRefNodeID d = c \<and> dp_uNumRef d = dp_uNumRef z
     \<and> refs d \<subseteq> refs z
     \<and> ((\<forall>y \<in> refs d. nd_eMarkingFlag (nd d y) = nd_eMarkingFlag (nd z y)
           \<and> nd_iFrameNumberWrap (nd d y) = nd_iFrameNumberWrap (nd z y)) \<or> card (refs d) \<le> 1))"

lemma marking_unused:
  assumes "marking z c d" and step: "\<And>P L D. dpb_ok d P L D \<Longrightarrow> c \<in> set P \<Longrightarrow>
    \<exists>d' T. f d = Some d' \<and> dpb_ok d' P L D \<and> unused_in T d d'"
    and c: "dp_tCurRefNodeID d = c"
  shows "\<exists>d'. f d = Some d' \<and> marking z c d'"
proof -
  obtain P L D where m: "dpb_ok d P L D" "c \<in> set P" "dp_uNumRef d = dp_uNumRef z" "refs d \<subseteq> refs z"
    "(\<forall>y \<in> refs d. nd_eMarkingFlag (nd d y) = nd_eMarkingFlag (nd z y)
       \<and> nd_iFrameNumberWrap (nd d y) = nd_iFrameNumberWrap (nd z y)) \<or> card (refs d) \<le> 1"
    using assms(1) by (auto simp: marking_def)
  obtain d' T where d': "f d = Some d'" "dpb_ok d' P L D" "unused_in T d d'" using step [OF m(1,2)] by blast
  have n: "nd d' y = (if y \<in> T then (nd d y)\<lparr>nd_eMarkingFlag := UNUSED_FOR_REF, nd_tPicID := AL_BAD_INDEX\<rparr> else nd d y)"
    if "0 \<le> y" for y
    using d'(3) that by (simp add: unused_in_def)
  have r: "in_range d' y = in_range d y" for y
    using nodes_ok_range [OF dpb_ok_parts(8) [OF d'(2)]] nodes_ok_range [OF dpb_ok_parts(8) [OF m(1)]] by simp
  have same: "y \<in> refs d \<and> nd d' y = nd d y" if "y \<in> refs d'" for y
  proof -
    have y: "in_range d y" "marked d' y" "0 \<le> y" using that r by (auto simp: refs_def in_range_def)
    then have "y \<notin> T" using n [OF y(3)] by (auto simp: marked_def)
    then show ?thesis using n [OF y(3)] y(1,2) by (simp add: refs_def marked_def)
  qed
  have sub: "refs d' \<subseteq> refs d" using same by blast
  then have "card (refs d') \<le> card (refs d)" by (intro card_mono) simp_all
  then have "(\<forall>y \<in> refs d'. nd_eMarkingFlag (nd d' y) = nd_eMarkingFlag (nd z y)
       \<and> nd_iFrameNumberWrap (nd d' y) = nd_iFrameNumberWrap (nd z y)) \<or> card (refs d') \<le> 1"
    using m(5) same by auto
  moreover have "dp_tCurRefNodeID d' = c" "dp_uNumRef d' = dp_uNumRef z" using d'(3) c m(3) by (simp_all add: unused_in_def)
  ultimately show ?thesis using d'(1,2) m(2,4) sub unfolding marking_def by blast
qed

lemma marking_cur: "marking z c d \<Longrightarrow> dp_tCurRefNodeID d = c"
  by (auto simp: marking_def)

lemma marking_mmco5:
  assumes "marking z c d"
  shows "\<exists>d'. AL_Dpb_sSetAllPicAsUnused d sl = Some d' \<and> marking z c d'"
proof -
  obtain P L D where m: "dpb_ok d P L D" "c \<in> set P" "dp_tCurRefNodeID d = c" "dp_uNumRef d = dp_uNumRef z" "refs d \<subseteq> refs z"
    using assms by (auto simp: marking_def)
  obtain d' where d': "AL_Dpb_sSetAllPicAsUnused d sl = Some d'" "dpb_ok d' [c] [c] [c]" "drained P [c] d d'"
    using AL_Dpb_sSetAllPicAsUnused_ok [OF m(1) _ m(2)] m(3) by blast
  have r: "refs d' = {y \<in> {c}. marked d' y}" using refs_listed(1) [OF d'(2)] by simp
  have "card (refs d') \<le> card {c}" unfolding r by (rule card_mono) auto
  moreover have "refs d' \<subseteq> refs d"
    using d'(3) m(2) refs_listed(1) [OF m(1)] unfolding r by (auto simp: drained_def)
  ultimately have "card (refs d') \<le> 1" "refs d' \<subseteq> refs z" "c \<in> set [c]" "dp_tCurRefNodeID d' = c" "dp_uNumRef d' = dp_uNumRef z"
    using m d'(3) by (auto simp: drained_def)
  then show ?thesis using d'(1,2) unfolding marking_def by blast
qed

text \<open>The sizes of the arrays, and the operations the theorems are about.\<close>

definition slice_arrays :: "AL_TAvcSliceHdr \<Rightarrow> bool" where
  "slice_arrays sl \<longleftrightarrow> length (sh_memory_management_control_operation sl) = 35
     \<and> length (sh_difference_of_pic_nums_minus1 sl) = 32 \<and> length (sh_long_term_pic_num sl) = 32
     \<and> length (sh_long_term_frame_idx sl) = 32 \<and> length (sh_max_long_term_frame_idx_plus1 sl) = 32"

definition unmarking_ops :: "AL_TAvcSliceHdr \<Rightarrow> bool" where
  "unmarking_ops sl \<longleftrightarrow> set (sh_memory_management_control_operation sl) \<subseteq> {0, 1, 2, 4, 5}
     \<and> 0 \<in> set (take 33 (sh_memory_management_control_operation sl))"

lemma mmco_loop_ok:
  assumes "slice_arrays sl" "set ops \<subseteq> {0, 1, 2, 4, 5}" "0 \<in> set (take n ops)"
    "i1 + n \<le> 33" "i2 + n \<le> 33" "i4 + n \<le> 33" "marking z c d"
  shows "\<exists>d'. mmco_loop sl ops i1 i2 i3 i4 d = Some d' \<and> marking z c d'"
  using assms(2-)
proof (induction ops arbitrary: n i1 i2 i4 d)
  case Nil
  then show ?case by simp
next
  case (Cons m ops)
  obtain k where n: "n = Suc k" using Cons.prems(2) by (cases n) auto
  note a = assms(1) [unfolded slice_arrays_def]
  have c: "dp_tCurRefNodeID d = c" by (rule marking_cur [OF Cons.prems(6)])
  consider "m = 0" | "m = 1" "0 \<in> set (take k ops)" | "m = 2" "0 \<in> set (take k ops)" | "m = 4" "0 \<in> set (take k ops)"
    | "m = 5" "0 \<in> set (take k ops)"
    using Cons.prems(1,2) n by auto
  then show ?case
  proof cases
    case 1
    then show ?thesis using Cons.prems(6) by simp
  next
    case 2
    then have k: "0 < k" by (cases k) auto
    have "\<exists>d'. (\<lambda>d. AL_Dpb_sShortTermToUnused d sl i1) d = Some d' \<and> marking z c d'"
    proof (rule marking_unused [OF Cons.prems(6) _ c])
      fix P L D assume "dpb_ok d P L D" "c \<in> set P"
      then show "\<exists>d' T. AL_Dpb_sShortTermToUnused d sl i1 = Some d' \<and> dpb_ok d' P L D \<and> unused_in T d d'"
        using AL_Dpb_sShortTermToUnused_ok [of d P L D i1 sl] dpb_ok_parts(7) [of d P L D c] c k n Cons.prems(3) a by auto
    qed
    then obtain d1 where d1: "AL_Dpb_sShortTermToUnused d sl i1 = Some d1" "marking z c d1" by blast
    from Cons.IH [of k "i1 + 1" i2 i4 d1] show ?thesis using d1 2 Cons.prems n by auto
  next
    case 3
    then have k: "0 < k" by (cases k) auto
    have "\<exists>d'. (\<lambda>d. AL_Dpb_sLongTermToUnused d sl i2) d = Some d' \<and> marking z c d'"
    proof (rule marking_unused [OF Cons.prems(6) _ c])
      fix P L D assume "dpb_ok d P L D" "c \<in> set P"
      then show "\<exists>d' T. AL_Dpb_sLongTermToUnused d sl i2 = Some d' \<and> dpb_ok d' P L D \<and> unused_in T d d'"
        using AL_Dpb_sLongTermToUnused_ok [of d P L D i2 sl] k n Cons.prems(4) a by auto
    qed
    then obtain d1 where d1: "AL_Dpb_sLongTermToUnused d sl i2 = Some d1" "marking z c d1" by blast
    from Cons.IH [of k i1 "i2 + 1" i4 d1] show ?thesis using d1 3 Cons.prems n by auto
  next
    case 4
    then have k: "0 < k" by (cases k) auto
    have "\<exists>d'. (\<lambda>d. AL_Dpb_sDecodingMaxLongTermFrameIdx d sl i4) d = Some d' \<and> marking z c d'"
    proof (rule marking_unused [OF Cons.prems(6) _ c])
      fix P L D assume "dpb_ok d P L D" "c \<in> set P"
      then show "\<exists>d' T. AL_Dpb_sDecodingMaxLongTermFrameIdx d sl i4 = Some d' \<and> dpb_ok d' P L D \<and> unused_in T d d'"
        using AL_Dpb_sDecodingMaxLongTermFrameIdx_ok [of d P L D i4 sl] k n Cons.prems(5) a by auto
    qed
    then obtain d1 where d1: "AL_Dpb_sDecodingMaxLongTermFrameIdx d sl i4 = Some d1" "marking z c d1" by blast
    from Cons.IH [of k i1 i2 "i4 + 1" d1] show ?thesis using d1 4 Cons.prems n by auto
  next
    case 5
    obtain d1 where d1: "AL_Dpb_sSetAllPicAsUnused d sl = Some d1" "marking z c d1"
      using marking_mmco5 [OF Cons.prems(6)] by blast
    from Cons.IH [of k i1 i2 i4 d1] show ?thesis using d1 5 Cons.prems n by auto
  qed
qed

section \<open>The marking process\<close>

text \<open>Numbers of pictures are bounded: \<open>log2_max_frame_num_minus4\<close> is at most 12.\<close>

definition frame_nums :: "AL_TDpb \<Rightarrow> AL_TAvcSliceHdr \<Rightarrow> bool" where
  "frame_nums d sl \<longleftrightarrow> sps_log2_max_frame_num_minus4 (sh_pSPS sl) \<le> 12 \<and> 0 \<le> sh_frame_num sl \<and> sh_frame_num sl < max_frame_num sl
     \<and> (\<forall>y \<in> shorts d - {dp_tCurRefNodeID d}. 0 \<le> nd_iSliceFrameNumber (nd d y) \<and> nd_iSliceFrameNumber (nd d y) < max_frame_num sl)"

lemma max_frame_num_le: "sps_log2_max_frame_num_minus4 (sh_pSPS sl) \<le> 12 \<Longrightarrow> max_frame_num sl \<le> 65536 \<and> 0 < max_frame_num sl"
proof -
  assume "sps_log2_max_frame_num_minus4 (sh_pSPS sl) \<le> 12"
  then have "(2 :: int) ^ (sps_log2_max_frame_num_minus4 (sh_pSPS sl) + 4) \<le> 2 ^ 16" by (intro power_increasing) simp_all
  then show ?thesis by (simp add: max_frame_num_def)
qed

lemma number_short_wrap:
  assumes "sps_log2_max_frame_num_minus4 (sh_pSPS sl) \<le> 12" "0 \<le> nd_iSliceFrameNumber n" "nd_iSliceFrameNumber n < max_frame_num sl"
  shows "nd_iFrameNumberWrap (number_short sl n) = (if nd_iSliceFrameNumber n > sh_frame_num sl
      then nd_iSliceFrameNumber n - max_frame_num sl else nd_iSliceFrameNumber n)"
    "nd_iPicNum (number_short sl n) = nd_iFrameNumberWrap (number_short sl n)"
    "nd_iFrameNumberWrap (number_short sl n) < INT32_MAX"
  using assms max_frame_num_le [OF assms(1)] by (simp_all add: number_short_def Let_def to_int32_def INT32_MAX_def)

lemma renumbered_refs:
  assumes r: "renumbered g d d'" and c: "\<And>y. in_range d y \<Longrightarrow> core (g y (nd d y)) = core (nd d y)"
  shows "refs d' = refs d" "shorts d' = shorts d" "longs d' = longs d"
proof -
  have "nd_eMarkingFlag (nd d' y) = nd_eMarkingFlag (nd d y)" if "in_range d y" for y
    using core_fields(7) [OF c [OF that]] renumbered_nd [OF r that] by simp
  then show "refs d' = refs d" "shorts d' = shorts d" "longs d' = longs d"
    using renumbered_fields(7) [OF r] by (auto simp: refs_def shorts_def longs_def marked_def)
qed

text \<open>The state after the first two steps: the frame number of the current picture, and all picture numbers.\<close>

lemma marking_start:
  assumes ok: "dpb_ok d P L D" and c: "c = dp_tCurRefNodeID d" "c \<in> set P" and fn: "frame_nums d sl"
  shows "\<exists>e z. upd_node d c (\<lambda>n. n\<lparr>nd_iSliceFrameNumber := sh_frame_num sl, nd_tNodeID := c\<rparr>) = Some e
    \<and> dpb_ok e P L D \<and> AL_Dpb_PictNumberProcess e sl = Some z \<and> dpb_ok z P L D
    \<and> refs z = refs d \<and> shorts z = shorts d \<and> longs z = longs d
    \<and> dp_uNumRef z = dp_uNumRef d \<and> dp_tCurRefNodeID z = c
    \<and> (\<forall>y \<in> shorts d. nd_iFrameNumberWrap (nd z y) < INT32_MAX
        \<and> nd_iFrameNumberWrap (nd z y) = (let f = (if y = c then sh_frame_num sl else nd_iSliceFrameNumber (nd d y))
            in if f > sh_frame_num sl then f - max_frame_num sl else f))
    \<and> (\<forall>y \<in> set P. core (nd z y) = core (nd d y))"
proof -
  let ?g = "\<lambda>n. n\<lparr>nd_iSliceFrameNumber := sh_frame_num sl, nd_tNodeID := c\<rparr>"
  let ?e = "set_nd d c ?g"
  note pt = dpb_ok_parts [OF ok]
  have r: "in_range d c" by (rule pt(7) [OF c(2)])
  have t: "nd_tNodeID (nd d c) = c" using nodes_okD(1) [OF pt(8) r c(2)] by (simp add: node_in_def)
  have re: "renumbered (\<lambda>y n. if y = c then ?g n else n) d ?e" by (rule renumbered_set_nd [OF r])
  have ce: "core (if y = c then ?g (nd d y) else nd d y) = core (nd d y)" for y using t by (simp add: core_def)
  have ok1: "dpb_ok ?e P L D" by (rule renumbered_ok [OF ok re ce])
  obtain z where z: "AL_Dpb_PictNumberProcess ?e sl = Some z" "dpb_ok z P L D"
    "renumbered (\<lambda>y n. if y \<in> set P then numbered sl n else n) ?e z"
    using AL_Dpb_PictNumberProcess_ok [OF ok1] by blast
  have cz: "core (if y \<in> set P then numbered sl (nd ?e y) else nd ?e y) = core (nd ?e y)" for y by (simp add: core_numbered)
  note rz = renumbered_refs [OF z(3) cz] and r1 = renumbered_refs [OF re ce]
  have nz: "nd z y = numbered sl (if y = c then ?g (nd d y) else nd d y)" if "y \<in> set P" for y
    using renumbered_nd [OF z(3), of y] renumbered_nd [OF re, of y] pt(7) [OF that] that by simp
  have sh: "shorts d \<subseteq> set P" using refs_listed [OF ok] by auto
  have w: "nd_iFrameNumberWrap (nd z y) < INT32_MAX
        \<and> nd_iFrameNumberWrap (nd z y) = (let f = (if y = c then sh_frame_num sl else nd_iSliceFrameNumber (nd d y))
            in if f > sh_frame_num sl then f - max_frame_num sl else f)" if "y \<in> shorts d" for y
  proof -
    let ?n = "if y = c then ?g (nd d y) else nd d y"
    have "nd z y = number_short sl ?n" using nz [of y] that sh by (auto simp: numbered_def shorts_def)
    moreover have "0 \<le> nd_iSliceFrameNumber ?n" "nd_iSliceFrameNumber ?n < max_frame_num sl"
      using fn that c(1) by (auto simp: frame_nums_def)
    ultimately show ?thesis
      using number_short_wrap [of sl ?n] fn by (simp add: frame_nums_def Let_def)
  qed
  have "\<forall>y \<in> set P. core (nd z y) = core (nd d y)" using nz ce by (simp add: core_numbered)
  moreover have "dp_uNumRef z = dp_uNumRef d" "dp_tCurRefNodeID z = c"
    using renumbered_fields [OF z(3)] renumbered_fields [OF re] c(1) by simp_all
  moreover have "refs z = refs d" "shorts z = shorts d" "longs z = longs d" using rz r1 by simp_all
  moreover have "upd_node d c ?g = Some ?e" using r by simp
  moreover have "\<forall>y \<in> shorts d. nd_iFrameNumberWrap (nd z y) < INT32_MAX
        \<and> nd_iFrameNumberWrap (nd z y) = (let f = (if y = c then sh_frame_num sl else nd_iSliceFrameNumber (nd d y))
            in if f > sh_frame_num sl then f - max_frame_num sl else f)" using w by blast
  ultimately show ?thesis using z(1,2) ok1 by blast
qed

theorem AL_Dpb_MarkingProcess_ok:
  assumes ok: "dpb_ok d P L D" and c: "dp_tCurRefNodeID d \<in> set P"
    and sl: "\<not> AL_AVC_IsIDR (sh_nal_unit_type sl)" "slice_arrays sl" "unmarking_ops sl" "frame_nums d sl"
    and lim: "card (longs d) \<le> ref_limit d sl" "1 \<le> ref_limit d sl" "refs d = shorts d \<union> longs d"
      "card (refs d) \<le> ref_limit d sl + 1"
  shows "\<exists>d' Q L' D'. AL_Dpb_MarkingProcess d sl = Some d' \<and> dpb_ok d' Q L' D'
    \<and> refs d' \<subseteq> refs d \<and> card (refs d') \<le> ref_limit d sl"
proof -
  let ?c = "dp_tCurRefNodeID d"
  obtain e z where z: "upd_node d ?c (\<lambda>n. n\<lparr>nd_iSliceFrameNumber := sh_frame_num sl, nd_tNodeID := ?c\<rparr>) = Some e"
    "AL_Dpb_PictNumberProcess e sl = Some z" "dpb_ok z P L D"
    "refs z = refs d" "shorts z = shorts d" "longs z = longs d" "dp_uNumRef z = dp_uNumRef d" "dp_tCurRefNodeID z = ?c"
    and w: "\<forall>y \<in> shorts d. nd_iFrameNumberWrap (nd z y) < INT32_MAX"
    using marking_start [OF ok refl c sl(4)] by blast
  have "marking z ?c z" using z(3,8) c unfolding marking_def by blast
  then obtain a where a: "(if sh_adaptive_ref_pic_marking_mode_flag sl \<noteq> 0 then AL_Dpb_sAdaptiveMemoryControlMarking z sl else Some z) = Some a"
    "marking z ?c a"
    using mmco_loop_ok [OF sl(2), of "sh_memory_management_control_operation sl" 33 0 0 0 z ?c z 0] sl(3)
    by (cases "sh_adaptive_ref_pic_marking_mode_flag sl = 0")
      (auto simp: unmarking_ops_def AL_Dpb_sAdaptiveMemoryControlMarking_def)
  obtain P' L' D' where m: "dpb_ok a P' L' D'" "?c \<in> set P'" "dp_tCurRefNodeID a = ?c" "dp_uNumRef a = dp_uNumRef d"
    "refs a \<subseteq> refs d"
    "(\<forall>y \<in> refs a. nd_eMarkingFlag (nd a y) = nd_eMarkingFlag (nd z y)
       \<and> nd_iFrameNumberWrap (nd a y) = nd_iFrameNumberWrap (nd z y)) \<or> card (refs a) \<le> 1"
    using a(2) z(4,7) unfolding marking_def by auto
  have la: "ref_limit a sl = ref_limit d sl" by (simp add: ref_limit_def m(4))
  have disj: "shorts a \<inter> longs a = {}" by (auto simp: shorts_def longs_def)
  have le: "card (shorts a) + card (longs a) \<le> card (refs a)"
  proof -
    have "card (shorts a \<union> longs a) \<le> card (refs a)" using refs_listed [OF m(1)] by (intro card_mono) auto
    then show ?thesis using card_Un_disjoint [OF _ _ disj] by simp
  qed
  have rng: "in_range a y = in_range z y" for y
    using nodes_ok_range [OF dpb_ok_parts(8) [OF m(1)]] nodes_ok_range [OF dpb_ok_parts(8) [OF z(3)]] by simp
  have many: "shorts a \<subseteq> shorts d \<and> longs a \<subseteq> longs d \<and> (\<forall>y \<in> shorts a. nd_iFrameNumberWrap (nd a y) < INT32_MAX)"
    if kp: "\<forall>y \<in> refs a. nd_eMarkingFlag (nd a y) = nd_eMarkingFlag (nd z y)
       \<and> nd_iFrameNumberWrap (nd a y) = nd_iFrameNumberWrap (nd z y)"
  proof -
    have sz: "shorts a \<subseteq> shorts z" "longs a \<subseteq> longs z"
      using kp refs_listed(2,3) [OF m(1)] rng unfolding shorts_def longs_def by auto
    moreover have "nd_iFrameNumberWrap (nd a y) < INT32_MAX" if y: "y \<in> shorts a" for y
    proof -
      have "y \<in> refs a" "y \<in> shorts d" using y refs_listed(2) [OF m(1)] sz z(5) by auto
      then show ?thesis using kp w by simp
    qed
    ultimately show ?thesis using z(5,6) sz by blast
  qed
  have step: "\<exists>b Q L' D'. AL_Dpb_sSlidingWindowMarking a sl = Some b \<and> dpb_ok b Q L' D' \<and> refs b \<subseteq> refs a
      \<and> card (refs b) \<le> ref_limit d sl \<and> dp_tCurRefNodeID b = ?c \<and> length (dp_Nodes b) = length (dp_Nodes a)"
  proof (cases "card (shorts a) + card (longs a) \<le> ref_limit d sl")
    case True
    have run: "AL_Dpb_sSlidingWindowMarking a sl = Some a"
    proof -
      have "distinct D'" "\<And>x. x \<in> set D' \<Longrightarrow> in_range a x" "set D' = set P'" using dpb_ok_dec [OF m(1)] by auto
      moreover have "shorts a \<inter> set P' = shorts a" "longs a \<inter> set P' = longs a" using refs_listed [OF m(1)] by auto
      ultimately obtain m' t' where "foldM (window_scan a) D' (0, 0, INT32_MAX, 0) = Some (card (shorts a), card (longs a), m', t')"
        using window_fold [of D' a 0 0 INT32_MAX 0] by auto
      then show ?thesis using True la unfolding AL_Dpb_sSlidingWindowMarking_def dec_read [OF m(1)] ref_limit_def by simp
    qed
    have "card (refs a) \<le> ref_limit d sl"
      using m(6)
    proof
      assume k: "\<forall>y \<in> refs a. nd_eMarkingFlag (nd a y) = nd_eMarkingFlag (nd z y)
       \<and> nd_iFrameNumberWrap (nd a y) = nd_iFrameNumberWrap (nd z y)"
      have "refs a \<subseteq> shorts a \<union> longs a"
      proof
        fix y assume y: "y \<in> refs a"
        then have "y \<in> shorts z \<union> longs z" using m(5) lim(3) z(5,6) by auto
        then show "y \<in> shorts a \<union> longs a" using k y rng unfolding shorts_def longs_def by auto
      qed
      then have "card (refs a) \<le> card (shorts a \<union> longs a)" by (intro card_mono) simp_all
      then show ?thesis using True card_Un_disjoint [OF _ _ disj] by simp
    qed (use lim(2) in simp)
    then show ?thesis using run m(1,3) by (intro exI [of _ a] exI [of _ P'] exI [of _ L'] exI [of _ D']) simp
  next
    case False
    then have "\<not> card (refs a) \<le> 1" using le lim(2) by linarith
    then have k: "\<forall>y \<in> refs a. nd_eMarkingFlag (nd a y) = nd_eMarkingFlag (nd z y)
       \<and> nd_iFrameNumberWrap (nd a y) = nd_iFrameNumberWrap (nd z y)" using m(6) by blast
    have "card (longs a) \<le> card (longs d)" using many [OF k] by (intro card_mono) auto
    then have "shorts a \<noteq> {}" using False lim(1) by auto
    then obtain b Q L2 D2 t where b: "AL_Dpb_sSlidingWindowMarking a sl = Some b" "dpb_ok b Q L2 D2"
      "dp_tCurRefNodeID b = ?c" "length (dp_Nodes b) = length (dp_Nodes a)" "t \<in> shorts a" "refs b = refs a - {t}"
    proof -
      have "ref_limit a sl < card (shorts a) + card (longs a) \<longrightarrow> shorts a \<noteq> {}"
        "\<forall>y \<in> shorts a. nd_iFrameNumberWrap (nd a y) < INT32_MAX"
        using \<open>shorts a \<noteq> {}\<close> many [OF k] by blast+
      note sw = AL_Dpb_sSlidingWindowMarking_ok [OF m(1) this]
      from sw obtain b Q L2 D2 where h: "AL_Dpb_sSlidingWindowMarking a sl = Some b" "dpb_ok b Q L2 D2"
        "dp_tCurRefNodeID b = dp_tCurRefNodeID a" "length (dp_Nodes b) = length (dp_Nodes a)"
        and i: "if card (shorts a) + card (longs a) \<le> ref_limit a sl then b = a \<and> Q = P'
          else \<exists>t \<in> shorts a. (\<forall>y \<in> shorts a. nd_iFrameNumberWrap (nd a t) \<le> nd_iFrameNumberWrap (nd a y))
            \<and> refs b = refs a - {t} \<and> set Q = (if absent a t then set P' - {t} else set P')
            \<and> (\<forall>y \<in> refs b. nd_eMarkingFlag (nd b y) = nd_eMarkingFlag (nd a y))" by blast
      have many': "\<not> card (shorts a) + card (longs a) \<le> ref_limit a sl" using False la by simp
      obtain t where t: "t \<in> shorts a" "refs b = refs a - {t}" using i unfolding if_not_P [OF many'] by blast
      show ?thesis by (rule that [OF h(1,2) _ h(4) t]) (simp add: h(3) m(3))
    qed
    have "t \<in> refs a" using b(5) refs_listed(2) [OF m(1)] by auto
    then have "card (refs b) = card (refs a) - 1" using b(6) by (simp add: card_Diff_singleton)
    moreover have "card (refs a) \<le> card (refs d)" using m(5) by (intro card_mono) simp_all
    ultimately have "card (refs b) \<le> ref_limit d sl" using lim(4) by linarith
    moreover have "refs b \<subseteq> refs a" using b(6) by blast
    ultimately show ?thesis using b(1-4) by blast
  qed
  then obtain b Q L2 D2 where b: "AL_Dpb_sSlidingWindowMarking a sl = Some b" "dpb_ok b Q L2 D2" "refs b \<subseteq> refs a"
    "card (refs b) \<le> ref_limit d sl" "dp_tCurRefNodeID b = ?c" "length (dp_Nodes b) = length (dp_Nodes a)"
    by blast
  have "in_range b ?c" using dpb_ok_parts(7) [OF m(1,2)] b(6) by (simp add: in_range_def)
  moreover have "6 \<notin> set (take 32 (sh_memory_management_control_operation sl))"
    using sl(3) in_set_takeD unfolding unmarking_ops_def by fastforce
  ultimately have "restore_short b sl = Some b" using b(5) sl(2) by (simp add: restore_short_def slice_arrays_def)
  then have "AL_Dpb_MarkingProcess d sl = Some b"
    unfolding AL_Dpb_MarkingProcess_def using sl(1) z(1,2) a(1) b(1) by simp
  then show ?thesis using b(2-4) m(5) by blast
qed

text \<open>An IDR picture only changes numbers.\<close>

lemma AL_Dpb_MarkingProcess_IDR:
  assumes ok: "dpb_ok d P L D" and c: "dp_tCurRefNodeID d \<in> set P" and idr: "AL_AVC_IsIDR (sh_nal_unit_type sl)"
  shows "\<exists>d'. AL_Dpb_MarkingProcess d sl = Some d' \<and> dpb_ok d' P L D \<and> refs d' = refs d
    \<and> dp_iMaxLongTermFrameIdx d' = (if sh_long_term_reference_flag sl = 0 then INT32_MAX else 0)
    \<and> nd_iSliceFrameNumber (nd d' (dp_tCurRefNodeID d)) = sh_frame_num sl"
proof -
  let ?c = "dp_tCurRefNodeID d"
  let ?g = "\<lambda>n. n\<lparr>nd_iSliceFrameNumber := sh_frame_num sl, nd_tNodeID := ?c\<rparr>"
  let ?h = "\<lambda>n. if sh_long_term_reference_flag sl = 0 then ?g n else (?g n)\<lparr>nd_iLongTermFrameIdx := 0\<rparr>"
  note pt = dpb_ok_parts [OF ok]
  have r: "in_range d ?c" "0 \<le> ?c" using pt(7) [OF c] by (simp_all add: in_range_def)
  have t: "nd_tNodeID (nd d ?c) = ?c" using nodes_okD(1) [OF pt(8) r(1) c] by (simp add: node_in_def)
  have re: "renumbered (\<lambda>y n. if y = ?c then ?h n else n) d (set_nd d ?c ?h)" by (rule renumbered_set_nd [OF r(1)])
  have ce: "core (if y = ?c then ?h (nd d y) else nd d y) = core (nd d y)" for y using t by (simp add: core_def)
  have ok1: "dpb_ok (set_nd d ?c ?h) P L D" by (rule renumbered_ok [OF ok re ce])
  have rf: "refs (set_nd d ?c ?h) = refs d" by (rule renumbered_refs(1) [OF re ce])
  let ?m = "if sh_long_term_reference_flag sl = 0 then INT32_MAX else 0"
  let ?d = "(set_nd d ?c ?h)\<lparr>dp_iMaxLongTermFrameIdx := ?m\<rparr>"
  have run: "AL_Dpb_MarkingProcess d sl = Some ?d"
    using idr r(1) by (simp add: AL_Dpb_MarkingProcess_def) (simp add: set_nd_def nd_def in_range_def Let_def)
  have "dpb_ok ?d P L D" by (rule marking_context(1) [OF ok1])
  moreover have "refs ?d = refs d" using rf by (simp add: refs_def marked_def)
  moreover have "nd_iSliceFrameNumber (nd ?d ?c) = sh_frame_num sl" using r by simp
  ultimately show ?thesis using run by (intro exI [of _ ?d]) simp
qed

text \<open>What the decoder guarantees when it marks a picture.\<close>

definition marking_pre :: "AL_TDpb \<Rightarrow> AL_TAvcSliceHdr \<Rightarrow> bool" where
  "marking_pre d sl \<longleftrightarrow> slice_arrays sl \<and> unmarking_ops sl \<and> frame_nums d sl
     \<and> card (longs d) \<le> ref_limit d sl \<and> 1 \<le> ref_limit d sl \<and> refs d = shorts d \<union> longs d
     \<and> card (refs d) \<le> ref_limit d sl + 1"

lemma AL_Dpb_MarkingProcess_keeps:
  assumes "dpb_ok d P L D" "dp_tCurRefNodeID d \<in> set P" "AL_AVC_IsIDR (sh_nal_unit_type sl) \<or> marking_pre d sl"
  shows "\<exists>d' Q L' D'. AL_Dpb_MarkingProcess d sl = Some d' \<and> dpb_ok d' Q L' D'"
proof (cases "AL_AVC_IsIDR (sh_nal_unit_type sl)")
  case True
  then show ?thesis using AL_Dpb_MarkingProcess_IDR [OF assms(1,2)] by blast
next
  case False
  then show ?thesis using AL_Dpb_MarkingProcess_ok [OF assms(1,2)] assms(3) unfolding marking_pre_def by blast
qed

end
