(* ===== verification/Dpb_MarkLong.thy ===== *)
theory Dpb_MarkLong
  imports Dpb_MarkOk
begin

text \<open>
  The operations of the AVC marking process of \<open>DPB.c\<close> that make a long-term reference: the picture
  moves before the first long-term reference of a larger number in the decoding order. The move is
  right for a picture that is not the head of the list, as the current picture is.
\<close>

section \<open>The move\<close>

lemma switch_place_ok:
  assumes dec: "dec_list d (as @ x # bs)" "as \<noteq> []" and t: "as @ bs = us @ t # vs"
  shows "\<exists>d'. switch_place d x (nd_tPrevDecOrderNodeID (nd d x)) (nd_tNextDecOrderNodeID (nd d x)) t = Some d'
    \<and> dec_list d' (us @ x # t # vs) \<and> same_data d d' \<and> same_poc d d' \<and> same_lsb d d'"
proof -
  let ?nx = "fld nd_tNextDecOrderNodeID (dp_Nodes d)" and ?pv = "fld nd_tPrevDecOrderNodeID (dp_Nodes d)"
  have dl: "dll ?nx ?pv (dp_tHeadDecOrderNodeID d) (as @ x # bs)" and rng: "\<forall>y \<in> set (as @ x # bs). in_range d y"
    using dec(1) by (auto simp: dec_list_def)
  have x: "in_range d x" "0 \<le> x" "x \<notin> set (as @ bs)" using rng dll_at [OF dl] by simp_all
  note vn = valid_neighbours [OF dl rng]
  have f: "nd_tNextDecOrderNodeID (nd d x) = ?nx x" "nd_tPrevDecOrderNodeID (nd d x) = ?pv x" using x by (simp_all add: fld_nd)
  have hx: "dp_tHeadDecOrderNodeID d \<noteq> x" using dll_head [OF dl] dec(2) x(3) by (cases as) auto
  let ?d2 = "if 0 \<le> ?pv x then set_nd d (?pv x) (\<lambda>n. n\<lparr>nd_tNextDecOrderNodeID := ?nx x\<rparr>) else d"
  let ?d3 = "if 0 \<le> ?nx x then set_nd ?d2 (?nx x) (\<lambda>n. n\<lparr>nd_tPrevDecOrderNodeID := ?pv x\<rparr>) else ?d2"
  obtain d3 where d3: "d3 = ?d3" by blast
  have r3: "in_range d3 y = in_range d y" for y unfolding d3 by (simp add: in_range_def)
  have nx3: "fld nd_tNextDecOrderNodeID (dp_Nodes d3) = (if 0 \<le> ?pv x then ?nx(?pv x := ?nx x) else ?nx)"
    unfolding d3 using vn by (simp add: fld_set_nd_same) (simp add: fld_set_nd_same fld_set_nd)
  have pv3: "fld nd_tPrevDecOrderNodeID (dp_Nodes d3) = (if 0 \<le> ?nx x then ?pv(?nx x := ?pv x) else ?pv)"
    unfolding d3 using vn by (simp add: fld_set_nd_same) (simp add: fld_set_nd_same fld_set_nd)
  have hd3: "dp_tHeadDecOrderNodeID d3 = dp_tHeadDecOrderNodeID d" unfolding d3 by (simp add: set_nd_def)
  have l3: "dll (fld nd_tNextDecOrderNodeID (dp_Nodes d3)) (fld nd_tPrevDecOrderNodeID (dp_Nodes d3)) (dp_tHeadDecOrderNodeID d3) (us @ t # vs)"
    unfolding nx3 pv3 hd3 t [symmetric] using dll_unlink [OF dl] hx by simp
  have s3: "same_data d d3" "same_poc d d3" "same_lsb d d3"
  proof -
    have "same_data d ?d2" by (simp add: same_data_set_nd nolink_def)
    also have "same_data ?d2 ?d3" by (simp add: same_data_set_nd nolink_def)
    finally show "same_data d d3" unfolding d3 .
    show "same_poc d d3" "same_lsb d d3" unfolding d3 same_poc_def same_lsb_def by (simp_all add: fld_set_nd_same)
  qed
  have xt: "x \<notin> set (us @ t # vs)" using x(3) t by simp
  have rt: "\<forall>y \<in> set (us @ t # vs). in_range d3 y" using rng r3 unfolding t [symmetric] by auto
  let ?n3 = "fld nd_tNextDecOrderNodeID (dp_Nodes d3)" and ?p3 = "fld nd_tPrevDecOrderNodeID (dp_Nodes d3)"
  note vt = valid_neighbours [OF l3 rt]
  have pt: "?p3 t \<noteq> x" "?p3 t \<noteq> t"
  proof -
    have "?p3 t = last_or us AL_BAD_INDEX" by (rule dll_at(2) [OF l3])
    moreover have "0 \<le> t" "t \<notin> set us" using dll_at [OF l3] by simp_all
    ultimately show "?p3 t \<noteq> x" "?p3 t \<noteq> t"
      using xt x(2) bad_index_neg(2) by (cases us rule: rev_cases; auto)+
  qed
  have rtt: "in_range d3 t" "in_range d3 x" using rt x r3 by simp_all
  have ft: "nd_tPrevDecOrderNodeID (nd d3 t) = ?p3 t" using rtt by (simp add: fld_nd)
  let ?e1 = "if 0 \<le> ?p3 t then set_nd d3 (?p3 t) (\<lambda>n. n\<lparr>nd_tNextDecOrderNodeID := x\<rparr>) else d3"
  let ?e4 = "set_nd (set_nd (set_nd ?e1 x (\<lambda>n. n\<lparr>nd_tPrevDecOrderNodeID := ?p3 t\<rparr>)) t (\<lambda>n. n\<lparr>nd_tPrevDecOrderNodeID := x\<rparr>))
     x (\<lambda>n. n\<lparr>nd_tNextDecOrderNodeID := t\<rparr>)"
  let ?e = "if t = dp_tHeadDecOrderNodeID ?e4 then ?e4\<lparr>dp_tHeadDecOrderNodeID := x\<rparr> else ?e4"
  have re: "in_range ?e1 y = in_range d3 y" "in_range ?e y = in_range d3 y" for y by (simp_all add: in_range_def)
  have run: "switch_place d x (?pv x) (?nx x) t = Some ?e"
  proof -
    have "upd_valid d (?pv x) (\<lambda>n. n\<lparr>nd_tNextDecOrderNodeID := ?nx x\<rparr>) = Some ?d2" using vn by (simp add: upd_valid_Some)
    moreover have "upd_valid ?d2 (?nx x) (\<lambda>n. n\<lparr>nd_tPrevDecOrderNodeID := ?pv x\<rparr>) = Some d3"
      unfolding d3 using vn by (simp add: upd_valid_Some)
    moreover have "upd_valid d3 (?p3 t) (\<lambda>n. n\<lparr>nd_tNextDecOrderNodeID := x\<rparr>) = Some ?e1" using vt by (simp add: upd_valid_Some)
    moreover have "node d3 t = Some (nd d3 t)" using rtt by simp
    moreover have "upd_node ?e1 x (\<lambda>n. n\<lparr>nd_tPrevDecOrderNodeID := ?p3 t\<rparr>) = Some (set_nd ?e1 x (\<lambda>n. n\<lparr>nd_tPrevDecOrderNodeID := ?p3 t\<rparr>))"
      using rtt re(1) by (intro upd_node_Some) simp
    ultimately show ?thesis
      unfolding switch_place_def using rtt ft re(1) by (simp only: bind.bind_lunit Let_def) (simp add: rtt)
  qed
  have e1: "fld nd_tNextDecOrderNodeID (dp_Nodes ?e1) = (if 0 \<le> ?p3 t then ?n3(?p3 t := x) else ?n3)"
    "fld nd_tPrevDecOrderNodeID (dp_Nodes ?e1) = ?p3"
    using vt by (simp add: fld_set_nd, simp add: fld_set_nd_same)
  have rx: "in_range ?e1 x" "in_range ?e1 t" using rtt re(1) by simp_all
  obtain e1 where d1: "e1 = ?e1" by blast
  note rx1 = rx [folded d1]
  let ?e2 = "set_nd e1 x (\<lambda>n. n\<lparr>nd_tPrevDecOrderNodeID := ?p3 t\<rparr>)"
  let ?e3 = "set_nd ?e2 t (\<lambda>n. n\<lparr>nd_tPrevDecOrderNodeID := x\<rparr>)"
  have nodes: "dp_Nodes ?e = dp_Nodes (set_nd ?e3 x (\<lambda>n. n\<lparr>nd_tNextDecOrderNodeID := t\<rparr>))" unfolding d1 by simp
  have na: "fld nd_tNextDecOrderNodeID (dp_Nodes ?e) = (fld nd_tNextDecOrderNodeID (dp_Nodes ?e3))(x := t)"
    unfolding nodes using rx1 by (subst fld_set_nd) simp_all
  have nb: "fld nd_tNextDecOrderNodeID (dp_Nodes ?e3) = fld nd_tNextDecOrderNodeID (dp_Nodes e1)"
    by (simp add: fld_set_nd_same)
  have nx: "fld nd_tNextDecOrderNodeID (dp_Nodes ?e) = (if 0 \<le> ?p3 t then ?n3(x := t, ?p3 t := x) else ?n3(x := t))"
    unfolding na nb e1(1) [folded d1] using pt(1) by (simp add: fun_upd_twist)
  have "fld nd_tPrevDecOrderNodeID (dp_Nodes ?e) = fld nd_tPrevDecOrderNodeID (dp_Nodes ?e3)"
    unfolding nodes by (rule fld_set_nd_same) simp
  also have "\<dots> = (fld nd_tPrevDecOrderNodeID (dp_Nodes ?e2))(t := x)" using rx1 by (subst fld_set_nd) simp_all
  also have "fld nd_tPrevDecOrderNodeID (dp_Nodes ?e2) = (fld nd_tPrevDecOrderNodeID (dp_Nodes e1))(x := ?p3 t)"
    using rx1 by (subst fld_set_nd) simp_all
  finally have pv: "fld nd_tPrevDecOrderNodeID (dp_Nodes ?e) = ?p3(x := ?p3 t, t := x)"
    unfolding e1(2) [folded d1] .
  have hd: "dp_tHeadDecOrderNodeID ?e = (if t = dp_tHeadDecOrderNodeID d3 then x else dp_tHeadDecOrderNodeID d3)"
    by (simp add: set_nd_def)
  have "dec_list ?e (us @ x # t # vs)"
    unfolding dec_list_def nx pv hd using dll_insert_before [OF l3 xt x(2)] rt rtt re(2) by auto
  moreover have "same_data d ?e"
  proof -
    note s3(1)
    also have "same_data d3 ?e1" by (simp add: same_data_set_nd nolink_def)
    also have "same_data ?e1 (set_nd ?e1 x (\<lambda>n. n\<lparr>nd_tPrevDecOrderNodeID := ?p3 t\<rparr>))" by (simp add: same_data_set_nd nolink_def)
    also have "same_data \<dots> (set_nd \<dots> t (\<lambda>n. n\<lparr>nd_tPrevDecOrderNodeID := x\<rparr>))" by (simp add: same_data_set_nd nolink_def)
    also have "same_data \<dots> ?e4" by (simp add: same_data_set_nd nolink_def)
    also have "same_data ?e4 ?e" by (rule same_data_head) (simp add: nohead_def)+
    finally show ?thesis .
  qed
  moreover have "same_poc d ?e" "same_lsb d ?e"
  proof -
    have "same_poc d3 ?e" "same_lsb d3 ?e" unfolding same_poc_def same_lsb_def by (simp_all add: fld_set_nd_same)
    then show "same_poc d ?e" "same_lsb d ?e" using s3(2,3) same_trans by blast+
  qed
  ultimately show ?thesis using run unfolding f by blast
qed

text \<open>The decoding order after the move of \<open>x\<close>.\<close>

definition before_longer :: "AL_TDpb \<Rightarrow> index \<Rightarrow> index list \<Rightarrow> index list" where
  "before_longer d x D = (let Q = (\<lambda>y. nd_eMarkingFlag (nd d y) = LONG_TERM_REF \<and> nd_iLongTermPicNum (nd d y) > nd_iLongTermPicNum (nd d x));
       D' = removeAll x D in
     if \<exists>y \<in> set D'. Q y then takeWhile (\<lambda>y. \<not> Q y) D' @ x # dropWhile (\<lambda>y. \<not> Q y) D' else D)"

lemma AL_Dpb_sSwitchLongTermPlace_ok:
  assumes ok: "dpb_ok d P L D" and x: "x \<in> set D" "hd D \<noteq> x \<or> D = [x]"
  shows "\<exists>d'. AL_Dpb_sSwitchLongTermPlace d x = Some d' \<and> dpb_ok d' P L (before_longer d x D) \<and> same_data d d'"
proof -
  obtain as bs where D: "D = as @ x # bs" using split_list [OF x(1)] by blast
  note dd = dpb_ok_dec [OF ok]
  have ls: "lists_ok d P L D" "ordered d P L" "data_ok d P" using ok by (simp_all add: dpb_ok_def)
  have P0: "\<forall>y \<in> set D. 0 \<le> y" using dd(5) by (auto simp: in_range_def)
  have D': "removeAll x D = as @ bs" "x \<notin> set (as @ bs)" using dd(2) unfolding D by simp_all
  obtain Q where Q: "Q = (\<lambda>y. nd_eMarkingFlag (nd d y) = LONG_TERM_REF \<and> nd_iLongTermPicNum (nd d y) > nd_iLongTermPicNum (nd d x))"
    by blast
  have bl0: "before_longer d x D = (if \<exists>y \<in> set (removeAll x D). Q y
      then takeWhile (\<lambda>y. \<not> Q y) (removeAll x D) @ x # dropWhile (\<lambda>y. \<not> Q y) (removeAll x D) else D)"
    unfolding before_longer_def Let_def Q ..
  let ?R = "\<lambda>y. nd_eMarkingFlag (nd d y) = LONG_TERM_REF \<and> y \<noteq> x \<and> nd_iLongTermPicNum (nd d y) > nd_iLongTermPicNum (nd d x)"
  have f: "find_along AL_REF_MNGR_MAX_BUF_SIZE (next_dec d)
       (\<lambda>t. do { n \<leftarrow> node d t; Some (nd_eMarkingFlag n = LONG_TERM_REF \<and> t \<noteq> x
          \<and> nd_iLongTermPicNum n > nd_iLongTermPicNum (nd d x)) })
       (dp_tHeadDecOrderNodeID d) = Some (hd_or (dropWhile (\<lambda>y. \<not> ?R y) D) AL_BAD_INDEX)"
    by (rule dec_find [OF ok]) (simp add: dd(5))
  have dw: "dropWhile (\<lambda>y. \<not> ?R y) D = dropWhile (\<lambda>y. \<not> ?R y) (removeAll x D)
      \<or> (\<exists>z zs. dropWhile (\<lambda>y. \<not> ?R y) D = z # zs \<and> (\<exists>ws. dropWhile (\<lambda>y. \<not> ?R y) (removeAll x D) = z # ws))"
  proof (cases "\<exists>y \<in> set as. ?R y")
    case True
    then have "dropWhile (\<lambda>y. \<not> ?R y) as \<noteq> []" by (auto simp: dropWhile_eq_Nil_conv)
    then obtain z zs where "dropWhile (\<lambda>y. \<not> ?R y) as = z # zs" by (cases "dropWhile (\<lambda>y. \<not> ?R y) as") auto
    then have "dropWhile (\<lambda>y. \<not> ?R y) (as @ ys) = z # zs @ ys" for ys
      using True by (auto simp: dropWhile_append1)
    then show ?thesis unfolding D'(1) unfolding D by blast
  next
    case False
    then have "dropWhile (\<lambda>y. \<not> ?R y) D = dropWhile (\<lambda>y. \<not> ?R y) (removeAll x D)"
      unfolding D'(1) unfolding D by (subst (1 2) dropWhile_append2) auto
    then show ?thesis by blast
  qed
  then have hd: "hd_or (dropWhile (\<lambda>y. \<not> ?R y) D) AL_BAD_INDEX = hd_or (dropWhile (\<lambda>y. \<not> Q y) (removeAll x D)) AL_BAD_INDEX"
  proof -
    have "dropWhile (\<lambda>y. \<not> ?R y) (removeAll x D) = dropWhile (\<lambda>y. \<not> Q y) (removeAll x D)"
      by (rule dropWhile_cong) (auto simp: Q)
    then show ?thesis using dw by auto
  qed
  let ?t = "hd_or (dropWhile (\<lambda>y. \<not> Q y) (removeAll x D)) AL_BAD_INDEX"
  have r: "in_range d x" by (rule dd(5) [OF x(1)])
  have run: "AL_Dpb_sSwitchLongTermPlace d x
      = (if 0 \<le> ?t then switch_place d x (nd_tPrevDecOrderNodeID (nd d x)) (nd_tNextDecOrderNodeID (nd d x)) ?t else Some d)"
    unfolding AL_Dpb_sSwitchLongTermPlace_def node_Some [OF r] bind.bind_lunit f hd valid_index_iff ..
  have P1: "\<forall>y \<in> set (removeAll x D). 0 \<le> y" using P0 by auto
  show ?thesis
  proof (cases "\<exists>y \<in> set (removeAll x D). Q y")
    case False
    then have "\<forall>y \<in> set (removeAll x D). \<not> Q y" by blast
    then have "dropWhile (\<lambda>y. \<not> Q y) (removeAll x D) = []" by (simp only: dropWhile_eq_Nil_conv not_not)
    then have "?t = AL_BAD_INDEX" by (simp only: hd_or_simps)
    then have "\<not> 0 \<le> ?t" by (simp only: bad_index_neg) simp
    moreover have "before_longer d x D = D" unfolding bl0 using False by simp
    ultimately show ?thesis using run ok by (auto simp: same_data_def)
  next
    case True
    let ?us = "takeWhile (\<lambda>y. \<not> Q y) (removeAll x D)"
    obtain vs where vs: "dropWhile (\<lambda>y. \<not> Q y) (removeAll x D) = ?t # vs"
      using True by (cases "dropWhile (\<lambda>y. \<not> Q y) (removeAll x D)") (auto simp: dropWhile_eq_Nil_conv)
    have spl: "as @ bs = ?us @ ?t # vs" using takeWhile_dropWhile_id [of "\<lambda>y. \<not> Q y" "removeAll x D"] vs D'(1) by simp
    then have tin: "?t \<in> set (removeAll x D)" using D'(1) by (metis in_set_conv_decomp)
    have "as \<noteq> []"
    proof
      assume "as = []"
      then have "hd D = x" using D by simp
      then have "D = [x]" using x(2) by simp
      then show False using tin by simp
    qed
    from switch_place_ok [OF _ this spl] obtain d' where d': "switch_place d x (nd_tPrevDecOrderNodeID (nd d x)) (nd_tNextDecOrderNodeID (nd d x)) ?t = Some d'"
      "dec_list d' (?us @ x # ?t # vs)" "same_data d d'" "same_poc d d'" "same_lsb d d'"
      using dd(1) D by blast
    have bl: "before_longer d x D = ?us @ x # ?t # vs"
      unfolding bl0 using True vs by simp
    have "set (?us @ x # ?t # vs) = set D"
    proof -
      have "set (?us @ x # ?t # vs) = insert x (set (?us @ ?t # vs))" by auto
      also have "\<dots> = insert x (set (as @ bs))" by (simp only: spl)
      finally show ?thesis unfolding D by auto
    qed
    then have "lists_ok d' P L (?us @ x # ?t # vs)"
      using ls(1) d'(2) same_poc_list [OF d'(4)] same_lsb_list [OF d'(5)] unfolding lists_ok_def by auto
    moreover have "data_ok d' P" using ls(3) same_data_ok [OF d'(3) lists_dist(6) [OF ls(1)]] by simp
    moreover have "ordered d' P L"
    proof (rule ordered_keep [OF ls(2) lists_dist(4) [OF ls(1)]])
      fix y assume "y \<in> set P"
      then have "in_range d y" using lists_dist(6) [OF ls(1)] by blast
      then show "nd_iFramePOC (nd d' y) = nd_iFramePOC (nd d y)
        \<and> nd_slice_pic_order_cnt_lsb (nd d' y) = nd_slice_pic_order_cnt_lsb (nd d y)"
        using same_data_nd [OF d'(3)] by blast
    qed
    moreover have "0 \<le> ?t" using P1 tin by blast
    ultimately show ?thesis using run d'(1,3) by (simp add: dpb_ok_def bl)
  qed
qed

section \<open>Operation 6\<close>

lemma set_nd_twice: "in_range d x \<Longrightarrow> set_nd (set_nd d x f) x g = set_nd d x (\<lambda>n. g (f n))"
  by (simp add: set_nd_def nd_def in_range_def)

lemma to_long_ok:
  fixes idx :: int
  assumes ok: "dpb_ok d P L D" and x: "x \<in> set D" "hd D \<noteq> x \<or> D = [x]" "marked d x"
  defines "g \<equiv> \<lambda>n. n\<lparr>nd_eMarkingFlag := LONG_TERM_REF, nd_iLongTermFrameIdx := idx, nd_iLongTermPicNum := idx\<rparr>"
  shows "\<exists>d'. to_long d x idx = Some d' \<and> dpb_ok d' P L (before_longer (set_nd d x g) x D) \<and> same_data (set_nd d x g) d'"
proof -
  note dd = dpb_ok_dec [OF ok]
  have r: "in_range d x" and xP: "x \<in> set P" using dd(3,5) x(1) by auto
  let ?d = "set_nd d x (\<lambda>n. n\<lparr>nd_eMarkingFlag := LONG_TERM_REF\<rparr>)"
  have "AL_Dpb_SetMarkingFlag d x LONG_TERM_REF = Some ?d"
    using x(3) r by (simp add: AL_Dpb_SetMarkingFlag_def marked_def)
  then have ok1: "dpb_ok ?d P L D" using AL_Dpb_SetMarkingFlag_ok [OF ok r, of LONG_TERM_REF] xP by auto
  let ?h = "\<lambda>n. n\<lparr>nd_iLongTermFrameIdx := idx, nd_iLongTermPicNum := idx\<rparr>"
  have r1: "in_range ?d x" using r by simp
  have "dpb_ok (set_nd ?d x ?h) P L D"
    by (rule renumbered_ok [OF ok1 renumbered_set_nd [OF r1]]) (simp add: core_def)
  then have ok2: "dpb_ok (set_nd d x g) P L D" using set_nd_twice [OF r] by (simp add: g_def)
  obtain d' where "AL_Dpb_sSwitchLongTermPlace (set_nd d x g) x = Some d'"
    "dpb_ok d' P L (before_longer (set_nd d x g) x D)" "same_data (set_nd d x g) d'"
    using AL_Dpb_sSwitchLongTermPlace_ok [OF ok2 x(1,2)] by blast
  moreover have "upd_node d x g = Some (set_nd d x g)" using r by simp
  ultimately show ?thesis unfolding to_long_def g_def by simp
qed

lemma same_data_long:
  assumes "same_data d d'" "in_range d x"
  shows "nd_eMarkingFlag (nd d' x) = nd_eMarkingFlag (nd d x)" "nd_iLongTermFrameIdx (nd d' x) = nd_iLongTermFrameIdx (nd d x)"
    "nd_iLongTermPicNum (nd d' x) = nd_iLongTermPicNum (nd d x)"
proof -
  have n: "nolink (nd d' x) = nolink (nd d x)" by (rule same_data_node [OF assms])
  show "nd_eMarkingFlag (nd d' x) = nd_eMarkingFlag (nd d x)" using arg_cong [OF n, of nd_eMarkingFlag] by (simp add: nolink_def)
  show "nd_iLongTermFrameIdx (nd d' x) = nd_iLongTermFrameIdx (nd d x)"
    using arg_cong [OF n, of nd_iLongTermFrameIdx] by (simp add: nolink_def)
  show "nd_iLongTermPicNum (nd d' x) = nd_iLongTermPicNum (nd d x)"
    using arg_cong [OF n, of nd_iLongTermPicNum] by (simp add: nolink_def)
qed

lemma AL_Dpb_sAssignLongTermFrameIdx_ok:
  fixes d :: AL_TDpb and sl :: AL_TAvcSliceHdr and i :: nat and P :: "index list"
  assumes ok: "dpb_ok d P L D" and c: "c = dp_tCurRefNodeID d" "c \<in> set D" "hd D \<noteq> c \<or> D = [c]" "nd_eMarkingFlag (nd d c) = SHORT_TERM_REF"
    and i: "i < length (sh_long_term_frame_idx sl)"
  defines "idx \<equiv> sh_long_term_frame_idx sl ! i mod 256"
  defines "T \<equiv> {y \<in> set P. nd_iLongTermFrameIdx (nd d y) = idx \<and> nd_eMarkingFlag (nd d y) = LONG_TERM_REF}"
  shows "\<exists>d' e. AL_Dpb_sAssignLongTermFrameIdx d sl i = Some d' \<and> dpb_ok d' P L (before_longer e c D)
    \<and> (\<forall>y \<in> set P. nd_eMarkingFlag (nd d' y) = nd_eMarkingFlag (nd e y) \<and> nd_iLongTermPicNum (nd d' y) = nd_iLongTermPicNum (nd e y)
        \<and> (nd_eMarkingFlag (nd e y) = (if y = c then LONG_TERM_REF else if y \<in> T then UNUSED_FOR_REF else nd_eMarkingFlag (nd d y)))
        \<and> (nd_iLongTermPicNum (nd e y) = (if y = c then idx else nd_iLongTermPicNum (nd d y))))"
proof -
  note dd = dpb_ok_dec [OF ok]
  obtain a where a: "unuse_all (\<lambda>n. nd_iLongTermFrameIdx n = idx \<and> nd_eMarkingFlag n = LONG_TERM_REF) d = Some a"
    "dpb_ok a P L D" "unused_in T d a"
    using unuse_all_ok [OF _ ok, of "\<lambda>n. nd_iLongTermFrameIdx n = idx \<and> nd_eMarkingFlag n = LONG_TERM_REF"] unfolding T_def by auto
  have na: "nd a y = (if y \<in> T then (nd d y)\<lparr>nd_eMarkingFlag := UNUSED_FOR_REF, nd_tPicID := AL_BAD_INDEX\<rparr> else nd d y)"
    if "0 \<le> y" for y
    using a(3) that by (simp add: unused_in_def)
  have c0: "0 \<le> c" "c \<notin> T" "c \<in> set P" using dd(3,5) c(2,4) by (auto simp: in_range_def T_def)
  have mc: "marked a c" using na [OF c0(1)] c0(2) c(4) by (simp add: marked_def)
  let ?g = "\<lambda>n. n\<lparr>nd_eMarkingFlag := LONG_TERM_REF, nd_iLongTermFrameIdx := idx, nd_iLongTermPicNum := idx\<rparr>"
  let ?e = "set_nd a c ?g"
  obtain d' where d': "to_long a c idx = Some d'" "dpb_ok d' P L (before_longer ?e c D)" "same_data ?e d'"
    using to_long_ok [OF a(2) c(2,3) mc] by blast
  have cur: "dp_tCurRefNodeID a = c" using a(3) c(1) by (simp add: unused_in_def)
  have run: "AL_Dpb_sAssignLongTermFrameIdx d sl i = Some d'"
    unfolding AL_Dpb_sAssignLongTermFrameIdx_def using i a(1) cur d'(1) by (simp add: idx_def)
  have rc: "in_range a c" using dpb_ok_dec(5) [OF a(2) c(2)] .
  have "nd_eMarkingFlag (nd d' y) = nd_eMarkingFlag (nd ?e y) \<and> nd_iLongTermPicNum (nd d' y) = nd_iLongTermPicNum (nd ?e y)
        \<and> (nd_eMarkingFlag (nd ?e y) = (if y = c then LONG_TERM_REF else if y \<in> T then UNUSED_FOR_REF else nd_eMarkingFlag (nd d y)))
        \<and> (nd_iLongTermPicNum (nd ?e y) = (if y = c then idx else nd_iLongTermPicNum (nd d y)))" if y: "y \<in> set P" for y
  proof -
    have ry: "in_range ?e y" "0 \<le> y" using dpb_ok_parts(7) [OF a(2) y] by (simp_all add: in_range_def)
    have "nd ?e y = (if y = c then ?g (nd a c) else nd a y)" using rc ry(2) by simp
    then show ?thesis using same_data_long(1,3) [OF d'(3) ry(1)] na [OF ry(2)] by simp
  qed
  then show ?thesis using run d'(2) by blast
qed

end
