(* ===== verification/Dpb_Props.thy ===== *)
theory Dpb_Props
  imports Dpb_MarkProc Dpb_MarkLong
begin

text \<open>
  The properties of the decoded picture buffer (\<open>DPB.c\<close>), over the states that its API reaches.
\<close>

section \<open>The lists of a state\<close>

fun chain :: "nat \<Rightarrow> (index \<Rightarrow> index option) \<Rightarrow> index \<Rightarrow> index list" where
  "chain f nx t = (if \<not> AL_IS_VALID_INDEX t then [] else case f of 0 \<Rightarrow> []
     | Suc f \<Rightarrow> (case nx t of None \<Rightarrow> [t] | Some t' \<Rightarrow> t # chain f nx t'))"

declare chain.simps [simp del]

definition poc_order :: "AL_TDpb \<Rightarrow> index list" where
  "poc_order d = chain AL_REF_MNGR_MAX_BUF_SIZE (next_poc d) (dp_tHeadPOCNodeID d)"

definition lsb_order :: "AL_TDpb \<Rightarrow> index list" where
  "lsb_order d = chain AL_REF_MNGR_MAX_BUF_SIZE (next_lsb d) (dp_tHeadPocLsbNodeID d)"

definition dec_order :: "AL_TDpb \<Rightarrow> index list" where
  "dec_order d = chain AL_REF_MNGR_MAX_BUF_SIZE (next_dec d) (dp_tHeadDecOrderNodeID d)"

definition dpb_inv :: "AL_TDpb \<Rightarrow> bool" where
  "dpb_inv d \<longleftrightarrow> dpb_ok d (poc_order d) (lsb_order d) (dec_order d)"

definition pic_entry :: "AL_TDpb \<Rightarrow> nat \<Rightarrow> index \<times> index \<times> bool" where
  "pic_entry d i = (case find (\<lambda>x. nd_tPicID (nd d x) = int i) (poc_order d) of
     None \<Rightarrow> (AL_BAD_INDEX, AL_BAD_INDEX, False) | Some x \<Rightarrow> (nd_tFrameID (nd d x), nd_tMvID (nd d x), False))"

lemma chain_seg:
  assumes "seg nx pv p t xs AL_BAD_INDEX" "length xs \<le> f" "\<And>x. x \<in> set xs \<Longrightarrow> next x = Some (nx x)"
  shows "chain f next t = xs"
  using assms
proof (induction xs arbitrary: f p t)
  case Nil
  then show ?case by (simp add: chain.simps)
next
  case (Cons x xs)
  obtain g where f: "f = Suc g" using Cons.prems(2) by (cases f) auto
  have "chain g next (nx x) = xs" using Cons.prems f by (intro Cons.IH [of x]) auto
  then show ?case using Cons.prems unfolding f by (subst chain.simps) auto
qed

lemma dpb_ok_orders:
  assumes "dpb_ok d P L D"
  shows "poc_order d = P" "lsb_order d = L" "dec_order d = D"
proof -
  have ls: "lists_ok d P L D" using assms by (simp add: dpb_ok_def)
  have len: "length P \<le> AL_REF_MNGR_MAX_BUF_SIZE" "length L \<le> AL_REF_MNGR_MAX_BUF_SIZE" "length D \<le> AL_REF_MNGR_MAX_BUF_SIZE"
    using lists_lengths(1,2) [OF ls] dpb_ok_parts(3) [OF assms] by simp_all
  have p: "poc_list d P" and l: "lsb_list d L" and e: "dec_list d D" using ls by (simp_all add: lists_ok_def)
  show "poc_order d = P" unfolding poc_order_def
    by (rule chain_seg [where nx = "fld nd_tNextPOCNodeID (dp_Nodes d)" and pv = "fld nd_tPrevPOCNodeID (dp_Nodes d)"
        and p = AL_BAD_INDEX, OF _ len(1)]) (use p in \<open>auto simp: poc_list_def dll_def next_poc_def fld_nd\<close>)
  show "lsb_order d = L" unfolding lsb_order_def
    by (rule chain_seg [where nx = "fld nd_tNextPocLsbNodeID (dp_Nodes d)" and pv = "fld nd_tPrevPocLsbNodeID (dp_Nodes d)"
        and p = AL_BAD_INDEX, OF _ len(2)]) (use l in \<open>auto simp: lsb_list_def dll_def next_lsb_def fld_nd\<close>)
  show "dec_order d = D" unfolding dec_order_def
    by (rule chain_seg [where nx = "fld nd_tNextDecOrderNodeID (dp_Nodes d)" and pv = "fld nd_tPrevDecOrderNodeID (dp_Nodes d)"
        and p = AL_BAD_INDEX, OF _ len(3)]) (use e in \<open>auto simp: dec_list_def dll_def next_dec_def fld_nd\<close>)
qed

lemma dpb_okI: "dpb_ok d P L D \<Longrightarrow> dpb_inv d"
  using dpb_ok_orders [of d P L D] by (simp add: dpb_inv_def)

section \<open>The system\<close>

text \<open>
  The calls of the API, with what their callers guarantee: the arguments and the room of an insertion,
  a frame of the pool at the end of its decoding, nodes that hold a picture.
\<close>

inductive dpb_step :: "AL_TDpb \<Rightarrow> AL_TDpb \<Rightarrow> bool" where
  insert: "insert_args p f m \<Longrightarrow> insert_room d \<Longrightarrow> sApiInsert d f m p = Some d' \<Longrightarrow> dpb_step d d'"
| hevc_cleanup: "AL_Dpb_HEVC_Cleanup d u n = Some d' \<Longrightarrow> dpb_step d d'"
| avc_cleanup: "AL_Dpb_AVC_Cleanup d = Some d' \<Longrightarrow> dpb_step d d'"
| flush: "sApiFlush d = Some d' \<Longrightarrow> dpb_step d d'"
| clear: "AL_Dpb_ClearOutput d = Some d' \<Longrightarrow> dpb_step d d'"
| end_decoding: "0 \<le> f \<Longrightarrow> nat f < AL_REFMNGR_MAX_POOL_SIZE \<Longrightarrow> sApiEndDecoding d f = Some d' \<Longrightarrow> dpb_step d d'"
| release_display: "sApiReleaseDisplayBuffer d = Some (f, d') \<Longrightarrow> dpb_step d d'"
| terminate: "sApiTerminate d = Some d' \<Longrightarrow> dpb_step d d'"
| mark: "t \<in> set (poc_order d) \<Longrightarrow> AL_Dpb_SetMarkingFlag d t e = Some d' \<Longrightarrow> dpb_step d d'"
| latency: "t \<in> set (poc_order d) \<Longrightarrow> AL_Dpb_IncrementPicLatency d t = Some d' \<Longrightarrow> dpb_step d d'"
| display: "t \<in> set (poc_order d) \<Longrightarrow> AL_Dpb_Display d t = Some d' \<Longrightarrow> dpb_step d d'"
| remove_head: "poc_order d \<noteq> [] \<Longrightarrow> AL_Dpb_RemoveHead d = Some (f, d') \<Longrightarrow> dpb_step d d'"
| remove: "t \<in> set (poc_order d) \<Longrightarrow> \<not> outp d t \<Longrightarrow> AL_Dpb_Remove d t = Some (f, d') \<Longrightarrow> dpb_step d d'"
| begin_seq: "dpb_step d (AL_Dpb_sBeginNewSeq d)"
| cur_poc: "dpb_step d (d\<lparr>dp_iCurFramePOC := poc\<rparr>)"
| numbers: "AL_Dpb_PictNumberProcess d sl = Some d' \<Longrightarrow> dpb_step d d'"
| num_ref: "dpb_step d (AL_Dpb_SetNumRef d n)"
| mmco5: "dpb_step d (AL_Dpb_ResetMMCO5 d)"
| marking: "dp_tCurRefNodeID d \<in> set (poc_order d) \<Longrightarrow> AL_AVC_IsIDR (sh_nal_unit_type sl) \<or> marking_pre d sl \<Longrightarrow>
    AL_Dpb_MarkingProcess d sl = Some d' \<Longrightarrow> dpb_step d d'"
| long_term: "dp_tCurRefNodeID d \<in> set (dec_order d) \<Longrightarrow> hd (dec_order d) \<noteq> dp_tCurRefNodeID d \<or> dec_order d = [dp_tCurRefNodeID d] \<Longrightarrow>
    nd_eMarkingFlag (nd d (dp_tCurRefNodeID d)) = SHORT_TERM_REF \<Longrightarrow> i < length (sh_long_term_frame_idx sl) \<Longrightarrow>
    AL_Dpb_sAssignLongTermFrameIdx d sl i = Some d' \<Longrightarrow> dpb_step d d'"

inductive dpb_reach :: "AL_TDpb \<Rightarrow> bool" where
  init: "dpb_alloc d \<Longrightarrow> sApiInit True d = Some (True, d') \<Longrightarrow> dpb_reach d'"
| step: "dpb_reach d \<Longrightarrow> dpb_step d d' \<Longrightarrow> dpb_reach d'"

lemma dpb_inv_split: "dpb_inv d \<Longrightarrow> x \<in> set (poc_order d) \<Longrightarrow> \<exists>xs ys. poc_order d = xs @ x # ys"
  by (meson split_list)

lemma dpb_step_inv:
  assumes "dpb_step d d'" "dpb_inv d"
  shows "dpb_inv d'"
  using assms
proof (induction rule: dpb_step.induct)
  case (insert p f m d d')
  then show ?case using sApiInsert_ok [of d "poc_order d" "lsb_order d" "dec_order d" p f m]
    by (auto simp: dpb_inv_def intro: dpb_okI [unfolded dpb_inv_def] split: if_splits)
next
  case (hevc_cleanup d u n d')
  then show ?case using AL_Dpb_HEVC_Cleanup_ok [of d _ _ _ u n] dpb_okI unfolding dpb_inv_def [of d] by fastforce
next
  case (avc_cleanup d d')
  then show ?case using AL_Dpb_AVC_Cleanup_ok [of d] dpb_okI unfolding dpb_inv_def [of d] by fastforce
next
  case (flush d d')
  then show ?case using sApiFlush_ok [of d] dpb_okI unfolding dpb_inv_def [of d] by fastforce
next
  case (clear d d')
  then show ?case using AL_Dpb_ClearOutput_ok [of d] dpb_okI unfolding dpb_inv_def [of d] by fastforce
next
  case (end_decoding f d d')
  then show ?case using sApiEndDecoding_ok [of d _ _ _ f] dpb_okI unfolding dpb_inv_def [of d] by fastforce
next
  case (release_display d f d')
  then show ?case using sApiReleaseDisplayBuffer_ok [of d] dpb_okI unfolding dpb_inv_def [of d] by fastforce
next
  case (terminate d d')
  then show ?case using AL_Dpb_sReleaseUnusedBuf_ok [of d] dpb_okI
    unfolding dpb_inv_def [of d] sApiTerminate_def by fastforce
next
  case (mark t d e d')
  have ok: "dpb_ok d (poc_order d) (lsb_order d) (dec_order d)" using mark by (simp add: dpb_inv_def)
  obtain d2 where "AL_Dpb_SetMarkingFlag d t e = Some d2" "dpb_ok d2 (poc_order d) (lsb_order d) (dec_order d)"
    using AL_Dpb_SetMarkingFlag_ok [OF ok dpb_ok_parts(7) [OF ok mark(1)]] mark(1) by blast
  then show ?case using mark(2) dpb_okI by simp
next
  case (latency t d d')
  have ok: "dpb_ok d (poc_order d) (lsb_order d) (dec_order d)" using latency by (simp add: dpb_inv_def)
  obtain d2 where "AL_Dpb_IncrementPicLatency d t = Some d2" "dpb_ok d2 (poc_order d) (lsb_order d) (dec_order d)"
    using AL_Dpb_IncrementPicLatency_ok [OF ok dpb_ok_parts(7) [OF ok latency(1)]] by blast
  then show ?case using latency(2) dpb_okI by simp
next
  case (display t d d')
  then obtain xs ys where split: "poc_order d = xs @ t # ys" using dpb_inv_split by blast
  have ok: "dpb_ok d (poc_order d) (lsb_order d) (dec_order d)" using display by (simp add: dpb_inv_def)
  obtain d2 where "AL_Dpb_Display d t = Some d2" "dpb_ok d2 (poc_order d) (lsb_order d) (dec_order d)"
    using AL_Dpb_Display_ok [OF ok split] by blast
  then show ?case using display(2) dpb_okI by simp
next
  case (remove_head d f d')
  then obtain t P where tP: "poc_order d = t # P" by (cases "poc_order d") auto
  have ok: "dpb_ok d (t # P) (lsb_order d) (dec_order d)" using remove_head tP by (simp add: dpb_inv_def)
  obtain g d2 where "AL_Dpb_RemoveHead d = Some (g, d2)" "dpb_ok d2 P (removeAll t (lsb_order d)) (removeAll t (dec_order d))"
    using AL_Dpb_RemoveHead_ok [OF ok] by blast
  then show ?case using remove_head(2) dpb_okI by simp
next
  case (remove t d f d')
  have ok: "dpb_ok d (poc_order d) (lsb_order d) (dec_order d)" using remove by (simp add: dpb_inv_def)
  show ?case using AL_Dpb_Remove_ok [OF ok remove(1,2)] remove(3) dpb_okI by fastforce
next
  case (cur_poc d poc)
  show ?case by (rule dpb_okI, rule same_nodes_ok [OF cur_poc [unfolded dpb_inv_def]])
    (use cur_poc in \<open>simp_all add: keeps_deleted_def dpb_inv_def dpb_ok_def data_ok_def\<close>)
next
  case (numbers d sl d')
  then show ?case using AL_Dpb_PictNumberProcess_ok [of d _ _ _ sl] dpb_okI unfolding dpb_inv_def [of d] by fastforce
next
  case (begin_seq d)
  show ?case by (rule dpb_okI, rule same_nodes_ok [OF begin_seq [unfolded dpb_inv_def]])
    (use begin_seq in \<open>simp_all add: AL_Dpb_sBeginNewSeq_def keeps_deleted_def dpb_inv_def dpb_ok_def data_ok_def\<close>)
next
  case (num_ref d n)
  show ?case by (rule dpb_okI, rule same_nodes_ok [OF num_ref [unfolded dpb_inv_def]])
    (use num_ref in \<open>simp_all add: AL_Dpb_SetNumRef_def keeps_deleted_def dpb_inv_def dpb_ok_def data_ok_def\<close>)
next
  case (mmco5 d)
  show ?case by (rule dpb_okI, rule same_nodes_ok [OF mmco5 [unfolded dpb_inv_def]])
    (use mmco5 in \<open>simp_all add: AL_Dpb_ResetMMCO5_def keeps_deleted_def dpb_inv_def dpb_ok_def data_ok_def\<close>)
next
  case (marking d sl d')
  obtain d2 Q L2 D2 where "AL_Dpb_MarkingProcess d sl = Some d2" "dpb_ok d2 Q L2 D2"
    using AL_Dpb_MarkingProcess_keeps [OF marking(4) [unfolded dpb_inv_def] marking(1,2)] by blast
  then show ?case using marking(3) dpb_okI by simp
next
  case (long_term d i sl d')
  obtain d2 D2 where "AL_Dpb_sAssignLongTermFrameIdx d sl i = Some d2" "dpb_ok d2 (poc_order d) (lsb_order d) D2"
    using AL_Dpb_sAssignLongTermFrameIdx_ok [OF long_term(6) [unfolded dpb_inv_def] refl long_term(1-4)] by blast
  then show ?case using long_term(5) dpb_okI by simp
qed

lemma reach_inv:
  assumes "dpb_reach d"
  shows "dpb_inv d"
  using assms
proof induction
  case (init d d')
  then show ?case using sApiInit_ok [OF init(1)] by (auto intro: dpb_okI)
next
  case (step d d')
  then show ?case using dpb_step_inv by blast
qed

lemma reach_ok: "dpb_reach d \<Longrightarrow> dpb_ok d (poc_order d) (lsb_order d) (dec_order d)"
  using reach_inv by (simp add: dpb_inv_def)

section \<open>A concrete buffer\<close>

definition blank_node :: AL_TDpbNode where
  "blank_node = \<lparr>nd_tNodeID = 0, nd_tFrameID = 0, nd_tMvID = 0, nd_tPicID = 0, nd_tPrevPOCNodeID = 0, nd_tNextPOCNodeID = 0,
     nd_tPrevPocLsbNodeID = 0, nd_tNextPocLsbNodeID = 0, nd_tPrevDecOrderNodeID = 0, nd_tNextDecOrderNodeID = 0,
     nd_iFramePOC = 0, nd_ePicStruct = 0, nd_slice_pic_order_cnt_lsb = 0, nd_eMarkingFlag = SHORT_TERM_REF, nd_iFrameNumber = 0,
     nd_iSliceFrameNumber = 0, nd_iFrameNumberWrap = 0, nd_iLongTermFrameIdx = 0, nd_iLongTermPicNum = 0, nd_iPicNum = 0,
     nd_bPicOutputFlag = False, nd_bIsReset = False, nd_bIsDisplayed = False, nd_uPicLatency = 0, nd_bNonExisting = False,
     nd_eNUT = 0, nd_bSubpicFlag = False\<rparr>"

definition blank_dpb :: AL_TDpb where
  "blank_dpb = \<lparr>dp_Nodes = replicate AL_REF_MNGR_MAX_BUF_SIZE blank_node,
     dp_DispFifo = \<lparr>df_pFrmIDs = [], df_pPicLatency = replicate AL_REFMNGR_MAX_POOL_SIZE 0, df_pFrmStatus = [], df_tFirstFrmID = 0, df_uNumFrm = 0\<rparr>,
     dp_PicId2NodeId = [], dp_PicId2FrmId = [], dp_PicId2MvId = [], dp_FreePicIDs = [], dp_FreePicIdCnt = 0, dp_bPicWaiting = False,
     dp_tNodeWaitingID = 0, dp_tFrmWaitingID = 0, dp_tMvWaitingID = 0, dp_pDeletedFrmIDLst = replicate AL_REFMNGR_MAX_POOL_SIZE 0,
     dp_pDeletedMvIDLst = replicate AL_REF_MNGR_MAX_BUF_SIZE 0, dp_iDeletedFrmLstHead = 0, dp_iDeletedFrmLstTail = 0,
     dp_iDeletedMvLstHead = 0, dp_iDeletedMvLstTail = 0, dp_iNumDeletedPic = 0, dp_iLastDisplayedPOC = 0, dp_uNumOutputPic = 0,
     dp_uNumRef = 1, dp_tHeadPOCNodeID = 0, dp_tHeadPocLsbNodeID = 0, dp_tLastPOCNodeID = 0, dp_tHeadDecOrderNodeID = 0,
     dp_tCurRefNodeID = 0, dp_uCountRef = 0, dp_uCountPic = 0, dp_iMaxLongTermFrameIdx = 0, dp_bLastHasMMCO5 = False,
     dp_eMode = AL_DPB_NORMAL, dp_iCurFramePOC = 0, dp_log = []\<rparr>"

definition demo_pic :: "int \<Rightarrow> AL_EMarkingRef \<Rightarrow> AL_TDpbInsertParam" where
  "demo_pic poc e = \<lparr>ip_iFramePOC = poc, ip_ePicStruct = 0, ip_iPocLsb = poc, ip_bPicOutputFlag = True, ip_eMarkingFlag = e,
     ip_bNonExisting = False, ip_eNUT = 0, ip_bSubpicFlag = False\<rparr>"

text \<open>The reference picture of order 4 in frame 7, then the picture of order 2 in frame 9.\<close>

definition demo_init :: AL_TDpb where "demo_init = snd (the (sApiInit True blank_dpb))"
definition demo_one :: AL_TDpb where "demo_one = the (sApiInsert demo_init 7 3 (demo_pic 4 SHORT_TERM_REF))"
definition demo_two :: AL_TDpb where "demo_two = the (sApiInsert demo_one 9 5 (demo_pic 2 UNUSED_FOR_REF))"

lemma demo_init_reach: "dpb_reach demo_init"
proof -
  have "dpb_alloc blank_dpb" by (simp add: dpb_alloc_def blank_dpb_def)
  then show ?thesis using sApiInit_ok [of blank_dpb] dpb_reach.init by (auto simp: demo_init_def)
qed

lemma demo_room: "insert_room demo_init" "insert_room demo_one"
  "insert_args (demo_pic 4 SHORT_TERM_REF) 7 3" "insert_args (demo_pic 2 UNUSED_FOR_REF) 9 5"
  by code_simp+

lemma demo_reach: "dpb_reach demo_one" "dpb_reach demo_two"
proof -
  have one: "sApiInsert demo_init 7 3 (demo_pic 4 SHORT_TERM_REF) = Some demo_one"
    using sApiInsert_ok [OF reach_ok [OF demo_init_reach] demo_room(3,1)] by (auto simp: demo_one_def)
  show r: "dpb_reach demo_one"
    by (rule dpb_reach.step [OF demo_init_reach], rule dpb_step.insert [OF demo_room(3,1) one])
  have "sApiInsert demo_one 9 5 (demo_pic 2 UNUSED_FOR_REF) = Some demo_two"
    using sApiInsert_ok [OF reach_ok [OF r] demo_room(4,2)] by (auto simp: demo_two_def)
  then show "dpb_reach demo_two"
    by (rule dpb_reach.step [OF r dpb_step.insert [OF demo_room(4,2)]])
qed

definition demo_view :: "AL_TDpb \<Rightarrow> index list \<times> index list \<times> (int \<times> index \<times> bool \<times> bool \<times> bool) list
    \<times> (index \<times> index \<times> bool) list \<times> bool" where
  "demo_view d = (poc_order d, dec_order d,
     map (\<lambda>x. (nd_iFramePOC (nd d x), nd_tFrameID (nd d x), marked d x, outp d x, absent d x)) [0, 1],
     map (pic_entry d) [15, 14, 0], insert_room d)"

lemma demo_two_view: "demo_view demo_two = ([1, 0], [0, 1], [(4, 7, True, True, False), (2, 9, False, True, False)],
    [(7, 3, False), (9, 5, False), (-1, -1, False)], True)"
  by code_simp

lemma demo_order: "poc_order demo_two = [1, 0]" "dec_order demo_two = [0, 1]" "outp demo_two 0" "outp demo_two 1"
    "marked demo_two 0" "\<not> marked demo_two 1" "\<not> absent demo_two 0" "nd_iFramePOC (nd demo_two 0) = 4"
    "nd_iFramePOC (nd demo_two 1) = 2" "nd_tFrameID (nd demo_two 0) = 7" "nd_tFrameID (nd demo_two 1) = 9"
    "to_show demo_two [1, 0] = [9, 7]" "insert_room demo_two"
    "pic_entry demo_two 15 = (7, 3, False)" "pic_entry demo_two 14 = (9, 5, False)"
    "pic_entry demo_two 0 = (AL_BAD_INDEX, AL_BAD_INDEX, False)"
  using demo_two_view by (simp_all add: demo_view_def AL_BAD_INDEX_def)

section \<open>Invariant and totality\<close>





section \<open>References on the buffers\<close>

primrec drain_display :: "nat \<Rightarrow> AL_TDpb \<Rightarrow> AL_TDpb option" where
  "drain_display 0 d = Some d"
| "drain_display (Suc n) d = do { (_, d) \<leftarrow> sApiReleaseDisplayBuffer d; drain_display n d }"

lemma drain_display_ok:
  assumes "dpb_ok d P L D" "n = length (df_frms (dp_DispFifo d))"
  shows "\<exists>d'. drain_display n d = Some d' \<and> dpb_ok d' P L D \<and> df_frms (dp_DispFifo d') = []
    \<and> keeps_deleted d d' \<and> dp_Nodes d' = dp_Nodes d"
  using assms
proof (induction n arbitrary: d)
  case 0
  then show ?case by simp
next
  case (Suc n)
  obtain y ys where fr: "df_frms (dp_DispFifo d) = y # ys" using Suc.prems(2) by (cases "df_frms (dp_DispFifo d)") auto
  obtain x d1 where d1: "sApiReleaseDisplayBuffer d = Some (x, d1)" "dpb_ok d1 P L D" "df_frms (dp_DispFifo d1) = ys"
    "dp_Nodes d1 = dp_Nodes d" "keeps_deleted d d1"
    using sApiReleaseDisplayBuffer_ok [OF Suc.prems(1)] fr by auto
  obtain d2 where "drain_display n d1 = Some d2" "dpb_ok d2 P L D" "df_frms (dp_DispFifo d2) = []" "keeps_deleted d1 d2"
    "dp_Nodes d2 = dp_Nodes d1"
    using Suc.IH [OF d1(2)] Suc.prems(2) fr d1(3) by auto
  then show ?case using d1 keeps_deleted_trans by auto
qed

text \<open>
  C9: the references taken on the frame and motion vector buffers are those given back, plus one for each
  picture of the buffer, for each removed picture whose buffers wait for the end of a decoding and for
  each frame queued for display. A flush, a termination and the release of the displayed frames
  give back exactly those that are left, so that every buffer returns to the pools.
\<close>

theorem dpb_references_conserved:
  assumes "dpb_reach d"
  shows "mset (events inc_frm d) = mset (events dec_frm d) + mset (frames d (poc_order d)) + mset (deleted_frms d)
      + mset (df_frms (dp_DispFifo d))
    \<and> mset (events inc_mv d) = mset (events dec_mv d) + mset (mvs d (poc_order d)) + mset (deleted_mvs d)
    \<and> (\<exists>d'. (do { d \<leftarrow> sApiFlush d; d \<leftarrow> sApiTerminate d; drain_display (df_uNumFrm (dp_DispFifo d)) d }) = Some d'
        \<and> mset (events inc_frm d') = mset (events dec_frm d') \<and> mset (events inc_mv d') = mset (events dec_mv d'))"
proof -
  note ok = reach_ok [OF assms]
  obtain d1 where d1: "sApiFlush d = Some d1" "dpb_ok d1 [] [] []" using sApiFlush_ok [OF ok] by blast
  obtain d2 where d2: "sApiTerminate d1 = Some d2" "dpb_ok d2 [] [] []" "deleted_frms d2 = []" "deleted_mvs d2 = []"
    using AL_Dpb_sReleaseUnusedBuf_ok [OF d1(2)] by (auto simp: sApiTerminate_def)
  obtain d3 where d3: "drain_display (df_uNumFrm (dp_DispFifo d2)) d2 = Some d3" "dpb_ok d3 [] [] []"
    "df_frms (dp_DispFifo d3) = []" "keeps_deleted d2 d3"
    using drain_display_ok [OF d2(2)] by (auto simp: df_frms_def)
  have "log_ok d3 []" using d3(2) by (simp add: dpb_ok_def data_ok_def)
  then have "mset (events inc_frm d3) = mset (events dec_frm d3)" "mset (events inc_mv d3) = mset (events dec_mv d3)"
    using d3(3) keeps_deleted_frms(1,2) [OF d3(4)] d2(3,4) by (simp_all add: log_ok_def frames_def mvs_def)
  moreover have "log_ok d (poc_order d)" using ok by (simp add: dpb_ok_def data_ok_def)
  ultimately show ?thesis using d1(1) d2(1) d3(1) by (simp add: log_ok_def)
qed

theorem dpb_references_conserved_witness:
  "\<exists>d'. (do { d \<leftarrow> sApiFlush demo_two; d \<leftarrow> sApiTerminate d; drain_display (df_uNumFrm (dp_DispFifo d)) d }) = Some d'
     \<and> mset (events inc_frm d') = mset (events dec_frm d')"
  using dpb_references_conserved [OF demo_reach(2)] by blast

section \<open>Output order\<close>

text \<open>
  C12: displaying a picture outputs, in picture order, it and all the pictures before it that were to be
  output, each once, and leaves the later ones to be output; the list and the references do not
  change. The two levels of recursion of the code are enough.
\<close>

theorem dpb_display_order:
  assumes "dpb_reach d" "x \<in> set (poc_order d)"
  shows "\<exists>d'. AL_Dpb_Display d x = Some d'
    \<and> dp_log d' = dp_log d @ display_calls (to_show d (takeWhile (\<lambda>y. y \<noteq> x) (poc_order d) @ [x]))
    \<and> df_frms (dp_DispFifo d') = df_frms (dp_DispFifo d) @ to_show d (takeWhile (\<lambda>y. y \<noteq> x) (poc_order d) @ [x])
    \<and> poc_order d' = poc_order d
    \<and> (\<forall>y \<in> set (poc_order d). marked d' y = marked d y
        \<and> (outp d' y \<longleftrightarrow> outp d y \<and> y \<notin> set (takeWhile (\<lambda>y. y \<noteq> x) (poc_order d) @ [x])))"
proof -
  note ok = reach_ok [OF assms(1)]
  obtain xs ys where split: "poc_order d = xs @ x # ys" using assms(2) by (meson split_list)
  have "x \<notin> set xs" using dpb_ok_parts(2) [OF ok] split by auto
  then have tw: "takeWhile (\<lambda>y. y \<noteq> x) (poc_order d) = xs" unfolding split by (subst takeWhile_append2) auto
  obtain d' where d': "AL_Dpb_Display d x = Some d'" "dpb_ok d' (poc_order d) (lsb_order d) (dec_order d)"
    "displayed (poc_order d) (xs @ [x]) d d'"
    using AL_Dpb_Display_ok [OF ok split] by blast
  then show ?thesis unfolding tw using dpb_ok_orders(1) [OF d'(2)] by (auto simp: displayed_def)
qed

theorem dpb_display_order_witness:
  "\<exists>d'. AL_Dpb_Display demo_two 0 = Some d'
    \<and> dp_log d' = dp_log demo_two @ [IncrementFrmBuf 9, OutputFrmBuf 9, IncrementFrmBuf 7, OutputFrmBuf 7]"
  using dpb_display_order [OF demo_reach(2), of 0] demo_order(12) by (simp add: demo_order(1) del: to_show_simps) fastforce

text \<open>
  C15: a flush outputs every picture still to be output, in increasing picture order, and leaves the
  buffer empty.
\<close>

theorem dpb_flush_order:
  assumes "dpb_reach d"
  shows "\<exists>d'. sApiFlush d = Some d' \<and> poc_order d' = [] \<and> AL_Dpb_GetPicCount d' = 0 \<and> AL_Dpb_GetRefCount d' = 0
    \<and> dp_log d' = dp_log d @ display_calls (to_show d (poc_order d))
    \<and> sorted (map (\<lambda>x. nd_iFramePOC (nd d x)) (poc_order d))"
proof -
  note ok = reach_ok [OF assms]
  obtain d' where d': "sApiFlush d = Some d'" "dpb_ok d' [] [] []"
    "dp_log d' = dp_log d @ display_calls (to_show d (poc_order d))"
    using sApiFlush_ok [OF ok] by blast
  then show ?thesis
    using dpb_ok_orders(1) [OF d'(2)] dpb_ok_parts(5,6) [OF d'(2)] ok
    by (auto simp: AL_Dpb_GetPicCount_def AL_Dpb_GetRefCount_def dpb_ok_def ordered_def)
qed

theorem dpb_flush_order_witness:
  "\<exists>d'. sApiFlush demo_two = Some d' \<and> AL_Dpb_GetPicCount d' = 0
    \<and> dp_log d' = dp_log demo_two @ [IncrementFrmBuf 9, OutputFrmBuf 9, IncrementFrmBuf 7, OutputFrmBuf 7]"
  using dpb_flush_order [OF demo_reach(2)] demo_order(12) by (simp add: demo_order(1) del: to_show_simps) fastforce





section \<open>Insertion\<close>

text \<open>
  C16: a picture inserted while a node is free, that is unmarked and not to be output, takes that node and
  comes after the pictures of lower or equal order and before the others; a stale picture of the node
  is removed first, every other picture stays as it was, and exactly one reference is taken on each
  buffer. Without a free node the call changes nothing.
\<close>

theorem dpb_insert_order:
  assumes "dpb_reach d" "insert_args p f m" "insert_room d"
  shows "\<exists>d'. sApiInsert d f m p = Some d'
    \<and> (if AL_IS_VALID_INDEX (AL_Dpb_sGetNextFreeNode d)
       then inserted p f (poc_order d) d d' (poc_order d') \<and> dp_log d' = dp_log d @ insert_calls p f m
         \<and> sorted (map (\<lambda>x. nd_iFramePOC (nd d' x)) (poc_order d'))
       else d' = d)"
proof -
  obtain d' where d': "sApiInsert d f m p = Some d'"
    "if AL_IS_VALID_INDEX (AL_Dpb_sGetNextFreeNode d)
     then \<exists>P' L' D'. dpb_ok d' P' L' D' \<and> inserted p f (poc_order d) d d' P' \<and> dp_log d' = dp_log d @ insert_calls p f m
       \<and> df_frms (dp_DispFifo d') = df_frms (dp_DispFifo d)
     else d' = d"
    using sApiInsert_ok [OF reach_ok [OF assms(1)] assms(2,3)] by blast
  have "sorted (map (\<lambda>x. nd_iFramePOC (nd d' x)) P') \<and> poc_order d' = P'" if "dpb_ok d' P' L' D'" for P' L' D'
    using that dpb_ok_orders(1) [OF that] by (simp add: dpb_ok_def ordered_def)
  then show ?thesis using d' by (auto split: if_splits)
qed

theorem dpb_insert_order_witness:
  "\<exists>d'. sApiInsert demo_two 11 6 (demo_pic 3 SHORT_TERM_REF) = Some d'
    \<and> (if AL_IS_VALID_INDEX (AL_Dpb_sGetNextFreeNode demo_two)
       then dp_log d' = dp_log demo_two @ [IncrementFrmBuf 11, IncrementAnnexBuf 6] else d' = demo_two)"
proof -
  have "insert_args (demo_pic 3 SHORT_TERM_REF) 11 6" by code_simp
  moreover have "insert_calls (demo_pic 3 SHORT_TERM_REF) 11 6 = [IncrementFrmBuf 11, IncrementAnnexBuf 6]" by code_simp
  ultimately show ?thesis using dpb_insert_order [OF demo_reach(2) _ demo_order(13)] by (metis (no_types, lifting))
qed

section \<open>Picture identifiers\<close>

lemma pic_id_table:
  assumes ok: "dpb_ok d P L D" and i: "i < AL_MAX_REF"
  shows "dp_PicId2NodeId d ! i = (case find (\<lambda>x. nd_tPicID (nd d x) = int i) P of None \<Rightarrow> AL_BAD_INDEX | Some x \<Rightarrow> x)"
proof -
  have ids: "ids_ok d P" using ok by (simp add: dpb_ok_def data_ok_def)
  note dP = dpb_ok_parts(2) [OF ok]
  show ?thesis
  proof (cases "find (\<lambda>x. nd_tPicID (nd d x) = int i) P")
    case None
    have "int i \<in># mset (map int [0..<AL_MAX_REF])" using i by simp
    then have "int i \<in># mset (take (dp_FreePicIdCnt d) (dp_FreePicIDs d)) + mset (held_ids d P)"
      using ids by (simp only: ids_ok_def)
    moreover have "int i \<notin> set (held_ids d P)" using None by (auto simp: held_ids_def find_None_iff)
    ultimately have "int i \<in> set (take (dp_FreePicIdCnt d) (dp_FreePicIDs d))" by auto
    then have "dp_PicId2NodeId d ! nat (int i) = AL_BAD_INDEX" using ids by (simp only: ids_ok_def)
    then show ?thesis using None by simp
  next
    case (Some x)
    then have x: "x \<in> set P" "nd_tPicID (nd d x) = int i" by (auto simp: find_Some_iff)
    then have "0 \<le> nd_tPicID (nd d x)" by simp
    then have "dp_PicId2NodeId d ! nat (nd_tPicID (nd d x)) = x" using ids x(1) unfolding ids_ok_def by blast
    then show ?thesis using Some x by simp
  qed
qed

text \<open>
  C17: two pictures never share a valid identifier, an identifier leads back to its picture, and the free
  ones with those held are the 16 of the hardware. The table given to the hardware has for each
  identifier the frame and the motion vectors of the picture that holds it, or nothing.
\<close>

theorem dpb_picture_ids:
  assumes "dpb_reach d"
  shows "(\<forall>x \<in> set (poc_order d). \<forall>y \<in> set (poc_order d). 0 \<le> nd_tPicID (nd d x) \<and> nd_tPicID (nd d x) = nd_tPicID (nd d y) \<longrightarrow> x = y)
    \<and> (\<forall>x \<in> set (poc_order d). 0 \<le> nd_tPicID (nd d x) \<longrightarrow> AL_Dpb_ConvertPicIDToNodeID d (nd_tPicID (nd d x)) = Some x)
    \<and> mset (take (dp_FreePicIdCnt d) (dp_FreePicIDs d)) + mset (held_ids d (poc_order d)) = mset (map int [0..<AL_MAX_REF])
    \<and> sApiGetReflistIds d False c = Some (map (pic_entry d) [0..<AL_MAX_REF])"
proof (intro conjI ballI impI)
  note ok = reach_ok [OF assms]
  have ids: "ids_ok d (poc_order d)" using ok by (simp add: dpb_ok_def data_ok_def)
  note dP = dpb_ok_parts(2) [OF ok]
  show "x = y" if "x \<in> set (poc_order d)" "y \<in> set (poc_order d)" "0 \<le> nd_tPicID (nd d x) \<and> nd_tPicID (nd d x) = nd_tPicID (nd d y)" for x y
    using ids_unique [OF ids dP, of x y] that by blast
  show "AL_Dpb_ConvertPicIDToNodeID d (nd_tPicID (nd d x)) = Some x" if "x \<in> set (poc_order d)" "0 \<le> nd_tPicID (nd d x)" for x
    using ids ids_bound [OF ids that] that by (simp add: AL_Dpb_ConvertPicIDToNodeID_def ids_ok_def)
  show "mset (take (dp_FreePicIdCnt d) (dp_FreePicIDs d)) + mset (held_ids d (poc_order d)) = mset (map int [0..<AL_MAX_REF])"
    using ids by (simp add: ids_ok_def)
  have len: "length (dp_PicId2NodeId d) = AL_MAX_REF" using ids by (simp add: ids_ok_def)
  have entry: "reflist_entry d False c i = Some (pic_entry d i)" if i: "i < AL_MAX_REF" for i
  proof (cases "find (\<lambda>x. nd_tPicID (nd d x) = int i) (poc_order d)")
    case None
    then show ?thesis using pic_id_table [OF ok i] i len
      by (simp add: reflist_entry_def AL_Dpb_ConvertPicIDToNodeID_def pic_entry_def)
  next
    case (Some x)
    then have "in_range d x" using dpb_ok_parts(7) [OF ok] by (auto simp: find_Some_iff)
    then show ?thesis using pic_id_table [OF ok i] i len Some
      by (simp add: reflist_entry_def AL_Dpb_ConvertPicIDToNodeID_def pic_entry_def AL_Dpb_GetFrmID_FromNode_def
          AL_Dpb_GetMvID_FromNode_def in_range_def [of d x] node_Some)
  qed
  have "n \<le> AL_MAX_REF \<Longrightarrow>
      foldM (\<lambda>i es. do { e \<leftarrow> reflist_entry d False c i; Some (es @ [e]) }) [0..<n] [] = Some (map (pic_entry d) [0..<n])" for n
    by (induction n) (simp_all add: foldM_append entry)
  then show "sApiGetReflistIds d False c = Some (map (pic_entry d) [0..<AL_MAX_REF])" by (simp add: sApiGetReflistIds_def)
qed

theorem dpb_picture_ids_witness:
  "\<exists>l. sApiGetReflistIds demo_two False 0 = Some l \<and> l ! 15 = (7, 3, False) \<and> l ! 14 = (9, 5, False)
    \<and> l ! 0 = (AL_BAD_INDEX, AL_BAD_INDEX, False)"
  using dpb_picture_ids [OF demo_reach(2), of 0] demo_order(14-16) by (simp add: AL_MAX_REF_def)

section \<open>Searches\<close>

lemma searches_ok:
  assumes ok: "dpb_ok d P L D"
  shows "AL_Dpb_SearchPOC d poc = Some (hd_or (filter (\<lambda>x. nd_iFramePOC (nd d x) = poc \<and> marked d x \<and> \<not> absent d x) P) AL_BAD_INDEX)"
    "AL_Dpb_SearchPocLsb d lsb = Some (hd_or (filter (\<lambda>x. nd_slice_pic_order_cnt_lsb (nd d x) = lsb \<and> marked d x) L) AL_BAD_INDEX)"
    "Dpb_GetNodeFromFrmID d f = Some (hd_or (filter (\<lambda>x. nd_tFrameID (nd d x) = f) D) AL_BAD_INDEX)"
proof -
  have ls: "lists_ok d P L D" using ok by (simp add: dpb_ok_def)
  have p: "poc_list d P" and l: "lsb_list d L" using ls by (simp_all add: lists_ok_def)
  have len: "length P \<le> AL_REF_MNGR_MAX_BUF_SIZE" "length L \<le> AL_REF_MNGR_MAX_BUF_SIZE"
    using lists_lengths(1) [OF ls] dpb_ok_parts(3) [OF ok] by simp_all
  have hd: "hd_or (dropWhile (\<lambda>x. \<not> Q x) xs) AL_BAD_INDEX = hd_or (filter Q xs) AL_BAD_INDEX" for Q :: "index \<Rightarrow> bool" and xs
    by (induction xs) auto
  have sp: "AL_Dpb_SearchPOC d poc = Some (hd_or (dropWhile (\<lambda>x. \<not> (nd_iFramePOC (nd d x) = poc \<and> marked d x \<and> \<not> absent d x))
      P) AL_BAD_INDEX)"
    unfolding AL_Dpb_SearchPOC_def
    by (rule find_along_seg [where P = "\<lambda>x. nd_iFramePOC (nd d x) = poc \<and> marked d x \<and> \<not> absent d x"
        and nx = "fld nd_tNextPOCNodeID (dp_Nodes d)" and pv = "fld nd_tPrevPOCNodeID (dp_Nodes d)" and p = AL_BAD_INDEX, OF _ len(1)])
      (use p in \<open>auto simp: poc_list_def dll_def next_poc_def fld_nd marked_def absent_def\<close>)
  have sl: "AL_Dpb_SearchPocLsb d lsb = Some (hd_or (dropWhile (\<lambda>x. \<not> (nd_slice_pic_order_cnt_lsb (nd d x) = lsb \<and> marked d x))
      L) AL_BAD_INDEX)"
    unfolding AL_Dpb_SearchPocLsb_def
    by (rule find_along_seg [where P = "\<lambda>x. nd_slice_pic_order_cnt_lsb (nd d x) = lsb \<and> marked d x"
        and nx = "fld nd_tNextPocLsbNodeID (dp_Nodes d)" and pv = "fld nd_tPrevPocLsbNodeID (dp_Nodes d)" and p = AL_BAD_INDEX, OF _ len(2)])
      (use l in \<open>auto simp: lsb_list_def dll_def next_lsb_def fld_nd marked_def\<close>)
  show "AL_Dpb_SearchPOC d poc = Some (hd_or (filter (\<lambda>x. nd_iFramePOC (nd d x) = poc \<and> marked d x \<and> \<not> absent d x) P) AL_BAD_INDEX)"
    using sp unfolding hd .
  show "AL_Dpb_SearchPocLsb d lsb = Some (hd_or (filter (\<lambda>x. nd_slice_pic_order_cnt_lsb (nd d x) = lsb \<and> marked d x) L) AL_BAD_INDEX)"
    using sl unfolding hd .
  show "Dpb_GetNodeFromFrmID d f = Some (hd_or (filter (\<lambda>x. nd_tFrameID (nd d x) = f) D) AL_BAD_INDEX)"
    using Dpb_GetNodeFromFrmID_ok [OF ok, of f] unfolding hd .
qed

text \<open>
  The searches along the lists return the first picture of the list that is a reference with the given
  order (or low bits of it), and existing for the search by order, or the invalid index when there
  is none; the search by frame returns the first picture in decoding order with that frame.
\<close>

theorem dpb_searches:
  assumes "dpb_reach d"
  shows "AL_Dpb_SearchPOC d poc = Some (hd_or (filter (\<lambda>x. nd_iFramePOC (nd d x) = poc \<and> marked d x \<and> \<not> absent d x)
      (poc_order d)) AL_BAD_INDEX)
    \<and> AL_Dpb_SearchPocLsb d lsb = Some (hd_or (filter (\<lambda>x. nd_slice_pic_order_cnt_lsb (nd d x) = lsb \<and> marked d x)
      (lsb_order d)) AL_BAD_INDEX)
    \<and> Dpb_GetNodeFromFrmID d f = Some (hd_or (filter (\<lambda>x. nd_tFrameID (nd d x) = f) (dec_order d)) AL_BAD_INDEX)"
  using searches_ok [OF reach_ok [OF assms]] by blast

theorem dpb_searches_witness:
  "AL_Dpb_SearchPOC demo_two 4 = Some 0 \<and> AL_Dpb_SearchPOC demo_two 2 = Some AL_BAD_INDEX \<and> Dpb_GetNodeFromFrmID demo_two 9 = Some 1"
  using dpb_searches [OF demo_reach(2), of 4 4 9] dpb_searches [OF demo_reach(2), of 2 2 9] demo_order by simp

end
