(* ===== verification/Mark_Props.thy ===== *)
theory Mark_Props
  imports Dpb_Props
begin

text \<open>
  The properties of the AVC marking process (\<open>DPB.c\<close>): the bound on the references, the picture the sliding
  window takes, operations 1, 2, 4, 5 and 6, and what goes wrong when operation 3 moves the head of
  the decoding order.
\<close>

section \<open>A stream of two reference pictures\<close>

definition demo_sps :: AL_TAvcSps where
  "demo_sps = \<lparr>sps_log2_max_frame_num_minus4 = 0, sps_pic_order_cnt_type = 0, sps_log2_max_pic_order_cnt_lsb_minus4 = 0,
     sps_offset_for_non_ref_pic = 0, sps_offset_for_top_to_bottom_field = 0, sps_num_ref_frames_in_pic_order_cnt_cycle = 0,
     sps_offset_for_ref_frame = replicate 256 0, sps_max_num_ref_frames = 1, sps_gaps_in_frame_num_value_allowed_flag = 1\<rparr>"

definition demo_slice :: "int \<Rightarrow> nat \<Rightarrow> nat list \<Rightarrow> AL_TAvcSliceHdr" where
  "demo_slice n adaptive ops = \<lparr>sh_slice_type = 1, sh_field_pic_flag = 0, sh_frame_num = n, sh_pic_order_cnt_lsb = 0,
     sh_delta_pic_order_cnt_bottom = 0, sh_delta_pic_order_cnt = [0, 0], sh_nal_ref_idc = 1,
     sh_num_ref_idx_l0_active_minus1 = 0, sh_num_ref_idx_l1_active_minus1 = 0,
     sh_reordering_of_pic_nums_idc_l0 = replicate 17 3, sh_reordering_of_pic_nums_idc_l1 = replicate 17 3,
     sh_abs_diff_pic_num_minus1_l0 = replicate 17 0, sh_abs_diff_pic_num_minus1_l1 = replicate 17 0,
     sh_long_term_pic_num_l0 = replicate 17 0, sh_long_term_pic_num_l1 = replicate 17 0,
     sh_ref_pic_list_reordering_flag_l0 = 0, sh_ref_pic_list_reordering_flag_l1 = 0,
     sh_memory_management_control_operation = ops @ replicate (35 - length ops) 0,
     sh_difference_of_pic_nums_minus1 = replicate 32 0, sh_long_term_pic_num = replicate 32 0,
     sh_long_term_frame_idx = replicate 32 0, sh_max_long_term_frame_idx_plus1 = replicate 32 0,
     sh_long_term_reference_flag = 0, sh_adaptive_ref_pic_marking_mode_flag = adaptive, sh_nal_unit_type = 1,
     sh_pSPS = demo_sps\<rparr>"

text \<open>The first picture is marked with frame number 15, then a second reference is inserted.\<close>

definition demo_marked :: AL_TDpb where
  "demo_marked = the (AL_Dpb_MarkingProcess demo_one ((demo_slice 15 0 [])\<lparr>sh_nal_unit_type := 5\<rparr>))"

definition demo_refs :: AL_TDpb where "demo_refs = the (sApiInsert demo_marked 9 5 (demo_pic 2 SHORT_TERM_REF))"

lemma demo_cur: "dp_tCurRefNodeID demo_one = 0" "poc_order demo_one = [0]"
  by code_simp+

lemma demo_marked_reach: "dpb_reach demo_marked"
proof -
  let ?sl = "(demo_slice 15 0 [])\<lparr>sh_nal_unit_type := 5\<rparr>"
  have idr: "AL_AVC_IsIDR (sh_nal_unit_type ?sl)" by (simp add: AL_AVC_IsIDR_def AL_AVC_NUT_VCL_IDR_def)
  have "dp_tCurRefNodeID demo_one \<in> set (poc_order demo_one)" by (simp add: demo_cur)
  moreover from AL_Dpb_MarkingProcess_IDR [OF reach_ok [OF demo_reach(1)] this idr]
  have "AL_Dpb_MarkingProcess demo_one ?sl = Some demo_marked" by (auto simp: demo_marked_def)
  ultimately show ?thesis using idr by (blast intro: dpb_reach.step [OF demo_reach(1)] dpb_step.marking)
qed

lemma demo_refs_reach: "dpb_reach demo_refs"
proof -
  have a: "insert_args (demo_pic 2 SHORT_TERM_REF) 9 5" "insert_room demo_marked" by code_simp+
  have "sApiInsert demo_marked 9 5 (demo_pic 2 SHORT_TERM_REF) = Some demo_refs"
    using sApiInsert_ok [OF reach_ok [OF demo_marked_reach] a] by (auto simp: demo_refs_def)
  then show ?thesis by (rule dpb_reach.step [OF demo_marked_reach dpb_step.insert [OF a]])
qed

text \<open>The references of a reachable state, computed.\<close>

lemma refs_computed:
  assumes "dpb_reach d"
  shows "refs d = set (filter (marked d) (poc_order d))"
    "shorts d = set (filter (\<lambda>y. nd_eMarkingFlag (nd d y) = SHORT_TERM_REF) (poc_order d))"
    "longs d = set (filter (\<lambda>y. nd_eMarkingFlag (nd d y) = LONG_TERM_REF) (poc_order d))"
proof -
  note r = refs_listed [OF reach_ok [OF assms]] and in_r = dpb_ok_parts(7) [OF reach_ok [OF assms]]
  show "refs d = set (filter (marked d) (poc_order d))" using r(1) by auto
  have "shorts d \<subseteq> set (poc_order d)" "longs d \<subseteq> set (poc_order d)" using r by auto
  then show "shorts d = set (filter (\<lambda>y. nd_eMarkingFlag (nd d y) = SHORT_TERM_REF) (poc_order d))"
    "longs d = set (filter (\<lambda>y. nd_eMarkingFlag (nd d y) = LONG_TERM_REF) (poc_order d))"
    using in_r by (auto simp: shorts_def longs_def)
qed

definition mark_view :: "AL_TDpb \<Rightarrow> index list \<times> index list \<times> index \<times> (AL_EMarkingRef \<times> int \<times> bool \<times> index \<times> index) list \<times> nat" where
  "mark_view d = (poc_order d, dec_order d, dp_tCurRefNodeID d,
     map (\<lambda>y. (nd_eMarkingFlag (nd d y), nd_iSliceFrameNumber (nd d y), outp d y, nd_tFrameID (nd d y), nd_tPicID (nd d y))) [0, 1],
     dp_uNumRef d)"

lemma mark_view_refs: "mark_view demo_refs = ([1, 0], [0, 1], 1,
    [(SHORT_TERM_REF, 15, True, 7, 15), (SHORT_TERM_REF, 2147483647, True, 9, 14)], 1)"
  by code_simp

lemma demo_refs_view: "poc_order demo_refs = [1, 0]" "dec_order demo_refs = [0, 1]" "dp_tCurRefNodeID demo_refs = 1"
    "nd_eMarkingFlag (nd demo_refs 0) = SHORT_TERM_REF" "nd_eMarkingFlag (nd demo_refs 1) = SHORT_TERM_REF"
    "nd_iSliceFrameNumber (nd demo_refs 0) = 15" "dp_uNumRef demo_refs = 1" "outp demo_refs 0" "outp demo_refs 1"
    "nd_tFrameID (nd demo_refs 0) = 7" "nd_tFrameID (nd demo_refs 1) = 9"
  using mark_view_refs by (simp_all add: mark_view_def)

lemma demo_refs_sets: "refs demo_refs = {0, 1}" "shorts demo_refs = {0, 1}" "longs demo_refs = {}"
  using refs_computed [OF demo_refs_reach] demo_refs_view by (auto simp: marked_def)

lemma demo_slice_fields [simp]:
  "sh_nal_unit_type (demo_slice n a ops) = 1" "sh_frame_num (demo_slice n a ops) = n" "sh_field_pic_flag (demo_slice n a ops) = 0"
  "sh_memory_management_control_operation (demo_slice n a ops) = ops @ replicate (35 - length ops) 0"
  "sh_adaptive_ref_pic_marking_mode_flag (demo_slice n a ops) = a" "sh_pSPS (demo_slice n a ops) = demo_sps"
  "sh_long_term_frame_idx (demo_slice n a ops) = replicate 32 0"
  by (simp_all add: demo_slice_def)

lemma demo_limit: "ref_limit demo_refs (demo_slice n a ops) = 1"
  using demo_refs_view(7) by (simp add: ref_limit_def demo_sps_def UnsignedMin_def)

lemma demo_pre:
  assumes "set ops \<subseteq> {1, 2, 4, 5}" "length ops \<le> 32"
  shows "marking_pre demo_refs (demo_slice 0 a ops)"
proof -
  have m: "max_frame_num (demo_slice 0 a ops) = 16" by (simp add: max_frame_num_def demo_sps_def)
  have "slice_arrays (demo_slice 0 a ops)" using assms(2) by (simp add: slice_arrays_def) (simp add: demo_slice_def)
  moreover have "unmarking_ops (demo_slice 0 a ops)"
    using assms by (auto simp: unmarking_ops_def)
  moreover have "frame_nums demo_refs (demo_slice 0 a ops)"
    using demo_refs_view demo_refs_sets m by (auto simp: frame_nums_def demo_sps_def)
  ultimately show ?thesis
    unfolding marking_pre_def demo_limit demo_refs_sets by simp
qed

section \<open>The bound on the references\<close>

text \<open>
  C18: the marking process of a picture that is not an IDR picture, with the sliding window and any
  sequence of memory management operations 1, 2, 4 and 5, returns, keeps every invariant of the
  buffer, makes no picture a reference, and leaves at most as many references as the sequence
  parameter set and the buffer allow; the reference counter says how many.
\<close>

theorem marking_bounds_references:
  assumes "dpb_reach d" "dp_tCurRefNodeID d \<in> set (poc_order d)" "\<not> AL_AVC_IsIDR (sh_nal_unit_type sl)" "marking_pre d sl"
  shows "\<exists>d'. AL_Dpb_MarkingProcess d sl = Some d' \<and> dpb_inv d' \<and> refs d' \<subseteq> refs d
    \<and> card (refs d') \<le> UnsignedMin (dp_uNumRef d) (sps_max_num_ref_frames (sh_pSPS sl) * (1 + sh_field_pic_flag sl))
    \<and> AL_Dpb_GetRefCount d' = card (refs d')"
proof -
  obtain d' Q L D where "AL_Dpb_MarkingProcess d sl = Some d'" "dpb_ok d' Q L D" "refs d' \<subseteq> refs d"
    "card (refs d') \<le> ref_limit d sl"
    using AL_Dpb_MarkingProcess_ok [OF reach_ok [OF assms(1)] assms(2,3)] assms(4) unfolding marking_pre_def by blast
  then show ?thesis using refs_listed(4) dpb_okI by (auto simp: ref_limit_def AL_Dpb_GetRefCount_def)
qed

theorem marking_bounds_references_witness:
  "\<exists>d'. AL_Dpb_MarkingProcess demo_refs (demo_slice 0 1 [1, 4, 5]) = Some d' \<and> card (refs d') \<le> 1"
proof -
  have "\<not> AL_AVC_IsIDR (sh_nal_unit_type (demo_slice 0 1 [1, 4, 5]))"
    by (simp add: AL_AVC_IsIDR_def AL_AVC_NUT_VCL_IDR_def)
  from marking_bounds_references [OF demo_refs_reach _ this demo_pre] show ?thesis
    using demo_limit [of 0 1 "[1, 4, 5]"] demo_refs_view by (auto simp: ref_limit_def)
qed

text \<open>The frame number of 8.2.4.1 that wraps around the maximum.\<close>

definition FrameNumWrap :: "AL_TDpb \<Rightarrow> AL_TAvcSliceHdr \<Rightarrow> index \<Rightarrow> int" where
  "FrameNumWrap d sl y =
     (let f = (if y = dp_tCurRefNodeID d then sh_frame_num sl else nd_iSliceFrameNumber (nd d y)) in
      if f > sh_frame_num sl then f - max_frame_num sl else f)"

text \<open>
  C19: with the sliding window alone, the marking process changes no reference while there is room; when
  there are more references than the limit exactly one stops being a reference, a short-term
  picture with the smallest frame number modulo the wrap-around, that is the oldest one. It leaves
  the buffer if it never existed and stays to be displayed otherwise.
\<close>

theorem sliding_window_takes_oldest:
  assumes "dpb_reach d" "dp_tCurRefNodeID d \<in> set (poc_order d)" "\<not> AL_AVC_IsIDR (sh_nal_unit_type sl)" "marking_pre d sl"
    "sh_adaptive_ref_pic_marking_mode_flag sl = 0"
  shows "\<exists>d'. AL_Dpb_MarkingProcess d sl = Some d' \<and> dpb_inv d'
    \<and> (if card (shorts d) + card (longs d) \<le> ref_limit d sl then refs d' = refs d \<and> poc_order d' = poc_order d
       else \<exists>t \<in> shorts d. (\<forall>y \<in> shorts d. FrameNumWrap d sl t \<le> FrameNumWrap d sl y)
         \<and> refs d' = refs d - {t} \<and> set (poc_order d') = (if absent d t then set (poc_order d) - {t} else set (poc_order d)))"
proof -
  note ok = reach_ok [OF assms(1)]
  let ?P = "poc_order d" and ?c = "dp_tCurRefNodeID d"
  have fn: "frame_nums d sl" and sa: "slice_arrays sl" and ops: "unmarking_ops sl" and lim: "card (longs d) \<le> ref_limit d sl"
    using assms(4) by (simp_all add: marking_pre_def)
  obtain e z where z: "upd_node d ?c (\<lambda>n. n\<lparr>nd_iSliceFrameNumber := sh_frame_num sl, nd_tNodeID := ?c\<rparr>) = Some e"
    "AL_Dpb_PictNumberProcess e sl = Some z" "dpb_ok z ?P (lsb_order d) (dec_order d)"
    "refs z = refs d" "shorts z = shorts d" "longs z = longs d" "dp_uNumRef z = dp_uNumRef d" "dp_tCurRefNodeID z = ?c"
    and w: "\<forall>y \<in> shorts d. nd_iFrameNumberWrap (nd z y) < INT32_MAX
        \<and> nd_iFrameNumberWrap (nd z y) = (let f = (if y = ?c then sh_frame_num sl else nd_iSliceFrameNumber (nd d y))
            in if f > sh_frame_num sl then f - max_frame_num sl else f)"
    and cz: "\<forall>y \<in> set ?P. core (nd z y) = core (nd d y)"
    using marking_start [OF ok refl assms(2) fn] by blast
  have fw: "nd_iFrameNumberWrap (nd z y) = FrameNumWrap d sl y" "nd_iFrameNumberWrap (nd z y) < INT32_MAX" if "y \<in> shorts d" for y
    using w that by (auto simp: FrameNumWrap_def)
  have lz: "ref_limit z sl = ref_limit d sl" using z(7) by (simp add: ref_limit_def)
  have "ref_limit z sl < card (shorts z) + card (longs z) \<longrightarrow> shorts z \<noteq> {}" using lim z(5,6) lz by auto
  moreover have "\<forall>y \<in> shorts z. nd_iFrameNumberWrap (nd z y) < INT32_MAX" using fw z(5) by simp
  note sw = AL_Dpb_sSlidingWindowMarking_ok [OF z(3) calculation this]
  obtain b Q L D where b: "AL_Dpb_sSlidingWindowMarking z sl = Some b" "dpb_ok b Q L D" "dp_tCurRefNodeID b = ?c"
    "length (dp_Nodes b) = length (dp_Nodes z)"
    and eff: "if card (shorts z) + card (longs z) \<le> ref_limit z sl then b = z \<and> Q = ?P
       else \<exists>t \<in> shorts z. (\<forall>y \<in> shorts z. nd_iFrameNumberWrap (nd z t) \<le> nd_iFrameNumberWrap (nd z y))
         \<and> refs b = refs z - {t} \<and> set Q = (if absent z t then set ?P - {t} else set ?P)
         \<and> (\<forall>y \<in> refs b. nd_eMarkingFlag (nd b y) = nd_eMarkingFlag (nd z y))"
    using sw z(8) by metis
  have "in_range b ?c" using dpb_ok_parts(7) [OF z(3) assms(2)] b(4) by (simp add: in_range_def)
  moreover have "6 \<notin> set (take 32 (sh_memory_management_control_operation sl))"
    using ops in_set_takeD unfolding unmarking_ops_def by fastforce
  ultimately have "restore_short b sl = Some b" using b(3) sa by (simp add: restore_short_def slice_arrays_def)
  then have run: "AL_Dpb_MarkingProcess d sl = Some b"
    unfolding AL_Dpb_MarkingProcess_def using assms(3,5) z(1,2) b(1) by simp
  have Q: "poc_order b = Q" using dpb_ok_orders [OF b(2)] by simp
  have "if card (shorts d) + card (longs d) \<le> ref_limit d sl then refs b = refs d \<and> poc_order b = poc_order d
       else \<exists>t \<in> shorts d. (\<forall>y \<in> shorts d. FrameNumWrap d sl t \<le> FrameNumWrap d sl y)
         \<and> refs b = refs d - {t} \<and> set (poc_order b) = (if absent d t then set (poc_order d) - {t} else set (poc_order d))"
  proof (cases "card (shorts d) + card (longs d) \<le> ref_limit d sl")
    case True
    then show ?thesis using eff Q z(4-6) lz by simp
  next
    case False
    then obtain t where t: "t \<in> shorts d" "\<forall>y \<in> shorts d. nd_iFrameNumberWrap (nd z t) \<le> nd_iFrameNumberWrap (nd z y)"
      "refs b = refs d - {t}" "set Q = (if absent z t then set ?P - {t} else set ?P)"
      using eff unfolding lz z(4-6) by auto
    have "t \<in> set ?P" using t(1) refs_listed [OF ok] by auto
    then have "absent z t = absent d t" using core_fields(10) [of "nd z t" "nd d t"] cz by (simp add: absent_def)
    then have "\<forall>y \<in> shorts d. FrameNumWrap d sl t \<le> FrameNumWrap d sl y" "set Q = (if absent d t then set ?P - {t} else set ?P)"
      using t fw by simp_all
    then show ?thesis using False t(1,3) Q by auto
  qed
  then show ?thesis using run dpb_okI [OF b(2)] by blast
qed

theorem sliding_window_takes_oldest_witness:
  "\<exists>d'. AL_Dpb_MarkingProcess demo_refs (demo_slice 0 0 []) = Some d' \<and> refs d' = {1}"
proof -
  have i: "\<not> AL_AVC_IsIDR (sh_nal_unit_type (demo_slice 0 0 []))"
    by (simp add: AL_AVC_IsIDR_def AL_AVC_NUT_VCL_IDR_def)
  have wrap: "FrameNumWrap demo_refs (demo_slice 0 0 []) 0 = -1" "FrameNumWrap demo_refs (demo_slice 0 0 []) 1 = 0"
    using demo_refs_view by (simp_all add: FrameNumWrap_def max_frame_num_def demo_sps_def)
  have c: "\<not> card (shorts demo_refs) + card (longs demo_refs) \<le> ref_limit demo_refs (demo_slice 0 0 [])"
    by (simp add: demo_refs_sets demo_limit)
  have "dp_tCurRefNodeID demo_refs \<in> set (poc_order demo_refs)" using demo_refs_view by simp
  from sliding_window_takes_oldest [OF demo_refs_reach this i demo_pre]
  obtain d' where "AL_Dpb_MarkingProcess demo_refs (demo_slice 0 0 []) = Some d'"
    "\<exists>t \<in> {0, 1}. (\<forall>y \<in> {0, 1}. FrameNumWrap demo_refs (demo_slice 0 0 []) t \<le> FrameNumWrap demo_refs (demo_slice 0 0 []) y)
         \<and> refs d' = {0, 1} - {t}"
    unfolding if_not_P [OF c] unfolding demo_refs_sets by auto
  then show ?thesis using wrap by auto
qed

section \<open>The operations\<close>

text \<open>
  C20: operation 5 outputs every other picture of the buffer that is still to be output, in picture
  order and once, removes them all and leaves the current picture alone, with order and frame number
  0; a reference picture records that the operation was there.
\<close>

theorem mmco5_empties_in_order:
  assumes "dpb_reach d" "dp_tCurRefNodeID d \<in> set (poc_order d)"
  defines "c \<equiv> dp_tCurRefNodeID d"
  shows "\<exists>d' shown. AL_Dpb_sSetAllPicAsUnused d sl = Some d' \<and> dpb_inv d'
    \<and> poc_order d' = [c] \<and> lsb_order d' = [c] \<and> dec_order d' = [c]
    \<and> to_show d (poc_order d) = shown @ to_show d' [c] \<and> dp_log d' = dp_log d @ display_calls shown
    \<and> df_frms (dp_DispFifo d') = df_frms (dp_DispFifo d) @ shown
    \<and> nd_iFramePOC (nd d' c) = 0 \<and> nd_iSliceFrameNumber (nd d' c) = 0
    \<and> (sh_nal_ref_idc sl \<noteq> 0 \<longrightarrow> AL_Dpb_LastHasMMCO5 d')"
proof -
  obtain d' where d': "AL_Dpb_sSetAllPicAsUnused d sl = Some d'" "dpb_ok d' [c] [c] [c]" "drained (poc_order d) [c] d d'"
    "nd_iFramePOC (nd d' c) = 0" "nd_iSliceFrameNumber (nd d' c) = 0" "sh_nal_ref_idc sl \<noteq> 0 \<longrightarrow> dp_bLastHasMMCO5 d'"
    using AL_Dpb_sSetAllPicAsUnused_ok [OF reach_ok [OF assms(1)] refl assms(2), of sl] unfolding c_def by blast
  obtain S where "dp_log d' = dp_log d @ display_calls S" "df_frms (dp_DispFifo d') = df_frms (dp_DispFifo d) @ S"
    "to_show d (poc_order d) = S @ to_show d' [c]"
    using d'(3) unfolding drained_def by blast
  then show ?thesis using d'(1,4-6) dpb_ok_orders [OF d'(2)] dpb_okI [OF d'(2)]
    by (intro exI [of _ d'] exI [of _ S]) (simp add: AL_Dpb_LastHasMMCO5_def)
qed

theorem mmco5_empties_in_order_witness:
  "\<exists>d'. AL_Dpb_sSetAllPicAsUnused demo_refs (demo_slice 0 1 [5]) = Some d' \<and> poc_order d' = [1] \<and> AL_Dpb_LastHasMMCO5 d'"
  using mmco5_empties_in_order [OF demo_refs_reach, of "demo_slice 0 1 [5]"] demo_refs_view by (auto simp: demo_slice_def)



section \<open>Long-term references\<close>


text \<open>A second picture that is the long-term reference of index 1, then the first one that is of index 0.\<close>

definition demo_long_slice :: "int \<Rightarrow> AL_TAvcSliceHdr" where
  "demo_long_slice i = (demo_slice 0 1 [6])\<lparr>sh_long_term_frame_idx := replicate 32 i\<rparr>"

lemma demo_long_hyps:
  "1 \<in> set (dec_order demo_refs)" "hd (dec_order demo_refs) \<noteq> 1 \<or> dec_order demo_refs = [1]"
  "0 < length (sh_long_term_frame_idx (demo_long_slice 1))" "sh_long_term_frame_idx (demo_long_slice 1) ! 0 = 1"
  using demo_refs_view by (simp_all add: demo_long_slice_def)


section \<open>The head of the decoding order\<close>

lemma switch_head_loses:
  assumes ok: "dpb_ok d P L (x # ms @ t # vs)" and ms: "ms \<noteq> []"
    and t: "nd_eMarkingFlag (nd d t) = LONG_TERM_REF" "nd_iLongTermPicNum (nd d x) < nd_iLongTermPicNum (nd d t)"
    and none: "\<forall>y \<in> set ms. \<not> (nd_eMarkingFlag (nd d y) = LONG_TERM_REF \<and> nd_iLongTermPicNum (nd d x) < nd_iLongTermPicNum (nd d y))"
  shows "\<exists>d'. AL_Dpb_sSwitchLongTermPlace d x = Some d' \<and> dec_order d' = x # t # vs \<and> poc_order d' = P"
proof -
  let ?D = "x # ms @ t # vs"
  note dd = dpb_ok_dec [OF ok]
  let ?nx = "fld nd_tNextDecOrderNodeID (dp_Nodes d)" and ?pv = "fld nd_tPrevDecOrderNodeID (dp_Nodes d)"
  have dl: "dll ?nx ?pv (dp_tHeadDecOrderNodeID d) ?D" using dd(1) by (simp add: dec_list_def)
  have dl': "dll ?nx ?pv (dp_tHeadDecOrderNodeID d) ((x # ms) @ t # vs)" using dl by simp
  obtain m us where m: "ms = m # us" using ms by (cases ms) auto
  have at: "?nx x = m" "?pv x = AL_BAD_INDEX" "?nx t = hd_or vs AL_BAD_INDEX" "?pv t = last ms" "dp_tHeadDecOrderNodeID d = x"
    using dll_at(1,2) [of ?nx ?pv _ "[]" x "ms @ t # vs"] dll_at(1,2) [OF dl'] dl dll_head [OF dl] m ms
    by (auto simp: last_or_nonempty)
  have r: "in_range d y" if "y \<in> set ?D" for y by (rule dd(5) [OF that])
  have nn: "0 \<le> y" if "y \<in> set ?D" for y using r [OF that] by (simp add: in_range_def)
  have inD: "x \<in> set ?D" "t \<in> set ?D" "m \<in> set ?D" "last ms \<in> set ?D" using m by auto
  have neq: "x \<noteq> t" "x \<noteq> m" "t \<noteq> m" "x \<notin> set ms" "t \<notin> set ms" "x \<notin> set vs" "t \<notin> set vs" "last ms \<notin> set vs"
    "x \<noteq> last ms" "t \<noteq> last ms"
    using dd(2) m ms by (auto dest: last_in_set)
  let ?Q = "\<lambda>y. nd_eMarkingFlag (nd d y) = LONG_TERM_REF \<and> y \<noteq> x \<and> nd_iLongTermPicNum (nd d y) > nd_iLongTermPicNum (nd d x)"
  have "dropWhile (\<lambda>y. \<not> ?Q y) ?D = t # vs"
  proof -
    have "dropWhile (\<lambda>y. \<not> ?Q y) (ms @ t # vs) = dropWhile (\<lambda>y. \<not> ?Q y) (t # vs)"
      by (rule dropWhile_append2) (use none in auto)
    then show ?thesis using t neq(1) by simp
  qed
  then have f: "find_along AL_REF_MNGR_MAX_BUF_SIZE (next_dec d)
       (\<lambda>y. do { n \<leftarrow> node d y; Some (nd_eMarkingFlag n = LONG_TERM_REF \<and> y \<noteq> x
          \<and> nd_iLongTermPicNum n > nd_iLongTermPicNum (nd d x)) })
       (dp_tHeadDecOrderNodeID d) = Some t"
    using dec_find [OF ok, where test = "\<lambda>y. do { n \<leftarrow> node d y; Some (nd_eMarkingFlag n = LONG_TERM_REF \<and> y \<noteq> x
          \<and> nd_iLongTermPicNum n > nd_iLongTermPicNum (nd d x)) }" and Q = ?Q] r by simp
  have lk: "nd_tPrevDecOrderNodeID (nd d x) = AL_BAD_INDEX" "nd_tNextDecOrderNodeID (nd d x) = m"
    using at(1,2) r [OF inD(1)] by (simp_all add: fld_nd)
  let ?d1 = "set_nd d m (\<lambda>n. n\<lparr>nd_tPrevDecOrderNodeID := AL_BAD_INDEX\<rparr>)"
  have pt: "nd_tPrevDecOrderNodeID (nd ?d1 t) = last ms"
    using at(4) r [OF inD(2)] r [OF inD(3)] nn [OF inD(2)] neq(3) by (simp add: fld_nd)
  let ?d2 = "set_nd ?d1 (last ms) (\<lambda>n. n\<lparr>nd_tNextDecOrderNodeID := x\<rparr>)"
  let ?d3 = "set_nd ?d2 x (\<lambda>n. n\<lparr>nd_tPrevDecOrderNodeID := last ms\<rparr>)"
  let ?d4 = "set_nd ?d3 t (\<lambda>n. n\<lparr>nd_tPrevDecOrderNodeID := x\<rparr>)"
  let ?d' = "set_nd ?d4 x (\<lambda>n. n\<lparr>nd_tNextDecOrderNodeID := t\<rparr>)"
  have run: "AL_Dpb_sSwitchLongTermPlace d x = Some ?d'"
  proof -
    have h: "t \<noteq> dp_tHeadDecOrderNodeID ?d'" using at(5) neq(1) by simp
    have "switch_place d x AL_BAD_INDEX m t = Some ?d'"
      unfolding switch_place_def using r [OF inD(1)] r [OF inD(2)] r [OF inD(3)] r [OF inD(4)] nn [OF inD(3)] nn [OF inD(4)] pt h
      by (simp add: upd_valid_def Let_def)
    then show ?thesis
      unfolding AL_Dpb_sSwitchLongTermPlace_def node_Some [OF r [OF inD(1)]] bind.bind_lunit f lk using nn [OF inD(2)] by simp
  qed
  have nx: "fld nd_tNextDecOrderNodeID (dp_Nodes ?d') = (?nx(last ms := x))(x := t)"
  proof -
    have "fld nd_tNextDecOrderNodeID (dp_Nodes ?d') = (fld nd_tNextDecOrderNodeID (dp_Nodes ?d4))(x := t)"
      using r [OF inD(1)] by (subst fld_set_nd) simp_all
    moreover have "fld nd_tNextDecOrderNodeID (dp_Nodes ?d4) = fld nd_tNextDecOrderNodeID (dp_Nodes ?d2)"
      by (simp add: fld_set_nd_same)
    moreover have "fld nd_tNextDecOrderNodeID (dp_Nodes ?d2) = (fld nd_tNextDecOrderNodeID (dp_Nodes ?d1))(last ms := x)"
      using r [OF inD(4)] by (subst fld_set_nd) simp_all
    moreover have "fld nd_tNextDecOrderNodeID (dp_Nodes ?d1) = ?nx" by (rule fld_set_nd_same) simp
    ultimately show ?thesis by (simp only:)
  qed
  have segv: "seg ((?nx(last ms := x))(x := t)) (?pv(t := x)) AL_BAD_INDEX x (x # t # vs) AL_BAD_INDEX"
  proof -
    have "seg ?nx ?pv t (?nx t) vs AL_BAD_INDEX" using dl' by (auto simp: dll_def seg_append)
    then have "seg ((?nx(last ms := x))(x := t)) (?pv(t := x)) t (?nx t) vs AL_BAD_INDEX" using neq by simp
    then show ?thesis using at(2) neq nn [OF inD(1)] nn [OF inD(2)] by simp
  qed
  have hd: "dp_tHeadDecOrderNodeID ?d' = x" using at(5) by simp
  have rd: "in_range ?d' y = in_range d y" for y by simp
  have "dec_order ?d' = x # t # vs"
    unfolding dec_order_def hd
  proof (rule chain_seg [OF segv])
    show "length (x # t # vs) \<le> AL_REF_MNGR_MAX_BUF_SIZE" using dd(4) ms m by simp
    fix y assume "y \<in> set (x # t # vs)"
    then have "in_range ?d' y" using r rd by auto
    then show "next_dec ?d' y = Some (((?nx(last ms := x))(x := t)) y)"
      using fld_nd [of ?d' y nd_tNextDecOrderNodeID] nx by (simp add: next_dec_def)
  qed
  moreover have "poc_order ?d' = P"
  proof -
    have "same_poc d ?d'" unfolding same_poc_def by (simp add: fld_set_nd_same)
    moreover have "poc_list d P" using ok by (simp add: dpb_ok_def lists_ok_def)
    ultimately have "poc_list ?d' P" using same_poc_list by blast
    then show ?thesis
      using dpb_ok_parts(3) [OF ok] unfolding poc_order_def
      by (intro chain_seg [where nx = "fld nd_tNextPOCNodeID (dp_Nodes ?d')" and pv = "fld nd_tPrevPOCNodeID (dp_Nodes ?d')" and p = AL_BAD_INDEX])
        (auto simp: poc_list_def dll_def next_poc_def fld_nd)
  qed
  ultimately show ?thesis using run by blast
qed

text \<open>
  C23: \<open>AL_Dpb_sSwitchLongTermPlace\<close> on the head of the decoding order is wrong: when the first long-term
  reference of a larger number is not next to the head, the head index is not moved, every picture
  between the two drops out of the decoding order while it stays in the order of display, and the
  invariant of the buffer is broken.
\<close>

theorem switch_of_head_drops_pictures:
  assumes "dpb_reach d" "dec_order d = x # ms @ t # vs" "ms \<noteq> []" "nd_eMarkingFlag (nd d t) = LONG_TERM_REF"
    "nd_iLongTermPicNum (nd d x) < nd_iLongTermPicNum (nd d t)"
    "\<forall>y \<in> set ms. \<not> (nd_eMarkingFlag (nd d y) = LONG_TERM_REF \<and> nd_iLongTermPicNum (nd d x) < nd_iLongTermPicNum (nd d y))"
  shows "\<exists>d'. AL_Dpb_sSwitchLongTermPlace d x = Some d' \<and> dec_order d' = x # t # vs \<and> set ms \<subseteq> set (poc_order d')
    \<and> \<not> dpb_inv d'"
proof -
  note ok = reach_ok [OF assms(1)]
  obtain d' where d': "AL_Dpb_sSwitchLongTermPlace d x = Some d'" "dec_order d' = x # t # vs" "poc_order d' = poc_order d"
    using switch_head_loses [OF ok [unfolded assms(2)] assms(3-6)] by blast
  note dd = dpb_ok_dec [OF ok, unfolded assms(2)]
  have "set ms \<subseteq> set (poc_order d')" using d'(3) dd(3) by auto
  moreover have "\<not> dpb_inv d'"
  proof
    assume "dpb_inv d'"
    then have "set (poc_order d') = set (x # t # vs)" using dpb_ok_dec(3) d'(2) unfolding dpb_inv_def by metis
    moreover have "hd ms \<in> set ms" using assms(3) by simp
    then have "hd ms \<notin> set (x # t # vs)" using dd(2) by auto
    ultimately show False using \<open>set ms \<subseteq> set (poc_order d')\<close> \<open>hd ms \<in> set ms\<close> by blast
  qed
  ultimately show ?thesis using d'(1,2) by blast
qed

text \<open>A long-term reference of index 0, a short-term one, and a long-term reference of index 1.\<close>

definition demo_la :: AL_TDpb where "demo_la = the (AL_Dpb_sAssignLongTermFrameIdx demo_marked (demo_long_slice 0) 0)"
definition demo_lb :: AL_TDpb where "demo_lb = the (sApiInsert demo_la 9 5 (demo_pic 2 SHORT_TERM_REF))"
definition demo_lc :: AL_TDpb where "demo_lc = the (sApiInsert demo_lb 11 6 (demo_pic 6 SHORT_TERM_REF))"
definition demo_ld :: AL_TDpb where "demo_ld = the (AL_Dpb_sAssignLongTermFrameIdx demo_lc (demo_long_slice 1) 0)"

definition long_view :: "AL_TDpb \<Rightarrow> index list \<times> index \<times> (AL_EMarkingRef \<times> int) list \<times> bool" where
  "long_view d = (dec_order d, dp_tCurRefNodeID d, map (\<lambda>y. (nd_eMarkingFlag (nd d y), nd_iLongTermPicNum (nd d y))) (dec_order d),
     insert_room d)"

lemma demo_long_views:
  "long_view demo_marked = ([0], 0, [(SHORT_TERM_REF, 2147483647)], True)"
  "long_view demo_la = ([0], 0, [(LONG_TERM_REF, 0)], True)"
  "long_view demo_lb = ([0, 1], 1, [(LONG_TERM_REF, 0), (SHORT_TERM_REF, 2147483647)], True)"
  "long_view demo_lc = ([0, 1, 2], 2, [(LONG_TERM_REF, 0), (SHORT_TERM_REF, 2147483647), (SHORT_TERM_REF, 2147483647)], True)"
  "long_view demo_ld = ([0, 1, 2], 2, [(LONG_TERM_REF, 0), (SHORT_TERM_REF, 2147483647), (LONG_TERM_REF, 1)], True)"
  by code_simp+

lemma demo_long_step:
  assumes "dpb_reach d" "AL_Dpb_sAssignLongTermFrameIdx d sl 0 \<noteq> None" "dp_tCurRefNodeID d \<in> set (dec_order d)"
    "hd (dec_order d) \<noteq> dp_tCurRefNodeID d \<or> dec_order d = [dp_tCurRefNodeID d]"
    "nd_eMarkingFlag (nd d (dp_tCurRefNodeID d)) = SHORT_TERM_REF" "0 < length (sh_long_term_frame_idx sl)"
  shows "dpb_reach (the (AL_Dpb_sAssignLongTermFrameIdx d sl 0))"
  using assms by (intro dpb_reach.step [OF assms(1)] dpb_step.long_term [OF assms(3-6)]) auto

lemma demo_assign_returns:
  assumes "dpb_reach d" "dp_tCurRefNodeID d \<in> set (dec_order d)"
    "hd (dec_order d) \<noteq> dp_tCurRefNodeID d \<or> dec_order d = [dp_tCurRefNodeID d]"
    "nd_eMarkingFlag (nd d (dp_tCurRefNodeID d)) = SHORT_TERM_REF" "0 < length (sh_long_term_frame_idx sl)"
  shows "AL_Dpb_sAssignLongTermFrameIdx d sl 0 \<noteq> None"
  using AL_Dpb_sAssignLongTermFrameIdx_ok [OF reach_ok [OF assms(1)] refl assms(2-5)] by auto

lemma demo_ld_reach: "dpb_reach demo_ld"
proof -
  have la: "dpb_reach demo_la" unfolding demo_la_def
    using demo_long_views(1) by (intro demo_long_step demo_assign_returns demo_marked_reach) (auto simp: long_view_def demo_long_slice_def)
  have ab: "insert_args (demo_pic 2 SHORT_TERM_REF) 9 5" "insert_args (demo_pic 6 SHORT_TERM_REF) 11 6" by code_simp+
  have ra: "insert_room demo_la" "insert_room demo_lb" using demo_long_views by (simp_all add: long_view_def)
  have "sApiInsert demo_la 9 5 (demo_pic 2 SHORT_TERM_REF) = Some demo_lb"
    using sApiInsert_ok [OF reach_ok [OF la] ab(1) ra(1)] by (auto simp: demo_lb_def)
  then have lb: "dpb_reach demo_lb" by (rule dpb_reach.step [OF la dpb_step.insert [OF ab(1) ra(1)]])
  have "sApiInsert demo_lb 11 6 (demo_pic 6 SHORT_TERM_REF) = Some demo_lc"
    using sApiInsert_ok [OF reach_ok [OF lb] ab(2) ra(2)] by (auto simp: demo_lc_def)
  then have lc: "dpb_reach demo_lc" by (rule dpb_reach.step [OF lb dpb_step.insert [OF ab(2) ra(2)]])
  show ?thesis unfolding demo_ld_def
    using demo_long_views(4) by (intro demo_long_step demo_assign_returns lc) (auto simp: long_view_def demo_long_slice_def)
qed

theorem switch_of_head_drops_pictures_witness:
  "\<exists>d'. AL_Dpb_sSwitchLongTermPlace demo_ld 0 = Some d' \<and> dec_order d' = [0, 2] \<and> 1 \<in> set (poc_order d')"
proof -
  have "dec_order demo_ld = 0 # [1] @ 2 # []" "nd_eMarkingFlag (nd demo_ld 2) = LONG_TERM_REF"
    "nd_iLongTermPicNum (nd demo_ld 0) < nd_iLongTermPicNum (nd demo_ld 2)" "nd_eMarkingFlag (nd demo_ld 1) = SHORT_TERM_REF"
    using demo_long_views(5) by (auto simp: long_view_def)
  then show ?thesis using switch_of_head_drops_pictures [OF demo_ld_reach, of 0 "[1]" 2 "[]"] by auto
qed

end
