(* ===== verification/Dpb_RefList.thy ===== *)
theory Dpb_RefList
  imports Dpb_MarkOk
begin

text \<open>
  The reference picture lists of an AVC slice, \<open>lib_parsing/DPB.c\<close>: their initialisation for P and B
  slices, \<open>AL_Dpb_InitPSlice_RefList\<close> and \<open>AL_Dpb_InitBSlice_RefList\<close>, and the two modification
  operations \<open>AL_Dpb_ModifShortTerm\<close> and \<open>AL_Dpb_ModifLongTerm\<close>. The lemmas give the lists in closed
  form from the decoding order and the POC order of the buffer.

  A list is an array of \<open>AL_MAX_REF + 1\<close> node indices. Of the nodes the functions copy into local
  arrays only \<open>tNodeID\<close> is read again, so those arrays hold indices; memory that is set to zero holds 0.
\<close>

section \<open>The operations\<close>

definition REF_LIST_LEN :: nat where "REF_LIST_LEN = AL_MAX_REF + 1"

definition zero_refs :: "index list" where "zero_refs = replicate AL_MAX_REF 0"

text \<open>\<open>while(iPic < iEnd) pDst[iPic++] = pSrc[iRef++];\<close>\<close>

function copy_refs :: "index list \<Rightarrow> int \<Rightarrow> int \<Rightarrow> int \<Rightarrow> index list \<Rightarrow> index list option" where
  "copy_refs src iRef iPic iEnd dst =
     (if iPic < iEnd then do {
        x \<leftarrow> arr_get src iRef;
        dst \<leftarrow> arr_set dst iPic x;
        copy_refs src (iRef + 1) (iPic + 1) iEnd dst }
      else Some dst)"
  by pat_completeness auto
termination by (relation "measure (\<lambda>(src, iRef, iPic, iEnd, dst). nat (iEnd - iPic))") auto

declare copy_refs.simps [simp del]

text \<open>The first loop of the P slices: short-term references from the end of their array downwards.\<close>

definition split_p :: "AL_TDpb \<Rightarrow> index \<Rightarrow> index list \<times> int \<times> index list \<times> int \<Rightarrow> (index list \<times> int \<times> index list \<times> int) option" where
  "split_p d t = (\<lambda>(short, iCnt_short, long, iCnt_long). do {
     n \<leftarrow> node d t;
     if nd_eMarkingFlag n \<noteq> UNUSED_FOR_REF then
       if nd_eMarkingFlag n = SHORT_TERM_REF then do {
         short \<leftarrow> arr_set short iCnt_short (nd_tNodeID n);
         Some (short, iCnt_short - 1, long, iCnt_long) }
       else do {
         long \<leftarrow> arr_set long iCnt_long (nd_tNodeID n);
         Some (short, iCnt_short, long, iCnt_long + 1) }
     else Some (short, iCnt_short, long, iCnt_long) })"

definition AL_Dpb_InitPSlice_RefList :: "AL_TDpb \<Rightarrow> index list \<Rightarrow> index list option" where
  "AL_Dpb_InitPSlice_RefList d pRefList = do {
     (short, iCnt_short, long, iCnt_long) \<leftarrow> walk AL_REF_MNGR_MAX_BUF_SIZE (\<lambda>_. next_dec d) (split_p d)
       (dp_tHeadDecOrderNodeID d) (zero_refs, int AL_MAX_REF - 1, zero_refs, 0);
     let iRef = iCnt_short + 1;
     let iCnt_short = int AL_MAX_REF - iRef;
     pRefList \<leftarrow> copy_refs short iRef 0 iCnt_short pRefList;
     copy_refs long 0 iCnt_short (iCnt_short + iCnt_long) pRefList }"

text \<open>The two loops of the B slices: short-term references around the current POC, then long-term ones.\<close>

definition split_b :: "AL_TDpb \<Rightarrow> int \<Rightarrow> index \<Rightarrow> index list \<times> int \<times> index list \<times> int \<Rightarrow> (index list \<times> int \<times> index list \<times> int) option" where
  "split_b d iCurFramePOC t = (\<lambda>(less, iCnt_less, great, iCnt_great). do {
     n \<leftarrow> node d t;
     if nd_eMarkingFlag n = SHORT_TERM_REF then
       if nd_iFramePOC n < iCurFramePOC then do {
         less \<leftarrow> arr_set less iCnt_less (nd_tNodeID n);
         Some (less, iCnt_less - 1, great, iCnt_great) }
       else do {
         great \<leftarrow> arr_set great iCnt_great (nd_tNodeID n);
         Some (less, iCnt_less, great, iCnt_great + 1) }
     else Some (less, iCnt_less, great, iCnt_great) })"

definition split_long :: "AL_TDpb \<Rightarrow> index \<Rightarrow> index list \<times> int \<Rightarrow> (index list \<times> int) option" where
  "split_long d t = (\<lambda>(long, iCnt_long). do {
     n \<leftarrow> node d t;
     if nd_eMarkingFlag n = LONG_TERM_REF then do {
       long \<leftarrow> arr_set long iCnt_long (nd_tNodeID n);
       Some (long, iCnt_long + 1) }
     else Some (long, iCnt_long) })"

text \<open>
  The end of the function: when the lists have more than one entry and are the same, the first two of
  list 1 change places. The node of the first is looked up under the low six bits of its index.
\<close>

definition swap_first :: "AL_TDpb \<Rightarrow> int \<Rightarrow> index list \<Rightarrow> index list \<Rightarrow> index list option" where
  "swap_first d iNum l0 l1 =
     (if \<not> iNum > 1 then Some l1
      else if take (nat iNum) l1 \<noteq> take (nat iNum) l0 then Some l1
      else do {
        a \<leftarrow> arr_get l1 0;
        NodeTemp \<leftarrow> node d (a mod 64);
        b \<leftarrow> arr_get l1 1;
        l1 \<leftarrow> arr_set l1 0 b;
        arr_set l1 1 (nd_tNodeID NodeTemp) })"

definition AL_Dpb_InitBSlice_RefList :: "AL_TDpb \<Rightarrow> int \<Rightarrow> index list \<times> index list \<Rightarrow> (index list \<times> index list) option" where
  "AL_Dpb_InitBSlice_RefList d iCurFramePOC = (\<lambda>(list0, list1). do {
     (less, iCnt_short_less, great, iCnt_short_great) \<leftarrow> walk AL_REF_MNGR_MAX_BUF_SIZE (\<lambda>_. next_poc d)
       (split_b d iCurFramePOC) (dp_tHeadPOCNodeID d) (zero_refs, int AL_MAX_REF - 1, zero_refs, 0);
     (long, iCnt_long) \<leftarrow> walk AL_REF_MNGR_MAX_BUF_SIZE (\<lambda>_. next_dec d) (split_long d)
       (dp_tHeadDecOrderNodeID d) (zero_refs, 0);
     let iRef = iCnt_short_less + 1;
     let iCnt_short_less = int AL_MAX_REF - iRef;
     let iCnt_short = iCnt_short_less + iCnt_short_great;
     poc_l0 \<leftarrow> copy_refs less iRef 0 iCnt_short_less zero_refs;
     poc_l0 \<leftarrow> copy_refs great 0 iCnt_short_less iCnt_short poc_l0;
     poc_l1 \<leftarrow> copy_refs great 0 0 iCnt_short_great zero_refs;
     poc_l1 \<leftarrow> copy_refs less (int AL_MAX_REF - iCnt_short_less) iCnt_short_great iCnt_short poc_l1;
     list0 \<leftarrow> copy_refs poc_l0 0 0 iCnt_short list0;
     list0 \<leftarrow> copy_refs long 0 iCnt_short (iCnt_short + iCnt_long) list0;
     list1 \<leftarrow> copy_refs poc_l1 0 0 iCnt_short list1;
     list1 \<leftarrow> copy_refs long 0 iCnt_short (iCnt_short + iCnt_long) list1;
     list1 \<leftarrow> swap_first d (iCnt_short + iCnt_long) list0 list1;
     Some (list0, list1) })"

text \<open>
  The modification operations: the entries from \<open>uIdx\<close> on move up by one, the picture is put at
  \<open>uIdx\<close>, and its other occurrence among the first \<open>uNumRef + 1\<close> entries is squeezed out.
\<close>

text \<open>\<open>for(u = uNumRef; u > uIdx; --u) list[u] = list[u - 1];\<close>\<close>

fun shift_up :: "nat \<Rightarrow> nat \<Rightarrow> index list \<Rightarrow> index list option" where
  "shift_up uIdx 0 l = Some l"
| "shift_up uIdx (Suc u) l =
     (if Suc u > uIdx then do {
        x \<leftarrow> arr_get l (int u);
        l \<leftarrow> arr_set l (int (Suc u)) x;
        shift_up uIdx u l }
      else Some l)"

text \<open>\<open>for(t = uIdx; t <= uNumRef; ++t) if(keep(list[t])) list[unIdx++] = list[t];\<close>\<close>

fun squeeze :: "(index \<Rightarrow> bool option) \<Rightarrow> nat list \<Rightarrow> nat \<Rightarrow> index list \<Rightarrow> index list option" where
  "squeeze keep [] unIdx l = Some l"
| "squeeze keep (t # ts) unIdx l = do {
     x \<leftarrow> arr_get l (int t);
     k \<leftarrow> keep x;
     if k then do { l \<leftarrow> arr_set l (int unIdx) x; squeeze keep ts (unIdx + 1) l }
     else squeeze keep ts unIdx l }"

definition num_ref_idx :: "AL_TAvcSliceHdr \<Rightarrow> nat \<Rightarrow> nat" where
  "num_ref_idx sl iL0L1 = nat ((if iL0L1 \<noteq> 0 then sh_num_ref_idx_l1_active_minus1 sl + 1
     else sh_num_ref_idx_l0_active_minus1 sl + 1) mod 256)"

text \<open>The picture number predicted from the previous one, and the picture number it stands for.\<close>

definition pic_num_no_wrap :: "AL_TAvcSliceHdr \<Rightarrow> nat \<Rightarrow> int \<Rightarrow> int \<Rightarrow> int" where
  "pic_num_no_wrap sl iPicNumIdc iDiffPicNum iPicNumPred =
     (let iMaxFrameNum = max_frame_num sl * (1 + int (sh_field_pic_flag sl)) in
      if iPicNumIdc = 0 then
        let p = to_int32 (iPicNumPred - iDiffPicNum) in if p < 0 then to_int32 (p + iMaxFrameNum) else p
      else
        let p = to_int32 (iPicNumPred + iDiffPicNum) in if p \<ge> iMaxFrameNum then to_int32 (p - iMaxFrameNum) else p)"

definition cur_pic_num :: "AL_TAvcSliceHdr \<Rightarrow> int" where
  "cur_pic_num sl = to_int32 (sh_frame_num sl * (1 + int (sh_field_pic_flag sl)) + int (sh_field_pic_flag sl))"

definition modif_pic_num :: "AL_TAvcSliceHdr \<Rightarrow> int \<Rightarrow> int" where
  "modif_pic_num sl iPicNumNoWrap =
     (if iPicNumNoWrap > cur_pic_num sl then to_int32 (iPicNumNoWrap - max_frame_num sl * (1 + int (sh_field_pic_flag sl)))
      else iPicNumNoWrap)"

text \<open>What both operations do with the list once they know which picture they look for.\<close>

definition modif_list :: "AL_TDpb \<Rightarrow> (AL_TDpbNode \<Rightarrow> bool) \<Rightarrow> (index \<Rightarrow> bool option) \<Rightarrow> nat \<Rightarrow> nat \<Rightarrow> index list \<Rightarrow> (nat \<times> index list) option" where
  "modif_list d is_pic keep uNumRef tRefIdx l = do {
     l \<leftarrow> shift_up tRefIdx uNumRef l;
     t \<leftarrow> find_along AL_REF_MNGR_MAX_BUF_SIZE (next_dec d) (\<lambda>t. map_option is_pic (node d t)) (dp_tHeadDecOrderNodeID d);
     if AL_IS_VALID_INDEX t then do {
       n \<leftarrow> node d t;
       l \<leftarrow> arr_set l (int tRefIdx) (nd_tNodeID n);
       l \<leftarrow> squeeze keep [tRefIdx + 1..<uNumRef + 1] (tRefIdx + 1) l;
       Some (tRefIdx + 1, l) }
     else Some (tRefIdx, l) }"

definition AL_Dpb_ModifShortTerm :: "AL_TDpb \<Rightarrow> AL_TAvcSliceHdr \<Rightarrow> nat \<Rightarrow> nat \<Rightarrow> nat \<Rightarrow> nat \<times> int \<times> index list \<Rightarrow> (nat \<times> int \<times> index list) option" where
  "AL_Dpb_ModifShortTerm d sl iPicNumIdc uOffset iL0L1 = (\<lambda>(tRefIdx, iPicNumPred, l). do {
     diff \<leftarrow> arr_get (if iL0L1 \<noteq> 0 then sh_abs_diff_pic_num_minus1_l1 sl else sh_abs_diff_pic_num_minus1_l0 sl) (int uOffset);
     let iPicNumNoWrap = pic_num_no_wrap sl iPicNumIdc (to_int32 (diff + 1)) iPicNumPred;
     let iPicNum = modif_pic_num sl iPicNumNoWrap;
     (tRefIdx, l) \<leftarrow> modif_list d (\<lambda>n. nd_iPicNum n = iPicNum \<and> nd_eMarkingFlag n = SHORT_TERM_REF)
       (\<lambda>x. map_option (\<lambda>p. p \<noteq> iPicNum) (AL_Dpb_sPicNumF d sl x)) (num_ref_idx sl iL0L1) tRefIdx l;
     Some (tRefIdx, iPicNumNoWrap, l) })"

definition AL_Dpb_ModifLongTerm :: "AL_TDpb \<Rightarrow> AL_TAvcSliceHdr \<Rightarrow> nat \<Rightarrow> nat \<Rightarrow> nat \<times> index list \<Rightarrow> (nat \<times> index list) option" where
  "AL_Dpb_ModifLongTerm d sl uOffset iL0L1 = (\<lambda>(tRefIdx, l). do {
     iLongTermPicNum \<leftarrow> arr_get (if iL0L1 \<noteq> 0 then sh_long_term_pic_num_l1 sl else sh_long_term_pic_num_l0 sl) (int uOffset);
     modif_list d (\<lambda>n. nd_iLongTermFrameIdx n = iLongTermPicNum \<and> nd_eMarkingFlag n = LONG_TERM_REF)
       (\<lambda>x. map_option (\<lambda>p. p \<noteq> iLongTermPicNum) (AL_Dpb_sLongTermPicNumF d x)) (num_ref_idx sl iL0L1) tRefIdx l })"

text \<open>\<open>AL_Dpb_HasExistingRef\<close>: a list is read up to its first index that is not valid.\<close>

fun has_existing :: "AL_TDpb \<Rightarrow> index list \<Rightarrow> bool option" where
  "has_existing d [] = None"
| "has_existing d (t # ts) =
     (if AL_IS_VALID_INDEX t then do { n \<leftarrow> node d t; if \<not> nd_bNonExisting n then Some True else has_existing d ts }
      else Some False)"

definition AL_Dpb_HasExistingRef :: "AL_TDpb \<Rightarrow> index list \<times> index list \<Rightarrow> bool option" where
  "AL_Dpb_HasExistingRef d = (\<lambda>(l0, l1). do { b \<leftarrow> has_existing d l0; if b then Some True else has_existing d l1 })"

section \<open>Filling the local arrays\<close>

text \<open>An array filled from its start, and one filled from its end downwards.\<close>

definition upwards :: "index list \<Rightarrow> index list" where
  "upwards xs = xs @ replicate (AL_MAX_REF - length xs) 0"

definition downwards :: "index list \<Rightarrow> index list" where
  "downwards xs = replicate (AL_MAX_REF - length xs) 0 @ rev xs"

lemma fill_empty: "upwards [] = zero_refs" "downwards [] = zero_refs"
  by (simp_all add: upwards_def downwards_def zero_refs_def)

lemma fill_up:
  assumes "length xs < AL_MAX_REF"
  shows "arr_set (upwards xs) (int (length xs)) x = Some (upwards (xs @ [x]))"
proof -
  obtain k where k: "AL_MAX_REF - length xs = Suc k" "AL_MAX_REF - length (xs @ [x]) = k" using assms by (cases "AL_MAX_REF - length xs") auto
  show ?thesis using k by (simp add: arr_set_def upwards_def)
qed

lemma fill_down:
  assumes "length xs < AL_MAX_REF"
  shows "arr_set (downwards xs) (int AL_MAX_REF - 1 - int (length xs)) x = Some (downwards (xs @ [x]))"
proof -
  obtain k where k: "AL_MAX_REF - length xs = Suc k" "AL_MAX_REF - length (xs @ [x]) = k" using assms by (cases "AL_MAX_REF - length xs") auto
  have e: "int AL_MAX_REF - 1 - int (length xs) = int k" using k(1) by linarith
  have r: "replicate (Suc k) (0 :: index) = replicate k 0 @ [0]" by (simp add: replicate_append_same)
  have "downwards xs = replicate k 0 @ 0 # rev xs" unfolding downwards_def k(1) r by simp
  moreover have "downwards (xs @ [x]) = replicate k 0 @ x # rev xs" unfolding downwards_def k(2) by simp
  moreover have "(replicate k 0 @ 0 # rev xs)[k := x] = replicate k 0 @ x # rev xs" by (simp add: list_update_append)
  ultimately show ?thesis unfolding e by (simp add: arr_set_def)
qed

lemma copy_refs_ok:
  assumes "0 \<le> iRef" "0 \<le> iPic" "nat iRef + nat (iEnd - iPic) \<le> length src" "nat iPic + nat (iEnd - iPic) \<le> length dst"
  shows "copy_refs src iRef iPic iEnd dst
    = Some (take (nat iPic) dst @ take (nat (iEnd - iPic)) (drop (nat iRef) src) @ drop (nat iPic + nat (iEnd - iPic)) dst)"
  using assms
proof (induction src iRef iPic iEnd dst rule: copy_refs.induct)
  case (1 src iRef iPic iEnd dst)
  show ?case
  proof (cases "iPic < iEnd")
    case True
    let ?n = "nat (iEnd - (iPic + 1))" and ?x = "src ! nat iRef"
    have n: "nat (iEnd - iPic) = Suc ?n" using True by simp
    have b: "nat iRef < length src" "nat iPic < length dst" using 1(4,5) n by simp_all
    have e: "nat (iRef + 1) = Suc (nat iRef)" "nat (iPic + 1) = Suc (nat iPic)" using 1(2,3) by simp_all
    have ih: "copy_refs src (iRef + 1) (iPic + 1) iEnd (dst[nat iPic := ?x])
       = Some (take (nat (iPic + 1)) (dst[nat iPic := ?x]) @ take ?n (drop (nat (iRef + 1)) src)
           @ drop (nat (iPic + 1) + ?n) (dst[nat iPic := ?x]))"
      by (rule 1(1)) (use True 1(2-5) b in \<open>simp_all add: arr_get_eq_Some_iff arr_set_eq_Some_iff\<close>)
    have s1: "take (Suc (nat iPic)) (dst[nat iPic := ?x]) = take (nat iPic) dst @ [?x]"
      using b(2) by (simp add: take_Suc_conv_app_nth)
    have s2: "take (Suc ?n) (drop (nat iRef) src) = ?x # take ?n (drop (Suc (nat iRef)) src)"
      using b(1) by (simp add: take_Suc_Cons flip: Cons_nth_drop_Suc)
    have "copy_refs src iRef iPic iEnd dst = copy_refs src (iRef + 1) (iPic + 1) iEnd (dst[nat iPic := ?x])"
      by (subst copy_refs.simps) (simp add: True b 1(2,3))
    also note ih
    finally show ?thesis unfolding n e s1 s2 by simp
  qed (subst copy_refs.simps, simp)
qed

lemma copy_up:
  assumes "length xs \<le> AL_MAX_REF" "iEnd = iPic + int (length xs)" "0 \<le> iPic" "nat iPic + length xs \<le> length dst"
  shows "copy_refs (upwards xs) 0 iPic iEnd dst = Some (take (nat iPic) dst @ xs @ drop (nat iPic + length xs) dst)"
  using assms by (subst copy_refs_ok) (simp_all add: upwards_def)

lemma copy_down:
  assumes "length xs \<le> AL_MAX_REF" "iRef = int AL_MAX_REF - int (length xs)" "iEnd = iPic + int (length xs)" "0 \<le> iPic"
    "nat iPic + length xs \<le> length dst"
  shows "copy_refs (downwards xs) iRef iPic iEnd dst = Some (take (nat iPic) dst @ rev xs @ drop (nat iPic + length xs) dst)"
proof -
  have "nat iRef = AL_MAX_REF - length xs" using assms(1,2) by linarith
  then show ?thesis using assms by (subst copy_refs_ok) (simp_all add: downwards_def)
qed

section \<open>The pictures of a kind, in a given order\<close>

definition is_short :: "AL_TDpb \<Rightarrow> index \<Rightarrow> bool" where "is_short d x \<longleftrightarrow> nd_eMarkingFlag (nd d x) = SHORT_TERM_REF"
definition is_long :: "AL_TDpb \<Rightarrow> index \<Rightarrow> bool" where "is_long d x \<longleftrightarrow> nd_eMarkingFlag (nd d x) = LONG_TERM_REF"

definition p_long :: "AL_TDpb \<Rightarrow> index \<Rightarrow> bool" where "p_long d x \<longleftrightarrow> marked d x \<and> \<not> is_short d x"
definition before :: "AL_TDpb \<Rightarrow> int \<Rightarrow> index \<Rightarrow> bool" where "before d poc x \<longleftrightarrow> is_short d x \<and> nd_iFramePOC (nd d x) < poc"
definition behind :: "AL_TDpb \<Rightarrow> int \<Rightarrow> index \<Rightarrow> bool" where "behind d poc x \<longleftrightarrow> is_short d x \<and> \<not> nd_iFramePOC (nd d x) < poc"

definition listed :: "AL_TDpb \<Rightarrow> index list \<Rightarrow> bool" where
  "listed d xs \<longleftrightarrow> (\<forall>x \<in> set xs. in_range d x \<and> nd_tNodeID (nd d x) = x)"

lemma listed_snoc [simp]: "listed d (xs @ [x]) \<longleftrightarrow> listed d xs \<and> in_range d x \<and> nd_tNodeID (nd d x) = x"
  by (auto simp: listed_def)

lemma dpb_ok_listed:
  assumes "dpb_ok d P L D"
  shows "listed d P" "listed d D"
proof -
  note pt = dpb_ok_parts [OF assms]
  have "x \<in> set P \<Longrightarrow> in_range d x \<and> nd_tNodeID (nd d x) = x" for x
    using nodes_okD(1) [OF pt(8)] dpb_ok_dec(3,5) [OF assms] by (auto simp: node_in_def)
  then show "listed d P" "listed d D" using dpb_ok_dec(3) [OF assms] by (simp_all add: listed_def)
qed

lemma split_steps:
  assumes "in_range d x" "nd_tNodeID (nd d x) = x"
  shows "split_p d x (a, i, b, j) =
      (if is_short d x then do { a \<leftarrow> arr_set a i x; Some (a, i - 1, b, j) }
       else if p_long d x then do { b \<leftarrow> arr_set b j x; Some (a, i, b, j + 1) } else Some (a, i, b, j))"
    "split_b d poc x (a, i, b, j) =
      (if before d poc x then do { a \<leftarrow> arr_set a i x; Some (a, i - 1, b, j) }
       else if behind d poc x then do { b \<leftarrow> arr_set b j x; Some (a, i, b, j + 1) } else Some (a, i, b, j))"
    "split_long d x (b, j) = (if is_long d x then do { b \<leftarrow> arr_set b j x; Some (b, j + 1) } else Some (b, j))"
  using assms by (auto simp: split_p_def split_b_def split_long_def is_short_def p_long_def is_long_def before_def behind_def marked_def)

lemma split_p_fold:
  assumes "listed d xs" "length (filter (is_short d) xs) \<le> AL_MAX_REF" "length (filter (p_long d) xs) \<le> AL_MAX_REF"
  shows "foldM (split_p d) xs (zero_refs, int AL_MAX_REF - 1, zero_refs, 0)
    = Some (downwards (filter (is_short d) xs), int AL_MAX_REF - 1 - int (length (filter (is_short d) xs)),
        upwards (filter (p_long d) xs), int (length (filter (p_long d) xs)))"
  using assms
proof (induction xs rule: rev_induct)
  case Nil
  then show ?case by (simp add: fill_empty)
next
  case (snoc x xs)
  have ih: "foldM (split_p d) xs (zero_refs, int AL_MAX_REF - 1, zero_refs, 0)
    = Some (downwards (filter (is_short d) xs), int AL_MAX_REF - 1 - int (length (filter (is_short d) xs)),
        upwards (filter (p_long d) xs), int (length (filter (p_long d) xs)))"
    using snoc by (simp split: if_splits)
  consider "is_short d x" "\<not> p_long d x" | "p_long d x" "\<not> is_short d x" | "\<not> marked d x" "\<not> is_short d x" "\<not> p_long d x"
    by (auto simp: p_long_def)
  then show ?case
  proof cases
    case 1
    then show ?thesis using snoc.prems ih fill_down [of "filter (is_short d) xs" x]
      by (simp add: foldM_append split_steps)
  next
    case 2
    then show ?thesis using snoc.prems ih fill_up [of "filter (p_long d) xs" x]
      by (simp add: foldM_append split_steps)
  next
    case 3
    then show ?thesis using snoc.prems ih by (simp add: foldM_append split_steps)
  qed
qed

lemma split_b_fold:
  assumes "listed d xs" "length (filter (before d poc) xs) \<le> AL_MAX_REF" "length (filter (behind d poc) xs) \<le> AL_MAX_REF"
  shows "foldM (split_b d poc) xs (zero_refs, int AL_MAX_REF - 1, zero_refs, 0)
    = Some (downwards (filter (before d poc) xs), int AL_MAX_REF - 1 - int (length (filter (before d poc) xs)),
        upwards (filter (behind d poc) xs), int (length (filter (behind d poc) xs)))"
  using assms
proof (induction xs rule: rev_induct)
  case Nil
  then show ?case by (simp add: fill_empty)
next
  case (snoc x xs)
  have ih: "foldM (split_b d poc) xs (zero_refs, int AL_MAX_REF - 1, zero_refs, 0)
    = Some (downwards (filter (before d poc) xs), int AL_MAX_REF - 1 - int (length (filter (before d poc) xs)),
        upwards (filter (behind d poc) xs), int (length (filter (behind d poc) xs)))"
    using snoc by (simp split: if_splits)
  consider "before d poc x" "\<not> behind d poc x" | "behind d poc x" "\<not> before d poc x"
    | "\<not> is_short d x" "\<not> before d poc x" "\<not> behind d poc x"
    by (auto simp: before_def behind_def)
  then show ?case
  proof cases
    case 1
    then show ?thesis using snoc.prems ih fill_down [of "filter (before d poc) xs" x]
      by (simp add: foldM_append split_steps)
  next
    case 2
    then show ?thesis using snoc.prems ih fill_up [of "filter (behind d poc) xs" x]
      by (simp add: foldM_append split_steps)
  next
    case 3
    then show ?thesis using snoc.prems ih by (simp add: foldM_append split_steps)
  qed
qed

lemma split_long_fold:
  assumes "listed d xs" "length (filter (is_long d) xs) \<le> AL_MAX_REF"
  shows "foldM (split_long d) xs (zero_refs, 0) = Some (upwards (filter (is_long d) xs), int (length (filter (is_long d) xs)))"
  using assms
proof (induction xs rule: rev_induct)
  case Nil
  then show ?case by (simp add: fill_empty)
next
  case (snoc x xs)
  have "foldM (split_long d) xs (zero_refs, 0) = Some (upwards (filter (is_long d) xs), int (length (filter (is_long d) xs)))"
    using snoc by (simp split: if_splits)
  then show ?case using snoc.prems fill_up [of "filter (is_long d) xs" x]
    by (cases "is_long d x") (simp_all add: foldM_append split_steps)
qed

text \<open>The references of a buffer in order are at most as many as it counts.\<close>

lemma some_refs:
  assumes "dpb_ok d P L D" "\<And>x. Q x \<Longrightarrow> marked d x" "set xs = set P" "distinct xs"
  shows "length (filter Q xs) \<le> dp_uCountRef d"
proof -
  have "set (filter Q xs) \<subseteq> refs d" using assms(2,3) refs_listed(1) [OF assms(1)] by auto
  then have "card (set (filter Q xs)) \<le> dp_uCountRef d" using refs_listed(4) [OF assms(1)] card_mono [OF refs_finite(1)] by metis
  then show ?thesis using distinct_card [OF distinct_filter [OF assms(4)]] by metis
qed

lemma two_kinds:
  assumes "\<And>x. Q x \<Longrightarrow> M x" "\<And>x. R x \<Longrightarrow> M x" "\<And>x. Q x \<Longrightarrow> \<not> R x"
  shows "length (filter Q xs) + length (filter R xs) \<le> length (filter M xs)"
  using assms by (induction xs) (auto simp: le_Suc_eq)

lemma short_or_long:
  "is_short d x \<Longrightarrow> marked d x" "is_long d x \<Longrightarrow> marked d x" "p_long d x \<Longrightarrow> marked d x"
  "before d poc x \<Longrightarrow> is_short d x" "behind d poc x \<Longrightarrow> is_short d x" "before d poc x \<Longrightarrow> \<not> behind d poc x"
  "is_short d x \<Longrightarrow> \<not> p_long d x" "is_short d x \<Longrightarrow> \<not> is_long d x"
  by (auto simp: is_short_def is_long_def p_long_def before_def behind_def marked_def)

section \<open>The initial lists\<close>

definition p_refs :: "AL_TDpb \<Rightarrow> index list \<Rightarrow> index list" where
  "p_refs d D = rev (filter (is_short d) D) @ filter (p_long d) D"

lemma AL_Dpb_InitPSlice_RefList_ok:
  assumes ok: "dpb_ok d P L D" and c: "dp_uCountRef d \<le> AL_MAX_REF" and l: "AL_MAX_REF \<le> length l"
  shows "AL_Dpb_InitPSlice_RefList d l = Some (p_refs d D @ drop (length (p_refs d D)) l)"
proof -
  let ?S = "filter (is_short d) D" and ?G = "filter (p_long d) D"
  have m: "length (filter (marked d) D) \<le> AL_MAX_REF"
    using some_refs [OF ok _ dpb_ok_dec(3,2) [OF ok], of "marked d"] c by simp
  have n: "length ?S + length ?G \<le> AL_MAX_REF"
    using two_kinds [of "is_short d" "marked d" "p_long d" D] short_or_long m by (meson le_trans)
  have f: "walk AL_REF_MNGR_MAX_BUF_SIZE (\<lambda>_. next_dec d) (split_p d) (dp_tHeadDecOrderNodeID d) (zero_refs, int AL_MAX_REF - 1, zero_refs, 0)
      = Some (downwards ?S, int AL_MAX_REF - 1 - int (length ?S), upwards ?G, int (length ?G))"
    unfolding dec_read [OF ok] by (rule split_p_fold) (use n dpb_ok_listed [OF ok] in simp_all)
  have a: "copy_refs (downwards ?S) (int AL_MAX_REF - 1 - int (length ?S) + 1) 0
      (int AL_MAX_REF - (int AL_MAX_REF - 1 - int (length ?S) + 1)) l = Some (rev ?S @ drop (length ?S) l)"
    by (subst copy_down) (use n l in simp_all)
  have b: "copy_refs (upwards ?G) 0 (int AL_MAX_REF - (int AL_MAX_REF - 1 - int (length ?S) + 1))
      (int AL_MAX_REF - (int AL_MAX_REF - 1 - int (length ?S) + 1) + int (length ?G)) (rev ?S @ drop (length ?S) l)
      = Some (rev ?S @ ?G @ drop (length ?S + length ?G) l)"
    by (subst copy_up) (use n l in \<open>simp_all add: add.commute\<close>)
  show ?thesis
    unfolding AL_Dpb_InitPSlice_RefList_def f by (simp only: bind.bind_lunit prod.case Let_def a b p_refs_def) (simp add: append_assoc)
qed

definition b_refs0 :: "AL_TDpb \<Rightarrow> int \<Rightarrow> index list \<Rightarrow> index list \<Rightarrow> index list" where
  "b_refs0 d poc P D = rev (filter (before d poc) P) @ filter (behind d poc) P @ filter (is_long d) D"

definition b_refs1 :: "AL_TDpb \<Rightarrow> int \<Rightarrow> index list \<Rightarrow> index list \<Rightarrow> index list" where
  "b_refs1 d poc P D = filter (behind d poc) P @ rev (filter (before d poc) P) @ filter (is_long d) D"

definition swapped :: "'a list \<Rightarrow> 'a list" where
  "swapped xs = (case xs of a # b # r \<Rightarrow> b # a # r | _ \<Rightarrow> xs)"

lemma length_swapped [simp]: "length (swapped xs) = length xs"
  by (auto simp: swapped_def split: list.splits)

lemma swap_first_ok:
  assumes "listed d xs" "length (dp_Nodes d) \<le> 64" "length xs = length ys"
  shows "swap_first d (int (length ys)) (ys @ rest) (xs @ rest') =
    Some ((if 1 < length ys \<and> xs = ys then swapped xs else xs) @ rest')"
proof (cases "1 < length ys \<and> xs = ys")
  case True
  then obtain a b r where xs: "xs = a # b # r" using assms(3) by (metis One_nat_def length_Cons less_Suc_eq_0_disj list.exhaust list.size(3) not_less_zero Suc_less_eq)
  have a: "in_range d a" "nd_tNodeID (nd d a) = a" using assms(1) xs by (simp_all add: listed_def)
  then have "0 \<le> a" "a < 64" using assms(2) by (auto simp: in_range_def)
  then have "a mod 64 = a" by simp
  moreover have ys: "ys = a # b # r" using True xs by simp
  moreover have "take (nat (int (length ys))) (xs @ rest') = take (nat (int (length ys))) (ys @ rest)" using True by simp
  then have "swap_first d (int (length ys)) (ys @ rest) (xs @ rest')
     = do { a \<leftarrow> arr_get (xs @ rest') 0; NodeTemp \<leftarrow> node d (a mod 64); b \<leftarrow> arr_get (xs @ rest') 1;
        l1 \<leftarrow> arr_set (xs @ rest') 0 b; arr_set l1 1 (nd_tNodeID NodeTemp) }"
    using ys by (simp add: swap_first_def)
  ultimately show ?thesis using a unfolding xs by (simp add: swapped_def arr_get_def arr_set_def)
next
  case False
  then show ?thesis using assms(3) by (auto simp: swap_first_def)
qed

lemma poc_seg:
  assumes "dpb_ok d P L D"
  shows "seg (fld nd_tNextPOCNodeID (dp_Nodes d)) (fld nd_tPrevPOCNodeID (dp_Nodes d)) AL_BAD_INDEX (dp_tHeadPOCNodeID d) P AL_BAD_INDEX"
    "length P \<le> AL_REF_MNGR_MAX_BUF_SIZE" "poc_list d P"
  using assms dpb_ok_parts(3) [OF assms] by (simp_all add: dpb_ok_def lists_ok_def poc_list_def dll_def)

lemma next_poc_same:
  assumes "poc_list d P" "poc_list s P" "x \<in> set P"
  shows "next_poc s x = Some (fld nd_tNextPOCNodeID (dp_Nodes d) x)"
proof -
  obtain as bs where P: "P = as @ x # bs" using split_list [OF assms(3)] by blast
  show ?thesis
    using poc_list_links [OF assms(1) [unfolded P]] poc_list_links [OF assms(2) [unfolded P]]
    by (simp add: next_poc_def fld_nd)
qed

lemma poc_walk:
  assumes "dpb_ok d P L D"
    and "\<And>s x s'. dpb_ok s P L D \<Longrightarrow> x \<in> set P \<Longrightarrow> body x s = Some s' \<Longrightarrow> dpb_ok s' P L D"
  shows "walk AL_REF_MNGR_MAX_BUF_SIZE next_poc body (dp_tHeadPOCNodeID d) d = foldM body P d"
  by (rule walk_foldM [where I = "\<lambda>s. dpb_ok s P L D", OF poc_seg(1,2) [OF assms(1)] assms(1)])
    (use assms(2) next_poc_same [OF poc_seg(3) [OF assms(1)] poc_seg(3)] in blast)+

lemma poc_read:
  assumes "dpb_ok d P L D"
  shows "walk AL_REF_MNGR_MAX_BUF_SIZE (\<lambda>_. next_poc d) body (dp_tHeadPOCNodeID d) s = foldM body P s"
  by (rule walk_foldM [where I = "\<lambda>_. True", OF poc_seg(1,2) [OF assms] TrueI TrueI])
    (use next_poc_same [OF poc_seg(3) [OF assms] poc_seg(3) [OF assms]] in blast)

lemma upwards_rest: "xs @ drop (length xs) zero_refs = upwards xs"
  by (simp add: upwards_def zero_refs_def)

lemma b_refs0_length:
  assumes ok: "dpb_ok d P L D"
  shows "length (b_refs0 d poc P D) \<le> dp_uCountRef d"
proof -
  note pt = dpb_ok_parts [OF ok]
  have "length (filter (before d poc) P) + length (filter (behind d poc) P) \<le> length (filter (is_short d) P)"
    by (rule two_kinds) (auto intro: short_or_long dest: short_or_long)
  moreover have "length (filter (is_short d) P) = length (filter (is_short d) D)"
    using dpb_ok_dec(2,3) [OF ok] pt(2) distinct_card [OF distinct_filter] by (metis set_filter)
  moreover have "length (filter (is_short d) D) + length (filter (is_long d) D) \<le> length (filter (marked d) D)"
    by (rule two_kinds) (auto intro: short_or_long dest: short_or_long)
  ultimately show ?thesis
    using some_refs [OF ok _ dpb_ok_dec(3,2) [OF ok], of "marked d"] by (simp add: b_refs0_def)
qed

lemma AL_Dpb_InitBSlice_RefList_ok:
  fixes poc :: int
  assumes ok: "dpb_ok d P L D" and c: "dp_uCountRef d \<le> AL_MAX_REF" and l: "AL_MAX_REF \<le> length l0" "AL_MAX_REF \<le> length l1"
  defines "n \<equiv> length (b_refs0 d poc P D)"
  shows "AL_Dpb_InitBSlice_RefList d poc (l0, l1) = Some (b_refs0 d poc P D @ drop n l0,
    (if 1 < n \<and> b_refs1 d poc P D = b_refs0 d poc P D then swapped (b_refs1 d poc P D) else b_refs1 d poc P D) @ drop n l1)"
proof -
  let ?B = "filter (before d poc) P" and ?A = "filter (behind d poc) P" and ?G = "filter (is_long d) D"
  let ?b = "length ?B" and ?a = "length ?A" and ?g = "length ?G" and ?M = "int AL_MAX_REF"
  note pt = dpb_ok_parts [OF ok]
  have n: "?b + ?a + ?g \<le> AL_MAX_REF" using b_refs0_length [OF ok, of poc] c by (simp add: b_refs0_def)
  have w1: "walk AL_REF_MNGR_MAX_BUF_SIZE (\<lambda>_. next_poc d) (split_b d poc) (dp_tHeadPOCNodeID d) (zero_refs, ?M - 1, zero_refs, 0)
      = Some (downwards ?B, ?M - 1 - int ?b, upwards ?A, int ?a)"
    unfolding poc_read [OF ok] by (rule split_b_fold) (use n dpb_ok_listed [OF ok] in simp_all)
  have w2: "walk AL_REF_MNGR_MAX_BUF_SIZE (\<lambda>_. next_dec d) (split_long d) (dp_tHeadDecOrderNodeID d) (zero_refs, 0)
      = Some (upwards ?G, int ?g)"
    unfolding dec_read [OF ok] by (rule split_long_fold) (use n dpb_ok_listed [OF ok] in simp_all)
  have e: "?M - (?M - 1 - int ?b + 1) = int ?b" by simp
  have z: "length zero_refs = AL_MAX_REF" by (simp add: zero_refs_def)
  have c1: "copy_refs (downwards ?B) (?M - 1 - int ?b + 1) 0 (int ?b) zero_refs = Some (rev ?B @ drop ?b zero_refs)"
    by (subst copy_down) (use n z in simp_all)
  have c2: "copy_refs (upwards ?A) 0 (int ?b) (int ?b + int ?a) (rev ?B @ drop ?b zero_refs) = Some (upwards (rev ?B @ ?A))"
    by (subst copy_up) (use n z upwards_rest [of "rev ?B @ ?A"] in \<open>simp_all add: add.commute\<close>)
  have c3: "copy_refs (upwards ?A) 0 0 (int ?a) zero_refs = Some (?A @ drop ?a zero_refs)"
    by (subst copy_up) (use n z in simp_all)
  have c4: "copy_refs (downwards ?B) (?M - int ?b) (int ?a) (int ?b + int ?a) (?A @ drop ?a zero_refs) = Some (upwards (?A @ rev ?B))"
    by (subst copy_down) (use n z upwards_rest [of "?A @ rev ?B"] in \<open>simp_all add: add.commute\<close>)
  have c5: "copy_refs (upwards xs) 0 0 (int ?b + int ?a) l = Some (xs @ drop (?b + ?a) l)"
    if "length xs = ?b + ?a" "AL_MAX_REF \<le> length l" for xs l
    by (subst copy_up) (use n that in simp_all)
  have c6: "copy_refs (upwards ?G) 0 (int ?b + int ?a) (int ?b + int ?a + int ?g) (xs @ drop (?b + ?a) l) = Some ((xs @ ?G) @ drop n l)"
    if "length xs = ?b + ?a" "AL_MAX_REF \<le> length l" for xs l
    by (subst copy_up) (use n that in \<open>simp_all add: n_def b_refs0_def nat_add_distrib ac_simps\<close>)
  have len: "length (?A @ rev ?B) = ?b + ?a" "length (rev ?B @ ?A) = ?b + ?a" by simp_all
  have r: "(rev ?B @ ?A) @ ?G = b_refs0 d poc P D" "(?A @ rev ?B) @ ?G = b_refs1 d poc P D" by (simp_all add: b_refs0_def b_refs1_def)
  have nn: "int ?b + int ?a + int ?g = int n" by (simp add: n_def b_refs0_def)
  have "listed d (b_refs1 d poc P D)" using dpb_ok_listed [OF ok] by (auto simp: listed_def b_refs1_def)
  moreover have "length (dp_Nodes d) \<le> 64" using pt(8) by (simp add: nodes_ok_def AL_REF_MNGR_MAX_BUF_SIZE_def)
  moreover have "length (b_refs1 d poc P D) = length (b_refs0 d poc P D)" by (simp add: b_refs0_def b_refs1_def)
  ultimately have sw: "swap_first d (int n) (b_refs0 d poc P D @ drop n l0) (b_refs1 d poc P D @ drop n l1)
      = Some ((if 1 < n \<and> b_refs1 d poc P D = b_refs0 d poc P D then swapped (b_refs1 d poc P D) else b_refs1 d poc P D) @ drop n l1)"
    unfolding n_def by (rule swap_first_ok)
  show ?thesis
    unfolding AL_Dpb_InitBSlice_RefList_def prod.case w1 w2 bind.bind_lunit Let_def e
    unfolding c1 c2 c3 c4 bind.bind_lunit c5 [OF len(2) l(1)] c5 [OF len(1) l(2)] c6 [OF len(2) l(1)] c6 [OF len(1) l(2)] r
    unfolding nn sw bind.bind_lunit ..
qed

section \<open>The modification operations\<close>

lemma shift_up_ok:
  assumes "r \<le> n" "n < length l"
  shows "shift_up r n l = Some (take r l @ l ! r # take (n - r) (drop r l) @ drop (n + 1) l)"
  using assms
proof (induction n arbitrary: l)
  case 0
  then show ?case by (cases l) simp_all
next
  case (Suc u)
  show ?case
  proof (cases "r = Suc u")
    case True
    then show ?thesis using Suc.prems by (simp add: Cons_nth_drop_Suc)
  next
    case False
    then have r: "r \<le> u" "u < length l" using Suc.prems by simp_all
    let ?m = "l[Suc u := l ! u]"
    have "shift_up r u ?m = Some (take r ?m @ ?m ! r # take (u - r) (drop r ?m) @ drop (u + 1) ?m)"
      using Suc.IH [of ?m] r Suc.prems by simp
    moreover have "drop (u + 1) ?m = l ! u # drop (u + 2) l"
      using Suc.prems(2) by (simp add: drop_update_swap flip: Cons_nth_drop_Suc)
    moreover have "take (u - r) (drop r ?m) = take (u - r) (drop r l)"
      using r by (simp add: take_drop)
    moreover have "take (Suc u - r) (drop r l) = take (u - r) (drop r l) @ [l ! u]"
      using r by (simp add: Suc_diff_le take_Suc_conv_app_nth)
    moreover have "nat (1 + int u) = Suc u" by simp
    ultimately show ?thesis using r Suc.prems False by simp
  qed
qed

lemma squeeze_ok:
  assumes "u \<le> a" "b \<le> length l" "\<And>t. a \<le> t \<Longrightarrow> t < b \<Longrightarrow> keep (l ! t) = Some (K (l ! t))"
  defines "F \<equiv> filter K (take (b - a) (drop a l))"
  shows "\<exists>l'. squeeze keep [a..<b] u l = Some l' \<and> length l' = length l \<and> take (u + length F) l' = take u l @ F"
  using assms(1-3) unfolding F_def
proof (induction "b - a" arbitrary: a u l)
  case 0
  then show ?case by simp
next
  case (Suc k)
  then have ab: "a < b" "a < length l" and k: "k = b - Suc a" by simp_all
  have up: "[a..<b] = a # [Suc a..<b]" using ab(1) by (rule upt_conv_Cons)
  have dr: "take (b - a) (drop a l) = l ! a # take (b - Suc a) (drop (Suc a) l)"
    using ab by (cases "b - a") (simp_all add: Cons_nth_drop_Suc [symmetric] Suc_diff_Suc [symmetric])
  have x: "keep (l ! a) = Some (K (l ! a))" using Suc.prems(3) ab(1) by simp
  show ?case
  proof (cases "K (l ! a)")
    case True
    let ?m = "l[u := l ! a]"
    have same: "drop (Suc a) ?m = drop (Suc a) l" using Suc.prems(1) by simp
    have "keep (?m ! t) = Some (K (?m ! t))" if "Suc a \<le> t" "t < b" for t
      using Suc.prems(1,3) that by simp
    then obtain l' where "squeeze keep [Suc a..<b] (Suc u) ?m = Some l'" "length l' = length ?m"
      "take (Suc u + length (filter K (take (b - Suc a) (drop (Suc a) ?m)))) l'
        = take (Suc u) ?m @ filter K (take (b - Suc a) (drop (Suc a) ?m))"
      using Suc.hyps(1) [OF k, of "Suc u" ?m] Suc.prems(1,2) by auto
    moreover have "take (Suc u) ?m = take u l @ [l ! a]" using Suc.prems(1) ab(2) by (simp add: take_Suc_conv_app_nth)
    ultimately show ?thesis using True x ab Suc.prems(1) unfolding up dr same by simp
  next
    case False
    obtain l' where "squeeze keep [Suc a..<b] u l = Some l'" "length l' = length l"
      "take (u + length (filter K (take (b - Suc a) (drop (Suc a) l)))) l' = take u l @ filter K (take (b - Suc a) (drop (Suc a) l))"
      using Suc.hyps(1) [OF k, of u l] Suc.prems by auto
    then show ?thesis using False x ab unfolding up dr by simp
  qed
qed

text \<open>
  The picture that is looked for comes to position \<open>r\<close>, before it nothing changes, and the entries of
  the old list from \<open>r\<close> to \<open>n - 1\<close> follow it without the ones that are not kept.
\<close>

lemma modif_list_ok:
  assumes ok: "dpb_ok d P L D" and r: "r \<le> n" "n < length l"
    and keep: "\<And>x. x \<in> set (take (n - r) (drop r l)) \<Longrightarrow> keep x = Some (K x)"
    and x: "x \<in> set D" "Q (nd d x)" "\<And>y. y \<in> set D \<Longrightarrow> Q (nd d y) \<Longrightarrow> y = x"
  defines "F \<equiv> filter K (take (n - r) (drop r l))"
  shows "\<exists>l'. modif_list d Q keep n r l = Some (r + 1, l') \<and> length l' = length l
    \<and> take (r + 1 + length F) l' = take r l @ x # F"
proof -
  let ?m = "take r l @ l ! r # take (n - r) (drop r l) @ drop (n + 1) l"
  have lenm: "length ?m = length l" using r by simp
  have sh: "shift_up r n l = Some ?m" using shift_up_ok [OF r] .
  have xr: "in_range d x" "nd_tNodeID (nd d x) = x" "0 \<le> x"
    using dpb_ok_listed(2) [OF ok] x(1) by (auto simp: listed_def in_range_def)
  have D0: "\<forall>y \<in> set D. 0 \<le> y" using dpb_ok_dec(5) [OF ok] by (auto simp: in_range_def)
  obtain q where q: "q = (\<lambda>y. Q (nd d y))" by blast
  have fa: "find_along AL_REF_MNGR_MAX_BUF_SIZE (next_dec d) (\<lambda>t. map_option Q (node d t)) (dp_tHeadDecOrderNodeID d)
      = Some (hd_or (dropWhile (\<lambda>x. \<not> q x) D) AL_BAD_INDEX)"
    by (rule dec_find [OF ok]) (use dpb_ok_dec(5) [OF ok] q in simp)
  have t: "hd_or (dropWhile (\<lambda>x. \<not> q x) D) AL_BAD_INDEX = x"
  proof -
    have "0 \<le> hd_or (dropWhile (\<lambda>x. \<not> q x) D) AL_BAD_INDEX"
      using hd_dropWhile_none [OF D0, of q] x(1,2) q by blast
    then show ?thesis using hd_dropWhile_sat [OF D0, of q] x(3) q by blast
  qed
  let ?m2 = "?m[r := x]"
  have m2: "?m2 = take r l @ x # take (n - r) (drop r l) @ drop (n + 1) l" using r by (simp add: list_update_append)
  have w: "take (n + 1 - (r + 1)) (drop (r + 1) ?m2) = take (n - r) (drop r l)" unfolding m2 using r by simp
  have kp: "keep (?m2 ! t) = Some (K (?m2 ! t))" if t1: "r + 1 \<le> t" and t2: "t < n + 1" for t
  proof -
    obtain j where t: "t = r + 1 + j" using le_Suc_ex [OF t1] by blast
    then have j: "t = r + 1 + j" "j < n - r" using t2 by simp_all
    have "?m2 ! t = take (n - r) (drop r l) ! (t - (r + 1))" unfolding m2 j(1) using j(2) r by (simp add: nth_append)
    moreover have "t - (r + 1) < length (take (n - r) (drop r l))" using j r by simp
    ultimately show ?thesis using keep nth_mem by metis
  qed
  have le2: "n + 1 \<le> length ?m2" using r lenm by simp
  obtain l' where "squeeze keep [r + 1..<n + 1] (r + 1) ?m2 = Some l'" "length l' = length ?m2"
    "take (r + 1 + length F) l' = take (r + 1) ?m2 @ F"
    using squeeze_ok [of "r + 1" "r + 1" "n + 1" ?m2 keep K, OF le_refl le2 kp] unfolding w F_def by blast
  moreover have "take (r + 1) ?m2 = take r l @ [x]" unfolding m2 using r by simp
  moreover have "modif_list d Q keep n r l = map_option (Pair (r + 1)) (squeeze keep [r + 1..<n + 1] (r + 1) ?m2)"
  proof -
    have "arr_set ?m (int r) x = Some ?m2" using r by (intro arr_set_Some [THEN trans]) simp_all
    then show ?thesis
      unfolding modif_list_def sh bind.bind_lunit fa t using xr
      by (cases "squeeze keep [r + 1..<n + 1] (r + 1) ?m2") (simp_all del: upt_Suc)
  qed
  ultimately show ?thesis using lenm by (intro exI [of _ l']) simp
qed

end
