(* ===== verification/Avc_PictMngr.thy ===== *)
theory Avc_PictMngr
  imports Dpb_RefList Dpb_MarkProc
begin

text \<open>
  The AVC picture manager, \<open>lib_parsing/Avc_PictMngr.c\<close>: the picture order count of types 0, 1 and 2,
  the end of the parsing of a picture, the filling of gaps in \<open>frame_num\<close>, and the reference lists of
  a slice. The buffer is that of \<open>Dpb_State\<close>; the running data of the POC computation, which the C
  keeps in the same structure, stands beside it.

  The \<open>int64_t\<close> sums of the POC computation are integers; where they are stored into an \<open>int32_t\<close>
  they wrap, and a wrap at 64 bits before that would give the same value. The offset of the frame
  numbers, which is also compared, grows by at most \<open>2^16\<close> a picture.
\<close>

record AL_TAvcDpb =
  av_dpb :: AL_TDpb
  av_iPrevPocLSB :: int
  av_iPrevPocMSB :: int
  av_iPrevFrameNumOffset :: int
  av_iPrevFrameNum :: int
  av_iTopFieldOrderCnt :: int
  av_iBotFieldOrderCnt :: int

section \<open>The picture order count\<close>

definition max_poc_lsb :: "AL_TAvcSliceHdr \<Rightarrow> int" where
  "max_poc_lsb sl = 2 ^ (sps_log2_max_pic_order_cnt_lsb_minus4 (sh_pSPS sl) + 4)"

definition AL_sGetPocType0 :: "AL_TAvcDpb \<Rightarrow> AL_TAvcSliceHdr \<Rightarrow> AL_TAvcDpb" where
  "AL_sGetPocType0 a sl =
     (let (iPrevPocMSB, iPrevPocLSB) =
        (if AL_AVC_IsIDR (sh_nal_unit_type sl) then (0, 0)
         else if AL_Dpb_LastHasMMCO5 (av_dpb a) then (0, av_iTopFieldOrderCnt a)
         else (av_iPrevPocMSB a, av_iPrevPocLSB a));
        lsb = sh_pic_order_cnt_lsb sl;
        iPrevPocMSB =
          (if lsb < iPrevPocLSB \<and> iPrevPocLSB - lsb \<ge> max_poc_lsb sl div 2 then to_int32 (iPrevPocMSB + max_poc_lsb sl)
           else if lsb > iPrevPocLSB \<and> lsb - iPrevPocLSB > max_poc_lsb sl div 2 then to_int32 (iPrevPocMSB - max_poc_lsb sl)
           else iPrevPocMSB);
        iTop = to_int32 (iPrevPocMSB + lsb);
        a = a\<lparr>av_iTopFieldOrderCnt := iTop, av_iBotFieldOrderCnt := to_int32 (iTop + sh_delta_pic_order_cnt_bottom sl)\<rparr> in
      if sh_nal_ref_idc sl \<noteq> 0 then a\<lparr>av_iPrevPocLSB := lsb, av_iPrevPocMSB := iPrevPocMSB\<rparr> else a)"

text \<open>What types 1 and 2 do first: the frame number of a picture after operation 5, and the offset.\<close>

definition after_mmco5 :: "AL_TAvcDpb \<Rightarrow> AL_TAvcSliceHdr \<Rightarrow> AL_TAvcDpb" where
  "after_mmco5 a sl =
     (if \<not> AL_AVC_IsIDR (sh_nal_unit_type sl) \<and> AL_Dpb_LastHasMMCO5 (av_dpb a)
      then a\<lparr>av_iPrevFrameNumOffset := 0, av_iPrevFrameNum := 0\<rparr> else a)"

definition frame_num_offset :: "AL_TAvcDpb \<Rightarrow> AL_TAvcSliceHdr \<Rightarrow> int" where
  "frame_num_offset a sl =
     (if AL_AVC_IsIDR (sh_nal_unit_type sl) then 0
      else if av_iPrevFrameNum a > sh_frame_num sl then av_iPrevFrameNumOffset a + max_frame_num sl
      else av_iPrevFrameNumOffset a)"

text \<open>\<open>for(i = 0; i < n; ++i) s += offset_for_ref_frame[i];\<close>\<close>

fun add_offsets :: "int list \<Rightarrow> nat \<Rightarrow> int \<Rightarrow> int option" where
  "add_offsets off 0 s = Some s"
| "add_offsets off (Suc n) s = do { s \<leftarrow> add_offsets off n s; x \<leftarrow> arr_get off (int n); Some (s + x) }"

definition AL_sGetPocType1 :: "AL_TAvcDpb \<Rightarrow> AL_TAvcSliceHdr \<Rightarrow> AL_TAvcDpb option" where
  "AL_sGetPocType1 a sl = do {
     let n = sps_num_ref_frames_in_pic_order_cnt_cycle (sh_pSPS sl);
     iExpectedDelta \<leftarrow> add_offsets (sps_offset_for_ref_frame (sh_pSPS sl)) n 0;
     let a = after_mmco5 a sl;
     let iFrameNumOffset = frame_num_offset a sl;
     let iAbsFrameNum = (if n \<noteq> 0 then iFrameNumOffset + sh_frame_num sl else 0);
     let iAbsFrameNum = (if sh_nal_ref_idc sl = 0 \<and> iAbsFrameNum > 0 then iAbsFrameNum - 1 else iAbsFrameNum);
     iExpected \<leftarrow> (if iAbsFrameNum > 0
        then add_offsets (sps_offset_for_ref_frame (sh_pSPS sl)) (nat ((iAbsFrameNum - 1) mod int n) + 1)
               ((iAbsFrameNum - 1) div int n * iExpectedDelta)
        else Some 0);
     let iExpected = (if sh_nal_ref_idc sl = 0 then iExpected + sps_offset_for_non_ref_pic (sh_pSPS sl) else iExpected);
     d0 \<leftarrow> arr_get (sh_delta_pic_order_cnt sl) 0;
     d1 \<leftarrow> arr_get (sh_delta_pic_order_cnt sl) 1;
     let iTop = to_int32 (iExpected + d0);
     Some (a\<lparr>av_iPrevFrameNumOffset := iFrameNumOffset, av_iTopFieldOrderCnt := iTop,
       av_iBotFieldOrderCnt := to_int32 (iTop + sps_offset_for_top_to_bottom_field (sh_pSPS sl) + d1)\<rparr>) }"

definition AL_sGetPocType2 :: "AL_TAvcDpb \<Rightarrow> AL_TAvcSliceHdr \<Rightarrow> AL_TAvcDpb" where
  "AL_sGetPocType2 a sl =
     (let a = after_mmco5 a sl;
        iFrameNumOffset = frame_num_offset a sl;
        iTempPicOrderCnt =
          (if AL_AVC_IsIDR (sh_nal_unit_type sl) then 0
           else if sh_nal_ref_idc sl = 0 then 2 * (iFrameNumOffset + sh_frame_num sl) - 1
           else 2 * (iFrameNumOffset + sh_frame_num sl)) in
      a\<lparr>av_iPrevFrameNumOffset := iFrameNumOffset, av_iTopFieldOrderCnt := to_int32 iTempPicOrderCnt,
        av_iBotFieldOrderCnt := to_int32 iTempPicOrderCnt\<rparr>)"

definition AL_sCalculatePOC :: "AL_TAvcDpb \<Rightarrow> AL_TAvcSliceHdr \<Rightarrow> (int \<times> AL_TAvcDpb) option" where
  "AL_sCalculatePOC a sl =
     (let t = sps_pic_order_cnt_type (sh_pSPS sl) in
      if t = 0 \<or> t = 1 \<or> t = 2 then do {
        a \<leftarrow> (if t = 0 then Some (AL_sGetPocType0 a sl) else if t = 1 then AL_sGetPocType1 a sl else Some (AL_sGetPocType2 a sl));
        Some (if av_iTopFieldOrderCnt a < av_iBotFieldOrderCnt a then av_iTopFieldOrderCnt a else av_iBotFieldOrderCnt a, a) }
      else Some (to_int32 0xBAADF00D, a))"

definition AL_AVC_Dpb_SetCurrentPOC :: "AL_TAvcDpb \<Rightarrow> AL_TAvcSliceHdr \<Rightarrow> AL_TAvcDpb option" where
  "AL_AVC_Dpb_SetCurrentPOC a sl = do {
     (poc, a) \<leftarrow> AL_sCalculatePOC a sl;
     Some (a\<lparr>av_dpb := (av_dpb a)\<lparr>dp_iCurFramePOC := poc\<rparr>\<rparr>) }"

section \<open>The end of the parsing of a picture\<close>

definition AL_AVC_Dpb_EndParsing :: "AL_TDpb \<Rightarrow> AL_TDpb option" where
  "AL_AVC_Dpb_EndParsing d = do {
     d \<leftarrow> walk AL_REF_MNGR_MAX_BUF_SIZE next_poc (\<lambda>t d. AL_Dpb_IncrementPicLatency d t) (AL_Dpb_GetHeadPOC d) d;
     tDeleteNodeID \<leftarrow> AL_Dpb_SearchPOC d (dp_iCurFramePOC d);
     d \<leftarrow> (if AL_IS_VALID_INDEX tDeleteNodeID then do {
       out \<leftarrow> AL_Dpb_GetOutputFlag d tDeleteNodeID;
       d \<leftarrow> (if out then AL_Dpb_Display d tDeleteNodeID else Some d);
       map_option snd (AL_Dpb_Remove d tDeleteNodeID) } else Some d);
     Some (AL_Dpb_ResetMMCO5 d) }"

section \<open>Gaps in \<open>frame_num\<close>\<close>

text \<open>One missing frame: a picture that does not exist is inserted and marked.\<close>

definition gap_param :: "int \<Rightarrow> AL_TDpbInsertParam" where
  "gap_param poc = \<lparr>ip_iFramePOC = poc, ip_ePicStruct = 0, ip_iPocLsb = 0, ip_bPicOutputFlag = False,
     ip_eMarkingFlag = SHORT_TERM_REF, ip_bNonExisting = True, ip_eNUT = 0, ip_bSubpicFlag = False\<rparr>"

definition gap_frame :: "AL_TAvcSliceHdr \<Rightarrow> int \<Rightarrow> AL_TAvcDpb \<Rightarrow> AL_TAvcDpb option" where
  "gap_frame sl iUnusedShortTermFrameNum a = do {
     let pUnusedSlice = sl\<lparr>sh_frame_num := iUnusedShortTermFrameNum, sh_adaptive_ref_pic_marking_mode_flag := 0\<rparr>;
     (poc, a) \<leftarrow> AL_sCalculatePOC a pUnusedSlice;
     d \<leftarrow> sApiInsert (av_dpb a) AL_BAD_INDEX AL_BAD_INDEX (gap_param poc);
     d \<leftarrow> AL_Dpb_MarkingProcess d pUnusedSlice;
     d \<leftarrow> AL_Dpb_AVC_Cleanup d;
     Some (a\<lparr>av_dpb := d, av_iPrevFrameNum := iUnusedShortTermFrameNum\<rparr>) }"

fun gap_loop :: "nat \<Rightarrow> AL_TAvcSliceHdr \<Rightarrow> int \<Rightarrow> AL_TAvcDpb \<Rightarrow> AL_TAvcDpb option" where
  "gap_loop 0 sl iUnused a = None"
| "gap_loop (Suc f) sl iUnused a =
     (if sh_frame_num sl = iUnused then Some a
      else do { a \<leftarrow> gap_frame sl iUnused a; gap_loop f sl ((iUnused + 1) mod max_frame_num sl) a })"

text \<open>
  The remainder of a division of C takes the sign of the dividend; \<open>iPrevFrameNum\<close> is \<open>-1\<close> before the
  first picture, so the dividends are never negative. The loop visits each frame number at most once.
\<close>

definition AL_AVC_PictMngr_Fill_Gap_In_FrameNum :: "AL_TAvcDpb \<Rightarrow> AL_TAvcSliceHdr \<Rightarrow> AL_TAvcDpb option" where
  "AL_AVC_PictMngr_Fill_Gap_In_FrameNum a sl =
     (let iUnused = (av_iPrevFrameNum a + 1) mod max_frame_num sl in
      if \<not> (\<not> AL_AVC_IsIDR (sh_nal_unit_type sl) \<and> sh_frame_num sl \<noteq> av_iPrevFrameNum a \<and> sh_frame_num sl \<noteq> iUnused) then Some a
      else if sps_gaps_in_frame_num_value_allowed_flag (sh_pSPS sl) = 0 then Some a
      else gap_loop (nat (max_frame_num sl)) sl iUnused a)"

section \<open>The reference lists of a slice\<close>

definition AL_SLICE_B :: nat where "AL_SLICE_B = 0"
definition AL_SLICE_P :: nat where "AL_SLICE_P = 1"
definition AL_SLICE_SP :: nat where "AL_SLICE_SP = 3"

definition AL_AVC_Dpb_InitPictList :: "AL_TDpb \<Rightarrow> AL_TAvcSliceHdr \<Rightarrow> index list \<times> index list \<Rightarrow> (index list \<times> index list) option" where
  "AL_AVC_Dpb_InitPictList d sl = (\<lambda>(l0, l1).
     let l0 = replicate AL_MAX_REF AL_BAD_INDEX @ drop AL_MAX_REF l0;
         l1 = replicate AL_MAX_REF AL_BAD_INDEX @ drop AL_MAX_REF l1 in
     if sh_slice_type sl = AL_SLICE_P \<or> sh_slice_type sl = AL_SLICE_SP
     then map_option (\<lambda>l0. (l0, l1)) (AL_Dpb_InitPSlice_RefList d l0)
     else if sh_slice_type sl = AL_SLICE_B then AL_Dpb_InitBSlice_RefList d (dp_iCurFramePOC d) (l0, l1)
     else Some (l0, l1))"

text \<open>
  The commands of a list are read up to the first 3 and at most 17 of them; commands above 3 are
  skipped. The state is the two positions, the index of the next entry, the prediction and the list.
\<close>

fun reorder_loop :: "AL_TDpb \<Rightarrow> AL_TAvcSliceHdr \<Rightarrow> nat \<Rightarrow> nat list \<Rightarrow> nat \<Rightarrow> nat \<Rightarrow> nat \<Rightarrow> int \<Rightarrow> index list \<Rightarrow> index list option" where
  "reorder_loop d sl iL0L1 [] uParseShort uParseLong tRefIdx iPicNumPred l = Some l"
| "reorder_loop d sl iL0L1 (c # cs) uParseShort uParseLong tRefIdx iPicNumPred l =
     (if c = 3 then Some l
      else if c = 0 \<or> c = 1 then do {
        (tRefIdx, iPicNumPred, l) \<leftarrow> AL_Dpb_ModifShortTerm d sl c uParseShort iL0L1 (tRefIdx, iPicNumPred, l);
        reorder_loop d sl iL0L1 cs (uParseShort + 1) uParseLong tRefIdx iPicNumPred l }
      else if c = 2 then do {
        (tRefIdx, l) \<leftarrow> AL_Dpb_ModifLongTerm d sl uParseLong iL0L1 (tRefIdx, l);
        reorder_loop d sl iL0L1 cs uParseShort (uParseLong + 1) tRefIdx iPicNumPred l }
      else reorder_loop d sl iL0L1 cs uParseShort uParseLong tRefIdx iPicNumPred l)"

definition AL_AVC_MAX_REFERENCE_PICTURE_REORDER :: nat where "AL_AVC_MAX_REFERENCE_PICTURE_REORDER = 17"

definition AL_AVC_Dpb_ReorderPictList :: "AL_TDpb \<Rightarrow> AL_TAvcSliceHdr \<Rightarrow> index list \<times> index list \<Rightarrow> (index list \<times> index list) option" where
  "AL_AVC_Dpb_ReorderPictList d sl = (\<lambda>(l0, l1). do {
     l0 \<leftarrow> (if sh_ref_pic_list_reordering_flag_l0 sl \<noteq> 0
       then reorder_loop d sl 0 (take AL_AVC_MAX_REFERENCE_PICTURE_REORDER (sh_reordering_of_pic_nums_idc_l0 sl)) 0 0 0 (cur_pic_num sl) l0
       else Some l0);
     l1 \<leftarrow> (if sh_ref_pic_list_reordering_flag_l1 sl \<noteq> 0 \<and> sh_slice_type sl = AL_SLICE_B
       then reorder_loop d sl 1 (take AL_AVC_MAX_REFERENCE_PICTURE_REORDER (sh_reordering_of_pic_nums_idc_l1 sl)) 0 0 0 (cur_pic_num sl) l1
       else Some l1);
     Some (l0, l1) })"

section \<open>The decoder\<close>

text \<open>
  \<open>constructRefPicList\<close> and \<open>updatePictManager\<close> of \<open>lib_decode/AvcDecoder.c\<close>: the lists of a slice,
  with the check that they hold enough pictures, and the end of a picture.
\<close>

definition AL_SLICE_I :: nat where "AL_SLICE_I = 2"

text \<open>\<open>for(i = n; i < AL_MAX_REF; ++i) list[i] = AL_BAD_INDEX;\<close> for \<open>n\<close> from 0.\<close>

definition cut_list :: "int \<Rightarrow> index list \<Rightarrow> index list" where
  "cut_list n l = map (\<lambda>i. if n \<le> int i \<and> i < AL_MAX_REF then AL_BAD_INDEX else l ! i) [0..<length l]"

definition num_valid :: "index list \<Rightarrow> int" where
  "num_valid l = int (length (filter AL_IS_VALID_INDEX (take AL_MAX_REF l)))"

definition constructRefPicList :: "AL_TDpb \<Rightarrow> AL_TAvcSliceHdr \<Rightarrow> index list \<times> index list \<Rightarrow> (bool \<times> AL_TDpb \<times> index list \<times> index list) option" where
  "constructRefPicList d sl ls = do {
     d \<leftarrow> AL_Dpb_PictNumberProcess d sl;
     ls \<leftarrow> AL_AVC_Dpb_InitPictList d sl ls;
     (l0, l1) \<leftarrow> AL_AVC_Dpb_ReorderPictList d sl ls;
     if sh_num_ref_idx_l0_active_minus1 sl + 1 < 0 \<or> sh_num_ref_idx_l1_active_minus1 sl + 1 < 0 then None
     else do {
       let l0 = cut_list (sh_num_ref_idx_l0_active_minus1 sl + 1) l0;
       let l1 = cut_list (sh_num_ref_idx_l1_active_minus1 sl + 1) l1;
       if sh_slice_type sl \<noteq> AL_SLICE_I \<and> num_valid l0 < sh_num_ref_idx_l0_active_minus1 sl + 1
           \<or> sh_slice_type sl = AL_SLICE_B \<and> num_valid l1 < sh_num_ref_idx_l1_active_minus1 sl + 1
       then Some (False, d, l0, l1)
       else if num_valid l0 + num_valid l1 > 0 then do {
         ex \<leftarrow> AL_Dpb_HasExistingRef d (l0, l1);
         Some (ex, d, l0, l1) }
       else Some (True, d, l0, l1) } }"

text \<open>The picture structure of the buffer, which the insertion copies, is an argument here.\<close>

definition updatePictManager :: "AL_TAvcDpb \<Rightarrow> int \<Rightarrow> index \<Rightarrow> index \<Rightarrow> nat \<Rightarrow> AL_TAvcSliceHdr \<Rightarrow> AL_TAvcDpb option" where
  "updatePictManager a ePicStruct tFrameID tAnnexID eNUT sl = do {
     let bClearRef = AL_AVC_IsIDR eNUT;
     d \<leftarrow> (if bClearRef then sApiFlush (av_dpb a) else Some (av_dpb a));
     let a = a\<lparr>av_iPrevFrameNum := sh_frame_num sl\<rparr>;
     d \<leftarrow> AL_AVC_Dpb_EndParsing d;
     let eMarkingFlag = (if sh_nal_ref_idc sl > 0 \<or> bClearRef
       then if sh_long_term_reference_flag sl \<noteq> 0 then LONG_TERM_REF else SHORT_TERM_REF else UNUSED_FOR_REF);
     d \<leftarrow> sApiInsert d tFrameID tAnnexID \<lparr>ip_iFramePOC = dp_iCurFramePOC d, ip_ePicStruct = ePicStruct, ip_iPocLsb = 0,
       ip_bPicOutputFlag = True, ip_eMarkingFlag = eMarkingFlag, ip_bNonExisting = False, ip_eNUT = 0, ip_bSubpicFlag = False\<rparr>;
     (a, d) \<leftarrow> (if sh_nal_ref_idc sl \<noteq> 0 then do {
         d \<leftarrow> AL_Dpb_MarkingProcess d sl;
         Some (if AL_Dpb_LastHasMMCO5 d then (a\<lparr>av_iPrevFrameNum := 0\<rparr>, d\<lparr>dp_iCurFramePOC := 0\<rparr>) else (a, d)) }
       else Some (a, d));
     d \<leftarrow> AL_Dpb_AVC_Cleanup d;
     Some (a\<lparr>av_dpb := d\<rparr>) }"

section \<open>Closed forms\<close>

lemma to_int32_id: "- 2147483648 \<le> z \<Longrightarrow> z < 2147483648 \<Longrightarrow> to_int32 z = z"
  by (simp add: to_int32_def)

lemma add_offsets_sum: "n \<le> length off \<Longrightarrow> add_offsets off n s = Some (s + (\<Sum>k<n. off ! k))"
  by (induction n) (simp_all add: add.assoc)

text \<open>The offsets repeat with the cycle.\<close>

lemma cycle_sum:
  fixes off :: "int list"
  assumes "0 < n" "r \<le> n"
  shows "(\<Sum>k<q * n + r. off ! (k mod n)) = int q * (\<Sum>k<n. off ! k) + (\<Sum>k<r. off ! k)"
proof -
  have part: "(\<Sum>k<m + r. off ! (k mod n)) = (\<Sum>k<m. off ! (k mod n)) + (\<Sum>k<r. off ! k)" if "m mod n = 0" "r \<le> n" for m r
    using that(2)
  proof (induction r)
    case (Suc r)
    moreover have "(m + r) mod n = r" using Suc.prems that(1) by (simp add: mod_add_left_eq [symmetric])
    ultimately show ?case by simp
  qed simp
  have "(\<Sum>k<q * n. off ! (k mod n)) = int q * (\<Sum>k<n. off ! k)"
  proof (induction q)
    case (Suc q)
    have "(\<Sum>k<q * n + n. off ! (k mod n)) = (\<Sum>k<q * n. off ! (k mod n)) + (\<Sum>k<n. off ! k)" by (rule part) simp_all
    then show ?case using Suc by (simp add: algebra_simps)
  qed simp
  then show ?thesis using part [of "q * n" r] assms(2) by simp
qed

text \<open>The frame numbers that a gap fills, from \<open>u\<close> up to the one before \<open>c\<close>, modulo \<open>m\<close>.\<close>

definition gap_numbers :: "int \<Rightarrow> int \<Rightarrow> int \<Rightarrow> int list" where
  "gap_numbers m u c = map (\<lambda>i. (u + int i) mod m) [0..<nat ((c - u) mod m)]"

lemma gap_numbers_step:
  assumes "0 < m" "0 \<le> u" "u < m" "0 \<le> c" "c < m"
  shows "gap_numbers m u c = (if c = u then [] else u # gap_numbers m ((u + 1) mod m) c)"
    "c \<noteq> u \<Longrightarrow> nat ((c - u) mod m) = Suc (nat ((c - (u + 1) mod m) mod m))"
proof -
  have s: "(c - (u + 1) mod m) mod m = (c - u) mod m - 1" "0 < (c - u) mod m" if "c \<noteq> u"
  proof -
    have ne: "(c - u) mod m \<noteq> 0"
    proof
      assume "(c - u) mod m = 0"
      then have "c mod m = u mod m" by (simp add: mod_eq_dvd_iff mod_eq_0_iff_dvd)
      then show False using assms that by simp
    qed
    moreover have "0 \<le> (c - u) mod m" using assms(1) by simp
    ultimately show p: "0 < (c - u) mod m" by simp
    have "(c - (u + 1) mod m) mod m = ((c - u) mod m - 1) mod m" by (simp add: mod_simps diff_diff_eq)
    also have "\<dots> = (c - u) mod m - 1" using p pos_mod_bound [OF assms(1), of "c - u"] by (intro mod_pos_pos_trivial) linarith+
    finally show "(c - (u + 1) mod m) mod m = (c - u) mod m - 1" .
  qed
  show n: "nat ((c - u) mod m) = Suc (nat ((c - (u + 1) mod m) mod m))" if "c \<noteq> u"
    using s [OF that] by simp
  show "gap_numbers m u c = (if c = u then [] else u # gap_numbers m ((u + 1) mod m) c)"
  proof (cases "c = u")
    case False
    let ?k = "nat ((c - (u + 1) mod m) mod m)"
    have "[0..<Suc ?k] = 0 # map Suc [0..<?k]" by (simp add: upt_conv_Cons map_Suc_upt del: upt_Suc)
    then show ?thesis
      using False assms by (simp add: gap_numbers_def n [OF False] mod_simps ac_simps del: upt_Suc)
  qed (simp add: gap_numbers_def)
qed

lemma gap_loop_fold:
  assumes "0 \<le> u" "u < max_frame_num sl" "0 \<le> sh_frame_num sl" "sh_frame_num sl < max_frame_num sl"
    "nat ((sh_frame_num sl - u) mod max_frame_num sl) < f"
  shows "gap_loop f sl u a = foldM (gap_frame sl) (gap_numbers (max_frame_num sl) u (sh_frame_num sl)) a"
  using assms
proof (induction f arbitrary: u a)
  case (Suc f)
  let ?m = "max_frame_num sl" and ?c = "sh_frame_num sl" and ?v = "(u + 1) mod max_frame_num sl"
  have m: "0 < ?m" using Suc.prems by linarith
  show ?case
  proof (cases "?c = u")
    case True
    then show ?thesis by (simp add: gap_numbers_def)
  next
    case False
    note st = gap_numbers_step [OF m Suc.prems(1-4)]
    have v: "0 \<le> ?v" "?v < ?m" using m by simp_all
    have "nat ((?c - ?v) mod ?m) < f" using Suc.prems(5) st(2) [OF False] by simp
    then have ih: "gap_loop f sl ?v b = foldM (gap_frame sl) (gap_numbers ?m ?v ?c) b" for b
      by (rule Suc.IH [OF v Suc.prems(3,4)])
    have g: "gap_numbers ?m u ?c = u # gap_numbers ?m ?v ?c" using st(1) False by simp
    show ?thesis unfolding g foldM.simps gap_loop.simps ih using False by simp
  qed
qed simp

end
