(* ===== verification/Avc_Props.thy ===== *)
theory Avc_Props
  imports Avc_PictMngr Mark_Props
begin

text \<open>
  The properties of the AVC picture manager (\<open>Avc_PictMngr.c\<close>, \<open>DPB.c\<close>): the reference lists of P and B
  slices, their modification, the picture order count of the three types, the gaps in \<open>frame_num\<close>
  and the end of the parsing of a picture.
\<close>

section \<open>The initial reference lists\<close>

text \<open>
  C27: the list of a P slice is filled, in any reachable state with at most 16 references, with the
  short-term references in reverse decoding order followed by the other references in decoding
  order; the rest of the first 16 entries is invalid, list 1 is empty, and nothing else is written.
\<close>

theorem p_slice_list:
  assumes "dpb_reach d" "dp_uCountRef d \<le> AL_MAX_REF" "sh_slice_type sl = AL_SLICE_P \<or> sh_slice_type sl = AL_SLICE_SP"
    "AL_MAX_REF \<le> length l0"
  shows "let R = rev (filter (is_short d) (dec_order d)) @ filter (p_long d) (dec_order d) in
    length R = dp_uCountRef d \<and> set R = refs d \<and> distinct R
    \<and> AL_AVC_Dpb_InitPictList d sl (l0, l1) = Some
        (R @ replicate (AL_MAX_REF - length R) AL_BAD_INDEX @ drop AL_MAX_REF l0, replicate AL_MAX_REF AL_BAD_INDEX @ drop AL_MAX_REF l1)"
proof -
  note ok = reach_ok [OF assms(1)]
  let ?R = "p_refs d (dec_order d)" and ?l = "replicate AL_MAX_REF AL_BAD_INDEX @ drop AL_MAX_REF l0"
  note D = dpb_ok_dec(2,3) [OF ok] and rl = refs_listed [OF ok]
  have dist: "distinct ?R" using D(1) by (auto simp: p_refs_def p_long_def)
  have set: "set ?R = refs d" unfolding rl(1) using D(2) short_or_long(1) by (auto simp: p_refs_def p_long_def)
  have len: "length ?R = dp_uCountRef d" using distinct_card [OF dist] rl(4) set by simp
  have "AL_Dpb_InitPSlice_RefList d ?l = Some (?R @ drop (length ?R) ?l)"
    by (rule AL_Dpb_InitPSlice_RefList_ok [OF ok assms(2)]) simp
  moreover have "drop (length ?R) ?l = replicate (AL_MAX_REF - length ?R) AL_BAD_INDEX @ drop AL_MAX_REF l0"
    using len assms(2) by simp
  ultimately have "AL_AVC_Dpb_InitPictList d sl (l0, l1) = Some
      (?R @ replicate (AL_MAX_REF - length ?R) AL_BAD_INDEX @ drop AL_MAX_REF l0, replicate AL_MAX_REF AL_BAD_INDEX @ drop AL_MAX_REF l1)"
    using assms(3) by (auto simp: AL_AVC_Dpb_InitPictList_def Let_def)
  then show ?thesis using len set dist unfolding p_refs_def by (simp add: Let_def)
qed

definition list_view :: "AL_TDpb \<Rightarrow> bool list \<times> bool list \<times> int list \<times> nat" where
  "list_view d = (map (is_short d) [0, 1], map (p_long d) [0, 1], map (\<lambda>y. nd_iFramePOC (nd d y)) [0, 1], dp_uCountRef d)"

lemma list_view_refs: "list_view demo_refs = ([True, True], [False, False], [4, 2], 2)"
  by code_simp

lemma demo_refs_kinds:
  "is_short demo_refs 0" "is_short demo_refs 1" "\<not> p_long demo_refs 0" "\<not> p_long demo_refs 1" "dp_uCountRef demo_refs = 2"
  "\<not> is_long demo_refs 0" "\<not> is_long demo_refs 1" "nd_iFramePOC (nd demo_refs 0) = 4" "nd_iFramePOC (nd demo_refs 1) = 2"
  using list_view_refs by (simp_all add: list_view_def is_short_def is_long_def)

theorem p_slice_list_witness:
  "AL_AVC_Dpb_InitPictList demo_refs (demo_slice 0 0 []) (replicate 17 0, replicate 17 0)
    = Some ([1, 0] @ replicate 14 (-1) @ [0], replicate 16 (-1) @ [0])"
proof -
  have "sh_slice_type (demo_slice 0 0 []) = AL_SLICE_P" by (simp add: demo_slice_def AL_SLICE_P_def)
  then show ?thesis
    using p_slice_list [of demo_refs "demo_slice 0 0 []" "replicate 17 0" "replicate 17 0"] demo_refs_reach demo_refs_kinds demo_refs_view(2)
    by (simp add: AL_MAX_REF_def AL_BAD_INDEX_def Let_def numeral_eq_Suc)
qed

text \<open>
  C28: the lists of a B slice: list 0 holds the short-term references before the current picture from
  the nearest back, then those after it from the nearest on, then the long-term ones in decoding
  order; list 1 starts with those after; when the two are the same and have more than one entry,
  the first two entries of list 1 are exchanged.
\<close>

theorem b_slice_lists:
  assumes "dpb_reach d" "dp_uCountRef d \<le> AL_MAX_REF" "sh_slice_type sl = AL_SLICE_B" "AL_MAX_REF \<le> length l0" "AL_MAX_REF \<le> length l1"
  shows "let bef = filter (before d (dp_iCurFramePOC d)) (poc_order d); beh = filter (behind d (dp_iCurFramePOC d)) (poc_order d);
      lng = filter (is_long d) (dec_order d); R0 = rev bef @ beh @ lng; R1 = beh @ rev bef @ lng;
      pad = replicate (AL_MAX_REF - length R0) AL_BAD_INDEX in
    length R0 \<le> AL_MAX_REF \<and> AL_AVC_Dpb_InitPictList d sl (l0, l1)
      = Some (R0 @ pad @ drop AL_MAX_REF l0, (if 1 < length R0 \<and> R1 = R0 then swapped R1 else R1) @ pad @ drop AL_MAX_REF l1)"
proof -
  note ok = reach_ok [OF assms(1)]
  let ?poc = "dp_iCurFramePOC d"
  let ?R0 = "b_refs0 d ?poc (poc_order d) (dec_order d)" and ?R1 = "b_refs1 d ?poc (poc_order d) (dec_order d)"
  let ?l0 = "replicate AL_MAX_REF AL_BAD_INDEX @ drop AL_MAX_REF l0" and ?l1 = "replicate AL_MAX_REF AL_BAD_INDEX @ drop AL_MAX_REF l1"
  have len: "length ?R0 \<le> AL_MAX_REF"
    using b_refs0_length [OF ok, of ?poc] assms(2) by simp
  have "AL_Dpb_InitBSlice_RefList d ?poc (?l0, ?l1) = Some (?R0 @ drop (length ?R0) ?l0,
     (if 1 < length ?R0 \<and> ?R1 = ?R0 then swapped ?R1 else ?R1) @ drop (length ?R0) ?l1)"
    by (rule AL_Dpb_InitBSlice_RefList_ok [OF ok assms(2)]) simp_all
  moreover have "drop (length ?R0) ?l0 = replicate (AL_MAX_REF - length ?R0) AL_BAD_INDEX @ drop AL_MAX_REF l0"
    "drop (length ?R0) ?l1 = replicate (AL_MAX_REF - length ?R0) AL_BAD_INDEX @ drop AL_MAX_REF l1"
    using len by simp_all
  ultimately have "AL_AVC_Dpb_InitPictList d sl (l0, l1)
      = Some (?R0 @ replicate (AL_MAX_REF - length ?R0) AL_BAD_INDEX @ drop AL_MAX_REF l0,
          (if 1 < length ?R0 \<and> ?R1 = ?R0 then swapped ?R1 else ?R1) @ replicate (AL_MAX_REF - length ?R0) AL_BAD_INDEX @ drop AL_MAX_REF l1)"
    using assms(3) by (simp add: AL_AVC_Dpb_InitPictList_def Let_def AL_SLICE_B_def AL_SLICE_P_def AL_SLICE_SP_def)
  then show ?thesis using len unfolding b_refs0_def b_refs1_def by (simp only: Let_def)
qed

lemma demo_refs_poc: "dp_iCurFramePOC demo_refs = 0"
  by code_simp

theorem b_slice_lists_witness:
  "AL_AVC_Dpb_InitPictList demo_refs ((demo_slice 0 0 [])\<lparr>sh_slice_type := 0\<rparr>) (replicate 17 0, replicate 17 0)
    = Some ([1, 0] @ replicate 14 (-1) @ [0], [0, 1] @ replicate 14 (-1) @ [0])"
  using b_slice_lists [of demo_refs "(demo_slice 0 0 [])\<lparr>sh_slice_type := 0\<rparr>" "replicate 17 0" "replicate 17 0"]
    demo_refs_reach demo_refs_kinds demo_refs_view(1,2) demo_refs_poc
  by (simp add: AL_MAX_REF_def AL_BAD_INDEX_def Let_def numeral_eq_Suc AL_SLICE_B_def before_def behind_def swapped_def)

section \<open>Their modification\<close>


definition demo_modif :: AL_TAvcSliceHdr where
  "demo_modif = (demo_slice 1 0 [])\<lparr>sh_num_ref_idx_l0_active_minus1 := 1, sh_abs_diff_pic_num_minus1_l0 := 1 # replicate 16 0\<rparr>"

definition demo_numbered :: AL_TDpb where "demo_numbered = the (AL_Dpb_PictNumberProcess demo_refs demo_modif)"

lemma demo_numbered_reach: "dpb_reach demo_numbered"
proof -
  have "AL_Dpb_PictNumberProcess demo_refs demo_modif = Some demo_numbered"
    using AL_Dpb_PictNumberProcess_ok [OF reach_ok [OF demo_refs_reach], of demo_modif] by (auto simp: demo_numbered_def)
  then show ?thesis by (rule dpb_reach.step [OF demo_refs_reach dpb_step.numbers])
qed

lemma demo_numbered_view:
  "(dec_order demo_numbered, map (\<lambda>y. nd_iPicNum (nd demo_numbered y)) [0, 1], map (is_short demo_numbered) [0, 1])
    = ([0, 1], [- 1, 2147483631], [True, True])"
  by code_simp

lemma demo_modif_numbers:
  "num_ref_idx demo_modif 0 = 2" "pic_num_no_wrap demo_modif 0 (to_int32 (1 + 1)) 1 = 15" "modif_pic_num demo_modif 15 = - 1"
  "max_frame_num demo_modif = 16" "length (sh_abs_diff_pic_num_minus1_l0 demo_modif) = 17" "sh_abs_diff_pic_num_minus1_l0 demo_modif ! 0 = 1"
  by code_simp+


section \<open>The picture order count\<close>

text \<open>A stream of type 0: each picture carries the low bits of its order; pictures with a mark are references.\<close>

definition poc_slice :: "AL_TAvcSliceHdr \<Rightarrow> int \<times> bool \<Rightarrow> AL_TAvcSliceHdr" where
  "poc_slice sl = (\<lambda>(poc, ref). sl\<lparr>sh_pic_order_cnt_lsb := poc mod max_poc_lsb sl, sh_nal_ref_idc := if ref then 1 else 0\<rparr>)"

primrec decode_pocs :: "AL_TAvcSliceHdr \<Rightarrow> (int \<times> bool) list \<Rightarrow> AL_TAvcDpb \<Rightarrow> int list option" where
  "decode_pocs sl [] a = Some []"
| "decode_pocs sl (x # xs) a = do {
     a \<leftarrow> AL_AVC_Dpb_SetCurrentPOC a (poc_slice sl x);
     ps \<leftarrow> decode_pocs sl xs a;
     Some (dp_iCurFramePOC (av_dpb a) # ps) }"

text \<open>Each order is within half the range of the low bits of the order of the reference before it.\<close>

primrec near_refs :: "int \<Rightarrow> int \<Rightarrow> (int \<times> bool) list \<Rightarrow> bool" where
  "near_refs m prev [] \<longleftrightarrow> True"
| "near_refs m prev (x # xs) \<longleftrightarrow> - m < 2 * (fst x - prev) \<and> 2 * (fst x - prev) \<le> m \<and> \<bar>fst x\<bar> < 2 ^ 30
     \<and> near_refs m (if snd x then fst x else prev) xs"

definition poc0_ok :: "AL_TAvcSliceHdr \<Rightarrow> AL_TAvcDpb \<Rightarrow> int \<Rightarrow> bool" where
  "poc0_ok sl a prev \<longleftrightarrow> av_iPrevPocLSB a = prev mod max_poc_lsb sl \<and> av_iPrevPocMSB a = prev - prev mod max_poc_lsb sl
     \<and> \<bar>prev\<bar> < 2 ^ 30 \<and> \<not> AL_Dpb_LastHasMMCO5 (av_dpb a)"

definition poc0_stream :: "AL_TAvcSliceHdr \<Rightarrow> bool" where
  "poc0_stream sl \<longleftrightarrow> sps_pic_order_cnt_type (sh_pSPS sl) = 0 \<and> sps_log2_max_pic_order_cnt_lsb_minus4 (sh_pSPS sl) \<le> 12
     \<and> sh_delta_pic_order_cnt_bottom sl = 0 \<and> \<not> AL_AVC_IsIDR (sh_nal_unit_type sl)"

lemma max_poc_lsb_range: "sps_log2_max_pic_order_cnt_lsb_minus4 (sh_pSPS sl) \<le> 12 \<Longrightarrow> 16 \<le> max_poc_lsb sl \<and> max_poc_lsb sl \<le> 65536 \<and> even (max_poc_lsb sl)"
proof -
  assume a: "sps_log2_max_pic_order_cnt_lsb_minus4 (sh_pSPS sl) \<le> 12"
  have "(2 :: int) ^ 4 \<le> 2 ^ (sps_log2_max_pic_order_cnt_lsb_minus4 (sh_pSPS sl) + 4)" by (intro power_increasing) simp_all
  moreover have "(2 :: int) ^ (sps_log2_max_pic_order_cnt_lsb_minus4 (sh_pSPS sl) + 4) \<le> 2 ^ 16" using a by (intro power_increasing) simp_all
  ultimately show ?thesis by (simp add: max_poc_lsb_def)
qed

lemma unwrap:
  fixes m prev poc :: int
  assumes "0 < m" "even m" "- m < 2 * (poc - prev)" "2 * (poc - prev) \<le> m"
  shows "poc mod m < prev mod m \<Longrightarrow> m div 2 \<le> prev mod m - poc mod m \<Longrightarrow> poc - poc mod m = prev - prev mod m + m"
    "prev mod m < poc mod m \<Longrightarrow> m div 2 < poc mod m - prev mod m \<Longrightarrow> poc - poc mod m = prev - prev mod m - m"
    "\<not> (poc mod m < prev mod m \<and> m div 2 \<le> prev mod m - poc mod m) \<Longrightarrow>
      \<not> (prev mod m < poc mod m \<and> m div 2 < poc mod m - prev mod m) \<Longrightarrow> poc - poc mod m = prev - prev mod m"
proof -
  obtain h where h: "m = 2 * h" using assms(2) by blast
  obtain q w where q: "q = poc div m - prev div m" and w: "w = m * q" by blast
  have e: "poc - poc mod m = prev - prev mod m + w" by (simp add: q w minus_mod_eq_mult_div algebra_simps)
  have r: "0 \<le> poc mod m" "poc mod m < m" "0 \<le> prev mod m" "prev mod m < m" using assms(1) by simp_all
  obtain a p where ap: "a = poc mod m" "p = prev mod m" by blast
  note e' = e [folded ap] and r' = r [folded ap]
  have b1: "- m - h < w" using e' r' assms(3,4) h by presburger
  have b2: "w < m + h + 1" using e' r' assms(3,4) h by presburger
  have "m * (-2) < m * q" "m * q < m * 2" using b1 b2 h assms(1) w by linarith+
  then have "-2 < q" "q < 2" using assms(1) by (simp_all only: mult_less_cancel_left_pos)
  then have "q = -1 \<or> q = 0 \<or> q = 1" by linarith
  then have mq: "w = - m \<or> w = 0 \<or> w = m" using w by auto
  have "poc - a = prev - p + m" if "a < p" "m div 2 \<le> p - a" using that mq e' assms(3,4) h by auto
  then show "poc - poc mod m = prev - prev mod m + m" if "poc mod m < prev mod m" "m div 2 \<le> prev mod m - poc mod m"
    using that unfolding ap by blast
  have "poc - a = prev - p - m" if "p < a" "m div 2 < a - p" using that mq e' assms(3,4) h by auto
  then show "poc - poc mod m = prev - prev mod m - m" if "prev mod m < poc mod m" "m div 2 < poc mod m - prev mod m"
    using that unfolding ap by blast
  have "poc - a = prev - p" if "\<not> (a < p \<and> m div 2 \<le> p - a)" "\<not> (p < a \<and> m div 2 < a - p)"
    using that mq e' assms(3,4) h by auto
  then show "poc - poc mod m = prev - prev mod m" if "\<not> (poc mod m < prev mod m \<and> m div 2 \<le> prev mod m - poc mod m)"
      "\<not> (prev mod m < poc mod m \<and> m div 2 < poc mod m - prev mod m)"
    using that unfolding ap by blast
qed

lemma poc0_step:
  assumes "poc0_stream sl" "poc0_ok sl a prev" "near_refs (max_poc_lsb sl) prev (x # xs)"
  shows "\<exists>a'. AL_AVC_Dpb_SetCurrentPOC a (poc_slice sl x) = Some a' \<and> dp_iCurFramePOC (av_dpb a') = fst x
    \<and> poc0_ok sl a' (if snd x then fst x else prev)"
proof -
  let ?m = "max_poc_lsb sl" and ?s = "poc_slice sl x"
  obtain poc ref where x: "x = (poc, ref)" by (cases x)
  have st: "sps_pic_order_cnt_type (sh_pSPS ?s) = 0" "sh_delta_pic_order_cnt_bottom ?s = 0" "\<not> AL_AVC_IsIDR (sh_nal_unit_type ?s)"
    "max_poc_lsb ?s = ?m" "sh_pic_order_cnt_lsb ?s = poc mod ?m" "sh_nal_ref_idc ?s = (if ref then 1 else 0)"
    using assms(1) by (simp_all add: poc0_stream_def poc_slice_def x max_poc_lsb_def)
  have m: "16 \<le> ?m" "?m \<le> 65536" "even ?m" using max_poc_lsb_range [of sl] assms(1) by (simp_all add: poc0_stream_def)
  have av: "av_iPrevPocLSB a = prev mod ?m" "av_iPrevPocMSB a = prev - prev mod ?m" "\<not> AL_Dpb_LastHasMMCO5 (av_dpb a)" "\<bar>prev\<bar> < 2 ^ 30"
    using assms(2) by (simp_all add: poc0_ok_def)
  have nr: "- ?m < 2 * (poc - prev)" "2 * (poc - prev) \<le> ?m" "\<bar>poc\<bar> < 2 ^ 30" using assms(3) x by simp_all
  note un = unwrap [OF _ m(3) nr(1,2)]
  let ?r = "poc mod ?m" and ?p = "prev mod ?m"
  have bounds: "0 \<le> ?r" "?r < ?m" "0 \<le> ?p" "?p < ?m" using m by simp_all
  have small: "to_int32 (poc - ?r) = poc - ?r" "to_int32 poc = poc"
  proof -
    obtain c where c: "c = ?r" by blast
    have "- 2147483648 \<le> poc - c" "poc - c < 2147483648" using nr(3) bounds(1,2) [folded c] m(2) by simp_all
    then show "to_int32 (poc - ?r) = poc - ?r" unfolding c by (rule to_int32_id)
    show "to_int32 poc = poc" using nr(3) by (intro to_int32_id) simp_all
  qed
  let ?msb = "if ?r < ?p \<and> ?p - ?r \<ge> ?m div 2 then to_int32 (prev - ?p + ?m)
           else if ?r > ?p \<and> ?r - ?p > ?m div 2 then to_int32 (prev - ?p - ?m) else prev - ?p"
  have msb: "?msb = poc - ?r"
  proof (cases "?r < ?p \<and> ?p - ?r \<ge> ?m div 2")
    case True
    then show ?thesis unfolding if_P [OF True] using un(1) m(1) small(1) by simp
  next
    case c1: False
    show ?thesis
    proof (cases "?r > ?p \<and> ?r - ?p > ?m div 2")
      case True
      then show ?thesis unfolding if_not_P [OF c1] if_P [OF True] using un(2) m(1) small(1) by simp
    next
      case False
      show ?thesis unfolding if_not_P [OF c1] if_not_P [OF False] using un(3) [OF _ c1 False] m(1) by simp
    qed
  qed
  have t: "AL_sGetPocType0 a ?s = (let b = a\<lparr>av_iTopFieldOrderCnt := poc, av_iBotFieldOrderCnt := poc\<rparr> in
      if ref then b\<lparr>av_iPrevPocLSB := ?r, av_iPrevPocMSB := poc - ?r\<rparr> else b)"
    unfolding AL_sGetPocType0_def Let_def st av if_not_P [OF st(3)] if_not_P [OF av(3)] prod.case msb
    using small(2) by simp
  have "dp_bLastHasMMCO5 ((av_dpb a)\<lparr>dp_iCurFramePOC := poc\<rparr>) = dp_bLastHasMMCO5 (av_dpb a)" by simp
  then show ?thesis
    unfolding AL_AVC_Dpb_SetCurrentPOC_def AL_sCalculatePOC_def Let_def t [unfolded Let_def] st(1)
    using av nr(3) by (cases ref) (simp_all add: poc0_ok_def x AL_Dpb_LastHasMMCO5_def)
qed

text \<open>
  C24: a stream of type 0 is decoded to the orders it was made from: when each order is within half the range
  of its low bits of the last reference before it, the low bits alone give every order back, whatever
  mixture of references and other pictures the stream has and however often the low bits wrap.
\<close>

theorem poc_type0_roundtrip:
  assumes "poc0_stream sl" "poc0_ok sl a prev" "near_refs (max_poc_lsb sl) prev xs"
  shows "decode_pocs sl xs a = Some (map fst xs)"
  using assms(2,3)
proof (induction xs arbitrary: a prev)
  case (Cons x xs)
  obtain a' where "AL_AVC_Dpb_SetCurrentPOC a (poc_slice sl x) = Some a'" "dp_iCurFramePOC (av_dpb a') = fst x"
    "poc0_ok sl a' (if snd x then fst x else prev)"
    using poc0_step [OF assms(1) Cons.prems] by blast
  moreover have "near_refs (max_poc_lsb sl) (if snd x then fst x else prev) xs" using Cons.prems(2) by simp
  ultimately show ?case using Cons.IH by simp
qed simp

definition demo_avc :: AL_TAvcDpb where
  "demo_avc = \<lparr>av_dpb = demo_init, av_iPrevPocLSB = 0, av_iPrevPocMSB = 0, av_iPrevFrameNumOffset = 0, av_iPrevFrameNum = 0,
     av_iTopFieldOrderCnt = 0, av_iBotFieldOrderCnt = 0\<rparr>"

theorem poc_type0_roundtrip_witness:
  "decode_pocs (demo_slice 0 0 []) [(8, True), (4, False), (16, True), (12, False), (20, True)] demo_avc
    = Some [8, 4, 16, 12, 20]"
proof -
  have "max_poc_lsb (demo_slice 0 0 []) = 16" "poc0_stream (demo_slice 0 0 [])"
    by (simp_all add: max_poc_lsb_def demo_sps_def poc0_stream_def demo_slice_def AL_AVC_IsIDR_def AL_AVC_NUT_VCL_IDR_def)
  moreover have "\<not> AL_Dpb_LastHasMMCO5 demo_init" by code_simp
  ultimately show ?thesis
    using poc_type0_roundtrip [of "demo_slice 0 0 []" demo_avc 0 "[(8, True), (4, False), (16, True), (12, False), (20, True)]"]
    by (simp add: poc0_ok_def demo_avc_def)
qed

text \<open>
  C25: type 1 computes the order of the standard: the sum of the offsets of all the reference frames since
  the last IDR picture, the list of offsets repeated as often as needed, plus the offset of a
  picture that is no reference and the differences of the slice header. The code takes whole
  cycles and a rest.
\<close>

theorem poc_type1_sum:
  assumes "sps_pic_order_cnt_type (sh_pSPS sl) = 1" "n = sps_num_ref_frames_in_pic_order_cnt_cycle (sh_pSPS sl)"
    "off = sps_offset_for_ref_frame (sh_pSPS sl)" "n \<le> length off" "sh_delta_pic_order_cnt sl = [d0, d1]"
    "ofs = frame_num_offset (after_mmco5 a sl) sl" "0 \<le> ofs" "0 \<le> sh_frame_num sl"
    "k = (if n = 0 then 0 else if sh_nal_ref_idc sl = 0 then nat (ofs + sh_frame_num sl) - 1 else nat (ofs + sh_frame_num sl))"
    "tp = to_int32 ((\<Sum>i<k. off ! (i mod n)) + (if sh_nal_ref_idc sl = 0 then sps_offset_for_non_ref_pic (sh_pSPS sl) else 0) + d0)"
    "bt = to_int32 (tp + sps_offset_for_top_to_bottom_field (sh_pSPS sl) + d1)"
  shows "\<exists>a'. AL_AVC_Dpb_SetCurrentPOC a sl = Some a' \<and> av_iTopFieldOrderCnt a' = tp \<and> av_iBotFieldOrderCnt a' = bt
    \<and> dp_iCurFramePOC (av_dpb a') = min tp bt \<and> av_iPrevFrameNumOffset a' = ofs"
proof -
  let ?E = "\<Sum>i<n. off ! i"
  obtain abs1 where abs1: "abs1 = (if n \<noteq> 0 then ofs + sh_frame_num sl else 0)" by blast
  obtain abs where abs: "abs = (if sh_nal_ref_idc sl = 0 \<and> abs1 > 0 then abs1 - 1 else abs1)" by blast
  have k: "k = nat abs" "0 \<le> abs" "n = 0 \<Longrightarrow> abs = 0" using assms(7-9) abs1 abs by auto
  have ex: "(if abs > 0 then add_offsets off (nat ((abs - 1) mod int n) + 1) ((abs - 1) div int n * ?E) else Some 0)
      = Some (\<Sum>i<k. off ! (i mod n))"
  proof (cases "abs > 0")
    case True
    then have n: "0 < n" using k(3) by (cases n) auto
    obtain q r where q: "q = nat ((abs - 1) div int n)" and r: "r = nat ((abs - 1) mod int n)" by blast
    have qr: "(abs - 1) div int n = int q" "(abs - 1) mod int n = int r" using True n q r by (simp_all add: pos_imp_zdiv_nonneg_iff)
    have rn: "r + 1 \<le> n" using qr(2) n pos_mod_bound [of "int n" "abs - 1"] by simp
    have "abs - 1 = int q * int n + int r" using mult_div_mod_eq [of "int n" "abs - 1"] qr by (simp add: mult.commute)
    then have ks: "k = q * n + (r + 1)" using k(1) True by (simp add: nat_eq_iff)
    have "(\<Sum>i<k. off ! (i mod n)) = int q * ?E + (\<Sum>i<r + 1. off ! i)" unfolding ks by (rule cycle_sum [OF n rn])
    moreover have "add_offsets off (nat (int r) + 1) (int q * ?E) = Some (int q * ?E + (\<Sum>i<r + 1. off ! i))"
      unfolding nat_int by (rule add_offsets_sum) (use rn assms(4) in simp)
    ultimately show ?thesis unfolding qr using True by (simp only: if_True)
  next
    case False
    then show ?thesis using k by simp
  qed
  let ?s = "(\<Sum>i<k. off ! (i mod n))"
  have E: "add_offsets off n 0 = Some ?E" using add_offsets_sum [OF assms(4), of 0] by simp
  have "AL_sGetPocType1 a sl = Some ((after_mmco5 a sl)\<lparr>av_iPrevFrameNumOffset := ofs, av_iTopFieldOrderCnt := tp, av_iBotFieldOrderCnt := bt\<rparr>)"
    unfolding AL_sGetPocType1_def Let_def assms(2,3,6) [symmetric] E bind.bind_lunit abs1 [symmetric] abs [symmetric] ex assms(5)
    using assms(10,11) by (cases "sh_nal_ref_idc sl = 0") (simp_all add: arr_get_def)
  then show ?thesis
    using assms(1) by (auto simp: AL_AVC_Dpb_SetCurrentPOC_def AL_sCalculatePOC_def Let_def min_def)
qed

theorem poc_type1_sum_witness:
  "\<exists>a'. AL_AVC_Dpb_SetCurrentPOC (demo_avc\<lparr>av_iPrevFrameNum := 15\<rparr>) ((demo_slice 1 0 [])\<lparr>sh_pSPS := demo_sps\<lparr>sps_pic_order_cnt_type := 1,
      sps_num_ref_frames_in_pic_order_cnt_cycle := 2, sps_offset_for_ref_frame := [3, 5]\<rparr>\<rparr>) = Some a'
    \<and> dp_iCurFramePOC (av_dpb a') = 67"
proof -
  let ?sl = "(demo_slice 1 0 [])\<lparr>sh_pSPS := demo_sps\<lparr>sps_pic_order_cnt_type := 1,
      sps_num_ref_frames_in_pic_order_cnt_cycle := 2, sps_offset_for_ref_frame := [3, 5]\<rparr>\<rparr>"
  let ?a = "demo_avc\<lparr>av_iPrevFrameNum := 15\<rparr>"
  have "\<not> AL_Dpb_LastHasMMCO5 demo_init" by code_simp
  then have o: "frame_num_offset (after_mmco5 ?a ?sl) ?sl = 16"
    by (simp add: frame_num_offset_def after_mmco5_def demo_avc_def max_frame_num_def demo_sps_def AL_AVC_IsIDR_def AL_AVC_NUT_VCL_IDR_def)
  have s: "(\<Sum>i<17. [3, 5 :: int] ! (i mod 2)) = 67" by code_simp
  have h: "sps_pic_order_cnt_type (sh_pSPS ?sl) = 1" "2 = sps_num_ref_frames_in_pic_order_cnt_cycle (sh_pSPS ?sl)"
    "[3, 5] = sps_offset_for_ref_frame (sh_pSPS ?sl)" "2 \<le> length [3, 5 :: int]" "sh_delta_pic_order_cnt ?sl = [0, 0]"
    "16 = frame_num_offset (after_mmco5 ?a ?sl) ?sl" "0 \<le> (16 :: int)" "0 \<le> sh_frame_num ?sl"
    "(17 :: nat) = (if (2 :: nat) = 0 then 0 else if sh_nal_ref_idc ?sl = 0 then nat (16 + sh_frame_num ?sl) - 1 else nat (16 + sh_frame_num ?sl))"
    using o by (simp_all add: demo_slice_def)
  have "sh_nal_ref_idc ?sl = 1" "sps_offset_for_top_to_bottom_field (sh_pSPS ?sl) = 0" by (simp_all add: demo_slice_def demo_sps_def)
  then have t: "67 = to_int32 ((\<Sum>i<17. [3, 5 :: int] ! (i mod 2)) + (if sh_nal_ref_idc ?sl = 0 then sps_offset_for_non_ref_pic (sh_pSPS ?sl) else 0) + 0)"
    "67 = to_int32 (67 + sps_offset_for_top_to_bottom_field (sh_pSPS ?sl) + 0)"
    unfolding s by (simp_all add: to_int32_def)
  show ?thesis using poc_type1_sum [OF h t] by auto
qed

text \<open>
  C26: with type 2 the order follows the decoding order: it grows by two from a reference to the next one,
  and by one to or from a picture that is no reference, also when the frame number wraps.
\<close>

theorem poc_type2_follows_decoding:
  assumes "sps_pic_order_cnt_type (sh_pSPS s1) = 2" "sh_pSPS s2 = sh_pSPS s1" "\<not> AL_AVC_IsIDR (sh_nal_unit_type s2)"
    "AL_AVC_IsIDR (sh_nal_unit_type s1) \<Longrightarrow> sh_nal_ref_idc s1 \<noteq> 0 \<and> sh_frame_num s1 = 0"
    "0 \<le> sh_frame_num s1" "sh_frame_num s1 < max_frame_num s1"
    "sh_frame_num s2 = (if sh_nal_ref_idc s1 \<noteq> 0 then (sh_frame_num s1 + 1) mod max_frame_num s1 else sh_frame_num s1)"
    "sh_nal_ref_idc s1 \<noteq> 0 \<or> sh_nal_ref_idc s2 \<noteq> 0"
    "0 \<le> av_iPrevFrameNumOffset a" "av_iPrevFrameNumOffset a < 2 ^ 28" "max_frame_num s1 \<le> 65536"
    "\<not> AL_Dpb_LastHasMMCO5 (av_dpb a)"
  shows "\<exists>a1 a2. AL_AVC_Dpb_SetCurrentPOC a s1 = Some a1
    \<and> AL_AVC_Dpb_SetCurrentPOC (a1\<lparr>av_iPrevFrameNum := sh_frame_num s1\<rparr>) s2 = Some a2
    \<and> dp_iCurFramePOC (av_dpb a2) = dp_iCurFramePOC (av_dpb a1) + (if sh_nal_ref_idc s1 \<noteq> 0 \<and> sh_nal_ref_idc s2 \<noteq> 0 then 2 else 1)"
proof -
  let ?m = "max_frame_num s1"
  obtain o1 where o1: "o1 = frame_num_offset a s1" by blast
  have ob: "0 \<le> o1" "o1 < 2 ^ 28 + 65536" using assms(5,6,9-11) o1 by (auto simp: frame_num_offset_def)
  have am: "after_mmco5 a s1 = a" using assms(12) by (simp add: after_mmco5_def)
  obtain p1 where p1: "p1 = (if AL_AVC_IsIDR (sh_nal_unit_type s1) then 0
      else if sh_nal_ref_idc s1 = 0 then 2 * (o1 + sh_frame_num s1) - 1 else 2 * (o1 + sh_frame_num s1))" by blast
  have p1': "p1 = 2 * (o1 + sh_frame_num s1) - (if sh_nal_ref_idc s1 = 0 then 1 else 0)"
    using assms(4) o1 by (auto simp: p1 frame_num_offset_def)
  have i1: "to_int32 p1 = p1" using p1' ob assms(5,6,11) by (intro to_int32_id) auto
  let ?a1 = "a\<lparr>av_iPrevFrameNumOffset := o1, av_iTopFieldOrderCnt := p1, av_iBotFieldOrderCnt := p1, av_dpb := (av_dpb a)\<lparr>dp_iCurFramePOC := p1\<rparr>\<rparr>"
  have c1: "AL_AVC_Dpb_SetCurrentPOC a s1 = Some ?a1"
    using assms(1) i1 unfolding AL_AVC_Dpb_SetCurrentPOC_def AL_sCalculatePOC_def AL_sGetPocType2_def Let_def am o1 [symmetric] p1 [symmetric]
    by simp
  let ?b = "?a1\<lparr>av_iPrevFrameNum := sh_frame_num s1\<rparr>"
  have am2: "after_mmco5 ?b s2 = ?b" using assms(12) by (simp add: after_mmco5_def AL_Dpb_LastHasMMCO5_def)
  have m2: "max_frame_num s2 = ?m" using assms(2) by (simp add: max_frame_num_def)
  obtain o2 where o2: "o2 = frame_num_offset ?b s2" by blast
  have e: "o2 + sh_frame_num s2 = o1 + sh_frame_num s1 + (if sh_nal_ref_idc s1 \<noteq> 0 then 1 else 0)"
  proof (cases "sh_nal_ref_idc s1 \<noteq> 0 \<and> sh_frame_num s1 + 1 = ?m")
    case True
    then have "sh_frame_num s2 = 0" "sh_frame_num s1 > 0 \<or> ?m = 1" using assms(5,7) by auto
    moreover have "16 \<le> ?m" by (simp add: max_frame_num_def power_add)
    ultimately show ?thesis using True o2 assms(3) m2 by (auto simp: frame_num_offset_def)
  next
    case False
    then have "sh_frame_num s2 = sh_frame_num s1 + (if sh_nal_ref_idc s1 \<noteq> 0 then 1 else 0)"
      using assms(5-7) by (auto simp: mod_pos_pos_trivial)
    then show ?thesis using o2 assms(3) by (auto simp: frame_num_offset_def)
  qed
  obtain p2 where p2: "p2 = (if sh_nal_ref_idc s2 = 0 then 2 * (o2 + sh_frame_num s2) - 1 else 2 * (o2 + sh_frame_num s2))" by blast
  have d: "p2 = p1 + (if sh_nal_ref_idc s1 \<noteq> 0 \<and> sh_nal_ref_idc s2 \<noteq> 0 then 2 else 1)"
    using e p1' p2 assms(8) by auto
  have i2: "to_int32 p2 = p2" using d p1' ob assms(5,6,11) by (intro to_int32_id) auto
  have "AL_AVC_Dpb_SetCurrentPOC ?b s2 = Some (?b\<lparr>av_iPrevFrameNumOffset := o2, av_iTopFieldOrderCnt := p2, av_iBotFieldOrderCnt := p2,
      av_dpb := (av_dpb ?b)\<lparr>dp_iCurFramePOC := p2\<rparr>\<rparr>)"
    using assms(1,2) i2
    unfolding AL_AVC_Dpb_SetCurrentPOC_def AL_sCalculatePOC_def AL_sGetPocType2_def Let_def am2 o2 [symmetric] if_not_P [OF assms(3)] p2 [symmetric]
    by simp
  then show ?thesis using c1 d by auto
qed

theorem poc_type2_follows_decoding_witness:
  "let sps = demo_sps\<lparr>sps_pic_order_cnt_type := 2\<rparr>; s1 = (demo_slice 15 0 [])\<lparr>sh_pSPS := sps\<rparr>; s2 = (demo_slice 0 0 [])\<lparr>sh_pSPS := sps, sh_nal_ref_idc := 0\<rparr> in
   \<exists>a1 a2. AL_AVC_Dpb_SetCurrentPOC demo_avc s1 = Some a1 \<and> AL_AVC_Dpb_SetCurrentPOC (a1\<lparr>av_iPrevFrameNum := 15\<rparr>) s2 = Some a2
     \<and> dp_iCurFramePOC (av_dpb a2) = dp_iCurFramePOC (av_dpb a1) + 1"
proof -
  let ?sps = "demo_sps\<lparr>sps_pic_order_cnt_type := 2\<rparr>"
  let ?s1 = "(demo_slice 15 0 [])\<lparr>sh_pSPS := ?sps\<rparr>" and ?s2 = "(demo_slice 0 0 [])\<lparr>sh_pSPS := ?sps, sh_nal_ref_idc := 0\<rparr>"
  have "\<not> AL_Dpb_LastHasMMCO5 demo_init" by code_simp
  then show ?thesis
    using poc_type2_follows_decoding [of ?s1 ?s2 demo_avc]
    by (simp add: demo_avc_def max_frame_num_def demo_sps_def demo_slice_def AL_AVC_IsIDR_def AL_AVC_NUT_VCL_IDR_def)
qed

section \<open>Gaps in the frame numbers\<close>

text \<open>
  C30: a gap in \<open>frame_num\<close> is filled with one picture that does not exist for each missing number, in order
  and modulo the range, and the loop ends; without a gap, or when gaps are not allowed, nothing happens.
\<close>

theorem gap_filled:
  assumes "0 \<le> sh_frame_num sl" "sh_frame_num sl < max_frame_num sl" "m = max_frame_num sl" "p = av_iPrevFrameNum a"
  shows "AL_AVC_PictMngr_Fill_Gap_In_FrameNum a sl =
      (if \<not> AL_AVC_IsIDR (sh_nal_unit_type sl) \<and> sh_frame_num sl \<noteq> p \<and> sh_frame_num sl \<noteq> (p + 1) mod m
          \<and> sps_gaps_in_frame_num_value_allowed_flag (sh_pSPS sl) \<noteq> 0
       then foldM (gap_frame sl) (map (\<lambda>i. (p + 1 + int i) mod m) [0..<nat ((sh_frame_num sl - (p + 1)) mod m)]) a else Some a)"
proof -
  let ?u = "(p + 1) mod m" and ?c = "sh_frame_num sl"
  have m: "0 < m" using assms(1-3) by linarith
  have u: "0 \<le> ?u" "?u < max_frame_num sl" using m assms(3) by simp_all
  have "nat ((?c - ?u) mod m) < nat m" using pos_mod_bound [OF m, of "?c - ?u"] pos_mod_sign [OF m, of "?c - ?u"] by simp
  then have "gap_loop (nat m) sl ?u a = foldM (gap_frame sl) (gap_numbers m ?u ?c) a"
    using gap_loop_fold [OF u assms(1,2)] assms(3) by simp
  moreover have "gap_numbers m ?u ?c = map (\<lambda>i. (p + 1 + int i) mod m) [0..<nat ((?c - (p + 1)) mod m)]"
    by (simp add: gap_numbers_def mod_simps)
  ultimately show ?thesis unfolding AL_AVC_PictMngr_Fill_Gap_In_FrameNum_def Let_def assms(3,4) by simp
qed

theorem gap_filled_witness:
  "AL_AVC_PictMngr_Fill_Gap_In_FrameNum (demo_avc\<lparr>av_iPrevFrameNum := 14\<rparr>) (demo_slice 1 0 [])
    = foldM (gap_frame (demo_slice 1 0 [])) [15, 0] (demo_avc\<lparr>av_iPrevFrameNum := 14\<rparr>)"
proof -
  let ?sl = "demo_slice 1 0 []" and ?a = "demo_avc\<lparr>av_iPrevFrameNum := 14\<rparr>"
  have h: "0 \<le> sh_frame_num ?sl" "sh_frame_num ?sl < max_frame_num ?sl" "16 = max_frame_num ?sl" "14 = av_iPrevFrameNum ?a"
    by (simp_all add: max_frame_num_def demo_sps_def)
  have c: "\<not> AL_AVC_IsIDR (sh_nal_unit_type ?sl) \<and> sh_frame_num ?sl \<noteq> 14 \<and> sh_frame_num ?sl \<noteq> (14 + 1) mod 16
      \<and> sps_gaps_in_frame_num_value_allowed_flag (sh_pSPS ?sl) \<noteq> 0"
    by (simp add: demo_sps_def AL_AVC_IsIDR_def AL_AVC_NUT_VCL_IDR_def)
  have e: "map (\<lambda>i. (14 + 1 + int i) mod 16) [0..<nat ((sh_frame_num ?sl - (14 + 1)) mod 16)] = [15, 0]"
    by (simp add: numeral_eq_Suc upt_conv_Cons)
  show ?thesis using gap_filled [OF h] unfolding if_P [OF c] e .
qed

section \<open>The end of the parsing of a picture\<close>

definition aged :: "AL_TDpb \<Rightarrow> AL_TDpb \<Rightarrow> bool" where
  "aged d s \<longleftrightarrow> dpb_reach s \<and> dpb_ok s (poc_order d) (lsb_order d) (dec_order d) \<and> dp_iCurFramePOC s = dp_iCurFramePOC d
     \<and> (\<forall>y. 0 \<le> y \<longrightarrow> nd_iFramePOC (nd s y) = nd_iFramePOC (nd d y) \<and> marked s y = marked d y \<and> absent s y = absent d y \<and> outp s y = outp d y)"

lemma aged_step:
  assumes "aged d s" "x \<in> set (poc_order d)"
  shows "\<exists>s'. AL_Dpb_IncrementPicLatency s x = Some s' \<and> aged d s'"
proof -
  have ok: "dpb_ok s (poc_order d) (lsb_order d) (dec_order d)" and re: "dpb_reach s" using assms(1) by (simp_all add: aged_def)
  have r: "in_range s x" using dpb_ok_parts(7) [OF ok assms(2)] .
  obtain s' where s': "AL_Dpb_IncrementPicLatency s x = Some s'" "dpb_ok s' (poc_order d) (lsb_order d) (dec_order d)"
    using AL_Dpb_IncrementPicLatency_ok [OF ok r] by blast
  have "x \<in> set (poc_order s)" using assms(2) dpb_ok_orders(1) [OF ok] by simp
  then have re': "dpb_reach s'" using dpb_reach.step [OF re dpb_step.latency [OF _ s'(1)]] by blast
  have "s' = s \<or> s' = set_nd s x (\<lambda>n. n\<lparr>nd_uPicLatency := (nd_uPicLatency n + 1) mod 2 ^ 32\<rparr>)"
    using s'(1) r by (auto simp: AL_Dpb_IncrementPicLatency_def split: if_splits)
  moreover have "dp_iCurFramePOC (set_nd s x g) = dp_iCurFramePOC s" for g by (simp add: set_nd_def)
  ultimately have f: "dp_iCurFramePOC s' = dp_iCurFramePOC s" and fl: "\<And>y. 0 \<le> y \<Longrightarrow> nd_iFramePOC (nd s' y) = nd_iFramePOC (nd s y)
      \<and> nd_eMarkingFlag (nd s' y) = nd_eMarkingFlag (nd s y) \<and> nd_bNonExisting (nd s' y) = nd_bNonExisting (nd s y)
      \<and> nd_bPicOutputFlag (nd s' y) = nd_bPicOutputFlag (nd s y)"
    using r by (auto split: if_splits)
  then show ?thesis using s' assms(1) re' by (simp add: aged_def marked_def absent_def outp_def)
qed

lemma aged_fold:
  assumes "aged d s" "set xs \<subseteq> set (poc_order d)"
  shows "\<exists>s'. foldM (\<lambda>t d. AL_Dpb_IncrementPicLatency d t) xs s = Some s' \<and> aged d s'"
  using assms
proof (induction xs arbitrary: s)
  case (Cons x xs)
  obtain s1 where "AL_Dpb_IncrementPicLatency s x = Some s1" "aged d s1" using aged_step [OF Cons.prems(1)] Cons.prems(2) by auto
  then show ?case using Cons.IH [of s1] Cons.prems(2) by simp
qed simp

text \<open>
  C31: at the end of the parsing of a picture the existing reference that already has its order, if there is one,
  is output when it was waiting for it and leaves the buffer, and no other picture leaves; the mark of
  operation 5 is cleared; the state stays one that the API reaches, so every invariant holds.
\<close>

theorem end_parsing_removes_duplicate:
  assumes "dpb_reach d"
  shows "\<exists>d'. AL_AVC_Dpb_EndParsing d = Some d' \<and> dpb_reach d' \<and> \<not> AL_Dpb_LastHasMMCO5 d'
    \<and> poc_order d' = (case filter (\<lambda>x. nd_iFramePOC (nd d x) = dp_iCurFramePOC d \<and> marked d x \<and> \<not> absent d x) (poc_order d) of
        [] \<Rightarrow> poc_order d | x # _ \<Rightarrow> removeAll x (poc_order d))"
proof -
  let ?P = "poc_order d" and ?L = "lsb_order d" and ?D = "dec_order d"
  note ok = reach_ok [OF assms]
  have "aged d d" using assms ok by (simp add: aged_def)
  then obtain d1 where d1: "foldM (\<lambda>t d. AL_Dpb_IncrementPicLatency d t) ?P d = Some d1" "aged d d1"
    using aged_fold [of d d ?P] by blast
  have ok1: "dpb_ok d1 ?P ?L ?D" and re1: "dpb_reach d1" using d1(2) by (simp_all add: aged_def)
  have w: "walk AL_REF_MNGR_MAX_BUF_SIZE next_poc (\<lambda>t d. AL_Dpb_IncrementPicLatency d t) (AL_Dpb_GetHeadPOC d) d = Some d1"
  proof -
    have "dpb_ok s' ?P ?L ?D" if s: "dpb_ok s ?P ?L ?D" "x \<in> set ?P" "AL_Dpb_IncrementPicLatency s x = Some s'" for s x s'
      using AL_Dpb_IncrementPicLatency_ok [OF s(1) dpb_ok_parts(7) [OF s(1,2)]] s(3) by simp
    then show ?thesis unfolding AL_Dpb_GetHeadPOC_def using poc_walk [OF ok, of "\<lambda>t d. AL_Dpb_IncrementPicLatency d t"] d1(1) by simp
  qed
  obtain Q where Q: "Q = (\<lambda>x. nd_iFramePOC (nd d x) = dp_iCurFramePOC d \<and> marked d x \<and> \<not> absent d x)" by blast
  have "filter (\<lambda>x. nd_iFramePOC (nd d1 x) = dp_iCurFramePOC d1 \<and> marked d1 x \<and> \<not> absent d1 x) ?P = filter Q ?P"
    using d1(2) dpb_ok_parts(7) [OF ok] unfolding Q by (intro filter_cong) (auto simp: aged_def in_range_def)
  then have se: "AL_Dpb_SearchPOC d1 (dp_iCurFramePOC d1) = Some (hd_or (filter Q ?P) AL_BAD_INDEX)"
    using searches_ok(1) [OF ok1, of "dp_iCurFramePOC d1"] by simp
  have mm: "dpb_reach (AL_Dpb_ResetMMCO5 e) \<and> \<not> AL_Dpb_LastHasMMCO5 (AL_Dpb_ResetMMCO5 e) \<and> poc_order (AL_Dpb_ResetMMCO5 e) = poc_order e"
    if "dpb_reach e" for e
  proof -
    have r: "dpb_reach (AL_Dpb_ResetMMCO5 e)" using dpb_reach.step [OF that dpb_step.mmco5] .
    have "dpb_ok (AL_Dpb_ResetMMCO5 e) (poc_order e) (lsb_order e) (dec_order e)"
      by (rule same_nodes_ok [OF reach_ok [OF that]])
        (use reach_ok [OF that] in \<open>simp_all add: AL_Dpb_ResetMMCO5_def keeps_deleted_def dpb_ok_def data_ok_def\<close>)
    then show ?thesis using r dpb_ok_orders(1) by (simp add: AL_Dpb_LastHasMMCO5_def AL_Dpb_ResetMMCO5_def)
  qed
  show ?thesis
  proof (cases "filter Q ?P")
    case Nil
    have "AL_AVC_Dpb_EndParsing d = Some (AL_Dpb_ResetMMCO5 d1)"
      unfolding AL_AVC_Dpb_EndParsing_def w bind.bind_lunit se Nil by simp
    then show ?thesis using mm [OF re1] dpb_ok_orders(1) [OF ok1] Nil unfolding Q by auto
  next
    case (Cons x xs)
    then have "x \<in> set (filter Q ?P)" by simp
    then have x: "x \<in> set ?P" by simp
    then obtain as bs where P: "?P = as @ x # bs" by (meson split_list)
    have rx: "in_range d1 x" "0 \<le> x" using dpb_ok_parts(7) [OF ok1 x(1)] by (auto simp: in_range_def)
    obtain d2 where d2: "(if outp d1 x then AL_Dpb_Display d1 x else Some d1) = Some d2" "dpb_ok d2 ?P ?L ?D" "\<not> outp d2 x" "dpb_reach d2"
    proof (cases "outp d1 x")
      case True
      obtain e where e: "AL_Dpb_Display d1 x = Some e" "dpb_ok e ?P ?L ?D" "displayed ?P (as @ [x]) d1 e"
        using AL_Dpb_Display_ok [OF ok1 P] by blast
      have "dpb_reach e" using dpb_reach.step [OF re1 dpb_step.display [OF _ e(1)]] x(1) dpb_ok_orders(1) [OF ok1] by simp
      moreover have "\<not> outp e x" using e(3) x(1) by (auto simp: displayed_def)
      ultimately show ?thesis using that True e by auto
    qed (use that ok1 re1 in auto)
    obtain d3 where d3: "AL_Dpb_Remove d2 x = Some (nd_tFrameID (nd d2 x), d3)" "dpb_ok d3 (removeAll x ?P) (removeAll x ?L) (removeAll x ?D)"
      using AL_Dpb_Remove_ok [OF d2(2) x(1) d2(3)] by blast
    have re3: "dpb_reach d3"
      using dpb_reach.step [OF d2(4) dpb_step.remove [OF _ d2(3) d3(1)]] x(1) dpb_ok_orders(1) [OF d2(2)] by simp
    have "AL_Dpb_GetOutputFlag d1 x = Some (outp d1 x)" using rx by (simp add: AL_Dpb_GetOutputFlag_def outp_def)
    then have "AL_AVC_Dpb_EndParsing d = Some (AL_Dpb_ResetMMCO5 d3)"
      unfolding AL_AVC_Dpb_EndParsing_def w bind.bind_lunit se Cons using d2(1) d3(1) rx by (cases "outp d1 x") simp_all
    then show ?thesis using mm [OF re3] dpb_ok_orders(1) [OF d3(2)] Cons unfolding Q by auto
  qed
qed

theorem end_parsing_removes_duplicate_witness:
  "\<exists>d'. AL_AVC_Dpb_EndParsing (demo_refs\<lparr>dp_iCurFramePOC := 4\<rparr>) = Some d' \<and> poc_order d' = [1]"
proof -
  let ?d = "demo_refs\<lparr>dp_iCurFramePOC := 4\<rparr>"
  have r: "dpb_reach ?d" by (rule dpb_reach.step [OF demo_refs_reach dpb_step.cur_poc])
  have o: "poc_order ?d = [1, 0]" "map (\<lambda>y. (nd_iFramePOC (nd ?d y), marked ?d y, absent ?d y)) [0, 1] = [(4, True, False), (2, True, False)]"
    by code_simp+
  then show ?thesis using end_parsing_removes_duplicate [OF r] by auto
qed

end
