(* ===== verification/Syntax_Rw.thy ===== *)
theory Syntax_Rw
  imports Rbsp_Parser
begin

text \<open>
  A calculus for the headers that \<open>lib_bitstream\<close> writes and \<open>lib_parsing\<close> reads: \<open>writes f X\<close> says what
  bits an operation on the stream appends, \<open>reads p xs v\<close> that a parser that finds the bits \<open>xs\<close> takes
  exactly these and returns \<open>v\<close>. The elements that stand under a condition in the code are written
  and read by operations that take the condition as an argument.
\<close>

section \<open>Reading\<close>

definition reads :: "(AL_TRbspParser \<Rightarrow> ('a \<times> AL_TRbspParser) option) \<Rightarrow> bool list \<Rightarrow> 'a \<Rightarrow> bool" where
  "reads p xs v \<longleftrightarrow> (\<forall>B S rp P R. rp_ok B S rp \<longrightarrow> bytes_bits B = P @ xs @ R \<longrightarrow> rp_iCurrentBitIndex rp = length P \<longrightarrow>
     length P + length xs \<le> S \<longrightarrow>
     (\<exists>rp'. p rp = Some (v, rp') \<and> rp_ok B S rp' \<and> rp_iCurrentBitIndex rp' = length P + length xs))"

lemma readsD:
  assumes "reads p xs v" "rp_ok B S rp" "bytes_bits B = P @ xs @ R" "rp_iCurrentBitIndex rp = length P" "length P + length xs \<le> S"
  shows "\<exists>rp'. p rp = Some (v, rp') \<and> rp_ok B S rp' \<and> rp_iCurrentBitIndex rp' = length P + length xs"
  using assms by (simp add: reads_def)

lemma reads_return: "reads (\<lambda>rp. Some (v, rp)) [] v"
  by (simp add: reads_def)

lemma reads_bind:
  assumes "reads p xs v" "reads (q v) ys w"
  shows "reads (\<lambda>rp. do { (a, rp) \<leftarrow> p rp; q a rp }) (xs @ ys) w"
  unfolding reads_def
proof (intro allI impI)
  fix B S rp P R
  assume a: "rp_ok B S rp" "bytes_bits B = P @ (xs @ ys) @ R" "rp_iCurrentBitIndex rp = length P" "length P + length (xs @ ys) \<le> S"
  obtain rp1 where rp1: "p rp = Some (v, rp1)" "rp_ok B S rp1" "rp_iCurrentBitIndex rp1 = length (P @ xs)"
    using readsD [OF assms(1) a(1), of P "ys @ R"] a by auto
  obtain rp2 where "q v rp1 = Some (w, rp2)" "rp_ok B S rp2" "rp_iCurrentBitIndex rp2 = length (P @ xs) + length ys"
    using readsD [OF assms(2) rp1(2), of "P @ xs" R] rp1(3) a by auto
  then show "\<exists>rp'. (do { (a, rp) \<leftarrow> p rp; q a rp }) = Some (w, rp') \<and> rp_ok B S rp'
      \<and> rp_iCurrentBitIndex rp' = length P + length (xs @ ys)"
    using rp1(1) by simp
qed

lemma reads_cong: "reads p xs v \<Longrightarrow> xs = ys \<Longrightarrow> v = w \<Longrightarrow> reads p ys w"
  by simp

lemma reads_syn:
  assumes "syn_ok f"
  shows "reads (get_syn f) (syn_bits f) f"
  unfolding reads_def
proof (intro allI impI)
  fix B S rp P R
  assume a: "rp_ok B S rp" "bytes_bits B = P @ syn_bits f @ R" "rp_iCurrentBitIndex rp = length P" "length P + length (syn_bits f) \<le> S"
  have "slice B (length P) (length (syn_bits f)) = syn_bits f" using slice_app [OF a(2)] by simp
  then show "\<exists>rp'. get_syn f rp = Some (f, rp') \<and> rp_ok B S rp' \<and> rp_iCurrentBitIndex rp' = length P + length (syn_bits f)"
    using get_syn_reads [OF assms a(1)] a(3,4) by simp
qed

lemma reads_unmap:
  assumes "reads (\<lambda>rp. do { (v, rp) \<leftarrow> p rp; Some (C v, rp) }) xs (C v)" "\<And>a b. C a = C b \<Longrightarrow> a = b"
  shows "reads p xs v"
  unfolding reads_def
proof (intro allI impI)
  fix B S rp P R
  assume "rp_ok B S rp" "bytes_bits B = P @ xs @ R" "rp_iCurrentBitIndex rp = length P" "length P + length xs \<le> S"
  from readsD [OF assms(1) this]
  show "\<exists>rp'. p rp = Some (v, rp') \<and> rp_ok B S rp' \<and> rp_iCurrentBitIndex rp' = length P + length xs"
    using assms(2) by (cases "p rp") auto
qed

lemma reads_u:
  assumes "0 < n" "n \<le> 32" "drop_bit n w = 0"
  shows "reads (\<lambda>rp. u rp n) (nbits n w) w"
proof (rule reads_unmap [of _ "SU n"])
  have "get_syn (SU n w) = (\<lambda>rp. do { (v, rp) \<leftarrow> u rp n; Some (SU n v, rp) })" by (simp add: fun_eq_iff)
  then show "reads (\<lambda>rp. do { (v, rp) \<leftarrow> u rp n; Some (SU n v, rp) }) (nbits n w) (SU n w)"
    using reads_syn [of "SU n w"] assms by simp
qed simp

lemma reads_ue:
  assumes "w + 1 \<noteq> 0"
  shows "reads ue (ue_bits w) w"
proof (rule reads_unmap [of _ SUE])
  have "get_syn (SUE w) = (\<lambda>rp. do { (v, rp) \<leftarrow> ue rp; Some (SUE v, rp) })" by (simp add: fun_eq_iff)
  then show "reads (\<lambda>rp. do { (v, rp) \<leftarrow> ue rp; Some (SUE v, rp) }) (ue_bits w) (SUE w)"
    using reads_syn [of "SUE w"] assms by simp
qed simp

lemma reads_se:
  assumes "\<bar>i\<bar> < 2 ^ 30"
  shows "reads se (ue_bits (word_of_int (se_code i))) i"
proof (rule reads_unmap [of _ SSE])
  have "get_syn (SSE i) = (\<lambda>rp. do { (v, rp) \<leftarrow> se rp; Some (SSE v, rp) })" by (simp add: fun_eq_iff)
  then show "reads (\<lambda>rp. do { (v, rp) \<leftarrow> se rp; Some (SSE v, rp) }) (ue_bits (word_of_int (se_code i))) (SSE i)"
    using reads_syn [of "SSE i"] assms by simp
qed simp

section \<open>Reading into fields\<close>

text \<open>
  \<open>rd_u n m (\<lambda>k. s\<lparr>x := k\<rparr>)\<close> is \<open>s->x = u(pRP, n);\<close> for a field \<open>x\<close> of \<open>m\<close> values (\<open>U8\<close> for a
  \<open>uint8_t\<close>), and \<open>wr_u n k\<close> is \<open>AL_BitStreamLite_PutU(pBS, n, k);\<close>; in the same way \<open>ue\<close> and \<open>se\<close>,
  and \<open>ue\<close> for a field of type \<open>int32_t\<close>.
\<close>

definition U8 :: nat where "U8 = 256"
definition U16 :: nat where "U16 = 65536"
definition U32 :: nat where "U32 = 4294967296"

definition rd_u :: "nat \<Rightarrow> nat \<Rightarrow> (nat \<Rightarrow> 'a) \<Rightarrow> AL_TRbspParser \<Rightarrow> ('a \<times> AL_TRbspParser) option" where
  "rd_u n m F = (\<lambda>rp. do { (w, rp) \<leftarrow> u rp n; Some (F (unat w mod m), rp) })"

definition rd_ue :: "nat \<Rightarrow> (nat \<Rightarrow> 'a) \<Rightarrow> AL_TRbspParser \<Rightarrow> ('a \<times> AL_TRbspParser) option" where
  "rd_ue m F = (\<lambda>rp. do { (w, rp) \<leftarrow> ue rp; Some (F (unat w mod m), rp) })"

definition rd_ue_int :: "(int \<Rightarrow> 'a) \<Rightarrow> AL_TRbspParser \<Rightarrow> ('a \<times> AL_TRbspParser) option" where
  "rd_ue_int F = (\<lambda>rp. do { (w, rp) \<leftarrow> ue rp; Some (F (sint w), rp) })"

definition rd_se :: "(int \<Rightarrow> 'a) \<Rightarrow> AL_TRbspParser \<Rightarrow> ('a \<times> AL_TRbspParser) option" where
  "rd_se F = (\<lambda>rp. do { (i, rp) \<leftarrow> se rp; Some (F i, rp) })"

definition wr_u :: "nat \<Rightarrow> nat \<Rightarrow> BitStreamLite \<Rightarrow> BitStreamLite option" where
  "wr_u n k = (\<lambda>bs. AL_BitStreamLite_PutU bs n (word_of_nat k))"

definition wr_ue :: "nat \<Rightarrow> BitStreamLite \<Rightarrow> BitStreamLite option" where
  "wr_ue k = (\<lambda>bs. AL_BitStreamLite_PutUE bs (word_of_nat k))"

definition wr_ue_int :: "int \<Rightarrow> BitStreamLite \<Rightarrow> BitStreamLite option" where
  "wr_ue_int i = (\<lambda>bs. AL_BitStreamLite_PutUE bs (word_of_int i))"

definition wr_se :: "int \<Rightarrow> BitStreamLite \<Rightarrow> BitStreamLite option" where
  "wr_se i = (\<lambda>bs. AL_BitStreamLite_PutSE bs i)"

lemma word_of_nat_u32: "k < 2 ^ 32 \<Longrightarrow> unat (word_of_nat k :: u32) = k"
  by (simp add: unat_of_nat)

lemma word_of_nat_fits:
  assumes "k < 2 ^ n" "n \<le> 32"
  shows "drop_bit n (word_of_nat k :: u32) = 0"
proof -
  have "(2::nat) ^ n \<le> 2 ^ 32" using assms(2) by (intro power_increasing) simp_all
  then have "k < 2 ^ 32" using assms(1) by linarith
  then have "unat (drop_bit n (word_of_nat k :: u32)) = k div 2 ^ n"
    by (simp only: unat_drop_bit_eq word_of_nat_u32) (simp add: drop_bit_eq_div)
  also have "\<dots> = 0" using assms(1) by simp
  finally have "unat (drop_bit n (word_of_nat k :: u32)) = 0" .
  then show ?thesis by (simp add: unat_eq_0)
qed

lemma word_of_nat_ue: "k < 2 ^ 32 - 1 \<Longrightarrow> (word_of_nat k + 1 :: u32) \<noteq> 0"
proof
  assume k: "k < 2 ^ 32 - 1" and z: "(word_of_nat k + 1 :: u32) = 0"
  have "unat (word_of_nat (Suc k) :: u32) = Suc k" using k by (intro word_of_nat_u32) simp
  then show False using z by (simp add: add.commute)
qed

section \<open>A writer and the parser that reads it back\<close>

text \<open>
  \<open>matches f p v\<close>: what \<open>f\<close> appends to a stream, \<open>p\<close> reads as \<open>v\<close>. The rules follow the structure of
  the code: single elements, sequences, conditions and loops.
\<close>

definition matches :: "(BitStreamLite \<Rightarrow> BitStreamLite option) \<Rightarrow> (AL_TRbspParser \<Rightarrow> ('a \<times> AL_TRbspParser) option) \<Rightarrow> 'a \<Rightarrow> bool" where
  "matches f p v \<longleftrightarrow> (\<exists>xs. writes f (\<lambda>_. xs) \<and> reads p xs v)"

lemma matchesI: "writes f (\<lambda>_. xs) \<Longrightarrow> reads p xs v \<Longrightarrow> matches f p v"
  unfolding matches_def by blast

lemma matches_seq:
  assumes "matches f p v" "matches g (q v) w"
  shows "matches (\<lambda>bs. do { bs \<leftarrow> f bs; g bs }) (\<lambda>rp. do { (a, rp) \<leftarrow> p rp; q a rp }) w"
proof -
  obtain xs ys where x: "writes f (\<lambda>_. xs)" "reads p xs v" and y: "writes g (\<lambda>_. ys)" "reads (q v) ys w"
    using assms unfolding matches_def by blast
  show ?thesis by (rule matchesI [OF writes_bind [OF x(1) y(1)] reads_bind [where q = q, OF x(2) y(2)]])
qed

lemma matches_done:
  assumes "v = w"
  shows "matches Some (\<lambda>rp. Some (v, rp)) w"
  unfolding assms by (rule matchesI [OF writes_Some reads_return])

lemma matches_if:
  assumes "b \<longleftrightarrow> c" "c \<Longrightarrow> matches f p v" "\<not> c \<Longrightarrow> matches g q v"
  shows "matches (\<lambda>bs. if b then f bs else g bs) (\<lambda>rp. if c then p rp else q rp) v"
  using assms by (cases c) simp_all

lemma matches_choice:
  assumes "b \<longleftrightarrow> c" "c \<Longrightarrow> matches f p v" "\<not> c \<Longrightarrow> matches g q w"
  shows "matches (\<lambda>bs. if b then f bs else g bs) (\<lambda>rp. if c then p rp else q rp) (if c then v else w)"
  using assms by (cases c) simp_all

lemma matches_eq: "matches f p v \<Longrightarrow> v = w \<Longrightarrow> matches f p w"
  by simp

lemma matches_u:
  assumes "0 < n" "n \<le> 32" "k < 2 ^ n" "k < m"
  shows "matches (wr_u n k) (rd_u n m F) (F k)"
proof -
  have "(2::nat) ^ n \<le> 2 ^ 32" using assms(2) by (intro power_increasing) simp_all
  then have k: "k < 2 ^ 32" using assms(3) by linarith
  have z: "drop_bit n (word_of_nat k :: u32) = 0" by (rule word_of_nat_fits [OF assms(3,2)])
  have r: "reads (rd_u n m F) (nbits n (word_of_nat k :: u32) @ []) (F (unat (word_of_nat k :: u32) mod m))"
    unfolding rd_u_def by (rule reads_bind [OF reads_u reads_return]) (use assms z in auto)
  have w: "writes (wr_u n k) (\<lambda>_. nbits n (word_of_nat k :: u32))"
    unfolding wr_u_def by (rule writes_u [OF assms(1,2) z])
  show ?thesis using matchesI [OF w] r assms(4) unfolding word_of_nat_u32 [OF k] by simp
qed

lemma matches_ue:
  assumes "k < 2 ^ 32 - 1" "k < m"
  shows "matches (wr_ue k) (rd_ue m F) (F k)"
proof -
  have k: "k < 2 ^ 32" using assms(1) by simp
  note z = word_of_nat_ue [OF assms(1)]
  have r: "reads (rd_ue m F) (ue_bits (word_of_nat k) @ []) (F (unat (word_of_nat k :: u32) mod m))"
    unfolding rd_ue_def by (rule reads_bind [OF reads_ue [OF z] reads_return])
  have w: "writes (wr_ue k) (\<lambda>_. ue_bits (word_of_nat k))"
    unfolding wr_ue_def by (rule writes_ue [OF z])
  show ?thesis using matchesI [OF w] r assms(2) unfolding word_of_nat_u32 [OF k] by simp
qed

lemma matches_ue_int:
  assumes "0 \<le> i" "i < 2 ^ 31"
  shows "matches (wr_ue_int i) (rd_ue_int F) (F i)"
proof -
  have s: "sint (word_of_int i :: u32) = i" unfolding int_word_sint using assms by simp
  have e: "(word_of_int i :: u32) = word_of_nat (nat i)" using assms(1) by simp
  have z: "(word_of_int i + 1 :: u32) \<noteq> 0" unfolding e by (rule word_of_nat_ue) (use assms in auto)
  have r: "reads (rd_ue_int F) (ue_bits (word_of_int i) @ []) (F (sint (word_of_int i :: u32)))"
    unfolding rd_ue_int_def by (rule reads_bind [OF reads_ue [OF z] reads_return])
  have w: "writes (wr_ue_int i) (\<lambda>_. ue_bits (word_of_int i))"
    unfolding wr_ue_int_def by (rule writes_ue [OF z])
  show ?thesis using matchesI [OF w] r unfolding s by simp
qed

lemma matches_se:
  assumes "\<bar>i\<bar> < 2 ^ 30"
  shows "matches (wr_se i) (rd_se F) (F i)"
proof -
  have r: "reads (rd_se F) (ue_bits (word_of_int (se_code i)) @ []) (F i)"
    unfolding rd_se_def by (rule reads_bind [OF reads_se [OF assms] reads_return])
  have w: "writes (wr_se i) (\<lambda>_. ue_bits (word_of_int (se_code i)))"
    unfolding wr_se_def by (rule writes_se [OF assms])
  show ?thesis using matchesI [OF w] r by simp
qed

text \<open>An assertion of the writer and an early return of the parser that the values rule out, and a result.\<close>

lemma matches_assert: "\<not> b \<Longrightarrow> matches f p v \<Longrightarrow> matches (\<lambda>bs. if b then None else f bs) p v"
  by simp

lemma matches_comply: "\<not> c \<Longrightarrow> matches f p v \<Longrightarrow> matches f (\<lambda>rp. if c then q rp else p rp) v"
  by simp

lemma matches_ok: "matches f p v \<Longrightarrow> matches f (\<lambda>rp. if \<not> True then q rp else p rp) v"
  by simp

lemma matches_complies: "b \<Longrightarrow> matches f p v \<Longrightarrow> matches f (\<lambda>rp. if \<not> b then q rp else p rp) v"
  by simp

lemma matches_then: "c \<Longrightarrow> matches f p v \<Longrightarrow> matches f (\<lambda>rp. if c then p rp else q rp) v"
  by simp

lemma matches_map:
  assumes "matches f p v"
  shows "matches f (\<lambda>rp. do { (a, rp) \<leftarrow> p rp; Some (G a, rp) }) (G v)"
proof -
  obtain xs where x: "writes f (\<lambda>_. xs)" "reads p xs v" using assms unfolding matches_def by blast
  have "reads (\<lambda>rp. do { (a, rp) \<leftarrow> p rp; Some (G a, rp) }) (xs @ []) (G v)"
    by (rule reads_bind [OF x(2) reads_return])
  then show ?thesis using matchesI [OF x(1)] by simp
qed

lemma matches_last:
  assumes "matches f p v" "matches Some (q v) w"
  shows "matches f (\<lambda>rp. do { (a, rp) \<leftarrow> p rp; q a rp }) w"
proof -
  have "matches (\<lambda>bs. do { bs \<leftarrow> f bs; Some bs }) (\<lambda>rp. do { (a, rp) \<leftarrow> p rp; q a rp }) w"
    by (rule matches_seq [where q = q, OF assms])
  then show ?thesis by simp
qed

lemma matches_skip:
  assumes "0 < n" "n \<le> 32"
  shows "matches (wr_u n 0) (\<lambda>rp. do { rp \<leftarrow> skip rp n; Some ((), rp) }) ()"
proof (rule matchesI)
  show "writes (wr_u n 0) (\<lambda>_. nbits n (0 :: u32))"
    unfolding wr_u_def using writes_u [OF assms, of 0] by simp
  show "reads (\<lambda>rp. do { rp \<leftarrow> skip rp n; Some ((), rp) }) (nbits n (0 :: u32)) ()"
    unfolding reads_def
  proof (intro allI impI)
    fix B S rp P R
    assume a: "rp_ok B S rp" "bytes_bits B = P @ nbits n (0 :: u32) @ R" "rp_iCurrentBitIndex rp = length P" "length P + length (nbits n (0 :: u32)) \<le> S"
    obtain rp' where "skip rp n = Some rp'" "rp_ok B S rp'" "rp_iCurrentBitIndex rp' = length P + n"
      using skip_correct [OF a(1), of n] a(3,4) by auto
    then show "\<exists>rp'. (do { rp \<leftarrow> skip rp n; Some ((), rp) }) = Some ((), rp') \<and> rp_ok B S rp'
        \<and> rp_iCurrentBitIndex rp' = length P + length (nbits n (0 :: u32))" by simp
  qed
qed

text \<open>Loops over a list of indices that carry a state.\<close>

lemma upt_split:
  assumes "[0..<n] = as @ i # bs"
  shows "length as < n \<and> i = length as"
proof -
  have "n = length as + Suc (length bs)" using arg_cong [OF assms, of length] by simp
  then have "length as < n" by simp
  then have "[0..<n] ! length as = length as" by simp
  moreover have "[0..<n] ! length as = i" unfolding assms by simp
  ultimately show ?thesis using \<open>length as < n\<close> by simp
qed

fun for_reads :: "('i \<Rightarrow> 's \<Rightarrow> AL_TRbspParser \<Rightarrow> ('s \<times> AL_TRbspParser) option) \<Rightarrow> 'i list \<Rightarrow> 's \<Rightarrow> AL_TRbspParser \<Rightarrow> ('s \<times> AL_TRbspParser) option" where
  "for_reads body [] s rp = Some (s, rp)"
| "for_reads body (i # is) s rp = do { (s, rp) \<leftarrow> body i s rp; for_reads body is s rp }"

lemma matches_for:
  assumes "\<And>as i bs. is = as @ i # bs \<Longrightarrow> matches (f i) (body i (st as)) (st (as @ [i]))"
  shows "matches (foldM f is) (for_reads body is (st [])) (st is)"
proof -
  have "is = as @ bs \<Longrightarrow> matches (foldM f bs) (for_reads body bs (st as)) (st is)" for as bs
  proof (induction bs arbitrary: as)
    case Nil
    have "foldM f [] = Some" "for_reads body [] (st as) = (\<lambda>rp. Some (st as, rp))" by (simp_all add: fun_eq_iff)
    then show ?case using Nil matches_done by simp
  next
    case (Cons i bs)
    have f: "foldM f (i # bs) = (\<lambda>s. do { s \<leftarrow> f i s; foldM f bs s })"
      "for_reads body (i # bs) (st as) = (\<lambda>rp. do { (s, rp) \<leftarrow> body i (st as) rp; for_reads body bs s rp })"
      by (simp_all add: fun_eq_iff)
    have "matches (foldM f bs) (for_reads body bs (st (as @ [i]))) (st is)" by (rule Cons.IH) (simp add: Cons.prems)
    then show ?case unfolding f by (rule matches_seq [where q = "for_reads body bs", OF assms [OF Cons.prems]])
  qed
  from this [of "[]" "is"] show ?thesis by simp
qed

end
