(* ===== verification/Nal_Trip.thy ===== *)
theory Nal_Trip
  imports Syntax_Rw
begin

text \<open>
  A unit around a writer and its parser: if the parser reads what the writer appends, it reads the
  payload of the unit that \<open>WriteNal\<close> makes of it, wherever the unit is in the circular buffer.
\<close>

definition write_trailing :: "BitStreamLite \<Rightarrow> BitStreamLite option" where
  "write_trailing = (\<lambda>bs. do {
     bs \<leftarrow> AL_BitStreamLite_PutU bs 1 1;
     AL_BitStreamLite_AlignWithBits bs 0 })"

text \<open>The parsers of the parameter sets and of the messages begin with the start code and a header of one byte.\<close>

definition after_header :: "(AL_TRbspParser \<Rightarrow> 'a option) \<Rightarrow> AL_TRbspParser \<Rightarrow> 'a option" where
  "after_header p rp = do {
     rp \<leftarrow> skipAllZerosAndTheNextByte rp;
     (_, rp) \<leftarrow> u rp 8;
     p rp }"

text \<open>Every list of bits is the code of some syntax elements.\<close>

definition bit_syns :: "bool list \<Rightarrow> syn list" where
  "bit_syns xs = map (\<lambda>b. SU 1 (if b then 1 else 0)) xs"

lemma bit_syns_ok: "f \<in> set (bit_syns xs) \<Longrightarrow> syn_ok f"
  by (auto simp: bit_syns_def drop_bit_Suc)

lemma bit_syns_bits: "concat (map syn_bits (bit_syns xs)) = xs"
  by (induction xs) (auto simp: bit_syns_def nbits_1)

lemma bit_syns_rbsp: "rbsp_bits (bit_syns xs) = xs @ True # align_bits False (Suc (length xs))"
  by (simp add: rbsp_bits_def bit_syns_bits Let_def)

lemma writes_trailing:
  assumes "writes f (\<lambda>_. xs)"
  shows "\<exists>X. writes (\<lambda>bs. do { bs \<leftarrow> f bs; write_trailing bs }) X \<and> X 0 = rbsp_bits (bit_syns xs)"
proof -
  have "writes (\<lambda>bs. AL_BitStreamLite_PutU bs 1 1) (\<lambda>_. nbits 1 (1 :: u32))"
    using writes_u [of 1 1] by (simp add: drop_bit_Suc)
  moreover have "writes (\<lambda>bs. AL_BitStreamLite_AlignWithBits bs 0) (align_bits False)"
    using writes_align [of 0] by simp
  ultimately have "writes write_trailing (\<lambda>c. nbits 1 (1 :: u32) @ align_bits False (c + length (nbits 1 (1 :: u32))))"
    unfolding write_trailing_def by (rule writes_bind)
  from writes_bind [OF assms this] show ?thesis
    by (intro exI conjI, assumption) (simp add: bit_syns_rbsp nbits_1)
qed

lemma after_header_at:
  assumes "rp_ok B S rp" "rp_iCurrentBitIndex rp = 0" "B = start_code four @ [h] @ d" "8 * length (start_code four @ [h]) \<le> S"
  shows "\<exists>rp'. after_header (\<lambda>rp. Some ((), rp)) rp = Some ((), rp') \<and> rp_ok B S rp' \<and> rp_iCurrentBitIndex rp' = 8 * length (start_code four @ [h])"
proof -
  let ?z = "length (start_code four) - 1"
  note bd = rp_at_bounds [OF rp_ok_at [OF assms(1)]]
  have z: "B ! i = 0" if "i < ?z" for i
    using that assms(3) by (auto simp: start_code_def nth_append nth_Cons split: nat.split if_splits)
  have one: "B ! ?z \<noteq> 0" using assms(3) by (auto simp: start_code_def nth_append)
  have len: "length (start_code four) = ?z + 1" by (simp add: start_code_def)
  obtain rp1 where rp1: "skipAllZerosAndTheNextByte rp = Some rp1" "rp_ok B S rp1"
    "rp_iCurrentBitIndex rp1 = 8 * length (start_code four)"
    using skipAllZeros_reads [OF assms(1), of 0 ?z "bits_left rp"] z one assms(4) bd assms(2) len assms(3)
    by (auto simp: skipAllZerosAndTheNextByte_def bits_left_def)
  have at: "length (start_code four) < length B" "B ! length (start_code four) = h" using assms(3) by simp_all
  have "slice B (8 * length (start_code four)) 8 = nbits 8 (ucast h :: u32)"
    using slice_byte [OF at(1)] at(2) by (simp add: nbits_8_byte)
  then obtain rp2 where "u rp1 8 = Some (ucast h, rp2)" "rp_ok B S rp2"
    "rp_iCurrentBitIndex rp2 = 8 * length (start_code four @ [h])"
    using u_reads [OF rp1(2), of 8 "ucast h"] rp1(3) assms(4) drop_8_byte by auto
  then show ?thesis using rp1(1) by (simp add: after_header_def)
qed

lemma after_header_reads:
  assumes "rp_ok B S rp" "rp_iCurrentBitIndex rp = 0" "B = start_code four @ [h] @ d @ zs"
    and "reads p xs v" "bytes_bits d = rbsp_bits (bit_syns xs)" "S = 8 * length (start_code four @ [h]) + length xs"
  shows "\<exists>rp'. after_header p rp = Some (v, rp') \<and> rp_ok B S rp' \<and> rp_iCurrentBitIndex rp' = S"
proof -
  obtain rp1 where rp1: "after_header (\<lambda>rp. Some ((), rp)) rp = Some ((), rp1)" "rp_ok B S rp1"
      "rp_iCurrentBitIndex rp1 = length (bytes_bits (start_code four @ [h]))"
    using after_header_at [OF assms(1-3)] assms(6) by auto
  then have eq: "after_header p rp = p rp1" by (auto simp: after_header_def split: bind_splits)
  have "bytes_bits B = bytes_bits (start_code four @ [h]) @ xs @ True # align_bits False (Suc (length xs)) @ bytes_bits zs"
    using assms(3,5) by (simp add: bit_syns_rbsp)
  from readsD [OF assms(4) rp1(2) this rp1(3)] show ?thesis using eq assms(6) by auto
qed

lemma unit_reads:
  assumes "holds_unit s (start_code four @ [h] @ escape d @ rest) buf sz" "next_unit rest" "h \<noteq> 0"
    and "reads p xs v" "bytes_bits d = rbsp_bits (bit_syns xs)" "d \<noteq> []"
  shows "\<exists>rp. after_header p (InitRbspParser s buf sz True) = Some (v, rp)"
proof -
  have hz: "\<forall>b \<in> set [h]. b \<noteq> 0" using assms(3) by simp
  obtain k where k: "k \<le> 3" "k \<le> length rest" "unescape 0 0 (start_code four @ [h] @ escape d @ rest) = start_code four @ [h] @ d @ replicate k 0"
    using unescape_nal [OF hz assms(6) rbsp_last [OF assms(5,6)] assms(2)] by blast
  let ?B = "start_code four @ [h] @ d @ replicate k 0"
  let ?S = "8 * length (start_code four @ [h]) + length xs"
  have z: "bytes_bits (replicate k 0) = replicate (8 * k) False"
    by (rule nth_equalityI) (auto simp: bytes_bits_nth nth_replicate div_less_iff_less_mult mult.commute)
  have "stop_bit ?B (length (bytes_bits (start_code four @ [h])) + length (concat (map syn_bits (bit_syns xs))))"
    by (rule rbsp_stop_bit [of _ _ _ "8 * k"]) (simp add: assms(5) z)
  then have st: "stop_bit ?B ?S" by (simp add: bit_syns_bits ac_simps)
  have "rp_ok ?B ?S (InitRbspParser s buf sz True)"
    by (rule InitRbspParser_ok [OF _ _ _ _ k(3) st])
      (use assms(1) k(2) length_escape [of d] in \<open>auto simp: holds_unit_def start_code_def\<close>)
  moreover have "rp_iCurrentBitIndex (InitRbspParser s buf sz True) = 0"
    by (simp add: InitRbspParser_def Let_def)
  ultimately show ?thesis using after_header_reads [OF _ _ refl assms(4,5) refl] by blast
qed

text \<open>
  The scratch buffer is large enough when the writer leaves no overflow in it.
\<close>

definition fits_scratch :: "(BitStreamLite \<Rightarrow> BitStreamLite option) \<Rightarrow> u8 list \<Rightarrow> nat \<Rightarrow> bool" where
  "fits_scratch f tmp sz \<longleftrightarrow> sz \<le> length tmp \<and> (\<forall>n tmp'. writeNalInBuffer f tmp sz = Some (n, tmp') \<longrightarrow> 0 \<le> n)"

lemma unit_written:
  assumes "writes f (\<lambda>_. xs)" "fits_scratch (\<lambda>bs. do { bs \<leftarrow> f bs; write_trailing bs }) tmp sz"
    and "wsc = AVC_writeStartCode \<or> wsc = HEVC_writeStartCode"
    and "bs_wf bs" "bs_iBitCount bs = 8 * k" "\<not> bs_isOverflow bs"
  shows "\<exists>n bs' d four. WriteNal wsc (\<lambda>bs. do { bs \<leftarrow> f bs; write_trailing bs }) tmp bs sz nut \<lparr>nh_bytes = [h], nh_size = 1\<rparr> mode = Some (n, bs')
    \<and> (n = -1 \<longleftrightarrow> bs_isOverflow bs') \<and> bytes_bits d = rbsp_bits (bit_syns xs) \<and> d \<noteq> []
    \<and> (n \<noteq> -1 \<longrightarrow> take (nat n) (drop k (bs_pData bs')) = start_code four @ [h] @ escape d)"
proof -
  let ?f = "\<lambda>bs. do { bs \<leftarrow> f bs; write_trailing bs }" and ?h = "\<lparr>nh_bytes = [h], nh_size = 1\<rparr> :: AL_TNalHeader"
  obtain X where X: "writes ?f X" "X 0 = rbsp_bits (bit_syns xs)" using writes_trailing [OF assms(1)] by blast
  obtain d where d: "bytes_bits d = rbsp_bits (bit_syns xs)" "d \<noteq> []" using rbsp_payload by blast
  have X0: "X 0 = bytes_bits d" using X(2) d(1) by simp
  have tmp: "sz \<le> length tmp" using assms(2) by (simp add: fits_scratch_def)
  have ld: "\<not> sz < length d"
  proof (cases rule: writeNalInBuffer_cases [OF X(1) tmp])
    case (1 tmp')
    then show ?thesis using X0 by simp
  next
    case (2 tmp')
    then show ?thesis using assms(2) by (auto simp: fits_scratch_def)
  qed
  obtain four where four: "\<And>bs. wsc bs nut mode = put_start_code four bs"
    using assms(3) by (auto simp: AVC_writeStartCode_def HEVC_writeStartCode_def)
  have al: "bs_iBitCount bs mod 8 = 0" using assms(5) by simp
  let ?xs = "nal_bytes four ?h d"
  obtain bs' where bs': "WriteNal wsc ?f tmp bs sz nut ?h mode =
      Some (if bs_iMaxBits bs < bs_iBitCount bs + 8 * length ?xs then -1 else int (length ?xs), bs')"
    "appends bs (bytes_bits ?xs) bs'"
    using WriteNal_result [where wsc = wsc and nut = nut and mode = mode and four = four and h = ?h,
        OF X(1) X0 d(2) tmp four _ assms(4) al assms(6)] ld by (auto split: if_splits)
  have ov: "bs_isOverflow bs' \<longleftrightarrow> bs_iMaxBits bs < bs_iBitCount bs + 8 * length ?xs"
    using bs'(2) by (auto simp: appends_def bs_wf_def)
  have "take (length ?xs) (drop k (bs_pData bs')) = start_code four @ [h] @ escape d" if "\<not> bs_isOverflow bs'"
    using appends_bytes [OF bs'(2) assms(5) _ assms(4)] that bs'(2) by (auto simp: appends_def bs_wf_def nal_bytes_def)
  then show ?thesis using bs'(1) ov d by (intro exI [of _ "if bs_iMaxBits bs < bs_iBitCount bs + 8 * length ?xs then -1 else int (length ?xs)"]
      exI [of _ bs'] exI [of _ d] exI [of _ four]) auto
qed

lemma unit_trip:
  assumes "matches f p v" "fits_scratch (\<lambda>bs. do { bs \<leftarrow> f bs; write_trailing bs }) tmp sz"
    and "wsc = AVC_writeStartCode \<or> wsc = HEVC_writeStartCode" "h \<noteq> 0"
    and "bs_wf bs" "bs_iBitCount bs = 8 * k" "\<not> bs_isOverflow bs"
  shows "\<exists>n bs'. WriteNal wsc (\<lambda>bs. do { bs \<leftarrow> f bs; write_trailing bs }) tmp bs sz nut \<lparr>nh_bytes = [h], nh_size = 1\<rparr> mode = Some (n, bs')
    \<and> (n = -1 \<longleftrightarrow> bs_isOverflow bs')
    \<and> (n \<noteq> -1 \<longrightarrow> (\<forall>s buf sz' rest. next_unit rest \<longrightarrow>
          holds_unit s (take (nat n) (drop k (bs_pData bs')) @ rest) buf sz' \<longrightarrow>
          (\<exists>rp. after_header p (InitRbspParser s buf sz' True) = Some (v, rp))))"
proof -
  obtain xs where xs: "writes f (\<lambda>_. xs)" "reads p xs v" using assms(1) unfolding matches_def by blast
  obtain n bs' d four where w:
    "WriteNal wsc (\<lambda>bs. do { bs \<leftarrow> f bs; write_trailing bs }) tmp bs sz nut \<lparr>nh_bytes = [h], nh_size = 1\<rparr> mode = Some (n, bs')"
    "n = -1 \<longleftrightarrow> bs_isOverflow bs'" "bytes_bits d = rbsp_bits (bit_syns xs)" "d \<noteq> []"
    "n \<noteq> -1 \<longrightarrow> take (nat n) (drop k (bs_pData bs')) = start_code four @ [h] @ escape d"
    using unit_written [OF xs(1) assms(2,3,5-7), where h = h and nut = nut and mode = mode] by blast
  have "\<exists>rp. after_header p (InitRbspParser s buf sz' True) = Some (v, rp)"
    if "n \<noteq> -1" "next_unit rest" "holds_unit s (take (nat n) (drop k (bs_pData bs')) @ rest) buf sz'" for s buf sz' rest
    using unit_reads [OF _ that(2) assms(4) xs(2) w(3,4)] that(1,3) w(5) by simp
  then show ?thesis using w(1,2) by blast
qed

end
