(* ===== verification/Rbsp_End.thy ===== *)
theory Rbsp_End
  imports Nal_Trip
begin

text \<open>
  The end of a unit: \<open>more_rbsp_data\<close> and \<open>rbsp_trailing_bits\<close> of \<open>RbspParser.c\<close>, for a parser of a
  unit with few zero bytes after the stop bit. A parser whose last steps look at the end is
  described by \<open>ends\<close>, as \<open>reads\<close> describes one that does not.
\<close>

text \<open>The zeros before the next start code that the fetching keeps are at most three bytes.\<close>

definition short_tail :: "u8 list \<Rightarrow> nat \<Rightarrow> bool" where
  "short_tail B S \<longleftrightarrow> length B \<le> S div 8 + 4"

lemma more_rbsp_data_true:
  assumes "rp_ok B S rp" "rp_iCurrentBitIndex rp < S"
  shows "\<exists>rp'. more_rbsp_data rp = Some (True, rp') \<and> rp_ok B S rp' \<and> rp_iCurrentBitIndex rp' = rp_iCurrentBitIndex rp"
proof (cases "finished_fetching rp")
  case True
  then have "fetch_data rp = Some (False, rp)"
    using fetch_data_finished rp_at_bounds(6) [OF rp_ok_at [OF assms(1)]] by blast
  then show ?thesis using rp_at_finished [OF rp_ok_at [OF assms(1)] True] assms by (simp add: more_rbsp_data_def)
next
  case False
  obtain rp1 where rp1: "fetch_data rp = Some (True, rp1)" "rp_at B S rp1" "same_reader rp rp1"
      "finished_fetching rp1 \<or> rp_iTrailingBitOneIndex rp + 160 \<le> rp_iTrailingBitOneIndex rp1"
    using fetch_data_correct [OF rp_ok_at [OF assms(1)] False] by blast
  have "rp_iCurrentBitIndex rp < rp_iTrailingBitOneIndex rp1"
    using rp1(4) rp_at_finished [OF rp1(2)] assms(2) rp_at_bounds(3) [OF rp_ok_at [OF assms(1)]] by auto
  then show ?thesis using rp1 assms(1) by (auto simp: more_rbsp_data_def same_reader_def rp_ok_def)
qed

text \<open>At the stop bit, a fetch reaches the end of the unit.\<close>

lemma fetch_at_end:
  assumes "rp_ok B S rp" "rp_iCurrentBitIndex rp = S" "short_tail B S" "\<not> finished_fetching rp"
  shows "\<exists>rp'. fetch_data rp = Some (True, rp') \<and> rp_ok B S rp' \<and> rp_iCurrentBitIndex rp' = S \<and> finished_fetching rp'"
proof -
  obtain rp1 where rp1: "fetch_data rp = Some (True, rp1)" "rp_at B S rp1" "same_reader rp rp1"
      "finished_fetching rp1 \<or> rp_iTrailingBitOneIndex rp + 160 \<le> rp_iTrailingBitOneIndex rp1"
    using fetch_data_correct [OF rp_ok_at [OF assms(1)] assms(4)] by blast
  have "finished_fetching rp1"
  proof (rule ccontr)
    assume nf: "\<not> finished_fetching rp1"
    then obtain k where "fetched B k rp1" "rp_iTrailingBitOneIndex rp1 = 8 * k" using rp1(2) by (auto simp: rp_at_def)
    then have "rp_iTrailingBitOneIndex rp1 \<le> 8 * length B" by (simp add: fetched_def)
    moreover have "S \<le> rp_iTrailingBitOneIndex rp" using rp_at_bounds(3) [OF rp_ok_at [OF assms(1)]] assms(2) by simp
    ultimately show False using rp1(4) nf assms(3) by (simp add: short_tail_def)
  qed
  then show ?thesis using rp1 assms(1,2) by (auto simp: same_reader_def rp_ok_def)
qed

lemma more_rbsp_data_false:
  assumes "rp_ok B S rp" "rp_iCurrentBitIndex rp = S" "short_tail B S"
  shows "\<exists>rp'. more_rbsp_data rp = Some (False, rp') \<and> rp_ok B S rp' \<and> rp_iCurrentBitIndex rp' = S"
proof (cases "finished_fetching rp")
  case True
  then have "fetch_data rp = Some (False, rp)"
    using fetch_data_finished rp_at_bounds(6) [OF rp_ok_at [OF assms(1)]] by blast
  then show ?thesis using rp_at_finished [OF rp_ok_at [OF assms(1)] True] assms by (simp add: more_rbsp_data_def)
next
  case False
  from fetch_at_end [OF assms False] obtain rp1 where "fetch_data rp = Some (True, rp1)" "rp_ok B S rp1"
    "rp_iCurrentBitIndex rp1 = S" "finished_fetching rp1" by blast
  then show ?thesis using rp_at_finished [OF rp_ok_at] by (auto simp: more_rbsp_data_def)
qed

text \<open>The search for the last bit set, from any position.\<close>

lemma trailing_loop_finished:
  assumes "finished_fetching rp" "rp_bHasStartCodes rp" "i < 8 * length (rp_pBuffer rp)"
  shows "\<exists>j \<le> i. trailing_loop fetch_data i rp = Some (j, rp)"
  using assms(3)
proof (induction i)
  case 0
  then have "0 < length (rp_pBuffer rp)" by simp
  then show ?case using fetch_data_finished [OF assms(2,1)] by (simp add: read_bit_with_def arr_get_def)
next
  case (Suc i)
  have "Suc i div 8 < length (rp_pBuffer rp)" using Suc.prems by simp
  then have rd: "read_bit_with fetch_data rp (Suc i) = Some (rp_pBuffer rp ! (Suc i div 8) AND push_bit (7 - Suc i mod 8) 1, rp)"
    using fetch_data_finished [OF assms(2,1)] by (simp add: read_bit_with_def arr_get_def)
  show ?case
  proof (cases "rp_pBuffer rp ! (Suc i div 8) AND push_bit (7 - Suc i mod 8) 1 = 0")
    case True
    then show ?thesis using rd Suc by (auto intro: le_SucI)
  next
    case False
    then show ?thesis using rd by simp
  qed
qed

lemma trailing_loop_fetches:
  assumes "rp_iTrailingBitOneIndex rp < rp_iCurrentBitIndex rp + 1" "fetch_data rp = Some (b, rp1)"
    and "finished_fetching rp1" "rp_bHasStartCodes rp1" "i < 8 * length (rp_pBuffer rp1)"
  shows "\<exists>j \<le> i. trailing_loop fetch_data i rp = Some (j, rp1)"
proof -
  have "read_bit_with fetch_data rp i = read_bit_with fetch_data rp1 i"
    using assms(1,2) fetch_data_finished [OF assms(4,3)] by (simp add: read_bit_with_def)
  then have "trailing_loop fetch_data i rp = trailing_loop fetch_data i rp1"
    by (cases i) simp_all
  then show ?thesis using trailing_loop_finished [OF assms(3-5)] by simp
qed

text \<open>What \<open>remove_trailing_bits\<close> leaves at the end of a unit.\<close>

definition at_stop :: "u8 list \<Rightarrow> nat \<Rightarrow> AL_TRbspParser \<Rightarrow> bool" where
  "at_stop B S rp \<longleftrightarrow> rp_iCurrentBitIndex rp = S \<and> rp_pByte rp = S div 8 \<and> rp_iTrailingBitOneIndex rp = S
     \<and> rp_iTrailingBitOneIndexConceal rp = (S + 8) div 8 * 8 \<and> S div 8 < length (rp_pBuffer rp)
     \<and> rp_pBuffer rp ! (S div 8) = B ! (S div 8)"

lemma remove_trailing_bits_stops:
  assumes "rp_ok B S rp" "rp_iCurrentBitIndex rp = S" "short_tail B S" "0 < S"
  shows "\<exists>rp'. remove_trailing_bits rp = Some rp' \<and> at_stop B S rp'"
proof -
  note at = rp_ok_at [OF assms(1)] and bd = rp_at_bounds [OF rp_ok_at [OF assms(1)]]
  have byte: "S div 8 < length B" using bd(2) by simp
  have sub: "sub32 t 1 = t - 1" if "0 < t" "t < 2 ^ 32" for t using that by (auto simp: sub32_def mod_if)
  have fin: "\<exists>rp'. remove_trailing_bits rp = Some rp' \<and> at_stop B S rp'"
    if t: "\<exists>j \<le> S. trailing_loop fetch_data (sub32 (rp_iTrailingBitOneIndex rp) 1) rp = Some (j, rp1)"
      and r: "rp_iCurrentBitIndex rp1 = S" "rp_pByte rp1 = S div 8" "S div 8 < length (rp_pBuffer rp1)"
        "rp_pBuffer rp1 ! (S div 8) = B ! (S div 8)" for rp1
  proof -
    obtain j where "j \<le> S" "trailing_loop fetch_data (sub32 (rp_iTrailingBitOneIndex rp) 1) rp = Some (j, rp1)" using t by blast
    then have "remove_trailing_bits rp = Some (rp1\<lparr>rp_iTrailingBitOneIndex := S, rp_iTrailingBitOneIndexConceal := (S + 8) div 8 * 8\<rparr>)"
      using r(1) by (auto simp: remove_trailing_bits_def remove_trailing_bits_with_def Let_def)
    then show ?thesis using r by (simp add: at_stop_def)
  qed
  consider (ahead) "\<not> finished_fetching rp" "S < rp_iTrailingBitOneIndex rp"
    | (behind) "\<not> finished_fetching rp" "rp_iTrailingBitOneIndex rp = S" | (complete) "finished_fetching rp"
    using bd(3) assms(2) by linarith
  then show ?thesis
  proof cases
    case complete
    have t: "rp_iTrailingBitOneIndex rp = S" by (rule rp_at_finished [OF at complete])
    have s: "sub32 S 1 = S - 1" by (rule sub) (use bd(4) t assms(4) in simp_all)
    have "S - 1 < 8 * length (rp_pBuffer rp)" using bd(2,5) by simp
    then have "\<exists>j \<le> S. trailing_loop fetch_data (sub32 S 1) rp = Some (j, rp)"
      using trailing_loop_finished [OF complete bd(6), of "S - 1"] unfolding s by (meson diff_le_self order_trans)
    then show ?thesis
      using fin [of rp] t assms(1,2) rp_at_byte [OF at byte] complete byte bd(5) by (simp add: rp_ok_def)
  next
    case ahead
    obtain k where k: "fetched B k rp" "rp_iTrailingBitOneIndex rp = 8 * k" using at ahead(1) by (auto simp: rp_at_def)
    have st: "stop_bit B S" using at by (simp add: rp_at_def)
    have kB: "k \<le> length B" "take k (rp_pBuffer rp) = take k B" using k(1) by (simp_all add: fetched_def)
    have bits: "bytes_bits (take k B) ! i = bytes_bits B ! i" if "i < 8 * k" for i
      using that bytes_bits_take [OF kB(1)] by simp
    have stk: "stop_bit (take k B) S" using st bits kB(1) ahead(2) k(2) by (auto simp: stop_bit_def)
    have s: "sub32 (8 * k) 1 = 8 * k - 1" by (rule sub) (use bd(4) k(2) ahead(2) in simp_all)
    have "trailing_loop fetch_data (8 * k - 1) rp = Some (S, rp)"
      by (rule trailing_loop_finds [OF _ _ stk]) (use ahead(2) k(2) kB assms(2) in auto)
    then have "\<exists>j \<le> S. trailing_loop fetch_data (sub32 (rp_iTrailingBitOneIndex rp) 1) rp = Some (j, rp)"
      unfolding k(2) s by blast
    moreover have "rp_pBuffer rp ! (S div 8) = B ! (S div 8)" by (rule rp_at_byte [OF at byte]) (use ahead(2) in linarith)
    ultimately show ?thesis using fin [of rp] assms(1,2) byte bd(5) by (simp add: rp_ok_def)
  next
    case behind
    obtain rp1 where rp1: "fetch_data rp = Some (True, rp1)" "rp_ok B S rp1" "rp_iCurrentBitIndex rp1 = S" "finished_fetching rp1"
      using fetch_at_end [OF assms(1-3) behind(1)] by blast
    note bd1 = rp_at_bounds [OF rp_ok_at [OF rp1(2)]]
    have s: "sub32 S 1 = S - 1" by (rule sub) (use bd(4) behind(2) assms(4) in simp_all)
    have lt: "rp_iTrailingBitOneIndex rp < rp_iCurrentBitIndex rp + 1" using behind(2) assms(2) by simp
    have "S - 1 < 8 * length (rp_pBuffer rp1)" using bd1(2,5) by simp
    then have "\<exists>j \<le> S. trailing_loop fetch_data (sub32 S 1) rp = Some (j, rp1)"
      using trailing_loop_fetches [OF lt rp1(1,4) bd1(6), of "S - 1"] unfolding s by (meson diff_le_self order_trans)
    then show ?thesis
      using fin [of rp1] behind(2) rp1(2-4) rp_at_byte [OF rp_ok_at [OF rp1(2)] byte] byte bd1(5) by (simp add: rp_ok_def)
  qed
qed

text \<open>The bits behind it: the stop bit and the zeros up to the end of the byte.\<close>

lemma local_bit:
  assumes "rp_iCurrentBitIndex rp < rp_iTrailingBitOneIndex rp" "rp_iTrailingBitOneIndex rp \<le> rp_iTrailingBitOneIndexConceal rp"
    and "rp_pByte rp = rp_iCurrentBitIndex rp div 8" "rp_iCurrentBitIndex rp div 8 < length (rp_pBuffer rp)"
    and "rp_pBuffer rp ! (rp_iCurrentBitIndex rp div 8) = B ! (rp_iCurrentBitIndex rp div 8)" "rp_iCurrentBitIndex rp < 8 * length B"
  shows "u rp 1 = Some (if bytes_bits B ! rp_iCurrentBitIndex rp then 1 else 0,
    rp\<lparr>rp_iCurrentBitIndex := rp_iCurrentBitIndex rp + 1, rp_pByte := (rp_iCurrentBitIndex rp + 1) div 8\<rparr>)"
proof -
  let ?c = "rp_iCurrentBitIndex rp"
  have "drop_bit (?c mod 8) 0x80 = (push_bit (7 - ?c mod 8) 1 :: u8)" by (rule drop_bit_0x80) simp
  then have tst: "B ! (?c div 8) AND drop_bit (?c mod 8) 0x80 \<noteq> 0 \<longleftrightarrow> bytes_bits B ! ?c"
    using bytes_bits_nth [OF assms(6)] by (simp add: bit_iff_and_push_bit_not_eq_0)
  have "(if ?c mod 8 = 7 then ?c div 8 + 1 else ?c div 8) = (?c + 1) div 8" by (simp add: div_Suc mod_Suc)
  moreover have "more_rbsp_data_conceal rp" using assms(1,2) by (simp add: more_rbsp_data_conceal_def)
  ultimately show ?thesis using assms tst by (auto simp: u_def get_next_bit_def arr_get_def Let_def)
qed

lemma alignment_zeros:
  assumes "rp_iCurrentBitIndex rp = c" "c \<le> T" "T mod 8 = 0" "T \<le> c + 7" "T - c \<le> f"
    and "rp_iTrailingBitOneIndex rp = T" "rp_iTrailingBitOneIndexConceal rp = T" "rp_pByte rp = c div 8"
    and "T div 8 \<le> length (rp_pBuffer rp)" "T \<le> 8 * length B"
    and "\<forall>i. c \<le> i \<longrightarrow> i < T \<longrightarrow> \<not> bytes_bits B ! i" "c < T \<longrightarrow> rp_pBuffer rp ! (T div 8 - 1) = B ! (T div 8 - 1)"
  shows "\<exists>rp'. simple_byte_alignment_loop f rp 0 = Some (True, rp') \<and> rp_iCurrentBitIndex rp' = T"
  using assms
proof (induction "T - c" arbitrary: c f rp)
  case 0
  then have "c = T" by simp
  then show ?case using 0 by (subst simple_byte_alignment_loop.simps) (simp add: byte_aligned_def)
next
  case (Suc n)
  note prems = Suc.prems
  have lt: "c < T" using Suc.hyps(2) by simp
  obtain t where t: "T = 8 * t" using prems(3) by (metis mod_0_imp_dvd dvdE)
  have cd: "c div 8 = T div 8 - 1" unfolding t by (rule div_nat_eqI) (use prems(4) lt t in auto)
  have "c mod 8 \<noteq> 0"
  proof
    assume "c mod 8 = 0"
    then obtain d where "c = 8 * d" by (metis mod_0_imp_dvd dvdE)
    then show False using prems(4) lt t by simp
  qed
  then have na: "\<not> byte_aligned rp" using prems(1) by (simp add: byte_aligned_def)
  obtain g where f: "f = Suc g" using prems(5) lt by (cases f) auto
  let ?rp = "rp\<lparr>rp_iCurrentBitIndex := c + 1, rp_pByte := (c + 1) div 8\<rparr>"
  have "u rp 1 = Some (if bytes_bits B ! c then 1 else 0, ?rp)"
    using local_bit [of rp B] prems lt cd by auto
  then have u: "u rp 1 = Some (0, ?rp)" using prems(11) lt by simp
  have "\<exists>rp'. simple_byte_alignment_loop g ?rp 0 = Some (True, rp') \<and> rp_iCurrentBitIndex rp' = T"
  proof (rule Suc.hyps(1))
    show "n = T - (c + 1)" "T - (c + 1) \<le> g" using Suc.hyps(2) prems(5) f by simp_all
    show "\<forall>i. c + 1 \<le> i \<longrightarrow> i < T \<longrightarrow> \<not> bytes_bits B ! i" using prems(11) by simp
    show "c + 1 < T \<longrightarrow> rp_pBuffer ?rp ! (T div 8 - 1) = B ! (T div 8 - 1)" using prems(12) by simp
  qed (use prems(3,4,6,7,9,10) lt in simp_all)
  then show ?case using na u f by (subst simple_byte_alignment_loop.simps) simp
qed

lemma rbsp_trailing_bits_true:
  assumes "rp_ok B S rp" "rp_iCurrentBitIndex rp = S" "short_tail B S" "0 < S"
  shows "\<exists>rp'. rbsp_trailing_bits rp = Some (True, rp')"
proof -
  obtain rp1 where rp1: "remove_trailing_bits rp = Some rp1" "at_stop B S rp1"
    using remove_trailing_bits_stops [OF assms] by blast
  let ?T = "(S + 8) div 8 * 8"
  let ?rp2 = "rp1\<lparr>rp_iTrailingBitOneIndex := ?T\<rparr>"
  have st: "stop_bit B S" using rp_ok_at [OF assms(1)] by (simp add: rp_at_def)
  have T: "S < ?T" "?T \<le> S + 8" "?T div 8 - 1 = S div 8" "?T mod 8 = 0" by auto
  have "S < 8 * length B" using st by (simp add: stop_bit_def)
  then have TB: "?T \<le> 8 * length B" by presburger
  let ?rp3 = "?rp2\<lparr>rp_iCurrentBitIndex := S + 1, rp_pByte := (S + 1) div 8\<rparr>"
  have one: "u ?rp2 1 = Some (1, ?rp3)"
    using local_bit [of ?rp2 B] rp1(2) T(1) st by (simp add: at_stop_def stop_bit_def)
  have "\<exists>rp'. simple_byte_alignment_loop 8 ?rp3 0 = Some (True, rp') \<and> rp_iCurrentBitIndex rp' = ?T"
    by (rule alignment_zeros [of _ "S + 1" _ _ B]) (use T TB rp1(2) st in \<open>auto simp: at_stop_def stop_bit_def\<close>)
  then show ?thesis using rp1 one by (auto simp: rbsp_trailing_bits_def at_stop_def UINT8_MAX_def Let_def)
qed

section \<open>Parsers that look at the end\<close>

definition ends :: "(AL_TRbspParser \<Rightarrow> ('a \<times> AL_TRbspParser) option) \<Rightarrow> bool list \<Rightarrow> 'a \<Rightarrow> bool" where
  "ends p xs v \<longleftrightarrow> (\<forall>B S rp P R. rp_ok B S rp \<longrightarrow> bytes_bits B = P @ xs @ R \<longrightarrow> rp_iCurrentBitIndex rp = length P \<longrightarrow>
     S = length P + length xs \<longrightarrow> short_tail B S \<longrightarrow> 0 < length P \<longrightarrow> (\<exists>rp'. p rp = Some (v, rp')))"

lemma endsD:
  assumes "ends p xs v" "rp_ok B S rp" "bytes_bits B = P @ xs @ R" "rp_iCurrentBitIndex rp = length P"
    "S = length P + length xs" "short_tail B S" "0 < length P"
  shows "\<exists>rp'. p rp = Some (v, rp')"
  using assms unfolding ends_def by blast

lemma ends_bind:
  assumes "reads p xs v" "ends (q v) ys w"
  shows "ends (\<lambda>rp. do { (a, rp) \<leftarrow> p rp; q a rp }) (xs @ ys) w"
  unfolding ends_def
proof (intro allI impI)
  fix B S rp P R
  assume a: "rp_ok B S rp" "bytes_bits B = P @ (xs @ ys) @ R" "rp_iCurrentBitIndex rp = length P"
    "S = length P + length (xs @ ys)" "short_tail B S" "0 < length P"
  obtain rp1 where rp1: "p rp = Some (v, rp1)" "rp_ok B S rp1" "rp_iCurrentBitIndex rp1 = length (P @ xs)"
    using readsD [OF assms(1) a(1), of P "ys @ R"] a by auto
  obtain rp2 where "q v rp1 = Some (w, rp2)"
    using endsD [OF assms(2) rp1(2), of "P @ xs" R] rp1(3) a by auto
  then show "\<exists>rp'. (do { (a, rp) \<leftarrow> p rp; q a rp }) = Some (w, rp')" using rp1(1) by simp
qed

lemma ends_more_true:
  assumes "ends (q True) xs v" "xs \<noteq> []"
  shows "ends (\<lambda>rp. do { (b, rp) \<leftarrow> more_rbsp_data rp; q b rp }) xs v"
  unfolding ends_def
proof (intro allI impI)
  fix B S rp P R
  assume a: "rp_ok B S rp" "bytes_bits B = P @ xs @ R" "rp_iCurrentBitIndex rp = length P"
    "S = length P + length xs" "short_tail B S" "0 < length P"
  obtain rp1 where rp1: "more_rbsp_data rp = Some (True, rp1)" "rp_ok B S rp1" "rp_iCurrentBitIndex rp1 = length P"
    using more_rbsp_data_true [OF a(1)] a(3,4) assms(2) by auto
  obtain rp2 where "q True rp1 = Some (v, rp2)" using endsD [OF assms(1) rp1(2) a(2) rp1(3) a(4-6)] by blast
  then show "\<exists>rp'. (do { (b, rp) \<leftarrow> more_rbsp_data rp; q b rp }) = Some (v, rp')" using rp1(1) by simp
qed

lemma ends_more_false:
  assumes "ends (q False) [] v"
  shows "ends (\<lambda>rp. do { (b, rp) \<leftarrow> more_rbsp_data rp; q b rp }) [] v"
  unfolding ends_def
proof (intro allI impI)
  fix B S rp P R
  assume a: "rp_ok B S rp" "bytes_bits B = P @ [] @ R" "rp_iCurrentBitIndex rp = length P"
    "S = length P + length ([] :: bool list)" "short_tail B S" "0 < length P"
  obtain rp1 where rp1: "more_rbsp_data rp = Some (False, rp1)" "rp_ok B S rp1" "rp_iCurrentBitIndex rp1 = length P"
    using more_rbsp_data_false [OF a(1)] a(3-5) by auto
  obtain rp2 where "q False rp1 = Some (v, rp2)" using endsD [OF assms(1) rp1(2) a(2) rp1(3) a(4-6)] by blast
  then show "\<exists>rp'. (do { (b, rp) \<leftarrow> more_rbsp_data rp; q b rp }) = Some (v, rp')" using rp1(1) by simp
qed

lemma ends_trailing: "ends (\<lambda>rp. do { (b, rp) \<leftarrow> rbsp_trailing_bits rp; Some (F b, rp) }) [] (F True)"
  unfolding ends_def
proof (intro allI impI)
  fix B S rp P R
  assume a: "rp_ok B S rp" "rp_iCurrentBitIndex rp = length P" "S = length P + length ([] :: bool list)" "short_tail B S" "0 < length (P :: bool list)"
  then show "\<exists>rp'. (do { (b, rp) \<leftarrow> rbsp_trailing_bits rp; Some (F b, rp) }) = Some (F True, rp')"
    using rbsp_trailing_bits_true [OF a(1)] by auto
qed

text \<open>A writer and such a parser; the flag says that the writer appends something.\<close>

definition matches_end :: "bool \<Rightarrow> (BitStreamLite \<Rightarrow> BitStreamLite option) \<Rightarrow> (AL_TRbspParser \<Rightarrow> ('a \<times> AL_TRbspParser) option) \<Rightarrow> 'a \<Rightarrow> bool" where
  "matches_end c f p v \<longleftrightarrow> (\<exists>xs. writes f (\<lambda>_. xs) \<and> ends p xs v \<and> (c \<longrightarrow> xs \<noteq> []))"

lemma matches_end_seq:
  assumes "matches f p v" "matches_end c g (q v) w"
  shows "matches_end c (\<lambda>bs. do { bs \<leftarrow> f bs; g bs }) (\<lambda>rp. do { (a, rp) \<leftarrow> p rp; q a rp }) w"
proof -
  obtain xs ys where x: "writes f (\<lambda>_. xs)" "reads p xs v" and y: "writes g (\<lambda>_. ys)" "ends (q v) ys w" "c \<longrightarrow> ys \<noteq> []"
    using assms unfolding matches_def matches_end_def by blast
  show ?thesis unfolding matches_end_def
    using writes_bind [OF x(1) y(1)] ends_bind [where q = q, OF x(2) y(2)] y(3) by (intro exI [of _ "xs @ ys"]) auto
qed

lemma matches_end_u:
  assumes "0 < n" "n \<le> 32" "k < 2 ^ n" "k < m" "matches_end False g (q (F k)) w"
  shows "matches_end True (\<lambda>bs. do { bs \<leftarrow> wr_u n k bs; g bs }) (\<lambda>rp. do { (a, rp) \<leftarrow> rd_u n m F rp; q a rp }) w"
proof -
  have z: "drop_bit n (word_of_nat k :: u32) = 0" by (rule word_of_nat_fits [OF assms(3,2)])
  have x: "writes (wr_u n k) (\<lambda>_. nbits n (word_of_nat k :: u32))"
    unfolding wr_u_def by (rule writes_u [OF assms(1,2) z])
  have k: "k < 2 ^ 32" using assms(3) power_increasing [OF assms(2), of "2 :: nat"] by simp
  have r: "reads (rd_u n m F) (nbits n (word_of_nat k :: u32) @ []) (F (unat (word_of_nat k :: u32) mod m))"
    unfolding rd_u_def by (rule reads_bind [OF reads_u reads_return]) (use assms z in auto)
  then have r: "reads (rd_u n m F) (nbits n (word_of_nat k :: u32)) (F k)"
    using assms(4) unfolding word_of_nat_u32 [OF k] by simp
  obtain ys where y: "writes g (\<lambda>_. ys)" "ends (q (F k)) ys w" using assms(5) unfolding matches_end_def by blast
  have "nbits n (word_of_nat k :: u32) @ ys \<noteq> []" using assms(1) length_nbits [of n "word_of_nat k :: u32"] by (metis append_is_Nil_conv list.size(3) less_irrefl)
  then show ?thesis unfolding matches_end_def
    using writes_bind [OF x y(1)] ends_bind [where q = q, OF r y(2)] by blast
qed

lemma matches_end_more:
  assumes "b \<Longrightarrow> matches_end True f (q True) v" "\<not> b \<Longrightarrow> matches_end False Some (q False) v"
  shows "matches_end False (\<lambda>bs. if b then f bs else Some bs) (\<lambda>rp. do { (c, rp) \<leftarrow> more_rbsp_data rp; q c rp }) v"
proof (cases b)
  case True
  then obtain xs where "writes f (\<lambda>_. xs)" "ends (q True) xs v" "xs \<noteq> []" using assms(1) unfolding matches_end_def by blast
  then show ?thesis using True ends_more_true [where q = q] unfolding matches_end_def by auto
next
  case False
  then obtain xs where x: "writes Some (\<lambda>_. xs)" "ends (q False) xs v" using assms(2) unfolding matches_end_def by blast
  have "xs = []"
  proof -
    have "bs_wf (AL_BitStreamLite_Init [] 0)" by (rule init_wf) simp
    from writesD [OF x(1) this] show ?thesis by (auto simp: appends_def)
  qed
  then show ?thesis using False ends_more_false [where q = q] x unfolding matches_end_def by auto
qed

lemma matches_end_trailing: "matches_end False Some (\<lambda>rp. do { (b, rp) \<leftarrow> rbsp_trailing_bits rp; Some (F b, rp) }) (F True)"
  unfolding matches_end_def using writes_Some ends_trailing by blast

lemma matches_end_last:
  assumes "matches f p v" "matches_end False Some (q v) w"
  shows "matches_end False f (\<lambda>rp. do { (a, rp) \<leftarrow> p rp; q a rp }) w"
proof -
  have "matches_end False (\<lambda>bs. do { bs \<leftarrow> f bs; Some bs }) (\<lambda>rp. do { (a, rp) \<leftarrow> p rp; q a rp }) w"
    by (rule matches_end_seq [where q = q, OF assms])
  then show ?thesis by simp
qed

lemma matches_end_assert: "\<not> b \<Longrightarrow> matches_end c f p v \<Longrightarrow> matches_end c (\<lambda>bs. if b then None else f bs) p v"
  by simp

lemma matches_end_comply: "\<not> c \<Longrightarrow> matches_end d f p v \<Longrightarrow> matches_end d f (\<lambda>rp. if c then q rp else p rp) v"
  by simp

lemma matches_end_eq: "matches_end c f p v \<Longrightarrow> v = w \<Longrightarrow> matches_end c f p w"
  by simp

lemma matches_end_map:
  assumes "matches_end c f p v"
  shows "matches_end c f (\<lambda>rp. do { (a, rp) \<leftarrow> p rp; Some (G a, rp) }) (G v)"
proof -
  obtain xs where x: "writes f (\<lambda>_. xs)" "ends p xs v" "c \<longrightarrow> xs \<noteq> []" using assms unfolding matches_end_def by blast
  have "ends (\<lambda>rp. do { (a, rp) \<leftarrow> p rp; Some (G a, rp) }) xs (G v)"
    using x(2) unfolding ends_def by (metis (no_types, lifting) bind.bind_lunit case_prod_conv)
  then show ?thesis using x unfolding matches_end_def by blast
qed

text \<open>A pair of a writer and a parser that appends something.\<close>

definition matches_some :: "(BitStreamLite \<Rightarrow> BitStreamLite option) \<Rightarrow> (AL_TRbspParser \<Rightarrow> ('a \<times> AL_TRbspParser) option) \<Rightarrow> 'a \<Rightarrow> bool" where
  "matches_some f p v \<longleftrightarrow> (\<exists>xs. writes f (\<lambda>_. xs) \<and> reads p xs v \<and> xs \<noteq> [])"

lemma matches_some_u:
  assumes "0 < n" "n \<le> 32" "k < 2 ^ n" "k < m" "matches g (q (F k)) w"
  shows "matches_some (\<lambda>bs. do { bs \<leftarrow> wr_u n k bs; g bs }) (\<lambda>rp. do { (a, rp) \<leftarrow> rd_u n m F rp; q a rp }) w"
proof -
  have z: "drop_bit n (word_of_nat k :: u32) = 0" by (rule word_of_nat_fits [OF assms(3,2)])
  have x: "writes (wr_u n k) (\<lambda>_. nbits n (word_of_nat k :: u32))"
    unfolding wr_u_def by (rule writes_u [OF assms(1,2) z])
  have k: "k < 2 ^ 32" using assms(3) power_increasing [OF assms(2), of "2 :: nat"] by simp
  have r: "reads (rd_u n m F) (nbits n (word_of_nat k :: u32) @ []) (F (unat (word_of_nat k :: u32) mod m))"
    unfolding rd_u_def by (rule reads_bind [OF reads_u reads_return]) (use assms z in auto)
  then have r: "reads (rd_u n m F) (nbits n (word_of_nat k :: u32)) (F k)"
    using assms(4) unfolding word_of_nat_u32 [OF k] by simp
  obtain ys where y: "writes g (\<lambda>_. ys)" "reads (q (F k)) ys w" using assms(5) unfolding matches_def by blast
  have "nbits n (word_of_nat k :: u32) @ ys \<noteq> []" using assms(1) length_nbits [of n "word_of_nat k :: u32"] by (metis append_is_Nil_conv list.size(3) less_irrefl)
  then show ?thesis unfolding matches_some_def
    using writes_bind [OF x y(1)] reads_bind [where q = q, OF r y(2)] by blast
qed

lemma matches_end_some:
  assumes "matches_some f p v" "matches_end False Some (q v) w"
  shows "matches_end True f (\<lambda>rp. do { (a, rp) \<leftarrow> p rp; q a rp }) w"
proof -
  obtain xs ys where x: "writes f (\<lambda>_. xs)" "reads p xs v" "xs \<noteq> []" and y: "writes Some (\<lambda>_. ys)" "ends (q v) ys w"
    using assms unfolding matches_some_def matches_end_def by blast
  have "writes (\<lambda>bs. do { bs \<leftarrow> f bs; Some bs }) (\<lambda>_. xs @ ys)" by (rule writes_bind [OF x(1) y(1)])
  then show ?thesis unfolding matches_end_def using ends_bind [where q = q, OF x(2) y(2)] x(3)
    by (intro exI [of _ "xs @ ys"]) simp
qed

section \<open>Units\<close>

text \<open>The reader behind the header of a unit: at the byte \<open>j\<close>, with the bits \<open>xs\<close> before the stop bit.\<close>

definition unit_at :: "u8 list \<Rightarrow> nat \<Rightarrow> nat \<Rightarrow> bool list \<Rightarrow> AL_TRbspParser \<Rightarrow> bool" where
  "unit_at B S j xs rp \<longleftrightarrow> rp_ok B S rp \<and> rp_iCurrentBitIndex rp = 8 * j \<and> S = 8 * j + length xs \<and> short_tail B S \<and> 0 < j
     \<and> (\<exists>P R. bytes_bits B = P @ xs @ R \<and> length P = 8 * j)"

lemma after_header_from:
  "after_header (\<lambda>rp. Some ((), rp)) rp = Some ((), rp1) \<Longrightarrow> after_header p rp = p rp1"
  by (auto simp: after_header_def split: bind_splits)

lemma unit_reader:
  assumes "holds_unit s (start_code four @ [h] @ escape d @ rest) buf sz" "next_unit rest" "h \<noteq> 0"
    and "bytes_bits d = rbsp_bits (bit_syns xs)" "d \<noteq> []"
  shows "\<exists>B S j rp. after_header (\<lambda>rp. Some ((), rp)) (InitRbspParser s buf sz True) = Some ((), rp) \<and> unit_at B S j xs rp"
proof -
  have hz: "\<forall>b \<in> set [h]. b \<noteq> 0" using assms(3) by simp
  obtain k where k: "k \<le> 3" "k \<le> length rest" "unescape 0 0 (start_code four @ [h] @ escape d @ rest) = start_code four @ [h] @ d @ replicate k 0"
    using unescape_nal [OF hz assms(5) rbsp_last [OF assms(4,5)] assms(2)] by blast
  let ?B = "start_code four @ [h] @ d @ replicate k 0" and ?H = "start_code four @ [h]"
  let ?S = "8 * length ?H + length xs"
  have z: "bytes_bits (replicate k 0) = replicate (8 * k) False"
    by (rule nth_equalityI) (auto simp: bytes_bits_nth nth_replicate div_less_iff_less_mult mult.commute)
  have "stop_bit ?B (length (bytes_bits ?H) + length (concat (map syn_bits (bit_syns xs))))"
    by (rule rbsp_stop_bit [of _ _ _ "8 * k"]) (simp add: assms(4) z)
  then have st: "stop_bit ?B ?S" by (simp add: bit_syns_bits ac_simps)
  have ok: "rp_ok ?B ?S (InitRbspParser s buf sz True)"
    by (rule InitRbspParser_ok [OF _ _ _ _ k(3) st])
      (use assms(1) k(2) length_escape [of d] in \<open>auto simp: holds_unit_def start_code_def\<close>)
  have cur: "rp_iCurrentBitIndex (InitRbspParser s buf sz True) = 0"
    by (simp add: InitRbspParser_def Let_def)
  have "8 * length d = length xs + 1 + length (align_bits False (Suc (length xs)))"
    using arg_cong [OF assms(4), of length] by (simp add: bit_syns_rbsp)
  moreover have "length (align_bits False (Suc (length xs))) < 8" by (auto simp: align_bits_def)
  ultimately have "length d \<le> length xs div 8 + 1" by linarith
  then have tail: "short_tail ?B ?S" using k(1) by (simp add: short_tail_def)
  obtain rp1 where rp1: "after_header (\<lambda>rp. Some ((), rp)) (InitRbspParser s buf sz True) = Some ((), rp1)" "rp_ok ?B ?S rp1"
      "rp_iCurrentBitIndex rp1 = 8 * length ?H"
    using after_header_at [OF ok cur refl] by auto
  have "bytes_bits ?B = bytes_bits ?H @ xs @ True # align_bits False (Suc (length xs)) @ bytes_bits (replicate k 0)"
    using assms(4) by (simp add: bit_syns_rbsp)
  then have "unit_at ?B ?S (length ?H) xs rp1" unfolding unit_at_def using rp1(2,3) tail
    by (metis length_bytes_bits length_append_singleton zero_less_Suc)
  then show ?thesis using rp1(1) by blast
qed

lemma unit_ends:
  assumes "holds_unit s (start_code four @ [h] @ escape d @ rest) buf sz" "next_unit rest" "h \<noteq> 0"
    and "ends p xs v" "bytes_bits d = rbsp_bits (bit_syns xs)" "d \<noteq> []"
  shows "\<exists>rp. after_header p (InitRbspParser s buf sz True) = Some (v, rp)"
proof -
  obtain B S j rp1 where rp1: "after_header (\<lambda>rp. Some ((), rp)) (InitRbspParser s buf sz True) = Some ((), rp1)" "unit_at B S j xs rp1"
    using unit_reader [OF assms(1-3,5,6)] by blast
  then obtain P R where P: "bytes_bits B = P @ xs @ R" "length P = 8 * j" by (auto simp: unit_at_def)
  have "\<exists>rp'. p rp1 = Some (v, rp')"
    by (rule endsD [OF assms(4) _ P(1)]) (use P(2) rp1(2) in \<open>auto simp: unit_at_def\<close>)
  then show ?thesis using after_header_from [OF rp1(1), of p] by simp
qed

lemma unit_trip_end:
  assumes "matches_end c f p v" "fits_scratch (\<lambda>bs. do { bs \<leftarrow> f bs; write_trailing bs }) tmp sz"
    and "wsc = AVC_writeStartCode \<or> wsc = HEVC_writeStartCode" "h \<noteq> 0"
    and "bs_wf bs" "bs_iBitCount bs = 8 * k" "\<not> bs_isOverflow bs"
  shows "\<exists>n bs'. WriteNal wsc (\<lambda>bs. do { bs \<leftarrow> f bs; write_trailing bs }) tmp bs sz nut \<lparr>nh_bytes = [h], nh_size = 1\<rparr> mode = Some (n, bs')
    \<and> (n = -1 \<longleftrightarrow> bs_isOverflow bs')
    \<and> (n \<noteq> -1 \<longrightarrow> (\<forall>s buf sz' rest. next_unit rest \<longrightarrow>
          holds_unit s (take (nat n) (drop k (bs_pData bs')) @ rest) buf sz' \<longrightarrow>
          (\<exists>rp. after_header p (InitRbspParser s buf sz' True) = Some (v, rp))))"
proof -
  obtain xs where xs: "writes f (\<lambda>_. xs)" "ends p xs v" using assms(1) unfolding matches_end_def by blast
  obtain n bs' d four where w:
    "WriteNal wsc (\<lambda>bs. do { bs \<leftarrow> f bs; write_trailing bs }) tmp bs sz nut \<lparr>nh_bytes = [h], nh_size = 1\<rparr> mode = Some (n, bs')"
    "n = -1 \<longleftrightarrow> bs_isOverflow bs'" "bytes_bits d = rbsp_bits (bit_syns xs)" "d \<noteq> []"
    "n \<noteq> -1 \<longrightarrow> take (nat n) (drop k (bs_pData bs')) = start_code four @ [h] @ escape d"
    using unit_written [OF xs(1) assms(2,3,5-7), where h = h and nut = nut and mode = mode] by blast
  have "\<exists>rp. after_header p (InitRbspParser s buf sz' True) = Some (v, rp)"
    if "n \<noteq> -1" "next_unit rest" "holds_unit s (take (nat n) (drop k (bs_pData bs')) @ rest) buf sz'" for s buf sz' rest
    using unit_ends [OF _ that(2) assms(4) xs(2) w(3,4)] that(1,3) w(5) by simp
  then show ?thesis using w(1,2) by blast
qed

end
