(* ===== verification/Avc_Headers.thy ===== *)
theory Avc_Headers
  imports Dpb_Marking
begin

text \<open>
  The parameter sets of AVC as \<open>lib_common/AvcHeaders.h\<close> and \<open>lib_common/common_syntax_elements.h\<close>
  declare them, and their values after \<open>Rtos_Memset(.., 0, ..)\<close>. An array is a list of the length the
  declaration gives. An unsigned field is a natural number that the readers reduce to the width of
  the field, a signed one an integer. The fields of \<open>AL_TAvcSps\<close> that the picture manager reads are
  in the record of that name; \<open>AL_TAvcSeqPar\<close> extends it with the rest of the structure.
\<close>

section \<open>The hypothetical reference decoder and the usability information\<close>

record AL_TSubHrdParam =
  shrd_bit_rate_value_minus1 :: "nat list"
  shrd_cpb_size_value_minus1 :: "nat list"
  shrd_cpb_size_du_value_minus1 :: "nat list"
  shrd_bit_rate_du_value_minus1 :: "nat list"
  shrd_cbr_flag :: "nat list"

record AL_THrdParam =
  hrd_nal_hrd_parameters_present_flag :: nat
  hrd_vcl_hrd_parameters_present_flag :: nat
  hrd_sub_pic_hrd_params_present_flag :: nat
  hrd_tick_divisor_minus2 :: nat
  hrd_du_cpb_removal_delay_increment_length_minus1 :: nat
  hrd_sub_pic_cpb_params_in_pic_timing_sei_flag :: nat
  hrd_dpb_output_delay_du_length_minus1 :: nat
  hrd_bit_rate_scale :: nat
  hrd_cpb_size_scale :: nat
  hrd_cpb_size_du_scale :: nat
  hrd_initial_cpb_removal_delay_length_minus1 :: nat
  hrd_au_cpb_removal_delay_length_minus1 :: nat
  hrd_dpb_output_delay_length_minus1 :: nat
  hrd_time_offset_length :: nat
  hrd_fixed_pic_rate_general_flag :: "nat list"
  hrd_fixed_pic_rate_within_cvs_flag :: "nat list"
  hrd_elemental_duration_in_tc_minus1 :: "nat list"
  hrd_low_delay_hrd_flag :: "nat list"
  hrd_cpb_cnt_minus1 :: "nat list"
  hrd_nal_sub_hrd_param :: AL_TSubHrdParam
  hrd_vcl_sub_hrd_param :: AL_TSubHrdParam

record AL_TVuiParam =
  vui_aspect_ratio_info_present_flag :: nat
  vui_aspect_ratio_idc :: nat
  vui_sar_width :: nat
  vui_sar_height :: nat
  vui_overscan_info_present_flag :: nat
  vui_overscan_appropriate_flag :: nat
  vui_video_signal_type_present_flag :: nat
  vui_video_format :: nat
  vui_video_full_range_flag :: nat
  vui_colour_description_present_flag :: nat
  vui_colour_primaries :: nat
  vui_transfer_characteristics :: nat
  vui_matrix_coefficients :: nat
  vui_chroma_loc_info_present_flag :: nat
  vui_chroma_sample_loc_type_top_field :: nat
  vui_chroma_sample_loc_type_bottom_field :: nat
  vui_timing_info_present_flag :: nat
  vui_num_units_in_tick :: nat
  vui_time_scale :: nat
  vui_hrd_param :: AL_THrdParam
  vui_fixed_frame_rate_flag :: nat
  vui_low_delay_hrd_flag :: nat
  vui_pic_struct_present_flag :: nat
  vui_max_num_reorder_frames :: nat
  vui_max_dec_frame_buffering :: nat
  vui_bitstream_restriction_flag :: nat
  vui_motion_vectors_over_pic_boundaries_flag :: nat
  vui_max_bytes_per_pic_denom :: nat
  vui_max_bits_per_min_cu_denom :: nat
  vui_log2_max_mv_length_horizontal :: nat
  vui_log2_max_mv_length_vertical :: nat

definition MAX_NUM_CPB :: nat where "MAX_NUM_CPB = 32"

definition zero_shrd :: AL_TSubHrdParam where
  "zero_shrd = (let z = replicate MAX_NUM_CPB 0 in
     \<lparr>shrd_bit_rate_value_minus1 = z, shrd_cpb_size_value_minus1 = z, shrd_cpb_size_du_value_minus1 = z,
      shrd_bit_rate_du_value_minus1 = z, shrd_cbr_flag = z\<rparr>)"

definition zero_hrd :: AL_THrdParam where
  "zero_hrd = (let z = replicate 8 0 in
     \<lparr>hrd_nal_hrd_parameters_present_flag = 0, hrd_vcl_hrd_parameters_present_flag = 0, hrd_sub_pic_hrd_params_present_flag = 0,
      hrd_tick_divisor_minus2 = 0, hrd_du_cpb_removal_delay_increment_length_minus1 = 0,
      hrd_sub_pic_cpb_params_in_pic_timing_sei_flag = 0, hrd_dpb_output_delay_du_length_minus1 = 0,
      hrd_bit_rate_scale = 0, hrd_cpb_size_scale = 0, hrd_cpb_size_du_scale = 0,
      hrd_initial_cpb_removal_delay_length_minus1 = 0, hrd_au_cpb_removal_delay_length_minus1 = 0,
      hrd_dpb_output_delay_length_minus1 = 0, hrd_time_offset_length = 0,
      hrd_fixed_pic_rate_general_flag = z, hrd_fixed_pic_rate_within_cvs_flag = z, hrd_elemental_duration_in_tc_minus1 = z,
      hrd_low_delay_hrd_flag = z, hrd_cpb_cnt_minus1 = z,
      hrd_nal_sub_hrd_param = zero_shrd, hrd_vcl_sub_hrd_param = zero_shrd\<rparr>)"

definition zero_vui :: AL_TVuiParam where
  "zero_vui =
     \<lparr>vui_aspect_ratio_info_present_flag = 0, vui_aspect_ratio_idc = 0, vui_sar_width = 0, vui_sar_height = 0,
      vui_overscan_info_present_flag = 0, vui_overscan_appropriate_flag = 0,
      vui_video_signal_type_present_flag = 0, vui_video_format = 0, vui_video_full_range_flag = 0,
      vui_colour_description_present_flag = 0, vui_colour_primaries = 0, vui_transfer_characteristics = 0,
      vui_matrix_coefficients = 0, vui_chroma_loc_info_present_flag = 0, vui_chroma_sample_loc_type_top_field = 0,
      vui_chroma_sample_loc_type_bottom_field = 0, vui_timing_info_present_flag = 0, vui_num_units_in_tick = 0,
      vui_time_scale = 0, vui_hrd_param = zero_hrd, vui_fixed_frame_rate_flag = 0, vui_low_delay_hrd_flag = 0,
      vui_pic_struct_present_flag = 0, vui_max_num_reorder_frames = 0, vui_max_dec_frame_buffering = 0,
      vui_bitstream_restriction_flag = 0, vui_motion_vectors_over_pic_boundaries_flag = 0,
      vui_max_bytes_per_pic_denom = 0, vui_max_bits_per_min_cu_denom = 0, vui_log2_max_mv_length_horizontal = 0,
      vui_log2_max_mv_length_vertical = 0\<rparr>"

section \<open>Parameter sets\<close>

text \<open>
  Of \<open>AL_TSCLParam\<close>, the lists that the AVC writer reads: \<open>ScalingList[size][matrix]\<close> with 64 values each.
\<close>

record AL_TAvcSeqPar = AL_TAvcSps +
  sps_profile_idc :: nat
  sps_constraint_set0_flag :: nat
  sps_constraint_set1_flag :: nat
  sps_constraint_set2_flag :: nat
  sps_constraint_set3_flag :: nat
  sps_constraint_set4_flag :: nat
  sps_constraint_set5_flag :: nat
  sps_level_idc :: nat
  sps_seq_parameter_set_id :: nat
  sps_chroma_format_idc :: nat
  sps_separate_colour_plane_flag :: nat
  sps_bit_depth_luma_minus8 :: nat
  sps_bit_depth_chroma_minus8 :: nat
  sps_qpprime_y_zero_transform_bypass_flag :: nat
  sps_seq_scaling_matrix_present_flag :: nat
  sps_seq_scaling_list_present_flag :: "nat list"
  sps_ScalingList4x4 :: "nat list list"
  sps_ScalingList8x8 :: "nat list list"
  sps_scaling_list_param_ScalingList :: "nat list list list"
  sps_delta_pic_order_always_zero_flag :: nat
  sps_pic_width_in_mbs_minus1 :: nat
  sps_pic_height_in_map_units_minus1 :: nat
  sps_frame_mbs_only_flag :: nat
  sps_mb_adaptive_frame_field_flag :: nat
  sps_direct_8x8_inference_flag :: nat
  sps_frame_cropping_flag :: nat
  sps_frame_crop_left_offset :: int
  sps_frame_crop_right_offset :: int
  sps_frame_crop_top_offset :: int
  sps_frame_crop_bottom_offset :: int
  sps_vui_parameters_present_flag :: nat
  sps_vui_param :: AL_TVuiParam
  sps_UseDefaultScalingMatrix4x4Flag :: "nat list"
  sps_UseDefaultScalingMatrix8x8Flag :: "nat list"
  sps_bConceal :: bool

definition zero_sps :: AL_TAvcSeqPar where
  "zero_sps =
     \<lparr>sps_log2_max_frame_num_minus4 = 0, sps_pic_order_cnt_type = 0, sps_log2_max_pic_order_cnt_lsb_minus4 = 0,
      sps_offset_for_non_ref_pic = 0, sps_offset_for_top_to_bottom_field = 0,
      sps_num_ref_frames_in_pic_order_cnt_cycle = 0, sps_offset_for_ref_frame = replicate 256 0,
      sps_max_num_ref_frames = 0, sps_gaps_in_frame_num_value_allowed_flag = 0,
      sps_profile_idc = 0, sps_constraint_set0_flag = 0, sps_constraint_set1_flag = 0, sps_constraint_set2_flag = 0,
      sps_constraint_set3_flag = 0, sps_constraint_set4_flag = 0, sps_constraint_set5_flag = 0, sps_level_idc = 0,
      sps_seq_parameter_set_id = 0, sps_chroma_format_idc = 0, sps_separate_colour_plane_flag = 0,
      sps_bit_depth_luma_minus8 = 0, sps_bit_depth_chroma_minus8 = 0, sps_qpprime_y_zero_transform_bypass_flag = 0,
      sps_seq_scaling_matrix_present_flag = 0, sps_seq_scaling_list_present_flag = replicate 12 0,
      sps_ScalingList4x4 = replicate 6 (replicate 16 0), sps_ScalingList8x8 = replicate 6 (replicate 64 0),
      sps_scaling_list_param_ScalingList = replicate 4 (replicate 6 (replicate 64 0)),
      sps_delta_pic_order_always_zero_flag = 0, sps_pic_width_in_mbs_minus1 = 0, sps_pic_height_in_map_units_minus1 = 0,
      sps_frame_mbs_only_flag = 0, sps_mb_adaptive_frame_field_flag = 0, sps_direct_8x8_inference_flag = 0,
      sps_frame_cropping_flag = 0, sps_frame_crop_left_offset = 0, sps_frame_crop_right_offset = 0,
      sps_frame_crop_top_offset = 0, sps_frame_crop_bottom_offset = 0, sps_vui_parameters_present_flag = 0,
      sps_vui_param = zero_vui, sps_UseDefaultScalingMatrix4x4Flag = replicate 6 0,
      sps_UseDefaultScalingMatrix8x8Flag = replicate 6 0, sps_bConceal = False\<rparr>"

text \<open>\<open>pSPS\<close> points into the table of sequence parameter sets: it is the position in the table.\<close>

record AL_TAvcPps =
  pps_pic_parameter_set_id :: nat
  pps_seq_parameter_set_id :: nat
  pps_entropy_coding_mode_flag :: nat
  pps_bottom_field_pic_order_in_frame_present_flag :: nat
  pps_num_slice_groups_minus1 :: int
  pps_num_ref_idx_l0_active_minus1 :: nat
  pps_num_ref_idx_l1_active_minus1 :: nat
  pps_weighted_pred_flag :: nat
  pps_weighted_bipred_idc :: nat
  pps_pic_init_qp_minus26 :: int
  pps_pic_init_qs_minus26 :: int
  pps_chroma_qp_index_offset :: int
  pps_second_chroma_qp_index_offset :: int
  pps_deblocking_filter_control_present_flag :: nat
  pps_constrained_intra_pred_flag :: nat
  pps_redundant_pic_cnt_present_flag :: nat
  pps_transform_8x8_mode_flag :: nat
  pps_pic_scaling_matrix_present_flag :: nat
  pps_pic_scaling_list_present_flag :: "nat list"
  pps_ScalingList4x4 :: "nat list list"
  pps_ScalingList8x8 :: "nat list list"
  pps_UseDefaultScalingMatrix4x4Flag :: "nat list"
  pps_UseDefaultScalingMatrix8x8Flag :: "nat list"
  pps_pSPS :: nat
  pps_bConceal :: bool

end
