(* ===== verification/Avc_Write.thy ===== *)
theory Avc_Write
  imports Avc_Headers Nal_Trip
begin

text \<open>
  The writers of the AVC parameter sets and messages, \<open>lib_bitstream/AVC_RbspEncod.c\<close>. Elements that the
  code puts under an \<open>if\<close> are under an \<open>if\<close> here; a failed \<open>Rtos_Assert\<close> is \<open>None\<close>.
\<close>

section \<open>Scaling lists\<close>

definition DecScanBlock4x4 :: "nat list" where
  "DecScanBlock4x4 = [0, 1, 4, 8, 5, 2, 3, 6, 9, 12, 13, 10, 7, 11, 14, 15]"

definition DecScanBlock8x8 :: "nat list" where
  "DecScanBlock8x8 = [0, 1, 8, 16, 9, 2, 3, 10, 17, 24, 32, 25, 18, 11, 4, 5, 12, 19, 26, 33, 40, 48, 41, 34,
     27, 20, 13, 6, 7, 14, 21, 28, 35, 42, 49, 56, 57, 50, 43, 36, 29, 22, 15, 23, 30, 37, 44, 51,
     58, 59, 52, 45, 38, 31, 39, 46, 53, 60, 61, 54, 47, 55, 62, 63]"

text \<open>The loop of \<open>writeScalingList\<close> over the scan positions; its result, which no caller reads, is left out.\<close>

fun writeScalingList_loop :: "nat list \<Rightarrow> nat list \<Rightarrow> nat \<Rightarrow> nat \<Rightarrow> BitStreamLite \<Rightarrow> BitStreamLite option" where
  "writeScalingList_loop pScalingList [] iLastScale iNextScale bs = Some bs"
| "writeScalingList_loop pScalingList (i # is) iLastScale iNextScale bs = do {
     (iNextScale, bs) \<leftarrow>
       (if iNextScale \<noteq> 0 then do {
          let iDeltaScale = int (pScalingList ! i) - int iLastScale;
          let iDeltaScale = (if iDeltaScale > 127 then iDeltaScale - 256
            else if iDeltaScale < -128 then iDeltaScale + 256 else iDeltaScale);
          bs \<leftarrow> AL_BitStreamLite_PutSE bs iDeltaScale;
          Some (pScalingList ! i, bs) }
        else Some (iNextScale, bs));
     writeScalingList_loop pScalingList is (pScalingList ! i) iNextScale bs }"

definition writeScalingList :: "nat list \<Rightarrow> nat \<Rightarrow> BitStreamLite \<Rightarrow> BitStreamLite option" where
  "writeScalingList pScalingList iSize =
     writeScalingList_loop pScalingList (if iSize = 16 then DecScanBlock4x4 else DecScanBlock8x8) 8 8"

text \<open>The list with index \<open>i\<close> in the encoder's parameters, and the loop of \<open>writeScalingMatrix\<close>.\<close>

definition enc_list :: "AL_TAvcSeqPar \<Rightarrow> nat \<Rightarrow> nat list" where
  "enc_list s i = (if i < 6 then sps_scaling_list_param_ScalingList s ! 0 ! i
     else sps_scaling_list_param_ScalingList s ! 1 ! ((i mod 2) * 3 + (i - 6) div 2))"

definition NbScalingList :: "AL_TAvcSeqPar \<Rightarrow> nat" where
  "NbScalingList s = (if sps_chroma_format_idc s \<noteq> 3 then 8 else 12)"

definition writeScalingMatrix :: "nat \<Rightarrow> AL_TAvcSeqPar \<Rightarrow> BitStreamLite \<Rightarrow> BitStreamLite option" where
  "writeScalingMatrix isScalingMatrixPresent s =
     (if isScalingMatrixPresent = 0 then Some
      else foldM (\<lambda>i bs. do {
        bs \<leftarrow> wr_u 1 (sps_seq_scaling_list_present_flag s ! i) bs;
        if sps_seq_scaling_list_present_flag s ! i = 0 then Some bs
        else writeScalingList (enc_list s i) (if i < 6 then 16 else 64) bs }) [0..<NbScalingList s])"

section \<open>Usability information\<close>

definition writeHrdParam :: "AL_THrdParam \<Rightarrow> AL_TSubHrdParam \<Rightarrow> BitStreamLite \<Rightarrow> BitStreamLite option" where
  "writeHrdParam h sub = (\<lambda>bs.
     if \<not> hrd_cpb_cnt_minus1 h ! 0 < MAX_NUM_CPB then None else do {
       bs \<leftarrow> wr_ue (hrd_cpb_cnt_minus1 h ! 0) bs;
       bs \<leftarrow> wr_u 4 (hrd_bit_rate_scale h) bs;
       bs \<leftarrow> wr_u 4 (hrd_cpb_size_scale h) bs;
       bs \<leftarrow> foldM (\<lambda>i bs. do {
         bs \<leftarrow> wr_ue (shrd_bit_rate_value_minus1 sub ! i) bs;
         bs \<leftarrow> wr_ue (shrd_cpb_size_value_minus1 sub ! i) bs;
         wr_u 1 (shrd_cbr_flag sub ! i) bs }) [0..<Suc (hrd_cpb_cnt_minus1 h ! 0)] bs;
       bs \<leftarrow> wr_u 5 (hrd_initial_cpb_removal_delay_length_minus1 h) bs;
       bs \<leftarrow> wr_u 5 (hrd_au_cpb_removal_delay_length_minus1 h) bs;
       bs \<leftarrow> wr_u 5 (hrd_dpb_output_delay_length_minus1 h) bs;
       wr_u 5 (hrd_time_offset_length h) bs })"

definition write_vui_picture :: "AL_TVuiParam \<Rightarrow> BitStreamLite \<Rightarrow> BitStreamLite option" where
  "write_vui_picture v = (\<lambda>bs. do {
     bs \<leftarrow> wr_u 1 (vui_aspect_ratio_info_present_flag v) bs;
     bs \<leftarrow> (if vui_aspect_ratio_info_present_flag v \<noteq> 0 then do {
         bs \<leftarrow> wr_u 8 (vui_aspect_ratio_idc v) bs;
         if vui_aspect_ratio_idc v = 255 then do {
           bs \<leftarrow> wr_u 16 (vui_sar_width v) bs;
           wr_u 16 (vui_sar_height v) bs }
         else Some bs }
       else Some bs);
     bs \<leftarrow> wr_u 1 (vui_overscan_info_present_flag v) bs;
     if vui_overscan_info_present_flag v \<noteq> 0 then wr_u 1 (vui_overscan_appropriate_flag v) bs else Some bs })"

definition write_vui_signal :: "AL_TVuiParam \<Rightarrow> BitStreamLite \<Rightarrow> BitStreamLite option" where
  "write_vui_signal v = (\<lambda>bs. do {
     bs \<leftarrow> wr_u 1 (vui_video_signal_type_present_flag v) bs;
     if vui_video_signal_type_present_flag v \<noteq> 0 then do {
       bs \<leftarrow> wr_u 3 (vui_video_format v) bs;
       bs \<leftarrow> wr_u 1 (vui_video_full_range_flag v) bs;
       bs \<leftarrow> wr_u 1 (vui_colour_description_present_flag v) bs;
       if vui_colour_description_present_flag v \<noteq> 0 then do {
         bs \<leftarrow> wr_u 8 (vui_colour_primaries v) bs;
         bs \<leftarrow> wr_u 8 (vui_transfer_characteristics v) bs;
         wr_u 8 (vui_matrix_coefficients v) bs }
       else Some bs }
     else Some bs })"

definition write_vui_timing :: "AL_TVuiParam \<Rightarrow> BitStreamLite \<Rightarrow> BitStreamLite option" where
  "write_vui_timing v = (\<lambda>bs. do {
     bs \<leftarrow> wr_u 1 (vui_chroma_loc_info_present_flag v) bs;
     bs \<leftarrow> (if vui_chroma_loc_info_present_flag v \<noteq> 0 then do {
         bs \<leftarrow> wr_ue (vui_chroma_sample_loc_type_top_field v) bs;
         wr_ue (vui_chroma_sample_loc_type_bottom_field v) bs }
       else Some bs);
     bs \<leftarrow> wr_u 1 (vui_timing_info_present_flag v) bs;
     if vui_timing_info_present_flag v \<noteq> 0 then do {
       bs \<leftarrow> wr_u 32 (vui_num_units_in_tick v) bs;
       bs \<leftarrow> wr_u 32 (vui_time_scale v) bs;
       wr_u 1 (vui_fixed_frame_rate_flag v) bs }
     else Some bs })"

definition write_nal_hrd :: "AL_THrdParam \<Rightarrow> BitStreamLite \<Rightarrow> BitStreamLite option" where
  "write_nal_hrd h = (\<lambda>bs. do {
     bs \<leftarrow> wr_u 1 (hrd_nal_hrd_parameters_present_flag h) bs;
     if hrd_nal_hrd_parameters_present_flag h \<noteq> 0 then writeHrdParam h (hrd_nal_sub_hrd_param h) bs else Some bs })"

definition write_vcl_hrd :: "AL_THrdParam \<Rightarrow> BitStreamLite \<Rightarrow> BitStreamLite option" where
  "write_vcl_hrd h = (\<lambda>bs. do {
     bs \<leftarrow> wr_u 1 (hrd_vcl_hrd_parameters_present_flag h) bs;
     if hrd_vcl_hrd_parameters_present_flag h \<noteq> 0 then writeHrdParam h (hrd_vcl_sub_hrd_param h) bs else Some bs })"

definition write_vui_hrd :: "AL_THrdParam \<Rightarrow> BitStreamLite \<Rightarrow> BitStreamLite option" where
  "write_vui_hrd h = (\<lambda>bs. do {
     bs \<leftarrow> write_nal_hrd h bs;
     bs \<leftarrow> write_vcl_hrd h bs;
     if hrd_nal_hrd_parameters_present_flag h \<noteq> 0 \<or> hrd_vcl_hrd_parameters_present_flag h \<noteq> 0
     then wr_u 1 (hrd_low_delay_hrd_flag h ! 0) bs else Some bs })"

definition write_vui_restriction :: "AL_TVuiParam \<Rightarrow> BitStreamLite \<Rightarrow> BitStreamLite option" where
  "write_vui_restriction v = (\<lambda>bs. do {
     bs \<leftarrow> wr_u 1 (vui_pic_struct_present_flag v) bs;
     bs \<leftarrow> wr_u 1 (vui_bitstream_restriction_flag v) bs;
     if vui_bitstream_restriction_flag v \<noteq> 0 then do {
       bs \<leftarrow> wr_u 1 (vui_motion_vectors_over_pic_boundaries_flag v) bs;
       bs \<leftarrow> wr_ue (vui_max_bytes_per_pic_denom v) bs;
       bs \<leftarrow> wr_ue (vui_max_bits_per_min_cu_denom v) bs;
       bs \<leftarrow> wr_ue (vui_log2_max_mv_length_horizontal v) bs;
       bs \<leftarrow> wr_ue (vui_log2_max_mv_length_vertical v) bs;
       bs \<leftarrow> wr_ue (vui_max_num_reorder_frames v) bs;
       wr_ue (vui_max_dec_frame_buffering v) bs }
     else Some bs })"

definition write_vui :: "AL_TVuiParam \<Rightarrow> BitStreamLite \<Rightarrow> BitStreamLite option" where
  "write_vui v = (\<lambda>bs. do {
     bs \<leftarrow> write_vui_picture v bs;
     bs \<leftarrow> write_vui_signal v bs;
     bs \<leftarrow> write_vui_timing v bs;
     bs \<leftarrow> write_vui_hrd (vui_hrd_param v) bs;
     write_vui_restriction v bs })"

section \<open>The sequence parameter set\<close>

definition write_sps_profile :: "AL_TAvcSeqPar \<Rightarrow> BitStreamLite \<Rightarrow> BitStreamLite option" where
  "write_sps_profile s = (\<lambda>bs. do {
     bs \<leftarrow> wr_u 8 (sps_profile_idc s) bs;
     bs \<leftarrow> wr_u 1 (sps_constraint_set0_flag s) bs;
     bs \<leftarrow> wr_u 1 (sps_constraint_set1_flag s) bs;
     bs \<leftarrow> wr_u 1 (sps_constraint_set2_flag s) bs;
     bs \<leftarrow> wr_u 1 (sps_constraint_set3_flag s) bs;
     bs \<leftarrow> wr_u 1 (sps_constraint_set4_flag s) bs;
     bs \<leftarrow> wr_u 1 (sps_constraint_set5_flag s) bs;
     bs \<leftarrow> wr_u 2 0 bs;
     bs \<leftarrow> wr_u 8 (sps_level_idc s) bs;
     wr_ue (sps_seq_parameter_set_id s) bs })"

definition writes_chroma_format :: "nat \<Rightarrow> bool" where
  "writes_chroma_format profile_idc \<longleftrightarrow> profile_idc \<in> {100, 110, 122, 244, 44, 83, 86, 118, 128}"

definition write_sps_chroma :: "AL_TAvcSeqPar \<Rightarrow> BitStreamLite \<Rightarrow> BitStreamLite option" where
  "write_sps_chroma s = (\<lambda>bs. if writes_chroma_format (sps_profile_idc s) then do {
     bs \<leftarrow> wr_ue (sps_chroma_format_idc s) bs;
     bs \<leftarrow> (if sps_chroma_format_idc s = 3 then wr_u 1 (sps_separate_colour_plane_flag s) bs else Some bs);
     bs \<leftarrow> wr_ue (sps_bit_depth_luma_minus8 s) bs;
     bs \<leftarrow> wr_ue (sps_bit_depth_chroma_minus8 s) bs;
     bs \<leftarrow> wr_u 1 (sps_qpprime_y_zero_transform_bypass_flag s) bs;
     bs \<leftarrow> wr_u 1 (sps_seq_scaling_matrix_present_flag s) bs;
     writeScalingMatrix (sps_seq_scaling_matrix_present_flag s) s bs }
   else Some bs)"

definition write_sps_order :: "AL_TAvcSeqPar \<Rightarrow> BitStreamLite \<Rightarrow> BitStreamLite option" where
  "write_sps_order s = (\<lambda>bs. do {
     bs \<leftarrow> wr_ue (sps_log2_max_frame_num_minus4 s) bs;
     bs \<leftarrow> wr_ue (sps_pic_order_cnt_type s) bs;
     bs \<leftarrow> (if sps_pic_order_cnt_type s = 0 then wr_ue (sps_log2_max_pic_order_cnt_lsb_minus4 s) bs else Some bs);
     if sps_pic_order_cnt_type s = 1 then None else Some bs })"

definition write_sps_frame :: "AL_TAvcSeqPar \<Rightarrow> BitStreamLite \<Rightarrow> BitStreamLite option" where
  "write_sps_frame s = (\<lambda>bs. do {
     bs \<leftarrow> wr_ue (sps_max_num_ref_frames s) bs;
     bs \<leftarrow> wr_u 1 (sps_gaps_in_frame_num_value_allowed_flag s) bs;
     bs \<leftarrow> wr_ue (sps_pic_width_in_mbs_minus1 s) bs;
     bs \<leftarrow> wr_ue (sps_pic_height_in_map_units_minus1 s) bs;
     bs \<leftarrow> wr_u 1 (sps_frame_mbs_only_flag s) bs;
     if sps_frame_mbs_only_flag s = 0 then wr_u 1 (sps_mb_adaptive_frame_field_flag s) bs else Some bs })"

definition write_sps_crop :: "AL_TAvcSeqPar \<Rightarrow> BitStreamLite \<Rightarrow> BitStreamLite option" where
  "write_sps_crop s = (\<lambda>bs. do {
     bs \<leftarrow> wr_u 1 (sps_direct_8x8_inference_flag s) bs;
     bs \<leftarrow> wr_u 1 (sps_frame_cropping_flag s) bs;
     if sps_frame_cropping_flag s \<noteq> 0 then do {
       bs \<leftarrow> wr_ue_int (sps_frame_crop_left_offset s) bs;
       bs \<leftarrow> wr_ue_int (sps_frame_crop_right_offset s) bs;
       bs \<leftarrow> wr_ue_int (sps_frame_crop_top_offset s) bs;
       wr_ue_int (sps_frame_crop_bottom_offset s) bs }
     else Some bs })"

definition writeSpsData :: "AL_TAvcSeqPar \<Rightarrow> BitStreamLite \<Rightarrow> BitStreamLite option" where
  "writeSpsData s = (\<lambda>bs. do {
     bs \<leftarrow> write_sps_profile s bs;
     bs \<leftarrow> write_sps_chroma s bs;
     bs \<leftarrow> write_sps_order s bs;
     bs \<leftarrow> write_sps_frame s bs;
     bs \<leftarrow> write_sps_crop s bs;
     bs \<leftarrow> wr_u 1 (sps_vui_parameters_present_flag s) bs;
     if sps_vui_parameters_present_flag s \<noteq> 0 then write_vui (sps_vui_param s) bs else Some bs })"

definition writeSps :: "AL_TAvcSeqPar \<Rightarrow> BitStreamLite \<Rightarrow> BitStreamLite option" where
  "writeSps s = (\<lambda>bs. do { bs \<leftarrow> writeSpsData s bs; write_trailing bs })"

section \<open>The picture parameter set\<close>

text \<open>\<open>sps\<close> is what \<open>pSPS\<close> points to. Its scaling lists are written, with its flags.\<close>

definition write_pps_ref :: "AL_TAvcPps \<Rightarrow> BitStreamLite \<Rightarrow> BitStreamLite option" where
  "write_pps_ref p = (\<lambda>bs. do {
     bs \<leftarrow> wr_ue (pps_num_ref_idx_l0_active_minus1 p) bs;
     bs \<leftarrow> wr_ue (pps_num_ref_idx_l1_active_minus1 p) bs;
     bs \<leftarrow> wr_u 1 (pps_weighted_pred_flag p) bs;
     bs \<leftarrow> wr_u 2 (pps_weighted_bipred_idc p) bs;
     bs \<leftarrow> wr_se (pps_pic_init_qp_minus26 p) bs;
     wr_se (pps_pic_init_qs_minus26 p) bs })"

definition write_pps_flags :: "AL_TAvcPps \<Rightarrow> BitStreamLite \<Rightarrow> BitStreamLite option" where
  "write_pps_flags p = (\<lambda>bs.
     if \<not> (-12 \<le> pps_chroma_qp_index_offset p \<and> pps_chroma_qp_index_offset p \<le> 12) then None else do {
     bs \<leftarrow> wr_se (pps_chroma_qp_index_offset p) bs;
     bs \<leftarrow> wr_u 1 (pps_deblocking_filter_control_present_flag p) bs;
     bs \<leftarrow> wr_u 1 (pps_constrained_intra_pred_flag p) bs;
     wr_u 1 (pps_redundant_pic_cnt_present_flag p) bs })"

definition write_pps_extension :: "AL_TAvcPps \<Rightarrow> AL_TAvcSeqPar \<Rightarrow> BitStreamLite \<Rightarrow> BitStreamLite option" where
  "write_pps_extension p sps = (\<lambda>bs. do {
     bs \<leftarrow> wr_u 1 (pps_transform_8x8_mode_flag p) bs;
     bs \<leftarrow> wr_u 1 (pps_pic_scaling_matrix_present_flag p) bs;
     bs \<leftarrow> writeScalingMatrix (pps_pic_scaling_matrix_present_flag p) sps bs;
     if \<not> (-12 \<le> pps_second_chroma_qp_index_offset p \<and> pps_second_chroma_qp_index_offset p \<le> 12) then None
     else wr_se (pps_second_chroma_qp_index_offset p) bs })"

definition write_pps_rest :: "AL_TAvcPps \<Rightarrow> AL_TAvcSeqPar \<Rightarrow> BitStreamLite \<Rightarrow> BitStreamLite option" where
  "write_pps_rest p sps = (\<lambda>bs. do {
     bs \<leftarrow> wr_u 1 (pps_entropy_coding_mode_flag p) bs;
     bs \<leftarrow> wr_u 1 (pps_bottom_field_pic_order_in_frame_present_flag p) bs;
     bs \<leftarrow> wr_ue_int (pps_num_slice_groups_minus1 p) bs;
     if pps_num_slice_groups_minus1 p \<noteq> 0 then None else do {
     bs \<leftarrow> write_pps_ref p bs;
     bs \<leftarrow> write_pps_flags p bs;
     if pps_transform_8x8_mode_flag p \<noteq> 0 \<or> pps_second_chroma_qp_index_offset p \<noteq> pps_chroma_qp_index_offset p
     then write_pps_extension p sps bs else Some bs }})"

definition write_pps_data :: "AL_TAvcPps \<Rightarrow> AL_TAvcSeqPar \<Rightarrow> BitStreamLite \<Rightarrow> BitStreamLite option" where
  "write_pps_data p sps = (\<lambda>bs. do {
     bs \<leftarrow> wr_ue (pps_pic_parameter_set_id p) bs;
     bs \<leftarrow> wr_ue (pps_seq_parameter_set_id p) bs;
     write_pps_rest p sps bs })"

definition writePps :: "AL_TAvcPps \<Rightarrow> AL_TAvcSeqPar \<Rightarrow> BitStreamLite \<Rightarrow> BitStreamLite option" where
  "writePps p sps = (\<lambda>bs. do { bs \<leftarrow> write_pps_data p sps bs; write_trailing bs })"

end
