(* ===== verification/Avc_Parse.thy ===== *)
theory Avc_Parse
  imports Avc_Headers Avc_Write
begin

text \<open>
  The parsers of the AVC parameter sets, \<open>lib_parsing/AvcParser.c\<close>. A part of a parser takes the structure
  that the code fills through its pointer and returns it with the result; \<open>COMPLY\<close> and the other early
  returns end a part with a result other than \<open>AL_PARSE_OK\<close>, and the parts after it are not run.
\<close>

section \<open>Results and parts\<close>

datatype AL_EParseResult = AL_PARSE_OK | AL_PARSE_CONCEAL | AL_PARSE_BAD_ID | AL_PARSE_UNSUPPORTED | AL_PARSER_LAUNCHED_OK

type_synonym 's part = "'s \<Rightarrow> AL_TRbspParser \<Rightarrow> ((AL_EParseResult \<times> 's) \<times> AL_TRbspParser) option"

fun parts :: "'s part list \<Rightarrow> 's part" where
  "parts [] s rp = Some ((AL_PARSE_OK, s), rp)"
| "parts (p # ps) s rp = do {
     ((r, s), rp) \<leftarrow> p s rp;
     if r = AL_PARSE_OK then parts ps s rp else Some ((r, s), rp) }"

definition Clip3 :: "int \<Rightarrow> int \<Rightarrow> int \<Rightarrow> int" where
  "Clip3 iVal iMin iMax = (if iVal < iMin then iMin else if iVal > iMax then iMax else iVal)"

definition rd_skip :: "nat \<Rightarrow> AL_TRbspParser \<Rightarrow> (unit \<times> AL_TRbspParser) option" where
  "rd_skip n = (\<lambda>rp. do { rp \<leftarrow> skip rp n; Some ((), rp) })"

definition MAX_BIT_DEPTH_MINUS_8 :: int where "MAX_BIT_DEPTH_MINUS_8 = 4"
definition MAX_POC_LSB_MINUS_4 :: nat where "MAX_POC_LSB_MINUS_4 = 12"
definition MAX_FRAME_NUM :: nat where "MAX_FRAME_NUM = 12"
definition MAX_POC_TYPE :: nat where "MAX_POC_TYPE = 2"
definition AL_MAX_REF :: int where "AL_MAX_REF = 16"
definition AL_AVC_MAX_SPS :: nat where "AL_AVC_MAX_SPS = 32"
definition AL_AVC_MAX_PPS :: nat where "AL_AVC_MAX_PPS = 256"
definition AL_AVC_MAX_REF_IDX :: int where "AL_AVC_MAX_REF_IDX = 15"
definition AL_AVC_MAX_WP_IDC :: int where "AL_AVC_MAX_WP_IDC = 2"
definition AL_MIN_INIT_QP :: int where "AL_MIN_INIT_QP = -26"
definition AL_MAX_INIT_QP :: int where "AL_MAX_INIT_QP = 25"
definition AL_MIN_QP_OFFSET :: int where "AL_MIN_QP_OFFSET = -12"
definition AL_MAX_QP_OFFSET :: int where "AL_MAX_QP_OFFSET = 12"
definition AL_CHROMA_MAX_ENUM :: nat where "AL_CHROMA_MAX_ENUM = 5"

section \<open>Scaling lists\<close>

text \<open>The arrays of a parameter set that the loops over the scaling lists fill.\<close>

record scaling =
  sc_present :: "nat list"
  sc_4x4 :: "nat list list"
  sc_8x8 :: "nat list list"
  sc_default4x4 :: "nat list"
  sc_default8x8 :: "nat list"

definition propagate_scaling_list :: "nat \<Rightarrow> scaling \<Rightarrow> scaling" where
  "propagate_scaling_list i c =
     (if i < 6 then
        if i = 0 \<or> i = 3 then c\<lparr>sc_default4x4 := (sc_default4x4 c)[i := 1]\<rparr>
        else if sc_default4x4 c ! (i - 1) \<noteq> 0 then c\<lparr>sc_default4x4 := (sc_default4x4 c)[i := 1]\<rparr>
        else c\<lparr>sc_4x4 := (sc_4x4 c)[i := sc_4x4 c ! (i - 1)]\<rparr>
      else if i < 8 then c\<lparr>sc_default8x8 := (sc_default8x8 c)[i - 6 := 1]\<rparr>
      else if sc_default8x8 c ! (i - 8) \<noteq> 0 then c\<lparr>sc_default8x8 := (sc_default8x8 c)[i - 6 := 1]\<rparr>
      else c\<lparr>sc_8x8 := (sc_8x8 c)[i - 6 := sc_8x8 c ! (i - 8)]\<rparr>)"

text \<open>One turn of the loop of \<open>avc_scaling_list_data\<close>: the list, the flag, \<open>iLastScale\<close> and \<open>iNextScale\<close>.\<close>

definition scaling_turn :: "nat list \<Rightarrow> nat \<Rightarrow> (nat list \<times> nat \<times> int \<times> int) \<Rightarrow> AL_TRbspParser \<Rightarrow>
    ((nat list \<times> nat \<times> int \<times> int) \<times> AL_TRbspParser) option" where
  "scaling_turn pDecScanBlock j = (\<lambda>(pScalingList, flag, iLastScale, iNextScale) rp. do {
     let i = pDecScanBlock ! j;
     ((flag, iNextScale), rp) \<leftarrow>
       (if iNextScale \<noteq> 0 then
          rd_se (\<lambda>d. let iNextScale = (iLastScale + Clip3 d (-128) 127 + 256) mod 256 in
            (if j = 0 \<and> iNextScale = 0 then 1 else 0, iNextScale)) rp
        else Some ((flag, iNextScale), rp));
     let v = (if iNextScale = 0 then iLastScale else iNextScale);
     Some ((pScalingList[i := nat v], flag, v, iNextScale), rp) })"

definition avc_scaling_list_data :: "nat list \<Rightarrow> nat \<Rightarrow> nat \<Rightarrow> AL_TRbspParser \<Rightarrow> ((nat list \<times> nat) \<times> AL_TRbspParser) option" where
  "avc_scaling_list_data pScalingList iSize flag = (\<lambda>rp. do {
     let pDecScanBlock = (if iSize = 16 then DecScanBlock4x4 else DecScanBlock8x8);
     ((pScalingList, flag, _, _), rp) \<leftarrow>
       for_reads (scaling_turn pDecScanBlock) [0..<iSize] (pScalingList, flag, 8, 8) rp;
     Some ((pScalingList, flag), rp) })"

text \<open>A list that is present, in both parameter sets.\<close>

definition read_list :: "nat \<Rightarrow> scaling \<Rightarrow> AL_TRbspParser \<Rightarrow> (scaling \<times> AL_TRbspParser) option" where
  "read_list i c = (\<lambda>rp.
     if i < 6 then do {
       ((l, f), rp) \<leftarrow> avc_scaling_list_data (sc_4x4 c ! i) 16 (sc_default4x4 c ! i) rp;
       Some (c\<lparr>sc_4x4 := (sc_4x4 c)[i := l], sc_default4x4 := (sc_default4x4 c)[i := f]\<rparr>, rp) }
     else do {
       ((l, f), rp) \<leftarrow> avc_scaling_list_data (sc_8x8 c ! (i - 6)) 64 (sc_default8x8 c ! (i - 6)) rp;
       Some (c\<lparr>sc_8x8 := (sc_8x8 c)[i - 6 := l], sc_default8x8 := (sc_default8x8 c)[i - 6 := f]\<rparr>, rp) })"

definition sps_list_turn :: "nat \<Rightarrow> scaling \<Rightarrow> AL_TRbspParser \<Rightarrow> (scaling \<times> AL_TRbspParser) option" where
  "sps_list_turn i c = (\<lambda>rp. do {
     (c, rp) \<leftarrow> rd_u 1 U8 (\<lambda>k. c\<lparr>sc_present := (sc_present c)[i := k]\<rparr>) rp;
     if sc_present c ! i = 0 then Some (propagate_scaling_list i c, rp) else read_list i c rp })"

section \<open>Usability information\<close>

definition hrd_reset :: "AL_TSubHrdParam \<Rightarrow> AL_TSubHrdParam" where
  "hrd_reset sub = sub\<lparr>shrd_bit_rate_value_minus1 := replicate MAX_NUM_CPB 0,
     shrd_cpb_size_value_minus1 := replicate MAX_NUM_CPB 0, shrd_cbr_flag := replicate MAX_NUM_CPB 0\<rparr>"

definition hrd_turn :: "nat \<Rightarrow> AL_TSubHrdParam \<Rightarrow> AL_TRbspParser \<Rightarrow> (AL_TSubHrdParam \<times> AL_TRbspParser) option" where
  "hrd_turn i sub = (\<lambda>rp. do {
     (sub, rp) \<leftarrow> rd_ue U32 (\<lambda>k. sub\<lparr>shrd_bit_rate_value_minus1 := (shrd_bit_rate_value_minus1 sub)[i := k]\<rparr>) rp;
     (sub, rp) \<leftarrow> rd_ue U32 (\<lambda>k. sub\<lparr>shrd_cpb_size_value_minus1 := (shrd_cpb_size_value_minus1 sub)[i := k]\<rparr>) rp;
     rd_u 1 U8 (\<lambda>k. sub\<lparr>shrd_cbr_flag := (shrd_cbr_flag sub)[i := k]\<rparr>) rp })"

text \<open>
  \<open>avc_hrd_parameters\<close>, with the part of the structure that the code passes as \<open>pSubHrdParam\<close> as an
  argument of its own. False is the early return.
\<close>

definition avc_hrd_parameters :: "AL_THrdParam \<Rightarrow> AL_TSubHrdParam \<Rightarrow> AL_TRbspParser \<Rightarrow>
    ((bool \<times> AL_THrdParam \<times> AL_TSubHrdParam) \<times> AL_TRbspParser) option" where
  "avc_hrd_parameters h sub = (\<lambda>rp. do {
     (h, rp) \<leftarrow> rd_ue U32 (\<lambda>k. h\<lparr>hrd_cpb_cnt_minus1 := (hrd_cpb_cnt_minus1 h)[0 := k]\<rparr>) rp;
     if hrd_cpb_cnt_minus1 h ! 0 > 31 then Some ((False, h, hrd_reset sub), rp) else do {
     (h, rp) \<leftarrow> rd_u 4 U8 (\<lambda>k. h\<lparr>hrd_bit_rate_scale := k\<rparr>) rp;
     (h, rp) \<leftarrow> rd_u 4 U8 (\<lambda>k. h\<lparr>hrd_cpb_size_scale := k\<rparr>) rp;
     (sub, rp) \<leftarrow> for_reads hrd_turn [0..<Suc (hrd_cpb_cnt_minus1 h ! 0)] (hrd_reset sub) rp;
     (h, rp) \<leftarrow> rd_u 5 U8 (\<lambda>k. h\<lparr>hrd_initial_cpb_removal_delay_length_minus1 := k\<rparr>) rp;
     (h, rp) \<leftarrow> rd_u 5 U8 (\<lambda>k. h\<lparr>hrd_au_cpb_removal_delay_length_minus1 := k\<rparr>) rp;
     (h, rp) \<leftarrow> rd_u 5 U8 (\<lambda>k. h\<lparr>hrd_dpb_output_delay_length_minus1 := k\<rparr>) rp;
     rd_u 5 U8 (\<lambda>k. (True, h\<lparr>hrd_time_offset_length := k\<rparr>, sub)) rp }})"

definition vui_picture :: "AL_TVuiParam \<Rightarrow> AL_TRbspParser \<Rightarrow> (AL_TVuiParam \<times> AL_TRbspParser) option" where
  "vui_picture v = (\<lambda>rp. do {
     (v, rp) \<leftarrow> rd_u 1 U8 (\<lambda>k. v\<lparr>vui_aspect_ratio_info_present_flag := k\<rparr>) rp;
     (v, rp) \<leftarrow> (if vui_aspect_ratio_info_present_flag v \<noteq> 0 then do {
         (v, rp) \<leftarrow> rd_u 8 U8 (\<lambda>k. v\<lparr>vui_aspect_ratio_idc := k\<rparr>) rp;
         if vui_aspect_ratio_idc v = 255 then do {
           (v, rp) \<leftarrow> rd_u 16 U16 (\<lambda>k. v\<lparr>vui_sar_width := k\<rparr>) rp;
           rd_u 16 U16 (\<lambda>k. v\<lparr>vui_sar_height := k\<rparr>) rp }
         else Some (v, rp) }
       else Some (v, rp));
     (v, rp) \<leftarrow> rd_u 1 U8 (\<lambda>k. v\<lparr>vui_overscan_info_present_flag := k\<rparr>) rp;
     if vui_overscan_info_present_flag v \<noteq> 0 then rd_u 1 U8 (\<lambda>k. v\<lparr>vui_overscan_appropriate_flag := k\<rparr>) rp
     else Some (v, rp) })"

definition vui_signal :: "AL_TVuiParam \<Rightarrow> AL_TRbspParser \<Rightarrow> (AL_TVuiParam \<times> AL_TRbspParser) option" where
  "vui_signal v = (\<lambda>rp. do {
     (v, rp) \<leftarrow> rd_u 1 U8 (\<lambda>k. v\<lparr>vui_video_signal_type_present_flag := k\<rparr>) rp;
     if vui_video_signal_type_present_flag v \<noteq> 0 then do {
       (v, rp) \<leftarrow> rd_u 3 U8 (\<lambda>k. v\<lparr>vui_video_format := k\<rparr>) rp;
       (v, rp) \<leftarrow> rd_u 1 U8 (\<lambda>k. v\<lparr>vui_video_full_range_flag := k\<rparr>) rp;
       (v, rp) \<leftarrow> rd_u 1 U8 (\<lambda>k. v\<lparr>vui_colour_description_present_flag := k\<rparr>) rp;
       if vui_colour_description_present_flag v \<noteq> 0 then do {
         (v, rp) \<leftarrow> rd_u 8 U8 (\<lambda>k. v\<lparr>vui_colour_primaries := k\<rparr>) rp;
         (v, rp) \<leftarrow> rd_u 8 U8 (\<lambda>k. v\<lparr>vui_transfer_characteristics := k\<rparr>) rp;
         rd_u 8 U8 (\<lambda>k. v\<lparr>vui_matrix_coefficients := k\<rparr>) rp }
       else Some (v, rp) }
     else Some (v, rp) })"

definition vui_timing :: "AL_TVuiParam \<Rightarrow> AL_TRbspParser \<Rightarrow> (AL_TVuiParam \<times> AL_TRbspParser) option" where
  "vui_timing v = (\<lambda>rp. do {
     (v, rp) \<leftarrow> rd_u 1 U8 (\<lambda>k. v\<lparr>vui_chroma_loc_info_present_flag := k\<rparr>) rp;
     (v, rp) \<leftarrow> (if vui_chroma_loc_info_present_flag v \<noteq> 0 then do {
         (v, rp) \<leftarrow> rd_ue U8 (\<lambda>k. v\<lparr>vui_chroma_sample_loc_type_top_field := k\<rparr>) rp;
         rd_ue U8 (\<lambda>k. v\<lparr>vui_chroma_sample_loc_type_bottom_field := k\<rparr>) rp }
       else Some (v, rp));
     (v, rp) \<leftarrow> rd_u 1 U8 (\<lambda>k. v\<lparr>vui_timing_info_present_flag := k\<rparr>) rp;
     if vui_timing_info_present_flag v \<noteq> 0 then do {
       (v, rp) \<leftarrow> rd_u 32 U32 (\<lambda>k. v\<lparr>vui_num_units_in_tick := k\<rparr>) rp;
       (v, rp) \<leftarrow> rd_u 32 U32 (\<lambda>k. v\<lparr>vui_time_scale := k\<rparr>) rp;
       rd_u 1 U8 (\<lambda>k. v\<lparr>vui_fixed_frame_rate_flag := k\<rparr>) rp }
     else Some (v, rp) })"

text \<open>The two sets of decoder parameters and the flag after them, which the parser keeps in the usability information.\<close>

definition vui_nal_hrd :: "AL_THrdParam \<Rightarrow> AL_TRbspParser \<Rightarrow> ((bool \<times> AL_THrdParam) \<times> AL_TRbspParser) option" where
  "vui_nal_hrd h = (\<lambda>rp. do {
     (h, rp) \<leftarrow> rd_u 1 U8 (\<lambda>k. h\<lparr>hrd_nal_hrd_parameters_present_flag := k\<rparr>) rp;
     if hrd_nal_hrd_parameters_present_flag h \<noteq> 0 then do {
       ((ok, h, sub), rp) \<leftarrow> avc_hrd_parameters h (hrd_nal_sub_hrd_param h) rp;
       Some ((ok, h\<lparr>hrd_nal_sub_hrd_param := sub\<rparr>), rp) }
     else Some ((True, h), rp) })"

definition vui_vcl_hrd :: "AL_THrdParam \<Rightarrow> AL_TRbspParser \<Rightarrow> ((bool \<times> AL_THrdParam) \<times> AL_TRbspParser) option" where
  "vui_vcl_hrd h = (\<lambda>rp. do {
     (h, rp) \<leftarrow> rd_u 1 U8 (\<lambda>k. h\<lparr>hrd_vcl_hrd_parameters_present_flag := k\<rparr>) rp;
     if hrd_vcl_hrd_parameters_present_flag h \<noteq> 0 then do {
       ((ok, h, sub), rp) \<leftarrow> avc_hrd_parameters h (hrd_vcl_sub_hrd_param h) rp;
       Some ((ok, h\<lparr>hrd_vcl_sub_hrd_param := sub\<rparr>), rp) }
     else Some ((True, h), rp) })"

definition vui_hrd :: "AL_TVuiParam \<Rightarrow> AL_TRbspParser \<Rightarrow> ((bool \<times> AL_TVuiParam) \<times> AL_TRbspParser) option" where
  "vui_hrd v = (\<lambda>rp. do {
     ((ok, h), rp) \<leftarrow> vui_nal_hrd (vui_hrd_param v) rp;
     if \<not> ok then Some ((False, v\<lparr>vui_hrd_param := h\<rparr>), rp) else do {
     ((ok, h), rp) \<leftarrow> vui_vcl_hrd h rp;
     if \<not> ok then Some ((False, v\<lparr>vui_hrd_param := h\<rparr>), rp)
     else if hrd_nal_hrd_parameters_present_flag h \<noteq> 0 \<or> hrd_vcl_hrd_parameters_present_flag h \<noteq> 0
     then rd_u 1 U8 (\<lambda>k. (True, v\<lparr>vui_hrd_param := h, vui_low_delay_hrd_flag := k\<rparr>)) rp
     else Some ((True, v\<lparr>vui_hrd_param := h\<rparr>), rp) }})"

definition vui_restriction :: "AL_TVuiParam \<Rightarrow> AL_TRbspParser \<Rightarrow> (AL_TVuiParam \<times> AL_TRbspParser) option" where
  "vui_restriction v = (\<lambda>rp. do {
     (v, rp) \<leftarrow> rd_u 1 U8 (\<lambda>k. v\<lparr>vui_pic_struct_present_flag := k\<rparr>) rp;
     (v, rp) \<leftarrow> rd_u 1 U8 (\<lambda>k. v\<lparr>vui_bitstream_restriction_flag := k\<rparr>) rp;
     if vui_bitstream_restriction_flag v \<noteq> 0 then do {
       (v, rp) \<leftarrow> rd_u 1 U8 (\<lambda>k. v\<lparr>vui_motion_vectors_over_pic_boundaries_flag := k\<rparr>) rp;
       (v, rp) \<leftarrow> rd_ue U8 (\<lambda>k. v\<lparr>vui_max_bytes_per_pic_denom := k\<rparr>) rp;
       (v, rp) \<leftarrow> rd_ue U8 (\<lambda>k. v\<lparr>vui_max_bits_per_min_cu_denom := k\<rparr>) rp;
       (v, rp) \<leftarrow> rd_ue U8 (\<lambda>k. v\<lparr>vui_log2_max_mv_length_horizontal := k\<rparr>) rp;
       (v, rp) \<leftarrow> rd_ue U8 (\<lambda>k. v\<lparr>vui_log2_max_mv_length_vertical := k\<rparr>) rp;
       (v, rp) \<leftarrow> rd_ue U32 (\<lambda>k. v\<lparr>vui_max_num_reorder_frames := k\<rparr>) rp;
       rd_ue U32 (\<lambda>k. v\<lparr>vui_max_dec_frame_buffering := k\<rparr>) rp }
     else Some (v, rp) })"

definition avc_vui_parameters :: "AL_TVuiParam \<Rightarrow> AL_TRbspParser \<Rightarrow> ((bool \<times> AL_TVuiParam) \<times> AL_TRbspParser) option" where
  "avc_vui_parameters v = (\<lambda>rp. do {
     (v, rp) \<leftarrow> vui_picture v rp;
     (v, rp) \<leftarrow> vui_signal v rp;
     (v, rp) \<leftarrow> vui_timing v rp;
     ((ok, v), rp) \<leftarrow> vui_hrd v rp;
     if \<not> ok then Some ((False, v), rp) else do {
     (v, rp) \<leftarrow> vui_restriction v rp;
     Some ((True, v), rp) }})"

section \<open>The sequence parameter set\<close>

definition initSps :: AL_TAvcSeqPar where
  "initSps = zero_sps\<lparr>
     sps_vui_param := zero_vui\<lparr>
       vui_hrd_param := zero_hrd\<lparr>hrd_initial_cpb_removal_delay_length_minus1 := 23,
         hrd_au_cpb_removal_delay_length_minus1 := 23, hrd_dpb_output_delay_length_minus1 := 23\<rparr>,
       vui_max_bytes_per_pic_denom := 2, vui_max_bits_per_min_cu_denom := 1,
       vui_log2_max_mv_length_horizontal := 16, vui_log2_max_mv_length_vertical := 16\<rparr>,
     sps_mb_adaptive_frame_field_flag := 0, sps_chroma_format_idc := 1, sps_bit_depth_chroma_minus8 := 0,
     sps_bit_depth_luma_minus8 := 0, sps_seq_scaling_matrix_present_flag := 0,
     sps_qpprime_y_zero_transform_bypass_flag := 0, sps_bConceal := True\<rparr>"

definition isProfileSupported :: "nat \<Rightarrow> bool" where
  "isProfileSupported profile_idc \<longleftrightarrow> profile_idc \<in> {66, 77, 100, 122, 110}"

definition sps_profile :: "AL_TAvcSeqPar part" where
  "sps_profile s = (\<lambda>rp. do {
     (s, rp) \<leftarrow> rd_u 8 U32 (\<lambda>k. s\<lparr>sps_profile_idc := k\<rparr>) rp;
     (s, rp) \<leftarrow> rd_u 1 U8 (\<lambda>k. s\<lparr>sps_constraint_set0_flag := k\<rparr>) rp;
     (s, rp) \<leftarrow> rd_u 1 U8 (\<lambda>k. s\<lparr>sps_constraint_set1_flag := k\<rparr>) rp;
     (s, rp) \<leftarrow> rd_u 1 U8 (\<lambda>k. s\<lparr>sps_constraint_set2_flag := k\<rparr>) rp;
     (s, rp) \<leftarrow> rd_u 1 U8 (\<lambda>k. s\<lparr>sps_constraint_set3_flag := k\<rparr>) rp;
     (s, rp) \<leftarrow> rd_u 1 U8 (\<lambda>k. s\<lparr>sps_constraint_set4_flag := k\<rparr>) rp;
     (s, rp) \<leftarrow> rd_u 1 U8 (\<lambda>k. s\<lparr>sps_constraint_set5_flag := k\<rparr>) rp;
     (_, rp) \<leftarrow> rd_skip 2 rp;
     (s, rp) \<leftarrow> rd_u 8 U32 (\<lambda>k. s\<lparr>sps_level_idc := k\<rparr>) rp;
     (s, rp) \<leftarrow> rd_ue U8 (\<lambda>k. s\<lparr>sps_seq_parameter_set_id := k\<rparr>) rp;
     if \<not> sps_seq_parameter_set_id s < AL_AVC_MAX_SPS then Some ((AL_PARSE_BAD_ID, s), rp)
     else if \<not> isProfileSupported (sps_profile_idc s) \<and> sps_constraint_set1_flag s = 0 then Some ((AL_PARSE_UNSUPPORTED, s), rp)
     else Some ((AL_PARSE_OK, s), rp) })"

text \<open>The lists of a set without a scaling matrix are flat.\<close>

definition flat_list :: "nat \<Rightarrow> scaling \<Rightarrow> scaling" where
  "flat_list i c =
     (if i < 6 then c\<lparr>sc_4x4 := (sc_4x4 c)[i := replicate 16 16]\<rparr>
      else c\<lparr>sc_8x8 := (sc_8x8 c)[i - 6 := replicate 64 16]\<rparr>)"

definition sps_scaling :: "AL_TAvcSeqPar \<Rightarrow> scaling" where
  "sps_scaling s = \<lparr>sc_present = sps_seq_scaling_list_present_flag s, sc_4x4 = sps_ScalingList4x4 s,
     sc_8x8 = sps_ScalingList8x8 s, sc_default4x4 = sps_UseDefaultScalingMatrix4x4Flag s,
     sc_default8x8 = sps_UseDefaultScalingMatrix8x8Flag s\<rparr>"

definition set_sps_scaling :: "AL_TAvcSeqPar \<Rightarrow> scaling \<Rightarrow> AL_TAvcSeqPar" where
  "set_sps_scaling s c = s\<lparr>sps_seq_scaling_list_present_flag := sc_present c, sps_ScalingList4x4 := sc_4x4 c,
     sps_ScalingList8x8 := sc_8x8 c, sps_UseDefaultScalingMatrix4x4Flag := sc_default4x4 c,
     sps_UseDefaultScalingMatrix8x8Flag := sc_default8x8 c\<rparr>"

definition sps_matrix :: "AL_TAvcSeqPar \<Rightarrow> AL_TRbspParser \<Rightarrow> (AL_TAvcSeqPar \<times> AL_TRbspParser) option" where
  "sps_matrix s = (\<lambda>rp.
     if sps_seq_scaling_matrix_present_flag s \<noteq> 0 then do {
       (c, rp) \<leftarrow> for_reads sps_list_turn [0..<NbScalingList s] (sps_scaling s) rp;
       Some (set_sps_scaling s c, rp) }
     else Some (set_sps_scaling s (fold flat_list [0..<NbScalingList s] (sps_scaling s)), rp))"

definition reads_chroma_format :: "nat \<Rightarrow> bool" where
  "reads_chroma_format profile_idc \<longleftrightarrow> profile_idc \<in> {44, 83, 86, 100, 110, 118, 122, 128, 244}"

definition sps_chroma :: "AL_TAvcSeqPar part" where
  "sps_chroma s = (\<lambda>rp.
     if reads_chroma_format (sps_profile_idc s) then do {
       (s, rp) \<leftarrow> rd_ue U8 (\<lambda>k. s\<lparr>sps_chroma_format_idc := k\<rparr>) rp;
       if \<not> sps_chroma_format_idc s < AL_CHROMA_MAX_ENUM then Some ((AL_PARSE_CONCEAL, s), rp) else do {
       (s, rp) \<leftarrow> (if sps_chroma_format_idc s = 3 then rd_u 1 U8 (\<lambda>k. s\<lparr>sps_separate_colour_plane_flag := k\<rparr>) rp
         else Some (s, rp));
       (s, rp) \<leftarrow> rd_ue U32 (\<lambda>k. s\<lparr>sps_bit_depth_luma_minus8 := nat (Clip3 (int k) 0 MAX_BIT_DEPTH_MINUS_8)\<rparr>) rp;
       (s, rp) \<leftarrow> rd_ue U32 (\<lambda>k. s\<lparr>sps_bit_depth_chroma_minus8 := nat (Clip3 (int k) 0 MAX_BIT_DEPTH_MINUS_8)\<rparr>) rp;
       (s, rp) \<leftarrow> rd_u 1 U8 (\<lambda>k. s\<lparr>sps_qpprime_y_zero_transform_bypass_flag := k\<rparr>) rp;
       (s, rp) \<leftarrow> rd_u 1 U8 (\<lambda>k. s\<lparr>sps_seq_scaling_matrix_present_flag := k\<rparr>) rp;
       (s, rp) \<leftarrow> sps_matrix s rp;
       Some ((AL_PARSE_OK, s), rp) }}
     else Some ((AL_PARSE_OK, s), rp))"

text \<open>The loop over the cycle of picture order count type 1.\<close>

definition cycle_turn :: "nat \<Rightarrow> AL_TAvcSeqPar \<Rightarrow> AL_TRbspParser \<Rightarrow> (AL_TAvcSeqPar \<times> AL_TRbspParser) option" where
  "cycle_turn i s = rd_se (\<lambda>k. s\<lparr>sps_offset_for_ref_frame := (sps_offset_for_ref_frame s)[i := k]\<rparr>)"

definition sps_order :: "AL_TAvcSeqPar part" where
  "sps_order s = (\<lambda>rp. do {
     (s, rp) \<leftarrow> rd_ue U8 (\<lambda>k. s\<lparr>sps_log2_max_frame_num_minus4 := k\<rparr>) rp;
     if \<not> sps_log2_max_frame_num_minus4 s \<le> MAX_FRAME_NUM then Some ((AL_PARSE_CONCEAL, s), rp) else do {
     (s, rp) \<leftarrow> rd_ue U8 (\<lambda>k. s\<lparr>sps_pic_order_cnt_type := k\<rparr>) rp;
     if \<not> sps_pic_order_cnt_type s \<le> MAX_POC_TYPE then Some ((AL_PARSE_CONCEAL, s), rp)
     else if sps_pic_order_cnt_type s = 0 then do {
       (s, rp) \<leftarrow> rd_ue U8 (\<lambda>k. s\<lparr>sps_log2_max_pic_order_cnt_lsb_minus4 := k\<rparr>) rp;
       if \<not> sps_log2_max_pic_order_cnt_lsb_minus4 s \<le> MAX_POC_LSB_MINUS_4 then Some ((AL_PARSE_CONCEAL, s), rp)
       else Some ((AL_PARSE_OK, s\<lparr>sps_delta_pic_order_always_zero_flag := 1\<rparr>), rp) }
     else if sps_pic_order_cnt_type s = 1 then do {
       (s, rp) \<leftarrow> rd_u 1 U8 (\<lambda>k. s\<lparr>sps_delta_pic_order_always_zero_flag := k\<rparr>) rp;
       (s, rp) \<leftarrow> rd_se (\<lambda>k. s\<lparr>sps_offset_for_non_ref_pic := k\<rparr>) rp;
       (s, rp) \<leftarrow> rd_se (\<lambda>k. s\<lparr>sps_offset_for_top_to_bottom_field := k\<rparr>) rp;
       (s, rp) \<leftarrow> rd_ue U8 (\<lambda>k. s\<lparr>sps_num_ref_frames_in_pic_order_cnt_cycle := k\<rparr>) rp;
       (s, rp) \<leftarrow> for_reads cycle_turn [0..<sps_num_ref_frames_in_pic_order_cnt_cycle s] s rp;
       Some ((AL_PARSE_OK, s), rp) }
     else Some ((AL_PARSE_OK, s), rp) }})"

definition sps_frame :: "AL_TAvcSeqPar part" where
  "sps_frame s = (\<lambda>rp. do {
     (s, rp) \<leftarrow> rd_ue U32 (\<lambda>k. s\<lparr>sps_max_num_ref_frames := nat (Clip3 (int k) 0 AL_MAX_REF)\<rparr>) rp;
     (s, rp) \<leftarrow> rd_u 1 U8 (\<lambda>k. s\<lparr>sps_gaps_in_frame_num_value_allowed_flag := k\<rparr>) rp;
     (s, rp) \<leftarrow> rd_ue U16 (\<lambda>k. s\<lparr>sps_pic_width_in_mbs_minus1 := k\<rparr>) rp;
     (s, rp) \<leftarrow> rd_ue U16 (\<lambda>k. s\<lparr>sps_pic_height_in_map_units_minus1 := k\<rparr>) rp;
     if \<not> sps_pic_width_in_mbs_minus1 s \<ge> 1 then Some ((AL_PARSE_CONCEAL, s), rp)
     else if \<not> sps_pic_height_in_map_units_minus1 s \<ge> 1 then Some ((AL_PARSE_CONCEAL, s), rp)
     else do {
     (s, rp) \<leftarrow> rd_u 1 U8 (\<lambda>k. s\<lparr>sps_frame_mbs_only_flag := k\<rparr>) rp;
     (s, rp) \<leftarrow> (if sps_frame_mbs_only_flag s = 0 then rd_u 1 U8 (\<lambda>k. s\<lparr>sps_mb_adaptive_frame_field_flag := k\<rparr>) rp
       else Some (s, rp));
     if sps_frame_mbs_only_flag s = 0 \<and> sps_mb_adaptive_frame_field_flag s \<noteq> 0 then Some ((AL_PARSE_UNSUPPORTED, s), rp)
     else Some ((AL_PARSE_OK, s), rp) }})"

definition sps_crop :: "AL_TAvcSeqPar part" where
  "sps_crop s = (\<lambda>rp. do {
     (s, rp) \<leftarrow> rd_u 1 U8 (\<lambda>k. s\<lparr>sps_direct_8x8_inference_flag := k\<rparr>) rp;
     (s, rp) \<leftarrow> rd_u 1 U8 (\<lambda>k. s\<lparr>sps_frame_cropping_flag := k\<rparr>) rp;
     (s, rp) \<leftarrow> (if sps_frame_cropping_flag s \<noteq> 0 then do {
         (s, rp) \<leftarrow> rd_ue_int (\<lambda>k. s\<lparr>sps_frame_crop_left_offset := k\<rparr>) rp;
         (s, rp) \<leftarrow> rd_ue_int (\<lambda>k. s\<lparr>sps_frame_crop_right_offset := k\<rparr>) rp;
         (s, rp) \<leftarrow> rd_ue_int (\<lambda>k. s\<lparr>sps_frame_crop_top_offset := k\<rparr>) rp;
         rd_ue_int (\<lambda>k. s\<lparr>sps_frame_crop_bottom_offset := k\<rparr>) rp }
       else Some (s, rp));
     Some ((AL_PARSE_OK, s), rp) })"

definition sps_vui :: "AL_TAvcSeqPar part" where
  "sps_vui s = (\<lambda>rp. do {
     (s, rp) \<leftarrow> rd_u 1 U8 (\<lambda>k. s\<lparr>sps_vui_parameters_present_flag := k\<rparr>) rp;
     if sps_vui_parameters_present_flag s \<noteq> 0 then do {
       ((ok, v), rp) \<leftarrow> avc_vui_parameters (sps_vui_param s) rp;
       if \<not> ok then Some ((AL_PARSE_CONCEAL, s\<lparr>sps_vui_param := v\<rparr>), rp)
       else Some ((AL_PARSE_OK, s\<lparr>sps_vui_param := v, sps_bConceal := False\<rparr>), rp) }
     else Some ((AL_PARSE_OK, s\<lparr>sps_bConceal := False\<rparr>), rp) })"

definition AL_AVC_ParseSPS :: "AL_TRbspParser \<Rightarrow> ((AL_EParseResult \<times> AL_TAvcSeqPar) \<times> AL_TRbspParser) option" where
  "AL_AVC_ParseSPS = after_header (parts [sps_profile, sps_chroma, sps_order, sps_frame, sps_crop, sps_vui] initSps)"

end
