(* ===== verification/Avc_Sps.thy ===== *)
theory Avc_Sps
  imports Avc_Parse
begin

text \<open>
  What \<open>AL_AVC_ParseSPS\<close> makes of a sequence parameter set that \<open>writeSps\<close> has written: the set that the
  encoder had. Each part of the writer is matched with the part of the parser that reads it.
\<close>

lemmas matches_rules = matches_seq matches_u matches_ue matches_ue_int matches_se matches_if matches_done

lemmas width_defs = U8_def U16_def U32_def

section \<open>Usability information\<close>

text \<open>
  The sets that can be written and read back: every element fits its field and its code, and what is
  not present has the value that the parser starts with.
\<close>

definition vui_picture_ok :: "AL_TVuiParam \<Rightarrow> bool" where
  "vui_picture_ok v \<longleftrightarrow> vui_aspect_ratio_info_present_flag v < 2
     \<and> (if vui_aspect_ratio_info_present_flag v \<noteq> 0 then vui_aspect_ratio_idc v < 256 else vui_aspect_ratio_idc v = 0)
     \<and> (if vui_aspect_ratio_idc v = 255 then vui_sar_width v < 65536 \<and> vui_sar_height v < 65536
        else vui_sar_width v = 0 \<and> vui_sar_height v = 0)
     \<and> vui_overscan_info_present_flag v < 2
     \<and> (if vui_overscan_info_present_flag v \<noteq> 0 then vui_overscan_appropriate_flag v < 2 else vui_overscan_appropriate_flag v = 0)"

lemma vui_picture_matches:
  assumes "vui_picture_ok v" "vui_aspect_ratio_idc w = 0" "vui_sar_width w = 0" "vui_sar_height w = 0" "vui_overscan_appropriate_flag w = 0"
  shows "matches (write_vui_picture v) (vui_picture w) (w\<lparr>
    vui_aspect_ratio_info_present_flag := vui_aspect_ratio_info_present_flag v, vui_aspect_ratio_idc := vui_aspect_ratio_idc v,
    vui_sar_width := vui_sar_width v, vui_sar_height := vui_sar_height v,
    vui_overscan_info_present_flag := vui_overscan_info_present_flag v, vui_overscan_appropriate_flag := vui_overscan_appropriate_flag v\<rparr>)"
  unfolding write_vui_picture_def vui_picture_def
  by (rule matches_eq, (rule matches_rules
      | (use assms in \<open>simp add: vui_picture_ok_def width_defs split: if_splits\<close>; fail))+)

definition vui_signal_ok :: "AL_TVuiParam \<Rightarrow> bool" where
  "vui_signal_ok v \<longleftrightarrow> vui_video_signal_type_present_flag v < 2
     \<and> (if vui_video_signal_type_present_flag v \<noteq> 0
        then vui_video_format v < 8 \<and> vui_video_full_range_flag v < 2 \<and> vui_colour_description_present_flag v < 2
        else vui_video_format v = 0 \<and> vui_video_full_range_flag v = 0 \<and> vui_colour_description_present_flag v = 0)
     \<and> (if vui_colour_description_present_flag v \<noteq> 0
        then vui_colour_primaries v < 256 \<and> vui_transfer_characteristics v < 256 \<and> vui_matrix_coefficients v < 256
        else vui_colour_primaries v = 0 \<and> vui_transfer_characteristics v = 0 \<and> vui_matrix_coefficients v = 0)"

lemma vui_signal_matches:
  assumes "vui_signal_ok v" "vui_video_format w = 0" "vui_video_full_range_flag w = 0" "vui_colour_description_present_flag w = 0"
    "vui_colour_primaries w = 0" "vui_transfer_characteristics w = 0" "vui_matrix_coefficients w = 0"
  shows "matches (write_vui_signal v) (vui_signal w) (w\<lparr>
    vui_video_signal_type_present_flag := vui_video_signal_type_present_flag v, vui_video_format := vui_video_format v,
    vui_video_full_range_flag := vui_video_full_range_flag v, vui_colour_description_present_flag := vui_colour_description_present_flag v,
    vui_colour_primaries := vui_colour_primaries v, vui_transfer_characteristics := vui_transfer_characteristics v,
    vui_matrix_coefficients := vui_matrix_coefficients v\<rparr>)"
  unfolding write_vui_signal_def vui_signal_def
  by (rule matches_eq, (rule matches_rules
      | (use assms in \<open>simp add: vui_signal_ok_def width_defs split: if_splits\<close>; fail))+)

definition vui_timing_ok :: "AL_TVuiParam \<Rightarrow> bool" where
  "vui_timing_ok v \<longleftrightarrow> vui_chroma_loc_info_present_flag v < 2
     \<and> (if vui_chroma_loc_info_present_flag v \<noteq> 0
        then vui_chroma_sample_loc_type_top_field v < 256 \<and> vui_chroma_sample_loc_type_bottom_field v < 256
        else vui_chroma_sample_loc_type_top_field v = 0 \<and> vui_chroma_sample_loc_type_bottom_field v = 0)
     \<and> vui_timing_info_present_flag v < 2
     \<and> (if vui_timing_info_present_flag v \<noteq> 0
        then vui_num_units_in_tick v < 2 ^ 32 \<and> vui_time_scale v < 2 ^ 32 \<and> vui_fixed_frame_rate_flag v < 2
        else vui_num_units_in_tick v = 0 \<and> vui_time_scale v = 0 \<and> vui_fixed_frame_rate_flag v = 0)"

lemma vui_timing_matches:
  assumes "vui_timing_ok v" "vui_chroma_sample_loc_type_top_field w = 0" "vui_chroma_sample_loc_type_bottom_field w = 0"
    "vui_num_units_in_tick w = 0" "vui_time_scale w = 0" "vui_fixed_frame_rate_flag w = 0"
  shows "matches (write_vui_timing v) (vui_timing w) (w\<lparr>
    vui_chroma_loc_info_present_flag := vui_chroma_loc_info_present_flag v,
    vui_chroma_sample_loc_type_top_field := vui_chroma_sample_loc_type_top_field v,
    vui_chroma_sample_loc_type_bottom_field := vui_chroma_sample_loc_type_bottom_field v,
    vui_timing_info_present_flag := vui_timing_info_present_flag v, vui_num_units_in_tick := vui_num_units_in_tick v,
    vui_time_scale := vui_time_scale v, vui_fixed_frame_rate_flag := vui_fixed_frame_rate_flag v\<rparr>)"
  unfolding write_vui_timing_def vui_timing_def
  by (rule matches_eq, (rule matches_rules
      | (use assms in \<open>simp add: vui_timing_ok_def width_defs split: if_splits\<close>; fail))+)

definition vui_restriction_ok :: "AL_TVuiParam \<Rightarrow> bool" where
  "vui_restriction_ok v \<longleftrightarrow> vui_pic_struct_present_flag v < 2 \<and> vui_bitstream_restriction_flag v < 2
     \<and> (if vui_bitstream_restriction_flag v \<noteq> 0
        then vui_motion_vectors_over_pic_boundaries_flag v < 2 \<and> vui_max_bytes_per_pic_denom v < 256
          \<and> vui_max_bits_per_min_cu_denom v < 256 \<and> vui_log2_max_mv_length_horizontal v < 256
          \<and> vui_log2_max_mv_length_vertical v < 256 \<and> vui_max_num_reorder_frames v < 2 ^ 32 - 1
          \<and> vui_max_dec_frame_buffering v < 2 ^ 32 - 1
        else vui_motion_vectors_over_pic_boundaries_flag v = 0 \<and> vui_max_bytes_per_pic_denom v = 2
          \<and> vui_max_bits_per_min_cu_denom v = 1 \<and> vui_log2_max_mv_length_horizontal v = 16
          \<and> vui_log2_max_mv_length_vertical v = 16 \<and> vui_max_num_reorder_frames v = 0 \<and> vui_max_dec_frame_buffering v = 0)"

lemma vui_restriction_matches:
  assumes "vui_restriction_ok v" "vui_motion_vectors_over_pic_boundaries_flag w = 0" "vui_max_bytes_per_pic_denom w = 2"
    "vui_max_bits_per_min_cu_denom w = 1" "vui_log2_max_mv_length_horizontal w = 16" "vui_log2_max_mv_length_vertical w = 16"
    "vui_max_num_reorder_frames w = 0" "vui_max_dec_frame_buffering w = 0"
  shows "matches (write_vui_restriction v) (vui_restriction w) (w\<lparr>
    vui_pic_struct_present_flag := vui_pic_struct_present_flag v, vui_bitstream_restriction_flag := vui_bitstream_restriction_flag v,
    vui_motion_vectors_over_pic_boundaries_flag := vui_motion_vectors_over_pic_boundaries_flag v,
    vui_max_bytes_per_pic_denom := vui_max_bytes_per_pic_denom v, vui_max_bits_per_min_cu_denom := vui_max_bits_per_min_cu_denom v,
    vui_log2_max_mv_length_horizontal := vui_log2_max_mv_length_horizontal v,
    vui_log2_max_mv_length_vertical := vui_log2_max_mv_length_vertical v,
    vui_max_num_reorder_frames := vui_max_num_reorder_frames v, vui_max_dec_frame_buffering := vui_max_dec_frame_buffering v\<rparr>)"
  unfolding write_vui_restriction_def vui_restriction_def
  by (rule matches_eq, (rule matches_rules
      | (use assms in \<open>simp add: vui_restriction_ok_def width_defs split: if_splits\<close>; fail))+)

section \<open>Decoder parameters\<close>

text \<open>The values of the \<open>n\<close> schedules, in arrays of 32 that are zero behind them.\<close>

definition sched :: "nat \<Rightarrow> nat \<Rightarrow> nat list \<Rightarrow> bool" where
  "sched n m xs \<longleftrightarrow> length xs = MAX_NUM_CPB \<and> (\<forall>i < n. xs ! i < m) \<and> (\<forall>i. n \<le> i \<longrightarrow> i < MAX_NUM_CPB \<longrightarrow> xs ! i = 0)"

definition sub_hrd_ok :: "nat \<Rightarrow> AL_TSubHrdParam \<Rightarrow> bool" where
  "sub_hrd_ok n sub \<longleftrightarrow> sched n (2 ^ 32 - 1) (shrd_bit_rate_value_minus1 sub) \<and> sched n (2 ^ 32 - 1) (shrd_cpb_size_value_minus1 sub)
     \<and> sched n 2 (shrd_cbr_flag sub) \<and> shrd_cpb_size_du_value_minus1 sub = replicate MAX_NUM_CPB 0
     \<and> shrd_bit_rate_du_value_minus1 sub = replicate MAX_NUM_CPB 0"

text \<open>The arrays after the first \<open>k\<close> schedules.\<close>

definition upto :: "nat \<Rightarrow> nat list \<Rightarrow> nat list" where
  "upto k xs = take k xs @ replicate (MAX_NUM_CPB - k) 0"

lemma upto_update: "k < MAX_NUM_CPB \<Longrightarrow> length xs = MAX_NUM_CPB \<Longrightarrow> (upto k xs)[k := xs ! k] = upto (Suc k) xs"
  by (rule nth_equalityI) (auto simp: upto_def nth_append nth_list_update take_Suc_conv_app_nth)

lemma upto_all: "sched n m xs \<Longrightarrow> n \<le> MAX_NUM_CPB \<Longrightarrow> upto n xs = xs"
  by (rule nth_equalityI) (auto simp: upto_def sched_def nth_append)

definition sub_upto :: "AL_TSubHrdParam \<Rightarrow> nat \<Rightarrow> AL_TSubHrdParam" where
  "sub_upto sub k = sub\<lparr>shrd_bit_rate_value_minus1 := upto k (shrd_bit_rate_value_minus1 sub),
     shrd_cpb_size_value_minus1 := upto k (shrd_cpb_size_value_minus1 sub), shrd_cbr_flag := upto k (shrd_cbr_flag sub)\<rparr>"

lemma sub_upto_0:
  assumes "sub_hrd_ok n sub" "shrd_cpb_size_du_value_minus1 z = replicate MAX_NUM_CPB 0" "shrd_bit_rate_du_value_minus1 z = replicate MAX_NUM_CPB 0"
  shows "hrd_reset z = sub_upto sub 0"
  using assms by (cases sub, cases z) (simp add: hrd_reset_def sub_upto_def upto_def sub_hrd_ok_def)

lemma sub_upto_all: "sub_hrd_ok n sub \<Longrightarrow> n \<le> MAX_NUM_CPB \<Longrightarrow> sub_upto sub n = sub"
  by (cases sub) (auto simp: sub_upto_def sub_hrd_ok_def intro!: upto_all)

lemma hrd_turn_matches:
  assumes "sub_hrd_ok n sub" "n \<le> MAX_NUM_CPB" "i < n"
  shows "matches (\<lambda>bs. do {
      bs \<leftarrow> wr_ue (shrd_bit_rate_value_minus1 sub ! i) bs;
      bs \<leftarrow> wr_ue (shrd_cpb_size_value_minus1 sub ! i) bs;
      wr_u 1 (shrd_cbr_flag sub ! i) bs }) (hrd_turn i (sub_upto sub i)) (sub_upto sub (Suc i))"
proof -
  have b: "shrd_bit_rate_value_minus1 sub ! i < 2 ^ 32 - 1" "shrd_cpb_size_value_minus1 sub ! i < 2 ^ 32 - 1" "shrd_cbr_flag sub ! i < 2"
    and l: "length (shrd_bit_rate_value_minus1 sub) = MAX_NUM_CPB" "length (shrd_cpb_size_value_minus1 sub) = MAX_NUM_CPB"
      "length (shrd_cbr_flag sub) = MAX_NUM_CPB"
    using assms by (simp_all add: sub_hrd_ok_def sched_def)
  have i: "i < MAX_NUM_CPB" using assms by simp
  show ?thesis unfolding hrd_turn_def
    by (rule matches_eq, (rule matches_rules | (use b in \<open>simp add: width_defs\<close>; fail)
        | (simp add: sub_upto_def upto_update [OF i] l; fail))+)
qed

lemma hrd_loop_matches:
  assumes "sub_hrd_ok n sub" "n \<le> MAX_NUM_CPB"
  shows "matches (foldM (\<lambda>i bs. do {
      bs \<leftarrow> wr_ue (shrd_bit_rate_value_minus1 sub ! i) bs;
      bs \<leftarrow> wr_ue (shrd_cpb_size_value_minus1 sub ! i) bs;
      wr_u 1 (shrd_cbr_flag sub ! i) bs }) [0..<n]) (for_reads hrd_turn [0..<n] (sub_upto sub 0)) sub"
proof -
  let ?f = "\<lambda>i bs. do {
      bs \<leftarrow> wr_ue (shrd_bit_rate_value_minus1 sub ! i) bs;
      bs \<leftarrow> wr_ue (shrd_cpb_size_value_minus1 sub ! i) bs;
      wr_u 1 (shrd_cbr_flag sub ! i) bs }"
  have "matches (foldM ?f [0..<n]) (for_reads hrd_turn [0..<n] (sub_upto sub (length ([] :: nat list)))) (sub_upto sub (length [0..<n]))"
  proof (rule matches_for [where st = "\<lambda>as. sub_upto sub (length as)"])
    fix as i bs assume "[0..<n] = as @ i # bs"
    from upt_split [OF this] show "matches (?f i) (hrd_turn i (sub_upto sub (length as))) (sub_upto sub (length (as @ [i])))"
      using hrd_turn_matches [OF assms] by simp
  qed
  then show ?thesis using sub_upto_all [OF assms] by simp
qed

text \<open>The elements that both sets of schedules are written with.\<close>

definition hrd_common_ok :: "AL_THrdParam \<Rightarrow> bool" where
  "hrd_common_ok h \<longleftrightarrow> hrd_cpb_cnt_minus1 h ! 0 < MAX_NUM_CPB \<and> hrd_bit_rate_scale h < 16 \<and> hrd_cpb_size_scale h < 16
     \<and> hrd_initial_cpb_removal_delay_length_minus1 h < 32 \<and> hrd_au_cpb_removal_delay_length_minus1 h < 32
     \<and> hrd_dpb_output_delay_length_minus1 h < 32 \<and> hrd_time_offset_length h < 32"

definition hrd_common :: "AL_THrdParam \<Rightarrow> AL_THrdParam \<Rightarrow> AL_THrdParam" where
  "hrd_common h w = w\<lparr>hrd_cpb_cnt_minus1 := (hrd_cpb_cnt_minus1 w)[0 := hrd_cpb_cnt_minus1 h ! 0],
     hrd_bit_rate_scale := hrd_bit_rate_scale h, hrd_cpb_size_scale := hrd_cpb_size_scale h,
     hrd_initial_cpb_removal_delay_length_minus1 := hrd_initial_cpb_removal_delay_length_minus1 h,
     hrd_au_cpb_removal_delay_length_minus1 := hrd_au_cpb_removal_delay_length_minus1 h,
     hrd_dpb_output_delay_length_minus1 := hrd_dpb_output_delay_length_minus1 h,
     hrd_time_offset_length := hrd_time_offset_length h\<rparr>"

lemma hrd_matches:
  assumes h: "hrd_common_ok h" "sub_hrd_ok (Suc (hrd_cpb_cnt_minus1 h ! 0)) sub"
    and w: "hrd_cpb_cnt_minus1 w \<noteq> []" "shrd_cpb_size_du_value_minus1 z = replicate MAX_NUM_CPB 0" "shrd_bit_rate_du_value_minus1 z = replicate MAX_NUM_CPB 0"
  shows "matches (writeHrdParam h sub) (avc_hrd_parameters w z) (True, hrd_common h w, sub)"
proof -
  let ?n = "Suc (hrd_cpb_cnt_minus1 h ! 0)"
  have n: "?n \<le> MAX_NUM_CPB" using h(1) by (simp add: hrd_common_ok_def)
  have loop: "m = ?n \<Longrightarrow> matches (foldM (\<lambda>i bs. do {
      bs \<leftarrow> wr_ue (shrd_bit_rate_value_minus1 sub ! i) bs;
      bs \<leftarrow> wr_ue (shrd_cpb_size_value_minus1 sub ! i) bs;
      wr_u 1 (shrd_cbr_flag sub ! i) bs }) [0..<?n]) (for_reads hrd_turn [0..<m] (sub_upto sub 0)) sub" for m
    using hrd_loop_matches [OF h(2) n] by simp
  note z = sub_upto_0 [OF h(2) w(2,3)]
  show ?thesis unfolding writeHrdParam_def avc_hrd_parameters_def z
    by (rule matches_eq, rule matches_assert, (use h(1) in \<open>simp add: hrd_common_ok_def\<close>),
      (rule loop | rule matches_rules | rule matches_comply
        | (use h(1) w(1) in \<open>simp add: hrd_common_ok_def width_defs MAX_NUM_CPB_def; fail\<close>)
        | (use w(1) in \<open>simp add: hrd_common_def; fail\<close>))+)
qed

text \<open>
  The whole of the decoder parameters. The encoder keeps the flag for low delay in an array of
  \<open>AL_THrdParam\<close>, the decoder in \<open>AL_TVuiParam\<close>. What AVC does not code is zero.
\<close>

definition init_hrd :: AL_THrdParam where
  "init_hrd = vui_hrd_param (sps_vui_param initSps)"

definition hrd_ok :: "AL_THrdParam \<Rightarrow> bool" where
  "hrd_ok h \<longleftrightarrow> hrd_nal_hrd_parameters_present_flag h < 2 \<and> hrd_vcl_hrd_parameters_present_flag h < 2
     \<and> (if hrd_nal_hrd_parameters_present_flag h \<noteq> 0 \<or> hrd_vcl_hrd_parameters_present_flag h \<noteq> 0
        then hrd_common_ok h \<and> hrd_low_delay_hrd_flag h ! 0 < 2
        else hrd_cpb_cnt_minus1 h ! 0 = 0 \<and> hrd_bit_rate_scale h = 0 \<and> hrd_cpb_size_scale h = 0
          \<and> hrd_initial_cpb_removal_delay_length_minus1 h = 23 \<and> hrd_au_cpb_removal_delay_length_minus1 h = 23
          \<and> hrd_dpb_output_delay_length_minus1 h = 23 \<and> hrd_time_offset_length h = 0 \<and> hrd_low_delay_hrd_flag h ! 0 = 0)
     \<and> (if hrd_nal_hrd_parameters_present_flag h \<noteq> 0
        then sub_hrd_ok (Suc (hrd_cpb_cnt_minus1 h ! 0)) (hrd_nal_sub_hrd_param h) else hrd_nal_sub_hrd_param h = zero_shrd)
     \<and> (if hrd_vcl_hrd_parameters_present_flag h \<noteq> 0
        then sub_hrd_ok (Suc (hrd_cpb_cnt_minus1 h ! 0)) (hrd_vcl_sub_hrd_param h) else hrd_vcl_sub_hrd_param h = zero_shrd)
     \<and> h = (hrd_common h zero_hrd)\<lparr>hrd_nal_hrd_parameters_present_flag := hrd_nal_hrd_parameters_present_flag h,
          hrd_vcl_hrd_parameters_present_flag := hrd_vcl_hrd_parameters_present_flag h,
          hrd_nal_sub_hrd_param := hrd_nal_sub_hrd_param h, hrd_vcl_sub_hrd_param := hrd_vcl_sub_hrd_param h,
          hrd_low_delay_hrd_flag := (replicate 8 0)[0 := hrd_low_delay_hrd_flag h ! 0]\<rparr>"

definition hrd_view :: "AL_THrdParam \<Rightarrow> AL_THrdParam" where
  "hrd_view h = h\<lparr>hrd_low_delay_hrd_flag := replicate 8 0\<rparr>"

definition after_nal :: "AL_THrdParam \<Rightarrow> AL_THrdParam \<Rightarrow> AL_THrdParam" where
  "after_nal h w = (let w = w\<lparr>hrd_nal_hrd_parameters_present_flag := hrd_nal_hrd_parameters_present_flag h\<rparr> in
     if hrd_nal_hrd_parameters_present_flag h \<noteq> 0 then (hrd_common h w)\<lparr>hrd_nal_sub_hrd_param := hrd_nal_sub_hrd_param h\<rparr> else w)"

definition after_vcl :: "AL_THrdParam \<Rightarrow> AL_THrdParam \<Rightarrow> AL_THrdParam" where
  "after_vcl h w = (let w = w\<lparr>hrd_vcl_hrd_parameters_present_flag := hrd_vcl_hrd_parameters_present_flag h\<rparr> in
     if hrd_vcl_hrd_parameters_present_flag h \<noteq> 0 then (hrd_common h w)\<lparr>hrd_vcl_sub_hrd_param := hrd_vcl_sub_hrd_param h\<rparr> else w)"

lemma init_hrd: "init_hrd = zero_hrd\<lparr>hrd_initial_cpb_removal_delay_length_minus1 := 23,
    hrd_au_cpb_removal_delay_length_minus1 := 23, hrd_dpb_output_delay_length_minus1 := 23\<rparr>"
  by (simp add: init_hrd_def initSps_def)

lemma replicate_first: "(replicate 8 (0 :: nat))[0 := 0] = replicate 8 0"
  by (simp add: numeral_eq_Suc)

lemma hrd_all: "hrd_ok h \<Longrightarrow> after_vcl h (after_nal h init_hrd) = hrd_view h"
  by (cases h) (auto simp: replicate_first hrd_ok_def after_vcl_def after_nal_def hrd_view_def init_hrd hrd_common_def zero_hrd_def Let_def split: if_splits)

lemma zero_shrd_du: "shrd_cpb_size_du_value_minus1 zero_shrd = replicate MAX_NUM_CPB 0"
    "shrd_bit_rate_du_value_minus1 zero_shrd = replicate MAX_NUM_CPB 0"
  by (simp_all add: zero_shrd_def Let_def)

lemma nal_hrd_matches:
  assumes "hrd_ok h" "hrd_cpb_cnt_minus1 w \<noteq> []" "hrd_nal_sub_hrd_param w = zero_shrd"
  shows "matches (write_nal_hrd h) (vui_nal_hrd w) (True, after_nal h w)"
  unfolding write_nal_hrd_def vui_nal_hrd_def
  by (rule matches_eq, (rule matches_choice | rule matches_rules | rule matches_last | rule hrd_matches | (simp only: prod.case)
      | (use assms in \<open>simp add: hrd_ok_def width_defs zero_shrd_du after_nal_def split: if_splits\<close>; fail))+)

lemma vcl_hrd_matches:
  assumes "hrd_ok h" "hrd_cpb_cnt_minus1 w \<noteq> []" "hrd_vcl_sub_hrd_param w = zero_shrd"
  shows "matches (write_vcl_hrd h) (vui_vcl_hrd w) (True, after_vcl h w)"
  unfolding write_vcl_hrd_def vui_vcl_hrd_def
  by (rule matches_eq, (rule matches_choice | rule matches_rules | rule matches_last | rule hrd_matches | (simp only: prod.case)
      | (use assms in \<open>simp add: hrd_ok_def width_defs zero_shrd_du after_vcl_def split: if_splits\<close>; fail))+)

lemma after_facts:
  "hrd_cpb_cnt_minus1 (after_nal h w) = [] \<longleftrightarrow> hrd_cpb_cnt_minus1 w = []"
  "hrd_vcl_sub_hrd_param (after_nal h w) = hrd_vcl_sub_hrd_param w"
  "hrd_nal_hrd_parameters_present_flag (after_vcl h (after_nal h w)) = hrd_nal_hrd_parameters_present_flag h"
  "hrd_vcl_hrd_parameters_present_flag (after_vcl h (after_nal h w)) = hrd_vcl_hrd_parameters_present_flag h"
  by (simp_all add: after_nal_def after_vcl_def hrd_common_def Let_def)

lemma init_hrd_facts: "hrd_cpb_cnt_minus1 init_hrd \<noteq> []" "hrd_nal_sub_hrd_param init_hrd = zero_shrd"
    "hrd_vcl_sub_hrd_param init_hrd = zero_shrd"
  by (simp_all add: init_hrd zero_hrd_def Let_def)

lemma vui_hrd_matches:
  assumes "hrd_ok h" "vui_hrd_param w = init_hrd" "vui_low_delay_hrd_flag w = 0"
  shows "matches (write_vui_hrd h) (vui_hrd w) (True, w\<lparr>vui_hrd_param := hrd_view h, vui_low_delay_hrd_flag := hrd_low_delay_hrd_flag h ! 0\<rparr>)"
proof -
  let ?any = "hrd_nal_hrd_parameters_present_flag h \<noteq> 0 \<or> hrd_vcl_hrd_parameters_present_flag h \<noteq> 0"
  have view: "hrd_nal_hrd_parameters_present_flag (hrd_view h) = hrd_nal_hrd_parameters_present_flag h"
      "hrd_vcl_hrd_parameters_present_flag (hrd_view h) = hrd_vcl_hrd_parameters_present_flag h"
    by (simp_all add: hrd_view_def)
  have low: "?any \<Longrightarrow> hrd_low_delay_hrd_flag h ! 0 < 2" "?any \<Longrightarrow> hrd_low_delay_hrd_flag h ! 0 < U8"
      "\<not> ?any \<Longrightarrow> hrd_low_delay_hrd_flag h ! 0 = 0"
    using assms(1) unfolding hrd_ok_def U8_def by (auto split: if_splits)
  note facts = after_facts init_hrd_facts
  have eq: "vui_low_delay_hrd_flag w = hrd_low_delay_hrd_flag h ! 0 \<Longrightarrow>
      w\<lparr>vui_hrd_param := hrd_view h, vui_low_delay_hrd_flag := hrd_low_delay_hrd_flag h ! 0\<rparr> = w\<lparr>vui_hrd_param := hrd_view h\<rparr>"
    by (cases w) simp
  show ?thesis
    unfolding write_vui_hrd_def vui_hrd_def assms(2)
    by (rule matches_eq, (rule nal_hrd_matches [OF assms(1)] vcl_hrd_matches [OF assms(1)] matches_ok matches_choice matches_rules
        | (simp only: prod.case) | (simp add: facts low; fail)
        | (use low assms(3) in \<open>auto simp: facts view hrd_all [OF assms(1)] eq; fail\<close>))+)
qed

definition vui_ok :: "AL_TVuiParam \<Rightarrow> bool" where
  "vui_ok v \<longleftrightarrow> vui_picture_ok v \<and> vui_signal_ok v \<and> vui_timing_ok v \<and> hrd_ok (vui_hrd_param v) \<and> vui_restriction_ok v"

definition vui_view :: "AL_TVuiParam \<Rightarrow> AL_TVuiParam" where
  "vui_view v = v\<lparr>vui_hrd_param := hrd_view (vui_hrd_param v), vui_low_delay_hrd_flag := hrd_low_delay_hrd_flag (vui_hrd_param v) ! 0\<rparr>"

definition init_vui :: AL_TVuiParam where
  "init_vui = sps_vui_param initSps"

lemma init_vui: "init_vui = zero_vui\<lparr>vui_hrd_param := init_hrd, vui_max_bytes_per_pic_denom := 2,
    vui_max_bits_per_min_cu_denom := 1, vui_log2_max_mv_length_horizontal := 16, vui_log2_max_mv_length_vertical := 16\<rparr>"
  by (simp add: init_vui_def init_hrd initSps_def)

lemma vui_matches:
  assumes "vui_ok v"
  shows "matches (write_vui v) (avc_vui_parameters init_vui) (True, vui_view v)"
  unfolding write_vui_def avc_vui_parameters_def
  by (rule matches_eq, (rule vui_picture_matches vui_signal_matches vui_timing_matches vui_hrd_matches matches_map [OF vui_restriction_matches]
      matches_ok matches_seq | (simp only: prod.case)
      | (use assms in \<open>simp add: vui_ok_def init_vui zero_vui_def; fail\<close>)
      | (cases v, simp add: vui_view_def init_vui zero_vui_def; fail))+)

end
