(* ===== verification/Avc_SpsTrip.thy ===== *)
theory Avc_SpsTrip
  imports Avc_Sps
begin

text \<open>
  The scaling lists and the parts of the sequence parameter set around them: what \<open>writeSpsData\<close> writes,
  the parts of \<open>AL_AVC_ParseSPS\<close> read.
\<close>

section \<open>Scaling lists\<close>

definition list_ok :: "nat \<Rightarrow> nat list \<Rightarrow> bool" where
  "list_ok n xs \<longleftrightarrow> length xs = n \<and> (\<forall>x \<in> set xs. 0 < x \<and> x < 256)"

definition delta_scale :: "nat \<Rightarrow> nat \<Rightarrow> int" where
  "delta_scale x iLastScale = (let d = int x - int iLastScale in
     if d > 127 then d - 256 else if d < -128 then d + 256 else d)"

lemma delta_scale_back:
  assumes "x < 256" "lst < 256"
  shows "(int lst + Clip3 (delta_scale x lst) (-128) 127 + 256) mod 256 = int x" "\<bar>delta_scale x lst\<bar> < 2 ^ 30"
proof -
  obtain d where d: "d = int x - int lst" "-256 < d" "d < 256" using assms by simp
  have "Clip3 (delta_scale x lst) (-128) 127 = delta_scale x lst"
    using d by (auto simp: Clip3_def delta_scale_def Let_def)
  moreover have "\<exists>k. int lst + delta_scale x lst + 256 = int x + k * 256"
    using d by (auto simp: delta_scale_def Let_def intro: exI [of _ 0] exI [of _ 1] exI [of _ 2])
  ultimately obtain k where k: "int lst + Clip3 (delta_scale x lst) (-128) 127 + 256 = int x + k * 256" by auto
  show "(int lst + Clip3 (delta_scale x lst) (-128) 127 + 256) mod 256 = int x"
    unfolding k mod_mult_self1 using assms(1) by simp
  show "\<bar>delta_scale x lst\<bar> < 2 ^ 30" using d by (auto simp: delta_scale_def Let_def)
qed

lemma scaling_turn_matches:
  assumes "x < 256" "0 < x" "lst < 256" "nx \<noteq> 0"
  shows "matches (wr_se (delta_scale x lst)) (scaling_turn scan j (l, f, int lst, nx)) (l[scan ! j := x], 0, int x, int x)"
  unfolding scaling_turn_def
  by (rule matches_eq, simp only: prod.case Let_def, (rule matches_last | (subst if_P [OF assms(4)], rule matches_se)
      | (simp only: prod.case) | (rule matches_done)
      | (use assms delta_scale_back [OF assms(1,3)] in \<open>simp; fail\<close>))+)

lemma scaling_loop_matches:
  assumes "scan = qs @ ps" "\<forall>i \<in> set ps. 0 < sl ! i \<and> sl ! i < 256" "lst < 256" "nxt \<noteq> 0" "nx \<noteq> 0"
  shows "\<exists>y z. matches (writeScalingList_loop sl ps lst nxt) (for_reads (scaling_turn scan) [length qs..<length scan] (l, f, int lst, nx))
    (fold (\<lambda>i l. l[i := sl ! i]) ps l, if ps = [] then f else 0, y, z)"
  using assms
proof (induction ps arbitrary: qs l f lst nxt nx)
  case Nil
  have "writeScalingList_loop sl [] lst nxt = Some" by (simp add: fun_eq_iff)
  moreover have "for_reads (scaling_turn scan) [length qs..<length scan] (l, f, int lst, nx) = (\<lambda>rp. Some ((l, f, int lst, nx), rp))"
    using Nil by (simp add: fun_eq_iff)
  ultimately show ?case using matches_done [of "(l, f, int lst, nx)"] by auto
next
  case (Cons i ps)
  let ?x = "sl ! i"
  have x: "0 < ?x" "?x < 256" using Cons.prems(2) by simp_all
  have w: "writeScalingList_loop sl (i # ps) lst nxt =
      (\<lambda>bs. do { bs \<leftarrow> wr_se (delta_scale ?x lst) bs; writeScalingList_loop sl ps ?x ?x bs })"
    using Cons.prems(4) by (simp add: fun_eq_iff wr_se_def delta_scale_def Let_def split: bind_split)
  have j: "[length qs..<length scan] = length qs # [length (qs @ [i])..<length scan]" "scan ! length qs = i"
    using Cons.prems(1) upt_conv_Cons [of "length qs" "length scan"] by simp_all
  have r: "for_reads (scaling_turn scan) [length qs..<length scan] (l, f, int lst, nx) =
      (\<lambda>rp. do { (s, rp) \<leftarrow> scaling_turn scan (length qs) (l, f, int lst, nx) rp;
        for_reads (scaling_turn scan) [length (qs @ [i])..<length scan] s rp })"
    unfolding j(1) by (simp add: fun_eq_iff)
  obtain y z where "matches (writeScalingList_loop sl ps ?x ?x)
      (for_reads (scaling_turn scan) [length (qs @ [i])..<length scan] (l[i := ?x], 0, int ?x, int ?x))
      (fold (\<lambda>i l. l[i := sl ! i]) ps (l[i := ?x]), if ps = [] then 0 else 0, y, z)"
    using Cons.IH [of "qs @ [i]" ?x ?x "int ?x" "l[i := ?x]" 0] Cons.prems(1,2) x by auto
  from matches_seq [where q = "for_reads (scaling_turn scan) [length (qs @ [i])..<length scan]",
      OF scaling_turn_matches [OF x(2,1) Cons.prems(3,5), of scan "length qs" l f], unfolded j(2), OF this]
  show ?case unfolding w r by auto
qed

lemma fold_fill:
  assumes "set ps = {0..<n}" "length xs = n" "length l = n"
  shows "fold (\<lambda>i l. l[i := xs ! i]) ps l = xs"
proof (rule nth_equalityI)
  have len: "length (fold (\<lambda>i l. l[i := xs ! i]) ps l) = length l" for ps l
    by (induction ps arbitrary: l) simp_all
  then show "length (fold (\<lambda>i l. l[i := xs ! i]) ps l) = length xs" using assms by simp
  have "k < length l \<Longrightarrow> fold (\<lambda>i l. l[i := xs ! i]) ps l ! k = (if k \<in> set ps then xs ! k else l ! k)" for k ps l
    by (induction ps arbitrary: l) (auto simp: nth_list_update)
  then show "fold (\<lambda>i l. l[i := xs ! i]) ps l ! k = xs ! k" if "k < length (fold (\<lambda>i l. l[i := xs ! i]) ps l)" for k
    using that assms len by simp
qed

lemma scan_sets: "set DecScanBlock4x4 = {0..<16}" "set DecScanBlock8x8 = {0..<64}"
    "length DecScanBlock4x4 = 16" "length DecScanBlock8x8 = 64"
proof -
  have s: "sort DecScanBlock4x4 = [0..<16]" "sort DecScanBlock8x8 = [0..<64]" by code_simp+
  show "set DecScanBlock4x4 = {0..<16}" "set DecScanBlock8x8 = {0..<64}"
    using arg_cong [OF s(1), of set] arg_cong [OF s(2), of set] by simp_all
qed (simp_all add: DecScanBlock4x4_def DecScanBlock8x8_def)

lemma scaling_list_matches:
  assumes "n = 16 \<or> n = 64" "list_ok n xs" "length l = n"
  shows "matches (writeScalingList xs n) (avc_scaling_list_data l n f) (xs, 0)"
proof -
  let ?scan = "if n = 16 then DecScanBlock4x4 else DecScanBlock8x8"
  have s: "set ?scan = {0..<n}" "length ?scan = n" using assms(1) scan_sets by auto
  have b: "\<forall>i \<in> set ?scan. 0 < xs ! i \<and> xs ! i < 256" using assms(2) unfolding s list_ok_def by simp
  have ne: "?scan \<noteq> []" using s(2) assms(1) by auto
  obtain y z where "matches (writeScalingList_loop xs ?scan 8 8) (for_reads (scaling_turn ?scan) [0..<n] (l, f, 8, 8)) (xs, 0, y, z)"
    using scaling_loop_matches [of ?scan "[]" ?scan xs 8 8 8 l f] b fold_fill [OF s(1), of xs l] assms(2,3) s(2) ne
    by (auto simp: list_ok_def)
  from matches_map [OF this, where G = "\<lambda>(l, f, _, _). (l, f)"]
  show ?thesis unfolding writeScalingList_def avc_scaling_list_data_def Let_def by (simp add: case_prod_unfold)
qed

section \<open>The scaling matrix\<close>

text \<open>
  The arrays that the decoder has after the list with index \<open>i\<close>: the list of the encoder, or what
  \<open>propagate_scaling_list\<close> puts in the place of a list that is not present.
\<close>

definition take_list :: "AL_TAvcSeqPar \<Rightarrow> nat \<Rightarrow> scaling \<Rightarrow> scaling" where
  "take_list e i c = (let c = c\<lparr>sc_present := (sc_present c)[i := sps_seq_scaling_list_present_flag e ! i]\<rparr> in
     if sps_seq_scaling_list_present_flag e ! i = 0 then propagate_scaling_list i c
     else if i < 6 then c\<lparr>sc_4x4 := (sc_4x4 c)[i := enc_list e i], sc_default4x4 := (sc_default4x4 c)[i := 0]\<rparr>
     else c\<lparr>sc_8x8 := (sc_8x8 c)[i - 6 := enc_list e i], sc_default8x8 := (sc_default8x8 c)[i - 6 := 0]\<rparr>)"

definition scaling_ok :: "scaling \<Rightarrow> bool" where
  "scaling_ok c \<longleftrightarrow> length (sc_present c) = 12 \<and> length (sc_4x4 c) = 6 \<and> (\<forall>i < 6. length (sc_4x4 c ! i) = 16)
     \<and> length (sc_8x8 c) = 6 \<and> (\<forall>i < 6. length (sc_8x8 c ! i) = 64)"

definition matrix_ok :: "AL_TAvcSeqPar \<Rightarrow> bool" where
  "matrix_ok e \<longleftrightarrow> (\<forall>i < NbScalingList e. sps_seq_scaling_list_present_flag e ! i < 2
     \<and> (sps_seq_scaling_list_present_flag e ! i \<noteq> 0 \<longrightarrow> list_ok (if i < 6 then 16 else 64) (enc_list e i)))"

lemma NbScalingList_le: "NbScalingList e \<le> 12"
  by (simp add: NbScalingList_def)

lemma propagate_ok: "scaling_ok c \<Longrightarrow> i < 12 \<Longrightarrow> scaling_ok (propagate_scaling_list i c)"
  by (auto simp: scaling_ok_def propagate_scaling_list_def nth_list_update)

lemma take_list_ok:
  assumes "matrix_ok e" "scaling_ok c" "i < NbScalingList e"
  shows "scaling_ok (take_list e i c)"
proof -
  have i: "i < 12" using assms(3) NbScalingList_le [of e] by simp
  have p: "scaling_ok (c\<lparr>sc_present := (sc_present c)[i := sps_seq_scaling_list_present_flag e ! i]\<rparr>)"
    using assms(2) by (simp add: scaling_ok_def)
  have l: "sps_seq_scaling_list_present_flag e ! i \<noteq> 0 \<Longrightarrow> length (enc_list e i) = (if i < 6 then 16 else 64)"
    using assms(1,3) by (simp add: matrix_ok_def list_ok_def)
  show ?thesis using propagate_ok [OF p i] p l i by (auto simp: take_list_def Let_def scaling_ok_def nth_list_update)
qed

lemma read_list_matches:
  assumes "list_ok (if i < 6 then 16 else 64) xs" "scaling_ok c" "i < 12"
  shows "matches (writeScalingList xs (if i < 6 then 16 else 64)) (read_list i c)
    (if i < 6 then c\<lparr>sc_4x4 := (sc_4x4 c)[i := xs], sc_default4x4 := (sc_default4x4 c)[i := 0]\<rparr>
     else c\<lparr>sc_8x8 := (sc_8x8 c)[i - 6 := xs], sc_default8x8 := (sc_default8x8 c)[i - 6 := 0]\<rparr>)"
proof (cases "i < 6")
  case True
  have m: "matches (writeScalingList xs 16) (avc_scaling_list_data (sc_4x4 c ! i) 16 (sc_default4x4 c ! i)) (xs, 0)"
    by (rule scaling_list_matches) (use assms True in \<open>simp_all add: scaling_ok_def\<close>)
  show ?thesis unfolding read_list_def if_P [OF True]
    by (rule matches_last [OF m], simp only: prod.case, rule matches_done, rule refl)
next
  case False
  have m: "matches (writeScalingList xs 64) (avc_scaling_list_data (sc_8x8 c ! (i - 6)) 64 (sc_default8x8 c ! (i - 6))) (xs, 0)"
    by (rule scaling_list_matches) (use assms False in \<open>simp_all add: scaling_ok_def\<close>)
  show ?thesis unfolding read_list_def if_not_P [OF False]
    by (rule matches_last [OF m], simp only: prod.case, rule matches_done, rule refl)
qed

lemma list_turn_matches:
  assumes "matrix_ok e" "scaling_ok c" "i < NbScalingList e"
  shows "matches (\<lambda>bs. do {
      bs \<leftarrow> wr_u 1 (sps_seq_scaling_list_present_flag e ! i) bs;
      if sps_seq_scaling_list_present_flag e ! i = 0 then Some bs
      else writeScalingList (enc_list e i) (if i < 6 then 16 else 64) bs }) (sps_list_turn i c) (take_list e i c)"
proof -
  let ?p = "sps_seq_scaling_list_present_flag e ! i"
  let ?c = "c\<lparr>sc_present := (sc_present c)[i := ?p]\<rparr>"
  have i: "i < 12" using assms(3) NbScalingList_le [of e] by simp
  have p: "?p < 2 ^ 1" "?p < U8" "?p \<noteq> 0 \<Longrightarrow> list_ok (if i < 6 then 16 else 64) (enc_list e i)"
    using assms(1,3) by (auto simp: matrix_ok_def U8_def)
  have c: "scaling_ok ?c" "sc_present ?c ! i = ?p" using assms(2) i by (simp_all add: scaling_ok_def)
  note pres = matches_u [of 1 ?p U8 "\<lambda>k. c\<lparr>sc_present := (sc_present c)[i := k]\<rparr>", OF zero_less_one _ p(1,2)]
  show ?thesis unfolding sps_list_turn_def
  proof (rule matches_seq [OF pres matches_if])
    show "(?p = 0) = (sc_present ?c ! i = 0)" using c(2) by simp
    show "matches Some (\<lambda>rp. Some (propagate_scaling_list i ?c, rp)) (take_list e i c)" if "sc_present ?c ! i = 0"
      by (rule matches_done) (use that c(2) in \<open>simp add: take_list_def\<close>)
    show "matches (writeScalingList (enc_list e i) (if i < 6 then 16 else 64)) (read_list i ?c) (take_list e i c)" if "sc_present ?c ! i \<noteq> 0"
      by (rule matches_eq [OF read_list_matches [OF p(3) c(1) i]]) (use that c(2) in \<open>simp_all add: take_list_def\<close>)
  qed simp
qed

lemma matrix_loop_matches:
  assumes "matrix_ok e" "scaling_ok c" "N = NbScalingList e"
  shows "matches (writeScalingMatrix 1 e) (for_reads sps_list_turn [0..<N] c) (fold (take_list e) [0..<N] c)"
proof -
  have "matches (writeScalingMatrix 1 e) (for_reads sps_list_turn [0..<N] (fold (take_list e) [] c)) (fold (take_list e) [0..<N] c)"
    unfolding writeScalingMatrix_def assms(3) if_not_P [OF one_neq_zero]
  proof (rule matches_for [where st = "\<lambda>as. fold (take_list e) as c"])
    fix as i bs assume s: "[0..<NbScalingList e] = as @ i # bs"
    then have lt: "\<forall>k \<in> set as. k < NbScalingList e" by (metis UnI1 atLeastLessThan_iff set_append set_upt)
    have "scaling_ok (fold (take_list e) as c)"
      using lt assms(2) by (induction as arbitrary: c) (auto intro: take_list_ok [OF assms(1)])
    note turn = list_turn_matches [OF assms(1) this, of i]
    have "fold (take_list e) (as @ [i]) c = take_list e i (fold (take_list e) as c)" by simp
    then show "matches (\<lambda>bs. do {
      bs \<leftarrow> wr_u 1 (sps_seq_scaling_list_present_flag e ! i) bs;
      if sps_seq_scaling_list_present_flag e ! i = 0 then Some bs
      else writeScalingList (enc_list e i) (if i < 6 then 16 else 64) bs }) (sps_list_turn i (fold (take_list e) as c))
      (fold (take_list e) (as @ [i]) c)" using turn upt_split [OF s] by metis
  qed
  then show ?thesis by simp
qed

section \<open>The parts of the set\<close>

definition profile_ok :: "AL_TAvcSeqPar \<Rightarrow> bool" where
  "profile_ok e \<longleftrightarrow> sps_profile_idc e < 256 \<and> sps_constraint_set0_flag e < 2 \<and> sps_constraint_set1_flag e < 2
     \<and> sps_constraint_set2_flag e < 2 \<and> sps_constraint_set3_flag e < 2 \<and> sps_constraint_set4_flag e < 2
     \<and> sps_constraint_set5_flag e < 2 \<and> sps_level_idc e < 256 \<and> sps_seq_parameter_set_id e < AL_AVC_MAX_SPS
     \<and> (isProfileSupported (sps_profile_idc e) \<or> sps_constraint_set1_flag e \<noteq> 0)"

lemma matches_rd_skip: "matches (wr_u 2 0) (rd_skip 2) ()"
  unfolding rd_skip_def by (rule matches_skip) simp_all

lemma profile_matches:
  assumes "profile_ok e"
  shows "matches (write_sps_profile e) (sps_profile s) (AL_PARSE_OK, s\<lparr>sps_profile_idc := sps_profile_idc e,
    sps_constraint_set0_flag := sps_constraint_set0_flag e, sps_constraint_set1_flag := sps_constraint_set1_flag e,
    sps_constraint_set2_flag := sps_constraint_set2_flag e, sps_constraint_set3_flag := sps_constraint_set3_flag e,
    sps_constraint_set4_flag := sps_constraint_set4_flag e, sps_constraint_set5_flag := sps_constraint_set5_flag e,
    sps_level_idc := sps_level_idc e, sps_seq_parameter_set_id := sps_seq_parameter_set_id e\<rparr>)"
  unfolding write_sps_profile_def sps_profile_def
  by (rule matches_eq, (rule matches_rd_skip matches_seq matches_u matches_ue matches_done matches_last [OF matches_ue] | rule matches_comply
      | (use assms in \<open>simp add: profile_ok_def width_defs AL_AVC_MAX_SPS_def; fail\<close>))+)

definition chroma_ok :: "AL_TAvcSeqPar \<Rightarrow> bool" where
  "chroma_ok e \<longleftrightarrow>
     (if reads_chroma_format (sps_profile_idc e)
      then sps_chroma_format_idc e < AL_CHROMA_MAX_ENUM
        \<and> (if sps_chroma_format_idc e = 3 then sps_separate_colour_plane_flag e < 2 else sps_separate_colour_plane_flag e = 0)
        \<and> sps_bit_depth_luma_minus8 e \<le> 4 \<and> sps_bit_depth_chroma_minus8 e \<le> 4
        \<and> sps_qpprime_y_zero_transform_bypass_flag e < 2 \<and> sps_seq_scaling_matrix_present_flag e < 2
        \<and> (sps_seq_scaling_matrix_present_flag e \<noteq> 0 \<longrightarrow> matrix_ok e)
      else sps_chroma_format_idc e = 1 \<and> sps_separate_colour_plane_flag e = 0 \<and> sps_bit_depth_luma_minus8 e = 0
        \<and> sps_bit_depth_chroma_minus8 e = 0 \<and> sps_qpprime_y_zero_transform_bypass_flag e = 0
        \<and> sps_seq_scaling_matrix_present_flag e = 0)"

text \<open>The lists that the decoder has afterwards, \<open>c\<close> being those it starts with.\<close>

definition lists_view :: "AL_TAvcSeqPar \<Rightarrow> scaling \<Rightarrow> scaling" where
  "lists_view e c =
     (if \<not> reads_chroma_format (sps_profile_idc e) then c
      else if sps_seq_scaling_matrix_present_flag e \<noteq> 0 then fold (take_list e) [0..<NbScalingList e] c
      else fold flat_list [0..<NbScalingList e] c)"

lemma set_sps_scaling_id: "set_sps_scaling s (sps_scaling s) = s"
  by (simp add: set_sps_scaling_def sps_scaling_def)

lemma writes_reads_chroma: "writes_chroma_format = reads_chroma_format"
  by (auto simp: fun_eq_iff writes_chroma_format_def reads_chroma_format_def)

lemma clip_depth: "k \<le> 4 \<Longrightarrow> nat (Clip3 (int k) 0 MAX_BIT_DEPTH_MINUS_8) = k"
  by (simp add: Clip3_def MAX_BIT_DEPTH_MINUS_8_def)

lemma matrix_matches:
  assumes "sps_seq_scaling_matrix_present_flag e \<noteq> 0 \<longrightarrow> matrix_ok e" "sps_seq_scaling_matrix_present_flag e < 2" "scaling_ok (sps_scaling s)"
    and "sps_seq_scaling_matrix_present_flag s = sps_seq_scaling_matrix_present_flag e" "NbScalingList s = NbScalingList e"
    and "reads_chroma_format (sps_profile_idc e)"
  shows "matches (writeScalingMatrix (sps_seq_scaling_matrix_present_flag e) e) (sps_matrix s) (set_sps_scaling s (lists_view e (sps_scaling s)))"
proof (cases "sps_seq_scaling_matrix_present_flag e = 0")
  case True
  have w: "writeScalingMatrix 0 e = Some" by (simp add: writeScalingMatrix_def)
  have r: "sps_matrix s = (\<lambda>rp. Some (set_sps_scaling s (lists_view e (sps_scaling s)), rp))"
    using True assms(4-6) by (simp add: sps_matrix_def lists_view_def)
  show ?thesis unfolding True w r by (rule matches_done) (rule refl)
next
  case False
  then have f: "sps_seq_scaling_matrix_present_flag e = 1" using assms(2) by simp
  have r: "sps_matrix s = (\<lambda>rp. do { (c, rp) \<leftarrow> for_reads sps_list_turn [0..<NbScalingList e] (sps_scaling s) rp;
       Some (set_sps_scaling s c, rp) })"
    using False assms(4,5) by (simp add: sps_matrix_def)
  have v: "lists_view e (sps_scaling s) = fold (take_list e) [0..<NbScalingList e] (sps_scaling s)"
    using assms(6) f by (simp add: lists_view_def)
  show ?thesis unfolding f r v
    by (rule matches_map, rule matrix_loop_matches) (use False assms(1,3) in auto)
qed

lemma chroma_matches:
  assumes e: "chroma_ok e"
    and s: "sps_profile_idc s = sps_profile_idc e" "sps_chroma_format_idc s = 1" "sps_separate_colour_plane_flag s = 0"
      "sps_bit_depth_luma_minus8 s = 0" "sps_bit_depth_chroma_minus8 s = 0" "sps_qpprime_y_zero_transform_bypass_flag s = 0"
      "sps_seq_scaling_matrix_present_flag s = 0" "scaling_ok (sps_scaling s)"
  shows "matches (write_sps_chroma e) (sps_chroma s) (AL_PARSE_OK,
    set_sps_scaling (s\<lparr>sps_chroma_format_idc := sps_chroma_format_idc e, sps_separate_colour_plane_flag := sps_separate_colour_plane_flag e,
      sps_bit_depth_luma_minus8 := sps_bit_depth_luma_minus8 e, sps_bit_depth_chroma_minus8 := sps_bit_depth_chroma_minus8 e,
      sps_qpprime_y_zero_transform_bypass_flag := sps_qpprime_y_zero_transform_bypass_flag e,
      sps_seq_scaling_matrix_present_flag := sps_seq_scaling_matrix_present_flag e\<rparr>) (lists_view e (sps_scaling s)))"
proof (cases "reads_chroma_format (sps_profile_idc e)")
  case False
  have "write_sps_chroma e = Some" "sps_chroma s = (\<lambda>rp. Some ((AL_PARSE_OK, s), rp))"
    using False s(1) by (simp_all add: write_sps_chroma_def sps_chroma_def writes_reads_chroma fun_eq_iff)
  then show ?thesis
    using e s False by (auto intro!: matches_done simp: chroma_ok_def lists_view_def set_sps_scaling_def sps_scaling_def)
next
  case True
  have b: "sps_chroma_format_idc e < 5" "sps_bit_depth_luma_minus8 e \<le> 4" "sps_bit_depth_chroma_minus8 e \<le> 4"
      "sps_qpprime_y_zero_transform_bypass_flag e < 2" "sps_seq_scaling_matrix_present_flag e < 2"
      "sps_seq_scaling_matrix_present_flag e \<noteq> 0 \<longrightarrow> matrix_ok e"
      "sps_chroma_format_idc e = 3 \<Longrightarrow> sps_separate_colour_plane_flag e < 2"
      "sps_chroma_format_idc e \<noteq> 3 \<Longrightarrow> sps_separate_colour_plane_flag e = 0"
    using e True by (auto simp: chroma_ok_def AL_CHROMA_MAX_ENUM_def)
  have p: "writes_chroma_format (sps_profile_idc e)" "reads_chroma_format (sps_profile_idc s)" using True s(1) writes_reads_chroma by simp_all
  note s8 = s(8) [unfolded sps_scaling_def]
  show ?thesis unfolding write_sps_chroma_def sps_chroma_def if_P [OF p(1)] if_P [OF p(2)]
    by (rule matches_eq, (rule matrix_matches [OF b(6,5)] matches_seq matches_u matches_ue matches_if matches_done matches_map [OF matrix_matches [OF b(6,5)]] | rule matches_comply
      | (use b(1-5,7,8) s(3) in \<open>simp add: width_defs AL_CHROMA_MAX_ENUM_def clip_depth; fail\<close>)
      | (use True in \<open>simp add: sps_scaling_def s8 NbScalingList_def clip_depth b(2,3); fail\<close>))+)
qed

definition order_ok :: "AL_TAvcSeqPar \<Rightarrow> bool" where
  "order_ok e \<longleftrightarrow> sps_log2_max_frame_num_minus4 e \<le> MAX_FRAME_NUM \<and> (sps_pic_order_cnt_type e = 0 \<or> sps_pic_order_cnt_type e = 2)
     \<and> (if sps_pic_order_cnt_type e = 0 then sps_log2_max_pic_order_cnt_lsb_minus4 e \<le> MAX_POC_LSB_MINUS_4
        else sps_log2_max_pic_order_cnt_lsb_minus4 e = 0)
     \<and> sps_offset_for_non_ref_pic e = 0 \<and> sps_offset_for_top_to_bottom_field e = 0
     \<and> sps_num_ref_frames_in_pic_order_cnt_cycle e = 0 \<and> sps_offset_for_ref_frame e = replicate 256 0"

definition zero_delta :: "AL_TAvcSeqPar \<Rightarrow> nat" where
  "zero_delta e = (if sps_pic_order_cnt_type e = 0 then 1 else 0)"

lemma order_matches:
  assumes e: "order_ok e" and s: "sps_log2_max_pic_order_cnt_lsb_minus4 s = 0" "sps_delta_pic_order_always_zero_flag s = 0"
  shows "matches (write_sps_order e) (sps_order s) (AL_PARSE_OK, s\<lparr>sps_log2_max_frame_num_minus4 := sps_log2_max_frame_num_minus4 e,
    sps_pic_order_cnt_type := sps_pic_order_cnt_type e, sps_log2_max_pic_order_cnt_lsb_minus4 := sps_log2_max_pic_order_cnt_lsb_minus4 e,
    sps_delta_pic_order_always_zero_flag := zero_delta e\<rparr>)"
proof (cases "sps_pic_order_cnt_type e = 0")
  case True
  have b: "sps_log2_max_frame_num_minus4 e \<le> 12" "sps_log2_max_pic_order_cnt_lsb_minus4 e \<le> 12"
    using e True by (auto simp: order_ok_def MAX_FRAME_NUM_def MAX_POC_LSB_MINUS_4_def)
  have w: "write_sps_order e = (\<lambda>bs. do {
      bs \<leftarrow> wr_ue (sps_log2_max_frame_num_minus4 e) bs;
      bs \<leftarrow> wr_ue 0 bs;
      wr_ue (sps_log2_max_pic_order_cnt_lsb_minus4 e) bs })"
    by (simp add: write_sps_order_def True fun_eq_iff split: bind_split)
  show ?thesis unfolding w sps_order_def
    by (rule matches_eq, (rule matches_complies matches_seq matches_ue matches_done matches_then matches_last [OF matches_ue]
      | (use b in \<open>simp add: width_defs MAX_FRAME_NUM_def MAX_POC_TYPE_def MAX_POC_LSB_MINUS_4_def True zero_delta_def; fail\<close>))+)
next
  case False
  then have t: "sps_pic_order_cnt_type e = 2" using e by (simp add: order_ok_def)
  have b: "sps_log2_max_frame_num_minus4 e \<le> 12" "sps_log2_max_pic_order_cnt_lsb_minus4 e = 0"
    using e t by (auto simp: order_ok_def MAX_FRAME_NUM_def)
  have w: "write_sps_order e = (\<lambda>bs. do { bs \<leftarrow> wr_ue (sps_log2_max_frame_num_minus4 e) bs; wr_ue 2 bs })"
    by (simp add: write_sps_order_def t fun_eq_iff split: bind_split)
  show ?thesis unfolding w sps_order_def
    by (rule matches_eq, (rule matches_seq matches_done matches_last [OF matches_ue] matches_ue | rule matches_comply
      | (use b s in \<open>simp add: width_defs MAX_FRAME_NUM_def MAX_POC_TYPE_def t zero_delta_def; fail\<close>))+)
qed

definition frame_ok :: "AL_TAvcSeqPar \<Rightarrow> bool" where
  "frame_ok e \<longleftrightarrow> sps_max_num_ref_frames e \<le> 16 \<and> sps_gaps_in_frame_num_value_allowed_flag e < 2
     \<and> 1 \<le> sps_pic_width_in_mbs_minus1 e \<and> sps_pic_width_in_mbs_minus1 e < 65536
     \<and> 1 \<le> sps_pic_height_in_map_units_minus1 e \<and> sps_pic_height_in_map_units_minus1 e < 65536
     \<and> sps_frame_mbs_only_flag e < 2 \<and> sps_mb_adaptive_frame_field_flag e = 0"

lemma frame_matches:
  assumes e: "frame_ok e" and s: "sps_mb_adaptive_frame_field_flag s = 0"
  shows "matches (write_sps_frame e) (sps_frame s) (AL_PARSE_OK, s\<lparr>sps_max_num_ref_frames := sps_max_num_ref_frames e,
    sps_gaps_in_frame_num_value_allowed_flag := sps_gaps_in_frame_num_value_allowed_flag e,
    sps_pic_width_in_mbs_minus1 := sps_pic_width_in_mbs_minus1 e, sps_pic_height_in_map_units_minus1 := sps_pic_height_in_map_units_minus1 e,
    sps_frame_mbs_only_flag := sps_frame_mbs_only_flag e, sps_mb_adaptive_frame_field_flag := sps_mb_adaptive_frame_field_flag e\<rparr>)"
proof -
  have b: "sps_max_num_ref_frames e \<le> 16" "sps_gaps_in_frame_num_value_allowed_flag e < 2"
     "0 < sps_pic_width_in_mbs_minus1 e" "sps_pic_width_in_mbs_minus1 e < 65536"
     "0 < sps_pic_height_in_map_units_minus1 e" "sps_pic_height_in_map_units_minus1 e < 65536"
     "sps_frame_mbs_only_flag e < 2" "sps_mb_adaptive_frame_field_flag e = 0"
    using e by (simp_all add: frame_ok_def)
  have c: "nat (Clip3 (int (sps_max_num_ref_frames e)) 0 AL_MAX_REF) = sps_max_num_ref_frames e"
    using b(1) by (simp add: Clip3_def AL_MAX_REF_def)
  show ?thesis unfolding write_sps_frame_def sps_frame_def
    by (rule matches_eq, (rule matches_seq matches_u matches_ue matches_last [OF matches_if] matches_if matches_done | rule matches_comply
      | (use b s in \<open>simp add: width_defs c; fail\<close>))+)
qed

definition crop_ok :: "AL_TAvcSeqPar \<Rightarrow> bool" where
  "crop_ok e \<longleftrightarrow> sps_direct_8x8_inference_flag e < 2 \<and> sps_frame_cropping_flag e < 2
     \<and> (\<forall>x \<in> {sps_frame_crop_left_offset e, sps_frame_crop_right_offset e, sps_frame_crop_top_offset e, sps_frame_crop_bottom_offset e}.
        if sps_frame_cropping_flag e \<noteq> 0 then 0 \<le> x \<and> x < 2 ^ 31 else x = 0)"

lemma crop_matches:
  assumes e: "crop_ok e" and s: "sps_frame_crop_left_offset s = 0" "sps_frame_crop_right_offset s = 0"
    "sps_frame_crop_top_offset s = 0" "sps_frame_crop_bottom_offset s = 0"
  shows "matches (write_sps_crop e) (sps_crop s) (AL_PARSE_OK, s\<lparr>sps_direct_8x8_inference_flag := sps_direct_8x8_inference_flag e,
    sps_frame_cropping_flag := sps_frame_cropping_flag e, sps_frame_crop_left_offset := sps_frame_crop_left_offset e,
    sps_frame_crop_right_offset := sps_frame_crop_right_offset e, sps_frame_crop_top_offset := sps_frame_crop_top_offset e,
    sps_frame_crop_bottom_offset := sps_frame_crop_bottom_offset e\<rparr>)"
  unfolding write_sps_crop_def sps_crop_def
  by (rule matches_eq, (rule matches_seq matches_u matches_ue_int matches_last [OF matches_if] matches_done
    | (use e s in \<open>simp add: crop_ok_def width_defs split: if_splits; fail\<close>))+)

lemma vui_part_matches:
  assumes "sps_vui_parameters_present_flag e < 2"
    and "if sps_vui_parameters_present_flag e \<noteq> 0 then vui_ok (sps_vui_param e) else sps_vui_param e = init_vui"
    and "sps_vui_param s = init_vui"
  shows "matches (\<lambda>bs. do {
      bs \<leftarrow> wr_u 1 (sps_vui_parameters_present_flag e) bs;
      if sps_vui_parameters_present_flag e \<noteq> 0 then write_vui (sps_vui_param e) bs else Some bs }) (sps_vui s)
    (AL_PARSE_OK, s\<lparr>sps_vui_parameters_present_flag := sps_vui_parameters_present_flag e,
      sps_vui_param := (if sps_vui_parameters_present_flag e \<noteq> 0 then vui_view (sps_vui_param e) else init_vui), sps_bConceal := False\<rparr>)"
proof -
  have m: "matches (write_vui (sps_vui_param e)) (avc_vui_parameters (sps_vui_param (s\<lparr>sps_vui_parameters_present_flag := k\<rparr>))) (True, vui_view (sps_vui_param e))"
    if "sps_vui_parameters_present_flag e \<noteq> 0" for k
    using vui_matches [of "sps_vui_param e"] assms(2,3) that by simp
  show ?thesis unfolding sps_vui_def
    by (rule matches_eq, (rule matches_last [OF m] matches_ok matches_seq matches_u matches_choice matches_done | (simp only: prod.case)
      | (use assms in \<open>simp add: width_defs; fail\<close>) | (use assms(3) in \<open>cases s, simp; fail\<close>))+)
qed

end
