(* ===== verification/Avc_SpsProps.thy ===== *)
theory Avc_SpsProps
  imports Avc_SpsTrip
begin

text \<open>
  The properties of the sequence parameter set: the encoder's set is the set the decoder has, and a
  set that the parser accepts is within the bounds that the decoder relies on.
\<close>

section \<open>The round trip\<close>

definition sps_ok :: "AL_TAvcSeqPar \<Rightarrow> bool" where
  "sps_ok e \<longleftrightarrow> profile_ok e \<and> chroma_ok e \<and> order_ok e \<and> frame_ok e \<and> crop_ok e
     \<and> sps_vui_parameters_present_flag e < 2
     \<and> (if sps_vui_parameters_present_flag e \<noteq> 0 then vui_ok (sps_vui_param e) else sps_vui_param e = init_vui)"

text \<open>
  What the decoder has: the set of the encoder, with the scaling lists in the arrays that the
  decoder uses, the flag for low delay in its place, and the flags that the parser sets.
\<close>

definition sps_view :: "AL_TAvcSeqPar \<Rightarrow> AL_TAvcSeqPar" where
  "sps_view e = set_sps_scaling (e\<lparr>sps_scaling_list_param_ScalingList := sps_scaling_list_param_ScalingList initSps,
     sps_delta_pic_order_always_zero_flag := zero_delta e,
     sps_vui_param := (if sps_vui_parameters_present_flag e \<noteq> 0 then vui_view (sps_vui_param e) else sps_vui_param e),
     sps_bConceal := False\<rparr>) (lists_view e (sps_scaling initSps))"

lemma matches_part:
  assumes "matches f (p s) (AL_PARSE_OK, v)" "matches g (parts ps v) w"
  shows "matches (\<lambda>bs. do { bs \<leftarrow> f bs; g bs }) (parts (p # ps) s) w"
proof -
  have "parts (p # ps) s = (\<lambda>rp. do { (a, rp) \<leftarrow> p s rp; (\<lambda>(r, s) rp. if r = AL_PARSE_OK then parts ps s rp else Some ((r, s), rp)) a rp })"
    by (simp add: fun_eq_iff case_prod_unfold)
  then show ?thesis using matches_seq [where q = "\<lambda>(r, s) rp. if r = AL_PARSE_OK then parts ps s rp else Some ((r, s), rp)", OF assms(1)] assms(2)
    by simp
qed

lemma matches_last_part:
  assumes "matches f (p s) (AL_PARSE_OK, v)"
  shows "matches f (parts [p] s) (AL_PARSE_OK, v)"
proof -
  have "parts [] v = (\<lambda>rp. Some ((AL_PARSE_OK, v), rp))" by (simp add: fun_eq_iff)
  then have "matches Some (parts [] v) (AL_PARSE_OK, v)" using matches_done by simp
  from matches_part [where p = p, OF assms this] show ?thesis by simp
qed

lemma initSps_facts:
  "sps_chroma_format_idc initSps = 1" "sps_separate_colour_plane_flag initSps = 0" "sps_bit_depth_luma_minus8 initSps = 0"
  "sps_bit_depth_chroma_minus8 initSps = 0" "sps_qpprime_y_zero_transform_bypass_flag initSps = 0"
  "sps_seq_scaling_matrix_present_flag initSps = 0" "sps_log2_max_pic_order_cnt_lsb_minus4 initSps = 0"
  "sps_delta_pic_order_always_zero_flag initSps = 0" "sps_mb_adaptive_frame_field_flag initSps = 0"
  "sps_frame_crop_left_offset initSps = 0" "sps_frame_crop_right_offset initSps = 0" "sps_frame_crop_top_offset initSps = 0"
  "sps_frame_crop_bottom_offset initSps = 0" "sps_vui_param initSps = init_vui"
  "scaling_ok (sps_scaling initSps)"
  by (simp_all add: initSps_def zero_sps_def init_vui_def scaling_ok_def sps_scaling_def)

lemma set_scaling_facts:
  "sps_log2_max_pic_order_cnt_lsb_minus4 (set_sps_scaling s c) = sps_log2_max_pic_order_cnt_lsb_minus4 s"
  "sps_delta_pic_order_always_zero_flag (set_sps_scaling s c) = sps_delta_pic_order_always_zero_flag s"
  "sps_mb_adaptive_frame_field_flag (set_sps_scaling s c) = sps_mb_adaptive_frame_field_flag s"
  "sps_frame_crop_left_offset (set_sps_scaling s c) = sps_frame_crop_left_offset s"
  "sps_frame_crop_right_offset (set_sps_scaling s c) = sps_frame_crop_right_offset s"
  "sps_frame_crop_top_offset (set_sps_scaling s c) = sps_frame_crop_top_offset s"
  "sps_frame_crop_bottom_offset (set_sps_scaling s c) = sps_frame_crop_bottom_offset s"
  "sps_vui_param (set_sps_scaling s c) = sps_vui_param s"
  by (simp_all add: set_sps_scaling_def)

lemma initSps_scaling: "sps_scaling (initSps\<lparr>sps_profile_idc := a0, sps_constraint_set0_flag := a1, sps_constraint_set1_flag := a2,
    sps_constraint_set2_flag := a3, sps_constraint_set3_flag := a4, sps_constraint_set4_flag := a5, sps_constraint_set5_flag := a6,
    sps_level_idc := a7, sps_seq_parameter_set_id := a8\<rparr>) = sps_scaling initSps"
  by (simp add: sps_scaling_def)

lemma sps_all_fields:
  fixes e :: AL_TAvcSeqPar
  assumes "sps_offset_for_non_ref_pic e = 0" "sps_offset_for_top_to_bottom_field e = 0"
    "sps_num_ref_frames_in_pic_order_cnt_cycle e = 0" "sps_offset_for_ref_frame e = replicate 256 0"
  shows "set_sps_scaling (initSps\<lparr>sps_profile_idc := sps_profile_idc e, sps_constraint_set0_flag := sps_constraint_set0_flag e,
      sps_constraint_set1_flag := sps_constraint_set1_flag e, sps_constraint_set2_flag := sps_constraint_set2_flag e,
      sps_constraint_set3_flag := sps_constraint_set3_flag e, sps_constraint_set4_flag := sps_constraint_set4_flag e,
      sps_constraint_set5_flag := sps_constraint_set5_flag e, sps_level_idc := sps_level_idc e,
      sps_seq_parameter_set_id := sps_seq_parameter_set_id e, sps_chroma_format_idc := sps_chroma_format_idc e,
      sps_separate_colour_plane_flag := sps_separate_colour_plane_flag e, sps_bit_depth_luma_minus8 := sps_bit_depth_luma_minus8 e,
      sps_bit_depth_chroma_minus8 := sps_bit_depth_chroma_minus8 e,
      sps_qpprime_y_zero_transform_bypass_flag := sps_qpprime_y_zero_transform_bypass_flag e,
      sps_seq_scaling_matrix_present_flag := sps_seq_scaling_matrix_present_flag e\<rparr>) c
    \<lparr>sps_log2_max_frame_num_minus4 := sps_log2_max_frame_num_minus4 e, sps_pic_order_cnt_type := sps_pic_order_cnt_type e,
      sps_log2_max_pic_order_cnt_lsb_minus4 := sps_log2_max_pic_order_cnt_lsb_minus4 e,
      sps_delta_pic_order_always_zero_flag := d, sps_max_num_ref_frames := sps_max_num_ref_frames e,
      sps_gaps_in_frame_num_value_allowed_flag := sps_gaps_in_frame_num_value_allowed_flag e,
      sps_pic_width_in_mbs_minus1 := sps_pic_width_in_mbs_minus1 e,
      sps_pic_height_in_map_units_minus1 := sps_pic_height_in_map_units_minus1 e,
      sps_frame_mbs_only_flag := sps_frame_mbs_only_flag e, sps_mb_adaptive_frame_field_flag := sps_mb_adaptive_frame_field_flag e,
      sps_direct_8x8_inference_flag := sps_direct_8x8_inference_flag e, sps_frame_cropping_flag := sps_frame_cropping_flag e,
      sps_frame_crop_left_offset := sps_frame_crop_left_offset e, sps_frame_crop_right_offset := sps_frame_crop_right_offset e,
      sps_frame_crop_top_offset := sps_frame_crop_top_offset e, sps_frame_crop_bottom_offset := sps_frame_crop_bottom_offset e,
      sps_vui_parameters_present_flag := sps_vui_parameters_present_flag e, sps_vui_param := v, sps_bConceal := False\<rparr>
    = set_sps_scaling (e\<lparr>sps_scaling_list_param_ScalingList := sps_scaling_list_param_ScalingList initSps,
      sps_delta_pic_order_always_zero_flag := d, sps_vui_param := v, sps_bConceal := False\<rparr>) c"
  using assms by (cases e) (simp add: set_sps_scaling_def initSps_def zero_sps_def)

lemma sps_matches:
  assumes "sps_ok e"
  shows "matches (writeSpsData e) (parts [sps_profile, sps_chroma, sps_order, sps_frame, sps_crop, sps_vui] initSps) (AL_PARSE_OK, sps_view e)"
proof -
  have e: "profile_ok e" "chroma_ok e" "order_ok e" "frame_ok e" "crop_ok e" "sps_vui_parameters_present_flag e < 2"
      "if sps_vui_parameters_present_flag e \<noteq> 0 then vui_ok (sps_vui_param e) else sps_vui_param e = init_vui"
    using assms by (simp_all add: sps_ok_def)
  have z: "sps_offset_for_non_ref_pic e = 0" "sps_offset_for_top_to_bottom_field e = 0"
      "sps_num_ref_frames_in_pic_order_cnt_cycle e = 0" "sps_offset_for_ref_frame e = replicate 256 0"
    using e(3) by (simp_all add: order_ok_def)
  have v: "(if sps_vui_parameters_present_flag e \<noteq> 0 then vui_view (sps_vui_param e) else sps_vui_param e) =
      (if sps_vui_parameters_present_flag e \<noteq> 0 then vui_view (sps_vui_param e) else init_vui)"
    using e(7) by simp
  show ?thesis
    unfolding writeSpsData_def
    by (rule matches_eq, (rule matches_part [where p = sps_profile, OF profile_matches [OF e(1)]]
        matches_part [where p = sps_chroma, OF chroma_matches [OF e(2)]] matches_part [where p = sps_order, OF order_matches [OF e(3)]]
        matches_part [where p = sps_frame, OF frame_matches [OF e(4)]] matches_part [where p = sps_crop, OF crop_matches [OF e(5)]]
        matches_last_part [OF vui_part_matches [OF e(6,7)]]
      | (simp add: initSps_facts set_scaling_facts; fail) | (use initSps_facts in \<open>simp add: sps_scaling_def; fail\<close>)
      | (rule prod_eqI, simp, simp only: snd_conv sps_view_def v initSps_scaling, rule sps_all_fields [OF z]))+)
qed


text \<open>A set of the High profile with one scaling list, cropping and decoder parameters.\<close>

definition demo_hrd :: AL_THrdParam where
  "demo_hrd = zero_hrd\<lparr>hrd_nal_hrd_parameters_present_flag := 1, hrd_bit_rate_scale := 4, hrd_cpb_size_scale := 3,
     hrd_initial_cpb_removal_delay_length_minus1 := 31, hrd_au_cpb_removal_delay_length_minus1 := 30,
     hrd_dpb_output_delay_length_minus1 := 29, hrd_low_delay_hrd_flag := (replicate 8 0)[0 := 1],
     hrd_nal_sub_hrd_param := zero_shrd\<lparr>shrd_bit_rate_value_minus1 := (replicate MAX_NUM_CPB 0)[0 := 1000],
       shrd_cpb_size_value_minus1 := (replicate MAX_NUM_CPB 0)[0 := 2000], shrd_cbr_flag := (replicate MAX_NUM_CPB 0)[0 := 1]\<rparr>\<rparr>"

definition demo_enc :: AL_TAvcSeqPar where
  "demo_enc = initSps\<lparr>sps_profile_idc := 100, sps_level_idc := 41, sps_seq_parameter_set_id := 3,
     sps_seq_scaling_matrix_present_flag := 1, sps_seq_scaling_list_present_flag := (replicate 12 0)[1 := 1],
     sps_scaling_list_param_ScalingList := [[[], [6, 13, 13, 20, 20, 20, 28, 28, 28, 28, 32, 32, 32, 37, 37, 200], [], [], [], []], [], [], []],
     sps_log2_max_frame_num_minus4 := 4, sps_log2_max_pic_order_cnt_lsb_minus4 := 5, sps_max_num_ref_frames := 4,
     sps_pic_width_in_mbs_minus1 := 119, sps_pic_height_in_map_units_minus1 := 67, sps_frame_mbs_only_flag := 1,
     sps_direct_8x8_inference_flag := 1, sps_frame_cropping_flag := 1, sps_frame_crop_bottom_offset := 4,
     sps_vui_parameters_present_flag := 1, sps_vui_param := init_vui\<lparr>vui_timing_info_present_flag := 1,
       vui_num_units_in_tick := 1, vui_time_scale := 50, vui_hrd_param := demo_hrd\<rparr>\<rparr>"

lemma demo_hrd_ok: "hrd_ok demo_hrd"
proof -
  have l: "length (replicate MAX_NUM_CPB (0 :: nat)) = MAX_NUM_CPB" "0 < MAX_NUM_CPB" by (simp_all add: MAX_NUM_CPB_def)
  have s: "sched (Suc 0) m ((replicate MAX_NUM_CPB 0)[0 := x])" if "x < m" for x m
    using that l by (auto simp: sched_def nth_list_update)
  show ?thesis
    by (simp add: hrd_ok_def hrd_common_ok_def hrd_common_def sub_hrd_ok_def demo_hrd_def zero_hrd_def zero_shrd_def s l Let_def replicate_first)
qed

lemma demo_enc_ok: "sps_ok demo_enc"
proof -
  have "profile_ok demo_enc"
    by (simp add: profile_ok_def demo_enc_def initSps_def zero_sps_def AL_AVC_MAX_SPS_def isProfileSupported_def)
  moreover have "chroma_ok demo_enc" by code_simp
  moreover have "order_ok demo_enc" "frame_ok demo_enc" "crop_ok demo_enc"
    by (simp_all add: order_ok_def frame_ok_def crop_ok_def demo_enc_def initSps_def zero_sps_def MAX_FRAME_NUM_def MAX_POC_LSB_MINUS_4_def)
  moreover have "vui_ok (sps_vui_param demo_enc)"
    by (simp add: vui_ok_def demo_hrd_ok vui_picture_ok_def vui_signal_ok_def vui_timing_ok_def vui_restriction_ok_def demo_enc_def init_vui zero_vui_def)
  moreover have "sps_vui_parameters_present_flag demo_enc = 1" by (simp add: demo_enc_def)
  ultimately show ?thesis by (simp add: sps_ok_def)
qed

lemma demo_enc_fits: "fits_scratch (writeSps demo_enc) (replicate 64 0) 64"
proof -
  have "case writeNalInBuffer (writeSps demo_enc) (replicate 64 0) 64 of None \<Rightarrow> False | Some (n, _) \<Rightarrow> 0 \<le> n" by code_simp
  then show ?thesis by (auto simp: fits_scratch_def split: option.splits)
qed


end
