(* ===== verification/Avc_Pps.thy ===== *)
theory Avc_Pps
  imports Avc_SpsProps Rbsp_End
begin

text \<open>
  The picture parameter set of AVC: \<open>AL_AVC_ParsePPS\<close> of \<open>lib_parsing/AvcParser.c\<close>, and what it makes
  of a set that \<open>writePps\<close> has written.
\<close>

section \<open>The parser\<close>

text \<open>
  The tables of \<open>AL_TAvcAup\<close>. The parser fills the entry of the set in place, so what it does not
  assign keeps its value.
\<close>

record AL_TAvcAup =
  aup_pSPS :: "AL_TAvcSeqPar list"
  aup_pPPS :: "AL_TAvcPps list"

definition initPps :: "AL_TAvcPps \<Rightarrow> AL_TAvcPps" where
  "initPps p = p\<lparr>pps_UseDefaultScalingMatrix4x4Flag := replicate 6 0, pps_UseDefaultScalingMatrix8x8Flag := replicate 6 0,
     pps_transform_8x8_mode_flag := 0, pps_pic_scaling_matrix_present_flag := 0, pps_bConceal := True\<rparr>"

definition pps_scaling :: "AL_TAvcPps \<Rightarrow> scaling" where
  "pps_scaling p = \<lparr>sc_present = pps_pic_scaling_list_present_flag p, sc_4x4 = pps_ScalingList4x4 p,
     sc_8x8 = pps_ScalingList8x8 p, sc_default4x4 = pps_UseDefaultScalingMatrix4x4Flag p,
     sc_default8x8 = pps_UseDefaultScalingMatrix8x8Flag p\<rparr>"

definition set_pps_scaling :: "AL_TAvcPps \<Rightarrow> scaling \<Rightarrow> AL_TAvcPps" where
  "set_pps_scaling p c = p\<lparr>pps_pic_scaling_list_present_flag := sc_present c, pps_ScalingList4x4 := sc_4x4 c,
     pps_ScalingList8x8 := sc_8x8 c, pps_UseDefaultScalingMatrix4x4Flag := sc_default4x4 c,
     pps_UseDefaultScalingMatrix8x8Flag := sc_default8x8 c\<rparr>"

text \<open>A list taken from the sequence parameter set, and the fall-back of a list that is not present.\<close>

definition copy_sps_list :: "AL_TAvcSeqPar \<Rightarrow> nat \<Rightarrow> scaling \<Rightarrow> scaling" where
  "copy_sps_list sps i c =
     (if i < 6 then
        if sps_UseDefaultScalingMatrix4x4Flag sps ! i \<noteq> 0 then c\<lparr>sc_default4x4 := (sc_default4x4 c)[i := 1]\<rparr>
        else c\<lparr>sc_4x4 := (sc_4x4 c)[i := sps_ScalingList4x4 sps ! i]\<rparr>
      else if sps_UseDefaultScalingMatrix8x8Flag sps ! (i - 6) \<noteq> 0 then c\<lparr>sc_default8x8 := (sc_default8x8 c)[i - 6 := 1]\<rparr>
      else c\<lparr>sc_8x8 := (sc_8x8 c)[i - 6 := sps_ScalingList8x8 sps ! (i - 6)]\<rparr>)"

definition pps_fall_back :: "AL_TAvcSeqPar \<Rightarrow> nat \<Rightarrow> scaling \<Rightarrow> scaling" where
  "pps_fall_back sps i c =
     (if sps_seq_scaling_matrix_present_flag sps = 0 then propagate_scaling_list i c
      else if i = 0 \<or> i = 3 \<or> (6 \<le> i \<and> i < 8) then copy_sps_list sps i c
      else if i < 6 then
        if sc_default4x4 c ! (i - 1) \<noteq> 0 then c\<lparr>sc_default4x4 := (sc_default4x4 c)[i := 1]\<rparr>
        else c\<lparr>sc_4x4 := (sc_4x4 c)[i := sc_4x4 c ! (i - 1)]\<rparr>
      else if sc_default8x8 c ! (i - 8) \<noteq> 0 then c\<lparr>sc_default8x8 := (sc_default8x8 c)[i - 6 := 1]\<rparr>
      else c\<lparr>sc_8x8 := (sc_8x8 c)[i - 6 := sc_8x8 c ! (i - 8)]\<rparr>)"

definition clear_default :: "nat \<Rightarrow> scaling \<Rightarrow> scaling" where
  "clear_default i c =
     (if i < 6 then c\<lparr>sc_default4x4 := (sc_default4x4 c)[i := 0]\<rparr> else c\<lparr>sc_default8x8 := (sc_default8x8 c)[i - 6 := 0]\<rparr>)"

definition pps_list_turn :: "AL_TAvcSeqPar \<Rightarrow> nat \<Rightarrow> scaling \<Rightarrow> AL_TRbspParser \<Rightarrow> (scaling \<times> AL_TRbspParser) option" where
  "pps_list_turn sps i c = (\<lambda>rp. do {
     let c = clear_default i c;
     (c, rp) \<leftarrow> rd_u 1 U8 (\<lambda>k. c\<lparr>sc_present := (sc_present c)[i := k]\<rparr>) rp;
     if sc_present c ! i = 0 then Some (pps_fall_back sps i c, rp) else read_list i c rp })"

definition NbPpsLists :: "AL_TAvcSeqPar \<Rightarrow> AL_TAvcPps \<Rightarrow> nat" where
  "NbPpsLists sps p = 6 + (if sps_chroma_format_idc sps \<noteq> 3 then 2 else 6) * pps_transform_8x8_mode_flag p"

text \<open>The lists when the set has no matrix of its own.\<close>

definition inherit_lists :: "AL_TAvcSeqPar \<Rightarrow> AL_TAvcPps \<Rightarrow> AL_TAvcPps" where
  "inherit_lists sps p = set_pps_scaling p (fold (copy_sps_list sps) [0..<NbScalingList sps] (pps_scaling p))"

definition pps_ref :: "AL_TAvcPps \<Rightarrow> AL_TAvcSeqPar \<Rightarrow> AL_TRbspParser \<Rightarrow> (AL_TAvcPps \<times> AL_TRbspParser) option" where
  "pps_ref p sps = (\<lambda>rp. do {
     (p, rp) \<leftarrow> rd_ue U32 (\<lambda>k. p\<lparr>pps_num_ref_idx_l0_active_minus1 := nat (Clip3 (int k) 0 AL_AVC_MAX_REF_IDX)\<rparr>) rp;
     (p, rp) \<leftarrow> rd_ue U32 (\<lambda>k. p\<lparr>pps_num_ref_idx_l1_active_minus1 := nat (Clip3 (int k) 0 AL_AVC_MAX_REF_IDX)\<rparr>) rp;
     (p, rp) \<leftarrow> rd_u 1 U8 (\<lambda>k. p\<lparr>pps_weighted_pred_flag := k\<rparr>) rp;
     (p, rp) \<leftarrow> rd_u 2 U32 (\<lambda>k. p\<lparr>pps_weighted_bipred_idc := nat (Clip3 (int k) 0 AL_AVC_MAX_WP_IDC)\<rparr>) rp;
     (p, rp) \<leftarrow> rd_se (\<lambda>k. p\<lparr>pps_pic_init_qp_minus26 := Clip3 k (- (26 + 6 * int (sps_bit_depth_luma_minus8 sps))) AL_MAX_INIT_QP\<rparr>) rp;
     rd_se (\<lambda>k. p\<lparr>pps_pic_init_qs_minus26 := Clip3 k AL_MIN_INIT_QP AL_MAX_INIT_QP\<rparr>) rp })"

definition pps_flags :: "AL_TAvcPps \<Rightarrow> AL_TRbspParser \<Rightarrow> (AL_TAvcPps \<times> AL_TRbspParser) option" where
  "pps_flags p = (\<lambda>rp. do {
     (p, rp) \<leftarrow> rd_se (\<lambda>k. let k = Clip3 k AL_MIN_QP_OFFSET AL_MAX_QP_OFFSET in
       p\<lparr>pps_chroma_qp_index_offset := k, pps_second_chroma_qp_index_offset := k\<rparr>) rp;
     (p, rp) \<leftarrow> rd_u 1 U8 (\<lambda>k. p\<lparr>pps_deblocking_filter_control_present_flag := k\<rparr>) rp;
     (p, rp) \<leftarrow> rd_u 1 U8 (\<lambda>k. p\<lparr>pps_constrained_intra_pred_flag := k\<rparr>) rp;
     rd_u 1 U8 (\<lambda>k. p\<lparr>pps_redundant_pic_cnt_present_flag := k\<rparr>) rp })"

definition pps_extension :: "AL_TAvcPps \<Rightarrow> AL_TAvcSeqPar \<Rightarrow> AL_TRbspParser \<Rightarrow> (AL_TAvcPps \<times> AL_TRbspParser) option" where
  "pps_extension p sps = (\<lambda>rp. do {
     (p, rp) \<leftarrow> rd_u 1 U8 (\<lambda>k. p\<lparr>pps_transform_8x8_mode_flag := k\<rparr>) rp;
     (p, rp) \<leftarrow> rd_u 1 U8 (\<lambda>k. p\<lparr>pps_pic_scaling_matrix_present_flag := k\<rparr>) rp;
     (p, rp) \<leftarrow> (if pps_pic_scaling_matrix_present_flag p \<noteq> 0 then do {
         (c, rp) \<leftarrow> for_reads (pps_list_turn sps) [0..<NbPpsLists sps p] (pps_scaling p) rp;
         Some (set_pps_scaling p c, rp) }
       else Some (inherit_lists sps p, rp));
     rd_se (\<lambda>k. p\<lparr>pps_second_chroma_qp_index_offset := Clip3 k AL_MIN_INIT_QP AL_MAX_INIT_QP\<rparr>) rp })"

definition pps_dummy_lists :: "AL_TAvcPps \<Rightarrow> AL_TAvcPps" where
  "pps_dummy_lists p = (if pps_transform_8x8_mode_flag p = 0
     then p\<lparr>pps_UseDefaultScalingMatrix8x8Flag := replicate 6 1\<rparr> else p)"

text \<open>
  The end of the parser, from the extension on, the part between the checks of the sequence
  parameter set and the extension, and the body behind the identifier, on the entry of the table.
\<close>

definition pps_end :: "AL_TAvcSeqPar \<Rightarrow> AL_TAvcPps part" where
  "pps_end sps p = (\<lambda>rp. do {
     (more, rp) \<leftarrow> more_rbsp_data rp;
     (p, rp) \<leftarrow> (if more then pps_extension p sps rp else Some (inherit_lists sps p, rp));
     (ok, rp) \<leftarrow> rbsp_trailing_bits rp;
     Some ((if ok then AL_PARSE_OK else AL_PARSE_CONCEAL, pps_dummy_lists p), rp) })"

definition pps_rest :: "AL_TAvcSeqPar \<Rightarrow> AL_TAvcPps part" where
  "pps_rest sps p = (\<lambda>rp. do {
     (p, rp) \<leftarrow> rd_u 1 U8 (\<lambda>k. p\<lparr>pps_entropy_coding_mode_flag := k\<rparr>) rp;
     (p, rp) \<leftarrow> rd_u 1 U8 (\<lambda>k. p\<lparr>pps_bottom_field_pic_order_in_frame_present_flag := k\<rparr>) rp;
     (p, rp) \<leftarrow> rd_ue U32 (\<lambda>k. p\<lparr>pps_num_slice_groups_minus1 := Clip3 (int k) 0 7\<rparr>) rp;
     if \<not> pps_num_slice_groups_minus1 p = 0 then Some ((AL_PARSE_CONCEAL, p), rp) else do {
     (p, rp) \<leftarrow> pps_ref p sps rp;
     (p, rp) \<leftarrow> pps_flags p rp;
     pps_end sps p rp }})"

definition pps_body :: "AL_TAvcSeqPar list \<Rightarrow> AL_TAvcPps part" where
  "pps_body table p = (\<lambda>rp. do {
     (p, rp) \<leftarrow> rd_ue U8 (\<lambda>k. p\<lparr>pps_seq_parameter_set_id := k\<rparr>) rp;
     if \<not> pps_seq_parameter_set_id p < AL_AVC_MAX_SPS then Some ((AL_PARSE_CONCEAL, p), rp)
     else if sps_bConceal (table ! pps_seq_parameter_set_id p)
     then Some ((AL_PARSE_CONCEAL, p\<lparr>pps_pSPS := pps_seq_parameter_set_id p\<rparr>), rp)
     else pps_rest (table ! pps_seq_parameter_set_id p) (p\<lparr>pps_pSPS := pps_seq_parameter_set_id p\<rparr>) rp })"

text \<open>The result, the tables and \<open>*pPpsId\<close>.\<close>

definition AL_AVC_ParsePPS :: "AL_TAvcAup \<Rightarrow> AL_TRbspParser \<Rightarrow> ((AL_EParseResult \<times> AL_TAvcAup \<times> nat) \<times> AL_TRbspParser) option" where
  "AL_AVC_ParsePPS a = after_header (\<lambda>rp. do {
     (pps_id, rp) \<leftarrow> rd_ue U16 (\<lambda>k. k) rp;
     if \<not> pps_id < AL_AVC_MAX_PPS then Some ((AL_PARSE_CONCEAL, a, pps_id), rp) else do {
     ((r, p), rp) \<leftarrow> pps_body (aup_pSPS a) ((initPps (aup_pPPS a ! pps_id))\<lparr>pps_pic_parameter_set_id := pps_id\<rparr>) rp;
     Some ((r, a\<lparr>aup_pPPS := (aup_pPPS a)[pps_id := p]\<rparr>, pps_id), rp) }})"

section \<open>The round trip\<close>

definition pps_ok :: "AL_TAvcPps \<Rightarrow> AL_TAvcSeqPar \<Rightarrow> bool" where
  "pps_ok e sps \<longleftrightarrow> pps_pic_parameter_set_id e < AL_AVC_MAX_PPS \<and> pps_seq_parameter_set_id e < AL_AVC_MAX_SPS
     \<and> pps_entropy_coding_mode_flag e < 2 \<and> pps_bottom_field_pic_order_in_frame_present_flag e < 2 \<and> pps_num_slice_groups_minus1 e = 0
     \<and> pps_num_ref_idx_l0_active_minus1 e \<le> 15 \<and> pps_num_ref_idx_l1_active_minus1 e \<le> 15
     \<and> pps_weighted_pred_flag e < 2 \<and> pps_weighted_bipred_idc e \<le> 2
     \<and> - (26 + 6 * int (sps_bit_depth_luma_minus8 sps)) \<le> pps_pic_init_qp_minus26 e \<and> pps_pic_init_qp_minus26 e \<le> 25
     \<and> -26 \<le> pps_pic_init_qs_minus26 e \<and> pps_pic_init_qs_minus26 e \<le> 25
     \<and> -12 \<le> pps_chroma_qp_index_offset e \<and> pps_chroma_qp_index_offset e \<le> 12
     \<and> -12 \<le> pps_second_chroma_qp_index_offset e \<and> pps_second_chroma_qp_index_offset e \<le> 12
     \<and> pps_deblocking_filter_control_present_flag e < 2 \<and> pps_constrained_intra_pred_flag e < 2
     \<and> pps_redundant_pic_cnt_present_flag e < 2 \<and> pps_transform_8x8_mode_flag e < 2
     \<and> pps_pic_scaling_matrix_present_flag e = 0 \<and> sps_bit_depth_luma_minus8 sps \<le> 4"

lemma clip_id: "lo \<le> k \<Longrightarrow> k \<le> hi \<Longrightarrow> Clip3 k lo hi = k"
  by (simp add: Clip3_def)

lemma pps_codes:
  assumes "pps_ok e sps"
  shows "\<bar>pps_pic_init_qp_minus26 e\<bar> < 2 ^ 30" "\<bar>pps_pic_init_qs_minus26 e\<bar> < 2 ^ 30"
    "\<bar>pps_chroma_qp_index_offset e\<bar> < 2 ^ 30" "\<bar>pps_second_chroma_qp_index_offset e\<bar> < 2 ^ 30"
proof -
  have b: "- (26 + 6 * int (sps_bit_depth_luma_minus8 sps)) \<le> pps_pic_init_qp_minus26 e" "pps_pic_init_qp_minus26 e \<le> 25"
      "-26 \<le> pps_pic_init_qs_minus26 e" "pps_pic_init_qs_minus26 e \<le> 25" "int (sps_bit_depth_luma_minus8 sps) \<le> 4"
      "-12 \<le> pps_chroma_qp_index_offset e" "pps_chroma_qp_index_offset e \<le> 12"
      "-12 \<le> pps_second_chroma_qp_index_offset e" "pps_second_chroma_qp_index_offset e \<le> 12"
    using assms by (simp_all add: pps_ok_def)
  have "-50 \<le> pps_pic_init_qp_minus26 e" using b(1,5) by linarith
  then show "\<bar>pps_pic_init_qp_minus26 e\<bar> < 2 ^ 30" using b(2) by simp
qed (use assms in \<open>auto simp: pps_ok_def\<close>)

lemma pps_ref_matches:
  assumes "pps_ok e sps"
  shows "matches (write_pps_ref e) (pps_ref p sps) (p\<lparr>pps_num_ref_idx_l0_active_minus1 := pps_num_ref_idx_l0_active_minus1 e,
    pps_num_ref_idx_l1_active_minus1 := pps_num_ref_idx_l1_active_minus1 e, pps_weighted_pred_flag := pps_weighted_pred_flag e,
    pps_weighted_bipred_idc := pps_weighted_bipred_idc e, pps_pic_init_qp_minus26 := pps_pic_init_qp_minus26 e,
    pps_pic_init_qs_minus26 := pps_pic_init_qs_minus26 e\<rparr>)"
  unfolding write_pps_ref_def pps_ref_def
  by (rule matches_eq, (rule matches_rules pps_codes [OF assms] | (use assms in \<open>simp add: pps_ok_def width_defs clip_id AL_AVC_MAX_REF_IDX_def
    AL_AVC_MAX_WP_IDC_def AL_MIN_INIT_QP_def AL_MAX_INIT_QP_def; fail\<close>))+)

lemma pps_flags_matches:
  assumes "pps_ok e sps"
  shows "matches (write_pps_flags e) (pps_flags p) (p\<lparr>pps_chroma_qp_index_offset := pps_chroma_qp_index_offset e,
    pps_second_chroma_qp_index_offset := pps_chroma_qp_index_offset e,
    pps_deblocking_filter_control_present_flag := pps_deblocking_filter_control_present_flag e,
    pps_constrained_intra_pred_flag := pps_constrained_intra_pred_flag e, pps_redundant_pic_cnt_present_flag := pps_redundant_pic_cnt_present_flag e\<rparr>)"
  unfolding write_pps_flags_def pps_flags_def Let_def
  by (rule matches_eq, (rule matches_assert matches_rules pps_codes [OF assms] | (use assms in \<open>simp add: pps_ok_def width_defs clip_id AL_MIN_QP_OFFSET_def AL_MAX_QP_OFFSET_def; fail\<close>))+)

lemma pps_extension_matches:
  assumes e: "pps_ok e sps"
  shows "matches_some (write_pps_extension e sps) (pps_extension p sps)
    ((inherit_lists sps (p\<lparr>pps_transform_8x8_mode_flag := pps_transform_8x8_mode_flag e, pps_pic_scaling_matrix_present_flag := 0\<rparr>))
      \<lparr>pps_second_chroma_qp_index_offset := pps_second_chroma_qp_index_offset e\<rparr>)"
proof -
  have b: "pps_transform_8x8_mode_flag e < 2" "pps_pic_scaling_matrix_present_flag e = 0"
      "-12 \<le> pps_second_chroma_qp_index_offset e" "pps_second_chroma_qp_index_offset e \<le> 12"
    using e by (simp_all add: pps_ok_def)
  have m: "writeScalingMatrix 0 sps = Some" by (simp add: writeScalingMatrix_def)
  have w: "write_pps_extension e sps = (\<lambda>bs. do {
      bs \<leftarrow> wr_u 1 (pps_transform_8x8_mode_flag e) bs;
      bs \<leftarrow> wr_u 1 0 bs;
      wr_se (pps_second_chroma_qp_index_offset e) bs })"
    using b by (simp add: write_pps_extension_def m)
  have c: "Clip3 (pps_second_chroma_qp_index_offset e) AL_MIN_INIT_QP AL_MAX_INIT_QP = pps_second_chroma_qp_index_offset e"
    using b(3,4) by (simp add: Clip3_def AL_MIN_INIT_QP_def AL_MAX_INIT_QP_def)
  have "matches_some (write_pps_extension e sps) (pps_extension p sps)
    ((inherit_lists sps (p\<lparr>pps_transform_8x8_mode_flag := pps_transform_8x8_mode_flag e, pps_pic_scaling_matrix_present_flag := 0\<rparr>))
      \<lparr>pps_second_chroma_qp_index_offset := Clip3 (pps_second_chroma_qp_index_offset e) AL_MIN_INIT_QP AL_MAX_INIT_QP\<rparr>)"
    unfolding w pps_extension_def
    by (rule matches_some_u, (use b in \<open>simp_all add: U8_def\<close>)[4], rule matches_seq, rule matches_u,
      (simp_all add: U8_def)[4], simp, rule matches_se [OF pps_codes(4) [OF e]])
  then show ?thesis unfolding c .
qed

text \<open>
  The entry of the decoder: what the encoder wrote, over the arrays of the old entry \<open>old\<close>, with the
  lists of the sequence parameter set.
\<close>

definition pps_view :: "AL_TAvcPps \<Rightarrow> AL_TAvcSeqPar \<Rightarrow> AL_TAvcPps \<Rightarrow> AL_TAvcPps" where
  "pps_view e sps old = pps_dummy_lists (inherit_lists sps (e\<lparr>
     pps_pic_scaling_list_present_flag := pps_pic_scaling_list_present_flag old,
     pps_ScalingList4x4 := pps_ScalingList4x4 old, pps_ScalingList8x8 := pps_ScalingList8x8 old,
     pps_UseDefaultScalingMatrix4x4Flag := replicate 6 0, pps_UseDefaultScalingMatrix8x8Flag := replicate 6 0,
     pps_pSPS := pps_seq_parameter_set_id e, pps_bConceal := True\<rparr>))"

lemma inherit_second: "(inherit_lists sps p)\<lparr>pps_second_chroma_qp_index_offset := k\<rparr> = inherit_lists sps (p\<lparr>pps_second_chroma_qp_index_offset := k\<rparr>)"
  by (simp add: inherit_lists_def set_pps_scaling_def pps_scaling_def)

lemma pps_end_matches:
  assumes e: "pps_ok e sps" and p: "pps_second_chroma_qp_index_offset p = pps_chroma_qp_index_offset e"
    "pps_transform_8x8_mode_flag p = 0" "pps_pic_scaling_matrix_present_flag p = 0"
  shows "matches_end False (\<lambda>bs. if pps_transform_8x8_mode_flag e \<noteq> 0 \<or> pps_second_chroma_qp_index_offset e \<noteq> pps_chroma_qp_index_offset e
      then write_pps_extension e sps bs else Some bs)
    (pps_end sps p) (AL_PARSE_OK, pps_dummy_lists (inherit_lists sps (p\<lparr>pps_transform_8x8_mode_flag := pps_transform_8x8_mode_flag e,
      pps_second_chroma_qp_index_offset := pps_second_chroma_qp_index_offset e\<rparr>)))"
  unfolding pps_end_def
proof (rule matches_end_more)
  let ?v = "inherit_lists sps (p\<lparr>pps_transform_8x8_mode_flag := pps_transform_8x8_mode_flag e,
      pps_second_chroma_qp_index_offset := pps_second_chroma_qp_index_offset e\<rparr>)"
  have tail: "matches_end False Some (\<lambda>rp. do { (ok, rp) \<leftarrow> rbsp_trailing_bits rp;
      Some ((if ok then AL_PARSE_OK else AL_PARSE_CONCEAL, pps_dummy_lists q), rp) }) (AL_PARSE_OK, pps_dummy_lists q)" for q
    using matches_end_trailing [of "\<lambda>ok. (if ok then AL_PARSE_OK else AL_PARSE_CONCEAL, pps_dummy_lists q)"] by simp
  have "(inherit_lists sps (p\<lparr>pps_transform_8x8_mode_flag := pps_transform_8x8_mode_flag e, pps_pic_scaling_matrix_present_flag := 0\<rparr>))
      \<lparr>pps_second_chroma_qp_index_offset := pps_second_chroma_qp_index_offset e\<rparr> = ?v"
    unfolding inherit_second using p(3) by (cases p) simp
  then have ext: "matches_some (write_pps_extension e sps) (pps_extension p sps) ?v"
    using pps_extension_matches [OF e, of p] by simp
  show "matches_end True (write_pps_extension e sps) (\<lambda>rp. do {
      (p, rp) \<leftarrow> (if True then pps_extension p sps rp else Some (inherit_lists sps p, rp));
      (ok, rp) \<leftarrow> rbsp_trailing_bits rp;
      Some ((if ok then AL_PARSE_OK else AL_PARSE_CONCEAL, pps_dummy_lists p), rp) }) (AL_PARSE_OK, pps_dummy_lists ?v)"
    unfolding if_True by (rule matches_end_some [OF ext tail])
  assume "\<not> (pps_transform_8x8_mode_flag e \<noteq> 0 \<or> pps_second_chroma_qp_index_offset e \<noteq> pps_chroma_qp_index_offset e)"
  then have "inherit_lists sps p = ?v" using p by (cases p) simp
  then show "matches_end False Some (\<lambda>rp. do {
      (p, rp) \<leftarrow> (if False then pps_extension p sps rp else Some (inherit_lists sps p, rp));
      (ok, rp) \<leftarrow> rbsp_trailing_bits rp;
      Some ((if ok then AL_PARSE_OK else AL_PARSE_CONCEAL, pps_dummy_lists p), rp) }) (AL_PARSE_OK, pps_dummy_lists ?v)"
    using tail [of ?v] by simp
qed

lemma pps_rest_matches:
  assumes e: "pps_ok e sps" and p: "pps_transform_8x8_mode_flag p = 0" "pps_pic_scaling_matrix_present_flag p = 0"
    and q: "q = (e\<lparr>pps_pic_parameter_set_id := pps_pic_parameter_set_id p, pps_seq_parameter_set_id := pps_seq_parameter_set_id p,
      pps_pic_scaling_list_present_flag := pps_pic_scaling_list_present_flag p, pps_ScalingList4x4 := pps_ScalingList4x4 p,
      pps_ScalingList8x8 := pps_ScalingList8x8 p, pps_UseDefaultScalingMatrix4x4Flag := pps_UseDefaultScalingMatrix4x4Flag p,
      pps_UseDefaultScalingMatrix8x8Flag := pps_UseDefaultScalingMatrix8x8Flag p, pps_pSPS := pps_pSPS p, pps_bConceal := pps_bConceal p\<rparr>)"
  shows "matches_end False (write_pps_rest e sps) (pps_rest sps p) (AL_PARSE_OK, pps_dummy_lists (inherit_lists sps q))"
proof -
  have b: "pps_entropy_coding_mode_flag e < 2" "pps_num_slice_groups_minus1 e = 0"
      "pps_bottom_field_pic_order_in_frame_present_flag e < 2" "pps_pic_scaling_matrix_present_flag e = 0"
    using e by (simp_all add: pps_ok_def)
  have w: "wr_ue_int 0 = wr_ue 0" by (simp add: wr_ue_int_def wr_ue_def)
  show ?thesis unfolding write_pps_rest_def pps_rest_def b(2) w
    by (rule matches_end_eq, (rule matches_end_seq matches_end_comply matches_end_assert matches_ue matches_u
        pps_ref_matches [OF e] pps_flags_matches [OF e] pps_end_matches [OF e]
      | (use b p in \<open>simp add: width_defs Clip3_def; fail\<close>) | (use b p q in \<open>cases e, cases p, simp add: Clip3_def; fail\<close>))+)
qed

lemma pps_body_matches:
  assumes e: "pps_ok e (table ! pps_seq_parameter_set_id e)" and sps: "\<not> sps_bConceal (table ! pps_seq_parameter_set_id e)"
  shows "matches_end False (\<lambda>bs. do {
      bs \<leftarrow> wr_ue (pps_seq_parameter_set_id e) bs;
      write_pps_rest e (table ! pps_seq_parameter_set_id e) bs })
    (pps_body table ((initPps old)\<lparr>pps_pic_parameter_set_id := pps_pic_parameter_set_id e\<rparr>))
    (AL_PARSE_OK, pps_view e (table ! pps_seq_parameter_set_id e) old)"
proof -
  have b: "pps_seq_parameter_set_id e < 32" using e by (simp add: pps_ok_def AL_AVC_MAX_SPS_def)
  show ?thesis unfolding pps_body_def pps_view_def
    by (rule matches_end_eq, rule matches_end_seq, rule matches_ue, (use b in \<open>simp_all add: U8_def\<close>)[2],
      rule matches_end_comply, (use b in \<open>simp add: AL_AVC_MAX_SPS_def\<close>), rule matches_end_comply, (use sps in simp),
      simp, rule pps_rest_matches [OF e], simp_all add: initPps_def)
qed

lemma write_pps_any_sps: "pps_pic_scaling_matrix_present_flag e = 0 \<Longrightarrow> write_pps_data e s = write_pps_data e t"
proof -
  assume z: "pps_pic_scaling_matrix_present_flag e = 0"
  have "write_pps_extension e s = write_pps_extension e t"
    unfolding write_pps_extension_def z writeScalingMatrix_def by simp
  then show ?thesis unfolding write_pps_data_def write_pps_rest_def by (simp only:)
qed


definition demo_pps :: AL_TAvcPps where
  "demo_pps = \<lparr>pps_pic_parameter_set_id = 5, pps_seq_parameter_set_id = 3, pps_entropy_coding_mode_flag = 1,
     pps_bottom_field_pic_order_in_frame_present_flag = 0, pps_num_slice_groups_minus1 = 0,
     pps_num_ref_idx_l0_active_minus1 = 3, pps_num_ref_idx_l1_active_minus1 = 1, pps_weighted_pred_flag = 1,
     pps_weighted_bipred_idc = 2, pps_pic_init_qp_minus26 = -3, pps_pic_init_qs_minus26 = 0,
     pps_chroma_qp_index_offset = -2, pps_second_chroma_qp_index_offset = 4, pps_deblocking_filter_control_present_flag = 1,
     pps_constrained_intra_pred_flag = 0, pps_redundant_pic_cnt_present_flag = 0, pps_transform_8x8_mode_flag = 1,
     pps_pic_scaling_matrix_present_flag = 0, pps_pic_scaling_list_present_flag = replicate 12 0,
     pps_ScalingList4x4 = replicate 6 (replicate 16 0), pps_ScalingList8x8 = replicate 6 (replicate 64 0),
     pps_UseDefaultScalingMatrix4x4Flag = replicate 6 0, pps_UseDefaultScalingMatrix8x8Flag = replicate 6 0,
     pps_pSPS = 3, pps_bConceal = False\<rparr>"

definition demo_aup :: AL_TAvcAup where
  "demo_aup = \<lparr>aup_pSPS = (replicate 32 initSps)[3 := sps_view demo_enc], aup_pPPS = replicate 256 demo_pps\<rparr>"


end
