(* ===== verification/Avc_Type.thy ===== *)
theory Avc_Type
  imports Avc_SpsProps
begin

text \<open>
  What holds of a sequence parameter set that the parser accepts, whatever the bits it was read from:
  the ranges on which the decoder relies, and scaling lists without a zero.
\<close>

section \<open>Values that a parser may yield\<close>

text \<open>
  \<open>yields p Q\<close>: every value that \<open>p\<close> returns has the property \<open>Q\<close>, on any input. The rules run a
  parser step by step.
\<close>

definition yields :: "(AL_TRbspParser \<Rightarrow> ('a \<times> AL_TRbspParser) option) \<Rightarrow> ('a \<Rightarrow> bool) \<Rightarrow> bool" where
  "yields p Q \<longleftrightarrow> (\<forall>rp v rp'. p rp = Some (v, rp') \<longrightarrow> Q v)"

lemma yieldsD: "yields p Q \<Longrightarrow> p rp = Some (v, rp') \<Longrightarrow> Q v"
  unfolding yields_def by blast

lemma yields_mono: "yields p P \<Longrightarrow> (\<And>v. P v \<Longrightarrow> Q v) \<Longrightarrow> yields p Q"
  by (simp add: yields_def)

lemma yields_bind:
  assumes "yields p P" "\<And>v. P v \<Longrightarrow> yields (q v) Q"
  shows "yields (\<lambda>rp. do { (a, rp) \<leftarrow> p rp; q a rp }) Q"
  using assms by (force simp: yields_def split: bind_splits)

lemma yields_done: "Q v \<Longrightarrow> yields (\<lambda>rp. Some (v, rp)) Q"
  by (simp add: yields_def)

lemma yields_if:
  assumes "c \<Longrightarrow> yields p Q" "\<not> c \<Longrightarrow> yields q Q"
  shows "yields (\<lambda>rp. if c then p rp else q rp) Q"
  using assms by (cases c) simp_all

lemma yields_rd_u: "(\<And>k. k < m \<Longrightarrow> Q (F k)) \<Longrightarrow> 0 < m \<Longrightarrow> yields (rd_u n m F) Q"
  by (auto simp: yields_def rd_u_def split: bind_splits)

lemma yields_rd_ue: "(\<And>k. k < m \<Longrightarrow> Q (F k)) \<Longrightarrow> 0 < m \<Longrightarrow> yields (rd_ue m F) Q"
  by (auto simp: yields_def rd_ue_def split: bind_splits)

lemma yields_rd_ue_int: "(\<And>i. - (2 ^ 31) \<le> i \<Longrightarrow> i < 2 ^ 31 \<Longrightarrow> Q (F i)) \<Longrightarrow> yields (rd_ue_int F) Q"
  using sint_ge [where 'a = 32] sint_lt [where 'a = 32] by (auto simp: yields_def rd_ue_int_def split: bind_splits)

lemma yields_rd_se: "(\<And>i. Q (F i)) \<Longrightarrow> yields (rd_se F) Q"
  by (auto simp: yields_def rd_se_def split: bind_splits)

lemma yields_rd_skip: "Q () \<Longrightarrow> yields (rd_skip n) Q"
  by (auto simp: yields_def rd_skip_def split: bind_splits)

lemmas yields_rd = yields_rd_u yields_rd_ue yields_rd_ue_int yields_rd_se yields_rd_skip

text \<open>The next element is read into a field and the rest of the parser goes on from there.\<close>

lemma yields_u: "(\<And>k. k < m \<Longrightarrow> yields (q (F k)) Q) \<Longrightarrow> 0 < m \<Longrightarrow> yields (\<lambda>rp. do { (a, rp) \<leftarrow> rd_u n m F rp; q a rp }) Q"
  by (rule yields_bind [where P = "\<lambda>v. yields (q v) Q" and q = q]) (auto intro: yields_rd)

lemma yields_ue: "(\<And>k. k < m \<Longrightarrow> yields (q (F k)) Q) \<Longrightarrow> 0 < m \<Longrightarrow> yields (\<lambda>rp. do { (a, rp) \<leftarrow> rd_ue m F rp; q a rp }) Q"
  by (rule yields_bind [where P = "\<lambda>v. yields (q v) Q" and q = q]) (auto intro: yields_rd)

lemma yields_ue_int: "(\<And>i. - (2 ^ 31) \<le> i \<Longrightarrow> i < 2 ^ 31 \<Longrightarrow> yields (q (F i)) Q) \<Longrightarrow> yields (\<lambda>rp. do { (a, rp) \<leftarrow> rd_ue_int F rp; q a rp }) Q"
  by (rule yields_bind [where P = "\<lambda>v. yields (q v) Q" and q = q]) (auto intro: yields_rd)

lemma yields_se: "(\<And>i. yields (q (F i)) Q) \<Longrightarrow> yields (\<lambda>rp. do { (a, rp) \<leftarrow> rd_se F rp; q a rp }) Q"
  by (rule yields_bind [where P = "\<lambda>v. yields (q v) Q" and q = q]) (auto intro: yields_rd)

lemma yields_skip: "yields (q ()) Q \<Longrightarrow> yields (\<lambda>rp. do { (a, rp) \<leftarrow> rd_skip n rp; q a rp }) Q"
  by (rule yields_bind [where P = "\<lambda>v. yields (q v) Q" and q = q]) (auto intro: yields_rd)

lemma yields_nest:
  assumes "yields p (\<lambda>v. yields (q v) Q)"
  shows "yields (\<lambda>rp. do { (a, rp) \<leftarrow> p rp; q a rp }) Q"
  by (rule yields_bind [where q = q, OF assms])

text \<open>An element that is only there under a condition.\<close>

lemma yields_optional:
  assumes "c \<Longrightarrow> yields (\<lambda>rp. do { (a, rp) \<leftarrow> p rp; q a rp }) Q" "\<not> c \<Longrightarrow> yields (q v) Q"
  shows "yields (\<lambda>rp. do { (a, rp) \<leftarrow> (if c then p rp else Some (v, rp)); q a rp }) Q"
  using assms by (cases c) simp_all

lemmas yields_rules = yields_optional yields_u yields_ue yields_ue_int yields_se yields_skip yields_if yields_done yields_rd

lemma yields_for:
  assumes "I 0 s" "\<And>i s. i < n \<Longrightarrow> I i s \<Longrightarrow> yields (body i s) (I (Suc i))"
  shows "yields (for_reads body [0..<n] s) (I n)"
proof -
  have "m \<le> n \<Longrightarrow> I m s \<Longrightarrow> yields (for_reads body [m..<n] s) (I n)" for m s
  proof (induction "n - m" arbitrary: m s)
    case 0
    then have "for_reads body [m..<n] s = (\<lambda>rp. Some (s, rp))" "m = n" by (simp_all add: fun_eq_iff)
    then show ?case using 0 by (simp add: yields_done)
  next
    case (Suc k)
    then have e: "[m..<n] = m # [Suc m..<n]" by (simp add: upt_conv_Cons)
    have f: "for_reads body [m..<n] s = (\<lambda>rp. do { (s, rp) \<leftarrow> body m s rp; for_reads body [Suc m..<n] s rp })"
      by (simp add: fun_eq_iff e)
    show ?case unfolding f
      by (rule yields_bind [where q = "for_reads body [Suc m..<n]", OF assms(2)]) (use Suc in auto)
  qed
  then show ?thesis using assms(1) by simp
qed

lemma yields_parts:
  assumes "yields (p s) (\<lambda>(r, s'). r = AL_PARSE_OK \<longrightarrow> P s')" "\<And>s'. P s' \<Longrightarrow> yields (parts ps s') (\<lambda>(r, s'). r = AL_PARSE_OK \<longrightarrow> Q s')"
  shows "yields (parts (p # ps) s) (\<lambda>(r, s'). r = AL_PARSE_OK \<longrightarrow> Q s')"
  using assms by (force simp: yields_def split: bind_splits if_splits)

section \<open>Scaling lists\<close>

text \<open>A list without a zero, and a list that the decoder may use: its own, or the default one.\<close>

definition nonzero_list :: "nat list \<Rightarrow> bool" where
  "nonzero_list xs \<longleftrightarrow> (\<forall>x \<in> set xs. 0 < x \<and> x < 256)"

definition usable :: "scaling \<Rightarrow> nat \<Rightarrow> bool" where
  "usable c i \<longleftrightarrow> (if i < 6 then sc_default4x4 c ! i \<noteq> 0 \<or> nonzero_list (sc_4x4 c ! i)
     else sc_default8x8 c ! (i - 6) \<noteq> 0 \<or> nonzero_list (sc_8x8 c ! (i - 6)))"

definition scaling_shape :: "scaling \<Rightarrow> bool" where
  "scaling_shape c \<longleftrightarrow> scaling_ok c \<and> length (sc_default4x4 c) = 6 \<and> length (sc_default8x8 c) = 6"

definition scanned :: "nat list \<Rightarrow> nat \<Rightarrow> nat \<Rightarrow> nat list \<times> nat \<times> int \<times> int \<Rightarrow> bool" where
  "scanned scan n j = (\<lambda>(xs, flag, iLastScale, iNextScale). length xs = n \<and> (\<forall>i < j. 0 < xs ! (scan ! i) \<and> xs ! (scan ! i) < 256)
     \<and> 0 < iLastScale \<and> iLastScale < 256 \<and> 0 \<le> iNextScale \<and> iNextScale < 256)"

lemma scaling_turn_yields:
  assumes "scanned scan n j st" "j < length scan" "set scan = {0..<n}"
  shows "yields (scaling_turn scan j st) (scanned scan n (Suc j))"
proof -
  obtain xs flag lst nxt where st: "st = (xs, flag, lst, nxt)" by (cases st)
  have i: "scan ! j < n" using assms(2,3) nth_mem [of j scan] by auto
  have upd: "scanned scan n (Suc j) (xs[scan ! j := nat v], f, v, nx)" if "0 < v" "v < 256" "0 \<le> nx" "nx < 256" for v f nx
    using assms(1) that i by (auto simp: scanned_def st nth_list_update less_Suc_eq nat_less_iff)
  show ?thesis unfolding scaling_turn_def st Let_def prod.case
    by (rule yields_bind [where P = "\<lambda>(f, nx). 0 \<le> nx \<and> nx < 256"])
      (use assms(1) upd in \<open>auto intro!: yields_if yields_rd yields_done simp: scanned_def st\<close>)
qed

lemma scaling_list_yields:
  assumes "length xs = n" "n = 16 \<or> n = 64"
  shows "yields (avc_scaling_list_data xs n flag) (\<lambda>(l, f). length l = n \<and> nonzero_list l)"
proof -
  let ?scan = "if n = 16 then DecScanBlock4x4 else DecScanBlock8x8"
  have scan: "set ?scan = {0..<n}" "length ?scan = n" using assms(2) scan_sets by auto
  have loop: "yields (for_reads (scaling_turn ?scan) [0..<n] (xs, flag, 8, 8)) (scanned ?scan n n)"
    by (rule yields_for) (use assms scan in \<open>auto simp: scanned_def [of _ _ 0] intro: scaling_turn_yields\<close>)
  have "nonzero_list l" if "scanned ?scan n n (l, f, a, b)" for l f a b
  proof -
    have l: "length l = n" "\<And>i. i < n \<Longrightarrow> 0 < l ! (?scan ! i) \<and> l ! (?scan ! i) < 256"
      using that unfolding scanned_def by blast+
    have "0 < l ! k \<and> l ! k < 256" if "k < n" for k
    proof -
      have "k \<in> set ?scan" using scan(1) that by simp
      then obtain i where "i < n" "?scan ! i = k" using scan(2) by (auto simp: in_set_conv_nth)
      then show ?thesis using l(2) by blast
    qed
    then show ?thesis using l(1) by (auto simp: nonzero_list_def in_set_conv_nth)
  qed
  then show ?thesis unfolding avc_scaling_list_data_def Let_def
    by (intro yields_bind [OF loop]) (auto intro!: yields_done simp: scanned_def)
qed

text \<open>The lists up to \<open>n\<close> may be used.\<close>

definition lists_upto :: "nat \<Rightarrow> scaling \<Rightarrow> bool" where
  "lists_upto n c \<longleftrightarrow> scaling_shape c \<and> (\<forall>i < n. usable c i)"

lemma lists_upto_step:
  assumes "lists_upto i c" "scaling_shape c'" "usable c' i" "\<And>j. j < i \<Longrightarrow> usable c j \<Longrightarrow> usable c' j"
  shows "lists_upto (Suc i) c'"
  using assms by (auto simp: lists_upto_def less_Suc_eq)

lemma lists_upto_shape:
  "lists_upto i c \<Longrightarrow> length (sc_4x4 c) = 6 \<and> length (sc_8x8 c) = 6 \<and> length (sc_default4x4 c) = 6 \<and> length (sc_default8x8 c) = 6
     \<and> length (sc_present c) = 12 \<and> (\<forall>i < 6. length (sc_4x4 c ! i) = 16) \<and> (\<forall>i < 6. length (sc_8x8 c ! i) = 64)"
  by (simp add: lists_upto_def scaling_shape_def scaling_ok_def)

lemma set_list_usable:
  assumes "lists_upto i c" "i < 12" "length l = (if i < 6 then 16 else 64)" "nonzero_list l"
  shows "i < 6 \<Longrightarrow> lists_upto (Suc i) (c\<lparr>sc_4x4 := (sc_4x4 c)[i := l], sc_default4x4 := (sc_default4x4 c)[i := f]\<rparr>)"
    "i < 6 \<Longrightarrow> lists_upto (Suc i) (c\<lparr>sc_4x4 := (sc_4x4 c)[i := l]\<rparr>)"
    "\<not> i < 6 \<Longrightarrow> lists_upto (Suc i) (c\<lparr>sc_8x8 := (sc_8x8 c)[i - 6 := l], sc_default8x8 := (sc_default8x8 c)[i - 6 := f]\<rparr>)"
    "\<not> i < 6 \<Longrightarrow> lists_upto (Suc i) (c\<lparr>sc_8x8 := (sc_8x8 c)[i - 6 := l]\<rparr>)"
  using assms(2-) lists_upto_shape [OF assms(1)]
  by (auto intro!: lists_upto_step [OF assms(1)] simp: scaling_shape_def scaling_ok_def usable_def nth_list_update)

lemma set_default_usable:
  assumes "lists_upto i c" "i < 12"
  shows "i < 6 \<Longrightarrow> lists_upto (Suc i) (c\<lparr>sc_default4x4 := (sc_default4x4 c)[i := 1]\<rparr>)"
    "\<not> i < 6 \<Longrightarrow> lists_upto (Suc i) (c\<lparr>sc_default8x8 := (sc_default8x8 c)[i - 6 := 1]\<rparr>)"
  using assms(2-) lists_upto_shape [OF assms(1)]
  by (auto intro!: lists_upto_step [OF assms(1)] simp: scaling_shape_def scaling_ok_def usable_def nth_list_update)

lemma read_list_yields:
  assumes "lists_upto i c" "i < 12"
  shows "yields (read_list i c) (lists_upto (Suc i))"
proof -
  show ?thesis unfolding read_list_def
    by (rule yields_if; rule yields_bind, rule scaling_list_yields)
      (use assms lists_upto_shape [OF assms(1)] in \<open>auto intro!: yields_done set_list_usable\<close>)
qed

lemma propagate_usable:
  assumes "lists_upto i c" "i < 12"
  shows "lists_upto (Suc i) (propagate_scaling_list i c)"
proof -
  have a: "sc_default4x4 c ! (i - 1) \<noteq> 0 \<or> nonzero_list (sc_4x4 c ! (i - 1))" if "i < 6" "i \<noteq> 0"
  proof -
    have "usable c (i - 1)" "i - 1 < 6" using assms(1) that by (simp_all add: lists_upto_def)
    then show ?thesis by (simp only: usable_def if_True)
  qed
  have b: "sc_default8x8 c ! (i - 8) \<noteq> 0 \<or> nonzero_list (sc_8x8 c ! (i - 8))" if "\<not> i < 8"
  proof -
    have "usable c (i - 2)" "\<not> i - 2 < 6" "i - 2 - 6 = i - 8" using assms(1) that by (simp_all add: lists_upto_def)
    then show ?thesis by (simp only: usable_def if_False)
  qed
  note d = set_default_usable [OF assms] and l = set_list_usable(2,4) [OF assms] and s = lists_upto_shape [OF assms(1)]
  show ?thesis
  proof (cases "i < 6")
    case True
    have "lists_upto (Suc i) (c\<lparr>sc_4x4 := (sc_4x4 c)[i := sc_4x4 c ! (i - 1)]\<rparr>)" if "i \<noteq> 0" "sc_default4x4 c ! (i - 1) = 0"
      by (rule l(1)) (use a that True s in auto)
    then show ?thesis using d(1) True unfolding propagate_scaling_list_def by presburger
  next
    case False
    have "lists_upto (Suc i) (c\<lparr>sc_8x8 := (sc_8x8 c)[i - 6 := sc_8x8 c ! (i - 8)]\<rparr>)" if "\<not> i < 8" "sc_default8x8 c ! (i - 8) = 0"
      by (rule l(2)) (use b that False s assms(2) in auto)
    then show ?thesis using d(2) False unfolding propagate_scaling_list_def by presburger
  qed
qed

lemma lists_upto_present: "lists_upto n c \<Longrightarrow> lists_upto n (c\<lparr>sc_present := (sc_present c)[i := k]\<rparr>)"
  by (auto simp: lists_upto_def scaling_shape_def scaling_ok_def usable_def)

lemma sps_list_turn_yields:
  assumes "lists_upto i c" "i < 12"
  shows "yields (sps_list_turn i c) (lists_upto (Suc i))"
  unfolding sps_list_turn_def
  by (rule yields_u, rule yields_if) (use assms in \<open>auto intro!: yields_done propagate_usable read_list_yields lists_upto_present simp: U8_def\<close>)

lemma flat_list_usable:
  assumes "lists_upto i c" "i < 12"
  shows "lists_upto (Suc i) (flat_list i c)"
  using assms set_list_usable(2,4) [OF assms] by (simp add: flat_list_def nonzero_list_def)

lemma flat_lists_usable: "lists_upto 0 c \<Longrightarrow> n \<le> 12 \<Longrightarrow> lists_upto n (fold flat_list [0..<n] c)"
  by (induction n) (auto intro: flat_list_usable)

lemma sps_matrix_yields:
  assumes "scaling_shape (sps_scaling s)"
  shows "yields (sps_matrix s) (\<lambda>s'. \<exists>c. s' = set_sps_scaling s c \<and> lists_upto (NbScalingList s) c)"
proof -
  have z: "lists_upto 0 (sps_scaling s)" using assms by (simp add: lists_upto_def)
  have n: "NbScalingList s \<le> 12" by (rule NbScalingList_le)
  have loop: "yields (for_reads sps_list_turn [0..<NbScalingList s] (sps_scaling s)) (lists_upto (NbScalingList s))"
    by (rule yields_for [where I = lists_upto, OF z]) (use n sps_list_turn_yields in auto)
  show ?thesis unfolding sps_matrix_def
    by (rule yields_if, rule yields_bind [OF loop]) (use flat_lists_usable [OF z n] in \<open>auto intro!: yields_done\<close>)
qed

section \<open>Usability information\<close>

text \<open>An element of 2 to 24 bits is below the power of two, also where the input has ended.\<close>

lemma u_below:
  assumes "u rp n = Some (w, rp')" "1 < n" "n \<le> 24"
  shows "unat w < 2 ^ n"
proof -
  have "unat (x AND mask n :: u32) < 2 ^ n" for x
    by (simp add: unsigned_take_bit_eq flip: take_bit_eq_mask)
  moreover have "push_bit n 1 - 1 = (mask n :: u32)" by (simp add: mask_eq_decr_exp push_bit_eq_mult)
  ultimately show ?thesis using assms(1-3) by (auto simp: u_def split: if_splits bind_splits)
qed

lemma yields_rd_bits:
  assumes "1 < n" "n \<le> 24" "2 ^ n \<le> m" "\<And>k. k < 2 ^ n \<Longrightarrow> Q (F k)"
  shows "yields (rd_u n m F) Q"
  unfolding yields_def rd_u_def
proof (intro allI impI)
  fix rp v rp'
  assume "(do { (w, rp) \<leftarrow> u rp n; Some (F (unat w mod m), rp) }) = Some (v, rp')"
  then obtain w where w: "u rp n = Some (w, rp')" "v = F (unat w mod m)" by (auto split: bind_splits)
  have "unat w < 2 ^ n" by (rule u_below [OF w(1) assms(1,2)])
  then have "unat w mod m < 2 ^ n" using mod_less_eq_dividend [of "unat w" m] by linarith
  then show "Q v" unfolding w(2) by (rule assms(4))
qed

lemma yields_bits:
  assumes "1 < n" "n \<le> 24" "2 ^ n \<le> m" "\<And>k. k < 2 ^ n \<Longrightarrow> yields (q (F k)) Q"
  shows "yields (\<lambda>rp. do { (a, rp) \<leftarrow> rd_u n m F rp; q a rp }) Q"
  by (rule yields_bind [where q = q, OF yields_rd_bits [where Q = "\<lambda>v. yields (q v) Q"]]) (use assms in auto)

definition sub_shape :: "AL_TSubHrdParam \<Rightarrow> bool" where
  "sub_shape sub \<longleftrightarrow> length (shrd_bit_rate_value_minus1 sub) = MAX_NUM_CPB \<and> length (shrd_cpb_size_value_minus1 sub) = MAX_NUM_CPB
     \<and> length (shrd_cbr_flag sub) = MAX_NUM_CPB"

definition hrd_good :: "AL_THrdParam \<Rightarrow> bool" where
  "hrd_good h \<longleftrightarrow> length (hrd_cpb_cnt_minus1 h) = 8 \<and> hrd_cpb_cnt_minus1 h ! 0 < MAX_NUM_CPB
     \<and> hrd_initial_cpb_removal_delay_length_minus1 h < 32 \<and> hrd_au_cpb_removal_delay_length_minus1 h < 32
     \<and> hrd_dpb_output_delay_length_minus1 h < 32 \<and> hrd_time_offset_length h < 32
     \<and> sub_shape (hrd_nal_sub_hrd_param h) \<and> sub_shape (hrd_vcl_sub_hrd_param h)"

lemma avc_hrd_yields:
  assumes "hrd_good h"
  shows "yields (avc_hrd_parameters h sub) (\<lambda>(ok, h', sub'). ok \<longrightarrow> sub_shape sub' \<and> hrd_good h')"
proof -
  have loop: "yields (for_reads hrd_turn [0..<n] (hrd_reset sub)) sub_shape" for n
    by (rule yields_for [where I = "\<lambda>_. sub_shape"])
      (auto simp: sub_shape_def hrd_reset_def hrd_turn_def width_defs intro!: yields_rules)
  show ?thesis unfolding avc_hrd_parameters_def
    by (rule yields_ue, rule yields_if, rule yields_done, simp, rule yields_bits, simp, simp, simp add: U8_def,
        rule yields_bits, simp, simp, simp add: U8_def, rule yields_bind [OF loop],
        (rule yields_bits, simp, simp, simp add: U8_def)+, rule yields_rd_bits, simp, simp, simp add: U8_def)
      (use assms in \<open>auto simp: hrd_good_def MAX_NUM_CPB_def U32_def\<close>)
qed

lemma vui_hrd_yields:
  assumes "hrd_good (vui_hrd_param v)"
  shows "yields (vui_hrd v) (\<lambda>(ok, v'). ok \<longrightarrow> hrd_good (vui_hrd_param v'))"
proof -
  have flag: "hrd_good h \<Longrightarrow> hrd_good (h\<lparr>hrd_nal_hrd_parameters_present_flag := k\<rparr>)"
    "hrd_good h \<Longrightarrow> hrd_good (h\<lparr>hrd_vcl_hrd_parameters_present_flag := k\<rparr>)" for h k
    by (simp_all add: hrd_good_def)
  have nal: "yields (vui_nal_hrd h) (\<lambda>(ok, h'). ok \<longrightarrow> hrd_good h')" if "hrd_good h" for h
    unfolding vui_nal_hrd_def
    by (rule yields_u, rule yields_if, rule yields_bind, rule avc_hrd_yields)
      (use that flag in \<open>auto intro!: yields_done simp: hrd_good_def U8_def\<close>)
  have vcl: "yields (vui_vcl_hrd h) (\<lambda>(ok, h'). ok \<longrightarrow> hrd_good h')" if "hrd_good h" for h
    unfolding vui_vcl_hrd_def
    by (rule yields_u, rule yields_if, rule yields_bind, rule avc_hrd_yields)
      (use that flag in \<open>auto intro!: yields_done simp: hrd_good_def U8_def\<close>)
  show ?thesis unfolding vui_hrd_def
    by (rule yields_bind [OF nal [OF assms]]) (auto intro!: yields_if yields_done yields_bind [OF vcl] yields_rd simp: U8_def)
qed

lemma avc_vui_yields:
  assumes "hrd_good (vui_hrd_param v)"
  shows "yields (avc_vui_parameters v) (\<lambda>(ok, v'). ok \<longrightarrow> hrd_good (vui_hrd_param v'))"
proof -
  let ?I = "\<lambda>v. hrd_good (vui_hrd_param v)"
  have p: "yields (vui_picture v) ?I" if "?I v" for v
    unfolding vui_picture_def by (rule yields_u, rule yields_bind [where P = ?I]) (use that in \<open>auto intro!: yields_rules simp: width_defs\<close>)
  have s: "yields (vui_signal v) ?I" if "?I v" for v
    unfolding vui_signal_def by (auto intro!: yields_rules simp: width_defs that)
  have t: "yields (vui_timing v) ?I" if "?I v" for v
    unfolding vui_timing_def by (rule yields_u, rule yields_bind [where P = ?I]) (use that in \<open>auto intro!: yields_rules simp: width_defs\<close>)
  have r: "yields (vui_restriction v) ?I" if "?I v" for v
    unfolding vui_restriction_def by (auto intro!: yields_rules simp: width_defs that)
  show ?thesis unfolding avc_vui_parameters_def
    by (rule yields_bind [OF p [OF assms]], rule yields_bind [OF s], assumption, rule yields_bind [OF t], assumption,
        rule yields_bind [OF vui_hrd_yields], assumption) (auto intro!: yields_if yields_done yields_bind [OF r])
qed

section \<open>The sequence parameter set\<close>

definition chroma_good :: "AL_TAvcSeqPar \<Rightarrow> bool" where
  "chroma_good s \<longleftrightarrow> sps_chroma_format_idc s < AL_CHROMA_MAX_ENUM \<and> sps_bit_depth_luma_minus8 s \<le> 4 \<and> sps_bit_depth_chroma_minus8 s \<le> 4
     \<and> (sps_chroma_format_idc s \<noteq> 3 \<longrightarrow> sps_separate_colour_plane_flag s = 0)
     \<and> scaling_shape (sps_scaling s)
     \<and> (sps_seq_scaling_matrix_present_flag s \<noteq> 0 \<longrightarrow> lists_upto (NbScalingList s) (sps_scaling s))"

definition order_good :: "AL_TAvcSeqPar \<Rightarrow> bool" where
  "order_good s \<longleftrightarrow> sps_log2_max_frame_num_minus4 s \<le> MAX_FRAME_NUM \<and> sps_pic_order_cnt_type s \<le> MAX_POC_TYPE
     \<and> sps_log2_max_pic_order_cnt_lsb_minus4 s \<le> MAX_POC_LSB_MINUS_4
     \<and> sps_num_ref_frames_in_pic_order_cnt_cycle s < length (sps_offset_for_ref_frame s) \<and> length (sps_offset_for_ref_frame s) = 256"

definition profile_good :: "AL_TAvcSeqPar \<Rightarrow> bool" where
  "profile_good s \<longleftrightarrow> sps_seq_parameter_set_id s < AL_AVC_MAX_SPS
     \<and> (isProfileSupported (sps_profile_idc s) \<or> sps_constraint_set1_flag s \<noteq> 0)"

definition frame_good :: "AL_TAvcSeqPar \<Rightarrow> bool" where
  "frame_good s \<longleftrightarrow> sps_max_num_ref_frames s \<le> 16
     \<and> 1 \<le> sps_pic_width_in_mbs_minus1 s \<and> sps_pic_width_in_mbs_minus1 s < 65536
     \<and> 1 \<le> sps_pic_height_in_map_units_minus1 s \<and> sps_pic_height_in_map_units_minus1 s < 65536
     \<and> (sps_frame_mbs_only_flag s = 0 \<longrightarrow> sps_mb_adaptive_frame_field_flag s = 0)"

definition crop_good :: "AL_TAvcSeqPar \<Rightarrow> bool" where
  "crop_good s \<longleftrightarrow> (\<forall>x \<in> {sps_frame_crop_left_offset s, sps_frame_crop_right_offset s, sps_frame_crop_top_offset s, sps_frame_crop_bottom_offset s}.
     - (2 ^ 31) \<le> x \<and> x < 2 ^ 31)"

definition vui_good :: "AL_TAvcSeqPar \<Rightarrow> bool" where
  "vui_good s \<longleftrightarrow> hrd_good (vui_hrd_param (sps_vui_param s))"

lemmas good_defs = chroma_good_def order_good_def profile_good_def frame_good_def crop_good_def vui_good_def

text \<open>What holds from the start, and of every set between two parts.\<close>

definition sps_common :: "AL_TAvcSeqPar \<Rightarrow> bool" where
  "sps_common s \<longleftrightarrow> chroma_good s \<and> order_good s \<and> crop_good s \<and> vui_good s"

lemma initSps_common: "sps_common initSps" "sps_mb_adaptive_frame_field_flag initSps = 0" "sps_seq_scaling_matrix_present_flag initSps = 0"
  "sps_separate_colour_plane_flag initSps = 0"
proof -
  have "sub_shape zero_shrd" by (simp add: sub_shape_def zero_shrd_def Let_def)
  then show "sps_common initSps"
    by (simp add: sps_common_def good_defs initSps_def zero_sps_def zero_vui_def zero_hrd_def Let_def hrd_good_def scaling_shape_def
        scaling_ok_def sps_scaling_def AL_CHROMA_MAX_ENUM_def MAX_NUM_CPB_def)
qed (simp_all add: initSps_def zero_sps_def)

abbreviation accepted :: "(AL_TAvcSeqPar \<Rightarrow> bool) \<Rightarrow> AL_EParseResult \<times> AL_TAvcSeqPar \<Rightarrow> bool" where
  "accepted P \<equiv> \<lambda>(r, s). r = AL_PARSE_OK \<longrightarrow> P s"

definition after_profile :: "AL_TAvcSeqPar \<Rightarrow> bool" where
  "after_profile s \<longleftrightarrow> sps_common s \<and> profile_good s \<and> sps_mb_adaptive_frame_field_flag s = 0
     \<and> sps_seq_scaling_matrix_present_flag s = 0 \<and> sps_separate_colour_plane_flag s = 0"

definition after_chroma :: "AL_TAvcSeqPar \<Rightarrow> bool" where
  "after_chroma s \<longleftrightarrow> sps_common s \<and> profile_good s \<and> sps_mb_adaptive_frame_field_flag s = 0"

definition after_frame :: "AL_TAvcSeqPar \<Rightarrow> bool" where
  "after_frame s \<longleftrightarrow> sps_common s \<and> profile_good s \<and> frame_good s"

lemma profile_yields: "yields (sps_profile initSps) (accepted after_profile)"
  unfolding sps_profile_def
  by ((rule yields_u yields_ue yields_skip yields_if yields_done | (simp add: width_defs; fail)
    | (use initSps_common in \<open>simp add: after_profile_def sps_common_def good_defs sps_scaling_def NbScalingList_def; fail\<close>))+)

lemma chroma_yields:
  assumes "after_profile s"
  shows "yields (sps_chroma s) (accepted after_chroma)"
proof -
  have shape: "scaling_shape (sps_scaling s)" using assms by (simp add: after_profile_def sps_common_def chroma_good_def)
  have depth: "nat (Clip3 (int k) 0 MAX_BIT_DEPTH_MINUS_8) \<le> 4" for k by (simp add: Clip3_def MAX_BIT_DEPTH_MINUS_8_def)
  have scal: "sps_scaling (set_sps_scaling t c) = c" for t c by (simp add: sps_scaling_def set_sps_scaling_def)
  have flags: "sps_scaling (t\<lparr>sps_chroma_format_idc := a\<rparr>) = sps_scaling t" "sps_scaling (t\<lparr>sps_separate_colour_plane_flag := a\<rparr>) = sps_scaling t"
    "sps_scaling (t\<lparr>sps_bit_depth_luma_minus8 := a\<rparr>) = sps_scaling t" "sps_scaling (t\<lparr>sps_bit_depth_chroma_minus8 := a\<rparr>) = sps_scaling t"
    "sps_scaling (t\<lparr>sps_qpprime_y_zero_transform_bypass_flag := a\<rparr>) = sps_scaling t"
    "sps_scaling (t\<lparr>sps_seq_scaling_matrix_present_flag := a\<rparr>) = sps_scaling t" for t a
    by (simp_all add: sps_scaling_def)
  have done_if: "accepted after_chroma (AL_PARSE_OK, set_sps_scaling t c)"
    if "lists_upto (NbScalingList t) c" "sps_chroma_format_idc t < AL_CHROMA_MAX_ENUM" "sps_bit_depth_luma_minus8 t \<le> 4"
      "sps_bit_depth_chroma_minus8 t \<le> 4" "sps_chroma_format_idc t \<noteq> 3 \<longrightarrow> sps_separate_colour_plane_flag t = 0"
      "order_good t" "crop_good t" "vui_good t" "profile_good t" "sps_mb_adaptive_frame_field_flag t = 0" for t c
  proof -
    have "NbScalingList (set_sps_scaling t c) = NbScalingList t" by (simp add: NbScalingList_def set_sps_scaling_def)
    then have "chroma_good (set_sps_scaling t c)"
      using that(1-5) unfolding chroma_good_def scal by (simp add: set_sps_scaling_def lists_upto_def)
    moreover have "order_good (set_sps_scaling t c)" "crop_good (set_sps_scaling t c)" "vui_good (set_sps_scaling t c)"
      "profile_good (set_sps_scaling t c)"
      using that(6-9) by (simp_all add: order_good_def crop_good_def vui_good_def profile_good_def set_sps_scaling_def)
    ultimately show ?thesis using that(10) by (simp add: after_chroma_def sps_common_def set_sps_scaling_def)
  qed
  show ?thesis unfolding sps_chroma_def
    by ((rule yields_optional yields_u yields_ue yields_if yields_done yields_bind [OF sps_matrix_yields] | (simp add: width_defs; fail)
      | (elim exE conjE, hypsubst) | (rule done_if, assumption) | (simp add: flags shape; fail)
      | (use assms in \<open>simp add: depth after_profile_def after_chroma_def sps_common_def good_defs sps_scaling_def NbScalingList_def; fail\<close>))+)
qed

lemma order_yields:
  assumes "after_chroma s"
  shows "yields (sps_order s) (accepted after_chroma)"
proof -
  have cycle: "yields (for_reads cycle_turn [0..<n] t) (\<lambda>t'. \<exists>xs. t' = t\<lparr>sps_offset_for_ref_frame := xs\<rparr> \<and> length xs = 256)"
    if "length (sps_offset_for_ref_frame t) = 256" for n t
    by (rule yields_for [where I = "\<lambda>_ t'. \<exists>xs. t' = t\<lparr>sps_offset_for_ref_frame := xs\<rparr> \<and> length xs = 256"])
      (use that in \<open>auto simp: cycle_turn_def intro!: yields_rd intro: exI [of _ "sps_offset_for_ref_frame t"]\<close>)
  show ?thesis unfolding sps_order_def
  by ((rule yields_u yields_ue yields_se yields_if yields_done yields_bind [OF cycle] | (simp add: width_defs; fail) | (elim exE conjE, hypsubst)
    | (use assms in \<open>simp add: width_defs after_chroma_def sps_common_def good_defs sps_scaling_def NbScalingList_def; fail\<close>))+)
qed

lemma frame_yields:
  assumes "after_chroma s"
  shows "yields (sps_frame s) (accepted after_frame)"
  unfolding sps_frame_def
  by ((rule yields_optional yields_u yields_ue yields_if yields_done | (simp add: width_defs; fail)
    | (use assms in \<open>simp add: width_defs after_chroma_def after_frame_def sps_common_def good_defs sps_scaling_def NbScalingList_def Clip3_def AL_MAX_REF_def; fail\<close>))+)

lemma crop_yields:
  assumes "after_frame s"
  shows "yields (sps_crop s) (accepted after_frame)"
  unfolding sps_crop_def
  by ((rule yields_optional yields_u yields_ue_int yields_rd_ue_int yields_if yields_done | rule yields_nest | (simp add: width_defs; fail)
    | (use assms in \<open>simp add: width_defs after_frame_def sps_common_def good_defs sps_scaling_def NbScalingList_def; fail\<close>))+)

lemma vui_yields:
  assumes "after_frame s"
  shows "yields (sps_vui s) (accepted (\<lambda>s. after_frame s \<and> \<not> sps_bConceal s))"
proof -
  have h: "hrd_good (vui_hrd_param (sps_vui_param s))" using assms by (simp add: after_frame_def sps_common_def vui_good_def)
  have with_vui: "after_frame (s\<lparr>sps_vui_parameters_present_flag := k, sps_vui_param := v, sps_bConceal := False\<rparr>)"
    if "hrd_good (vui_hrd_param v)" for k v
    using assms that by (simp add: after_frame_def sps_common_def good_defs sps_scaling_def NbScalingList_def)
  have without: "after_frame (s\<lparr>sps_vui_parameters_present_flag := k, sps_bConceal := False\<rparr>)" for k
    using assms by (simp add: after_frame_def sps_common_def good_defs sps_scaling_def NbScalingList_def)
  have b: "yields (\<lambda>rp. do { ((ok, v), rp) \<leftarrow> avc_vui_parameters (sps_vui_param s) rp;
       if \<not> ok then Some ((AL_PARSE_CONCEAL, t\<lparr>sps_vui_param := v\<rparr>), rp)
       else Some ((AL_PARSE_OK, t\<lparr>sps_vui_param := v, sps_bConceal := False\<rparr>), rp) }) (accepted (\<lambda>s. after_frame s \<and> \<not> sps_bConceal s))"
    if "t = s\<lparr>sps_vui_parameters_present_flag := k\<rparr>" for t k
    by (rule yields_bind [OF avc_vui_yields [OF h]]) (auto intro!: yields_if yields_done with_vui simp: that)
  show ?thesis unfolding sps_vui_def
    by (rule yields_u, rule yields_if) (use b without in \<open>simp_all add: U8_def yields_done\<close>)
qed

lemma yields_after_header: "yields p Q \<Longrightarrow> yields (after_header p) Q"
  by (fastforce simp: yields_def after_header_def split: bind_splits)

text \<open>The whole parser, started on a set of zeros.\<close>

lemma sps_parts_yield:
  "yields (parts [sps_profile, sps_chroma, sps_order, sps_frame, sps_crop, sps_vui] initSps) (accepted (\<lambda>s. after_frame s \<and> \<not> sps_bConceal s))"
proof -
  have e: "yields (parts [] s) (accepted P)" if "P s" for P :: "AL_TAvcSeqPar \<Rightarrow> bool" and s
    using that by (simp add: yields_def)
  show ?thesis
    by (rule yields_parts [where p = sps_profile and P = after_profile], rule profile_yields,
        rule yields_parts [where p = sps_chroma and P = after_chroma], rule chroma_yields, assumption,
        rule yields_parts [where p = sps_order and P = after_chroma], rule order_yields, assumption,
        rule yields_parts [where p = sps_frame and P = after_frame], rule frame_yields, assumption,
        rule yields_parts [where p = sps_crop and P = after_frame], rule crop_yields, assumption,
        rule yields_parts [where p = sps_vui and P = "\<lambda>s. after_frame s \<and> \<not> sps_bConceal s"], rule vui_yields, assumption, rule e, assumption)
qed

lemma sps_accepted:
  assumes "AL_AVC_ParseSPS rp = Some ((AL_PARSE_OK, s), rp')"
  shows "after_frame s" "\<not> sps_bConceal s"
proof -
  have "yields AL_AVC_ParseSPS (accepted (\<lambda>s. after_frame s \<and> \<not> sps_bConceal s))"
    unfolding AL_AVC_ParseSPS_def by (rule yields_after_header [OF sps_parts_yield])
  from yieldsD [OF this assms] show "after_frame s" "\<not> sps_bConceal s" by simp_all
qed

end
