(* ===== verification/Avc_Crop.thy ===== *)
theory Avc_Crop
  imports Avc_Type
begin

text \<open>
  The cropping window that the decoder derives from a sequence parameter set, \<open>AL_AVC_GetCropInfo\<close> of
  \<open>lib_parsing/AvcParser.c\<close>, and the properties of the sets that the parser accepts.
\<close>

section \<open>The cropping window\<close>

record AL_TCropInfo =
  crop_bCropping :: bool
  crop_uCropOffsetLeft :: nat
  crop_uCropOffsetRight :: nat
  crop_uCropOffsetTop :: nat
  crop_uCropOffsetBottom :: nat

definition ResetCropInfo :: AL_TCropInfo where
  "ResetCropInfo = \<lparr>crop_bCropping = False, crop_uCropOffsetLeft = 0, crop_uCropOffsetRight = 0,
     crop_uCropOffsetTop = 0, crop_uCropOffsetBottom = 0\<rparr>"

text \<open>A product of two \<open>int32_t\<close>, which must not overflow, stored in a \<open>uint32_t\<close>.\<close>

definition crop_offset :: "int \<Rightarrow> int \<Rightarrow> nat option" where
  "crop_offset iCropUnit offset = (let p = iCropUnit * offset in
     if - (2 ^ 31) \<le> p \<and> p < 2 ^ 31 then Some (nat (p mod 2 ^ 32)) else None)"

definition crop_units :: "AL_TAvcSeqPar \<Rightarrow> (int \<times> int) option" where
  "crop_units s =
     (if sps_chroma_format_idc s = 0 then (if sps_separate_colour_plane_flag s = 0 then Some (1, 1) else None)
      else if sps_chroma_format_idc s = 1 then (if sps_separate_colour_plane_flag s = 0 then Some (2, 2) else None)
      else if sps_chroma_format_idc s = 2 then (if sps_separate_colour_plane_flag s = 0 then Some (2, 1) else None)
      else if sps_chroma_format_idc s = 3 then Some (1, 1)
      else None)"

definition AL_AVC_GetCropInfo :: "AL_TAvcSeqPar \<Rightarrow> AL_TCropInfo option" where
  "AL_AVC_GetCropInfo s =
     (if sps_frame_cropping_flag s \<noteq> 0 then do {
        (iCropUnitX, iCropUnitY) \<leftarrow> crop_units s;
        let iCropUnitY = iCropUnitY * (2 - int (sps_frame_mbs_only_flag s));
        l \<leftarrow> crop_offset iCropUnitX (sps_frame_crop_left_offset s);
        r \<leftarrow> crop_offset iCropUnitX (sps_frame_crop_right_offset s);
        t \<leftarrow> crop_offset iCropUnitY (sps_frame_crop_top_offset s);
        b \<leftarrow> crop_offset iCropUnitY (sps_frame_crop_bottom_offset s);
        let (t, b) = (if sps_frame_mbs_only_flag s = 0 then (t div 2, b div 2) else (t, b));
        Some \<lparr>crop_bCropping = True, crop_uCropOffsetLeft = l, crop_uCropOffsetRight = r,
          crop_uCropOffsetTop = t, crop_uCropOffsetBottom = b\<rparr> }
      else Some ResetCropInfo)"

section \<open>Sets that are accepted\<close>

lemma ring_whole: "ring xs 0 (length xs) = xs"
  by (rule nth_equalityI) simp_all

text \<open>Each set of the encoder is accepted from some stream.\<close>

lemma unit_accepted:
  assumes "sps_ok e" "fits_scratch (writeSps e) tmp sz" "bs_wf bs" "bs_iBitCount bs = 8 * k" "\<not> bs_isOverflow bs"
    and "WriteNal AVC_writeStartCode (writeSps e) tmp bs sz nut \<lparr>nh_bytes = [0x67], nh_size = 1\<rparr> mode = Some (n, bs')" "n \<noteq> -1" "n < 2 ^ 20"
  shows "\<exists>rp rp'. AL_AVC_ParseSPS rp = Some ((AL_PARSE_OK, sps_view e), rp')"
proof -
  obtain xs where xs: "writes (writeSpsData e) (\<lambda>_. xs)"
      "reads (parts [sps_profile, sps_chroma, sps_order, sps_frame, sps_crop, sps_vui] initSps) xs (AL_PARSE_OK, sps_view e)"
    using sps_matches [OF assms(1)] unfolding matches_def by blast
  have f: "writeSps e = (\<lambda>bs. do { bs \<leftarrow> writeSpsData e bs; write_trailing bs })" by (simp add: writeSps_def)
  obtain d four where w: "bytes_bits d = rbsp_bits (bit_syns xs)" "d \<noteq> []"
      "take (nat n) (drop k (bs_pData bs')) = start_code four @ [0x67] @ escape d"
    using unit_written [OF xs(1) assms(2) [unfolded f] disjI1 [OF refl] assms(3-5), where h = "0x67" and nut = nut and mode = mode]
      assms(6,7) unfolding f by auto
  let ?B = "start_code four @ [0x67] @ escape d @ []" and ?buf = "replicate (2 ^ 20 + 4) (0 :: u8)"
  have len: "length ?B \<le> 2 ^ 20" using w(3) assms(8) by (metis append_Nil2 append_assoc length_take min.cobounded2 min.coboundedI2 nat_le_iff nat_less_iff order.strict_implies_order zle_int zless_nat_eq_int_zless of_nat_numeral of_nat_power)
  have "holds_unit \<lparr>cb_pVirtualAddr = ?B, cb_uSize = length ?B, cb_iOffset = 0, cb_iAvailSize = length ?B\<rparr> ?B ?buf (2 ^ 20 + 4)"
    using len ring_whole [of ?B] by (simp add: holds_unit_def del: append_Nil2)
  from unit_reads [OF this _ _ xs(2) w(1,2)] show ?thesis
    unfolding AL_AVC_ParseSPS_def by (auto simp: next_unit_def)
qed

lemma demo_enc_written:
  "case WriteNal AVC_writeStartCode (writeSps demo_enc) (replicate 64 0) (AL_BitStreamLite_Init (replicate 80 9) 80) 64 7
      \<lparr>nh_bytes = [0x67], nh_size = 1\<rparr> AL_START_CODE_AUTO of None \<Rightarrow> False | Some (n, _) \<Rightarrow> 0 \<le> n \<and> n < 100"
  by code_simp

lemma demo_enc_accepted: "\<exists>rp rp'. AL_AVC_ParseSPS rp = Some ((AL_PARSE_OK, sps_view demo_enc), rp')"
proof -
  obtain n bs' where "WriteNal AVC_writeStartCode (writeSps demo_enc) (replicate 64 0) (AL_BitStreamLite_Init (replicate 80 9) 80) 64 7
      \<lparr>nh_bytes = [0x67], nh_size = 1\<rparr> AL_START_CODE_AUTO = Some (n, bs')" "0 \<le> n" "n < 100"
    using demo_enc_written by (auto split: option.splits)
  then show ?thesis
    using unit_accepted [OF demo_enc_ok demo_enc_fits init_wf [of 80 "replicate 80 9"], where k = 0]
    by (force simp: AL_BitStreamLite_Init_def)
qed



text \<open>The samples of the luma plane for one of a chroma plane, as the standard has them.\<close>

definition SubWidthC :: "nat \<Rightarrow> nat" where
  "SubWidthC chroma_format_idc = (if chroma_format_idc = 1 \<or> chroma_format_idc = 2 then 2 else 1)"

definition SubHeightC :: "nat \<Rightarrow> nat" where
  "SubHeightC chroma_format_idc = (if chroma_format_idc = 1 then 2 else 1)"

text \<open>
  C35: The cropping window of an accepted set. Without the flag there is none. With it, for the
  chroma formats of the standard and offsets whose product does not overflow, the window is given in luma
  samples of the output picture (a frame, or one field of a pair), none of the assertions fails. For
  the chroma format 4, which the parser accepts too, the function runs into its assertion.
\<close>

theorem avc_crop_info:
  assumes "AL_AVC_ParseSPS rp = Some ((AL_PARSE_OK, s), rp')"
  shows "(sps_frame_cropping_flag s = 0 \<longrightarrow> AL_AVC_GetCropInfo s = Some ResetCropInfo)
    \<and> (sps_frame_cropping_flag s \<noteq> 0 \<longrightarrow> sps_chroma_format_idc s < 4 \<longrightarrow> sps_frame_mbs_only_flag s \<le> 1 \<longrightarrow>
        (\<forall>x \<in> {sps_frame_crop_left_offset s, sps_frame_crop_right_offset s, sps_frame_crop_top_offset s, sps_frame_crop_bottom_offset s}.
          0 \<le> x \<and> x < 2 ^ 29) \<longrightarrow>
        AL_AVC_GetCropInfo s = Some \<lparr>crop_bCropping = True,
          crop_uCropOffsetLeft = SubWidthC (sps_chroma_format_idc s) * nat (sps_frame_crop_left_offset s),
          crop_uCropOffsetRight = SubWidthC (sps_chroma_format_idc s) * nat (sps_frame_crop_right_offset s),
          crop_uCropOffsetTop = SubHeightC (sps_chroma_format_idc s) * nat (sps_frame_crop_top_offset s),
          crop_uCropOffsetBottom = SubHeightC (sps_chroma_format_idc s) * nat (sps_frame_crop_bottom_offset s)\<rparr>)
    \<and> (sps_frame_cropping_flag s \<noteq> 0 \<longrightarrow> \<not> sps_chroma_format_idc s < 4 \<longrightarrow>
        sps_chroma_format_idc s = 4 \<and> AL_AVC_GetCropInfo s = None)"
proof -
  have "chroma_good s" using sps_accepted(1) [OF assms] by (simp add: after_frame_def sps_common_def)
  then have c: "sps_chroma_format_idc s < 5" "sps_chroma_format_idc s \<noteq> 3 \<Longrightarrow> sps_separate_colour_plane_flag s = 0"
    by (simp_all add: chroma_good_def AL_CHROMA_MAX_ENUM_def)
  have off: "crop_offset u x = Some (nat (u * x))" if "0 \<le> u" "u \<le> 4" "0 \<le> x" "x < 2 ^ 29" for u x
  proof -
    have "u * x \<le> 4 * x" using that by (intro mult_right_mono) auto
    moreover have "(2 :: int) ^ 31 = 4 * 2 ^ 29" by simp
    ultimately have "u * x < 2 ^ 31" using that(4) by linarith
    moreover have "0 \<le> u * x" using that by simp
    ultimately show ?thesis by (simp add: crop_offset_def Let_def)
  qed
  have window: "AL_AVC_GetCropInfo s = Some \<lparr>crop_bCropping = True,
      crop_uCropOffsetLeft = w * nat (sps_frame_crop_left_offset s), crop_uCropOffsetRight = w * nat (sps_frame_crop_right_offset s),
      crop_uCropOffsetTop = h * nat (sps_frame_crop_top_offset s), crop_uCropOffsetBottom = h * nat (sps_frame_crop_bottom_offset s)\<rparr>"
    if "sps_frame_cropping_flag s \<noteq> 0" "crop_units s = Some (int w, int h)" "w \<le> 2" "h \<le> 2" "sps_frame_mbs_only_flag s \<le> 1"
      "\<forall>x \<in> {sps_frame_crop_left_offset s, sps_frame_crop_right_offset s, sps_frame_crop_top_offset s, sps_frame_crop_bottom_offset s}. 0 \<le> x \<and> x < 2 ^ 29"
    for w h
  proof (cases "sps_frame_mbs_only_flag s = 0")
    case True
    then show ?thesis using that by (simp add: AL_AVC_GetCropInfo_def off nat_mult_distrib)
  next
    case False
    then have "sps_frame_mbs_only_flag s = 1" using that(5) by simp
    then show ?thesis using that by (simp add: AL_AVC_GetCropInfo_def off nat_mult_distrib)
  qed
  have units: "crop_units s = Some (int (SubWidthC (sps_chroma_format_idc s)), int (SubHeightC (sps_chroma_format_idc s)))"
    if "sps_chroma_format_idc s < 4"
    using that c(2) by (auto simp: crop_units_def SubWidthC_def SubHeightC_def)
  have le: "SubWidthC k \<le> 2" "SubHeightC k \<le> 2" for k by (simp_all add: SubWidthC_def SubHeightC_def)
  show ?thesis
  proof (intro conjI impI)
    assume "sps_frame_cropping_flag s = 0"
    then show "AL_AVC_GetCropInfo s = Some ResetCropInfo" by (simp add: AL_AVC_GetCropInfo_def)
  next
    assume "\<not> sps_chroma_format_idc s < 4"
    then show "sps_chroma_format_idc s = 4" using c(1) by simp
  next
    assume "sps_frame_cropping_flag s \<noteq> 0" "\<not> sps_chroma_format_idc s < 4"
    then show "AL_AVC_GetCropInfo s = None" by (simp add: AL_AVC_GetCropInfo_def crop_units_def)
  qed (use window [OF _ units le] in blast)
qed

theorem avc_crop_info_witness:
  "\<exists>s i. (\<exists>rp rp'. AL_AVC_ParseSPS rp = Some ((AL_PARSE_OK, s), rp')) \<and> AL_AVC_GetCropInfo s = Some i
    \<and> crop_bCropping i \<and> crop_uCropOffsetBottom i = 8"
proof -
  obtain rp rp' where p: "AL_AVC_ParseSPS rp = Some ((AL_PARSE_OK, sps_view demo_enc), rp')" using demo_enc_accepted by blast
  have m: "sps_frame_cropping_flag (sps_view demo_enc) = 1" "sps_chroma_format_idc (sps_view demo_enc) = 1" "sps_frame_mbs_only_flag (sps_view demo_enc) = 1"
    "sps_frame_crop_left_offset (sps_view demo_enc) = 0" "sps_frame_crop_right_offset (sps_view demo_enc) = 0"
    "sps_frame_crop_top_offset (sps_view demo_enc) = 0" "sps_frame_crop_bottom_offset (sps_view demo_enc) = 4"
    by (simp_all add: sps_view_def set_sps_scaling_def demo_enc_def initSps_def zero_sps_def)
  have "AL_AVC_GetCropInfo (sps_view demo_enc) = Some \<lparr>crop_bCropping = True, crop_uCropOffsetLeft = 0, crop_uCropOffsetRight = 0,
      crop_uCropOffsetTop = 0, crop_uCropOffsetBottom = 8\<rparr>"
    using avc_crop_info [OF p] m by (simp add: SubWidthC_def SubHeightC_def)
  then show ?thesis using p by (intro exI [of _ "sps_view demo_enc"]) auto
qed

end
