(* ===== verification/Fifo_Live.thy ===== *)
theory Fifo_Live
  imports Fifo "HOL-Library.Multiset"
begin

text \<open>
  Progress on the blocking queue: threads with work to do on one \<open>AL_Fifo\<close>, and why they get it done.
\<close>

section \<open>Threads with work to do\<close>

text \<open>
  \<open>put t\<close> are the elements that thread \<open>t\<close> still has to queue, \<open>get t\<close> is the number of elements that it
  still has to take, both with \<open>AL_WAIT_FOREVER\<close>. A thread begins a call when it gets its token,
  and goes on with the call it is in; the moves are those of \<open>fifo_step\<close>.
\<close>

type_synonym fifo_work = "fifo_sys \<times> (nat \<Rightarrow> ptr list) \<times> (nat \<Rightarrow> nat)"

inductive work_step :: "nat \<Rightarrow> fifo_work \<Rightarrow> fifo_work \<Rightarrow> bool" for n where
  begin_put: "t < n \<Longrightarrow> put t = x # xs \<Longrightarrow> fs_pc s t = Idle \<Longrightarrow> fifo_step n s s' \<Longrightarrow> fs_pc s' t = HasSpace x \<Longrightarrow>
     work_step n (s, put, get) (s', put(t := xs), get)"
| begin_get: "t < n \<Longrightarrow> get t = Suc k \<Longrightarrow> fs_pc s t = Idle \<Longrightarrow> fifo_step n s s' \<Longrightarrow> fs_pc s' t = HasCount \<Longrightarrow>
     work_step n (s, put, get) (s', put, get(t := k))"
| go_on: "t < n \<Longrightarrow> fs_pc s t \<noteq> Idle \<Longrightarrow> fifo_step n s s' \<Longrightarrow> fs_pc s' t \<noteq> fs_pc s t \<Longrightarrow>
     work_step n (s, put, get) (s', put, get)"

inductive work_reach :: "nat \<Rightarrow> fifo_work \<Rightarrow> fifo_work \<Rightarrow> bool" for n w0 where
  start: "work_reach n w0 w0"
| step: "work_reach n w0 w \<Longrightarrow> work_step n w w' \<Longrightarrow> work_reach n w0 w'"

text \<open>The moves that are left.\<close>

fun moves_left :: "fifo_pc \<Rightarrow> nat" where
  "moves_left Idle = 0"
| "moves_left (HasSpace x) = 2"
| "moves_left Pushed = 1"
| "moves_left HasCount = 2"
| "moves_left (Popped x) = 1"

definition work_left :: "nat \<Rightarrow> fifo_work \<Rightarrow> nat" where
  "work_left n = (\<lambda>(s, put, get). (\<Sum>t<n. 3 * length (put t) + 3 * get t + moves_left (fs_pc s t)))"

fun in_hand :: "fifo_pc \<Rightarrow> ptr multiset" where
  "in_hand (HasSpace x) = {#x#}"
| "in_hand _ = {#}"

lemma sum_upd:
  fixes g :: "nat \<Rightarrow> 'a \<Rightarrow> 'b :: comm_monoid_add"
  assumes "t < n"
  shows "(\<Sum>u<n. g u ((f(t := p)) u)) + g t (f t) = (\<Sum>u<n. g u (f u)) + g t p"
proof -
  have s: "(\<Sum>u<n. h u) = h t + (\<Sum>u\<in>{..<n} - {t}. h u)" for h :: "nat \<Rightarrow> 'b" using assms by (simp add: sum.remove)
  have "(\<Sum>u\<in>{..<n} - {t}. g u ((f(t := p)) u)) = (\<Sum>u\<in>{..<n} - {t}. g u (f u))" by (rule sum.cong) auto
  then show ?thesis unfolding s [of "\<lambda>u. g u ((f(t := p)) u)"] s [of "\<lambda>u. g u (f u)"] by (simp add: ac_simps)
qed

text \<open>
  What holds throughout: every element is still to be queued, in the hands of a thread, or was put in;
  and every element taken out, about to be taken, or still to be taken has been accounted for.
\<close>

definition work_inv :: "nat \<Rightarrow> nat \<Rightarrow> ptr multiset \<Rightarrow> fifo_work \<Rightarrow> bool" where
  "work_inv n c M = (\<lambda>(s, put, get). fifo_sys_inv n s \<and> fifo_cap (fs_q s) = c \<and> (\<forall>t < n. NULL \<notin> set (put t))
     \<and> mset (fs_logIn s) + (\<Sum>t<n. in_hand (fs_pc s t)) + (\<Sum>t<n. mset (put t)) = M
     \<and> length (fs_logOut s) + at_pc ((=) HasCount) n (fs_pc s) + (\<Sum>t<n. get t) = size M)"

lemma fifo_step_caps:
  assumes "fifo_step n s s'" "fifo_sys_inv n s"
  shows "fifo_cap (fs_q s') = fifo_cap (fs_q s)"
  using assms(1)
  by (cases rule: fifo_step.cases) (auto simp: fifo_cap_def fifo_push_def fifo_pop_def split: if_splits)

text \<open>The threads that a move leaves alone, and what it does to the two logs.\<close>

lemma fifo_step_moves:
  assumes "fifo_step n s s'" "fs_pc s' t \<noteq> fs_pc s t" "fifo_sys_inv n s"
  shows "\<exists>p. fs_pc s' = (fs_pc s)(t := p)
    \<and> ((\<exists>x. fs_pc s t = Idle \<and> p = HasSpace x \<and> fs_logIn s' = fs_logIn s \<and> fs_logOut s' = fs_logOut s)
      \<or> (\<exists>x. fs_pc s t = HasSpace x \<and> p = Pushed \<and> fs_logIn s' = fs_logIn s @ [x] \<and> fs_logOut s' = fs_logOut s)
      \<or> (fs_pc s t = Pushed \<and> p = Idle \<and> fs_logIn s' = fs_logIn s \<and> fs_logOut s' = fs_logOut s)
      \<or> (fs_pc s t = Idle \<and> p = HasCount \<and> fs_logIn s' = fs_logIn s \<and> fs_logOut s' = fs_logOut s)
      \<or> (\<exists>x. fs_pc s t = HasCount \<and> p = Popped x \<and> fs_logIn s' = fs_logIn s \<and> fs_logOut s' = fs_logOut s @ [x])
      \<or> (\<exists>x. fs_pc s t = Popped x \<and> p = Idle \<and> fs_logIn s' = fs_logIn s \<and> fs_logOut s' = fs_logOut s))"
  using assms(1)
proof (cases rule: fifo_step.cases)
  case (get_space u x c)
  then have "u = t" using assms(2) by (auto split: if_splits)
  then show ?thesis using get_space by (intro exI [of _ "HasSpace x"]) simp
next
  case (push u x)
  then have "u = t" using assms(2) by (auto split: if_splits)
  then show ?thesis using push by (intro exI [of _ Pushed]) simp
next
  case (release_count u)
  then have "u = t" using assms(2) by (auto split: if_splits)
  then show ?thesis using release_count by (intro exI [of _ Idle]) simp
next
  case (get_count u c)
  then have "u = t" using assms(2) by (auto split: if_splits)
  then show ?thesis using get_count by (intro exI [of _ HasCount]) simp
next
  case (pop u x q)
  then have "u = t" using assms(2) by (auto split: if_splits)
  then show ?thesis using pop by (intro exI [of _ "Popped x"]) simp
next
  case (release_space u x)
  then have "u = t" using assms(2) by (auto split: if_splits)
  then show ?thesis using release_space by (intro exI [of _ Idle]) simp
qed

lemma work_left_sums:
  "work_left n (s, put, get) = 3 * (\<Sum>t<n. length (put t)) + 3 * (\<Sum>t<n. get t) + (\<Sum>t<n. moves_left (fs_pc s t))"
  by (simp add: work_left_def sum.distrib sum_distrib_left)

lemma pc_sums:
  assumes "t < n" "fs_pc s' = (fs_pc s)(t := p)"
  shows "(\<Sum>u<n. in_hand (fs_pc s' u)) + in_hand (fs_pc s t) = (\<Sum>u<n. in_hand (fs_pc s u)) + in_hand p"
    "(\<Sum>u<n. moves_left (fs_pc s' u)) + moves_left (fs_pc s t) = (\<Sum>u<n. moves_left (fs_pc s u)) + moves_left p"
    "at_pc ((=) HasCount) n (fs_pc s') + (if fs_pc s t = HasCount then 1 else 0) = at_pc ((=) HasCount) n (fs_pc s) + (if p = HasCount then 1 else 0)"
  using sum_upd [OF assms(1), of "\<lambda>_. in_hand" "fs_pc s" p] sum_upd [OF assms(1), of "\<lambda>_. moves_left" "fs_pc s" p]
    at_pc_upd [OF assms(1), of "(=) HasCount" "fs_pc s" p] assms(2)
  by (simp_all add: eq_commute)

lemma work_step_ok:
  assumes "work_step n w w'" "work_inv n c M w"
  shows "work_inv n c M w' \<and> work_left n w = Suc (work_left n w')"
  using assms(1)
proof (cases rule: work_step.cases)
  case (begin_put t put x xs s s' get)
  note inv = assms(2) [unfolded begin_put work_inv_def prod.case]
  have p: "fs_pc s' = (fs_pc s)(t := HasSpace x)" "fs_logIn s' = fs_logIn s" "fs_logOut s' = fs_logOut s"
    using fifo_step_moves [OF begin_put(6), of t] begin_put(5,7) inv by auto
  have "fifo_sys_inv n s'" "fifo_cap (fs_q s') = c" "\<forall>u < n. NULL \<notin> set ((put(t := xs)) u)"
    using fifo_step_inv [OF begin_put(6)] fifo_step_caps [OF begin_put(6)] inv begin_put(3,4) by auto
  moreover have "(\<Sum>u<n. mset (put u)) = (\<Sum>u<n. mset ((put(t := xs)) u)) + {#x#}"
    "(\<Sum>u<n. length (put u)) = Suc (\<Sum>u<n. length ((put(t := xs)) u))"
    using sum_upd [OF begin_put(3), of "\<lambda>_. mset" put xs] sum_upd [OF begin_put(3), of "\<lambda>_. length" put xs] begin_put(4) by simp_all
  ultimately show ?thesis
    using inv pc_sums [OF begin_put(3) p(1)] p(2,3) unfolding begin_put(1,2) work_left_sums work_inv_def prod.case
    by (simp add: begin_put(5))
next
  case (begin_get t get k s s' put)
  note inv = assms(2) [unfolded begin_get work_inv_def prod.case]
  have p: "fs_pc s' = (fs_pc s)(t := HasCount)" "fs_logIn s' = fs_logIn s" "fs_logOut s' = fs_logOut s"
    using fifo_step_moves [OF begin_get(6), of t] begin_get(5,7) inv by auto
  have "fifo_sys_inv n s'" "fifo_cap (fs_q s') = c"
    using fifo_step_inv [OF begin_get(6)] fifo_step_caps [OF begin_get(6)] inv by auto
  moreover have "(\<Sum>u<n. get u) = Suc (\<Sum>u<n. (get(t := k)) u)"
    using sum_upd [OF begin_get(3), of "\<lambda>_ x. x" get k] begin_get(4) by simp
  ultimately show ?thesis
    using inv pc_sums [OF begin_get(3) p(1)] p(2,3) unfolding begin_get(1,2) work_left_sums work_inv_def prod.case
    by (simp add: begin_get(5))
next
  case (go_on t s s' put get)
  note inv = assms(2) [unfolded go_on work_inv_def prod.case]
  obtain p where p: "fs_pc s' = (fs_pc s)(t := p)"
    and kinds: "(\<exists>x. fs_pc s t = HasSpace x \<and> p = Pushed \<and> fs_logIn s' = fs_logIn s @ [x] \<and> fs_logOut s' = fs_logOut s)
      \<or> (fs_pc s t = Pushed \<and> p = Idle \<and> fs_logIn s' = fs_logIn s \<and> fs_logOut s' = fs_logOut s)
      \<or> (\<exists>x. fs_pc s t = HasCount \<and> p = Popped x \<and> fs_logIn s' = fs_logIn s \<and> fs_logOut s' = fs_logOut s @ [x])
      \<or> (\<exists>x. fs_pc s t = Popped x \<and> p = Idle \<and> fs_logIn s' = fs_logIn s \<and> fs_logOut s' = fs_logOut s)"
    using fifo_step_moves [OF go_on(5,6)] go_on(4) inv by auto
  have "fifo_sys_inv n s'" "fifo_cap (fs_q s') = c"
    using fifo_step_inv [OF go_on(5)] fifo_step_caps [OF go_on(5)] inv by auto
  then show ?thesis
    using inv pc_sums [OF go_on(3) p] kinds unfolding go_on(1,2) work_left_sums work_inv_def prod.case
    by (auto simp: ac_simps)
qed

lemma work_reach_inv:
  assumes "work_reach n w0 w" "work_inv n c M w0"
  shows "work_inv n c M w"
  using assms by (induction rule: work_reach.induct) (auto dest: work_step_ok)

text \<open>A thread inside a call can always go on.\<close>

lemma inside_moves:
  assumes "t < n" "fs_pc s t \<noteq> Idle"
  shows "\<exists>s'. fifo_step n s s' \<and> fs_pc s' t \<noteq> fs_pc s t"
proof (cases "fs_pc s t")
  case (HasSpace x)
  then show ?thesis using fifo_step.push [OF assms(1) HasSpace] by (intro exI conjI) auto
next
  case Pushed
  then show ?thesis using fifo_step.release_count [OF assms(1) Pushed] by (intro exI conjI) auto
next
  case HasCount
  obtain x q where "fifo_pop (fs_q s) = (x, q)" by (cases "fifo_pop (fs_q s)")
  then show ?thesis using fifo_step.pop [OF assms(1) HasCount] HasCount by (intro exI conjI) auto
next
  case (Popped x)
  then show ?thesis using fifo_step.release_space [OF assms(1) Popped] by (intro exI conjI) auto
qed (use assms in simp)

lemma can_begin_put:
  assumes "t < n" "put t = x # xs" "fs_pc s t = Idle" "x \<noteq> NULL" "0 < hSpaceSem (fs_q s)"
  shows "\<exists>w'. work_step n (s, put, get) w'"
proof -
  have "Rtos_GetSemaphore (hSpaceSem (fs_q s)) = (True, hSpaceSem (fs_q s) - 1)" using assms(5) by (simp add: Rtos_GetSemaphore_def)
  from fifo_step.get_space [of t n s x, OF assms(1,3,4) this] show ?thesis
    by (intro exI) (rule work_step.begin_put [where t = t and put = put, OF assms(1-3)], auto)
qed

lemma can_begin_get:
  assumes "t < n" "get t = Suc k" "fs_pc s t = Idle" "0 < hCountSem (fs_q s)"
  shows "\<exists>w'. work_step n (s, put, get) w'"
proof -
  have "Rtos_GetSemaphore (hCountSem (fs_q s)) = (True, hCountSem (fs_q s) - 1)" using assms(4) by (simp add: Rtos_GetSemaphore_def)
  from fifo_step.get_count [of t n s, OF assms(1,3) this] show ?thesis
    by (intro exI) (rule work_step.begin_get [where t = t and get = get, OF assms(1-3)], auto)
qed

lemma stuck_done:
  assumes "work_inv n c M (s, put, get)" "0 < c" "\<nexists>w'. work_step n (s, put, get) w'"
  shows "\<forall>t < n. fs_pc s t = Idle \<and> put t = [] \<and> get t = 0" "fifo_contents (fs_q s) = []" "mset (fs_logOut s) = M"
proof -
  let ?k = "length (fifo_contents (fs_q s))"
  note inv = assms(1) [unfolded work_inv_def prod.case]
  have idle: "fs_pc s t = Idle" if "t < n" for t
    using inside_moves [OF that] work_step.go_on [OF that] assms(3) by blast
  then have "at_pc P n (fs_pc s) = 0" if "\<not> P Idle" for P using that by (simp add: at_pc_def)
  then have sems: "hSpaceSem (fs_q s) + ?k = c" "hCountSem (fs_q s) = ?k" "fs_logIn s = fs_logOut s @ fifo_contents (fs_q s)"
      and out: "length (fs_logOut s) + (\<Sum>t<n. get t) = size M"
    using inv by (auto simp: fifo_sys_inv_def Let_def)
  have hand: "mset (fs_logIn s) + (\<Sum>t<n. mset (put t)) = M" using inv idle by simp
  have put: "put t = []" if "t < n" "0 < hSpaceSem (fs_q s)" for t
  proof (rule ccontr)
    assume "put t \<noteq> []"
    then obtain x xs where x: "put t = x # xs" by (cases "put t") auto
    then have "x \<noteq> NULL" using inv that(1) by fastforce
    then show False using can_begin_put [of t n put, OF that(1) x idle [OF that(1)] _ that(2)] assms(3) by blast
  qed
  have get: "get t = 0" if "t < n" "0 < hCountSem (fs_q s)" for t
    using can_begin_get [OF that(1) _ idle [OF that(1)] that(2)] assms(3) by (metis not0_implies_Suc)
  have k: "?k = 0"
  proof (rule ccontr)
    assume "?k \<noteq> 0"
    then have "length (fs_logOut s) = size M" using get sems(2) out by simp
    moreover have "length (fs_logIn s) \<le> size M" using arg_cong [OF hand, of size] by simp
    ultimately show False using sems(3) \<open>?k \<noteq> 0\<close> by simp
  qed
  then have space: "0 < hSpaceSem (fs_q s)" using sems(1) assms(2) by simp
  then have M: "mset (fs_logIn s) = M" using hand put by simp
  then have "length (fs_logOut s) = size M" using sems(3) k by (metis append_Nil2 length_0_conv size_mset)
  then have "get t = 0" if "t < n" for t using out that by (simp add: sum_eq_0_iff)
  then show "\<forall>t < n. fs_pc s t = Idle \<and> put t = [] \<and> get t = 0" using idle put [OF _ space] by blast
  show "fifo_contents (fs_q s) = []" using k by simp
  then show "mset (fs_logOut s) = M" using M sems(3) by simp
qed

lemma work_start_inv:
  assumes "fifo_inv q" "fifo_contents q = []" "\<forall>t < n. NULL \<notin> set (put t)" "(\<Sum>t<n. length (put t)) = (\<Sum>t<n. get t)"
  shows "work_inv n (fifo_cap q) (\<Sum>t<n. mset (put t)) (fifo_start q, put, get)"
proof -
  have "fifo_sys_inv n (fifo_start q)" by (rule fifo_start_inv [OF assms(1,2)])
  moreover have "size (\<Sum>t<n. mset (put t)) = (\<Sum>t<n. length (put t))" by (induction n) auto
  ultimately show ?thesis using assms(3,4) by (simp add: work_inv_def fifo_start_def at_pc_def)
qed

text \<open>
  C36: The blocking queue makes progress, and everything queued arrives. For any number of
  threads with elements to queue and elements to take, as many to take as to queue, on a queue of any
  capacity but zero: whatever the interleaving, each move leaves one move less, so all runs end after
  the same number of moves (three for each call); and a run only ends when every thread is back
  from its last call, the queue is empty, and the elements taken are exactly those queued.
\<close>

theorem fifo_delivers_all:
  assumes "AL_Fifo_Init b c sp m cap = (True, Some q, res)" "0 < cap"
    and "\<forall>t < n. NULL \<notin> set (put t)" "(\<Sum>t<n. length (put t)) = (\<Sum>t<n. get t)"
    and "work_reach n (fifo_start q, put, get) (s, put', get')"
  shows "(\<forall>w'. work_step n (s, put', get') w' \<longrightarrow> work_left n (s, put', get') = Suc (work_left n w'))
    \<and> ((\<exists>w'. work_step n (s, put', get') w')
      \<or> (\<forall>t < n. fs_pc s t = Idle \<and> put' t = [] \<and> get' t = 0) \<and> fifo_contents (fs_q s) = []
        \<and> mset (fs_logOut s) = (\<Sum>t<n. mset (put t)))"
proof -
  have inv: "work_inv n cap (\<Sum>t<n. mset (put t)) (s, put', get')"
    using work_reach_inv [OF assms(5) work_start_inv [OF fifo_init_inv(1,2) [OF assms(1)] assms(3,4)]]
    by (simp add: fifo_init_inv(3) [OF assms(1)])
  show ?thesis using work_step_ok [OF _ inv] stuck_done [OF inv assms(2)] by blast
qed

text \<open>A producer with two elements and a consumer, on a queue with room for one.\<close>

theorem fifo_delivers_all_witness:
  "let q = \<lparr>zMaxElem = 2, zTail = 0, zHead = 0, ElemBuffer = [FIFO_FILL, FIFO_FILL], hCountSem = 0, hSpaceSem = 1\<rparr>;
       put = (\<lambda>t. if t = 0 then [7, 8] else []); get = (\<lambda>t. if t = 1 then 2 else 0)
   in work_left 2 (fifo_start q, put, get) = 12 \<and> (\<exists>w'. work_step 2 (fifo_start q, put, get) w')"
proof -
  let ?q = "\<lparr>zMaxElem = 2, zTail = 0, zHead = 0, ElemBuffer = [FIFO_FILL, FIFO_FILL], hCountSem = 0, hSpaceSem = 1\<rparr>"
  let ?put = "\<lambda>t :: nat. if t = 0 then [7, 8 :: ptr] else []" and ?get = "\<lambda>t :: nat. if t = 1 then 2 else 0 :: nat"
  have init: "AL_Fifo_Init True True True True 1 = (True, Some ?q, {ElemBufferMem, CountSem, SpaceSem, FifoMutex})"
    by (simp add: fifo_init_cases numeral_2_eq_2)
  have "{..<2} = {0, 1 :: nat}" by auto
  then have s: "(\<Sum>t<2. f t) = f 0 + f (1 :: nat)" for f :: "nat \<Rightarrow> nat" by simp
  have sums: "(\<Sum>t<2. length (?put t)) = (\<Sum>t<2. ?get t)" by (simp add: s)
  have nz: "\<forall>t < 2. NULL \<notin> set (?put t)" by (simp add: NULL_def)
  have left: "work_left 2 (fifo_start ?q, ?put, ?get) = 12" by (simp add: work_left_sums s fifo_start_def)
  have "\<exists>w'. work_step 2 (fifo_start ?q, ?put, ?get) w'"
    using fifo_delivers_all [OF init _ nz sums work_reach.start] by (auto dest: spec [of _ 0])
  with left show ?thesis by (simp add: Let_def)
qed

end
