(* ===== verification/Sei_Write.thy ===== *)
theory Sei_Write
  imports Avc_Write
begin

text \<open>
  Supplemental enhancement information (SEI): the structures of \<open>include/lib_common/HDR.h\<close> and
  \<open>lib_common/SeiInternal.h\<close>, the writers of \<open>lib_bitstream/RbspEncod.c\<close> and \<open>AVC_RbspEncod.c\<close>, and the loop over
  the messages of a unit in \<open>lib_encode/NalWriters.c\<close>. Unsigned fields are natural numbers, arrays are
  lists of the declared length, flags of type \<open>bool\<close> are booleans.
\<close>

section \<open>Structures\<close>

record AL_TChromaCoordinates =
  cc_x :: nat
  cc_y :: nat

record AL_TMasteringDisplayColourVolume =
  mdcv_display_primaries :: "AL_TChromaCoordinates list"
  mdcv_white_point :: AL_TChromaCoordinates
  mdcv_max_display_mastering_luminance :: nat
  mdcv_min_display_mastering_luminance :: nat

record AL_TContentLightLevel =
  cll_max_content_light_level :: nat
  cll_max_pic_average_light_level :: nat

record AL_TAlternativeTransferCharacteristics =
  atc_preferred_transfer_characteristics :: nat

record AL_TProcessingWindow_ST2094_10 =
  pw10_active_area_left_offset :: nat
  pw10_active_area_right_offset :: nat
  pw10_active_area_top_offset :: nat
  pw10_active_area_bottom_offset :: nat

record AL_TImageCharacteristics_ST2094_10 =
  ic_min_pq :: nat
  ic_max_pq :: nat
  ic_avg_pq :: nat

record AL_TManualAdjustment_ST2094_10 =
  ma_target_max_pq :: nat
  ma_trim_slope :: nat
  ma_trim_offset :: nat
  ma_trim_power :: nat
  ma_trim_chroma_weight :: nat
  ma_trim_saturation_gain :: nat
  ma_ms_weight :: int

record AL_TDynamicMeta_ST2094_10 =
  st10_application_version :: nat
  st10_processing_window_flag :: bool
  st10_processing_window :: AL_TProcessingWindow_ST2094_10
  st10_image_characteristics :: AL_TImageCharacteristics_ST2094_10
  st10_num_manual_adjustments :: nat
  st10_manual_adjustments :: "AL_TManualAdjustment_ST2094_10 list"

record AL_TProcessingWindow_ST2094_1 =
  pw1_upper_left_corner_x :: nat
  pw1_upper_left_corner_y :: nat
  pw1_lower_right_corner_x :: nat
  pw1_lower_right_corner_y :: nat

record AL_TProcessingWindow_ST2094_40 =
  pw40_base_processing_window :: AL_TProcessingWindow_ST2094_1
  pw40_center_of_ellipse_x :: nat
  pw40_center_of_ellipse_y :: nat
  pw40_rotation_angle :: nat
  pw40_semimajor_axis_internal_ellipse :: nat
  pw40_semimajor_axis_external_ellipse :: nat
  pw40_semiminor_axis_external_ellipse :: nat
  pw40_overlap_process_option :: nat

record AL_TDisplayPeakLuminance_ST2094_40 =
  pl_actual_peak_luminance_flag :: bool
  pl_num_rows_actual_peak_luminance :: nat
  pl_num_cols_actual_peak_luminance :: nat
  pl_actual_peak_luminance :: "nat list list"

record AL_TTargetedSystemDisplay_ST2094_40 =
  ts_maximum_luminance :: nat
  ts_peak_luminance :: AL_TDisplayPeakLuminance_ST2094_40

record AL_TToneMapping_ST2094_40 =
  tm_tone_mapping_flag :: bool
  tm_knee_point_x :: nat
  tm_knee_point_y :: nat
  tm_num_bezier_curve_anchors :: nat
  tm_bezier_curve_anchors :: "nat list"

record AL_TProcessingWindowTransform_ST2094_40 =
  wt_maxscl :: "nat list"
  wt_average_maxrgb :: nat
  wt_num_distribution_maxrgb_percentiles :: nat
  wt_distribution_maxrgb_percentages :: "nat list"
  wt_distribution_maxrgb_percentiles :: "nat list"
  wt_fraction_bright_pixels :: nat
  wt_tone_mapping :: AL_TToneMapping_ST2094_40
  wt_color_saturation_mapping_flag :: bool
  wt_color_saturation_weight :: nat

record AL_TDynamicMeta_ST2094_40 =
  st40_application_version :: nat
  st40_num_windows :: nat
  st40_processing_windows :: "AL_TProcessingWindow_ST2094_40 list"
  st40_targeted_system_display :: AL_TTargetedSystemDisplay_ST2094_40
  st40_mastering_display_peak_luminance :: AL_TDisplayPeakLuminance_ST2094_40
  st40_processing_window_transforms :: "AL_TProcessingWindowTransform_ST2094_40 list"

record AL_THDRSEIs =
  hdr_bHasMDCV :: bool
  hdr_tMDCV :: AL_TMasteringDisplayColourVolume
  hdr_bHasCLL :: bool
  hdr_tCLL :: AL_TContentLightLevel
  hdr_bHasATC :: bool
  hdr_tATC :: AL_TAlternativeTransferCharacteristics
  hdr_bHasST2094_10 :: bool
  hdr_tST2094_10 :: AL_TDynamicMeta_ST2094_10
  hdr_bHasST2094_40 :: bool
  hdr_tST2094_40 :: AL_TDynamicMeta_ST2094_40

definition SEI_PTYPE_BUFFERING_PERIOD :: nat where "SEI_PTYPE_BUFFERING_PERIOD = 0"
definition SEI_PTYPE_PIC_TIMING :: nat where "SEI_PTYPE_PIC_TIMING = 1"
definition SEI_PTYPE_USER_DATA_REGISTERED :: nat where "SEI_PTYPE_USER_DATA_REGISTERED = 4"
definition SEI_PTYPE_USER_DATA_UNREGISTERED :: nat where "SEI_PTYPE_USER_DATA_UNREGISTERED = 5"
definition SEI_PTYPE_RECOVERY_POINT :: nat where "SEI_PTYPE_RECOVERY_POINT = 6"
definition SEI_PTYPE_MASTERING_DISPLAY_COLOUR_VOLUME :: nat where "SEI_PTYPE_MASTERING_DISPLAY_COLOUR_VOLUME = 137"
definition SEI_PTYPE_CONTENT_LIGHT_LEVEL :: nat where "SEI_PTYPE_CONTENT_LIGHT_LEVEL = 144"
definition SEI_PTYPE_ALTERNATIVE_TRANSFER_CHARACTERISTICS :: nat where "SEI_PTYPE_ALTERNATIVE_TRANSFER_CHARACTERISTICS = 147"

definition AL_TRANSFER_CHARAC_UNSPECIFIED :: nat where "AL_TRANSFER_CHARAC_UNSPECIFIED = 2"
definition AL_TRANSFER_CHARAC_MAX_ENUM :: nat where "AL_TRANSFER_CHARAC_MAX_ENUM = 19"

definition ALLEGRO_NUM_SLICES_SEI_UUID :: "nat list" where
  "ALLEGRO_NUM_SLICES_SEI_UUID = [0xb1, 0xe1, 0x67, 0xa4, 0xd9, 0xca, 0x11, 0xe7, 0xb1, 0x9b, 0x00, 0x50, 0xc2, 0x49, 0x00, 0x48]"

section \<open>The frame of a message\<close>

definition AL_RbspEncoding_BeginSEI :: "nat \<Rightarrow> BitStreamLite \<Rightarrow> (nat \<times> BitStreamLite) option" where
  "AL_RbspEncoding_BeginSEI uPayloadType bs = do {
     bs \<leftarrow> AL_BitStreamLite_PutBits bs 8 (word_of_nat uPayloadType);
     let bookmarkSEI = AL_BitStreamLite_GetBitsCount bs;
     if bookmarkSEI mod 8 \<noteq> 0 then None else do {
     bs \<leftarrow> AL_BitStreamLite_PutBits bs 8 0xFF;
     Some (bookmarkSEI, bs) }}"

text \<open>The size is stored in one byte over the \<open>0xFF\<close> that marks its place.\<close>

definition AL_RbspEncoding_EndSEI :: "nat \<Rightarrow> BitStreamLite \<Rightarrow> BitStreamLite option" where
  "AL_RbspEncoding_EndSEI bookmarkSEI bs = do {
     b \<leftarrow> arr_get (AL_BitStreamLite_GetData bs) (int (bookmarkSEI div 8));
     if b \<noteq> 0xFF then None else do {
     let bits = AL_BitStreamLite_GetBitsCount bs - bookmarkSEI;
     if bits mod 8 \<noteq> 0 then None else
     Some (bs\<lparr>bs_pData := (bs_pData bs)[bookmarkSEI div 8 := word_of_int (int (bits div 8) - 1)]\<rparr>) }}"

definition AL_RbspEncoding_CloseSEI :: "BitStreamLite \<Rightarrow> BitStreamLite option" where
  "AL_RbspEncoding_CloseSEI = write_trailing"

text \<open>A type or a size in bytes of 255 and a rest; the argument is not negative.\<close>

function PutUV :: "nat \<Rightarrow> BitStreamLite \<Rightarrow> BitStreamLite option" where
  "PutUV iValue bs =
     (if iValue > 255 then do { bs \<leftarrow> wr_u 8 0xFF bs; PutUV (iValue - 255) bs }
      else wr_u 8 iValue bs)"
  by pat_completeness auto
termination by (relation "measure fst") auto

declare PutUV.simps [simp del]

definition AL_RbspEncoding_BeginSEI2 :: "nat \<Rightarrow> nat \<Rightarrow> BitStreamLite \<Rightarrow> BitStreamLite option" where
  "AL_RbspEncoding_BeginSEI2 iPayloadType iPayloadSize = (\<lambda>bs. do {
     bs \<leftarrow> PutUV iPayloadType bs;
     PutUV iPayloadSize bs })"

text \<open>A single bit and a signed element.\<close>

definition wr_bit :: "nat \<Rightarrow> BitStreamLite \<Rightarrow> BitStreamLite option" where
  "wr_bit k = (\<lambda>bs. AL_BitStreamLite_PutBit bs (word_of_nat k))"

definition wr_i :: "nat \<Rightarrow> int \<Rightarrow> BitStreamLite \<Rightarrow> BitStreamLite option" where
  "wr_i n i = (\<lambda>bs. AL_BitStreamLite_PutI bs n i)"

text \<open>A message of type \<open>uPayloadType\<close> around a payload; every message but the number of slices ends it so.\<close>

definition put_message :: "nat \<Rightarrow> (BitStreamLite \<Rightarrow> BitStreamLite option) \<Rightarrow> BitStreamLite \<Rightarrow> BitStreamLite option" where
  "put_message uPayloadType payload = (\<lambda>bs. do {
     (bookmark, bs) \<leftarrow> AL_RbspEncoding_BeginSEI uPayloadType bs;
     bs \<leftarrow> payload bs;
     bs \<leftarrow> AL_BitStreamLite_EndOfSEIPayload bs;
     AL_RbspEncoding_EndSEI bookmark bs })"

section \<open>Messages of both codecs\<close>

definition AL_RbspEncoding_WriteAUD :: "nat \<Rightarrow> BitStreamLite \<Rightarrow> BitStreamLite option" where
  "AL_RbspEncoding_WriteAUD eType = (\<lambda>bs.
     if \<not> eType < 9 then None else do {
     bs \<leftarrow> wr_u 3 ([2, 1, 0, 4, 3, 7, 1, 7, 7] ! eType) bs;
     write_trailing bs })"

definition AL_RbspEncoding_WriteAllegroNumSlicesSEI :: "nat \<Rightarrow> BitStreamLite \<Rightarrow> BitStreamLite option" where
  "AL_RbspEncoding_WriteAllegroNumSlicesSEI numSlices = (\<lambda>bs. do {
     (bookmark, bs) \<leftarrow> AL_RbspEncoding_BeginSEI SEI_PTYPE_USER_DATA_UNREGISTERED bs;
     bs \<leftarrow> foldM (\<lambda>i. wr_u 8 (ALLEGRO_NUM_SLICES_SEI_UUID ! i)) [0..<16] bs;
     bs \<leftarrow> wr_u 8 numSlices bs;
     bs \<leftarrow> AL_RbspEncoding_EndSEI bookmark bs;
     AL_RbspEncoding_CloseSEI bs })"

definition write_mdcv :: "AL_TMasteringDisplayColourVolume \<Rightarrow> BitStreamLite \<Rightarrow> BitStreamLite option" where
  "write_mdcv m = (\<lambda>bs. do {
     bs \<leftarrow> foldM (\<lambda>c bs. do {
       bs \<leftarrow> wr_u 16 (cc_x (mdcv_display_primaries m ! c)) bs;
       wr_u 16 (cc_y (mdcv_display_primaries m ! c)) bs }) [0..<3] bs;
     bs \<leftarrow> wr_u 16 (cc_x (mdcv_white_point m)) bs;
     bs \<leftarrow> wr_u 16 (cc_y (mdcv_white_point m)) bs;
     bs \<leftarrow> wr_u 32 (mdcv_max_display_mastering_luminance m) bs;
     wr_u 32 (mdcv_min_display_mastering_luminance m) bs })"

definition AL_RbspEncoding_WriteMasteringDisplayColourVolume :: "AL_TMasteringDisplayColourVolume \<Rightarrow> BitStreamLite \<Rightarrow> BitStreamLite option" where
  "AL_RbspEncoding_WriteMasteringDisplayColourVolume m = put_message SEI_PTYPE_MASTERING_DISPLAY_COLOUR_VOLUME (write_mdcv m)"

definition AL_RbspEncoding_WriteContentLightLevel :: "AL_TContentLightLevel \<Rightarrow> BitStreamLite \<Rightarrow> BitStreamLite option" where
  "AL_RbspEncoding_WriteContentLightLevel c = put_message SEI_PTYPE_CONTENT_LIGHT_LEVEL (\<lambda>bs. do {
     bs \<leftarrow> wr_u 16 (cll_max_content_light_level c) bs;
     wr_u 16 (cll_max_pic_average_light_level c) bs })"

definition AL_TransferCharacteristicsToVUIValue :: "nat \<Rightarrow> nat option" where
  "AL_TransferCharacteristicsToVUIValue e = (if e = AL_TRANSFER_CHARAC_MAX_ENUM then None else Some e)"

definition write_atc :: "AL_TAlternativeTransferCharacteristics \<Rightarrow> BitStreamLite \<Rightarrow> BitStreamLite option" where
  "write_atc a = (\<lambda>bs. do {
     v \<leftarrow> AL_TransferCharacteristicsToVUIValue (atc_preferred_transfer_characteristics a);
     wr_u 8 v bs })"

definition AL_RbspEncoding_WriteAlternativeTransferCharacteristics :: "AL_TAlternativeTransferCharacteristics \<Rightarrow> BitStreamLite \<Rightarrow> BitStreamLite option" where
  "AL_RbspEncoding_WriteAlternativeTransferCharacteristics a = put_message SEI_PTYPE_ALTERNATIVE_TRANSFER_CHARACTERISTICS (write_atc a)"

text \<open>The blocks of ST 2094-10: the characteristics of the image, the manual adjustments, the window.\<close>

definition write_st10_image :: "AL_TImageCharacteristics_ST2094_10 \<Rightarrow> BitStreamLite \<Rightarrow> BitStreamLite option" where
  "write_st10_image c = (\<lambda>bs. do {
     bs \<leftarrow> wr_ue 5 bs;
     bs \<leftarrow> wr_u 8 1 bs;
     bs \<leftarrow> wr_u 12 (ic_min_pq c) bs;
     bs \<leftarrow> wr_u 12 (ic_max_pq c) bs;
     bs \<leftarrow> wr_u 12 (ic_avg_pq c) bs;
     wr_u 4 0 bs })"

definition write_st10_adjustment :: "AL_TManualAdjustment_ST2094_10 \<Rightarrow> BitStreamLite \<Rightarrow> BitStreamLite option" where
  "write_st10_adjustment m = (\<lambda>bs. do {
     bs \<leftarrow> wr_ue 11 bs;
     bs \<leftarrow> wr_u 8 2 bs;
     bs \<leftarrow> wr_u 12 (ma_target_max_pq m) bs;
     bs \<leftarrow> wr_u 12 (ma_trim_slope m) bs;
     bs \<leftarrow> wr_u 12 (ma_trim_offset m) bs;
     bs \<leftarrow> wr_u 12 (ma_trim_power m) bs;
     bs \<leftarrow> wr_u 12 (ma_trim_chroma_weight m) bs;
     bs \<leftarrow> wr_u 12 (ma_trim_saturation_gain m) bs;
     bs \<leftarrow> wr_i 13 (ma_ms_weight m) bs;
     wr_u 3 0 bs })"

definition write_st10_window :: "AL_TProcessingWindow_ST2094_10 \<Rightarrow> BitStreamLite \<Rightarrow> BitStreamLite option" where
  "write_st10_window w = (\<lambda>bs. do {
     bs \<leftarrow> wr_ue 7 bs;
     bs \<leftarrow> wr_u 8 5 bs;
     bs \<leftarrow> wr_u 13 (pw10_active_area_left_offset w) bs;
     bs \<leftarrow> wr_u 13 (pw10_active_area_right_offset w) bs;
     bs \<leftarrow> wr_u 13 (pw10_active_area_top_offset w) bs;
     bs \<leftarrow> wr_u 13 (pw10_active_area_bottom_offset w) bs;
     wr_u 4 0 bs })"

definition write_st10_head :: "AL_TDynamicMeta_ST2094_10 \<Rightarrow> BitStreamLite \<Rightarrow> BitStreamLite option" where
  "write_st10_head m = (\<lambda>bs. do {
     bs \<leftarrow> wr_u 8 0xB5 bs;
     bs \<leftarrow> wr_u 16 0x3B bs;
     bs \<leftarrow> wr_u 32 0 bs;
     bs \<leftarrow> wr_u 8 9 bs;
     bs \<leftarrow> wr_ue 1 bs;
     bs \<leftarrow> wr_ue (st10_application_version m) bs;
     bs \<leftarrow> wr_bit 1 bs;
     wr_ue (st10_num_manual_adjustments m + 1 + (if st10_processing_window_flag m then 1 else 0)) bs })"

definition AL_RbspEncoding_WriteST2094_10 :: "AL_TDynamicMeta_ST2094_10 \<Rightarrow> BitStreamLite \<Rightarrow> BitStreamLite option" where
  "AL_RbspEncoding_WriteST2094_10 m = put_message SEI_PTYPE_USER_DATA_REGISTERED (\<lambda>bs. do {
     bs \<leftarrow> write_st10_head m bs;
     bs \<leftarrow> AL_BitStreamLite_AlignWithBits bs 0;
     bs \<leftarrow> write_st10_image (st10_image_characteristics m) bs;
     bs \<leftarrow> foldM (\<lambda>i. write_st10_adjustment (st10_manual_adjustments m ! i)) [0..<st10_num_manual_adjustments m] bs;
     bs \<leftarrow> (if st10_processing_window_flag m then write_st10_window (st10_processing_window m) bs else Some bs);
     bs \<leftarrow> AL_BitStreamLite_AlignWithBits bs 0;
     wr_u 8 0xFF bs })"

definition flag :: "bool \<Rightarrow> nat" where
  "flag b = (if b then 1 else 0)"

definition WriteST2094_40_PeakLuminance :: "AL_TDisplayPeakLuminance_ST2094_40 \<Rightarrow> BitStreamLite \<Rightarrow> BitStreamLite option" where
  "WriteST2094_40_PeakLuminance p = (\<lambda>bs. do {
     bs \<leftarrow> wr_bit (flag (pl_actual_peak_luminance_flag p)) bs;
     if pl_actual_peak_luminance_flag p then do {
       bs \<leftarrow> wr_u 5 (pl_num_rows_actual_peak_luminance p) bs;
       bs \<leftarrow> wr_u 5 (pl_num_cols_actual_peak_luminance p) bs;
       foldM (\<lambda>i. foldM (\<lambda>j. wr_u 4 (pl_actual_peak_luminance p ! i ! j)) [0..<pl_num_cols_actual_peak_luminance p])
         [0..<pl_num_rows_actual_peak_luminance p] bs }
     else Some bs })"

definition write_st40_window :: "AL_TProcessingWindow_ST2094_40 \<Rightarrow> BitStreamLite \<Rightarrow> BitStreamLite option" where
  "write_st40_window w = (\<lambda>bs. do {
     bs \<leftarrow> wr_u 16 (pw1_upper_left_corner_x (pw40_base_processing_window w)) bs;
     bs \<leftarrow> wr_u 16 (pw1_upper_left_corner_y (pw40_base_processing_window w)) bs;
     bs \<leftarrow> wr_u 16 (pw1_lower_right_corner_x (pw40_base_processing_window w)) bs;
     bs \<leftarrow> wr_u 16 (pw1_lower_right_corner_y (pw40_base_processing_window w)) bs;
     bs \<leftarrow> wr_u 16 (pw40_center_of_ellipse_x w) bs;
     bs \<leftarrow> wr_u 16 (pw40_center_of_ellipse_y w) bs;
     bs \<leftarrow> wr_u 8 (pw40_rotation_angle w) bs;
     bs \<leftarrow> wr_u 16 (pw40_semimajor_axis_internal_ellipse w) bs;
     bs \<leftarrow> wr_u 16 (pw40_semimajor_axis_external_ellipse w) bs;
     bs \<leftarrow> wr_u 16 (pw40_semiminor_axis_external_ellipse w) bs;
     wr_u 1 (pw40_overlap_process_option w) bs })"

definition write_st40_transform :: "AL_TProcessingWindowTransform_ST2094_40 \<Rightarrow> BitStreamLite \<Rightarrow> BitStreamLite option" where
  "write_st40_transform t = (\<lambda>bs. do {
     bs \<leftarrow> foldM (\<lambda>i. wr_u 17 (wt_maxscl t ! i)) [0..<3] bs;
     bs \<leftarrow> wr_u 17 (wt_average_maxrgb t) bs;
     bs \<leftarrow> wr_u 4 (wt_num_distribution_maxrgb_percentiles t) bs;
     bs \<leftarrow> foldM (\<lambda>i bs. do {
       bs \<leftarrow> wr_u 7 (wt_distribution_maxrgb_percentages t ! i) bs;
       wr_u 17 (wt_distribution_maxrgb_percentiles t ! i) bs }) [0..<wt_num_distribution_maxrgb_percentiles t] bs;
     wr_u 10 (wt_fraction_bright_pixels t) bs })"

definition write_st40_mapping :: "AL_TProcessingWindowTransform_ST2094_40 \<Rightarrow> BitStreamLite \<Rightarrow> BitStreamLite option" where
  "write_st40_mapping t = (\<lambda>bs. do {
     let m = wt_tone_mapping t;
     bs \<leftarrow> wr_bit (flag (tm_tone_mapping_flag m)) bs;
     bs \<leftarrow> (if tm_tone_mapping_flag m then do {
         bs \<leftarrow> wr_u 12 (tm_knee_point_x m) bs;
         bs \<leftarrow> wr_u 12 (tm_knee_point_y m) bs;
         bs \<leftarrow> wr_u 4 (tm_num_bezier_curve_anchors m) bs;
         foldM (\<lambda>i. wr_u 10 (tm_bezier_curve_anchors m ! i)) [0..<tm_num_bezier_curve_anchors m] bs }
       else Some bs);
     bs \<leftarrow> wr_bit (flag (wt_color_saturation_mapping_flag t)) bs;
     if wt_color_saturation_mapping_flag t then wr_u 6 (wt_color_saturation_weight t) bs else Some bs })"

definition write_st40 :: "AL_TDynamicMeta_ST2094_40 \<Rightarrow> BitStreamLite \<Rightarrow> BitStreamLite option" where
  "write_st40 m = (\<lambda>bs. do {
     bs \<leftarrow> wr_u 8 0xB5 bs;
     bs \<leftarrow> wr_u 16 0x3C bs;
     bs \<leftarrow> wr_u 16 1 bs;
     bs \<leftarrow> wr_u 8 4 bs;
     bs \<leftarrow> wr_u 8 (st40_application_version m) bs;
     bs \<leftarrow> wr_u 2 (st40_num_windows m) bs;
     bs \<leftarrow> foldM (\<lambda>i. write_st40_window (st40_processing_windows m ! i)) [0..<st40_num_windows m - 1] bs;
     bs \<leftarrow> wr_u 27 (ts_maximum_luminance (st40_targeted_system_display m)) bs;
     bs \<leftarrow> WriteST2094_40_PeakLuminance (ts_peak_luminance (st40_targeted_system_display m)) bs;
     bs \<leftarrow> foldM (\<lambda>i. write_st40_transform (st40_processing_window_transforms m ! i)) [0..<st40_num_windows m] bs;
     bs \<leftarrow> WriteST2094_40_PeakLuminance (st40_mastering_display_peak_luminance m) bs;
     foldM (\<lambda>i. write_st40_mapping (st40_processing_window_transforms m ! i)) [0..<st40_num_windows m] bs })"

definition AL_RbspEncoding_WriteST2094_40 :: "AL_TDynamicMeta_ST2094_40 \<Rightarrow> BitStreamLite \<Rightarrow> BitStreamLite option" where
  "AL_RbspEncoding_WriteST2094_40 m = put_message SEI_PTYPE_USER_DATA_REGISTERED (write_st40 m)"

section \<open>Messages of AVC\<close>

definition write_delays :: "AL_TAvcSeqPar \<Rightarrow> nat \<Rightarrow> nat \<Rightarrow> BitStreamLite \<Rightarrow> BitStreamLite option" where
  "write_delays s iCpbInitialDelay iCpbInitialOffset = (\<lambda>bs.
     let h = vui_hrd_param (sps_vui_param s); iInitialCpbLength = hrd_initial_cpb_removal_delay_length_minus1 h + 1 in
     foldM (\<lambda>i bs. do {
       bs \<leftarrow> wr_u iInitialCpbLength iCpbInitialDelay bs;
       wr_u iInitialCpbLength iCpbInitialOffset bs }) [0..<Suc (hrd_cpb_cnt_minus1 h ! 0)] bs)"

definition write_buffering_period :: "AL_TAvcSeqPar \<Rightarrow> nat \<Rightarrow> nat \<Rightarrow> BitStreamLite \<Rightarrow> BitStreamLite option" where
  "write_buffering_period s iCpbInitialDelay iCpbInitialOffset = (\<lambda>bs. do {
     bs \<leftarrow> wr_ue (sps_seq_parameter_set_id s) bs;
     bs \<leftarrow> (if hrd_nal_hrd_parameters_present_flag (vui_hrd_param (sps_vui_param s)) \<noteq> 0
       then write_delays s iCpbInitialDelay iCpbInitialOffset bs else Some bs);
     if hrd_vcl_hrd_parameters_present_flag (vui_hrd_param (sps_vui_param s)) \<noteq> 0
       then write_delays s iCpbInitialDelay iCpbInitialOffset bs else Some bs })"

definition writeSeiBufferingPeriod :: "AL_TAvcSeqPar \<Rightarrow> nat \<Rightarrow> nat \<Rightarrow> BitStreamLite \<Rightarrow> BitStreamLite option" where
  "writeSeiBufferingPeriod s iCpbInitialDelay iCpbInitialOffset =
     put_message SEI_PTYPE_BUFFERING_PERIOD (write_buffering_period s iCpbInitialDelay iCpbInitialOffset)"

definition write_recovery_point :: "int \<Rightarrow> BitStreamLite \<Rightarrow> BitStreamLite option" where
  "write_recovery_point iRecoveryFrameCnt = (\<lambda>bs. do {
     bs \<leftarrow> wr_ue_int iRecoveryFrameCnt bs;
     bs \<leftarrow> wr_bit 1 bs;
     bs \<leftarrow> wr_bit 0 bs;
     wr_u 2 0 bs })"

definition writeSeiRecoveryPoint :: "int \<Rightarrow> BitStreamLite \<Rightarrow> BitStreamLite option" where
  "writeSeiRecoveryPoint iRecoveryFrameCnt = put_message SEI_PTYPE_RECOVERY_POINT (write_recovery_point iRecoveryFrameCnt)"

definition PicStructToNumClockTS :: "nat list" where
  "PicStructToNumClockTS = [1, 1, 1, 2, 2, 3, 3, 2, 3]"

definition write_picture_timing :: "AL_TAvcSeqPar \<Rightarrow> nat \<Rightarrow> nat \<Rightarrow> nat \<Rightarrow> BitStreamLite \<Rightarrow> BitStreamLite option" where
  "write_picture_timing s iCpbRemovalDelay iDpbOutputDelay iPicStruct = (\<lambda>bs. do {
     let h = vui_hrd_param (sps_vui_param s);
     bs \<leftarrow> (if hrd_nal_hrd_parameters_present_flag h \<noteq> 0 \<or> hrd_vcl_hrd_parameters_present_flag h \<noteq> 0 then do {
         bs \<leftarrow> wr_u (hrd_au_cpb_removal_delay_length_minus1 h + 1) iCpbRemovalDelay bs;
         wr_u (hrd_au_cpb_removal_delay_length_minus1 h + 1) iDpbOutputDelay bs }
       else Some bs);
     if vui_pic_struct_present_flag (sps_vui_param s) \<noteq> 0 then do {
       bs \<leftarrow> wr_u 4 iPicStruct bs;
       if \<not> iPicStruct \<le> 8 then None else wr_u (PicStructToNumClockTS ! iPicStruct) 0 bs }
     else Some bs })"

definition writeSeiPictureTiming :: "AL_TAvcSeqPar \<Rightarrow> nat \<Rightarrow> nat \<Rightarrow> nat \<Rightarrow> BitStreamLite \<Rightarrow> BitStreamLite option" where
  "writeSeiPictureTiming s iCpbRemovalDelay iDpbOutputDelay iPicStruct =
     put_message SEI_PTYPE_PIC_TIMING (write_picture_timing s iCpbRemovalDelay iDpbOutputDelay iPicStruct)"

section \<open>The messages of a unit\<close>

text \<open>The context of \<open>seiPrefixWrite\<close>, with the fields of the status of the picture that it reads.\<close>

record AL_TSeiPrefixCtx =
  sx_sps :: AL_TAvcSeqPar
  sx_cpbInitialRemovalDelay :: nat
  sx_cpbRemovalDelay :: nat
  sx_eFlags :: u32
  sx_iRecoveryCnt :: int
  sx_uDpbOutputDelay :: nat
  sx_ePicStruct :: nat
  sx_pHDRSEIs :: "AL_THDRSEIs option"

text \<open>One message: the first flag that is set, in the order of the code, is written and cleared.\<close>

definition seiPrefixWrite_turn :: "AL_TSeiPrefixCtx \<Rightarrow> u32 \<Rightarrow> BitStreamLite \<Rightarrow> (u32 \<times> BitStreamLite) option" where
  "seiPrefixWrite_turn ctx eFlags bs =
     (let hdr = (\<lambda>W. do { h \<leftarrow> sx_pHDRSEIs ctx; W h bs });
          clear = (\<lambda>f. map_option (Pair (eFlags AND NOT f))) in
      if eFlags AND 1 \<noteq> 0 then clear 1 (writeSeiBufferingPeriod (sx_sps ctx) (sx_cpbInitialRemovalDelay ctx) 0 bs)
      else if eFlags AND 4 \<noteq> 0 then clear 4 (writeSeiRecoveryPoint (sx_iRecoveryCnt ctx) bs)
      else if eFlags AND 2 \<noteq> 0 then clear 2 (writeSeiPictureTiming (sx_sps ctx) (sx_cpbRemovalDelay ctx) (sx_uDpbOutputDelay ctx) (sx_ePicStruct ctx) bs)
      else if eFlags AND 8 \<noteq> 0 then clear 8 (hdr (\<lambda>h. AL_RbspEncoding_WriteMasteringDisplayColourVolume (hdr_tMDCV h)))
      else if eFlags AND 0x10 \<noteq> 0 then clear 0x10 (hdr (\<lambda>h. AL_RbspEncoding_WriteContentLightLevel (hdr_tCLL h)))
      else if eFlags AND 0x20 \<noteq> 0 then clear 0x20 (hdr (\<lambda>h. AL_RbspEncoding_WriteAlternativeTransferCharacteristics (hdr_tATC h)))
      else if eFlags AND 0x40 \<noteq> 0 then clear 0x40 (hdr (\<lambda>h. AL_RbspEncoding_WriteST2094_10 (hdr_tST2094_10 h)))
      else if eFlags AND 0x80 \<noteq> 0 then clear 0x80 (hdr (\<lambda>h. AL_RbspEncoding_WriteST2094_40 (hdr_tST2094_40 h)))
      else Some (eFlags, bs))"

text \<open>With a flag that no branch clears, the loop does not end.\<close>

partial_function (option) seiPrefixWrite_loop :: "AL_TSeiPrefixCtx \<Rightarrow> u32 \<Rightarrow> BitStreamLite \<Rightarrow> BitStreamLite option" where
  "seiPrefixWrite_loop ctx eFlags bs =
     (if eFlags = 0 then Some bs
      else Option.bind (seiPrefixWrite_turn ctx eFlags bs) (\<lambda>(eFlags, bs).
        Option.bind (if eFlags = 0 then AL_RbspEncoding_CloseSEI bs else Some bs) (\<lambda>bs.
          seiPrefixWrite_loop ctx eFlags bs)))"

definition seiPrefixWrite :: "AL_TSeiPrefixCtx \<Rightarrow> BitStreamLite \<Rightarrow> BitStreamLite option" where
  "seiPrefixWrite ctx = seiPrefixWrite_loop ctx (sx_eFlags ctx)"

definition seiExternalWrite :: "nat \<Rightarrow> nat \<Rightarrow> u8 list \<Rightarrow> BitStreamLite \<Rightarrow> BitStreamLite option" where
  "seiExternalWrite iPayloadType iPayloadSize pPayload = (\<lambda>bs. do {
     bs \<leftarrow> AL_RbspEncoding_BeginSEI2 iPayloadType iPayloadSize bs;
     let cur = AL_BitStreamLite_GetBitsCount bs div 8;
     let bs = AL_BitStreamLite_SkipBits bs (8 * iPayloadSize);
     bs \<leftarrow> (if \<not> bs_isOverflow bs
       then (if iPayloadSize \<le> length pPayload \<and> cur + iPayloadSize \<le> length (bs_pData bs)
         then Some (bs\<lparr>bs_pData := take cur (bs_pData bs) @ take iPayloadSize pPayload @ drop (cur + iPayloadSize) (bs_pData bs)\<rparr>)
         else None)
       else Some bs);
     AL_RbspEncoding_CloseSEI bs })"

end
