(* ===== verification/Sei_Parse.thy ===== *)
theory Sei_Parse
  imports Avc_Pps Avc_Type Sei_Write
begin

text \<open>
  The parser of supplemental enhancement information: \<open>lib_parsing/SeiParser.c\<close>, the messages of AVC in
  \<open>lib_parsing/AvcParser.c\<close>, and the list of messages of \<open>lib_common/BufferSeiMeta.c\<close>. A function that
  fills a structure through a pointer takes and returns it. A pointer into the buffer of the
  parser is its offset, and the calls of the user's function are a log.
\<close>

section \<open>Structures\<close>

datatype AL_ESeiParseResult = AL_SEI_PARSE_RESULT_UNKNOWN_SEI | AL_SEI_PARSE_RESULT_PARSED | AL_SEI_PARSE_RESULT_PARSING_ERROR

type_synonym 's sei_part = "'s \<Rightarrow> AL_TRbspParser \<Rightarrow> ((AL_ESeiParseResult \<times> 's) \<times> AL_TRbspParser) option"

record AL_TRecoveryPoint =
  rpt_recovery_cnt :: int
  rpt_exact_match :: bool
  rpt_broken_link :: bool

record AL_TAvcBufPeriod =
  bp_seq_parameter_set_id :: nat
  bp_initial_cpb_removal_delay :: "nat list"
  bp_initial_cpb_removal_delay_offset :: "nat list"

text \<open>\<open>AL_TAup\<close> of an AVC stream; \<open>pActiveSPS\<close> is the index of the set it points to.\<close>

record AL_TAup = AL_TAvcAup +
  aup_pActiveSPS :: "nat option"
  aup_iRecoveryCnt :: int
  aup_tParsedHDRSEIs :: AL_THDRSEIs

record AL_TSeiMessage =
  sm_bPrefix :: bool
  sm_type :: nat
  sm_pData :: nat
  sm_size :: nat

record AL_TSeiMetaData =
  sd_maxPayload :: nat
  sd_payload :: "AL_TSeiMessage list"

text \<open>The output of the parser context: the access unit, the meta data if any, the calls of the callback if any.\<close>

record AL_TSeiParserCtx =
  sc_pOutputAup :: AL_TAup
  sc_pOutputMeta :: "AL_TSeiMetaData option"
  sc_pSeiParsedCallback :: "AL_TSeiMessage list option"

definition AL_SeiMetaData_AddPayload :: "AL_TSeiMetaData \<Rightarrow> AL_TSeiMessage \<Rightarrow> bool \<times> AL_TSeiMetaData" where
  "AL_SeiMetaData_AddPayload pMeta payload =
     (if length (sd_payload pMeta) + 1 > sd_maxPayload pMeta then (False, pMeta)
      else (True, pMeta\<lparr>sd_payload := sd_payload pMeta @ [payload]\<rparr>))"

definition get_raw_data :: "AL_TRbspParser \<Rightarrow> nat" where
  "get_raw_data rp = rp_iCurrentBitIndex rp div 8"

section \<open>Messages of both codecs\<close>

definition SeiRecoveryPoint :: "AL_TRbspParser \<Rightarrow> ((AL_ESeiParseResult \<times> AL_TRecoveryPoint) \<times> AL_TRbspParser) option" where
  "SeiRecoveryPoint = (\<lambda>rp. do {
     (r, rp) \<leftarrow> rd_ue_int (\<lambda>k. \<lparr>rpt_recovery_cnt = k, rpt_exact_match = False, rpt_broken_link = False\<rparr>) rp;
     (r, rp) \<leftarrow> rd_u 1 U32 (\<lambda>k. r\<lparr>rpt_exact_match := k \<noteq> 0\<rparr>) rp;
     (r, rp) \<leftarrow> rd_u 1 U32 (\<lambda>k. r\<lparr>rpt_broken_link := k \<noteq> 0\<rparr>) rp;
     rd_u 2 U32 (\<lambda>_. (AL_SEI_PARSE_RESULT_PARSED, r)) rp })"

definition zero_cc :: AL_TChromaCoordinates where
  "zero_cc = \<lparr>cc_x = 0, cc_y = 0\<rparr>"

definition zero_mdcv :: AL_TMasteringDisplayColourVolume where
  "zero_mdcv = \<lparr>mdcv_display_primaries = replicate 3 zero_cc, mdcv_white_point = zero_cc,
     mdcv_max_display_mastering_luminance = 0, mdcv_min_display_mastering_luminance = 0\<rparr>"

definition mdcv_primary :: "nat \<Rightarrow> AL_TMasteringDisplayColourVolume \<Rightarrow> AL_TRbspParser \<Rightarrow> (AL_TMasteringDisplayColourVolume \<times> AL_TRbspParser) option" where
  "mdcv_primary c m = (\<lambda>rp. do {
     (x, rp) \<leftarrow> rd_u 16 U16 (\<lambda>k. (mdcv_display_primaries m ! c)\<lparr>cc_x := k\<rparr>) rp;
     rd_u 16 U16 (\<lambda>k. m\<lparr>mdcv_display_primaries := (mdcv_display_primaries m)[c := x\<lparr>cc_y := k\<rparr>]\<rparr>) rp })"

definition SeiMasteringDisplayColourVolume :: "AL_TRbspParser \<Rightarrow> ((AL_ESeiParseResult \<times> AL_TMasteringDisplayColourVolume) \<times> AL_TRbspParser) option" where
  "SeiMasteringDisplayColourVolume = (\<lambda>rp. do {
     (m, rp) \<leftarrow> for_reads mdcv_primary [0..<3] zero_mdcv rp;
     (m, rp) \<leftarrow> rd_u 16 U16 (\<lambda>k. m\<lparr>mdcv_white_point := (mdcv_white_point m)\<lparr>cc_x := k\<rparr>\<rparr>) rp;
     (m, rp) \<leftarrow> rd_u 16 U16 (\<lambda>k. m\<lparr>mdcv_white_point := (mdcv_white_point m)\<lparr>cc_y := k\<rparr>\<rparr>) rp;
     (m, rp) \<leftarrow> rd_u 32 U32 (\<lambda>k. m\<lparr>mdcv_max_display_mastering_luminance := k\<rparr>) rp;
     rd_u 32 U32 (\<lambda>k. (AL_SEI_PARSE_RESULT_PARSED, m\<lparr>mdcv_min_display_mastering_luminance := k\<rparr>)) rp })"

definition SeiContentLightLevel :: "AL_TRbspParser \<Rightarrow> ((AL_ESeiParseResult \<times> AL_TContentLightLevel) \<times> AL_TRbspParser) option" where
  "SeiContentLightLevel = (\<lambda>rp. do {
     (c, rp) \<leftarrow> rd_u 16 U16 (\<lambda>k. \<lparr>cll_max_content_light_level = k, cll_max_pic_average_light_level = 0\<rparr>) rp;
     rd_u 16 U16 (\<lambda>k. (AL_SEI_PARSE_RESULT_PARSED, c\<lparr>cll_max_pic_average_light_level := k\<rparr>)) rp })"

definition AL_VUIValueToTransferCharacteristics :: "nat \<Rightarrow> nat" where
  "AL_VUIValueToTransferCharacteristics k =
     (if k = 0 \<or> k = 3 \<or> k \<ge> AL_TRANSFER_CHARAC_MAX_ENUM then AL_TRANSFER_CHARAC_UNSPECIFIED else k)"

definition SeiAlternativeTransferCharacteristics :: "AL_TRbspParser \<Rightarrow> ((AL_ESeiParseResult \<times> AL_TAlternativeTransferCharacteristics) \<times> AL_TRbspParser) option" where
  "SeiAlternativeTransferCharacteristics =
     rd_u 8 U8 (\<lambda>k. (AL_SEI_PARSE_RESULT_PARSED, \<lparr>atc_preferred_transfer_characteristics = AL_VUIValueToTransferCharacteristics k\<rparr>))"

section \<open>ST 2094-10\<close>

definition rd_i :: "nat \<Rightarrow> (int \<Rightarrow> 'a) \<Rightarrow> AL_TRbspParser \<Rightarrow> ('a \<times> AL_TRbspParser) option" where
  "rd_i n F = (\<lambda>rp. do { (i, rp) \<leftarrow> i_code rp n; Some (F i, rp) })"

definition st10_image :: "AL_TDynamicMeta_ST2094_10 \<Rightarrow> AL_TRbspParser \<Rightarrow> (AL_TDynamicMeta_ST2094_10 \<times> AL_TRbspParser) option" where
  "st10_image s = (\<lambda>rp. do {
     (c, rp) \<leftarrow> rd_u 12 U16 (\<lambda>k. (st10_image_characteristics s)\<lparr>ic_min_pq := k\<rparr>) rp;
     (c, rp) \<leftarrow> rd_u 12 U16 (\<lambda>k. c\<lparr>ic_max_pq := k\<rparr>) rp;
     rd_u 12 U16 (\<lambda>k. s\<lparr>st10_image_characteristics := c\<lparr>ic_avg_pq := k\<rparr>\<rparr>) rp })"

definition st10_adjustment :: "AL_TDynamicMeta_ST2094_10 \<Rightarrow> AL_TRbspParser \<Rightarrow> (AL_TDynamicMeta_ST2094_10 \<times> AL_TRbspParser) option" where
  "st10_adjustment s = (\<lambda>rp. do {
     let n = st10_num_manual_adjustments s;
     (a, rp) \<leftarrow> rd_u 12 U16 (\<lambda>k. (st10_manual_adjustments s ! n)\<lparr>ma_target_max_pq := k\<rparr>) rp;
     (a, rp) \<leftarrow> rd_u 12 U16 (\<lambda>k. a\<lparr>ma_trim_slope := k\<rparr>) rp;
     (a, rp) \<leftarrow> rd_u 12 U16 (\<lambda>k. a\<lparr>ma_trim_offset := k\<rparr>) rp;
     (a, rp) \<leftarrow> rd_u 12 U16 (\<lambda>k. a\<lparr>ma_trim_power := k\<rparr>) rp;
     (a, rp) \<leftarrow> rd_u 12 U16 (\<lambda>k. a\<lparr>ma_trim_chroma_weight := k\<rparr>) rp;
     (a, rp) \<leftarrow> rd_u 12 U16 (\<lambda>k. a\<lparr>ma_trim_saturation_gain := k\<rparr>) rp;
     rd_i 13 (\<lambda>k. s\<lparr>st10_manual_adjustments := (st10_manual_adjustments s)[n := a\<lparr>ma_ms_weight := k\<rparr>],
       st10_num_manual_adjustments := n + 1\<rparr>) rp })"

definition st10_window :: "AL_TDynamicMeta_ST2094_10 \<Rightarrow> AL_TRbspParser \<Rightarrow> (AL_TDynamicMeta_ST2094_10 \<times> AL_TRbspParser) option" where
  "st10_window s = (\<lambda>rp. do {
     (w, rp) \<leftarrow> rd_u 13 U16 (\<lambda>k. (st10_processing_window s)\<lparr>pw10_active_area_left_offset := k\<rparr>) rp;
     (w, rp) \<leftarrow> rd_u 13 U16 (\<lambda>k. w\<lparr>pw10_active_area_right_offset := k\<rparr>) rp;
     (w, rp) \<leftarrow> rd_u 13 U16 (\<lambda>k. w\<lparr>pw10_active_area_top_offset := k\<rparr>) rp;
     rd_u 13 U16 (\<lambda>k. s\<lparr>st10_processing_window := w\<lparr>pw10_active_area_bottom_offset := k\<rparr>, st10_processing_window_flag := True\<rparr>) rp })"

text \<open>
  One block: \<open>None\<close> as a result is a parsing error, else the number of the bits used and whether the
  characteristics of the image have been parsed. The rest of a block is skipped; its length is
  computed in 16 bits and the difference in 32.
\<close>

definition st10_level :: "nat \<Rightarrow> nat \<Rightarrow> bool \<Rightarrow> AL_TDynamicMeta_ST2094_10 \<Rightarrow> AL_TRbspParser \<Rightarrow> (((nat \<times> bool) option \<times> AL_TDynamicMeta_ST2094_10) \<times> AL_TRbspParser) option" where
  "st10_level level len img s = (\<lambda>rp.
     if level = 1 then
       if img \<or> len < 5 then Some ((None, s), rp) else do { (s, rp) \<leftarrow> st10_image s rp; Some ((Some (36, True), s), rp) }
     else if level = 2 then
       if st10_num_manual_adjustments s > 15 \<or> len < 11 then Some ((None, s), rp)
       else do { (s, rp) \<leftarrow> st10_adjustment s rp; Some ((Some (85, img), s), rp) }
     else if level = 5 then
       if st10_processing_window_flag s \<or> len < 7 then Some ((None, s), rp)
       else do { (s, rp) \<leftarrow> st10_window s rp; Some ((Some (52, img), s), rp) }
     else Some ((Some (0, img), s), rp))"

fun st10_blocks :: "nat \<Rightarrow> bool \<Rightarrow> AL_TDynamicMeta_ST2094_10 sei_part" where
  "st10_blocks 0 img s rp = Some ((AL_SEI_PARSE_RESULT_PARSED, s), rp)"
| "st10_blocks (Suc n) img s rp = do {
     (len, rp) \<leftarrow> rd_ue U16 (\<lambda>k. k) rp;
     (level, rp) \<leftarrow> rd_u 8 U8 (\<lambda>k. k) rp;
     ((r, s), rp) \<leftarrow> st10_level level len img s rp;
     (case r of None \<Rightarrow> Some ((AL_SEI_PARSE_RESULT_PARSING_ERROR, s), rp)
      | Some (used, img) \<Rightarrow> do {
          rp \<leftarrow> skip rp (nat ((int (8 * len mod U16) - int used) mod 2 ^ 32));
          st10_blocks n img s rp }) }"

definition st10_end :: "AL_TDynamicMeta_ST2094_10 sei_part" where
  "st10_end s = (\<lambda>rp. do {
     (ok, rp) \<leftarrow> simple_byte_alignment rp 0;
     if \<not> ok then Some ((AL_SEI_PARSE_RESULT_PARSING_ERROR, s), rp) else do {
     rp \<leftarrow> skip rp 8;
     Some ((AL_SEI_PARSE_RESULT_PARSED, s), rp) }})"

definition st10_refresh :: "AL_TDynamicMeta_ST2094_10 sei_part" where
  "st10_refresh s = (\<lambda>rp. do {
     let s = s\<lparr>st10_processing_window_flag := False, st10_num_manual_adjustments := 0\<rparr>;
     (num_ext_block, rp) \<leftarrow> rd_ue U16 (\<lambda>k. k) rp;
     if \<not> num_ext_block > 0 then Some ((AL_SEI_PARSE_RESULT_PARSED, s), rp) else do {
     (ok, rp) \<leftarrow> simple_byte_alignment rp 0;
     if \<not> ok then Some ((AL_SEI_PARSE_RESULT_PARSING_ERROR, s), rp) else st10_blocks num_ext_block False s rp }})"

definition SeiSt2094_10 :: "AL_TDynamicMeta_ST2094_10 sei_part" where
  "SeiSt2094_10 s = (\<lambda>rp. do {
     (v, rp) \<leftarrow> rd_ue U32 (\<lambda>k. k) rp;
     if v \<noteq> 1 then Some ((AL_SEI_PARSE_RESULT_PARSING_ERROR, s), rp) else do {
     (s, rp) \<leftarrow> rd_ue U8 (\<lambda>k. s\<lparr>st10_application_version := k\<rparr>) rp;
     if st10_application_version s \<noteq> 0 then Some ((AL_SEI_PARSE_RESULT_UNKNOWN_SEI, s), rp) else do {
     (metadata_refresh_flag, rp) \<leftarrow> rd_u 1 U32 (\<lambda>k. k \<noteq> 0) rp;
     ((r, s), rp) \<leftarrow> (if metadata_refresh_flag then st10_refresh s rp else Some ((AL_SEI_PARSE_RESULT_PARSED, s), rp));
     if r \<noteq> AL_SEI_PARSE_RESULT_PARSED then Some ((r, s), rp) else st10_end s rp }}})"

section \<open>ST 2094-40\<close>

definition AL_MAX_ACTUAL_PEAK_LUMINANCE :: nat where "AL_MAX_ACTUAL_PEAK_LUMINANCE = 25"

text \<open>The table has 25 rows of 25 columns; the numbers of rows and columns are those of the stream.\<close>

definition peak_entry :: "nat \<Rightarrow> nat \<Rightarrow> nat list list \<Rightarrow> AL_TRbspParser \<Rightarrow> (nat list list \<times> AL_TRbspParser) option" where
  "peak_entry i j t = (\<lambda>rp. do {
     (k, rp) \<leftarrow> rd_u 4 U8 (\<lambda>k. k) rp;
     if i < AL_MAX_ACTUAL_PEAK_LUMINANCE \<and> j < AL_MAX_ACTUAL_PEAK_LUMINANCE then Some (t[i := (t ! i)[j := k]], rp) else None })"

definition SeiSt2094_40_peakluminance :: "AL_TDisplayPeakLuminance_ST2094_40 \<Rightarrow> AL_TRbspParser \<Rightarrow> (AL_TDisplayPeakLuminance_ST2094_40 \<times> AL_TRbspParser) option" where
  "SeiSt2094_40_peakluminance p = (\<lambda>rp. do {
     (p, rp) \<leftarrow> rd_u 1 U32 (\<lambda>k. p\<lparr>pl_actual_peak_luminance_flag := k \<noteq> 0\<rparr>) rp;
     if pl_actual_peak_luminance_flag p then do {
       (p, rp) \<leftarrow> rd_u 5 U8 (\<lambda>k. p\<lparr>pl_num_rows_actual_peak_luminance := k\<rparr>) rp;
       (p, rp) \<leftarrow> rd_u 5 U8 (\<lambda>k. p\<lparr>pl_num_cols_actual_peak_luminance := k\<rparr>) rp;
       (t, rp) \<leftarrow> for_reads (\<lambda>i. for_reads (peak_entry i) [0..<pl_num_cols_actual_peak_luminance p])
         [0..<pl_num_rows_actual_peak_luminance p] (pl_actual_peak_luminance p) rp;
       Some (p\<lparr>pl_actual_peak_luminance := t\<rparr>, rp) }
     else Some (p, rp) })"

definition st40_window :: "nat \<Rightarrow> AL_TProcessingWindow_ST2094_40 list \<Rightarrow> AL_TRbspParser \<Rightarrow> (AL_TProcessingWindow_ST2094_40 list \<times> AL_TRbspParser) option" where
  "st40_window iWin ws = (\<lambda>rp. do {
     let w = ws ! iWin;
     (b, rp) \<leftarrow> rd_u 16 U16 (\<lambda>k. (pw40_base_processing_window w)\<lparr>pw1_upper_left_corner_x := k\<rparr>) rp;
     (b, rp) \<leftarrow> rd_u 16 U16 (\<lambda>k. b\<lparr>pw1_upper_left_corner_y := k\<rparr>) rp;
     (b, rp) \<leftarrow> rd_u 16 U16 (\<lambda>k. b\<lparr>pw1_lower_right_corner_x := k\<rparr>) rp;
     (w, rp) \<leftarrow> rd_u 16 U16 (\<lambda>k. w\<lparr>pw40_base_processing_window := b\<lparr>pw1_lower_right_corner_y := k\<rparr>\<rparr>) rp;
     (w, rp) \<leftarrow> rd_u 16 U16 (\<lambda>k. w\<lparr>pw40_center_of_ellipse_x := k\<rparr>) rp;
     (w, rp) \<leftarrow> rd_u 16 U16 (\<lambda>k. w\<lparr>pw40_center_of_ellipse_y := k\<rparr>) rp;
     (w, rp) \<leftarrow> rd_u 8 U8 (\<lambda>k. w\<lparr>pw40_rotation_angle := k\<rparr>) rp;
     (w, rp) \<leftarrow> rd_u 16 U16 (\<lambda>k. w\<lparr>pw40_semimajor_axis_internal_ellipse := k\<rparr>) rp;
     (w, rp) \<leftarrow> rd_u 16 U16 (\<lambda>k. w\<lparr>pw40_semimajor_axis_external_ellipse := k\<rparr>) rp;
     (w, rp) \<leftarrow> rd_u 16 U16 (\<lambda>k. w\<lparr>pw40_semiminor_axis_external_ellipse := k\<rparr>) rp;
     rd_u 1 U8 (\<lambda>k. ws[iWin := w\<lparr>pw40_overlap_process_option := k\<rparr>]) rp })"

definition st40_percentile :: "nat \<Rightarrow> AL_TProcessingWindowTransform_ST2094_40 \<Rightarrow> AL_TRbspParser \<Rightarrow> (AL_TProcessingWindowTransform_ST2094_40 \<times> AL_TRbspParser) option" where
  "st40_percentile i t = (\<lambda>rp. do {
     (t, rp) \<leftarrow> rd_u 7 U8 (\<lambda>k. t\<lparr>wt_distribution_maxrgb_percentages := (wt_distribution_maxrgb_percentages t)[i := k]\<rparr>) rp;
     rd_u 17 U32 (\<lambda>k. t\<lparr>wt_distribution_maxrgb_percentiles := (wt_distribution_maxrgb_percentiles t)[i := k]\<rparr>) rp })"

definition st40_transform :: "nat \<Rightarrow> AL_TProcessingWindowTransform_ST2094_40 list \<Rightarrow> AL_TRbspParser \<Rightarrow> (AL_TProcessingWindowTransform_ST2094_40 list \<times> AL_TRbspParser) option" where
  "st40_transform iWin ts = (\<lambda>rp. do {
     (t, rp) \<leftarrow> for_reads (\<lambda>i t. rd_u 17 U32 (\<lambda>k. t\<lparr>wt_maxscl := (wt_maxscl t)[i := k]\<rparr>)) [0..<3] (ts ! iWin) rp;
     (t, rp) \<leftarrow> rd_u 17 U32 (\<lambda>k. t\<lparr>wt_average_maxrgb := k\<rparr>) rp;
     (t, rp) \<leftarrow> rd_u 4 U8 (\<lambda>k. t\<lparr>wt_num_distribution_maxrgb_percentiles := k\<rparr>) rp;
     (t, rp) \<leftarrow> for_reads st40_percentile [0..<wt_num_distribution_maxrgb_percentiles t] t rp;
     rd_u 10 U8 (\<lambda>k. ts[iWin := t\<lparr>wt_fraction_bright_pixels := k\<rparr>]) rp })"

definition st40_tone_mapping :: "AL_TToneMapping_ST2094_40 \<Rightarrow> AL_TRbspParser \<Rightarrow> (AL_TToneMapping_ST2094_40 \<times> AL_TRbspParser) option" where
  "st40_tone_mapping m = (\<lambda>rp. do {
     (m, rp) \<leftarrow> rd_u 1 U32 (\<lambda>k. m\<lparr>tm_tone_mapping_flag := k \<noteq> 0\<rparr>) rp;
     if tm_tone_mapping_flag m then do {
       (m, rp) \<leftarrow> rd_u 12 U16 (\<lambda>k. m\<lparr>tm_knee_point_x := k\<rparr>) rp;
       (m, rp) \<leftarrow> rd_u 12 U16 (\<lambda>k. m\<lparr>tm_knee_point_y := k\<rparr>) rp;
       (m, rp) \<leftarrow> rd_u 4 U8 (\<lambda>k. m\<lparr>tm_num_bezier_curve_anchors := k\<rparr>) rp;
       for_reads (\<lambda>i m. rd_u 10 U16 (\<lambda>k. m\<lparr>tm_bezier_curve_anchors := (tm_bezier_curve_anchors m)[i := k]\<rparr>))
         [0..<tm_num_bezier_curve_anchors m] m rp }
     else Some (m, rp) })"

definition st40_mapping :: "nat \<Rightarrow> AL_TProcessingWindowTransform_ST2094_40 list \<Rightarrow> AL_TRbspParser \<Rightarrow> (AL_TProcessingWindowTransform_ST2094_40 list \<times> AL_TRbspParser) option" where
  "st40_mapping iWin ts = (\<lambda>rp. do {
     let t = ts ! iWin;
     (m, rp) \<leftarrow> st40_tone_mapping (wt_tone_mapping t) rp;
     (t, rp) \<leftarrow> rd_u 1 U32 (\<lambda>k. t\<lparr>wt_tone_mapping := m, wt_color_saturation_mapping_flag := k \<noteq> 0\<rparr>) rp;
     if wt_color_saturation_mapping_flag t then rd_u 6 U8 (\<lambda>k. ts[iWin := t\<lparr>wt_color_saturation_weight := k\<rparr>]) rp
     else Some (ts[iWin := t], rp) })"

definition st40_body :: "AL_TDynamicMeta_ST2094_40 \<Rightarrow> AL_TRbspParser \<Rightarrow> (AL_TDynamicMeta_ST2094_40 \<times> AL_TRbspParser) option" where
  "st40_body s = (\<lambda>rp. do {
     (s, rp) \<leftarrow> rd_u 2 U8 (\<lambda>k. s\<lparr>st40_num_windows := k\<rparr>) rp;
     (ws, rp) \<leftarrow> for_reads st40_window [0..<st40_num_windows s - 1] (st40_processing_windows s) rp;
     let s = s\<lparr>st40_processing_windows := ws\<rparr>;
     (d, rp) \<leftarrow> rd_u 27 U32 (\<lambda>k. (st40_targeted_system_display s)\<lparr>ts_maximum_luminance := k\<rparr>) rp;
     (p, rp) \<leftarrow> SeiSt2094_40_peakluminance (ts_peak_luminance d) rp;
     let s = s\<lparr>st40_targeted_system_display := d\<lparr>ts_peak_luminance := p\<rparr>\<rparr>;
     (ts, rp) \<leftarrow> for_reads st40_transform [0..<st40_num_windows s] (st40_processing_window_transforms s) rp;
     let s = s\<lparr>st40_processing_window_transforms := ts\<rparr>;
     (p, rp) \<leftarrow> SeiSt2094_40_peakluminance (st40_mastering_display_peak_luminance s) rp;
     let s = s\<lparr>st40_mastering_display_peak_luminance := p\<rparr>;
     (ts, rp) \<leftarrow> for_reads st40_mapping [0..<st40_num_windows s] (st40_processing_window_transforms s) rp;
     Some (s\<lparr>st40_processing_window_transforms := ts\<rparr>, rp) })"

definition SeiSt2094_40 :: "AL_TDynamicMeta_ST2094_40 sei_part" where
  "SeiSt2094_40 s = (\<lambda>rp. do {
     (k, rp) \<leftarrow> rd_u 8 U32 (\<lambda>k. k) rp;
     if k \<noteq> 4 then Some ((AL_SEI_PARSE_RESULT_PARSING_ERROR, s), rp) else do {
     (s, rp) \<leftarrow> rd_u 8 U8 (\<lambda>k. s\<lparr>st40_application_version := k\<rparr>) rp;
     if st40_application_version s \<noteq> 0 then Some ((AL_SEI_PARSE_RESULT_UNKNOWN_SEI, s), rp) else do {
     (s, rp) \<leftarrow> st40_body s rp;
     Some ((AL_SEI_PARSE_RESULT_PARSED, s), rp) }}})"

section \<open>User data\<close>

datatype AL_EUserDataRegisterSEIType = AL_UDR_SEI_UNKNOWN | AL_UDR_SEI_ST2094_10 | AL_UDR_SEI_ST2094_40
datatype AL_EUserDataUnregisterSEIType = AL_UDU_SEI_UNKNOWN | AL_UDU_SEI_ALLEGRO_NUM_SLICES

text \<open>\<open>None\<close> as a result is a payload that is too short.\<close>

definition ReadSeiUserDataRegisteredType :: "nat \<Rightarrow> AL_TRbspParser \<Rightarrow> (AL_EUserDataRegisterSEIType option \<times> AL_TRbspParser) option" where
  "ReadSeiUserDataRegisteredType uPayloadSize = (\<lambda>rp.
     if uPayloadSize < 3 then Some (None, rp) else do {
     (country, rp) \<leftarrow> rd_u 8 U8 (\<lambda>k. k) rp;
     (provider, rp) \<leftarrow> rd_u 16 U16 (\<lambda>k. k) rp;
     if country = 0xB5 \<and> provider = 0x3B then do {
       (a, rp) \<leftarrow> rd_u 32 U32 (\<lambda>k. k) rp;
       if a \<noteq> 0 then Some (Some AL_UDR_SEI_UNKNOWN, rp)
       else rd_u 8 U32 (\<lambda>k. Some (if k = 9 then AL_UDR_SEI_ST2094_10 else AL_UDR_SEI_UNKNOWN)) rp }
     else if country = 0xB5 \<and> provider = 0x3C
     then rd_u 16 U32 (\<lambda>k. Some (if k = 1 then AL_UDR_SEI_ST2094_40 else AL_UDR_SEI_UNKNOWN)) rp
     else Some (Some AL_UDR_SEI_UNKNOWN, rp) })"

text \<open>The parsers of messages return whether the message can be sent to the user.\<close>

type_synonym sei_parser = "AL_TAup \<Rightarrow> AL_TRbspParser \<Rightarrow> ((AL_ESeiParseResult \<times> bool \<times> AL_TAup) \<times> AL_TRbspParser) option"

definition upd_hdr :: "(AL_THDRSEIs \<Rightarrow> AL_THDRSEIs) \<Rightarrow> AL_TAup \<Rightarrow> AL_TAup" where
  "upd_hdr f a = a\<lparr>aup_tParsedHDRSEIs := f (aup_tParsedHDRSEIs a)\<rparr>"

definition SeiUserDataRegistered :: "nat \<Rightarrow> sei_parser" where
  "SeiUserDataRegistered uPayloadSize a = (\<lambda>rp. do {
     (ty, rp) \<leftarrow> ReadSeiUserDataRegisteredType uPayloadSize rp;
     (case ty of
       None \<Rightarrow> Some ((AL_SEI_PARSE_RESULT_PARSING_ERROR, True, a), rp)
     | Some AL_UDR_SEI_ST2094_10 \<Rightarrow> do {
         ((r, s), rp) \<leftarrow> SeiSt2094_10 (hdr_tST2094_10 (aup_tParsedHDRSEIs a)) rp;
         Some ((r, False, upd_hdr (\<lambda>h. h\<lparr>hdr_tST2094_10 := s, hdr_bHasST2094_10 := r = AL_SEI_PARSE_RESULT_PARSED\<rparr>) a), rp) }
     | Some AL_UDR_SEI_ST2094_40 \<Rightarrow> do {
         ((r, s), rp) \<leftarrow> SeiSt2094_40 (hdr_tST2094_40 (aup_tParsedHDRSEIs a)) rp;
         Some ((r, False, upd_hdr (\<lambda>h. h\<lparr>hdr_tST2094_40 := s, hdr_bHasST2094_40 := r = AL_SEI_PARSE_RESULT_PARSED\<rparr>) a), rp) }
     | Some AL_UDR_SEI_UNKNOWN \<Rightarrow> Some ((AL_SEI_PARSE_RESULT_UNKNOWN_SEI, True, a), rp)) })"

definition ReadSeiUserDataUnregisteredType :: "nat \<Rightarrow> AL_TRbspParser \<Rightarrow> (AL_EUserDataUnregisterSEIType option \<times> AL_TRbspParser) option" where
  "ReadSeiUserDataUnregisteredType uPayloadSize = (\<lambda>rp.
     if uPayloadSize < 16 then Some (None, rp) else do {
     (uuid, rp) \<leftarrow> for_reads (\<lambda>_ bytes. rd_u 8 U8 (\<lambda>k. bytes @ [k])) [0..<16] [] rp;
     Some (Some (if uuid = ALLEGRO_NUM_SLICES_SEI_UUID then AL_UDU_SEI_ALLEGRO_NUM_SLICES else AL_UDU_SEI_UNKNOWN), rp) })"

definition SeiUserDataUnregistered :: "nat \<Rightarrow> sei_parser" where
  "SeiUserDataUnregistered uPayloadSize a = (\<lambda>rp. do {
     (ty, rp) \<leftarrow> ReadSeiUserDataUnregisteredType uPayloadSize rp;
     Some (case ty of
       None \<Rightarrow> (AL_SEI_PARSE_RESULT_PARSING_ERROR, True, a)
     | Some AL_UDU_SEI_ALLEGRO_NUM_SLICES \<Rightarrow> (AL_SEI_PARSE_RESULT_UNKNOWN_SEI, False, a)
     | Some AL_UDU_SEI_UNKNOWN \<Rightarrow> (AL_SEI_PARSE_RESULT_UNKNOWN_SEI, True, a), rp) })"

text \<open>The count of a recovery point is incremented as a signed integer of 32 bits, which must not overflow.\<close>

definition ParseCommonSei :: "nat \<Rightarrow> nat \<Rightarrow> sei_parser" where
  "ParseCommonSei ePayloadType uPayloadSize a = (\<lambda>rp.
     if ePayloadType = SEI_PTYPE_RECOVERY_POINT then do {
       ((r, p), rp) \<leftarrow> SeiRecoveryPoint rp;
       if rpt_recovery_cnt p = 2 ^ 31 - 1 then None else
       Some ((r, True, a\<lparr>aup_iRecoveryCnt := rpt_recovery_cnt p + 1\<rparr>), rp) }
     else if ePayloadType = SEI_PTYPE_MASTERING_DISPLAY_COLOUR_VOLUME then do {
       ((r, m), rp) \<leftarrow> SeiMasteringDisplayColourVolume rp;
       Some ((r, False, upd_hdr (\<lambda>h. h\<lparr>hdr_tMDCV := m, hdr_bHasMDCV := True\<rparr>) a), rp) }
     else if ePayloadType = SEI_PTYPE_CONTENT_LIGHT_LEVEL then do {
       ((r, c), rp) \<leftarrow> SeiContentLightLevel rp;
       Some ((r, False, upd_hdr (\<lambda>h. h\<lparr>hdr_tCLL := c, hdr_bHasCLL := True\<rparr>) a), rp) }
     else if ePayloadType = SEI_PTYPE_ALTERNATIVE_TRANSFER_CHARACTERISTICS then do {
       ((r, c), rp) \<leftarrow> SeiAlternativeTransferCharacteristics rp;
       Some ((r, False, upd_hdr (\<lambda>h. h\<lparr>hdr_tATC := c, hdr_bHasATC := True\<rparr>) a), rp) }
     else if ePayloadType = SEI_PTYPE_USER_DATA_REGISTERED then SeiUserDataRegistered uPayloadSize a rp
     else if ePayloadType = SEI_PTYPE_USER_DATA_UNREGISTERED then SeiUserDataUnregistered uPayloadSize a rp
     else Some ((AL_SEI_PARSE_RESULT_UNKNOWN_SEI, True, a), rp))"

section \<open>Messages of AVC\<close>

definition bp_delay :: "nat \<Rightarrow> nat \<Rightarrow> AL_TAvcBufPeriod \<Rightarrow> AL_TRbspParser \<Rightarrow> (AL_TAvcBufPeriod \<times> AL_TRbspParser) option" where
  "bp_delay n i b = (\<lambda>rp.
     if \<not> i < 32 then None else do {
     (b, rp) \<leftarrow> rd_u n U32 (\<lambda>k. b\<lparr>bp_initial_cpb_removal_delay := (bp_initial_cpb_removal_delay b)[i := k]\<rparr>) rp;
     rd_u n U32 (\<lambda>k. b\<lparr>bp_initial_cpb_removal_delay_offset := (bp_initial_cpb_removal_delay_offset b)[i := k]\<rparr>) rp })"

definition bp_delays :: "AL_THrdParam \<Rightarrow> AL_TAvcBufPeriod \<Rightarrow> AL_TRbspParser \<Rightarrow> (AL_TAvcBufPeriod \<times> AL_TRbspParser) option" where
  "bp_delays h = for_reads (bp_delay (hrd_initial_cpb_removal_delay_length_minus1 h + 1)) [0..<Suc (hrd_cpb_cnt_minus1 h ! 0)]"

text \<open>The structure is a local variable of the caller that nothing reads; its arrays start with any values.\<close>

definition SeiBufferingPeriod :: "AL_TAvcSeqPar list \<Rightarrow> nat option \<Rightarrow> AL_TRbspParser \<Rightarrow> ((AL_ESeiParseResult \<times> nat option) \<times> AL_TRbspParser) option" where
  "SeiBufferingPeriod table active = (\<lambda>rp. do {
     (b, rp) \<leftarrow> rd_ue U8 (\<lambda>k. \<lparr>bp_seq_parameter_set_id = k, bp_initial_cpb_removal_delay = replicate 32 0, bp_initial_cpb_removal_delay_offset = replicate 32 0\<rparr>) rp;
     let n = bp_seq_parameter_set_id b;
     if n \<ge> AL_AVC_MAX_SPS then Some ((AL_SEI_PARSE_RESULT_PARSING_ERROR, active), rp)
     else if sps_bConceal (table ! n) then Some ((AL_SEI_PARSE_RESULT_PARSING_ERROR, active), rp)
     else do {
       let h = vui_hrd_param (sps_vui_param (table ! n));
       (b, rp) \<leftarrow> (if hrd_nal_hrd_parameters_present_flag h \<noteq> 0 then bp_delays h b rp else Some (b, rp));
       (b, rp) \<leftarrow> (if hrd_vcl_hrd_parameters_present_flag h \<noteq> 0 then bp_delays h b rp else Some (b, rp));
       Some ((AL_SEI_PARSE_RESULT_PARSED, Some n), rp) }})"

definition ParseAvcSpecificSeis :: "nat \<Rightarrow> nat \<Rightarrow> sei_parser" where
  "ParseAvcSpecificSeis ePayloadType uPayloadSize a = (\<lambda>rp.
     if ePayloadType = SEI_PTYPE_BUFFERING_PERIOD then do {
       ((r, active), rp) \<leftarrow> SeiBufferingPeriod (aup_pSPS a) (aup_pActiveSPS a) rp;
       Some ((r, True, a\<lparr>aup_pActiveSPS := active\<rparr>), rp) }
     else Some ((AL_SEI_PARSE_RESULT_UNKNOWN_SEI, True, a), rp))"

section \<open>A message and the messages of a unit\<close>

text \<open>The loop behind types and sizes: bytes \<open>0xFF\<close> are added up. At the end of the data \<open>getbyte\<close> returns zero.\<close>

partial_function (option) getbytes_ff :: "nat \<Rightarrow> AL_TRbspParser \<Rightarrow> (nat \<times> AL_TRbspParser) option" where
  "getbytes_ff acc rp = Option.bind (getbyte rp) (\<lambda>(byte, rp).
     if byte = 0xff then getbytes_ff ((acc + 255) mod U32) rp else Some ((acc + unat byte) mod U32, rp))"

definition GetPayloadType :: "AL_TRbspParser \<Rightarrow> (nat option \<times> AL_TRbspParser) option" where
  "GetPayloadType rp =
     (if \<not> byte_aligned rp then Some (None, rp)
      else do { (t, rp) \<leftarrow> getbytes_ff 0 rp; Some (Some t, rp) })"

definition GetPayloadSize :: "AL_TRbspParser \<Rightarrow> (nat \<times> AL_TRbspParser) option" where
  "GetPayloadSize = getbytes_ff 0"

text \<open>The parser of the codec goes first; what it does not know goes to the common one.\<close>

definition sei_payload :: "(nat \<Rightarrow> nat \<Rightarrow> sei_parser) option \<Rightarrow> nat \<Rightarrow> nat \<Rightarrow> sei_parser" where
  "sei_payload custom ty sz a = (\<lambda>rp. do {
     ((r, send, a), rp) \<leftarrow> (case custom of None \<Rightarrow> Some ((AL_SEI_PARSE_RESULT_UNKNOWN_SEI, True, a), rp) | Some p \<Rightarrow> p ty sz a rp);
     if r = AL_SEI_PARSE_RESULT_UNKNOWN_SEI then ParseCommonSei ty sz a rp else Some ((r, send, a), rp) })"

definition remaining_payload :: "nat \<Rightarrow> nat \<Rightarrow> nat \<Rightarrow> int" where
  "remaining_payload sz before after = sint (word_of_int (int (8 * sz) - int (sub32 after before)) :: u32)"

definition send_sei :: "AL_TSeiMessage \<Rightarrow> AL_TSeiParserCtx \<Rightarrow> bool \<times> AL_TSeiParserCtx" where
  "send_sei m c =
     (let (ok, meta) = (case sc_pOutputMeta c of None \<Rightarrow> (True, None)
        | Some d \<Rightarrow> (let (ok, d) = AL_SeiMetaData_AddPayload d m in (ok, Some d))) in
      if \<not> ok then (False, c)
      else (True, c\<lparr>sc_pOutputMeta := meta, sc_pSeiParsedCallback := map_option (\<lambda>calls. calls @ [m]) (sc_pSeiParsedCallback c)\<rparr>))"

definition AL_SeiParser_Parse :: "(nat \<Rightarrow> nat \<Rightarrow> sei_parser) option \<Rightarrow> bool \<Rightarrow> AL_TSeiParserCtx \<Rightarrow> AL_TRbspParser \<Rightarrow> ((bool \<times> AL_TSeiParserCtx) \<times> AL_TRbspParser) option" where
  "AL_SeiParser_Parse custom bIsPrefix c rp = do {
     (ty, rp) \<leftarrow> GetPayloadType rp;
     (case ty of None \<Rightarrow> Some ((False, c), rp) | Some ty \<Rightarrow> do {
     (sz, rp) \<leftarrow> GetPayloadSize rp;
     let before = rbsp_offset rp;
     let data = get_raw_data rp;
     ((r, send, a), rp) \<leftarrow> sei_payload custom ty sz (sc_pOutputAup c) rp;
     let c = c\<lparr>sc_pOutputAup := a\<rparr>;
     let rest = remaining_payload sz before (rbsp_offset rp);
     if r = AL_SEI_PARSE_RESULT_PARSING_ERROR \<and> rest < 0 then Some ((False, c), rp)
     else do {
       rp \<leftarrow> (if rest > 0 then skip rp (nat rest) else Some rp);
       rp \<leftarrow> (if \<not> byte_aligned rp then map_option snd (byte_alignment rp) else Some rp);
       Some (if send then send_sei \<lparr>sm_bPrefix = bIsPrefix, sm_type = ty, sm_pData = data, sm_size = sz\<rparr> c else (True, c), rp) }}) }"

partial_function (option) sei_loop :: "(nat \<Rightarrow> nat \<Rightarrow> sei_parser) option \<Rightarrow> bool \<Rightarrow> AL_TSeiParserCtx \<Rightarrow> AL_TRbspParser \<Rightarrow> ((bool \<times> AL_TSeiParserCtx) \<times> AL_TRbspParser) option" where
  "sei_loop custom bIsPrefix c rp =
     Option.bind (AL_SeiParser_Parse custom bIsPrefix c rp) (\<lambda>((ok, c), rp).
       if \<not> ok then Some ((False, c), rp)
       else Option.bind (more_rbsp_data rp) (\<lambda>(more, rp).
         if more then sei_loop custom bIsPrefix c rp
         else Option.bind (rbsp_trailing_bits rp) (\<lambda>(_, rp). Some ((True, c), rp))))"

definition AL_AVC_ParseSEI :: "AL_TSeiParserCtx \<Rightarrow> bool \<Rightarrow> AL_TRbspParser \<Rightarrow> ((bool \<times> AL_TSeiParserCtx) \<times> AL_TRbspParser) option" where
  "AL_AVC_ParseSEI c bIsPrefix = after_header (sei_loop (Some ParseAvcSpecificSeis) bIsPrefix c)"

end
