(* ===== verification/Sei_Msg.thy ===== *)
theory Sei_Msg
  imports Sei_Parse
begin

text \<open>
  A message of supplemental enhancement information, as \<open>put_message\<close> writes it and
  \<open>AL_SeiParser_Parse\<close> reads it: the type, the size in bytes, the payload and the bits that complete
  its last byte. Messages begin at a byte of the unit, so the rules here are about aligned positions.
\<close>

section \<open>Writing\<close>

definition sei_bytes :: "bool list \<Rightarrow> nat" where
  "sei_bytes xs = (length xs + 7) div 8"

definition sei_bits :: "nat \<Rightarrow> bool list \<Rightarrow> bool list" where
  "sei_bits t xs = nbits 8 (word_of_nat t :: u32) @ nbits 8 (word_of_nat (sei_bytes xs) :: u32) @ xs @ sei_end_bits (length xs)"

lemma length_sei_end: "length xs + length (sei_end_bits (length xs)) = 8 * sei_bytes xs"
proof (cases "length xs mod 8 = 0")
  case True
  then obtain k where "length xs = 8 * k" by (metis mod_0_imp_dvd dvdE)
  then show ?thesis by (simp add: sei_end_bits_def sei_bytes_def)
next
  case False
  obtain k m where km: "length xs = 8 * k + m" "m < 8" "0 < m"
    using False by (metis mod_less_divisor mult_div_mod_eq neq0_conv zero_less_numeral)
  then have "m = 1 \<or> m = 2 \<or> m = 3 \<or> m = 4 \<or> m = 5 \<or> m = 6 \<or> m = 7" by linarith
  then show ?thesis using km by (elim disjE) (simp_all add: sei_end_bits_def sei_bytes_def align_bits_def mod_Suc)
qed

lemma length_sei_bits: "length (sei_bits t xs) = 8 * (2 + sei_bytes xs)"
  using length_sei_end [of xs] by (simp add: sei_bits_def)

lemma sei_end_shift: "c mod 8 = 0 \<Longrightarrow> sei_end_bits (c + n) = sei_end_bits n"
proof -
  assume "c mod 8 = 0"
  then have "(c + n) mod 8 = n mod 8" "Suc (c + n) mod 8 = Suc n mod 8" by presburger+
  then show ?thesis by (simp add: sei_end_bits_def align_bits_def)
qed

lemma bytes_bits_append [simp]: "bytes_bits (as @ bs) = bytes_bits as @ bytes_bits bs"
  by (induction as) simp_all

lemma bytes_bits_update:
  assumes "i < length d"
  shows "bytes_bits (d[i := b]) = take (8 * i) (bytes_bits d) @ byte_bits b @ drop (8 * i + 8) (bytes_bits d)"
proof -
  have "d[i := b] = take i d @ b # drop (Suc i) d" by (rule upd_conv_take_nth_drop [OF assms])
  moreover have "8 * i + 8 = 8 * Suc i" by simp
  ultimately show ?thesis using assms by (simp only: bytes_bits_append bytes_bits_simps bytes_bits_drop bytes_bits_take less_imp_le)
qed

lemma bytes_bits_at:
  assumes "i < length d"
  shows "take 8 (drop (8 * i) (bytes_bits d)) = byte_bits (d ! i)"
proof -
  have "drop (8 * i) (bytes_bits d) = bytes_bits (drop i d)" by (simp add: bytes_bits_drop)
  also have "drop i d = d ! i # drop (Suc i) d" using assms by (simp add: Cons_nth_drop_Suc)
  finally show ?thesis by simp
qed

lemma byte_FF: "byte_bits 0xFF = nbits 8 (0xFF :: u32)"
proof -
  have "(0xFF :: u32) = ucast (0xFF :: u8)" by simp
  then show ?thesis by (metis nbits_8_byte)
qed

lemma byte_of_nat: "n < 256 \<Longrightarrow> byte_bits (word_of_nat n) = nbits 8 (word_of_nat n :: u32)"
proof -
  assume "n < 256"
  then have "(word_of_nat n :: u32) = ucast (word_of_nat n :: u8)"
    by (intro word_unat_eq_iff [THEN iffD2]) (simp add: unat_of_nat take_bit_eq_mod unsigned_ucast_eq)
  then show ?thesis by (metis nbits_8_byte)
qed

text \<open>\<open>EndSEI\<close> replaces the mark behind the type by the size.\<close>

lemma EndSEI_appends:
  assumes "bs_wf bs" "bs_iBitCount bs = 8 * k" "appends bs (xs @ nbits 8 (0xFF :: u32) @ ys) bs4" "length xs = 8"
    "length ys = 8 * n" "n < 256" "bs_iBitCount bs4 \<le> bs_iMaxBits bs4"
  shows "\<exists>bs'. AL_RbspEncoding_EndSEI (8 * k + 8) bs4 = Some bs' \<and> appends bs (xs @ nbits 8 (word_of_nat n :: u32) @ ys) bs'"
proof -
  let ?d = "bs_pData bs4" and ?i = "k + 1" and ?b = "word_of_nat n :: u8" and ?c = "8 * k + 16 + 8 * n"
  have wf4: "bs_wf bs4" and max: "bs_iMaxBits bs4 = bs_iMaxBits bs" and len: "length ?d = length (bs_pData bs)"
    and cnt: "bs_iBitCount bs4 = ?c"
    using assms(2-5) by (auto simp: appends_def)
  have lim: "?c \<le> bs_iMaxBits bs" "bs_iMaxBits bs \<le> 8 * length ?d" using wf4 max cnt assms(7) by (auto simp: bs_wf_def)
  have lb: "length (bs_bits bs) = 8 * k" using length_bs_bits [OF assms(1)] assms(2) lim(1) by simp
  have b4: "take ?c (bytes_bits ?d) = bs_bits bs @ xs @ nbits 8 (0xFF :: u32) @ ys"
  proof -
    have "bs_bits bs4 = take ?c (bytes_bits ?d)" using cnt assms(7) by (simp add: bs_bits_def)
    moreover have "bs_bits bs4 = bs_bits bs @ xs @ nbits 8 (0xFF :: u32) @ ys"
      using assms(3) lb lim(1) assms(4,5) by (simp add: appends_def)
    ultimately show ?thesis by simp
  qed
  have i: "?i < length ?d" using lim by linarith
  have "byte_bits (?d ! ?i) = take 8 (drop (8 * ?i) (take ?c (bytes_bits ?d)))"
    unfolding bytes_bits_at [OF i, symmetric] by (simp add: drop_take min_def)
  also have "\<dots> = byte_bits 0xFF" unfolding b4 byte_FF using lb assms(4) by simp
  finally have ff: "?d ! ?i = 0xFF" by (rule byte_bits_inj)
  have e: "(8 * k + 8) div 8 = ?i" by simp
  have g: "arr_get ?d (int ?i) = Some 0xFF" unfolding arr_get_def nat_int using ff i by simp
  have w: "word_of_nat (Suc n) - 1 = ?b" by simp
  let ?bs = "bs4\<lparr>bs_pData := ?d[?i := ?b]\<rparr>"
  have run: "AL_RbspEncoding_EndSEI (8 * k + 8) bs4 = Some ?bs"
    using g w cnt unfolding AL_RbspEncoding_EndSEI_def e AL_BitStreamLite_GetData_def
    by (simp del: of_nat_add of_nat_Suc add: AL_BitStreamLite_GetBitsCount_def)
  have "take ?c (bytes_bits (?d[?i := ?b])) = take (8 * ?i) (take ?c (bytes_bits ?d)) @ byte_bits ?b @ drop (8 * ?i + 8) (take ?c (bytes_bits ?d))"
    unfolding bytes_bits_update [OF i] using lim i by (simp add: min_def drop_take)
  also have "\<dots> = bs_bits bs @ xs @ nbits 8 (word_of_nat n :: u32) @ ys"
    unfolding b4 byte_of_nat [OF assms(6)] using lb assms(4) by simp
  finally have bits: "bs_bits ?bs = bs_bits bs @ xs @ nbits 8 (word_of_nat n :: u32) @ ys"
    using cnt assms(7) by (simp add: bs_bits_def)
  have "bs_wf ?bs" using wf4 cnt by (auto simp: bs_wf_def)
  then have "appends bs (xs @ nbits 8 (word_of_nat n :: u32) @ ys) ?bs"
    using bits lb lim(1) max len cnt assms(2,4,5) by (simp add: appends_def)
  then show ?thesis using run by blast
qed

lemma put_message_appends:
  assumes "bs_wf bs" "bs_iBitCount bs = 8 * k" "writes f (\<lambda>_. xs)" "sei_bytes xs < 256"
    "bs_iBitCount bs + length (sei_bits t xs) \<le> bs_iMaxBits bs" "t < 256"
  shows "\<exists>bs'. put_message t f bs = Some bs' \<and> appends bs (sei_bits t xs) bs'"
proof -
  have t: "drop_bit 8 (word_of_nat t :: u32) = 0" by (rule word_of_nat_fits) (use assms(6) in simp_all)
  obtain bs1 where bs1: "AL_BitStreamLite_PutBits bs 8 (word_of_nat t) = Some bs1" "appends bs (nbits 8 (word_of_nat t :: u32)) bs1"
    using PutBits_appends [OF assms(1) _ _ t] by auto
  have ff: "drop_bit 8 (0xFF :: u32) = 0" using word_of_nat_fits [of 255 8] by simp
  obtain bs2 where bs2: "AL_BitStreamLite_PutBits bs1 8 0xFF = Some bs2" "appends bs1 (nbits 8 (0xFF :: u32)) bs2"
    using PutBits_appends [OF appends_wf [OF bs1(2)] _ _ ff] by auto
  have c1: "bs_iBitCount bs1 = 8 * k + 8" using appends_count [OF bs1(2)] assms(2) by simp
  have b: "AL_RbspEncoding_BeginSEI t bs = Some (8 * k + 8, bs2)"
    using bs1(1) bs2(1) c1 by (simp add: AL_RbspEncoding_BeginSEI_def AL_BitStreamLite_GetBitsCount_def)
  obtain bs3 where bs3: "f bs2 = Some bs3" "appends bs2 xs bs3" using writesD [OF assms(3) appends_wf [OF bs2(2)]] by blast
  have c3: "bs_iBitCount bs3 = 8 * (k + 2) + length xs" using appends_count [OF bs3(2)] appends_count [OF bs2(2)] c1 by simp
  have e3: "sei_end_bits (bs_iBitCount bs3) = sei_end_bits (length xs)" unfolding c3 by (rule sei_end_shift) simp
  obtain bs4 where bs4: "AL_BitStreamLite_EndOfSEIPayload bs3 = Some bs4" "appends bs3 (sei_end_bits (length xs)) bs4"
    using writesD [OF writes_EndOfSEIPayload appends_wf [OF bs3(2)]] e3 by auto
  have a: "appends bs (nbits 8 (word_of_nat t :: u32) @ nbits 8 (0xFF :: u32) @ xs @ sei_end_bits (length xs)) bs4"
    using appends_trans [OF bs1(2) appends_trans [OF bs2(2) appends_trans [OF bs3(2) bs4(2)]]] by simp
  have ys: "length (xs @ sei_end_bits (length xs)) = 8 * sei_bytes xs" using length_sei_end [of xs] by simp
  have fit: "bs_iBitCount bs4 \<le> bs_iMaxBits bs4"
    using a ys assms(5) length_sei_bits [of t xs] by (simp add: appends_def)
  from EndSEI_appends [OF assms(1,2) a _ ys assms(4) fit]
  obtain bs' where "AL_RbspEncoding_EndSEI (8 * k + 8) bs4 = Some bs'" "appends bs (sei_bits t xs) bs'"
    by (auto simp: sei_bits_def)
  then show ?thesis using b bs3(1) bs4(1) by (auto simp: put_message_def)
qed

section \<open>Reading\<close>

text \<open>
  \<open>reads_at p xs V\<close>: at the byte \<open>k\<close>, the parser finds the bits \<open>xs\<close>, takes them and returns \<open>V k\<close>. What
  \<open>reads\<close> says of any position holds of these.
\<close>

definition reads_at :: "(AL_TRbspParser \<Rightarrow> ('a \<times> AL_TRbspParser) option) \<Rightarrow> bool list \<Rightarrow> (nat \<Rightarrow> 'a) \<Rightarrow> bool" where
  "reads_at p xs V \<longleftrightarrow> (\<forall>B S rp P R k. rp_ok B S rp \<longrightarrow> bytes_bits B = P @ xs @ R \<longrightarrow> rp_iCurrentBitIndex rp = 8 * k \<longrightarrow>
     length P = 8 * k \<longrightarrow> 8 * k + length xs \<le> S \<longrightarrow>
     (\<exists>rp'. p rp = Some (V k, rp') \<and> rp_ok B S rp' \<and> rp_iCurrentBitIndex rp' = 8 * k + length xs))"

lemma reads_atD:
  assumes "reads_at p xs V" "rp_ok B S rp" "bytes_bits B = P @ xs @ R" "rp_iCurrentBitIndex rp = 8 * k" "length P = 8 * k"
    "8 * k + length xs \<le> S"
  shows "\<exists>rp'. p rp = Some (V k, rp') \<and> rp_ok B S rp' \<and> rp_iCurrentBitIndex rp' = 8 * k + length xs"
  using assms unfolding reads_at_def by blast

lemma reads_at_reads: "reads p xs v \<Longrightarrow> reads_at p xs (\<lambda>_. v)"
  unfolding reads_def reads_at_def by metis

lemma reads_at_bind:
  assumes "reads_at p xs V" "length xs = 8 * n" "\<And>k. reads_at (q (V k)) ys W"
  shows "reads_at (\<lambda>rp. do { (a, rp) \<leftarrow> p rp; q a rp }) (xs @ ys) (\<lambda>k. W (k + n))"
  unfolding reads_at_def
proof (intro allI impI)
  fix B S rp P R k
  assume a: "rp_ok B S rp" "bytes_bits B = P @ (xs @ ys) @ R" "rp_iCurrentBitIndex rp = 8 * k" "length P = 8 * k"
    "8 * k + length (xs @ ys) \<le> S"
  obtain rp1 where rp1: "p rp = Some (V k, rp1)" "rp_ok B S rp1" "rp_iCurrentBitIndex rp1 = 8 * (k + n)"
    using reads_atD [OF assms(1) a(1) _ a(3,4), of "ys @ R"] a(2,5) assms(2) by auto
  obtain rp2 where "q (V k) rp1 = Some (W (k + n), rp2)" "rp_ok B S rp2" "rp_iCurrentBitIndex rp2 = 8 * (k + n) + length ys"
    using reads_atD [OF assms(3) rp1(2) _ rp1(3), of "P @ xs" R] a(2,4,5) assms(2) by auto
  then show "\<exists>rp'. (do { (a, rp) \<leftarrow> p rp; q a rp }) = Some (W (k + n), rp')
      \<and> rp_ok B S rp' \<and> rp_iCurrentBitIndex rp' = 8 * k + length (xs @ ys)"
    using rp1(1) assms(2) by simp
qed

lemma getbyte_reads:
  assumes "rp_ok B S rp" "rp_iCurrentBitIndex rp = 8 * k" "8 * k + 8 \<le> S"
  shows "\<exists>rp'. getbyte rp = Some (B ! k, rp') \<and> rp_ok B S rp' \<and> rp_iCurrentBitIndex rp' = 8 * (k + 1)"
proof -
  note at = rp_ok_at [OF assms(1)]
  let ?fetch = "if rp_iTrailingBitOneIndex rp < rp_iCurrentBitIndex rp + 8 then fetch_data rp else Some (True, rp)"
  obtain rp1 where rp1: "?fetch = Some (True, rp1)" "rp_at B S rp1" "rp_iCurrentBitIndex rp1 = 8 * k" "rp_pByte rp1 = k"
      "8 * k + 8 \<le> rp_iTrailingBitOneIndex rp1"
  proof (cases "rp_iTrailingBitOneIndex rp < rp_iCurrentBitIndex rp + 8")
    case False
    then show ?thesis using that [of rp] at assms(1,2) by (simp add: rp_ok_def)
  next
    case True
    then have "\<not> finished_fetching rp" using rp_at_finished [OF at] assms(2,3) by auto
    from fetch_data_correct [OF at this] obtain rp1 where rp1: "fetch_data rp = Some (True, rp1)" "rp_at B S rp1" "same_reader rp rp1"
        "finished_fetching rp1 \<or> rp_iTrailingBitOneIndex rp + 160 \<le> rp_iTrailingBitOneIndex rp1" by blast
    have "8 * k + 8 \<le> rp_iTrailingBitOneIndex rp1"
      using rp1(4) rp_at_finished [OF rp1(2)] assms(2,3) rp_at_bounds(3) [OF at] by auto
    then show ?thesis using that [of rp1] True rp1 assms(1,2) by (simp add: same_reader_def rp_ok_def)
  qed
  note bd = rp_at_bounds [OF rp1(2)]
  have k: "k < length B" using bd(2) assms(3) by simp
  have "rp_pBuffer rp1 ! k = B ! k" by (rule rp_at_byte [OF rp1(2) k]) (use rp1(5) in auto)
  moreover have "k < length (rp_pBuffer rp1)" using k bd(5) by simp
  ultimately have run: "getbyte rp = Some (B ! k, rp1\<lparr>rp_iCurrentBitIndex := 8 * k + 8, rp_pByte := k + 1\<rparr>)"
    using assms(2) rp1 by (simp add: getbyte_def byte_aligned_def)
  have "rp_ok B S (rp1\<lparr>rp_iCurrentBitIndex := 8 * k + 8, rp_pByte := (8 * k + 8) div 8\<rparr>)"
    by (rule rp_ok_move [OF rp1(2) assms(3) rp1(5)])
  then show ?thesis unfolding run by simp
qed

lemma byte_at:
  assumes "bytes_bits B = P @ byte_bits b @ R" "length P = 8 * k"
  shows "k < length B \<and> B ! k = b"
proof -
  have "8 * length B = 8 * k + 8 + length R" using arg_cong [OF assms(1), of length] assms(2) by simp
  then have k: "k < length B" by simp
  have "byte_bits (B ! k) = byte_bits b" using bytes_bits_at [OF k] assms by simp
  then show ?thesis using k byte_bits_inj by blast
qed

text \<open>A type or a size below 255 is one byte.\<close>

lemma getbytes_ff_byte:
  assumes "n < 255"
  shows "reads_at (getbytes_ff acc) (nbits 8 (word_of_nat n :: u32)) (\<lambda>_. (acc + n) mod U32)"
  unfolding reads_at_def
proof (intro allI impI)
  fix B S rp P R k
  assume a: "rp_ok B S rp" "bytes_bits B = P @ nbits 8 (word_of_nat n :: u32) @ R" "rp_iCurrentBitIndex rp = 8 * k"
    "length P = 8 * k" "8 * k + length (nbits 8 (word_of_nat n :: u32)) \<le> S"
  have b: "B ! k = word_of_nat n" using byte_at [of B P "word_of_nat n" R k] a(2,4) byte_of_nat [of n] assms by simp
  obtain rp1 where rp1: "getbyte rp = Some (word_of_nat n, rp1)" "rp_ok B S rp1" "rp_iCurrentBitIndex rp1 = 8 * (k + 1)"
    using getbyte_reads [OF a(1,3)] a(5) b by auto
  have u: "unat (word_of_nat n :: u8) = n" using assms by (simp add: unat_of_nat)
  then have "(word_of_nat n :: u8) \<noteq> 0xFF" using assms by auto
  then have "getbytes_ff acc rp = Some ((acc + n) mod U32, rp1)"
    using rp1(1) u by (subst getbytes_ff.simps) simp
  then show "\<exists>rp'. getbytes_ff acc rp = Some ((acc + n) mod U32, rp') \<and> rp_ok B S rp'
      \<and> rp_iCurrentBitIndex rp' = 8 * k + length (nbits 8 (word_of_nat n :: u32))"
    using rp1(2,3) by simp
qed

lemma getbytes_ff_more:
  assumes "reads_at (getbytes_ff ((acc + 255) mod U32)) xs V"
  shows "reads_at (getbytes_ff acc) (nbits 8 (0xFF :: u32) @ xs) (\<lambda>k. V (k + 1))"
  unfolding reads_at_def
proof (intro allI impI)
  fix B S rp P R k
  assume a: "rp_ok B S rp" "bytes_bits B = P @ (nbits 8 (0xFF :: u32) @ xs) @ R" "rp_iCurrentBitIndex rp = 8 * k"
    "length P = 8 * k" "8 * k + length (nbits 8 (0xFF :: u32) @ xs) \<le> S"
  have b: "B ! k = 0xFF" using byte_at [of B P "0xFF" "xs @ R" k] a(2,4) byte_FF by simp
  obtain rp1 where rp1: "getbyte rp = Some (0xFF, rp1)" "rp_ok B S rp1" "rp_iCurrentBitIndex rp1 = 8 * (k + 1)"
    using getbyte_reads [OF a(1,3)] a(5) b by auto
  have "getbytes_ff acc rp = getbytes_ff ((acc + 255) mod U32) rp1"
    using rp1(1) by (subst getbytes_ff.simps) simp
  then show "\<exists>rp'. getbytes_ff acc rp = Some (V (k + 1), rp') \<and> rp_ok B S rp'
      \<and> rp_iCurrentBitIndex rp' = 8 * k + length (nbits 8 (0xFF :: u32) @ xs)"
    using reads_atD [OF assms rp1(2) _ rp1(3), of "P @ nbits 8 (0xFF :: u32)" R] a(2,4,5) by auto
qed

section \<open>A message\<close>

lemma rp_ok_offset: "rp_ok B S rp \<Longrightarrow> rbsp_offset rp = rp_iCurrentBitIndex rp"
  by (simp add: rp_ok_def rp_at_def rp_buffers_def rbsp_offset_def)

lemma rp_ok_small: "rp_ok B S rp \<Longrightarrow> S < 2 ^ 31"
  by (auto simp: rp_ok_def rp_at_def rp_buffers_def stop_bit_def)

lemma sint_word_of_int: "- (2 ^ 31) \<le> i \<Longrightarrow> i < 2 ^ 31 \<Longrightarrow> sint (word_of_int i :: u32) = i"
  by (simp add: sint_sbintrunc' signed_take_bit_int_eq_self)

lemma remaining_payload_eq:
  assumes "b \<le> a" "a < 2 ^ 31" "n < 255"
  shows "remaining_payload n b a = int (8 * n) - int (a - b)"
proof -
  have "a + 2 ^ 32 - b = (a - b) + 2 ^ 32" using assms(1) by simp
  then have "sub32 a b = (a - b + 2 ^ 32) mod 2 ^ 32" by (simp only: sub32_def)
  also have "\<dots> = (a - b) mod 2 ^ 32" by (rule mod_add_self2)
  also have "\<dots> = a - b" using assms(2) by simp
  finally have "sub32 a b = a - b" .
  moreover have "int (a - b) < 2 ^ 31" using assms(2) by (metis less_imp_diff_less of_nat_less_iff of_nat_numeral of_nat_power)
  moreover have "int (8 * n) < 2 ^ 31" "0 \<le> int (8 * n)" "0 \<le> int (a - b)" using assms(3) by simp_all
  ultimately have "- (2 ^ 31) \<le> int (8 * n) - int (a - b)" "int (8 * n) - int (a - b) < 2 ^ 31" "sub32 a b = a - b"
    by linarith+
  then show ?thesis unfolding remaining_payload_def by (simp only: sint_word_of_int)
qed

definition sent_message :: "bool \<Rightarrow> nat \<Rightarrow> nat \<Rightarrow> nat \<Rightarrow> AL_TSeiMessage" where
  "sent_message pre t k n = \<lparr>sm_bPrefix = pre, sm_type = t, sm_pData = k + 2, sm_size = n\<rparr>"

lemma parse_message:
  assumes "reads_at (sei_payload custom t (sei_bytes xs) (sc_pOutputAup c)) ys (\<lambda>_. (r, send, a))" "xs = ys @ zs"
    and "t < 255" "sei_bytes xs < 255"
  shows "reads_at (AL_SeiParser_Parse custom pre c) (sei_bits t xs)
    (\<lambda>k. if send then send_sei (sent_message pre t k (sei_bytes xs)) (c\<lparr>sc_pOutputAup := a\<rparr>) else (True, c\<lparr>sc_pOutputAup := a\<rparr>))"
  unfolding reads_at_def
proof (intro allI impI)
  fix B S rp P R k
  let ?n = "sei_bytes xs" and ?t = "nbits 8 (word_of_nat t :: u32)" and ?z = "nbits 8 (word_of_nat (sei_bytes xs) :: u32)"
  assume a: "rp_ok B S rp" "bytes_bits B = P @ sei_bits t xs @ R" "rp_iCurrentBitIndex rp = 8 * k" "length P = 8 * k"
    "8 * k + length (sei_bits t xs) \<le> S"
  have S: "8 * (k + 2) + 8 * ?n \<le> S" using a(5) by (simp add: length_sei_bits)
  have B: "bytes_bits B = P @ ?t @ ?z @ ys @ (zs @ sei_end_bits (length xs) @ R)"
    using a(2) assms(2) by (simp add: sei_bits_def)
  have ys: "length ys \<le> 8 * ?n" using length_sei_end [of xs] assms(2) by simp
  have u32: "U32 = 2 ^ 32" by (simp add: U32_def)
  obtain rp1 where rp1: "getbytes_ff 0 rp = Some ((0 + t) mod U32, rp1)" "rp_ok B S rp1" "rp_iCurrentBitIndex rp1 = 8 * (k + 1)"
    using reads_atD [OF getbytes_ff_byte [OF assms(3), of 0] a(1) B a(3,4)] S by auto
  obtain rp2 where rp2: "getbytes_ff 0 rp1 = Some ((0 + ?n) mod U32, rp2)" "rp_ok B S rp2" "rp_iCurrentBitIndex rp2 = 8 * (k + 2)"
    using reads_atD [OF getbytes_ff_byte [OF assms(4), of 0] rp1(2) _ rp1(3), of "P @ ?t"] S B a(4) by auto
  obtain rp3 where rp3: "sei_payload custom t ?n (sc_pOutputAup c) rp2 = Some ((r, send, a), rp3)" "rp_ok B S rp3"
      "rp_iCurrentBitIndex rp3 = 8 * (k + 2) + length ys"
    using reads_atD [OF assms(1) rp2(2) _ rp2(3), of "P @ ?t @ ?z"] S B a(4) ys by auto
  let ?rest = "remaining_payload ?n (rbsp_offset rp2) (rbsp_offset rp3)"
  have rest: "?rest = int (8 * ?n) - int (length ys)"
    unfolding rp_ok_offset [OF rp2(2)] rp_ok_offset [OF rp3(2)] rp2(3) rp3(3)
    by (subst remaining_payload_eq) (use assms(4) S ys rp_ok_small [OF a(1)] in auto)
  obtain rp4 where rp4: "?rest > 0 \<longrightarrow> skip rp3 (nat ?rest) = Some rp4" "\<not> ?rest > 0 \<longrightarrow> rp4 = rp3"
      "rp_ok B S rp4" "rp_iCurrentBitIndex rp4 = 8 * (k + 2) + 8 * ?n"
  proof (cases "?rest > 0")
    case True
    have e: "nat ?rest = 8 * ?n - length ys" unfolding rest by (simp add: nat_diff_distrib)
    show ?thesis using that skip_correct [OF rp3(2), of "8 * ?n - length ys"] rp3(3) S ys True unfolding e by auto
  next
    case False
    then show ?thesis using that [of rp3] rp3 ys rest by auto
  qed
  have al: "byte_aligned rp" "byte_aligned rp4" using a(3) rp4(4) by (simp_all add: byte_aligned_def)
  have tn: "(0 + t) mod U32 = t" "(0 + ?n) mod U32 = ?n" using assms(3,4) by (simp_all add: u32)
  have data: "get_raw_data rp2 = k + 2" using rp2(3) by (simp add: get_raw_data_def)
  have nonneg: "\<not> ?rest < 0" unfolding rest using ys by simp
  have "AL_SeiParser_Parse custom pre c rp = Some (if send then send_sei (sent_message pre t k ?n) (c\<lparr>sc_pOutputAup := a\<rparr>)
      else (True, c\<lparr>sc_pOutputAup := a\<rparr>), rp4)"
    unfolding AL_SeiParser_Parse_def GetPayloadType_def GetPayloadSize_def
    using al rp1(1) rp2(1) rp3(1) data nonneg rp4(1,2) tn by (cases "?rest > 0") (simp_all add: Let_def sent_message_def)
  then show "\<exists>rp'. AL_SeiParser_Parse custom pre c rp = Some (if send then send_sei (sent_message pre t k ?n) (c\<lparr>sc_pOutputAup := a\<rparr>)
      else (True, c\<lparr>sc_pOutputAup := a\<rparr>), rp') \<and> rp_ok B S rp' \<and> rp_iCurrentBitIndex rp' = 8 * k + length (sei_bits t xs)"
    using rp4(3,4) by (simp add: length_sei_bits)
qed

end
