(* ===== verification/Sei_Unit.thy ===== *)
theory Sei_Unit
  imports Sei_Msg
begin

text \<open>
  The messages of a unit: the loop of \<open>seiPrefixWrite\<close> over its flags writes one message after the
  other, and the loop of \<open>AL_AVC_ParseSEI\<close> reads them in this order.
\<close>

section \<open>Reading the messages\<close>

text \<open>A message with its effect on the access unit; \<open>I\<close> is what the parser of its payload relies on.\<close>

record sei_message =
  mg_type :: nat
  mg_bits :: "bool list"
  mg_send :: bool
  mg_upd :: "AL_TAup \<Rightarrow> AL_TAup"

definition mg_ok :: "(nat \<Rightarrow> nat \<Rightarrow> sei_parser) option \<Rightarrow> (AL_TAup \<Rightarrow> bool) \<Rightarrow> sei_message \<Rightarrow> bool" where
  "mg_ok custom I m \<longleftrightarrow> mg_type m < 255 \<and> sei_bytes (mg_bits m) < 255 \<and> (\<forall>a. I a \<longrightarrow> I (mg_upd m a) \<and>
     (\<exists>r ys zs. mg_bits m = ys @ zs \<and> reads (sei_payload custom (mg_type m) (sei_bytes (mg_bits m)) a) ys (r, mg_send m, mg_upd m a)))"

definition sei_unit :: "sei_message list \<Rightarrow> bool list" where
  "sei_unit ms = concat (map (\<lambda>m. sei_bits (mg_type m) (mg_bits m)) ms)"

definition after_message :: "bool \<Rightarrow> nat \<Rightarrow> sei_message \<Rightarrow> AL_TSeiParserCtx \<Rightarrow> bool \<times> AL_TSeiParserCtx" where
  "after_message pre k m c = (let c = c\<lparr>sc_pOutputAup := mg_upd m (sc_pOutputAup c)\<rparr> in
     if mg_send m then send_sei (sent_message pre (mg_type m) k (sei_bytes (mg_bits m))) c else (True, c))"

fun after_messages :: "bool \<Rightarrow> nat \<Rightarrow> sei_message list \<Rightarrow> AL_TSeiParserCtx \<Rightarrow> bool \<times> AL_TSeiParserCtx" where
  "after_messages pre k [] c = (True, c)"
| "after_messages pre k (m # ms) c = (let (ok, c) = after_message pre k m c in
     if ok then after_messages pre (k + 2 + sei_bytes (mg_bits m)) ms c else (False, c))"

lemma after_message_aup: "sc_pOutputAup (snd (after_message pre k m c)) = mg_upd m (sc_pOutputAup c)"
  by (auto simp: after_message_def send_sei_def Let_def split: prod.splits)

lemma sei_loop_reads:
  assumes "\<forall>m \<in> set ms. mg_ok custom I m" "ms \<noteq> []" "I (sc_pOutputAup c)" "rp_ok B S rp"
    "rp_iCurrentBitIndex rp = 8 * k" "S = 8 * k + length (sei_unit ms)" "short_tail B S" "0 < k"
    "bytes_bits B = P @ sei_unit ms @ R" "length P = 8 * k"
  shows "\<exists>rp'. sei_loop custom pre c rp = Some (after_messages pre k ms c, rp')"
  using assms
proof (induction ms arbitrary: c k rp P)
  case (Cons m ms)
  let ?x = "sei_bits (mg_type m) (mg_bits m)" and ?n = "sei_bytes (mg_bits m)" and ?k = "k + 2 + sei_bytes (mg_bits m)"
  have m: "mg_ok custom I m" using Cons.prems(1) by simp
  obtain r ys zs where r: "mg_bits m = ys @ zs"
      "reads (sei_payload custom (mg_type m) ?n (sc_pOutputAup c)) ys (r, mg_send m, mg_upd m (sc_pOutputAup c))"
    using m Cons.prems(3) by (auto simp: mg_ok_def)
  have un: "sei_unit (m # ms) = ?x @ sei_unit ms" by (simp add: sei_unit_def)
  have lx: "length ?x = 8 * (2 + ?n)" by (rule length_sei_bits)
  have lt: "mg_type m < 255" "?n < 255" using m by (auto simp: mg_ok_def)
  obtain rp1 where rp1: "AL_SeiParser_Parse custom pre c rp = Some (after_message pre k m c, rp1)" "rp_ok B S rp1"
      "rp_iCurrentBitIndex rp1 = 8 * ?k"
    using reads_atD [OF parse_message [OF reads_at_reads [OF r(2)] r(1) lt, of pre] Cons.prems(4), of P "sei_unit ms @ R" k]
      Cons.prems(5,6,9,10) un lx by (auto simp: after_message_def Let_def)
  obtain ok c1 where c1: "after_message pre k m c = (ok, c1)" by fastforce
  have I1: "I (sc_pOutputAup c1)" using after_message_aup [of pre k m c] c1 m Cons.prems(3) by (simp add: mg_ok_def)
  show ?case
  proof (cases "ok \<and> ms \<noteq> []")
    case True
    have "length (sei_unit ms) > 0" using True by (cases ms) (simp_all add: sei_unit_def length_sei_bits)
    then have "rp_iCurrentBitIndex rp1 < S" using rp1(3) Cons.prems(6) un lx by simp
    from more_rbsp_data_true [OF rp1(2) this] obtain rp2 where rp2: "more_rbsp_data rp1 = Some (True, rp2)" "rp_ok B S rp2"
      "rp_iCurrentBitIndex rp2 = 8 * ?k" using rp1(3) by auto
    obtain rp3 where "sei_loop custom pre c1 rp2 = Some (after_messages pre ?k ms c1, rp3)"
      using Cons.IH [OF _ _ I1 rp2(2,3) _ Cons.prems(7), of "P @ ?x"] Cons.prems(1,6,9,10) True un lx by auto
    then show ?thesis using rp1(1) rp2(1) c1 True by (subst sei_loop.simps) simp
  next
    case False
    show ?thesis
    proof (cases ok)
      case True
      then have ms: "ms = []" using False by simp
      then have S: "rp_iCurrentBitIndex rp1 = S" using rp1(3) Cons.prems(6) un lx by (simp add: sei_unit_def)
      obtain rp2 where rp2: "more_rbsp_data rp1 = Some (False, rp2)" "rp_ok B S rp2" "rp_iCurrentBitIndex rp2 = S"
        using more_rbsp_data_false [OF rp1(2) S Cons.prems(7)] by blast
      have "0 < S" using rp1(3) S Cons.prems(8) by simp
      then obtain rp3 where "rbsp_trailing_bits rp2 = Some (True, rp3)"
        using rbsp_trailing_bits_true [OF rp2(2,3) Cons.prems(7)] by blast
      then show ?thesis using rp1(1) rp2(1) c1 True ms by (subst sei_loop.simps) simp
    next
      case False
      then show ?thesis using rp1(1) c1 by (subst sei_loop.simps) simp
    qed
  qed
qed simp

text \<open>The messages sent to the user, when the list of the meta data has room for them.\<close>

fun messages_sent :: "bool \<Rightarrow> nat \<Rightarrow> sei_message list \<Rightarrow> AL_TSeiMessage list" where
  "messages_sent pre k [] = []"
| "messages_sent pre k (m # ms) =
     (if mg_send m then [sent_message pre (mg_type m) k (sei_bytes (mg_bits m))] else []) @ messages_sent pre (k + 2 + sei_bytes (mg_bits m)) ms"

definition has_room :: "AL_TSeiParserCtx \<Rightarrow> nat \<Rightarrow> bool" where
  "has_room c n \<longleftrightarrow> (\<forall>d. sc_pOutputMeta c = Some d \<longrightarrow> length (sd_payload d) + n \<le> sd_maxPayload d)"

definition with_sent :: "AL_TSeiMessage list \<Rightarrow> AL_TSeiParserCtx \<Rightarrow> AL_TSeiParserCtx" where
  "with_sent sent c = c\<lparr>sc_pOutputMeta := map_option (\<lambda>d. d\<lparr>sd_payload := sd_payload d @ sent\<rparr>) (sc_pOutputMeta c),
     sc_pSeiParsedCallback := map_option (\<lambda>calls. calls @ sent) (sc_pSeiParsedCallback c)\<rparr>"

lemma send_sei_room: "has_room c 1 \<Longrightarrow> send_sei m c = (True, with_sent [m] c)"
  by (auto simp: send_sei_def has_room_def with_sent_def AL_SeiMetaData_AddPayload_def split: option.splits)

lemma with_sent_facts:
  "with_sent xs (with_sent ys c) = with_sent (ys @ xs) c" "has_room (with_sent ys c) n \<longleftrightarrow> has_room c (length ys + n)"
  "sc_pOutputAup (with_sent ys c) = sc_pOutputAup c" "with_sent [] c = c"
  "(with_sent ys c)\<lparr>sc_pOutputAup := a\<rparr> = with_sent ys (c\<lparr>sc_pOutputAup := a\<rparr>)"
  "has_room (c\<lparr>sc_pOutputAup := a\<rparr>) n \<longleftrightarrow> has_room c n"
  by (auto simp: with_sent_def has_room_def option.map_comp comp_def option.map_ident add.assoc)

lemma after_messages_room:
  "has_room c (length (messages_sent pre k ms)) \<Longrightarrow> after_messages pre k ms c =
     (True, with_sent (messages_sent pre k ms) (c\<lparr>sc_pOutputAup := fold mg_upd ms (sc_pOutputAup c)\<rparr>))"
proof (induction ms arbitrary: k c)
  case (Cons m ms)
  let ?c = "c\<lparr>sc_pOutputAup := mg_upd m (sc_pOutputAup c)\<rparr>"
  show ?case
  proof (cases "mg_send m")
    case True
    then have r: "has_room c (Suc (length (messages_sent pre (k + 2 + sei_bytes (mg_bits m)) ms)))" using Cons.prems by simp
    then have "has_room ?c 1" by (auto simp: has_room_def)
    then show ?thesis using True r Cons.IH by (simp add: after_message_def send_sei_room with_sent_facts)
  next
    case False
    then show ?thesis using Cons by (simp add: after_message_def with_sent_facts)
  qed
qed (simp add: with_sent_facts)

section \<open>Writing the messages\<close>

lemma put_messages_appends:
  assumes "\<And>i. i \<in> set is \<Longrightarrow> W i = put_message (T i) (F i) \<and> writes (F i) (\<lambda>_. X i) \<and> sei_bytes (X i) < 255 \<and> T i < 255"
    and "bs_wf bs" "bs_iBitCount bs = 8 * k" "bs_iBitCount bs + length (concat (map (\<lambda>i. sei_bits (T i) (X i)) is)) \<le> bs_iMaxBits bs"
  shows "\<exists>bs'. foldM W is bs = Some bs' \<and> appends bs (concat (map (\<lambda>i. sei_bits (T i) (X i)) is)) bs'"
  using assms
proof (induction "is" arbitrary: bs k)
  case Nil
  then show ?case by (simp add: appends_refl)
next
  case (Cons i "is")
  have i: "W i = put_message (T i) (F i)" "writes (F i) (\<lambda>_. X i)" "sei_bytes (X i) < 256" "T i < 256" using Cons.prems(1) [of i] by auto
  obtain bs1 where bs1: "W i bs = Some bs1" "appends bs (sei_bits (T i) (X i)) bs1"
    unfolding i(1) using put_message_appends [OF Cons.prems(2,3) i(2,3) _ i(4)] Cons.prems(4) by auto
  have c: "bs_iBitCount bs1 = 8 * (k + 2 + sei_bytes (X i))" "bs_iMaxBits bs1 = bs_iMaxBits bs"
    using appends_count [OF bs1(2)] appends_max [OF bs1(2)] Cons.prems(3) by (simp_all add: length_sei_bits)
  obtain bs2 where "foldM W is bs1 = Some bs2" "appends bs1 (concat (map (\<lambda>i. sei_bits (T i) (X i)) is)) bs2"
    using Cons.IH [OF Cons.prems(1) appends_wf [OF bs1(2)] c(1)] Cons.prems(3,4) c by (auto simp: length_sei_bits)
  then show ?case using bs1 appends_trans by fastforce
qed

text \<open>\<open>WriteNal\<close> runs a writer on the scratch buffer only, so it is enough to know what it does there.\<close>

lemma WriteNal_cong:
  "f (AL_BitStreamLite_Init tmp sz) = g (AL_BitStreamLite_Init tmp sz) \<Longrightarrow> WriteNal wsc f tmp bs sz nut h mode = WriteNal wsc g tmp bs sz nut h mode"
  by (simp add: WriteNal_def writeNalInBuffer_def)

lemma unit_written_at:
  assumes "f (AL_BitStreamLite_Init tmp sz) = Some bs1" "appends (AL_BitStreamLite_Init tmp sz) xs bs1"
    and "length xs + 8 \<le> 8 * sz" "sz \<le> length tmp" "wsc = AVC_writeStartCode \<or> wsc = HEVC_writeStartCode"
    and "bs_wf bs" "bs_iBitCount bs = 8 * k" "\<not> bs_isOverflow bs"
  shows "\<exists>n bs' d four. WriteNal wsc (\<lambda>bs. do { bs \<leftarrow> f bs; write_trailing bs }) tmp bs sz nut \<lparr>nh_bytes = [h], nh_size = 1\<rparr> mode = Some (n, bs')
    \<and> (n = -1 \<longleftrightarrow> bs_isOverflow bs') \<and> bytes_bits d = rbsp_bits (bit_syns xs) \<and> d \<noteq> []
    \<and> (n \<noteq> -1 \<longrightarrow> take (nat n) (drop k (bs_pData bs')) = start_code four @ [h] @ escape d)"
proof -
  let ?i = "AL_BitStreamLite_Init tmp sz"
  let ?p = "foldM (\<lambda>s. put_syn s) (bit_syns xs)"
  let ?g = "\<lambda>bs. if bs = ?i then Some bs1 else ?p bs"
  have p: "writes ?p (\<lambda>_. xs)"
    using writes_foldM [of "bit_syns xs" "\<lambda>s. put_syn s" syn_bits] writes_syn [OF bit_syns_ok] by (simp add: bit_syns_bits)
  then have w: "writes ?g (\<lambda>_. xs)" using assms(2) by (auto simp: writes_def)
  obtain X where X: "writes (\<lambda>bs. do { bs \<leftarrow> ?g bs; write_trailing bs }) X" "X 0 = rbsp_bits (bit_syns xs)"
    using writes_trailing [OF w] by blast
  have "length (X 0) \<le> 8 * sz" using X(2) assms(3) length_align_bits [of False "Suc (length xs)"]
    by (auto simp: bit_syns_rbsp align_bits_def)
  then have fits: "fits_scratch (\<lambda>bs. do { bs \<leftarrow> ?g bs; write_trailing bs }) tmp sz"
    using writeNalInBuffer_cases [OF X(1) assms(4)] assms(4) unfolding fits_scratch_def
    by (metis linorder_not_less of_nat_0_le_iff option.inject prod.inject)
  have eq: "WriteNal wsc (\<lambda>bs. do { bs \<leftarrow> f bs; write_trailing bs }) tmp bs sz nut h mode
      = WriteNal wsc (\<lambda>bs. do { bs \<leftarrow> ?g bs; write_trailing bs }) tmp bs sz nut h mode" for h
    by (rule WriteNal_cong) (simp add: assms(1))
  show ?thesis unfolding eq using unit_written [OF w fits assms(5-8)] by blast
qed

section \<open>The loop over the flags\<close>

text \<open>The numbers of the flags in the order of the code, and what the code does for one of them.\<close>

definition flag_order :: "nat list" where
  "flag_order = [0, 2, 1, 3, 4, 5, 6, 7]"

definition sei_flags :: "u32 \<Rightarrow> nat list" where
  "sei_flags e = filter (bit e) flag_order"

definition sei_write :: "AL_TSeiPrefixCtx \<Rightarrow> nat \<Rightarrow> BitStreamLite \<Rightarrow> BitStreamLite option" where
  "sei_write ctx i bs = map_option snd (seiPrefixWrite_turn ctx (push_bit i 1) bs)"

lemma flag_bits:
  fixes e :: u32
  shows "e AND 1 = 0 \<longleftrightarrow> \<not> bit e 0" "e AND 2 = 0 \<longleftrightarrow> \<not> bit e 1" "e AND 4 = 0 \<longleftrightarrow> \<not> bit e 2" "e AND 8 = 0 \<longleftrightarrow> \<not> bit e 3"
    "e AND 0x10 = 0 \<longleftrightarrow> \<not> bit e 4" "e AND 0x20 = 0 \<longleftrightarrow> \<not> bit e 5" "e AND 0x40 = 0 \<longleftrightarrow> \<not> bit e 6" "e AND 0x80 = 0 \<longleftrightarrow> \<not> bit e 7"
  using and_exp_eq_0_iff_not_bit [of e 0] and_exp_eq_0_iff_not_bit [of e 1] and_exp_eq_0_iff_not_bit [of e 2] and_exp_eq_0_iff_not_bit [of e 3]
    and_exp_eq_0_iff_not_bit [of e 4] and_exp_eq_0_iff_not_bit [of e 5] and_exp_eq_0_iff_not_bit [of e 6] and_exp_eq_0_iff_not_bit [of e 7]
  by simp_all

lemma flag_clear:
  fixes e :: u32
  shows "e AND NOT 1 = unset_bit 0 e" "e AND NOT 2 = unset_bit 1 e" "e AND NOT 4 = unset_bit 2 e" "e AND NOT 8 = unset_bit 3 e"
    "e AND NOT 0x10 = unset_bit 4 e" "e AND NOT 0x20 = unset_bit 5 e" "e AND NOT 0x40 = unset_bit 6 e" "e AND NOT 0x80 = unset_bit 7 e"
  by (simp_all add: unset_bit_eq_and_not push_bit_eq_mult)

lemma turn_takes_first:
  assumes "sei_flags e = i # is"
  shows "seiPrefixWrite_turn ctx e bs = map_option (Pair (unset_bit i e)) (sei_write ctx i bs)" "sei_flags (unset_bit i e) = is"
    "bit e i" "i < 8"
proof -
  have c: "bit e 0 \<and> i = 0 \<or> \<not> bit e 0 \<and> bit e 2 \<and> i = 2 \<or> \<not> bit e 0 \<and> \<not> bit e 2 \<and> bit e 1 \<and> i = 1
    \<or> \<not> bit e 0 \<and> \<not> bit e 2 \<and> \<not> bit e 1 \<and> bit e 3 \<and> i = 3
    \<or> \<not> bit e 0 \<and> \<not> bit e 2 \<and> \<not> bit e 1 \<and> \<not> bit e 3 \<and> bit e 4 \<and> i = 4
    \<or> \<not> bit e 0 \<and> \<not> bit e 2 \<and> \<not> bit e 1 \<and> \<not> bit e 3 \<and> \<not> bit e 4 \<and> bit e 5 \<and> i = 5
    \<or> \<not> bit e 0 \<and> \<not> bit e 2 \<and> \<not> bit e 1 \<and> \<not> bit e 3 \<and> \<not> bit e 4 \<and> \<not> bit e 5 \<and> bit e 6 \<and> i = 6
    \<or> \<not> bit e 0 \<and> \<not> bit e 2 \<and> \<not> bit e 1 \<and> \<not> bit e 3 \<and> \<not> bit e 4 \<and> \<not> bit e 5 \<and> \<not> bit e 6 \<and> bit e 7 \<and> i = 7"
    using assms by (simp add: sei_flags_def flag_order_def split: if_splits)
  have one: "bit (push_bit m 1 :: u32) n \<longleftrightarrow> n = m" if "m < 8" for m n using that by (auto simp: bit_exp_iff)
  show "seiPrefixWrite_turn ctx e bs = map_option (Pair (unset_bit i e)) (sei_write ctx i bs)"
    using c unfolding sei_write_def seiPrefixWrite_turn_def Let_def flag_clear
    by (elim disjE conjE) (simp_all add: flag_bits one option.map_comp comp_def)
  show "bit e i" "i < 8" using c by auto
  have "sei_flags (unset_bit i e) = filter (\<lambda>n. bit e n \<and> n \<noteq> i) flag_order"
    unfolding sei_flags_def by (rule filter_cong) (auto simp: bit_unset_bit_iff)
  also have "\<dots> = filter (\<lambda>n. n \<noteq> i) (sei_flags e)" by (simp add: sei_flags_def)
  finally have f: "sei_flags (unset_bit i e) = filter (\<lambda>n. n \<noteq> i) (i # is)" using assms by simp
  have "distinct (sei_flags e)" by (simp add: sei_flags_def flag_order_def)
  then have "\<forall>n \<in> set is. n \<noteq> i" using assms by auto
  then show "sei_flags (unset_bit i e) = is" unfolding f by simp
qed

text \<open>Without a flag that no branch knows, the loop ends and has written a message for each of its flags.\<close>

lemma no_flags:
  assumes "\<forall>n. bit e n \<longrightarrow> n < 8" "sei_flags e = []"
  shows "e = 0"
proof (rule bit_eqI)
  fix n
  have "n < 8 \<Longrightarrow> n \<in> set flag_order" for n by (auto simp: flag_order_def)
  then show "bit e n \<longleftrightarrow> bit 0 n" using assms by (auto simp: sei_flags_def filter_empty_conv)
qed

lemma seiPrefixWrite_loop_run:
  assumes "\<forall>n. bit e n \<longrightarrow> n < 8" "e \<noteq> 0"
  shows "seiPrefixWrite_loop ctx e bs = do { bs \<leftarrow> foldM (sei_write ctx) (sei_flags e) bs; AL_RbspEncoding_CloseSEI bs }"
  using assms
proof (induction "length (sei_flags e)" arbitrary: e bs)
  case 0
  then show ?case using no_flags by auto
next
  case (Suc n)
  obtain i "is" where f: "sei_flags e = i # is" using Suc.hyps(2) by (cases "sei_flags e") auto
  note t = turn_takes_first [OF f]
  let ?e = "unset_bit i e"
  have hi: "\<forall>n. bit ?e n \<longrightarrow> n < 8" using Suc.prems(1) by (auto simp: bit_unset_bit_iff)
  have n: "n = length (sei_flags ?e)" using Suc.hyps(2) f t(2) by simp
  have z: "?e = 0 \<longleftrightarrow> is = []" using no_flags [OF hi] t(2) by (auto simp: sei_flags_def)
  have "seiPrefixWrite_loop ctx 0 bs = Some bs" for bs by (subst seiPrefixWrite_loop.simps) simp
  then have zero: "seiPrefixWrite_loop ctx 0 = Some" by (simp add: fun_eq_iff)
  show ?case
    using Suc.hyps(1) [OF n hi] z zero Suc.prems(2) f t(1,2)
    by (subst seiPrefixWrite_loop.simps) (cases "sei_write ctx i bs"; cases "is = []"; auto)
qed

text \<open>A flag that no branch clears keeps the loop going: it has no result.\<close>

lemma seiPrefixWrite_loop_known:
  assumes "seiPrefixWrite_loop ctx e bs = Some bs'"
  shows "\<forall>n. bit e n \<longrightarrow> n < 8"
proof (rule seiPrefixWrite_loop.raw_induct [where P = "\<lambda>ctx e bs bs'. \<forall>n. bit e n \<longrightarrow> n < 8", OF _ assms])
  fix loop ctx e bs bs'
  assume IH: "\<And>ctx e bs bs'. loop ctx e bs = Some bs' \<Longrightarrow> \<forall>n. bit e n \<longrightarrow> n < 8"
    and run: "(if e = 0 then Some bs else Option.bind (seiPrefixWrite_turn ctx e bs) (\<lambda>(e, bs).
        Option.bind (if e = 0 then AL_RbspEncoding_CloseSEI bs else Some bs) (\<lambda>bs. loop ctx e bs))) = Some bs'"
  show "\<forall>n. bit e n \<longrightarrow> n < 8"
  proof (cases "e = 0")
    case False
    then obtain e1 bs1 bs2 where t: "seiPrefixWrite_turn ctx e bs = Some (e1, bs1)" "loop ctx e1 bs2 = Some bs'"
      using run by (auto split: bind_splits)
    have e1: "\<forall>n. bit e1 n \<longrightarrow> n < 8" by (rule IH [OF t(2)])
    show ?thesis
    proof (cases "sei_flags e")
      case Nil
      then have "\<not> bit e 0 \<and> \<not> bit e 2 \<and> \<not> bit e 1 \<and> \<not> bit e 3 \<and> \<not> bit e 4 \<and> \<not> bit e 5 \<and> \<not> bit e 6 \<and> \<not> bit e 7"
        by (simp add: sei_flags_def flag_order_def split: if_splits)
      then have "e1 = e" using t(1) by (simp add: seiPrefixWrite_turn_def Let_def flag_bits)
      then show ?thesis using e1 by simp
    next
      case (Cons i "is")
      then have "e1 = unset_bit i e" "i < 8" using t(1) turn_takes_first [OF Cons] by auto
      then show ?thesis using e1 by (auto simp: bit_unset_bit_iff)
    qed
  qed simp
qed

lemma flags_below:
  shows "e AND NOT (mask m) = (0 :: u32) \<longleftrightarrow> (\<forall>n. bit e n \<longrightarrow> n < m)"
proof
  assume z: "e AND NOT (mask m) = 0"
  show "\<forall>n. bit e n \<longrightarrow> n < m"
  proof (intro allI impI)
    fix n assume b: "bit e n"
    have "\<not> bit (e AND NOT (mask m)) n" unfolding z by simp
    then show "n < m" using b bit_imp_le_length [OF b] by (simp add: bit_and_iff bit_not_iff bit_mask_iff)
  qed
next
  assume "\<forall>n. bit e n \<longrightarrow> n < m"
  then show "e AND NOT (mask m) = 0" by (intro bit_eqI) (auto simp: bit_and_iff bit_not_iff bit_mask_iff)
qed

text \<open>
  C39: What the loop of \<open>seiPrefixWrite\<close> does with any choice of flags. If none is set it writes
  nothing, not even the end of the unit. If only flags of the eight messages are set, it returns after
  it has written each of them once, in the order buffering period, recovery point, picture timing,
  mastering display, light level, transfer characteristics, ST 2094-10, ST 2094-40, and then the end
  of the unit. If any other flag is set, as in \<open>AL_SEI_ALL\<close>, it never returns.
\<close>

theorem sei_prefix_returns:
  "seiPrefixWrite ctx bs =
     (if sx_eFlags ctx = 0 then Some bs
      else if sx_eFlags ctx AND NOT 0xFF \<noteq> 0 then None
      else do { bs \<leftarrow> foldM (sei_write ctx) (filter (bit (sx_eFlags ctx)) [0, 2, 1, 3, 4, 5, 6, 7]) bs; AL_RbspEncoding_CloseSEI bs })"
proof -
  have m: "(0xFF :: u32) = mask 8" by (simp add: mask_eq_exp_minus_1)
  have "seiPrefixWrite_loop ctx (sx_eFlags ctx) bs = None" if "sx_eFlags ctx AND NOT 0xFF \<noteq> 0"
    using that seiPrefixWrite_loop_known [of ctx "sx_eFlags ctx" bs] unfolding m flags_below
    by (cases "seiPrefixWrite_loop ctx (sx_eFlags ctx) bs") auto
  moreover have "seiPrefixWrite_loop ctx 0 bs = Some bs" by (subst seiPrefixWrite_loop.simps) simp
  ultimately show ?thesis
    using seiPrefixWrite_loop_run [of "sx_eFlags ctx" ctx bs] unfolding seiPrefixWrite_def sei_flags_def flag_order_def m flags_below [symmetric]
    by auto
qed

end
