(* ===== verification/Sei_Trip.thy ===== *)
theory Sei_Trip
  imports Sei_Unit
begin

text \<open>
  The payloads of the messages, each with what the parser of AVC makes of it, and the round trip of a
  unit of messages.
\<close>

section \<open>Payloads\<close>

text \<open>The number of bits of a payload, which its size byte must hold.\<close>

definition short :: "(BitStreamLite \<Rightarrow> BitStreamLite option) \<Rightarrow> nat \<Rightarrow> bool" where
  "short f n \<longleftrightarrow> (\<exists>xs. writes f (\<lambda>_. xs) \<and> length xs \<le> n)"

lemma short_seq:
  assumes "short f m" "short g n"
  shows "short (\<lambda>bs. do { bs \<leftarrow> f bs; g bs }) (m + n)"
proof -
  obtain xs ys where "writes f (\<lambda>_. xs)" "length xs \<le> m" "writes g (\<lambda>_. ys)" "length ys \<le> n"
    using assms unfolding short_def by blast
  then show ?thesis unfolding short_def using writes_bind by (intro exI [of _ "xs @ ys"]) fastforce
qed

lemma short_Some: "short Some n"
  unfolding short_def using writes_Some by (intro exI [of _ "[]"]) simp

lemma short_if: "(b \<Longrightarrow> short f n) \<Longrightarrow> (\<not> b \<Longrightarrow> short g n) \<Longrightarrow> short (\<lambda>bs. if b then f bs else g bs) n"
  by (cases b) simp_all

lemma short_u:
  assumes "0 < n" "n \<le> 32" "k < 2 ^ n"
  shows "short (wr_u n k) n"
  unfolding short_def wr_u_def using writes_u [OF assms(1,2) word_of_nat_fits [OF assms(3,2)]] by (intro exI conjI) auto

lemma wr_bit_u: "k < 2 \<Longrightarrow> wr_bit k = wr_u 1 k"
  by (auto simp: wr_bit_def wr_u_def fun_eq_iff less_2_cases_iff AL_BitStreamLite_PutBit_def AL_BitStreamLite_PutU_def)

lemma short_bit: "k < 2 \<Longrightarrow> short (wr_bit k) 1"
  using short_u [of 1 k] by (simp add: wr_bit_u)

lemma msb_below_le: "msb_below n v \<le> n"
  by (induction n) auto

lemma length_ue_bits: "length (ue_bits (v :: u32)) \<le> 65"
  using msb_below_le [of 32 "v + 1"] by (simp add: ue_bits_def Let_def)

lemma short_ue:
  assumes "k < 2 ^ 32 - 1"
  shows "short (wr_ue k) 65"
  unfolding short_def wr_ue_def using writes_ue [OF word_of_nat_ue [OF assms]] length_ue_bits by blast

lemma short_for:
  assumes "\<And>i. i \<in> set is \<Longrightarrow> short (f i) n"
  shows "short (foldM f is) (n * length is)"
  using assms
proof (induction "is")
  case Nil
  then show ?case using short_Some by simp
next
  case (Cons i "is")
  have "short (\<lambda>bs. do { bs \<leftarrow> f i bs; foldM f is bs }) (n + n * length is)" by (rule short_seq) (use Cons in auto)
  then show ?case by simp
qed

lemma short_mono: "short f m \<Longrightarrow> m \<le> n \<Longrightarrow> short f n"
  unfolding short_def by (meson order_trans)

text \<open>A writer appends the same bits to every stream, so they do not depend on what reads them.\<close>

lemma writes_unique:
  assumes "writes f (\<lambda>_. xs)" "writes f (\<lambda>_. ys)"
  shows "xs = ys"
proof -
  let ?n = "length xs + length ys"
  let ?bs = "AL_BitStreamLite_Init (replicate ?n 0) ?n"
  have wf: "bs_wf ?bs" by (rule init_wf) simp
  have c: "bs_iMaxBits ?bs = 8 * ?n" "bs_bits ?bs = []" by (simp_all add: AL_BitStreamLite_Init_def bs_bits_def)
  from writesD [OF assms(1) wf] writesD [OF assms(2) wf] show ?thesis by (auto simp: appends_def c)
qed

text \<open>What a message of the type \<open>t\<close> with the writer \<open>f\<close> does to an access unit with the sets \<open>table\<close>.\<close>

definition sei_spec :: "AL_TAvcSeqPar list \<Rightarrow> nat \<Rightarrow> (BitStreamLite \<Rightarrow> BitStreamLite option) \<Rightarrow> bool \<Rightarrow> (AL_TAup \<Rightarrow> AL_TAup) \<Rightarrow> bool" where
  "sei_spec table t f send upd \<longleftrightarrow> (\<exists>xs. writes f (\<lambda>_. xs) \<and> sei_bytes xs < 255 \<and> (\<forall>a n. aup_pSPS a = table \<longrightarrow> aup_pSPS (upd a) = table \<and>
     (\<exists>r ys zs. xs = ys @ zs \<and> reads (sei_payload (Some ParseAvcSpecificSeis) t n a) ys (r, send, upd a))))"

lemma sei_specI:
  assumes "short f n" "n \<le> 254 * 8"
    and "\<And>a n. aup_pSPS a = table \<Longrightarrow> matches f (sei_payload (Some ParseAvcSpecificSeis) t n a) (r, send, upd a)"
    and "\<And>a. aup_pSPS a = table \<Longrightarrow> aup_pSPS (upd a) = table"
  shows "sei_spec table t f send upd"
proof -
  obtain xs where xs: "writes f (\<lambda>_. xs)" "length xs \<le> n" using assms(1) unfolding short_def by blast
  have "reads (sei_payload (Some ParseAvcSpecificSeis) t n a) xs (r, send, upd a)" if "aup_pSPS a = table" for a n
    using assms(3) [OF that, of n] writes_unique [OF xs(1)] unfolding matches_def by blast
  then have "\<exists>r ys zs. xs = ys @ zs \<and> reads (sei_payload (Some ParseAvcSpecificSeis) t n a) ys (r, send, upd a)"
    if "aup_pSPS a = table" for a n using that by (metis append_Nil2)
  moreover have "sei_bytes xs < 255" using xs(2) assms(2) by (simp add: sei_bytes_def)
  ultimately show ?thesis unfolding sei_spec_def using xs(1) assms(4) by blast
qed

lemma matches_bit:
  assumes "k < 2" "k < m"
  shows "matches (wr_bit k) (rd_u 1 m F) (F k)"
  using matches_u [of 1 k m F] assms by (simp add: wr_bit_u)

subsection \<open>Recovery point\<close>

lemma recovery_matches:
  assumes "0 \<le> n" "n < 2 ^ 31"
  shows "matches (write_recovery_point n) SeiRecoveryPoint
    (AL_SEI_PARSE_RESULT_PARSED, \<lparr>rpt_recovery_cnt = n, rpt_exact_match = True, rpt_broken_link = False\<rparr>)"
  unfolding write_recovery_point_def SeiRecoveryPoint_def
  by (rule matches_eq, (rule matches_seq matches_ue_int matches_bit matches_u matches_done
      | (use assms in \<open>simp add: U32_def\<close>; fail))+)

lemma payload_recovery:
  assumes "0 \<le> n" "n < 2 ^ 31 - 1"
  shows "sei_spec table SEI_PTYPE_RECOVERY_POINT (write_recovery_point n) True (\<lambda>a. a\<lparr>aup_iRecoveryCnt := n + 1\<rparr>)"
proof (rule sei_specI [where r = AL_SEI_PARSE_RESULT_PARSED])
  show "short (write_recovery_point n) (65 + (1 + (1 + 2)))"
  proof -
    have "short (wr_ue_int n) 65"
      using short_ue [of "nat n"] assms by (simp add: wr_ue_int_def wr_ue_def)
    then show ?thesis unfolding write_recovery_point_def by (intro short_seq short_bit short_u) simp_all
  qed
  show "matches (write_recovery_point n) (sei_payload (Some ParseAvcSpecificSeis) SEI_PTYPE_RECOVERY_POINT m a)
      (AL_SEI_PARSE_RESULT_PARSED, True, a\<lparr>aup_iRecoveryCnt := n + 1\<rparr>)" for m a
  proof -
    have e: "sei_payload (Some ParseAvcSpecificSeis) SEI_PTYPE_RECOVERY_POINT m a = (\<lambda>rp. do {
        ((r, p), rp) \<leftarrow> SeiRecoveryPoint rp;
        if rpt_recovery_cnt p = 2 ^ 31 - 1 then None else
        Some ((r, True, a\<lparr>aup_iRecoveryCnt := rpt_recovery_cnt p + 1\<rparr>), rp) })"
      by (simp add: sei_payload_def ParseAvcSpecificSeis_def ParseCommonSei_def SEI_PTYPE_RECOVERY_POINT_def
          SEI_PTYPE_BUFFERING_PERIOD_def fun_eq_iff)
    have m: "matches (write_recovery_point n) SeiRecoveryPoint
      (AL_SEI_PARSE_RESULT_PARSED, \<lparr>rpt_recovery_cnt = n, rpt_exact_match = True, rpt_broken_link = False\<rparr>)"
      by (rule recovery_matches) (use assms in auto)
    show ?thesis unfolding e
      by (rule matches_last [OF m], simp only: prod.case) (use assms matches_done in auto)
  qed
qed simp_all

lemmas sei_type_defs = SEI_PTYPE_RECOVERY_POINT_def SEI_PTYPE_BUFFERING_PERIOD_def SEI_PTYPE_PIC_TIMING_def
  SEI_PTYPE_USER_DATA_REGISTERED_def SEI_PTYPE_USER_DATA_UNREGISTERED_def SEI_PTYPE_MASTERING_DISPLAY_COLOUR_VOLUME_def
  SEI_PTYPE_CONTENT_LIGHT_LEVEL_def SEI_PTYPE_ALTERNATIVE_TRANSFER_CHARACTERISTICS_def

lemmas payload_defs = sei_payload_def ParseAvcSpecificSeis_def ParseCommonSei_def sei_type_defs

text \<open>The messages whose parser is followed by the update of the access unit.\<close>

lemma payload_hdr:
  assumes "short f n" "n \<le> 254 * 8" "matches f p (AL_SEI_PARSE_RESULT_PARSED, v)"
    and "\<And>n a. sei_payload (Some ParseAvcSpecificSeis) t n a = (\<lambda>rp. do { ((r, w), rp) \<leftarrow> p rp; Some ((r, False, upd_hdr (G w) a), rp) })"
  shows "sei_spec table t f False (upd_hdr (G v))"
proof (rule sei_specI [OF assms(1,2), where r = AL_SEI_PARSE_RESULT_PARSED])
  show "matches f (sei_payload (Some ParseAvcSpecificSeis) t n a) (AL_SEI_PARSE_RESULT_PARSED, False, upd_hdr (G v) a)" for n a
    unfolding assms(4) by (rule matches_last [OF assms(3)], simp only: prod.case, rule matches_done, rule refl)
qed (simp add: upd_hdr_def)

subsection \<open>Light levels, transfer characteristics and mastering display\<close>

definition cll_fits :: "AL_TContentLightLevel \<Rightarrow> bool" where
  "cll_fits c \<longleftrightarrow> cll_max_content_light_level c < 65536 \<and> cll_max_pic_average_light_level c < 65536"

definition write_cll :: "AL_TContentLightLevel \<Rightarrow> BitStreamLite \<Rightarrow> BitStreamLite option" where
  "write_cll c = (\<lambda>bs. do {
     bs \<leftarrow> wr_u 16 (cll_max_content_light_level c) bs;
     wr_u 16 (cll_max_pic_average_light_level c) bs })"

lemma payload_cll:
  assumes "cll_fits c"
  shows "sei_spec table SEI_PTYPE_CONTENT_LIGHT_LEVEL (write_cll c) False (upd_hdr (\<lambda>h. h\<lparr>hdr_tCLL := c, hdr_bHasCLL := True\<rparr>))"
proof (rule payload_hdr [where p = SeiContentLightLevel and G = "\<lambda>c h. h\<lparr>hdr_tCLL := c, hdr_bHasCLL := True\<rparr>"])
  show "short (write_cll c) (16 + 16)" unfolding write_cll_def
    by (intro short_seq short_u) (use assms in \<open>simp_all add: cll_fits_def\<close>)
  show "matches (write_cll c) SeiContentLightLevel (AL_SEI_PARSE_RESULT_PARSED, c)"
    unfolding write_cll_def SeiContentLightLevel_def
    by (rule matches_eq, (rule matches_seq matches_u | (use assms in \<open>simp add: cll_fits_def U16_def\<close>; fail))+)
qed (simp_all add: payload_defs fun_eq_iff)

definition atc_fits :: "AL_TAlternativeTransferCharacteristics \<Rightarrow> bool" where
  "atc_fits a \<longleftrightarrow> (let v = atc_preferred_transfer_characteristics a in v \<noteq> 0 \<and> v \<noteq> 3 \<and> v < AL_TRANSFER_CHARAC_MAX_ENUM)"

lemma payload_atc:
  assumes "atc_fits c"
  shows "sei_spec table SEI_PTYPE_ALTERNATIVE_TRANSFER_CHARACTERISTICS (write_atc c) False (upd_hdr (\<lambda>h. h\<lparr>hdr_tATC := c, hdr_bHasATC := True\<rparr>))"
proof (rule payload_hdr [where p = SeiAlternativeTransferCharacteristics and G = "\<lambda>c h. h\<lparr>hdr_tATC := c, hdr_bHasATC := True\<rparr>"])
  let ?v = "atc_preferred_transfer_characteristics c"
  have v: "?v < 19" "AL_VUIValueToTransferCharacteristics ?v = ?v"
    using assms by (auto simp: Let_def atc_fits_def AL_VUIValueToTransferCharacteristics_def AL_TRANSFER_CHARAC_MAX_ENUM_def)
  then have w: "write_atc c = wr_u 8 ?v"
    by (simp add: write_atc_def AL_TransferCharacteristicsToVUIValue_def AL_TRANSFER_CHARAC_MAX_ENUM_def fun_eq_iff)
  show "short (write_atc c) 8" unfolding w by (rule short_u) (use v in simp_all)
  show "matches (write_atc c) SeiAlternativeTransferCharacteristics (AL_SEI_PARSE_RESULT_PARSED, c)"
    unfolding w SeiAlternativeTransferCharacteristics_def
    by (rule matches_eq, rule matches_u) (use v in \<open>simp_all add: U8_def\<close>)
qed (simp_all add: payload_defs fun_eq_iff)

definition mdcv_fits :: "AL_TMasteringDisplayColourVolume \<Rightarrow> bool" where
  "mdcv_fits m \<longleftrightarrow> length (mdcv_display_primaries m) = 3
     \<and> (\<forall>c \<in> set (mdcv_white_point m # mdcv_display_primaries m). cc_x c < 65536 \<and> cc_y c < 65536)
     \<and> mdcv_max_display_mastering_luminance m < 4294967296 \<and> mdcv_min_display_mastering_luminance m < 4294967296"

lemma mdcv_fitsD:
  assumes "mdcv_fits m"
  shows "i < 3 \<Longrightarrow> cc_x (mdcv_display_primaries m ! i) < 65536" "i < 3 \<Longrightarrow> cc_y (mdcv_display_primaries m ! i) < 65536"
    "cc_x (mdcv_white_point m) < 65536" "cc_y (mdcv_white_point m) < 65536"
    "mdcv_max_display_mastering_luminance m < 4294967296" "mdcv_min_display_mastering_luminance m < 4294967296"
  using assms by (auto simp: mdcv_fits_def)

definition mdcv_upto :: "AL_TMasteringDisplayColourVolume \<Rightarrow> nat list \<Rightarrow> AL_TMasteringDisplayColourVolume" where
  "mdcv_upto m is = zero_mdcv\<lparr>mdcv_display_primaries := fold (\<lambda>i xs. xs[i := mdcv_display_primaries m ! i]) is (replicate 3 zero_cc)\<rparr>"

lemma primaries_match:
  assumes "mdcv_fits m"
  shows "matches (foldM (\<lambda>c bs. do {
       bs \<leftarrow> wr_u 16 (cc_x (mdcv_display_primaries m ! c)) bs;
       wr_u 16 (cc_y (mdcv_display_primaries m ! c)) bs }) [0..<3]) (for_reads mdcv_primary [0..<3] zero_mdcv)
     (zero_mdcv\<lparr>mdcv_display_primaries := mdcv_display_primaries m\<rparr>)"
proof -
  have "matches (foldM (\<lambda>c bs. do {
       bs \<leftarrow> wr_u 16 (cc_x (mdcv_display_primaries m ! c)) bs;
       wr_u 16 (cc_y (mdcv_display_primaries m ! c)) bs }) [0..<3]) (for_reads mdcv_primary [0..<3] (mdcv_upto m [])) (mdcv_upto m [0..<3])"
  proof (rule matches_for)
    fix as i bs assume u: "[0..<3] = as @ i # bs"
    then have i: "i < 3" using upt_split [of 3 as i bs] by simp
    let ?c = "mdcv_display_primaries m ! i"
    have e: "x\<lparr>cc_x := cc_x ?c\<rparr>\<lparr>cc_y := cc_y ?c\<rparr> = ?c" for x by simp
    show "matches (\<lambda>bs. do { bs \<leftarrow> wr_u 16 (cc_x ?c) bs; wr_u 16 (cc_y ?c) bs }) (mdcv_primary i (mdcv_upto m as)) (mdcv_upto m (as @ [i]))"
      unfolding mdcv_primary_def
      by (rule matches_eq, (rule matches_seq matches_u | (use mdcv_fitsD [OF assms] i in \<open>simp add: U16_def\<close>; fail))+)
        (simp add: mdcv_upto_def e)
  qed
  moreover have "mdcv_upto m [] = zero_mdcv" by (simp add: mdcv_upto_def zero_mdcv_def)
  moreover have "mdcv_upto m [0..<3] = zero_mdcv\<lparr>mdcv_display_primaries := mdcv_display_primaries m\<rparr>"
    using assms fold_fill [of "[0..<3]" 3 "mdcv_display_primaries m" "replicate 3 zero_cc"] by (simp add: mdcv_upto_def mdcv_fits_def)
  ultimately show ?thesis by simp
qed

lemma payload_mdcv:
  assumes "mdcv_fits m"
  shows "sei_spec table SEI_PTYPE_MASTERING_DISPLAY_COLOUR_VOLUME (write_mdcv m) False (upd_hdr (\<lambda>h. h\<lparr>hdr_tMDCV := m, hdr_bHasMDCV := True\<rparr>))"
proof (rule payload_hdr [where p = SeiMasteringDisplayColourVolume and G = "\<lambda>c h. h\<lparr>hdr_tMDCV := c, hdr_bHasMDCV := True\<rparr>"])
  note d = mdcv_fitsD [OF assms]
  show "short (write_mdcv m) ((16 + 16) * length [0..<3] + (16 + (16 + (32 + 32))))" unfolding write_mdcv_def
    by (intro short_seq short_for short_u) (use d in simp_all)
  show "matches (write_mdcv m) SeiMasteringDisplayColourVolume (AL_SEI_PARSE_RESULT_PARSED, m)"
    unfolding write_mdcv_def SeiMasteringDisplayColourVolume_def
    by (rule matches_eq, (rule primaries_match [OF assms] matches_seq matches_u | (use d in \<open>simp add: U16_def U32_def\<close>; fail))+)
qed (simp_all add: payload_defs fun_eq_iff)

subsection \<open>Buffering period and picture timing\<close>

text \<open>
  The set in the table of the decoder, which the encoder has sent before, agrees with that of the
  encoder in what the lengths of the delays are read from.
\<close>

definition bp_fits :: "AL_TSeiPrefixCtx \<Rightarrow> AL_TAvcSeqPar list \<Rightarrow> bool" where
  "bp_fits ctx table \<longleftrightarrow>
    (let s = sx_sps ctx; h = vui_hrd_param (sps_vui_param s); t = table ! sps_seq_parameter_set_id s; g = vui_hrd_param (sps_vui_param t) in
     sps_seq_parameter_set_id s < AL_AVC_MAX_SPS \<and> \<not> sps_bConceal t
     \<and> (hrd_nal_hrd_parameters_present_flag g \<noteq> 0 \<longleftrightarrow> hrd_nal_hrd_parameters_present_flag h \<noteq> 0)
     \<and> (hrd_vcl_hrd_parameters_present_flag g \<noteq> 0 \<longleftrightarrow> hrd_vcl_hrd_parameters_present_flag h \<noteq> 0)
     \<and> hrd_initial_cpb_removal_delay_length_minus1 g = hrd_initial_cpb_removal_delay_length_minus1 h
     \<and> hrd_cpb_cnt_minus1 g ! 0 = hrd_cpb_cnt_minus1 h ! 0
     \<and> hrd_initial_cpb_removal_delay_length_minus1 h < 32 \<and> hrd_cpb_cnt_minus1 h ! 0 < 15
     \<and> sx_cpbInitialRemovalDelay ctx < 2 ^ (hrd_initial_cpb_removal_delay_length_minus1 h + 1))"

lemma below_u32: "k < 2 ^ n \<Longrightarrow> n \<le> 32 \<Longrightarrow> k < U32"
  using power_increasing [of n 32 "2 :: nat"] unfolding U32_def by simp

lemma delays_match:
  assumes "vui_hrd_param (sps_vui_param s) = h" "hrd_initial_cpb_removal_delay_length_minus1 g = hrd_initial_cpb_removal_delay_length_minus1 h"
    "hrd_cpb_cnt_minus1 g ! 0 = hrd_cpb_cnt_minus1 h ! 0" "hrd_initial_cpb_removal_delay_length_minus1 h < 32" "hrd_cpb_cnt_minus1 h ! 0 < 15"
    "d < 2 ^ (hrd_initial_cpb_removal_delay_length_minus1 h + 1)"
  shows "\<exists>b'. matches (write_delays s d 0) (bp_delays g b) b'" "short (write_delays s d 0) 960"
proof -
  let ?n = "hrd_initial_cpb_removal_delay_length_minus1 h + 1" and ?c = "Suc (hrd_cpb_cnt_minus1 h ! 0)"
  let ?w = "\<lambda>i bs. do { bs \<leftarrow> wr_u ?n d bs; wr_u ?n 0 bs }"
  have w: "write_delays s d 0 = foldM ?w [0..<?c]" unfolding write_delays_def assms(1) Let_def ..
  have r: "bp_delays g b = for_reads (bp_delay ?n) [0..<?c] b" for b unfolding bp_delays_def assms(2,3) ..
  have n: "0 < ?n" "?n \<le> 32" "d < U32" using assms(4) below_u32 [OF assms(6)] by simp_all
  let ?u = "\<lambda>i b. b\<lparr>bp_initial_cpb_removal_delay := (bp_initial_cpb_removal_delay b)[i := d],
      bp_initial_cpb_removal_delay_offset := (bp_initial_cpb_removal_delay_offset b)[i := 0]\<rparr>"
  have "matches (foldM ?w [0..<?c]) (for_reads (bp_delay ?n) [0..<?c] (fold ?u [] b)) (fold ?u [0..<?c] b)"
  proof (rule matches_for)
    fix as i bs assume "[0..<?c] = as @ i # bs"
    then have i: "i < 32" using upt_split [of ?c as i bs] assms(5) by simp
    show "matches (?w i) (bp_delay ?n i (fold ?u as b)) (fold ?u (as @ [i]) b)" unfolding bp_delay_def
      by (rule matches_eq, (rule matches_seq matches_u matches_comply | (use n assms(6) i in \<open>simp add: U32_def\<close>; fail))+)
  qed
  then show "\<exists>b'. matches (write_delays s d 0) (bp_delays g b) b'" unfolding w r by auto
  have "short (foldM ?w [0..<?c]) ((?n + ?n) * length [0..<?c])" by (intro short_for short_seq short_u) (use n assms(6) in simp_all)
  moreover have "(?n + ?n) * length [0..<?c] \<le> 64 * 15" by (rule mult_le_mono) (use assms(4,5) in simp_all)
  ultimately show "short (write_delays s d 0) 960" unfolding w using short_mono by simp
qed

lemma payload_buffering:
  assumes "bp_fits ctx table"
  shows "sei_spec table SEI_PTYPE_BUFFERING_PERIOD (write_buffering_period (sx_sps ctx) (sx_cpbInitialRemovalDelay ctx) 0) True
    (\<lambda>a. a\<lparr>aup_pActiveSPS := Some (sps_seq_parameter_set_id (sx_sps ctx))\<rparr>)"
proof (rule sei_specI [where r = AL_SEI_PARSE_RESULT_PARSED])
  let ?s = "sx_sps ctx" and ?d = "sx_cpbInitialRemovalDelay ctx"
  let ?id = "sps_seq_parameter_set_id (sx_sps ctx)"
  let ?h = "vui_hrd_param (sps_vui_param ?s)" and ?g = "vui_hrd_param (sps_vui_param (table ! ?id))"
  have f: "?id < 32" "\<not> sps_bConceal (table ! ?id)"
    "hrd_nal_hrd_parameters_present_flag ?g \<noteq> 0 \<longleftrightarrow> hrd_nal_hrd_parameters_present_flag ?h \<noteq> 0"
    "hrd_vcl_hrd_parameters_present_flag ?g \<noteq> 0 \<longleftrightarrow> hrd_vcl_hrd_parameters_present_flag ?h \<noteq> 0"
    using assms by (simp_all add: bp_fits_def Let_def AL_AVC_MAX_SPS_def)
  have dm: "\<exists>b'. matches (write_delays ?s ?d 0) (bp_delays ?g b) b'" "short (write_delays ?s ?d 0) 960" for b
    by (rule delays_match [OF refl]; use assms in \<open>simp add: bp_fits_def Let_def\<close>)+
  have opt: "\<exists>b'. matches (\<lambda>bs. if x then write_delays ?s ?d 0 bs else Some bs) (\<lambda>rp. if y then bp_delays ?g b rp else Some (b, rp)) b'"
    if "x \<longleftrightarrow> y" for x y b using dm(1) [of b] that matches_done [of b b] by (cases x) auto
  show "short (write_buffering_period ?s ?d 0) (65 + (960 + 960))"
    unfolding write_buffering_period_def by (intro short_seq short_if short_ue dm(2) short_Some) (use f in simp_all)
  show "matches (write_buffering_period ?s ?d 0) (sei_payload (Some ParseAvcSpecificSeis) SEI_PTYPE_BUFFERING_PERIOD n a)
      (AL_SEI_PARSE_RESULT_PARSED, True, a\<lparr>aup_pActiveSPS := Some ?id\<rparr>)" if t: "aup_pSPS a = table" for a n
  proof -
    have e: "sei_payload (Some ParseAvcSpecificSeis) SEI_PTYPE_BUFFERING_PERIOD n a = (\<lambda>rp. do {
        ((r, active), rp) \<leftarrow> SeiBufferingPeriod table (aup_pActiveSPS a) rp;
        if r = AL_SEI_PARSE_RESULT_UNKNOWN_SEI then ParseCommonSei SEI_PTYPE_BUFFERING_PERIOD n (a\<lparr>aup_pActiveSPS := active\<rparr>) rp
        else Some ((r, True, a\<lparr>aup_pActiveSPS := active\<rparr>), rp) })"
      by (simp add: sei_payload_def ParseAvcSpecificSeis_def t fun_eq_iff case_prod_unfold cong: if_cong)
    let ?b = "\<lparr>bp_seq_parameter_set_id = ?id, bp_initial_cpb_removal_delay = replicate 32 0, bp_initial_cpb_removal_delay_offset = replicate 32 0\<rparr>"
    obtain b1 where b1: "matches (\<lambda>bs. if hrd_nal_hrd_parameters_present_flag ?h \<noteq> 0 then write_delays ?s ?d 0 bs else Some bs)
        (\<lambda>rp. if hrd_nal_hrd_parameters_present_flag ?g \<noteq> 0 then bp_delays ?g ?b rp else Some (?b, rp)) b1"
      using opt [of "hrd_nal_hrd_parameters_present_flag ?h \<noteq> 0" "hrd_nal_hrd_parameters_present_flag ?g \<noteq> 0" ?b] f(3) by blast
    obtain b2 where b2: "matches (\<lambda>bs. if hrd_vcl_hrd_parameters_present_flag ?h \<noteq> 0 then write_delays ?s ?d 0 bs else Some bs)
        (\<lambda>rp. if hrd_vcl_hrd_parameters_present_flag ?g \<noteq> 0 then bp_delays ?g b1 rp else Some (b1, rp)) b2"
      using opt [of "hrd_vcl_hrd_parameters_present_flag ?h \<noteq> 0" "hrd_vcl_hrd_parameters_present_flag ?g \<noteq> 0" b1] f(4) by blast
    have m: "matches (write_buffering_period ?s ?d 0) (SeiBufferingPeriod table (aup_pActiveSPS a)) (AL_SEI_PARSE_RESULT_PARSED, Some ?id)"
      unfolding write_buffering_period_def SeiBufferingPeriod_def
      by (rule matches_seq, rule matches_ue, (use f(1) in simp), (use f(1) in \<open>simp add: U8_def\<close>),
          simp only: Let_def AL_TAvcBufPeriod.select_convs, rule matches_comply, (use f(1) in \<open>simp add: AL_AVC_MAX_SPS_def\<close>),
          rule matches_comply [OF f(2)], rule matches_seq [OF b1], rule matches_last [OF b2], rule matches_done, rule refl)
    show ?thesis unfolding e
      by (rule matches_last [OF m], simp only: prod.case) (use matches_done in auto)
  qed
qed simp_all

definition pt_fits :: "AL_TSeiPrefixCtx \<Rightarrow> bool" where
  "pt_fits ctx \<longleftrightarrow> (let v = sps_vui_param (sx_sps ctx); h = vui_hrd_param v; n = hrd_au_cpb_removal_delay_length_minus1 h + 1 in
     n \<le> 32 \<and> sx_cpbRemovalDelay ctx < 2 ^ n \<and> sx_uDpbOutputDelay ctx < 2 ^ n \<and> sx_ePicStruct ctx \<le> 8)"

text \<open>The decoder knows nothing of a picture timing but its size, and hands it to the user.\<close>

lemma payload_timing:
  assumes "pt_fits ctx"
  shows "sei_spec table SEI_PTYPE_PIC_TIMING (write_picture_timing (sx_sps ctx) (sx_cpbRemovalDelay ctx) (sx_uDpbOutputDelay ctx) (sx_ePicStruct ctx)) True (\<lambda>a. a)"
proof -
  let ?h = "vui_hrd_param (sps_vui_param (sx_sps ctx))" and ?p = "sx_ePicStruct ctx"
  let ?n = "hrd_au_cpb_removal_delay_length_minus1 ?h + 1"
  have f: "?n \<le> 32" "sx_cpbRemovalDelay ctx < 2 ^ ?n" "sx_uDpbOutputDelay ctx < 2 ^ ?n" "?p \<le> 8" using assms by (simp_all add: pt_fits_def Let_def)
  have p: "?p = 0 \<or> ?p = 1 \<or> ?p = 2 \<or> ?p = 3 \<or> ?p = 4 \<or> ?p = 5 \<or> ?p = 6 \<or> ?p = 7 \<or> ?p = 8" using f(4) by linarith
  then have c: "0 < PicStructToNumClockTS ! ?p" "PicStructToNumClockTS ! ?p \<le> 3" by (elim disjE; simp add: PicStructToNumClockTS_def)+
  have u: "short (wr_u ?n k) 32" if "k < 2 ^ ?n" for k by (rule short_mono [OF short_u]) (use that f(1) in simp_all)
  have t: "short (wr_u (PicStructToNumClockTS ! ?p) 0) 3" by (rule short_mono [OF short_u]) (use c in simp_all)
  have "short (write_picture_timing (sx_sps ctx) (sx_cpbRemovalDelay ctx) (sx_uDpbOutputDelay ctx) ?p) ((32 + 32) + (4 + 3))"
    unfolding write_picture_timing_def Let_def
    by (intro short_seq short_if short_Some u f(2,3) short_u) (use f(4) t in simp_all)
  then obtain xs where xs: "writes (write_picture_timing (sx_sps ctx) (sx_cpbRemovalDelay ctx) (sx_uDpbOutputDelay ctx) ?p) (\<lambda>_. xs)"
    "length xs \<le> 71" unfolding short_def by auto
  have "sei_payload (Some ParseAvcSpecificSeis) SEI_PTYPE_PIC_TIMING n a = (\<lambda>rp. Some ((AL_SEI_PARSE_RESULT_UNKNOWN_SEI, True, a), rp))" for n a
    by (simp add: payload_defs fun_eq_iff)
  then have "\<exists>r ys zs. xs = ys @ zs \<and> reads (sei_payload (Some ParseAvcSpecificSeis) SEI_PTYPE_PIC_TIMING n a) ys (r, True, a)" for n a
    using reads_return by (metis append_Nil)
  then show ?thesis unfolding sei_spec_def using xs by (intro exI [of _ xs]) (auto simp: sei_bytes_def)
qed

section \<open>The unit\<close>

text \<open>For the flag \<open>i\<close>: the type of its message, what the message needs, and what the decoder makes of it.\<close>

definition sei_type :: "nat \<Rightarrow> nat" where
  "sei_type i = [SEI_PTYPE_BUFFERING_PERIOD, SEI_PTYPE_PIC_TIMING, SEI_PTYPE_RECOVERY_POINT, SEI_PTYPE_MASTERING_DISPLAY_COLOUR_VOLUME,
     SEI_PTYPE_CONTENT_LIGHT_LEVEL, SEI_PTYPE_ALTERNATIVE_TRANSFER_CHARACTERISTICS] ! i"

definition sei_fits :: "AL_TSeiPrefixCtx \<Rightarrow> AL_TAvcSeqPar list \<Rightarrow> nat \<Rightarrow> bool" where
  "sei_fits ctx table i \<longleftrightarrow>
     (if i = 0 then bp_fits ctx table else if i = 1 then pt_fits ctx
      else if i = 2 then 0 \<le> sx_iRecoveryCnt ctx \<and> sx_iRecoveryCnt ctx < 2 ^ 31 - 1
      else (case sx_pHDRSEIs ctx of None \<Rightarrow> False | Some h \<Rightarrow>
        if i = 3 then mdcv_fits (hdr_tMDCV h) else if i = 4 then cll_fits (hdr_tCLL h) else i = 5 \<and> atc_fits (hdr_tATC h)))"

definition sei_seen :: "AL_TSeiPrefixCtx \<Rightarrow> nat \<Rightarrow> AL_TAup \<Rightarrow> AL_TAup" where
  "sei_seen ctx i a =
     (if i = 0 then a\<lparr>aup_pActiveSPS := Some (sps_seq_parameter_set_id (sx_sps ctx))\<rparr>
      else if i = 2 then a\<lparr>aup_iRecoveryCnt := sx_iRecoveryCnt ctx + 1\<rparr>
      else (case sx_pHDRSEIs ctx of None \<Rightarrow> a | Some s \<Rightarrow>
        if i = 3 then upd_hdr (\<lambda>h. h\<lparr>hdr_tMDCV := hdr_tMDCV s, hdr_bHasMDCV := True\<rparr>) a
        else if i = 4 then upd_hdr (\<lambda>h. h\<lparr>hdr_tCLL := hdr_tCLL s, hdr_bHasCLL := True\<rparr>) a
        else if i = 5 then upd_hdr (\<lambda>h. h\<lparr>hdr_tATC := hdr_tATC s, hdr_bHasATC := True\<rparr>) a else a))"

lemma flag_message:
  assumes "i < 6" "sei_fits ctx table i"
  shows "\<exists>f. sei_write ctx i = put_message (sei_type i) f \<and> sei_spec table (sei_type i) f (i < 3) (sei_seen ctx i)"
proof -
  note w = sei_write_def seiPrefixWrite_turn_def Let_def fun_eq_iff option.map_comp comp_def option.map_ident
  have i: "i = 0 \<or> i = 1 \<or> i = 2 \<or> i = 3 \<or> i = 4 \<or> i = 5" using assms(1) by linarith
  consider (bp) "i = 0" | (pt) "i = 1" | (rp) "i = 2" | (hdr) h where "sx_pHDRSEIs ctx = Some h" "i = 3 \<or> i = 4 \<or> i = 5"
    using i assms(2) by (auto simp: sei_fits_def split: option.splits)
  then show ?thesis
  proof cases
    case bp
    have s: "sei_seen ctx i = (\<lambda>a. a\<lparr>aup_pActiveSPS := Some (sps_seq_parameter_set_id (sx_sps ctx))\<rparr>)"
      using bp by (simp add: sei_seen_def fun_eq_iff)
    have "sei_write ctx i = put_message (sei_type i) (write_buffering_period (sx_sps ctx) (sx_cpbInitialRemovalDelay ctx) 0)"
      using bp by (simp add: w writeSeiBufferingPeriod_def sei_type_def)
    then show ?thesis unfolding s using bp assms(2) payload_buffering [of ctx table]
      by (intro exI [of _ "write_buffering_period (sx_sps ctx) (sx_cpbInitialRemovalDelay ctx) 0"]) (simp add: sei_fits_def sei_type_def)
  next
    case pt
    have s: "sei_seen ctx i = (\<lambda>a. a)" using pt by (simp add: sei_seen_def fun_eq_iff split: option.splits)
    have "sei_write ctx i = put_message (sei_type i) (write_picture_timing (sx_sps ctx) (sx_cpbRemovalDelay ctx) (sx_uDpbOutputDelay ctx) (sx_ePicStruct ctx))"
      using pt by (simp add: w writeSeiPictureTiming_def sei_type_def)
    then show ?thesis unfolding s using pt assms(2) payload_timing [of ctx table]
      by (intro exI [of _ "write_picture_timing (sx_sps ctx) (sx_cpbRemovalDelay ctx) (sx_uDpbOutputDelay ctx) (sx_ePicStruct ctx)"]) (simp add: sei_fits_def sei_type_def)
  next
    case rp
    have s: "sei_seen ctx i = (\<lambda>a. a\<lparr>aup_iRecoveryCnt := sx_iRecoveryCnt ctx + 1\<rparr>)" using rp by (simp add: sei_seen_def fun_eq_iff)
    have "sei_write ctx i = put_message (sei_type i) (write_recovery_point (sx_iRecoveryCnt ctx))"
      using rp by (simp add: w writeSeiRecoveryPoint_def sei_type_def)
    then show ?thesis unfolding s using rp assms(2) payload_recovery [of "sx_iRecoveryCnt ctx" table]
      by (intro exI [of _ "write_recovery_point (sx_iRecoveryCnt ctx)"]) (simp add: sei_fits_def sei_type_def)
  next
    case hdr
    have s: "sei_seen ctx 3 = upd_hdr (\<lambda>g. g\<lparr>hdr_tMDCV := hdr_tMDCV h, hdr_bHasMDCV := True\<rparr>)"
      "sei_seen ctx 4 = upd_hdr (\<lambda>g. g\<lparr>hdr_tCLL := hdr_tCLL h, hdr_bHasCLL := True\<rparr>)"
      "sei_seen ctx 5 = upd_hdr (\<lambda>g. g\<lparr>hdr_tATC := hdr_tATC h, hdr_bHasATC := True\<rparr>)"
      using hdr(1) by (simp_all add: sei_seen_def fun_eq_iff)
    have t: "sei_type 3 = SEI_PTYPE_MASTERING_DISPLAY_COLOUR_VOLUME" "sei_type 4 = SEI_PTYPE_CONTENT_LIGHT_LEVEL"
      "sei_type 5 = SEI_PTYPE_ALTERNATIVE_TRANSFER_CHARACTERISTICS" by (simp_all add: sei_type_def)
    have p: "sei_write ctx 3 = put_message (sei_type 3) (write_mdcv (hdr_tMDCV h))" "sei_write ctx 4 = put_message (sei_type 4) (write_cll (hdr_tCLL h))"
      "sei_write ctx 5 = put_message (sei_type 5) (write_atc (hdr_tATC h))"
      using hdr(1) unfolding t by (simp_all add: w AL_RbspEncoding_WriteMasteringDisplayColourVolume_def AL_RbspEncoding_WriteContentLightLevel_def
          AL_RbspEncoding_WriteAlternativeTransferCharacteristics_def write_cll_def)
    have f: "i = 3 \<Longrightarrow> mdcv_fits (hdr_tMDCV h)" "i = 4 \<Longrightarrow> cll_fits (hdr_tCLL h)" "i = 5 \<Longrightarrow> atc_fits (hdr_tATC h)"
      using assms(2) hdr(1) by (auto simp: sei_fits_def)
    consider "i = 3" | "i = 4" | "i = 5" using hdr(2) by blast
    then show ?thesis
    proof cases
      case 1
      show ?thesis unfolding 1 p(1) s(1) using payload_mdcv [OF f(1) [OF 1]] by (auto simp: t)
    next
      case 2
      show ?thesis unfolding 2 p(2) s(2) using payload_cll [OF f(2) [OF 2]] by (auto simp: t)
    next
      case 3
      show ?thesis unfolding 3 p(3) s(3) using payload_atc [OF f(3) [OF 3]] by (auto simp: t)
    qed
  qed
qed

text \<open>The messages of the flags of a context, with what they do.\<close>

lemma flag_messages:
  assumes "\<forall>i \<in> set is. i < 6 \<and> sei_fits ctx table i"
  obtains F X where "\<And>i. i \<in> set is \<Longrightarrow> sei_write ctx i = put_message (sei_type i) (F i) \<and> writes (F i) (\<lambda>_. X i) \<and> sei_bytes (X i) < 255 \<and> sei_type i < 255"
    "\<And>i. i \<in> set is \<Longrightarrow> mg_ok (Some ParseAvcSpecificSeis) (\<lambda>a. aup_pSPS a = table)
       \<lparr>mg_type = sei_type i, mg_bits = X i, mg_send = i < 3, mg_upd = sei_seen ctx i\<rparr>"
proof -
  have "\<forall>i \<in> set is. \<exists>f xs. sei_write ctx i = put_message (sei_type i) f \<and> writes f (\<lambda>_. xs) \<and> sei_bytes xs < 255
      \<and> (\<forall>a n. aup_pSPS a = table \<longrightarrow> aup_pSPS (sei_seen ctx i a) = table \<and>
        (\<exists>r ys zs. xs = ys @ zs \<and> reads (sei_payload (Some ParseAvcSpecificSeis) (sei_type i) n a) ys (r, i < 3, sei_seen ctx i a)))"
    using assms flag_message unfolding sei_spec_def by meson
  then obtain F X where FX: "\<forall>i \<in> set is. sei_write ctx i = put_message (sei_type i) (F i) \<and> writes (F i) (\<lambda>_. X i) \<and> sei_bytes (X i) < 255
      \<and> (\<forall>a n. aup_pSPS a = table \<longrightarrow> aup_pSPS (sei_seen ctx i a) = table \<and>
        (\<exists>r ys zs. X i = ys @ zs \<and> reads (sei_payload (Some ParseAvcSpecificSeis) (sei_type i) n a) ys (r, i < 3, sei_seen ctx i a)))"
    by metis
  have t: "sei_type i < 255" if "i \<in> set is" for i
  proof -
    have "i = 0 \<or> i = 1 \<or> i = 2 \<or> i = 3 \<or> i = 4 \<or> i = 5" using assms that by force
    then show ?thesis by (elim disjE) (simp_all add: sei_type_def sei_type_defs)
  qed
  show ?thesis
  proof (rule that [of F X])
    fix i assume i: "i \<in> set is"
    show "sei_write ctx i = put_message (sei_type i) (F i) \<and> writes (F i) (\<lambda>_. X i) \<and> sei_bytes (X i) < 255 \<and> sei_type i < 255"
      using FX t i by blast
    show "mg_ok (Some ParseAvcSpecificSeis) (\<lambda>a. aup_pSPS a = table)
       \<lparr>mg_type = sei_type i, mg_bits = X i, mg_send = i < 3, mg_upd = sei_seen ctx i\<rparr>"
      unfolding mg_ok_def sei_message.select_convs using FX t i by blast
  qed
qed

lemma sent_types: "map sm_type (messages_sent pre k ms) = map mg_type (filter mg_send ms)"
    "\<forall>m \<in> set (messages_sent pre k ms). sm_bPrefix m = pre" "length (messages_sent pre k ms) = length (filter mg_send ms)"
  by (induction ms arbitrary: k) (auto simp: sent_message_def)

lemma small_flags:
  assumes "e AND NOT 0x3F = (0 :: u32)"
  shows "\<forall>n. bit e n \<longrightarrow> n < 6"
proof -
  have m: "(0x3F :: u32) = mask 6" by (simp add: mask_eq_exp_minus_1)
  show ?thesis using assms unfolding m flags_below .
qed

lemma messages_read:
  assumes "holds_unit s (start_code four @ [h] @ escape d @ rest) buf sz" "next_unit rest" "h \<noteq> 0"
    and "bytes_bits d = rbsp_bits (bit_syns (sei_unit ms))" "d \<noteq> []" "ms \<noteq> []"
    and "\<forall>m \<in> set ms. mg_ok (Some ParseAvcSpecificSeis) I m" "I (sc_pOutputAup c)" "has_room c (length (filter mg_send ms))"
  shows "\<exists>sent rp. AL_AVC_ParseSEI c pre (InitRbspParser s buf sz True) =
      Some ((True, with_sent sent (c\<lparr>sc_pOutputAup := fold mg_upd ms (sc_pOutputAup c)\<rparr>)), rp)
    \<and> map sm_type sent = map mg_type (filter mg_send ms) \<and> (\<forall>m \<in> set sent. sm_bPrefix m = pre)"
proof -
  obtain B S j rp where r: "after_header (\<lambda>rp. Some ((), rp)) (InitRbspParser s buf sz True) = Some ((), rp)" "unit_at B S j (sei_unit ms) rp"
    using unit_reader [OF assms(1-5)] by blast
  obtain P R where PR: "bytes_bits B = P @ sei_unit ms @ R" "length P = 8 * j" using r(2) by (auto simp: unit_at_def)
  have "\<exists>rp'. sei_loop (Some ParseAvcSpecificSeis) pre c rp = Some (after_messages pre j ms c, rp')"
    by (rule sei_loop_reads [OF assms(7,6,8) _ _ _ _ _ PR]) (use r(2) in \<open>auto simp: unit_at_def\<close>)
  then obtain rp' where run: "AL_AVC_ParseSEI c pre (InitRbspParser s buf sz True) = Some (after_messages pre j ms c, rp')"
    using after_header_from [OF r(1), of "sei_loop (Some ParseAvcSpecificSeis) pre c"] by (auto simp: AL_AVC_ParseSEI_def)
  have "has_room c (length (messages_sent pre j ms))" using assms(9) unfolding sent_types(3) .
  from after_messages_room [OF this] run show ?thesis
    using sent_types(1,2) [of pre j ms] by (intro exI [of _ "messages_sent pre j ms"] exI [of _ rp']) simp
qed

lemma flags_six:
  assumes "\<forall>n. bit e n \<longrightarrow> n < 6"
  shows "sei_flags e = filter (\<lambda>i. bit e i) [0, 2, 1, 3, 4, 5]" "filter (\<lambda>i. i < 3) (sei_flags e) = filter (\<lambda>i. bit e i) [0, 2, 1]"
  using assms by (auto simp: sei_flags_def flag_order_def)

lemma flags_length:
  assumes "\<forall>n. bit e n \<longrightarrow> n < 6"
  shows "length (sei_flags e) \<le> 6" "length (filter (\<lambda>i. i < 3) (sei_flags e)) \<le> 3"
  unfolding flags_six [OF assms] using length_filter_le [of "\<lambda>i. bit e i" "[0, 2, 1, 3, 4, 5]"] length_filter_le [of "\<lambda>i. bit e i" "[0, 2, 1]"]
  by simp_all

lemma messages_length:
  assumes "\<And>i. i \<in> set is \<Longrightarrow> sei_bytes (X i) < 255"
  shows "length (concat (map (\<lambda>i. sei_bits (T i) (X i)) is)) \<le> length is * 2048"
  using assms by (induction "is") (fastforce simp: length_sei_bits)+

section \<open>An example\<close>

definition demo_st10 :: AL_TDynamicMeta_ST2094_10 where
  "demo_st10 = \<lparr>st10_application_version = 0, st10_processing_window_flag = False,
     st10_processing_window = \<lparr>pw10_active_area_left_offset = 0, pw10_active_area_right_offset = 0, pw10_active_area_top_offset = 0, pw10_active_area_bottom_offset = 0\<rparr>,
     st10_image_characteristics = \<lparr>ic_min_pq = 0, ic_max_pq = 0, ic_avg_pq = 0\<rparr>, st10_num_manual_adjustments = 0, st10_manual_adjustments = []\<rparr>"

definition demo_st40 :: AL_TDynamicMeta_ST2094_40 where
  "demo_st40 = (let p = \<lparr>pl_actual_peak_luminance_flag = False, pl_num_rows_actual_peak_luminance = 0, pl_num_cols_actual_peak_luminance = 0, pl_actual_peak_luminance = []\<rparr> in
     \<lparr>st40_application_version = 0, st40_num_windows = 0, st40_processing_windows = [],
      st40_targeted_system_display = \<lparr>ts_maximum_luminance = 0, ts_peak_luminance = p\<rparr>,
      st40_mastering_display_peak_luminance = p, st40_processing_window_transforms = []\<rparr>)"

text \<open>The values of a display with the primaries of BT.2020, at first not present.\<close>

definition demo_hdr :: AL_THDRSEIs where
  "demo_hdr = \<lparr>hdr_bHasMDCV = False,
     hdr_tMDCV = \<lparr>mdcv_display_primaries = [\<lparr>cc_x = 8500, cc_y = 39850\<rparr>, \<lparr>cc_x = 6550, cc_y = 2300\<rparr>, \<lparr>cc_x = 35400, cc_y = 14600\<rparr>],
       mdcv_white_point = \<lparr>cc_x = 15635, cc_y = 16450\<rparr>, mdcv_max_display_mastering_luminance = 10000000, mdcv_min_display_mastering_luminance = 1\<rparr>,
     hdr_bHasCLL = False, hdr_tCLL = \<lparr>cll_max_content_light_level = 1000, cll_max_pic_average_light_level = 400\<rparr>,
     hdr_bHasATC = False, hdr_tATC = \<lparr>atc_preferred_transfer_characteristics = 18\<rparr>,
     hdr_bHasST2094_10 = False, hdr_tST2094_10 = demo_st10, hdr_bHasST2094_40 = False, hdr_tST2094_40 = demo_st40\<rparr>"

definition demo_sei :: AL_TSeiPrefixCtx where
  "demo_sei = \<lparr>sx_sps = demo_enc, sx_cpbInitialRemovalDelay = 90000, sx_cpbRemovalDelay = 7, sx_eFlags = 0x3F,
     sx_iRecoveryCnt = 17, sx_uDpbOutputDelay = 2, sx_ePicStruct = 3, sx_pHDRSEIs = Some demo_hdr\<rparr>"

definition demo_seictx :: AL_TSeiParserCtx where
  "demo_seictx = \<lparr>sc_pOutputAup = \<lparr>aup_pSPS = replicate 32 (demo_enc\<lparr>sps_bConceal := False\<rparr>), aup_pPPS = [],
       aup_pActiveSPS = None, aup_iRecoveryCnt = 0,
       aup_tParsedHDRSEIs = demo_hdr\<lparr>hdr_tMDCV := zero_mdcv, hdr_tCLL := \<lparr>cll_max_content_light_level = 0, cll_max_pic_average_light_level = 0\<rparr>,
         hdr_tATC := \<lparr>atc_preferred_transfer_characteristics = 0\<rparr>\<rparr>\<rparr>,
     sc_pOutputMeta = Some \<lparr>sd_maxPayload = 32, sd_payload = []\<rparr>, sc_pSeiParsedCallback = Some []\<rparr>"

definition demo_seen :: AL_TAup where
  "demo_seen = (sc_pOutputAup demo_seictx)\<lparr>aup_pActiveSPS := Some 3, aup_iRecoveryCnt := 18,
     aup_tParsedHDRSEIs := demo_hdr\<lparr>hdr_bHasMDCV := True, hdr_bHasCLL := True, hdr_bHasATC := True\<rparr>\<rparr>"

lemma demo_flags: "sei_flags (sx_eFlags demo_sei) = [0, 2, 1, 3, 4, 5]"
proof -
  have "(0x3F :: u32) = mask 6" by (simp add: mask_eq_exp_minus_1)
  then show ?thesis by (simp add: sei_flags_def flag_order_def demo_sei_def bit_mask_iff)
qed

lemma demo_seen: "fold (sei_seen demo_sei) [0, 2, 1, 3, 4, 5] (sc_pOutputAup demo_seictx) = demo_seen"
  by (simp add: sei_seen_def demo_sei_def demo_seen_def demo_seictx_def upd_hdr_def demo_hdr_def demo_enc_def)

lemma demo_fits: "\<forall>i \<in> set [0, 2, 1, 3, 4, 5]. sei_fits demo_sei (aup_pSPS (sc_pOutputAup demo_seictx)) i"
proof -
  have "bp_fits demo_sei (aup_pSPS (sc_pOutputAup demo_seictx))" "pt_fits demo_sei"
    by (simp_all add: bp_fits_def pt_fits_def demo_sei_def demo_seictx_def demo_enc_def demo_hrd_def zero_hrd_def Let_def AL_AVC_MAX_SPS_def)
  moreover have "mdcv_fits (hdr_tMDCV demo_hdr)" "cll_fits (hdr_tCLL demo_hdr)" "atc_fits (hdr_tATC demo_hdr)"
    by (simp_all add: mdcv_fits_def cll_fits_def atc_fits_def demo_hdr_def AL_TRANSFER_CHARAC_MAX_ENUM_def)
  moreover have "sx_pHDRSEIs demo_sei = Some demo_hdr" "sx_iRecoveryCnt demo_sei = 17" by (simp_all add: demo_sei_def)
  ultimately show ?thesis by (simp add: sei_fits_def)
qed

text \<open>
  C37: The encoder and the decoder agree on supplemental enhancement information. A unit that
  \<open>WriteNal\<close> makes of the messages that \<open>seiPrefixWrite\<close> writes for any choice of the flags of buffering
  period, recovery point, picture timing, mastering display, light level and transfer
  characteristics is read by \<open>AL_AVC_ParseSEI\<close>, which succeeds: the active set, the recovery count
  and the HDR values of the access unit become those of the encoder in the order of the messages,
  and the buffering period, the recovery point and the picture timing are handed to the user, in
  this order, through the meta data and the callback. The size of a message is one byte, so the
  schedules of a buffering period are limited to 15.
\<close>

theorem sei_roundtrip:
  assumes "sx_eFlags ctx \<noteq> 0" "sx_eFlags ctx AND NOT 0x3F = 0"
    and "\<forall>i \<in> set (sei_flags (sx_eFlags ctx)). sei_fits ctx (aup_pSPS (sc_pOutputAup c)) i"
    and "1537 \<le> sz" "sz \<le> length tmp" "h \<noteq> 0" "bs_wf bs" "bs_iBitCount bs = 8 * k" "\<not> bs_isOverflow bs" "has_room c 3"
  shows "\<exists>n bs'. WriteNal AVC_writeStartCode (seiPrefixWrite ctx) tmp bs sz nut \<lparr>nh_bytes = [h], nh_size = 1\<rparr> mode = Some (n, bs')
    \<and> (n = -1 \<longleftrightarrow> bs_isOverflow bs')
    \<and> (n \<noteq> -1 \<longrightarrow> (\<forall>s buf sz' rest. next_unit rest \<longrightarrow>
          holds_unit s (take (nat n) (drop k (bs_pData bs')) @ rest) buf sz' \<longrightarrow>
          (\<exists>sent rp. AL_AVC_ParseSEI c pre (InitRbspParser s buf sz' True) =
             Some ((True, with_sent sent (c\<lparr>sc_pOutputAup := fold (sei_seen ctx) (sei_flags (sx_eFlags ctx)) (sc_pOutputAup c)\<rparr>)), rp)
           \<and> map sm_type sent = map sei_type (filter (\<lambda>i. i < 3) (sei_flags (sx_eFlags ctx)))
           \<and> (\<forall>m \<in> set sent. sm_bPrefix m = pre))))"
proof -
  let ?e = "sx_eFlags ctx" and ?I = "\<lambda>a. aup_pSPS a = aup_pSPS (sc_pOutputAup c)"
  let ?is = "sei_flags ?e" and ?init = "AL_BitStreamLite_Init tmp sz"
  have bits: "\<forall>n. bit ?e n \<longrightarrow> n < 6" by (rule small_flags [OF assms(2)])
  then have eight: "\<forall>n. bit ?e n \<longrightarrow> n < 8" by (metis less_trans numeral_less_iff semiring_norm(76,78,81))
  have six: "\<forall>i \<in> set ?is. i < 6 \<and> sei_fits ctx (aup_pSPS (sc_pOutputAup c)) i" using assms(3) bits by (auto simp: sei_flags_def)
  obtain F X where W: "\<And>i. i \<in> set ?is \<Longrightarrow> sei_write ctx i = put_message (sei_type i) (F i) \<and> writes (F i) (\<lambda>_. X i) \<and> sei_bytes (X i) < 255 \<and> sei_type i < 255"
    and M: "\<And>i. i \<in> set ?is \<Longrightarrow> mg_ok (Some ParseAvcSpecificSeis) ?I \<lparr>mg_type = sei_type i, mg_bits = X i, mg_send = i < 3, mg_upd = sei_seen ctx i\<rparr>"
    by (rule flag_messages [OF six]) blast
  let ?m = "\<lambda>i. \<lparr>mg_type = sei_type i, mg_bits = X i, mg_send = i < 3, mg_upd = sei_seen ctx i\<rparr>"
  let ?ms = "map ?m ?is"
  have un: "sei_unit ?ms = concat (map (\<lambda>i. sei_bits (sei_type i) (X i)) ?is)" by (simp add: sei_unit_def comp_def)
  have "length (sei_unit ?ms) \<le> length ?is * 2048" unfolding un by (rule messages_length) (use W in blast)
  then have len: "length (sei_unit ?ms) + 8 \<le> 8 * sz" using flags_length(1) [OF bits] assms(4) by linarith
  have init: "bs_wf ?init" "bs_iBitCount ?init = 8 * 0" "bs_iMaxBits ?init = 8 * sz"
    using init_wf [OF assms(5)] by (simp_all add: AL_BitStreamLite_Init_def)
  obtain bs1 where bs1: "foldM (sei_write ctx) ?is ?init = Some bs1" "appends ?init (sei_unit ?ms) bs1"
    using put_messages_appends [OF W init(1,2)] init len unfolding un by force
  have w: "seiPrefixWrite ctx = (\<lambda>bs. do { bs \<leftarrow> foldM (sei_write ctx) ?is bs; write_trailing bs })"
    by (simp add: fun_eq_iff seiPrefixWrite_def AL_RbspEncoding_CloseSEI_def seiPrefixWrite_loop_run [OF eight assms(1)])
  obtain n bs' d four where n: "WriteNal AVC_writeStartCode (seiPrefixWrite ctx) tmp bs sz nut \<lparr>nh_bytes = [h], nh_size = 1\<rparr> mode = Some (n, bs')"
      "n = -1 \<longleftrightarrow> bs_isOverflow bs'" "bytes_bits d = rbsp_bits (bit_syns (sei_unit ?ms))" "d \<noteq> []"
      "n \<noteq> -1 \<longrightarrow> take (nat n) (drop k (bs_pData bs')) = start_code four @ [h] @ escape d"
    unfolding w using unit_written_at [where f = "foldM (sei_write ctx) ?is", OF bs1 len assms(5) disjI1 [OF refl] assms(7-9), where h = h and nut = nut and mode = mode]
    by blast
  have ne: "?ms \<noteq> []" using no_flags [OF eight] assms(1) by auto
  have f3: "filter mg_send ?ms = map ?m (filter (\<lambda>i. i < 3) ?is)" by (simp add: filter_map comp_def)
  have room: "has_room c (length (filter mg_send ?ms))" using assms(10) flags_length(2) [OF bits] unfolding f3 by (auto simp: has_room_def)
  have "\<exists>sent rp. AL_AVC_ParseSEI c pre (InitRbspParser s buf sz' True) =
             Some ((True, with_sent sent (c\<lparr>sc_pOutputAup := fold (sei_seen ctx) ?is (sc_pOutputAup c)\<rparr>)), rp)
           \<and> map sm_type sent = map sei_type (filter (\<lambda>i. i < 3) ?is) \<and> (\<forall>m \<in> set sent. sm_bPrefix m = pre)"
    if "n \<noteq> -1" "next_unit rest" "holds_unit s (take (nat n) (drop k (bs_pData bs')) @ rest) buf sz'" for s buf sz' rest
    using messages_read [OF _ that(2) assms(6) n(3,4) ne _ _ room, of s four buf sz' ?I pre] that(1,3) n(5) M
    unfolding f3 by (simp add: fold_map comp_def)
  then show ?thesis using n(1,2) by blast
qed

theorem sei_roundtrip_witness:
  "\<exists>n bs'. WriteNal AVC_writeStartCode (seiPrefixWrite demo_sei) (replicate 1537 0) (AL_BitStreamLite_Init (replicate 4000 9) 4000) 1537 6
      \<lparr>nh_bytes = [6], nh_size = 1\<rparr> AL_START_CODE_AUTO = Some (n, bs')
    \<and> (n = -1 \<longleftrightarrow> bs_isOverflow bs')
    \<and> (n \<noteq> -1 \<longrightarrow> (\<forall>s buf sz' rest. next_unit rest \<longrightarrow>
          holds_unit s (take (nat n) (drop 0 (bs_pData bs')) @ rest) buf sz' \<longrightarrow>
          (\<exists>sent rp. AL_AVC_ParseSEI demo_seictx True (InitRbspParser s buf sz' True) =
             Some ((True, with_sent sent (demo_seictx\<lparr>sc_pOutputAup := demo_seen\<rparr>)), rp)
           \<and> map sm_type sent = [SEI_PTYPE_BUFFERING_PERIOD, SEI_PTYPE_RECOVERY_POINT, SEI_PTYPE_PIC_TIMING] \<and> (\<forall>m \<in> set sent. sm_bPrefix m = True))))"
proof -
  have e: "sx_eFlags demo_sei \<noteq> 0" "sx_eFlags demo_sei AND NOT 0x3F = 0" by (simp_all add: demo_sei_def)
  have room: "has_room demo_seictx 3" by (simp add: has_room_def demo_seictx_def)
  have wf: "bs_wf (AL_BitStreamLite_Init (replicate 4000 9) 4000)" by (rule init_wf) simp
  have f: "filter (\<lambda>i. i < 3) [0, 2, 1, 3, 4, 5] = [0, 2, 1 :: nat]" "map sei_type [0, 2, 1] =
    [SEI_PTYPE_BUFFERING_PERIOD, SEI_PTYPE_RECOVERY_POINT, SEI_PTYPE_PIC_TIMING]" by (simp_all add: sei_type_def)
  show ?thesis
    using sei_roundtrip [where ctx = demo_sei and c = demo_seictx and h = 6 and k = 0 and sz = 1537 and tmp = "replicate 1537 0"
        and nut = 6 and mode = AL_START_CODE_AUTO and pre = True, OF e _ _ _ _ wf _ _ room] demo_fits
    unfolding demo_flags demo_seen f by (simp add: AL_BitStreamLite_Init_def)
qed

end
