(* ===== verification/Sei_Extern.thy ===== *)
theory Sei_Extern
  imports Sei_Trip
begin

text \<open>
  Messages of the user: \<open>seiExternalWrite\<close> copies the bytes it is given behind a header whose type and
  size are of any length, and the parser hands them to the user of the decoder. The header has no
  code for 255 and its multiples.
\<close>

section \<open>The header\<close>

function uv_bits :: "nat \<Rightarrow> bool list" where
  "uv_bits n = (if n > 255 then nbits 8 (0xFF :: u32) @ uv_bits (n - 255) else nbits 8 (word_of_nat n :: u32))"
  by pat_completeness auto
termination by (relation "measure id") auto

declare uv_bits.simps [simp del]

definition uv_bytes :: "nat \<Rightarrow> nat" where
  "uv_bytes n = 1 + (n - 1) div 255"

definition uv_codable :: "nat \<Rightarrow> bool" where
  "uv_codable n \<longleftrightarrow> n = 0 \<or> \<not> 255 dvd n"

lemma uv_bytes_step: "255 < n \<Longrightarrow> uv_bytes n = Suc (uv_bytes (n - 255))"
proof -
  assume "255 < n"
  then obtain m where m: "n = Suc m + 255" by (metis Suc_pred add.commute le_add_diff_inverse less_imp_le zero_less_diff)
  show ?thesis unfolding uv_bytes_def m by simp
qed

lemma length_uv_bits: "length (uv_bits n) = 8 * uv_bytes n"
proof (induction n rule: uv_bits.induct)
  case (1 n)
  show ?case
  proof (cases "255 < n")
    case True
    then show ?thesis using 1 uv_bytes_step [of n] by (subst uv_bits.simps) simp
  next
    case False
    then have "(n - 1) div 255 = 0" by simp
    then show ?thesis using False by (subst uv_bits.simps) (simp add: uv_bytes_def)
  qed
qed

lemma PutUV_writes: "writes (PutUV n) (\<lambda>_. uv_bits n)"
proof (induction n rule: uv_bits.induct)
  case (1 n)
  show ?case
  proof (cases "255 < n")
    case True
    have "writes (\<lambda>bs. do { bs \<leftarrow> wr_u 8 255 bs; PutUV (n - 255) bs }) (\<lambda>_. nbits 8 (word_of_nat 255 :: u32) @ uv_bits (n - 255))"
      unfolding wr_u_def by (rule writes_bind [OF writes_u 1 [OF True]]) (simp_all add: word_of_nat_fits del: of_nat_numeral)
    moreover have "PutUV n = (\<lambda>bs. do { bs \<leftarrow> wr_u 8 255 bs; PutUV (n - 255) bs })"
      using True by (subst PutUV.simps [abs_def]) (simp add: fun_eq_iff)
    ultimately show ?thesis using True by (subst uv_bits.simps) simp
  next
    case False
    have "PutUV n = wr_u 8 n" using False by (simp add: fun_eq_iff PutUV.simps)
    moreover have "writes (wr_u 8 n) (\<lambda>_. nbits 8 (word_of_nat n :: u32))"
      unfolding wr_u_def by (rule writes_u) (use False in \<open>simp_all add: word_of_nat_fits\<close>)
    ultimately show ?thesis using False by (subst uv_bits.simps) simp
  qed
qed

lemma BeginSEI2_writes: "writes (AL_RbspEncoding_BeginSEI2 t n) (\<lambda>_. uv_bits t @ uv_bits n)"
  unfolding AL_RbspEncoding_BeginSEI2_def by (rule writes_bind [OF PutUV_writes PutUV_writes])

lemma uv_reads:
  assumes "uv_codable n" "acc + n < U32"
  shows "reads_at (getbytes_ff acc) (uv_bits n) (\<lambda>_. acc + n)"
  using assms
proof (induction n arbitrary: acc rule: uv_bits.induct)
  case (1 n)
  show ?case
  proof (cases "255 < n")
    case True
    have "uv_codable (n - 255)" using "1.prems"(1) True by (auto simp: uv_codable_def dvd_diff_nat dest: dvd_diffD)
    then have "reads_at (getbytes_ff ((acc + 255) mod U32)) (uv_bits (n - 255)) (\<lambda>_. acc + n)"
      using "1.IH" [OF True, of "acc + 255"] "1.prems"(2) True by simp
    from getbytes_ff_more [OF this] show ?thesis using True by (subst uv_bits.simps) simp
  next
    case False
    then have "n < 255" using "1.prems"(1) by (cases "n = 255") (auto simp: uv_codable_def)
    from getbytes_ff_byte [OF this, of acc] show ?thesis using False "1.prems"(2) by (subst uv_bits.simps) simp
  qed
qed

text \<open>Behind a multiple of 255 the parser still expects a byte, and adds the next one.\<close>

lemma uv_swallows:
  assumes "\<not> uv_codable n" "m < 255" "acc + n + m < U32"
  shows "reads_at (getbytes_ff acc) (uv_bits n @ nbits 8 (word_of_nat m :: u32)) (\<lambda>_. acc + n + m)"
  using assms
proof (induction n arbitrary: acc rule: uv_bits.induct)
  case (1 n)
  show ?case
  proof (cases "255 < n")
    case True
    have "\<not> uv_codable (n - 255)" using "1.prems"(1) True by (auto simp: uv_codable_def)
    then have "reads_at (getbytes_ff ((acc + 255) mod U32)) (uv_bits (n - 255) @ nbits 8 (word_of_nat m :: u32)) (\<lambda>_. acc + n + m)"
      using "1.IH" [OF True, of "acc + 255"] "1.prems"(2,3) True by simp
    from getbytes_ff_more [OF this] show ?thesis using True by (subst uv_bits.simps) simp
  next
    case False
    then have n: "n = 255" using "1.prems"(1) by (auto simp: uv_codable_def dest: dvd_imp_le)
    have "reads_at (getbytes_ff ((acc + 255) mod U32)) (nbits 8 (word_of_nat m :: u32)) (\<lambda>_. acc + n + m)"
      using getbytes_ff_byte [OF "1.prems"(2), of "acc + 255"] "1.prems"(3) n by simp
    from getbytes_ff_more [OF this] show ?thesis using n by (subst uv_bits.simps) simp
  qed
qed

lemma GetPayloadType_reads:
  assumes "reads_at (getbytes_ff 0) xs V"
  shows "reads_at GetPayloadType xs (\<lambda>k. Some (V k))"
  unfolding reads_at_def
proof (intro allI impI)
  fix B S rp P R k
  assume a: "rp_ok B S rp" "bytes_bits B = P @ xs @ R" "rp_iCurrentBitIndex rp = 8 * k" "length P = 8 * k" "8 * k + length xs \<le> S"
  obtain rp1 where "getbytes_ff 0 rp = Some (V k, rp1)" "rp_ok B S rp1" "rp_iCurrentBitIndex rp1 = 8 * k + length xs"
    using reads_atD [OF assms a] by blast
  then show "\<exists>rp'. GetPayloadType rp = Some (Some (V k), rp') \<and> rp_ok B S rp' \<and> rp_iCurrentBitIndex rp' = 8 * k + length xs"
    using a(3) by (simp add: GetPayloadType_def byte_aligned_def)
qed

definition read_header :: "AL_TRbspParser \<Rightarrow> ((nat option \<times> nat) \<times> AL_TRbspParser) option" where
  "read_header = (\<lambda>rp. do { (t, rp) \<leftarrow> GetPayloadType rp; (n, rp) \<leftarrow> GetPayloadSize rp; Some ((t, n), rp) })"

lemma read_header_reads:
  assumes "uv_codable t" "t < U32" "reads_at (getbytes_ff 0) xs (\<lambda>_. n)"
  shows "reads_at read_header (uv_bits t @ xs) (\<lambda>_. (Some t, n))"
proof -
  have t: "reads_at GetPayloadType (uv_bits t) (\<lambda>_. Some t)"
    using GetPayloadType_reads [OF uv_reads [OF assms(1), of 0]] assms(2) by simp
  have "reads_at (\<lambda>rp. do { (n, rp) \<leftarrow> GetPayloadSize rp; Some ((Some t, n), rp) }) xs (\<lambda>_. (Some t, n))"
    unfolding reads_at_def GetPayloadSize_def using reads_atD [OF assms(3)] by fastforce
  then show ?thesis unfolding read_header_def using reads_at_bind [OF t length_uv_bits] by fastforce
qed

text \<open>
  C40: The header of a message of the user. \<open>AL_RbspEncoding_BeginSEI2\<close> writes the type and the
  size as bytes \<open>0xFF\<close> and a rest, and \<open>GetPayloadType\<close> and \<open>GetPayloadSize\<close> read the same type and
  size back from any byte of a unit, whatever their length, unless one of them is a multiple of 255:
  then the writer ends with a \<open>0xFF\<close> that tells the parser to go on, and the first byte of the
  payload, here \<open>m\<close>, is taken for the rest of the size.
\<close>

theorem sei_header_codec:
  assumes "t < 2 ^ 31" "n < 2 ^ 31" "t = 0 \<or> \<not> 255 dvd t" "m < 255"
  shows "writes (AL_RbspEncoding_BeginSEI2 t n) (\<lambda>_. uv_bits t @ uv_bits n)
    \<and> (if n = 0 \<or> \<not> 255 dvd n then reads_at read_header (uv_bits t @ uv_bits n) (\<lambda>_. (Some t, n))
       else reads_at read_header (uv_bits t @ uv_bits n @ nbits 8 (word_of_nat m :: u32)) (\<lambda>_. (Some t, n + m)))"
proof -
  have t: "uv_codable t" "t < U32" using assms(1,3) by (simp_all add: uv_codable_def U32_def)
  have b: "0 + n + m < U32" using assms(2,4) by (simp add: U32_def)
  show ?thesis
    using BeginSEI2_writes read_header_reads [OF t uv_reads [of n 0]] read_header_reads [OF t uv_swallows [OF _ assms(4) b]] b
    unfolding uv_codable_def by auto
qed

theorem sei_header_codec_witness:
  "reads_at read_header (uv_bits 300 @ uv_bits 254) (\<lambda>_. (Some 300, 254))
    \<and> reads_at read_header (uv_bits 5 @ uv_bits 255 @ nbits 8 (word_of_nat 16 :: u32)) (\<lambda>_. (Some 5, 271))
    \<and> uv_bits 300 = nbits 8 (0xFF :: u32) @ nbits 8 (45 :: u32)"
proof -
  have d: "\<not> 255 dvd (300 :: nat)" "\<not> 255 dvd (254 :: nat)" "\<not> 255 dvd (5 :: nat)" by presburger+
  have "uv_bits 300 = nbits 8 (0xFF :: u32) @ nbits 8 (45 :: u32)"
    by (subst uv_bits.simps, subst uv_bits.simps) simp
  then show ?thesis using sei_header_codec [of 300 254 0] sei_header_codec [of 5 255 16] d by simp
qed

section \<open>A message of the user\<close>

lemma remaining_payload_wide:
  assumes "b \<le> a" "a < 2 ^ 31" "8 * n < 2 ^ 31"
  shows "remaining_payload n b a = int (8 * n) - int (a - b)"
proof -
  have "a + 2 ^ 32 - b = (a - b) + 2 ^ 32" using assms(1) by simp
  then have "sub32 a b = (a - b + 2 ^ 32) mod 2 ^ 32" by (simp only: sub32_def)
  also have "\<dots> = (a - b) mod 2 ^ 32" by (rule mod_add_self2)
  also have "\<dots> = a - b" using assms(2) by simp
  finally have "sub32 a b = a - b" .
  moreover have "int (a - b) < 2 ^ 31" using assms(2) by (metis less_imp_diff_less of_nat_less_iff of_nat_numeral of_nat_power)
  moreover have "int (8 * n) < 2 ^ 31" using assms(3) by (metis of_nat_less_iff of_nat_numeral of_nat_power)
  moreover have "0 \<le> int (8 * n)" "0 \<le> int (a - b)" by simp_all
  ultimately have "- (2 ^ 31) \<le> int (8 * n) - int (a - b)" "int (8 * n) - int (a - b) < 2 ^ 31" "sub32 a b = a - b"
    by linarith+
  then show ?thesis unfolding remaining_payload_def by (simp only: sint_word_of_int)
qed

lemma rp_ok_bytes:
  assumes "rp_ok B S rp" "8 * (d + n) \<le> rp_iCurrentBitIndex rp"
  shows "take n (drop d (rp_pBuffer rp)) = take n (drop d B)"
proof (rule nth_equalityI)
  note at = rp_ok_at [OF assms(1)] and bd = rp_at_bounds [OF rp_ok_at [OF assms(1)]]
  have "8 * (d + n) < 8 * length B" by (rule le_less_trans [OF order_trans [OF assms(2) bd(1)] bd(2)])
  then have lB: "d + n \<le> length B" by simp
  then have len: "d + n \<le> length B" "d + n \<le> length (rp_pBuffer rp)" using bd(5) by linarith+
  then show "length (take n (drop d (rp_pBuffer rp))) = length (take n (drop d B))" by simp
  fix i assume "i < length (take n (drop d (rp_pBuffer rp)))"
  then have i: "i < n" by simp
  have "rp_pBuffer rp ! (d + i) = B ! (d + i)"
    by (rule rp_at_byte [OF at]) (use i len assms(2) bd(3) in auto)
  then show "take n (drop d (rp_pBuffer rp)) ! i = take n (drop d B) ! i" using i len by simp
qed

text \<open>A type that no parser of AVC looks at.\<close>

definition user_type :: "nat \<Rightarrow> bool" where
  "user_type t \<longleftrightarrow> t \<notin> {SEI_PTYPE_BUFFERING_PERIOD, SEI_PTYPE_RECOVERY_POINT, SEI_PTYPE_USER_DATA_REGISTERED, SEI_PTYPE_USER_DATA_UNREGISTERED,
     SEI_PTYPE_MASTERING_DISPLAY_COLOUR_VOLUME, SEI_PTYPE_CONTENT_LIGHT_LEVEL, SEI_PTYPE_ALTERNATIVE_TRANSFER_CHARACTERISTICS}"

lemma user_payload:
  "user_type t \<Longrightarrow> sei_payload (Some ParseAvcSpecificSeis) t n a rp = Some ((AL_SEI_PARSE_RESULT_UNKNOWN_SEI, True, a), rp)"
  by (simp add: user_type_def sei_payload_def ParseAvcSpecificSeis_def ParseCommonSei_def)

lemma parse_user_message:
  assumes "user_type t" "uv_codable t" "uv_codable n" "t < 2 ^ 31" "8 * n < 2 ^ 31"
    and "rp_ok B S rp" "rp_iCurrentBitIndex rp = 8 * k" "8 * (k + uv_bytes t + uv_bytes n + n) \<le> S"
    and "bytes_bits B = P @ (uv_bits t @ uv_bits n @ xs) @ R" "length P = 8 * k"
  shows "\<exists>rp'. AL_SeiParser_Parse (Some ParseAvcSpecificSeis) pre c rp =
      Some (send_sei \<lparr>sm_bPrefix = pre, sm_type = t, sm_pData = k + uv_bytes t + uv_bytes n, sm_size = n\<rparr> c, rp')
    \<and> rp_ok B S rp' \<and> rp_iCurrentBitIndex rp' = 8 * (k + uv_bytes t + uv_bytes n + n)"
proof -
  let ?d = "k + uv_bytes t + uv_bytes n"
  have u: "0 + t < U32" "0 + n < U32" using assms(4,5) by (simp_all add: U32_def)
  obtain rp1 where rp1: "GetPayloadType rp = Some (Some t, rp1)" "rp_ok B S rp1" "rp_iCurrentBitIndex rp1 = 8 * (k + uv_bytes t)"
    using reads_atD [OF GetPayloadType_reads [OF uv_reads [OF assms(2) u(1)]] assms(6) _ assms(7,10), of "uv_bits n @ xs @ R"]
      assms(8,9) by (auto simp: length_uv_bits)
  obtain rp2 where rp2: "GetPayloadSize rp1 = Some (n, rp2)" "rp_ok B S rp2" "rp_iCurrentBitIndex rp2 = 8 * ?d"
    using reads_atD [OF uv_reads [OF assms(3) u(2)] rp1(2) _ rp1(3), of "P @ uv_bits t" "xs @ R"] assms(8-10)
    unfolding GetPayloadSize_def by (auto simp: length_uv_bits)
  have data: "get_raw_data rp2 = ?d" "rbsp_offset rp2 = 8 * ?d"
    using rp2(3) rp_ok_offset [OF rp2(2)] by (simp_all add: get_raw_data_def)
  have "8 * ?d \<le> 8 * (?d + n)" by simp
  then have "8 * ?d < 2 ^ 31" by (rule le_less_trans [OF order_trans [OF _ assms(8)] rp_ok_small [OF assms(6)]])
  then have rest: "remaining_payload n (8 * ?d) (8 * ?d) = int (8 * n)"
    using remaining_payload_wide [of "8 * ?d" "8 * ?d" n] assms(5) by simp
  obtain rp3 where rp3: "0 < n \<longrightarrow> skip rp2 (8 * n) = Some rp3" "n = 0 \<longrightarrow> rp3 = rp2" "rp_ok B S rp3" "rp_iCurrentBitIndex rp3 = 8 * (?d + n)"
  proof (cases "n = 0")
    case True
    then show ?thesis using that [of rp2] rp2 by simp
  next
    case False
    have "rp_iCurrentBitIndex rp2 + 8 * n \<le> S" using rp2(3) assms(8) by simp
    from skip_correct [OF rp2(2) this] show ?thesis using that False rp2(3) by auto
  qed
  have "byte_aligned rp3" using rp3(4) by (simp add: byte_aligned_def)
  then have "AL_SeiParser_Parse (Some ParseAvcSpecificSeis) pre c rp =
      Some (send_sei \<lparr>sm_bPrefix = pre, sm_type = t, sm_pData = ?d, sm_size = n\<rparr> c, rp3)"
    unfolding AL_SeiParser_Parse_def rp1(1) using rp2(1) rp3(1,2) data rest user_payload [OF assms(1)]
    by (cases "n = 0") (simp_all add: Let_def nat_mult_distrib)
  then show ?thesis using rp3(3,4) by blast
qed

text \<open>The copy of the payload continues the bits that are written.\<close>

lemma copy_appends:
  assumes "bs_wf bs" "bs_iBitCount bs = 8 * k" "8 * (k + length p) \<le> bs_iMaxBits bs"
  shows "appends bs (bytes_bits p) (bs\<lparr>bs_iBitCount := 8 * (k + length p),
    bs_pData := take k (bs_pData bs) @ p @ drop (k + length p) (bs_pData bs)\<rparr>)"
proof -
  let ?d = "bs_pData bs"
  have len: "k + length p \<le> length ?d" using assms(1,3) by (simp add: bs_wf_def)
  have k: "8 * k \<le> bs_iMaxBits bs" using assms(3) by simp
  have "take (8 * (k + length p)) (bytes_bits (take k ?d @ p @ drop (k + length p) ?d)) = bytes_bits (take k ?d) @ bytes_bits p"
    using len by (simp add: algebra_simps)
  also have "bytes_bits (take k ?d) = bs_bits bs" using assms(2) k len by (simp add: bs_bits_def bytes_bits_take)
  finally show ?thesis using assms len k unfolding appends_def by (auto simp: bs_bits_def bs_wf_def)
qed

definition external_data :: "nat \<Rightarrow> nat \<Rightarrow> u8 list \<Rightarrow> BitStreamLite \<Rightarrow> BitStreamLite option" where
  "external_data t n p = (\<lambda>bs. do {
     bs \<leftarrow> AL_RbspEncoding_BeginSEI2 t n bs;
     let cur = AL_BitStreamLite_GetBitsCount bs div 8;
     let bs = AL_BitStreamLite_SkipBits bs (8 * n);
     if \<not> bs_isOverflow bs
     then (if n \<le> length p \<and> cur + n \<le> length (bs_pData bs)
       then Some (bs\<lparr>bs_pData := take cur (bs_pData bs) @ take n p @ drop (cur + n) (bs_pData bs)\<rparr>)
       else None)
     else Some bs })"

lemma seiExternalWrite_data: "seiExternalWrite t n p = (\<lambda>bs. do { bs \<leftarrow> external_data t n p bs; write_trailing bs })"
  by (simp add: fun_eq_iff seiExternalWrite_def external_data_def AL_RbspEncoding_CloseSEI_def Let_def bind_assoc)

lemma external_data_appends:
  assumes "bs_wf bs" "bs_iBitCount bs = 8 * k" "8 * (k + uv_bytes t + uv_bytes n + n) \<le> bs_iMaxBits bs" "n \<le> length p"
  shows "\<exists>bs'. external_data t n p bs = Some bs' \<and> appends bs (uv_bits t @ uv_bits n @ bytes_bits (take n p)) bs'"
proof -
  let ?h = "k + uv_bytes t + uv_bytes n"
  obtain bs1 where bs1: "AL_RbspEncoding_BeginSEI2 t n bs = Some bs1" "appends bs (uv_bits t @ uv_bits n) bs1"
    using writesD [OF BeginSEI2_writes assms(1)] by blast
  have c: "bs_wf bs1" "bs_iBitCount bs1 = 8 * ?h" "8 * (?h + n) \<le> bs_iMaxBits bs1" "length (take n p) = n"
    using appends_wf [OF bs1(2)] appends_count [OF bs1(2)] appends_max [OF bs1(2)] assms by (simp_all add: length_uv_bits)
  have len: "?h + n \<le> length (bs_pData bs1)" using c(1,3) by (simp add: bs_wf_def)
  have nov: "\<not> bs_isOverflow bs1" using c(1-3) by (simp add: bs_wf_def)
  have skip: "AL_BitStreamLite_SkipBits bs1 (8 * n) = bs1\<lparr>bs_iBitCount := 8 * (?h + n)\<rparr>"
    using c(2,3) by (simp add: AL_BitStreamLite_SkipBits_def Let_def algebra_simps)
  have cur: "AL_BitStreamLite_GetBitsCount bs1 div 8 = ?h" using c(2) by (simp add: AL_BitStreamLite_GetBitsCount_def)
  let ?b = "bs1\<lparr>bs_iBitCount := 8 * (?h + n), bs_pData := take ?h (bs_pData bs1) @ take n p @ drop (?h + n) (bs_pData bs1)\<rparr>"
  have "external_data t n p bs = Some ?b"
    unfolding external_data_def using bs1(1) skip cur nov len assms(4) by (simp add: Let_def)
  moreover have "appends bs1 (bytes_bits (take n p)) ?b" using copy_appends [OF c(1,2), of "take n p"] c(3,4) by simp
  ultimately show ?thesis using appends_trans [OF bs1(2)] by fastforce
qed

lemma user_message_read:
  assumes "holds_unit s (start_code four @ [h] @ escape d @ rest) buf sz" "next_unit rest" "h \<noteq> 0"
    and "bytes_bits d = rbsp_bits (bit_syns (uv_bits t @ uv_bits n @ bytes_bits p))" "d \<noteq> []" "length p = n"
    and "user_type t" "uv_codable t" "uv_codable n" "t < 2 ^ 31" "8 * n < 2 ^ 31" "has_room c 1"
  shows "\<exists>o1 rp1 rp. after_header (AL_SeiParser_Parse (Some ParseAvcSpecificSeis) pre c) (InitRbspParser s buf sz True) =
      Some ((True, with_sent [\<lparr>sm_bPrefix = pre, sm_type = t, sm_pData = o1, sm_size = n\<rparr>] c), rp1)
    \<and> take n (drop o1 (rp_pBuffer rp1)) = p
    \<and> AL_AVC_ParseSEI c pre (InitRbspParser s buf sz True) =
      Some ((True, with_sent [\<lparr>sm_bPrefix = pre, sm_type = t, sm_pData = o1, sm_size = n\<rparr>] c), rp)"
proof -
  obtain B S j rp where r: "after_header (\<lambda>rp. Some ((), rp)) (InitRbspParser s buf sz True) = Some ((), rp)"
      "unit_at B S j (uv_bits t @ uv_bits n @ bytes_bits p) rp"
    using unit_reader [OF assms(1-5)] by blast
  have "8 * j + length (uv_bits t @ uv_bits n @ bytes_bits p) = 8 * (j + uv_bytes t + uv_bytes n + n)"
    using assms(6) by (simp add: length_uv_bits)
  then obtain P R where PR: "bytes_bits B = P @ (uv_bits t @ uv_bits n @ bytes_bits p) @ R" "length P = 8 * j" and ok: "rp_ok B S rp"
      "rp_iCurrentBitIndex rp = 8 * j" "S = 8 * (j + uv_bytes t + uv_bytes n + n)" "short_tail B S" "0 < j"
    using r(2) unfolding unit_at_def by metis
  let ?d = "j + uv_bytes t + uv_bytes n"
  let ?m = "\<lparr>sm_bPrefix = pre, sm_type = t, sm_pData = ?d, sm_size = n\<rparr>"
  obtain rp1 where rp1: "AL_SeiParser_Parse (Some ParseAvcSpecificSeis) pre c rp = Some (send_sei ?m c, rp1)" "rp_ok B S rp1"
      "rp_iCurrentBitIndex rp1 = S"
    using parse_user_message [OF assms(7-11) ok(1,2) _ PR] ok(3) by auto
  note sent = send_sei_room [OF assms(12)]
  obtain rp2 where rp2: "more_rbsp_data rp1 = Some (False, rp2)" "rp_ok B S rp2" "rp_iCurrentBitIndex rp2 = S"
    using more_rbsp_data_false [OF rp1(2,3) ok(4)] by blast
  obtain rp3 where rp3: "rbsp_trailing_bits rp2 = Some (True, rp3)"
    using rbsp_trailing_bits_true [OF rp2(2,3) ok(4)] ok(3,5) by auto
  have loop: "sei_loop (Some ParseAvcSpecificSeis) pre c rp = Some ((True, with_sent [?m] c), rp3)"
    using rp1(1) rp2(1) rp3 sent by (subst sei_loop.simps) simp
  have dr: "bytes_bits (drop ?d B) = bytes_bits p @ R" using PR by (simp add: bytes_bits_drop length_uv_bits)
  have "8 * length (drop ?d B) = 8 * n + length R"
    using arg_cong [OF dr, of length] assms(6) by (simp only: length_append length_bytes_bits)
  then have "n \<le> length (drop ?d B)" by linarith
  then have "bytes_bits (take n (drop ?d B)) = bytes_bits p" using dr assms(6) by (simp only: bytes_bits_take) simp
  then have "take n (drop ?d (rp_pBuffer rp1)) = p"
    using rp_ok_bytes [OF rp1(2), of ?d n] rp1(3) ok(3) bytes_bits_inj by auto
  then show ?thesis
    using after_header_from [OF r(1), of "AL_SeiParser_Parse (Some ParseAvcSpecificSeis) pre c"]
      after_header_from [OF r(1), of "sei_loop (Some ParseAvcSpecificSeis) pre c"] rp1(1) sent loop
    unfolding AL_AVC_ParseSEI_def by (intro exI [of _ ?d] exI [of _ rp1] exI [of _ rp3]) simp
qed



end
