(* ===== verification/Spec2Isabelle.thy ===== *)
theory Spec2Isabelle
  imports VCU_Prelude Fifo Links Work_Pool Bit_Stream Nal_Stream Rbsp_Parser
    Dpb_State Dpb_Ops Dpb_Lists Dpb_Inv Dpb_Remove Dpb_Display Dpb_Cleanup Dpb_Insert Dpb_System Dpb_Marking Dpb_MarkOk Dpb_MarkProc Dpb_MarkLong Dpb_Props Mark_Props Dpb_RefList Avc_PictMngr Avc_Props Syntax_Rw Nal_Trip Rbsp_End Avc_Headers Avc_Write Avc_Parse Avc_Sps Avc_SpsTrip Avc_SpsProps Avc_Pps Avc_Type Avc_Crop Fifo_Live Sei_Write Sei_Parse Sei_Msg Sei_Unit Sei_Trip Sei_Extern
begin

text \<open>
  A verification development for the VCU control software (\<open>vcu-ctrl-sw\<close>), the C library that
  drives an H.264/H.265 hardware encoder and decoder.

  The program. The encoder turns its settings into parameter sets and messages, writes them with a bit
  writer, wraps each into a unit with a start code and emulation prevention, and puts the units in
  front of the slices that the hardware produces. The decoder finds the units in a circular buffer,
  reads their syntax with a parser that removes the emulation prevention, keeps the tables of
  parameter sets, works out the order of the pictures, marks them as references, builds the lists of
  references of a slice, and hands out the pictures in their order from the decoded picture buffer.
  Queues and a pool of buffers connect the threads of both sides.

  \<^bold>\<open>Shared parts.\<close>
  \<^item> \<open>VCU_Prelude\<close>: indices (\<open>Index.h\<close>), arrays with their bounds, ring positions, folds in the option monad.
  \<^item> \<open>Fifo\<close>: the queues of \<open>lib_common\<close> (\<open>StaticFifo.c\<close>, \<open>IntFifo.c\<close>, \<open>Fifo.c\<close>). The locale \<open>bounded_fifo\<close>
    is their common contract, a bounded list of elements; each queue interprets it. The threads on an
    \<open>AL_TFifo\<close> are a step relation with one step for each call of the system: no interleaving loses,
    doubles or reorders an element. \<open>Fifo_Live\<close>: as many puts as takes never deadlock, and all is delivered.
  \<^item> \<open>Links\<close>: doubly linked lists threaded through arrays; \<open>Work_Pool\<close> (\<open>WorkPool.c\<close>) is a refinement of
    a bounded list with removal from its middle.

  \<^bold>\<open>The bit stream.\<close>
  \<^item> \<open>Bit_Stream\<close>: the writer (\<open>BitStreamLite.c\<close>). \<open>appends bs xs bs'\<close> says that a call appends the bits \<open>xs\<close>,
    cut at the end of the buffer, with the overflow flag; \<open>writes f X\<close> says it of a writer from any state.
  \<^item> \<open>Nal_Stream\<close>: start codes, emulation prevention and \<open>WriteNal\<close> (\<open>IP_Stream.c\<close>, \<open>ITU_Section.c\<close>), against the
    automaton \<open>unescape\<close> by which a decoder reads a stream.
  \<^item> \<open>Rbsp_Parser\<close>: the reader of the decoder (\<open>RbspParser.c\<close>), with its fetches from the circular buffer.
    \<open>rp_ok B S rp\<close> relates its state to the bytes \<open>B\<close> of the unit and the place \<open>S\<close> of the stop bit.
    \<open>Rbsp_End\<close>: \<open>more_rbsp_data\<close> and the trailing bits.
  \<^item> \<open>Syntax_Rw\<close>, \<open>Nal_Trip\<close>: a calculus of writers and parsers of syntax elements. \<open>matches w p v\<close> says that
    the parser \<open>p\<close> reads what \<open>w\<close> writes and returns \<open>v\<close>; it is closed under the ways the C code composes its
    elements, and lifts to units sent through \<open>WriteNal\<close>.

  \<^bold>\<open>Parameter sets and messages of AVC.\<close>
  \<^item> \<open>Avc_Headers\<close>, \<open>Avc_Write\<close>, \<open>Avc_Parse\<close>: the structures (\<open>AvcHeaders.h\<close>), \<open>writeSps\<close> and \<open>writePps\<close>
    (\<open>AVC_RbspEncod.c\<close>), and the parser of the sequence parameter set (\<open>AvcParser.c\<close>).
  \<^item> \<open>Avc_Sps\<close>, \<open>Avc_SpsTrip\<close>, \<open>Avc_SpsProps\<close>: the set of the encoder is the set of the decoder, up to the fields
    named by \<open>sps_view\<close>. \<open>Avc_Type\<close>, \<open>Avc_Crop\<close>: any accepted set is within the bounds of the decoder, and its
    cropping window. \<open>Avc_Pps\<close>: the parser of the picture parameter set and its round trip.
  \<^item> \<open>Sei_Write\<close>, \<open>Sei_Parse\<close>: the writers and parsers of supplemental enhancement information
    (\<open>RbspEncod.c\<close>, \<open>NalWriters.c\<close>, \<open>SeiParser.c\<close>). \<open>Sei_Msg\<close>, \<open>Sei_Unit\<close>, \<open>Sei_Trip\<close>: one message, the messages of a
    unit, and the round trip of any choice of them. \<open>Sei_Extern\<close>: the messages of the user.

  \<^bold>\<open>The decoded picture buffer\<close> (\<open>DPB.c\<close>), whose state is the record \<open>AL_TDpb\<close>:
  \<^item> \<open>Dpb_State\<close>, \<open>Dpb_Ops\<close>: nodes, identifiers, the output queue and every operation. The calls into the
    picture manager are a log \<open>dp_log\<close> of references taken, given back and pictures output.
  \<^item> \<open>Dpb_Lists\<close>: its three linked lists share the locale \<open>node_list\<close>. \<open>Dpb_Inv\<close>: the invariant.
    \<open>Dpb_Remove\<close>, \<open>Dpb_Display\<close>, \<open>Dpb_Cleanup\<close>, \<open>Dpb_Insert\<close>: each operation keeps it and does what it promises.
    \<open>Dpb_System\<close>: sequences of calls.
  \<^item> \<open>Dpb_Marking\<close>: the marking process of AVC; \<open>Dpb_MarkOk\<close>, \<open>Dpb_MarkProc\<close>, \<open>Dpb_MarkLong\<close>: each of its
    operations. \<open>Dpb_Props\<close>, \<open>Mark_Props\<close>: the properties, over the states \<open>dpb_reach\<close> that the calls reach.
  \<^item> \<open>Dpb_RefList\<close>, \<open>Avc_PictMngr\<close>, \<open>Avc_Props\<close>: the lists of references of a slice, the picture order count, gaps
    in the frame numbers and the end of a picture (\<open>Avc_PictMngr.c\<close>, \<open>AvcDecoder.c\<close>).

  \<^bold>\<open>Conventions.\<close> A C struct is a record, an enum a datatype, a function that changes what a pointer leads to takes
  the structure and returns it. The value \<^const>\<open>None\<close> of a model is undefined behaviour of the C code (an
  access out of bounds, a signed overflow), a failed assertion, or a loop that does not end; the theorems
  show it does not happen where they say so. Bytes and words are machine words where they are computed
  with bit by bit; fields of structures are naturals reduced to the width of the field when they are
  stored, and \<open>int32_t\<close> is \<open>int\<close> with the wrap-around or the failure written out.

  \<^bold>\<open>Bounds.\<close> A walk along a list of the picture buffer has the fuel \<open>AL_REF_MNGR_MAX_BUF_SIZE\<close> (34), the number of nodes,
  and the invariant makes a list no longer. The gap loop has one turn for each frame number. The loops of the
  parser have the number of bits left, and an alignment eight turns. \<open>fetch_data\<close> calls itself once through
  the trailing bits, so it is modelled to the depth of two calls, which is enough because the fetching is then complete. The loops over the flags and over the bytes of a SEI message
  and over its messages are partial functions: the theorems show that they return.

  \<^bold>\<open>Not modelled.\<close> The syntax of HEVC and the slice headers of AVC; the top levels of the encoder and the decoder,
  their feeders and schedulers, which talk to the driver; reference counted buffers and their allocators;
  settings, levels and formats, which are tables; the wrappers of the operating system, of which the queue
  uses a mutex and two semaphores by their documented behaviour; the programs in C++ around the library.
\<close>

end
